(* ===== verification/TT_Prelude.thy ===== *)
theory TT_Prelude
  imports Main "HOL-Library.AList"
begin

unbundle bit_operations_syntax

text \<open>
  What every component of the model shares: the exceptions of the Python code as values, a
  result type with its sequencing, the pieces of Python and of its standard library the sources
  use (insertion-ordered dictionaries, slices, \<open>bisect_left\<close>, \<open>bit_length\<close>), and the generic
  lemmas about them.

  Python's unbounded integers are \<open>int\<close>; lengths and list positions, which the sources keep
  non-negative, are \<open>nat\<close>. A dictionary is an association list with distinct keys: updating an
  existing key keeps its place and a new key is appended (\<open>AList.update\<close>), as in Python.
\<close>

section \<open>Exceptions and results\<close>

datatype py_error =
    AssertionError | IndexError | KeyError | ValueError | TypeError
  | NotImplementedError | RuntimeError | ZeroDivisionError | OverflowError | NameError | AttributeError

type_synonym 'a res = "py_error + 'a"

fun rbind :: "'a res \<Rightarrow> ('a \<Rightarrow> 'b res) \<Rightarrow> 'b res" where
  "rbind (Inl e) f = Inl e"
| "rbind (Inr x) f = f x"

definition rassert :: "bool \<Rightarrow> unit res" where
  "rassert b = (if b then Inr () else Inl AssertionError)"

definition rguard :: "bool \<Rightarrow> py_error \<Rightarrow> unit res" where
  "rguard b e = (if b then Inr () else Inl e)"

text \<open>A Python \<open>for\<close> loop whose body may raise and which updates a state.\<close>

fun rfold :: "('s \<Rightarrow> 'a \<Rightarrow> 's res) \<Rightarrow> 's \<Rightarrow> 'a list \<Rightarrow> 's res" where
  "rfold f s [] = Inr s"
| "rfold f s (x # xs) = rbind (f s x) (\<lambda>s'. rfold f s' xs)"

text \<open>A list comprehension whose element expression may raise.\<close>

fun rmap :: "('a \<Rightarrow> 'b res) \<Rightarrow> 'a list \<Rightarrow> 'b list res" where
  "rmap f [] = Inr []"
| "rmap f (x # xs) = rbind (f x) (\<lambda>y. rbind (rmap f xs) (\<lambda>ys. Inr (y # ys)))"

definition is_ok :: "'a res \<Rightarrow> bool" where
  "is_ok r = (case r of Inl _ \<Rightarrow> False | Inr _ \<Rightarrow> True)"

named_theorems res_simps

lemma rbind_Inr_iff [res_simps]: "rbind m f = Inr y \<longleftrightarrow> (\<exists>x. m = Inr x \<and> f x = Inr y)"
  by (cases m) auto

lemma rbind_cong [fundef_cong]:
  "m = m' \<Longrightarrow> (\<And>x. m' = Inr x \<Longrightarrow> f x = g x) \<Longrightarrow> rbind m f = rbind m' g"
  by (cases m') auto

lemma rbind_Inl_iff: "rbind m f = Inl e \<longleftrightarrow> m = Inl e \<or> (\<exists>x. m = Inr x \<and> f x = Inl e)"
  by (cases m) auto

lemma rassert_Inr [res_simps]: "rassert b = Inr u \<longleftrightarrow> b"
  by (auto simp: rassert_def)

lemma rassert_True [simp]: "rassert True = Inr ()"
  by (simp add: rassert_def)

lemma rguard_Inr [res_simps]: "rguard b e = Inr u \<longleftrightarrow> b"
  by (auto simp: rguard_def)

lemma rguard_True [simp]: "rguard True e = Inr ()"
  by (simp add: rguard_def)

lemma rfold_append: "rfold f s (xs @ ys) = rbind (rfold f s xs) (\<lambda>s'. rfold f s' ys)"
proof (induction xs arbitrary: s)
  case (Cons x xs)
  then show ?case by (cases "f s x") auto
qed simp

text \<open>The loop rule: an invariant kept by every successful iteration holds at the end.\<close>

lemma rfold_invariant:
  assumes "rfold f s xs = Inr t" and "I s"
    and "\<And>s x s'. I s \<Longrightarrow> x \<in> set xs \<Longrightarrow> f s x = Inr s' \<Longrightarrow> I s'"
  shows "I t"
  using assms
proof (induction xs arbitrary: s)
  case (Cons x xs)
  from Cons.prems(1) obtain s' where s': "f s x = Inr s'" "rfold f s' xs = Inr t"
    by (auto simp: res_simps)
  have "I s'" using Cons.prems(2,3) s'(1) by auto
  with s'(2) Cons.prems(3) show ?case by (intro Cons.IH) auto
qed simp

lemma rmap_Inr_conv:
  "rmap f xs = Inr ys \<longleftrightarrow> length ys = length xs \<and> (\<forall>i < length xs. f (xs ! i) = Inr (ys ! i))"
proof (induction xs arbitrary: ys)
  case (Cons x xs)
  show ?case
    by (cases ys) (auto simp: res_simps Cons.IH nth_Cons less_Suc_eq_0_disj split: nat.splits)
qed auto

section \<open>Python dictionaries and sets\<close>

type_synonym ('k, 'v) dict = "('k \<times> 'v) list"

abbreviation dget :: "('k, 'v) dict \<Rightarrow> 'k \<Rightarrow> 'v option" where
  "dget d k \<equiv> map_of d k"

abbreviation dset :: "('k, 'v) dict \<Rightarrow> 'k \<Rightarrow> 'v \<Rightarrow> ('k, 'v) dict" where
  "dset d k v \<equiv> AList.update k v d"

abbreviation dpop :: "('k, 'v) dict \<Rightarrow> 'k \<Rightarrow> ('k, 'v) dict" where
  "dpop d k \<equiv> AList.delete k d"

abbreviation dkeys :: "('k, 'v) dict \<Rightarrow> 'k list" where
  "dkeys d \<equiv> map fst d"

definition ditem :: "('k, 'v) dict \<Rightarrow> 'k \<Rightarrow> 'v res" where
  "ditem d k = (case dget d k of None \<Rightarrow> Inl KeyError | Some v \<Rightarrow> Inr v)"

lemma ditem_Inr [res_simps]: "ditem d k = Inr v \<longleftrightarrow> dget d k = Some v"
  by (auto simp: ditem_def split: option.splits)

lemma dget_dset [simp]: "dget (dset d k v) = (dget d)(k \<mapsto> v)"
  by (auto simp: update_conv' fun_upd_def)

lemma dget_dpop [simp]: "dget (dpop d k) = (dget d)(k := None)"
  by (auto simp: delete_conv' fun_upd_def)

lemma dkeys_dset: "set (dkeys (dset d k v)) = insert k (set (dkeys d))"
  by (auto simp: dom_map_of_conv_image_fst [symmetric])

lemma dkeys_dpop: "set (dkeys (dpop d k)) = set (dkeys d) - {k}"
  by (auto simp: dom_map_of_conv_image_fst [symmetric])

lemma length_dset:
  "length (dset d k v) = (if k \<in> set (dkeys d) then length d else Suc (length d))"
  by (induction d) auto

lemma dget_None_iff: "dget d k = None \<longleftrightarrow> k \<notin> set (dkeys d)"
  by (simp add: map_of_eq_None_iff)

lemma dpop_absent: "k \<notin> set (dkeys d) \<Longrightarrow> dpop d k = d"
  by (induction d) auto

lemma distinct_dpop: "distinct (dkeys d) \<Longrightarrow> distinct (dkeys (dpop d k))"
  by (rule distinct_delete)

lemma length_dpop:
  "distinct (dkeys d) \<Longrightarrow>
   length (dpop d k) = (if k \<in> set (dkeys d) then length d - 1 else length d)"
proof (induction d)
  case (Cons p d)
  show ?case
  proof (cases "fst p = k")
    case True
    with Cons.prems have "k \<notin> set (dkeys d)" by auto
    with True show ?thesis by (simp add: dpop_absent)
  next
    case False
    with Cons have "length (dpop d k) = (if k \<in> set (dkeys d) then length d - 1 else length d)"
      by simp
    moreover have "d \<noteq> []" if "k \<in> set (dkeys d)" using that by auto
    ultimately show ?thesis using False by (auto simp: Suc_diff_le)
  qed
qed simp

text \<open>\<open>swap_dict_values(d, k1, k2)\<close> has the documented effect of exchanging two entries.\<close>

definition dswap :: "('k, 'v) dict \<Rightarrow> 'k \<Rightarrow> 'k \<Rightarrow> ('k, 'v) dict" where
  "dswap d k1 k2 =
     (let v1 = dget d k1; v2 = dget d k2;
          d1 = (case v1 of Some v \<Rightarrow> dset d k2 v | None \<Rightarrow> dpop d k2)
      in (case v2 of Some v \<Rightarrow> dset d1 k1 v | None \<Rightarrow> dpop d1 k1))"

lemma dget_dswap:
  "dget (dswap d a b) k = (if k = a then dget d b else if k = b then dget d a else dget d k)"
  by (auto simp: dswap_def Let_def split: option.splits)

section \<open>Python lists and slices\<close>

text \<open>\<open>xs[i] = v\<close> and \<open>xs[i]\<close> for a non-negative index.\<close>

definition lset :: "'a list \<Rightarrow> nat \<Rightarrow> 'a \<Rightarrow> 'a list res" where
  "lset xs i v = (if i < length xs then Inr (xs[i := v]) else Inl IndexError)"

definition lget :: "'a list \<Rightarrow> nat \<Rightarrow> 'a res" where
  "lget xs i = (if i < length xs then Inr (xs ! i) else Inl IndexError)"

lemma lset_Inr [res_simps]: "lset xs i v = Inr ys \<longleftrightarrow> i < length xs \<and> ys = xs[i := v]"
  by (auto simp: lset_def)

lemma lget_Inr [res_simps]: "lget xs i = Inr x \<longleftrightarrow> i < length xs \<and> x = xs ! i"
  by (auto simp: lget_def)

lemma lget_ok [simp]: "i < length xs \<Longrightarrow> lget xs i = Inr (xs ! i)"
  by (simp add: lget_def)

lemma lset_ok [simp]: "i < length xs \<Longrightarrow> lset xs i v = Inr (xs[i := v])"
  by (simp add: lset_def)

text \<open>A Python slice \<open>xs[a:b]\<close> with non-negative bounds, and \<open>xs[-n:]\<close>.\<close>

definition slice :: "'a list \<Rightarrow> nat \<Rightarrow> nat \<Rightarrow> 'a list" where
  "slice xs a b = take (b - a) (drop a xs)"

definition last_n :: "'a list \<Rightarrow> nat \<Rightarrow> 'a list" where
  "last_n xs n = drop (length xs - n) xs"

lemma length_slice [simp]: "length (slice xs a b) = min (b - a) (length xs - a)"
  by (simp add: slice_def min.commute)

lemma nth_slice [simp]: "i < b - a \<Longrightarrow> a + i < length xs \<Longrightarrow> slice xs a b ! i = xs ! (a + i)"
  by (simp add: slice_def)

text \<open>
  The numpy and torch row assignment \<open>row[a:b] = vs\<close>: the slice is clamped to the row, and
  the lengths must agree unless a single value is broadcast.
\<close>

definition slice_assign :: "'a list \<Rightarrow> nat \<Rightarrow> nat \<Rightarrow> 'a list \<Rightarrow> 'a list res" where
  "slice_assign row a b vs =
     (let hi = min b (length row); lo = min a hi; n = hi - lo
      in if length vs = n then Inr (take lo row @ vs @ drop hi row)
         else if length vs = 1 then Inr (take lo row @ replicate n (hd vs) @ drop hi row)
         else Inl ValueError)"

definition slice_fill :: "'a list \<Rightarrow> nat \<Rightarrow> nat \<Rightarrow> 'a \<Rightarrow> 'a list" where
  "slice_fill row a b v =
     (let hi = min b (length row); lo = min a hi
      in take lo row @ replicate (hi - lo) v @ drop hi row)"

lemma length_slice_fill [simp]: "length (slice_fill row a b v) = length row"
  by (auto simp: slice_fill_def Let_def min_def)

lemma nth_slice_fill:
  "i < length row \<Longrightarrow> slice_fill row a b v ! i = (if a \<le> i \<and> i < b then v else row ! i)"
  by (auto simp: slice_fill_def Let_def nth_append min_def)

lemma slice_assign_length [res_simps]:
  "slice_assign row a b vs = Inr row' \<Longrightarrow> length row' = length row"
  by (auto simp: slice_assign_def Let_def min_def split: if_splits)

lemma slice_assign_fits:
  assumes "a \<le> b" "b \<le> length row" "length vs = b - a"
  shows "slice_assign row a b vs = Inr (take a row @ vs @ drop b row)"
  using assms by (simp add: slice_assign_def Let_def min_def)

lemma nth_take_mid_drop:
  assumes "a \<le> b" "b \<le> length row" "length vs = b - a" "i < length row"
  shows "(take a row @ vs @ drop b row) ! i =
         (if a \<le> i \<and> i < b then vs ! (i - a) else row ! i)"
  using assms by (auto simp: nth_append min_def)

section \<open>Arithmetic of the standard library\<close>

text \<open>\<open>int.bit_length\<close> for a non-negative integer.\<close>

fun bit_length :: "nat \<Rightarrow> nat" where
  "bit_length n = (if n = 0 then 0 else Suc (bit_length (n div 2)))"

declare bit_length.simps [simp del]

lemma bit_length_0 [simp]: "bit_length 0 = 0"
  by (simp add: bit_length.simps)

lemma bit_length_bounds:
  "n > 0 \<Longrightarrow> 2 ^ (bit_length n - 1) \<le> n \<and> n < 2 ^ bit_length n \<and> bit_length n > 0"
proof (induction n rule: bit_length.induct)
  case (1 n)
  show ?case
  proof (cases "n div 2 = 0")
    case True
    with "1.prems" have "n = 1" by auto
    moreover have "bit_length 1 = 1"
      by (simp add: bit_length.simps [of "Suc 0"])
    ultimately show ?thesis by simp
  next
    case False
    let ?m = "n div 2"
    have IH: "2 ^ (bit_length ?m - 1) \<le> ?m" "?m < 2 ^ bit_length ?m" "bit_length ?m > 0"
      using "1.IH" "1.prems" False by auto
    have eq: "bit_length n = Suc (bit_length ?m)"
      using "1.prems" by (simp add: bit_length.simps [of n])
    have "(2::nat) ^ bit_length ?m = 2 * 2 ^ (bit_length ?m - 1)"
      using IH(3) by (cases "bit_length ?m") auto
    then have "(2::nat) ^ bit_length ?m \<le> 2 * ?m" using IH(1) by simp
    then have "2 ^ (bit_length n - 1) \<le> n" using eq by simp
    moreover have "n < 2 ^ bit_length n" using IH(2) eq by simp
    ultimately show ?thesis using eq by simp
  qed
qed

text \<open>\<open>bisect.bisect_left(a, x)\<close>: the binary search of the standard library.\<close>

function bisect_left_loop :: "'a::linorder list \<Rightarrow> 'a \<Rightarrow> nat \<Rightarrow> nat \<Rightarrow> nat" where
  "bisect_left_loop a x lo hi =
     (if lo < hi then
        let mid = (lo + hi) div 2
        in if a ! mid < x then bisect_left_loop a x (Suc mid) hi
           else bisect_left_loop a x lo mid
      else lo)"
  by pat_completeness auto
termination
  by (relation "measure (\<lambda>(a, x, lo, hi). hi - lo)") auto

declare bisect_left_loop.simps [simp del]

definition bisect_left :: "'a::linorder list \<Rightarrow> 'a \<Rightarrow> nat" where
  "bisect_left a x = bisect_left_loop a x 0 (length a)"

lemma bisect_left_loop_correct:
  assumes "sorted a" "lo \<le> hi" "hi \<le> length a"
    and "\<And>i. i < lo \<Longrightarrow> a ! i < x" and "\<And>i. hi \<le> i \<Longrightarrow> i < length a \<Longrightarrow> x \<le> a ! i"
  shows "bisect_left_loop a x lo hi \<le> length a \<and>
         (\<forall>i < bisect_left_loop a x lo hi. a ! i < x) \<and>
         (\<forall>i. bisect_left_loop a x lo hi \<le> i \<and> i < length a \<longrightarrow> x \<le> a ! i)"
  using assms
proof (induction a x lo hi rule: bisect_left_loop.induct)
  case (1 a x lo hi)
  show ?case
  proof (cases "lo < hi")
    case False
    with "1.prems" have "lo = hi" by simp
    moreover have "bisect_left_loop a x lo hi = lo"
      using False by (subst bisect_left_loop.simps) simp
    ultimately show ?thesis using "1.prems" by auto
  next
    case True
    define mid where "mid = (lo + hi) div 2"
    have mid: "lo \<le> mid" "mid < hi" using True by (auto simp: mid_def)
    show ?thesis
    proof (cases "a ! mid < x")
      case less: True
      have "a ! i < x" if "i < Suc mid" for i
        using that less "1.prems"(1,3) mid by (meson le_less_trans less_Suc_eq_le order.strict_trans2 sorted_nth_mono)
      then have "bisect_left_loop a x (Suc mid) hi \<le> length a \<and>
         (\<forall>i < bisect_left_loop a x (Suc mid) hi. a ! i < x) \<and>
         (\<forall>i. bisect_left_loop a x (Suc mid) hi \<le> i \<and> i < length a \<longrightarrow> x \<le> a ! i)"
        using "1.IH"(1) [OF True mid_def less "1.prems"(1)] "1.prems"(3,5) mid
        by (meson Suc_leI)
      with True less show ?thesis
        by (simp add: bisect_left_loop.simps [of a x lo hi] Let_def mid_def [symmetric])
    next
      case ge: False
      have "x \<le> a ! i" if "mid \<le> i" "i < length a" for i
        using that ge "1.prems"(1) by (meson linorder_not_less order_trans sorted_nth_mono)
      then have "bisect_left_loop a x lo mid \<le> length a \<and>
         (\<forall>i < bisect_left_loop a x lo mid. a ! i < x) \<and>
         (\<forall>i. bisect_left_loop a x lo mid \<le> i \<and> i < length a \<longrightarrow> x \<le> a ! i)"
        using "1.IH"(2) [OF True mid_def ge "1.prems"(1)] "1.prems"(3,4) mid
        by (meson less_imp_le order_trans)
      with True ge show ?thesis
        by (simp add: bisect_left_loop.simps [of a x lo hi] Let_def mid_def [symmetric])
    qed
  qed
qed

lemma bisect_left_correct:
  assumes "sorted a"
  shows "bisect_left a x \<le> length a"
    and "i < bisect_left a x \<Longrightarrow> a ! i < x"
    and "bisect_left a x \<le> i \<Longrightarrow> i < length a \<Longrightarrow> x \<le> a ! i"
proof -
  have "bisect_left_loop a x 0 (length a) \<le> length a \<and>
         (\<forall>i < bisect_left_loop a x 0 (length a). a ! i < x) \<and>
         (\<forall>i. bisect_left_loop a x 0 (length a) \<le> i \<and> i < length a \<longrightarrow> x \<le> a ! i)"
    using assms by (intro bisect_left_loop_correct) simp_all
  then show "bisect_left a x \<le> length a"
    and "i < bisect_left a x \<Longrightarrow> a ! i < x"
    and "bisect_left a x \<le> i \<Longrightarrow> i < length a \<Longrightarrow> x \<le> a ! i"
    by (simp_all add: bisect_left_def)
qed

text \<open>
  The ceiling division \<open>cdiv\<close> the sources import from vLLM is a parameter of the definitions
  that call it; this is its documented behaviour.
\<close>

definition ceil_div_spec :: "(int \<Rightarrow> int \<Rightarrow> int) \<Rightarrow> bool" where
  "ceil_div_spec cdiv = (\<forall>a b. 0 < b \<longrightarrow> a \<le> cdiv a b * b \<and> (cdiv a b - 1) * b < a)"

lemma ceil_div_spec_instance: "ceil_div_spec (\<lambda>a b. - ((- a) div b))"
proof -
  have "a \<le> - ((- a) div b) * b \<and> (- ((- a) div b) - 1) * b < a" if "0 < b" for a b :: int
  proof -
    have "(- a) div b * b + (- a) mod b = - a" by simp
    moreover have "0 \<le> (- a) mod b" "(- a) mod b < b" using that by auto
    moreover have "(- ((- a) div b) - 1) * b = - ((- a) div b * b) - b" by (simp add: algebra_simps)
    ultimately show ?thesis by linarith
  qed
  then show ?thesis by (simp add: ceil_div_spec_def)
qed

lemma ceil_div_pos:
  assumes "ceil_div_spec cdiv" "0 < b" "0 < a"
  shows "0 < cdiv a b"
proof (rule ccontr)
  assume "\<not> 0 < cdiv a b"
  then have "cdiv a b * b \<le> 0" using assms(2) by (simp add: mult_nonpos_nonneg)
  moreover have "a \<le> cdiv a b * b" using assms by (auto simp: ceil_div_spec_def)
  ultimately show False using assms(3) by simp
qed

text \<open>The index arithmetic of fixed-size blocks.\<close>

lemma block_index_unique:
  fixes a b s :: nat
  assumes "i < s" "j < s" "a * s + i = b * s + j"
  shows "a = b \<and> i = j"
proof -
  have "(a * s + i) div s = (b * s + j) div s" using assms(3) by simp
  then have "a = b" using assms(1,2) by simp
  with assms(3) show ?thesis by simp
qed

section \<open>Concatenated rows\<close>

lemma upt_split: "a \<le> b \<Longrightarrow> b \<le> c \<Longrightarrow> [a..<b] @ [b..<c] = [a..<c]"
  using upt_add_eq_append [of a b "c - b"] by simp

lemma concat_twice: "concat (concat xsss) = concat (map concat xsss)"
  by (induction xsss) auto

lemma zip_concat:
  assumes "\<forall>x \<in> set xs. length (A x) = length (B x)"
  shows "zip (concat (map A xs)) (concat (map B xs)) = concat (map (\<lambda>x. zip (A x) (B x)) xs)"
  using assms by (induction xs) (auto simp: zip_append)

lemma map2_concat:
  assumes "\<forall>x \<in> set xs. length (A x) = length (B x)"
  shows "map2 f (concat (map A xs)) (concat (map B xs)) = concat (map (\<lambda>x. map2 f (A x) (B x)) xs)"
  using assms by (induction xs) (auto simp: zip_append)

lemma rmap_all: "\<forall>x \<in> set xs. f x = Inr (g x) \<Longrightarrow> rmap f xs = Inr (map g xs)"
  by (induction xs) auto

lemma concat_cell:
  assumes "\<forall>row \<in> set xss. length row = m" "r < length xss" "j < m"
  shows "r * m + j < length (concat xss)" and "concat xss ! (r * m + j) = xss ! r ! j"
  using assms
proof (induction xss arbitrary: r)
  case (Cons xs xss)
  { case 1 with Cons show ?case by (cases r) (auto simp: nth_append) }
  { case 2 with Cons show ?case by (cases r) (auto simp: nth_append) }
qed simp_all

end
