(* ===== verification/Paddings.thy ===== *)
theory Paddings
  imports TT_Prelude
begin

text \<open>
  The padding arithmetic of the vLLM plugin: the power-of-two context lengths the runners
  pre-compile (\<open>model_runner.py\<close>, \<open>pooling_runner.py\<close>), the padded number of requests, the
  KV-cache update slices, the page sizes of \<open>attention.py\<close> and the mesh shape of
  \<open>vllm_utils.py\<close>. Token counts are Python integers (\<open>int\<close>). vLLM's \<open>cdiv\<close> and
  \<open>prev_power_of_2\<close> are parameters.
\<close>

section \<open>Powers of two\<close>

definition int_bit_length :: "int \<Rightarrow> nat" where
  "int_bit_length x = bit_length (nat \<bar>x\<bar>)"

lemma int_bit_length_bounds:
  assumes "0 < x"
  shows "2 ^ (int_bit_length x - 1) \<le> x" "x < 2 ^ int_bit_length x" "0 < int_bit_length x"
proof -
  have *: "2 ^ (bit_length (nat x) - 1) \<le> nat x \<and> nat x < 2 ^ bit_length (nat x)
      \<and> bit_length (nat x) > 0"
    using assms by (intro bit_length_bounds) simp
  from * have "int (2 ^ (bit_length (nat x) - 1)) \<le> int (nat x)" by (simp only: of_nat_le_iff)
  with assms show "2 ^ (int_bit_length x - 1) \<le> x" by (simp add: int_bit_length_def)
  from * have "int (nat x) < int (2 ^ bit_length (nat x))" by (simp only: of_nat_less_iff)
  with assms show "x < 2 ^ int_bit_length x" by (simp add: int_bit_length_def)
  from * assms show "0 < int_bit_length x" by (simp add: int_bit_length_def)
qed

text \<open>The bit trick \<open>m & (m - 1) == 0\<close> holds of a positive integer iff it is a power of two.\<close>

lemma pow2_and_pred: "(2::int) ^ k AND (2 ^ k - 1) = 0"
proof -
  have "(2::int) ^ k - 1 = mask k" by (simp add: mask_eq_exp_minus_1)
  then have "(2::int) ^ k AND (2 ^ k - 1) = take_bit k (2 ^ k)" by (simp add: take_bit_eq_mask)
  then show ?thesis by simp
qed

lemma and_pred_zero_imp_pow2:
  fixes m :: int
  assumes "0 < m" "m AND (m - 1) = 0"
  shows "m = 2 ^ (int_bit_length m - 1)"
proof (rule ccontr)
  define k where "k = int_bit_length m - 1"
  assume "m \<noteq> 2 ^ (int_bit_length m - 1)"
  then have ne: "m \<noteq> 2 ^ k" by (simp add: k_def)
  have b: "2 ^ k \<le> m" "m < 2 ^ Suc k"
    using int_bit_length_bounds [OF assms(1)] by (auto simp: k_def)
  have top: "bit x k" if "2 ^ k \<le> x" "x < 2 ^ Suc k" for x :: int
  proof -
    have "x div 2 ^ k = 1"
      using that by (intro int_div_pos_eq [where r = "x - 2 ^ k"]) auto
    then show ?thesis by (simp add: bit_iff_odd)
  qed
  have "bit m k" "bit (m - 1) k" using top b ne by auto
  then have "bit (m AND (m - 1)) k" by (simp add: bit_and_iff)
  with assms(2) show False by simp
qed

lemma pow2_ge_unique:
  fixes x :: int
  assumes "1 < x"
  shows "x \<le> 2 ^ int_bit_length (x - 1)" "2 ^ int_bit_length (x - 1) < 2 * x"
proof -
  have p: "0 < x - 1" using assms by simp
  note b = int_bit_length_bounds [OF p]
  show "x \<le> 2 ^ int_bit_length (x - 1)" using b(2) by simp
  have "(2::int) ^ int_bit_length (x - 1) = 2 * 2 ^ (int_bit_length (x - 1) - 1)"
    using b(3) by (cases "int_bit_length (x - 1)") auto
  then show "2 ^ int_bit_length (x - 1) < 2 * x" using b(1) by simp
qed

lemma shift_one: "push_bit k (1::int) = 2 ^ k"
  by (simp add: push_bit_eq_mult)

section \<open>Token paddings\<close>

definition adjust_min_token :: "int \<Rightarrow> int" where
  "adjust_min_token min_token_size =
     (if min_token_size AND (min_token_size - 1) = 0 \<and> 32 \<le> min_token_size
      then min_token_size
      else if 32 < min_token_size then push_bit (int_bit_length (min_token_size - 1)) 1
      else 32)"

text \<open>The \<open>while True\<close> loop: it appends, tests, doubles. \<open>None\<close> would be a loop that never
  stops, which a non-positive start could cause.\<close>

partial_function (option) padding_loop :: "int \<Rightarrow> int \<Rightarrow> int list \<Rightarrow> int list option" where
  "padding_loop max_token_size num paddings =
     (if max_token_size \<le> num then Some (paddings @ [num])
      else padding_loop max_token_size (num * 2) (paddings @ [num]))"

definition get_token_paddings :: "int \<Rightarrow> int \<Rightarrow> int list option" where
  "get_token_paddings min_token_size max_token_size =
     padding_loop max_token_size (adjust_min_token min_token_size) [1]"

definition pooling_token_paddings :: "int \<Rightarrow> int \<Rightarrow> int list option" where
  "pooling_token_paddings min_token_size max_token_size =
     padding_loop max_token_size (adjust_min_token min_token_size) []"

definition get_padded_token_len :: "int list \<Rightarrow> int \<Rightarrow> int res" where
  "get_padded_token_len paddings x =
     (let index = bisect_left paddings x
      in if index < length paddings then Inr (paddings ! index) else Inl AssertionError)"

lemma adjust_min_token_pow2: "\<exists>k \<ge> 5. adjust_min_token m = 2 ^ k"
proof -
  have exp5: "5 \<le> k" if "(32::int) \<le> 2 ^ k" for k :: nat
  proof (rule ccontr)
    assume "\<not> 5 \<le> k"
    then have "(2::int) ^ k < 2 ^ 5" by (intro power_strict_increasing) auto
    with that show False by simp
  qed
  consider (keep) "m AND (m - 1) = 0" "32 \<le> m" | (up) "\<not> (m AND (m - 1) = 0 \<and> 32 \<le> m)" "32 < m"
    | (small) "\<not> (m AND (m - 1) = 0 \<and> 32 \<le> m)" "\<not> 32 < m" by blast
  then show ?thesis
  proof cases
    case keep
    then have "m = 2 ^ (int_bit_length m - 1)" by (intro and_pred_zero_imp_pow2) auto
    then show ?thesis using keep exp5 by (metis adjust_min_token_def)
  next
    case up
    then have "m \<le> 2 ^ int_bit_length (m - 1)" by (intro pow2_ge_unique) simp
    with up have "5 \<le> int_bit_length (m - 1)" by (intro exp5) simp
    then show ?thesis using up by (auto simp: adjust_min_token_def shift_one)
  next
    case small
    then have "adjust_min_token m = 2 ^ 5" by (auto simp: adjust_min_token_def)
    then show ?thesis by blast
  qed
qed

lemma adjust_min_token_bounds:
  "m \<le> adjust_min_token m" "32 \<le> adjust_min_token m" "32 \<le> m \<Longrightarrow> adjust_min_token m < 2 * m"
  using pow2_ge_unique [of m] by (auto simp: adjust_min_token_def shift_one)

text \<open>What the loop returns, in closed form: the doublings up to the first that covers the
  maximum.\<close>

lemma padding_loop_closed:
  assumes "0 < num" and "mx \<le> num * 2 ^ n" and "\<And>i. i < n \<Longrightarrow> num * 2 ^ i < mx"
  shows "padding_loop mx num ps = Some (ps @ map (\<lambda>i. num * 2 ^ i) [0..<Suc n])"
  using assms
proof (induction n arbitrary: num ps)
  case 0
  then show ?case by (simp add: padding_loop.simps)
next
  case (Suc n)
  have lt: "num < mx" using Suc.prems(3) [of 0] by simp
  have "padding_loop mx (num * 2) (ps @ [num]) =
      Some ((ps @ [num]) @ map (\<lambda>i. num * 2 * 2 ^ i) [0..<Suc n])"
  proof (rule Suc.IH)
    show "num * 2 * 2 ^ i < mx" if "i < n" for i using Suc.prems(3) [of "Suc i"] that by (simp add: ac_simps)
  qed (use Suc.prems in \<open>auto simp: ac_simps\<close>)
  moreover have "map (\<lambda>i. num * 2 ^ i) [0..<Suc (Suc n)] =
      num # map (\<lambda>i. num * 2 * 2 ^ i) [0..<Suc n]"
    by (simp add: upt_conv_Cons map_Suc_upt [symmetric] comp_def ac_simps del: upt_Suc)
  ultimately show ?case using lt by (subst padding_loop.simps) simp
qed

lemma doublings_exist:
  fixes num mx :: int
  assumes "0 < num"
  obtains n where "mx \<le> num * 2 ^ n" "\<And>i. i < n \<Longrightarrow> num * 2 ^ i < mx"
proof -
  have ex: "\<exists>n. mx \<le> num * 2 ^ n"
  proof
    have "mx \<le> int (nat mx)" by simp
    also have "int (nat mx) \<le> int (2 ^ nat mx)" by (simp only: of_nat_le_iff less_imp_le [OF less_exp])
    also have "\<dots> = 2 ^ nat mx" by simp
    also have "\<dots> \<le> num * 2 ^ nat mx" using assms by simp
    finally show "mx \<le> num * 2 ^ nat mx" .
  qed
  define n where "n = (LEAST n. mx \<le> num * 2 ^ n)"
  have "mx \<le> num * 2 ^ n" unfolding n_def by (rule LeastI_ex [OF ex])
  moreover have "num * 2 ^ i < mx" if "i < n" for i
    using not_less_Least [OF that [unfolded n_def]] by simp
  ultimately show ?thesis by (rule that)
qed

lemma padding_loop_returns:
  assumes "0 < num"
  obtains n where "padding_loop mx num ps = Some (ps @ map (\<lambda>i. num * 2 ^ i) [0..<Suc n])"
    "mx \<le> num * 2 ^ n" "\<And>i. i < n \<Longrightarrow> num * 2 ^ i < mx"
  using doublings_exist [OF assms, of mx] padding_loop_closed [OF assms] by metis

lemma adjust_min_token_pos: "0 < adjust_min_token m"
  using adjust_min_token_bounds(2) [of m] by simp

lemma sorted_doublings:
  assumes "(0::int) < num"
  shows "sorted (map (\<lambda>i. num * 2 ^ i) [0..<n])"
  using assms by (induction n) (auto simp: sorted_append intro!: power_increasing)


lemma token_paddings_shape:
  obtains n where
    "get_token_paddings mn mx = Some (1 # map (\<lambda>i. adjust_min_token mn * 2 ^ i) [0..<Suc n])"
    "mx \<le> adjust_min_token mn * 2 ^ n"
    "\<And>i. i < n \<Longrightarrow> adjust_min_token mn * 2 ^ i < mx"
  using padding_loop_returns [OF adjust_min_token_pos [of mn], of mx "[1]"]
  by (auto simp: get_token_paddings_def)

lemma token_paddings_sorted:
  assumes "get_token_paddings mn mx = Some ps"
  shows "sorted ps"
proof -
  obtain n where ps: "ps = 1 # map (\<lambda>i. adjust_min_token mn * 2 ^ i) [0..<Suc n]"
    using token_paddings_shape [of mn mx] assms by (metis option.inject)
  have "1 \<le> adjust_min_token mn * 2 ^ i" for i
  proof -
    have "1 * 1 \<le> adjust_min_token mn * 2 ^ i"
      using adjust_min_token_bounds(2) [of mn] by (intro mult_mono) auto
    then show ?thesis by simp
  qed
  then show ?thesis using sorted_doublings [OF adjust_min_token_pos [of mn], of "Suc n"]
    unfolding ps by (simp del: upt_Suc)
qed

lemma padded_token_len_least:
  assumes "sorted ps" "get_padded_token_len ps x = Inr p"
  shows "p \<in> set ps" "x \<le> p" "q \<in> set ps \<Longrightarrow> x \<le> q \<Longrightarrow> p \<le> q"
proof -
  from assms(2) have i: "bisect_left ps x < length ps" and p: "p = ps ! bisect_left ps x"
    by (auto simp: get_padded_token_len_def Let_def split: if_splits)
  show "p \<in> set ps" using i p by simp
  show "x \<le> p" using bisect_left_correct(3) [OF assms(1) order_refl i] p by simp
  show "p \<le> q" if "q \<in> set ps" "x \<le> q"
  proof -
    obtain j where j: "j < length ps" "ps ! j = q" using \<open>q \<in> set ps\<close> by (metis in_set_conv_nth)
    have "bisect_left ps x \<le> j"
      using bisect_left_correct(2) [OF assms(1), of j x] j(2) \<open>x \<le> q\<close> by fastforce
    then show ?thesis using assms(1) j p by (auto intro: sorted_nth_mono)
  qed
qed

lemma padded_token_len_exists:
  assumes "sorted ps" "ps \<noteq> []" "x \<le> last ps"
  shows "\<exists>p. get_padded_token_len ps x = Inr p"
proof -
  have "bisect_left ps x < length ps"
  proof (rule ccontr)
    assume "\<not> ?thesis"
    then have "length ps - 1 < bisect_left ps x" using assms(2) by (cases ps) auto
    then have "ps ! (length ps - 1) < x" by (rule bisect_left_correct(2) [OF assms(1)])
    with assms show False by (simp add: last_conv_nth)
  qed
  then show ?thesis by (auto simp: get_padded_token_len_def Let_def)
qed

section \<open>The padding interface\<close>

text \<open>
  What the input preparation of the runner relies on: every token count up to a limit has a
  padded length, which is at least the count and belongs to the finite set of lengths the graphs
  were compiled for.
\<close>

locale token_padder =
  fixes pad :: "int \<Rightarrow> int res" and compiled :: "int set" and limit :: int
  assumes pad_total: "x \<le> limit \<Longrightarrow> \<exists>p. pad x = Inr p"
    and pad_covers: "pad x = Inr p \<Longrightarrow> x \<le> p"
    and pad_compiled: "pad x = Inr p \<Longrightarrow> p \<in> compiled"
    and compiled_finite: "finite compiled"
begin

lemma pad_result:
  assumes "x \<le> limit"
  obtains p where "pad x = Inr p" "x \<le> p" "p \<in> compiled"
  using assms pad_total pad_covers pad_compiled by blast

lemma image_compiled: "{p. \<exists>x. pad x = Inr p} \<subseteq> compiled"
  using pad_compiled by blast

lemma finitely_many_shapes: "finite {p. \<exists>x. pad x = Inr p}"
  using image_compiled compiled_finite by (rule finite_subset)

end

text \<open>The padding of the generative runner: \<open>self.num_tokens_paddings\<close> and its lookup.\<close>

definition runner_pad :: "int \<Rightarrow> int \<Rightarrow> int \<Rightarrow> int res" where
  "runner_pad min_context_len max_model_len x =
     (case get_token_paddings min_context_len max_model_len of
        Some paddings \<Rightarrow> get_padded_token_len paddings x
      | None \<Rightarrow> Inl RuntimeError)"

definition compiled_lengths :: "int \<Rightarrow> int \<Rightarrow> int set" where
  "compiled_lengths mn mx = set (the (get_token_paddings mn mx))"

lemma runner_pad_sound:
  assumes "runner_pad mn mx x = Inr p"
  shows "p \<in> compiled_lengths mn mx" "x \<le> p"
    "q \<in> compiled_lengths mn mx \<Longrightarrow> x \<le> q \<Longrightarrow> p \<le> q"
proof -
  obtain ps where ps: "get_token_paddings mn mx = Some ps" "get_padded_token_len ps x = Inr p"
    using assms by (auto simp: runner_pad_def split: option.splits)
  note * = padded_token_len_least [OF token_paddings_sorted [OF ps(1)] ps(2)]
  show "p \<in> compiled_lengths mn mx" using * ps(1) by (simp add: compiled_lengths_def)
  show "x \<le> p" using * by simp
  show "p \<le> q" if "q \<in> compiled_lengths mn mx" "x \<le> q"
    using * that ps(1) by (simp add: compiled_lengths_def)
qed

lemma runner_pad_total:
  assumes "x \<le> mx"
  shows "\<exists>p. runner_pad mn mx x = Inr p"
proof -
  obtain n where ps:
    "get_token_paddings mn mx = Some (1 # map (\<lambda>i. adjust_min_token mn * 2 ^ i) [0..<Suc n])"
    and top: "mx \<le> adjust_min_token mn * 2 ^ n"
    by (rule token_paddings_shape)
  have "\<exists>p. get_padded_token_len (1 # map (\<lambda>i. adjust_min_token mn * 2 ^ i) [0..<Suc n]) x = Inr p"
    using token_paddings_sorted [OF ps] assms top by (intro padded_token_len_exists) auto
  then show ?thesis by (simp add: runner_pad_def ps del: upt_Suc)
qed

interpretation tp: token_padder "runner_pad mn mx" "compiled_lengths mn mx" mx for mn mx
  by unfold_locales
    (auto simp: runner_pad_total dest: runner_pad_sound, simp add: compiled_lengths_def)

text \<open>C26. Whatever the configured minimum and maximum, the padding list is built (the
  \<open>while True\<close> loop stops) and every token count up to the maximum is padded to the least
  pre-compiled length that holds it.\<close>

theorem padded_len_total_least:
  assumes "x \<le> mx"
  shows "\<exists>p. runner_pad mn mx x = Inr p \<and> x \<le> p \<and> p \<in> compiled_lengths mn mx
           \<and> (\<forall>q \<in> compiled_lengths mn mx. x \<le> q \<longrightarrow> p \<le> q)"
proof -
  obtain p where "runner_pad mn mx x = Inr p" "x \<le> p" "p \<in> compiled_lengths mn mx"
    using tp.pad_result [OF assms] .
  then show ?thesis using runner_pad_sound(3) by blast
qed

lemma runner_pad_example: "runner_pad 100 1000 129 = Inr 256"
  by (simp add: runner_pad_def get_token_paddings_def adjust_min_token_def padding_loop.simps
      int_bit_length_def bit_length.simps get_padded_token_len_def bisect_left_def Let_def
      bisect_left_loop.simps)

theorem padded_len_total_least_witness:
  "(129::int) \<le> 1000 \<and> (\<exists>p. runner_pad 100 1000 129 = Inr p \<and> 129 \<le> p
     \<and> p \<in> compiled_lengths 100 1000)"
  using padded_len_total_least [of 129 1000 100] by simp blast

text \<open>The padded length of a count above the smallest bucket is a power of two times the
  smallest bucket and less than twice the count, and every padded length but 1 is a multiple of
  the tile size 32.\<close>

theorem padded_len_tight:
  assumes "runner_pad mn mx x = Inr p"
  shows "(p = 1 \<or> 32 dvd p) \<and>
    (adjust_min_token mn < x \<longrightarrow> p < 2 * x \<and> (\<exists>i. p = adjust_min_token mn * 2 ^ i))"
proof -
  obtain n where ps:
    "get_token_paddings mn mx = Some (1 # map (\<lambda>i. adjust_min_token mn * 2 ^ i) [0..<Suc n])"
    by (rule token_paddings_shape)
  have mem: "p = 1 \<or> (\<exists>i \<le> n. p = adjust_min_token mn * 2 ^ i)"
    using runner_pad_sound(1) [OF assms]
    by (auto simp: compiled_lengths_def ps less_Suc_eq_le simp del: upt_Suc)
  obtain k where k: "5 \<le> k" "adjust_min_token mn = 2 ^ k" using adjust_min_token_pow2 by blast
  have "(32::int) = 2 ^ 5" by simp
  then have "32 dvd adjust_min_token mn" using k by (metis le_imp_power_dvd)
  with mem have tile: "p = 1 \<or> 32 dvd p" by auto
  have "p < 2 * x \<and> (\<exists>i. p = adjust_min_token mn * 2 ^ i)" if x: "adjust_min_token mn < x"
  proof -
    from x have "p \<noteq> 1" using runner_pad_sound(2) [OF assms] adjust_min_token_bounds(2) [of mn] by auto
    with mem obtain i where i: "i \<le> n" "p = adjust_min_token mn * 2 ^ i" by blast
    then obtain j where j: "i = Suc j"
      using runner_pad_sound(2) [OF assms] x by (cases i) auto
    let ?q = "adjust_min_token mn * 2 ^ j"
    have "?q \<in> compiled_lengths mn mx" using i(1) j by (auto simp: compiled_lengths_def ps simp del: upt_Suc)
    moreover have "?q < p" using adjust_min_token_pos [of mn] i(2) j by simp
    ultimately have "?q < x" using runner_pad_sound(3) [OF assms, of ?q] by force
    then have "p < 2 * x" using i(2) j by simp
    then show ?thesis using i(2) by blast
  qed
  with tile show ?thesis by blast
qed

theorem padded_len_tight_witness:
  "runner_pad 100 1000 129 = Inr 256 \<and> ((256::int) = 1 \<or> 32 dvd (256::int)) \<and> (256::int) < 2 * 129"
proof -
  have "adjust_min_token 100 < 129"
    by (simp add: adjust_min_token_def int_bit_length_def bit_length.simps)
  then show ?thesis
    using runner_pad_example padded_len_tight [OF runner_pad_example] by blast
qed


section \<open>Request paddings of the pooling runner\<close>

definition padded_num_reqs_with_upper_limit :: "int \<Rightarrow> int \<Rightarrow> int" where
  "padded_num_reqs_with_upper_limit x upper_limit =
     min (if x \<le> 1 then 1 else push_bit (int_bit_length (x - 1)) 1) upper_limit"

lemma padded_num_reqs_grows:
  assumes "num < mx"
  shows "num < padded_num_reqs_with_upper_limit (num + 1) mx"
    "padded_num_reqs_with_upper_limit (num + 1) mx \<le> mx"
  using assms pow2_ge_unique(1) [of "num + 1"]
  by (auto simp: padded_num_reqs_with_upper_limit_def shift_one)

lemma padded_num_reqs_at_limit: "1 \<le> mx \<Longrightarrow> padded_num_reqs_with_upper_limit (mx + 1) mx = mx"
  using pow2_ge_unique(1) [of "mx + 1"]
  by (auto simp: padded_num_reqs_with_upper_limit_def shift_one)

text \<open>The \<open>while\<close> loop over the state \<open>(num, paddings)\<close>. It stops when the next value repeats
  the last one, or runs past the limit.\<close>

function req_padding_loop :: "int \<Rightarrow> int \<Rightarrow> int list \<Rightarrow> int list" where
  "req_padding_loop max_req_size num paddings =
     (if num \<le> max_req_size \<and> (paddings = [] \<or> last paddings \<noteq> num)
      then req_padding_loop max_req_size
             (padded_num_reqs_with_upper_limit (num + 1) max_req_size) (paddings @ [num])
      else paddings)"
  by pat_completeness auto
termination
proof (relation "measures [\<lambda>(mx, num, ps). nat (mx - num),
    \<lambda>(mx, num, ps). if num \<le> mx \<and> (ps = [] \<or> last ps \<noteq> num) then 1 else 0]")
  fix mx num :: int and ps :: "int list"
  assume guard: "num \<le> mx \<and> (ps = [] \<or> last ps \<noteq> num)"
  let ?next = "padded_num_reqs_with_upper_limit (num + 1) mx"
  show "((mx, ?next, ps @ [num]), mx, num, ps) \<in> measures [\<lambda>(mx, num, ps). nat (mx - num),
    \<lambda>(mx, num, ps). if num \<le> mx \<and> (ps = [] \<or> last ps \<noteq> num) then 1 else 0]"
  proof (cases "num < mx")
    case True
    with padded_num_reqs_grows [OF True] show ?thesis by simp
  next
    case False
    with guard have eq: "num = mx" by simp
    have "?next = mx"
    proof (cases "1 \<le> mx")
      case True
      with eq show ?thesis by (simp add: padded_num_reqs_at_limit)
    next
      case neg: False
      with eq show ?thesis by (simp add: padded_num_reqs_with_upper_limit_def)
    qed
    with eq guard show ?thesis by simp
  qed
qed simp

declare req_padding_loop.simps [simp del]

definition get_req_paddings :: "int \<Rightarrow> int \<Rightarrow> int list res" where
  "get_req_paddings min_req_size max_req_size =
     rbind (rassert (min_req_size AND (min_req_size - 1) = 0 \<and> 0 < min_req_size))
       (\<lambda>_. Inr (req_padding_loop max_req_size (max 1 min_req_size) []))"

lemma req_padding_loop_shape:
  assumes "num \<le> mx" "0 < num" "ps = [] \<or> last ps < num" "sorted_wrt (<) ps"
  shows "sorted_wrt (<) (req_padding_loop mx num ps) \<and> last (req_padding_loop mx num ps) = mx
     \<and> set (req_padding_loop mx num ps) \<subseteq> set ps \<union> {num..mx} \<and> req_padding_loop mx num ps \<noteq> []"
  using assms
proof (induction mx num ps rule: req_padding_loop.induct)
  case (1 mx num ps)
  let ?next = "padded_num_reqs_with_upper_limit (num + 1) mx"
  have guard: "num \<le> mx \<and> (ps = [] \<or> last ps \<noteq> num)" using "1.prems" by auto
  have below: "\<forall>y \<in> set ps. y < num"
  proof (cases "ps = []")
    case False
    then have "ps = butlast ps @ [last ps]" by simp
    then have "\<forall>y \<in> set ps. y \<le> last ps"
      using "1.prems"(4) by (metis (no_types, lifting) Un_iff empty_iff list.set(1) list.simps(15)
          insert_iff order.strict_iff_order order_refl set_append sorted_wrt_append)
    then show ?thesis using "1.prems"(3) False by force
  qed simp
  have srt: "sorted_wrt (<) (ps @ [num])" using "1.prems"(4) below by (simp add: sorted_wrt_append)
  show ?case
  proof (cases "num < mx")
    case True
    have "sorted_wrt (<) (req_padding_loop mx ?next (ps @ [num]))
        \<and> last (req_padding_loop mx ?next (ps @ [num])) = mx
        \<and> set (req_padding_loop mx ?next (ps @ [num])) \<subseteq> set (ps @ [num]) \<union> {?next..mx}
        \<and> req_padding_loop mx ?next (ps @ [num]) \<noteq> []"
      using "1.IH" [OF guard] padded_num_reqs_grows [OF True] "1.prems"(2) srt by auto
    moreover have "{?next..mx} \<subseteq> {num..mx}" using padded_num_reqs_grows [OF True] by auto
    ultimately show ?thesis
      using guard by (subst (1 2 3 4) req_padding_loop.simps) auto
  next
    case False
    with "1.prems" have eq: "num = mx" by simp
    then have "req_padding_loop mx num ps = ps @ [mx]"
      using guard "1.prems"(2) padded_num_reqs_at_limit [of mx]
      by (simp add: req_padding_loop.simps [of mx mx ps] req_padding_loop.simps [of mx mx "ps @ [mx]"])
    then show ?thesis using srt eq by auto
  qed
qed

text \<open>The request paddings of the pooling runner are strictly increasing, lie between the
  minimum and the maximum and end with the maximum, so a batch of any admissible size has a
  pre-compiled size that holds it.\<close>

theorem req_paddings_cover:
  assumes "get_req_paddings mn mx = Inr ps" "mn \<le> mx"
  shows "sorted_wrt (<) ps \<and> ps \<noteq> [] \<and> last ps = mx \<and> set ps \<subseteq> {mn..mx}
    \<and> (\<forall>x \<le> mx. \<exists>p \<in> set ps. x \<le> p)"
proof -
  have pos: "0 < mn" and ps: "ps = req_padding_loop mx mn []"
    using assms by (auto simp: get_req_paddings_def res_simps rassert_def max_def split: if_splits)
  have *: "sorted_wrt (<) ps" "last ps = mx" "set ps \<subseteq> {mn..mx}" "ps \<noteq> []"
    using req_padding_loop_shape [of mn mx "[]"] pos assms(2) by (auto simp: ps)
  then have "mx \<in> set ps" by (metis last_in_set)
  with * show ?thesis by auto
qed

theorem req_paddings_cover_witness:
  "get_req_paddings 4 20 = Inr [4, 8, 16, 20] \<and> last [4, 8, 16, 20 :: int] = 20"
proof -
  have ev: "get_req_paddings 4 20 = Inr [4, 8, 16, 20]"
    by (simp add: get_req_paddings_def req_padding_loop.simps padded_num_reqs_with_upper_limit_def
        int_bit_length_def bit_length.simps shift_one)
  then show ?thesis using req_paddings_cover [OF ev] by simp
qed

section \<open>KV-cache slices and pages\<close>

definition padded_num_kv_cache_update_slices :: "int \<Rightarrow> int \<Rightarrow> int \<Rightarrow> int res" where
  "padded_num_kv_cache_update_slices num_tokens max_num_reqs page_size =
     (if page_size = 0 then Inl ZeroDivisionError
      else Inr (min (2 * max_num_reqs + num_tokens div page_size) num_tokens))"

definition num_slices_per_kv_cache_update_block :: "(int \<Rightarrow> int) \<Rightarrow> int \<Rightarrow> int res" where
  "num_slices_per_kv_cache_update_block prev_power_of_2 page_size_bytes =
     (let vmem_limit = 16 * 1024 * 1024
      in if page_size_bytes = 0 then Inl ZeroDivisionError
         else let num_slices = vmem_limit div page_size_bytes
              in rbind (rassert (0 < num_slices))
                   (\<lambda>_. Inr (min (prev_power_of_2 num_slices) 64)))"

definition prev_power_of_2_spec :: "(int \<Rightarrow> int) \<Rightarrow> bool" where
  "prev_power_of_2_spec f = (\<forall>n > 0. \<exists>k::nat. f n = 2 ^ k \<and> 2 ^ k \<le> n \<and> n < 2 ^ Suc k)"

text \<open>\<open>TTAttentionBackend.get_max_num_seqs\<close> and \<open>get_min_page_size\<close>. The block table of
  \<open>max_num_seqs\<close> rows of page indices of four bytes must fit in half of a 1 MB scalar memory.\<close>

definition get_max_num_seqs :: "(int \<Rightarrow> int \<Rightarrow> int) \<Rightarrow> int \<Rightarrow> int \<Rightarrow> int res" where
  "get_max_num_seqs cdiv model_len page_size =
     (if page_size = 0 then Inl ZeroDivisionError
      else let num_page_per_req = cdiv model_len page_size
           in if num_page_per_req = 0 then Inl ZeroDivisionError
              else Inr (1024 * 1024 div 2 div num_page_per_req div 4))"

definition get_min_page_size :: "(int \<Rightarrow> int \<Rightarrow> int) \<Rightarrow> int \<Rightarrow> int \<Rightarrow> int res" where
  "get_min_page_size cdiv max_num_seqs max_model_len =
     (if max_num_seqs = 0 then Inl ZeroDivisionError
      else let max_num_page_per_req = 1024 * 1024 div 2 div max_num_seqs div 4
           in if max_num_page_per_req = 0 then Inl ZeroDivisionError
              else let min_page_size = cdiv max_model_len max_num_page_per_req
                   in Inr (push_bit (int_bit_length (min_page_size - 1)) 1))"

definition get_page_size :: "int \<Rightarrow> int" where
  "get_page_size max_model_len = 32"

definition get_kv_cache_shape :: "int \<Rightarrow> int \<Rightarrow> int \<Rightarrow> int \<Rightarrow> int list" where
  "get_kv_cache_shape num_blocks block_size num_kv_heads head_size =
     [2, num_blocks, num_kv_heads, block_size, head_size]"

lemma bounded_by_quotient:
  fixes n q :: int
  assumes "0 < n" "x \<le> q div n div 4" "0 \<le> q"
  shows "x * n * 4 \<le> q"
proof -
  define t where "t = q div n"
  have "x \<le> t div 4" using assms(2) by (simp add: t_def)
  then have "x * 4 \<le> t" by presburger
  then have "x * 4 \<le> q div n" by (simp only: t_def)
  then have "x * 4 * n \<le> q div n * n" using assms(1) by (simp add: mult_right_mono)
  also have "\<dots> \<le> q"
    using div_mult_mod_eq [of q n] pos_mod_sign [OF assms(1), of q] by linarith
  finally show ?thesis by (simp add: ac_simps)
qed

text \<open>The number of sequences the backend admits keeps the block table (four bytes per page
  index) within half of the scalar memory, and the minimum page size leaves few enough pages per
  request for the configured number of sequences to fit.\<close>

theorem block_table_fits_smem:
  assumes "ceil_div_spec cdiv" "0 < model_len"
  shows "(0 < page \<and> get_max_num_seqs cdiv model_len page = Inr n \<longrightarrow>
            n * cdiv model_len page * 4 \<le> 512 * 1024)
      \<and> (0 < seqs \<and> get_min_page_size cdiv seqs model_len = Inr p \<longrightarrow>
            0 < p \<and> seqs * cdiv model_len p * 4 \<le> 512 * 1024)"
proof (intro conjI impI)
  assume *: "0 < page \<and> get_max_num_seqs cdiv model_len page = Inr n"
  then have pos: "0 < cdiv model_len page" using ceil_div_pos assms by blast
  with * have "n = 524288 div cdiv model_len page div 4" by (auto simp: get_max_num_seqs_def Let_def split: if_splits)
  then show "n * cdiv model_len page * 4 \<le> 512 * 1024" using pos bounded_by_quotient by simp
next
  assume *: "0 < seqs \<and> get_min_page_size cdiv seqs model_len = Inr p"
  define m where "m = 524288 div seqs div 4"
  have seqs: "0 < seqs" using * by simp
  with * have m0: "m \<noteq> 0" and p: "p = 2 ^ int_bit_length (cdiv model_len m - 1)"
    by (auto simp: get_min_page_size_def m_def Let_def shift_one split: if_splits)
  have mpos: "0 < m" using m0 seqs by (simp add: m_def pos_imp_zdiv_nonneg_iff order_less_le)
  show "0 < p" using p by simp
  have "cdiv model_len m \<le> p"
  proof (cases "1 < cdiv model_len m")
    case True
    then show ?thesis using pow2_ge_unique(1) p by simp
  next
    case False
    moreover have "1 \<le> p" using p by simp
    ultimately show ?thesis by simp
  qed
  moreover have "model_len \<le> cdiv model_len m * m" using assms(1) mpos by (auto simp: ceil_div_spec_def)
  ultimately have "model_len \<le> p * m" using mpos by (meson mult_right_mono order_trans less_imp_le)
  moreover have "(cdiv model_len p - 1) * p < model_len"
    using assms(1) \<open>0 < p\<close> by (auto simp: ceil_div_spec_def)
  ultimately have "(cdiv model_len p - 1) * p < m * p" by (simp add: ac_simps)
  then have "cdiv model_len p \<le> m" using \<open>0 < p\<close> by (simp add: mult_less_cancel_right)
  then have "cdiv model_len p * seqs * 4 \<le> 524288"
    using bounded_by_quotient [OF seqs, of "cdiv model_len p" 524288] by (simp add: m_def)
  then show "seqs * cdiv model_len p * 4 \<le> 512 * 1024" by (simp add: ac_simps)
qed

theorem block_table_fits_smem_witness:
  "get_max_num_seqs (\<lambda>a b. - ((- a) div b)) 4096 32 = Inr 1024 \<and> (1024::int) * 128 * 4 \<le> 512 * 1024
   \<and> get_min_page_size (\<lambda>a b. - ((- a) div b)) 64 40960 = Inr 32"
proof -
  let ?cdiv = "\<lambda>a b. - ((- a) div b) :: int"
  have ev: "get_max_num_seqs ?cdiv 4096 32 = Inr 1024" by (simp add: get_max_num_seqs_def)
  have ev2: "get_min_page_size ?cdiv 64 40960 = Inr 32"
    by (simp add: get_min_page_size_def int_bit_length_def bit_length.simps shift_one)
  show ?thesis
    using block_table_fits_smem [OF ceil_div_spec_instance, of 4096 32 1024 1 1] ev ev2 by simp
qed

section \<open>Device mesh shape\<close>

text \<open>\<open>int(num_devices ** 0.5)\<close> is a floating-point square root: a parameter here.\<close>

fun mesh_dim_loop :: "nat \<Rightarrow> nat \<Rightarrow> nat res" where
  "mesh_dim_loop num_devices 0 = Inl ZeroDivisionError"
| "mesh_dim_loop num_devices (Suc d) =
     (if num_devices mod Suc d \<noteq> 0 then mesh_dim_loop num_devices d else Inr (Suc d))"

definition determine_mesh_shape :: "(nat \<Rightarrow> nat) \<Rightarrow> nat \<Rightarrow> bool \<Rightarrow> (nat \<times> nat) res" where
  "determine_mesh_shape isqrt num_devices use_2d_mesh =
     (if use_2d_mesh then
        (case map_of [(2, (1, 2)), (4, (2, 2)), (8, (2, 4)), (16, (4, 4)), (32, (4, 8))] num_devices
         of Some mesh_shape \<Rightarrow> Inr mesh_shape
          | None \<Rightarrow> rbind (mesh_dim_loop num_devices (isqrt num_devices))
              (\<lambda>mesh_dim1. Inr (mesh_dim1, num_devices div mesh_dim1)))
      else Inr (1, num_devices))"

lemma mesh_dim_loop_divisor:
  assumes "0 < d"
  shows "\<exists>m. mesh_dim_loop n d = Inr m \<and> 0 < m \<and> m \<le> d \<and> m dvd n"
  using assms
proof (induction d)
  case (Suc d)
  show ?case
  proof (cases "n mod Suc d = 0")
    case True
    then show ?thesis by (auto simp: mod_eq_0_iff_dvd)
  next
    case False
    then have "0 < d" by (cases d) auto
    with Suc.IH False show ?thesis by fastforce
  qed
qed simp

text \<open>The mesh shape always uses every device exactly once: its dimensions multiply to the
  number of devices, and the batch dimension is the smaller one.\<close>

theorem mesh_shape_uses_all_devices:
  assumes "\<And>n. isqrt n * isqrt n \<le> n" and "\<And>n. 0 < n \<Longrightarrow> 0 < isqrt n" and "0 < num_devices"
  shows "\<exists>b m. determine_mesh_shape isqrt num_devices use_2d = Inr (b, m)
     \<and> b * m = num_devices \<and> 0 < b \<and> b \<le> m"
proof (cases "use_2d \<and> num_devices \<notin> {2, 4, 8, 16, 32}")
  case True
  obtain d where d: "mesh_dim_loop num_devices (isqrt num_devices) = Inr d" "0 < d"
      "d \<le> isqrt num_devices" "d dvd num_devices"
    using mesh_dim_loop_divisor assms(2,3) by blast
  then have "d * d \<le> num_devices" using assms(1) [of num_devices] by (meson mult_le_mono order_trans)
  then have "d \<le> num_devices div d" using d(2) by (simp add: less_eq_div_iff_mult_less_eq)
  with True d show ?thesis by (auto simp: determine_mesh_shape_def)
next
  case False
  then show ?thesis using assms(3) by (auto simp: determine_mesh_shape_def)
qed

theorem mesh_shape_uses_all_devices_witness:
  "\<exists>b m. determine_mesh_shape (\<lambda>n. if n = 12 then 3 else if n = 0 then 0 else 1) 12 True = Inr (b, m)
     \<and> b * m = 12 \<and> 0 < b \<and> b \<le> m"
  by (rule mesh_shape_uses_all_devices) auto

end
