(* ===== verification/InputBatch.thy ===== *)
theory InputBatch
  imports TT_Prelude Complex_Main
begin

text \<open>
  The persistent batch of the runners: class \<open>InputBatch\<close> of \<open>vllm_tt/input_batch.py\<close>.

  The record has the fields of the class. Fixed-size arrays (numpy and torch) are lists of
  length \<open>max_num_reqs\<close>; dictionaries are ordered association lists, sets of request ids are
  sets. Floating-point parameters are rationals: the batch only stores, copies and compares
  them. Not in the record: the device copies of the CPU columns, which only
  \<open>_make_sampling_metadata\<close> fills from them.

  An entry of \<open>req_output_token_ids\<close> is the very list object of the cached request, which
  the runner extends later. It is therefore an address, and whoever reads the tokens passes the
  store that maps addresses to lists.

  vLLM's block table and the length property of its cached request are not part of the
  repository: their operations are the record \<open>vllm_ops\<close>, an argument of the operations.
\<close>

section \<open>Requests\<close>

type_synonym req_id = string
type_synonym addr = nat
type_synonym store = "addr \<Rightarrow> int list"

datatype sampling_type = Greedy | Random | RandomSeed

record sampling_params =
  sp_type :: sampling_type
  sp_temperature :: rat
  sp_top_p :: rat
  sp_top_k :: int
  sp_min_p :: rat
  sp_frequency_penalty :: rat
  sp_presence_penalty :: rat
  sp_repetition_penalty :: rat
  sp_min_tokens :: nat
  sp_all_stop_token_ids :: "int list"
  sp_logprobs :: "int option"
  sp_prompt_logprobs :: "int option"
  sp_logit_bias :: "(int, rat) dict option"
  sp_allowed_token_ids :: "int list"
  sp_bad_words_token_ids :: "int list list"
  sp_seed :: nat

record pooling_params =
  pp_requires_token_ids :: bool
  pp_task :: string

record lora_request =
  lora_int_id :: int
  lora_long_max_len :: int

record cached_request =
  cr_req_id :: req_id
  cr_prompt_token_ids :: "int list option"
  cr_sampling_params :: "sampling_params option"
  cr_pooling_params :: "pooling_params option"
  cr_pooling_states :: "nat option"
  cr_generator :: "nat option"
  cr_block_ids :: "int list list"
  cr_num_computed_tokens :: nat
  cr_output_token_ids :: addr
  cr_lora_request :: "lora_request option"

record logprobs_tensors =
  lt_token_ids :: "int list list"
  lt_logprobs :: "rat list list"
  lt_ranks :: "int list"

text \<open>The operations of vLLM the batch calls: the \<open>num_tokens\<close> property of a cached request (of
  its prompt length and output length) and the rows of the block table.\<close>

record 'bt vllm_ops =
  vo_num_tokens :: "nat \<Rightarrow> nat \<Rightarrow> nat"
  vo_has_tables :: "'bt \<Rightarrow> bool"
  vo_add_row :: "int list list \<Rightarrow> nat \<Rightarrow> 'bt \<Rightarrow> 'bt"
  vo_append_row :: "int list list \<Rightarrow> nat \<Rightarrow> 'bt \<Rightarrow> 'bt"
  vo_move_row :: "nat \<Rightarrow> nat \<Rightarrow> 'bt \<Rightarrow> 'bt"
  vo_swap_row :: "nat \<Rightarrow> nat \<Rightarrow> 'bt \<Rightarrow> 'bt"

section \<open>The batch\<close>

record 'bt input_batch =
  is_pooling_model :: bool
  max_num_reqs :: nat
  max_model_len :: nat
  vocab_size :: nat
  req_ids :: "req_id option list"
  req_id_to_index :: "(req_id, nat) dict"
  token_ids_cpu :: "int list list"
  num_tokens :: "nat list"
  num_tokens_no_spec :: "nat list"
  num_prompt_tokens :: "nat list"
  num_computed_tokens :: "nat list"
  block_table :: 'bt
  temperature :: "rat list"
  greedy_reqs :: "req_id set"
  random_reqs :: "req_id set"
  top_p :: "rat list"
  top_p_reqs :: "req_id set"
  top_k :: "int list"
  top_k_reqs :: "req_id set"
  min_p :: "rat list"
  min_p_reqs :: "req_id set"
  frequency_penalties :: "rat list"
  frequency_penalties_reqs :: "req_id set"
  presence_penalties :: "rat list"
  presence_penalties_reqs :: "req_id set"
  repetition_penalties :: "rat list"
  repetition_penalties_reqs :: "req_id set"
  min_tokens :: "(nat, nat \<times> int list) dict"
  request_lora_mapping :: "int list"
  lora_id_to_request_ids :: "(int, req_id set) dict"
  lora_id_to_lora_request :: "(int, lora_request) dict"
  generators :: "(nat, nat) dict"
  num_logprobs :: "(req_id, int) dict"
  num_prompt_logprobs :: "(req_id, int) dict"
  in_progress_prompt_logprobs :: "(req_id, logprobs_tensors) dict"
  logit_bias :: "(int, rat) dict option list"
  has_allowed_token_ids :: "req_id set"
  allowed_token_ids_mask :: "bool list list option"
  bad_words_token_ids :: "(nat, int list list) dict"
  needs_token_ids :: "bool list"
  req_output_token_ids :: "addr option list"
  spec_token_ids :: "int list list"
  pooling_params :: "(req_id, pooling_params) dict"
  pooling_states :: "(req_id, nat) dict"

definition num_reqs :: "'bt input_batch \<Rightarrow> nat" where
  "num_reqs b = length (req_id_to_index b)"

text \<open>\<open>InputBatch.__init__\<close>. \<open>torch.empty\<close> leaves the sampling columns uninitialised: their
  contents are the arguments \<open>junk\<close> and \<open>junk_k\<close>.\<close>

definition new_input_batch ::
  "bool \<Rightarrow> nat \<Rightarrow> nat \<Rightarrow> nat \<Rightarrow> 'bt \<Rightarrow> (nat \<Rightarrow> rat) \<Rightarrow> (nat \<Rightarrow> int) \<Rightarrow> 'bt input_batch" where
  "new_input_batch pooling max_reqs max_len vocab bt junk junk_k =
     (let col = map junk [0..<max_reqs]; zeros = replicate max_reqs 0
      in \<lparr> is_pooling_model = pooling, max_num_reqs = max_reqs, max_model_len = max_len,
           vocab_size = vocab, req_ids = [], req_id_to_index = [],
           token_ids_cpu = replicate max_reqs (replicate max_len 0),
           num_tokens = zeros, num_tokens_no_spec = zeros, num_prompt_tokens = zeros,
           num_computed_tokens = zeros, block_table = bt,
           temperature = col, greedy_reqs = {}, random_reqs = {},
           top_p = col, top_p_reqs = {}, top_k = map junk_k [0..<max_reqs], top_k_reqs = {},
           min_p = col, min_p_reqs = {},
           frequency_penalties = col, frequency_penalties_reqs = {},
           presence_penalties = col, presence_penalties_reqs = {},
           repetition_penalties = col, repetition_penalties_reqs = {},
           min_tokens = [], request_lora_mapping = replicate max_reqs 0,
           lora_id_to_request_ids = [], lora_id_to_lora_request = [], generators = [],
           num_logprobs = [], num_prompt_logprobs = [], in_progress_prompt_logprobs = [],
           logit_bias = replicate max_reqs None, has_allowed_token_ids = {},
           allowed_token_ids_mask = None, bad_words_token_ids = [],
           needs_token_ids = replicate max_reqs False, req_output_token_ids = [],
           spec_token_ids = replicate max_reqs [], pooling_params = [], pooling_states = [] \<rparr>)"

section \<open>Adding a request\<close>

text \<open>The id, its output list and its index are registered; an index equal to
  the current length appends, a smaller one overwrites.\<close>

definition place_request ::
  "cached_request \<Rightarrow> nat \<Rightarrow> 'bt input_batch \<Rightarrow> 'bt input_batch res" where
  "place_request request req_index b =
     (let rid = cr_req_id request; out = cr_output_token_ids request
      in rbind
        (if req_index = length (req_ids b)
         then Inr (b\<lparr>req_ids := req_ids b @ [Some rid],
                     req_output_token_ids := req_output_token_ids b @ [Some out]\<rparr>)
         else rbind (lset (req_ids b) req_index (Some rid)) (\<lambda>ids.
              rbind (lset (req_output_token_ids b) req_index (Some out)) (\<lambda>outs.
              Inr (b\<lparr>req_ids := ids, req_output_token_ids := outs\<rparr>))))
        (\<lambda>b. Inr (b\<lparr>req_id_to_index := dset (req_id_to_index b) rid req_index\<rparr>)))"

text \<open>The prompt and output tokens are copied into the request's row and its
  counters are set.\<close>

definition write_tokens ::
  "'bt vllm_ops \<Rightarrow> store \<Rightarrow> cached_request \<Rightarrow> nat \<Rightarrow> 'bt input_batch \<Rightarrow> 'bt input_batch res" where
  "write_tokens ops st request req_index b =
     (case cr_prompt_token_ids request of
        None \<Rightarrow> Inl TypeError
      | Some prompt \<Rightarrow>
         (let out = st (cr_output_token_ids request); n = length prompt;
              total = vo_num_tokens ops n (length out); row = token_ids_cpu b ! req_index
          in rbind (slice_assign row 0 n prompt) (\<lambda>row1.
             rbind (slice_assign row1 n (n + length out) out) (\<lambda>row2.
             Inr (b\<lparr>num_prompt_tokens := (num_prompt_tokens b)[req_index := n],
                    token_ids_cpu := (token_ids_cpu b)[req_index := row2],
                    num_tokens := (num_tokens b)[req_index := total],
                    num_tokens_no_spec := (num_tokens_no_spec b)[req_index := total],
                    num_computed_tokens :=
                      (num_computed_tokens b)[req_index := cr_num_computed_tokens request],
                    block_table :=
                      (if vo_has_tables ops (block_table b)
                       then vo_add_row ops (cr_block_ids request) req_index (block_table b)
                       else block_table b)\<rparr>)))))"

text \<open>Temperature, top-p, top-k, min-p and the penalties, each with the set of
  the requests that use it. \<open>_SAMPLING_EPS\<close> is \<open>1e-5\<close>.\<close>

definition sampling_eps :: rat where
  "sampling_eps = 1 / 100000"

definition insert_if :: "bool \<Rightarrow> 'a \<Rightarrow> 'a set \<Rightarrow> 'a set" where
  "insert_if c x A = (if c then insert x A else A)"

definition write_sampling_columns ::
  "req_id \<Rightarrow> sampling_params \<Rightarrow> nat \<Rightarrow> 'bt input_batch \<Rightarrow> 'bt input_batch" where
  "write_sampling_columns rid sp i b =
     (let greedy = (sp_type sp = Greedy); k = sp_top_k sp;
          use_k = (0 < k \<and> k < int (vocab_size b))
      in b\<lparr>temperature := (temperature b)[i := (if greedy then 0 else sp_temperature sp)],
           greedy_reqs := insert_if greedy rid (greedy_reqs b),
           random_reqs := insert_if (\<not> greedy) rid (random_reqs b),
           top_p := (top_p b)[i := sp_top_p sp],
           top_p_reqs := insert_if (sp_top_p sp < 1) rid (top_p_reqs b),
           top_k := (top_k b)[i := (if use_k then k else int (vocab_size b))],
           top_k_reqs := insert_if use_k rid (top_k_reqs b),
           min_p := (min_p b)[i := sp_min_p sp],
           min_p_reqs := insert_if (sampling_eps < sp_min_p sp) rid (min_p_reqs b),
           frequency_penalties := (frequency_penalties b)[i := sp_frequency_penalty sp],
           frequency_penalties_reqs :=
             insert_if (sp_frequency_penalty sp \<noteq> 0) rid (frequency_penalties_reqs b),
           presence_penalties := (presence_penalties b)[i := sp_presence_penalty sp],
           presence_penalties_reqs :=
             insert_if (sp_presence_penalty sp \<noteq> 0) rid (presence_penalties_reqs b),
           repetition_penalties := (repetition_penalties b)[i := sp_repetition_penalty sp],
           repetition_penalties_reqs :=
             insert_if (sp_repetition_penalty sp \<noteq> 1) rid (repetition_penalties_reqs b)\<rparr>)"

text \<open>Entries that are only written when the request asks for them.\<close>

definition write_optional_entries ::
  "cached_request \<Rightarrow> sampling_params \<Rightarrow> nat \<Rightarrow> 'bt input_batch \<Rightarrow> 'bt input_batch" where
  "write_optional_entries request sp i b =
     (let rid = cr_req_id request
      in b\<lparr>min_tokens :=
             (if sp_min_tokens sp \<noteq> 0
              then dset (min_tokens b) i (sp_min_tokens sp, sp_all_stop_token_ids sp)
              else min_tokens b),
           generators :=
             (case cr_generator request of
                Some g \<Rightarrow> dset (generators b) i g | None \<Rightarrow> generators b),
           num_logprobs :=
             (case sp_logprobs sp of
                Some n \<Rightarrow> dset (num_logprobs b) rid n | None \<Rightarrow> num_logprobs b),
           num_prompt_logprobs :=
             (case sp_prompt_logprobs sp of
                Some n \<Rightarrow> dset (num_prompt_logprobs b) rid n | None \<Rightarrow> num_prompt_logprobs b),
           logit_bias :=
             (case sp_logit_bias sp of
                Some bias \<Rightarrow> (logit_bias b)[i := Some bias] | None \<Rightarrow> logit_bias b)\<rparr>)"

text \<open>A row of the mask of disallowed tokens: everything disallowed except the given ids, which
  index like numpy (negative ids count from the end).\<close>

fun allow_ids :: "nat \<Rightarrow> int list \<Rightarrow> bool list \<Rightarrow> bool list res" where
  "allow_ids vocab [] row = Inr row"
| "allow_ids vocab (t # ts) row =
     (if - int vocab \<le> t \<and> t < int vocab
      then allow_ids vocab ts (row[nat (if t < 0 then t + int vocab else t) := False])
      else Inl IndexError)"

text \<open>The mask is allocated on first use; bad words are stored by row.\<close>

definition write_token_filters ::
  "req_id \<Rightarrow> sampling_params \<Rightarrow> nat \<Rightarrow> 'bt input_batch \<Rightarrow> 'bt input_batch res" where
  "write_token_filters rid sp i b =
     rbind
       (if sp_allowed_token_ids sp \<noteq> []
        then
          (let mask = (case allowed_token_ids_mask b of
                         None \<Rightarrow> replicate (max_num_reqs b) (replicate (vocab_size b) False)
                       | Some m \<Rightarrow> m)
           in rbind (allow_ids (vocab_size b) (sp_allowed_token_ids sp)
                       (replicate (vocab_size b) True))
                (\<lambda>row. Inr (b\<lparr>has_allowed_token_ids := insert rid (has_allowed_token_ids b),
                              allowed_token_ids_mask := Some (mask[i := row])\<rparr>)))
        else Inr b)
       (\<lambda>b. Inr (if sp_bad_words_token_ids sp \<noteq> []
                 then b\<lparr>bad_words_token_ids :=
                          dset (bad_words_token_ids b) i (sp_bad_words_token_ids sp)\<rparr>
                 else b))"

text \<open>A pooling request.\<close>

definition write_pooling ::
  "cached_request \<Rightarrow> pooling_params \<Rightarrow> nat \<Rightarrow> 'bt input_batch \<Rightarrow> 'bt input_batch res" where
  "write_pooling request pp i b =
     (let rid = cr_req_id request
      in case cr_pooling_states request of
           None \<Rightarrow> Inl AssertionError
         | Some ps \<Rightarrow> Inr (b\<lparr>pooling_params := dset (pooling_params b) rid pp,
                              pooling_states := dset (pooling_states b) rid ps,
                              needs_token_ids :=
                                (needs_token_ids b)[i := pp_requires_token_ids pp]\<rparr>))"

text \<open>The LoRA tables.\<close>

definition write_lora :: "cached_request \<Rightarrow> nat \<Rightarrow> 'bt input_batch \<Rightarrow> 'bt input_batch" where
  "write_lora request i b =
     (case cr_lora_request request of
        Some lora \<Rightarrow>
          (let lid = lora_int_id lora;
               users = (case dget (lora_id_to_request_ids b) lid of None \<Rightarrow> {} | Some s \<Rightarrow> s)
           in b\<lparr>request_lora_mapping := (request_lora_mapping b)[i := lid],
                lora_id_to_request_ids :=
                  dset (lora_id_to_request_ids b) lid (insert (cr_req_id request) users),
                lora_id_to_lora_request := dset (lora_id_to_lora_request b) lid lora\<rparr>)
      | None \<Rightarrow> b\<lparr>request_lora_mapping := (request_lora_mapping b)[i := 0]\<rparr>)"

definition write_params ::
  "cached_request \<Rightarrow> nat \<Rightarrow> 'bt input_batch \<Rightarrow> 'bt input_batch res" where
  "write_params request i b =
     (case cr_sampling_params request of
        Some sp \<Rightarrow>
          write_token_filters (cr_req_id request) sp i
            (write_optional_entries request sp i
              (write_sampling_columns (cr_req_id request) sp i b))
      | None \<Rightarrow>
          (case cr_pooling_params request of
             Some pp \<Rightarrow> write_pooling request pp i b
           | None \<Rightarrow> Inl NotImplementedError))"

definition add_request ::
  "'bt vllm_ops \<Rightarrow> store \<Rightarrow> cached_request \<Rightarrow> nat option \<Rightarrow> 'bt input_batch
    \<Rightarrow> 'bt input_batch res" where
  "add_request ops st request idx b =
     (let req_index = (case idx of None \<Rightarrow> num_reqs b | Some i \<Rightarrow> i)
      in rbind (rassert (req_index < max_num_reqs b)) (\<lambda>_.
         rbind (place_request request req_index b) (\<lambda>b.
         rbind (write_tokens ops st request req_index b) (\<lambda>b.
         rbind (write_params request req_index b) (\<lambda>b.
         Inr (write_lora request req_index b))))))"


section \<open>Removing a request\<close>

text \<open>The request leaves its adapter's set; an adapter without users is
  dropped from both tables.\<close>

definition drop_lora :: "req_id \<Rightarrow> nat \<Rightarrow> 'bt input_batch \<Rightarrow> 'bt input_batch res" where
  "drop_lora rid i b =
     (let lid = request_lora_mapping b ! i
      in if lid \<noteq> 0 then
           rbind (ditem (lora_id_to_request_ids b) lid) (\<lambda>users.
             let users' = users - {rid}
             in if users' = {} then
                  rbind (ditem (lora_id_to_lora_request b) lid) (\<lambda>_.
                  Inr (b\<lparr>lora_id_to_request_ids := dpop (lora_id_to_request_ids b) lid,
                         lora_id_to_lora_request := dpop (lora_id_to_lora_request b) lid,
                         request_lora_mapping := (request_lora_mapping b)[i := 0]\<rparr>))
                else Inr (b\<lparr>lora_id_to_request_ids := dset (lora_id_to_request_ids b) lid users',
                            request_lora_mapping := (request_lora_mapping b)[i := 0]\<rparr>))
         else Inr b)"

text \<open>Everything keyed by the request id, and the entries keyed by its row.\<close>

definition drop_sampling :: "req_id \<Rightarrow> nat \<Rightarrow> 'bt input_batch \<Rightarrow> 'bt input_batch" where
  "drop_sampling rid i b =
     b\<lparr>greedy_reqs := greedy_reqs b - {rid}, random_reqs := random_reqs b - {rid},
       top_p_reqs := top_p_reqs b - {rid}, top_k_reqs := top_k_reqs b - {rid},
       min_p_reqs := min_p_reqs b - {rid}, min_tokens := dpop (min_tokens b) i,
       frequency_penalties_reqs := frequency_penalties_reqs b - {rid},
       presence_penalties_reqs := presence_penalties_reqs b - {rid},
       repetition_penalties_reqs := repetition_penalties_reqs b - {rid},
       generators := dpop (generators b) i, num_logprobs := dpop (num_logprobs b) rid,
       num_prompt_logprobs := dpop (num_prompt_logprobs b) rid,
       in_progress_prompt_logprobs := dpop (in_progress_prompt_logprobs b) rid,
       logit_bias := (logit_bias b)[i := None],
       has_allowed_token_ids := has_allowed_token_ids b - {rid},
       allowed_token_ids_mask :=
         map_option (\<lambda>m. m[i := replicate (length (m ! i)) False]) (allowed_token_ids_mask b),
       bad_words_token_ids := dpop (bad_words_token_ids b) i\<rparr>"

definition drop_pooling :: "req_id \<Rightarrow> 'bt input_batch \<Rightarrow> 'bt input_batch" where
  "drop_pooling rid b =
     b\<lparr>pooling_params := dpop (pooling_params b) rid,
       pooling_states := dpop (pooling_states b) rid\<rparr>"

definition remove_request ::
  "req_id \<Rightarrow> 'bt input_batch \<Rightarrow> (nat option \<times> 'bt input_batch) res" where
  "remove_request rid b =
     (case dget (req_id_to_index b) rid of
        None \<Rightarrow> Inr (None, b)
      | Some i \<Rightarrow>
         (let b1 = b\<lparr>req_id_to_index := dpop (req_id_to_index b) rid\<rparr>
          in rbind (lset (req_ids b1) i None) (\<lambda>ids.
             rbind (lset (req_output_token_ids b1) i None) (\<lambda>outs.
             rbind (drop_lora rid i (b1\<lparr>req_ids := ids, req_output_token_ids := outs\<rparr>)) (\<lambda>b2.
             Inr (Some i, if is_pooling_model b2 then drop_pooling rid b2
                          else drop_sampling rid i b2))))))"

section \<open>Moving and swapping rows\<close>

definition list_swap :: "'a list \<Rightarrow> nat \<Rightarrow> nat \<Rightarrow> 'a list" where
  "list_swap xs i j = xs[i := xs ! j, j := xs ! i]"

text \<open>
  The tuple assignment \<open>t[i], t[j] = t[j], t[i]\<close> on a torch tensor of two dimensions: the right
  side holds views, so the first store has already overwritten what the second one reads.
\<close>

definition tensor_row_swap :: "'a list \<Rightarrow> nat \<Rightarrow> nat \<Rightarrow> 'a list" where
  "tensor_row_swap rows i j = (let rows1 = rows[i := rows ! j] in rows1[j := rows1 ! i])"

text \<open>\<open>swap_states\<close>. The rows of \<open>token_ids_cpu\<close> are swapped through a temporary copy, the
  one-dimensional columns element by element.\<close>

definition swap_states ::
  "'bt vllm_ops \<Rightarrow> nat \<Rightarrow> nat \<Rightarrow> 'bt input_batch \<Rightarrow> 'bt input_batch res" where
  "swap_states ops i1 i2 b =
     rbind (lget (req_ids b) i1) (\<lambda>old1. rbind (lget (req_ids b) i2) (\<lambda>old2.
     (case (old1, old2) of
        (Some r1, Some r2) \<Rightarrow>
          rbind (ditem (req_id_to_index b) r1) (\<lambda>x1. rbind (ditem (req_id_to_index b) r2) (\<lambda>x2.
          Inr (b\<lparr>req_ids := list_swap (req_ids b) i1 i2,
                 req_output_token_ids := list_swap (req_output_token_ids b) i1 i2,
                 spec_token_ids := list_swap (spec_token_ids b) i1 i2,
                 req_id_to_index := dset (dset (req_id_to_index b) r1 x2) r2 x1,
                 num_tokens := list_swap (num_tokens b) i1 i2,
                 num_tokens_no_spec := list_swap (num_tokens_no_spec b) i1 i2,
                 num_prompt_tokens := list_swap (num_prompt_tokens b) i1 i2,
                 num_computed_tokens := list_swap (num_computed_tokens b) i1 i2,
                 token_ids_cpu := list_swap (token_ids_cpu b) i1 i2,
                 block_table := (if vo_has_tables ops (block_table b)
                                 then vo_swap_row ops i1 i2 (block_table b) else block_table b),
                 request_lora_mapping := list_swap (request_lora_mapping b) i1 i2,
                 temperature := list_swap (temperature b) i1 i2,
                 top_p := list_swap (top_p b) i1 i2, top_k := list_swap (top_k b) i1 i2,
                 frequency_penalties := list_swap (frequency_penalties b) i1 i2,
                 presence_penalties := list_swap (presence_penalties b) i1 i2,
                 repetition_penalties := list_swap (repetition_penalties b) i1 i2,
                 min_p := list_swap (min_p b) i1 i2,
                 generators := dswap (generators b) i1 i2,
                 min_tokens := dswap (min_tokens b) i1 i2,
                 bad_words_token_ids := dswap (bad_words_token_ids b) i1 i2,
                 logit_bias := list_swap (logit_bias b) i1 i2,
                 allowed_token_ids_mask :=
                   map_option (\<lambda>m. tensor_row_swap m i1 i2) (allowed_token_ids_mask b)\<rparr>)))
      | _ \<Rightarrow> Inl AssertionError)))"

text \<open>A dictionary entry follows its row; a dictionary keyed by rows has no entry for a row
  without one.\<close>

definition move_entry :: "(nat, 'v) dict \<Rightarrow> nat \<Rightarrow> nat \<Rightarrow> (nat, 'v) dict" where
  "move_entry d src dst =
     (case dget d src of None \<Rightarrow> dpop d src | Some v \<Rightarrow> dset (dpop d src) dst v)"

definition list_move :: "'a list \<Rightarrow> nat \<Rightarrow> nat \<Rightarrow> 'a list" where
  "list_move xs src dst = xs[dst := xs ! src]"

text \<open>The body of the loop of \<open>condense\<close>, which moves row \<open>src\<close> into the
  empty row \<open>dst\<close>.\<close>

definition moved_row ::
  "'bt vllm_ops \<Rightarrow> nat \<Rightarrow> nat \<Rightarrow> req_id \<Rightarrow> addr option \<Rightarrow> 'bt input_batch \<Rightarrow> 'bt input_batch" where
  "moved_row ops src dst rid out b =
     b\<lparr>req_ids := (req_ids b)[dst := Some rid, src := None],
     req_output_token_ids := (req_output_token_ids b)[dst := out, src := None],
     req_id_to_index := dset (req_id_to_index b) rid dst,
     token_ids_cpu := (token_ids_cpu b)[dst :=
       take (num_tokens b ! src) (token_ids_cpu b ! src) @ drop (num_tokens b ! src) (token_ids_cpu b ! dst)],
     num_tokens := (num_tokens b)[dst := num_tokens b ! src],
     num_tokens_no_spec := list_move (num_tokens_no_spec b) src dst,
     num_prompt_tokens := list_move (num_prompt_tokens b) src dst,
     num_computed_tokens := list_move (num_computed_tokens b) src dst,
     block_table := (if vo_has_tables ops (block_table b)
                     then vo_move_row ops src dst (block_table b)
                     else block_table b),
     request_lora_mapping := list_move (request_lora_mapping b) src dst,
     temperature := list_move (temperature b) src dst,
     top_p := list_move (top_p b) src dst,
     top_k := list_move (top_k b) src dst,
     frequency_penalties := list_move (frequency_penalties b) src dst,
     presence_penalties := list_move (presence_penalties b) src dst,
     repetition_penalties := list_move (repetition_penalties b) src dst,
     min_p := list_move (min_p b) src dst,
     generators := move_entry (generators b) src dst,
     min_tokens := move_entry (min_tokens b) src dst,
     logit_bias := list_move (logit_bias b) src dst,
     allowed_token_ids_mask :=
       map_option (\<lambda>m. list_move m src dst) (allowed_token_ids_mask b),
     bad_words_token_ids := move_entry (bad_words_token_ids b) src dst\<rparr>"

definition move_row ::
  "'bt vllm_ops \<Rightarrow> nat \<Rightarrow> nat \<Rightarrow> 'bt input_batch \<Rightarrow> 'bt input_batch res" where
  "move_row ops src dst b =
     rbind (lget (req_ids b) src) (\<lambda>r. rbind (lget (req_output_token_ids b) src) (\<lambda>out.
     (case r of
        None \<Rightarrow> Inl AssertionError
      | Some rid \<Rightarrow> Inr (moved_row ops src dst rid out b))))"

text \<open>The largest row that is not empty.\<close>

function skip_empty :: "nat list \<Rightarrow> int \<Rightarrow> int" where
  "skip_empty empties last_req_index =
     (if last_req_index \<in> int ` set empties
      then skip_empty empties (last_req_index - 1) else last_req_index)"
  by pat_completeness auto
termination
  by (relation "measure (\<lambda>(es, l). nat (l + 1))") auto

declare skip_empty.simps [simp del]

text \<open>The outer loop; the empty rows come in descending order, so \<open>pop()\<close> takes the smallest.\<close>

function condense_loop ::
  "'bt vllm_ops \<Rightarrow> nat list \<Rightarrow> int \<Rightarrow> 'bt input_batch \<Rightarrow> 'bt input_batch res" where
  "condense_loop ops empties last_req_index b =
     (if empties = [] then Inr b
      else
        let src = skip_empty empties last_req_index; dst = last empties
        in if src \<le> int dst then Inr b
           else rbind (move_row ops (nat src) dst b)
                  (\<lambda>b'. condense_loop ops (butlast empties) (src - 1) b'))"
  by pat_completeness auto
termination
  by (relation "measure (\<lambda>(ops, es, l, b). length es)") auto

declare condense_loop.simps [simp del]

definition condense ::
  "'bt vllm_ops \<Rightarrow> nat list \<Rightarrow> 'bt input_batch \<Rightarrow> 'bt input_batch res" where
  "condense ops empty_req_indices b =
     (let n = num_reqs b
      in if n = 0 then Inr (b\<lparr>req_ids := [], req_output_token_ids := []\<rparr>)
         else rbind (condense_loop ops empty_req_indices
                       (int (n + length empty_req_indices) - 1) b)
                (\<lambda>b'. Inr (b'\<lparr>req_ids := take n (req_ids b'),
                               req_output_token_ids := take n (req_output_token_ids b')\<rparr>)))"

section \<open>Derived attributes\<close>

definition all_greedy :: "'bt input_batch \<Rightarrow> bool" where
  "all_greedy b \<longleftrightarrow> random_reqs b = {}"

definition all_random :: "'bt input_batch \<Rightarrow> bool" where
  "all_random b \<longleftrightarrow> greedy_reqs b = {}"

definition no_top_p :: "'bt input_batch \<Rightarrow> bool" where
  "no_top_p b \<longleftrightarrow> top_p_reqs b = {}"

definition no_top_k :: "'bt input_batch \<Rightarrow> bool" where
  "no_top_k b \<longleftrightarrow> top_k_reqs b = {}"

definition no_min_p :: "'bt input_batch \<Rightarrow> bool" where
  "no_min_p b \<longleftrightarrow> min_p_reqs b = {}"

definition no_penalties :: "'bt input_batch \<Rightarrow> bool" where
  "no_penalties b \<longleftrightarrow> presence_penalties_reqs b = {} \<and> frequency_penalties_reqs b = {}
     \<and> repetition_penalties_reqs b = {}"

definition max_num_logprobs :: "'bt input_batch \<Rightarrow> int option" where
  "max_num_logprobs b =
     (case map snd (num_logprobs b) of [] \<Rightarrow> None | n # ns \<Rightarrow> Some (fold max ns n))"

definition no_prompt_logprob :: "'bt input_batch \<Rightarrow> bool" where
  "no_prompt_logprob b \<longleftrightarrow> num_prompt_logprobs b = []"

definition no_allowed_token_ids :: "'bt input_batch \<Rightarrow> bool" where
  "no_allowed_token_ids b \<longleftrightarrow> has_allowed_token_ids b = {}"

text \<open>\<open>_make_prompt_token_ids_tensor\<close>: the prompts of the batch, padded with the vocabulary size.
  \<open>max\<close> of an empty array raises.\<close>

definition make_prompt_token_ids_tensor :: "'bt input_batch \<Rightarrow> int list list res" where
  "make_prompt_token_ids_tensor b =
     (let n = num_reqs b; lens = take n (num_prompt_tokens b)
      in if lens = [] then Inl ValueError
         else let m = Max (set lens)
              in Inr (map (\<lambda>i. slice_fill (take m (token_ids_cpu b ! i)) (num_prompt_tokens b ! i) m
                                 (int (vocab_size b))) [0..<n]))"

text \<open>\<open>make_lora_inputs\<close>: adapters per prompt and per token; \<open>repeat\<close> needs one count per row.\<close>

definition np_repeat :: "'a list \<Rightarrow> nat list \<Rightarrow> 'a list res" where
  "np_repeat xs ns =
     (if length ns = length xs then Inr (concat (map2 (\<lambda>x n. replicate n x) xs ns))
      else Inl ValueError)"

definition make_lora_inputs ::
  "nat list \<Rightarrow> nat list \<Rightarrow> 'bt input_batch
     \<Rightarrow> (int list \<times> int list \<times> lora_request list) res" where
  "make_lora_inputs num_scheduled_tokens num_sampled_tokens b =
     (let m = take (num_reqs b) (request_lora_mapping b)
      in rbind (np_repeat m num_sampled_tokens) (\<lambda>prompt_mapping.
         rbind (np_repeat m num_scheduled_tokens) (\<lambda>token_mapping.
         Inr (prompt_mapping, token_mapping, map snd (lora_id_to_lora_request b)))))"

definition get_pooling_params :: "'bt input_batch \<Rightarrow> pooling_params list res" where
  "get_pooling_params b =
     rbind (rassert (length (req_ids b) = length (pooling_params b))) (\<lambda>_.
     rmap (\<lambda>r. case r of None \<Rightarrow> Inl KeyError | Some rid \<Rightarrow> ditem (pooling_params b) rid)
       (req_ids b))"

definition get_pooling_states :: "'bt input_batch \<Rightarrow> nat list res" where
  "get_pooling_states b =
     rbind (rassert (length (req_ids b) = length (pooling_states b))) (\<lambda>_.
     rmap (\<lambda>r. case r of None \<Rightarrow> Inl KeyError | Some rid \<Rightarrow> ditem (pooling_states b) rid)
       (req_ids b))"

end
