(* ===== verification/InputBatchInv.thy ===== *)
theory InputBatchInv
  imports InputBatch
begin

text \<open>
  The representation invariant of the persistent batch, the logical content of a row, and what
  the operations do to both: a removal leaves a hole and forgets the request, an addition fills
  a hole or appends, \<open>condense\<close> closes the holes and keeps every request's content.
\<close>

section \<open>Invariant and content\<close>

definition arrays_sized :: "'bt input_batch \<Rightarrow> bool" where
  "arrays_sized b \<longleftrightarrow>
     (let n = max_num_reqs b
      in length (token_ids_cpu b) = n \<and> (\<forall>row \<in> set (token_ids_cpu b). length row = max_model_len b)
       \<and> length (num_tokens b) = n \<and> length (num_tokens_no_spec b) = n
       \<and> length (num_prompt_tokens b) = n \<and> length (num_computed_tokens b) = n
       \<and> length (temperature b) = n \<and> length (top_p b) = n \<and> length (top_k b) = n
       \<and> length (min_p b) = n \<and> length (frequency_penalties b) = n
       \<and> length (presence_penalties b) = n \<and> length (repetition_penalties b) = n
       \<and> length (request_lora_mapping b) = n \<and> length (logit_bias b) = n
       \<and> (\<forall>m. allowed_token_ids_mask b = Some m \<longrightarrow> length m = n))"

definition live :: "'bt input_batch \<Rightarrow> nat \<Rightarrow> bool" where
  "live b i \<longleftrightarrow> i < length (req_ids b) \<and> req_ids b ! i \<noteq> None"

text \<open>The id-to-index dictionary and the list of ids describe each other; rows without a request
  have no entry in a dictionary keyed by rows.\<close>

definition batch_inv :: "'bt input_batch \<Rightarrow> bool" where
  "batch_inv b \<longleftrightarrow>
     arrays_sized b
     \<and> length (req_output_token_ids b) = length (req_ids b)
     \<and> length (req_ids b) \<le> max_num_reqs b
     \<and> distinct (dkeys (req_id_to_index b))
     \<and> (\<forall>r i. dget (req_id_to_index b) r = Some i
              \<longleftrightarrow> i < length (req_ids b) \<and> req_ids b ! i = Some r)
     \<and> (\<forall>i. dget (generators b) i \<noteq> None \<longrightarrow> live b i)
     \<and> (\<forall>i. dget (min_tokens b) i \<noteq> None \<longrightarrow> live b i)
     \<and> (\<forall>i. dget (bad_words_token_ids b) i \<noteq> None \<longrightarrow> live b i)
     \<and> (is_pooling_model b
          \<longrightarrow> generators b = [] \<and> min_tokens b = [] \<and> bad_words_token_ids b = [])"

definition holes :: "'bt input_batch \<Rightarrow> nat set" where
  "holes b = {i. i < length (req_ids b) \<and> req_ids b ! i = None}"

text \<open>What a row says about its request; \<open>row\<close> reads the block table.\<close>

record 'r row_view =
  rv_tokens :: "int list"
  rv_num_tokens :: nat
  rv_num_tokens_no_spec :: nat
  rv_num_prompt_tokens :: nat
  rv_num_computed_tokens :: nat
  rv_blocks :: 'r
  rv_lora :: int
  rv_sampling :: "rat list"
  rv_top_k :: int
  rv_generator :: "nat option"
  rv_min_tokens :: "(nat \<times> int list) option"
  rv_bad_words :: "int list list option"
  rv_output :: "addr option"

definition row_at :: "(nat \<Rightarrow> 'bt \<Rightarrow> 'r) \<Rightarrow> 'bt input_batch \<Rightarrow> nat \<Rightarrow> 'r row_view" where
  "row_at row b i =
     \<lparr> rv_tokens = take (num_tokens b ! i) (token_ids_cpu b ! i),
       rv_num_tokens = num_tokens b ! i, rv_num_tokens_no_spec = num_tokens_no_spec b ! i,
       rv_num_prompt_tokens = num_prompt_tokens b ! i,
       rv_num_computed_tokens = num_computed_tokens b ! i,
       rv_blocks = row i (block_table b), rv_lora = request_lora_mapping b ! i,
       rv_sampling = [temperature b ! i, top_p b ! i, min_p b ! i, frequency_penalties b ! i,
                      presence_penalties b ! i, repetition_penalties b ! i],
       rv_top_k = top_k b ! i, rv_generator = dget (generators b) i,
       rv_min_tokens = dget (min_tokens b) i, rv_bad_words = dget (bad_words_token_ids b) i,
       rv_output = req_output_token_ids b ! i \<rparr>"

text \<open>The two filters the code writes only for requests that ask for them: the logit bias and the
  row of disallowed tokens (no mask means that no token is disallowed).\<close>

definition filters_at ::
  "'bt input_batch \<Rightarrow> nat \<Rightarrow> (int, rat) dict option \<times> bool list" where
  "filters_at b i =
     (logit_bias b ! i, case allowed_token_ids_mask b of
                          None \<Rightarrow> replicate (vocab_size b) False | Some m \<Rightarrow> m ! i)"

definition batch_view ::
  "(nat \<Rightarrow> 'bt \<Rightarrow> 'r) \<Rightarrow> 'bt input_batch \<Rightarrow> req_id \<Rightarrow> 'r row_view option" where
  "batch_view row b rid = map_option (row_at row b) (dget (req_id_to_index b) rid)"

definition filter_view ::
  "'bt input_batch \<Rightarrow> req_id \<Rightarrow> ((int, rat) dict option \<times> bool list) option" where
  "filter_view b rid = map_option (filters_at b) (dget (req_id_to_index b) rid)"

text \<open>The block lists of a request, one per cache group, each extended by the new blocks of its
  group; \<open>zip\<close> stops at the shorter list.\<close>

fun extend_blocks :: "int list list \<Rightarrow> int list list \<Rightarrow> int list list" where
  "extend_blocks (ids # rest) (new # news) = (ids @ new) # extend_blocks rest news"
| "extend_blocks ids _ = ids"

text \<open>
  What the batch relies on of vLLM: a cached request has its prompt tokens and its output tokens;
  a row of the block table holds what was last written to it, an operation touches one row only,
  and a model without tables has nothing to read.
\<close>

definition vllm_laws :: "'bt vllm_ops \<Rightarrow> (nat \<Rightarrow> 'bt \<Rightarrow> int list list) \<Rightarrow> bool" where
  "vllm_laws ops row \<longleftrightarrow>
     (\<forall>m n. vo_num_tokens ops m n = m + n)
     \<and> (\<forall>t i. \<not> vo_has_tables ops t \<longrightarrow> row i t = [])
     \<and> (\<forall>t src dst i. row i (vo_move_row ops src dst t) = row (if i = dst then src else i) t)
     \<and> (\<forall>t src dst. vo_has_tables ops (vo_move_row ops src dst t) = vo_has_tables ops t)
     \<and> (\<forall>t ids i j. row j (vo_add_row ops ids i t) = (if j = i then ids else row j t))
     \<and> (\<forall>t ids i. vo_has_tables ops (vo_add_row ops ids i t) = vo_has_tables ops t)
     \<and> (\<forall>t ids i j. row j (vo_append_row ops ids i t) =
          (if j = i then extend_blocks (row j t) ids else row j t))
     \<and> (\<forall>t ids i. vo_has_tables ops (vo_append_row ops ids i t) = vo_has_tables ops t)"

text \<open>What no operation changes.\<close>

definition batch_static :: "'bt vllm_ops \<Rightarrow> 'bt input_batch \<Rightarrow> nat \<times> nat \<times> nat \<times> bool \<times> bool" where
  "batch_static ops b = (max_num_reqs b, max_model_len b, vocab_size b, is_pooling_model b,
     vo_has_tables ops (block_table b))"

lemma arrays_sizedD:
  assumes "arrays_sized b"
  shows "length (token_ids_cpu b) = max_num_reqs b"
    "\<forall>row \<in> set (token_ids_cpu b). length row = max_model_len b"
    "length (num_tokens b) = max_num_reqs b"
    "length (num_tokens_no_spec b) = max_num_reqs b"
    "length (num_prompt_tokens b) = max_num_reqs b"
    "length (num_computed_tokens b) = max_num_reqs b"
    "length (request_lora_mapping b) = max_num_reqs b"
    "length (temperature b) = max_num_reqs b"
    "length (top_p b) = max_num_reqs b"
    "length (top_k b) = max_num_reqs b"
    "length (frequency_penalties b) = max_num_reqs b"
    "length (presence_penalties b) = max_num_reqs b"
    "length (repetition_penalties b) = max_num_reqs b"
    "length (min_p b) = max_num_reqs b"
    "length (logit_bias b) = max_num_reqs b"
    "allowed_token_ids_mask b = Some m \<Longrightarrow> length m = max_num_reqs b"
  using assms by (simp_all add: arrays_sized_def Let_def)

lemma batch_invD:
  assumes "batch_inv b"
  shows "arrays_sized b" "length (req_output_token_ids b) = length (req_ids b)"
    "length (req_ids b) \<le> max_num_reqs b" "distinct (dkeys (req_id_to_index b))"
    "dget (req_id_to_index b) r = Some i \<longleftrightarrow> i < length (req_ids b) \<and> req_ids b ! i = Some r"
    "dget (generators b) i \<noteq> None \<Longrightarrow> live b i" "dget (min_tokens b) i \<noteq> None \<Longrightarrow> live b i"
    "dget (bad_words_token_ids b) i \<noteq> None \<Longrightarrow> live b i"
    "is_pooling_model b \<Longrightarrow>
       generators b = [] \<and> min_tokens b = [] \<and> bad_words_token_ids b = []"
  using assms by (auto simp: batch_inv_def)

lemma live_index_unique:
  assumes "batch_inv b" "i < length (req_ids b)" "j < length (req_ids b)"
    "req_ids b ! i = Some r" "req_ids b ! j = Some r"
  shows "i = j"
  using assms batch_invD(5) [OF assms(1)] by (metis option.inject)

lemma keys_are_ids:
  assumes "batch_inv b"
  shows "r \<in> set (dkeys (req_id_to_index b)) \<longleftrightarrow> Some r \<in> set (req_ids b)"
proof -
  have "r \<in> set (dkeys (req_id_to_index b)) \<longleftrightarrow> (\<exists>i. dget (req_id_to_index b) r = Some i)"
    using dget_None_iff [of "req_id_to_index b" r] by auto
  also have "\<dots> \<longleftrightarrow> Some r \<in> set (req_ids b)"
    using batch_invD(5) [OF assms] by (auto simp: in_set_conv_nth)
  finally show ?thesis .
qed

lemma card_live:
  assumes "batch_inv b"
  shows "card {i. live b i} = num_reqs b"
proof -
  have "{i. live b i} = (\<lambda>r. the (dget (req_id_to_index b) r)) ` set (dkeys (req_id_to_index b))"
  proof (intro equalityI subsetI)
    fix i
    assume "i \<in> {i. live b i}"
    then obtain r where r: "i < length (req_ids b)" "req_ids b ! i = Some r" by (auto simp: live_def)
    then have d: "dget (req_id_to_index b) r = Some i" using batch_invD(5) [OF assms] by blast
    then have "r \<in> set (dkeys (req_id_to_index b))" using dget_None_iff by (metis option.distinct(1))
    with d show "i \<in> (\<lambda>r. the (dget (req_id_to_index b) r)) ` set (dkeys (req_id_to_index b))"
      by force
  next
    fix i
    assume "i \<in> (\<lambda>r. the (dget (req_id_to_index b) r)) ` set (dkeys (req_id_to_index b))"
    then obtain r where "r \<in> set (dkeys (req_id_to_index b))" "i = the (dget (req_id_to_index b) r)"
      by blast
    then have "dget (req_id_to_index b) r = Some i"
      using dget_None_iff [of "req_id_to_index b" r] by auto
    then show "i \<in> {i. live b i}" using batch_invD(5) [OF assms] by (auto simp: live_def)
  qed
  moreover have "inj_on (\<lambda>r. the (dget (req_id_to_index b) r)) (set (dkeys (req_id_to_index b)))"
  proof (rule inj_onI)
    fix r s
    assume "r \<in> set (dkeys (req_id_to_index b))" "s \<in> set (dkeys (req_id_to_index b))"
      and eq: "the (dget (req_id_to_index b) r) = the (dget (req_id_to_index b) s)"
    then obtain i j where "dget (req_id_to_index b) r = Some i" "dget (req_id_to_index b) s = Some j"
      using dget_None_iff by (metis option.exhaust)
    with eq show "r = s" using batch_invD(5) [OF assms] by (metis option.inject option.sel)
  qed
  ultimately have "card {i. live b i} = card (set (dkeys (req_id_to_index b)))"
    by (simp add: card_image)
  also have "\<dots> = num_reqs b"
    using distinct_card [OF batch_invD(4) [OF assms]] by (simp add: num_reqs_def)
  finally show ?thesis .
qed

lemma slots_split:
  assumes "batch_inv b"
  shows "num_reqs b + card (holes b) = length (req_ids b)"
proof -
  have "{..<length (req_ids b)} = {i. live b i} \<union> holes b" by (auto simp: live_def holes_def)
  moreover have "{i. live b i} \<inter> holes b = {}" by (auto simp: live_def holes_def)
  moreover have "finite {i. live b i}" "finite (holes b)" by (auto simp: live_def holes_def)
  ultimately have "length (req_ids b) = card {i. live b i} + card (holes b)"
    by (metis card_Un_disjoint card_lessThan)
  then show ?thesis using card_live [OF assms] by simp
qed

lemma no_holes_iff: "holes b = {} \<longleftrightarrow> None \<notin> set (req_ids b)"
  by (auto simp: holes_def in_set_conv_nth)

text \<open>A new batch satisfies the invariant and holds nothing.\<close>

lemma batch_inv_new: "batch_inv (new_input_batch pooling n len vocab bt junk junk_k)"
  by (simp add: batch_inv_def arrays_sized_def new_input_batch_def Let_def)


section \<open>Adapters\<close>

definition lora_users :: "'bt input_batch \<Rightarrow> int \<Rightarrow> req_id set" where
  "lora_users b lid = {r. \<exists>i. dget (req_id_to_index b) r = Some i \<and> request_lora_mapping b ! i = lid}"

text \<open>The adapter tables list exactly the adapters in use, each with exactly its users.\<close>

definition lora_inv :: "'bt input_batch \<Rightarrow> bool" where
  "lora_inv b \<longleftrightarrow>
     (\<forall>lid. dget (lora_id_to_request_ids b) lid =
        (if lid = 0 \<or> lora_users b lid = {} then None else Some (lora_users b lid)))
     \<and> (\<forall>lid. dget (lora_id_to_lora_request b) lid = None
          \<longleftrightarrow> dget (lora_id_to_request_ids b) lid = None)"

lemma lora_users_view:
  "lora_users b lid = {r. map_option rv_lora (batch_view row b r) = Some lid}"
  by (auto simp: lora_users_def batch_view_def row_at_def)

lemma lora_inv_cong:
  assumes "batch_view row b' = batch_view row b"
    and "lora_id_to_request_ids b' = lora_id_to_request_ids b"
    and "lora_id_to_lora_request b' = lora_id_to_lora_request b"
  shows "lora_inv b' = lora_inv b"
  using assms by (simp add: lora_inv_def lora_users_view [of _ _ row])

section \<open>Moving a row\<close>

lemma dget_move_entry:
  "src \<noteq> dst \<Longrightarrow> dget (move_entry d src dst) i =
    (if i = src then None else if i = dst \<and> dget d src \<noteq> None then dget d src else dget d i)"
  by (auto simp: move_entry_def split: option.splits)

lemma dget_move_dst:
  "src \<noteq> dst \<Longrightarrow> dget d dst = None \<Longrightarrow> dget (move_entry d src dst) dst = dget d src"
  by (auto simp: move_entry_def split: option.splits)

lemma length_list_move [simp]: "length (list_move xs src dst) = length xs"
  by (simp add: list_move_def)

lemma nth_list_move:
  "dst < length xs \<Longrightarrow> list_move xs src dst ! i = (if i = dst then xs ! src else xs ! i)"
  by (simp add: list_move_def nth_list_update)

lemma moved_row_fields:
  "num_tokens (moved_row ops src dst rid out b) = (num_tokens b)[dst := num_tokens b ! src]"
  "token_ids_cpu (moved_row ops src dst rid out b) = (token_ids_cpu b)[dst :=
     take (num_tokens b ! src) (token_ids_cpu b ! src)
     @ drop (num_tokens b ! src) (token_ids_cpu b ! dst)]"
  "req_output_token_ids (moved_row ops src dst rid out b) =
     (req_output_token_ids b)[dst := out, src := None]"
  "num_tokens_no_spec (moved_row ops src dst rid out b) = list_move (num_tokens_no_spec b) src dst"
  "num_prompt_tokens (moved_row ops src dst rid out b) = list_move (num_prompt_tokens b) src dst"
  "num_computed_tokens (moved_row ops src dst rid out b) = list_move (num_computed_tokens b) src dst"
  "request_lora_mapping (moved_row ops src dst rid out b) = list_move (request_lora_mapping b) src dst"
  "temperature (moved_row ops src dst rid out b) = list_move (temperature b) src dst"
  "top_p (moved_row ops src dst rid out b) = list_move (top_p b) src dst"
  "top_k (moved_row ops src dst rid out b) = list_move (top_k b) src dst"
  "frequency_penalties (moved_row ops src dst rid out b) = list_move (frequency_penalties b) src dst"
  "presence_penalties (moved_row ops src dst rid out b) = list_move (presence_penalties b) src dst"
  "repetition_penalties (moved_row ops src dst rid out b) = list_move (repetition_penalties b) src dst"
  "min_p (moved_row ops src dst rid out b) = list_move (min_p b) src dst"
  "logit_bias (moved_row ops src dst rid out b) = list_move (logit_bias b) src dst"
  "generators (moved_row ops src dst rid out b) = move_entry (generators b) src dst"
  "min_tokens (moved_row ops src dst rid out b) = move_entry (min_tokens b) src dst"
  "bad_words_token_ids (moved_row ops src dst rid out b) = move_entry (bad_words_token_ids b) src dst"
  "allowed_token_ids_mask (moved_row ops src dst rid out b) =
     map_option (\<lambda>m. list_move m src dst) (allowed_token_ids_mask b)"
  "vocab_size (moved_row ops src dst rid out b) = vocab_size b"
  by (simp_all add: moved_row_def)

lemma move_row_ok:
  assumes inv: "batch_inv b" and laws: "vllm_laws ops row"
    and idx: "dst < src" "src < length (req_ids b)"
    and rid: "req_ids b ! src = Some rid" and hole: "req_ids b ! dst = None"
  obtains b' where "move_row ops src dst b = Inr b'" "batch_inv b'"
    "req_ids b' = (req_ids b)[dst := Some rid, src := None]"
    "num_reqs b' = num_reqs b" "batch_view row b' = batch_view row b"
    "filter_view b' = filter_view b" "batch_static ops b' = batch_static ops b"
    "lora_inv b' = lora_inv b"
proof -
  note D = batch_invD [OF inv]
  have sz: "arrays_sized b" by (rule D(1))
  have len: "src < max_num_reqs b" "dst < max_num_reqs b"
    using idx D(3) by auto
  have out: "src < length (req_output_token_ids b)" using idx D(2) by simp
  have key: "dget (req_id_to_index b) rid = Some src" using D(5) rid idx by blast
  have other: "i \<noteq> src \<and> i \<noteq> dst" if "dget (req_id_to_index b) r = Some i" "r \<noteq> rid" for r i
    using that D(5) rid hole by auto
  have "\<not> live b dst" using hole by (simp add: live_def)
  then have nodst: "dget (generators b) dst = None" "dget (min_tokens b) dst = None"
      "dget (bad_words_token_ids b) dst = None"
    using D(6) [of dst] D(7) [of dst] D(8) [of dst] by blast+
  define b' where "b' = moved_row ops src dst rid (req_output_token_ids b ! src) b"
  have mv: "move_row ops src dst b = Inr b'"
    using idx out rid by (simp add: b'_def move_row_def)
  have ids: "req_ids b' = (req_ids b)[dst := Some rid, src := None]"
    and idm: "req_id_to_index b' = dset (req_id_to_index b) rid dst"
    and gen: "generators b' = move_entry (generators b) src dst"
      "min_tokens b' = move_entry (min_tokens b) src dst"
      "bad_words_token_ids b' = move_entry (bad_words_token_ids b) src dst"
    and mx: "max_num_reqs b' = max_num_reqs b" and mml: "max_model_len b' = max_model_len b"
    and outs: "req_output_token_ids b' =
      (req_output_token_ids b)[dst := req_output_token_ids b ! src, src := None]"
    by (simp_all add: b'_def moved_row_def)
  have nth_ids: "req_ids b' ! i = (if i = src then None else if i = dst then Some rid else req_ids b ! i)"
    if "i < length (req_ids b)" for i
    using that idx by (auto simp: ids nth_list_update)
  have len_ids: "length (req_ids b') = length (req_ids b)" by (simp add: ids)
  have keyin: "rid \<in> set (dkeys (req_id_to_index b))"
    using key dget_None_iff [of "req_id_to_index b" rid] by (metis option.distinct(1))
  have nr: "num_reqs b' = num_reqs b" using keyin by (simp add: num_reqs_def idm length_dset)
  have srow: "\<forall>row \<in> set (token_ids_cpu b). length row = max_model_len b"
    using sz by (simp add: arrays_sized_def Let_def)
  have rows: "length (token_ids_cpu b ! src) = max_model_len b"
      "length (token_ids_cpu b ! dst) = max_model_len b"
    using srow len sz by (simp_all add: arrays_sized_def Let_def)
  have toks: "token_ids_cpu b' = (token_ids_cpu b)[dst :=
      take (num_tokens b ! src) (token_ids_cpu b ! src)
      @ drop (num_tokens b ! src) (token_ids_cpu b ! dst)]"
    by (simp add: b'_def moved_row_def)
  have tok_rows: "\<forall>r \<in> set (token_ids_cpu b'). length r = max_model_len b"
    unfolding toks
  proof
    fix r
    assume "r \<in> set ((token_ids_cpu b)[dst := take (num_tokens b ! src) (token_ids_cpu b ! src)
      @ drop (num_tokens b ! src) (token_ids_cpu b ! dst)])"
    then have "r \<in> insert (take (num_tokens b ! src) (token_ids_cpu b ! src)
      @ drop (num_tokens b ! src) (token_ids_cpu b ! dst)) (set (token_ids_cpu b))"
      using set_update_subset_insert by (rule subsetD [rotated])
    then show "length r = max_model_len b" using srow rows by auto
  qed
  have mask: "allowed_token_ids_mask b' = map_option (\<lambda>m. list_move m src dst) (allowed_token_ids_mask b)"
    by (simp add: b'_def moved_row_def)
  have sized: "arrays_sized b'"
    unfolding arrays_sized_def Let_def
  proof (intro conjI allI impI)
    show "\<forall>r \<in> set (token_ids_cpu b'). length r = max_model_len b'"
      using tok_rows by (simp only: mml)
    show "length m = max_num_reqs b'" if "allowed_token_ids_mask b' = Some m" for m
    proof -
      from that obtain m0 where "allowed_token_ids_mask b = Some m0" "m = list_move m0 src dst"
        by (auto simp: mask)
      then show ?thesis using sz by (simp add: mx arrays_sized_def Let_def)
    qed
  qed (use sz in \<open>simp_all add: b'_def moved_row_def arrays_sized_def Let_def\<close>)
  have inv': "batch_inv b'"
    unfolding batch_inv_def
  proof (intro conjI allI impI)
    show "arrays_sized b'" by (rule sized)
    show "length (req_output_token_ids b') = length (req_ids b')" using D(2) by (simp add: outs ids)
    show "length (req_ids b') \<le> max_num_reqs b'" using D(3) by (simp add: ids mx)
    show "distinct (dkeys (req_id_to_index b'))" using D(4) by (simp add: idm distinct_update)
    show "dget (req_id_to_index b') r = Some i \<longleftrightarrow> i < length (req_ids b') \<and> req_ids b' ! i = Some r"
      for r i
    proof (cases "r = rid")
      case True
      then show ?thesis using idx rid live_index_unique [OF inv]
        by (auto simp: idm nth_ids len_ids split: if_splits)
    next
      case False
      then show ?thesis using D(5) [of r i] rid hole by (auto simp: idm nth_ids len_ids split: if_splits)
    qed
    have live': "live b' i" if "live b i" "i \<noteq> src" for i
      using that idx by (auto simp: live_def nth_ids len_ids)
    have ldst: "live b' dst" using idx by (auto simp: live_def nth_ids len_ids)
    show "live b' i" if "dget (generators b') i \<noteq> None" for i
      using that D(6) live' ldst idx by (auto simp: gen dget_move_entry split: if_splits)
    show "live b' i" if "dget (min_tokens b') i \<noteq> None" for i
      using that D(7) live' ldst idx by (auto simp: gen dget_move_entry split: if_splits)
    show "live b' i" if "dget (bad_words_token_ids b') i \<noteq> None" for i
      using that D(8) live' ldst idx by (auto simp: gen dget_move_entry split: if_splits)
    assume "is_pooling_model b'"
    then have "generators b = [] \<and> min_tokens b = [] \<and> bad_words_token_ids b = []"
      using D(9) by (simp add: b'_def moved_row_def)
    then show "generators b' = []" "min_tokens b' = []" "bad_words_token_ids b' = []"
      by (simp_all add: gen move_entry_def)
  qed
  have blocks: "row i (block_table b') = row (if i = dst then src else i) (block_table b)" for i
  proof -
    have "block_table b' = (if vo_has_tables ops (block_table b)
        then vo_move_row ops src dst (block_table b) else block_table b)"
      by (simp add: b'_def moved_row_def)
    then show ?thesis using laws unfolding vllm_laws_def by (cases "i = dst") auto
  qed
  note L = arrays_sizedD [OF sz]
  note F = moved_row_fields [of ops src dst rid "req_output_token_ids b ! src" b, folded b'_def]
  have moved: "row_at row b' dst = row_at row b src"
    using idx rows len out
    by (auto simp add: row_at_def blocks F nth_list_move L nth_list_update D(2) dget_move_dst nodst)
  have kept: "row_at row b' i = row_at row b i" if "i \<noteq> src" "i \<noteq> dst" for i
    using that idx len
    by (simp add: row_at_def blocks F nth_list_move L nth_list_update dget_move_entry)
  have fmoved: "filters_at b' dst = filters_at b src"
    using len L(16) by (cases "allowed_token_ids_mask b") (simp_all add: filters_at_def F nth_list_move L)
  have fkept: "filters_at b' i = filters_at b i" if "i \<noteq> dst" for i
    using that len L(16)
    by (cases "allowed_token_ids_mask b") (simp_all add: filters_at_def F nth_list_move L)
  have view: "batch_view row b' = batch_view row b"
  proof
    fix r
    show "batch_view row b' r = batch_view row b r"
      using moved kept key other
      by (cases "dget (req_id_to_index b) r") (auto simp: batch_view_def idm)
  qed
  have fview: "filter_view b' = filter_view b"
  proof
    fix r
    show "filter_view b' r = filter_view b r"
      using fmoved fkept key other
      by (cases "dget (req_id_to_index b) r") (auto simp: filter_view_def idm)
  qed
  have stat: "batch_static ops b' = batch_static ops b"
    using laws by (simp add: batch_static_def b'_def moved_row_def vllm_laws_def)
  have "lora_inv b' = lora_inv b"
    by (rule lora_inv_cong [OF view]) (simp_all add: b'_def moved_row_def)
  then show ?thesis using that mv inv' ids nr view fview stat by blast
qed


section \<open>Condensing\<close>

lemma skip_empty_le: "skip_empty es l \<le> l"
  by (induction es l rule: skip_empty.induct) (subst skip_empty.simps, auto)

lemma skip_empty_notin: "skip_empty es l \<notin> int ` set es"
  by (induction es l rule: skip_empty.induct) (subst skip_empty.simps, auto)

lemma skip_empty_between: "skip_empty es l < k \<Longrightarrow> k \<le> l \<Longrightarrow> k \<in> int ` set es"
proof (induction es l rule: skip_empty.induct)
  case (1 es l)
  then show ?case by (cases "k = l") (auto simp: skip_empty.simps [of es l] split: if_splits)
qed

text \<open>
  The state of the loop: the rows \<open>0\<close> to \<open>last\<close> hold \<open>num_reqs\<close> requests and the holes in
  \<open>empties\<close>, everything above is empty, and so many rows are left as there are requests and
  holes together.
\<close>

definition loop_inv :: "nat list \<Rightarrow> int \<Rightarrow> 'bt input_batch \<Rightarrow> bool" where
  "loop_inv es l b \<longleftrightarrow>
     batch_inv b \<and> sorted_wrt (>) es \<and> set es \<subseteq> holes b
     \<and> l < int (length (req_ids b))
     \<and> (\<forall>i \<in> holes b. i \<notin> set es \<longrightarrow> l < int i)
     \<and> (\<forall>i. live b i \<longrightarrow> int i \<le> l)"

lemma sorted_desc_last:
  "sorted_wrt (>) es \<Longrightarrow> x \<in> set (butlast es) \<Longrightarrow> last es < (x :: nat)"
  by (induction es) (auto split: if_splits)

lemma sorted_desc_butlast: "sorted_wrt (>) es \<Longrightarrow> sorted_wrt (>) (butlast es)"
  by (induction es) (auto dest: in_set_butlastD)

text \<open>When the loop stops, no hole lies below a request.\<close>

definition packed :: "'bt input_batch \<Rightarrow> bool" where
  "packed b \<longleftrightarrow> (\<forall>i. live b i \<longleftrightarrow> i < num_reqs b)"

lemma packedI:
  assumes inv: "batch_inv b" and dc: "\<And>i j. live b j \<Longrightarrow> i < j \<Longrightarrow> live b i"
  shows "packed b"
proof -
  define n where "n = (LEAST i. \<not> live b i)"
  have ex: "\<exists>i. \<not> live b i" by (auto simp: live_def intro: exI [of _ "length (req_ids b)"])
  have "\<not> live b n" using ex unfolding n_def by (rule LeastI_ex)
  then have "live b i \<longleftrightarrow> i < n" for i
    using dc not_less_Least [of i "\<lambda>i. \<not> live b i"] unfolding n_def [symmetric]
    by (metis linorder_neqE_nat)
  then have "{i. live b i} = {..<n}" by auto
  then have "n = num_reqs b" using card_live [OF inv] by simp
  with \<open>\<And>i. live b i \<longleftrightarrow> i < n\<close> show ?thesis by (simp add: packed_def)
qed

lemma condense_loop_ok:
  assumes "loop_inv es l b" "vllm_laws ops row"
  obtains b' where "condense_loop ops es l b = Inr b'" "batch_inv b'" "packed b'"
    "num_reqs b' = num_reqs b" "batch_view row b' = batch_view row b"
    "filter_view b' = filter_view b" "batch_static ops b' = batch_static ops b"
    "lora_inv b' = lora_inv b"
  using assms
proof (induction ops es l b arbitrary: thesis rule: condense_loop.induct)
  case (1 ops es l b)
  have inv: "batch_inv b" and hol: "set es \<subseteq> holes b" and srt: "sorted_wrt (>) es"
    and len: "l < int (length (req_ids b))"
    and above: "\<And>i. i \<in> holes b \<Longrightarrow> i \<notin> set es \<Longrightarrow> l < int i"
    and liv: "\<And>i. live b i \<Longrightarrow> int i \<le> l"
    using "1.prems"(2) by (auto simp: loop_inv_def)
  have cases: "live b i \<or> i \<in> holes b" if "i < length (req_ids b)" for i
    using that by (auto simp: live_def holes_def)
  have nlive: "\<not> live b i" if "i \<in> holes b" for i using that by (auto simp: live_def holes_def)
  have liveD: "i < length (req_ids b)" if "live b i" for i using that by (simp add: live_def)
  show ?case
  proof (cases "es = []")
    case True
    have "packed b"
    proof (rule packedI [OF inv])
      fix i j
      assume "live b j" "i < j"
      then show "live b i" using liv [of j] liveD [of j] above [of i] cases [of i] True by auto
    qed
    then show ?thesis
      using "1.prems"(1) [of b] True inv by (simp add: condense_loop.simps [of ops "[]" l b])
  next
    case False
    define src where "src = skip_empty es l"
    define dst where "dst = last es"
    have dst: "dst \<in> holes b" using hol False by (auto simp: dst_def)
    have least: "dst \<le> e" if "e \<in> set es" for e
    proof -
      have "e \<in> set (butlast es) \<or> e = dst"
        using that False by (metis dst_def append_butlast_last_id in_set_conv_decomp
            rotate1.simps(2) set_ConsD set_rotate1)
      then show ?thesis using sorted_desc_last [OF srt] by (auto simp: dst_def less_imp_le)
    qed
    have upto: "int i \<le> src" if "live b i" for i
      using that liv [OF that] skip_empty_between [of es l "int i"] nlive hol
      by (force simp: src_def)
    show ?thesis
    proof (cases "src \<le> int dst")
      case True
      have "packed b"
      proof (rule packedI [OF inv])
        fix i j
        assume j: "live b j" and ij: "i < j"
        then have "i < dst" "int i < l" using upto [OF j] liv [OF j] True by auto
        then show "live b i" using cases [of i] liveD [OF j] ij least [of i] above [of i] by force
      qed
      then show ?thesis using "1.prems"(1) [of b] True False inv
        by (simp add: condense_loop.simps [of ops es l b] src_def dst_def)
    next
      case moving: False
      have srcl: "src \<le> l" by (simp add: src_def skip_empty_le)
      have src0: "0 \<le> src" using moving by simp
      have lt: "nat src < length (req_ids b)" using srcl len moving by linarith
      have "nat src \<notin> holes b"
        using above [of "nat src"] srcl src0 skip_empty_notin [of es l] by (force simp: src_def [symmetric])
      then obtain rid where rid: "req_ids b ! nat src = Some rid" using lt by (auto simp: holes_def)
      have hole: "req_ids b ! dst = None" using dst by (simp add: holes_def)
      obtain b1 where mv: "move_row ops (nat src) dst b = Inr b1" and inv1: "batch_inv b1"
        and ids1: "req_ids b1 = (req_ids b)[dst := Some rid, nat src := None]"
        and same1: "num_reqs b1 = num_reqs b" "batch_view row b1 = batch_view row b"
          "filter_view b1 = filter_view b" "batch_static ops b1 = batch_static ops b"
          "lora_inv b1 = lora_inv b"
        using move_row_ok [OF inv "1.prems"(3) _ lt rid hole] moving by (metis zless_nat_eq_int_zless not_le)
      have step: "condense_loop ops es l b = condense_loop ops (butlast es) (src - 1) b1"
        using False moving mv
        by (simp add: condense_loop.simps [of ops es l b] src_def dst_def Let_def)
      have nth1: "req_ids b1 ! i = (if i = nat src then None else if i = dst then Some rid
          else req_ids b ! i)" if "i < length (req_ids b)" for i
        using that lt by (auto simp: ids1 nth_list_update)
      have len1: "length (req_ids b1) = length (req_ids b)" by (simp add: ids1)
      have hol1: "holes b1 = insert (nat src) (holes b - {dst})"
        using lt dst moving by (auto simp: holes_def len1 nth1 split: if_splits)
      have live1: "live b1 i \<longleftrightarrow> i \<noteq> nat src \<and> (i = dst \<or> live b i)" for i
        using dst moving by (auto simp: live_def len1 nth1 holes_def split: if_splits)
      have notdst: "dst \<notin> set (butlast es)" using sorted_desc_last [OF srt] by (auto simp: dst_def)
      have split: "set es = insert dst (set (butlast es))"
        using False by (metis dst_def append_butlast_last_id list.simps(15) rotate1.simps(2) set_rotate1)
      have linv: "loop_inv (butlast es) (src - 1) b1"
        unfolding loop_inv_def
      proof (intro conjI ballI impI allI)
        show "batch_inv b1" by (rule inv1)
        show "sorted_wrt (>) (butlast es)" by (rule sorted_desc_butlast [OF srt])
        show "set (butlast es) \<subseteq> holes b1" using hol notdst split unfolding hol1 by blast
        show "src - 1 < int (length (req_ids b1))" using lt src0 by (simp add: len1)
        show "src - 1 < int i" if "i \<in> holes b1" "i \<notin> set (butlast es)" for i
        proof (cases "i = nat src")
          case False
          then have "i \<in> holes b" "i \<notin> set es" using that hol1 split by auto
          then show ?thesis using above [of i] srcl by linarith
        qed (use src0 in simp)
        show "int i \<le> src - 1" if "live b1 i" for i
          using that upto [of i] moving src0 by (auto simp: live1)
      qed
      obtain b' where "condense_loop ops (butlast es) (src - 1) b1 = Inr b'" "batch_inv b'"
        "packed b'" "num_reqs b' = num_reqs b1" "batch_view row b' = batch_view row b1"
        "filter_view b' = filter_view b1" "batch_static ops b' = batch_static ops b1"
        "lora_inv b' = lora_inv b1"
        by (rule "1.IH" [OF False src_def dst_def moving mv _ linv "1.prems"(3)])
      then show ?thesis using "1.prems"(1) [of b'] step same1 by simp
    qed
  qed
qed

lemma batch_inv_trim:
  assumes inv: "batch_inv b" and pk: "packed b"
  defines "t \<equiv> b\<lparr>req_ids := take (num_reqs b) (req_ids b),
                 req_output_token_ids := take (num_reqs b) (req_output_token_ids b)\<rparr>"
  shows "batch_inv t" "holes t = {}" "length (req_ids t) = num_reqs b"
    "batch_view row t = batch_view row b" "filter_view t = filter_view b"
    "batch_static ops t = batch_static ops b" "lora_inv t = lora_inv b"
proof -
  note D = batch_invD [OF inv]
  have le: "num_reqs b \<le> length (req_ids b)" using slots_split [OF inv] by simp
  have idx: "i < num_reqs b" if "dget (req_id_to_index b) r = Some i" for r i
    using that D(5) pk by (auto simp: packed_def live_def)
  have lv: "i < num_reqs b" if "live b i" for i using that pk by (simp add: packed_def)
  have live: "live t i \<longleftrightarrow> live b i" for i
    using lv [of i] by (auto simp: t_def live_def)
  have "\<not> (i < num_reqs b \<and> req_ids b ! i = None)" for i
    using pk unfolding packed_def live_def by blast
  then show "holes t = {}" by (auto simp: t_def holes_def)
  show "length (req_ids t) = num_reqs b" using le by (simp add: t_def)
  show "batch_static ops t = batch_static ops b" by (simp add: batch_static_def t_def)
  show "batch_view row t = batch_view row b"
    using idx by (force simp: batch_view_def t_def row_at_def fun_eq_iff
        split: option.splits intro!: option.map_cong0)
  show "lora_inv t = lora_inv b" by (simp add: lora_inv_def lora_users_def t_def)
  show "filter_view t = filter_view b"
  proof -
    have "filters_at t = filters_at b" by (rule ext) (simp add: filters_at_def t_def split: option.split)
    moreover have "req_id_to_index t = req_id_to_index b" by (simp add: t_def)
    ultimately show ?thesis by (intro ext) (simp only: filter_view_def)
  qed
  show "batch_inv t"
    unfolding batch_inv_def
  proof (intro conjI allI impI)
    show "arrays_sized t" using D(1) by (simp add: arrays_sized_def t_def Let_def)
    show "length (req_output_token_ids t) = length (req_ids t)" using D(2) by (simp add: t_def)
    show "length (req_ids t) \<le> max_num_reqs t" using D(3) by (simp add: t_def)
    show "distinct (dkeys (req_id_to_index t))" using D(4) by (simp add: t_def)
    show "dget (req_id_to_index t) r = Some i \<longleftrightarrow> i < length (req_ids t) \<and> req_ids t ! i = Some r"
      for r i
      using D(5) [of r i] idx [of r i] by (auto simp: t_def)
    show "live t i" if "dget (generators t) i \<noteq> None" for i
      using that D(6) live by (simp add: t_def)
    show "live t i" if "dget (min_tokens t) i \<noteq> None" for i
      using that D(7) live by (simp add: t_def)
    show "live t i" if "dget (bad_words_token_ids t) i \<noteq> None" for i
      using that D(8) live by (simp add: t_def)
    assume "is_pooling_model t"
    then show "generators t = []" "min_tokens t = []" "bad_words_token_ids t = []"
      using D(9) by (simp_all add: t_def)
  qed
qed

lemma condense_ok:
  assumes inv: "batch_inv b" and laws: "vllm_laws ops row"
    and es: "sorted_wrt (>) es" "set es = holes b"
  obtains b' where "condense ops es b = Inr b'" "batch_inv b'" "holes b' = {}"
    "length (req_ids b') = num_reqs b" "num_reqs b' = num_reqs b"
    "batch_view row b' = batch_view row b" "filter_view b' = filter_view b"
    "batch_static ops b' = batch_static ops b" "lora_inv b' = lora_inv b"
proof (cases "num_reqs b = 0")
  case True
  have none: "\<not> live b i" for i
    using card_live [OF inv] True by (auto simp: live_def)
  then have "packed b" using True by (simp add: packed_def)
  note trim = batch_inv_trim [OF inv this, unfolded True take_0]
  show ?thesis
  proof (rule that)
    show "condense ops es b = Inr (b\<lparr>req_ids := [], req_output_token_ids := []\<rparr>)"
      using True by (simp add: condense_def Let_def)
    show "batch_view row (b\<lparr>req_ids := [], req_output_token_ids := []\<rparr>) = batch_view row b"
      by (rule trim(4))
    show "batch_static ops (b\<lparr>req_ids := [], req_output_token_ids := []\<rparr>) = batch_static ops b"
      by (rule trim(6))
  qed (use trim True in \<open>simp_all add: num_reqs_def\<close>)
next
  case False
  have "distinct es" using es(1) by (induction es) auto
  then have "length es = card (holes b)" using es(2) distinct_card by metis
  then have total: "num_reqs b + length es = length (req_ids b)" using slots_split [OF inv] by simp
  have "loop_inv es (int (num_reqs b + length es) - 1) b"
    using inv es by (auto simp: loop_inv_def total live_def)
  then obtain b1 where b1: "condense_loop ops es (int (num_reqs b + length es) - 1) b = Inr b1"
    "batch_inv b1" "packed b1" "num_reqs b1 = num_reqs b" "batch_view row b1 = batch_view row b"
    "filter_view b1 = filter_view b" "batch_static ops b1 = batch_static ops b"
          "lora_inv b1 = lora_inv b"
    using laws by (rule condense_loop_ok)
  define t where "t = b1\<lparr>req_ids := take (num_reqs b) (req_ids b1),
                 req_output_token_ids := take (num_reqs b) (req_output_token_ids b1)\<rparr>"
  have "condense ops es b = Inr t"
    using False b1(1) by (simp add: condense_def Let_def t_def)
  moreover have "num_reqs t = num_reqs b" using b1(4) by (simp add: t_def num_reqs_def)
  moreover note trim = batch_inv_trim [OF b1(2,3), unfolded b1(4), folded t_def]
  moreover have "batch_view row t = batch_view row b" by (rule trans [OF trim(4) b1(5)])
  moreover have "batch_static ops t = batch_static ops b" by (rule trans [OF trim(6) b1(7)])
  ultimately show ?thesis using that [of t] b1(6,8) by simp
qed


section \<open>Removing a request\<close>

definition unregistered :: "req_id \<Rightarrow> nat \<Rightarrow> 'bt input_batch \<Rightarrow> 'bt input_batch" where
  "unregistered rid i b =
     b\<lparr>req_id_to_index := dpop (req_id_to_index b) rid, req_ids := (req_ids b)[i := None],
       req_output_token_ids := (req_output_token_ids b)[i := None]\<rparr>"

lemma drop_lora_ok:
  assumes inv: "batch_inv b" and linv: "lora_inv b" and i: "dget (req_id_to_index b) rid = Some i"
  obtains x y where
    "drop_lora rid i (unregistered rid i b) =
       Inr ((unregistered rid i b)\<lparr>lora_id_to_request_ids := x, lora_id_to_lora_request := y,
         request_lora_mapping := (request_lora_mapping b)[i := 0]\<rparr>)"
    "lora_inv ((unregistered rid i b)\<lparr>lora_id_to_request_ids := x, lora_id_to_lora_request := y,
         request_lora_mapping := (request_lora_mapping b)[i := 0]\<rparr>)"
proof -
  define lid where "lid = request_lora_mapping b ! i"
  define U where "U = unregistered rid i b"
  have len: "i < length (request_lora_mapping b)"
    using batch_invD(1,3,5) [OF inv] i arrays_sizedD(7) by fastforce
  have idx: "j \<noteq> i" if "dget (req_id_to_index b) r = Some j" "r \<noteq> rid" for r j
    using that i batch_invD(5) [OF inv] by (metis option.inject)
  have users: "lora_users (U\<lparr>lora_id_to_request_ids := x, lora_id_to_lora_request := y,
         request_lora_mapping := (request_lora_mapping b)[i := 0]\<rparr>) l = lora_users b l - {rid}"
    for l x y
    using idx len by (fastforce simp: lora_users_def U_def unregistered_def nth_list_update split: if_splits)
  have mem: "rid \<in> lora_users b l \<longleftrightarrow> l = lid" for l
    using i by (auto simp: lora_users_def lid_def)
  have tab: "dget (lora_id_to_request_ids b) l =
        (if l = 0 \<or> lora_users b l = {} then None else Some (lora_users b l))"
      "dget (lora_id_to_lora_request b) l = None \<longleftrightarrow> dget (lora_id_to_request_ids b) l = None" for l
    using linv unfolding lora_inv_def by blast+
  have map0: "request_lora_mapping U = request_lora_mapping b"
      "lora_id_to_request_ids U = lora_id_to_request_ids b"
      "lora_id_to_lora_request U = lora_id_to_lora_request b"
    by (simp_all add: U_def unregistered_def)
  show ?thesis
  proof (cases "lid = 0")
    case True
    then have same: "(request_lora_mapping b)[i := 0] = request_lora_mapping b"
      by (metis lid_def list_update_id)
    show ?thesis
    proof (rule that [where x = "lora_id_to_request_ids b" and y = "lora_id_to_lora_request b", folded U_def])
      have "U\<lparr>lora_id_to_request_ids := lora_id_to_request_ids b,
               lora_id_to_lora_request := lora_id_to_lora_request b,
               request_lora_mapping := (request_lora_mapping b)[i := 0]\<rparr> = U"
        unfolding same by (simp add: U_def unregistered_def)
      then show "drop_lora rid i U = Inr (U\<lparr>lora_id_to_request_ids := lora_id_to_request_ids b,
               lora_id_to_lora_request := lora_id_to_lora_request b,
               request_lora_mapping := (request_lora_mapping b)[i := 0]\<rparr>)"
        using True by (simp add: drop_lora_def map0 lid_def)
      have "lora_users b l - {rid} = lora_users b l" if "l \<noteq> 0" for l
        using mem [of l] that True by auto
      then have keep: "(if l = 0 \<or> lora_users b l - {rid} = {} then None
          else Some (lora_users b l - {rid})) =
          (if l = 0 \<or> lora_users b l = {} then None else Some (lora_users b l))" for l
        by (cases "l = 0") simp_all
      show "lora_inv (U\<lparr>lora_id_to_request_ids := lora_id_to_request_ids b,
               lora_id_to_lora_request := lora_id_to_lora_request b,
               request_lora_mapping := (request_lora_mapping b)[i := 0]\<rparr>)"
        unfolding lora_inv_def users keep by (simp add: tab)
    qed
  next
    case False
    define users' where "users' = lora_users b lid - {rid}"
    have found: "dget (lora_id_to_request_ids b) lid = Some (lora_users b lid)"
      using tab(1) [of lid] mem [of lid] False by auto
    then obtain lr where lr: "dget (lora_id_to_lora_request b) lid = Some lr"
      using tab(2) [of lid] by auto
    have other: "lora_users b l - {rid} = lora_users b l" if "l \<noteq> lid" for l
      using mem [of l] that by auto
    show ?thesis
    proof (cases "users' = {}")
      case True
      show ?thesis
      proof (rule that [where x = "dpop (lora_id_to_request_ids b) lid"
            and y = "dpop (lora_id_to_lora_request b) lid",
            folded U_def])
        show "drop_lora rid i U = Inr (U\<lparr>lora_id_to_request_ids := dpop (lora_id_to_request_ids b) lid,
               lora_id_to_lora_request := dpop (lora_id_to_lora_request b) lid,
               request_lora_mapping := (request_lora_mapping b)[i := 0]\<rparr>)"
          using False True found lr
          by (simp add: drop_lora_def map0 lid_def [symmetric] ditem_def users'_def)
        show "lora_inv (U\<lparr>lora_id_to_request_ids := dpop (lora_id_to_request_ids b) lid,
               lora_id_to_lora_request := dpop (lora_id_to_lora_request b) lid,
               request_lora_mapping := (request_lora_mapping b)[i := 0]\<rparr>)"
          unfolding lora_inv_def users using tab True other mem
          by (auto simp: users'_def)
      qed
    next
      case nonempty: False
      show ?thesis
      proof (rule that [where x = "dset (lora_id_to_request_ids b) lid users'"
            and y = "lora_id_to_lora_request b",
            folded U_def])
        show "drop_lora rid i U = Inr (U\<lparr>lora_id_to_request_ids := dset (lora_id_to_request_ids b) lid users',
               lora_id_to_lora_request := lora_id_to_lora_request b,
               request_lora_mapping := (request_lora_mapping b)[i := 0]\<rparr>)"
          using False nonempty found
          by (simp add: drop_lora_def map0 lid_def [symmetric] ditem_def users'_def)
        show "lora_inv (U\<lparr>lora_id_to_request_ids := dset (lora_id_to_request_ids b) lid users',
               lora_id_to_lora_request := lora_id_to_lora_request b,
               request_lora_mapping := (request_lora_mapping b)[i := 0]\<rparr>)"
          unfolding lora_inv_def users using tab nonempty other mem False lr
          by (auto simp: users'_def)
      qed
    qed
  qed
qed

lemma remove_request_ok:
  assumes inv: "batch_inv b" and linv: "lora_inv b" and i: "dget (req_id_to_index b) rid = Some i"
  obtains b' where "remove_request rid b = Inr (Some i, b')" "batch_inv b'" "lora_inv b'"
    "req_ids b' = (req_ids b)[i := None]" "num_reqs b' = num_reqs b - 1"
    "batch_view row b' = (batch_view row b)(rid := None)"
    "filter_view b' = (filter_view b)(rid := None)"
    "batch_static ops b' = batch_static ops b"
proof -
  note D = batch_invD [OF inv]
  have at: "i < length (req_ids b)" "req_ids b ! i = Some rid" using D(5) i by blast+
  obtain x y where dl: "drop_lora rid i (unregistered rid i b) =
       Inr ((unregistered rid i b)\<lparr>lora_id_to_request_ids := x, lora_id_to_lora_request := y,
         request_lora_mapping := (request_lora_mapping b)[i := 0]\<rparr>)"
    and li: "lora_inv ((unregistered rid i b)\<lparr>lora_id_to_request_ids := x, lora_id_to_lora_request := y,
         request_lora_mapping := (request_lora_mapping b)[i := 0]\<rparr>)"
    by (rule drop_lora_ok [OF inv linv i])
  define c where "c = (unregistered rid i b)\<lparr>lora_id_to_request_ids := x,
      lora_id_to_lora_request := y, request_lora_mapping := (request_lora_mapping b)[i := 0]\<rparr>"
  define b' where "b' = (if is_pooling_model c then drop_pooling rid c else drop_sampling rid i c)"
  have rm: "remove_request rid b = Inr (Some i, b')"
    using at i D(2) dl by (simp add: remove_request_def unregistered_def Let_def b'_def c_def)
  have F: "req_ids b' = (req_ids b)[i := None]" "req_id_to_index b' = dpop (req_id_to_index b) rid"
    "max_num_reqs b' = max_num_reqs b" "max_model_len b' = max_model_len b"
    "vocab_size b' = vocab_size b" "is_pooling_model b' = is_pooling_model b"
    "req_output_token_ids b' = (req_output_token_ids b)[i := None]"
    "token_ids_cpu b' = token_ids_cpu b" "num_tokens b' = num_tokens b"
    "num_tokens_no_spec b' = num_tokens_no_spec b" "num_prompt_tokens b' = num_prompt_tokens b"
    "num_computed_tokens b' = num_computed_tokens b" "block_table b' = block_table b"
    "temperature b' = temperature b" "top_p b' = top_p b" "top_k b' = top_k b" "min_p b' = min_p b"
    "frequency_penalties b' = frequency_penalties b" "presence_penalties b' = presence_penalties b"
    "repetition_penalties b' = repetition_penalties b"
    "request_lora_mapping b' = (request_lora_mapping b)[i := 0]"
    "lora_id_to_request_ids b' = lora_id_to_request_ids c"
    "lora_id_to_lora_request b' = lora_id_to_lora_request c"
    by (simp_all add: b'_def c_def unregistered_def drop_pooling_def drop_sampling_def)
  have gens: "dget (generators b') j = (if j = i then None else dget (generators b) j)"
    "dget (min_tokens b') j = (if j = i then None else dget (min_tokens b) j)"
    "dget (bad_words_token_ids b') j = (if j = i then None else dget (bad_words_token_ids b) j)" for j
    using D(9) by (auto simp: b'_def c_def unregistered_def drop_pooling_def drop_sampling_def)
  have pool: "is_pooling_model b' \<Longrightarrow> generators b' = [] \<and> min_tokens b' = [] \<and> bad_words_token_ids b' = []"
    using D(9) by (auto simp: b'_def c_def unregistered_def drop_pooling_def drop_sampling_def)
  have filt: "filters_at b' j = filters_at b j" if "j \<noteq> i" for j
    using that
    by (cases "allowed_token_ids_mask b")
      (auto simp: filters_at_def b'_def c_def unregistered_def drop_pooling_def drop_sampling_def)
  have masks: "length m = max_num_reqs b" if "allowed_token_ids_mask b' = Some m" for m
    using that arrays_sizedD(16) [OF D(1)]
    by (auto simp: b'_def c_def unregistered_def drop_pooling_def drop_sampling_def split: if_splits)
  have lb: "length (logit_bias b') = length (logit_bias b)"
    by (simp add: b'_def c_def unregistered_def drop_pooling_def drop_sampling_def)
  have live': "live b' j" if "live b j" "j \<noteq> i" for j
    using that by (simp add: live_def F)
  have idx: "j \<noteq> i" if "dget (req_id_to_index b) r = Some j" "r \<noteq> rid" for r j
    using that i D(5) by (metis option.inject)
  have inv': "batch_inv b'"
    unfolding batch_inv_def
  proof (intro conjI allI impI)
    show "arrays_sized b'"
      using arrays_sizedD [OF D(1)] masks by (simp add: arrays_sized_def Let_def F lb)
    show "length (req_output_token_ids b') = length (req_ids b')" using D(2) by (simp add: F)
    show "length (req_ids b') \<le> max_num_reqs b'" using D(3) by (simp add: F)
    show "distinct (dkeys (req_id_to_index b'))" using D(4) by (simp add: F distinct_dpop)
    show "dget (req_id_to_index b') r = Some j \<longleftrightarrow> j < length (req_ids b') \<and> req_ids b' ! j = Some r"
      for r j
    proof (cases "j = i")
      case True
      then show ?thesis using at idx by (auto simp: F)
    next
      case False
      then show ?thesis using D(5) [of r j] D(5) [of rid j] i by (auto simp: F)
    qed
    show "live b' j" if "dget (generators b') j \<noteq> None" for j
      using that D(6) live' by (auto simp: gens split: if_splits)
    show "live b' j" if "dget (min_tokens b') j \<noteq> None" for j
      using that D(7) live' by (auto simp: gens split: if_splits)
    show "live b' j" if "dget (bad_words_token_ids b') j \<noteq> None" for j
      using that D(8) live' by (auto simp: gens split: if_splits)
  qed (use pool in auto)
  have rows: "row_at row b' j = row_at row b j" if "j \<noteq> i" for j
    using that by (simp add: row_at_def F gens)
  show ?thesis
  proof (rule that [OF rm inv'])
    have "lora_users b' l = lora_users c l" for l
      by (simp add: lora_users_def F c_def unregistered_def)
    then show "lora_inv b'" using li by (simp add: lora_inv_def F c_def)
    show "num_reqs b' = num_reqs b - 1"
      using i D(4) dget_None_iff [of "req_id_to_index b" rid]
      by (simp add: num_reqs_def F length_dpop)
    show "batch_view row b' = (batch_view row b)(rid := None)"
      using idx rows by (auto simp: batch_view_def F fun_eq_iff intro!: option.map_cong0)
    show "filter_view b' = (filter_view b)(rid := None)"
      using idx filt by (auto simp: filter_view_def F fun_eq_iff intro!: option.map_cong0)
  qed (simp_all add: F batch_static_def)
qed

lemma remove_absent: "dget (req_id_to_index b) rid = None \<Longrightarrow> remove_request rid b = Inr (None, b)"
  by (simp add: remove_request_def)


section \<open>Adding a request\<close>

text \<open>What the row of a freshly added request says, in terms of the request alone.\<close>

definition request_row ::
  "bool \<Rightarrow> store \<Rightarrow> nat \<Rightarrow> sampling_params \<Rightarrow> cached_request
     \<Rightarrow> int list list row_view" where
  "request_row tables st vocab sp request =
     (let prompt = (case cr_prompt_token_ids request of None \<Rightarrow> [] | Some p \<Rightarrow> p);
          out = st (cr_output_token_ids request); total = length prompt + length out
      in \<lparr> rv_tokens = prompt @ out, rv_num_tokens = total, rv_num_tokens_no_spec = total,
           rv_num_prompt_tokens = length prompt,
           rv_num_computed_tokens = cr_num_computed_tokens request,
           rv_blocks = (if tables then cr_block_ids request else []),
           rv_lora = (case cr_lora_request request of None \<Rightarrow> 0 | Some l \<Rightarrow> lora_int_id l),
           rv_sampling = [if sp_type sp = Greedy then 0 else sp_temperature sp, sp_top_p sp,
                          sp_min_p sp, sp_frequency_penalty sp, sp_presence_penalty sp,
                          sp_repetition_penalty sp],
           rv_top_k = (if 0 < sp_top_k sp \<and> sp_top_k sp < int vocab then sp_top_k sp else int vocab),
           rv_generator = cr_generator request,
           rv_min_tokens = (if sp_min_tokens sp \<noteq> 0
                            then Some (sp_min_tokens sp, sp_all_stop_token_ids sp) else None),
           rv_bad_words = (if sp_bad_words_token_ids sp \<noteq> []
                           then Some (sp_bad_words_token_ids sp) else None),
           rv_output = Some (cr_output_token_ids request) \<rparr>)"

lemma allow_ids_ok:
  "\<forall>t \<in> set ts. - int vocab \<le> t \<and> t < int vocab
     \<Longrightarrow> \<exists>row'. allow_ids vocab ts row = Inr row' \<and> length row' = length row"
  by (induction vocab ts row rule: allow_ids.induct) auto

lemma write_tokens_ok:
  assumes prompt: "cr_prompt_token_ids request = Some prompt" and out: "st (cr_output_token_ids request) = out"
    and fits: "length prompt + length out \<le> length (token_ids_cpu c ! i)" and i: "i < length (token_ids_cpu c)"
    and laws: "vllm_laws ops row"
  obtains toks where
    "write_tokens ops st request i c =
       Inr (c\<lparr>num_prompt_tokens := (num_prompt_tokens c)[i := length prompt],
              token_ids_cpu := (token_ids_cpu c)[i := toks],
              num_tokens := (num_tokens c)[i := length prompt + length out],
              num_tokens_no_spec := (num_tokens_no_spec c)[i := length prompt + length out],
              num_computed_tokens := (num_computed_tokens c)[i := cr_num_computed_tokens request],
              block_table := (if vo_has_tables ops (block_table c)
                              then vo_add_row ops (cr_block_ids request) i (block_table c)
                              else block_table c)\<rparr>)"
    "length toks = length (token_ids_cpu c ! i)"
    "take (length prompt + length out) toks = prompt @ out"
proof -
  let ?row = "token_ids_cpu c ! i"
  define r1 where "r1 = take 0 ?row @ prompt @ drop (length prompt) ?row"
  have l1: "length r1 = length ?row" using fits by (simp add: r1_def)
  have s1: "slice_assign ?row 0 (length prompt) prompt = Inr r1"
    using fits by (subst slice_assign_fits) (simp_all add: r1_def)
  define r2 where "r2 = take (length prompt) r1 @ out @ drop (length prompt + length out) r1"
  have s2: "slice_assign r1 (length prompt) (length prompt + length out) out = Inr r2"
    using fits l1 by (subst slice_assign_fits) (simp_all add: r2_def)
  have "take (length prompt) r1 = prompt" by (simp add: r1_def)
  then have "take (length prompt + length out) r2 = prompt @ out" by (simp add: r2_def)
  moreover have "length r2 = length ?row" using fits l1 by (simp add: r2_def)
  moreover have "vo_num_tokens ops (length prompt) (length out) = length prompt + length out"
    using laws by (simp add: vllm_laws_def)
  ultimately show ?thesis
    using that [of r2] s1 s2 by (simp add: write_tokens_def prompt out Let_def)
qed

lemma write_token_filters_ok:
  assumes "\<forall>t \<in> set (sp_allowed_token_ids sp). - int (vocab_size c) \<le> t \<and> t < int (vocab_size c)"
  obtains h m where
    "write_token_filters rid sp i c = Inr (c\<lparr>has_allowed_token_ids := h, allowed_token_ids_mask := m,
       bad_words_token_ids := (if sp_bad_words_token_ids sp \<noteq> []
          then dset (bad_words_token_ids c) i (sp_bad_words_token_ids sp) else bad_words_token_ids c)\<rparr>)"
    "(\<forall>x. allowed_token_ids_mask c = Some x \<longrightarrow> length x = max_num_reqs c)
       \<longrightarrow> (\<forall>k. m = Some k \<longrightarrow> length k = max_num_reqs c)"
    "\<forall>j < max_num_reqs c. j \<noteq> i
       \<longrightarrow> filters_at (c\<lparr>allowed_token_ids_mask := m\<rparr>) j = filters_at c j"
    "sp_allowed_token_ids sp = [] \<longrightarrow> m = allowed_token_ids_mask c"
proof (cases "sp_allowed_token_ids sp = []")
  case True
  then show ?thesis
    using that [where h = "has_allowed_token_ids c" and m = "allowed_token_ids_mask c"]
    by (simp add: write_token_filters_def)
next
  case False
  obtain r where r: "allow_ids (vocab_size c) (sp_allowed_token_ids sp) (replicate (vocab_size c) True) = Inr r"
    using allow_ids_ok [OF assms] by blast
  define mask where "mask = (case allowed_token_ids_mask c of
      None \<Rightarrow> replicate (max_num_reqs c) (replicate (vocab_size c) False) | Some m \<Rightarrow> m)"
  show ?thesis
  proof (rule that [where h = "insert rid (has_allowed_token_ids c)" and m = "Some (mask[i := r])"])
    show "write_token_filters rid sp i c = Inr (c\<lparr>has_allowed_token_ids := insert rid (has_allowed_token_ids c),
       allowed_token_ids_mask := Some (mask[i := r]),
       bad_words_token_ids := (if sp_bad_words_token_ids sp \<noteq> []
          then dset (bad_words_token_ids c) i (sp_bad_words_token_ids sp) else bad_words_token_ids c)\<rparr>)"
      using False r by (simp add: write_token_filters_def mask_def [symmetric] Let_def)
    show "(\<forall>x. allowed_token_ids_mask c = Some x \<longrightarrow> length x = max_num_reqs c)
       \<longrightarrow> (\<forall>k. Some (mask[i := r]) = Some k \<longrightarrow> length k = max_num_reqs c)"
      by (auto simp: mask_def split: option.splits)
    show "\<forall>j < max_num_reqs c. j \<noteq> i
       \<longrightarrow> filters_at (c\<lparr>allowed_token_ids_mask := Some (mask[i := r])\<rparr>) j = filters_at c j"
      by (simp add: filters_at_def mask_def split: option.splits)
  qed (use False in auto)
qed

text \<open>The requests \<open>add_request\<close> accepts: known prompt, room for all tokens, token ids of the
  vocabulary, adapters numbered from one.\<close>

definition addable :: "store \<Rightarrow> cached_request \<Rightarrow> 'bt input_batch \<Rightarrow> bool" where
  "addable st request b \<longleftrightarrow>
     (case (cr_prompt_token_ids request, cr_sampling_params request) of
        (Some prompt, Some sp) \<Rightarrow>
          length prompt + length (st (cr_output_token_ids request)) \<le> max_model_len b
          \<and> (\<forall>t \<in> set (sp_allowed_token_ids sp). - int (vocab_size b) \<le> t \<and> t < int (vocab_size b))
      | _ \<Rightarrow> False)
     \<and> (\<forall>l. cr_lora_request request = Some l \<longrightarrow> lora_int_id l \<noteq> 0)
     \<and> dget (req_id_to_index b) (cr_req_id request) = None \<and> \<not> is_pooling_model b"

definition placed :: "cached_request \<Rightarrow> nat \<Rightarrow> 'bt input_batch \<Rightarrow> 'bt input_batch" where
  "placed request i b =
     b\<lparr>req_ids := (if i = length (req_ids b) then req_ids b @ [Some (cr_req_id request)]
                   else (req_ids b)[i := Some (cr_req_id request)]),
       req_output_token_ids := (if i = length (req_ids b)
          then req_output_token_ids b @ [Some (cr_output_token_ids request)]
          else (req_output_token_ids b)[i := Some (cr_output_token_ids request)]),
       req_id_to_index := dset (req_id_to_index b) (cr_req_id request) i\<rparr>"

lemma place_request_ok:
  "i \<le> length (req_ids b) \<Longrightarrow> length (req_output_token_ids b) = length (req_ids b)
    \<Longrightarrow> place_request request i b = Inr (placed request i b)"
  by (auto simp: place_request_def placed_def Let_def)

lemma write_lora_ok:
  assumes linv: "lora_inv b" and inv: "batch_inv b"
    and new: "dget (req_id_to_index b) (cr_req_id request) = None"
    and free: "\<not> live b i" and i: "i < max_num_reqs b"
    and lid: "\<And>l. cr_lora_request request = Some l \<Longrightarrow> lora_int_id l \<noteq> 0"
    and c: "req_id_to_index c = dset (req_id_to_index b) (cr_req_id request) i"
      "request_lora_mapping c = request_lora_mapping b"
      "lora_id_to_request_ids c = lora_id_to_request_ids b"
      "lora_id_to_lora_request c = lora_id_to_lora_request b"
  shows "lora_inv (write_lora request i c)"
proof -
  have idx: "j \<noteq> i" if "dget (req_id_to_index b) r = Some j" for r j
    using that batch_invD(5) [OF inv] free by (auto simp: live_def)
  have len: "i < length (request_lora_mapping b)"
    using i arrays_sizedD(7) [OF batch_invD(1) [OF inv]] by simp
  define new_id where "new_id = (case cr_lora_request request of None \<Rightarrow> 0 | Some l \<Rightarrow> lora_int_id l)"
  have users: "lora_users (write_lora request i c) l =
      (if l = new_id then insert (cr_req_id request) (lora_users b l) else lora_users b l)" for l
  proof -
    have m: "request_lora_mapping (write_lora request i c) = (request_lora_mapping b)[i := new_id]"
      "req_id_to_index (write_lora request i c) = dset (req_id_to_index b) (cr_req_id request) i"
      by (simp_all add: write_lora_def new_id_def c Let_def split: option.splits)
    show ?thesis
      using idx len new by (fastforce simp: lora_users_def m nth_list_update split: if_splits)
  qed
  have tab: "dget (lora_id_to_request_ids b) l =
        (if l = 0 \<or> lora_users b l = {} then None else Some (lora_users b l))"
      "dget (lora_id_to_lora_request b) l = None \<longleftrightarrow> dget (lora_id_to_request_ids b) l = None" for l
    using linv unfolding lora_inv_def by blast+
  show ?thesis
  proof (cases "cr_lora_request request")
    case None
    then have t: "lora_id_to_request_ids (write_lora request i c) = lora_id_to_request_ids b"
        "lora_id_to_lora_request (write_lora request i c) = lora_id_to_lora_request b"
      by (simp_all add: write_lora_def c)
    have "new_id = 0" using None by (simp add: new_id_def)
    then show ?thesis unfolding lora_inv_def users t using tab by simp
  next
    case (Some l)
    then have id: "new_id = lora_int_id l" "new_id \<noteq> 0" using lid by (simp_all add: new_id_def)
    have t: "lora_id_to_request_ids (write_lora request i c) = dset (lora_id_to_request_ids b) new_id
          (insert (cr_req_id request) (lora_users b new_id))"
        "lora_id_to_lora_request (write_lora request i c) = dset (lora_id_to_lora_request b) new_id l"
      using tab(1) [of new_id] id Some by (auto simp: write_lora_def c Let_def)
    show ?thesis unfolding lora_inv_def users t using tab id by auto
  qed
qed

lemma write_lora_fields:
  "req_ids (write_lora request i c) = req_ids c"
  "req_output_token_ids (write_lora request i c) = req_output_token_ids c"
  "req_id_to_index (write_lora request i c) = req_id_to_index c"
  "max_num_reqs (write_lora request i c) = max_num_reqs c"
  "max_model_len (write_lora request i c) = max_model_len c"
  "vocab_size (write_lora request i c) = vocab_size c"
  "is_pooling_model (write_lora request i c) = is_pooling_model c"
  "token_ids_cpu (write_lora request i c) = token_ids_cpu c"
  "num_tokens (write_lora request i c) = num_tokens c"
  "num_tokens_no_spec (write_lora request i c) = num_tokens_no_spec c"
  "num_prompt_tokens (write_lora request i c) = num_prompt_tokens c"
  "num_computed_tokens (write_lora request i c) = num_computed_tokens c"
  "block_table (write_lora request i c) = block_table c"
  "temperature (write_lora request i c) = temperature c"
  "top_p (write_lora request i c) = top_p c"
  "top_k (write_lora request i c) = top_k c"
  "min_p (write_lora request i c) = min_p c"
  "frequency_penalties (write_lora request i c) = frequency_penalties c"
  "presence_penalties (write_lora request i c) = presence_penalties c"
  "repetition_penalties (write_lora request i c) = repetition_penalties c"
  "logit_bias (write_lora request i c) = logit_bias c"
  "allowed_token_ids_mask (write_lora request i c) = allowed_token_ids_mask c"
  "generators (write_lora request i c) = generators c"
  "min_tokens (write_lora request i c) = min_tokens c"
  "bad_words_token_ids (write_lora request i c) = bad_words_token_ids c"
  "request_lora_mapping (write_lora request i c) = (request_lora_mapping c)
     [i := (case cr_lora_request request of None \<Rightarrow> 0 | Some l \<Rightarrow> lora_int_id l)]"
  by (simp_all add: write_lora_def Let_def split: option.splits)

lemma add_request_ok:
  assumes inv: "batch_inv b" and linv: "lora_inv b" and laws: "vllm_laws ops row"
    and add: "addable st request b"
    and prompt: "cr_prompt_token_ids request = Some prompt"
    and sp: "cr_sampling_params request = Some sp"
    and slot: "i \<in> holes b \<or> i = length (req_ids b)" and room: "i < max_num_reqs b"
    and ix: "ix = Some i \<or> ix = None \<and> i = num_reqs b"
  obtains b' where "add_request ops st request ix b = Inr b'" "batch_inv b'" "lora_inv b'"
    "req_ids b' = (if i = length (req_ids b) then req_ids b @ [Some (cr_req_id request)]
                   else (req_ids b)[i := Some (cr_req_id request)])"
    "num_reqs b' = Suc (num_reqs b)"
    "batch_view row b' = (batch_view row b)
       (cr_req_id request \<mapsto> request_row (vo_has_tables ops (block_table b)) st (vocab_size b) sp request)"
    "\<And>r. r \<noteq> cr_req_id request \<Longrightarrow> filter_view b' r = filter_view b r"
    "sp_allowed_token_ids sp = [] \<Longrightarrow> filter_view b' (cr_req_id request) =
       Some (case sp_logit_bias sp of None \<Rightarrow> logit_bias b ! i | Some x \<Rightarrow> Some x,
             snd (filters_at b i))"
    "batch_static ops b' = batch_static ops b"
proof -
  note D = batch_invD [OF inv]
  note L = arrays_sizedD [OF D(1)]
  define rid where "rid = cr_req_id request"
  define out where "out = st (cr_output_token_ids request)"
  have A: "length prompt + length out \<le> max_model_len b" "dget (req_id_to_index b) rid = None"
    "\<forall>t \<in> set (sp_allowed_token_ids sp). - int (vocab_size b) \<le> t \<and> t < int (vocab_size b)"
    "\<And>l. cr_lora_request request = Some l \<Longrightarrow> lora_int_id l \<noteq> 0" "\<not> is_pooling_model b"
    using add by (auto simp: addable_def prompt sp out_def rid_def)
  have ile: "i \<le> length (req_ids b)" using slot by (auto simp: holes_def)
  have nlive: "\<not> live b i" using slot by (auto simp: holes_def live_def)
  have row_len: "length (token_ids_cpu b ! i) = max_model_len b" using L(1,2) room by simp
  have P: "place_request request i b = Inr (placed request i b)" using ile D(2) by (rule place_request_ok)
  have Pf: "token_ids_cpu (placed request i b) = token_ids_cpu b" by (simp add: placed_def)
  obtain toks where W: "write_tokens ops st request i (placed request i b) =
       Inr ((placed request i b)\<lparr>num_prompt_tokens := (num_prompt_tokens (placed request i b))[i := length prompt],
              token_ids_cpu := (token_ids_cpu (placed request i b))[i := toks],
              num_tokens := (num_tokens (placed request i b))[i := length prompt + length out],
              num_tokens_no_spec := (num_tokens_no_spec (placed request i b))[i := length prompt + length out],
              num_computed_tokens := (num_computed_tokens (placed request i b))[i := cr_num_computed_tokens request],
              block_table := (if vo_has_tables ops (block_table (placed request i b))
                              then vo_add_row ops (cr_block_ids request) i (block_table (placed request i b))
                              else block_table (placed request i b))\<rparr>)"
      and tl: "length toks = max_model_len b"
      and tt: "take (length prompt + length out) toks = prompt @ out"
    using write_tokens_ok [where st = st and request = request and prompt = prompt and out = out
        and c = "placed request i b" and i = i and ops = ops and row = row]
      A(1) row_len room L(1) laws prompt out_def unfolding Pf by auto
  define w where "w = (placed request i b)\<lparr>num_prompt_tokens := (num_prompt_tokens (placed request i b))[i := length prompt],
              token_ids_cpu := (token_ids_cpu (placed request i b))[i := toks],
              num_tokens := (num_tokens (placed request i b))[i := length prompt + length out],
              num_tokens_no_spec := (num_tokens_no_spec (placed request i b))[i := length prompt + length out],
              num_computed_tokens := (num_computed_tokens (placed request i b))[i := cr_num_computed_tokens request],
              block_table := (if vo_has_tables ops (block_table (placed request i b))
                              then vo_add_row ops (cr_block_ids request) i (block_table (placed request i b))
                              else block_table (placed request i b))\<rparr>"
  define c where "c = write_optional_entries request sp i (write_sampling_columns rid sp i w)"
  have cstat: "vocab_size c = vocab_size b" "max_num_reqs c = max_num_reqs b"
      "allowed_token_ids_mask c = allowed_token_ids_mask b"
    by (simp_all add: c_def w_def placed_def write_optional_entries_def write_sampling_columns_def Let_def)
  obtain m h where T: "write_token_filters rid sp i c = Inr (c\<lparr>has_allowed_token_ids := h,
       allowed_token_ids_mask := m,
       bad_words_token_ids := (if sp_bad_words_token_ids sp \<noteq> []
          then dset (bad_words_token_ids c) i (sp_bad_words_token_ids sp) else bad_words_token_ids c)\<rparr>)"
    and mk: "(\<forall>x. allowed_token_ids_mask c = Some x \<longrightarrow> length x = max_num_reqs c)
       \<longrightarrow> (\<forall>k. m = Some k \<longrightarrow> length k = max_num_reqs c)"
    and mo: "\<forall>j < max_num_reqs c. j \<noteq> i
       \<longrightarrow> filters_at (c\<lparr>allowed_token_ids_mask := m\<rparr>) j = filters_at c j"
    and ms: "sp_allowed_token_ids sp = [] \<longrightarrow> m = allowed_token_ids_mask c"
    by (rule write_token_filters_ok [of sp c rid i, OF A(3) [folded cstat]]) (rule that)
  define d where "d = c\<lparr>has_allowed_token_ids := h, allowed_token_ids_mask := m,
       bad_words_token_ids := (if sp_bad_words_token_ids sp \<noteq> []
          then dset (bad_words_token_ids c) i (sp_bad_words_token_ids sp) else bad_words_token_ids c)\<rparr>"
  define b' where "b' = write_lora request i d"
  have ok: "add_request ops st request ix b = Inr b'"
    using ix room P W T
    by (auto simp: add_request_def write_params_def sp b'_def d_def c_def w_def rid_def Let_def)
  define lid where "lid = (case cr_lora_request request of None \<Rightarrow> 0 | Some l \<Rightarrow> lora_int_id l)"
  note B = write_lora_fields [of request i d, folded b'_def lid_def]
  note S = d_def c_def w_def write_optional_entries_def write_sampling_columns_def Let_def placed_def
  have F1: "req_ids d = (if i = length (req_ids b) then req_ids b @ [Some rid]
                   else (req_ids b)[i := Some rid])"
    "req_output_token_ids d = (if i = length (req_ids b)
          then req_output_token_ids b @ [Some (cr_output_token_ids request)]
          else (req_output_token_ids b)[i := Some (cr_output_token_ids request)])"
    "req_id_to_index d = dset (req_id_to_index b) rid i"
    "max_num_reqs d = max_num_reqs b" "max_model_len d = max_model_len b"
    "vocab_size d = vocab_size b" "is_pooling_model d = is_pooling_model b"
    "token_ids_cpu d = (token_ids_cpu b)[i := toks]"
    "request_lora_mapping d = request_lora_mapping b"
    by (simp_all add: S rid_def)
  have F2:
    "num_tokens d = (num_tokens b)[i := length prompt + length out]"
    "num_tokens_no_spec d = (num_tokens_no_spec b)[i := length prompt + length out]"
    "num_prompt_tokens d = (num_prompt_tokens b)[i := length prompt]"
    "num_computed_tokens d = (num_computed_tokens b)[i := cr_num_computed_tokens request]"
    "block_table d = (if vo_has_tables ops (block_table b)
        then vo_add_row ops (cr_block_ids request) i (block_table b) else block_table b)"
    by (simp_all add: S)
  have F3:
    "temperature d = (temperature b)[i := (if sp_type sp = Greedy then 0 else sp_temperature sp)]"
    "top_p d = (top_p b)[i := sp_top_p sp]"
    "top_k d = (top_k b)[i := (if 0 < sp_top_k sp \<and> sp_top_k sp < int (vocab_size b)
        then sp_top_k sp else int (vocab_size b))]"
    "min_p d = (min_p b)[i := sp_min_p sp]"
    "frequency_penalties d = (frequency_penalties b)[i := sp_frequency_penalty sp]"
    "presence_penalties d = (presence_penalties b)[i := sp_presence_penalty sp]"
    "repetition_penalties d = (repetition_penalties b)[i := sp_repetition_penalty sp]"
    "allowed_token_ids_mask d = m"
    by (simp_all add: S)
  have F5: "logit_bias d = (case sp_logit_bias sp of Some bias \<Rightarrow> (logit_bias b)[i := Some bias]
       | None \<Rightarrow> logit_bias b)"
    by (cases "sp_logit_bias sp") (simp_all add: S)
  have F6: "generators d = (case cr_generator request of Some g \<Rightarrow> dset (generators b) i g
       | None \<Rightarrow> generators b)"
    by (cases "cr_generator request") (simp_all add: S)
  have F4: "min_tokens d = (if sp_min_tokens sp \<noteq> 0
        then dset (min_tokens b) i (sp_min_tokens sp, sp_all_stop_token_ids sp) else min_tokens b)"
    "bad_words_token_ids d = (if sp_bad_words_token_ids sp \<noteq> []
        then dset (bad_words_token_ids b) i (sp_bad_words_token_ids sp) else bad_words_token_ids b)"
    by (simp_all add: S)
  note F = B [unfolded F1 F2 F3 F4 F5 F6]
  have freshD: "dget (generators b) i = None" "dget (min_tokens b) i = None"
      "dget (bad_words_token_ids b) i = None"
    using D(6) [of i] D(7) [of i] D(8) [of i] nlive by blast+
  have gen: "dget (generators b') j = (if j = i then cr_generator request else dget (generators b) j)" for j
    using freshD(1) by (auto simp: F split: option.splits)
  have mint: "dget (min_tokens b') j = (if j = i then (if sp_min_tokens sp \<noteq> 0
      then Some (sp_min_tokens sp, sp_all_stop_token_ids sp) else None) else dget (min_tokens b) j)" for j
    using freshD(2) by (auto simp: F)
  have bad: "dget (bad_words_token_ids b') j = (if j = i then (if sp_bad_words_token_ids sp \<noteq> []
      then Some (sp_bad_words_token_ids sp) else None) else dget (bad_words_token_ids b) j)" for j
    using freshD(3) by (auto simp: F)
  have live': "live b' j \<longleftrightarrow> j = i \<or> live b j" for j
    using ile by (auto simp: live_def F nth_append nth_list_update)
  have idx: "j \<noteq> i" if "dget (req_id_to_index b) r = Some j" for r j
    using that D(5) nlive by (auto simp: live_def)
  have masks: "length k = max_num_reqs b" if "allowed_token_ids_mask b' = Some k" for k
    using that mk L(16) by (auto simp: F cstat)
  have len: "length (req_ids b') \<le> max_num_reqs b" using D(3) room by (simp add: F)
  have toks_ok: "\<forall>r \<in> set (token_ids_cpu b'). length r = max_model_len b"
    using L(2) tl by (auto simp: F dest!: set_update_subset_insert [THEN subsetD])
  have inv': "batch_inv b'"
    unfolding batch_inv_def
  proof (intro conjI allI impI)
    show "arrays_sized b'"
      using L toks_ok masks by (simp add: arrays_sized_def Let_def F split: option.splits)
    show "length (req_output_token_ids b') = length (req_ids b')" using D(2) by (simp add: F)
    show "length (req_ids b') \<le> max_num_reqs b'" using len by (simp add: F)
    show "distinct (dkeys (req_id_to_index b'))" using D(4) by (simp add: F distinct_update)
    show "dget (req_id_to_index b') r = Some j \<longleftrightarrow> j < length (req_ids b') \<and> req_ids b' ! j = Some r"
      for r j
      using D(5) [of r j] D(5) [of rid j] idx [of r] A(2) ile nlive
      by (cases "i = length (req_ids b)") (auto simp: F nth_append nth_list_update live_def less_Suc_eq)
    show "live b' j" if "dget (generators b') j \<noteq> None" for j
      using that D(6) live' by (auto simp: gen split: if_splits)
    show "live b' j" if "dget (min_tokens b') j \<noteq> None" for j
      using that D(7) live' by (auto simp: mint split: if_splits)
    show "live b' j" if "dget (bad_words_token_ids b') j \<noteq> None" for j
      using that D(8) live' by (auto simp: bad split: if_splits)
  qed (use A(5) in \<open>simp_all add: F\<close>)
  have blk: "row j (block_table b') = (if j = i then (if vo_has_tables ops (block_table b)
      then cr_block_ids request else []) else row j (block_table b))" for j
    using laws unfolding F vllm_laws_def by simp
  have outs: "req_output_token_ids b' ! j = (if j = i then Some (cr_output_token_ids request)
      else req_output_token_ids b ! j)" if "j \<le> length (req_ids b)" "j = i \<or> live b j" for j
    using that ile by (auto simp: F nth_append D(2) live_def)
  have new: "row_at row b' i = request_row (vo_has_tables ops (block_table b)) st (vocab_size b) sp request"
    using outs [OF ile] room
    by (simp add: row_at_def request_row_def gen mint bad blk Let_def prompt out_def [symmetric])
      (simp add: F tt L lid_def)
  have old: "row_at row b' j = row_at row b j" if "live b j" for j
  proof -
    have j: "j \<noteq> i" "j \<le> length (req_ids b)" "j = i \<or> live b j"
      using that nlive by (auto simp: live_def)
    show ?thesis unfolding row_at_def gen mint bad blk outs [OF j(2,3)] using j(1) by (simp add: F)
  qed
  have fold: "filters_at b' j = filters_at b j" if "live b j" for j
  proof -
    have "j \<noteq> i" "j < max_num_reqs c" using that nlive D(3) by (auto simp: live_def cstat)
    with mo have "(case m of None \<Rightarrow> replicate (vocab_size b) False | Some m \<Rightarrow> m ! j) =
        (case allowed_token_ids_mask b of None \<Rightarrow> replicate (vocab_size b) False | Some m \<Rightarrow> m ! j)"
      by (simp add: filters_at_def cstat cong: option.case_cong)
    then show ?thesis using \<open>j \<noteq> i\<close> by (simp add: filters_at_def F split: option.splits)
  qed
  have liv: "live b j" if "dget (req_id_to_index b) r = Some j" for r j
    using that D(5) by (auto simp: live_def)
  show ?thesis
  proof (rule that [OF ok inv'])
    show "lora_inv b'"
      unfolding b'_def
      by (rule write_lora_ok [OF linv inv _ nlive room A(4)])
        (use A(2) in \<open>simp_all add: F1 rid_def S\<close>)
    show "num_reqs b' = Suc (num_reqs b)"
      using A(2) dget_None_iff [of "req_id_to_index b" rid] by (simp add: num_reqs_def F length_dset)
    show "batch_view row b' = (batch_view row b)
       (cr_req_id request \<mapsto> request_row (vo_has_tables ops (block_table b)) st (vocab_size b) sp request)"
      using new old liv by (auto simp: batch_view_def F rid_def fun_eq_iff intro!: option.map_cong0)
    show "filter_view b' r = filter_view b r" if "r \<noteq> cr_req_id request" for r
      using that fold liv
      by (cases "dget (req_id_to_index b) r") (auto simp: filter_view_def F rid_def)
    show "filter_view b' (cr_req_id request) =
       Some (case sp_logit_bias sp of None \<Rightarrow> logit_bias b ! i | Some x \<Rightarrow> Some x,
             snd (filters_at b i))" if "sp_allowed_token_ids sp = []"
      using ms that room L
      by (simp add: filter_view_def F rid_def filters_at_def cstat split: option.splits)
    show "batch_static ops b' = batch_static ops b"
      using laws by (simp add: batch_static_def F vllm_laws_def)
  qed (simp_all add: F rid_def)
qed

end
