(* ===== verification/InputBatchProps.thy ===== *)
theory InputBatchProps
  imports InputBatchInv
begin

text \<open>
  The properties of the persistent batch: adding, removing, condensing and swapping, the adapter
  tables, and what the code does not reset. The concrete values at the start serve the witnesses.
\<close>

section \<open>Concrete values\<close>

text \<open>A block table that is a function from rows to block lists.\<close>

definition ex_ops :: "(nat \<Rightarrow> int list list) vllm_ops" where
  "ex_ops = \<lparr> vo_num_tokens = (+), vo_has_tables = (\<lambda>_. True), vo_add_row = (\<lambda>ids i t. t(i := ids)),
     vo_append_row = (\<lambda>ids i t. t(i := extend_blocks (t i) ids)),
     vo_move_row = (\<lambda>src dst t. t(dst := t src)),
     vo_swap_row = (\<lambda>i j t. t(i := t j, j := t i)) \<rparr>"

definition ex_row :: "nat \<Rightarrow> (nat \<Rightarrow> int list list) \<Rightarrow> int list list" where
  "ex_row i t = t i"

lemma ex_laws: "vllm_laws ex_ops ex_row"
  by (simp add: vllm_laws_def ex_ops_def ex_row_def)

definition ex_sampling :: sampling_params where
  "ex_sampling = \<lparr> sp_type = Greedy, sp_temperature = 0, sp_top_p = 1, sp_top_k = 0, sp_min_p = 0,
     sp_frequency_penalty = 0, sp_presence_penalty = 0, sp_repetition_penalty = 1,
     sp_min_tokens = 0, sp_all_stop_token_ids = [], sp_logprobs = None, sp_prompt_logprobs = None,
     sp_logit_bias = None, sp_allowed_token_ids = [], sp_bad_words_token_ids = [], sp_seed = 0 \<rparr>"

definition ex_request :: "req_id \<Rightarrow> addr \<Rightarrow> (int, rat) dict option \<Rightarrow> lora_request option \<Rightarrow> cached_request" where
  "ex_request rid a bias lora = \<lparr> cr_req_id = rid, cr_prompt_token_ids = Some [1, 2],
     cr_sampling_params = Some (ex_sampling\<lparr>sp_logit_bias := bias\<rparr>), cr_pooling_params = None,
     cr_pooling_states = None, cr_generator = None, cr_block_ids = [[5]],
     cr_num_computed_tokens = 0, cr_output_token_ids = a, cr_lora_request = lora \<rparr>"

definition ex_batch :: "(nat \<Rightarrow> int list list) input_batch" where
  "ex_batch = new_input_batch False 3 4 8 (\<lambda>_. []) (\<lambda>_. 0) (\<lambda>_. 0)"

definition ex_two :: "(nat \<Rightarrow> int list list) input_batch res" where
  "ex_two = rbind (add_request ex_ops (\<lambda>_. []) (ex_request ''a'' 0 None None) None ex_batch)
     (add_request ex_ops (\<lambda>_. []) (ex_request ''b'' 1 (Some [(3, 1)]) None) None)"

lemma ex_batch_inv: "batch_inv ex_batch" "lora_inv ex_batch"
  by (simp_all add: ex_batch_def batch_inv_new)
    (simp add: lora_inv_def lora_users_def new_input_batch_def Let_def)

lemma ex_two_ok:
  obtains b where "ex_two = Inr b" "batch_inv b" "lora_inv b" "\<not> is_pooling_model b"
    "req_ids b = [Some ''a'', Some ''b'']" "batch_static ex_ops b = (3, 4, 8, False, True)"
proof -
  have st: "batch_static ex_ops ex_batch = (3, 4, 8, False, True)"
    by (simp add: batch_static_def ex_batch_def new_input_batch_def ex_ops_def Let_def)
  have e: "req_ids ex_batch = []" "req_id_to_index ex_batch = []" "holes ex_batch = {}"
    "num_reqs ex_batch = 0"
    by (simp_all add: ex_batch_def new_input_batch_def holes_def num_reqs_def Let_def)
  have q: "cr_prompt_token_ids (ex_request r a bias lora) = Some [1, 2]"
    "cr_sampling_params (ex_request r a bias lora) = Some (ex_sampling\<lparr>sp_logit_bias := bias\<rparr>)"
    "cr_req_id (ex_request r a bias lora) = r" "cr_lora_request (ex_request r a bias lora) = lora"
    for r a bias lora by (simp_all add: ex_request_def)
  have "addable (\<lambda>_. []) (ex_request ''a'' 0 None None) ex_batch"
    using st e by (simp add: addable_def q ex_sampling_def batch_static_def)
  then obtain b1 where b1: "add_request ex_ops (\<lambda>_. []) (ex_request ''a'' 0 None None) None ex_batch = Inr b1"
    "batch_inv b1" "lora_inv b1" "req_ids b1 = [Some ''a'']" "num_reqs b1 = 1"
    "batch_static ex_ops b1 = (3, 4, 8, False, True)"
    using st e by (elim add_request_ok [OF ex_batch_inv ex_laws _ q(1,2), where i = 0 and ix = None])
      (auto simp: batch_static_def q(3))
  have "dget (req_id_to_index b1) ''b'' = None"
    using batch_invD(5) [OF b1(2), of "''b''" 0] b1(4) keys_are_ids [OF b1(2), of "''b''"]
      dget_None_iff [of "req_id_to_index b1" "''b''"] by simp
  then have "addable (\<lambda>_. []) (ex_request ''b'' 1 (Some [(3, 1)]) None) b1"
    using b1(6) by (simp add: addable_def q ex_sampling_def batch_static_def)
  then obtain b2 where "add_request ex_ops (\<lambda>_. []) (ex_request ''b'' 1 (Some [(3, 1)]) None) None b1 = Inr b2"
    "batch_inv b2" "lora_inv b2" "req_ids b2 = [Some ''a'', Some ''b'']"
    "batch_static ex_ops b2 = (3, 4, 8, False, True)"
    using b1 by (elim add_request_ok [OF b1(2,3) ex_laws _ q(1,2), where i = 1 and ix = None])
      (auto simp: batch_static_def q(3))
  then show ?thesis using that b1(1) by (auto simp: ex_two_def batch_static_def)
qed

lemma ex_holed_ok:
  obtains b where "rbind ex_two (remove_request ''a'') = Inr (Some 0, b)" "batch_inv b" "lora_inv b"
    "req_ids b = [None, Some ''b'']" "batch_static ex_ops b = (3, 4, 8, False, True)"
proof -
  obtain b where b: "ex_two = Inr b" "batch_inv b" "lora_inv b"
    "req_ids b = [Some ''a'', Some ''b'']" "batch_static ex_ops b = (3, 4, 8, False, True)"
    by (rule ex_two_ok)
  have "dget (req_id_to_index b) ''a'' = Some 0" using batch_invD(5) [OF b(2)] b(4) by simp
  then obtain b' where "remove_request ''a'' b = Inr (Some 0, b')" "batch_inv b'" "lora_inv b'"
    "req_ids b' = (req_ids b)[0 := None]" "batch_static ex_ops b' = batch_static ex_ops b"
    using remove_request_ok [OF b(2,3), where row = ex_row] by metis
  moreover from this have "rbind ex_two (remove_request ''a'') = Inr (Some 0, b')"
    by (simp only: b(1) rbind.simps)
  ultimately show ?thesis using that [of b'] b(4,5) by simp
qed

section \<open>Properties\<close>

text \<open>What is keyed by a request: the sets and dictionaries that mention it.\<close>

definition mentions :: "'bt input_batch \<Rightarrow> req_id \<Rightarrow> bool" where
  "mentions b r \<longleftrightarrow>
     r \<in> greedy_reqs b \<union> random_reqs b \<union> top_p_reqs b \<union> top_k_reqs b \<union> min_p_reqs b
         \<union> frequency_penalties_reqs b \<union> presence_penalties_reqs b \<union> repetition_penalties_reqs b
         \<union> has_allowed_token_ids b
     \<or> dget (num_logprobs b) r \<noteq> None \<or> dget (num_prompt_logprobs b) r \<noteq> None
     \<or> dget (in_progress_prompt_logprobs b) r \<noteq> None \<or> dget (req_id_to_index b) r \<noteq> None
     \<or> Some r \<in> set (req_ids b)"

lemma remove_forgets:
  assumes "remove_request rid b = Inr (Some i, b')" "batch_inv b" "\<not> is_pooling_model b" "lora_inv b"
  shows "\<not> mentions b' rid" "logit_bias b' = (logit_bias b)[i := None]"
proof -
  have i: "dget (req_id_to_index b) rid = Some i"
    using assms(1) by (auto simp: remove_request_def Let_def res_simps split: option.splits)
  obtain c where c: "drop_lora rid i (unregistered rid i b) = Inr c"
    and b': "b' = (if is_pooling_model c then drop_pooling rid c else drop_sampling rid i c)"
    using assms(1) i by (auto simp: remove_request_def Let_def res_simps unregistered_def)
  have cf: "is_pooling_model c = is_pooling_model b" "req_id_to_index c = dpop (req_id_to_index b) rid"
    "req_ids c = (req_ids b)[i := None]" "logit_bias c = logit_bias b"
  proof -
    obtain x y where "c = (unregistered rid i b)\<lparr>lora_id_to_request_ids := x,
        lora_id_to_lora_request := y, request_lora_mapping := (request_lora_mapping b)[i := 0]\<rparr>"
      using drop_lora_ok [OF assms(2,4) i] c by (metis sum.inject(2))
    then show "is_pooling_model c = is_pooling_model b" "req_id_to_index c = dpop (req_id_to_index b) rid"
      "req_ids c = (req_ids b)[i := None]" "logit_bias c = logit_bias b"
      by (simp_all add: unregistered_def)
  qed
  have "Some rid \<notin> set ((req_ids b)[i := None])"
  proof
    assume "Some rid \<in> set ((req_ids b)[i := None])"
    then obtain j where j: "j < length (req_ids b)" "(req_ids b)[i := None] ! j = Some rid"
      by (auto simp: in_set_conv_nth)
    then have "j \<noteq> i" by auto
    then have "dget (req_id_to_index b) rid = Some j"
      using j batch_invD(5) [OF assms(2), of rid j] by simp
    then show False using i \<open>j \<noteq> i\<close> by simp
  qed
  then show "\<not> mentions b' rid"
    using assms(3) by (simp add: mentions_def b' cf drop_sampling_def)
  show "logit_bias b' = (logit_bias b)[i := None]"
    using assms(3) by (simp add: b' cf drop_sampling_def)
qed

text \<open>C14. Condensing keeps every request: with the holes given in descending order it succeeds,
  leaves no empty row, trims the list of rows to the number of requests, and the content of every
  request (tokens, counters, blocks, sampling columns, adapter, filters) is what it was, wherever
  its row has moved.\<close>

theorem condense_keeps_requests:
  assumes "batch_inv b" "vllm_laws ops row" "sorted_wrt (>) es" "set es = holes b"
  shows "\<exists>b'. condense ops es b = Inr b' \<and> batch_inv b' \<and> None \<notin> set (req_ids b')
      \<and> length (req_ids b') = num_reqs b \<and> batch_view row b' = batch_view row b
      \<and> filter_view b' = filter_view b"
  by (rule condense_ok [OF assms]) (auto simp: no_holes_iff)

text \<open>Removing a request leaves one hole, keeps every other request's content, and forgets the
  request: no set or dictionary of the batch mentions it any more.\<close>

theorem removal_is_complete:
  assumes "batch_inv b" "lora_inv b" "\<not> is_pooling_model b" "dget (req_id_to_index b) rid = Some i"
  shows "\<exists>b'. remove_request rid b = Inr (Some i, b') \<and> batch_inv b' \<and> holes b' = insert i (holes b)
      \<and> batch_view row b' = (batch_view row b)(rid := None) \<and> \<not> mentions b' rid"
proof -
  obtain b' where b': "remove_request rid b = Inr (Some i, b')" "batch_inv b'"
    "req_ids b' = (req_ids b)[i := None]" "batch_view row b' = (batch_view row b)(rid := None)"
    by (rule remove_request_ok [OF assms(1,2,4), where row = row])
  have "i < length (req_ids b)" using assms(1,4) batch_invD(5) by blast
  then have "holes b' = insert i (holes b)" by (auto simp: holes_def b'(3) nth_list_update)
  then show ?thesis using b' remove_forgets [OF b'(1) assms(1,3,2)] by blast
qed

text \<open>The adapter tables stay exact: after adding or removing a request they list the adapters in
  use, no other, each with exactly the requests that use it.\<close>

theorem adapters_in_use_exactly:
  assumes "batch_inv b" "lora_inv b" "vllm_laws ops row"
  shows "(dget (req_id_to_index b) rid = Some i
        \<longrightarrow> (\<exists>b'. remove_request rid b = Inr (Some i, b') \<and> lora_inv b'))
      \<and> (addable st q b \<longrightarrow> holes b = {} \<longrightarrow> length (req_ids b) < max_num_reqs b
        \<longrightarrow> (\<exists>b'. add_request ops st q None b = Inr b' \<and> lora_inv b'))"
proof (intro conjI impI)
  assume "dget (req_id_to_index b) rid = Some i"
  from remove_request_ok [OF assms(1,2) this]
  show "\<exists>b'. remove_request rid b = Inr (Some i, b') \<and> lora_inv b'" by metis
next
  assume q: "addable st q b" and h: "holes b = {}" and room: "length (req_ids b) < max_num_reqs b"
  obtain prompt sp where "cr_prompt_token_ids q = Some prompt" "cr_sampling_params q = Some sp"
    using q by (auto simp: addable_def split: option.splits)
  moreover have "length (req_ids b) = num_reqs b" using slots_split [OF assms(1)] h by simp
  ultimately show "\<exists>b'. add_request ops st q None b = Inr b' \<and> lora_inv b'"
    using add_request_ok [OF assms(1-3) q, of prompt sp "length (req_ids b)" None] room by metis
qed

text \<open>The filters of a new request are those of its row, not its own: without a logit bias of its
  own (and without allowed tokens) it takes over whatever bias and mask its row holds.\<close>

theorem new_request_inherits_row_filters:
  assumes "batch_inv b" "lora_inv b" "vllm_laws ops row" "addable st q b"
    and "cr_sampling_params q = Some sp" "sp_logit_bias sp = None" "sp_allowed_token_ids sp = []"
    and "i \<in> holes b" "i < max_num_reqs b"
  shows "\<exists>b'. add_request ops st q (Some i) b = Inr b'
      \<and> filter_view b' (cr_req_id q) = Some (filters_at b i)"
proof -
  obtain prompt where "cr_prompt_token_ids q = Some prompt"
    using assms(4,5) by (auto simp: addable_def split: option.splits)
  then obtain b' where "add_request ops st q (Some i) b = Inr b'"
    "filter_view b' (cr_req_id q) =
       Some (case sp_logit_bias sp of None \<Rightarrow> logit_bias b ! i | Some x \<Rightarrow> Some x, snd (filters_at b i))"
    using add_request_ok [OF assms(1-4) _ assms(5), of prompt i "Some i"] assms(7-9) by metis
  then show ?thesis using assms(6) by (simp add: filters_at_def)
qed


section \<open>Witnesses\<close>

theorem condense_keeps_requests_witness:
  "\<exists>b b'. rbind ex_two (remove_request ''a'') = Inr (Some 0, b) \<and> condense ex_ops [0] b = Inr b'
     \<and> None \<notin> set (req_ids b') \<and> length (req_ids b') = num_reqs b"
proof -
  obtain b where b: "rbind ex_two (remove_request ''a'') = Inr (Some 0, b)" "batch_inv b"
    "req_ids b = [None, Some ''b'']" by (rule ex_holed_ok)
  have "set [0] = holes b" by (auto simp: holes_def b(3) less_Suc_eq)
  then show ?thesis using condense_keeps_requests [OF b(2) ex_laws, of "[0]"] b(1) by auto
qed

theorem removal_is_complete_witness:
  "\<exists>b b'. ex_two = Inr b \<and> remove_request ''b'' b = Inr (Some 1, b') \<and> \<not> mentions b' ''b''"
proof -
  obtain b where b: "ex_two = Inr b" "batch_inv b" "lora_inv b" "\<not> is_pooling_model b"
    "req_ids b = [Some ''a'', Some ''b'']" by (rule ex_two_ok)
  have "dget (req_id_to_index b) ''b'' = Some 1" using batch_invD(5) [OF b(2)] b(5) by simp
  from removal_is_complete [OF b(2-4) this] show ?thesis using b(1) by blast
qed

theorem adapters_in_use_exactly_witness:
  "\<exists>b b'. ex_two = Inr b \<and> remove_request ''b'' b = Inr (Some 1, b') \<and> lora_inv b'"
proof -
  obtain b where b: "ex_two = Inr b" "batch_inv b" "lora_inv b"
    "req_ids b = [Some ''a'', Some ''b'']" by (rule ex_two_ok)
  have "dget (req_id_to_index b) ''b'' = Some 1" using batch_invD(5) [OF b(2)] b(4) by simp
  then show ?thesis using adapters_in_use_exactly [OF b(2,3) ex_laws] b(1) by blast
qed

theorem new_request_inherits_row_filters_witness:
  "\<exists>b b'. rbind ex_two (remove_request ''a'') = Inr (Some 0, b)
     \<and> add_request ex_ops (\<lambda>_. []) (ex_request ''c'' 2 None None) (Some 0) b = Inr b'
     \<and> filter_view b' ''c'' = Some (filters_at b 0)"
proof -
  obtain b where b: "rbind ex_two (remove_request ''a'') = Inr (Some 0, b)" "batch_inv b" "lora_inv b"
    "req_ids b = [None, Some ''b'']" "batch_static ex_ops b = (3, 4, 8, False, True)"
    by (rule ex_holed_ok)
  have "dget (req_id_to_index b) ''c'' = None"
    using keys_are_ids [OF b(2), of "''c''"] dget_None_iff [of "req_id_to_index b" "''c''"] b(4) by simp
  then have "addable (\<lambda>_. []) (ex_request ''c'' 2 None None) b"
    using b(5) by (simp add: addable_def ex_request_def ex_sampling_def batch_static_def)
  moreover have "0 \<in> holes b" by (simp add: holes_def b(4))
  moreover have "0 < max_num_reqs b" using b(5) by (simp add: batch_static_def)
  ultimately show ?thesis
    using new_request_inherits_row_filters [OF b(2,3) ex_laws, of "\<lambda>_. []"
        "ex_request ''c'' 2 None None" "ex_sampling\<lparr>sp_logit_bias := None\<rparr>" 0] b(1)
    by (auto simp: ex_request_def ex_sampling_def)
qed

end
