(* ===== verification/BatchLaws.thy ===== *)
theory BatchLaws
  imports InputBatchProps
begin

text \<open>
  The contract between the persistent batch and its client, the runner's \<open>_update_states\<close>: a
  locale with the three operations of the batch, the laws they promise, and the client's loops
  (remove the requests that are gone, fill the holes with the new ones, condense what is left).
  The interpretation discharges the laws for \<open>InputBatch\<close>.
\<close>

section \<open>The loops of the client\<close>

text \<open>The two removal loops of \<open>_update_states\<close>: the removed indices are collected; in
  the second loop every request must be in the batch.\<close>

fun remove_each ::
  "(req_id \<Rightarrow> 's \<Rightarrow> (nat option \<times> 's) res) \<Rightarrow> bool \<Rightarrow> req_id list \<Rightarrow> nat list \<Rightarrow> 's
     \<Rightarrow> (nat list \<times> 's) res" where
  "remove_each remove must [] removed s = Inr (removed, s)"
| "remove_each remove must (r # rs) removed s =
     rbind (remove r s) (\<lambda>(idx, s').
       case idx of
         None \<Rightarrow> if must then Inl AssertionError else remove_each remove must rs removed s'
       | Some i \<Rightarrow> remove_each remove must rs (removed @ [i]) s')"

text \<open>The loop that adds requests; \<open>removed_req_indices.pop()\<close> takes the smallest hole.\<close>

fun add_each ::
  "('q \<Rightarrow> nat option \<Rightarrow> 's \<Rightarrow> 's res) \<Rightarrow> 'q list \<Rightarrow> nat list \<Rightarrow> 's \<Rightarrow> (nat list \<times> 's) res" where
  "add_each add [] removed s = Inr (removed, s)"
| "add_each add (q # qs) removed s =
     rbind (add q (if removed = [] then None else Some (last removed)) s)
       (add_each add qs (butlast removed))"

definition refill ::
  "('q \<Rightarrow> nat option \<Rightarrow> 's \<Rightarrow> 's res) \<Rightarrow> (nat list \<Rightarrow> 's \<Rightarrow> 's res) \<Rightarrow> 'q list \<Rightarrow> nat list
     \<Rightarrow> 's \<Rightarrow> 's res" where
  "refill add pk qs removed s =
     rbind (add_each add qs (rev (sort removed)) s)
       (\<lambda>(left, s'). if left \<noteq> [] then pk left s' else Inr s')"

section \<open>The contract\<close>

definition ids_of :: "req_id option list \<Rightarrow> req_id set" where
  "ids_of slots = {r. Some r \<in> set slots}"

definition none_at :: "req_id option list \<Rightarrow> nat set" where
  "none_at slots = {i. i < length slots \<and> slots ! i = None}"

definition placed_at :: "req_id option list \<Rightarrow> nat \<Rightarrow> req_id \<Rightarrow> req_id option list" where
  "placed_at slots i r = (if i = length slots then slots @ [Some r] else slots[i := Some r])"

lemma finite_ids_of: "finite (ids_of slots)"
proof -
  have "ids_of slots \<subseteq> the ` set slots" by (force simp: ids_of_def)
  then show ?thesis by (rule finite_subset) simp
qed

lemma none_at_update: "i < length slots \<Longrightarrow> none_at (slots[i := None]) = insert i (none_at slots)"
  by (auto simp: none_at_def nth_list_update)

lemma none_at_placed:
  "i \<in> none_at slots \<or> i = length slots \<Longrightarrow> none_at (placed_at slots i r) = none_at slots - {i}"
  by (auto simp: none_at_def placed_at_def nth_list_update nth_append split: if_splits)

lemma ids_of_placed:
  assumes "i \<in> none_at slots \<or> i = length slots"
  shows "ids_of (placed_at slots i r) = insert r (ids_of slots)"
proof (cases "i = length slots")
  case True
  then show ?thesis by (auto simp: ids_of_def placed_at_def)
next
  case False
  with assms have i: "i < length slots" "slots ! i = None" by (simp_all add: none_at_def)
  have "slots = take i slots @ None # drop (Suc i) slots"
    using id_take_nth_drop [OF i(1)] i(2) by simp
  then have "ids_of slots = ids_of (take i slots @ None # drop (Suc i) slots)" by (rule arg_cong)
  then show ?thesis
    using False upd_conv_take_nth_drop [OF i(1), of "Some r"]
    by (auto simp: ids_of_def placed_at_def)
qed

lemma ids_of_cleared:
  assumes "i < length slots" "slots ! i = Some r" "\<And>j. j < length slots \<Longrightarrow> slots ! j = Some r \<Longrightarrow> j = i"
  shows "ids_of (slots[i := None]) = ids_of slots - {r}"
proof (intro set_eqI iffI)
  fix x
  assume "x \<in> ids_of (slots[i := None])"
  then obtain j where j: "j < length slots" "slots[i := None] ! j = Some x"
    by (auto simp: ids_of_def in_set_conv_nth)
  then have ne: "j \<noteq> i" by auto
  then have at: "slots ! j = Some x" using j by simp
  have "x \<noteq> r" using assms(3) [OF j(1)] at ne by blast
  moreover have "Some x \<in> set slots" using at j(1) by (metis nth_mem)
  ultimately show "x \<in> ids_of slots - {r}" by (simp add: ids_of_def)
next
  fix x
  assume x: "x \<in> ids_of slots - {r}"
  then obtain j where j: "j < length slots" "slots ! j = Some x"
    by (auto simp: ids_of_def in_set_conv_nth)
  then have "j \<noteq> i" using x assms(2) by auto
  then have "slots[i := None] ! j = Some x" using j(2) by simp
  then show "x \<in> ids_of (slots[i := None])"
    using j(1) by (metis (mono_tags) ids_of_def length_list_update mem_Collect_eq nth_mem)
qed

locale request_batch =
  fixes slots :: "'s \<Rightarrow> req_id option list"
    and inv :: "'s \<Rightarrow> bool"
    and content :: "'s \<Rightarrow> req_id \<Rightarrow> 'v option"
    and static :: "'s \<Rightarrow> 'c"
    and capacity :: "'c \<Rightarrow> nat"
    and fits :: "'q \<Rightarrow> 'c \<Rightarrow> bool"
    and key :: "'q \<Rightarrow> req_id"
    and wanted :: "'q \<Rightarrow> 'c \<Rightarrow> 'v"
    and add :: "'q \<Rightarrow> nat option \<Rightarrow> 's \<Rightarrow> 's res"
    and remove :: "req_id \<Rightarrow> 's \<Rightarrow> (nat option \<times> 's) res"
    and pack :: "nat list \<Rightarrow> 's \<Rightarrow> 's res"
  assumes slot_unique: "inv s \<Longrightarrow> i < length (slots s) \<Longrightarrow> j < length (slots s)
      \<Longrightarrow> slots s ! i = Some r \<Longrightarrow> slots s ! j = Some r \<Longrightarrow> i = j"
    and remove_gone: "inv s \<Longrightarrow> r \<notin> ids_of (slots s) \<Longrightarrow> remove r s = Inr (None, s)"
    and remove_there: "inv s \<Longrightarrow> i < length (slots s) \<Longrightarrow> slots s ! i = Some r
      \<Longrightarrow> \<exists>s'. remove r s = Inr (Some i, s') \<and> inv s' \<and> slots s' = (slots s)[i := None]
             \<and> content s' = (content s)(r := None) \<and> static s' = static s"
    and add_there: "inv s \<Longrightarrow> fits q (static s) \<Longrightarrow> key q \<notin> ids_of (slots s)
      \<Longrightarrow> i < capacity (static s) \<Longrightarrow> i \<in> none_at (slots s) \<or> i = length (slots s)
      \<Longrightarrow> ix = Some i \<or> ix = None \<and> none_at (slots s) = {} \<and> i = length (slots s)
      \<Longrightarrow> \<exists>s'. add q ix s = Inr s' \<and> inv s' \<and> slots s' = placed_at (slots s) i (key q)
             \<and> content s' = (content s)(key q \<mapsto> wanted q (static s)) \<and> static s' = static s"
    and pack_there: "inv s \<Longrightarrow> sorted_wrt (>) es \<Longrightarrow> set es = none_at (slots s)
      \<Longrightarrow> \<exists>s'. pack es s = Inr s' \<and> inv s' \<and> none_at (slots s') = {}
             \<and> ids_of (slots s') = ids_of (slots s) \<and> content s' = content s \<and> static s' = static s"
    and content_gone: "inv s \<Longrightarrow> r \<notin> ids_of (slots s) \<Longrightarrow> content s r = None"
    and within: "inv s \<Longrightarrow> length (slots s) \<le> capacity (static s)"
begin

lemma card_ids:
  assumes "inv s"
  shows "card (ids_of (slots s)) + card (none_at (slots s)) = length (slots s)"
proof -
  let ?L = "{i. i < length (slots s) \<and> slots s ! i \<noteq> None}"
  have "bij_betw (\<lambda>i. the (slots s ! i)) ?L (ids_of (slots s))"
  proof (intro bij_betwI' )
    show "the (slots s ! i) = the (slots s ! j) \<longleftrightarrow> i = j" if "i \<in> ?L" "j \<in> ?L" for i j
      using that slot_unique [OF assms, of i j] by auto
    show "the (slots s ! i) \<in> ids_of (slots s)" if "i \<in> ?L" for i
      using that by (auto simp: ids_of_def in_set_conv_nth)
    show "\<exists>i \<in> ?L. r = the (slots s ! i)" if "r \<in> ids_of (slots s)" for r
      using that by (fastforce simp: ids_of_def in_set_conv_nth)
  qed
  then have "card (ids_of (slots s)) = card ?L" by (metis bij_betw_same_card)
  moreover have "{..<length (slots s)} = ?L \<union> none_at (slots s)" by (auto simp: none_at_def)
  moreover have "?L \<inter> none_at (slots s) = {}" by (auto simp: none_at_def)
  moreover have "finite (none_at (slots s))" by (simp add: none_at_def)
  ultimately show ?thesis
    by (metis (no_types, lifting) card_Un_disjoint card_lessThan finite_Un finite_lessThan)
qed

lemma remove_each_ok:
  assumes "inv s" "set removed = none_at (slots s)" "distinct removed"
    and "must \<Longrightarrow> distinct rs \<and> set rs \<subseteq> ids_of (slots s)"
  shows "\<exists>removed' s'. remove_each remove must rs removed s = Inr (removed', s') \<and> inv s'
      \<and> set removed' = none_at (slots s') \<and> distinct removed'
      \<and> ids_of (slots s') = ids_of (slots s) - set rs
      \<and> content s' = (\<lambda>r. if r \<in> set rs then None else content s r) \<and> static s' = static s"
  using assms
proof (induction rs arbitrary: removed s)
  case (Cons r rs)
  show ?case
  proof (cases "r \<in> ids_of (slots s)")
    case False
    then have "\<not> must" using Cons.prems(4) by auto
    then obtain removed' s' where st: "remove_each remove must rs removed s = Inr (removed', s')"
      "inv s'" "set removed' = none_at (slots s')" "distinct removed'"
      "ids_of (slots s') = ids_of (slots s) - set rs" "static s' = static s"
      "content s' = (\<lambda>r. if r \<in> set rs then None else content s r)"
      using Cons.IH [OF Cons.prems(1-3)] by blast
    moreover have "content s r = None" by (rule content_gone [OF Cons.prems(1) False])
    ultimately show ?thesis using False \<open>\<not> must\<close>
      by (auto simp: remove_gone [OF Cons.prems(1) False])
  next
    case True
    then obtain i where i: "i < length (slots s)" "slots s ! i = Some r"
      by (auto simp: ids_of_def in_set_conv_nth)
    obtain t where t: "remove r s = Inr (Some i, t)" "inv t" "slots t = (slots s)[i := None]"
      "content t = (content s)(r := None)" "static t = static s"
      using remove_there [OF Cons.prems(1) i] by blast
    have "i \<notin> none_at (slots s)" using i by (simp add: none_at_def)
    then have pre: "set (removed @ [i]) = none_at (slots t)" "distinct (removed @ [i])"
      using Cons.prems(2,3) by (simp_all add: t(3) none_at_update [OF i(1)])
    have ids: "ids_of (slots t) = ids_of (slots s) - {r}"
      unfolding t(3)
    proof (rule ids_of_cleared [OF i])
      show "j = i" if "j < length (slots s)" "slots s ! j = Some r" for j
        using slot_unique [OF Cons.prems(1) that(1) i(1) that(2) i(2)] .
    qed
    have "must \<Longrightarrow> distinct rs \<and> set rs \<subseteq> ids_of (slots t)"
      using Cons.prems(4) by (auto simp: ids)
    then obtain removed' s' where "remove_each remove must rs (removed @ [i]) t = Inr (removed', s')"
      "inv s'" "set removed' = none_at (slots s')" "distinct removed'"
      "ids_of (slots s') = ids_of (slots t) - set rs" "static s' = static t"
      "content s' = (\<lambda>r. if r \<in> set rs then None else content t r)"
      using Cons.IH [OF t(2) pre] by blast
    then show ?thesis using t(1,4,5) by (auto simp: ids)
  qed
qed auto

lemma add_each_ok:
  assumes "inv s" "set hs = none_at (slots s)" "sorted_wrt (>) hs"
    and "distinct (map key qs)" "set (map key qs) \<inter> ids_of (slots s) = {}"
    and "\<forall>q \<in> set qs. fits q (static s)"
    and "card (ids_of (slots s)) + length qs \<le> capacity (static s)"
  shows "\<exists>hs' s'. add_each add qs hs s = Inr (hs', s') \<and> inv s'
      \<and> set hs' = none_at (slots s') \<and> sorted_wrt (>) hs'
      \<and> ids_of (slots s') = ids_of (slots s) \<union> set (map key qs) \<and> static s' = static s
      \<and> content s' = (\<lambda>r. case find (\<lambda>q. key q = r) qs of
                              Some q \<Rightarrow> Some (wanted q (static s)) | None \<Rightarrow> content s r)"
  using assms
proof (induction qs arbitrary: hs s)
  case (Cons q qs)
  define i where "i = (if hs = [] then length (slots s) else last hs)"
  define ix where "ix = (if hs = [] then None else Some (last hs))"
  have i: "i \<in> none_at (slots s) \<or> i = length (slots s)"
    unfolding Cons.prems(2) [symmetric] by (simp add: i_def)
  have ix: "ix = Some i \<or> ix = None \<and> none_at (slots s) = {} \<and> i = length (slots s)"
    unfolding Cons.prems(2) [symmetric] by (simp add: i_def ix_def)
  have cap: "i < capacity (static s)"
  proof (cases "hs = []")
    case True
    then show ?thesis using card_ids [OF Cons.prems(1), folded Cons.prems(2)] Cons.prems(7) by (simp add: i_def)
  next
    case False
    then have "i \<in> none_at (slots s)" unfolding Cons.prems(2) [symmetric] by (simp add: i_def)
    then show ?thesis using within [OF Cons.prems(1)] by (auto simp: none_at_def)
  qed
  have q: "fits q (static s)" "key q \<notin> ids_of (slots s)" using Cons.prems(5,6) by auto
  obtain t where t: "add q ix s = Inr t" "inv t" "slots t = placed_at (slots s) i (key q)"
    "content t = (content s)(key q \<mapsto> wanted q (static s))" "static t = static s"
    using add_there [OF Cons.prems(1) q cap i ix] by blast
  have ids: "ids_of (slots t) = insert (key q) (ids_of (slots s))"
    unfolding t(3) using i by (rule ids_of_placed)
  have hs: "set (butlast hs) = none_at (slots t)"
  proof -
    have "last hs \<notin> set (butlast hs)" if "hs \<noteq> []"
      using sorted_desc_last [OF Cons.prems(3)] by auto
    moreover have "set hs = insert (last hs) (set (butlast hs))" if "hs \<noteq> []"
      using that by (metis append_butlast_last_id list.simps(15) rotate1.simps(2) set_rotate1)
    moreover have "length (slots s) \<notin> none_at (slots s)" by (simp add: none_at_def)
    ultimately show ?thesis
      unfolding t(3) none_at_placed [OF i] Cons.prems(2) [symmetric] by (auto simp: i_def)
  qed
  have cap': "card (ids_of (slots t)) + length qs \<le> capacity (static t)"
    using Cons.prems(7) q(2) by (simp add: ids t(5) finite_ids_of)
  have rest: "distinct (map key qs)" "set (map key qs) \<inter> ids_of (slots t) = {}"
    "\<forall>q \<in> set qs. fits q (static t)"
    using Cons.prems(4-6) by (auto simp: ids t(5))
  obtain hs' s' where "add_each add qs (butlast hs) t = Inr (hs', s')" "inv s'"
      "set hs' = none_at (slots s')" "sorted_wrt (>) hs'"
      "ids_of (slots s') = ids_of (slots t) \<union> set (map key qs)" "static s' = static t"
      "content s' = (\<lambda>r. case find (\<lambda>q. key q = r) qs of
                              Some q \<Rightarrow> Some (wanted q (static t)) | None \<Rightarrow> content t r)"
    using Cons.IH [OF t(2) hs sorted_desc_butlast [OF Cons.prems(3)] rest cap'] by blast
  moreover have nf: "find (\<lambda>q'. key q' = key q) qs = None"
    using Cons.prems(4) unfolding find_None_iff by (auto simp: image_iff)
  moreover have "(\<lambda>r. case find (\<lambda>q. key q = r) qs of
          Some q \<Rightarrow> Some (wanted q (static t)) | None \<Rightarrow> content t r) =
      (\<lambda>r. case find (\<lambda>q. key q = r) (q # qs) of
          Some q \<Rightarrow> Some (wanted q (static s)) | None \<Rightarrow> content s r)"
  proof
    fix r
    show "(case find (\<lambda>q. key q = r) qs of
          Some q \<Rightarrow> Some (wanted q (static t)) | None \<Rightarrow> content t r) =
      (case find (\<lambda>q. key q = r) (q # qs) of
          Some q \<Rightarrow> Some (wanted q (static s)) | None \<Rightarrow> content s r)"
      using nf by (cases "key q = r") (auto simp: t(4,5) split: option.split)
  qed
  ultimately show ?case using t(1,5) by (auto simp: ids ix_def [symmetric])
qed auto

lemma refill_ok:
  assumes "inv s" "set removed = none_at (slots s)" "distinct removed"
    and "distinct (map key qs)" "set (map key qs) \<inter> ids_of (slots s) = {}"
    and "\<forall>q \<in> set qs. fits q (static s)"
    and "card (ids_of (slots s)) + length qs \<le> capacity (static s)"
  shows "\<exists>s'. refill add pack qs removed s = Inr s' \<and> inv s' \<and> none_at (slots s') = {}
      \<and> ids_of (slots s') = ids_of (slots s) \<union> set (map key qs) \<and> static s' = static s
      \<and> content s' = (\<lambda>r. case find (\<lambda>q. key q = r) qs of
                              Some q \<Rightarrow> Some (wanted q (static s)) | None \<Rightarrow> content s r)"
proof -
  have srt: "sorted_wrt (>) (rev (sort removed))"
    using assms(3) by (simp add: sorted_wrt_rev strict_sorted_iff)
  have set: "set (rev (sort removed)) = none_at (slots s)" using assms(2) by simp
  obtain hs t where t: "add_each add qs (rev (sort removed)) s = Inr (hs, t)" "inv t"
      "set hs = none_at (slots t)" "sorted_wrt (>) hs"
      "ids_of (slots t) = ids_of (slots s) \<union> set (map key qs)" "static t = static s"
      "content t = (\<lambda>r. case find (\<lambda>q. key q = r) qs of
                              Some q \<Rightarrow> Some (wanted q (static s)) | None \<Rightarrow> content s r)"
    using add_each_ok [OF assms(1) set srt assms(4-7)] by blast
  show ?thesis
  proof (cases "hs = []")
    case True
    then show ?thesis using t by (auto simp: refill_def)
  next
    case False
    obtain s' where "pack hs t = Inr s'" "inv s'" "none_at (slots s') = {}"
      "ids_of (slots s') = ids_of (slots t)" "content s' = content t" "static s' = static t"
      using pack_there [OF t(2,4,3)] by blast
    then show ?thesis using t False by (auto simp: refill_def)
  qed
qed

end

section \<open>The batch keeps the contract\<close>

lemma no_holes_num_reqs:
  assumes "batch_inv b" "none_at (req_ids b) = {}"
  shows "num_reqs b = length (req_ids b)"
proof -
  have "holes b = {}" using assms(2) by (simp add: none_at_def holes_def)
  then show ?thesis using slots_split [OF assms(1)] by simp
qed

definition batch_ok ::
  "'bt vllm_ops \<Rightarrow> (nat \<Rightarrow> 'bt \<Rightarrow> int list list) \<Rightarrow> 'bt input_batch \<Rightarrow> bool" where
  "batch_ok ops row b \<longleftrightarrow>
     batch_inv b \<and> lora_inv b \<and> vllm_laws ops row \<and> \<not> is_pooling_model b"

definition batch_fits :: "store \<Rightarrow> cached_request \<Rightarrow> nat \<times> nat \<times> nat \<times> bool \<times> bool \<Rightarrow> bool" where
  "batch_fits st request c =
     (case c of (_, max_len, vocab, _, _) \<Rightarrow>
       (case (cr_prompt_token_ids request, cr_sampling_params request) of
          (Some prompt, Some sp) \<Rightarrow>
            length prompt + length (st (cr_output_token_ids request)) \<le> max_len
            \<and> (\<forall>t \<in> set (sp_allowed_token_ids sp). - int vocab \<le> t \<and> t < int vocab)
        | _ \<Rightarrow> False)
       \<and> (\<forall>l. cr_lora_request request = Some l \<longrightarrow> lora_int_id l \<noteq> 0))"

definition batch_wanted ::
  "store \<Rightarrow> cached_request \<Rightarrow> nat \<times> nat \<times> nat \<times> bool \<times> bool \<Rightarrow> int list list row_view" where
  "batch_wanted st request c =
     (case c of (_, _, vocab, _, tables) \<Rightarrow>
       request_row tables st vocab (the (cr_sampling_params request)) request)"

interpretation ib: request_batch req_ids "batch_ok ops row" "batch_view row" "batch_static ops"
  fst "batch_fits st" cr_req_id "batch_wanted st" "add_request ops st" remove_request
  "condense ops"
  for ops :: "'bt vllm_ops" and row :: "nat \<Rightarrow> 'bt \<Rightarrow> int list list" and st :: store
proof unfold_locales
  fix s :: "'bt input_batch" and i j r
  assume "batch_ok ops row s" "i < length (req_ids s)" "j < length (req_ids s)"
    "req_ids s ! i = Some r" "req_ids s ! j = Some r"
  then show "i = j" using live_index_unique by (auto simp: batch_ok_def)
next
  fix s :: "'bt input_batch" and r
  assume "batch_ok ops row s" "r \<notin> ids_of (req_ids s)"
  then have none: "dget (req_id_to_index s) r = None"
    using keys_are_ids [of s r] dget_None_iff [of "req_id_to_index s" r]
    by (auto simp: batch_ok_def ids_of_def)
  then show "remove_request r s = Inr (None, s)" by (rule remove_absent)
  show "batch_view row s r = None" using none by (simp add: batch_view_def)
next
  fix s :: "'bt input_batch" and i r
  assume ok: "batch_ok ops row s" and i: "i < length (req_ids s)" "req_ids s ! i = Some r"
  have "dget (req_id_to_index s) r = Some i"
    using ok i batch_invD(5) by (auto simp: batch_ok_def)
  then obtain s' where "remove_request r s = Inr (Some i, s')" "batch_inv s'" "lora_inv s'"
    "req_ids s' = (req_ids s)[i := None]" "batch_view row s' = (batch_view row s)(r := None)"
    "batch_static ops s' = batch_static ops s"
    using ok remove_request_ok [of s r i] unfolding batch_ok_def by metis
  then show "\<exists>s'. remove_request r s = Inr (Some i, s') \<and> batch_ok ops row s'
      \<and> req_ids s' = (req_ids s)[i := None] \<and> batch_view row s' = (batch_view row s)(r := None)
      \<and> batch_static ops s' = batch_static ops s"
    using ok by (auto simp: batch_ok_def batch_static_def)
next
  fix s :: "'bt input_batch" and q i ix
  assume ok: "batch_ok ops row s" and fits: "batch_fits st q (batch_static ops s)"
    and new: "cr_req_id q \<notin> ids_of (req_ids s)" and room: "i < fst (batch_static ops s)"
    and i: "i \<in> none_at (req_ids s) \<or> i = length (req_ids s)"
    and ix: "ix = Some i \<or> ix = None \<and> none_at (req_ids s) = {} \<and> i = length (req_ids s)"
  obtain prompt sp where q: "cr_prompt_token_ids q = Some prompt" "cr_sampling_params q = Some sp"
    using fits by (auto simp: batch_fits_def batch_static_def split: option.splits)
  have inv: "batch_inv s" and linv: "lora_inv s" and laws: "vllm_laws ops row"
    using ok by (simp_all add: batch_ok_def)
  have "dget (req_id_to_index s) (cr_req_id q) = None"
    using keys_are_ids [OF inv, of "cr_req_id q"] dget_None_iff [of "req_id_to_index s"] new
    by (auto simp: ids_of_def)
  then have ad: "addable st q s"
    using fits ok q by (simp add: batch_fits_def addable_def batch_static_def batch_ok_def)
  have slot: "i \<in> holes s \<or> i = length (req_ids s)" using i by (simp add: none_at_def holes_def)
  have room': "i < max_num_reqs s" using room by (simp add: batch_static_def)
  have ix': "ix = Some i \<or> ix = None \<and> i = num_reqs s"
    using ix no_holes_num_reqs [OF inv] by auto
  obtain s' where "add_request ops st q ix s = Inr s'" "batch_inv s'" "lora_inv s'"
    "req_ids s' = (if i = length (req_ids s) then req_ids s @ [Some (cr_req_id q)]
                   else (req_ids s)[i := Some (cr_req_id q)])"
    "batch_view row s' = (batch_view row s)
       (cr_req_id q \<mapsto> request_row (vo_has_tables ops (block_table s)) st (vocab_size s) sp q)"
    "batch_static ops s' = batch_static ops s"
    using add_request_ok [OF inv linv laws ad q slot room' ix'] by metis
  then show "\<exists>s'. add_request ops st q ix s = Inr s' \<and> batch_ok ops row s'
      \<and> req_ids s' = placed_at (req_ids s) i (cr_req_id q)
      \<and> batch_view row s' = (batch_view row s)
           (cr_req_id q \<mapsto> batch_wanted st q (batch_static ops s))
      \<and> batch_static ops s' = batch_static ops s"
    using ok q by (auto simp: batch_ok_def batch_static_def placed_at_def batch_wanted_def)
next
  fix s :: "'bt input_batch" and es :: "nat list"
  assume ok: "batch_ok ops row s" and es: "sorted_wrt (>) es" "set es = none_at (req_ids s)"
  have inv: "batch_inv s" and laws: "vllm_laws ops row" using ok by (simp_all add: batch_ok_def)
  have es': "set es = holes s" using es(2) by (simp add: none_at_def holes_def)
  obtain s' where s': "condense ops es s = Inr s'" "batch_inv s'" "holes s' = {}"
    "batch_view row s' = batch_view row s" "batch_static ops s' = batch_static ops s"
    "lora_inv s' = lora_inv s"
    using condense_ok [OF inv laws es(1) es'] by metis
  have "ids_of (req_ids t) = {r. batch_view row t r \<noteq> None}" if "batch_inv t" for t :: "'bt input_batch"
    using keys_are_ids [OF that] dget_None_iff [of "req_id_to_index t"]
    by (auto simp: ids_of_def batch_view_def)
  then have "ids_of (req_ids s') = ids_of (req_ids s)" using s' inv by simp
  then show "\<exists>s'. condense ops es s = Inr s' \<and> batch_ok ops row s' \<and> none_at (req_ids s') = {}
      \<and> ids_of (req_ids s') = ids_of (req_ids s) \<and> batch_view row s' = batch_view row s
      \<and> batch_static ops s' = batch_static ops s"
    using s' ok by (auto simp: batch_ok_def batch_static_def none_at_def holes_def)
next
  fix s :: "'bt input_batch"
  assume "batch_ok ops row s"
  then show "length (req_ids s) \<le> fst (batch_static ops s)"
    using batch_invD(3) [of s] by (simp add: batch_ok_def batch_static_def)
qed

end
