(* ===== verification/RunnerState.thy ===== *)
theory RunnerState
  imports BatchLaws
begin

text \<open>
  The cached state of the model runner and its update at the start of a step: method
  \<open>_update_states\<close> of \<open>vllm_tt/model_runner.py\<close>, which turns the scheduler's output into the
  requests of the persistent batch.

  The cached requests are Python objects: their output lists live in the store, so that the
  batch and the cache share them. The scheduler's output arrives from another process, so its
  lists are plain values.
\<close>

section \<open>The scheduler's output\<close>

record new_request_data =
  nr_req_id :: req_id
  nr_prompt_token_ids :: "int list option"
  nr_sampling_params :: "sampling_params option"
  nr_block_ids :: "int list list"
  nr_num_computed_tokens :: nat
  nr_lora_request :: "lora_request option"

record cached_request_data =
  cd_req_ids :: "req_id list"
  cd_resumed_req_ids :: "req_id set"
  cd_new_block_ids :: "int list list option list"
  cd_num_computed_tokens :: "nat list"

record scheduler_output =
  so_new_reqs :: "new_request_data list"
  so_cached_reqs :: cached_request_data
  so_num_scheduled_tokens :: "(req_id, nat) dict"
  so_finished_req_ids :: "req_id list"
  so_free_encoder_mm_hashes :: "string list"

section \<open>The runner's state\<close>

record 'bt runner_state =
  rs_requests :: "(req_id, cached_request) dict"
  rs_num_prompt_logprobs :: "(req_id, int) dict"
  rs_encoder_cache :: "(string, nat) dict"
  rs_batch :: "'bt input_batch"
  rs_store :: store
  rs_next :: addr

text \<open>What is finished leaves the caches.\<close>

definition forget_finished :: "scheduler_output \<Rightarrow> 'bt runner_state \<Rightarrow> 'bt runner_state" where
  "forget_finished so s =
     s\<lparr>rs_requests := fold (\<lambda>r d. dpop d r) (so_finished_req_ids so) (rs_requests s),
       rs_num_prompt_logprobs :=
         fold (\<lambda>r d. dpop d r) (so_finished_req_ids so) (rs_num_prompt_logprobs s),
       rs_encoder_cache :=
         fold (\<lambda>h d. dpop d h) (so_free_encoder_mm_hashes so) (rs_encoder_cache s)\<rparr>"

text \<open>After the finished requests have been removed: the requests of the batch
  that this step does not schedule. The code takes a set difference; the order of the removals
  does not matter because the indices are sorted afterwards.\<close>

definition unscheduled :: "scheduler_output \<Rightarrow> 'bt input_batch \<Rightarrow> req_id list" where
  "unscheduled so b =
     filter (\<lambda>r. r \<notin> set (dkeys (so_num_scheduled_tokens so))) (dkeys (req_id_to_index b))"

text \<open>A new request becomes a cached request with an empty output list of its
  own. A generator is identified by its seed.\<close>

definition cache_new ::
  "'bt runner_state \<Rightarrow> new_request_data \<Rightarrow> 'bt runner_state res" where
  "cache_new s nr =
     (case nr_sampling_params nr of
        None \<Rightarrow> Inl AssertionError
      | Some sp \<Rightarrow>
         (let rid = nr_req_id nr;
              request = \<lparr> cr_req_id = rid, cr_prompt_token_ids = nr_prompt_token_ids nr,
                cr_sampling_params = Some sp, cr_pooling_params = None, cr_pooling_states = None,
                cr_generator = (if sp_type sp = RandomSeed then Some (sp_seed sp) else None),
                cr_block_ids = nr_block_ids nr,
                cr_num_computed_tokens = nr_num_computed_tokens nr,
                cr_output_token_ids = rs_next s, cr_lora_request = nr_lora_request nr \<rparr>
          in Inr (s\<lparr>rs_requests := dset (rs_requests s) rid request,
                    rs_store := (rs_store s)(rs_next s := []), rs_next := Suc (rs_next s),
                    rs_num_prompt_logprobs :=
                      (case sp_prompt_logprobs sp of
                         None \<Rightarrow> rs_num_prompt_logprobs s
                       | Some n \<Rightarrow> dset (rs_num_prompt_logprobs s) rid
                           (if n = -1 then int (vocab_size (rs_batch s)) else n))\<rparr>)))"

text \<open>A running request learns its new position and its new blocks; one that is
  not in the batch is queued for addition.\<close>

definition learned :: "bool \<Rightarrow> nat \<Rightarrow> int list list option \<Rightarrow> cached_request \<Rightarrow> cached_request" where
  "learned resumed computed new_blocks req =
     req\<lparr>cr_num_computed_tokens := computed,
         cr_block_ids := (case new_blocks of
            None \<Rightarrow> cr_block_ids req
          | Some bs \<Rightarrow> if resumed then bs else extend_blocks (cr_block_ids req) bs)\<rparr>"

definition learned_batch ::
  "'bt vllm_ops \<Rightarrow> nat \<Rightarrow> nat \<Rightarrow> int list list option \<Rightarrow> 'bt input_batch \<Rightarrow> 'bt input_batch" where
  "learned_batch ops k computed new_blocks b =
     b\<lparr>num_computed_tokens := (num_computed_tokens b)[k := computed],
       block_table := (case new_blocks of
          None \<Rightarrow> block_table b
        | Some bs \<Rightarrow> vo_append_row ops bs k (block_table b))\<rparr>"

definition update_entry ::
  "'bt vllm_ops \<Rightarrow> bool \<Rightarrow> req_id \<Rightarrow> cached_request \<Rightarrow> nat \<Rightarrow> int list list option
     \<Rightarrow> 'bt runner_state \<times> req_id list \<Rightarrow> ('bt runner_state \<times> req_id list) res" where
  "update_entry ops resumed rid req computed new_blocks acc =
     (let (s, to_add) = acc
      in rbind (rassert (\<not> (resumed \<and> new_blocks = None))) (\<lambda>_.
         let s1 = s\<lparr>rs_requests := dset (rs_requests s) rid (learned resumed computed new_blocks req)\<rparr>
         in case dget (req_id_to_index (rs_batch s)) rid of
              None \<Rightarrow> Inr (s1, to_add @ [rid])
            | Some k \<Rightarrow>
                Inr (s1\<lparr>rs_batch := learned_batch ops k computed new_blocks (rs_batch s)\<rparr>, to_add)))"

definition update_cached ::
  "'bt vllm_ops \<Rightarrow> cached_request_data \<Rightarrow> 'bt runner_state \<times> req_id list \<Rightarrow> nat
     \<Rightarrow> ('bt runner_state \<times> req_id list) res" where
  "update_cached ops cd acc i =
     rbind (lget (cd_req_ids cd) i) (\<lambda>rid.
     rbind (ditem (rs_requests (fst acc)) rid) (\<lambda>req.
     rbind (lget (cd_num_computed_tokens cd) i) (\<lambda>computed.
     rbind (lget (cd_new_block_ids cd) i) (\<lambda>new_blocks.
     update_entry ops (rid \<in> cd_resumed_req_ids cd) rid req computed new_blocks acc))))"

text \<open>The additions at the end are \<open>refill\<close> over the cached requests.\<close>

definition add_cached ::
  "'bt vllm_ops \<Rightarrow> 'bt runner_state \<Rightarrow> req_id \<Rightarrow> nat option \<Rightarrow> 'bt input_batch
     \<Rightarrow> 'bt input_batch res" where
  "add_cached ops s rid idx b =
     rbind (ditem (rs_requests s) rid) (\<lambda>req. add_request ops (rs_store s) req idx b)"

definition update_states ::
  "'bt vllm_ops \<Rightarrow> scheduler_output \<Rightarrow> 'bt runner_state \<Rightarrow> (bool \<times> 'bt runner_state) res" where
  "update_states ops so s =
     rbind (remove_each remove_request False (so_finished_req_ids so) [] (rs_batch s))
       (\<lambda>(removed1, b1).
     let s1 = (forget_finished so s)\<lparr>rs_batch := b1\<rparr>; gone = unscheduled so b1
     in rbind (remove_each remove_request True gone removed1 b1) (\<lambda>(removed2, b2).
     rbind (rfold cache_new (s1\<lparr>rs_batch := b2\<rparr>) (so_new_reqs so)) (\<lambda>s3.
     let cd = so_cached_reqs so
     in rbind (rfold (update_cached ops cd) (s3, map nr_req_id (so_new_reqs so))
                 [0..<length (cd_req_ids cd)]) (\<lambda>(s4, to_add).
     rbind (refill (add_cached ops s4) (condense ops) to_add removed2 (rs_batch s4)) (\<lambda>b5.
     Inr (gone \<noteq> [] \<or> to_add \<noteq> [], s4\<lparr>rs_batch := b5\<rparr>))))))"

section \<open>The stages of the update\<close>

lemma dget_forget: "dget (fold (\<lambda>r d. dpop d r) rs d) r = (if r \<in> set rs then None else dget d r)"
  by (induction rs arbitrary: d) auto

definition new_cached :: "addr \<Rightarrow> new_request_data \<Rightarrow> sampling_params \<Rightarrow> cached_request" where
  "new_cached a nr sp =
     \<lparr> cr_req_id = nr_req_id nr, cr_prompt_token_ids = nr_prompt_token_ids nr,
       cr_sampling_params = Some sp, cr_pooling_params = None, cr_pooling_states = None,
       cr_generator = (if sp_type sp = RandomSeed then Some (sp_seed sp) else None),
       cr_block_ids = nr_block_ids nr, cr_num_computed_tokens = nr_num_computed_tokens nr,
       cr_output_token_ids = a, cr_lora_request = nr_lora_request nr \<rparr>"

lemma cache_new_all:
  assumes "\<forall>nr \<in> set nrs. nr_sampling_params nr \<noteq> None" "distinct (map nr_req_id nrs)"
  shows "\<exists>s'. rfold cache_new s nrs = Inr s' \<and> rs_batch s' = rs_batch s
      \<and> rs_encoder_cache s' = rs_encoder_cache s \<and> rs_next s \<le> rs_next s'
      \<and> (\<forall>a < rs_next s. rs_store s' a = rs_store s a)
      \<and> (\<forall>r. r \<notin> nr_req_id ` set nrs \<longrightarrow> dget (rs_requests s') r = dget (rs_requests s) r)
      \<and> (\<forall>nr \<in> set nrs. \<exists>a sp. a < rs_next s' \<and> rs_store s' a = []
            \<and> nr_sampling_params nr = Some sp
            \<and> dget (rs_requests s') (nr_req_id nr) = Some (new_cached a nr sp))"
  using assms
proof (induction nrs arbitrary: s)
  case (Cons nr nrs)
  obtain sp where sp: "nr_sampling_params nr = Some sp" using Cons.prems(1) by auto
  obtain t where t: "cache_new s nr = Inr t" "rs_batch t = rs_batch s"
    "rs_encoder_cache t = rs_encoder_cache s" "rs_next t = Suc (rs_next s)"
    "rs_store t = (rs_store s)(rs_next s := [])"
    "rs_requests t = dset (rs_requests s) (nr_req_id nr) (new_cached (rs_next s) nr sp)"
    by (simp add: cache_new_def sp new_cached_def Let_def)
  obtain s' where s': "rfold cache_new t nrs = Inr s'" "rs_batch s' = rs_batch t"
    "rs_encoder_cache s' = rs_encoder_cache t" "rs_next t \<le> rs_next s'"
    "\<forall>a < rs_next t. rs_store s' a = rs_store t a"
    "\<forall>r. r \<notin> nr_req_id ` set nrs \<longrightarrow> dget (rs_requests s') r = dget (rs_requests t) r"
    "\<forall>nr \<in> set nrs. \<exists>a sp. a < rs_next s' \<and> rs_store s' a = []
       \<and> nr_sampling_params nr = Some sp
       \<and> dget (rs_requests s') (nr_req_id nr) = Some (new_cached a nr sp)"
    using Cons.IH [of t] Cons.prems by auto
  have own: "dget (rs_requests s') (nr_req_id nr) = Some (new_cached (rs_next s) nr sp)"
    using s'(6) Cons.prems(2) t(6) by auto
  have "rs_next s < rs_next s'" "rs_store s' (rs_next s) = []" using s'(4,5) t(4,5) by auto
  with own sp have "\<exists>a sp. a < rs_next s' \<and> rs_store s' a = [] \<and> nr_sampling_params nr = Some sp
       \<and> dget (rs_requests s') (nr_req_id nr) = Some (new_cached a nr sp)" by blast
  moreover have "\<forall>a < rs_next s. rs_store s' a = rs_store s a" using s'(5) t(4,5) by auto
  moreover have "\<forall>r. r \<notin> nr_req_id ` set (nr # nrs) \<longrightarrow>
      dget (rs_requests s') r = dget (rs_requests s) r"
    using s'(6) t(6) by auto
  ultimately show ?case using s'(1-4,7) t(1-4) by auto
qed auto

definition learned_row :: "nat \<Rightarrow> int list list option \<Rightarrow> int list list row_view \<Rightarrow> int list list row_view" where
  "learned_row computed new_blocks v =
     v\<lparr>rv_num_computed_tokens := computed,
       rv_blocks := (case new_blocks of None \<Rightarrow> rv_blocks v | Some bs \<Rightarrow> extend_blocks (rv_blocks v) bs)\<rparr>"

lemma learned_batch_ok:
  fixes computed :: nat and new_blocks :: "int list list option"
  assumes ok: "batch_ok ops row b" and k: "dget (req_id_to_index b) rid = Some k"
  defines "b' \<equiv> learned_batch ops k computed new_blocks b"
  shows "batch_ok ops row b'" "batch_static ops b' = batch_static ops b"
    "req_ids b' = req_ids b" "req_id_to_index b' = req_id_to_index b"
    "batch_view row b' = (\<lambda>r. if r = rid then map_option (learned_row computed new_blocks)
       (batch_view row b r) else batch_view row b r)"
    "filter_view b' = filter_view b"
proof -
  have inv: "batch_inv b" and linv: "lora_inv b" and laws: "vllm_laws ops row"
    and np: "\<not> is_pooling_model b"
    using ok by (auto simp: batch_ok_def)
  have klen: "k < length (num_computed_tokens b)"
    using batch_invD(1,3,5) [OF inv] k arrays_sizedD(6) by fastforce
  have app: "row j (vo_append_row ops ids i t) = (if j = i then extend_blocks (row j t) ids else row j t)"
    "vo_has_tables ops (vo_append_row ops ids i t) = vo_has_tables ops t" for i j t ids
    using laws unfolding vllm_laws_def by blast+
  have F: "req_ids b' = req_ids b" "req_id_to_index b' = req_id_to_index b"
    by (simp_all add: b'_def learned_batch_def)
  show "req_ids b' = req_ids b" "req_id_to_index b' = req_id_to_index b" by (rule F)+
  show "batch_static ops b' = batch_static ops b"
    by (simp add: batch_static_def b'_def learned_batch_def app split: option.split)
  have live: "live b' = live b" by (simp add: fun_eq_iff live_def F)
  have "arrays_sized b'"
    using batch_invD(1) [OF inv] by (simp add: arrays_sized_def Let_def b'_def learned_batch_def)
  then have inv': "batch_inv b'"
    using inv unfolding batch_inv_def live by (simp add: b'_def learned_batch_def)
  have linv': "lora_inv b'"
    using linv by (simp add: lora_inv_def lora_users_def b'_def learned_batch_def)
  show "batch_ok ops row b'"
    using inv' linv' laws np by (simp add: batch_ok_def b'_def learned_batch_def)
  have other: "j \<noteq> k" if "dget (req_id_to_index b) r = Some j" "r \<noteq> rid" for r j
    using that k batch_invD(5) [OF inv] by (metis option.inject)
  have here: "row_at row b' k = learned_row computed new_blocks (row_at row b k)"
    using klen by (simp add: row_at_def learned_row_def b'_def learned_batch_def app split: option.split)
  have there: "row_at row b' j = row_at row b j" if "j \<noteq> k" for j
    using that by (simp add: row_at_def b'_def learned_batch_def app split: option.split)
  show "batch_view row b' = (\<lambda>r. if r = rid then map_option (learned_row computed new_blocks)
       (batch_view row b r) else batch_view row b r)"
  proof
    fix r
    show "batch_view row b' r = (if r = rid then map_option (learned_row computed new_blocks)
       (batch_view row b r) else batch_view row b r)"
      using k here there other by (cases "dget (req_id_to_index b) r") (auto simp: batch_view_def F)
  qed
  have "filters_at b' = filters_at b"
    by (rule ext) (simp add: filters_at_def b'_def learned_batch_def split: option.split)
  then show "filter_view b' = filter_view b" by (intro ext) (simp only: filter_view_def F)
qed

text \<open>The loop over the cached requests, entry by entry.\<close>

lemma rfold_nth:
  "(\<And>i acc. i < length xs \<Longrightarrow> f acc i = g acc (xs ! i))
     \<Longrightarrow> rfold f s [0..<length xs] = rfold g s xs"
proof (induction xs arbitrary: s rule: rev_induct)
  case (snoc x xs)
  have "rfold f s [0..<length xs] = rfold g s xs"
    by (rule snoc.IH) (simp add: snoc.prems nth_append)
  then show ?case using snoc.prems [of "length xs"] by (simp add: rfold_append)
qed simp

definition cached_entries ::
  "cached_request_data \<Rightarrow> (req_id \<times> nat \<times> int list list option) list" where
  "cached_entries cd = zip (cd_req_ids cd) (zip (cd_num_computed_tokens cd) (cd_new_block_ids cd))"

definition entry_step ::
  "'bt vllm_ops \<Rightarrow> req_id set \<Rightarrow> 'bt runner_state \<times> req_id list
     \<Rightarrow> req_id \<times> nat \<times> int list list option \<Rightarrow> ('bt runner_state \<times> req_id list) res" where
  "entry_step ops resumed acc e =
     (case e of (rid, computed, new_blocks) \<Rightarrow>
       rbind (ditem (rs_requests (fst acc)) rid) (\<lambda>req.
         update_entry ops (rid \<in> resumed) rid req computed new_blocks acc))"

lemma update_cached_entries:
  assumes "length (cd_num_computed_tokens cd) = length (cd_req_ids cd)"
    "length (cd_new_block_ids cd) = length (cd_req_ids cd)"
  shows "rfold (update_cached ops cd) acc [0..<length (cd_req_ids cd)] =
    rfold (entry_step ops (cd_resumed_req_ids cd)) acc (cached_entries cd)"
proof -
  have len: "length (cached_entries cd) = length (cd_req_ids cd)"
    using assms by (simp add: cached_entries_def)
  have "rfold (update_cached ops cd) acc [0..<length (cached_entries cd)] =
    rfold (entry_step ops (cd_resumed_req_ids cd)) acc (cached_entries cd)"
  proof (rule rfold_nth)
    fix i and acc :: "'a runner_state \<times> req_id list"
    assume "i < length (cached_entries cd)"
    then show "update_cached ops cd acc i =
        entry_step ops (cd_resumed_req_ids cd) acc (cached_entries cd ! i)"
      using assms by (simp add: len update_cached_def entry_step_def) (simp add: cached_entries_def)
  qed
  then show ?thesis by (simp add: len)
qed

definition learned_requests ::
  "req_id set \<Rightarrow> (req_id \<times> nat \<times> int list list option) list \<Rightarrow> (req_id \<rightharpoonup> cached_request)
     \<Rightarrow> req_id \<Rightarrow> cached_request option" where
  "learned_requests resumed es d r =
     (case map_of es r of
        None \<Rightarrow> d r | Some (c, nb) \<Rightarrow> map_option (learned (r \<in> resumed) c nb) (d r))"

definition learned_view ::
  "(req_id \<times> nat \<times> int list list option) list \<Rightarrow> (req_id \<rightharpoonup> int list list row_view)
     \<Rightarrow> req_id \<Rightarrow> int list list row_view option" where
  "learned_view es v r =
     (case map_of es r of
        None \<Rightarrow> v r | Some (c, nb) \<Rightarrow> map_option (learned_row c nb) (v r))"

lemma update_entries:
  assumes "batch_ok ops row (rs_batch s)" "distinct (map fst es)"
    and "\<forall>(r, c, nb) \<in> set es. dget (rs_requests s) r \<noteq> None \<and> (r \<in> resumed \<longrightarrow> nb \<noteq> None)"
  shows "\<exists>s'. rfold (entry_step ops resumed) (s, acc) es =
        Inr (s', acc @ filter (\<lambda>r. dget (req_id_to_index (rs_batch s)) r = None) (map fst es))
      \<and> rs_store s' = rs_store s \<and> rs_next s' = rs_next s
      \<and> req_ids (rs_batch s') = req_ids (rs_batch s)
      \<and> batch_ok ops row (rs_batch s') \<and> batch_static ops (rs_batch s') = batch_static ops (rs_batch s)
      \<and> dget (rs_requests s') = learned_requests resumed es (dget (rs_requests s))
      \<and> batch_view row (rs_batch s') = learned_view es (batch_view row (rs_batch s))"
  using assms
proof (induction es arbitrary: s acc)
  case Nil
  then show ?case by (simp add: learned_requests_def learned_view_def fun_eq_iff)
next
  case (Cons e es)
  obtain r c nb where e: "e = (r, c, nb)" by (cases e)
  obtain req where req: "dget (rs_requests s) r = Some req"
    and nb: "r \<in> resumed \<Longrightarrow> nb \<noteq> None" using Cons.prems(3) e by auto
  define s1 where "s1 = s\<lparr>rs_requests := dset (rs_requests s) r (learned (r \<in> resumed) c nb req)\<rparr>"
  define t where "t = (case dget (req_id_to_index (rs_batch s)) r of
      None \<Rightarrow> s1 | Some k \<Rightarrow> s1\<lparr>rs_batch := learned_batch ops k c nb (rs_batch s)\<rparr>)"
  define acc' where "acc' = (if dget (req_id_to_index (rs_batch s)) r = None then acc @ [r] else acc)"
  have step: "entry_step ops resumed (s, acc) e = Inr (t, acc')"
    using req nb by (auto simp: entry_step_def e ditem_def update_entry_def t_def s1_def acc'_def
        split: option.splits)
  have tf: "rs_store t = rs_store s" "rs_next t = rs_next s"
    "rs_requests t = dset (rs_requests s) r (learned (r \<in> resumed) c nb req)"
    by (simp_all add: t_def s1_def split: option.split)
  have tb0: "batch_ok ops row (rs_batch t) \<and> req_ids (rs_batch t) = req_ids (rs_batch s)
      \<and> batch_static ops (rs_batch t) = batch_static ops (rs_batch s)
      \<and> req_id_to_index (rs_batch t) = req_id_to_index (rs_batch s)
      \<and> batch_view row (rs_batch t) = (\<lambda>x. if x = r then map_option (learned_row c nb)
           (batch_view row (rs_batch s) x) else batch_view row (rs_batch s) x)"
  proof (cases "dget (req_id_to_index (rs_batch s)) r")
    case None
    then have "batch_view row (rs_batch s) r = None" by (simp add: batch_view_def)
    with None show ?thesis
      using Cons.prems(1) by (auto simp: t_def s1_def fun_eq_iff)
  next
    case (Some k)
    then have "rs_batch t = learned_batch ops k c nb (rs_batch s)" by (simp add: t_def)
    then show ?thesis
      using learned_batch_ok [OF Cons.prems(1) Some, of c nb] by simp
  qed
  have tb: "batch_ok ops row (rs_batch t)" "req_ids (rs_batch t) = req_ids (rs_batch s)"
    "batch_static ops (rs_batch t) = batch_static ops (rs_batch s)"
    "req_id_to_index (rs_batch t) = req_id_to_index (rs_batch s)"
    "batch_view row (rs_batch t) = (\<lambda>x. if x = r then map_option (learned_row c nb)
       (batch_view row (rs_batch s) x) else batch_view row (rs_batch s) x)"
    using tb0 by blast+
  have new: "distinct (map fst es)" "map_of es r = None"
    using Cons.prems(2) e by (auto simp: map_of_eq_None_iff)
  have "\<forall>(r, c, nb) \<in> set es. dget (rs_requests t) r \<noteq> None \<and> (r \<in> resumed \<longrightarrow> nb \<noteq> None)"
    using Cons.prems(3) by (auto simp: tf(3))
  then obtain s' where s': "rfold (entry_step ops resumed) (t, acc') es =
        Inr (s', acc' @ filter (\<lambda>r. dget (req_id_to_index (rs_batch t)) r = None) (map fst es))"
      "rs_store s' = rs_store t" "rs_next s' = rs_next t"
      "req_ids (rs_batch s') = req_ids (rs_batch t)"
      "batch_ok ops row (rs_batch s')" "batch_static ops (rs_batch s') = batch_static ops (rs_batch t)"
      "dget (rs_requests s') = learned_requests resumed es (dget (rs_requests t))"
      "batch_view row (rs_batch s') = learned_view es (batch_view row (rs_batch t))"
    using Cons.IH [OF tb(1) new(1), of acc'] by blast
  have "learned_requests resumed es (dget (rs_requests t)) =
      learned_requests resumed (e # es) (dget (rs_requests s))"
    using req new(2) by (auto simp: learned_requests_def tf(3) e fun_eq_iff split: option.split)
  moreover have "learned_view es (batch_view row (rs_batch t)) =
      learned_view (e # es) (batch_view row (rs_batch s))"
    using new(2) by (auto simp: learned_view_def tb(5) e fun_eq_iff split: option.split)
  moreover have "acc' @ filter (\<lambda>r. dget (req_id_to_index (rs_batch t)) r = None) (map fst es) =
      acc @ filter (\<lambda>r. dget (req_id_to_index (rs_batch s)) r = None) (map fst (e # es))"
    by (simp add: acc'_def tb(4) e)
  ultimately show ?case using step s' tf(1,2) tb(2,3) by simp
qed

section \<open>The update of the batch\<close>

text \<open>The runner between two steps: a packed batch whose requests are all cached, each cached
  under its own id with an output list of its own.\<close>

definition runner_inv ::
  "'bt vllm_ops \<Rightarrow> (nat \<Rightarrow> 'bt \<Rightarrow> int list list) \<Rightarrow> 'bt runner_state \<Rightarrow> bool" where
  "runner_inv ops row s \<longleftrightarrow>
     batch_ok ops row (rs_batch s) \<and> none_at (req_ids (rs_batch s)) = {}
     \<and> ids_of (req_ids (rs_batch s)) \<subseteq> dom (dget (rs_requests s))
     \<and> (\<forall>r req. dget (rs_requests s) r = Some req
          \<longrightarrow> cr_req_id req = r \<and> cr_output_token_ids req < rs_next s)"

text \<open>The contract of the scheduler: it schedules exactly the new and the cached requests it sends,
  without duplicates and within the size of the batch; cached requests are known and not
  finished; what must be added fits a row.\<close>

definition so_consistent :: "'bt vllm_ops \<Rightarrow> scheduler_output \<Rightarrow> 'bt runner_state \<Rightarrow> bool" where
  "so_consistent ops so s \<longleftrightarrow>
     (let new = map nr_req_id (so_new_reqs so); cd = so_cached_reqs so; old = cd_req_ids cd;
          kept = ids_of (req_ids (rs_batch s)) - set (so_finished_req_ids so);
          static = batch_static ops (rs_batch s)
      in distinct (new @ old) \<and> set (new @ old) = set (dkeys (so_num_scheduled_tokens so))
       \<and> length (new @ old) \<le> max_num_reqs (rs_batch s)
       \<and> length (cd_num_computed_tokens cd) = length old \<and> length (cd_new_block_ids cd) = length old
       \<and> set new \<inter> kept = {} \<and> set old \<inter> set (so_finished_req_ids so) = {}
       \<and> set old \<subseteq> dom (dget (rs_requests s))
       \<and> (\<forall>(r, c, nb) \<in> set (cached_entries cd). r \<in> cd_resumed_req_ids cd \<longrightarrow> nb \<noteq> None)
       \<and> (\<forall>nr \<in> set (so_new_reqs so). \<exists>sp. nr_sampling_params nr = Some sp
            \<and> batch_fits (\<lambda>_. []) (new_cached 0 nr sp) static)
       \<and> (\<forall>r \<in> set old - kept. \<forall>req. dget (rs_requests s) r = Some req
            \<longrightarrow> batch_fits (rs_store s) req static))"

lemma refill_add_cached:
  assumes "\<forall>r \<in> set rids. dget (rs_requests s) r = Some (f r)"
  shows "refill (add_cached ops s) pk rids removed b =
    refill (add_request ops (rs_store s)) pk (map f rids) removed b"
proof -
  have "add_each (add_cached ops s) rids hs c = add_each (add_request ops (rs_store s)) (map f rids) hs c"
    for hs c
    using assms
  proof (induction rids arbitrary: hs c)
    case (Cons r rids)
    then have "add_cached ops s r idx = add_request ops (rs_store s) (f r) idx" for idx
      by (simp add: add_cached_def ditem_def fun_eq_iff)
    moreover have "add_each (add_cached ops s) rids (butlast hs) =
        add_each (add_request ops (rs_store s)) (map f rids) (butlast hs)"
      using Cons by (simp add: fun_eq_iff)
    ultimately show ?case by simp
  qed simp
  then show ?thesis by (simp add: refill_def)
qed

lemma batch_fits_cong:
  assumes "st (cr_output_token_ids q) = st' (cr_output_token_ids q')"
    "cr_prompt_token_ids q = cr_prompt_token_ids q'" "cr_sampling_params q = cr_sampling_params q'"
    "cr_lora_request q = cr_lora_request q'"
  shows "batch_fits st q = batch_fits st' q'"
  using assms by (auto simp: batch_fits_def fun_eq_iff split: option.split)

lemma find_key:
  assumes "\<forall>r \<in> set rids. cr_req_id (f r) = r"
  shows "find (\<lambda>q. cr_req_id q = r) (map f rids) = (if r \<in> set rids then Some (f r) else None)"
  using assms by (induction rids) auto

lemma ids_of_keys: "batch_inv b \<Longrightarrow> ids_of (req_ids b) = set (dkeys (req_id_to_index b))"
  using keys_are_ids by (auto simp: ids_of_def)

lemma update_states_ok:
  assumes inv: "runner_inv ops row s" and so: "so_consistent ops so s"
  defines "kept \<equiv> ids_of (req_ids (rs_batch s)) - set (so_finished_req_ids so)"
  shows "\<exists>changed s'. update_states ops so s = Inr (changed, s') \<and> runner_inv ops row s'
      \<and> ids_of (req_ids (rs_batch s')) = set (dkeys (so_num_scheduled_tokens so))
      \<and> batch_static ops (rs_batch s') = batch_static ops (rs_batch s)
      \<and> (\<forall>r \<in> set (dkeys (so_num_scheduled_tokens so)). batch_view row (rs_batch s') r =
           (if r \<in> kept
            then learned_view (cached_entries (so_cached_reqs so)) (batch_view row (rs_batch s)) r
            else Some (batch_wanted (rs_store s') (the (dget (rs_requests s') r))
                        (batch_static ops (rs_batch s)))))"
proof -
  define b where "b = rs_batch s"
  define fin where "fin = so_finished_req_ids so"
  define S where "S = set (dkeys (so_num_scheduled_tokens so))"
  define new where "new = map nr_req_id (so_new_reqs so)"
  define cd where "cd = so_cached_reqs so"
  define old where "old = cd_req_ids cd"
  define es where "es = cached_entries cd"
  have ok: "batch_ok ops row b" and full: "none_at (req_ids b) = {}"
    and dom: "ids_of (req_ids b) \<subseteq> dom (dget (rs_requests s))"
    and keys: "\<And>r req. dget (rs_requests s) r = Some req
        \<Longrightarrow> cr_req_id req = r \<and> cr_output_token_ids req < rs_next s"
    using inv by (auto simp: runner_inv_def b_def)
  have C: "distinct (new @ old)" "set (new @ old) = S" "length (new @ old) \<le> max_num_reqs b"
    "length (cd_num_computed_tokens cd) = length (cd_req_ids cd)"
    "length (cd_new_block_ids cd) = length (cd_req_ids cd)"
    "set new \<inter> kept = {}" "set old \<inter> set fin = {}" "set old \<subseteq> dom (dget (rs_requests s))"
    "\<forall>(r, c, nb) \<in> set es. r \<in> cd_resumed_req_ids cd \<longrightarrow> nb \<noteq> None"
    "\<forall>nr \<in> set (so_new_reqs so). \<exists>sp. nr_sampling_params nr = Some sp
            \<and> batch_fits (\<lambda>_. []) (new_cached 0 nr sp) (batch_static ops b)"
    "\<forall>r \<in> set old - kept. \<forall>req. dget (rs_requests s) r = Some req
            \<longrightarrow> batch_fits (rs_store s) req (batch_static ops b)"
    using so unfolding so_consistent_def Let_def new_def cd_def old_def es_def kept_def S_def b_def fin_def
    by blast+
  obtain rem1 b1 where r1: "remove_each remove_request False fin [] b = Inr (rem1, b1)"
    "batch_ok ops row b1" "set rem1 = none_at (req_ids b1)" "distinct rem1"
    "ids_of (req_ids b1) = ids_of (req_ids b) - set fin"
    "batch_view row b1 = (\<lambda>r. if r \<in> set fin then None else batch_view row b r)"
    "batch_static ops b1 = batch_static ops b"
    using ib.remove_each_ok [of ops row b "[]" False fin] ok full by auto
  define gone where "gone = unscheduled so b1"
  have inv1: "batch_inv b1" using r1(2) by (simp add: batch_ok_def)
  have kept1: "ids_of (req_ids b1) = kept" using r1(5) by (simp add: kept_def b_def fin_def)
  have gone: "set gone = kept - S" "distinct gone"
    using ids_of_keys [OF inv1] batch_invD(4) [OF inv1] kept1
    by (auto simp: gone_def unscheduled_def S_def)
  obtain rem2 b2 where r2: "remove_each remove_request True gone rem1 b1 = Inr (rem2, b2)"
    "batch_ok ops row b2" "set rem2 = none_at (req_ids b2)" "distinct rem2"
    "ids_of (req_ids b2) = kept - set gone"
    "batch_view row b2 = (\<lambda>r. if r \<in> set gone then None else batch_view row b1 r)"
    "batch_static ops b2 = batch_static ops b1"
    using ib.remove_each_ok [OF r1(2-4), of True gone] gone kept1 by auto
  have ids2: "ids_of (req_ids b2) = kept \<inter> S" using r2(5) gone(1) by auto
  define s2 where "s2 = (forget_finished so s)\<lparr>rs_batch := b2\<rparr>"
  have s2f: "rs_batch s2 = b2" "rs_store s2 = rs_store s" "rs_next s2 = rs_next s"
    "dget (rs_requests s2) r = (if r \<in> set fin then None else dget (rs_requests s) r)" for r
    by (simp_all add: s2_def forget_finished_def dget_forget fin_def)
  have nd: "distinct (map nr_req_id (so_new_reqs so))" using C(1) by (simp add: new_def)
  have nsp: "\<forall>nr \<in> set (so_new_reqs so). nr_sampling_params nr \<noteq> None" using C(10) by force
  obtain s3 where r3: "rfold cache_new s2 (so_new_reqs so) = Inr s3" "rs_batch s3 = b2"
    "rs_next s \<le> rs_next s3" "\<forall>a < rs_next s. rs_store s3 a = rs_store s a"
    "\<forall>r. r \<notin> set new \<longrightarrow> dget (rs_requests s3) r = dget (rs_requests s2) r"
    "\<forall>nr \<in> set (so_new_reqs so). \<exists>a sp. a < rs_next s3 \<and> rs_store s3 a = []
       \<and> nr_sampling_params nr = Some sp
       \<and> dget (rs_requests s3) (nr_req_id nr) = Some (new_cached a nr sp)"
    using cache_new_all [OF nsp nd, of s2] by (auto simp: s2f(1-3) new_def)
  have mes: "map fst es = old"
    using C(4,5) by (simp add: es_def cached_entries_def old_def)
  have newold: "set new \<inter> set old = {}" "distinct new" "distinct old" using C(1) by auto
  have known: "dget (rs_requests s3) r \<noteq> None" if "r \<in> set old" for r
  proof -
    have "r \<notin> set new" "r \<notin> set fin" using that newold(1) C(7) by auto
    then have "dget (rs_requests s3) r = dget (rs_requests s) r" using r3(5) s2f(4) by simp
    then show ?thesis using that C(8) by auto
  qed
  have upd: "\<forall>(r, c, nb) \<in> set es. dget (rs_requests s3) r \<noteq> None
      \<and> (r \<in> cd_resumed_req_ids cd \<longrightarrow> nb \<noteq> None)"
    using C(9) known mes by force
  define to_add where "to_add = new @ filter (\<lambda>r. dget (req_id_to_index b2) r = None) old"
  obtain s4 where r4: "rfold (entry_step ops (cd_resumed_req_ids cd)) (s3, new) es = Inr (s4, to_add)"
    "rs_store s4 = rs_store s3" "rs_next s4 = rs_next s3" "req_ids (rs_batch s4) = req_ids b2"
    "batch_ok ops row (rs_batch s4)" "batch_static ops (rs_batch s4) = batch_static ops b2"
    "dget (rs_requests s4) = learned_requests (cd_resumed_req_ids cd) es (dget (rs_requests s3))"
    "batch_view row (rs_batch s4) = learned_view es (batch_view row b2)"
    using update_entries [of ops row s3 es "cd_resumed_req_ids cd" new] upd r2(2) newold(3)
    by (auto simp: r3(2) mes to_add_def)
  have inv2: "batch_inv b2" using r2(2) by (simp add: batch_ok_def)
  have inb2: "dget (req_id_to_index b2) r = None \<longleftrightarrow> r \<notin> kept \<inter> S" for r
    using ids_of_keys [OF inv2] ids2 dget_None_iff [of "req_id_to_index b2" r] by simp
  have to_add: "set to_add = S - kept" "distinct to_add"
    using C(1,2,6) by (auto simp: to_add_def inb2)
  define f where "f r = the (dget (rs_requests s4) r)" for r
  have mo: "map_of es r = None \<longleftrightarrow> r \<notin> set old" for r
    using mes by (simp add: map_of_eq_None_iff flip: set_map)
  have fnew: "\<exists>a nr sp. dget (rs_requests s4) r = Some (new_cached a nr sp) \<and> a < rs_next s4
      \<and> rs_store s4 a = [] \<and> nr_req_id nr = r \<and> batch_fits (\<lambda>_. []) (new_cached 0 nr sp) (batch_static ops b)"
    if rn: "r \<in> set new" for r
  proof -
    obtain nr where nr: "nr \<in> set (so_new_reqs so)" "nr_req_id nr = r"
      using rn by (auto simp: new_def)
    obtain a sp where "a < rs_next s3" "rs_store s3 a = []" "nr_sampling_params nr = Some sp"
       "dget (rs_requests s3) r = Some (new_cached a nr sp)" using r3(6) nr by blast
    moreover have "map_of es r = None" using mo rn newold(1) by auto
    ultimately show ?thesis using nr C(10) r4(2,3,7)
      by (metis (no_types, lifting) learned_requests_def option.inject option.simps(4))
  qed
  have fold: "\<exists>req c nb. dget (rs_requests s) r = Some req
      \<and> dget (rs_requests s4) r = Some (learned (r \<in> cd_resumed_req_ids cd) c nb req)"
    if ro: "r \<in> set old" for r
  proof -
    have "r \<notin> set new" "r \<notin> set fin" using ro newold(1) C(7) by auto
    moreover obtain req where req: "dget (rs_requests s) r = Some req" using ro C(8) by auto
    ultimately have "dget (rs_requests s3) r = Some req" using r3(5) s2f(4) by simp
    moreover obtain c nb where "map_of es r = Some (c, nb)" using ro mo [of r] by fastforce
    ultimately have "dget (rs_requests s4) r = Some (learned (r \<in> cd_resumed_req_ids cd) c nb req)"
      by (simp add: r4(7) learned_requests_def)
    then show ?thesis using req by blast
  qed
  have keys4: "cr_req_id req = r \<and> cr_output_token_ids req < rs_next s4"
    if rq: "dget (rs_requests s4) r = Some req" for r req
  proof (cases "r \<in> set new")
    case True
    then show ?thesis using fnew rq by (fastforce simp: new_cached_def)
  next
    case nnew: False
    show ?thesis
    proof (cases "r \<in> set old")
      case True
      then obtain q c nb where "dget (rs_requests s) r = Some q"
        "req = learned (r \<in> cd_resumed_req_ids cd) c nb q" using fold [OF True] rq by auto
      then show ?thesis using keys [of r q] r3(3) r4(3) by (simp add: learned_def)
    next
      case False
      then have "dget (rs_requests s3) r = Some req"
        using rq mo [of r] by (simp add: r4(7) learned_requests_def)
      then have "dget (rs_requests s) r = Some req" using r3(5) nnew s2f(4) by (simp split: if_splits)
      then show ?thesis using keys [of r req] r3(3) r4(3) by simp
    qed
  qed
  have have4: "dget (rs_requests s4) r = Some (f r)" if "r \<in> S" for r
  proof -
    have "r \<in> set new \<or> r \<in> set old" using that C(2) by auto
    then show ?thesis using fnew [of r] fold [of r] by (auto simp: f_def)
  qed
  have static4: "batch_static ops (rs_batch s4) = batch_static ops b" using r4(6) r2(7) r1(7) by simp
  have fits: "batch_fits (rs_store s4) (f r) (batch_static ops b)" if r: "r \<in> set to_add" for r
  proof (cases "r \<in> set new")
    case True
    then obtain a nr sp where "dget (rs_requests s4) r = Some (new_cached a nr sp)"
      "rs_store s4 a = []" "batch_fits (\<lambda>_. []) (new_cached 0 nr sp) (batch_static ops b)"
      using fnew by blast
    moreover have "batch_fits (rs_store s4) (new_cached a nr sp) = batch_fits (\<lambda>_. []) (new_cached 0 nr sp)"
      using \<open>rs_store s4 a = []\<close> by (intro batch_fits_cong) (simp_all add: new_cached_def)
    ultimately show ?thesis by (simp add: f_def)
  next
    case False
    then have "r \<in> set old - kept" using r to_add(1) C(2) by auto
    moreover from this obtain req c nb where req: "dget (rs_requests s) r = Some req"
      "dget (rs_requests s4) r = Some (learned (r \<in> cd_resumed_req_ids cd) c nb req)" using fold by blast
    ultimately have "batch_fits (rs_store s) req (batch_static ops b)" using C(11) by blast
    moreover have "rs_store s4 (cr_output_token_ids req) = rs_store s (cr_output_token_ids req)"
      using r3(4) r4(2) keys [OF req(1)] by simp
    then have "batch_fits (rs_store s4) (learned (r \<in> cd_resumed_req_ids cd) c nb req)
        = batch_fits (rs_store s) req"
      by (intro batch_fits_cong) (simp_all add: learned_def)
    ultimately show ?thesis using req(2) by (simp add: f_def)
  qed
  have cidf: "cr_req_id (f r) = r" if "r \<in> set to_add" for r
    using that keys4 have4 to_add(1) by blast
  have crid: "map cr_req_id (map f to_add) = to_add" using cidf by (simp add: map_idI)
  have ids4: "ids_of (req_ids (rs_batch s4)) = kept \<inter> S" using ids2 r4(4) by simp
  have "card (kept \<inter> S) + card (S - kept) = card S"
    using card_Int_Diff [of S kept] by (simp add: S_def Int_commute)
  moreover have "card S = length (new @ old)" using C(1,2) distinct_card by metis
  moreover have "card (S - kept) = length to_add" using to_add distinct_card by metis
  ultimately have cap: "card (kept \<inter> S) + length to_add \<le> max_num_reqs b" using C(3) by simp
  obtain b5 where r5: "refill (add_request ops (rs_store s4)) (condense ops) (map f to_add) rem2 (rs_batch s4) = Inr b5"
    "batch_ok ops row b5" "none_at (req_ids b5) = {}"
    "ids_of (req_ids b5) = kept \<inter> S \<union> set to_add" "batch_static ops b5 = batch_static ops b"
    "batch_view row b5 = (\<lambda>r. case find (\<lambda>q. cr_req_id q = r) (map f to_add) of
        Some q \<Rightarrow> Some (batch_wanted (rs_store s4) q (batch_static ops b))
      | None \<Rightarrow> batch_view row (rs_batch s4) r)"
    using ib.refill_ok [of ops row "rs_batch s4" rem2 "map f to_add" "rs_store s4"] r4(4,5) r2(3,4)
      to_add ids4 fits cap
    unfolding static4 crid by (auto simp: batch_static_def [of ops b])
  define s' where "s' = s4\<lparr>rs_batch := b5\<rparr>"
  have "refill (add_cached ops s4) (condense ops) to_add rem2 (rs_batch s4) = Inr b5"
    using refill_add_cached [of to_add s4 f] have4 to_add(1) r5(1) by auto
  then have run: "update_states ops so s = Inr (gone \<noteq> [] \<or> to_add \<noteq> [], s')"
    using r1(1) r2(1) r3(1) r4(1) update_cached_entries [OF C(4,5), of ops "(s3, new)"]
    by (simp add: update_states_def fin_def gone_def s2_def cd_def es_def new_def s'_def b_def Let_def)
  have ids5: "ids_of (req_ids b5) = S" using r5(4) to_add(1) by auto
  have "runner_inv ops row s'"
    unfolding runner_inv_def
    using r5(2,3) ids5 have4 keys4 by (auto simp: s'_def)
  moreover have "batch_view row b5 r = (if r \<in> kept then learned_view es (batch_view row b) r
      else Some (batch_wanted (rs_store s4) (f r) (batch_static ops b)))" if "r \<in> S" for r
  proof (cases "r \<in> kept")
    case True
    then have "r \<notin> set to_add" "r \<notin> set gone" "r \<notin> set fin"
      using to_add(1) gone(1) that by (auto simp: kept_def fin_def)
    then have "batch_view row b5 r = learned_view es (batch_view row b2) r"
      "batch_view row b2 r = batch_view row b r"
      using r5(6) find_key [of to_add f r] cidf r4(8) r2(6) r1(6) by auto
    then show ?thesis using True by (simp add: learned_view_def split: option.split)
  next
    case False
    then show ?thesis using r5(6) find_key [of to_add f r] cidf to_add(1) that by auto
  qed
  ultimately have "runner_inv ops row s' \<and> ids_of (req_ids (rs_batch s')) = S
      \<and> batch_static ops (rs_batch s') = batch_static ops b
      \<and> (\<forall>r \<in> S. batch_view row (rs_batch s') r =
           (if r \<in> kept then learned_view es (batch_view row b) r
            else Some (batch_wanted (rs_store s') (the (dget (rs_requests s') r)) (batch_static ops b))))"
    using ids5 r5(5) by (simp add: s'_def f_def)
  then show ?thesis using run unfolding S_def b_def es_def cd_def by blast
qed

section \<open>Properties\<close>

text \<open>C3. \<open>_update_states\<close> never fails on a consistent scheduler output, and afterwards the
  persistent batch is packed and holds exactly the scheduled requests: as many rows as requests,
  no empty row, the id table and the rows in agreement.\<close>

theorem batch_is_what_was_scheduled:
  assumes "runner_inv ops row s" and "so_consistent ops so s"
  shows "\<exists>changed s'. update_states ops so s = Inr (changed, s') \<and> runner_inv ops row s'
      \<and> ids_of (req_ids (rs_batch s')) = set (dkeys (so_num_scheduled_tokens so))
      \<and> length (req_ids (rs_batch s')) = num_reqs (rs_batch s')"
proof -
  obtain changed s' where s': "update_states ops so s = Inr (changed, s')" "runner_inv ops row s'"
    "ids_of (req_ids (rs_batch s')) = set (dkeys (so_num_scheduled_tokens so))"
    using update_states_ok [OF assms] by blast
  have "batch_inv (rs_batch s')" "holes (rs_batch s') = {}"
    using s'(2) by (auto simp: runner_inv_def batch_ok_def none_at_def holes_def)
  then show ?thesis using s' slots_split [of "rs_batch s'"] by auto
qed


text \<open>A concrete runner: an empty batch of two rows, which receives one new request.\<close>

definition ex_state :: "(nat \<Rightarrow> int list list) runner_state" where
  "ex_state = \<lparr> rs_requests = [], rs_num_prompt_logprobs = [], rs_encoder_cache = [],
     rs_batch = new_input_batch False 2 4 8 (\<lambda>_. []) (\<lambda>_. 0) (\<lambda>_. 0), rs_store = (\<lambda>_. []), rs_next = 0 \<rparr>"

definition ex_output :: scheduler_output where
  "ex_output = \<lparr> so_new_reqs =
       [\<lparr> nr_req_id = ''a'', nr_prompt_token_ids = Some [1, 2, 3], nr_sampling_params = Some ex_sampling,
          nr_block_ids = [[7]], nr_num_computed_tokens = 0, nr_lora_request = None \<rparr>],
     so_cached_reqs = \<lparr> cd_req_ids = [], cd_resumed_req_ids = {}, cd_new_block_ids = [],
       cd_num_computed_tokens = [] \<rparr>,
     so_num_scheduled_tokens = [(''a'', 3)], so_finished_req_ids = [''gone''],
     so_free_encoder_mm_hashes = [] \<rparr>"

lemma ex_state_inv: "runner_inv ex_ops ex_row ex_state"
proof -
  have "lora_inv (rs_batch ex_state)"
    by (simp add: ex_state_def lora_inv_def lora_users_def new_input_batch_def Let_def)
  moreover have "batch_inv (rs_batch ex_state)" by (simp add: ex_state_def batch_inv_new)
  ultimately show ?thesis using ex_laws
    by (simp add: runner_inv_def batch_ok_def ex_state_def none_at_def ids_of_def
        new_input_batch_def Let_def)
qed

lemma ex_consistent: "so_consistent ex_ops ex_output ex_state"
  by (simp add: so_consistent_def ex_output_def ex_state_def cached_entries_def ids_of_def
      batch_fits_def batch_static_def new_cached_def new_input_batch_def ex_sampling_def Let_def)

theorem batch_is_what_was_scheduled_witness:
  "\<exists>changed s'. update_states ex_ops ex_output ex_state = Inr (changed, s')
      \<and> ids_of (req_ids (rs_batch s')) = {''a''}"
  using batch_is_what_was_scheduled [OF ex_state_inv ex_consistent] by (auto simp: ex_output_def)


end
