(* ===== verification/Scheduler.thy ===== *)
theory Scheduler
  imports InputBatch
begin

text \<open>
  The scheduler of the plugin: class \<open>AscendScheduler\<close> of
  \<open>vllm_tt/scheduler/ascend_scheduler.py\<close>. A step first admits waiting requests (prefill); only if
  none is in flight it continues running ones (decode), preempting from the end of the running
  list when the cache is full.

  Requests are Python objects shared by the queues: the queues are lists of ids and \<open>ss_obj\<close> maps
  an id to its object. Token counts are integers, as in the code. What comes from vLLM (the cache
  manager, the KV connector, the compiled grammars, the base class) acts on an abstract world \<open>'w\<close>
  through the operations of the record \<open>sched_ext\<close>. Not modelled: logging, event recording, the
  publication of cache events, and the wrapping of the result in vLLM's output classes.
\<close>

section \<open>Requests and state\<close>

datatype request_status =
    Waiting | WaitingForFsm | WaitingForRemoteKvs | Running | Preempted
  | FinishedIgnored | FinishedStopped | FinishedAborted

record sched_request =
  sr_status :: request_status
  sr_num_tokens :: int
  sr_num_tokens_with_spec :: int
  sr_num_computed_tokens :: int
  sr_num_cached_tokens :: int
  sr_spec_token_ids :: "int list"
  sr_lora :: "lora_request option"
  sr_use_structured :: bool

record kv_block =
  kb_id :: nat
  kb_ref_cnt :: nat

type_synonym kv_blocks = "kv_block list list"

record sched_config =
  sc_max_num_scheduled_tokens :: int
  sc_max_num_running_reqs :: nat
  sc_max_model_len :: int
  sc_num_blocks :: int
  sc_block_size :: int
  sc_watermark :: rat
  sc_num_lookahead_tokens :: int
  sc_max_loras :: "nat option"

text \<open>The operations of vLLM. A missing connector matches no external tokens and ignores the
  allocation. \<open>se_allocate\<close> gets the number of tokens, the number of locally cached tokens, the
  cached blocks, the lookahead and whether caching is delayed.\<close>

record 'w sched_ext =
  se_remote_ready :: "req_id \<Rightarrow> sched_request \<Rightarrow> 'w \<Rightarrow> bool \<times> sched_request \<times> 'w"
  se_grammar_ready :: "req_id \<Rightarrow> 'w \<Rightarrow> bool"
  se_computed_blocks :: "req_id \<Rightarrow> sched_request \<Rightarrow> 'w \<Rightarrow> kv_blocks \<times> int \<times> 'w"
  se_empty_blocks :: kv_blocks
  se_matched_tokens :: "req_id \<Rightarrow> sched_request \<Rightarrow> int \<Rightarrow> 'w \<Rightarrow> int \<times> bool \<times> 'w"
  se_allocate :: "req_id \<Rightarrow> sched_request \<Rightarrow> int \<Rightarrow> int \<Rightarrow> kv_blocks \<Rightarrow> int \<Rightarrow> bool \<Rightarrow> 'w
                    \<Rightarrow> kv_blocks option \<times> 'w"
  se_after_alloc :: "req_id \<Rightarrow> kv_blocks \<Rightarrow> int \<Rightarrow> 'w \<Rightarrow> 'w"
  se_free :: "req_id \<Rightarrow> 'w \<Rightarrow> 'w"
  se_num_req_blocks :: "req_id \<Rightarrow> 'w \<Rightarrow> int"
  se_num_free_blocks :: "'w \<Rightarrow> int"
  se_join :: "kv_blocks \<Rightarrow> kv_blocks \<Rightarrow> kv_blocks"

record 'w sched_state =
  ss_waiting :: "req_id list"
  ss_running :: "req_id list"
  ss_obj :: "req_id \<Rightarrow> sched_request"
  ss_scheduled_req_ids :: "req_id set"
  ss_finished_req_ids :: "req_id set"
  ss_forced_mode :: "nat option"
  ss_world :: 'w

text \<open>The local variables of \<open>schedule\<close>.\<close>

record step =
  st_new :: "req_id list"
  st_resumed :: "req_id list"
  st_running :: "req_id list"
  st_preempted :: "req_id list"
  st_structured :: "(req_id, nat) dict"
  st_new_blocks :: "(req_id, kv_blocks) dict"
  st_num_scheduled :: "(req_id, int) dict"
  st_budget :: int
  st_spec :: "(req_id, int list) dict"
  st_loras :: "int set"
  st_skipped :: "req_id list"
  st_req_index :: nat

definition set_forced_mode :: "nat option \<Rightarrow> 'w sched_state \<Rightarrow> 'w sched_state res" where
  "set_forced_mode mode s =
     rbind (rassert (mode \<in> {None, Some 0, Some 1})) (\<lambda>_. Inr (s\<lparr>ss_forced_mode := mode\<rparr>))"

definition set_obj ::
  "req_id \<Rightarrow> (sched_request \<Rightarrow> sched_request) \<Rightarrow> 'w sched_state \<Rightarrow> 'w sched_state" where
  "set_obj rid f s = s\<lparr>ss_obj := (ss_obj s)(rid := f (ss_obj s rid))\<rparr>"

section \<open>Checks\<close>

definition cdiv :: "int \<Rightarrow> int \<Rightarrow> int" where
  "cdiv a b = - (- a div b)"

definition check_watermark_for_prefill ::
  "sched_config \<Rightarrow> 'w sched_ext \<Rightarrow> req_id \<Rightarrow> int \<Rightarrow> kv_block list option \<Rightarrow> 'w sched_state \<Rightarrow> bool" where
  "check_watermark_for_prefill cfg ext rid num_new_tokens computed s =
     (let blocks = (case computed of None \<Rightarrow> [] | Some bs \<Rightarrow> bs);
          watermark_blocks = of_int (sc_num_blocks cfg) * sc_watermark cfg;
          num_computed = sr_num_computed_tokens (ss_obj s rid) + int (length blocks) * sc_block_size cfg;
          num_required = cdiv (num_new_tokens + num_computed) (sc_block_size cfg);
          num_new_blocks = num_required - se_num_req_blocks ext rid (ss_world s) - int (length blocks);
          evictable = int (length (filter (\<lambda>b. kb_ref_cnt b = 0) blocks))
      in watermark_blocks \<le> of_int (se_num_free_blocks ext (ss_world s) - evictable - num_new_blocks))"

definition get_prompt_limit :: "sched_config \<Rightarrow> sched_request \<Rightarrow> int res" where
  "get_prompt_limit cfg request =
     (let prompt_limit = min (sc_max_model_len cfg) (sc_max_num_scheduled_tokens cfg)
      in case sr_lora request of
           Some l \<Rightarrow>
             if lora_long_max_len l \<noteq> 0
             then rbind (rassert (prompt_limit \<le> lora_long_max_len l)) (\<lambda>_. Inr (lora_long_max_len l))
             else Inr prompt_limit
         | None \<Rightarrow> Inr prompt_limit)"

text \<open>The \<open>max_loras\<close> constraint: no room for another adapter and this one is not loaded.\<close>

definition exceeds_loras :: "sched_config \<Rightarrow> int set \<Rightarrow> sched_request \<Rightarrow> bool" where
  "exceeds_loras cfg loras request =
     (case (sc_max_loras cfg, sr_lora request) of
        (Some m, Some l) \<Rightarrow> card loras = m \<and> lora_int_id l \<notin> loras
      | _ \<Rightarrow> False)"

definition add_lora :: "sched_config \<Rightarrow> sched_request \<Rightarrow> int set \<Rightarrow> int set" where
  "add_lora cfg request loras =
     (case (sc_max_loras cfg, sr_lora request) of
        (Some _, Some l) \<Rightarrow> insert (lora_int_id l) loras
      | _ \<Rightarrow> loras)"

section \<open>Prefill\<close>

text \<open>What an iteration of the prefill loop does with the request at the head of the queue: it stops
  and leaves it there, skips it (it goes back to the queue after the loop), drops it, or runs it.\<close>

datatype verdict = Stop | Skip | Drop | Run

text \<open>Requests that wait for remote cache blocks or for a grammar.\<close>

definition ready_gate ::
  "'w sched_ext \<Rightarrow> req_id \<Rightarrow> 'w sched_state \<Rightarrow> bool \<times> 'w sched_state" where
  "ready_gate ext rid s =
     (let (ready1, s1) =
        (if sr_status (ss_obj s rid) = WaitingForRemoteKvs
         then (case se_remote_ready ext rid (ss_obj s rid) (ss_world s) of (ready, req', w') \<Rightarrow>
                let s' = (set_obj rid (\<lambda>_. req') s)\<lparr>ss_world := w'\<rparr>
                in if ready then (True, set_obj rid (\<lambda>q. q\<lparr>sr_status := Waiting\<rparr>) s') else (False, s'))
         else (True, s))
      in if \<not> ready1 then (False, s1)
         else if sr_status (ss_obj s1 rid) = WaitingForFsm
         then (if se_grammar_ready ext rid (ss_world s1)
               then (True, set_obj rid (\<lambda>q. q\<lparr>sr_status := Waiting\<rparr>) s1) else (False, s1))
         else (True, s1))"

text \<open>The tokens whose cache is already there: the cached blocks, the local and
  external counts, whether the external ones load asynchronously, and their total.\<close>

definition cached_prefix ::
  "'w sched_ext \<Rightarrow> req_id \<Rightarrow> 'w sched_state
     \<Rightarrow> kv_blocks \<times> int \<times> int \<times> bool \<times> int \<times> 'w sched_state" where
  "cached_prefix ext rid s =
     (let request = ss_obj s rid
      in if sr_num_computed_tokens request = 0
         then (case se_computed_blocks ext rid request (ss_world s) of (blocks, local, w1) \<Rightarrow>
               case se_matched_tokens ext rid request local w1 of (external, load_async, w2) \<Rightarrow>
                 (blocks, local, external, load_async, local + external, s\<lparr>ss_world := w2\<rparr>))
         else (se_empty_blocks ext, 0, 0, False, sr_num_computed_tokens request, s))"

text \<open>How many tokens the request needs; it is dropped when its prompt can never
  fit and skipped when it does not fit the rest of the budget.\<close>

definition prompt_demand ::
  "sched_config \<Rightarrow> req_id \<Rightarrow> kv_blocks \<Rightarrow> int \<Rightarrow> bool \<Rightarrow> int \<Rightarrow> int \<Rightarrow> 'w sched_state
     \<Rightarrow> (verdict \<times> int \<times> kv_block list option) res" where
  "prompt_demand cfg rid blocks external load_async num_computed budget s =
     (if load_async
      then rbind (rassert (0 < external)) (\<lambda>_. Inr (Run, 0, None))
      else rbind (get_prompt_limit cfg (ss_obj s rid)) (\<lambda>limit0.
        let num_new = sr_num_tokens (ss_obj s rid) - num_computed;
            limit = min limit0 (sc_num_blocks cfg * sc_block_size cfg)
        in if limit < num_new then Inr (Drop, num_new, None)
           else if budget < num_new then Inr (Skip, num_new, None)
           else rbind (rassert (0 < num_new)) (\<lambda>_.
                rbind (lget blocks 0) (\<lambda>group. Inr (Run, num_new, Some group)))))"

text \<open>The request starts running.\<close>

definition start_request ::
  "sched_config \<Rightarrow> 'w sched_ext \<Rightarrow> req_id \<Rightarrow> int \<Rightarrow> int \<Rightarrow> kv_blocks
     \<Rightarrow> 'w sched_state \<times> step \<Rightarrow> ('w sched_state \<times> step) res" where
  "start_request cfg ext rid num_new num_computed blocks acc =
     (let (s, t) = acc; request = ss_obj s rid;
          s1 = s\<lparr>ss_running := ss_running s @ [rid],
                 ss_scheduled_req_ids := insert rid (ss_scheduled_req_ids s)\<rparr>
      in rbind
        (case sr_status request of
           Waiting \<Rightarrow> Inr (t\<lparr>st_new := st_new t @ [rid]\<rparr>)
         | Preempted \<Rightarrow> Inr (t\<lparr>st_resumed := st_resumed t @ [rid]\<rparr>)
         | _ \<Rightarrow> Inl RuntimeError)
        (\<lambda>t1. Inr
          (set_obj rid (\<lambda>q. q\<lparr>sr_status := Running, sr_num_computed_tokens := num_computed,
              sr_num_cached_tokens :=
                (if sr_num_cached_tokens q < 0 then num_computed else sr_num_cached_tokens q)\<rparr>) s1,
           t1\<lparr>st_structured := (if sr_use_structured request
                                 then dset (st_structured t1) rid (st_req_index t1)
                                 else st_structured t1),
              st_req_index := Suc (st_req_index t1),
              st_loras := add_lora cfg request (st_loras t1),
              st_new_blocks := dset (st_new_blocks t1) rid blocks,
              st_num_scheduled := dset (st_num_scheduled t1) rid num_new,
              st_budget := st_budget t1 - num_new\<rparr>)))"

text \<open>One iteration of the prefill loop.\<close>

definition prefill_one ::
  "sched_config \<Rightarrow> 'w sched_ext \<Rightarrow> req_id \<Rightarrow> 'w sched_state \<times> step
     \<Rightarrow> (verdict \<times> 'w sched_state \<times> step) res" where
  "prefill_one cfg ext rid acc =
     (let (s, t) = acc; (ready, s1) = ready_gate ext rid s
      in if \<not> ready then Inr (Skip, s1, t)
         else if exceeds_loras cfg (st_loras t) (ss_obj s1 rid) then Inr (Skip, s1, t)
         else case cached_prefix ext rid s1 of
           (blocks, local, external, load_async, num_computed, s2) \<Rightarrow>
           rbind (prompt_demand cfg rid blocks external load_async num_computed (st_budget t) s2)
             (\<lambda>(v, num_new, group).
           if v = Drop
           then Inr (Drop, (set_obj rid (\<lambda>q. q\<lparr>sr_status := FinishedIgnored\<rparr>) s2)
                             \<lparr>ss_finished_req_ids := insert rid (ss_finished_req_ids s2)\<rparr>, t)
           else if v = Skip then Inr (Skip, s2, t)
           else if \<not> check_watermark_for_prefill cfg ext rid num_new group s2 then Inr (Skip, s2, t)
           else case se_allocate ext rid (ss_obj s2 rid) (num_new + external) local blocks
                       (sc_num_lookahead_tokens cfg) load_async (ss_world s2) of
             (None, w) \<Rightarrow> Inr (Stop, s2\<lparr>ss_world := w\<rparr>, t)
           | (Some new_blocks, w) \<Rightarrow>
               (let all_blocks = se_join ext blocks new_blocks;
                    s3 = s2\<lparr>ss_world := se_after_alloc ext rid all_blocks external w\<rparr>
                in if load_async
                   then Inr (Skip, set_obj rid (\<lambda>q. q\<lparr>sr_status := WaitingForRemoteKvs\<rparr>) s3, t)
                   else rbind (start_request cfg ext rid num_new num_computed all_blocks (s3, t))
                          (\<lambda>acc'. Inr (Run, acc')))))"

text \<open>The loop. Every iteration that does not stop takes the head off the queue,
  so the recursion is over the queue; the result is the rest of the queue.\<close>

fun prefill_loop ::
  "sched_config \<Rightarrow> 'w sched_ext \<Rightarrow> req_id list \<Rightarrow> 'w sched_state \<times> step
     \<Rightarrow> (req_id list \<times> 'w sched_state \<times> step) res" where
  "prefill_loop cfg ext [] acc = Inr ([], acc)"
| "prefill_loop cfg ext (rid # queue) (s, t) =
     (if \<not> (0 < st_budget t \<and> ss_forced_mode s \<noteq> Some 0) then Inr (rid # queue, s, t)
      else if length (ss_running s) = sc_max_num_running_reqs cfg then Inr (rid # queue, s, t)
      else rbind (prefill_one cfg ext rid (s, t)) (\<lambda>(v, s', t').
        if v = Stop then Inr (rid # queue, s', t')
        else if v = Skip then prefill_loop cfg ext queue (s', t'\<lparr>st_skipped := rid # st_skipped t'\<rparr>)
        else prefill_loop cfg ext queue (s', t')))"

text \<open>The skipped requests return: \<open>deque.extendleft\<close> puts its elements in front one by one.\<close>

definition extendleft :: "'a list \<Rightarrow> 'a list \<Rightarrow> 'a list" where
  "extendleft queue xs = fold (#) xs queue"

definition prefill ::
  "sched_config \<Rightarrow> 'w sched_ext \<Rightarrow> 'w sched_state \<times> step \<Rightarrow> ('w sched_state \<times> step) res" where
  "prefill cfg ext acc =
     (let (s, t) = acc
      in rbind (prefill_loop cfg ext (ss_waiting s) (s, t)) (\<lambda>(rest, s', t').
         Inr (s'\<lparr>ss_waiting := extendleft rest (st_skipped t')\<rparr>, t')))"

section \<open>Decode\<close>

text \<open>One token and the speculated ones, within the budget and the model length;
  none when the adapters are full.\<close>

definition decode_demand ::
  "sched_config \<Rightarrow> sched_request \<Rightarrow> step \<Rightarrow> int res" where
  "decode_demand cfg request t =
     rbind (rassert (sr_num_tokens request - sr_num_computed_tokens request = 1)) (\<lambda>_.
     let n1 = min (sr_num_tokens_with_spec request - sr_num_computed_tokens request) (st_budget t);
         n2 = min n1 (sc_max_model_len cfg - sr_num_computed_tokens request)
     in Inr (if exceeds_loras cfg (st_loras t) request then 0 else n2))"

text \<open>Slots are allocated; as long as there are none, the last running request is
  preempted, until that is the request itself. The result is the blocks, if any.\<close>

definition preempt_last ::
  "'w sched_ext \<Rightarrow> 'w sched_state \<times> step \<Rightarrow> (req_id \<times> 'w sched_state \<times> step) res" where
  "preempt_last ext acc =
     (let (s, t) = acc
      in if ss_running s = [] then Inl IndexError
         else let victim = last (ss_running s);
                  s1 = s\<lparr>ss_running := butlast (ss_running s),
                         ss_world := se_free ext victim (ss_world s),
                         ss_waiting := victim # ss_waiting s\<rparr>
              in Inr (victim,
                      set_obj victim (\<lambda>q. q\<lparr>sr_status := Preempted, sr_num_computed_tokens := 0\<rparr>) s1,
                      t\<lparr>st_preempted := st_preempted t @ [victim]\<rparr>))"

function make_room ::
  "sched_config \<Rightarrow> 'w sched_ext \<Rightarrow> req_id \<Rightarrow> int \<Rightarrow> 'w sched_state \<times> step
     \<Rightarrow> (kv_blocks option \<times> 'w sched_state \<times> step) res" where
  "make_room cfg ext rid n (s, t) =
     (case se_allocate ext rid (ss_obj s rid) n 0 (se_empty_blocks ext)
             (sc_num_lookahead_tokens cfg) False (ss_world s) of
        (Some blocks, w) \<Rightarrow> Inr (Some blocks, s\<lparr>ss_world := w\<rparr>, t)
      | (None, w) \<Rightarrow>
          rbind (preempt_last ext (s\<lparr>ss_world := w\<rparr>, t)) (\<lambda>(victim, s', t').
            if victim = rid then Inr (None, s', t') else make_room cfg ext rid n (s', t')))"
  by pat_completeness auto
termination
  by (relation "measure (\<lambda>(cfg, ext, rid, n, s, t). length (ss_running s))")
    (auto simp: preempt_last_def set_obj_def Let_def split: if_splits)

declare make_room.simps [simp del]

text \<open>A running request is scheduled for its next tokens.\<close>

definition continue_request ::
  "sched_config \<Rightarrow> req_id \<Rightarrow> nat \<Rightarrow> int \<Rightarrow> kv_blocks \<Rightarrow> 'w sched_state \<times> step \<Rightarrow> 'w sched_state \<times> step" where
  "continue_request cfg rid idx n blocks acc =
     (let (s, t) = acc; request = ss_obj s rid;
          k = n + sr_num_computed_tokens request - sr_num_tokens request;
          spec = (sr_spec_token_ids request \<noteq> [] \<and> 0 < k);
          trimmed = take (nat k) (sr_spec_token_ids request);
          s1 = s\<lparr>ss_scheduled_req_ids := insert rid (ss_scheduled_req_ids s)\<rparr>
      in (if spec then set_obj rid (\<lambda>q. q\<lparr>sr_spec_token_ids := trimmed\<rparr>) s1 else s1,
          t\<lparr>st_running := st_running t @ [rid],
            st_structured := (if sr_use_structured request then dset (st_structured t) rid idx
                              else st_structured t),
            st_new_blocks := dset (st_new_blocks t) rid blocks,
            st_num_scheduled := dset (st_num_scheduled t) rid n,
            st_budget := st_budget t - n,
            st_spec := (if spec then dset (st_spec t) rid trimmed else st_spec t),
            st_loras := add_lora cfg request (st_loras t)\<rparr>))"

definition decode_one ::
  "sched_config \<Rightarrow> 'w sched_ext \<Rightarrow> nat \<Rightarrow> 'w sched_state \<times> step
     \<Rightarrow> (bool \<times> 'w sched_state \<times> step) res" where
  "decode_one cfg ext idx acc =
     (let (s, t) = acc; rid = ss_running s ! idx
      in if rid \<in> ss_scheduled_req_ids s then Inr (True, s, t)
         else rbind (decode_demand cfg (ss_obj s rid) t) (\<lambda>n.
           if n = 0 then Inr (True, s, t)
           else rbind (make_room cfg ext rid n (s, t)) (\<lambda>(blocks, s', t').
             case blocks of
               None \<Rightarrow> Inr (False, s', t')
             | Some bs \<Rightarrow> Inr (True, continue_request cfg rid idx n bs (s', t')))))"

lemma preempt_last_running:
  "preempt_last ext (s, t) = Inr (victim, s', t')
     \<Longrightarrow> ss_running s = ss_running s' @ [victim] \<and> ss_waiting s' = victim # ss_waiting s"
  by (auto simp: preempt_last_def set_obj_def Let_def split: if_splits)

lemma make_room_length:
  "make_room cfg ext rid n (s, t) = Inr (blocks, s', t') \<Longrightarrow> length (ss_running s') \<le> length (ss_running s)"
proof (induction cfg ext rid n "(s, t)" arbitrary: s t blocks s' t' rule: make_room.induct)
  case (1 cfg ext rid n s t)
  show ?case
  proof (cases "se_allocate ext rid (ss_obj s rid) n 0 (se_empty_blocks ext)
             (sc_num_lookahead_tokens cfg) False (ss_world s)")
    case (Pair b w)
    show ?thesis
    proof (cases b)
      case None
      obtain victim s1 t1 where p: "preempt_last ext (s\<lparr>ss_world := w\<rparr>, t) = Inr (victim, s1, t1)"
        using "1.prems" Pair None by (auto simp: make_room.simps [of cfg ext rid n s t] res_simps)
      have "length (ss_running s1) \<le> length (ss_running s)"
        using preempt_last_running [OF p] by simp
      then show ?thesis
        using "1.prems" "1.hyps" [OF Pair [symmetric] None p] Pair None p
        by (fastforce simp: make_room.simps [of cfg ext rid n s t] split: if_splits)
    next
      case (Some bs)
      then show ?thesis using "1.prems" Pair by (auto simp: make_room.simps [of cfg ext rid n s t])
    qed
  qed
qed

lemma continue_request_running: "ss_running (fst (continue_request cfg rid idx n bs acc)) = ss_running (fst acc)"
  by (simp add: continue_request_def set_obj_def Let_def split: prod.splits)

lemma decode_one_length:
  assumes "decode_one cfg ext idx (s, t) = Inr (go, s', t')"
  shows "length (ss_running s') \<le> length (ss_running s)"
proof -
  have "length (ss_running a) \<le> length (ss_running s)"
    if "make_room cfg ext rid n (s, t) = Inr (b, x, y)"
      "(a, c) = continue_request cfg rid idx n bs (x, y) \<or> a = x" for a b c x y rid n bs
    using make_room_length [OF that(1)] that(2)
      continue_request_running [of cfg rid idx n bs "(x, y)"] by (auto dest: sym)
  then show ?thesis
    using assms by (auto simp: decode_one_def Let_def res_simps split: if_splits option.splits)
      (metis continue_request_running fst_conv make_room_length)+
qed

function decode_loop ::
  "sched_config \<Rightarrow> 'w sched_ext \<Rightarrow> nat \<Rightarrow> 'w sched_state \<times> step \<Rightarrow> ('w sched_state \<times> step) res" where
  "decode_loop cfg ext idx (s, t) =
     (if idx < length (ss_running s) \<and> 0 < st_budget t
      then rbind (decode_one cfg ext idx (s, t)) (\<lambda>(go, s', t').
             if go then decode_loop cfg ext (Suc idx) (s', t') else Inr (s', t'))
      else Inr (s, t))"
  by pat_completeness auto
termination
  by (relation "measure (\<lambda>(cfg, ext, idx, s, t). length (ss_running s) - idx)")
    (auto dest: decode_one_length)

declare decode_loop.simps [simp del]

text \<open>Decode runs only when nothing is in flight, this step's prefills included.\<close>

definition decode ::
  "sched_config \<Rightarrow> 'w sched_ext \<Rightarrow> 'w sched_state \<times> step \<Rightarrow> ('w sched_state \<times> step) res" where
  "decode cfg ext acc =
     (if ss_scheduled_req_ids (fst acc) = {} \<and> ss_forced_mode (fst acc) \<noteq> Some 1
      then decode_loop cfg ext 0 acc else Inr acc)"

section \<open>A scheduling step\<close>

definition new_step :: "sched_config \<Rightarrow> step" where
  "new_step cfg =
     \<lparr> st_new = [], st_resumed = [], st_running = [], st_preempted = [], st_structured = [],
       st_new_blocks = [], st_num_scheduled = [], st_budget = sc_max_num_scheduled_tokens cfg,
       st_spec = [], st_loras = {}, st_skipped = [], st_req_index = 0 \<rparr>"

text \<open>What a step hands to the runner; the blocks are those of \<open>req_to_new_block_ids\<close>.\<close>

record schedule_result =
  out_new_reqs :: "(req_id \<times> kv_blocks) list"
  out_running_reqs :: "req_id list"
  out_resumed_reqs :: "req_id list"
  out_new_blocks :: "(req_id, kv_blocks) dict"
  out_num_scheduled :: "(req_id, int) dict"
  out_total :: int
  out_spec :: "(req_id, int list) dict"
  out_structured :: "(req_id, nat) dict"
  out_finished :: "req_id set"

definition schedule ::
  "sched_config \<Rightarrow> 'w sched_ext \<Rightarrow> 'w sched_state \<Rightarrow> (schedule_result \<times> 'w sched_state) res" where
  "schedule cfg ext s =
     rbind (prefill cfg ext (s, new_step cfg)) (\<lambda>acc1.
     rbind (decode cfg ext acc1) (\<lambda>(s2, t2).
     let total = sum_list (map snd (st_num_scheduled t2))
     in rbind (rassert (total \<le> sc_max_num_scheduled_tokens cfg)) (\<lambda>_.
        rbind (rassert (0 \<le> st_budget t2)) (\<lambda>_.
        rbind (rassert (length (ss_running s2) \<le> sc_max_num_running_reqs cfg)) (\<lambda>_.
        rbind (rassert (length (st_new t2) + length (st_resumed t2) + length (st_running t2)
                         \<le> length (ss_running s2))) (\<lambda>_.
        rbind (rmap (\<lambda>r. rbind (ditem (st_new_blocks t2) r) (\<lambda>b. Inr (r, b))) (st_new t2)) (\<lambda>news.
        Inr (\<lparr> out_new_reqs = news, out_running_reqs = st_running t2, out_resumed_reqs = st_resumed t2,
               out_new_blocks = st_new_blocks t2, out_num_scheduled = st_num_scheduled t2,
               out_total = total, out_spec = st_spec t2, out_structured = st_structured t2,
               out_finished = ss_finished_req_ids s2 \<rparr>,
             (fold (\<lambda>(r, n). set_obj r (\<lambda>q. q\<lparr>sr_num_computed_tokens := sr_num_computed_tokens q + n\<rparr>))
                (st_num_scheduled t2) s2)\<lparr>ss_finished_req_ids := {}\<rparr>))))))))"

section \<open>The end of a step and of a request\<close>

text \<open>\<open>update_from_output\<close>: a running request that was scheduled is no longer in flight. What the
  base class then does with the output is the parameter.\<close>

definition update_from_output ::
  "(req_id, int) dict \<Rightarrow> ('w sched_state \<Rightarrow> 'w sched_state) \<Rightarrow> 'w sched_state \<Rightarrow> 'w sched_state" where
  "update_from_output scheduled base s =
     base (s\<lparr>ss_scheduled_req_ids := fold (\<lambda>r ids.
       if (case dget scheduled r of None \<Rightarrow> 0 | Some n \<Rightarrow> n) = 0 then ids
       else if r \<in> ids then ids - {r} else ids) (ss_running s) (ss_scheduled_req_ids s)\<rparr>)"

text \<open>\<open>finish_requests\<close> takes one id or several. It iterates over its argument, and iterating over
  a Python string gives its characters.\<close>

datatype finish_arg = OneId string | ManyIds "string list"

fun iterated_ids :: "finish_arg \<Rightarrow> string list" where
  "iterated_ids (OneId s) = map (\<lambda>c. [c]) s"
| "iterated_ids (ManyIds ids) = ids"

definition finish_requests ::
  "finish_arg \<Rightarrow> req_id set \<Rightarrow> ('w sched_state \<Rightarrow> 'w sched_state) \<Rightarrow> 'w sched_state \<Rightarrow> 'w sched_state" where
  "finish_requests request_ids known base s =
     base (s\<lparr>ss_scheduled_req_ids := fold (\<lambda>r ids.
       if r \<in> known \<and> sr_status (ss_obj s r) = Running then ids - {r} else ids)
       (iterated_ids request_ids) (ss_scheduled_req_ids s)\<rparr>)"

end
