(* ===== verification/SchedulerProps.thy ===== *)
theory SchedulerProps
  imports Scheduler "HOL-Library.Multiset" "HOL-Library.Sublist"
begin

text \<open>
  What a scheduling step guarantees: the limits on tokens and running requests, the separation of
  prefill and decode, the conservation and the order of requests, and that a step completes.
\<close>

section \<open>Prefill\<close>

lemma set_obj_simps [simp]:
  "ss_waiting (set_obj r f s) = ss_waiting s" "ss_running (set_obj r f s) = ss_running s"
  "ss_scheduled_req_ids (set_obj r f s) = ss_scheduled_req_ids s"
  "ss_finished_req_ids (set_obj r f s) = ss_finished_req_ids s"
  "ss_forced_mode (set_obj r f s) = ss_forced_mode s" "ss_world (set_obj r f s) = ss_world s"
  "ss_obj (set_obj r f s) = (ss_obj s)(r := f (ss_obj s r))"
  by (simp_all add: set_obj_def)

text \<open>What an iteration leaves alone.\<close>

definition same_queues :: "'w sched_state \<Rightarrow> 'w sched_state \<Rightarrow> bool" where
  "same_queues s s' \<longleftrightarrow>
     ss_waiting s' = ss_waiting s \<and> ss_running s' = ss_running s
     \<and> ss_scheduled_req_ids s' = ss_scheduled_req_ids s \<and> ss_forced_mode s' = ss_forced_mode s"

lemma ready_gate_frame:
  "ready_gate ext rid s = (ready, s')
     \<Longrightarrow> same_queues s s' \<and> ss_finished_req_ids s' = ss_finished_req_ids s
       \<and> (\<forall>r. r \<noteq> rid \<longrightarrow> ss_obj s' r = ss_obj s r)"
  by (auto simp: ready_gate_def same_queues_def Let_def split: if_splits prod.splits)

lemma cached_prefix_frame:
  "cached_prefix ext rid s = (blocks, local, external, load_async, num_computed, s')
     \<Longrightarrow> same_queues s s' \<and> ss_finished_req_ids s' = ss_finished_req_ids s \<and> ss_obj s' = ss_obj s"
  by (auto simp: cached_prefix_def same_queues_def Let_def split: if_splits prod.splits)

text \<open>A request that starts: what becomes of the state and of the locals.\<close>

definition started :: "req_id \<Rightarrow> int \<Rightarrow> 'w sched_state \<times> step \<Rightarrow> 'w sched_state \<times> step \<Rightarrow> bool" where
  "started rid n acc acc' \<longleftrightarrow>
     (let (s, t) = acc; (s', t') = acc'
      in ss_waiting s' = ss_waiting s \<and> ss_forced_mode s' = ss_forced_mode s
       \<and> ss_finished_req_ids s' = ss_finished_req_ids s
       \<and> ss_running s' = ss_running s @ [rid]
       \<and> ss_scheduled_req_ids s' = insert rid (ss_scheduled_req_ids s)
       \<and> sr_status (ss_obj s' rid) = Running
       \<and> n = sr_num_tokens (ss_obj s' rid) - sr_num_computed_tokens (ss_obj s' rid)
       \<and> (st_new t' = st_new t @ [rid] \<and> st_resumed t' = st_resumed t
           \<or> st_new t' = st_new t \<and> st_resumed t' = st_resumed t @ [rid])
       \<and> st_running t' = st_running t \<and> st_preempted t' = st_preempted t
       \<and> st_skipped t' = st_skipped t
       \<and> st_num_scheduled t' = dset (st_num_scheduled t) rid n
       \<and> (\<exists>bs. st_new_blocks t' = dset (st_new_blocks t) rid bs)
       \<and> st_budget t' = st_budget t - n)"

lemma prefill_one_effect:
  assumes "prefill_one cfg ext rid (s, t) = Inr (v, s', t')"
  shows "(\<forall>r. r \<noteq> rid \<longrightarrow> ss_obj s' r = ss_obj s r)
     \<and> (if v = Run then \<exists>n. 0 < n \<and> n \<le> st_budget t \<and> started rid n (s, t) (s', t')
        else t' = t \<and> same_queues s s'
          \<and> ss_finished_req_ids s' =
              (if v = Drop then insert rid (ss_finished_req_ids s) else ss_finished_req_ids s))"
proof -
  obtain ready s1 where g: "ready_gate ext rid s = (ready, s1)" by (cases "ready_gate ext rid s")
  obtain blocks local external load_async num_computed s2 where
    c: "cached_prefix ext rid s1 = (blocks, local, external, load_async, num_computed, s2)"
    by (cases "cached_prefix ext rid s1")
  have fr: "same_queues s s1" "ss_finished_req_ids s1 = ss_finished_req_ids s"
      "\<forall>r. r \<noteq> rid \<longrightarrow> ss_obj s1 r = ss_obj s r"
      "same_queues s s2" "ss_finished_req_ids s2 = ss_finished_req_ids s"
      "\<forall>r. r \<noteq> rid \<longrightarrow> ss_obj s2 r = ss_obj s r"
    using ready_gate_frame [OF g] cached_prefix_frame [OF c] by (auto simp: same_queues_def)
  show ?thesis
  proof (cases "\<not> ready \<or> exceeds_loras cfg (st_loras t) (ss_obj s1 rid)")
    case True
    then have "v = Skip" "s' = s1" "t' = t" using assms g by (auto simp: prefill_one_def split: if_splits)
    then show ?thesis using fr by simp
  next
    case go: False
    then obtain v0 num_new group where
      d: "prompt_demand cfg rid blocks external load_async num_computed (st_budget t) s2 = Inr (v0, num_new, group)"
      using assms g c by (auto simp: prefill_one_def rbind_Inr_iff)
    note run = assms [unfolded prefill_one_def Let_def, simplified g c d rbind.simps prod.case]
    show ?thesis
    proof (cases "v0 = Drop \<or> v0 = Skip \<or> \<not> check_watermark_for_prefill cfg ext rid num_new group s2")
      case True
      then show ?thesis using run go fr by (auto simp: same_queues_def split: if_splits)
    next
      case ok: False
      obtain b w where al: "se_allocate ext rid (ss_obj s2 rid) (num_new + external) local blocks
                       (sc_num_lookahead_tokens cfg) load_async (ss_world s2) = (b, w)"
        by (cases "se_allocate ext rid (ss_obj s2 rid) (num_new + external) local blocks
                       (sc_num_lookahead_tokens cfg) load_async (ss_world s2)")
      show ?thesis
      proof (cases "b = None \<or> load_async")
        case True
        then show ?thesis using run go ok al fr
          by (auto simp: same_queues_def Let_def split: option.splits)
      next
        case False
        then obtain nb where b: "b = Some nb" and na: "\<not> load_async" by auto
        have dem: "0 < num_new" "num_new \<le> st_budget t"
            "num_new = sr_num_tokens (ss_obj s2 rid) - num_computed"
          using d na ok by (auto simp: prompt_demand_def Let_def res_simps split: if_splits)
        define s3 where "s3 = s2\<lparr>ss_world := se_after_alloc ext rid (se_join ext blocks nb) external w\<rparr>"
        have st: "start_request cfg ext rid num_new num_computed (se_join ext blocks nb) (s3, t) = Inr (s', t')"
          and v: "v = Run"
          using run go ok al b na by (auto simp: res_simps Let_def s3_def)
        have s3: "ss_obj s3 = ss_obj s2" "same_queues s s3" "ss_finished_req_ids s3 = ss_finished_req_ids s"
          using fr by (simp_all add: s3_def same_queues_def)
        have "started rid num_new (s, t) (s', t')"
          using st s3 dem(3) unfolding start_request_def Let_def started_def same_queues_def
          by (auto simp: res_simps split: request_status.splits)
        moreover have "\<forall>r. r \<noteq> rid \<longrightarrow> ss_obj s' r = ss_obj s r"
          using st s3 fr(6) by (auto simp: start_request_def Let_def res_simps)
        ultimately show ?thesis using v dem(1,2) by (simp, blast)
      qed
    qed
  qed
qed

section \<open>The accounting of a step\<close>

text \<open>The scheduled requests of a step are running, each counted once, and what they take and what
  is left of the budget add up to the limit.\<close>

definition scheduled_ids :: "step \<Rightarrow> req_id list" where
  "scheduled_ids t = st_new t @ st_resumed t @ st_running t"

definition step_inv :: "sched_config \<Rightarrow> 'w sched_state \<Rightarrow> step \<Rightarrow> bool" where
  "step_inv cfg s t \<longleftrightarrow>
     0 \<le> st_budget t
     \<and> sum_list (map snd (st_num_scheduled t)) + st_budget t = sc_max_num_scheduled_tokens cfg
     \<and> set (dkeys (st_num_scheduled t)) = set (scheduled_ids t)
     \<and> distinct (dkeys (st_num_scheduled t))
     \<and> distinct (scheduled_ids t) \<and> distinct (ss_running s)
     \<and> set (scheduled_ids t) \<subseteq> set (ss_running s)
     \<and> set (scheduled_ids t) \<subseteq> ss_scheduled_req_ids s
     \<and> set (scheduled_ids t) \<subseteq> set (dkeys (st_new_blocks t))
     \<and> length (ss_running s) \<le> sc_max_num_running_reqs cfg"

lemma sum_dset: "k \<notin> set (dkeys d) \<Longrightarrow> sum_list (map snd (dset d k v)) = sum_list (map snd d) + (v :: int)"
  by (induction d) auto

lemma started_inv:
  assumes inv: "step_inv cfg s t" and st: "started rid n (s, t) (s', t')" and n: "n \<le> st_budget t"
    and new: "rid \<notin> set (ss_running s)" and room: "length (ss_running s) < sc_max_num_running_reqs cfg"
  shows "step_inv cfg s' t'"
proof -
  have fresh: "rid \<notin> set (scheduled_ids t)" using inv new by (auto simp: step_inv_def)
  then have "rid \<notin> set (dkeys (st_num_scheduled t))" using inv by (simp add: step_inv_def)
  then have "sum_list (map snd (st_num_scheduled t')) + st_budget t' = sc_max_num_scheduled_tokens cfg"
    using inv st sum_dset [of rid "st_num_scheduled t" n] by (simp add: step_inv_def started_def)
  moreover have "set (scheduled_ids t') = insert rid (set (scheduled_ids t))"
    "distinct (scheduled_ids t')"
    using st fresh inv by (auto simp: started_def scheduled_ids_def step_inv_def)
  moreover have "st_num_scheduled t' = dset (st_num_scheduled t) rid n"
    and nb: "\<exists>bs. st_new_blocks t' = dset (st_new_blocks t) rid bs"
    using st by (simp_all add: started_def)
  then have "set (dkeys (st_num_scheduled t')) = insert rid (set (dkeys (st_num_scheduled t)))"
    "set (dkeys (st_new_blocks t')) = insert rid (set (dkeys (st_new_blocks t)))"
    using dkeys_dset by metis+
  moreover have "distinct (dkeys (st_num_scheduled t'))"
    using inv st by (simp add: step_inv_def started_def distinct_update)
  ultimately show ?thesis
    using inv st n new room unfolding step_inv_def started_def by auto
qed

text \<open>Prefills take a prompt whole: what is scheduled is all that is not computed yet.\<close>

definition whole_prompts :: "'w sched_state \<Rightarrow> step \<Rightarrow> bool" where
  "whole_prompts s t \<longleftrightarrow>
     (\<forall>r \<in> set (st_new t @ st_resumed t). dget (st_num_scheduled t) r =
        Some (sr_num_tokens (ss_obj s r) - sr_num_computed_tokens (ss_obj s r)))"

text \<open>What the prefill loop does to the queue, the skipped requests and the running list.\<close>

definition queue_moved ::
  "req_id list \<Rightarrow> 'w sched_state \<times> step \<Rightarrow> req_id list \<Rightarrow> 'w sched_state \<times> step \<Rightarrow> bool" where
  "queue_moved queue acc rest acc' \<longleftrightarrow>
     (let (s, t) = acc; (s', t') = acc'
      in ss_waiting s' = ss_waiting s \<and> ss_forced_mode s' = ss_forced_mode s
       \<and> st_running t' = st_running t \<and> st_preempted t' = st_preempted t
       \<and> ss_finished_req_ids s \<subseteq> ss_finished_req_ids s'
       \<and> ss_scheduled_req_ids s \<subseteq> ss_scheduled_req_ids s'
       \<and> subseq (rev (st_skipped t') @ rest) (rev (st_skipped t) @ queue)
       \<and> (\<exists>dropped. mset queue + mset (st_skipped t) + mset (ss_running s)
              = mset rest + mset (st_skipped t') + mset (ss_running s') + mset dropped
            \<and> set dropped \<subseteq> ss_finished_req_ids s')
       \<and> (\<exists>new. ss_running s' = ss_running s @ new \<and> set new \<subseteq> ss_scheduled_req_ids s')
       \<and> (\<forall>r. r \<notin> set queue \<longrightarrow> ss_obj s' r = ss_obj s r))"

lemma started_whole:
  assumes w: "whole_prompts s t" and inv: "step_inv cfg s t" and st: "started rid n (s, t) (s', t')"
    and obj: "\<forall>r. r \<noteq> rid \<longrightarrow> ss_obj s' r = ss_obj s r" and new: "rid \<notin> set (ss_running s)"
  shows "whole_prompts s' t'"
proof -
  have "rid \<notin> set (scheduled_ids t)" using inv new by (auto simp: step_inv_def)
  then show ?thesis using w st obj
    by (auto simp: whole_prompts_def started_def scheduled_ids_def)
qed

lemma prefill_loop_ok:
  assumes "prefill_loop cfg ext queue (s, t) = Inr (rest, s', t')" and "step_inv cfg s t"
    and "whole_prompts s t" and "distinct queue" "set queue \<inter> set (ss_running s) = {}"
  shows "step_inv cfg s' t' \<and> whole_prompts s' t' \<and> queue_moved queue (s, t) rest (s', t')"
  using assms
proof (induction queue arbitrary: s t)
  case Nil
  then show ?case by (auto simp: queue_moved_def)
next
  case (Cons rid queue)
  have stop: "queue_moved (rid # queue) (s, t) (rid # queue) (s, t)" by (auto simp: queue_moved_def)
  show ?case
  proof (cases "(0 < st_budget t \<and> ss_forced_mode s \<noteq> Some 0)
      \<and> length (ss_running s) \<noteq> sc_max_num_running_reqs cfg")
    case False
    then show ?thesis using Cons.prems stop by (auto split: if_splits)
  next
    case True
    then obtain v s1 t1 where one: "prefill_one cfg ext rid (s, t) = Inr (v, s1, t1)"
      and more: "(if v = Stop then Inr (rid # queue, s1, t1)
        else if v = Skip then prefill_loop cfg ext queue (s1, t1\<lparr>st_skipped := rid # st_skipped t1\<rparr>)
        else prefill_loop cfg ext queue (s1, t1)) = Inr (rest, s', t')"
      using Cons.prems(1) by (auto simp: rbind_Inr_iff split: if_splits)
    have obj: "\<forall>r. r \<noteq> rid \<longrightarrow> ss_obj s1 r = ss_obj s r" and eff: "if v = Run
        then \<exists>n. 0 < n \<and> n \<le> st_budget t \<and> started rid n (s, t) (s1, t1)
        else t1 = t \<and> same_queues s s1 \<and> ss_finished_req_ids s1 =
              (if v = Drop then insert rid (ss_finished_req_ids s) else ss_finished_req_ids s)"
      using prefill_one_effect [OF one] by auto
    have rid: "rid \<notin> set (ss_running s)" "rid \<notin> set queue" using Cons.prems(4,5) by auto
    have same: "step_inv cfg s1 t \<and> whole_prompts s1 t" if "v \<noteq> Run"
    proof
      have "same_queues s s1" using eff that by simp
      then show "step_inv cfg s1 t" using Cons.prems(2) by (simp add: step_inv_def same_queues_def)
      have "rid \<notin> set (scheduled_ids t)" using Cons.prems(2) rid by (auto simp: step_inv_def)
      then show "whole_prompts s1 t"
        using Cons.prems(3) obj by (auto simp: whole_prompts_def scheduled_ids_def)
    qed
    show ?thesis
    proof (cases v)
      case Stop
      then have "s' = s1" "t' = t" "rest = rid # queue" using more eff by auto
      then show ?thesis using same obj Stop eff by (auto simp: queue_moved_def same_queues_def)
    next
      case Skip
      define t2 where "t2 = t\<lparr>st_skipped := rid # st_skipped t\<rparr>"
      have m: "prefill_loop cfg ext queue (s1, t2) = Inr (rest, s', t')"
        using more eff Skip by (simp add: t2_def)
      have q: "same_queues s s1" "ss_finished_req_ids s1 = ss_finished_req_ids s" using eff Skip by auto
      have "step_inv cfg s1 t2" "whole_prompts s1 t2"
        using same Skip by (simp_all add: t2_def step_inv_def whole_prompts_def scheduled_ids_def)
      then have IH: "step_inv cfg s' t'" "whole_prompts s' t'" "queue_moved queue (s1, t2) rest (s', t')"
        using Cons.IH [OF m] Cons.prems(4,5) q(1) by (auto simp: same_queues_def)
      have "queue_moved (rid # queue) (s, t) rest (s', t')"
        using IH(3) q obj by (auto simp: queue_moved_def same_queues_def t2_def)
      then show ?thesis using IH(1,2) by simp
    next
      case Drop
      have m: "prefill_loop cfg ext queue (s1, t) = Inr (rest, s', t')" using more eff Drop by simp
      have q: "same_queues s s1" "ss_finished_req_ids s1 = insert rid (ss_finished_req_ids s)"
        using eff Drop by auto
      have IH: "step_inv cfg s' t'" "whole_prompts s' t'" "queue_moved queue (s1, t) rest (s', t')"
        using Cons.IH [OF m] same Drop Cons.prems(4,5) q(1) by (auto simp: same_queues_def)
      then obtain dropped where "mset queue + mset (st_skipped t) + mset (ss_running s1)
              = mset rest + mset (st_skipped t') + mset (ss_running s') + mset dropped"
            "set dropped \<subseteq> ss_finished_req_ids s'" by (auto simp: queue_moved_def)
      then have "\<exists>dropped. mset (rid # queue) + mset (st_skipped t) + mset (ss_running s)
              = mset rest + mset (st_skipped t') + mset (ss_running s') + mset dropped
            \<and> set dropped \<subseteq> ss_finished_req_ids s'"
        using IH(3) q by (intro exI [of _ "rid # dropped"]) (auto simp: queue_moved_def same_queues_def)
      moreover have "subseq (rev (st_skipped t) @ queue) (rev (st_skipped t) @ rid # queue)"
        by (intro list_emb_append_mono) (auto intro: list_emb_Cons)
      ultimately have "queue_moved (rid # queue) (s, t) rest (s', t')"
        using IH(3) q obj by (auto simp: queue_moved_def same_queues_def intro: subseq_order.trans)
      then show ?thesis using IH(1,2) by simp
    next
      case Run
      have m: "prefill_loop cfg ext queue (s1, t1) = Inr (rest, s', t')" using more Run by simp
      obtain n where n: "n \<le> st_budget t" "started rid n (s, t) (s1, t1)" using eff Run by auto
      have "length (ss_running s) < sc_max_num_running_reqs cfg"
        using True Cons.prems(2) by (auto simp: step_inv_def)
      then have i1: "step_inv cfg s1 t1" using started_inv [OF Cons.prems(2) n(2,1) rid(1)] by simp
      have w1: "whole_prompts s1 t1" by (rule started_whole [OF Cons.prems(3,2) n(2) obj rid(1)])
      have "set queue \<inter> set (ss_running s1) = {}"
        using n(2) Cons.prems(5) rid(2) by (auto simp: started_def)
      then have IH: "step_inv cfg s' t'" "whole_prompts s' t'" "queue_moved queue (s1, t1) rest (s', t')"
        using Cons.IH [OF m i1 w1] Cons.prems(4) by auto
      then obtain dropped where "mset queue + mset (st_skipped t1) + mset (ss_running s1)
              = mset rest + mset (st_skipped t') + mset (ss_running s') + mset dropped"
            "set dropped \<subseteq> ss_finished_req_ids s'" by (auto simp: queue_moved_def)
      then have "\<exists>dropped. mset (rid # queue) + mset (st_skipped t) + mset (ss_running s)
              = mset rest + mset (st_skipped t') + mset (ss_running s') + mset dropped
            \<and> set dropped \<subseteq> ss_finished_req_ids s'"
        using n(2) by (intro exI [of _ dropped]) (auto simp: started_def)
      moreover have "subseq (rev (st_skipped t) @ queue) (rev (st_skipped t) @ rid # queue)"
        by (intro list_emb_append_mono) (auto intro: list_emb_Cons)
      ultimately have "queue_moved (rid # queue) (s, t) rest (s', t')"
        using IH(3) n(2) obj unfolding queue_moved_def started_def
        by (auto intro: subseq_order.trans)
      then show ?thesis using IH(1,2) by simp
    qed
  qed
qed

section \<open>Decode\<close>

text \<open>Preemption moves the end of the running list to the head of the waiting queue: the two lists,
  one after the other, stay what they were.\<close>

definition preempted_suffix :: "req_id list \<Rightarrow> 'w sched_state \<times> step \<Rightarrow> 'w sched_state \<times> step \<Rightarrow> bool" where
  "preempted_suffix tail acc acc' \<longleftrightarrow>
     (let (s, t) = acc; (s', t') = acc'
      in ss_running s = ss_running s' @ tail \<and> ss_waiting s' = tail @ ss_waiting s
       \<and> t' = t\<lparr>st_preempted := st_preempted t @ rev tail\<rparr>
       \<and> ss_scheduled_req_ids s' = ss_scheduled_req_ids s
       \<and> ss_finished_req_ids s' = ss_finished_req_ids s \<and> ss_forced_mode s' = ss_forced_mode s
       \<and> (\<forall>r. r \<notin> set tail \<longrightarrow> ss_obj s' r = ss_obj s r)
       \<and> (\<forall>r \<in> set tail. sr_status (ss_obj s' r) = Preempted \<and> sr_num_computed_tokens (ss_obj s' r) = 0))"

lemma preempt_last_suffix:
  "preempt_last ext (s, t) = Inr (victim, s', t') \<Longrightarrow> preempted_suffix [victim] (s, t) (s', t')"
  by (auto simp: preempt_last_def preempted_suffix_def Let_def split: if_splits)

lemma preempted_suffix_trans:
  "preempted_suffix xs acc acc1 \<Longrightarrow> preempted_suffix ys acc1 acc2 \<Longrightarrow> preempted_suffix (ys @ xs) acc acc2"
  by (cases acc, cases acc1, cases acc2) (auto simp: preempted_suffix_def)

lemma preempted_suffix_world:
  "preempted_suffix xs (s\<lparr>ss_world := w\<rparr>, t) acc = preempted_suffix xs (s, t) acc"
  by (cases acc) (simp add: preempted_suffix_def)

lemma make_room_ok:
  assumes "make_room cfg ext rid n (s, t) = Inr (b, s', t')"
    and "idx < length (ss_running s)" "ss_running s ! idx = rid" "distinct (ss_running s)"
  shows "\<exists>tail. preempted_suffix tail (s, t) (s', t')
      \<and> (case b of None \<Rightarrow> ss_running s' = take idx (ss_running s) | Some _ \<Rightarrow> idx < length (ss_running s'))"
  using assms
proof (induction cfg ext rid n "(s, t)" arbitrary: s t b s' t' rule: make_room.induct)
  case (1 cfg ext rid n s t)
  obtain c w where al: "se_allocate ext rid (ss_obj s rid) n 0 (se_empty_blocks ext)
             (sc_num_lookahead_tokens cfg) False (ss_world s) = (c, w)"
    by (cases "se_allocate ext rid (ss_obj s rid) n 0 (se_empty_blocks ext)
             (sc_num_lookahead_tokens cfg) False (ss_world s)")
  show ?case
  proof (cases c)
    case (Some bs)
    then have "b = Some bs" "s' = s\<lparr>ss_world := w\<rparr>" "t' = t"
      using "1.prems"(1) al by (simp_all add: make_room.simps [of cfg ext rid n s t])
    then show ?thesis using "1.prems"(2) by (intro exI [of _ "[]"]) (simp add: preempted_suffix_def)
  next
    case None
    obtain victim s1 t1 where p: "preempt_last ext (s\<lparr>ss_world := w\<rparr>, t) = Inr (victim, s1, t1)"
      and more: "(if victim = rid then Inr (None, s1, t1) else make_room cfg ext rid n (s1, t1)) = Inr (b, s', t')"
      using "1.prems"(1) al None by (auto simp: make_room.simps [of cfg ext rid n s t] rbind_Inr_iff)
    have suf: "preempted_suffix [victim] (s, t) (s1, t1)"
      using preempt_last_suffix [OF p] by (simp add: preempted_suffix_world)
    have run: "ss_running s = ss_running s1 @ [victim]" using suf by (simp add: preempted_suffix_def)
    show ?thesis
    proof (cases "victim = rid")
      case True
      have "idx = length (ss_running s1)"
      proof (rule ccontr)
        assume "idx \<noteq> length (ss_running s1)"
        then have "idx < length (ss_running s1)" using "1.prems"(2) run by simp
        then have "rid \<in> set (ss_running s1)" using "1.prems"(3) run by (auto simp: nth_append)
        then show False using "1.prems"(4) run True by auto
      qed
      then show ?thesis using more True suf run by (intro exI [of _ "[victim]"]) auto
    next
      case False
      have i: "idx < length (ss_running s1)" "ss_running s1 ! idx = rid" "distinct (ss_running s1)"
      proof -
        have "idx \<noteq> length (ss_running s1)" using "1.prems"(3) run False by (auto simp: nth_append)
        then show "idx < length (ss_running s1)" using "1.prems"(2) run by simp
        then show "ss_running s1 ! idx = rid" using "1.prems"(3) run by (simp add: nth_append)
        show "distinct (ss_running s1)" using "1.prems"(4) run by simp
      qed
      obtain tail where "preempted_suffix tail (s1, t1) (s', t')"
        "case b of None \<Rightarrow> ss_running s' = take idx (ss_running s1) | Some _ \<Rightarrow> idx < length (ss_running s')"
        using "1.hyps" [OF al [symmetric] None p _ refl False] more False i by auto
      then show ?thesis using preempted_suffix_trans [OF suf] run i(1)
        by (intro exI [of _ "tail @ [victim]"]) (auto split: option.splits)
    qed
  qed
qed

text \<open>What a decode iteration keeps of the two queues \<open>order\<close> it began with: a tail of the running
  list has moved to the head of the waiting queue; and there is no prefill.\<close>

definition decoding :: "nat \<Rightarrow> req_id list \<times> req_id list \<Rightarrow> 'w sched_state \<Rightarrow> step \<Rightarrow> bool" where
  "decoding idx order s t \<longleftrightarrow>
     (\<exists>tail. fst order = ss_running s @ tail \<and> ss_waiting s = tail @ snd order)
     \<and> distinct (fst order @ snd order) \<and> st_new t = [] \<and> st_resumed t = []
     \<and> set (st_running t) \<subseteq> set (take idx (ss_running s))
     \<and> set (st_preempted t) \<subseteq> set (ss_waiting s)"

lemma continue_request_effect:
  assumes inv: "step_inv cfg s t" and dec: "decoding idx order s t"
    and idx: "idx < length (ss_running s)" "ss_running s ! idx = rid" and n: "n \<le> st_budget t"
    and c: "continue_request cfg rid idx n bs (s, t) = (s', t')"
  shows "step_inv cfg s' t' \<and> decoding (Suc idx) order s' t'
      \<and> ss_finished_req_ids s' = ss_finished_req_ids s"
proof -
  have F: "ss_running s' = ss_running s" "ss_waiting s' = ss_waiting s"
    "ss_scheduled_req_ids s' = insert rid (ss_scheduled_req_ids s)"
    "ss_finished_req_ids s' = ss_finished_req_ids s"
    "st_new t' = st_new t" "st_resumed t' = st_resumed t" "st_running t' = st_running t @ [rid]"
    "st_num_scheduled t' = dset (st_num_scheduled t) rid n" "st_budget t' = st_budget t - n"
    "st_new_blocks t' = dset (st_new_blocks t) rid bs" "st_preempted t' = st_preempted t"
    using c by (auto simp: continue_request_def Let_def split: if_splits)
  have "distinct (ss_running s)" using inv by (simp add: step_inv_def)
  then have "rid \<notin> set (take idx (ss_running s))"
    using idx by (auto simp: in_set_conv_nth nth_eq_iff_index_eq)
  then have fresh: "rid \<notin> set (scheduled_ids t)"
    using dec by (auto simp: decoding_def scheduled_ids_def)
  have ids: "set (scheduled_ids t') = insert rid (set (scheduled_ids t))" "distinct (scheduled_ids t')"
    using fresh inv by (auto simp: scheduled_ids_def F step_inv_def)
  have "rid \<notin> set (dkeys (st_num_scheduled t))" using inv fresh by (simp add: step_inv_def)
  then have sum: "sum_list (map snd (st_num_scheduled t')) + st_budget t' = sc_max_num_scheduled_tokens cfg"
    using inv sum_dset [of rid "st_num_scheduled t" n] by (simp add: step_inv_def F)
  have keys: "set (dkeys (st_num_scheduled t')) = insert rid (set (dkeys (st_num_scheduled t)))"
    "set (dkeys (st_new_blocks t')) = insert rid (set (dkeys (st_new_blocks t)))"
    unfolding F by (rule dkeys_dset)+
  have mem: "rid \<in> set (ss_running s)" using idx by auto
  have "distinct (dkeys (st_num_scheduled t'))" using inv by (simp add: step_inv_def F distinct_update)
  then have "step_inv cfg s' t'"
    using inv n sum ids keys mem unfolding step_inv_def F by auto
  moreover have "take (Suc idx) (ss_running s) = take idx (ss_running s) @ [rid]"
    using idx by (simp add: take_Suc_conv_app_nth)
  then have "decoding (Suc idx) order s' t'"
    using dec unfolding decoding_def F by auto
  ultimately show ?thesis by (simp add: F)
qed

lemma decode_demand_bound: "decode_demand cfg q t = Inr n \<Longrightarrow> 0 < st_budget t \<Longrightarrow> n \<le> st_budget t"
  by (auto simp: decode_demand_def Let_def rbind_Inr_iff split: if_splits)

lemma decode_one_ok:
  assumes run: "decode_one cfg ext idx (s, t) = Inr (go, s', t')" and inv: "step_inv cfg s t"
    and dec: "decoding idx order s t" and idx: "idx < length (ss_running s)" and b: "0 < st_budget t"
  shows "step_inv cfg s' t' \<and> decoding (if go then Suc idx else idx) order s' t'
      \<and> ss_finished_req_ids s' = ss_finished_req_ids s"
proof -
  define rid where "rid = ss_running s ! idx"
  have later: "decoding (Suc idx) order s t"
    using dec set_take_subset_set_take [of idx "Suc idx" "ss_running s"] by (auto simp: decoding_def)
  show ?thesis
  proof (cases "rid \<in> ss_scheduled_req_ids s")
    case True
    then show ?thesis using run inv later by (auto simp: decode_one_def rid_def)
  next
    case False
    then obtain n where n: "decode_demand cfg (ss_obj s rid) t = Inr n"
      and more: "(if n = 0 then Inr (True, s, t)
           else rbind (make_room cfg ext rid n (s, t)) (\<lambda>(blocks, s', t').
             case blocks of
               None \<Rightarrow> Inr (False, s', t')
             | Some bs \<Rightarrow> Inr (True, continue_request cfg rid idx n bs (s', t')))) = Inr (go, s', t')"
      using run False unfolding decode_one_def Let_def prod.case rid_def [symmetric]
      by (auto simp: rbind_Inr_iff)
    show ?thesis
    proof (cases "n = 0")
      case True
      then show ?thesis using more inv later by auto
    next
      case False
      then obtain bl s1 t1 where mr: "make_room cfg ext rid n (s, t) = Inr (bl, s1, t1)"
        and fin: "(case bl of None \<Rightarrow> Inr (False, s1, t1)
             | Some bs \<Rightarrow> Inr (True, continue_request cfg rid idx n bs (s1, t1))) = (Inr (go, s', t') :: _ res)"
        using more by (auto simp: rbind_Inr_iff)
      have dist: "distinct (ss_running s)" using inv by (simp add: step_inv_def)
      obtain tail where suf: "preempted_suffix tail (s, t) (s1, t1)"
        "case bl of None \<Rightarrow> ss_running s1 = take idx (ss_running s) | Some _ \<Rightarrow> idx < length (ss_running s1)"
        using make_room_ok [OF mr idx _ dist] rid_def by auto
      have P: "ss_running s = ss_running s1 @ tail" "ss_waiting s1 = tail @ ss_waiting s"
        "t1 = t\<lparr>st_preempted := st_preempted t @ rev tail\<rparr>"
        "ss_scheduled_req_ids s1 = ss_scheduled_req_ids s"
        "ss_finished_req_ids s1 = ss_finished_req_ids s"
        using suf(1) by (simp_all add: preempted_suffix_def)
      have tk: "take idx (ss_running s) = take idx (ss_running s1)"
      proof (cases bl)
        case None
        then have "ss_running s1 = take idx (ss_running s)" using suf(2) by simp
        then show ?thesis by simp
      next
        case (Some bs)
        then have "idx < length (ss_running s1)" using suf(2) by simp
        then show ?thesis by (simp add: P(1))
      qed
      have d1: "decoding idx order s1 t1"
        using dec tk by (auto simp: decoding_def P)
      have i1: "step_inv cfg s1 t1"
      proof -
        have "set (scheduled_ids t) \<subseteq> set (ss_running s1)"
          using dec tk set_take_subset [of idx "ss_running s1"]
          by (auto simp: decoding_def scheduled_ids_def)
        then show ?thesis using inv dist P(1) by (auto simp: step_inv_def P scheduled_ids_def)
      qed
      show ?thesis
      proof (cases bl)
        case None
        then show ?thesis using fin i1 d1 P(5) by auto
      next
        case (Some bs)
        then have c: "continue_request cfg rid idx n bs (s1, t1) = (s', t')" "go" using fin by auto
        have "idx < length (ss_running s1)" using suf(2) Some by simp
        moreover from this have "ss_running s1 ! idx = rid" using P(1) by (simp add: rid_def nth_append)
        moreover have "n \<le> st_budget t1" using decode_demand_bound [OF n b] by (simp add: P)
        ultimately show ?thesis using continue_request_effect [OF i1 d1 _ _ _ c(1)] c(2) P(5) by simp
      qed
    qed
  qed
qed

lemma decode_loop_ok:
  assumes "decode_loop cfg ext idx (s, t) = Inr (s', t')" "step_inv cfg s t" "decoding idx order s t"
  shows "step_inv cfg s' t' \<and> (\<exists>idx'. decoding idx' order s' t')
      \<and> ss_finished_req_ids s' = ss_finished_req_ids s"
  using assms
proof (induction cfg ext idx "(s, t)" arbitrary: s t rule: decode_loop.induct)
  case (1 cfg ext idx s t)
  show ?case
  proof (cases "idx < length (ss_running s) \<and> 0 < st_budget t")
    case False
    then show ?thesis using "1.prems" by (auto simp: decode_loop.simps [of cfg ext idx s t])
  next
    case True
    then obtain go s1 t1 where one: "decode_one cfg ext idx (s, t) = Inr (go, s1, t1)"
      and more: "(if go then decode_loop cfg ext (Suc idx) (s1, t1) else Inr (s1, t1)) = Inr (s', t')"
      using "1.prems"(1) by (auto simp: decode_loop.simps [of cfg ext idx s t] rbind_Inr_iff)
    have ok: "step_inv cfg s1 t1" "decoding (if go then Suc idx else idx) order s1 t1"
      "ss_finished_req_ids s1 = ss_finished_req_ids s"
      using decode_one_ok [OF one "1.prems"(2,3)] True by auto
    show ?thesis
    proof (cases go)
      case True
      then show ?thesis using "1.hyps" [OF _ one _ refl] more ok \<open>idx < length _ \<and> _\<close> by auto
    next
      case False
      then show ?thesis using more ok by auto
    qed
  qed
qed

section \<open>A step\<close>

text \<open>Between steps: no id is queued twice and the running list is within its limit.\<close>

definition sched_inv :: "sched_config \<Rightarrow> 'w sched_state \<Rightarrow> bool" where
  "sched_inv cfg s \<longleftrightarrow>
     distinct (ss_running s @ ss_waiting s) \<and> length (ss_running s) \<le> sc_max_num_running_reqs cfg
     \<and> 0 \<le> sc_max_num_scheduled_tokens cfg"

lemma new_step_inv: "sched_inv cfg s \<Longrightarrow> step_inv cfg s (new_step cfg) \<and> whole_prompts s (new_step cfg)"
  by (auto simp: sched_inv_def step_inv_def new_step_def scheduled_ids_def whole_prompts_def)

lemma extendleft_rev: "extendleft queue xs = rev xs @ queue"
  by (induction xs arbitrary: queue) (auto simp: extendleft_def)

lemma prefill_ok:
  assumes inv: "sched_inv cfg s" and run: "prefill cfg ext (s, new_step cfg) = Inr (s1, t1)"
  shows "step_inv cfg s1 t1 \<and> whole_prompts s1 t1 \<and> subseq (ss_waiting s1) (ss_waiting s)
     \<and> st_running t1 = [] \<and> st_preempted t1 = []
     \<and> ss_finished_req_ids s \<subseteq> ss_finished_req_ids s1
     \<and> ss_scheduled_req_ids s \<subseteq> ss_scheduled_req_ids s1
     \<and> (\<exists>new. ss_running s1 = ss_running s @ new \<and> set new \<subseteq> ss_scheduled_req_ids s1)
     \<and> (\<exists>dropped. mset (ss_waiting s) + mset (ss_running s)
           = mset (ss_waiting s1) + mset (ss_running s1) + mset dropped
         \<and> set dropped \<subseteq> ss_finished_req_ids s1)"
proof -
  obtain rest s0 where l: "prefill_loop cfg ext (ss_waiting s) (s, new_step cfg) = Inr (rest, s0, t1)"
    and s1: "s1 = s0\<lparr>ss_waiting := extendleft rest (st_skipped t1)\<rparr>"
    using run by (auto simp: prefill_def rbind_Inr_iff)
  have "distinct (ss_waiting s)" "set (ss_waiting s) \<inter> set (ss_running s) = {}"
    using inv by (auto simp: sched_inv_def)
  then have ok: "step_inv cfg s0 t1" "whole_prompts s0 t1"
    "queue_moved (ss_waiting s) (s, new_step cfg) rest (s0, t1)"
    using prefill_loop_ok [OF l] new_step_inv [OF inv] by auto
  then obtain dropped where "mset (ss_waiting s) + mset (ss_running s)
      = mset rest + mset (st_skipped t1) + mset (ss_running s0) + mset dropped"
      "set dropped \<subseteq> ss_finished_req_ids s0"
    by (auto simp: queue_moved_def new_step_def)
  then have "\<exists>dropped. mset (ss_waiting s) + mset (ss_running s)
           = mset (ss_waiting s1) + mset (ss_running s1) + mset dropped
         \<and> set dropped \<subseteq> ss_finished_req_ids s1"
    by (intro exI [of _ dropped]) (simp add: s1 extendleft_rev)
  then show ?thesis
    using ok by (simp add: s1 extendleft_rev step_inv_def whole_prompts_def queue_moved_def new_step_def)
qed

lemma sched_inv_prefill:
  assumes inv: "sched_inv cfg s" and run: "prefill cfg ext (s, new_step cfg) = Inr (s1, t1)"
  shows "distinct (ss_running s1 @ ss_waiting s1)"
proof -
  obtain dropped where "mset (ss_waiting s) + mset (ss_running s)
      = mset (ss_waiting s1) + mset (ss_running s1) + mset dropped"
    using prefill_ok [OF assms] by blast
  then have "mset (ss_running s @ ss_waiting s) = mset (ss_running s1 @ ss_waiting s1 @ dropped)"
    by (simp add: ac_simps)
  then have "distinct (ss_running s1 @ ss_waiting s1 @ dropped)"
    using inv unfolding sched_inv_def by (metis distinct_count_atmost_1 set_mset_mset)
  then show ?thesis by auto
qed

lemma decode_ok:
  fixes s1 :: "'w sched_state"
  assumes inv: "step_inv cfg s1 t1" and dist: "distinct (ss_running s1 @ ss_waiting s1)"
    and start: "st_running t1 = []" "st_preempted t1 = []"
    and run: "decode cfg ext (s1, t1) = Inr (s2, t2)"
  shows "step_inv cfg s2 t2
     \<and> (\<exists>tail. ss_running s1 = ss_running s2 @ tail \<and> ss_waiting s2 = tail @ ss_waiting s1)
     \<and> ss_finished_req_ids s2 = ss_finished_req_ids s1
     \<and> set (st_preempted t2) \<subseteq> set (ss_waiting s2)
     \<and> ((s2, t2) = (s1, t1) \<or> ss_scheduled_req_ids s1 = {} \<and> st_new t2 = [] \<and> st_resumed t2 = [])"
proof (cases "ss_scheduled_req_ids s1 = {} \<and> ss_forced_mode s1 \<noteq> Some 1")
  case True
  then have l: "decode_loop cfg ext 0 (s1, t1) = Inr (s2, t2)" using run by (simp add: decode_def)
  have "st_new t1 = []" "st_resumed t1 = []"
    using inv True by (auto simp: step_inv_def scheduled_ids_def)
  then have d0: "decoding 0 (ss_running s1, ss_waiting s1) s1 t1"
    using dist start by (simp add: decoding_def)
  show ?thesis using decode_loop_ok [OF l inv d0] True by (auto simp: decoding_def)
next
  case False
  then have "Inr (s1, t1) = (Inr (s2, t2) :: ('w sched_state \<times> step) res)"
    using run unfolding decode_def by (simp only: fst_conv if_False)
  then have "s2 = s1" "t2 = t1" by simp_all
  then show ?thesis using inv start by simp
qed

definition advance :: "(req_id, int) dict \<Rightarrow> 'w sched_state \<Rightarrow> 'w sched_state" where
  "advance d s =
     fold (\<lambda>(r, n). set_obj r (\<lambda>q. q\<lparr>sr_num_computed_tokens := sr_num_computed_tokens q + n\<rparr>)) d s"

lemma advance_frame [simp]:
  "ss_waiting (advance d s) = ss_waiting s" "ss_running (advance d s) = ss_running s"
  "ss_scheduled_req_ids (advance d s) = ss_scheduled_req_ids s"
  by (induction d arbitrary: s) (auto simp: advance_def)

lemma advance_obj:
  "distinct (dkeys d) \<Longrightarrow> ss_obj (advance d s) r =
    (case dget d r of None \<Rightarrow> ss_obj s r
     | Some n \<Rightarrow> (ss_obj s r)\<lparr>sr_num_computed_tokens := sr_num_computed_tokens (ss_obj s r) + n\<rparr>)"
proof (induction d arbitrary: s)
  case (Cons kn d)
  obtain k n where kn: "kn = (k, n)" by (cases kn)
  have "dget d k = None" using Cons.prems by (auto simp: kn dget_None_iff)
  then show ?case
    using Cons.IH [of "set_obj k (\<lambda>q. q\<lparr>sr_num_computed_tokens := sr_num_computed_tokens q + n\<rparr>) s"] Cons.prems
    by (auto simp: kn advance_def split: option.split)
qed (simp add: advance_def)

lemma schedule_stages:
  assumes inv: "sched_inv cfg s" and run: "schedule cfg ext s = Inr (out, s')"
  obtains s1 t1 s2 t2 where "prefill cfg ext (s, new_step cfg) = Inr (s1, t1)"
    "decode cfg ext (s1, t1) = Inr (s2, t2)"
    "map fst (out_new_reqs out) = st_new t2" "out_resumed_reqs out = st_resumed t2"
    "out_running_reqs out = st_running t2" "out_num_scheduled out = st_num_scheduled t2"
    "out_total out = sum_list (map snd (st_num_scheduled t2))"
    "out_finished out = ss_finished_req_ids s2"
    "s' = (advance (st_num_scheduled t2) s2)\<lparr>ss_finished_req_ids := {}\<rparr>"
    "step_inv cfg s2 t2" "distinct (ss_running s2 @ ss_waiting s2)"
proof -
  obtain s1 t1 where p: "prefill cfg ext (s, new_step cfg) = Inr (s1, t1)"
    using run by (auto simp: schedule_def rbind_Inr_iff)
  obtain s2 t2 where d: "decode cfg ext (s1, t1) = Inr (s2, t2)"
    using run p by (auto simp: schedule_def rbind_Inr_iff)
  obtain news where news: "rmap (\<lambda>r. rbind (ditem (st_new_blocks t2) r) (\<lambda>b. Inr (r, b))) (st_new t2) = Inr news"
    and out: "out = \<lparr> out_new_reqs = news, out_running_reqs = st_running t2, out_resumed_reqs = st_resumed t2,
               out_new_blocks = st_new_blocks t2, out_num_scheduled = st_num_scheduled t2,
               out_total = sum_list (map snd (st_num_scheduled t2)), out_spec = st_spec t2,
               out_structured = st_structured t2, out_finished = ss_finished_req_ids s2 \<rparr>"
    and s': "s' = (advance (st_num_scheduled t2) s2)\<lparr>ss_finished_req_ids := {}\<rparr>"
    using run p d by (auto simp: schedule_def rbind_Inr_iff Let_def advance_def)
  have "map fst news = st_new t2"
  proof (rule nth_equalityI)
    show "length (map fst news) = length (st_new t2)" using news by (simp add: rmap_Inr_conv)
    show "map fst news ! i = st_new t2 ! i" if "i < length (map fst news)" for i
    proof -
      have "rbind (ditem (st_new_blocks t2) (st_new t2 ! i)) (\<lambda>b. Inr (st_new t2 ! i, b)) = Inr (news ! i)"
        using news that by (simp add: rmap_Inr_conv)
      then have "fst (news ! i) = st_new t2 ! i" by (auto simp: rbind_Inr_iff) (metis fst_conv)
      then show ?thesis using that by simp
    qed
  qed
  moreover have "step_inv cfg s2 t2" "distinct (ss_running s2 @ ss_waiting s2)"
    using decode_ok [OF _ sched_inv_prefill [OF inv p] _ _ d] prefill_ok [OF inv p]
      sched_inv_prefill [OF inv p] by auto
  ultimately show ?thesis using that [OF p d] out s' by simp
qed

section \<open>A step completes\<close>

text \<open>The requests a step can handle: a waiting one is in a waiting status, has tokens left to compute
  and respects the assertion on long adapters; a running one has exactly one token left.\<close>

definition admissible :: "sched_config \<Rightarrow> sched_request \<Rightarrow> bool" where
  "admissible cfg q \<longleftrightarrow>
     sr_status q \<in> {Waiting, Preempted, WaitingForFsm, WaitingForRemoteKvs}
     \<and> sr_num_computed_tokens q < sr_num_tokens q
     \<and> (\<forall>l. sr_lora q = Some l \<and> lora_long_max_len l \<noteq> 0
          \<longrightarrow> min (sc_max_model_len cfg) (sc_max_num_scheduled_tokens cfg) \<le> lora_long_max_len l)"

definition decodable :: "sched_request \<Rightarrow> bool" where
  "decodable q \<longleftrightarrow> sr_num_tokens q - sr_num_computed_tokens q = 1"

text \<open>What the step relies on of vLLM: a request that waited for remote blocks stays admissible; at
  least one token of a prompt is not cached; an asynchronous load has tokens to load; block lists
  have a group.\<close>

definition ext_laws :: "sched_config \<Rightarrow> 'w sched_ext \<Rightarrow> bool" where
  "ext_laws cfg ext \<longleftrightarrow>
     (\<forall>rid q w. admissible cfg q \<longrightarrow> admissible cfg (fst (snd (se_remote_ready ext rid q w))))
     \<and> (\<forall>rid q w. admissible cfg q \<and> sr_num_computed_tokens q = 0 \<longrightarrow>
          (case se_computed_blocks ext rid q w of (blocks, local, _) \<Rightarrow>
             blocks \<noteq> [] \<and> (\<forall>w'. case se_matched_tokens ext rid q local w' of (external, load_async, _) \<Rightarrow>
               local + external < sr_num_tokens q \<and> (load_async \<longrightarrow> 0 < external))))
     \<and> se_empty_blocks ext \<noteq> []"

lemma admissible_waiting: "admissible cfg q \<Longrightarrow> admissible cfg (q\<lparr>sr_status := Waiting\<rparr>)"
  by (simp add: admissible_def)

lemma ready_gate_admits:
  assumes "ready_gate ext rid s = (True, s')" "admissible cfg (ss_obj s rid)" "ext_laws cfg ext"
  shows "admissible cfg (ss_obj s' rid) \<and> sr_status (ss_obj s' rid) \<in> {Waiting, Preempted}"
proof (cases "sr_status (ss_obj s rid) = WaitingForRemoteKvs")
  case True
  obtain ready q w where r: "se_remote_ready ext rid (ss_obj s rid) (ss_world s) = (ready, q, w)"
    by (cases "se_remote_ready ext rid (ss_obj s rid) (ss_world s)")
  have "admissible cfg q" using assms(2,3) r unfolding ext_laws_def by (metis fst_conv snd_conv)
  then show ?thesis
    using assms(1) True r admissible_waiting by (auto simp: ready_gate_def Let_def split: if_splits)
next
  case False
  then show ?thesis using assms(1,2) admissible_waiting
    by (auto simp: ready_gate_def Let_def admissible_def split: if_splits)
qed

lemma cached_prefix_demand:
  assumes c: "cached_prefix ext rid s = (blocks, local, external, load_async, num_computed, s')"
    and ok: "admissible cfg (ss_obj s rid)" and laws: "ext_laws cfg ext"
  shows "blocks \<noteq> [] \<and> num_computed < sr_num_tokens (ss_obj s rid) \<and> (load_async \<longrightarrow> 0 < external)"
proof (cases "sr_num_computed_tokens (ss_obj s rid) = 0")
  case True
  obtain b0 l0 w1 where cb: "se_computed_blocks ext rid (ss_obj s rid) (ss_world s) = (b0, l0, w1)"
    by (cases "se_computed_blocks ext rid (ss_obj s rid) (ss_world s)")
  obtain e0 a0 w2 where mt: "se_matched_tokens ext rid (ss_obj s rid) l0 w1 = (e0, a0, w2)"
    by (cases "se_matched_tokens ext rid (ss_obj s rid) l0 w1")
  have "b0 = blocks" "e0 = external" "a0 = load_async" "num_computed = l0 + e0"
    using c True cb mt by (simp_all add: cached_prefix_def Let_def)
  moreover have "case se_computed_blocks ext rid (ss_obj s rid) (ss_world s) of (blocks, local, _) \<Rightarrow>
             blocks \<noteq> [] \<and> (\<forall>w'. case se_matched_tokens ext rid (ss_obj s rid) local w' of (external, load_async, _) \<Rightarrow>
               local + external < sr_num_tokens (ss_obj s rid) \<and> (load_async \<longrightarrow> 0 < external))"
  proof -
    have "\<forall>rid q w. admissible cfg q \<and> sr_num_computed_tokens q = 0 \<longrightarrow> (case se_computed_blocks ext rid q w of (blocks, local, _) \<Rightarrow>
             blocks \<noteq> [] \<and> (\<forall>w'. case se_matched_tokens ext rid q local w' of (external, load_async, _) \<Rightarrow>
               local + external < sr_num_tokens q \<and> (load_async \<longrightarrow> 0 < external)))"
      using laws unfolding ext_laws_def by (elim conjE)
    from this [THEN spec, THEN spec, THEN spec, THEN mp, OF conjI [OF ok True], of rid "ss_world s"] show ?thesis .
  qed
  then have bl: "b0 \<noteq> []" and h: "\<forall>w'. case se_matched_tokens ext rid (ss_obj s rid) l0 w' of (external, load_async, _) \<Rightarrow>
               l0 + external < sr_num_tokens (ss_obj s rid) \<and> (load_async \<longrightarrow> 0 < external)"
    by (simp_all add: cb)
  ultimately show ?thesis using spec [OF h, of w1] mt bl by simp
next
  case False
  then show ?thesis using c ok laws by (auto simp: cached_prefix_def ext_laws_def admissible_def)
qed

lemma prompt_demand_total:
  assumes "admissible cfg (ss_obj s rid)" "blocks \<noteq> []" "num_computed < sr_num_tokens (ss_obj s rid)"
    "load_async \<longrightarrow> 0 < external"
  shows "\<exists>r. prompt_demand cfg rid blocks external load_async num_computed budget s = Inr r"
proof -
  have "\<exists>l. get_prompt_limit cfg (ss_obj s rid) = Inr l"
    using assms(1) by (auto simp: get_prompt_limit_def admissible_def Let_def split: option.split)
  then show ?thesis using assms(2-4) by (auto simp: prompt_demand_def Let_def)
qed

lemma prefill_one_total:
  assumes "admissible cfg (ss_obj s rid)" "ext_laws cfg ext"
  shows "\<exists>v s' t'. prefill_one cfg ext rid (s, t) = Inr (v, s', t')"
proof -
  obtain ready s1 where g: "ready_gate ext rid s = (ready, s1)" by (cases "ready_gate ext rid s")
  obtain blocks local external load_async num_computed s2 where
    c: "cached_prefix ext rid s1 = (blocks, local, external, load_async, num_computed, s2)"
    by (cases "cached_prefix ext rid s1")
  show ?thesis
  proof (cases "\<not> ready \<or> exceeds_loras cfg (st_loras t) (ss_obj s1 rid)")
    case True
    then show ?thesis using g by (auto simp: prefill_one_def)
  next
    case False
    then have a1: "admissible cfg (ss_obj s1 rid)" "sr_status (ss_obj s1 rid) \<in> {Waiting, Preempted}"
      using ready_gate_admits [of ext rid s s1] g assms by auto
    have o2: "ss_obj s2 = ss_obj s1" using cached_prefix_frame [OF c] by simp
    obtain v num_new group where
      d: "prompt_demand cfg rid blocks external load_async num_computed (st_budget t) s2 = Inr (v, num_new, group)"
      using prompt_demand_total [of cfg s2 rid blocks num_computed load_async external "st_budget t"]
        cached_prefix_demand [OF c a1(1) assms(2)] a1(1) o2 by auto
    obtain b w where al: "se_allocate ext rid (ss_obj s2 rid) (num_new + external) local blocks
                       (sc_num_lookahead_tokens cfg) load_async (ss_world s2) = (b, w)"
      by (cases "se_allocate ext rid (ss_obj s2 rid) (num_new + external) local blocks
                       (sc_num_lookahead_tokens cfg) load_async (ss_world s2)")
    have "\<exists>r. start_request cfg ext rid num_new num_computed bl (s2\<lparr>ss_world := x\<rparr>, t) = Inr r" for bl x
      using a1(2) o2 by (auto simp: start_request_def Let_def)
    then show ?thesis
      using False g c d al
      by (cases b) (auto simp: prefill_one_def Let_def rbind_Inr_iff)
  qed
qed

lemma prefill_loop_total:
  assumes "\<forall>r \<in> set queue. admissible cfg (ss_obj s r)" "distinct queue" "ext_laws cfg ext"
  shows "\<exists>r. prefill_loop cfg ext queue (s, t) = Inr r"
  using assms(1,2)
proof (induction queue arbitrary: s t)
  case (Cons rid queue)
  obtain v s1 t1 where one: "prefill_one cfg ext rid (s, t) = Inr (v, s1, t1)"
    using prefill_one_total [of cfg s rid ext t] Cons.prems(1) assms(3) by auto
  have "\<forall>r \<in> set queue. admissible cfg (ss_obj s1 r)"
    using prefill_one_effect [OF one] Cons.prems by auto
  then show ?case using Cons.IH [of s1] Cons.prems(2) one by auto
qed simp

lemma preempt_last_total:
  "ss_running s \<noteq> [] \<Longrightarrow> \<exists>v s' t'. preempt_last ext (s, t) = Inr (v, s', t')"
  by (simp add: preempt_last_def Let_def)

lemma make_room_total:
  "rid \<in> set (ss_running s) \<Longrightarrow> \<exists>r. make_room cfg ext rid n (s, t) = Inr r"
proof (induction cfg ext rid n "(s, t)" arbitrary: s t rule: make_room.induct)
  case (1 cfg ext rid n s t)
  obtain c w where al: "se_allocate ext rid (ss_obj s rid) n 0 (se_empty_blocks ext)
             (sc_num_lookahead_tokens cfg) False (ss_world s) = (c, w)"
    by (cases "se_allocate ext rid (ss_obj s rid) n 0 (se_empty_blocks ext)
             (sc_num_lookahead_tokens cfg) False (ss_world s)")
  show ?case
  proof (cases c)
    case None
    obtain victim s1 t1 where p: "preempt_last ext (s\<lparr>ss_world := w\<rparr>, t) = Inr (victim, s1, t1)"
    proof -
      have "ss_running (s\<lparr>ss_world := w\<rparr>) \<noteq> []" using "1.prems" by auto
      from preempt_last_total [OF this, of ext t] show ?thesis using that by blast
    qed
    have run: "ss_running s = ss_running s1 @ [victim]"
      using preempt_last_running [OF p] by simp
    show ?thesis
    proof (cases "victim = rid")
      case True
      then show ?thesis using al None p by (simp add: make_room.simps [of cfg ext rid n s t])
    next
      case False
      then have "rid \<in> set (ss_running s1)" using "1.prems" run by auto
      then show ?thesis
        using "1.hyps" [OF al [symmetric] None p _ refl False] al None p False
        by (simp add: make_room.simps [of cfg ext rid n s t])
    qed
  next
    case (Some bs)
    then show ?thesis using al by (simp add: make_room.simps [of cfg ext rid n s t])
  qed
qed

definition decodable_all :: "'w sched_state \<Rightarrow> bool" where
  "decodable_all s \<longleftrightarrow> distinct (ss_running s) \<and> (\<forall>r \<in> set (ss_running s). decodable (ss_obj s r))"

lemma decode_one_total:
  assumes "decodable_all s" "idx < length (ss_running s)"
  shows "\<exists>go s' t'. decode_one cfg ext idx (s, t) = Inr (go, s', t') \<and> decodable_all s'"
proof -
  define rid where "rid = ss_running s ! idx"
  have mem: "rid \<in> set (ss_running s)" using assms(2) by (simp add: rid_def)
  have dist: "distinct (ss_running s)" using assms(1) by (simp add: decodable_all_def)
  obtain n where n: "decode_demand cfg (ss_obj s rid) t = Inr n"
    using assms(1) mem by (auto simp: decode_demand_def decodable_all_def decodable_def Let_def)
  obtain b s1 t1 where mr: "make_room cfg ext rid n (s, t) = Inr (b, s1, t1)"
    using make_room_total [OF mem, of cfg ext n t] by auto
  obtain tail where "preempted_suffix tail (s, t) (s1, t1)"
    using make_room_ok [OF mr assms(2) _ dist] rid_def by auto
  then have run1: "ss_running s = ss_running s1 @ tail" "\<forall>r. r \<notin> set tail \<longrightarrow> ss_obj s1 r = ss_obj s r"
    by (auto simp: preempted_suffix_def)
  then have d1: "decodable_all s1" using assms(1) by (auto simp: decodable_all_def)
  have d2: "decodable_all (fst (continue_request cfg rid idx n bs (s1, t1)))" for bs
    using d1 by (auto simp: decodable_all_def decodable_def continue_request_def Let_def)
  show ?thesis
  proof (cases "rid \<in> ss_scheduled_req_ids s \<or> n = 0")
    case True
    then show ?thesis using n assms(1) by (auto simp: decode_one_def rid_def [symmetric] Let_def)
  next
    case False
    show ?thesis
    proof (cases b)
      case None
      then show ?thesis using False n mr d1 by (auto simp: decode_one_def rid_def [symmetric] Let_def)
    next
      case (Some bs)
      obtain s2 t2 where "continue_request cfg rid idx n bs (s1, t1) = (s2, t2)" by (metis surj_pair)
      then show ?thesis using Some False n mr d2 [of bs]
        by (auto simp: decode_one_def rid_def [symmetric] Let_def)
    qed
  qed
qed

lemma decode_loop_total:
  "decodable_all s \<Longrightarrow> \<exists>r. decode_loop cfg ext idx (s, t) = Inr r"
proof (induction cfg ext idx "(s, t)" arbitrary: s t rule: decode_loop.induct)
  case (1 cfg ext idx s t)
  show ?case
  proof (cases "idx < length (ss_running s) \<and> 0 < st_budget t")
    case True
    then obtain go s1 t1 where one: "decode_one cfg ext idx (s, t) = Inr (go, s1, t1)" "decodable_all s1"
      using decode_one_total [OF "1.prems"] by blast
    then show ?thesis
      using "1.hyps" [OF True one(1) _ refl _ one(2)] True
      by (cases go) (auto simp: decode_loop.simps [of cfg ext idx s t])
  qed (auto simp: decode_loop.simps [of cfg ext idx s t])
qed

lemma final_assertions_core:
  assumes inv: "sched_inv cfg s" and p: "prefill cfg ext (s, new_step cfg) = Inr (s1, t1)"
    and d: "decode cfg ext (s1, t1) = Inr (s2, t2)"
  shows "\<exists>r. schedule cfg ext s = Inr r"
proof -
  have inv2: "step_inv cfg s2 t2"
    using decode_ok [OF _ sched_inv_prefill [OF inv p] _ _ d] prefill_ok [OF inv p] by auto
  have "length (scheduled_ids t2) = card (set (scheduled_ids t2))"
    using inv2 by (simp add: step_inv_def distinct_card)
  also have "\<dots> \<le> card (set (ss_running s2))" using inv2 by (simp add: step_inv_def card_mono)
  also have "\<dots> \<le> length (ss_running s2)" by (rule card_length)
  finally have "length (st_new t2) + length (st_resumed t2) + length (st_running t2) \<le> length (ss_running s2)"
    by (simp add: scheduled_ids_def)
  moreover have "\<exists>b. ditem (st_new_blocks t2) r = Inr b" if "r \<in> set (st_new t2)" for r
  proof -
    have "r \<in> set (dkeys (st_new_blocks t2))" using that inv2 by (auto simp: step_inv_def scheduled_ids_def)
    then show ?thesis using dget_None_iff [of "st_new_blocks t2" r] by (auto simp: ditem_def)
  qed
  then have "\<exists>news. rmap (\<lambda>r. rbind (ditem (st_new_blocks t2) r) (\<lambda>b. Inr (r, b))) xs = Inr news"
    if "set xs \<subseteq> set (st_new t2)" for xs
    using that by (induction xs) force+
  then obtain news where "rmap (\<lambda>r. rbind (ditem (st_new_blocks t2) r) (\<lambda>b. Inr (r, b))) (st_new t2) = Inr news"
    by blast
  ultimately show ?thesis
    using p d inv2 by (simp add: schedule_def step_inv_def Let_def)
qed

section \<open>Properties\<close>

text \<open>C1. A step stays within its limits: the tokens it schedules sum up to at most the budget and to
  the reported total, the running list stays within its limit and without duplicates, and every
  scheduled request is running and scheduled once.\<close>

theorem step_within_limits:
  assumes "sched_inv cfg s" and "schedule cfg ext s = Inr (out, s')"
  shows "out_total out = sum_list (map snd (out_num_scheduled out))
      \<and> out_total out \<le> sc_max_num_scheduled_tokens cfg
      \<and> sched_inv cfg s'
      \<and> distinct (map fst (out_new_reqs out) @ out_resumed_reqs out @ out_running_reqs out)
      \<and> set (map fst (out_new_reqs out) @ out_resumed_reqs out @ out_running_reqs out)
          = set (dkeys (out_num_scheduled out))
      \<and> set (dkeys (out_num_scheduled out)) \<subseteq> set (ss_running s')"
proof -
  obtain s1 t1 s2 t2 where "map fst (out_new_reqs out) = st_new t2" "out_resumed_reqs out = st_resumed t2"
    "out_running_reqs out = st_running t2" "out_num_scheduled out = st_num_scheduled t2"
    "out_total out = sum_list (map snd (st_num_scheduled t2))"
    "s' = (advance (st_num_scheduled t2) s2)\<lparr>ss_finished_req_ids := {}\<rparr>"
    "step_inv cfg s2 t2" "distinct (ss_running s2 @ ss_waiting s2)"
    by (rule schedule_stages [OF assms])
  then show ?thesis
    using assms(1) by (simp add: step_inv_def sched_inv_def scheduled_ids_def del: set_map)
qed

text \<open>C19. The assertions at the end of a step never fail, nor the lookups of the blocks of the new
  requests: when \<open>schedule\<close> raises, one of its two loops did.\<close>

theorem final_assertions_hold:
  assumes "sched_inv cfg s" and "schedule cfg ext s = Inl e"
  shows "prefill cfg ext (s, new_step cfg) = Inl e
      \<or> (\<exists>acc. prefill cfg ext (s, new_step cfg) = Inr acc \<and> decode cfg ext acc = Inl e)"
proof (rule ccontr)
  assume neg: "\<not> ?thesis"
  then obtain s1 t1 where p: "prefill cfg ext (s, new_step cfg) = Inr (s1, t1)"
    using assms(2) by (cases "prefill cfg ext (s, new_step cfg)") (auto simp: schedule_def)
  then obtain s2 t2 where d: "decode cfg ext (s1, t1) = Inr (s2, t2)"
    using assms(2) neg by (cases "decode cfg ext (s1, t1)") (auto simp: schedule_def)
  show False using final_assertions_core [OF assms(1) p d] assms(2) by simp
qed

text \<open>C28. A step never mixes prefill and decode, and it decodes only when no request is in flight.\<close>

theorem prefill_and_decode_separate:
  assumes "sched_inv cfg s" and "schedule cfg ext s = Inr (out, s')" and "out_running_reqs out \<noteq> []"
  shows "out_new_reqs out = [] \<and> out_resumed_reqs out = [] \<and> ss_scheduled_req_ids s = {}"
proof -
  obtain s1 t1 s2 t2 where st: "prefill cfg ext (s, new_step cfg) = Inr (s1, t1)"
    "decode cfg ext (s1, t1) = Inr (s2, t2)" "map fst (out_new_reqs out) = st_new t2"
    "out_resumed_reqs out = st_resumed t2" "out_running_reqs out = st_running t2"
    by (rule schedule_stages [OF assms(1,2)])
  note P = prefill_ok [OF assms(1) st(1)]
  have "(s2, t2) = (s1, t1) \<or> ss_scheduled_req_ids s1 = {} \<and> st_new t2 = [] \<and> st_resumed t2 = []"
    using decode_ok [OF _ sched_inv_prefill [OF assms(1) st(1)] _ _ st(2)] P by auto
  then show ?thesis using P st(3-5) assms(3) by auto
qed

text \<open>C2. No request is lost or duplicated: the waiting and the running requests after a step are
  those before it, except for the ones dropped because their prompt can never fit, which are
  reported as finished.\<close>

theorem requests_conserved:
  assumes "sched_inv cfg s" and "schedule cfg ext s = Inr (out, s')"
  shows "\<exists>dropped. mset (ss_waiting s @ ss_running s)
        = mset (ss_waiting s' @ ss_running s' @ dropped) \<and> set dropped \<subseteq> out_finished out"
proof -
  obtain s1 t1 s2 t2 where st: "prefill cfg ext (s, new_step cfg) = Inr (s1, t1)"
    "decode cfg ext (s1, t1) = Inr (s2, t2)" "out_finished out = ss_finished_req_ids s2"
    "s' = (advance (st_num_scheduled t2) s2)\<lparr>ss_finished_req_ids := {}\<rparr>"
    by (rule schedule_stages [OF assms])
  note P = prefill_ok [OF assms(1) st(1)]
  have D: "\<exists>tail. ss_running s1 = ss_running s2 @ tail \<and> ss_waiting s2 = tail @ ss_waiting s1"
    "ss_finished_req_ids s2 = ss_finished_req_ids s1"
    using decode_ok [OF _ sched_inv_prefill [OF assms(1) st(1)] _ _ st(2)] P by auto
  obtain dropped where "mset (ss_waiting s) + mset (ss_running s)
           = mset (ss_waiting s1) + mset (ss_running s1) + mset dropped"
         "set dropped \<subseteq> ss_finished_req_ids s1" using P by blast
  moreover have "mset (ss_waiting s2) + mset (ss_running s2) = mset (ss_waiting s1) + mset (ss_running s1)"
    using D(1) by (auto simp: ac_simps)
  ultimately show ?thesis by (intro exI [of _ dropped]) (simp add: st D(2) ac_simps)
qed

text \<open>C24. First come, first served is kept: requests that were skipped return to the queue in their
  order, and preempted ones, which are the end of the running list, go in front of it in theirs;
  no request scheduled in the step is among them.\<close>

theorem queue_order_kept:
  assumes "sched_inv cfg s" and "schedule cfg ext s = Inr (out, s')"
  shows "\<exists>preempted queue. ss_waiting s' = preempted @ queue \<and> subseq queue (ss_waiting s)
      \<and> set preempted \<inter> set (dkeys (out_num_scheduled out)) = {}
      \<and> (preempted \<noteq> [] \<longrightarrow> ss_running s = ss_running s' @ preempted)"
proof -
  obtain s1 t1 s2 t2 where st: "prefill cfg ext (s, new_step cfg) = Inr (s1, t1)"
    "decode cfg ext (s1, t1) = Inr (s2, t2)" "out_num_scheduled out = st_num_scheduled t2"
    "s' = (advance (st_num_scheduled t2) s2)\<lparr>ss_finished_req_ids := {}\<rparr>"
    "step_inv cfg s2 t2" "distinct (ss_running s2 @ ss_waiting s2)"
    by (rule schedule_stages [OF assms])
  note P = prefill_ok [OF assms(1) st(1)]
  have D: "\<exists>tail. ss_running s1 = ss_running s2 @ tail \<and> ss_waiting s2 = tail @ ss_waiting s1"
    "(s2, t2) = (s1, t1) \<or> ss_scheduled_req_ids s1 = {} \<and> st_new t2 = [] \<and> st_resumed t2 = []"
    using decode_ok [OF _ sched_inv_prefill [OF assms(1) st(1)] _ _ st(2)] P by auto
  obtain tail where tail: "ss_running s1 = ss_running s2 @ tail" "ss_waiting s2 = tail @ ss_waiting s1"
    using D(1) by blast
  have "set (dkeys (st_num_scheduled t2)) \<subseteq> set (ss_running s2)" using st(5) by (simp add: step_inv_def)
  then have "set tail \<inter> set (dkeys (st_num_scheduled t2)) = {}" using st(6) tail(2) by auto
  moreover have "tail \<noteq> [] \<longrightarrow> ss_running s = ss_running s2 @ tail" using D(2) tail P by auto
  ultimately show ?thesis using P tail(2) st(3,4)
    by (intro exI [of _ tail] exI [of _ "ss_waiting s1"]) simp
qed

text \<open>Prompts are never split: when a new or resumed request has been scheduled, all of its
  tokens count as computed after the step.\<close>

theorem prompts_are_whole:
  assumes "sched_inv cfg s" and "schedule cfg ext s = Inr (out, s')"
    and "r \<in> set (map fst (out_new_reqs out) @ out_resumed_reqs out)"
  shows "sr_num_computed_tokens (ss_obj s' r) = sr_num_tokens (ss_obj s' r)"
proof -
  obtain s1 t1 s2 t2 where st: "prefill cfg ext (s, new_step cfg) = Inr (s1, t1)"
    "decode cfg ext (s1, t1) = Inr (s2, t2)" "map fst (out_new_reqs out) = st_new t2"
    "out_resumed_reqs out = st_resumed t2"
    "s' = (advance (st_num_scheduled t2) s2)\<lparr>ss_finished_req_ids := {}\<rparr>" "step_inv cfg s2 t2"
    by (rule schedule_stages [OF assms(1,2)])
  note P = prefill_ok [OF assms(1) st(1)]
  have r: "r \<in> set (st_new t2 @ st_resumed t2)" using assms(3) st(3,4) by simp
  have "(s2, t2) = (s1, t1) \<or> ss_scheduled_req_ids s1 = {} \<and> st_new t2 = [] \<and> st_resumed t2 = []"
    using decode_ok [OF _ sched_inv_prefill [OF assms(1) st(1)] _ _ st(2)] P by auto
  then have "whole_prompts s2 t2" using r P by auto
  then have "dget (st_num_scheduled t2) r =
      Some (sr_num_tokens (ss_obj s2 r) - sr_num_computed_tokens (ss_obj s2 r))"
    using r by (simp add: whole_prompts_def)
  moreover have "distinct (dkeys (st_num_scheduled t2))" using st(6) by (simp add: step_inv_def)
  ultimately show ?thesis by (simp add: st(5) advance_obj)
qed

text \<open>C29. A step completes: when the waiting requests are admissible, every running one has exactly
  one token left, and vLLM keeps its part, \<open>schedule\<close> returns.\<close>

theorem step_completes:
  assumes "sched_inv cfg s" and "ext_laws cfg ext"
    and "\<forall>r \<in> set (ss_waiting s). admissible cfg (ss_obj s r)"
    and "\<forall>r \<in> set (ss_running s). decodable (ss_obj s r)"
  shows "\<exists>out s'. schedule cfg ext s = Inr (out, s')"
proof -
  have dist: "distinct (ss_waiting s)" "set (ss_waiting s) \<inter> set (ss_running s) = {}"
    using assms(1) by (auto simp: sched_inv_def)
  obtain rest s0 t1 where l: "prefill_loop cfg ext (ss_waiting s) (s, new_step cfg) = Inr (rest, s0, t1)"
    using prefill_loop_total [OF assms(3) dist(1) assms(2)] by (metis surj_pair)
  define s1 where "s1 = s0\<lparr>ss_waiting := extendleft rest (st_skipped t1)\<rparr>"
  have p: "prefill cfg ext (s, new_step cfg) = Inr (s1, t1)" using l by (simp add: prefill_def s1_def)
  have inv: "step_inv cfg s1 t1" using prefill_ok [OF assms(1) p] by simp
  have q: "queue_moved (ss_waiting s) (s, new_step cfg) rest (s0, t1)"
    using prefill_loop_ok [OF l] new_step_inv [OF assms(1)] dist by auto
  have dec: "\<exists>acc. decode cfg ext (s1, t1) = Inr acc"
  proof (cases "ss_scheduled_req_ids s1 = {}")
    case True
    then have "ss_running s1 = ss_running s" using q by (auto simp: queue_moved_def s1_def)
    moreover have "\<forall>r. r \<notin> set (ss_waiting s) \<longrightarrow> ss_obj s1 r = ss_obj s r"
      using q by (auto simp: queue_moved_def s1_def)
    ultimately have "decodable_all s1"
      using assms(4) dist(2) inv by (auto simp: decodable_all_def step_inv_def)
    then show ?thesis using decode_loop_total [of s1] by (auto simp: decode_def)
  qed (simp add: decode_def)
  show ?thesis
  proof (cases "schedule cfg ext s")
    case (Inl e)
    obtain acc where acc: "decode cfg ext (s1, t1) = Inr acc" using dec by blast
    have False
      using Inl p acc final_assertions_core [OF assms(1) p] by (cases acc) auto
    then show ?thesis ..
  next
    case (Inr r)
    then show ?thesis by (cases r) auto
  qed
qed


section \<open>Witnesses\<close>

text \<open>A cache that counts its free blocks and gives one block per allocation; one waiting request, or
  two running ones and a single free block.\<close>

definition ex_ext :: "nat sched_ext" where
  "ex_ext = \<lparr> se_remote_ready = (\<lambda>_ q w. (True, q, w)), se_grammar_ready = (\<lambda>_ _. True),
     se_computed_blocks = (\<lambda>_ _ w. ([[]], 0, w)), se_empty_blocks = [[]],
     se_matched_tokens = (\<lambda>_ _ _ w. (0, False, w)),
     se_allocate = (\<lambda>_ _ _ _ _ _ _ w.
        if 0 < w then (Some [[\<lparr> kb_id = w, kb_ref_cnt = 1 \<rparr>]], w - 1) else (None, w)),
     se_after_alloc = (\<lambda>_ _ _ w. w), se_free = (\<lambda>_ w. w), se_num_req_blocks = (\<lambda>_ _. 0),
     se_num_free_blocks = int, se_join = map2 (@) \<rparr>"

definition ex_config :: sched_config where
  "ex_config = \<lparr> sc_max_num_scheduled_tokens = 8, sc_max_num_running_reqs = 2, sc_max_model_len = 16,
     sc_num_blocks = 8, sc_block_size = 4, sc_watermark = 1 / 100, sc_num_lookahead_tokens = 0,
     sc_max_loras = None \<rparr>"

definition ex_sched_request :: "request_status \<Rightarrow> int \<Rightarrow> int \<Rightarrow> sched_request" where
  "ex_sched_request status n computed = \<lparr> sr_status = status, sr_num_tokens = n,
     sr_num_tokens_with_spec = n, sr_num_computed_tokens = computed, sr_num_cached_tokens = 0,
     sr_spec_token_ids = [], sr_lora = None, sr_use_structured = False \<rparr>"

definition ex_waiting :: "nat sched_state" where
  "ex_waiting = \<lparr> ss_waiting = [''a''], ss_running = [], ss_obj = (\<lambda>_. ex_sched_request Waiting 3 0),
     ss_scheduled_req_ids = {}, ss_finished_req_ids = {}, ss_forced_mode = None, ss_world = 8 \<rparr>"

definition ex_running :: "nat sched_state" where
  "ex_running = \<lparr> ss_waiting = [], ss_running = [''b'', ''c''], ss_obj = (\<lambda>_. ex_sched_request Running 4 3),
     ss_scheduled_req_ids = {}, ss_finished_req_ids = {}, ss_forced_mode = None, ss_world = 1 \<rparr>"

lemma ex_sched_inv: "sched_inv ex_config ex_waiting" "sched_inv ex_config ex_running"
  by (simp_all add: sched_inv_def ex_config_def ex_waiting_def ex_running_def)

lemma ex_prefill_run:
  "\<exists>out s'. schedule ex_config ex_ext ex_waiting = Inr (out, s')
     \<and> map fst (out_new_reqs out) = [''a''] \<and> out_num_scheduled out = [(''a'', 3)]"
proof -
  have "map_sum id (\<lambda>(out, s'). (map fst (out_new_reqs out), out_num_scheduled out))
      (schedule ex_config ex_ext ex_waiting) = Inr ([''a''], [(''a'', 3)])"
    by code_simp
  then show ?thesis by (cases "schedule ex_config ex_ext ex_waiting") auto
qed

lemma ex_decode_run:
  "\<exists>out s'. schedule ex_config ex_ext ex_running = Inr (out, s')
     \<and> out_running_reqs out = [''b''] \<and> ss_waiting s' = [''c'']"
proof -
  have "map_sum id (\<lambda>(out, s'). (out_running_reqs out, ss_waiting s'))
      (schedule ex_config ex_ext ex_running) = Inr ([''b''], [''c''])"
    by code_simp
  then show ?thesis by (cases "schedule ex_config ex_ext ex_running") auto
qed

theorem step_within_limits_witness:
  "\<exists>out s'. schedule ex_config ex_ext ex_waiting = Inr (out, s') \<and> out_total out \<le> 8"
  using ex_prefill_run step_within_limits [OF ex_sched_inv(1)] by (force simp: ex_config_def)

theorem final_assertions_hold_witness:
  "\<exists>cfg e. schedule cfg ex_ext (ex_waiting\<lparr>ss_obj := (\<lambda>_. ex_sched_request Waiting 3 3)\<rparr>) = Inl e
     \<and> prefill cfg ex_ext (ex_waiting\<lparr>ss_obj := (\<lambda>_. ex_sched_request Waiting 3 3)\<rparr>, new_step cfg) = Inl e"
proof -
  let ?s = "ex_waiting\<lparr>ss_obj := (\<lambda>_. ex_sched_request Waiting 3 3)\<rparr>"
  have inv: "sched_inv ex_config ?s" using ex_sched_inv(1) by (simp add: sched_inv_def)
  have "map_sum id (\<lambda>_. ()) (schedule ex_config ex_ext ?s) = Inl AssertionError" by code_simp
  then have e: "schedule ex_config ex_ext ?s = Inl AssertionError"
    by (cases "schedule ex_config ex_ext ?s") auto
  have "map_sum id (\<lambda>_. ()) (prefill ex_config ex_ext (?s, new_step ex_config)) = Inl AssertionError"
    by code_simp
  then show ?thesis using final_assertions_hold [OF inv e] e by auto
qed

theorem prefill_and_decode_separate_witness:
  "\<exists>out s'. schedule ex_config ex_ext ex_running = Inr (out, s') \<and> out_running_reqs out = [''b'']
     \<and> out_new_reqs out = []"
  using ex_decode_run prefill_and_decode_separate [OF ex_sched_inv(2)] by force

theorem requests_conserved_witness:
  "\<exists>out s' dropped. schedule ex_config ex_ext ex_running = Inr (out, s')
     \<and> mset [''b'', ''c''] = mset (ss_waiting s' @ ss_running s' @ dropped)"
proof -
  obtain out s' where "schedule ex_config ex_ext ex_running = Inr (out, s')"
    using ex_decode_run by blast
  with requests_conserved [OF ex_sched_inv(2) this] show ?thesis by (auto simp: ex_running_def)
qed

theorem queue_order_kept_witness:
  "\<exists>out s' preempted. schedule ex_config ex_ext ex_running = Inr (out, s')
     \<and> ss_waiting s' = preempted \<and> [''b'', ''c''] = ss_running s' @ preempted"
proof -
  obtain out s' where s': "schedule ex_config ex_ext ex_running = Inr (out, s')" "ss_waiting s' = [''c'']"
    using ex_decode_run by blast
  obtain preempted queue where q: "ss_waiting s' = preempted @ queue" "subseq queue []"
      "preempted \<noteq> [] \<longrightarrow> [''b'', ''c''] = ss_running s' @ preempted"
    using queue_order_kept [OF ex_sched_inv(2) s'(1)] by (auto simp: ex_running_def)
  then have "queue = []" by simp
  with q s' show ?thesis by auto
qed

theorem prompts_are_whole_witness:
  "\<exists>out s'. schedule ex_config ex_ext ex_waiting = Inr (out, s')
     \<and> sr_num_computed_tokens (ss_obj s' ''a'') = sr_num_tokens (ss_obj s' ''a'')"
proof -
  obtain out s' where s': "schedule ex_config ex_ext ex_waiting = Inr (out, s')"
    "map fst (out_new_reqs out) = [''a'']" using ex_prefill_run by (elim exE conjE) (rule that)
  have "''a'' \<in> set (map fst (out_new_reqs out) @ out_resumed_reqs out)" using s'(2) by simp
  then show ?thesis using prompts_are_whole [OF ex_sched_inv(1) s'(1)] s'(1) by blast
qed

theorem step_completes_witness:
  "\<exists>out s'. schedule ex_config ex_ext ex_waiting = Inr (out, s')"
  by (rule step_completes [OF ex_sched_inv(1)])
    (auto simp: ext_laws_def ex_ext_def ex_waiting_def ex_sched_request_def admissible_def)


end
