(* ===== verification/Tensors.thy ===== *)
theory Tensors
  imports TT_Prelude Complex_Main
begin

text \<open>
  The pieces of torch the sampling code uses: floating-point values, the indexing of rows, and
  reductions over a row. A matrix is a list of rows.

  A floating-point value is a rational, one of the infinities or NaN. Arithmetic on finite values
  is exact: rounding and overflow of float32 are not modelled. Everything else is IEEE arithmetic,
  NaN included, because the code relies on it (a masked logit is \<open>-inf\<close>).
\<close>

section \<open>Floating-point values\<close>

datatype fl = NegInf | Fin rat | PosInf | NaN

fun fl_neg :: "fl \<Rightarrow> fl" where
  "fl_neg NegInf = PosInf"
| "fl_neg (Fin x) = Fin (- x)"
| "fl_neg PosInf = NegInf"
| "fl_neg NaN = NaN"

fun fl_add :: "fl \<Rightarrow> fl \<Rightarrow> fl" where
  "fl_add (Fin x) (Fin y) = Fin (x + y)"
| "fl_add NaN y = NaN"
| "fl_add x NaN = NaN"
| "fl_add NegInf PosInf = NaN"
| "fl_add PosInf NegInf = NaN"
| "fl_add NegInf y = NegInf"
| "fl_add x NegInf = NegInf"
| "fl_add PosInf y = PosInf"
| "fl_add x PosInf = PosInf"

definition fl_sub :: "fl \<Rightarrow> fl \<Rightarrow> fl" where
  "fl_sub x y = fl_add x (fl_neg y)"

definition fl_signed_inf :: "rat \<Rightarrow> fl" where
  "fl_signed_inf s = (if s > 0 then PosInf else if s < 0 then NegInf else NaN)"

fun fl_sign :: "fl \<Rightarrow> rat" where
  "fl_sign NegInf = -1"
| "fl_sign (Fin x) = (if x > 0 then 1 else if x < 0 then -1 else 0)"
| "fl_sign PosInf = 1"
| "fl_sign NaN = 0"

fun fl_mul :: "fl \<Rightarrow> fl \<Rightarrow> fl" where
  "fl_mul (Fin x) (Fin y) = Fin (x * y)"
| "fl_mul NaN y = NaN"
| "fl_mul x NaN = NaN"
| "fl_mul x y = fl_signed_inf (fl_sign x * fl_sign y)"

text \<open>Division by zero gives an infinity, or NaN for zero by zero; a zero divisor is positive
  (negative zero is not distinguished).\<close>

fun fl_div :: "fl \<Rightarrow> fl \<Rightarrow> fl" where
  "fl_div (Fin x) (Fin y) = (if y = 0 then fl_signed_inf x else Fin (x / y))"
| "fl_div NaN y = NaN"
| "fl_div x NaN = NaN"
| "fl_div (Fin x) y = Fin 0"
| "fl_div x (Fin y) = fl_signed_inf (fl_sign x * (if y < 0 then -1 else 1))"
| "fl_div x y = NaN"

text \<open>The order torch sorts by and takes maxima in: NaN is the largest value.\<close>

instantiation fl :: linorder
begin

fun less_eq_fl :: "fl \<Rightarrow> fl \<Rightarrow> bool" where
  "less_eq_fl NegInf y = True"
| "less_eq_fl (Fin x) (Fin y) = (x \<le> y)"
| "less_eq_fl (Fin x) y = (y \<noteq> NegInf)"
| "less_eq_fl PosInf y = (y = PosInf \<or> y = NaN)"
| "less_eq_fl NaN y = (y = NaN)"

definition less_fl :: "fl \<Rightarrow> fl \<Rightarrow> bool" where
  "less_fl x y \<longleftrightarrow> x \<le> y \<and> \<not> y \<le> x"

instance
proof
  fix x y z :: fl
  show "x < y \<longleftrightarrow> x \<le> y \<and> \<not> y \<le> x" by (simp add: less_fl_def)
  show "x \<le> x" by (cases x) auto
  show "x \<le> y \<Longrightarrow> y \<le> z \<Longrightarrow> x \<le> z" by (cases x; cases y; cases z) auto
  show "x \<le> y \<Longrightarrow> y \<le> x \<Longrightarrow> x = y" by (cases x; cases y) auto
  show "x \<le> y \<or> y \<le> x" by (cases x; cases y) auto
qed

end

lemma Fin_less [simp]: "Fin x < Fin y \<longleftrightarrow> x < y"
  by (auto simp: less_fl_def)

lemma NegInf_less [simp]: "NegInf < x \<longleftrightarrow> x \<noteq> NegInf"
  by (cases x) (auto simp: less_fl_def)

lemma not_less_NegInf [simp]: "\<not> x < NegInf"
  by (cases x) (auto simp: less_fl_def)

lemma le_NegInf [simp]: "x \<le> NegInf \<longleftrightarrow> x = NegInf"
  by (cases x) auto

text \<open>The comparisons of IEEE arithmetic: false whenever NaN is involved.\<close>

definition fl_lt :: "fl \<Rightarrow> fl \<Rightarrow> bool" where
  "fl_lt x y \<longleftrightarrow> x \<noteq> NaN \<and> y \<noteq> NaN \<and> x < y"

definition fl_le :: "fl \<Rightarrow> fl \<Rightarrow> bool" where
  "fl_le x y \<longleftrightarrow> x \<noteq> NaN \<and> y \<noteq> NaN \<and> x \<le> y"

fun is_fin :: "fl \<Rightarrow> bool" where
  "is_fin (Fin x) = True"
| "is_fin _ = False"

fun fin_val :: "fl \<Rightarrow> rat" where
  "fin_val (Fin x) = x"
| "fin_val _ = 0"

text \<open>A logit as the sampler expects it: finite, or masked.\<close>

definition plain :: "fl \<Rightarrow> bool" where
  "plain x \<longleftrightarrow> is_fin x \<or> x = NegInf"

lemma is_fin_iff: "is_fin x \<longleftrightarrow> (\<exists>q. x = Fin q)"
  by (cases x) auto

lemma Fin_fin_val [simp]: "is_fin x \<Longrightarrow> Fin (fin_val x) = x"
  by (cases x) auto

lemma plain_cases:
  assumes "plain x"
  obtains "x = NegInf" | q where "x = Fin q"
  using assms by (cases x) (auto simp: plain_def)

lemma plain_simps [simp]: "plain NegInf" "plain (Fin q)" "\<not> plain PosInf" "\<not> plain NaN"
  by (auto simp: plain_def)

lemma plain_add [simp]: "plain x \<Longrightarrow> plain y \<Longrightarrow> plain (fl_add x y)"
  by (auto elim!: plain_cases)

lemma fl_add_fin_iff: "plain x \<Longrightarrow> plain y \<Longrightarrow> is_fin (fl_add x y) \<longleftrightarrow> is_fin x \<and> is_fin y"
  by (auto elim!: plain_cases)

lemma fl_add_NegInf_iff:
  "plain x \<Longrightarrow> plain y \<Longrightarrow> fl_add x y = NegInf \<longleftrightarrow> x = NegInf \<or> y = NegInf"
  by (auto elim!: plain_cases)

lemma fl_add_zero [simp]: "fl_add x (Fin 0) = x"
  by (cases x) auto

section \<open>Indexing\<close>

text \<open>\<open>row[i]\<close> and \<open>row[i] = v\<close> of a tensor: a negative index counts from the end.\<close>

definition tensor_index :: "nat \<Rightarrow> int \<Rightarrow> nat res" where
  "tensor_index n i =
     (if 0 \<le> i \<and> i < int n then Inr (nat i)
      else if - int n \<le> i \<and> i < 0 then Inr (nat (i + int n))
      else Inl IndexError)"

definition tensor_put :: "'a list \<Rightarrow> int \<Rightarrow> ('a \<Rightarrow> 'a) \<Rightarrow> 'a list res" where
  "tensor_put row i f = rbind (tensor_index (length row) i) (\<lambda>j. Inr (row[j := f (row ! j)]))"

text \<open>\<open>m[r, i] = v\<close> for a non-negative row.\<close>

definition matrix_put :: "'a list list \<Rightarrow> nat \<Rightarrow> int \<Rightarrow> ('a \<Rightarrow> 'a) \<Rightarrow> 'a list list res" where
  "matrix_put m r i f =
     rbind (lget m r) (\<lambda>row. rbind (tensor_put row i f) (\<lambda>row'. Inr (m[r := row'])))"

lemma tensor_index_ok [simp]: "0 \<le> i \<Longrightarrow> i < int n \<Longrightarrow> tensor_index n i = Inr (nat i)"
  by (simp add: tensor_index_def)

lemma tensor_put_ok [simp]:
  "0 \<le> i \<Longrightarrow> i < int (length row) \<Longrightarrow>
   tensor_put row i f = Inr (row[nat i := f (row ! nat i)])"
  by (simp add: tensor_put_def)

lemma matrix_put_ok [simp]:
  "r < length m \<Longrightarrow> 0 \<le> i \<Longrightarrow> i < int (length (m ! r)) \<Longrightarrow>
   matrix_put m r i f = Inr (m[r := (m ! r)[nat i := f (m ! r ! nat i)]])"
  by (simp add: matrix_put_def)

text \<open>A matrix of a given shape, and the matrix of one value.\<close>

definition shaped :: "nat \<Rightarrow> nat \<Rightarrow> 'a list list \<Rightarrow> bool" where
  "shaped n v m \<longleftrightarrow> length m = n \<and> (\<forall>row \<in> set m. length row = v)"

definition full :: "nat \<Rightarrow> nat \<Rightarrow> 'a \<Rightarrow> 'a list list" where
  "full n v x = replicate n (replicate v x)"

lemma shaped_full [simp]: "shaped n v (full n v x)"
  by (auto simp: shaped_def full_def)

lemma full_nth [simp]: "i < n \<Longrightarrow> j < v \<Longrightarrow> full n v x ! i ! j = x"
  by (simp add: full_def)

lemma shaped_rows [simp]: "shaped n v m \<Longrightarrow> i < n \<Longrightarrow> length (m ! i) = v"
  by (auto simp: shaped_def)

lemma shaped_length [simp]: "shaped n v m \<Longrightarrow> length m = n"
  by (simp add: shaped_def)

lemma shaped_update:
  assumes "shaped n v m" "length row = v"
  shows "shaped n v (m[i := row])"
proof -
  have "\<forall>r \<in> set (m[i := row]). r = row \<or> r \<in> set m"
    using set_update_subset_insert [of m i row] by blast
  then show ?thesis using assms unfolding shaped_def by auto
qed

lemma matrix_put_shaped:
  assumes "matrix_put m r i f = Inr m'" "shaped n v m"
  shows "shaped n v m'"
proof -
  obtain row j where "r < length m" "row = m ! r" "m' = m[r := row[j := f (row ! j)]]"
    using assms(1) by (auto simp: matrix_put_def tensor_put_def res_simps)
  then show ?thesis using assms(2) by (simp add: shaped_update)
qed

text \<open>One cell of a matrix after an assignment.\<close>

lemma matrix_put_cell:
  assumes "shaped n v m" "r < n" "0 \<le> t" "t < int v"
  shows "\<exists>m'. matrix_put m r t f = Inr m' \<and> shaped n v m' \<and>
    (\<forall>i < n. \<forall>j < v. m' ! i ! j = (if i = r \<and> int j = t then f (m ! i ! j) else m ! i ! j))"
proof -
  have r: "r < length m" "length (m ! r) = v" using assms by simp_all
  let ?m' = "m[r := (m ! r)[nat t := f (m ! r ! nat t)]]"
  have "matrix_put m r t f = Inr ?m'" using r assms by simp
  moreover have "shaped n v ?m'" using assms r by (intro shaped_update) auto
  moreover have "\<forall>i < n. \<forall>j < v.
      ?m' ! i ! j = (if i = r \<and> int j = t then f (m ! i ! j) else m ! i ! j)"
    using r assms by (auto simp: nth_list_update)
  ultimately show ?thesis by blast
qed

section \<open>Reductions over a row\<close>

text \<open>\<open>argmax\<close>: the first position of the largest value.\<close>

fun argmax_from :: "nat \<Rightarrow> nat \<Rightarrow> 'a::linorder \<Rightarrow> 'a list \<Rightarrow> nat" where
  "argmax_from best i m [] = best"
| "argmax_from best i m (x # xs) =
     (if m < x then argmax_from i (Suc i) x xs else argmax_from best (Suc i) m xs)"

definition argmax :: "'a::linorder list \<Rightarrow> nat" where
  "argmax xs = (case xs of [] \<Rightarrow> 0 | x # r \<Rightarrow> argmax_from 0 1 x r)"

lemma argmax_from_correct:
  assumes "i = length p" "best < i" "p ! best = m" "\<forall>j < i. p ! j \<le> m" "\<forall>j < best. p ! j < m"
  shows "argmax_from best i m xs < length (p @ xs)
    \<and> (\<forall>j < length (p @ xs). (p @ xs) ! j \<le> (p @ xs) ! argmax_from best i m xs)
    \<and> (\<forall>j < argmax_from best i m xs. (p @ xs) ! j < (p @ xs) ! argmax_from best i m xs)"
  using assms
proof (induction xs arbitrary: p best i m)
  case Nil
  then show ?case by auto
next
  case (Cons x xs)
  have app: "p @ x # xs = (p @ [x]) @ xs" by simp
  show ?case
  proof (cases "m < x")
    case True
    have "\<forall>j < Suc i. (p @ [x]) ! j \<le> x" "\<forall>j < i. (p @ [x]) ! j < x" "(p @ [x]) ! i = x"
      using Cons.prems True by (auto simp: nth_append less_Suc_eq dest: order.strict_trans1)
    then show ?thesis
      using Cons.IH [of "Suc i" "p @ [x]" i x] Cons.prems True unfolding app by simp
  next
    case False
    have "\<forall>j < Suc i. (p @ [x]) ! j \<le> m" "\<forall>j < best. (p @ [x]) ! j < m" "(p @ [x]) ! best = m"
      using Cons.prems False by (auto simp: nth_append less_Suc_eq)
    then show ?thesis
      using Cons.IH [of "Suc i" "p @ [x]" best m] Cons.prems False unfolding app by simp
  qed
qed

lemma argmax_correct:
  assumes "xs \<noteq> []"
  shows "argmax xs < length xs" "j < length xs \<Longrightarrow> xs ! j \<le> xs ! argmax xs"
    "j < argmax xs \<Longrightarrow> xs ! j < xs ! argmax xs"
proof -
  obtain x r where xs: "xs = x # r" using assms by (cases xs) auto
  have "argmax xs < length xs \<and> (\<forall>j < length xs. xs ! j \<le> xs ! argmax xs)
    \<and> (\<forall>j < argmax xs. xs ! j < xs ! argmax xs)"
    using argmax_from_correct [of 1 "[x]" 0 x r] xs by (simp add: argmax_def)
  then show "argmax xs < length xs" "j < length xs \<Longrightarrow> xs ! j \<le> xs ! argmax xs"
    "j < argmax xs \<Longrightarrow> xs ! j < xs ! argmax xs" by blast+
qed

text \<open>Sums of values, and the running sums of \<open>cumsum\<close>.\<close>

definition fl_sum :: "fl list \<Rightarrow> fl" where
  "fl_sum xs = fold fl_add xs (Fin 0)"

fun cumsum_from :: "fl \<Rightarrow> fl list \<Rightarrow> fl list" where
  "cumsum_from acc [] = []"
| "cumsum_from acc (x # xs) = fl_add acc x # cumsum_from (fl_add acc x) xs"

definition cumsum :: "fl list \<Rightarrow> fl list" where
  "cumsum xs = cumsum_from (Fin 0) xs"

lemma cumsum_from_Fin:
  "cumsum_from (Fin a) (map Fin qs) = map (\<lambda>i. Fin (a + sum_list (take (Suc i) qs))) [0..<length qs]"
proof (induction qs arbitrary: a)
  case (Cons q qs)
  have "[0..<length (q # qs)] = 0 # map Suc [0..<length qs]"
    by (simp add: map_Suc_upt upt_conv_Cons del: upt_Suc)
  then show ?case by (simp add: Cons.IH add.assoc)
qed simp

lemma cumsum_Fin:
  "cumsum (map Fin qs) = map (\<lambda>i. Fin (sum_list (take (Suc i) qs))) [0..<length qs]"
  by (simp add: cumsum_def cumsum_from_Fin)

end
