(* ===== verification/SamplingMeta.thy ===== *)
theory SamplingMeta
  imports Tensors InputBatchProps
begin

text \<open>
  The sampling metadata of a step: \<open>vllm_tt/metadata.py\<close>. From the columns and dictionaries of the
  persistent batch, tensors of a fixed number of rows \<open>padded_num_reqs\<close> are built on the CPU; rows
  beyond the batch are padding. The transfers to the device are the identity.

  The exponential noise of the random number generators is an argument: the global noise for the
  whole matrix, and what each request's own generator yields for a row.
\<close>

section \<open>Masks and counts\<close>

definition past_tokens :: "store \<Rightarrow> addr option list \<Rightarrow> nat \<Rightarrow> int list" where
  "past_tokens st outs i =
     (if i < length outs then (case outs ! i of None \<Rightarrow> [] | Some a \<Rightarrow> st a) else [])"

definition compute_token_counts ::
  "store \<Rightarrow> addr option list \<Rightarrow> nat \<Rightarrow> nat \<Rightarrow> rat list list res" where
  "compute_token_counts st outs padded vocab =
     rfold (\<lambda>counts (i, out).
              case out of None \<Rightarrow> Inr counts
              | Some a \<Rightarrow> rfold (\<lambda>counts t. matrix_put counts i t (\<lambda>c. c + 1)) counts (st a))
       (full padded vocab 0) (List.enumerate 0 (take padded outs))"

definition mark_prompt :: "nat \<Rightarrow> nat \<Rightarrow> int list \<Rightarrow> bool list list \<Rightarrow> bool list list res" where
  "mark_prompt vocab i prompt_ids msk =
     rfold (\<lambda>msk t. if 0 \<le> t then matrix_put msk i t (\<lambda>_. True) else Inl RuntimeError)
       msk (filter (\<lambda>t. t < int vocab) prompt_ids)"

definition compute_prompt_mask ::
  "nat list \<Rightarrow> int list list \<Rightarrow> nat \<Rightarrow> nat \<Rightarrow> bool list list res" where
  "compute_prompt_mask prompt_lens token_ids padded vocab =
     rfold (\<lambda>msk i. rbind (lget prompt_lens i) (\<lambda>n.
              if n > 0 then rbind (lget token_ids i) (\<lambda>row. mark_prompt vocab i (take n row) msk)
              else Inr msk))
       (full padded vocab False) [0..<padded]"

text \<open>One bad word of a row: its last token is banned when the tokens before it are the most recent
  ones of the output.\<close>

definition ban_word ::
  "nat \<Rightarrow> int list \<Rightarrow> nat \<Rightarrow> fl list list \<Rightarrow> int list \<Rightarrow> fl list list res" where
  "ban_word vocab past i msk word =
     (if length word = 0 then Inr msk
      else if length word > length past + 1 then Inr msk
      else
        let last_token_id = last word; prefix_length = length word - 1
        in if int vocab \<le> last_token_id then Inr msk
           else if prefix_length = 0 then matrix_put msk i last_token_id (\<lambda>_. NegInf)
           else if last_n past prefix_length = take prefix_length word
           then matrix_put msk i last_token_id (\<lambda>_. NegInf)
           else Inr msk)"

definition compute_bad_words_mask ::
  "(nat, int list list) dict \<Rightarrow> store \<Rightarrow> addr option list \<Rightarrow> nat \<Rightarrow> nat \<Rightarrow> fl list list res" where
  "compute_bad_words_mask bad_words st outs padded vocab =
     rfold (\<lambda>msk (i, words).
              if i \<ge> padded then Inr msk
              else rfold (ban_word vocab (past_tokens st outs i) i) msk words)
       (full padded vocab (Fin 0)) bad_words"

definition suppress :: "nat \<Rightarrow> nat \<Rightarrow> fl list list \<Rightarrow> int \<Rightarrow> fl list list res" where
  "suppress vocab i msk t =
     (if t < int vocab then matrix_put msk i t (\<lambda>_. NegInf) else Inr msk)"

definition compute_min_tokens_mask ::
  "(nat, nat \<times> int list) dict \<Rightarrow> store \<Rightarrow> addr option list \<Rightarrow> nat \<Rightarrow> nat
    \<Rightarrow> fl list list res" where
  "compute_min_tokens_mask mins st outs padded vocab =
     rfold (\<lambda>msk (i, min_count, stop_token_ids).
              if i \<ge> padded then Inr msk
              else rbind (lget outs i) (\<lambda>_.
                   if length (past_tokens st outs i) < min_count
                   then rfold (suppress vocab i) msk stop_token_ids else Inr msk))
       (full padded vocab (Fin 0)) mins"

section \<open>Metadata\<close>

record sampling_defaults =
  df_temperature :: rat
  df_min_p :: rat
  df_top_k :: int
  df_top_p :: rat
  df_frequency_penalties :: rat
  df_presence_penalties :: rat
  df_repetition_penalties :: rat

definition default_sampling_params :: sampling_defaults where
  "default_sampling_params =
     \<lparr> df_temperature = -1, df_min_p = 0, df_top_k = 0, df_top_p = 1,
       df_frequency_penalties = 0, df_presence_penalties = 0, df_repetition_penalties = 1 \<rparr>"

record sampling_metadata =
  md_temperature :: "rat list option"
  md_min_p :: "rat list option"
  md_top_k :: "int list option"
  md_top_p :: "rat list option"
  md_all_greedy :: bool
  md_all_random :: bool
  md_logprobs :: bool
  md_no_penalties :: bool
  md_output_token_counts :: "rat list list option"
  md_prompt_token_mask :: "bool list list option"
  md_presence_penalties :: "rat list option"
  md_frequency_penalties :: "rat list option"
  md_repetition_penalties :: "rat list option"
  md_no_min_tokens :: bool
  md_min_tokens_mask :: "fl list list option"
  md_no_logit_bias :: bool
  md_logit_bias_tensor :: "fl list list option"
  md_no_bad_words :: bool
  md_bad_words_mask :: "fl list list option"
  md_no_allowed_token_ids :: bool
  md_allowed_token_ids_mask :: "fl list list option"
  md_no_generators :: bool
  md_q_samples :: "rat list list option"

definition default_metadata :: sampling_metadata where
  "default_metadata =
     \<lparr> md_temperature = None, md_min_p = None, md_top_k = None, md_top_p = None,
       md_all_greedy = True, md_all_random = False, md_logprobs = False, md_no_penalties = True,
       md_output_token_counts = None, md_prompt_token_mask = None, md_presence_penalties = None,
       md_frequency_penalties = None, md_repetition_penalties = None, md_no_min_tokens = True,
       md_min_tokens_mask = None, md_no_logit_bias = True, md_logit_bias_tensor = None,
       md_no_bad_words = True, md_bad_words_mask = None, md_no_allowed_token_ids = True,
       md_allowed_token_ids_mask = None, md_no_generators = True, md_q_samples = None \<rparr>"

section \<open>Building the metadata\<close>

text \<open>The tensor of logit biases, when a request of the batch has one.\<close>

definition logit_bias_part :: "'bt input_batch \<Rightarrow> nat \<Rightarrow> fl list list option res" where
  "logit_bias_part b padded =
     (let biases = take (num_reqs b) (logit_bias b)
      in if list_ex (\<lambda>x. x \<noteq> None) biases
         then rbind (rfold (\<lambda>m (i, bias).
                       case bias of None \<Rightarrow> Inr m
                       | Some d \<Rightarrow> rfold (\<lambda>m (t, x). matrix_put m i t (\<lambda>_. Fin x)) m d)
                     (full padded (vocab_size b) (Fin 0)) (List.enumerate 0 biases))
                (\<lambda>m. Inr (Some m))
         else Inr None)"

definition bad_words_part ::
  "store \<Rightarrow> 'bt input_batch \<Rightarrow> nat \<Rightarrow> fl list list option res" where
  "bad_words_part st b padded =
     (if bad_words_token_ids b \<noteq> []
      then rbind (compute_bad_words_mask (bad_words_token_ids b) st (req_output_token_ids b)
                    padded (vocab_size b)) (\<lambda>m. Inr (Some m))
      else Inr None)"

text \<open>The mask of disallowed tokens as an additive mask. \<open>masked_fill_\<close> broadcasts a single row and
  refuses any other number of rows.\<close>

definition allowed_part :: "'bt input_batch \<Rightarrow> nat \<Rightarrow> fl list list option res" where
  "allowed_part b padded =
     (if no_allowed_token_ids b then Inr None
      else case allowed_token_ids_mask b of
        None \<Rightarrow> Inl TypeError
      | Some msk \<Rightarrow>
          (let rows = take padded msk;
               additive = map (map (\<lambda>d. if d then NegInf else Fin 0))
           in if length rows = padded then Inr (Some (additive rows))
              else if length rows = 1 then Inr (Some (replicate padded (hd (additive rows))))
              else Inl RuntimeError))"

text \<open>\<open>any(...)\<close> over the requests with a minimum stops at the first one below it.\<close>

fun any_below_min ::
  "store \<Rightarrow> addr option list \<Rightarrow> nat \<Rightarrow> (nat, nat \<times> int list) dict \<Rightarrow> bool res" where
  "any_below_min st outs padded [] = Inr False"
| "any_below_min st outs padded ((i, min_count, _) # rest) =
     (if i < padded
      then rbind (lget outs i) (\<lambda>_.
           if length (past_tokens st outs i) < min_count then Inr True
           else any_below_min st outs padded rest)
      else any_below_min st outs padded rest)"

definition min_tokens_part ::
  "store \<Rightarrow> 'bt input_batch \<Rightarrow> nat \<Rightarrow> fl list list option res" where
  "min_tokens_part st b padded =
     rbind (any_below_min st (req_output_token_ids b) padded (min_tokens b)) (\<lambda>below.
     if below
     then rbind (compute_min_tokens_mask (min_tokens b) st (req_output_token_ids b) padded
                   (vocab_size b)) (\<lambda>m. Inr (Some m))
     else Inr None)"

text \<open>The noise: global, with the row of every request that has a generator overwritten.\<close>

definition q_samples_part ::
  "rat list list \<Rightarrow> (nat \<Rightarrow> rat list) \<Rightarrow> 'bt input_batch \<Rightarrow> nat option
    \<Rightarrow> rat list list option res" where
  "q_samples_part noise draw b vocab =
     (if generators b \<noteq> [] \<and> vocab \<noteq> None
      then rbind (rfold (\<lambda>q (i, g). lset q i (draw g)) noise (generators b)) (\<lambda>q. Inr (Some q))
      else Inr None)"

definition needs_logprobs :: "'bt input_batch \<Rightarrow> bool" where
  "needs_logprobs b = (case max_num_logprobs b of None \<Rightarrow> False | Some n \<Rightarrow> n > 0)"

text \<open>\<open>fill_slice\<close> on the columns the sampler always reads, and on the penalties.\<close>

definition fill_columns :: "nat \<Rightarrow> 'bt input_batch \<Rightarrow> 'bt input_batch" where
  "fill_columns padded b =
     (let n = num_reqs b; d = default_sampling_params
      in b\<lparr>temperature := slice_fill (temperature b) n padded (df_temperature d),
           min_p := slice_fill (min_p b) n padded (df_min_p d),
           top_k := slice_fill (top_k b) n padded (df_top_k d),
           top_p := slice_fill (top_p b) n padded (df_top_p d)\<rparr>)"

definition fill_penalties :: "nat \<Rightarrow> 'bt input_batch \<Rightarrow> 'bt input_batch" where
  "fill_penalties padded b =
     (let n = num_reqs b; d = default_sampling_params
      in b\<lparr>presence_penalties :=
             slice_fill (presence_penalties b) n padded (df_presence_penalties d),
           frequency_penalties :=
             slice_fill (frequency_penalties b) n padded (df_frequency_penalties d),
           repetition_penalties :=
             slice_fill (repetition_penalties b) n padded (df_repetition_penalties d)\<rparr>)"

text \<open>The penalty tensors, when a request has a penalty and the vocabulary size is given.\<close>

definition penalties_part ::
  "store \<Rightarrow> nat \<Rightarrow> nat option \<Rightarrow> sampling_metadata \<Rightarrow> 'bt input_batch
    \<Rightarrow> (sampling_metadata \<times> 'bt input_batch) res" where
  "penalties_part st padded vocab md b =
     (case vocab of
        Some v \<Rightarrow>
         if \<not> no_penalties b
         then let b' = fill_penalties padded b
           in rbind (compute_token_counts st (req_output_token_ids b') padded v) (\<lambda>counts.
              rbind (compute_prompt_mask (num_prompt_tokens b') (token_ids_cpu b') padded v)
                (\<lambda>pmask.
              Inr (md\<lparr>md_presence_penalties := Some (take padded (presence_penalties b')),
                      md_frequency_penalties := Some (take padded (frequency_penalties b')),
                      md_repetition_penalties := Some (take padded (repetition_penalties b')),
                      md_output_token_counts := Some counts,
                      md_prompt_token_mask := Some pmask\<rparr>, b')))
         else Inr (md, b)
      | None \<Rightarrow> Inr (md, b))"

text \<open>The early return: nothing needs the full sampler.\<close>

definition greedy_shortcut :: "bool \<Rightarrow> 'bt input_batch \<Rightarrow> sampling_metadata \<Rightarrow> bool" where
  "greedy_shortcut generate_params_if_all_greedy b md \<longleftrightarrow>
     all_greedy b \<and> \<not> generate_params_if_all_greedy \<and> no_penalties b \<and> md_no_logit_bias md
     \<and> md_no_bad_words md \<and> md_no_allowed_token_ids md \<and> md_no_min_tokens md
     \<and> generators b = []"

definition from_input_batch ::
  "store \<Rightarrow> rat list list \<Rightarrow> (nat \<Rightarrow> rat list) \<Rightarrow> 'bt input_batch \<Rightarrow> nat \<Rightarrow> bool
    \<Rightarrow> nat option \<Rightarrow> (sampling_metadata \<times> 'bt input_batch) res" where
  "from_input_batch st noise draw b padded generate_params_if_all_greedy vocab =
     rbind (logit_bias_part b padded) (\<lambda>bias.
     rbind (bad_words_part st b padded) (\<lambda>bad.
     rbind (allowed_part b padded) (\<lambda>allowed.
     rbind (min_tokens_part st b padded) (\<lambda>mins.
     rbind (q_samples_part noise draw b vocab) (\<lambda>q.
       let md = default_metadata\<lparr>md_logprobs := needs_logprobs b,
                  md_no_logit_bias := (bias = None), md_logit_bias_tensor := bias,
                  md_no_bad_words := (bad = None), md_bad_words_mask := bad,
                  md_no_allowed_token_ids := (allowed = None),
                  md_allowed_token_ids_mask := allowed,
                  md_no_min_tokens := (mins = None), md_min_tokens_mask := mins\<rparr>
       in if greedy_shortcut generate_params_if_all_greedy b md
          then Inr (md\<lparr>md_all_greedy := True\<rparr>, b)
          else
            let b1 = fill_columns padded b
            in penalties_part st padded vocab
                 (md\<lparr>md_temperature := Some (take padded (temperature b1)),
                     md_all_greedy := all_greedy b1, md_all_random := all_random b1,
                     md_top_p := Some (take padded (top_p b1)),
                     md_top_k := Some (take padded (top_k b1)),
                     md_min_p := Some (take padded (min_p b1)),
                     md_no_penalties := no_penalties b1,
                     md_no_generators := (generators b = []), md_q_samples := q\<rparr>) b1)))))"

end
