(* ===== verification/Sampler.thy ===== *)
theory Sampler
  imports SamplingMeta
begin

text \<open>
  The sampler: \<open>vllm_tt/sampler.py\<close>. The code works on matrices with one row per request; each
  operation is the same on every row, so it is defined on a row and mapped over the rows.

  Two operations of torch are arguments: \<open>softmax\<close> and \<open>topk\<close> (which of several equal values
  \<open>topk\<close> returns is not documented). The exponential noise is an argument too. What is relied on
  of \<open>softmax\<close> is \<open>softmax_laws\<close>.
\<close>

section \<open>Softmax\<close>

text \<open>A row of logits that can be sampled from: masked or finite values, not all masked.\<close>

definition logit_row :: "fl list \<Rightarrow> bool" where
  "logit_row row \<longleftrightarrow> (\<forall>x \<in> set row. plain x) \<and> (\<exists>x \<in> set row. is_fin x)"

text \<open>On such a row softmax is a probability distribution that respects the order of the logits and
  gives a masked logit no probability.\<close>

definition distribution :: "fl list \<Rightarrow> rat list \<Rightarrow> bool" where
  "distribution row ps \<longleftrightarrow>
     length ps = length row \<and> (\<forall>p \<in> set ps. 0 \<le> p) \<and> sum_list ps = 1
     \<and> (\<forall>i < length row. \<forall>j < length row. row ! i \<le> row ! j \<longrightarrow> ps ! i \<le> ps ! j)
     \<and> (\<forall>i < length row. row ! i = NegInf \<longrightarrow> ps ! i = 0)"

definition softmax_laws :: "(fl list \<Rightarrow> fl list) \<Rightarrow> bool" where
  "softmax_laws softmax \<longleftrightarrow>
     (\<forall>row. length (softmax row) = length row)
     \<and> (\<forall>row. logit_row row \<longrightarrow> (\<exists>ps. softmax row = map Fin ps \<and> distribution row ps))"

section \<open>Masks and penalties\<close>

definition masked_fill :: "bool list \<Rightarrow> fl list \<Rightarrow> fl list" where
  "masked_fill msk row = map2 (\<lambda>d x. if d then NegInf else x) msk row"

definition same_shape :: "'a list list \<Rightarrow> 'b list list \<Rightarrow> bool" where
  "same_shape a b \<longleftrightarrow> map length a = map length b"

text \<open>A mask or bias is added to the logits unless its flag says there is none. A missing tensor or
  one of another shape raises.\<close>

definition add_mask ::
  "bool \<Rightarrow> fl list list option \<Rightarrow> fl list list \<Rightarrow> fl list list res" where
  "add_mask skip msk logits =
     (if skip then Inr logits
      else case msk of
        None \<Rightarrow> Inl TypeError
      | Some m \<Rightarrow> if same_shape m logits then Inr (map2 (map2 fl_add) logits m)
                  else Inl RuntimeError)"

text \<open>The penalties of one logit: repetition, then frequency, then presence.\<close>

definition penalise :: "rat \<Rightarrow> rat \<Rightarrow> rat \<Rightarrow> rat \<Rightarrow> bool \<Rightarrow> fl \<Rightarrow> fl" where
  "penalise presence frequency repetition count in_prompt x =
     (let occurred = count > 0; rep_mask = occurred \<or> in_prompt;
          factor = (if fl_lt (Fin 0) x then fl_div (Fin 1) (Fin repetition) else Fin repetition);
          x1 = (if rep_mask then fl_mul x factor else x);
          x2 = fl_sub x1 (Fin (frequency * count))
      in fl_sub x2 (Fin (presence * (if occurred then 1 else 0))))"

definition penalise_row ::
  "rat \<Rightarrow> rat \<Rightarrow> rat \<Rightarrow> rat list \<Rightarrow> bool list \<Rightarrow> fl list \<Rightarrow> fl list" where
  "penalise_row presence frequency repetition counts prompt row =
     map2 (\<lambda>(c, q) x. penalise presence frequency repetition c q x) (zip counts prompt) row"

definition apply_penalties ::
  "sampling_metadata \<Rightarrow> fl list list \<Rightarrow> fl list list res" where
  "apply_penalties md logits =
     (case (md_output_token_counts md, md_prompt_token_mask md, md_presence_penalties md,
            md_frequency_penalties md, md_repetition_penalties md) of
        (Some counts, Some prompt, Some pres, Some freq, Some rep) \<Rightarrow>
          if same_shape counts logits \<and> same_shape prompt logits \<and> length pres = length logits
             \<and> length freq = length logits \<and> length rep = length logits
          then Inr (map (\<lambda>i. penalise_row (pres ! i) (freq ! i) (rep ! i) (counts ! i) (prompt ! i)
                                (logits ! i)) [0..<length logits])
          else Inl RuntimeError
      | _ \<Rightarrow> Inl TypeError)"

text \<open>The logits both the greedy and the random path see.\<close>

definition masked_logits :: "sampling_metadata \<Rightarrow> fl list list \<Rightarrow> fl list list res" where
  "masked_logits md logits =
     rbind (add_mask (md_no_allowed_token_ids md) (md_allowed_token_ids_mask md) logits) (\<lambda>l.
     rbind (add_mask (md_no_min_tokens md) (md_min_tokens_mask md) l) (\<lambda>l.
     rbind (add_mask (md_no_bad_words md) (md_bad_words_mask md) l) (\<lambda>l.
     rbind (add_mask (md_no_logit_bias md) (md_logit_bias_tensor md) l) (\<lambda>l.
     rbind (rassert (md_temperature md \<noteq> None)) (\<lambda>_.
     if md_no_penalties md then Inr l else apply_penalties md l)))))"

section \<open>One row\<close>

definition greedy_sample :: "fl list \<Rightarrow> nat res" where
  "greedy_sample row = (if row = [] then Inl IndexError else Inr (argmax row))"

definition apply_temperature :: "bool \<Rightarrow> rat \<Rightarrow> fl list \<Rightarrow> fl list" where
  "apply_temperature random_only temp row =
     (let t = (if \<not> random_only \<and> temp < sampling_eps then 1 else temp)
      in map (\<lambda>x. fl_div x (Fin t)) row)"

definition apply_min_p :: "(fl list \<Rightarrow> fl list) \<Rightarrow> rat \<Rightarrow> fl list \<Rightarrow> fl list" where
  "apply_min_p softmax p row =
     (let probs = softmax row; adjusted = fl_mul (Fin p) (Max (set probs))
      in masked_fill (map (\<lambda>x. \<not> fl_le adjusted x) probs) row)"

text \<open>The cutoffs are entries of the probabilities in ascending order. \<open>gather\<close> refuses a negative
  position.\<close>

definition top_k_cutoff :: "fl list \<Rightarrow> int \<Rightarrow> fl res" where
  "top_k_cutoff probs_sort k =
     (let n = int (length probs_sort); top_k_count = min (n - k) (n - 1)
      in if 0 \<le> top_k_count
         then Inr (if k \<le> 0 \<or> k = n then NegInf else probs_sort ! nat top_k_count)
         else Inl RuntimeError)"

definition top_p_count :: "fl list \<Rightarrow> rat \<Rightarrow> nat" where
  "top_p_count probs_sort p =
     length (filter (\<lambda>c. fl_le c (Fin (1 - p))) (butlast (cumsum probs_sort)))"

definition apply_top_k_top_p ::
  "(fl list \<Rightarrow> fl list) \<Rightarrow> fl list \<Rightarrow> int option \<Rightarrow> rat option \<Rightarrow> fl list res" where
  "apply_top_k_top_p softmax logits k p =
     (let probs = softmax logits; probs_sort = sort probs
      in rbind
        (case k of None \<Rightarrow> Inr logits
         | Some k \<Rightarrow> rbind (top_k_cutoff probs_sort k) (\<lambda>cutoff.
             Inr (masked_fill (map (\<lambda>x. fl_lt x cutoff) probs) logits)))
        (\<lambda>logits.
          case p of None \<Rightarrow> Inr logits
          | Some p \<Rightarrow>
              (let cutoff = probs_sort ! top_p_count probs_sort p
               in Inr (masked_fill (map (\<lambda>x. fl_lt x cutoff) probs) logits))))"

definition random_sample :: "fl list \<Rightarrow> rat list \<Rightarrow> nat" where
  "random_sample probs q = argmax (map2 (\<lambda>p q. fl_div p (Fin q)) probs q)"

definition sample_row ::
  "(fl list \<Rightarrow> fl list) \<Rightarrow> bool \<Rightarrow> rat \<Rightarrow> rat option \<Rightarrow> int option \<Rightarrow> rat option \<Rightarrow> rat list
    \<Rightarrow> fl list \<Rightarrow> nat res" where
  "sample_row softmax random_only temp mp k p q row =
     rbind (greedy_sample row) (\<lambda>greedy_sampled.
       let row1 = apply_temperature random_only temp row;
           row2 = (case mp of None \<Rightarrow> row1 | Some x \<Rightarrow> apply_min_p softmax x row1)
       in rbind (apply_top_k_top_p softmax row2 k p) (\<lambda>row3.
            Inr (if temp < sampling_eps then greedy_sampled
                 else random_sample (softmax row3) q)))"

section \<open>The batch\<close>

text \<open>A column that is given has one entry per row.\<close>

definition column_fits :: "'a list option \<Rightarrow> nat \<Rightarrow> bool" where
  "column_fits c n = (case c of None \<Rightarrow> True | Some xs \<Rightarrow> length xs = n)"

definition column_at :: "'a list option \<Rightarrow> nat \<Rightarrow> 'a option" where
  "column_at c i = map_option (\<lambda>xs. xs ! i) c"

definition sample ::
  "(fl list \<Rightarrow> fl list) \<Rightarrow> rat list list \<Rightarrow> sampling_metadata \<Rightarrow> fl list list \<Rightarrow> nat list res" where
  "sample softmax noise md logits =
     rbind (masked_logits md logits) (\<lambda>l.
       let n = length l; q = (case md_q_samples md of Some q \<Rightarrow> q | None \<Rightarrow> noise)
       in case md_temperature md of
            None \<Rightarrow> Inl AssertionError
          | Some temps \<Rightarrow>
              if length temps = n \<and> column_fits (md_min_p md) n \<and> column_fits (md_top_k md) n
                 \<and> column_fits (md_top_p md) n \<and> same_shape q l
              then rmap (\<lambda>i. sample_row softmax (md_all_random md) (temps ! i)
                                (column_at (md_min_p md) i) (column_at (md_top_k md) i)
                                (column_at (md_top_p md) i) (q ! i) (l ! i)) [0..<n]
              else Inl RuntimeError)"

text \<open>\<open>forward\<close>: one sampled token per row, as a column.\<close>

definition sampler_forward ::
  "(fl list \<Rightarrow> fl list) \<Rightarrow> rat list list \<Rightarrow> sampling_metadata \<Rightarrow> fl list list
    \<Rightarrow> nat list list res" where
  "sampler_forward softmax noise md logits =
     rbind (sample softmax noise md logits) (\<lambda>sampled. Inr (map (\<lambda>t. [t]) sampled))"

section \<open>Log-probabilities\<close>

definition count_tokens_ge :: "fl list \<Rightarrow> fl \<Rightarrow> nat" where
  "count_tokens_ge logprobs threshold =
     max (length (filter (\<lambda>x. fl_le threshold x) logprobs)) 1"

text \<open>One row of \<open>gather_logprobs\<close>: the token and the \<open>topk\<close> positions, their
  log-probabilities, and the rank of the token.\<close>

definition gather_logprobs_row ::
  "(fl list \<Rightarrow> nat \<Rightarrow> nat list) \<Rightarrow> fl list \<Rightarrow> nat \<Rightarrow> int \<Rightarrow> (int list \<times> fl list \<times> nat) res" where
  "gather_logprobs_row topk logprobs num token_id =
     (if num > length logprobs then Inl RuntimeError
      else if \<not> (0 \<le> token_id \<and> token_id < int (length logprobs)) then Inl RuntimeError
      else
        let top = topk logprobs num; lp = logprobs ! nat token_id
        in Inr (token_id # map int top, lp # map ((!) logprobs) top,
                count_tokens_ge logprobs lp))"

definition gather_logprobs ::
  "(fl list \<Rightarrow> nat \<Rightarrow> nat list) \<Rightarrow> fl list list \<Rightarrow> nat \<Rightarrow> int list
    \<Rightarrow> (int list \<times> fl list \<times> nat) list res" where
  "gather_logprobs topk logprobs num token_ids =
     (if length token_ids = length logprobs
      then rmap (\<lambda>i. gather_logprobs_row topk (logprobs ! i) num (token_ids ! i))
             [0..<length logprobs]
      else Inl RuntimeError)"

end
