(* ===== verification/SamplingMetaProps.thy ===== *)
theory SamplingMetaProps
  imports SamplingMeta
begin

text \<open>
  The properties of the sampling metadata: each mask bans exactly the tokens it should, the counts
  and the prompt mask are those of the requests, padding rows change nothing, and the early return
  is taken only when nothing would have changed a logit.
\<close>

section \<open>Loops that mark cells of a matrix\<close>

definition marks ::
  "nat \<Rightarrow> nat \<Rightarrow> 'a \<Rightarrow> ('a list list \<Rightarrow> 'a list list res) \<Rightarrow> (nat \<Rightarrow> nat \<Rightarrow> bool) \<Rightarrow> bool" where
  "marks n v c f S \<longleftrightarrow>
     (\<forall>m. shaped n v m \<longrightarrow> (\<exists>m'. f m = Inr m' \<and> shaped n v m' \<and>
        (\<forall>i < n. \<forall>j < v. m' ! i ! j = (if S i j then c else m ! i ! j))))"

lemma marks_ok:
  assumes "marks n v c f S" "shaped n v m"
  obtains m' where "f m = Inr m'" "shaped n v m'"
    "\<And>i j. i < n \<Longrightarrow> j < v \<Longrightarrow> m' ! i ! j = (if S i j then c else m ! i ! j)"
  using assms unfolding marks_def by blast

lemma marks_none: "(\<And>i j. \<not> S i j) \<Longrightarrow> marks n v c Inr S"
  by (auto simp: marks_def)

lemma marks_put:
  assumes "r < n" "0 \<le> t" "t < int v"
  shows "marks n v c (\<lambda>m. matrix_put m r t (\<lambda>_. c)) (\<lambda>i j. i = r \<and> int j = t)"
  unfolding marks_def using matrix_put_cell [OF _ assms, where f = "\<lambda>_. c"] by blast

lemma marks_cong: "marks n v c f S \<Longrightarrow> (\<And>i j. i < n \<Longrightarrow> j < v \<Longrightarrow> S i j = T i j) \<Longrightarrow> marks n v c f T"
  unfolding marks_def by simp

lemma marks_fold:
  fixes f :: "'b list list \<Rightarrow> 'a \<Rightarrow> 'b list list res"
  assumes "\<And>x. x \<in> set xs \<Longrightarrow> marks n v c (\<lambda>m. f m x) (S x)"
  shows "marks n v c (\<lambda>m. rfold f m xs) (\<lambda>i j. \<exists>x \<in> set xs. S x i j)"
  using assms
proof (induction xs)
  case Nil
  then show ?case by (auto simp: marks_def)
next
  case (Cons x xs)
  have x: "marks n v c (\<lambda>m. f m x) (S x)" using Cons.prems by simp
  have xs: "marks n v c (\<lambda>m. rfold f m xs) (\<lambda>i j. \<exists>x \<in> set xs. S x i j)"
    by (rule Cons.IH) (simp add: Cons.prems)
  show ?case
    unfolding marks_def
  proof (intro allI impI)
    fix m :: "'b list list" assume "shaped n v m"
    then obtain m1 where m1: "f m x = Inr m1" "shaped n v m1"
      "\<And>i j. i < n \<Longrightarrow> j < v \<Longrightarrow> m1 ! i ! j = (if S x i j then c else m ! i ! j)"
      using marks_ok [OF x] by blast
    obtain m2 where m2: "rfold f m1 xs = Inr m2" "shaped n v m2"
      "\<And>i j. i < n \<Longrightarrow> j < v \<Longrightarrow> m2 ! i ! j = (if \<exists>x \<in> set xs. S x i j then c else m1 ! i ! j)"
      using marks_ok [OF xs m1(2)] by blast
    have "\<forall>i < n. \<forall>j < v. m2 ! i ! j = (if \<exists>y \<in> set (x # xs). S y i j then c else m ! i ! j)"
      using m1(3) m2(3) by simp
    then show "\<exists>m'. rfold f m (x # xs) = Inr m' \<and> shaped n v m' \<and>
        (\<forall>i < n. \<forall>j < v. m' ! i ! j = (if \<exists>y \<in> set (x # xs). S y i j then c else m ! i ! j))"
      using m1(1) m2(1,2) by auto
  qed
qed

lemma marks_full:
  assumes "marks n v c f S"
  obtains m where "f (full n v d) = Inr m" "shaped n v m"
    "\<And>i j. i < n \<Longrightarrow> j < v \<Longrightarrow> m ! i ! j = (if S i j then c else d)"
proof -
  obtain m where m: "f (full n v d) = Inr m" "shaped n v m"
    "\<And>i j. i < n \<Longrightarrow> j < v \<Longrightarrow> m ! i ! j = (if S i j then c else full n v d ! i ! j)"
    using marks_ok [OF assms shaped_full] by blast
  show ?thesis by (rule that [OF m(1,2)]) (simp add: m(3))
qed

lemma enumerate_mem:
  "(i, x) \<in> set (List.enumerate 0 xs) \<longleftrightarrow> i < length xs \<and> x = xs ! i"
  by (auto simp: in_set_enumerate_eq)

section \<open>Bad words\<close>

text \<open>A word forbids a token after a history: the token completes the word.\<close>

definition completes :: "int list \<Rightarrow> int list \<Rightarrow> int \<Rightarrow> bool" where
  "completes past word t \<longleftrightarrow> (\<exists>start pre. word = pre @ [t] \<and> past = start @ pre)"

lemma completes_iff:
  "completes past word t \<longleftrightarrow>
     word \<noteq> [] \<and> last word = t \<and> length word - 1 \<le> length past
     \<and> last_n past (length word - 1) = take (length word - 1) word"
proof
  assume "completes past word t"
  then show "word \<noteq> [] \<and> last word = t \<and> length word - 1 \<le> length past
     \<and> last_n past (length word - 1) = take (length word - 1) word"
    by (auto simp: completes_def last_n_def)
next
  assume r: "word \<noteq> [] \<and> last word = t \<and> length word - 1 \<le> length past
     \<and> last_n past (length word - 1) = take (length word - 1) word"
  let ?k = "length past - (length word - 1)"
  have "word = take (length word - 1) word @ [t]"
    using r by (metis append_butlast_last_id butlast_conv_take)
  moreover have "past = take ?k past @ take (length word - 1) word"
    using r by (metis append_take_drop_id last_n_def)
  ultimately show "completes past word t" unfolding completes_def by blast
qed

lemma last_n_0 [simp]: "last_n xs 0 = []"
  by (simp add: last_n_def)

lemma ban_word_marks:
  assumes "i < n" "\<forall>t \<in> set word. 0 \<le> t"
  shows "marks n v NegInf (\<lambda>m. ban_word v past i m word)
           (\<lambda>r j. r = i \<and> completes past word (int j))"
proof (cases "word = [] \<or> int v \<le> last word")
  case True
  then have "marks n v NegInf Inr (\<lambda>r j. r = i \<and> word \<noteq> [] \<and> j < v \<and> completes past word (int j))"
    by (intro marks_none) (auto simp: completes_iff)
  then have "marks n v NegInf Inr (\<lambda>r j. r = i \<and> completes past word (int j))"
    by (rule marks_cong) (auto simp: completes_iff)
  moreover have "(\<lambda>m. ban_word v past i m word) = Inr"
    using True by (auto simp: ban_word_def Let_def fun_eq_iff)
  ultimately show ?thesis by simp
next
  case False
  then have l: "0 \<le> last word" "last word < int v" using assms(2) by auto
  show ?thesis
  proof (cases "completes past word (last word)")
    case True
    then have "(\<lambda>m. ban_word v past i m word) = (\<lambda>m. matrix_put m i (last word) (\<lambda>_. NegInf))"
      using False by (auto simp: ban_word_def Let_def fun_eq_iff completes_iff)
    moreover have "marks n v NegInf (\<lambda>m. matrix_put m i (last word) (\<lambda>_. NegInf))
        (\<lambda>r j. r = i \<and> completes past word (int j))"
      by (rule marks_cong [OF marks_put [OF assms(1) l]]) (use True in \<open>auto simp: completes_iff\<close>)
    ultimately show ?thesis by simp
  next
    case no: False
    then have "(\<lambda>m. ban_word v past i m word) = Inr"
      using False by (auto simp: ban_word_def Let_def fun_eq_iff completes_iff)
    moreover have "marks n v NegInf Inr (\<lambda>r j. r = i \<and> completes past word (int j))"
      using no by (intro marks_none) (auto simp: completes_iff)
    ultimately show ?thesis by simp
  qed
qed

text \<open>C17. The mask of bad words bans exactly the tokens that would complete one: entry \<open>(i, t)\<close> is
  \<open>-inf\<close> when some bad word of request \<open>i\<close> is \<open>t\<close> after the most recent output tokens, and
  \<open>0\<close> otherwise, in padding rows too.\<close>

theorem bad_words_ban_exactly:
  assumes "distinct (dkeys bad)"
    and "\<forall>words \<in> set (map snd bad). \<forall>word \<in> set words. \<forall>t \<in> set word. 0 \<le> t"
  shows "\<exists>m. compute_bad_words_mask bad st outs padded vocab = Inr m \<and> shaped padded vocab m
    \<and> (\<forall>i < padded. \<forall>t < vocab. m ! i ! t =
         (if \<exists>words. dget bad i = Some words
                \<and> (\<exists>word \<in> set words. completes (past_tokens st outs i) word (int t))
          then NegInf else Fin 0))"
proof -
  let ?f = "\<lambda>msk (i, words). if i \<ge> padded then Inr msk
              else rfold (ban_word vocab (past_tokens st outs i) i) msk words"
  let ?S = "\<lambda>(k, words) i t. i = k \<and> (\<exists>word \<in> set words. completes (past_tokens st outs k) word (int t))"
  have "marks padded vocab NegInf (\<lambda>m. ?f m e) (?S e)" if e: "e \<in> set bad" for e
  proof -
    obtain k words where kw: "e = (k, words)" by (cases e)
    show ?thesis
    proof (cases "k \<ge> padded")
      case True
      then have "marks padded vocab NegInf Inr (\<lambda>i t. i < padded \<and> ?S e i t)"
        using kw by (intro marks_none) auto
      then show ?thesis using True kw by (auto elim: marks_cong)
    next
      case False
      have "marks padded vocab NegInf
          (\<lambda>m. rfold (ban_word vocab (past_tokens st outs k) k) m words)
          (\<lambda>i t. \<exists>word \<in> set words. i = k \<and> completes (past_tokens st outs k) word (int t))"
        using assms(2) e kw False by (intro marks_fold ban_word_marks) force+
      then show ?thesis using kw False by (auto elim: marks_cong)
    qed
  qed
  then have "marks padded vocab NegInf (\<lambda>m. rfold ?f m bad) (\<lambda>i t. \<exists>e \<in> set bad. ?S e i t)"
    by (rule marks_fold)
  then obtain m where m: "rfold ?f (full padded vocab (Fin 0)) bad = Inr m" "shaped padded vocab m"
    "\<And>i j. i < padded \<Longrightarrow> j < vocab \<Longrightarrow> m ! i ! j =
       (if \<exists>e \<in> set bad. ?S e i j then NegInf else Fin 0)"
    by (rule marks_full [where d = "Fin 0"]) blast
  have "(\<exists>e \<in> set bad. ?S e i j) \<longleftrightarrow> (\<exists>words. dget bad i = Some words
      \<and> (\<exists>word \<in> set words. completes (past_tokens st outs i) word (int j)))" for i j
    unfolding map_of_eq_Some_iff [OF assms(1)] by (simp add: Bex_def split_paired_Ex)
  then show ?thesis using m by (auto simp: compute_bad_words_mask_def)
qed

theorem bad_words_ban_exactly_witness:
  "\<exists>m. compute_bad_words_mask [(1, [[7, 2]])] (\<lambda>_. [4, 7]) [None, Some 0] 2 3 = Inr m
     \<and> m ! 1 ! 2 = NegInf \<and> m ! 1 ! 1 = Fin 0 \<and> m ! 0 ! 2 = Fin 0"
proof -
  have "completes [4, 7] [7, 2] 2" "\<not> completes [4, 7] [7, 2] 1"
    by (simp_all add: completes_iff last_n_def)
  then show ?thesis
    using bad_words_ban_exactly [of "[(1, [[7, 2]])]" "\<lambda>_. [4, 7]" "[None, Some 0]" 2 3]
    by (auto simp: past_tokens_def)
qed

section \<open>Minimum lengths\<close>

text \<open>The mask of minimum lengths suppresses exactly the stop tokens of the requests whose output
  is still shorter than their minimum.\<close>

theorem min_tokens_suppress_exactly:
  assumes "distinct (dkeys mins)" and "\<forall>i \<in> set (dkeys mins). i < length outs"
    and "\<forall>(c, stops) \<in> set (map snd mins). \<forall>t \<in> set stops. 0 \<le> t"
  shows "\<exists>m. compute_min_tokens_mask mins st outs padded vocab = Inr m \<and> shaped padded vocab m
    \<and> (\<forall>i < padded. \<forall>t < vocab. m ! i ! t =
         (if \<exists>c stops. dget mins i = Some (c, stops) \<and> int t \<in> set stops
                \<and> length (past_tokens st outs i) < c
          then NegInf else Fin 0))"
proof -
  let ?f = "\<lambda>msk (i, c, stops). if i \<ge> padded then Inr msk
              else rbind (lget outs i) (\<lambda>_. if length (past_tokens st outs i) < c
                   then rfold (suppress vocab i) msk stops else Inr msk)"
  let ?S = "\<lambda>(k, c, stops) i t. i = k \<and> int t \<in> set stops \<and> length (past_tokens st outs k) < c"
  have "marks padded vocab NegInf (\<lambda>m. ?f m e) (?S e)" if e: "e \<in> set mins" for e
  proof -
    obtain k c stops where kw: "e = (k, c, stops)" by (cases e)
    have k: "k < length outs" using assms(2) e kw by force
    show ?thesis
    proof (cases "k \<ge> padded \<or> \<not> length (past_tokens st outs k) < c")
      case True
      then have "marks padded vocab NegInf Inr (\<lambda>i t. i < padded \<and> ?S e i t)"
        using kw by (intro marks_none) auto
      moreover have "(\<lambda>m. ?f m e) = Inr" using True kw k by (auto simp: fun_eq_iff)
      ultimately show ?thesis using True kw by (auto elim: marks_cong)
    next
      case False
      have "marks padded vocab NegInf (\<lambda>m. suppress vocab k m t) (\<lambda>i j. i = k \<and> int j = t)"
        if t: "t \<in> set stops" for t
      proof (cases "t < int vocab")
        case True
        have "0 \<le> t" using assms(3) e kw t by force
        then show ?thesis using marks_put [of k padded t vocab NegInf] True False
          by (simp add: suppress_def)
      next
        case big: False
        have "marks padded vocab NegInf Inr (\<lambda>i j. j < vocab \<and> i = k \<and> int j = t)"
          using big by (intro marks_none) auto
        then show ?thesis using big by (auto simp: suppress_def elim: marks_cong)
      qed
      then have "marks padded vocab NegInf (\<lambda>m. rfold (suppress vocab k) m stops)
          (\<lambda>i j. \<exists>t \<in> set stops. i = k \<and> int j = t)"
        by (rule marks_fold)
      then show ?thesis using kw False k by (auto elim: marks_cong)
    qed
  qed
  then have "marks padded vocab NegInf (\<lambda>m. rfold ?f m mins) (\<lambda>i t. \<exists>e \<in> set mins. ?S e i t)"
    by (rule marks_fold)
  then obtain m where m: "rfold ?f (full padded vocab (Fin 0)) mins = Inr m" "shaped padded vocab m"
    "\<And>i j. i < padded \<Longrightarrow> j < vocab \<Longrightarrow> m ! i ! j =
       (if \<exists>e \<in> set mins. ?S e i j then NegInf else Fin 0)"
    by (rule marks_full [where d = "Fin 0"]) blast
  have "(\<exists>e \<in> set mins. ?S e i j) \<longleftrightarrow> (\<exists>c stops. dget mins i = Some (c, stops)
      \<and> int j \<in> set stops \<and> length (past_tokens st outs i) < c)" for i j
    unfolding map_of_eq_Some_iff [OF assms(1)] by (simp add: Bex_def split_paired_Ex)
  then show ?thesis using m by (auto simp: compute_min_tokens_mask_def)
qed

theorem min_tokens_suppress_exactly_witness:
  "\<exists>m. compute_min_tokens_mask [(1, 3, [2, 9])] (\<lambda>_. [4, 7]) [None, Some 0] 2 3 = Inr m
     \<and> m ! 1 ! 2 = NegInf \<and> m ! 1 ! 1 = Fin 0 \<and> m ! 0 ! 2 = Fin 0"
  using min_tokens_suppress_exactly [of "[(1, 3, [2, 9])]" "[None, Some 0]" "\<lambda>_. [4, 7]" 2 3]
  by (auto simp: past_tokens_def)

section \<open>Penalties\<close>

text \<open>Loops that add to cells.\<close>

definition adds ::
  "nat \<Rightarrow> nat \<Rightarrow> (rat list list \<Rightarrow> rat list list res) \<Rightarrow> (nat \<Rightarrow> nat \<Rightarrow> rat) \<Rightarrow> bool" where
  "adds n v f A \<longleftrightarrow>
     (\<forall>m. shaped n v m \<longrightarrow> (\<exists>m'. f m = Inr m' \<and> shaped n v m' \<and>
        (\<forall>i < n. \<forall>j < v. m' ! i ! j = m ! i ! j + A i j)))"

lemma adds_put:
  assumes "r < n" "0 \<le> t" "t < int v"
  shows "adds n v (\<lambda>m. matrix_put m r t (\<lambda>c. c + 1)) (\<lambda>i j. if i = r \<and> t = int j then 1 else 0)"
  unfolding adds_def
proof (intro allI impI)
  fix m :: "rat list list" assume "shaped n v m"
  then obtain m' where "matrix_put m r t (\<lambda>c. c + 1) = Inr m'" "shaped n v m'"
    "\<forall>i < n. \<forall>j < v. m' ! i ! j = (if i = r \<and> int j = t then m ! i ! j + 1 else m ! i ! j)"
    using matrix_put_cell [OF _ assms, where f = "\<lambda>c. c + 1"] by blast
  then show "\<exists>m'. matrix_put m r t (\<lambda>c. c + 1) = Inr m' \<and> shaped n v m' \<and>
      (\<forall>i < n. \<forall>j < v. m' ! i ! j = m ! i ! j + (if i = r \<and> t = int j then 1 else 0))"
    by (intro exI [of _ m']) auto
qed

lemma adds_fold:
  assumes "\<And>x. x \<in> set xs \<Longrightarrow> adds n v (\<lambda>m. f m x) (A x)"
  shows "adds n v (\<lambda>m. rfold f m xs) (\<lambda>i j. sum_list (map (\<lambda>x. A x i j) xs))"
  using assms
proof (induction xs)
  case Nil
  then show ?case by (auto simp: adds_def)
next
  case (Cons x xs)
  have x: "adds n v (\<lambda>m. f m x) (A x)" using Cons.prems by simp
  have xs: "adds n v (\<lambda>m. rfold f m xs) (\<lambda>i j. sum_list (map (\<lambda>x. A x i j) xs))"
    by (rule Cons.IH) (simp add: Cons.prems)
  show ?case
    unfolding adds_def
  proof (intro allI impI)
    fix m :: "rat list list" assume "shaped n v m"
    then obtain m1 where m1: "f m x = Inr m1" "shaped n v m1"
      "\<forall>i < n. \<forall>j < v. m1 ! i ! j = m ! i ! j + A x i j"
      using x unfolding adds_def by blast
    obtain m2 where m2: "rfold f m1 xs = Inr m2" "shaped n v m2"
      "\<forall>i < n. \<forall>j < v. m2 ! i ! j = m1 ! i ! j + sum_list (map (\<lambda>x. A x i j) xs)"
      using xs m1(2) unfolding adds_def by blast
    have "\<forall>i < n. \<forall>j < v. m2 ! i ! j = m ! i ! j + sum_list (map (\<lambda>x. A x i j) (x # xs))"
      using m1(3) m2(3) by simp
    then show "\<exists>m'. rfold f m (x # xs) = Inr m' \<and> shaped n v m' \<and>
        (\<forall>i < n. \<forall>j < v. m' ! i ! j = m ! i ! j + sum_list (map (\<lambda>x. A x i j) (x # xs)))"
      using m1(1) m2(1,2) by auto
  qed
qed

lemma adds_full:
  assumes "adds n v f A"
  obtains m where "f (full n v 0) = Inr m" "shaped n v m"
    "\<And>i j. i < n \<Longrightarrow> j < v \<Longrightarrow> m ! i ! j = A i j"
proof -
  obtain m where m: "f (full n v 0) = Inr m" "shaped n v m"
    "\<forall>i < n. \<forall>j < v. m ! i ! j = full n v 0 ! i ! j + A i j"
    using assms shaped_full [of n v "0::rat"] unfolding adds_def by fast
  show ?thesis by (rule that [OF m(1,2)]) (simp add: m(3))
qed

lemma sum_enumerate:
  "sum_list (map (\<lambda>(k, x). if i = k then g x else (0::rat)) (List.enumerate 0 xs)) =
     (if i < length xs then g (xs ! i) else 0)"
proof -
  have "sum_list (map (\<lambda>(k, x). if i = k then g x else (0::rat)) (List.enumerate 0 xs)) =
      (\<Sum>k = 0..<length xs. if i = k then g (xs ! k) else 0)"
    by (simp add: sum_list_sum_nth nth_enumerate_eq)
  then show ?thesis by (simp add: sum.delta)
qed

lemma sum_count: "sum_list (map (\<lambda>t. if i = r \<and> t = int j then 1 else 0) ts) =
    (if i = r then of_nat (count_list ts (int j)) else (0::rat))"
  by (induction ts) auto

text \<open>The count tensor counts every request's output tokens.\<close>

theorem output_counts_are_occurrences:
  assumes "length outs \<le> padded"
    and "\<forall>i < length outs. \<forall>t \<in> set (past_tokens st outs i). 0 \<le> t \<and> t < int vocab"
  shows "\<exists>m. compute_token_counts st outs padded vocab = Inr m \<and> shaped padded vocab m
    \<and> (\<forall>i < padded. \<forall>t < vocab.
         m ! i ! t = of_nat (count_list (past_tokens st outs i) (int t)))"
proof -
  let ?f = "\<lambda>counts (i, out).
              case out of None \<Rightarrow> Inr counts
              | Some a \<Rightarrow> rfold (\<lambda>counts t. matrix_put counts i t (\<lambda>c. c + 1)) counts (st a)"
  let ?g = "\<lambda>j out. case out of None \<Rightarrow> 0 | Some a \<Rightarrow> rat_of_nat (count_list (st a) (int j))"
  let ?A = "\<lambda>(k, out) i j. if i = k then ?g j out else 0"
  have "adds padded vocab (\<lambda>m. ?f m e) (?A e)" if "e \<in> set (List.enumerate 0 outs)" for e
  proof -
    obtain k out where e: "e = (k, out)" by (cases e)
    then have k: "k < length outs" "out = outs ! k" using that by (auto simp: enumerate_mem)
    show ?thesis
    proof (cases out)
      case None
      then show ?thesis using e by (auto simp: adds_def)
    next
      case (Some a)
      have "st a = past_tokens st outs k"
        using k Some by (auto simp: past_tokens_def split: option.split)
      then have "\<forall>t \<in> set (st a). 0 \<le> t \<and> t < int vocab" using assms(2) k by simp
      then have "adds padded vocab (\<lambda>m. rfold (\<lambda>m t. matrix_put m k t (\<lambda>c. c + 1)) m (st a))
          (\<lambda>i j. sum_list (map (\<lambda>t. if i = k \<and> t = int j then 1 else 0) (st a)))"
        using assms(1) k by (intro adds_fold adds_put) auto
      then show ?thesis using e Some by (simp add: sum_count cong: if_cong)
    qed
  qed
  then have "adds padded vocab (\<lambda>m. rfold ?f m (List.enumerate 0 outs))
      (\<lambda>i j. sum_list (map (\<lambda>e. ?A e i j) (List.enumerate 0 outs)))"
    by (rule adds_fold)
  then obtain m where m: "rfold ?f (full padded vocab 0) (List.enumerate 0 outs) = Inr m"
    "shaped padded vocab m"
    "\<And>i j. i < padded \<Longrightarrow> j < vocab \<Longrightarrow>
       m ! i ! j = sum_list (map (\<lambda>e. ?A e i j) (List.enumerate 0 outs))"
    by (rule adds_full) blast
  have "sum_list (map (\<lambda>e. ?A e i j) (List.enumerate 0 outs)) =
      of_nat (count_list (past_tokens st outs i) (int j))" for i j
  proof -
    have A: "(\<lambda>e. ?A e i j) = (\<lambda>(k, x). if i = k then ?g j x else 0)"
      by (rule ext) (simp split: prod.split)
    have B: "sum_list (map (\<lambda>e. ?A e i j) (List.enumerate 0 outs)) =
        (if i < length outs then ?g j (outs ! i) else 0)"
      unfolding A by (rule sum_enumerate)
    show ?thesis
    proof (cases "i < length outs")
      case True
      then show ?thesis unfolding B by (cases "outs ! i") (simp_all add: past_tokens_def)
    next
      case False
      then show ?thesis unfolding B by (simp add: past_tokens_def)
    qed
  qed
  then show ?thesis using m assms(1) by (auto simp: compute_token_counts_def)
qed

theorem output_counts_are_occurrences_witness:
  "\<exists>m. compute_token_counts (\<lambda>_. [1, 2, 1]) [None, Some 0] 3 4 = Inr m
     \<and> m ! 1 ! 1 = 2 \<and> m ! 0 ! 1 = 0 \<and> m ! 2 ! 1 = 0"
proof -
  have p: "past_tokens (\<lambda>_. [1, 2, 1]) [None, Some 0] 0 = []"
    "past_tokens (\<lambda>_. [1, 2, 1]) [None, Some 0] (Suc 0) = [1, 2, 1]"
    "past_tokens (\<lambda>_. [1, 2, 1]) [None, Some 0] 2 = []"
    by (simp_all add: past_tokens_def)
  have "\<forall>i < length [None, Some (0::nat)].
      \<forall>t \<in> set (past_tokens (\<lambda>_. [1, 2, 1]) [None, Some 0] i). 0 \<le> t \<and> t < int 4"
    by (simp add: All_less_Suc numeral_2_eq_2 p)
  then obtain m where "compute_token_counts (\<lambda>_. [1, 2, 1]) [None, Some 0] 3 4 = Inr m"
    "\<forall>i < 3. \<forall>t < 4. m ! i ! t =
       of_nat (count_list (past_tokens (\<lambda>_. [1, 2, 1]) [None, Some 0] i) (int t))"
    using output_counts_are_occurrences [of "[None, Some 0]" 3 "\<lambda>_. [1, 2, 1]" 4] by fastforce
  then show ?thesis using p by (intro exI [of _ m]) simp
qed

text \<open>The prompt mask marks every request's prompt tokens below the vocabulary size.\<close>

theorem prompt_mask_marks_prompts:
  assumes "padded \<le> length lens" "padded \<le> length rows"
    and "\<forall>row \<in> set rows. \<forall>t \<in> set row. 0 \<le> t"
  shows "\<exists>m. compute_prompt_mask lens rows padded vocab = Inr m \<and> shaped padded vocab m
    \<and> (\<forall>i < padded. \<forall>t < vocab. m ! i ! t \<longleftrightarrow> int t \<in> set (take (lens ! i) (rows ! i)))"
proof -
  let ?f = "\<lambda>msk i. rbind (lget lens i) (\<lambda>n.
              if n > 0 then rbind (lget rows i) (\<lambda>row. mark_prompt vocab i (take n row) msk)
              else Inr msk)"
  let ?S = "\<lambda>k i t. i = k \<and> int t \<in> set (take (lens ! k) (rows ! k))"
  have "marks padded vocab True (\<lambda>m. ?f m k) (?S k)" if "k \<in> set [0..<padded]" for k
  proof -
    have k: "k < padded" "k < length lens" "k < length rows" using that assms by auto
    show ?thesis
    proof (cases "lens ! k > 0")
      case False
      then show ?thesis using k by (simp add: marks_none)
    next
      case True
      let ?ids = "filter (\<lambda>t. t < int vocab) (take (lens ! k) (rows ! k))"
      have ids: "0 \<le> t \<and> t < int vocab" if "t \<in> set ?ids" for t
        using that assms(3) nth_mem [OF k(3)] by (auto dest: in_set_takeD)
      have "marks padded vocab True
          (\<lambda>m. rfold (\<lambda>m t. if 0 \<le> t then matrix_put m k t (\<lambda>_. True) else Inl RuntimeError) m ?ids)
          (\<lambda>i j. \<exists>t \<in> set ?ids. i = k \<and> int j = t)"
      proof (rule marks_fold)
        fix t assume "t \<in> set ?ids"
        then have t: "0 \<le> t" "t < int vocab" using ids by blast+
        show "marks padded vocab True
            (\<lambda>m. if 0 \<le> t then matrix_put m k t (\<lambda>_. True) else Inl RuntimeError)
            (\<lambda>i j. i = k \<and> int j = t)"
          unfolding if_P [OF t(1)] by (rule marks_put [OF k(1) t])
      qed
      then show ?thesis using True k by (auto simp: mark_prompt_def elim: marks_cong)
    qed
  qed
  then have "marks padded vocab True (\<lambda>m. rfold ?f m [0..<padded])
      (\<lambda>i t. \<exists>k \<in> set [0..<padded]. ?S k i t)"
    by (rule marks_fold)
  then obtain m where "rfold ?f (full padded vocab False) [0..<padded] = Inr m"
    "shaped padded vocab m" "\<And>i j. i < padded \<Longrightarrow> j < vocab \<Longrightarrow>
       m ! i ! j = (if \<exists>k \<in> set [0..<padded]. ?S k i j then True else False)"
    by (rule marks_full [where d = False]) blast
  then show ?thesis by (auto simp: compute_prompt_mask_def)
qed

theorem prompt_mask_marks_prompts_witness:
  "\<exists>m. compute_prompt_mask [2, 0] [[3, 1, 0], [2, 0, 0]] 2 4 = Inr m
     \<and> m ! 0 ! 3 \<and> \<not> m ! 0 ! 0 \<and> \<not> m ! 1 ! 2"
  using prompt_mask_marks_prompts [of 2 "[2, 0]" "[[3, 1, 0], [2, 0, 0]]" 4]
  by (auto simp: less_Suc_eq)

section \<open>Padding rows and the early return\<close>

lemma rbind_InrE:
  assumes "rbind m f = Inr y"
  obtains x where "m = Inr x" "f x = Inr y"
  using assms by (auto simp: res_simps)

text \<open>A column of the batch cut to \<open>padded\<close> rows, the rows beyond the batch overwritten.\<close>

lemma padded_column:
  assumes "n \<le> padded" "padded \<le> length xs"
  shows "take padded (slice_fill xs n padded c) = take n xs @ replicate (padded - n) c"
  using assms by (simp add: slice_fill_def Let_def min_def)

lemma from_input_batch_cases:
  assumes "from_input_batch st noise draw b padded gen vocab = Inr (md, b')"
  obtains (short) bias bad allowed mins where
    "logit_bias_part b padded = Inr bias" "bad_words_part st b padded = Inr bad"
    "allowed_part b padded = Inr allowed" "min_tokens_part st b padded = Inr mins"
    "md_temperature md = None" "b' = b" "all_greedy b" "no_penalties b" "bias = None" "bad = None"
    "allowed = None" "mins = None" "generators b = []" "\<not> gen"
  | (long) md0 where
    "penalties_part st padded vocab md0 (fill_columns padded b) = Inr (md, b')"
    "md_temperature md0 = Some (take padded (temperature (fill_columns padded b)))"
    "md_top_p md0 = Some (take padded (top_p (fill_columns padded b)))"
    "md_top_k md0 = Some (take padded (top_k (fill_columns padded b)))"
    "md_min_p md0 = Some (take padded (min_p (fill_columns padded b)))"
    "md_presence_penalties md0 = None" "md_frequency_penalties md0 = None"
    "md_repetition_penalties md0 = None"
proof -
  note run = assms [unfolded from_input_batch_def Let_def]
  obtain bias where bias: "logit_bias_part b padded = Inr bias" using run by (elim rbind_InrE)
  note run = run [unfolded bias rbind.simps]
  obtain bad where bad: "bad_words_part st b padded = Inr bad" using run by (elim rbind_InrE)
  note run = run [unfolded bad rbind.simps]
  obtain allowed where allowed: "allowed_part b padded = Inr allowed" using run by (elim rbind_InrE)
  note run = run [unfolded allowed rbind.simps]
  obtain mins where mins: "min_tokens_part st b padded = Inr mins" using run by (elim rbind_InrE)
  note run = run [unfolded mins rbind.simps]
  obtain q where q: "q_samples_part noise draw b vocab = Inr q" using run by (elim rbind_InrE)
  note run = run [unfolded q rbind.simps]
  let ?md = "default_metadata\<lparr>md_logprobs := needs_logprobs b,
                  md_no_logit_bias := (bias = None), md_logit_bias_tensor := bias,
                  md_no_bad_words := (bad = None), md_bad_words_mask := bad,
                  md_no_allowed_token_ids := (allowed = None),
                  md_allowed_token_ids_mask := allowed,
                  md_no_min_tokens := (mins = None), md_min_tokens_mask := mins\<rparr>"
  show thesis
  proof (cases "greedy_shortcut gen b ?md")
    case True
    have "?md\<lparr>md_all_greedy := True\<rparr> = md \<and> b = b'"
      using run [unfolded if_P [OF True] sum.inject prod.inject] .
    then have "md = ?md\<lparr>md_all_greedy := True\<rparr>" "b' = b" by blast+
    moreover have "all_greedy b" "no_penalties b" "bias = None" "bad = None" "allowed = None"
      "mins = None" "generators b = []" "\<not> gen"
      using True by (simp_all add: greedy_shortcut_def)
    ultimately show thesis
      using short [OF bias bad allowed mins] by (simp add: default_metadata_def)
  next
    case False
    show thesis
      by (rule long [OF run [unfolded if_not_P [OF False]]]) (simp_all add: default_metadata_def)
  qed
qed

text \<open>The sampling parameters of padding rows.\<close>

definition padded_with :: "nat \<Rightarrow> nat \<Rightarrow> 'a list \<Rightarrow> 'a \<Rightarrow> 'a list" where
  "padded_with n padded xs c = take n xs @ replicate (padded - n) c"

text \<open>Unless the early return is taken, the parameter tensors have one row per padded request: the
  rows of the batch are the batch's own columns, and every padding row has the neutral value
  (greedy temperature, no top-k, no top-p, no min-p, no penalty).\<close>

theorem padding_rows_are_neutral:
  assumes "from_input_batch st noise draw b padded gen vocab = Inr (md, b')"
    and "arrays_sized b" "num_reqs b \<le> padded" "padded \<le> max_num_reqs b"
    and "md_temperature md \<noteq> None"
  shows "md_temperature md = Some (padded_with (num_reqs b) padded (temperature b) (-1))
    \<and> md_top_p md = Some (padded_with (num_reqs b) padded (top_p b) 1)
    \<and> md_top_k md = Some (padded_with (num_reqs b) padded (top_k b) 0)
    \<and> md_min_p md = Some (padded_with (num_reqs b) padded (min_p b) 0)
    \<and> (\<forall>xs. md_presence_penalties md = Some xs \<longrightarrow>
          xs = padded_with (num_reqs b) padded (presence_penalties b) 0)
    \<and> (\<forall>xs. md_frequency_penalties md = Some xs \<longrightarrow>
          xs = padded_with (num_reqs b) padded (frequency_penalties b) 0)
    \<and> (\<forall>xs. md_repetition_penalties md = Some xs \<longrightarrow>
          xs = padded_with (num_reqs b) padded (repetition_penalties b) 1)"
  using assms(1)
proof (cases rule: from_input_batch_cases)
  case short
  then show ?thesis using assms(5) by blast
next
  case (long md0)
  note sized = arrays_sizedD [OF assms(2)]
  have col: "take padded (slice_fill xs (num_reqs b) padded c) = padded_with (num_reqs b) padded xs c"
    if "length xs = max_num_reqs b" for xs :: "'x list" and c
    using that assms(3,4) by (simp add: padded_column padded_with_def)
  have fill: "temperature (fill_columns padded b) = slice_fill (temperature b) (num_reqs b) padded (-1)"
    "top_p (fill_columns padded b) = slice_fill (top_p b) (num_reqs b) padded 1"
    "top_k (fill_columns padded b) = slice_fill (top_k b) (num_reqs b) padded 0"
    "min_p (fill_columns padded b) = slice_fill (min_p b) (num_reqs b) padded 0"
    "presence_penalties (fill_columns padded b) = presence_penalties b"
    "frequency_penalties (fill_columns padded b) = frequency_penalties b"
    "repetition_penalties (fill_columns padded b) = repetition_penalties b"
    "num_reqs (fill_columns padded b) = num_reqs b"
    by (simp_all add: fill_columns_def default_sampling_params_def Let_def num_reqs_def)
  have md0: "md_temperature md0 = Some (padded_with (num_reqs b) padded (temperature b) (-1))"
    "md_top_p md0 = Some (padded_with (num_reqs b) padded (top_p b) 1)"
    "md_top_k md0 = Some (padded_with (num_reqs b) padded (top_k b) 0)"
    "md_min_p md0 = Some (padded_with (num_reqs b) padded (min_p b) 0)"
    using long sized by (simp_all add: fill col)
  have pen: "fill_penalties padded (fill_columns padded b) = (fill_columns padded b)\<lparr>
      presence_penalties := slice_fill (presence_penalties b) (num_reqs b) padded 0,
      frequency_penalties := slice_fill (frequency_penalties b) (num_reqs b) padded 0,
      repetition_penalties := slice_fill (repetition_penalties b) (num_reqs b) padded 1\<rparr>"
    by (simp add: fill_penalties_def default_sampling_params_def Let_def fill)
  show ?thesis
  proof (cases "vocab = None \<or> no_penalties (fill_columns padded b)")
    case True
    then have "md = md0" using long(1) by (auto simp: penalties_part_def split: option.splits)
    then show ?thesis using md0 long by simp
  next
    case False
    then obtain v where v: "vocab = Some v" "\<not> no_penalties (fill_columns padded b)" by auto
    obtain counts pmask where "md = md0\<lparr>
        md_presence_penalties := Some (padded_with (num_reqs b) padded (presence_penalties b) 0),
        md_frequency_penalties := Some (padded_with (num_reqs b) padded (frequency_penalties b) 0),
        md_repetition_penalties := Some (padded_with (num_reqs b) padded (repetition_penalties b) 1),
        md_output_token_counts := Some counts, md_prompt_token_mask := Some pmask\<rparr>"
      using long(1) v sized by (auto simp: penalties_part_def Let_def pen col res_simps)
    then show ?thesis using md0 by simp
  qed
qed

text \<open>A batch with one random request, and the metadata of it padded to two rows.\<close>

definition ex_random :: "(nat \<Rightarrow> int list list) input_batch" where
  "ex_random = ex_batch\<lparr>req_ids := [Some ''a''], req_id_to_index := [(''a'', 0)],
     req_output_token_ids := [Some 0], random_reqs := {''a''}, temperature := [1/2, 0, 0]\<rparr>"

lemma ex_random_fields:
  "arrays_sized ex_random" "num_reqs ex_random = 1" "max_num_reqs ex_random = 3"
  "temperature ex_random = [1/2, 0, 0]" "logit_bias ex_random = [None, None, None]"
  "bad_words_token_ids ex_random = []" "has_allowed_token_ids ex_random = {}"
  "min_tokens ex_random = []" "generators ex_random = []" "random_reqs ex_random = {''a''}"
  by (simp_all add: ex_random_def ex_batch_def new_input_batch_def Let_def arrays_sized_def
    num_reqs_def numeral_3_eq_3)

theorem padding_rows_are_neutral_witness:
  "\<exists>md b'. from_input_batch (\<lambda>_. []) [] (\<lambda>_. []) ex_random 2 False None = Inr (md, b')
     \<and> md_temperature md = Some [1/2, -1]"
proof -
  obtain md b' where run:
    "from_input_batch (\<lambda>_. []) [] (\<lambda>_. []) ex_random 2 False None = Inr (md, b')"
    "md_temperature md \<noteq> None"
    by (simp add: from_input_batch_def logit_bias_part_def bad_words_part_def allowed_part_def
      no_allowed_token_ids_def min_tokens_part_def q_samples_part_def greedy_shortcut_def all_greedy_def
      penalties_part_def ex_random_fields Let_def)
  show ?thesis
    using padding_rows_are_neutral [OF run(1) ex_random_fields(1) _ _ run(2)] run(1)
    by (simp add: ex_random_fields padded_with_def)
qed

lemma any_below_min_False:
  assumes "any_below_min st outs padded mins = Inr False" "(i, c, stops) \<in> set mins" "i < padded"
  shows "c \<le> length (past_tokens st outs i)"
  using assms
  by (induction st outs padded mins rule: any_below_min.induct)
    (auto simp: res_simps split: if_splits)

text \<open>The early return is taken only for a greedy batch in which nothing changes a logit: no
  penalty, no bias, no bad word, no restriction, no seed, and every request past its minimum
  length. The batch is then left as it was.\<close>

theorem shortcut_changes_no_logit:
  assumes "from_input_batch st noise draw b padded gen vocab = Inr (md, b')"
    and "md_temperature md = None"
  shows "b' = b \<and> random_reqs b = {} \<and> no_penalties b
    \<and> (\<forall>x \<in> set (take (num_reqs b) (logit_bias b)). x = None)
    \<and> bad_words_token_ids b = [] \<and> has_allowed_token_ids b = {} \<and> generators b = []
    \<and> (\<forall>i c stops. (i, c, stops) \<in> set (min_tokens b) \<and> i < padded \<longrightarrow>
         c \<le> length (past_tokens st (req_output_token_ids b) i))"
  using assms(1)
proof (cases rule: from_input_batch_cases)
  case (short bias bad allowed mins)
  have "\<forall>x \<in> set (take (num_reqs b) (logit_bias b)). x = None"
    using short by (auto simp: logit_bias_part_def Let_def res_simps list_ex_iff split: if_splits)
  moreover have "bad_words_token_ids b = []"
    using short by (auto simp: bad_words_part_def res_simps split: if_splits)
  moreover have "has_allowed_token_ids b = {}"
    using short by (auto simp: allowed_part_def no_allowed_token_ids_def Let_def
      split: if_splits option.splits)
  moreover have "any_below_min st (req_output_token_ids b) padded (min_tokens b) = Inr False"
    using short by (auto simp: min_tokens_part_def res_simps split: if_splits)
  then have "\<forall>i c stops. (i, c, stops) \<in> set (min_tokens b) \<and> i < padded \<longrightarrow>
      c \<le> length (past_tokens st (req_output_token_ids b) i)"
    using any_below_min_False by blast
  ultimately show ?thesis using short by (simp add: all_greedy_def)
next
  case (long md0)
  have "md_temperature md \<noteq> None"
    using long(1,2) by (auto simp: penalties_part_def Let_def res_simps split: option.splits if_splits)
  then show ?thesis using assms(2) by simp
qed

theorem shortcut_changes_no_logit_witness:
  "\<exists>md b'. from_input_batch (\<lambda>_. []) [] (\<lambda>_. []) ex_batch 2 False None = Inr (md, b')
     \<and> b' = ex_batch \<and> no_penalties ex_batch"
proof -
  have f: "num_reqs ex_batch = 0" "bad_words_token_ids ex_batch = []"
    "has_allowed_token_ids ex_batch = {}" "min_tokens ex_batch = []" "generators ex_batch = []"
    "random_reqs ex_batch = {}" "presence_penalties_reqs ex_batch = {}"
    "frequency_penalties_reqs ex_batch = {}" "repetition_penalties_reqs ex_batch = {}"
    by (simp_all add: ex_batch_def new_input_batch_def Let_def num_reqs_def)
  obtain md b' where run:
    "from_input_batch (\<lambda>_. []) [] (\<lambda>_. []) ex_batch 2 False None = Inr (md, b')"
    "md_temperature md = None"
    by (simp add: from_input_batch_def logit_bias_part_def bad_words_part_def allowed_part_def
      no_allowed_token_ids_def min_tokens_part_def q_samples_part_def greedy_shortcut_def all_greedy_def
      no_penalties_def default_metadata_def f Let_def)
  show ?thesis using shortcut_changes_no_logit [OF run] run(1) by auto
qed

end
