(* ===== verification/SamplerProps.thy ===== *)
theory SamplerProps
  imports Sampler SamplingMetaProps "HOL-Library.Multiset"
begin

text \<open>
  The properties of the sampler: no masked token is sampled, on the greedy and on the random path;
  the masks of the metadata reach the logits; top-k and top-p keep exactly the tokens they should;
  a greedy row does not depend on the noise; the rank of a token.
\<close>

section \<open>Order statistics of a sorted list\<close>

lemma sorted_nth_le_iff:
  fixes s :: "'a::linorder list"
  assumes "sorted s" "i < length s"
  shows "s ! i \<le> x \<longleftrightarrow> i < length (filter (\<lambda>y. y \<le> x) s)"
  using assms
proof (induction s arbitrary: i)
  case (Cons y s)
  show ?case
  proof (cases "y \<le> x")
    case True
    then show ?thesis using Cons by (cases i) auto
  next
    case False
    then have "\<forall>z \<in> set (y # s). \<not> z \<le> x" using Cons.prems(1) by auto
    moreover from this have "filter (\<lambda>y. y \<le> x) (y # s) = []"
      unfolding filter_empty_conv .
    ultimately show ?thesis using Cons.prems(2) by (metis list.size(3) not_less_zero nth_mem)
  qed
qed simp

lemma sorted_filter_le:
  fixes s :: "'a::linorder list"
  assumes "sorted s"
  shows "filter (\<lambda>y. y \<le> x) s = take (length (filter (\<lambda>y. y \<le> x) s)) s"
  using assms
proof (induction s)
  case (Cons y s)
  show ?case
  proof (cases "y \<le> x")
    case False
    then have "filter (\<lambda>y. y \<le> x) (y # s) = []"
      unfolding filter_empty_conv using Cons.prems by auto
    then show ?thesis by simp
  qed (use Cons in auto)
qed simp

lemma sort_map_Fin: "sort (map Fin ps) = map Fin (sort ps)"
proof (rule properties_for_sort)
  show "mset (map Fin (sort ps)) = mset (map Fin ps)" by simp
  show "sorted (map Fin (sort ps))"
    using sorted_sort [of ps] by (simp add: sorted_wrt_map)
qed

lemma length_filter_sort: "length (filter P (sort ps)) = length (filter P ps)"
proof -
  have "mset (filter P (sort ps)) = mset (filter P ps)" by simp
  then show ?thesis by (metis size_mset)
qed

lemma sum_filter_sort:
  fixes ps :: "rat list"
  shows "sum_list (filter P (sort ps)) = sum_list (filter P ps)"
proof -
  have "mset (filter P (sort ps)) = mset (filter P ps)" by simp
  then show ?thesis by (metis sum_mset_sum_list)
qed

lemma sum_filter_split:
  fixes ps :: "rat list"
  shows "sum_list ps = sum_list (filter (\<lambda>y. y \<le> x) ps) + sum_list (filter (\<lambda>y. x < y) ps)"
proof (induction ps)
  case (Cons a ps)
  show ?case
  proof (cases "a \<le> x")
    case True
    then have "\<not> x < a" by simp
    with True show ?thesis
      by (simp only: filter.simps if_True if_False sum_list.Cons Cons.IH add.assoc)
  next
    case False
    then have "x < a" by simp
    with False show ?thesis
      by (simp only: filter.simps if_True if_False sum_list.Cons Cons.IH add.left_commute)
  qed
qed simp

lemma length_filter_split:
  fixes ps :: "'a::linorder list"
  shows "length ps = length (filter (\<lambda>y. y \<le> x) ps) + length (filter (\<lambda>y. x < y) ps)"
  using sum_length_filter_compl [of "\<lambda>y. y \<le> x" ps] by (simp add: not_le)

lemma sum_list_take_mono:
  fixes s :: "rat list"
  assumes "\<forall>x \<in> set s. 0 \<le> x" "i \<le> j"
  shows "sum_list (take i s) \<le> sum_list (take j s)"
proof -
  have t: "take j s = take i s @ take (j - i) (drop i s)"
    using assms(2) by (metis add_diff_inverse_nat not_less take_add)
  have "\<forall>x \<in> set (take (j - i) (drop i s)). 0 \<le> x"
    using assms(1) by (auto dest: in_set_takeD in_set_dropD)
  then have "0 \<le> sum_list (take (j - i) (drop i s))" by (intro sum_list_nonneg) blast
  then show ?thesis unfolding t by simp
qed

section \<open>Top-k and top-p\<close>

text \<open>A token is among the best \<open>k\<close> when fewer than \<open>k\<close> tokens are strictly more likely; it is in
  the nucleus of \<open>p\<close> when the strictly more likely tokens have less than \<open>p\<close> of the mass.\<close>

definition among_best :: "rat list \<Rightarrow> int option \<Rightarrow> nat \<Rightarrow> bool" where
  "among_best ps k v =
     (case k of None \<Rightarrow> True
      | Some k \<Rightarrow> k \<le> 0 \<or> int (length (filter (\<lambda>x. ps ! v < x) ps)) < k)"

definition in_nucleus :: "rat list \<Rightarrow> rat option \<Rightarrow> nat \<Rightarrow> bool" where
  "in_nucleus ps p v =
     (case p of None \<Rightarrow> True | Some p \<Rightarrow> sum_list (filter (\<lambda>x. ps ! v < x) ps) < p)"

lemma top_k_cutoff_iff:
  assumes "v < length ps" "k \<le> int (length ps)"
  obtains c where "top_k_cutoff (map Fin (sort ps)) k = Inr c"
    "fl_lt (Fin (ps ! v)) c \<longleftrightarrow> \<not> among_best ps (Some k) v"
proof -
  let ?n = "length ps"
  have n: "?n > 0" using assms(1) by auto
  show ?thesis
  proof (cases "k \<le> 0 \<or> k = int ?n")
    case True
    have "length (filter (\<lambda>x. ps ! v < x) ps) < ?n"
      by (rule length_filter_less [OF nth_mem [OF assms(1)]]) simp
    then have "among_best ps (Some k) v" using True by (auto simp: among_best_def)
    moreover have "top_k_cutoff (map Fin (sort ps)) k = Inr NegInf"
      using True n by (auto simp: top_k_cutoff_def Let_def)
    ultimately show ?thesis using that by (simp add: fl_lt_def)
  next
    case False
    let ?j = "nat (int ?n - k)"
    have j: "?j < length (sort ps)" "int ?j = int ?n - k" using False assms(2) by auto
    have "sort ps ! ?j \<le> ps ! v \<longleftrightarrow> ?j < length (filter (\<lambda>y. y \<le> ps ! v) ps)"
      using sorted_nth_le_iff [OF sorted_sort j(1)] by (simp add: length_filter_sort)
    also have "\<dots> \<longleftrightarrow> int (length (filter (\<lambda>x. ps ! v < x) ps)) < k"
      using length_filter_split [of ps "ps ! v"] j(2) by linarith
    finally have "sort ps ! ?j \<le> ps ! v \<longleftrightarrow> among_best ps (Some k) v"
      using False by (simp add: among_best_def)
    moreover have "min (int ?n - k) (int ?n - 1) = int ?n - k" using False by linarith
    then have "top_k_cutoff (map Fin (sort ps)) k = Inr (Fin (sort ps ! ?j))"
      using False assms(2) unfolding nth_map [OF j(1), of Fin, symmetric]
      by (simp add: top_k_cutoff_def Let_def)
    ultimately show ?thesis using that by (auto simp: fl_lt_def)
  qed
qed

lemma top_p_cutoff_iff:
  assumes v: "v < length ps" and nonneg: "\<forall>x \<in> set ps. 0 \<le> x" and one: "sum_list ps = 1" and p: "0 < p"
  shows "fl_lt (Fin (ps ! v)) (map Fin (sort ps) ! top_p_count (map Fin (sort ps)) p)
     \<longleftrightarrow> \<not> in_nucleus ps (Some p) v"
proof -
  let ?s = "sort ps" and ?n = "length ps" and ?x = "ps ! v"
  define C where "C = map (\<lambda>i. sum_list (take (Suc i) ?s)) [0..<?n - 1]"
  let ?m = "length (filter (\<lambda>y. y \<le> ?x) ps)"
  have n: "?n > 0" using v by auto
  have "butlast (cumsum (map Fin ?s)) = map Fin C"
    using n by (simp add: C_def cumsum_Fin map_butlast [symmetric] butlast_conv_take take_map)
  then have count: "top_p_count (map Fin ?s) p = length (filter (\<lambda>c. c \<le> 1 - p) C)"
    by (simp add: top_p_count_def filter_map comp_def fl_le_def)
  define c where "c = length (filter (\<lambda>c. c \<le> 1 - p) C)"
  have lC: "length C = ?n - 1" by (simp add: C_def)
  have c: "c \<le> ?n - 1" unfolding c_def lC [symmetric] by (rule length_filter_le)
  have nn: "\<forall>x \<in> set ?s. 0 \<le> x" using nonneg by simp
  have srt: "sorted C"
    unfolding sorted_iff_nth_mono C_def using sum_list_take_mono [OF nn] by simp
  have m: "0 < ?m" using v nth_mem [OF v] by (auto simp: length_greater_0_conv filter_empty_conv)
  have mn: "?m \<le> ?n" by simp
  have sum_m: "sum_list (take ?m ?s) = sum_list (filter (\<lambda>y. y \<le> ?x) ps)"
    using sorted_filter_le [OF sorted_sort, of ?x ps] sum_filter_sort [of "\<lambda>y. y \<le> ?x" ps]
    by (metis length_filter_sort)
  have cn: "c < length ?s" using c n by (simp add: Suc_diff_le less_eq_Suc_le)
  have "?s ! c \<le> ?x \<longleftrightarrow> c < ?m"
    using sorted_nth_le_iff [OF sorted_sort cn, of ?x] by (simp add: length_filter_sort)
  also have "\<dots> \<longleftrightarrow> 1 - p < sum_list (filter (\<lambda>y. y \<le> ?x) ps)"
  proof (cases "?m = ?n")
    case True
    then have "sum_list (take ?m ?s) = sum_list ps"
      using sum_filter_sort [of "\<lambda>_. True" ps] by simp
    then show ?thesis using True cn p one sum_m by simp
  next
    case False
    then have i: "?m - 1 < length C" using m mn lC by linarith
    have "C ! (?m - 1) = sum_list (take ?m ?s)" using i m by (simp add: C_def)
    then have "sum_list (filter (\<lambda>y. y \<le> ?x) ps) \<le> 1 - p \<longleftrightarrow> ?m - 1 < c"
      using sorted_nth_le_iff [OF srt i] sum_m by (simp add: c_def)
    then show ?thesis using m by linarith
  qed
  also have "\<dots> \<longleftrightarrow> in_nucleus ps (Some p) v"
    using sum_filter_split [of ps ?x] one by (auto simp: in_nucleus_def)
  finally have "?s ! c \<le> ?x \<longleftrightarrow> in_nucleus ps (Some p) v" .
  then show ?thesis using count cn by (auto simp: fl_lt_def c_def)
qed

lemma masked_fill_probs:
  assumes "length ps = length row"
  shows "masked_fill (map P (map Fin ps)) row =
    map (\<lambda>v. if P (Fin (ps ! v)) then NegInf else row ! v) [0..<length row]"
  by (rule nth_equalityI) (use assms in \<open>simp_all add: masked_fill_def\<close>)

text \<open>The distribution of a row, and what the sampling parameters of a row must satisfy.\<close>

definition valid_k :: "int option \<Rightarrow> nat \<Rightarrow> bool" where
  "valid_k k n = (case k of None \<Rightarrow> True | Some k \<Rightarrow> k \<le> int n)"

definition valid_p :: "rat option \<Rightarrow> bool" where
  "valid_p p = (case p of None \<Rightarrow> True | Some p \<Rightarrow> 0 < p)"

definition valid_min_p :: "rat option \<Rightarrow> bool" where
  "valid_min_p p = (case p of None \<Rightarrow> True | Some p \<Rightarrow> p \<le> 1)"

lemma distributionD:
  assumes "distribution row ps"
  shows "length ps = length row" "\<forall>p \<in> set ps. 0 \<le> p" "sum_list ps = 1"
    "i < length row \<Longrightarrow> row ! i = NegInf \<Longrightarrow> ps ! i = 0"
  using assms by (auto simp: distribution_def)

lemma apply_top_k_top_p_eq:
  assumes sm: "softmax row = map Fin ps" and d: "distribution row ps"
    and k: "valid_k k (length row)" and p: "valid_p p" and ne: "row \<noteq> []"
  shows "apply_top_k_top_p softmax row k p = Inr (map (\<lambda>v.
     if among_best ps k v \<and> in_nucleus ps p v then row ! v else NegInf) [0..<length row])"
proof -
  let ?s = "map Fin (sort ps)" and ?n = "length row"
  note D = distributionD [OF d]
  let ?l = "map (\<lambda>v. if among_best ps k v then row ! v else NegInf) [0..<?n]"
  have first: "(case k of None \<Rightarrow> Inr row
         | Some k \<Rightarrow> rbind (top_k_cutoff ?s k) (\<lambda>cutoff.
             Inr (masked_fill (map (\<lambda>x. fl_lt x cutoff) (map Fin ps)) row))) = Inr ?l"
  proof (cases k)
    case None
    then show ?thesis by (simp add: among_best_def map_nth)
  next
    case (Some kk)
    have kn: "kk \<le> int (length ps)" using k Some D(1) by (simp add: valid_k_def)
    have 0: "0 < length ps" using ne D(1) by simp
    obtain c where c: "top_k_cutoff ?s kk = Inr c" by (rule top_k_cutoff_iff [OF 0 kn])
    have "fl_lt (Fin (ps ! v)) c \<longleftrightarrow> \<not> among_best ps (Some kk) v" if v: "v < length ps" for v
    proof -
      obtain c' where "top_k_cutoff ?s kk = Inr c'"
        "fl_lt (Fin (ps ! v)) c' \<longleftrightarrow> \<not> among_best ps (Some kk) v"
        by (rule top_k_cutoff_iff [OF v kn])
      then show ?thesis using c by simp
    qed
    then show ?thesis using Some c D(1) by (simp only: option.case rbind.simps masked_fill_probs) simp
  qed
  have second: "(case p of None \<Rightarrow> Inr ?l
          | Some p \<Rightarrow> (let cutoff = ?s ! top_p_count ?s p
               in Inr (masked_fill (map (\<lambda>x. fl_lt x cutoff) (map Fin ps)) ?l))) =
     Inr (map (\<lambda>v. if among_best ps k v \<and> in_nucleus ps p v then row ! v else NegInf) [0..<?n])"
  proof (cases p)
    case None
    then show ?thesis by (simp add: in_nucleus_def)
  next
    case (Some pp)
    have pp: "0 < pp" using p Some by (simp add: valid_p_def)
    have "fl_lt (Fin (ps ! v)) (?s ! top_p_count ?s pp) \<longleftrightarrow> \<not> in_nucleus ps (Some pp) v"
      if "v < length ps" for v
      by (rule top_p_cutoff_iff [OF that D(2,3) pp])
    moreover have "length ps = length ?l" using D(1) by simp
    ultimately show ?thesis
      using Some D(1) by (simp only: option.case Let_def masked_fill_probs) simp
  qed
  show ?thesis
    unfolding apply_top_k_top_p_def sm sort_map_Fin Let_def first rbind.simps
    by (rule second [unfolded Let_def])
qed

section \<open>Masked tokens stay masked\<close>

text \<open>An operation on a row keeps it fit for sampling and unmasks nothing.\<close>

definition keeps :: "fl list \<Rightarrow> fl list \<Rightarrow> bool" where
  "keeps row row' \<longleftrightarrow> length row' = length row \<and> logit_row row'
     \<and> (\<forall>v < length row. row ! v = NegInf \<longrightarrow> row' ! v = NegInf)"

lemma keeps_trans: "keeps a b \<Longrightarrow> keeps b c \<Longrightarrow> keeps a c"
  by (auto simp: keeps_def)

lemma logit_row_iff: "logit_row row \<longleftrightarrow>
    (\<forall>v < length row. plain (row ! v)) \<and> (\<exists>v < length row. is_fin (row ! v))"
  unfolding logit_row_def all_set_conv_all_nth by (metis in_set_conv_nth)

lemma keepsI:
  assumes "length row' = length row" "\<And>v. v < length row \<Longrightarrow> plain (row' ! v)"
    "\<And>v. v < length row \<Longrightarrow> row ! v = NegInf \<Longrightarrow> row' ! v = NegInf"
    "w < length row" "is_fin (row' ! w)"
  shows "keeps row row'"
  using assms by (auto simp: keeps_def logit_row_iff)

lemma logit_rowD:
  assumes "logit_row row"
  shows "v < length row \<Longrightarrow> plain (row ! v)" "row \<noteq> []"
    "\<exists>v < length row. is_fin (row ! v)"
  using assms by (auto simp: logit_row_iff)

lemma keeps_temperature:
  assumes "logit_row row" "random_only \<Longrightarrow> 0 < temp"
  shows "keeps row (apply_temperature random_only temp row)"
proof -
  let ?t = "if \<not> random_only \<and> temp < sampling_eps then 1 else temp"
  have t: "0 < ?t" using assms(2) by (auto simp: sampling_eps_def)
  have e: "apply_temperature random_only temp row = map (\<lambda>x. fl_div x (Fin ?t)) row"
    by (simp add: apply_temperature_def Let_def)
  have d: "plain x \<Longrightarrow> plain (fl_div x (Fin ?t))" "fl_div NegInf (Fin ?t) = NegInf"
    "is_fin x \<Longrightarrow> is_fin (fl_div x (Fin ?t))" for x
    using t by (auto elim!: plain_cases simp: fl_signed_inf_def is_fin_iff)
  obtain w where w: "w < length row" "is_fin (row ! w)" using logit_rowD(3) [OF assms(1)] by blast
  show ?thesis unfolding e
    by (rule keepsI [OF _ _ _ w(1)]) (use d w logit_rowD(1) [OF assms(1)] in auto)
qed

text \<open>The most likely token of a distribution is not masked.\<close>

lemma best_token:
  assumes "distribution row ps" "logit_row row"
  obtains w where "w < length row" "is_fin (row ! w)" "0 < ps ! w" "\<forall>x \<in> set ps. x \<le> ps ! w"
proof -
  note D = distributionD [OF assms(1)]
  have ne: "ps \<noteq> []" using D(3) by auto
  then obtain w where w: "w < length ps" "ps ! w = Max (set ps)"
    using Max_in [of "set ps"] by (auto simp: in_set_conv_nth)
  have le: "x \<le> ps ! w" if "x \<in> set ps" for x using w(2) that by simp
  have pos: "0 < ps ! w"
  proof (rule ccontr)
    assume n: "\<not> 0 < ps ! w"
    have z: "x = 0" if "x \<in> set ps" for x
      by (rule order.antisym) (use le [OF that] n D(2) that in auto)
    have "map (\<lambda>x. x) ps = map (\<lambda>_. 0) ps" using z by (intro map_cong) auto
    then have "sum_list ps = sum_list (map (\<lambda>_. 0) ps)" by simp
    then show False using D(3) by simp
  qed
  have "plain (row ! w)" "row ! w \<noteq> NegInf"
    using w D pos logit_rowD(1) [OF assms(2)] by auto
  then have "is_fin (row ! w)" by (simp add: plain_def)
  then show ?thesis using that [of w] w(1) pos D(1) le by auto
qed

lemma softmax_row:
  assumes "softmax_laws softmax" "logit_row row"
  obtains ps where "softmax row = map Fin ps" "distribution row ps"
  using assms by (auto simp: softmax_laws_def)

lemma Max_map_Fin: "ps \<noteq> [] \<Longrightarrow> Max (set (map Fin ps)) = Fin (Max (set ps))"
  using mono_Max_commute [of Fin "set ps"] by (simp add: mono_def)

lemma keeps_min_p:
  assumes "softmax_laws softmax" "logit_row row" "p \<le> 1"
  shows "keeps row (apply_min_p softmax p row)"
proof -
  obtain ps where ps: "softmax row = map Fin ps" "distribution row ps"
    by (rule softmax_row [OF assms(1,2)])
  note D = distributionD [OF ps(2)]
  obtain w where w: "w < length row" "is_fin (row ! w)" "0 < ps ! w" "\<forall>x \<in> set ps. x \<le> ps ! w"
    by (rule best_token [OF ps(2) assms(2)])
  have wm: "ps ! w \<in> set ps" "ps \<noteq> []" using w(1) D(1) by auto
  have "Max (set ps) = ps ! w" by (rule Max_eqI) (use w(4) wm in auto)
  then have e: "apply_min_p softmax p row =
      map (\<lambda>v. if \<not> fl_le (Fin (p * ps ! w)) (Fin (ps ! v)) then NegInf else row ! v) [0..<length row]"
    unfolding apply_min_p_def ps(1) Let_def Max_map_Fin [OF wm(2)]
    by (simp only: fl_mul.simps masked_fill_probs [OF D(1)])
  have "p * ps ! w \<le> ps ! w" using assms(3) w(3) by simp
  then show ?thesis unfolding e
    by (intro keepsI [OF _ _ _ w(1)]) (use w(1,2) logit_rowD(1) [OF assms(2)] in \<open>auto simp: fl_le_def\<close>)
qed

lemma keeps_top_k_top_p:
  assumes "softmax_laws softmax" "logit_row row" "valid_k k (length row)" "valid_p p"
  obtains row' where "apply_top_k_top_p softmax row k p = Inr row'" "keeps row row'"
proof -
  obtain ps where ps: "softmax row = map Fin ps" "distribution row ps"
    by (rule softmax_row [OF assms(1,2)])
  note D = distributionD [OF ps(2)]
  obtain w where w: "w < length row" "is_fin (row ! w)" "0 < ps ! w" "\<forall>x \<in> set ps. x \<le> ps ! w"
    by (rule best_token [OF ps(2) assms(2)])
  have "filter (\<lambda>x. ps ! w < x) ps = []" using w(4) by (auto simp: filter_empty_conv not_less)
  then have best: "among_best ps k w \<and> in_nucleus ps p w"
    using assms(4) by (auto simp: among_best_def in_nucleus_def valid_p_def split: option.split)
  let ?row' = "map (\<lambda>v. if among_best ps k v \<and> in_nucleus ps p v then row ! v else NegInf)
     [0..<length row]"
  have "keeps row ?row'"
    by (rule keepsI [OF _ _ _ w(1)]) (use w best logit_rowD(1) [OF assms(2)] in auto)
  moreover have "apply_top_k_top_p softmax row k p = Inr ?row'"
    by (rule apply_top_k_top_p_eq) (fact ps assms(3,4) logit_rowD(2) [OF assms(2)])+
  ultimately show ?thesis using that by blast
qed

lemma top_k_top_p_total:
  assumes "softmax_laws softmax" "valid_k k (length row)" "row \<noteq> []"
  obtains row' where "apply_top_k_top_p softmax row k p = Inr row'"
proof -
  have "length (sort (softmax row)) = length row" using assms(1) by (simp add: softmax_laws_def)
  then have "\<exists>c. top_k_cutoff (sort (softmax row)) kk = Inr c" if "kk \<le> int (length row)" for kk
    using that assms(3) by (simp add: top_k_cutoff_def Let_def Suc_le_eq)
  then have "\<exists>row'. apply_top_k_top_p softmax row k p = Inr row'"
    using assms(2) unfolding apply_top_k_top_p_def Let_def
    by (cases k; cases p) (fastforce simp: valid_k_def)+
  then show ?thesis using that by blast
qed

lemma random_sample_ok:
  assumes d: "distribution row ps" and row: "logit_row row"
    and q: "length q = length row" "\<forall>x \<in> set q. 0 < x"
  shows "random_sample (map Fin ps) q < length row"
    "row ! random_sample (map Fin ps) q \<noteq> NegInf"
proof -
  note D = distributionD [OF d]
  let ?r = "map2 (\<lambda>p q. fl_div p (Fin q)) (map Fin ps) q"
  have len: "length ?r = length row" using D(1) q(1) by simp
  have ne: "?r \<noteq> []" using len logit_rowD(2) [OF row] by auto
  have qi: "0 < q ! i" if "i < length row" for i using that q nth_mem [of i q] by auto
  have at: "?r ! i = Fin (ps ! i / q ! i)" if "i < length row" for i
    using that D(1) q(1) qi [OF that] by simp
  let ?a = "argmax ?r"
  have a: "?a < length row" using argmax_correct(1) [OF ne] unfolding len .
  obtain w where w: "w < length row" "0 < ps ! w" by (rule best_token [OF d row])
  have "w < length ?r" unfolding len by (rule w(1))
  then have "?r ! w \<le> ?r ! ?a" by (rule argmax_correct(2) [OF ne])
  then have "ps ! w / q ! w \<le> ps ! ?a / q ! ?a" unfolding at [OF w(1)] at [OF a] by simp
  moreover have "0 < ps ! w / q ! w" using w(2) qi [OF w(1)] by simp
  ultimately have "0 < ps ! ?a / q ! ?a" by linarith
  then have "ps ! ?a \<noteq> 0" by auto
  then show "random_sample (map Fin ps) q < length row"
    "row ! random_sample (map Fin ps) q \<noteq> NegInf"
    using a D(4) by (auto simp: random_sample_def)
qed

lemma greedy_sample_ok:
  assumes "logit_row row"
  shows "argmax row < length row" "row ! argmax row \<noteq> NegInf"
proof -
  note L = logit_rowD [OF assms]
  show "argmax row < length row" by (rule argmax_correct(1) [OF L(2)])
  obtain v where v: "v < length row" "is_fin (row ! v)" using L(3) by blast
  then have "row ! v \<le> row ! argmax row" by (intro argmax_correct(2) [OF L(2)])
  then show "row ! argmax row \<noteq> NegInf" using v(2) by (cases "row ! v") auto
qed

definition valid_params :: "rat option \<Rightarrow> int option \<Rightarrow> rat option \<Rightarrow> nat \<Rightarrow> bool" where
  "valid_params mp k p n \<longleftrightarrow> valid_min_p mp \<and> valid_k k n \<and> valid_p p"

lemma sample_row_ok:
  assumes sm: "softmax_laws softmax" and row: "logit_row row"
    and v: "valid_params mp k p (length row)"
    and q: "length q = length row" "\<forall>x \<in> set q. 0 < x"
  obtains t where "sample_row softmax random_only temp mp k p q row = Inr t" "t < length row"
    "row ! t \<noteq> NegInf"
proof -
  let ?row1 = "apply_temperature random_only temp row"
  let ?row2 = "case mp of None \<Rightarrow> ?row1 | Some x \<Rightarrow> apply_min_p softmax x ?row1"
  have v: "valid_min_p mp" "valid_k k (length row)" "valid_p p"
    using v by (auto simp: valid_params_def)
  have len: "length ?row1 = length row" "length ?row2 = length row"
    using sm by (auto simp: apply_temperature_def Let_def apply_min_p_def masked_fill_def
      softmax_laws_def split: option.split)
  then have ne: "?row2 \<noteq> []" using logit_rowD(2) [OF row] by auto
  show ?thesis
  proof (cases "temp < sampling_eps")
    case True
    obtain row3 where "apply_top_k_top_p softmax ?row2 k p = Inr row3"
      using top_k_top_p_total [OF sm _ ne] v(2) len(2) by metis
    then have "sample_row softmax random_only temp mp k p q row = Inr (argmax row)"
      using True logit_rowD(2) [OF row] by (simp add: sample_row_def greedy_sample_def Let_def)
    then show ?thesis using that greedy_sample_ok [OF row] by blast
  next
    case False
    have k1: "keeps row ?row1"
      by (rule keeps_temperature [OF row]) (use False in \<open>simp add: sampling_eps_def\<close>)
    then have l1: "logit_row ?row1" by (simp add: keeps_def)
    have "keeps ?row1 ?row2"
    proof (cases mp)
      case None
      then show ?thesis using l1 by (simp add: keeps_def)
    next
      case (Some x)
      then have "x \<le> 1" using v(1) by (simp add: valid_min_p_def)
      then show ?thesis using Some keeps_min_p [OF sm l1] by simp
    qed
    then have k2: "keeps row ?row2" by (rule keeps_trans [OF k1])
    then have l2: "logit_row ?row2" by (simp add: keeps_def)
    obtain row3 where r3: "apply_top_k_top_p softmax ?row2 k p = Inr row3" "keeps ?row2 row3"
      using keeps_top_k_top_p [OF sm l2] v(2,3) len(2) by metis
    have k3: "keeps row row3" by (rule keeps_trans [OF k2 r3(2)])
    then have l3: "logit_row row3" "length row3 = length row" by (simp_all add: keeps_def)
    obtain ps where ps: "softmax row3 = map Fin ps" "distribution row3 ps"
      by (rule softmax_row [OF sm l3(1)])
    have "sample_row softmax random_only temp mp k p q row = Inr (random_sample (softmax row3) q)"
      using r3(1) False logit_rowD(2) [OF row] by (simp add: sample_row_def greedy_sample_def Let_def)
    moreover have "random_sample (softmax row3) q < length row"
      "row ! random_sample (softmax row3) q \<noteq> NegInf"
      using random_sample_ok [OF ps(2) l3(1), of q] q ps(1) l3(2) k3 by (auto simp: keeps_def)
    ultimately show ?thesis using that by blast
  qed
qed

text \<open>A probability distribution that favours larger logits, as an instance of softmax.\<close>

fun ex_weight :: "fl \<Rightarrow> rat" where
  "ex_weight (Fin x) = (if 0 \<le> x then 1 + x else 1 / (1 - x))"
| "ex_weight _ = 0"

definition ex_softmax :: "fl list \<Rightarrow> fl list" where
  "ex_softmax row =
     (let ws = map ex_weight row in map (\<lambda>w. Fin (w / sum_list ws)) ws)"

lemma ex_weight_props:
  "0 \<le> ex_weight x" "is_fin x \<Longrightarrow> 0 < ex_weight x"
  "plain x \<Longrightarrow> plain y \<Longrightarrow> x \<le> y \<Longrightarrow> ex_weight x \<le> ex_weight y"
proof -
  show pos: "0 \<le> ex_weight x" "is_fin x \<Longrightarrow> 0 < ex_weight x" for x by (cases x; simp)+
  show "ex_weight x \<le> ex_weight y" if "plain x" "plain y" "x \<le> y"
  proof (cases rule: plain_cases [OF that(1)])
    case 1
    then show ?thesis by (simp add: pos)
  next
    case (2 a)
    with that(2,3) obtain b where b: "y = Fin b" "a \<le> b" by (auto elim!: plain_cases)
    have "1 / (1 - a) \<le> 1 + b" if "a < 0" "0 \<le> b"
    proof -
      have "1 / (1 - a) \<le> 1" using that by simp
      then show ?thesis using that by linarith
    qed
    moreover have "1 / (1 - a) \<le> 1 / (1 - b)" if "b < 0"
      using that b by (simp add: frac_le)
    ultimately show ?thesis using 2 b by auto
  qed
qed

lemma ex_softmax_laws: "softmax_laws ex_softmax"
  unfolding softmax_laws_def
proof (intro conjI allI impI)
  fix row :: "fl list"
  show "length (ex_softmax row) = length row" by (simp add: ex_softmax_def Let_def)
next
  fix row :: "fl list"
  assume row: "logit_row row"
  let ?ws = "map ex_weight row" and ?S = "sum_list (map ex_weight row)"
  let ?ps = "map (\<lambda>x. ex_weight x / ?S) row"
  obtain x where x: "x \<in> set row" "is_fin x" using row by (auto simp: logit_row_def)
  have "ex_weight x \<le> ?S"
    by (rule member_le_sum_list) (use x ex_weight_props(1) in auto)
  then have S: "0 < ?S" using ex_weight_props(2) [OF x(2)] by linarith
  have "sum_list (map (\<lambda>x. ex_weight x / c) xs) = sum_list (map ex_weight xs) / c" for c xs
    by (induction xs) (simp_all add: add_divide_distrib)
  then have "sum_list ?ps = ?S / ?S" .
  then have "distribution row ?ps"
    using S logit_rowD(1) [OF row]
    by (auto simp: distribution_def ex_weight_props divide_right_mono)
  moreover have "ex_softmax row = map Fin ?ps" by (simp add: ex_softmax_def Let_def)
  ultimately show "\<exists>ps. ex_softmax row = map Fin ps \<and> distribution row ps" by blast
qed

section \<open>The properties\<close>

text \<open>What the metadata and the logits of a step must provide to the sampler: a row of logits, a row
  of positive noise and valid parameters for every request.\<close>

definition sampler_ready :: "rat list list \<Rightarrow> sampling_metadata \<Rightarrow> fl list list \<Rightarrow> bool" where
  "sampler_ready noise md l \<longleftrightarrow>
     (\<forall>row \<in> set l. logit_row row)
     \<and> (\<exists>temps. md_temperature md = Some temps \<and> length temps = length l)
     \<and> column_fits (md_min_p md) (length l) \<and> column_fits (md_top_k md) (length l)
     \<and> column_fits (md_top_p md) (length l)
     \<and> (\<forall>i < length l. valid_params (column_at (md_min_p md) i) (column_at (md_top_k md) i)
          (column_at (md_top_p md) i) (length (l ! i)))
     \<and> (let q = (case md_q_samples md of Some q \<Rightarrow> q | None \<Rightarrow> noise)
        in same_shape q l \<and> (\<forall>row \<in> set q. \<forall>x \<in> set row. 0 < x))"

lemma same_shape_rows: "same_shape a b \<Longrightarrow> i < length b \<Longrightarrow> i < length a \<and> length (a ! i) = length (b ! i)"
  unfolding same_shape_def by (metis length_map nth_map)

lemma sample_ok:
  assumes "softmax_laws softmax" and "masked_logits md logits = Inr l" and "sampler_ready noise md l"
  shows "\<exists>out. sample softmax noise md logits = Inr out \<and> length out = length l
    \<and> (\<forall>i < length l. out ! i < length (l ! i) \<and> l ! i ! (out ! i) \<noteq> NegInf)"
proof -
  define q where "q = (case md_q_samples md of Some q \<Rightarrow> q | None \<Rightarrow> noise)"
  obtain temps where temps: "md_temperature md = Some temps" "length temps = length l"
    using assms(3) by (auto simp: sampler_ready_def)
  note R = assms(3) [unfolded sampler_ready_def Let_def q_def [symmetric]]
  let ?f = "\<lambda>i. sample_row softmax (md_all_random md) (temps ! i) (column_at (md_min_p md) i)
     (column_at (md_top_k md) i) (column_at (md_top_p md) i) (q ! i) (l ! i)"
  have "\<exists>t. ?f i = Inr t \<and> t < length (l ! i) \<and> l ! i ! t \<noteq> NegInf" if i: "i < length l" for i
  proof -
    have "logit_row (l ! i)" "valid_params (column_at (md_min_p md) i) (column_at (md_top_k md) i)
          (column_at (md_top_p md) i) (length (l ! i))"
      using R i by auto
    moreover have "length (q ! i) = length (l ! i)" "\<forall>x \<in> set (q ! i). 0 < x"
      using R i same_shape_rows [of q l i] by auto
    ultimately show ?thesis by (meson assms(1) sample_row_ok)
  qed
  then obtain g where g: "\<And>i. i < length l \<Longrightarrow>
      ?f i = Inr (g i) \<and> g i < length (l ! i) \<and> l ! i ! g i \<noteq> NegInf" by metis
  have "rmap ?f [0..<length l] = Inr (map g [0..<length l])"
    using g by (simp add: rmap_Inr_conv)
  then have "sample softmax noise md logits = Inr (map g [0..<length l])"
    using R temps by (simp add: sample_def assms(2) Let_def q_def [symmetric])
  then show ?thesis using g by simp
qed

text \<open>C25. Sampling returns one token per request, and never a masked one: whatever the temperature,
  the filters and the noise of a request are, the logit of its token, after all masks, biases and
  penalties, is not \<open>-inf\<close>.\<close>

theorem sampling_avoids_masked_tokens:
  assumes "softmax_laws softmax" and "masked_logits md logits = Inr l" and "sampler_ready noise md l"
  shows "\<exists>out. sample softmax noise md logits = Inr out \<and> length out = length l
    \<and> (\<forall>i < length l. out ! i < length (l ! i) \<and> l ! i ! (out ! i) \<noteq> NegInf)"
  by (rule sample_ok [OF assms])

text \<open>Concrete metadata: one random request whose first token is not allowed, and one greedy.\<close>

definition ex_md :: sampling_metadata where
  "ex_md = default_metadata\<lparr>md_temperature := Some [1/2, -1], md_top_k := Some [2, 0],
     md_top_p := Some [9/10, 1], md_no_allowed_token_ids := False,
     md_allowed_token_ids_mask := Some [[NegInf, Fin 0, Fin 0], [Fin 0, Fin 0, Fin 0]]\<rparr>"

definition ex_logits :: "fl list list" where
  "ex_logits = [[Fin 5, Fin 1, Fin 2], [Fin 1, Fin 3, Fin 0]]"

definition ex_masked :: "fl list list" where
  "ex_masked = [[NegInf, Fin 1, Fin 2], [Fin 1, Fin 3, Fin 0]]"

lemma ex_masked_eq: "masked_logits ex_md ex_logits = Inr ex_masked"
  by (simp add: masked_logits_def ex_md_def ex_logits_def ex_masked_def default_metadata_def
    add_mask_def same_shape_def)

lemma ex_ready: "sampler_ready [[1, 2, 1], [1, 1, 1]] ex_md ex_masked"
  by (simp add: sampler_ready_def ex_md_def ex_masked_def default_metadata_def logit_row_def
    column_fits_def column_at_def same_shape_def valid_params_def valid_k_def valid_p_def
    valid_min_p_def less_Suc_eq)

theorem sampling_avoids_masked_tokens_witness:
  "\<exists>out. sample ex_softmax [[1, 2, 1], [1, 1, 1]] ex_md ex_logits = Inr out \<and> out ! 0 \<noteq> 0"
  using sampling_avoids_masked_tokens [OF ex_softmax_laws ex_masked_eq ex_ready]
  by (auto simp: ex_masked_def less_Suc_eq intro: ccontr)

lemma apply_penalties_ok:
  assumes "apply_penalties md l = Inr l'"
  obtains counts prompt pres freq rep where
    "md_repetition_penalties md = Some rep" "length rep = length l"
    "same_shape counts l" "same_shape prompt l"
    "\<And>i. i < length l \<Longrightarrow>
       l' ! i = penalise_row (pres ! i) (freq ! i) (rep ! i) (counts ! i) (prompt ! i) (l ! i)"
proof -
  note run = assms [unfolded apply_penalties_def]
  obtain counts where 1: "md_output_token_counts md = Some counts"
    using run by (cases "md_output_token_counts md") simp_all
  obtain prompt where 2: "md_prompt_token_mask md = Some prompt"
    using run by (cases "md_prompt_token_mask md") (simp_all add: 1)
  obtain pres where 3: "md_presence_penalties md = Some pres"
    using run by (cases "md_presence_penalties md") (simp_all add: 1 2)
  obtain freq where 4: "md_frequency_penalties md = Some freq"
    using run by (cases "md_frequency_penalties md") (simp_all add: 1 2 3)
  obtain rep where 5: "md_repetition_penalties md = Some rep"
    using run by (cases "md_repetition_penalties md") (simp_all add: 1 2 3 4)
  have fits: "same_shape counts l \<and> same_shape prompt l \<and> length pres = length l
             \<and> length freq = length l \<and> length rep = length l"
    using run by (simp add: 1 2 3 4 5 split: if_splits)
  then have "l' = map (\<lambda>i. penalise_row (pres ! i) (freq ! i) (rep ! i) (counts ! i) (prompt ! i)
                                (l ! i)) [0..<length l]"
    using run by (simp add: 1 2 3 4 5)
  then show ?thesis using that [OF 5, of counts prompt pres freq] fits by simp
qed

text \<open>C30. The masks reach the logits: a token that any active mask bans has logit \<open>-inf\<close> when
  the request is sampled, whatever its bias and its penalties.\<close>

definition bans :: "sampling_metadata \<Rightarrow> nat \<Rightarrow> nat \<Rightarrow> bool" where
  "bans md i t \<longleftrightarrow>
     (\<not> md_no_allowed_token_ids md
        \<and> (\<exists>m. md_allowed_token_ids_mask md = Some m \<and> m ! i ! t = NegInf))
     \<or> (\<not> md_no_min_tokens md \<and> (\<exists>m. md_min_tokens_mask md = Some m \<and> m ! i ! t = NegInf))
     \<or> (\<not> md_no_bad_words md \<and> (\<exists>m. md_bad_words_mask md = Some m \<and> m ! i ! t = NegInf))"

definition plain_matrix :: "fl list list \<Rightarrow> bool" where
  "plain_matrix m \<longleftrightarrow> (\<forall>row \<in> set m. \<forall>x \<in> set row. plain x)"

definition plain_md :: "sampling_metadata \<Rightarrow> bool" where
  "plain_md md \<longleftrightarrow>
     (\<forall>m. md_allowed_token_ids_mask md = Some m \<or> md_min_tokens_mask md = Some m
        \<or> md_bad_words_mask md = Some m \<or> md_logit_bias_tensor md = Some m \<longrightarrow> plain_matrix m)
     \<and> (\<forall>xs. md_repetition_penalties md = Some xs \<longrightarrow> (\<forall>x \<in> set xs. 0 < x))"

lemma plain_matrixD: "plain_matrix m \<Longrightarrow> i < length m \<Longrightarrow> t < length (m ! i) \<Longrightarrow> plain (m ! i ! t)"
  unfolding plain_matrix_def by (metis nth_mem)

lemma add_mask_ok:
  assumes "add_mask skip msk l = Inr l'" "plain_matrix l" "\<And>m. msk = Some m \<Longrightarrow> plain_matrix m"
  shows "same_shape l' l \<and> plain_matrix l'
    \<and> (\<forall>i < length l. \<forall>t < length (l ! i). l ! i ! t = NegInf
         \<or> (\<not> skip \<and> (\<exists>m. msk = Some m \<and> m ! i ! t = NegInf)) \<longrightarrow> l' ! i ! t = NegInf)"
proof (cases skip)
  case True
  then show ?thesis using assms by (simp add: add_mask_def same_shape_def)
next
  case False
  then obtain m where m: "msk = Some m" "same_shape m l" "l' = map2 (map2 fl_add) l m"
    using assms(1) by (auto simp: add_mask_def split: option.splits if_splits)
  have len: "length m = length l" using m(2) by (metis same_shape_def length_map)
  have row: "l' ! i = map2 fl_add (l ! i) (m ! i)" "length (m ! i) = length (l ! i)"
    if "i < length l" for i using that m(3) len same_shape_rows [OF m(2)] by auto
  have cell: "l' ! i ! t = fl_add (l ! i ! t) (m ! i ! t)" "plain (l ! i ! t)" "plain (m ! i ! t)"
    if "i < length l" "t < length (l ! i)" for i t
    using that row [OF that(1)] len plain_matrixD [OF assms(2)] plain_matrixD [OF assms(3) [OF m(1)]]
    by auto
  have "length l' = length l" using m(3) len by simp
  then have "same_shape l' l" using row by (auto simp: same_shape_def intro: nth_equalityI)
  moreover have "plain_matrix l'"
    unfolding plain_matrix_def
  proof (intro ballI)
    fix r x assume "r \<in> set l'" "x \<in> set r"
    then obtain i t where "i < length l" "t < length (l ! i)" "x = l' ! i ! t"
      using \<open>length l' = length l\<close> row by (metis in_set_conv_nth length_map length_zip min.idem)
    then show "plain x" using cell by simp
  qed
  ultimately show ?thesis using cell m(1) False by (auto simp: fl_add_NegInf_iff)
qed

lemma penalise_NegInf: "0 < rep \<Longrightarrow> penalise pres freq rep c q NegInf = NegInf"
  by (simp add: penalise_def Let_def fl_lt_def fl_sub_def fl_signed_inf_def)

lemma same_shape_sym: "same_shape a b \<longleftrightarrow> same_shape b a"
  by (auto simp: same_shape_def)

theorem banned_tokens_are_masked:
  assumes "masked_logits md logits = Inr l" and "plain_matrix logits" and "plain_md md"
    and "i < length logits" "t < length (logits ! i)" and "bans md i t"
  shows "l ! i ! t = NegInf"
proof -
  note run = assms(1) [unfolded masked_logits_def]
  obtain l1 where l1: "add_mask (md_no_allowed_token_ids md) (md_allowed_token_ids_mask md) logits = Inr l1"
    using run by (elim rbind_InrE)
  note run = run [unfolded l1 rbind.simps]
  obtain l2 where l2: "add_mask (md_no_min_tokens md) (md_min_tokens_mask md) l1 = Inr l2"
    using run by (elim rbind_InrE)
  note run = run [unfolded l2 rbind.simps]
  obtain l3 where l3: "add_mask (md_no_bad_words md) (md_bad_words_mask md) l2 = Inr l3"
    using run by (elim rbind_InrE)
  note run = run [unfolded l3 rbind.simps]
  obtain l4 where l4: "add_mask (md_no_logit_bias md) (md_logit_bias_tensor md) l3 = Inr l4"
    using run by (elim rbind_InrE)
  have pen: "(if md_no_penalties md then Inr l4 else apply_penalties md l4) = Inr l"
    using run [unfolded l4 rbind.simps] by (auto simp: res_simps)
  have p: "\<And>m. md_allowed_token_ids_mask md = Some m \<Longrightarrow> plain_matrix m"
    "\<And>m. md_min_tokens_mask md = Some m \<Longrightarrow> plain_matrix m"
    "\<And>m. md_bad_words_mask md = Some m \<Longrightarrow> plain_matrix m"
    "\<And>m. md_logit_bias_tensor md = Some m \<Longrightarrow> plain_matrix m"
    using assms(3) by (auto simp: plain_md_def)
  note k1 = add_mask_ok [OF l1 assms(2) p(1)]
  note k2 = add_mask_ok [OF l2 conjunct1 [OF conjunct2 [OF k1]] p(2)]
  note k3 = add_mask_ok [OF l3 conjunct1 [OF conjunct2 [OF k2]] p(3)]
  note k4 = add_mask_ok [OF l4 conjunct1 [OF conjunct2 [OF k3]] p(4)]
  have i1: "i < length l1 \<and> t < length (l1 ! i)"
    using k1 assms(4,5) same_shape_rows [of l1 logits i] by auto
  have i2: "i < length l2 \<and> t < length (l2 ! i)" using k2 i1 same_shape_rows [of l2 l1 i] by auto
  have i3: "i < length l3 \<and> t < length (l3 ! i)" using k3 i2 same_shape_rows [of l3 l2 i] by auto
  have i4: "i < length l4 \<and> t < length (l4 ! i)" using k4 i3 same_shape_rows [of l4 l3 i] by auto
  have "l3 ! i ! t = NegInf" using assms(4-6) k1 k2 k3 i1 i2 unfolding bans_def by blast
  then have m4: "l4 ! i ! t = NegInf" using k4 i3 by blast
  show ?thesis
  proof (cases "md_no_penalties md")
    case True
    then show ?thesis using pen m4 by simp
  next
    case False
    then obtain counts prompt pres freq rep where r:
      "md_repetition_penalties md = Some rep" "length rep = length l4"
      "same_shape counts l4" "same_shape prompt l4"
      "\<And>i. i < length l4 \<Longrightarrow>
         l ! i = penalise_row (pres ! i) (freq ! i) (rep ! i) (counts ! i) (prompt ! i) (l4 ! i)"
      using pen by (auto elim: apply_penalties_ok)
    have "0 < rep ! i" using assms(3) r(1,2) i4 nth_mem [of i rep] by (auto simp: plain_md_def)
    moreover have "length (counts ! i) = length (l4 ! i)" "length (prompt ! i) = length (l4 ! i)"
      using same_shape_rows r(3,4) i4 by blast+
    ultimately show ?thesis using r(5) i4 m4 by (simp add: penalise_row_def penalise_NegInf)
  qed
qed

theorem banned_tokens_are_masked_witness: "ex_masked ! 0 ! 0 = NegInf"
  by (rule banned_tokens_are_masked [OF ex_masked_eq])
    (simp_all add: ex_logits_def plain_matrix_def plain_md_def bans_def ex_md_def default_metadata_def)

text \<open>A greedy request gets the first token of the highest logit, whatever the noise, the
  filters and the other requests are.\<close>

theorem greedy_rows_take_the_best:
  assumes "masked_logits md logits = Inr l" and "sample softmax noise md logits = Inr out"
    and "md_temperature md = Some temps" and "i < length l" and "temps ! i < 1 / 100000"
  shows "out ! i = argmax (l ! i) \<and> (\<forall>t < length (l ! i). l ! i ! t \<le> l ! i ! (out ! i))
    \<and> (\<forall>t < out ! i. l ! i ! t < l ! i ! (out ! i))"
proof -
  define q where "q = (case md_q_samples md of Some q \<Rightarrow> q | None \<Rightarrow> noise)"
  have "rmap (\<lambda>i. sample_row softmax (md_all_random md) (temps ! i) (column_at (md_min_p md) i)
     (column_at (md_top_k md) i) (column_at (md_top_p md) i) (q ! i) (l ! i)) [0..<length l] = Inr out"
    using assms(1-3) by (simp add: sample_def Let_def q_def [symmetric] split: if_splits)
  then have "sample_row softmax (md_all_random md) (temps ! i) (column_at (md_min_p md) i)
     (column_at (md_top_k md) i) (column_at (md_top_p md) i) (q ! i) (l ! i) = Inr (out ! i)"
    using assms(4) by (simp add: rmap_Inr_conv)
  then have "out ! i = argmax (l ! i)" "l ! i \<noteq> []"
    using assms(5) by (auto simp: sample_row_def greedy_sample_def Let_def sampling_eps_def res_simps
      split: if_splits)
  then show ?thesis using argmax_correct [of "l ! i"] by simp
qed

theorem greedy_rows_take_the_best_witness:
  "\<exists>out. sample ex_softmax [[1, 2, 1], [1, 1, 1]] ex_md ex_logits = Inr out \<and> out ! 1 = 1"
proof -
  obtain out where out: "sample ex_softmax [[1, 2, 1], [1, 1, 1]] ex_md ex_logits = Inr out"
    using sample_ok [OF ex_softmax_laws ex_masked_eq ex_ready] by blast
  have "out ! 1 = argmax (ex_masked ! 1)"
    using greedy_rows_take_the_best [OF ex_masked_eq out, of "[1/2, -1]" 1]
    by (simp add: ex_md_def default_metadata_def ex_masked_def)
  then show ?thesis using out by (simp add: ex_masked_def argmax_def)
qed

text \<open>C16. On a row whose probabilities are \<open>ps\<close>, top-k and top-p keep exactly the tokens that are
  among the \<open>k\<close> most likely ones (fewer than \<open>k\<close> tokens are strictly more likely; ties are all
  kept) and whose strictly more likely tokens have together less than \<open>p\<close> of the mass.\<close>

theorem top_k_top_p_exact:
  assumes "softmax row = map Fin ps" and "distribution row ps" and "row \<noteq> []"
    and "k \<le> int (length row)" and "0 < p"
  shows "apply_top_k_top_p softmax row (Some k) (Some p) = Inr (map (\<lambda>v.
     if (k \<le> 0 \<or> int (length (filter (\<lambda>x. ps ! v < x) ps)) < k)
        \<and> sum_list (filter (\<lambda>x. ps ! v < x) ps) < p
     then row ! v else NegInf) [0..<length row])"
  using apply_top_k_top_p_eq [where softmax = softmax and row = row and ps = ps and k = "Some k"
    and p = "Some p"] assms
  by (simp add: valid_k_def valid_p_def among_best_def in_nucleus_def)

theorem top_k_top_p_exact_witness:
  "apply_top_k_top_p ex_softmax [Fin 0, Fin 3, Fin 2, Fin 1] (Some 3) (Some (1/2)) =
     Inr [NegInf, Fin 3, Fin 2, NegInf]"
proof -
  have e: "ex_softmax [Fin 0, Fin 3, Fin 2, Fin 1] = map Fin [1/10, 4/10, 3/10, 2/10]"
    by (simp add: ex_softmax_def Let_def)
  have d: "distribution [Fin 0, Fin 3, Fin 2, Fin 1] [1/10, 4/10, 3/10, 2/10]"
    by (simp add: distribution_def less_Suc_eq numeral_eq_Suc)
  show ?thesis
    using top_k_top_p_exact [where softmax = ex_softmax and row = "[Fin 0, Fin 3, Fin 2, Fin 1]"
        and ps = "[1/10, 4/10, 3/10, 2/10]" and k = 3 and p = "1/2"] e d
    by (simp add: upt_rec numeral_eq_Suc)
qed

text \<open>The rank of a token is the number of tokens at least as likely; it is between 1 and the size of
  the vocabulary, and 1 exactly when the token is strictly the most likely one. The token and its
  log-probability head the lists.\<close>

theorem rank_counts_likely_tokens:
  assumes "0 \<le> t" "t < int (length lps)" and "num \<le> length lps" and "\<forall>x \<in> set lps. x \<noteq> NaN"
  shows "\<exists>ids vals r. gather_logprobs_row topk lps num t = Inr (t # ids, lps ! nat t # vals, r)
     \<and> r = length (filter (\<lambda>x. lps ! nat t \<le> x) lps) \<and> 1 \<le> r \<and> r \<le> length lps
     \<and> (r = 1 \<longleftrightarrow> (\<forall>j < length lps. j \<noteq> nat t \<longrightarrow> lps ! j < lps ! nat t))"
proof -
  let ?t = "nat t" and ?x = "lps ! nat t"
  have t: "?t < length lps" using assms(1,2) by simp
  have f: "filter (\<lambda>x. fl_le ?x x) lps = filter (\<lambda>x. ?x \<le> x) lps"
    using assms(4) t by (intro filter_cong) (auto simp: fl_le_def)
  have card: "length (filter (\<lambda>x. ?x \<le> x) lps) = card {j. j < length lps \<and> ?x \<le> lps ! j}"
    by (rule length_filter_conv_card)
  let ?A = "{j. j < length lps \<and> ?x \<le> lps ! j}"
  have A: "finite ?A" "?t \<in> ?A" using t by auto
  have pos: "1 \<le> card ?A" using card_mono [OF A(1), of "{nat t}"] A(2) by simp
  have "card ?A = 1 \<longleftrightarrow> ?A = {?t}"
  proof
    assume "card ?A = 1"
    then obtain x where x: "?A = {x}" by (rule card_1_singletonE)
    then have "?t = x" using A(2) by (metis singletonD)
    then show "?A = {?t}" using x by metis
  next
    assume e: "?A = {?t}"
    show "card ?A = 1" unfolding e by simp
  qed
  also have "\<dots> \<longleftrightarrow> (\<forall>j. j \<in> ?A \<longrightarrow> j = ?t)" using A(2) by blast
  also have "\<dots> \<longleftrightarrow> (\<forall>j < length lps. j \<noteq> ?t \<longrightarrow> lps ! j < ?x)"
    unfolding mem_Collect_eq not_le [symmetric] by blast
  finally have one: "card ?A = 1 \<longleftrightarrow> (\<forall>j < length lps. j \<noteq> ?t \<longrightarrow> lps ! j < ?x)" .
  have le: "card ?A \<le> length lps" unfolding card [symmetric] by (rule length_filter_le)
  have "max (card ?A) 1 = card ?A" using pos by simp
  then have "gather_logprobs_row topk lps num t =
      Inr (t # map int (topk lps num), ?x # map ((!) lps) (topk lps num), card ?A)"
    using assms(1-3) by (simp add: gather_logprobs_row_def Let_def count_tokens_ge_def f card)
  then show ?thesis using pos one le card by auto
qed

theorem rank_counts_likely_tokens_witness:
  "\<exists>ids vals. gather_logprobs_row (\<lambda>_ _. [2]) [Fin (-3), Fin (-2), Fin (-1)] 1 1
     = Inr (1 # ids, Fin (-2) # vals, 2)"
  using rank_counts_likely_tokens [of 1 "[Fin (-3), Fin (-2), Fin (-1)]" 1 "\<lambda>_ _. [2]"]
  by (auto simp: numeral_2_eq_2)

end
