(* ===== verification/PagedCache.thy ===== *)
theory PagedCache
  imports Tensors
begin

text \<open>
  The key-value cache operations of \<open>tt_torch/custom_ops.py\<close> and their use by the attention layer,
  \<open>vllm_tt/attention.py\<close>.

  A tensor of four dimensions is a nested list of its last rows: the operations never look inside
  the last dimension (the vector of one head), so its entries are values of type \<open>'v\<close>. The first
  three dimensions are kept beside the entries, as an empty list would not show them.

  On an XLA device an operation becomes a custom call of the compiler, the argument \<open>xla\<close>; on the
  CPU it is computed as the code says.
\<close>

section \<open>Tensors and devices\<close>

record 'v tensor4 =
  d0 :: nat
  d1 :: nat
  d2 :: nat
  cells :: "'v list list list"

definition wf4 :: "'v tensor4 \<Rightarrow> bool" where
  "wf4 t \<longleftrightarrow> length (cells t) = d0 t \<and> (\<forall>b \<in> set (cells t). length b = d1 t \<and>
     (\<forall>row \<in> set b. length row = d2 t))"

datatype device = XLA | CPU | OtherDevice

datatype attr = ABool bool | AInt int | AStr string

record 'v custom_call =
  cc_tensors :: "'v tensor4 list"
  cc_indices :: "int list list"
  cc_name :: string
  cc_shape :: "nat \<times> nat \<times> nat"
  cc_attrs :: "(string \<times> attr) list"

definition shape4 :: "'v tensor4 \<Rightarrow> nat \<times> nat \<times> nat" where
  "shape4 t = (d0 t, d1 t, d2 t)"

text \<open>Broadcasting of one dimension.\<close>

definition broadcast :: "nat \<Rightarrow> 'a list \<Rightarrow> 'a list res" where
  "broadcast n xs =
     (if length xs = n then Inr xs
      else if length xs = 1 then Inr (replicate n (hd xs)) else Inl RuntimeError)"

section \<open>The contiguous cache\<close>

definition check_offset :: "int option \<Rightarrow> int res" where
  "check_offset batch_offset =
     (let off = (case batch_offset of None \<Rightarrow> 0 | Some x \<Rightarrow> x)
      in rbind (rassert (off = 0)) (\<lambda>_. Inr off))"

text \<open>One token per row is written at \<open>cache_position\<close>.\<close>

definition update_cache ::
  "('v custom_call \<Rightarrow> 'v tensor4) \<Rightarrow> device \<Rightarrow> 'v tensor4 \<Rightarrow> 'v tensor4 \<Rightarrow> int list \<Rightarrow> int option
    \<Rightarrow> 'v tensor4 res" where
  "update_cache xla dev cache fill_value cache_position batch_offset =
     rbind (rassert (d2 fill_value = 1)) (\<lambda>_.
     rbind (rassert (batch_offset \<noteq> None \<or> d0 cache = 1)) (\<lambda>_.
     rbind (rassert (length cache_position = 1)) (\<lambda>_.
     rbind (check_offset batch_offset) (\<lambda>off.
     if dev = CPU
     then rbind (tensor_index (d2 cache) (hd cache_position)) (\<lambda>p.
          rbind (broadcast (d0 cache) (cells fill_value)) (\<lambda>fb.
          rbind (rmap (\<lambda>(b, f). rbind (broadcast (d1 cache) f) (\<lambda>f.
                   Inr (map2 (\<lambda>row v. row[p := hd v]) b f))) (zip (cells cache) fb)) (\<lambda>cs.
          Inr (cache\<lparr>cells := cs\<rparr>))))
     else Inr (xla \<lparr> cc_tensors = [cache, fill_value], cc_indices = [cache_position],
                    cc_name = ''tt.update_cache'', cc_shape = shape4 cache,
                    cc_attrs = [(''batch_offset'', AInt off)] \<rparr>)))))"

text \<open>The first tokens of every row are written.\<close>

definition fill_cache ::
  "('v custom_call \<Rightarrow> 'v tensor4) \<Rightarrow> device \<Rightarrow> 'v tensor4 \<Rightarrow> 'v tensor4 \<Rightarrow> int option
    \<Rightarrow> 'v tensor4 res" where
  "fill_cache xla dev cache fill_value batch_offset =
     rbind (rassert (d2 fill_value \<le> d2 cache)) (\<lambda>_.
     rbind (rassert (batch_offset \<noteq> None \<or> d0 cache = 1)) (\<lambda>_.
     rbind (check_offset batch_offset) (\<lambda>off.
     if dev = CPU
     then rbind (broadcast (d0 cache) (cells fill_value)) (\<lambda>fb.
          rbind (rmap (\<lambda>(b, f). rbind (broadcast (d1 cache) f) (\<lambda>f.
                   Inr (map2 (\<lambda>row vs. vs @ drop (d2 fill_value) row) b f))) (zip (cells cache) fb))
            (\<lambda>cs. Inr (cache\<lparr>cells := cs\<rparr>)))
     else Inr (xla \<lparr> cc_tensors = [cache, fill_value], cc_indices = [],
                    cc_name = ''tt.fill_cache'', cc_shape = shape4 cache,
                    cc_attrs = [(''batch_offset'', AInt off)] \<rparr>))))"

section \<open>The paged cache\<close>

text \<open>A cache of blocks: dimension 0 counts the blocks, 1 the heads, 2 the tokens of a block. Row
  \<open>u\<close> of a page table lists the blocks of user \<open>u\<close>.\<close>

definition put_block :: "'v tensor4 \<Rightarrow> nat \<Rightarrow> ('v list list \<Rightarrow> 'v list list) \<Rightarrow> 'v tensor4" where
  "put_block cache b f = cache\<lparr>cells := (cells cache)[b := f (cells cache ! b)]\<rparr>"

text \<open>The write of one user: block and offset of the position by floor division.\<close>

definition paged_update_user ::
  "int list list \<Rightarrow> 'v tensor4 \<Rightarrow> nat \<times> int \<times> 'v list \<Rightarrow> 'v tensor4 res" where
  "paged_update_user page_table cache = (\<lambda>(u, pos, vals).
     let block_size = int (d2 cache)
     in rbind (lget page_table u) (\<lambda>row.
        rbind (tensor_index (length row) (pos div block_size)) (\<lambda>j.
        rbind (tensor_index (d0 cache) (row ! j)) (\<lambda>b.
        Inr (put_block cache b (map2 (\<lambda>v cell. cell[nat (pos mod block_size) := v]) vals))))))"

definition paged_update_cache ::
  "('v custom_call \<Rightarrow> 'v tensor4) \<Rightarrow> device \<Rightarrow> 'v tensor4 \<Rightarrow> 'v tensor4 \<Rightarrow> int list
    \<Rightarrow> int list list \<Rightarrow> bool \<Rightarrow> 'v tensor4 res" where
  "paged_update_cache xla dev cache fill_value update_indices page_table share_cache =
     (case dev of
        XLA \<Rightarrow> Inr (xla \<lparr> cc_tensors = [cache, fill_value],
                          cc_indices = update_indices # page_table,
                          cc_name = ''tt.paged_update_cache'', cc_shape = shape4 cache,
                          cc_attrs = [(''share_cache'', ABool share_cache)] \<rparr>)
      | CPU \<Rightarrow>
          if d2 cache = 0 \<and> update_indices \<noteq> [] then Inl ZeroDivisionError
          else rbind (lget (cells fill_value) 0) (\<lambda>users.
               rbind (broadcast (length update_indices) users) (\<lambda>users.
               rbind (rmap (\<lambda>heads. broadcast (d1 cache) (take (d1 cache) heads)) users) (\<lambda>users.
               rfold (paged_update_user page_table) cache
                 (List.enumerate 0 (zip update_indices users)))))
      | OtherDevice \<Rightarrow> Inl ValueError)"

text \<open>Filling a user's blocks with a sequence. The rows of the sequence are cut into blocks, head by
  head (the \<open>reshape\<close> and \<open>transpose\<close> of the code), and a last partial block is written
  to the next entry of the page table; a page table that is too short for it has no such entry and
  the assignment then writes nothing.\<close>

definition blocks_of :: "nat \<Rightarrow> nat \<Rightarrow> 'v list list \<Rightarrow> 'v list list list" where
  "blocks_of block_size n heads =
     map (\<lambda>j. map (\<lambda>head. slice head (j * block_size) ((j + 1) * block_size)) heads) [0..<n]"

definition fill_full_blocks ::
  "'v list list \<Rightarrow> nat \<Rightarrow> int list \<Rightarrow> 'v tensor4 \<Rightarrow> 'v tensor4 res" where
  "fill_full_blocks heads n block_indices cache =
     rbind (broadcast (length (take n block_indices)) (blocks_of (d2 cache) n heads)) (\<lambda>vals.
     rfold (\<lambda>cache (i, val).
        rbind (tensor_index (d0 cache) i) (\<lambda>b.
        rbind (broadcast (d1 cache) val) (\<lambda>val. Inr (put_block cache b (\<lambda>_. val)))))
       cache (zip (take n block_indices) vals))"

definition fill_partial_block ::
  "'v list list \<Rightarrow> nat \<Rightarrow> nat \<Rightarrow> int list \<Rightarrow> 'v tensor4 \<Rightarrow> 'v tensor4 res" where
  "fill_partial_block heads n part block_indices cache =
     rfold (\<lambda>cache i.
        rbind (tensor_index (d0 cache) i) (\<lambda>b.
        rbind (broadcast (d1 cache) (map (\<lambda>head. last_n head part) heads)) (\<lambda>vals.
        Inr (put_block cache b (map2 (\<lambda>v cell. v @ drop part cell) vals)))))
       cache (slice block_indices n (n + 1))"

definition paged_fill_cache ::
  "('v custom_call \<Rightarrow> 'v tensor4) \<Rightarrow> device \<Rightarrow> 'v tensor4 \<Rightarrow> 'v tensor4 \<Rightarrow> int list list
    \<Rightarrow> int list option \<Rightarrow> 'v tensor4 res" where
  "paged_fill_cache xla dev cache fill_value page_table batch_idx =
     (let idx = (case batch_idx of None \<Rightarrow> [0] | Some i \<Rightarrow> i)
      in case dev of
        XLA \<Rightarrow> Inr (xla \<lparr> cc_tensors = [cache, fill_value], cc_indices = idx # page_table,
                          cc_name = ''tt.paged_fill_cache'', cc_shape = shape4 cache, cc_attrs = [] \<rparr>)
      | CPU \<Rightarrow>
          (let block_size = d2 cache; fill_seq_len = d2 fill_value
           in rbind (rguard (length idx = 1) RuntimeError) (\<lambda>_.
              rbind (tensor_index (length page_table) (hd idx)) (\<lambda>u.
              rbind (rguard (block_size \<noteq> 0) ZeroDivisionError) (\<lambda>_.
              let blocks = page_table ! u; n = fill_seq_len div block_size;
                  part = fill_seq_len mod block_size; heads = cells fill_value ! 0
              in rbind (rguard (n = 0 \<and> part = 0 \<or> d0 fill_value = 1) RuntimeError) (\<lambda>_.
                 rbind (if n > 0 then fill_full_blocks heads n blocks cache else Inr cache) (\<lambda>cache.
                 if part > 0 then fill_partial_block heads n part blocks cache else Inr cache))))))
      | OtherDevice \<Rightarrow> Inl ValueError)"

text \<open>What the paged attention reads for a user: its blocks one after the other, for each head.\<close>

definition user_sequence :: "'v tensor4 \<Rightarrow> int list \<Rightarrow> 'v list list res" where
  "user_sequence cache block_indices =
     rbind (rmap (\<lambda>i. rbind (tensor_index (d0 cache) i) (\<lambda>b. Inr (cells cache ! b))) block_indices)
       (\<lambda>blocks. Inr (map (\<lambda>h. concat (map (\<lambda>b. b ! h) blocks)) [0..<d1 cache]))"

text \<open>The mask of the positions after the current one.\<close>

definition causal_row :: "nat \<Rightarrow> int \<Rightarrow> fl list" where
  "causal_row max_seq_len pos =
     (let first = (if pos + 1 < 0 then max 0 (pos + 1 + int max_seq_len) else pos + 1)
      in slice_fill (replicate max_seq_len (Fin 0)) (nat first) max_seq_len NegInf)"

section \<open>Use by the attention layer\<close>

text \<open>\<open>transpose\<close> of two dimensions.\<close>

definition swap01 :: "'v tensor4 \<Rightarrow> 'v tensor4" where
  "swap01 t = \<lparr> d0 = d1 t, d1 = d0 t, d2 = d2 t,
     cells = map (\<lambda>j. map (\<lambda>i. cells t ! i ! j) [0..<d0 t]) [0..<d1 t] \<rparr>"

definition swap12 :: "'v tensor4 \<Rightarrow> 'v tensor4" where
  "swap12 t = \<lparr> d0 = d0 t, d1 = d2 t, d2 = d1 t,
     cells = map (\<lambda>b. map (\<lambda>k. map (\<lambda>j. b ! j ! k) [0..<d1 t]) [0..<d2 t]) (cells t) \<rparr>"

definition batch_slice :: "'v tensor4 \<Rightarrow> nat \<Rightarrow> 'v tensor4" where
  "batch_slice t i = t\<lparr>d0 := min 1 (d0 t - i), cells := slice (cells t) i (i + 1)\<rparr>"

text \<open>The keys (or the values) of a step go into their cache: one token per user when decoding, every
  user's whole sequence when prefilling. The tensor has dimensions users, tokens, heads.\<close>

definition handle_paged_attention ::
  "('v custom_call \<Rightarrow> 'v tensor4) \<Rightarrow> device \<Rightarrow> bool \<Rightarrow> nat \<Rightarrow> 'v tensor4 \<Rightarrow> int list
    \<Rightarrow> int list list \<Rightarrow> 'v tensor4 \<Rightarrow> 'v tensor4 res" where
  "handle_paged_attention xla dev is_prefill users kv cache_position page_table cache =
     (if \<not> is_prefill
      then paged_update_cache xla dev cache (swap01 kv) cache_position page_table False
      else rfold (\<lambda>cache u. paged_fill_cache xla dev cache (batch_slice (swap12 kv) u) page_table
                    (Some [int u])) cache [0..<users])"

end
