(* ===== verification/PagedCacheProps.thy ===== *)
theory PagedCacheProps
  imports PagedCache
begin

text \<open>
  The paged cache refines one contiguous sequence per user: writing through the page table changes
  exactly the cells of the positions that are written, for exactly the users that write, whatever
  happens to the blocks no user owns (the null block that pads the page table).
\<close>

section \<open>The layout of a page table\<close>

text \<open>\<open>used u\<close> is the number of blocks user \<open>u\<close> owns: they come first in its row and no
  other entry of the table names them.\<close>

definition page_layout :: "int list list \<Rightarrow> (nat \<Rightarrow> nat) \<Rightarrow> nat \<Rightarrow> bool" where
  "page_layout pt used blocks \<longleftrightarrow>
     (\<forall>row \<in> set pt. \<forall>i \<in> set row. 0 \<le> i \<and> i < int blocks)
     \<and> (\<forall>u < length pt. used u \<le> length (pt ! u))
     \<and> (\<forall>u w i j. u < length pt \<and> w < length pt \<and> i < length (pt ! u) \<and> j < used w
          \<and> pt ! u ! i = pt ! w ! j \<longrightarrow> u = w \<and> i = j)"

text \<open>The abstraction: a user's block, and a user's cell at a position of its sequence.\<close>

definition user_block :: "'v tensor4 \<Rightarrow> int list list \<Rightarrow> nat \<Rightarrow> nat \<Rightarrow> 'v list list" where
  "user_block cache pt u j = cells cache ! nat (pt ! u ! j)"

definition read_cache :: "'v tensor4 \<Rightarrow> int list list \<Rightarrow> nat \<Rightarrow> nat \<Rightarrow> nat \<Rightarrow> 'v" where
  "read_cache cache pt u h p = user_block cache pt u (p div d2 cache) ! h ! (p mod d2 cache)"

lemma page_layoutD:
  assumes "page_layout pt used blocks"
  shows "u < length pt \<Longrightarrow> i < length (pt ! u) \<Longrightarrow> 0 \<le> pt ! u ! i \<and> pt ! u ! i < int blocks"
    "u < length pt \<Longrightarrow> used u \<le> length (pt ! u)"
    "u < length pt \<Longrightarrow> w < length pt \<Longrightarrow> i < length (pt ! u) \<Longrightarrow> j < used w \<Longrightarrow>
       pt ! u ! i = pt ! w ! j \<Longrightarrow> u = w \<and> i = j"
proof -
  note a = assms [unfolded page_layout_def]
  show "u < length pt \<Longrightarrow> i < length (pt ! u) \<Longrightarrow> 0 \<le> pt ! u ! i \<and> pt ! u ! i < int blocks"
    using conjunct1 [OF a] by (meson nth_mem)
  show "u < length pt \<Longrightarrow> used u \<le> length (pt ! u)" using a by blast
  show "u < length pt \<Longrightarrow> w < length pt \<Longrightarrow> i < length (pt ! u) \<Longrightarrow> j < used w \<Longrightarrow>
       pt ! u ! i = pt ! w ! j \<Longrightarrow> u = w \<and> i = j" using a by blast
qed

lemma wf4D:
  assumes "wf4 t"
  shows "length (cells t) = d0 t" "b < d0 t \<Longrightarrow> length (cells t ! b) = d1 t"
    "b < d0 t \<Longrightarrow> h < d1 t \<Longrightarrow> length (cells t ! b ! h) = d2 t"
proof -
  note a = assms [unfolded wf4_def]
  show 1: "length (cells t) = d0 t" using a by blast
  show 2: "b < d0 t \<Longrightarrow> length (cells t ! b) = d1 t" for b using a 1 by (metis nth_mem)
  show "b < d0 t \<Longrightarrow> h < d1 t \<Longrightarrow> length (cells t ! b ! h) = d2 t" using a 1 2 by (metis nth_mem)
qed

definition block_shape :: "'v tensor4 \<Rightarrow> 'v list list \<Rightarrow> bool" where
  "block_shape cache val \<longleftrightarrow> length val = d1 cache \<and> (\<forall>row \<in> set val. length row = d2 cache)"

text \<open>The effect of writing a block through an entry of the page table.\<close>

lemma put_block_ok:
  assumes wf: "wf4 cache" and lay: "page_layout pt used (d0 cache)"
    and u: "u < length pt" "i < length (pt ! u)"
    and f: "block_shape cache (f (user_block cache pt u i))"
  defines "c' \<equiv> put_block cache (nat (pt ! u ! i)) f"
  shows "wf4 c'" "shape4 c' = shape4 cache"
    "w < length pt \<Longrightarrow> j < used w \<Longrightarrow> user_block c' pt w j =
       (if w = u \<and> j = i then f (user_block cache pt u i) else user_block cache pt w j)"
proof -
  let ?b = "nat (pt ! u ! i)"
  note L = page_layoutD [OF lay]
  have b: "?b < length (cells cache)" using L(1) [OF u] wf4D(1) [OF wf] by auto
  have cs: "cells c' = (cells cache)[?b := f (cells cache ! ?b)]" "d0 c' = d0 cache" "d1 c' = d1 cache"
    "d2 c' = d2 cache" by (simp_all add: c'_def put_block_def)
  have f': "block_shape cache (f (cells cache ! ?b))" using f by (simp add: user_block_def)
  have "\<forall>x \<in> set (cells c'). x = f (cells cache ! ?b) \<or> x \<in> set (cells cache)"
    unfolding cs(1) using set_update_subset_insert [of "cells cache" ?b "f (cells cache ! ?b)"] by blast
  then show "wf4 c'"
    using wf f' cs unfolding wf4_def block_shape_def by auto
  show "shape4 c' = shape4 cache" using cs by (simp add: shape4_def)
  show "user_block c' pt w j =
       (if w = u \<and> j = i then f (user_block cache pt u i) else user_block cache pt w j)"
    if w: "w < length pt" "j < used w"
  proof (cases "w = u \<and> j = i")
    case True
    then show ?thesis using b cs by (simp add: user_block_def)
  next
    case False
    have jl: "j < length (pt ! w)" using L(2) [OF w(1)] w(2) by simp
    have "pt ! u ! i \<noteq> pt ! w ! j" using L(3) [OF u(1) w(1) u(2) w(2)] False by blast
    then have "nat (pt ! w ! j) \<noteq> ?b" using L(1) [OF w(1) jl] L(1) [OF u] by auto
    then show ?thesis unfolding if_not_P [OF False] using cs by (simp add: user_block_def)
  qed
qed

section \<open>Decoding: one token per user\<close>

text \<open>A user decodes at a position inside its blocks, or it is idle: its position is \<open>-1\<close>, which
  names the last entry of its row, and it does not own that entry.\<close>

definition active :: "nat \<Rightarrow> (nat \<Rightarrow> nat) \<Rightarrow> int list \<Rightarrow> nat \<Rightarrow> bool" where
  "active block_size used pos u \<longleftrightarrow> 0 \<le> pos ! u \<and> pos ! u < int (used u * block_size)"

definition idle :: "int list list \<Rightarrow> (nat \<Rightarrow> nat) \<Rightarrow> int list \<Rightarrow> nat \<Rightarrow> bool" where
  "idle pt used pos u \<longleftrightarrow> pos ! u = -1 \<and> used u < length (pt ! u)"

lemma paged_update_user_ok:
  assumes wf: "wf4 cache" and lay: "page_layout pt used (d0 cache)" and bs: "0 < d2 cache"
    and u: "u < length pt" and vals: "length vals = d1 cache"
    and au: "active (d2 cache) used pos u \<or> idle pt used pos u"
  obtains c' where "paged_update_user pt cache (u, pos ! u, vals) = Inr c'" "wf4 c'"
    "shape4 c' = shape4 cache"
    "\<And>w h p. w < length pt \<Longrightarrow> h < d1 cache \<Longrightarrow> p < used w * d2 cache \<Longrightarrow> read_cache c' pt w h p =
       (if w = u \<and> active (d2 cache) used pos u \<and> int p = pos ! u then vals ! h
        else read_cache cache pt w h p)"
proof -
  let ?bs = "d2 cache" and ?row = "pt ! u"
  define off where "off = nat (pos ! u mod int ?bs)"
  define i where "i = (if active ?bs used pos u then nat (pos ! u) div ?bs else length ?row - 1)"
  note L = page_layoutD [OF lay]
  have act: "nat (pos ! u) div ?bs < used u \<and> pos ! u div int ?bs = int (nat (pos ! u) div ?bs)
      \<and> off = nat (pos ! u) mod ?bs" if "active ?bs used pos u"
    using that bs by (auto simp: active_def off_def less_mult_imp_div_less nat_mod_distrib zdiv_int
      nat_less_iff)
  have i: "i < length ?row" "tensor_index (length ?row) (pos ! u div int ?bs) = Inr i"
  proof -
    show "i < length ?row" using act au L(2) [OF u] by (fastforce simp: i_def idle_def)
    show "tensor_index (length ?row) (pos ! u div int ?bs) = Inr i"
    proof (cases "active ?bs used pos u")
      case True
      then show ?thesis using act L(2) [OF u] by (simp add: i_def tensor_index_def)
    next
      case False
      then have "idle pt used pos u" using au by blast
      then have "pos ! u div int ?bs = -1" "length ?row > 0"
        using bs by (auto simp: idle_def div_eq_minus1)
      then show ?thesis using False by (simp add: i_def tensor_index_def nat_diff_distrib Suc_le_eq)
    qed
  qed
  let ?b = "nat (?row ! i)"
  let ?f = "map2 (\<lambda>v cell. cell[off := v]) vals"
  have bt: "tensor_index (d0 cache) (?row ! i) = Inr ?b"
    using L(1) [OF u i(1)] by (simp add: tensor_index_def)
  have run: "paged_update_user pt cache (u, pos ! u, vals) = Inr (put_block cache ?b ?f)"
    using u i bt by (simp add: paged_update_user_def Let_def off_def)
  have bl: "?b < d0 cache" using L(1) [OF u i(1)] by auto
  have old: "length (user_block cache pt u i) = d1 cache"
    "\<And>h. h < d1 cache \<Longrightarrow> length (user_block cache pt u i ! h) = ?bs"
    using wf4D [OF wf] bl by (simp_all add: user_block_def)
  have fh: "?f (user_block cache pt u i) ! h = (user_block cache pt u i ! h)[off := vals ! h]"
    if "h < d1 cache" for h using that old vals by simp
  have "block_shape cache (?f (user_block cache pt u i))"
    unfolding block_shape_def using old vals fh by (auto simp: in_set_conv_nth)
  note P = put_block_ok [where f = ?f, OF wf lay u i(1) this]
  show ?thesis
  proof (rule that [OF run P(1,2)])
    fix w h p
    assume w: "w < length pt" "h < d1 cache" "p < used w * ?bs"
    have j: "p div ?bs < used w" using w(3) by (simp add: less_mult_imp_div_less)
    have d2: "d2 (put_block cache ?b ?f) = ?bs" by (simp add: put_block_def)
    have blk: "user_block (put_block cache ?b ?f) pt w (p div ?bs) =
       (if w = u \<and> p div ?bs = i then ?f (user_block cache pt u i) else user_block cache pt w (p div ?bs))"
      by (rule P(3) [OF w(1) j])
    show "read_cache (put_block cache ?b ?f) pt w h p =
       (if w = u \<and> active ?bs used pos u \<and> int p = pos ! u then vals ! h
        else read_cache cache pt w h p)"
    proof (cases "w = u \<and> p div ?bs = i")
      case True
      have a: "active ?bs used pos u"
      proof (rule ccontr)
        assume n: "\<not> active ?bs used pos u"
        then have "used u < length ?row" using au by (simp add: idle_def)
        then show False using True j n by (simp add: i_def)
      qed
      have pm: "int p = pos ! u \<longleftrightarrow> p mod ?bs = off"
      proof -
        have "int p = pos ! u \<longleftrightarrow> p = nat (pos ! u)" using a by (auto simp: active_def)
        also have "\<dots> \<longleftrightarrow> p mod ?bs = nat (pos ! u) mod ?bs"
          using True a by (metis div_mult_mod_eq i_def)
        finally show ?thesis using act [OF a] by simp
      qed
      have "off < ?bs" using act [OF a] bs by simp
      then show ?thesis
        using True a pm blk fh [OF w(2)] old(2) [OF w(2)] bs
        by (auto simp: read_cache_def d2 nth_list_update)
    next
      case False
      have "\<not> (w = u \<and> active ?bs used pos u \<and> int p = pos ! u)"
      proof
        assume a: "w = u \<and> active ?bs used pos u \<and> int p = pos ! u"
        then have "p = nat (pos ! u)" by (metis nat_int)
        then show False using False a by (simp add: i_def)
      qed
      then show ?thesis using False blk by (auto simp: read_cache_def d2)
    qed
  qed
qed

lemma take_Suc_snoc: "k < length xs \<Longrightarrow> take (Suc k) xs = take k xs @ [xs ! k]"
  by (rule take_Suc_conv_app_nth)

lemma paged_update_all:
  assumes wf: "wf4 cache" and lay: "page_layout pt used (d0 cache)" and bs: "0 < d2 cache"
    and n: "length pos \<le> length pt" "length vals = length pos"
    and vals: "\<forall>v \<in> set vals. length v = d1 cache"
    and au: "\<forall>u < length pos. active (d2 cache) used pos u \<or> idle pt used pos u"
    and k: "k \<le> length pos"
  shows "\<exists>c'. rfold (paged_update_user pt) cache (take k (List.enumerate 0 (zip pos vals))) = Inr c'
    \<and> wf4 c' \<and> shape4 c' = shape4 cache
    \<and> (\<forall>w < length pt. \<forall>h < d1 cache. \<forall>p < used w * d2 cache. read_cache c' pt w h p =
         (if w < k \<and> active (d2 cache) used pos w \<and> int p = pos ! w then vals ! w ! h
          else read_cache cache pt w h p))"
  using k
proof (induction k)
  case 0
  then show ?case using wf by simp
next
  case (Suc k)
  let ?L = "List.enumerate 0 (zip pos vals)"
  obtain c where c: "rfold (paged_update_user pt) cache (take k ?L) = Inr c" "wf4 c"
    "shape4 c = shape4 cache"
    "\<forall>w < length pt. \<forall>h < d1 cache. \<forall>p < used w * d2 cache. read_cache c pt w h p =
         (if w < k \<and> active (d2 cache) used pos w \<and> int p = pos ! w then vals ! w ! h
          else read_cache cache pt w h p)"
    using Suc by auto
  have dims: "d0 c = d0 cache" "d1 c = d1 cache" "d2 c = d2 cache"
    using c(3) by (simp_all add: shape4_def)
  have k: "k < length ?L" "?L ! k = (k, pos ! k, vals ! k)"
    using Suc.prems n by (simp_all add: nth_enumerate_eq)
  have P: "wf4 c" "page_layout pt used (d0 c)" "0 < d2 c" "k < length pt" "length (vals ! k) = d1 c"
    "active (d2 c) used pos k \<or> idle pt used pos k"
    using c(2) lay bs n vals au Suc.prems by (simp_all add: dims)
  obtain c' where c': "paged_update_user pt c (k, pos ! k, vals ! k) = Inr c'" "wf4 c'"
    "shape4 c' = shape4 c"
    "\<And>w h p. w < length pt \<Longrightarrow> h < d1 c \<Longrightarrow> p < used w * d2 c \<Longrightarrow> read_cache c' pt w h p =
       (if w = k \<and> active (d2 c) used pos k \<and> int p = pos ! k then vals ! k ! h
        else read_cache c pt w h p)"
    by (rule paged_update_user_ok [OF P]) blast
  have "rfold (paged_update_user pt) cache (take (Suc k) ?L) = Inr c'"
    using k c(1) c'(1) by (simp add: take_Suc_snoc rfold_append)
  moreover have "shape4 c' = shape4 cache" using c'(3) c(3) by simp
  moreover have "read_cache c' pt w h p =
         (if w < Suc k \<and> active (d2 cache) used pos w \<and> int p = pos ! w then vals ! w ! h
          else read_cache cache pt w h p)"
    if "w < length pt" "h < d1 cache" "p < used w * d2 cache" for w h p
    using c'(4) [of w h p] c(4) that unfolding dims by (auto simp: less_Suc_eq)
  ultimately show ?case using c'(2) by blast
qed

lemma broadcast_same: "length xs = n \<Longrightarrow> broadcast n xs = Inr xs"
  by (simp add: broadcast_def)

lemma handle_decode:
  assumes "wf4 cache" and "page_layout pt used (d0 cache)" and "0 < d2 cache"
    and "wf4 kv" and "d0 kv = length pos" and "d1 kv = 1" and "d2 kv = d1 cache"
    and "length pos \<le> length pt"
    and "\<forall>u < length pos. active (d2 cache) used pos u \<or> idle pt used pos u"
  shows "\<exists>c'. handle_paged_attention xla CPU False users kv pos pt cache = Inr c'
    \<and> wf4 c' \<and> shape4 c' = shape4 cache
    \<and> (\<forall>w < length pt. \<forall>h < d1 cache. \<forall>p < used w * d2 cache. read_cache c' pt w h p =
         (if w < length pos \<and> active (d2 cache) used pos w \<and> int p = pos ! w
          then cells kv ! w ! 0 ! h else read_cache cache pt w h p))"
proof -
  define vals where "vals = map (\<lambda>i. cells kv ! i ! 0) [0..<d0 kv]"
  have lv: "length vals = length pos" using assms(5) by (simp add: vals_def)
  have hv: "\<forall>v \<in> set vals. length v = d1 cache"
    using wf4D(3) [OF assms(4)] assms(6,7) by (auto simp: vals_def)
  have "lget (cells (swap01 kv)) 0 = Inr vals"
    using assms(6) by (simp add: swap01_def vals_def lget_def)
  moreover have "rmap (\<lambda>heads. broadcast (d1 cache) (take (d1 cache) heads)) vals = Inr (map id vals)"
    by (rule rmap_all) (use hv in \<open>simp add: broadcast_same\<close>)
  ultimately have "handle_paged_attention xla CPU False users kv pos pt cache =
      rfold (paged_update_user pt) cache (List.enumerate 0 (zip pos vals))"
    using assms(3) lv by (simp add: handle_paged_attention_def paged_update_cache_def broadcast_same)
  moreover have "take (length pos) (List.enumerate 0 (zip pos vals)) = List.enumerate 0 (zip pos vals)"
    using lv by simp
  ultimately have run: "handle_paged_attention xla CPU False users kv pos pt cache =
      rfold (paged_update_user pt) cache (take (length pos) (List.enumerate 0 (zip pos vals)))"
    by simp
  have "vals ! w = cells kv ! w ! 0" if "w < length pos" for w
    using that assms(5) by (simp add: vals_def)
  note vw = this
  obtain c' where c': "rfold (paged_update_user pt) cache
      (take (length pos) (List.enumerate 0 (zip pos vals))) = Inr c'" "wf4 c'" "shape4 c' = shape4 cache"
    "\<forall>w < length pt. \<forall>h < d1 cache. \<forall>p < used w * d2 cache. read_cache c' pt w h p =
         (if w < length pos \<and> active (d2 cache) used pos w \<and> int p = pos ! w then vals ! w ! h
          else read_cache cache pt w h p)"
    using paged_update_all [OF assms(1-3,8) lv hv assms(9) order.refl] by blast
  show ?thesis unfolding run using c' vw by (intro exI [of _ c']) simp
qed

text \<open>C15. Decoding through the page table refines writing one cell of each decoding user's own
  sequence: after the step, position \<open>pos u\<close> of an active user \<open>u\<close> holds the key of its
  token, every other position of every user holds what it held, and idle users change nothing.\<close>

theorem decode_writes_own_position:
  assumes "wf4 cache" and "page_layout pt used (d0 cache)" and "0 < d2 cache"
    and "wf4 kv" and "d0 kv = length pos" and "d1 kv = 1" and "d2 kv = d1 cache"
    and "length pos \<le> length pt"
    and "\<forall>u < length pos. active (d2 cache) used pos u \<or> idle pt used pos u"
  shows "\<exists>c'. handle_paged_attention xla CPU False users kv pos pt cache = Inr c'
    \<and> wf4 c' \<and> shape4 c' = shape4 cache
    \<and> (\<forall>w < length pt. \<forall>h < d1 cache. \<forall>p < used w * d2 cache. read_cache c' pt w h p =
         (if w < length pos \<and> active (d2 cache) used pos w \<and> int p = pos ! w
          then cells kv ! w ! 0 ! h else read_cache cache pt w h p))"
  by (rule handle_decode [OF assms])

text \<open>Two users with two blocks of two cells each and a null block; the first user decodes at position
  1, the second is idle.\<close>

definition ex_cache :: "int tensor4" where
  "ex_cache = \<lparr> d0 = 4, d1 = 1, d2 = 2, cells = [[[0, 0]], [[1, 2]], [[3, 4]], [[5, 6]]] \<rparr>"

definition ex_pages :: "int list list" where
  "ex_pages = [[2, 0], [1, 3, 0]]"

definition ex_used :: "nat \<Rightarrow> nat" where
  "ex_used u = (if u = 0 then 1 else 2)"

definition ex_kv :: "int tensor4" where
  "ex_kv = \<lparr> d0 = 2, d1 = 1, d2 = 1, cells = [[[7]], [[8]]] \<rparr>"

lemma ex_paged: "wf4 ex_cache" "page_layout ex_pages ex_used (d0 ex_cache)" "0 < d2 ex_cache" "wf4 ex_kv"
proof -
  have "\<forall>u < 2. \<forall>w < 2. \<forall>i < length (ex_pages ! u). \<forall>j < ex_used w.
      ex_pages ! u ! i = ex_pages ! w ! j \<longrightarrow> u = w \<and> i = j"
    by (simp add: ex_pages_def ex_used_def All_less_Suc numeral_2_eq_2 numeral_3_eq_3)
  moreover have "length ex_pages = 2" by (simp add: ex_pages_def)
  moreover have "\<forall>u < 2. ex_used u \<le> length (ex_pages ! u)"
    by (simp add: ex_pages_def ex_used_def All_less_Suc numeral_2_eq_2)
  moreover have "\<forall>row \<in> set ex_pages. \<forall>i \<in> set row. 0 \<le> i \<and> i < int (d0 ex_cache)"
    by (simp add: ex_pages_def ex_cache_def)
  ultimately show "page_layout ex_pages ex_used (d0 ex_cache)"
    unfolding page_layout_def by (metis (no_types, lifting))
qed (simp_all add: wf4_def ex_cache_def ex_kv_def)

theorem decode_writes_own_position_witness:
  "\<exists>c'. handle_paged_attention (\<lambda>_. ex_cache) CPU False 2 ex_kv [1, -1] ex_pages ex_cache = Inr c'
     \<and> read_cache c' ex_pages 0 0 1 = 7 \<and> read_cache c' ex_pages 1 0 3 = 6"
proof -
  have "\<forall>u < length [1, -1 :: int]. active (d2 ex_cache) ex_used [1, -1] u \<or> idle ex_pages ex_used [1, -1] u"
    by (simp add: All_less_Suc active_def idle_def ex_used_def ex_pages_def ex_cache_def)
  note D = decode_writes_own_position [OF ex_paged _ _ _ _ this]
  have "\<exists>c'. handle_paged_attention (\<lambda>_. ex_cache) CPU False 2 ex_kv [1, -1] ex_pages ex_cache = Inr c'
    \<and> wf4 c' \<and> shape4 c' = shape4 ex_cache
    \<and> (\<forall>w < length ex_pages. \<forall>h < d1 ex_cache. \<forall>p < ex_used w * d2 ex_cache.
       read_cache c' ex_pages w h p =
       (if w < length [1, -1 :: int] \<and> active (d2 ex_cache) ex_used [1, -1] w \<and> int p = [1, -1] ! w
        then cells ex_kv ! w ! 0 ! h else read_cache ex_cache ex_pages w h p))"
    by (rule D) (simp_all add: ex_kv_def ex_cache_def ex_pages_def)
  then obtain c' where c':
    "handle_paged_attention (\<lambda>_. ex_cache) CPU False 2 ex_kv [1, -1] ex_pages ex_cache = Inr c'"
    "\<And>w h p. w < length ex_pages \<Longrightarrow> h < d1 ex_cache \<Longrightarrow> p < ex_used w * d2 ex_cache \<Longrightarrow>
       read_cache c' ex_pages w h p =
       (if w < length [1, -1 :: int] \<and> active (d2 ex_cache) ex_used [1, -1] w \<and> int p = [1, -1] ! w
        then cells ex_kv ! w ! 0 ! h else read_cache ex_cache ex_pages w h p)" by blast
  have "read_cache c' ex_pages 0 0 1 = 7"
    by (subst c'(2)) (simp_all add: ex_kv_def ex_cache_def ex_pages_def ex_used_def active_def)
  moreover have "read_cache c' ex_pages 1 0 3 = 6"
    by (subst c'(2)) (simp_all add: ex_kv_def ex_cache_def ex_pages_def ex_used_def active_def
      read_cache_def user_block_def numeral_3_eq_3)
  ultimately show ?thesis using c'(1) by blast
qed

section \<open>Prefilling: a whole sequence per user\<close>

lemma fill_full_ok:
  assumes wf: "wf4 cache" and lay: "page_layout pt used (d0 cache)"
    and u: "u < length pt" "n \<le> length (pt ! u)" and vals: "length vals = n"
    "\<forall>val \<in> set vals. block_shape cache val" and k: "k \<le> n"
  shows "\<exists>c'. rfold (\<lambda>cache (i, val). rbind (tensor_index (d0 cache) i) (\<lambda>b.
        rbind (broadcast (d1 cache) val) (\<lambda>val. Inr (put_block cache b (\<lambda>_. val)))))
       cache (take k (zip (take n (pt ! u)) vals)) = Inr c'
    \<and> wf4 c' \<and> shape4 c' = shape4 cache
    \<and> (\<forall>w < length pt. \<forall>j < used w. user_block c' pt w j =
         (if w = u \<and> j < k then vals ! j else user_block cache pt w j))"
  using k
proof (induction k)
  case 0
  then show ?case using wf by simp
next
  case (Suc k)
  let ?L = "zip (take n (pt ! u)) vals"
  let ?f = "\<lambda>cache (i, val). rbind (tensor_index (d0 cache) i) (\<lambda>b.
        rbind (broadcast (d1 cache) val) (\<lambda>val. Inr (put_block cache b (\<lambda>_. val))))"
  obtain c where c: "rfold ?f cache (take k ?L) = Inr c" "wf4 c" "shape4 c = shape4 cache"
    "\<forall>w < length pt. \<forall>j < used w. user_block c pt w j =
         (if w = u \<and> j < k then vals ! j else user_block cache pt w j)"
    using Suc by auto
  have dims: "d0 c = d0 cache" "d1 c = d1 cache" "d2 c = d2 cache"
    using c(3) by (simp_all add: shape4_def)
  have k: "k < length ?L" "?L ! k = (pt ! u ! k, vals ! k)" "k < length (pt ! u)"
    using Suc.prems u(2) vals(1) by simp_all
  have b: "tensor_index (d0 c) (pt ! u ! k) = Inr (nat (pt ! u ! k))"
    using page_layoutD(1) [OF lay u(1) k(3)] by (simp add: dims)
  have "vals ! k \<in> set vals" using vals(1) Suc.prems by simp
  then have sh: "block_shape c (vals ! k)"
    using vals(2) unfolding block_shape_def dims by blast
  then have step: "?f c (?L ! k) = Inr (put_block c (nat (pt ! u ! k)) (\<lambda>_. vals ! k))"
    using b by (simp add: k(2) broadcast_same block_shape_def)
  have lay': "page_layout pt used (d0 c)" using lay by (simp add: dims)
  note P = put_block_ok [where f = "\<lambda>_. vals ! k", OF c(2) lay' u(1) k(3) sh]
  have "rfold ?f cache (take (Suc k) ?L) = Inr (put_block c (nat (pt ! u ! k)) (\<lambda>_. vals ! k))"
    using c(1) step k(1) by (simp only: take_Suc_snoc rfold_append rfold.simps rbind.simps)
  then show ?case using P c(3,4) by (auto simp: less_Suc_eq)
qed

lemma slice_one: "k < length xs \<Longrightarrow> slice xs k (k + 1) = [xs ! k]"
  by (simp add: slice_def take_Suc hd_drop_conv_nth)

lemma fill_partial_ok:
  assumes wf: "wf4 cache" and lay: "page_layout pt used (d0 cache)"
    and u: "u < length pt" and hs: "length heads = d1 cache"
    "\<forall>h < d1 cache. part \<le> length (heads ! h)" and part: "part \<le> d2 cache"
  obtains c' where "fill_partial_block heads n part (pt ! u) cache = Inr c'" "wf4 c'"
    "shape4 c' = shape4 cache"
    "\<And>w j. w < length pt \<Longrightarrow> j < used w \<Longrightarrow> user_block c' pt w j =
       (if w = u \<and> j = n then map2 (\<lambda>head cell. last_n head part @ drop part cell) heads (user_block cache pt u n)
        else user_block cache pt w j)"
proof (cases "n < length (pt ! u)")
  case False
  then have "fill_partial_block heads n part (pt ! u) cache = Inr cache"
    by (simp add: fill_partial_block_def slice_def)
  moreover have "\<not> (w = u \<and> j = n)" if "w < length pt" "j < used w" for w j
    using that False page_layoutD(2) [OF lay u] by auto
  ultimately show ?thesis by (intro that [OF _ wf refl]) (simp_all only: if_False)
next
  case True
  have sl: "slice (pt ! u) n (n + 1) = [pt ! u ! n]" by (rule slice_one [OF True])
  have b: "nat (pt ! u ! n) < d0 cache" "tensor_index (d0 cache) (pt ! u ! n) = Inr (nat (pt ! u ! n))"
    using page_layoutD(1) [OF lay u True] by auto
  define f where "f = map2 (\<lambda>head cell. last_n head part @ drop part cell) heads"
  have e: "map2 (\<lambda>v cell. v @ drop part cell) (map (\<lambda>head. last_n head part) heads) = f"
    unfolding f_def by (rule ext, rule nth_equalityI) simp_all
  have run: "fill_partial_block heads n part (pt ! u) cache = Inr (put_block cache (nat (pt ! u ! n)) f)"
    using b(2) hs by (simp add: fill_partial_block_def sl [simplified] broadcast_same e)
  have old: "length (user_block cache pt u n) = d1 cache"
    "\<And>h. h < d1 cache \<Longrightarrow> length (user_block cache pt u n ! h) = d2 cache"
    using wf4D [OF wf] b(1) by (simp_all add: user_block_def)
  have "block_shape cache (f (user_block cache pt u n))"
    unfolding block_shape_def f_def using old hs part by (auto simp: in_set_conv_nth last_n_def)
  note P = put_block_ok [where f = f, OF wf lay u True this]
  show ?thesis
    by (rule that [OF run P(1,2)], subst P(3), assumption, assumption, simp only: f_def)
qed

lemma paged_fill_ok:
  assumes wf: "wf4 cache" and lay: "page_layout pt used (d0 cache)" and bs: "0 < d2 cache"
    and u: "u < length pt" and fill: "wf4 fv" "d0 fv = 1" "d1 fv = d1 cache"
    and fits: "d2 fv div d2 cache \<le> length (pt ! u)"
  obtains c' where "paged_fill_cache xla CPU cache fv pt (Some [int u]) = Inr c'" "wf4 c'"
    "shape4 c' = shape4 cache"
    "\<And>w h p. w < length pt \<Longrightarrow> h < d1 cache \<Longrightarrow> p < used w * d2 cache \<Longrightarrow> read_cache c' pt w h p =
       (if w = u \<and> p < d2 fv then cells fv ! 0 ! h ! p else read_cache cache pt w h p)"
proof -
  let ?bs = "d2 cache" and ?heads = "cells fv ! 0" and ?row = "pt ! u"
  define n where "n = d2 fv div ?bs"
  define part where "part = d2 fv mod ?bs"
  have seq: "d2 fv = n * ?bs + part" "part < ?bs" using bs by (simp_all add: n_def part_def)
  have hs: "length ?heads = d1 cache" "\<And>h. h < d1 cache \<Longrightarrow> length (?heads ! h) = d2 fv"
    using wf4D [OF fill(1)] fill(2,3) by simp_all
  let ?vals = "blocks_of ?bs n ?heads"
  have vals: "length ?vals = n" "\<And>j h o'. j < n \<Longrightarrow> h < d1 cache \<Longrightarrow> o' < ?bs \<Longrightarrow>
      ?vals ! j ! h ! o' = ?heads ! h ! (j * ?bs + o')"
  proof -
    show "length ?vals = n" by (simp add: blocks_of_def)
    fix j h o' assume a: "j < n" "h < d1 cache" "o' < ?bs"
    have "(j + 1) * ?bs \<le> n * ?bs" using a(1) by (intro mult_le_mono1) simp
    then show "?vals ! j ! h ! o' = ?heads ! h ! (j * ?bs + o')"
      using a hs seq by (simp add: blocks_of_def)
  qed
  have shp: "\<forall>val \<in> set ?vals. block_shape cache val"
  proof
    fix val assume "val \<in> set ?vals"
    then obtain j where j: "j < n" "val = map (\<lambda>head. slice head (j * ?bs) ((j + 1) * ?bs)) ?heads"
      by (auto simp: blocks_of_def)
    have "(j + 1) * ?bs \<le> n * ?bs" using j(1) by (intro mult_le_mono1) simp
    then show "block_shape cache val" using j(2) hs seq by (auto simp: block_shape_def in_set_conv_nth)
  qed
  have nl: "n \<le> length ?row" using fits by (simp add: n_def)
  obtain c1 where c1: "fill_full_blocks ?heads n ?row cache = Inr c1" "wf4 c1" "shape4 c1 = shape4 cache"
    "\<forall>w < length pt. \<forall>j < used w. user_block c1 pt w j =
         (if w = u \<and> j < n then ?vals ! j else user_block cache pt w j)"
    using fill_full_ok [OF wf lay u nl vals(1) shp order.refl] nl vals(1)
    by (auto simp: fill_full_blocks_def broadcast_same)
  have dims: "d0 c1 = d0 cache" "d1 c1 = d1 cache" "d2 c1 = ?bs" using c1(3) by (simp_all add: shape4_def)
  have c1': "(if n > 0 then fill_full_blocks ?heads n ?row cache else Inr cache) = Inr c1"
    using c1(1) by (cases "n > 0") (simp_all add: fill_full_blocks_def broadcast_def blocks_of_def)
  have cell: "read_cache c1 pt w h p =
      (if w = u \<and> p < n * ?bs then ?heads ! h ! p else read_cache cache pt w h p)"
    if "w < length pt" "h < d1 cache" "p < used w * ?bs" for w h p
  proof -
    have j: "p div ?bs < used w" using that(3) by (simp add: less_mult_imp_div_less)
    have pn: "p div ?bs < n \<longleftrightarrow> p < n * ?bs" using bs by (simp add: div_less_iff_less_mult)
    show ?thesis
      using c1(4) that(1,2) j pn vals(2) [of "p div ?bs" h "p mod ?bs"] bs
      by (auto simp: read_cache_def dims)
  qed
  have run: "paged_fill_cache xla CPU cache fv pt (Some [int u]) =
      (if part > 0 then fill_partial_block ?heads n part ?row c1 else Inr c1)"
    using u bs fill(2) c1' by (cases "n > 0")
      (simp_all add: paged_fill_cache_def Let_def n_def part_def)
  show ?thesis
  proof (cases "part > 0")
    case False
    then have "n * ?bs = d2 fv" using seq by simp
    then show ?thesis using that [of c1] run False c1(2,3) cell by simp
  next
    case True
    have hs1: "length ?heads = d1 c1" "\<forall>h < d1 c1. part \<le> length (?heads ! h)" "part \<le> d2 c1"
      using hs seq by (simp_all add: dims)
    have lay1: "page_layout pt used (d0 c1)" using lay by (simp add: dims)
    obtain c2 where c2: "fill_partial_block ?heads n part ?row c1 = Inr c2" "wf4 c2" "shape4 c2 = shape4 c1"
      "\<And>w j. w < length pt \<Longrightarrow> j < used w \<Longrightarrow> user_block c2 pt w j =
       (if w = u \<and> j = n then map2 (\<lambda>head cell. last_n head part @ drop part cell) ?heads (user_block c1 pt u n)
        else user_block c1 pt w j)"
      using fill_partial_ok [OF c1(2) lay1 u hs1] by blast
    have d2': "d2 c2 = ?bs" using c2(3) dims by (simp add: shape4_def)
    show ?thesis
    proof (rule that)
      show "paged_fill_cache xla CPU cache fv pt (Some [int u]) = Inr c2" using run True c2(1) by simp
      show "wf4 c2" "shape4 c2 = shape4 cache" using c2(2,3) c1(3) by simp_all
      fix w h p
      assume a: "w < length pt" "h < d1 cache" "p < used w * ?bs"
      have j: "p div ?bs < used w" using a(3) by (simp add: less_mult_imp_div_less)
      show "read_cache c2 pt w h p =
       (if w = u \<and> p < d2 fv then ?heads ! h ! p else read_cache cache pt w h p)"
      proof (cases "w = u \<and> p div ?bs = n")
        case False
        then have "user_block c2 pt w (p div ?bs) = user_block c1 pt w (p div ?bs)"
          using c2(4) [OF a(1) j] unfolding if_not_P [OF False] by blast
        then have "read_cache c2 pt w h p = read_cache c1 pt w h p"
          by (simp add: read_cache_def d2' dims)
        moreover have "w = u \<Longrightarrow> p < n * ?bs \<longleftrightarrow> p < d2 fv"
        proof -
          assume "w = u"
          then have "p div ?bs \<noteq> n" using False by simp
          moreover have "p div ?bs = n" if "n * ?bs \<le> p" "p < d2 fv"
            using that seq by (intro div_nat_eqI) (simp_all add: mult.commute)
          ultimately show "p < n * ?bs \<longleftrightarrow> p < d2 fv" using seq(1) by fastforce
        qed
        ultimately show ?thesis using cell [OF a] by auto
      next
        case True
        let ?o = "p mod ?bs"
        have po: "p = n * ?bs + ?o" using True by (metis div_mult_mod_eq)
        have ob: "?o < ?bs" using bs by simp
        have nr: "n < length ?row" using j True page_layoutD(2) [OF lay u] by auto
        have len: "length (user_block c1 pt u n) = d1 cache"
          using wf4D(2) [OF c1(2)] page_layoutD(1) [OF lay u nr] by (simp add: user_block_def dims nat_less_iff)
        have lenh: "length (user_block c1 pt u n ! h) = ?bs"
          using wf4D(3) [OF c1(2)] page_layoutD(1) [OF lay u nr] a(2)
          by (simp add: user_block_def dims nat_less_iff)
        have "read_cache c2 pt w h p = (last_n (?heads ! h) part @ drop part (user_block c1 pt u n ! h)) ! ?o"
          using c2(4) [OF a(1) j] True a(2) hs(1) len by (simp add: read_cache_def d2')
        also have "\<dots> = (if ?o < part then ?heads ! h ! p else user_block c1 pt u n ! h ! ?o)"
          using hs(2) [OF a(2)] seq po lenh by (simp add: nth_append last_n_def)
        also have "user_block c1 pt u n ! h ! ?o = read_cache c1 pt w h p"
          using True by (simp add: read_cache_def dims)
        also have "read_cache c1 pt w h p = read_cache cache pt w h p"
          using cell [OF a] po by simp
        finally show ?thesis using True po seq by auto
      qed
    qed
  qed
qed

lemma handle_prefill:
  assumes "wf4 cache" and "page_layout pt used (d0 cache)" and "0 < d2 cache"
    and "wf4 kv" and "d0 kv = users" and "d2 kv = d1 cache" and "users \<le> length pt"
    and "\<forall>u < users. d1 kv div d2 cache \<le> length (pt ! u)"
  shows "\<exists>c'. handle_paged_attention xla CPU True users kv pos pt cache = Inr c'
    \<and> wf4 c' \<and> shape4 c' = shape4 cache
    \<and> (\<forall>w < length pt. \<forall>h < d1 cache. \<forall>p < used w * d2 cache. read_cache c' pt w h p =
         (if w < users \<and> p < d1 kv then cells kv ! w ! p ! h else read_cache cache pt w h p))"
proof -
  let ?f = "\<lambda>cache u. paged_fill_cache xla CPU cache (batch_slice (swap12 kv) u) pt (Some [int u])"
  have "\<exists>c'. rfold ?f cache [0..<k] = Inr c' \<and> wf4 c' \<and> shape4 c' = shape4 cache
    \<and> (\<forall>w < length pt. \<forall>h < d1 cache. \<forall>p < used w * d2 cache. read_cache c' pt w h p =
         (if w < k \<and> p < d1 kv then cells kv ! w ! p ! h else read_cache cache pt w h p))"
    if "k \<le> users" for k using that
  proof (induction k)
    case 0
    then show ?case using assms(1) by simp
  next
    case (Suc k)
    then obtain c where c: "rfold ?f cache [0..<k] = Inr c" "wf4 c" "shape4 c = shape4 cache"
      "\<forall>w < length pt. \<forall>h < d1 cache. \<forall>p < used w * d2 cache. read_cache c pt w h p =
         (if w < k \<and> p < d1 kv then cells kv ! w ! p ! h else read_cache cache pt w h p)"
      by auto
    have dims: "d0 c = d0 cache" "d1 c = d1 cache" "d2 c = d2 cache"
      using c(3) by (simp_all add: shape4_def)
    let ?fv = "batch_slice (swap12 kv) k"
    have k: "k < d0 kv" "k < length (cells kv)" using Suc.prems assms(5) wf4D(1) [OF assms(4)] by auto
    have sl: "cells ?fv = [map (\<lambda>h. map (\<lambda>p. cells kv ! k ! p ! h) [0..<d1 kv]) [0..<d2 kv]]"
      using k(2) slice_one [of k "cells (swap12 kv)"] by (simp add: batch_slice_def swap12_def)
    have fv: "d0 ?fv = 1" "d1 ?fv = d1 c" "d2 ?fv = d1 kv" "wf4 ?fv"
      using k(1) assms(6) sl by (auto simp: batch_slice_def swap12_def wf4_def dims)
    have P: "page_layout pt used (d0 c)" "0 < d2 c" "k < length pt" "d2 ?fv div d2 c \<le> length (pt ! k)"
      using assms(2,3,7,8) Suc.prems fv(3) by (simp_all add: dims)
    obtain c' where c': "?f c k = Inr c'" "wf4 c'" "shape4 c' = shape4 c"
      "\<And>w h p. w < length pt \<Longrightarrow> h < d1 c \<Longrightarrow> p < used w * d2 c \<Longrightarrow> read_cache c' pt w h p =
         (if w = k \<and> p < d2 ?fv then cells ?fv ! 0 ! h ! p else read_cache c pt w h p)"
      by (rule paged_fill_ok [OF c(2) P(1-3) fv(4,1,2) P(4)]) blast
    have "rfold ?f cache [0..<Suc k] = Inr c'" using c(1) c'(1) by (simp add: rfold_append)
    moreover have "read_cache c' pt w h p =
         (if w < Suc k \<and> p < d1 kv then cells kv ! w ! p ! h else read_cache cache pt w h p)"
      if "w < length pt" "h < d1 cache" "p < used w * d2 cache" for w h p
      using c'(4) [of w h p] c(4) that sl fv(3) assms(6) by (auto simp: dims less_Suc_eq)
    ultimately show ?case using c'(2,3) c(3) by auto
  qed
  from this [of users] show ?thesis by (simp add: handle_paged_attention_def)
qed

text \<open>Prefilling through the page table refines writing each user's whole sequence: after the step,
  the positions of a user below the sequence length hold its keys, as far as its blocks reach, and
  every other position of every user holds what it held. Positions beyond the blocks a user owns
  are padding and reach no block that belongs to anybody.\<close>

theorem prefill_writes_own_sequence:
  assumes "wf4 cache" and "page_layout pt used (d0 cache)" and "0 < d2 cache"
    and "wf4 kv" and "d0 kv = users" and "d2 kv = d1 cache" and "users \<le> length pt"
    and "\<forall>u < users. d1 kv div d2 cache \<le> length (pt ! u)"
  shows "\<exists>c'. handle_paged_attention xla CPU True users kv pos pt cache = Inr c'
    \<and> wf4 c' \<and> shape4 c' = shape4 cache
    \<and> (\<forall>w < length pt. \<forall>h < d1 cache. \<forall>p < used w * d2 cache. read_cache c' pt w h p =
         (if w < users \<and> p < d1 kv then cells kv ! w ! p ! h else read_cache cache pt w h p))"
  by (rule handle_prefill [OF assms])

theorem prefill_writes_own_sequence_witness:
  "\<exists>c'. handle_paged_attention (\<lambda>_. ex_cache) CPU True 2 ex_kv [0, 0] ex_pages ex_cache = Inr c'
     \<and> read_cache c' ex_pages 1 0 0 = 8 \<and> read_cache c' ex_pages 1 0 3 = 6"
proof -
  have "\<exists>c'. handle_paged_attention (\<lambda>_. ex_cache) CPU True 2 ex_kv [0, 0] ex_pages ex_cache = Inr c'
    \<and> wf4 c' \<and> shape4 c' = shape4 ex_cache
    \<and> (\<forall>w < length ex_pages. \<forall>h < d1 ex_cache. \<forall>p < ex_used w * d2 ex_cache.
         read_cache c' ex_pages w h p =
         (if w < 2 \<and> p < d1 ex_kv then cells ex_kv ! w ! p ! h else read_cache ex_cache ex_pages w h p))"
    by (rule prefill_writes_own_sequence [OF ex_paged]) (simp_all add: ex_kv_def ex_cache_def ex_pages_def)
  then obtain c' where c':
    "handle_paged_attention (\<lambda>_. ex_cache) CPU True 2 ex_kv [0, 0] ex_pages ex_cache = Inr c'"
    "\<And>w h p. w < length ex_pages \<Longrightarrow> h < d1 ex_cache \<Longrightarrow> p < ex_used w * d2 ex_cache \<Longrightarrow>
       read_cache c' ex_pages w h p =
       (if w < 2 \<and> p < d1 ex_kv then cells ex_kv ! w ! p ! h else read_cache ex_cache ex_pages w h p)"
    by blast
  have "read_cache c' ex_pages 1 0 0 = 8"
    by (subst c'(2)) (simp_all add: ex_kv_def ex_cache_def ex_pages_def ex_used_def)
  moreover have "read_cache c' ex_pages 1 0 3 = 6"
    by (subst c'(2)) (simp_all add: ex_kv_def ex_cache_def ex_pages_def ex_used_def
      read_cache_def user_block_def numeral_3_eq_3)
  ultimately show ?thesis using c'(1) by blast
qed

end
