(* ===== verification/MoeOps.thy ===== *)
theory MoeOps
  imports PagedCache
begin

text \<open>
  The mixture-of-experts operations of \<open>tt_torch/custom_ops.py\<close> (\<open>sparse_matmul\<close>,
  \<open>all_to_all_dispatch\<close>, \<open>all_to_all_combine\<close>, \<open>moe_expert_token_remap\<close>) and
  \<open>build_expert_mapping\<close> of \<open>tt_torch/sparse_mlp.py\<close>.

  A tensor is its shape and a function from index lists to entries; only the entries whose index
  is in range matter. On an XLA device an operation is a custom call, the argument \<open>xla\<close>, with the
  output shapes the code computes; the CPU fallback is computed as the code says, with exact
  arithmetic.
\<close>

section \<open>Tensors\<close>

record 'a tensor =
  t_shape :: "nat list"
  t_at :: "nat list \<Rightarrow> 'a"

definition in_range :: "nat list \<Rightarrow> nat list \<Rightarrow> bool" where
  "in_range idx sh \<longleftrightarrow> length idx = length sh \<and> list_all2 (<) idx sh"

definition zeros :: "nat list \<Rightarrow> 'a::zero tensor" where
  "zeros sh = \<lparr> t_shape = sh, t_at = (\<lambda>_. 0) \<rparr>"

text \<open>Assignment to the part of a tensor that satisfies a condition.\<close>

definition assign :: "'a tensor \<Rightarrow> (nat list \<Rightarrow> bool) \<Rightarrow> (nat list \<Rightarrow> 'a) \<Rightarrow> 'a tensor" where
  "assign t c f = t\<lparr>t_at := (\<lambda>i. if c i then f i else t_at t i)\<rparr>"

definition dot :: "nat \<Rightarrow> (nat \<Rightarrow> rat) \<Rightarrow> (nat \<Rightarrow> rat) \<Rightarrow> rat" where
  "dot n f g = sum_list (map (\<lambda>l. f l * g l) [0..<n])"

record moe_call =
  mc_name :: string
  mc_floats :: "rat tensor list"
  mc_ints :: "int tensor list"
  mc_shapes :: "nat list list"
  mc_attrs :: "(string \<times> attr) list"

section \<open>Sparse matrix multiplication\<close>

text \<open>The output shape, as the custom call and the fake kernel compute it.\<close>

definition sparse_matmul_shape :: "bool \<Rightarrow> bool \<Rightarrow> nat list \<Rightarrow> nat list \<Rightarrow> nat list res" where
  "sparse_matmul_shape a_sparse b_sparse sa sb =
     (if a_sparse \<and> b_sparse then Inr (butlast sa @ [last sb])
      else if \<not> a_sparse \<and> b_sparse then
        (case sa of
           [a, b, m, k] \<Rightarrow> Inr [a, b, 1, sb ! 1, m, last sb]
         | _ \<Rightarrow> Inl ValueError)
      else if a_sparse \<and> \<not> b_sparse then Inr (butlast sa @ [last sb])
      else Inl ValueError)"

definition sparse_matmul_fake ::
  "rat tensor \<Rightarrow> rat tensor \<Rightarrow> bool \<Rightarrow> bool \<Rightarrow> rat tensor res" where
  "sparse_matmul_fake a b a_sparse b_sparse =
     rbind (sparse_matmul_shape a_sparse b_sparse (t_shape a) (t_shape b)) (\<lambda>sh. Inr (zeros sh))"

text \<open>The loop over the experts: \<open>on\<close> says whether an expert is computed, \<open>at\<close> which part of the
  output it writes, \<open>val\<close> what.\<close>

definition expert_loop ::
  "nat \<Rightarrow> (nat \<Rightarrow> bool) \<Rightarrow> (nat \<Rightarrow> nat list \<Rightarrow> bool) \<Rightarrow> (nat \<Rightarrow> nat list \<Rightarrow> rat) \<Rightarrow> nat list \<Rightarrow> rat tensor" where
  "expert_loop e on pos val sh =
     fold (\<lambda>e out. if on e then assign out (pos e) (val e) else out) [0..<e] (zeros sh)"

definition sparse_matmul_cpu ::
  "rat tensor \<Rightarrow> rat tensor \<Rightarrow> rat tensor \<Rightarrow> bool \<Rightarrow> bool \<Rightarrow> rat tensor res" where
  "sparse_matmul_cpu a b sp a_sparse b_sparse =
     (case (t_shape a, t_shape b) of
        ([a0, a1, m, k], [b0, ne, kb, n]) \<Rightarrow>
          if a_sparse \<and> b_sparse then
            (let on = (\<lambda>e. t_at sp [0, 0, 0, e] > 0)
             in rbind (rguard (ne = 0 \<or> in_range [0, 0, 0, ne - 1] (t_shape sp)) IndexError) (\<lambda>_.
                rbind (rguard (\<forall>e < ne. on e \<longrightarrow> e < a1 \<and> 0 < a0 \<and> 0 < b0) IndexError) (\<lambda>_.
                rbind (rguard ((\<exists>e < ne. on e) \<longrightarrow> k = kb) RuntimeError) (\<lambda>_.
                Inr (expert_loop ne on (\<lambda>e i. i ! 0 = 0 \<and> i ! 1 = e)
                  (\<lambda>e i. dot k (\<lambda>l. t_at a [0, e, i ! 2, l]) (\<lambda>l. t_at b [0, e, l, i ! 3]))
                  [1, ne, m, n])))))
          else if \<not> a_sparse \<and> b_sparse then
            (let on = (\<lambda>e. \<exists>x < a0. \<exists>y < a1. t_at sp [x, y, 0, e] \<noteq> 0)
             in rbind (rguard (ne = 0 \<or> take 2 (t_shape sp) = [a0, a1]
                   \<and> in_range [0, ne - 1] (drop 2 (t_shape sp))) IndexError) (\<lambda>_.
                rbind (rguard ((\<exists>e < ne. on e) \<longrightarrow> 0 < b0) IndexError) (\<lambda>_.
                rbind (rguard ((\<exists>e < ne. on e) \<longrightarrow> k = kb) RuntimeError) (\<lambda>_.
                Inr (expert_loop ne on (\<lambda>e i. i ! 2 = 0 \<and> i ! 3 = e)
                  (\<lambda>e i. dot k (\<lambda>l. t_at a [i ! 0, i ! 1, i ! 4, l]) (\<lambda>l. t_at b [0, e, l, i ! 5])
                         * t_at sp [i ! 0, i ! 1, 0, e])
                  [a0, a1, 1, ne, m, n])))))
          else if a_sparse \<and> \<not> b_sparse then
            (let on = (\<lambda>e. \<exists>x < a0. t_at sp [0, 0, x, e] \<noteq> 0)
             in rbind (rguard (ne = 0 \<or> (\<exists>s0 s1 s3. t_shape sp = [s0, s1, a0, s3] \<and> 0 < s0 \<and> 0 < s1
                   \<and> ne \<le> s3)) IndexError) (\<lambda>_.
                rbind (rguard (\<forall>e < ne. on e \<longrightarrow> e < a1 \<and> 0 < b0) IndexError) (\<lambda>_.
                rbind (rguard ((\<exists>e < ne. on e) \<longrightarrow> k = kb) RuntimeError) (\<lambda>_.
                Inr (expert_loop ne on (\<lambda>e i. i ! 1 = e)
                  (\<lambda>e i. dot k (\<lambda>l. t_at a [i ! 0, e, i ! 2, l]) (\<lambda>l. t_at b [0, e, l, i ! 3])
                         * t_at sp [0, 0, i ! 0, e])
                  [a0, ne, m, n])))))
          else Inl ValueError
      | _ \<Rightarrow> Inl ValueError)"

definition sparse_matmul ::
  "(moe_call \<Rightarrow> rat tensor) \<Rightarrow> device \<Rightarrow> rat tensor \<Rightarrow> rat tensor \<Rightarrow> rat tensor \<Rightarrow> int option
    \<Rightarrow> bool \<Rightarrow> bool \<Rightarrow> rat tensor res" where
  "sparse_matmul xla dev a b sp nnz a_sparse b_sparse =
     (case dev of
        XLA \<Rightarrow> rbind (sparse_matmul_shape a_sparse b_sparse (t_shape a) (t_shape b)) (\<lambda>sh.
          Inr (xla \<lparr> mc_name = ''tt.sparse_matmul'', mc_floats = [a, b, sp], mc_ints = [],
                     mc_shapes = [sh],
                     mc_attrs = [(''is_input_a_sparse'', ABool a_sparse),
                                 (''is_input_b_sparse'', ABool b_sparse)]
                       @ (case nnz of None \<Rightarrow> [] | Some n \<Rightarrow> [(''nnz'', AInt n)]) \<rparr>))
      | CPU \<Rightarrow> sparse_matmul_cpu a b sp a_sparse b_sparse
      | OtherDevice \<Rightarrow> Inl ValueError)"

section \<open>Dispatch and combine\<close>

text \<open>On the CPU the tokens are repeated once per device, so that row \<open>i\<close> of the result is token row
  \<open>i mod B\<close>.\<close>

definition repeated :: "nat \<Rightarrow> nat \<Rightarrow> 'a tensor \<Rightarrow> 'a tensor" where
  "repeated n_dev b t =
     (case t_shape t of
        [b', one, s, h] \<Rightarrow>
          \<lparr> t_shape = [one, if n_dev > 1 then b * n_dev else b, s, h],
            t_at = (\<lambda>i. t_at t [if n_dev > 1 then i ! 1 mod b else i ! 1, i ! 0, i ! 2, i ! 3]) \<rparr>
      | _ \<Rightarrow> t)"

definition all_to_all_dispatch ::
  "(moe_call \<Rightarrow> rat tensor \<times> int tensor) \<Rightarrow> device \<Rightarrow> rat tensor \<Rightarrow> int tensor \<Rightarrow> int tensor \<Rightarrow> nat
    \<Rightarrow> int \<Rightarrow> (rat tensor \<times> int tensor) res" where
  "all_to_all_dispatch xla dev x indices mapping n_dev axis =
     (case t_shape x of
        [b, one, s, h] \<Rightarrow>
          (case dev of
             XLA \<Rightarrow> Inr (xla \<lparr> mc_name = ''tt.all_to_all_dispatch'', mc_floats = [x],
                               mc_ints = [indices, mapping],
                               mc_shapes = [[1, b * n_dev, s, h], [1, b * n_dev, s, last (t_shape indices)]],
                               mc_attrs = [(''num_devices'', AInt (int n_dev)),
                                           (''cluster_axis'', AInt axis)] \<rparr>)
           | CPU \<Rightarrow>
               (case t_shape indices of
                  [ib, i1, i2, i3] \<Rightarrow> Inr (repeated n_dev b x, repeated n_dev ib indices)
                | _ \<Rightarrow> Inl RuntimeError)
           | OtherDevice \<Rightarrow> Inl ValueError)
      | _ \<Rightarrow> Inl ValueError)"

text \<open>The triple loop of the combination; \<open>src\<close> and \<open>dst\<close> place batch and position as the shard
  dimension says.\<close>

definition combine_loop ::
  "nat \<Rightarrow> nat \<Rightarrow> nat \<Rightarrow> nat \<Rightarrow> (nat \<Rightarrow> nat \<Rightarrow> nat list) \<Rightarrow> int tensor \<Rightarrow> rat tensor \<Rightarrow> rat tensor \<Rightarrow> rat tensor" where
  "combine_loop nb ns nk ne pos meta x out =
     fold (\<lambda>(b, s, k) out.
        let expert = t_at meta [0, b, s, k]
        in if 0 \<le> expert \<and> expert < int ne
           then assign out (\<lambda>i. take 3 i = k # pos b s)
                  (\<lambda>i. t_at x (nat expert # pos b s @ drop 3 i))
           else out)
       [(b, s, k). b \<leftarrow> [0..<nb], s \<leftarrow> [0..<ns], k \<leftarrow> [0..<nk]] out"

definition all_to_all_combine ::
  "(moe_call \<Rightarrow> rat tensor) \<Rightarrow> device \<Rightarrow> rat tensor \<Rightarrow> int tensor \<Rightarrow> int tensor \<Rightarrow> nat \<Rightarrow> int \<Rightarrow> nat
    \<Rightarrow> int \<Rightarrow> rat tensor res" where
  "all_to_all_combine xla dev x meta mapping n_dev axis nk shard =
     rbind
       (case t_shape x of
          [e, p, q, h] \<Rightarrow>
            if shard = 1 then Inr (e, p, q, h)
            else if shard = 2 then Inr (e, q, p, h) else Inl ValueError
        | _ \<Rightarrow> Inl ValueError)
       (\<lambda>(ne, bd, ns, h).
        rbind (rguard (n_dev \<noteq> 0) ZeroDivisionError) (\<lambda>_.
        let nb = bd div n_dev;
            sh = (if shard = 1 then [nk, nb, ns, h] else [nk, ns, nb, h])
        in case dev of
             XLA \<Rightarrow> Inr (xla \<lparr> mc_name = ''tt.all_to_all_combine'', mc_floats = [x],
                               mc_ints = [meta, mapping], mc_shapes = [sh],
                               mc_attrs = [(''num_devices'', AInt (int n_dev)),
                                           (''cluster_axis'', AInt axis),
                                           (''num_experts_per_tok'', AInt (int nk)),
                                           (''output_shard_dim'', AInt shard)] \<rparr>)
           | CPU \<Rightarrow>
               if 0 < nb * ns * nk \<and> \<not> in_range [0, nb - 1, ns - 1, nk - 1] (t_shape meta)
               then Inl IndexError
               else Inr (combine_loop nb ns nk ne (\<lambda>b s. if shard = 1 then [b, s] else [s, b])
                           meta x (zeros sh))
           | OtherDevice \<Rightarrow> Inl ValueError))"

section \<open>Remapping the routing\<close>

text \<open>One step of the loop: the routing weight of the expert is copied and the chunk of the token
  is marked as needing the expert.\<close>

definition remap_step ::
  "rat tensor \<Rightarrow> int tensor \<Rightarrow> nat \<Rightarrow> nat \<Rightarrow> nat \<Rightarrow> nat \<Rightarrow> rat tensor \<times> rat tensor
    \<Rightarrow> nat \<times> nat \<times> nat \<times> nat \<Rightarrow> (rat tensor \<times> rat tensor) res" where
  "remap_step topk meta ne ns reduction reduced_seq = (\<lambda>(mapping, reduced) (d, b, s, k).
     rbind (rguard (in_range [d, b, s, k] (t_shape meta)) IndexError) (\<lambda>_.
     rbind (tensor_index ne (t_at meta [d, b, s, k])) (\<lambda>g.
       let chunk = (b * ns + s) div reduction
       in Inr (assign mapping (\<lambda>i. i = [0, b, s, g]) (\<lambda>_. t_at topk [d, b, s, g]),
               if chunk < reduced_seq then assign reduced (\<lambda>i. i = [0, 0, chunk, g]) (\<lambda>_. 1)
               else reduced))))"

definition remap_indices :: "nat \<Rightarrow> nat \<Rightarrow> nat \<Rightarrow> nat \<Rightarrow> (nat \<times> nat \<times> nat \<times> nat) list" where
  "remap_indices nd nb ns nk =
     [(d, b, s, k). d \<leftarrow> [0..<nd], b \<leftarrow> [0..<nb], s \<leftarrow> [0..<ns], k \<leftarrow> [0..<nk]]"

definition moe_expert_token_remap ::
  "(moe_call \<Rightarrow> rat tensor \<times> rat tensor) \<Rightarrow> device \<Rightarrow> rat tensor \<Rightarrow> int tensor \<Rightarrow> int tensor \<Rightarrow> nat
    \<Rightarrow> (rat tensor \<times> rat tensor) res" where
  "moe_expert_token_remap xla dev topk mapping meta reduction =
     (case t_shape topk of
        [nd, nb, ns, ne] \<Rightarrow>
          rbind (rguard (last (t_shape mapping) \<noteq> 0 \<and> reduction \<noteq> 0) ZeroDivisionError) (\<lambda>_.
          let nk = last (t_shape meta);
              reduced_seq = (nb * ns + reduction - 1) div reduction;
              shapes = [[1, nb, ns, ne], [1, 1, reduced_seq, ne]]
          in if dev = XLA
             then Inr (xla \<lparr> mc_name = ''tt.moe_expert_token_remap'', mc_floats = [topk],
                             mc_ints = [mapping, meta], mc_shapes = shapes,
                             mc_attrs = [(''reduction_size'', AInt (int reduction))] \<rparr>)
             else rfold (remap_step topk meta ne ns reduction reduced_seq)
                    (zeros (shapes ! 0), zeros (shapes ! 1)) (remap_indices nd nb ns nk))
      | _ \<Rightarrow> Inl ValueError)"

section \<open>Placing experts on devices\<close>

definition expert_device :: "nat \<Rightarrow> (nat \<times> nat) option \<Rightarrow> nat \<Rightarrow> nat" where
  "expert_device experts_per_device mesh_shape i =
     (case mesh_shape of
        Some (rows, cols) \<Rightarrow> (i mod rows) * cols + i div rows
      | None \<Rightarrow> i div experts_per_device)"

definition build_expert_mapping ::
  "nat \<Rightarrow> nat \<Rightarrow> (nat \<times> nat) option \<Rightarrow> int tensor res" where
  "build_expert_mapping num_experts num_devices mesh_shape =
     rbind (rguard (num_devices \<noteq> 0) ZeroDivisionError) (\<lambda>_.
     rbind (rassert (num_experts mod num_devices = 0)) (\<lambda>_.
     rfold (\<lambda>m i.
        let d = expert_device (num_experts div num_devices) mesh_shape i
        in rbind (rguard (case mesh_shape of Some (rows, _) \<Rightarrow> rows \<noteq> 0 | None \<Rightarrow> True)
                    ZeroDivisionError) (\<lambda>_.
           rbind (rguard (d < num_devices) IndexError) (\<lambda>_.
           Inr (assign m (\<lambda>j. j = [0, 0, i, d]) (\<lambda>_. 1)))))
       (zeros [1, 1, num_experts, num_devices]) [0..<num_experts]))"

end
