(* ===== verification/TensorOps.thy ===== *)
theory TensorOps
  imports MoeOps
begin

text \<open>
  The tensor operations the modules of \<open>tt_torch/sparse_mlp.py\<close> are made of, on tensors given by a shape
  and a function of the index: views, permutations, broadcasting, batched products, scattering. An
  operation whose shapes do not fit raises. All tensors that are viewed are contiguous, so strides do not
  matter.

  \<open>tens t sh f\<close> says what a tensor is: its shape and its entries in range. Every operation has a lemma of
  this form.
\<close>

section \<open>Views\<close>

text \<open>The position of an index in row-major order, and back.\<close>

fun flat :: "nat list \<Rightarrow> nat list \<Rightarrow> nat" where
  "flat (n # sh) (i # idx) = i * prod_list sh + flat sh idx"
| "flat _ _ = 0"

fun unflat :: "nat list \<Rightarrow> nat \<Rightarrow> nat list" where
  "unflat [] k = []"
| "unflat (n # sh) k = k div prod_list sh # unflat sh (k mod prod_list sh)"

definition view :: "'a tensor \<Rightarrow> nat list \<Rightarrow> 'a tensor res" where
  "view t sh =
     rbind (rguard (prod_list sh = prod_list (t_shape t)) RuntimeError) (\<lambda>_.
     Inr \<lparr> t_shape = sh, t_at = (\<lambda>i. t_at t (unflat (t_shape t) (flat sh i))) \<rparr>)"

text \<open>A view whose last dimension is given as \<open>-1\<close>.\<close>

definition view_rest :: "'a tensor \<Rightarrow> nat list \<Rightarrow> 'a tensor res" where
  "view_rest t pre =
     rbind (rguard (prod_list pre \<noteq> 0) RuntimeError) (\<lambda>_.
     view t (pre @ [prod_list (t_shape t) div prod_list pre]))"

section \<open>Moving dimensions\<close>

definition permute :: "'a tensor \<Rightarrow> nat list \<Rightarrow> 'a tensor" where
  "permute t dims =
     \<lparr> t_shape = map (\<lambda>d. t_shape t ! d) dims,
       t_at = (\<lambda>i. t_at t (map (\<lambda>d. i ! length (takeWhile (\<lambda>e. e \<noteq> d) dims)) [0..<length dims])) \<rparr>"

definition unsqueeze :: "'a tensor \<Rightarrow> nat \<Rightarrow> 'a tensor" where
  "unsqueeze t d =
     \<lparr> t_shape = take d (t_shape t) @ 1 # drop d (t_shape t),
       t_at = (\<lambda>i. t_at t (take d i @ drop (Suc d) i)) \<rparr>"

text \<open>A dimension that is not one stays.\<close>

definition squeeze :: "'a tensor \<Rightarrow> nat \<Rightarrow> 'a tensor" where
  "squeeze t d =
     (if t_shape t ! d = 1
      then \<lparr> t_shape = take d (t_shape t) @ drop (Suc d) (t_shape t),
             t_at = (\<lambda>i. t_at t (take d i @ 0 # drop d i)) \<rparr>
      else t)"

text \<open>Every second entry of the last dimension, and a range of it.\<close>

definition every_second :: "'a tensor \<Rightarrow> nat \<Rightarrow> 'a tensor" where
  "every_second t start =
     \<lparr> t_shape = butlast (t_shape t) @ [(last (t_shape t) - start + 1) div 2],
       t_at = (\<lambda>i. t_at t (butlast i @ [start + 2 * last i])) \<rparr>"

definition last_range :: "'a tensor \<Rightarrow> nat \<Rightarrow> nat \<Rightarrow> 'a tensor" where
  "last_range t start stop =
     \<lparr> t_shape = butlast (t_shape t) @ [min stop (last (t_shape t)) - start],
       t_at = (\<lambda>i. t_at t (butlast i @ [start + last i])) \<rparr>"

text \<open>Repetition along the first dimension.\<close>

definition repeat_first :: "'a tensor \<Rightarrow> nat \<Rightarrow> 'a tensor" where
  "repeat_first t n =
     \<lparr> t_shape = n * hd (t_shape t) # tl (t_shape t),
       t_at = (\<lambda>i. t_at t (hd i mod hd (t_shape t) # tl i)) \<rparr>"

section \<open>Entries\<close>

definition tensor_map :: "('a \<Rightarrow> 'b) \<Rightarrow> 'a tensor \<Rightarrow> 'b tensor" where
  "tensor_map f t = \<lparr> t_shape = t_shape t, t_at = (\<lambda>i. f (t_at t i)) \<rparr>"

text \<open>Broadcasting: shapes are aligned at the end, and a dimension of one is repeated.\<close>

definition pad_shape :: "nat \<Rightarrow> nat list \<Rightarrow> nat list" where
  "pad_shape n sh = replicate (n - length sh) 1 @ sh"

definition common_shape :: "nat list \<Rightarrow> nat list \<Rightarrow> nat list res" where
  "common_shape sa sb =
     (let n = max (length sa) (length sb); pa = pad_shape n sa; pb = pad_shape n sb
      in if list_all2 (\<lambda>x y. x = y \<or> x = 1 \<or> y = 1) pa pb
         then Inr (map2 (\<lambda>x y. if x = 1 then y else x) pa pb) else Inl RuntimeError)"

definition own_index :: "nat list \<Rightarrow> nat list \<Rightarrow> nat list" where
  "own_index sh i = map2 (\<lambda>n k. if n = 1 then 0 else k) sh (drop (length i - length sh) i)"

definition tensor_op :: "('a \<Rightarrow> 'b \<Rightarrow> 'c) \<Rightarrow> 'a tensor \<Rightarrow> 'b tensor \<Rightarrow> 'c tensor res" where
  "tensor_op f a b =
     rbind (common_shape (t_shape a) (t_shape b)) (\<lambda>sh.
     Inr \<lparr> t_shape = sh,
           t_at = (\<lambda>i. f (t_at a (own_index (t_shape a) i)) (t_at b (own_index (t_shape b) i))) \<rparr>)"

text \<open>Matrix products over broadcast leading dimensions.\<close>

definition matmul :: "rat tensor \<Rightarrow> rat tensor \<Rightarrow> rat tensor res" where
  "matmul a b =
     (let sa = t_shape a; sb = t_shape b; ba = butlast (butlast sa); bb = butlast (butlast sb)
      in rbind (rguard (2 \<le> length sa \<and> 2 \<le> length sb \<and> last sa = last (butlast sb)) RuntimeError) (\<lambda>_.
         rbind (common_shape ba bb) (\<lambda>batch.
         Inr \<lparr> t_shape = batch @ [last (butlast sa), last sb],
               t_at = (\<lambda>i. let j = butlast (butlast i); r = last (butlast i); c = last i
                 in dot (last sa) (\<lambda>l. t_at a (own_index ba j @ [r, l])) (\<lambda>l. t_at b (own_index bb j @ [l, c]))) \<rparr>)))"

definition sum_dim :: "rat tensor \<Rightarrow> nat \<Rightarrow> rat tensor" where
  "sum_dim t d =
     \<lparr> t_shape = take d (t_shape t) @ drop (Suc d) (t_shape t),
       t_at = (\<lambda>i. sum_list (map (\<lambda>l. t_at t (take d i @ l # drop d i)) [0..<t_shape t ! d])) \<rparr>"

text \<open>\<open>scatter_\<close> along the last dimension. When an index occurs twice the last occurrence is taken.\<close>

fun all_indices :: "nat list \<Rightarrow> nat list list" where
  "all_indices [] = [[]]"
| "all_indices (n # sh) = concat (map (\<lambda>k. map ((#) k) (all_indices sh)) [0..<n])"

definition scatter_last :: "'a tensor \<Rightarrow> int tensor \<Rightarrow> 'a tensor \<Rightarrow> 'a tensor res" where
  "scatter_last out index src =
     (let n = last (t_shape out)
      in rbind (rguard (length (t_shape index) = length (t_shape out)
            \<and> list_all2 (\<le>) (t_shape index) (t_shape src)
            \<and> list_all2 (\<le>) (butlast (t_shape index)) (butlast (t_shape out))
            \<and> list_all (\<lambda>i. 0 \<le> t_at index i \<and> t_at index i < int n) (all_indices (t_shape index))) RuntimeError) (\<lambda>_.
         Inr (out\<lparr>t_at := (\<lambda>i.
           let ks = filter (\<lambda>k. t_at index (butlast i @ [k]) = int (last i)) [0..<last (t_shape index)]
           in if in_range (butlast i) (butlast (t_shape index)) \<and> ks \<noteq> []
              then t_at src (butlast i @ [last ks]) else t_at out i)\<rparr>)))"

definition full_tensor :: "nat list \<Rightarrow> 'a \<Rightarrow> 'a tensor" where
  "full_tensor sh x = \<lparr> t_shape = sh, t_at = (\<lambda>_. x) \<rparr>"

definition one_hot :: "int tensor \<Rightarrow> nat \<Rightarrow> rat tensor res" where
  "one_hot t n =
     rbind (rguard (list_all (\<lambda>i. 0 \<le> t_at t i \<and> t_at t i < int n) (all_indices (t_shape t))) RuntimeError) (\<lambda>_.
     Inr \<lparr> t_shape = t_shape t @ [n], t_at = (\<lambda>i. if t_at t (butlast i) = int (last i) then 1 else 0) \<rparr>)"

section \<open>What a tensor is\<close>

definition tens :: "'a tensor \<Rightarrow> nat list \<Rightarrow> (nat list \<Rightarrow> 'a) \<Rightarrow> bool" where
  "tens t sh f \<longleftrightarrow> t_shape t = sh \<and> (\<forall>i. in_range i sh \<longrightarrow> t_at t i = f i)"

lemma in_range_Nil [simp]: "in_range i [] \<longleftrightarrow> i = []"
  by (auto simp: in_range_def)

lemma in_range_Cons: "in_range i (n # sh) \<longleftrightarrow> (\<exists>k j. i = k # j \<and> k < n \<and> in_range j sh)"
  by (cases i) (auto simp: in_range_def)

lemma in_range_Cons_Cons [simp]: "in_range (k # j) (n # sh) \<longleftrightarrow> k < n \<and> in_range j sh"
  by (auto simp: in_range_def)

lemma in_range_append:
  assumes "length i = length sh"
  shows "in_range (i @ j) (sh @ sh') \<longleftrightarrow> in_range i sh \<and> in_range j sh'"
  using assms by (auto simp: in_range_def list_all2_append)

lemma in_range_length: "in_range i sh \<Longrightarrow> length i = length sh"
  by (simp add: in_range_def)

lemma in_range_split:
  "in_range i (sh @ sh') \<longleftrightarrow> in_range (take (length sh) i) sh \<and> in_range (drop (length sh) i) sh'"
proof (cases "length sh \<le> length i")
  case True
  then have "length (take (length sh) i) = length sh" by simp
  from in_range_append [OF this, of "drop (length sh) i" sh'] show ?thesis by simp
qed (auto simp: in_range_def)

lemma tensI:
  assumes "t_shape t = sh" "\<And>i. in_range i sh \<Longrightarrow> t_at t i = f i"
  shows "tens t sh f"
  using assms by (simp add: tens_def)

lemma tensD: "tens t sh f \<Longrightarrow> in_range i sh \<Longrightarrow> t_at t i = f i"
  by (simp add: tens_def)

lemma tens_shape: "tens t sh f \<Longrightarrow> t_shape t = sh"
  by (simp add: tens_def)

lemma tens_cong:
  assumes "tens t sh f" "\<And>i. in_range i sh \<Longrightarrow> f i = g i"
  shows "tens t sh g"
  using assms by (simp add: tens_def)

lemma flat_less: "in_range i sh \<Longrightarrow> flat sh i < prod_list sh"
proof (induction sh arbitrary: i)
  case (Cons n sh)
  then obtain k j where i: "i = k # j" "k < n" "in_range j sh" by (auto simp: in_range_Cons)
  have "k * prod_list sh + flat sh j < k * prod_list sh + prod_list sh" using Cons.IH [OF i(3)] by simp
  also have "\<dots> \<le> n * prod_list sh" using i(2) mult_le_mono1 [of "Suc k" n "prod_list sh"] by simp
  finally show ?case by (simp add: i(1))
qed simp

lemma unflat_flat: "in_range i sh \<Longrightarrow> unflat sh (flat sh i) = i"
proof (induction sh arbitrary: i)
  case (Cons n sh)
  then obtain k j where i: "i = k # j" "k < n" "in_range j sh" by (auto simp: in_range_Cons)
  then show ?case using flat_less [OF i(3)] Cons.IH [OF i(3)] by simp
qed simp

lemma flat_unflat: "k < prod_list sh \<Longrightarrow> flat sh (unflat sh k) = k"
proof (induction sh arbitrary: k)
  case (Cons n sh)
  then have "0 < prod_list sh" by (cases "prod_list sh = 0") auto
  then have "flat sh (unflat sh (k mod prod_list sh)) = k mod prod_list sh" by (intro Cons.IH) simp
  then show ?case by simp
qed simp

lemma view_tens:
  assumes "tens t sh f" "prod_list sh' = prod_list sh"
    and "\<And>j. in_range j sh' \<Longrightarrow> in_range (g j) sh \<and> flat sh (g j) = flat sh' j"
  shows "\<exists>v. view t sh' = Inr v \<and> tens v sh' (\<lambda>j. f (g j))"
proof -
  have "t_at t (unflat sh (flat sh' j)) = f (g j)" if "in_range j sh'" for j
    using assms(3) [OF that] unflat_flat [of "g j" sh] tensD [OF assms(1)] by metis
  then show ?thesis using assms(1,2) by (auto simp: view_def tens_def res_simps)
qed


section \<open>What the operations make\<close>

text \<open>A view and back changes nothing.\<close>

lemma view_view_tens:
  assumes "tens t sh f" "prod_list sh1 = prod_list sh"
  shows "\<exists>v u. view t sh1 = Inr v \<and> view v sh = Inr u \<and> tens u sh f"
proof -
  have "unflat sh (flat sh1 (unflat sh1 (flat sh i))) = i" if "in_range i sh" for i
    using flat_unflat [of "flat sh i" sh1] flat_less [OF that] unflat_flat [OF that] assms(2) by simp
  then show ?thesis using assms by (auto simp: view_def tens_def res_simps)
qed

lemma one_or_same [simp]: "(if n = Suc 0 then Suc 0 else n) = n" "(if n = Suc 0 then n else n) = n"
  by simp_all

lemma unsqueeze_tens:
  assumes "tens t sh f" "d \<le> length sh"
  shows "tens (unsqueeze t d) (take d sh @ 1 # drop d sh) (\<lambda>i. f (take d i @ drop (Suc d) i))"
proof (rule tensI)
  fix i assume i: "in_range i (take d sh @ 1 # drop d sh)"
  then have len: "length i = Suc (length sh)" using assms(2) by (simp add: in_range_def)
  then have "i = take d i @ i ! d # drop (Suc d) i" using assms(2) by (simp add: id_take_nth_drop)
  then have "in_range (take d i @ i ! d # drop (Suc d) i) (take d sh @ 1 # drop d sh)" using i by simp
  then have "in_range (take d i) (take d sh)" "in_range (drop (Suc d) i) (drop d sh)"
    using len assms(2) by (simp_all add: in_range_append)
  then have "in_range (take d i @ drop (Suc d) i) sh"
    using in_range_append [of "take d i" "take d sh" "drop (Suc d) i" "drop d sh"] len assms(2) by simp
  then show "t_at (unsqueeze t d) i = f (take d i @ drop (Suc d) i)"
    using assms(1) by (simp add: unsqueeze_def tens_def)
qed (use assms(1) in \<open>simp add: unsqueeze_def tens_def\<close>)

lemma squeeze_tens:
  assumes "tens t (sh @ 1 # sh') f" "d = length sh"
  shows "tens (squeeze t d) (sh @ sh') (\<lambda>i. f (take d i @ 0 # drop d i))"
proof (rule tensI)
  have s: "t_shape t ! d = 1" using assms by (simp add: tens_def nth_append)
  then show "t_shape (squeeze t d) = sh @ sh'" using assms by (simp add: squeeze_def tens_def)
  fix i assume i: "in_range i (sh @ sh')"
  have len: "length (take d i) = length sh" using in_range_length [OF i] assms(2) by simp
  have "in_range (take d i) sh" "in_range (drop d i) sh'" using i assms(2) by (simp_all add: in_range_split)
  then have "in_range (take d i @ 0 # drop d i) (sh @ 1 # sh')"
    by (simp add: in_range_append [OF len])
  then show "t_at (squeeze t d) i = f (take d i @ 0 # drop d i)"
    using s assms(1) by (simp add: squeeze_def tens_def)
qed

lemma tensor_map_tens: "tens t sh f \<Longrightarrow> tens (tensor_map g t) sh (\<lambda>i. g (f i))"
  by (simp add: tens_def tensor_map_def)

lemma own_index_same: "in_range i sh \<Longrightarrow> own_index sh i = i"
  by (auto simp: own_index_def in_range_def list_eq_iff_nth_eq list_all2_conv_all_nth)

lemma own_index_suffix:
  assumes "in_range i (pre @ sh)"
  shows "own_index sh i = drop (length pre) i" "in_range (drop (length pre) i) sh"
proof -
  have len: "length i = length pre + length sh" using in_range_length [OF assms] by simp
  show r: "in_range (drop (length pre) i) sh" using assms by (simp add: in_range_split)
  have "own_index sh i = own_index sh (drop (length pre) i)" by (simp add: own_index_def len)
  then show "own_index sh i = drop (length pre) i" using own_index_same [OF r] by simp
qed

lemma common_shape_suffix: "common_shape (pre @ sh) sh = Inr (pre @ sh)"
proof -
  have p: "pad_shape (length pre + length sh) sh = replicate (length pre) 1 @ sh" by (simp add: pad_shape_def)
  have pp: "pad_shape (length pre + length sh) (pre @ sh) = pre @ sh" by (simp add: pad_shape_def)
  have all: "list_all2 (\<lambda>x y. x = y \<or> x = 1 \<or> y = 1) (pre @ sh) (replicate (length pre) 1 @ sh)"
    by (auto simp: list_all2_conv_all_nth nth_append)
  have m: "map2 (\<lambda>x y. if x = 1 then y else x) (pre @ sh) (replicate (length pre) 1 @ sh) = pre @ sh"
    by (rule nth_equalityI) (auto simp: nth_append)
  show ?thesis unfolding common_shape_def Let_def by (simp only: length_append max.absorb1 le_add2 p pp all m if_True)
qed

lemma tensor_op_tens:
  assumes "tens a (pre @ sh) f" "tens b sh g"
  shows "\<exists>c. tensor_op h a b = Inr c \<and> tens c (pre @ sh) (\<lambda>i. h (f i) (g (drop (length pre) i)))"
proof -
  have "own_index (pre @ sh) i = i" if "in_range i (pre @ sh)" for i
    using that by (rule own_index_same)
  then show ?thesis
    using assms own_index_suffix by (auto simp: tensor_op_def tens_def common_shape_suffix res_simps)
qed

lemma common_shape_last: "common_shape (sh @ [n]) (sh @ [1]) = Inr (sh @ [n])"
proof -
  have p: "pad_shape (Suc (length sh)) (sh @ [x]) = sh @ [x]" for x by (simp add: pad_shape_def)
  have all: "list_all2 (\<lambda>x y. x = y \<or> x = 1 \<or> y = 1) (sh @ [n]) (sh @ [1])"
    by (auto simp: list_all2_conv_all_nth nth_append)
  have m: "map2 (\<lambda>x y. if x = 1 then y else x) (sh @ [n]) (sh @ [1]) = sh @ [n]"
    by (rule nth_equalityI) (auto simp: nth_append)
  show ?thesis unfolding common_shape_def Let_def
    by (simp only: length_append_singleton max.idem p all m if_True)
qed

lemma tensor_op_last_tens:
  assumes "tens a (sh @ [n]) f" "tens b (sh @ [1]) g"
  shows "\<exists>c. tensor_op h a b = Inr c \<and> tens c (sh @ [n]) (\<lambda>i. h (f i) (g (butlast i @ [0])))"
proof -
  have o: "own_index (sh @ [1]) i = butlast i @ [0]" "in_range (butlast i @ [0]) (sh @ [1])"
    if i: "in_range i (sh @ [n])" for i
  proof -
    have len: "length i = Suc (length sh)" using in_range_length [OF i] by simp
    then have ne: "i \<noteq> []" by auto
    have "in_range (butlast i @ [last i]) (sh @ [n])" using i ne by simp
    then have b: "in_range (butlast i) sh" using len by (simp only: in_range_append length_butlast diff_Suc_1)
    then show "in_range (butlast i @ [0]) (sh @ [1])" using len by (simp add: in_range_append)
    have "own_index (sh @ [1]) i = map2 (\<lambda>n k. if n = 1 then 0 else k) (sh @ [1]) (butlast i @ [last i])"
      using ne len by (simp add: own_index_def)
    also have "\<dots> = map2 (\<lambda>n k. if n = 1 then 0 else k) sh (butlast i) @ [0]" using len by simp
    also have "map2 (\<lambda>n k. if n = 1 then 0 else k) sh (butlast i) = butlast i"
      using own_index_same [OF b] len by (simp add: own_index_def)
    finally show "own_index (sh @ [1]) i = butlast i @ [0]" .
  qed
  then show ?thesis
    using assms own_index_same [of _ "sh @ [n]"]
    by (auto simp: tensor_op_def tens_def common_shape_last [simplified] res_simps)
qed

lemma in_all_indices: "i \<in> set (all_indices sh) \<longleftrightarrow> in_range i sh"
proof (induction sh arbitrary: i)
  case (Cons n sh)
  show ?case by (auto simp: in_range_Cons Cons.IH image_iff)
qed simp

lemma in_range_snocE:
  assumes "in_range i (sh @ [n])"
  obtains j k where "i = j @ [k]" "in_range j sh" "k < n"
proof -
  have len: "length i = Suc (length sh)" using in_range_length [OF assms] by simp
  then have i: "i = butlast i @ [last i]" by (metis append_butlast_last_id list.size(3) nat.simps(3))
  moreover have "length (butlast i) = length sh" using len by simp
  ultimately have "in_range (butlast i) sh" "last i < n"
    using assms in_range_append [of "butlast i" sh "[last i]" "[n]"] by (metis in_range_Cons_Cons)+
  then show thesis using i that by metis
qed

lemma scatter_last_tens:
  assumes out: "tens out (sh @ [n]) f" and idx: "tens index (sh @ [nk]) (\<lambda>i. int (g i))"
    and src: "tens src (sh @ [nk]) v"
    and range: "\<And>i. in_range i (sh @ [nk]) \<Longrightarrow> g i < n"
  shows "\<exists>t. scatter_last out index src = Inr t \<and> tens t (sh @ [n]) (\<lambda>i.
     let ks = filter (\<lambda>k. g (butlast i @ [k]) = last i) [0..<nk]
     in if ks \<noteq> [] then v (butlast i @ [last ks]) else f i)"
proof -
  have sh: "t_shape out = sh @ [n]" "t_shape index = sh @ [nk]" "t_shape src = sh @ [nk]"
    using assms by (simp_all add: tens_def)
  have le: "list_all2 (\<le>) ns ns" for ns :: "nat list" by (simp add: list_all2_conv_all_nth)
  have at: "t_at index i = int (g i)" "0 \<le> t_at index i" "t_at index i < int n" if "in_range i (sh @ [nk])" for i
    using tensD [OF idx that] range [OF that] by auto
  have "list_all (\<lambda>i. 0 \<le> t_at index i \<and> t_at index i < int n) (all_indices (sh @ [nk]))"
    using at by (simp add: list_all_iff in_all_indices)
  moreover have "tens (out\<lparr>t_at := (\<lambda>i. let ks = filter (\<lambda>k. t_at index (butlast i @ [k]) = int (last i)) [0..<nk]
       in if in_range (butlast i) sh \<and> ks \<noteq> [] then t_at src (butlast i @ [last ks]) else t_at out i)\<rparr>) (sh @ [n])
     (\<lambda>i. let ks = filter (\<lambda>k. g (butlast i @ [k]) = last i) [0..<nk]
       in if ks \<noteq> [] then v (butlast i @ [last ks]) else f i)" (is "tens ?t _ _")
  proof (rule tensI)
    fix i assume i: "in_range i (sh @ [n])"
    then obtain j e where ij: "i = j @ [e]" "in_range j sh" "e < n" by (rule in_range_snocE)
    have r: "in_range (j @ [k]) (sh @ [nk])" if "k < nk" for k
      using that ij(2) by (simp add: in_range_append in_range_length)
    have ks: "filter (\<lambda>k. t_at index (j @ [k]) = int e) [0..<nk] = filter (\<lambda>k. g (j @ [k]) = e) [0..<nk]"
      using at(1) [OF r] by (intro filter_cong) auto
    have "t_at src (j @ [last ks']) = v (j @ [last ks'])" if "ks' = filter P [0..<nk]" "ks' \<noteq> []" for ks' P
      using tensD [OF src r] last_in_set [OF that(2)] that(1) by auto
    then show "t_at ?t i = (let ks = filter (\<lambda>k. g (butlast i @ [k]) = last i) [0..<nk]
       in if ks \<noteq> [] then v (butlast i @ [last ks]) else f i)"
      using tensD [OF out i] ij by (simp add: ks Let_def)
  qed (simp add: sh)
  ultimately show ?thesis by (simp add: scatter_last_def sh le Let_def res_simps)
qed


lemma in_range_snoc: "in_range i (sh @ [n]) \<longleftrightarrow> i \<noteq> [] \<and> in_range (butlast i) sh \<and> last i < n"
proof
  assume "in_range i (sh @ [n])"
  then show "i \<noteq> [] \<and> in_range (butlast i) sh \<and> last i < n" by (auto elim!: in_range_snocE)
next
  assume *: "i \<noteq> [] \<and> in_range (butlast i) sh \<and> last i < n"
  then have "in_range (butlast i @ [last i]) (sh @ [n])" by (simp only: in_range_append in_range_length) simp
  then show "in_range i (sh @ [n])" using * by simp
qed

lemma every_second_tens:
  assumes "tens t (sh @ [2 * n]) f" "start < 2"
  shows "tens (every_second t start) (sh @ [n]) (\<lambda>i. f (butlast i @ [start + 2 * last i]))"
proof (rule tensI)
  show "t_shape (every_second t start) = sh @ [n]" using assms by (simp add: every_second_def tens_def)
  fix i assume "in_range i (sh @ [n])"
  then show "t_at (every_second t start) i = f (butlast i @ [start + 2 * last i])"
    using assms by (auto simp: every_second_def tens_def in_range_snoc)
qed

lemma last_range_tens:
  assumes "tens t (sh @ [n]) f" "stop \<le> n"
  shows "tens (last_range t start stop) (sh @ [stop - start]) (\<lambda>i. f (butlast i @ [start + last i]))"
proof (rule tensI)
  show "t_shape (last_range t start stop) = sh @ [stop - start]" using assms by (simp add: last_range_def tens_def)
  fix i assume "in_range i (sh @ [stop - start])"
  then show "t_at (last_range t start stop) i = f (butlast i @ [start + last i])"
    using assms by (auto simp: last_range_def tens_def in_range_snoc)
qed

lemma repeat_first_tens:
  assumes "tens t (n # sh) f"
  shows "tens (repeat_first t d) (d * n # sh) (\<lambda>i. f (hd i mod n # tl i))"
  using assms by (auto simp: repeat_first_def tens_def in_range_Cons intro!: mod_less_divisor)
    (metis gr_implies_not0 mod_less_divisor mult_0_right neq0_conv not_less_zero)

lemma sum_dim_tens:
  assumes "tens t (sh @ n # sh') f" "d = length sh"
  shows "tens (sum_dim t d) (sh @ sh') (\<lambda>i. sum_list (map (\<lambda>l. f (take d i @ l # drop d i)) [0..<n]))"
proof (rule tensI)
  have n: "t_shape t = sh @ n # sh'" "t_shape t ! d = n" using assms by (simp_all add: tens_def nth_append)
  then show "t_shape (sum_dim t d) = sh @ sh'" using assms by (simp add: sum_dim_def)
  fix i assume i: "in_range i (sh @ sh')"
  then have len: "length (take d i) = length sh" using in_range_length [OF i] assms(2) by simp
  have "in_range (take d i @ l # drop d i) (sh @ n # sh')" if "l < n" for l
    using i that by (simp add: in_range_append [OF len] in_range_split [of i sh sh', folded assms(2)] del: length_take)
  then show "t_at (sum_dim t d) i = sum_list (map (\<lambda>l. f (take d i @ l # drop d i)) [0..<n])"
    using tensD [OF assms(1)] by (auto simp: sum_dim_def n(2) intro!: arg_cong [where f = sum_list])
qed

lemma full_tensor_tens [simp]: "tens (full_tensor sh x) sh (\<lambda>_. x)"
  by (simp add: full_tensor_def tens_def)

lemma one_hot_tens:
  assumes t: "tens t sh (\<lambda>i. int (g i))" and g: "\<And>i. in_range i sh \<Longrightarrow> g i < n"
  shows "\<exists>h. one_hot t n = Inr h \<and> tens h (sh @ [n]) (\<lambda>i. if g (butlast i) = last i then 1 else 0)"
proof -
  have "list_all (\<lambda>i. 0 \<le> t_at t i \<and> t_at t i < int n) (all_indices sh)"
    using t g by (auto simp: list_all_iff in_all_indices tens_def)
  moreover have "t_shape t = sh" using t by (rule tens_shape)
  moreover have "t_at t (butlast i) = int (g (butlast i))" if "in_range i (sh @ [n])" for i
    using that t by (auto simp: tens_def in_range_snoc)
  ultimately show ?thesis by (auto simp: one_hot_def tens_def res_simps)
qed

text \<open>The two products of the expert layers: all experts on the same rows, and every expert on its own.\<close>

lemma matmul_shared_tens:
  assumes "tens a [x, y, 1, m, k] f" "tens b [1, e, k, n] g"
  shows "\<exists>c. matmul a b = Inr c \<and> tens c [x, y, e, m, n]
    (\<lambda>i. dot k (\<lambda>l. f [i ! 0, i ! 1, 0, i ! 3, l]) (\<lambda>l. g [0, i ! 2, l, i ! 4]))"
proof -
  have c: "common_shape [x, y, 1] [1, e] = Inr [x, y, e]"
    by (auto simp: common_shape_def pad_shape_def Let_def)
  show ?thesis
    using assms
    by (auto simp: matmul_def tens_def c [simplified] Let_def res_simps in_range_Cons own_index_def dot_def intro!: arg_cong [where f = sum_list])
qed

lemma matmul_each_tens:
  assumes "tens a [x, e, m, k] f" "tens b [1, e, k, n] g"
  shows "\<exists>c. matmul a b = Inr c \<and> tens c [x, e, m, n]
    (\<lambda>i. dot k (\<lambda>l. f [i ! 0, i ! 1, i ! 2, l]) (\<lambda>l. g [0, i ! 1, l, i ! 3]))"
proof -
  have c: "common_shape [x, e] [1, e] = Inr [x, e]"
    by (auto simp: common_shape_def pad_shape_def Let_def)
  show ?thesis
    using assms
    by (auto simp: matmul_def tens_def c [simplified] Let_def res_simps in_range_Cons own_index_def dot_def intro!: arg_cong [where f = sum_list])
qed


text \<open>The permutations the modules use.\<close>

lemma permute_known:
  "tens t [n0, n1, n2, n3] f \<Longrightarrow> tens (permute t [0, 2, 1, 3]) [n0, n2, n1, n3] (\<lambda>i. f [i ! 0, i ! 2, i ! 1, i ! 3])"
  "tens t [n0, n1, n2, n3] f \<Longrightarrow> tens (permute t [2, 0, 1, 3]) [n2, n0, n1, n3] (\<lambda>i. f [i ! 1, i ! 2, i ! 0, i ! 3])"
  "tens t [n0, n1, n2, n3, n4] f \<Longrightarrow> tens (permute t [0, 1, 3, 2, 4]) [n0, n1, n3, n2, n4] (\<lambda>i. f [i ! 0, i ! 1, i ! 3, i ! 2, i ! 4])"
  "tens t [n0, n1, n2, n3, n4] f \<Longrightarrow> tens (permute t [3, 0, 1, 2, 4]) [n3, n0, n1, n2, n4] (\<lambda>i. f [i ! 1, i ! 2, i ! 3, i ! 0, i ! 4])"
  "tens t [n0, n1, n2, n3, n4] f \<Longrightarrow> tens (permute t [3, 0, 2, 1, 4]) [n3, n0, n2, n1, n4] (\<lambda>i. f [i ! 1, i ! 3, i ! 2, i ! 0, i ! 4])"
  "tens t [n0, n1] f \<Longrightarrow> tens (permute t [1, 0]) [n1, n0] (\<lambda>i. f [i ! 1, i ! 0])"
  "tens t [n0, n1, n2] f \<Longrightarrow> tens (permute t [2, 0, 1]) [n2, n0, n1] (\<lambda>i. f [i ! 1, i ! 2, i ! 0])"
  by (auto simp: permute_def tens_def in_range_Cons upt_rec)

text \<open>Bounds of positions.\<close>

lemma mult_add_less:
  assumes "k < n" "j < (m :: nat)"
  shows "k * m + j < n * m" "j + k * m < n * m"
  using mult_le_mono1 [of "Suc k" n m] assms by simp_all

lemma mod_div_flat:
  "h * (k mod m) + h * (m * (k div m)) = k * (h :: nat)"
  "h * (m * (k div m)) + h * (k mod m) = k * (h :: nat)"
  by (metis add_mult_distrib2 mod_mult_div_eq mult.commute, metis add_mult_distrib2 mult_div_mod_eq mult.commute)

lemma member_le_sum:
  assumes "\<And>x. x \<in> set xs \<Longrightarrow> 0 \<le> f x" "y \<in> set xs"
  shows "f y \<le> sum_list (map (f :: 'a \<Rightarrow> rat) xs)"
  using assms
proof (induction xs)
  case (Cons a xs)
  have "0 \<le> sum_list (map f xs)" using Cons.prems(1) by (intro sum_list_nonneg) auto
  then show ?case using Cons by (auto intro: add_increasing)
qed simp

text \<open>A bias of each expert.\<close>

lemma bias_tens:
  assumes "tens a [x, y, z, e, n] f" "tens b [e, n] g"
  shows "\<exists>c. tensor_op h a b = Inr c \<and> tens c [x, y, z, e, n] (\<lambda>i. h (f i) (g [i ! 3, i ! 4]))"
proof -
  obtain c where c: "tensor_op h a b = Inr c" "tens c [x, y, z, e, n] (\<lambda>i. h (f i) (g (drop 3 i)))"
    using tensor_op_tens [of a "[x, y, z]" "[e, n]" f b g h] assms by (auto simp: numeral_3_eq_3)
  have "tens c [x, y, z, e, n] (\<lambda>i. h (f i) (g [i ! 3, i ! 4]))"
    by (rule tens_cong [OF c(2)]) (auto simp: in_range_Cons)
  then show ?thesis using c(1) by blast
qed

end
