(* ===== verification/SparseMlp.thy ===== *)
theory SparseMlp
  imports TensorOps
begin

text \<open>
  The mixture-of-experts modules of \<open>tt_torch/sparse_mlp.py\<close>: \<open>SparseMLP\<close>, which masks the experts a token
  does not use, \<open>A2aSparseMLP\<close>, which also sends the tokens to the devices of their experts, and
  \<open>A2aSparseStackedMlp\<close>, the same with the gate and up projections next to each other instead of
  interleaved.

  The router, the sigmoid and, on the CPU, the expert module of the model are arguments; on an XLA device
  the operators are custom calls, collected in \<open>moe_xla\<close>.
\<close>

section \<open>Modules\<close>

datatype activation = GptOss | Deepseek

record moe_experts =
  gate_up_proj :: "rat tensor"
  gate_up_proj_bias :: "rat tensor"
  down_proj :: "rat tensor"
  down_proj_bias :: "rat tensor"

record moe_mlp =
  mm_experts :: moe_experts
  mm_num_experts :: nat
  mm_top_k :: nat
  mm_inter :: nat
  mm_alpha :: rat
  mm_limit :: rat
  mm_activation :: activation
  mm_dispatch_devices :: nat
  mm_cluster_axis :: int
  mm_mapping :: "int tensor"
  mm_fused :: bool
  mm_dense :: bool

text \<open>What a router returns: scores and indices, or logits, scores and indices.\<close>

datatype router_out = RouterPair "rat tensor" "int tensor" | RouterTriple "rat tensor" "rat tensor" "int tensor"

record moe_xla =
  x_matmul :: "moe_call \<Rightarrow> rat tensor"
  x_dispatch :: "moe_call \<Rightarrow> rat tensor \<times> int tensor"
  x_remap :: "moe_call \<Rightarrow> rat tensor \<times> rat tensor"
  x_combine :: "moe_call \<Rightarrow> rat tensor"

text \<open>The constructor of \<open>A2aSparseMLP\<close>; \<open>alpha\<close> and \<open>limit\<close> are attributes the experts may lack.\<close>

definition new_a2a_mlp ::
  "moe_experts \<Rightarrow> rat option \<Rightarrow> rat option \<Rightarrow> nat \<Rightarrow> nat \<Rightarrow> nat \<Rightarrow> int \<Rightarrow> activation \<Rightarrow> nat option \<Rightarrow> moe_mlp res" where
  "new_a2a_mlp ex alpha limit num_experts top_k num_devices axis act dispatch_devices =
     rbind (build_expert_mapping num_experts num_devices None) (\<lambda>mapping.
     Inr \<lparr> mm_experts = ex, mm_num_experts = num_experts, mm_top_k = top_k,
           mm_inter = last (t_shape (gate_up_proj ex)) div 2,
           mm_alpha = (case alpha of None \<Rightarrow> 1702 / 1000 | Some a \<Rightarrow> a),
           mm_limit = (case limit of None \<Rightarrow> 7 | Some l \<Rightarrow> l),
           mm_activation = act,
           mm_dispatch_devices = (case dispatch_devices of None \<Rightarrow> num_devices | Some d \<Rightarrow> d),
           mm_cluster_axis = axis, mm_mapping = mapping, mm_fused = True, mm_dense = False \<rparr>)"

section \<open>Activation\<close>

definition clamp_to :: "rat \<Rightarrow> rat \<Rightarrow> rat \<Rightarrow> rat" where
  "clamp_to lo hi x = min (max x lo) hi"

definition gpt_oss :: "(rat \<Rightarrow> rat) \<Rightarrow> rat \<Rightarrow> rat \<Rightarrow> rat \<Rightarrow> rat \<Rightarrow> rat" where
  "gpt_oss sigmoid alpha limit gate up =
     (let gate = min gate limit; up = clamp_to (- limit) limit up; glu = gate * sigmoid (gate * alpha)
      in (up + 1) * glu)"

definition act_entry :: "(rat \<Rightarrow> rat) \<Rightarrow> moe_mlp \<Rightarrow> rat \<Rightarrow> rat \<Rightarrow> rat" where
  "act_entry sigmoid mlp gate up =
     (case mm_activation mlp of
        Deepseek \<Rightarrow> gate * sigmoid gate * up
      | GptOss \<Rightarrow> gpt_oss sigmoid (mm_alpha mlp) (mm_limit mlp) gate up)"

definition activate :: "(rat \<Rightarrow> rat) \<Rightarrow> moe_mlp \<Rightarrow> rat tensor \<Rightarrow> rat tensor res" where
  "activate sigmoid mlp gate_up =
     tensor_op (act_entry sigmoid mlp) (every_second gate_up 0) (every_second gate_up 1)"

section \<open>SparseMLP\<close>

definition sparse_mlp_forward ::
  "(rat \<Rightarrow> rat) \<Rightarrow> moe_xla \<Rightarrow> device \<Rightarrow> (rat tensor \<Rightarrow> (rat tensor \<times> rat tensor \<times> int tensor) res) \<Rightarrow> moe_mlp
     \<Rightarrow> rat tensor \<Rightarrow> (rat tensor \<times> rat tensor) res" where
  "sparse_mlp_forward sigmoid xla dev router mlp hidden =
     (let ex = mm_experts mlp; e = mm_num_experts mlp; nk = mm_top_k mlp; ni = mm_inter mlp
      in case t_shape hidden of
        [b, s, h] \<Rightarrow>
          rbind (router hidden) (\<lambda>(_, scores, indices).
          rbind (view indices [b, s, 1, nk]) (\<lambda>topk.
          rbind (scatter_last (full_tensor [b, s, 1, e] 0) topk (full_tensor (t_shape topk) 1)) (\<lambda>sparsity.
          rbind (view hidden [b, s, 1, h]) (\<lambda>hidden_4d.
          rbind (sparse_matmul (x_matmul xla) dev hidden_4d (unsqueeze (gate_up_proj ex) 0) sparsity (Some 0) False True)
            (\<lambda>gate_up.
          rbind (view gate_up [b, s, e, ni * 2]) (\<lambda>gate_up.
          rbind (tensor_op (+) gate_up (gate_up_proj_bias ex)) (\<lambda>gate_up.
          rbind (activate sigmoid (mlp\<lparr>mm_activation := GptOss\<rparr>) gate_up) (\<lambda>activated.
          rbind (view activated [b * s, e, 1, ni]) (\<lambda>activated.
          rbind (view sparsity [1, 1, b * s, e]) (\<lambda>sparsity_down.
          rbind (view (down_proj ex) [1, e, ni, h]) (\<lambda>down.
          rbind (sparse_matmul (x_matmul xla) dev activated down sparsity_down (Some 0) True False) (\<lambda>down_out.
          rbind (tensor_op (+) (squeeze down_out 2) (down_proj_bias ex)) (\<lambda>down_out.
          rbind (view scores [b * s, nk]) (\<lambda>scores_flat.
          rbind (view indices [b * s, nk]) (\<lambda>indices_flat.
          rbind (scatter_last (full_tensor [b * s, e] 0) indices_flat scores_flat) (\<lambda>scattered.
          rbind (tensor_op (*) down_out (unsqueeze scattered 2)) (\<lambda>weighted.
          rbind (view (sum_dim weighted 1) [b, s, h]) (\<lambda>out.
          Inr (out, scores)))))))))))))))))))
      | _ \<Rightarrow> Inl ValueError)"

section \<open>Blocks of tokens\<close>

text \<open>The tokens are worked on in blocks of 32, cut from the positions if they are divisible by 32 and
  otherwise from the rows. A plan says which, and how many blocks there are in each direction.\<close>

definition split_plan :: "nat \<Rightarrow> nat \<Rightarrow> (bool \<times> nat \<times> nat) res" where
  "split_plan bd s =
     (let split_seq = s mod 32 = 0 \<and> 32 \<le> s; split_bd = bd mod 32 = 0 \<and> 32 \<le> bd
      in rbind (rassert (split_seq \<or> split_bd)) (\<lambda>_.
         Inr (if split_seq then (True, bd, s div 32) else (False, bd div 32, s))))"

definition to_blocks :: "bool \<times> nat \<times> nat \<Rightarrow> nat \<Rightarrow> nat \<Rightarrow> nat \<Rightarrow> 'a tensor \<Rightarrow> 'a tensor res" where
  "to_blocks plan bd s h dispatched =
     (let (split_seq, _, dim_b) = plan
      in if split_seq then view dispatched [bd, s div 32, 32, h]
         else if dim_b = 1 then view dispatched [bd div 32, 1, 32, h]
         else rbind (view dispatched [bd div 32, 32, s, h]) (\<lambda>t. Inr (permute t [0, 2, 1, 3])))"

definition from_blocks ::
  "bool \<times> nat \<times> nat \<Rightarrow> nat \<Rightarrow> nat \<Rightarrow> nat \<Rightarrow> nat \<Rightarrow> rat tensor \<Rightarrow> rat tensor \<Rightarrow> rat tensor res" where
  "from_blocks plan bd s e h bias down_out =
     (let (split_seq, dim_a, dim_b) = plan
      in rbind (view down_out [dim_a, dim_b, e, 32, h]) (\<lambda>t.
         rbind (tensor_op (+) (permute t [0, 1, 3, 2, 4]) bias) (\<lambda>t.
         if split_seq then view (permute t [3, 0, 1, 2, 4]) [e, bd, s, h]
         else if dim_b = 1 then
           rbind (view (permute (squeeze t 1) [2, 0, 1, 3]) [e, bd, h]) (\<lambda>t. Inr (unsqueeze t 1))
         else view (permute t [3, 0, 2, 1, 4]) [e, bd, s, h])))"

section \<open>The experts on blocks\<close>

definition activate_blocks ::
  "(rat \<Rightarrow> rat) \<Rightarrow> moe_mlp \<Rightarrow> bool \<times> nat \<times> nat \<Rightarrow> rat tensor \<Rightarrow> rat tensor res" where
  "activate_blocks sigmoid mlp plan gate_up =
     (let (_, dim_a, dim_b) = plan
      in rbind (tensor_op (+) (permute gate_up [0, 1, 3, 2, 4]) (gate_up_proj_bias (mm_experts mlp))) (\<lambda>gate_up.
         rbind (activate sigmoid mlp gate_up) (\<lambda>activated.
         view (permute activated [0, 1, 3, 2, 4]) [dim_a * dim_b, mm_num_experts mlp, 32, mm_inter mlp])))"

text \<open>All experts on all tokens.\<close>

definition dense_experts ::
  "(rat \<Rightarrow> rat) \<Rightarrow> moe_mlp \<Rightarrow> bool \<times> nat \<times> nat \<Rightarrow> nat \<Rightarrow> nat \<Rightarrow> nat \<Rightarrow> rat tensor \<Rightarrow> rat tensor res" where
  "dense_experts sigmoid mlp plan bd s h dispatched =
     (let ex = mm_experts mlp; e = mm_num_experts mlp
      in rbind (view_rest (down_proj ex) [1, e, mm_inter mlp]) (\<lambda>down.
         rbind (to_blocks plan bd s h dispatched) (\<lambda>hidden_4d.
         rbind (matmul (unsqueeze hidden_4d 2) (unsqueeze (gate_up_proj ex) 0)) (\<lambda>gate_up.
         rbind (activate_blocks sigmoid mlp plan gate_up) (\<lambda>activated.
         rbind (matmul activated down) (\<lambda>down_out.
         from_blocks plan bd s e h (down_proj_bias ex) down_out))))))"

text \<open>The experts a mask marks in each block.\<close>

definition sparse_experts ::
  "(rat \<Rightarrow> rat) \<Rightarrow> moe_xla \<Rightarrow> device \<Rightarrow> moe_mlp \<Rightarrow> bool \<times> nat \<times> nat \<Rightarrow> nat \<Rightarrow> nat \<Rightarrow> nat \<Rightarrow> rat tensor
     \<Rightarrow> rat tensor \<Rightarrow> rat tensor res" where
  "sparse_experts sigmoid xla dev mlp plan bd s h sparsity dispatched =
     (let ex = mm_experts mlp; e = mm_num_experts mlp; (_, dim_a, dim_b) = plan
      in rbind (view_rest (down_proj ex) [1, e, mm_inter mlp]) (\<lambda>down.
         rbind (to_blocks plan bd s h dispatched) (\<lambda>hidden_4d.
         rbind (sparse_matmul (x_matmul xla) dev hidden_4d (unsqueeze (gate_up_proj ex) 0) sparsity (Some 0) False True)
           (\<lambda>gate_up.
         rbind (activate_blocks sigmoid mlp plan (squeeze gate_up 2)) (\<lambda>activated.
         rbind (view sparsity [1, 1, dim_a * dim_b, e]) (\<lambda>sparsity_down.
         rbind (sparse_matmul (x_matmul xla) dev activated down sparsity_down (Some 0) True False) (\<lambda>down_out.
         from_blocks plan bd s e h (down_proj_bias ex) down_out)))))))"

text \<open>The mask of the fused path is the second output of the remap operator, seen as one entry per block.\<close>

definition fused_sparsity ::
  "moe_xla \<Rightarrow> device \<Rightarrow> moe_mlp \<Rightarrow> bool \<times> nat \<times> nat \<Rightarrow> rat tensor \<Rightarrow> int tensor \<Rightarrow> rat tensor res" where
  "fused_sparsity xla dev mlp plan logits meta =
     (let (_, dim_a, dim_b) = plan
      in rbind (moe_expert_token_remap (x_remap xla) dev (unsqueeze (repeat_first logits (mm_dispatch_devices mlp)) 0)
                 (mm_mapping mlp) meta 32) (\<lambda>(_, sparsity_remap).
         view sparsity_remap [dim_a, dim_b, 1, mm_num_experts mlp]))"

definition first_of :: "'a tensor \<Rightarrow> 'a tensor res" where
  "first_of t =
     (case t_shape t of
        Suc _ # sh \<Rightarrow> Inr \<lparr> t_shape = sh, t_at = (\<lambda>i. t_at t (0 # i)) \<rparr>
      | _ \<Rightarrow> Inl IndexError)"

text \<open>The manual mask: the chosen experts of every token, summed over its block.\<close>

definition manual_sparsity :: "moe_mlp \<Rightarrow> bool \<times> nat \<times> nat \<Rightarrow> nat \<Rightarrow> nat \<Rightarrow> int tensor \<Rightarrow> rat tensor res" where
  "manual_sparsity mlp plan bd s meta =
     (let e = mm_num_experts mlp; nk = mm_top_k mlp; (split_seq, _, _) = plan;
          four = (if split_seq then [bd, s div 32, 32, nk] else [bd div 32, 32, s, nk]);
          rows = (if split_seq then [bd, s div 32 * 32] else [bd div 32 * 32, s]);
          spread = (if split_seq then [bd, s div 32, 32, e] else [bd div 32, 32, s, e])
      in rbind (first_of meta) (\<lambda>meta0.
         rbind (view meta0 four) (\<lambda>meta_full.
         rbind (view meta_full (rows @ [nk])) (\<lambda>meta_flat.
         rbind (scatter_last (full_tensor (rows @ [1, e]) 0) (unsqueeze meta_flat 2)
                  (full_tensor (t_shape (unsqueeze meta_flat 2)) 1)) (\<lambda>flat_mask.
         rbind (view flat_mask spread) (\<lambda>mask.
         Inr (unsqueeze (tensor_map (\<lambda>x. min x 1) (sum_dim mask (if split_seq then 2 else 1))) 2)))))))"

section \<open>A2aSparseMLP\<close>

definition expert_outputs ::
  "(rat \<Rightarrow> rat) \<Rightarrow> moe_xla \<Rightarrow> device \<Rightarrow> moe_mlp \<Rightarrow> bool \<times> nat \<times> nat \<Rightarrow> nat \<Rightarrow> nat \<Rightarrow> nat \<Rightarrow> rat tensor
     \<Rightarrow> int tensor \<Rightarrow> rat tensor \<Rightarrow> rat tensor res" where
  "expert_outputs sigmoid xla dev mlp plan bd s h logits meta dispatched =
     (if mm_dense mlp then dense_experts sigmoid mlp plan bd s h dispatched
      else rbind (if mm_fused mlp then fused_sparsity xla dev mlp plan logits meta
                  else manual_sparsity mlp plan bd s meta) (\<lambda>sparsity.
           sparse_experts sigmoid xla dev mlp plan bd s h sparsity dispatched))"

text \<open>The weights of the chosen experts, gathered with a one-hot product.\<close>

definition gathered_weights :: "rat tensor \<Rightarrow> int tensor \<Rightarrow> nat \<Rightarrow> rat tensor res" where
  "gathered_weights scores indices e =
     rbind (one_hot indices e) (\<lambda>hot.
     case (t_shape scores, t_shape hot) of
       ([t, e1], [t', nk, e2]) \<Rightarrow>
         rbind (rguard (t = t' \<and> e1 = e2) RuntimeError) (\<lambda>_.
         Inr \<lparr> t_shape = [t, nk], t_at = (\<lambda>i. dot e1 (\<lambda>l. t_at scores [i ! 0, l]) (\<lambda>l. t_at hot [i ! 0, i ! 1, l])) \<rparr>)
     | _ \<Rightarrow> Inl RuntimeError)"

definition weighted_sum :: "nat \<Rightarrow> nat \<Rightarrow> nat \<Rightarrow> rat tensor \<Rightarrow> rat tensor \<Rightarrow> rat tensor res" where
  "weighted_sum b s nk weights combined =
     (if s = 1 then
        rbind (view weights [b, nk]) (\<lambda>w.
        rbind (tensor_op (*) (squeeze combined 1) (unsqueeze (permute w [1, 0]) 2)) (\<lambda>p.
        Inr (unsqueeze (sum_dim p 0) 1)))
      else
        rbind (view weights [b, s, nk]) (\<lambda>w.
        rbind (tensor_op (*) combined (unsqueeze (permute w [2, 0, 1]) 3)) (\<lambda>p.
        Inr (sum_dim p 0))))"

definition a2a_forward ::
  "(rat \<Rightarrow> rat) \<Rightarrow> moe_xla \<Rightarrow> device \<Rightarrow> (rat tensor \<Rightarrow> int tensor \<Rightarrow> rat tensor \<Rightarrow> rat tensor res)
     \<Rightarrow> (rat tensor \<Rightarrow> router_out res) \<Rightarrow> moe_mlp \<Rightarrow> rat tensor \<Rightarrow> (rat tensor \<times> rat tensor) res" where
  "a2a_forward sigmoid xla dev golden router mlp hidden =
     (let nk = mm_top_k mlp; nd = mm_dispatch_devices mlp
      in case t_shape hidden of
        [b, s, h] \<Rightarrow>
          rbind (view hidden [b * s, h]) (\<lambda>hidden_flat.
          rbind (router hidden_flat) (\<lambda>out.
          case out of RouterPair _ _ \<Rightarrow> Inl ValueError | RouterTriple logits scores indices \<Rightarrow>
          rbind (view_rest logits [b, s]) (\<lambda>logits.
          rbind (view indices [b, s, nk]) (\<lambda>indices.
          if dev = CPU then
            rbind (view indices [b * s, nk]) (\<lambda>ix.
            rbind (golden hidden_flat ix scores) (\<lambda>routed.
            rbind (view routed [b, s, h]) (\<lambda>routed. Inr (routed, scores))))
          else
            rbind (view hidden [b, 1, s, h]) (\<lambda>x.
            rbind (view indices [b, 1, s, nk]) (\<lambda>chosen.
            rbind (all_to_all_dispatch (x_dispatch xla) dev x chosen (mm_mapping mlp) nd (mm_cluster_axis mlp))
              (\<lambda>(dispatched, meta).
            let bd = t_shape dispatched ! 1
            in rbind (split_plan bd s) (\<lambda>plan.
            rbind (expert_outputs sigmoid xla dev mlp plan bd s h logits meta dispatched) (\<lambda>down_out.
            rbind (all_to_all_combine (x_combine xla) dev down_out meta (mm_mapping mlp) nd (mm_cluster_axis mlp) nk
                     (if snd (snd plan) = 1 \<and> \<not> fst plan then 2 else 1)) (\<lambda>combined.
            rbind (view indices [b * s, nk]) (\<lambda>ix.
            rbind (gathered_weights scores ix (mm_num_experts mlp)) (\<lambda>weights.
            rbind (weighted_sum b s nk weights combined) (\<lambda>out.
            Inr (out, scores))))))))))))))
      | _ \<Rightarrow> Inl ValueError)"

end
