(* ===== verification/MoeOpsProps.thy ===== *)
theory MoeOpsProps
  imports MoeOps
begin

text \<open>
  The properties of the mixture-of-experts operations: skipping inactive experts changes no entry
  of the product, dispatching and combining gives every token the outputs of its experts, the
  remapped routing and its sparsity are those of the tokens, and every expert has one device.
\<close>

section \<open>Sparse matrix multiplication\<close>

lemma zeros_sel: "t_shape (zeros sh) = sh" "t_at (zeros sh) i = 0"
  by (simp_all add: zeros_def)

lemma expert_loop_Suc:
  "expert_loop (Suc k) on pos val sh =
     (if on k then assign (expert_loop k on pos val sh) (pos k) (val k)
      else expert_loop k on pos val sh)"
  by (simp add: expert_loop_def)

lemma expert_loop_shape [simp]: "t_shape (expert_loop k on pos val sh) = sh"
  by (induction k) (simp_all add: expert_loop_Suc assign_def, simp add: expert_loop_def zeros_def)

text \<open>Every entry is written by at most one expert.\<close>

lemma expert_loop_at:
  assumes "e < n" "pos e i" "\<And>e'. e' < n \<Longrightarrow> pos e' i \<Longrightarrow> e' = e"
  shows "t_at (expert_loop n on pos val sh) i = (if on e then val e i else 0)"
proof -
  have "t_at (expert_loop k on pos val sh) i = (if e < k \<and> on e then val e i else 0)" if "k \<le> n" for k
    using that
  proof (induction k)
    case 0
    then show ?case by (simp add: expert_loop_def zeros_def)
  next
    case (Suc k)
    have k: "k < n" using Suc.prems by simp
    have p: "pos k i \<longleftrightarrow> k = e" using assms(2) assms(3) [OF k] by blast
    have IH: "t_at (expert_loop k on pos val sh) i = (if e < k \<and> on e then val e i else 0)"
      using Suc by simp
    show ?case
    proof (cases "k = e")
      case True
      have "t_at (expert_loop e on pos val sh) i = 0" using IH True by simp
      then show ?thesis using True assms(2) by (simp add: expert_loop_Suc assign_def)
    next
      case False
      then show ?thesis using p IH by (simp add: expert_loop_Suc assign_def less_Suc_eq)
    qed
  qed
  from this [of n] show ?thesis using assms(1) by simp
qed

text \<open>C32. Skipping inactive experts loses nothing. With both operands sparse the product of an expert is
  the dense one where its sparsity is positive and zero elsewhere; in the other two modes every entry
  is the dense product times the sparsity of its token and expert, also for the experts that are
  never computed. The output has the shape the fake kernel announces.\<close>

definition dense :: "rat tensor \<Rightarrow> rat tensor \<Rightarrow> nat list \<Rightarrow> nat \<Rightarrow> nat \<Rightarrow> nat \<Rightarrow> rat" where
  "dense a b pre e k n = dot k (\<lambda>l. t_at a (pre @ [l])) (\<lambda>l. t_at b [0, e, l, n])"

theorem sparse_matmul_skips_nothing:
  assumes "sparse_matmul xla CPU a b sp nnz a_sparse b_sparse = Inr out"
    and "t_shape a = [a0, a1, m, k]" "t_shape b = [1, ne, k, n]"
    and "a_sparse \<Longrightarrow> a1 = ne" "a_sparse \<and> b_sparse \<Longrightarrow> a0 = 1"
  shows "rbind (sparse_matmul_fake a b a_sparse b_sparse) (\<lambda>t. Inr (t_shape t)) = Inr (t_shape out)
    \<and> (\<forall>x < a0. \<forall>y < a1. \<forall>e < ne. \<forall>i < m. \<forall>j < n.
         (a_sparse \<and> b_sparse \<longrightarrow> t_at out [0, e, i, j] =
            (if t_at sp [0, 0, 0, e] > 0 then dense a b [0, e, i] e k j else 0))
         \<and> (\<not> a_sparse \<and> b_sparse \<longrightarrow> t_at out [x, y, 0, e, i, j] =
            dense a b [x, y, i] e k j * t_at sp [x, y, 0, e])
         \<and> (a_sparse \<and> \<not> b_sparse \<longrightarrow> t_at out [x, e, i, j] =
            dense a b [x, e, i] e k j * t_at sp [0, 0, x, e]))"
proof -
  note run = assms(1) [unfolded sparse_matmul_def device.case sparse_matmul_cpu_def assms(2,3)
      prod.case list.case]
  consider (both) "a_sparse" "b_sparse" | (b) "\<not> a_sparse" "b_sparse" | (a) "a_sparse" "\<not> b_sparse"
    using run by fastforce
  then show ?thesis
  proof cases
    case both
    obtain on pos val where o: "out = expert_loop ne on pos val [1, ne, m, n]"
      "on = (\<lambda>e. t_at sp [0, 0, 0, e] > 0)" "pos = (\<lambda>e i. i ! 0 = 0 \<and> i ! 1 = e)"
      "val = (\<lambda>e i. dot k (\<lambda>l. t_at a [0, e, i ! 2, l]) (\<lambda>l. t_at b [0, e, l, i ! 3]))"
      using run both by (auto simp: res_simps Let_def)
    have "t_at out [0, e, i, j] =
        (if t_at sp [0, 0, 0, e] > 0 then dense a b [0, e, i] e k j else 0)" if "e < ne" for e i j
      unfolding o(1) by (subst expert_loop_at [of e]) (use that in \<open>simp_all add: o dense_def numeral_eq_Suc\<close>)
    then show ?thesis using both assms
      by (simp add: o(1) sparse_matmul_fake_def sparse_matmul_shape_def zeros_def)
  next
    case b
    obtain on pos val where o: "out = expert_loop ne on pos val [a0, a1, 1, ne, m, n]"
      "on = (\<lambda>e. \<exists>x < a0. \<exists>y < a1. t_at sp [x, y, 0, e] \<noteq> 0)" "pos = (\<lambda>e i. i ! 2 = 0 \<and> i ! 3 = e)"
      "val = (\<lambda>e i. dot k (\<lambda>l. t_at a [i ! 0, i ! 1, i ! 4, l]) (\<lambda>l. t_at b [0, e, l, i ! 5])
                         * t_at sp [i ! 0, i ! 1, 0, e])"
      using run b by (auto simp: res_simps Let_def)
    have "t_at out [x, y, 0, e, i, j] = dense a b [x, y, i] e k j * t_at sp [x, y, 0, e]"
      if "e < ne" "x < a0" "y < a1" for e x y i j
      unfolding o(1) by (subst expert_loop_at [of e]) (use that in \<open>auto simp: o dense_def numeral_eq_Suc\<close>)
    then show ?thesis using b assms
      by (simp add: o(1) sparse_matmul_fake_def sparse_matmul_shape_def zeros_def)
  next
    case a
    obtain on pos val where o: "out = expert_loop ne on pos val [a0, ne, m, n]"
      "on = (\<lambda>e. \<exists>x < a0. t_at sp [0, 0, x, e] \<noteq> 0)" "pos = (\<lambda>e i. i ! 1 = e)"
      "val = (\<lambda>e i. dot k (\<lambda>l. t_at a [i ! 0, e, i ! 2, l]) (\<lambda>l. t_at b [0, e, l, i ! 3])
                         * t_at sp [0, 0, i ! 0, e])"
      using run a by (auto simp: res_simps Let_def)
    have "t_at out [x, e, i, j] = dense a b [x, e, i] e k j * t_at sp [0, 0, x, e]"
      if "e < ne" "x < a0" for e x i j
      unfolding o(1) by (subst expert_loop_at [of e]) (use that in \<open>auto simp: o dense_def numeral_eq_Suc\<close>)
    then show ?thesis using a assms
      by (simp add: o(1) sparse_matmul_fake_def sparse_matmul_shape_def zeros_def)
  qed
qed

text \<open>Two tokens with two experts; only the second token uses the second expert.\<close>

definition ex_a :: "rat tensor" where
  "ex_a = \<lparr> t_shape = [1, 1, 1, 1], t_at = (\<lambda>_. 3) \<rparr>"

definition ex_b :: "rat tensor" where
  "ex_b = \<lparr> t_shape = [1, 2, 1, 1], t_at = (\<lambda>i. if i ! 1 = 0 then 5 else 7) \<rparr>"

definition ex_sp :: "rat tensor" where
  "ex_sp = \<lparr> t_shape = [1, 1, 1, 2], t_at = (\<lambda>i. if i ! 3 = 0 then 0 else 1) \<rparr>"

theorem sparse_matmul_skips_nothing_witness:
  "\<exists>out. sparse_matmul (\<lambda>_. ex_a) CPU ex_a ex_b ex_sp None False True = Inr out
     \<and> t_at out [0, 0, 0, 0, 0, 0] = 0 \<and> t_at out [0, 0, 0, 1, 0, 0] = 21"
proof -
  obtain out where out: "sparse_matmul (\<lambda>_. ex_a) CPU ex_a ex_b ex_sp None False True = Inr out"
    by (simp add: sparse_matmul_def sparse_matmul_cpu_def ex_a_def ex_b_def ex_sp_def Let_def in_range_def)
  have s: "t_shape ex_a = [1, 1, 1, 1]" "t_shape ex_b = [1, 2, 1, 1]" by (simp_all add: ex_a_def ex_b_def)
  have "\<forall>x < 1. \<forall>y < 1. \<forall>e < 2. \<forall>i < 1. \<forall>j < 1. t_at out [x, y, 0, e, i, j] =
      dense ex_a ex_b [x, y, i] e 1 j * t_at ex_sp [x, y, 0, e]"
    using sparse_matmul_skips_nothing [OF out s] by simp
  then show ?thesis using out
    by (simp add: dense_def dot_def ex_a_def ex_b_def ex_sp_def numeral_eq_Suc All_less_Suc)
qed

section \<open>Dispatch and combine\<close>

definition combine_step ::
  "nat \<Rightarrow> (nat \<Rightarrow> nat \<Rightarrow> nat list) \<Rightarrow> int tensor \<Rightarrow> rat tensor \<Rightarrow> nat \<times> nat \<times> nat \<Rightarrow> rat tensor \<Rightarrow> rat tensor" where
  "combine_step ne pos meta x = (\<lambda>(b, s, k) out.
        let expert = t_at meta [0, b, s, k]
        in if 0 \<le> expert \<and> expert < int ne
           then assign out (\<lambda>i. take 3 i = k # pos b s)
                  (\<lambda>i. t_at x (nat expert # pos b s @ drop 3 i))
           else out)"

lemma combine_fold:
  assumes "\<And>b s b' s'. length (pos b s) = 2 \<and> (pos b s = pos b' s' \<longrightarrow> b = b' \<and> s = s')"
  shows "t_shape (fold (combine_step ne pos meta x) L out) = t_shape out
    \<and> t_at (fold (combine_step ne pos meta x) L out) (k # pos b s @ [j]) =
       (let expert = t_at meta [0, b, s, k]
        in if (b, s, k) \<in> set L \<and> 0 \<le> expert \<and> expert < int ne
           then t_at x (nat expert # pos b s @ [j]) else t_at out (k # pos b s @ [j]))"
proof (induction L arbitrary: out)
  case Nil
  then show ?case by (simp add: Let_def)
next
  case (Cons t L)
  obtain b' s' k' where t: "t = (b', s', k')" by (cases t)
  have two: "length (pos b s) = 2" for b s using assms by blast
  have inj: "pos b s = pos b' s' \<longleftrightarrow> b = b' \<and> s = s'" for b s b' s' using assms by auto
  have st: "t_shape (combine_step ne pos meta x t out) = t_shape out"
    "t_at (combine_step ne pos meta x t out) (k # pos b s @ [j]) =
       (let expert = t_at meta [0, b, s, k]
        in if (b, s, k) = t \<and> 0 \<le> expert \<and> expert < int ne
           then t_at x (nat expert # pos b s @ [j]) else t_at out (k # pos b s @ [j]))"
    by (auto simp: combine_step_def t Let_def assign_def inj two)
  show ?case using Cons.IH [of "combine_step ne pos meta x t out"] st by (auto simp: Let_def)
qed

text \<open>Dispatching, computing every expert on every dispatched token and combining gives back, for
  each token and each of its choices, the output of the chosen expert on that token, and zero where
  the choice is not an expert of this device.\<close>

theorem dispatch_combine_roundtrip:
  assumes "t_shape x = [nb, 1, ns, h]" and "t_shape indices = [nb, 1, ns, nk]" and "0 < n_dev"
    and "all_to_all_dispatch xlaD CPU x indices mapping n_dev axis = Inr (disp, meta)"
    and "t_shape y = [ne, nb * n_dev, ns, h]"
    and "\<And>e b s j. t_at y [e, b, s, j] = f e (\<lambda>j. t_at disp [0, b, s, j]) j"
  shows "\<exists>out. all_to_all_combine xlaC CPU y meta mapping n_dev axis nk 1 = Inr out
    \<and> t_shape out = [nk, nb, ns, h]
    \<and> (\<forall>k < nk. \<forall>b < nb. \<forall>s < ns. \<forall>j < h. t_at out [k, b, s, j] =
         (let e = t_at indices [b, 0, s, k]
          in if 0 \<le> e \<and> e < int ne then f (nat e) (\<lambda>j. t_at x [b, 0, s, j]) j else 0))"
proof -
  have d: "disp = repeated n_dev nb x" "meta = repeated n_dev nb indices"
    using assms(1,2,4) by (simp_all add: all_to_all_dispatch_def)
  have dx: "t_at disp [0, b, s, j] = t_at x [b, 0, s, j]"
    and dm: "t_at meta [0, b, s, k] = t_at indices [b, 0, s, k]" if "b < nb" for b s j k
    using that assms(1,2) by (simp_all add: d repeated_def)
  have sm: "t_shape meta = [1, if n_dev > 1 then nb * n_dev else nb, ns, nk]"
    using assms(2) by (simp add: d repeated_def)
  have nbd: "nb * n_dev div n_dev = nb" using assms(3) by simp
  have rng: "in_range [0, nb - 1, ns - 1, nk - 1] (t_shape meta)"
    if "0 < nb" "0 < ns" "0 < nk"
  proof -
    have "nb * 1 \<le> nb * n_dev" using assms(3) by (intro mult_le_mono2) simp
    then have "nb - Suc 0 < nb * n_dev" using that by (cases nb) auto
    then show ?thesis using that sm by (auto simp: in_range_def)
  qed
  define L where "L = [(b, s, k). b \<leftarrow> [0..<nb], s \<leftarrow> [0..<ns], k \<leftarrow> [0..<nk]]"
  define out where "out = fold (combine_step ne (\<lambda>b s. [b, s]) meta y) L (zeros [nk, nb, ns, h])"
  have run: "all_to_all_combine xlaC CPU y meta mapping n_dev axis nk 1 = Inr out"
    using assms(3,5) nbd rng
    by (auto simp: all_to_all_combine_def combine_loop_def combine_step_def out_def L_def Let_def)
  have mem: "(b, s, k) \<in> set L" if "b < nb" "s < ns" "k < nk" for b s k
    using that by (auto simp: L_def image_iff)
  have fold: "t_shape out = [nk, nb, ns, h] \<and> t_at out [k, b, s, j] =
       (let expert = t_at meta [0, b, s, k]
        in if (b, s, k) \<in> set L \<and> 0 \<le> expert \<and> expert < int ne
           then t_at y [nat expert, b, s, j] else 0)" for k b s j
    using combine_fold [of "\<lambda>b s. [b, s]" ne meta y L "zeros [nk, nb, ns, h]" k b s j]
    by (simp add: out_def zeros_sel Let_def)
  have "t_at out [k, b, s, j] = (let e = t_at indices [b, 0, s, k]
      in if 0 \<le> e \<and> e < int ne then f (nat e) (\<lambda>j. t_at x [b, 0, s, j]) j else 0)"
    if a: "k < nk" "b < nb" "s < ns" for k b s j
    using fold [of k b s j] mem [OF a(2,3,1)] dm [OF a(2)] dx [OF a(2)] assms(6) by (simp add: Let_def)
  then show ?thesis using run fold by auto
qed

definition ex_x :: "rat tensor" where
  "ex_x = \<lparr> t_shape = [1, 1, 1, 1], t_at = (\<lambda>_. 3) \<rparr>"

definition ex_choice :: "int tensor" where
  "ex_choice = \<lparr> t_shape = [1, 1, 1, 2], t_at = (\<lambda>i. if i ! 3 = 0 then 1 else 0) \<rparr>"

theorem dispatch_combine_roundtrip_witness:
  "\<exists>out. all_to_all_combine (\<lambda>_. ex_x) CPU \<lparr> t_shape = [2, 2, 1, 1], t_at = (\<lambda>i. of_nat (i ! 0) + 3) \<rparr>
      (repeated 2 1 ex_choice) ex_choice 2 0 2 1 = Inr out \<and> t_at out [0, 0, 0, 0] = 4"
proof -
  let ?y = "\<lparr> t_shape = [2, 2, 1, 1], t_at = (\<lambda>i. of_nat (i ! 0) + 3) \<rparr> :: rat tensor"
  have "\<exists>out. all_to_all_combine (\<lambda>_. ex_x) CPU ?y (repeated 2 1 ex_choice) ex_choice 2 0 2 1 = Inr out
    \<and> t_shape out = [2, 1, 1, 1]
    \<and> (\<forall>k < 2. \<forall>b < 1. \<forall>s < 1. \<forall>j < 1. t_at out [k, b, s, j] =
         (let e = t_at ex_choice [b, 0, s, k]
          in if 0 \<le> e \<and> e < int 2 then of_nat (nat e) + t_at ex_x [b, 0, s, j] else 0))"
    by (rule dispatch_combine_roundtrip [where x = ex_x and disp = "repeated 2 1 ex_x"
        and f = "\<lambda>e v j. of_nat e + v j" and xlaD = "\<lambda>_. (ex_x, ex_choice)"])
      (simp_all add: ex_x_def ex_choice_def all_to_all_dispatch_def repeated_def)
  then show ?thesis by (auto simp: ex_x_def ex_choice_def)
qed

section \<open>The remapped routing\<close>

lemma remap_fold:
  assumes "\<forall>(d, b, s, k) \<in> set L. d = 0 \<and> in_range [0, b, s, k] (t_shape meta)
     \<and> 0 \<le> t_at meta [0, b, s, k] \<and> t_at meta [0, b, s, k] < int ne
     \<and> (b * ns + s) div red < nc"
  shows "\<exists>mp' rd'. rfold (remap_step topk meta ne ns red nc) (mp, rd) L = Inr (mp', rd')
    \<and> t_shape mp' = t_shape mp \<and> t_shape rd' = t_shape rd
    \<and> (\<forall>b s g. t_at mp' [0, b, s, g] =
         (if \<exists>k. (0, b, s, k) \<in> set L \<and> t_at meta [0, b, s, k] = int g
          then t_at topk [0, b, s, g] else t_at mp [0, b, s, g]))
    \<and> (\<forall>c g. t_at rd' [0, 0, c, g] =
         (if \<exists>b s k. (0, b, s, k) \<in> set L \<and> (b * ns + s) div red = c \<and> t_at meta [0, b, s, k] = int g
          then 1 else t_at rd [0, 0, c, g]))"
  using assms
proof (induction L arbitrary: mp rd)
  case Nil
  then show ?case by simp
next
  case (Cons t L)
  obtain b0 s0 k0 where t: "t = (0, b0, s0, k0)" using Cons.prems by (cases t) auto
  define g0 where "g0 = nat (t_at meta [0, b0, s0, k0])"
  have r: "in_range [0, b0, s0, k0] (t_shape meta)" "t_at meta [0, b0, s0, k0] = int g0" "g0 < ne"
    "(b0 * ns + s0) div red < nc"
    using Cons.prems t by (auto simp: g0_def)
  let ?mp = "assign mp (\<lambda>i. i = [0, b0, s0, g0]) (\<lambda>_. t_at topk [0, b0, s0, g0])"
  let ?rd = "assign rd (\<lambda>i. i = [0, 0, (b0 * ns + s0) div red, g0]) (\<lambda>_. 1)"
  have step: "remap_step topk meta ne ns red nc (mp, rd) t = Inr (?mp, ?rd)"
    using r by (simp add: remap_step_def t Let_def)
  have prems: "\<forall>(d, b, s, k) \<in> set L. d = 0 \<and> in_range [0, b, s, k] (t_shape meta)
     \<and> 0 \<le> t_at meta [0, b, s, k] \<and> t_at meta [0, b, s, k] < int ne
     \<and> (b * ns + s) div red < nc" using Cons.prems by simp
  obtain mp' rd' where IH: "rfold (remap_step topk meta ne ns red nc) (?mp, ?rd) L = Inr (mp', rd')"
    "t_shape mp' = t_shape ?mp" "t_shape rd' = t_shape ?rd"
    "\<And>b s g. t_at mp' [0, b, s, g] =
         (if \<exists>k. (0, b, s, k) \<in> set L \<and> t_at meta [0, b, s, k] = int g
          then t_at topk [0, b, s, g] else t_at ?mp [0, b, s, g])"
    "\<And>c g. t_at rd' [0, 0, c, g] =
         (if \<exists>b s k. (0, b, s, k) \<in> set L \<and> (b * ns + s) div red = c \<and> t_at meta [0, b, s, k] = int g
          then 1 else t_at ?rd [0, 0, c, g])"
    using Cons.IH [OF prems, of ?mp ?rd] by blast
  have "t_at mp' [0, b, s, g] =
         (if \<exists>k. (0, b, s, k) \<in> set (t # L) \<and> t_at meta [0, b, s, k] = int g
          then t_at topk [0, b, s, g] else t_at mp [0, b, s, g])" for b s g
    unfolding IH(4) using r(2) by (auto simp: t assign_def)
  moreover have "t_at rd' [0, 0, c, g] =
         (if \<exists>b s k. (0, b, s, k) \<in> set (t # L) \<and> (b * ns + s) div red = c \<and> t_at meta [0, b, s, k] = int g
          then 1 else t_at rd [0, 0, c, g])" for c g
  proof -
    define Q where "Q \<longleftrightarrow> (\<exists>b s k. (0, b, s, k) \<in> set L
      \<and> (b * ns + s) div red = c \<and> t_at meta [0, b, s, k] = int g)"
    have E: "(\<exists>b s k. (0, b, s, k) \<in> set (t # L) \<and> (b * ns + s) div red = c \<and> t_at meta [0, b, s, k] = int g)
      \<longleftrightarrow> (c = (b0 * ns + s0) div red \<and> g = g0) \<or> Q"
      using r(2) unfolding t Q_def by fastforce
    have "t_at rd' [0, 0, c, g] = (if Q then 1 else t_at ?rd [0, 0, c, g])"
      unfolding Q_def by (rule IH(5))
    then show ?thesis unfolding E by (simp add: assign_def)
  qed
  moreover have "rfold (remap_step topk meta ne ns red nc) (mp, rd) (t # L) = Inr (mp', rd')"
    using step IH(1) by simp
  ultimately show ?case using IH(2,3) by (auto simp: assign_def)
qed

text \<open>The remapped routing keeps a token's weight for exactly the experts it chose, and a chunk of
  tokens is marked for an expert exactly when one of its tokens chose the expert: the sparsity never
  skips an expert that a token needs.\<close>

theorem remap_marks_needed_experts:
  assumes "t_shape topk = [1, nb, ns, ne]" and "t_shape meta = [1, nb, ns, nk]"
    and "last (t_shape mapping) \<noteq> 0" and "0 < red" and "dev \<noteq> XLA"
    and "\<forall>b < nb. \<forall>s < ns. \<forall>k < nk. 0 \<le> t_at meta [0, b, s, k] \<and> t_at meta [0, b, s, k] < int ne"
  shows "\<exists>mp rd. moe_expert_token_remap xla dev topk mapping meta red = Inr (mp, rd)
    \<and> t_shape mp = [1, nb, ns, ne]
    \<and> (\<forall>b < nb. \<forall>s < ns. \<forall>g < ne. t_at mp [0, b, s, g] =
         (if \<exists>k < nk. t_at meta [0, b, s, k] = int g then t_at topk [0, b, s, g] else 0)
         \<and> ((\<exists>k < nk. t_at meta [0, b, s, k] = int g) \<longrightarrow> t_at rd [0, 0, (b * ns + s) div red, g] = 1))
    \<and> (\<forall>c g. t_at rd [0, 0, c, g] = 1 \<longrightarrow> (\<exists>b < nb. \<exists>s < ns. \<exists>k < nk.
         (b * ns + s) div red = c \<and> t_at meta [0, b, s, k] = int g))"
proof -
  let ?nc = "(nb * ns + red - 1) div red" and ?L = "remap_indices 1 nb ns nk"
  have mem: "(0, b, s, k) \<in> set ?L \<longleftrightarrow> b < nb \<and> s < ns \<and> k < nk" for b s k
    by (auto simp: remap_indices_def image_iff)
  have chunk: "(b * ns + s) div red < ?nc" if "b < nb" "s < ns" for b s
  proof -
    have "(b + 1) * ns \<le> nb * ns" using that(1) by (intro mult_le_mono1) simp
    then have "b * ns + s + 1 \<le> nb * ns" using that(2) by simp
    then have "(b * ns + s + red) div red \<le> ?nc" using assms(4) by (intro div_le_mono) simp
    then show ?thesis using assms(4) by simp
  qed
  have "\<forall>(d, b, s, k) \<in> set ?L. d = 0 \<and> in_range [0, b, s, k] (t_shape meta)
     \<and> 0 \<le> t_at meta [0, b, s, k] \<and> t_at meta [0, b, s, k] < int ne \<and> (b * ns + s) div red < ?nc"
    using chunk assms(2,6) by (auto simp: remap_indices_def in_range_def)
  from remap_fold [OF this, of topk "zeros [1, nb, ns, ne]" "zeros [1, 1, ?nc, ne]", unfolded zeros_sel]
  obtain mp rd where r: "rfold (remap_step topk meta ne ns red ?nc)
      (zeros [1, nb, ns, ne], zeros [1, 1, ?nc, ne]) ?L = Inr (mp, rd)"
    "t_shape mp = [1, nb, ns, ne]"
    "\<And>b s g. t_at mp [0, b, s, g] =
         (if \<exists>k. b < nb \<and> s < ns \<and> k < nk \<and> t_at meta [0, b, s, k] = int g
          then t_at topk [0, b, s, g] else 0)"
    "\<And>c g. t_at rd [0, 0, c, g] =
         (if \<exists>b s k. b < nb \<and> s < ns \<and> k < nk \<and> (b * ns + s) div red = c \<and> t_at meta [0, b, s, k] = int g
          then 1 else 0)"
    by (auto simp: mem conj_assoc simp del: One_nat_def)
  have run: "moe_expert_token_remap xla dev topk mapping meta red = Inr (mp, rd)"
    using assms(1-5) r(1) by (simp add: moe_expert_token_remap_def Let_def)
  show ?thesis
    by (intro exI [of _ mp] exI [of _ rd] conjI run r(2) allI impI; simp add: r(3,4) split: if_splits; blast)
qed

theorem remap_marks_needed_experts_witness:
  "\<exists>mp rd. moe_expert_token_remap (\<lambda>_. (ex_x, ex_x)) CPU
      \<lparr> t_shape = [1, 1, 1, 2], t_at = (\<lambda>_. 5) \<rparr> ex_choice ex_choice 16 = Inr (mp, rd)
     \<and> t_at mp [0, 0, 0, 1] = 5 \<and> t_at rd [0, 0, 0, 1] = 1"
proof -
  have "\<exists>k < 2. t_at ex_choice [0, 0, 0, k] = 1" by (intro exI [of _ 0]) (simp add: ex_choice_def)
  then show ?thesis
    using remap_marks_needed_experts [where topk = "\<lparr> t_shape = [1, 1, 1, 2], t_at = (\<lambda>_. 5) \<rparr>"
      and meta = ex_choice and mapping = ex_choice and nb = 1 and ns = 1 and ne = 2 and nk = 2
      and red = 16 and dev = CPU and xla = "\<lambda>_. (ex_x, ex_x)"]
    by (fastforce simp: ex_choice_def)
qed

section \<open>Placing experts on devices\<close>

lemma build_mapping_prefix:
  assumes "k \<le> ne" "\<And>i. i < k \<Longrightarrow> dev i < nd"
  shows "\<exists>m. rfold (\<lambda>m i. rbind (rguard (dev i < nd) IndexError) (\<lambda>_.
             Inr (assign m (\<lambda>j. j = [0, 0, i, dev i]) (\<lambda>_. 1 :: int)))) (zeros [1, 1, ne, nd]) [0..<k] = Inr m
    \<and> t_shape m = [1, 1, ne, nd]
    \<and> (\<forall>i d. t_at m [0, 0, i, d] = (if i < k \<and> d = dev i then 1 else 0))"
  using assms
proof (induction k)
  case 0
  then show ?case by (simp add: zeros_def)
next
  case (Suc k)
  then obtain m where m: "rfold (\<lambda>m i. rbind (rguard (dev i < nd) IndexError) (\<lambda>_.
             Inr (assign m (\<lambda>j. j = [0, 0, i, dev i]) (\<lambda>_. 1 :: int)))) (zeros [1, 1, ne, nd]) [0..<k] = Inr m"
    "t_shape m = [1, 1, ne, nd]"
    "\<forall>i d. t_at m [0, 0, i, d] = (if i < k \<and> d = dev i then 1 else 0)" by fastforce
  have "dev k < nd" using Suc.prems by simp
  then show ?case using m by (auto simp: rfold_append assign_def less_Suc_eq)
qed

text \<open>C38. Without a mesh shape the mapping is one-hot and balanced: expert \<open>i\<close> is on device
  \<open>i div (E / D)\<close> and on no other, and every device has exactly \<open>E / D\<close> experts.\<close>

theorem expert_mapping_balanced:
  assumes "0 < nd" and "nd dvd ne"
  shows "\<exists>m. build_expert_mapping ne nd None = Inr m \<and> t_shape m = [1, 1, ne, nd]
    \<and> (\<forall>i < ne. \<forall>d < nd. t_at m [0, 0, i, d] = (if d = i div (ne div nd) then 1 else 0))
    \<and> (\<forall>d < nd. card {i. i < ne \<and> t_at m [0, 0, i, d] = 1} = ne div nd)"
proof -
  let ?q = "ne div nd"
  have q: "ne = nd * ?q" using assms(2) by simp
  have dev: "expert_device ?q None i < nd" if "i < ne" for i
    using that q by (simp add: expert_device_def) (metis less_mult_imp_div_less)
  obtain m where m: "rfold (\<lambda>m i. rbind (rguard (expert_device ?q None i < nd) IndexError) (\<lambda>_.
             Inr (assign m (\<lambda>j. j = [0, 0, i, expert_device ?q None i]) (\<lambda>_. 1 :: int))))
             (zeros [1, 1, ne, nd]) [0..<ne] = Inr m"
    "t_shape m = [1, 1, ne, nd]"
    "\<forall>i d. t_at m [0, 0, i, d] = (if i < ne \<and> d = expert_device ?q None i then 1 else 0)"
    using build_mapping_prefix [of ne ne "expert_device ?q None" nd] dev by auto
  have run: "build_expert_mapping ne nd None = Inr m"
    using m(1) assms by (simp add: build_expert_mapping_def Let_def)
  have "card {i. i < ne \<and> t_at m [0, 0, i, d] = 1} = ?q" if d: "d < nd" for d
  proof -
    have "{i. i < ne \<and> t_at m [0, 0, i, d] = 1} = {d * ?q ..< d * ?q + ?q}"
    proof (intro set_eqI iffI)
      fix i assume "i \<in> {i. i < ne \<and> t_at m [0, 0, i, d] = 1}"
      then have i: "i < ne" "d = i div ?q" using m(3) by (auto simp: expert_device_def split: if_splits)
      then have "?q > 0" using q by (metis gr_zeroI mult_0_right not_less0)
      then show "i \<in> {d * ?q ..< d * ?q + ?q}"
        using i by (simp add: dividend_less_div_times add.commute)
    next
      fix i assume i: "i \<in> {d * ?q ..< d * ?q + ?q}"
      then have id: "i div ?q = d" by (intro div_nat_eqI) (auto simp: mult.commute add.commute)
      have "(d + 1) * ?q \<le> nd * ?q" using d by (intro mult_le_mono1) simp
      then have "i < ne" using i q by auto
      then show "i \<in> {i. i < ne \<and> t_at m [0, 0, i, d] = 1}" using id m(3) by (simp add: expert_device_def)
    qed
    then show ?thesis by simp
  qed
  then show ?thesis using run m(2,3) by (auto simp: expert_device_def)
qed

theorem expert_mapping_balanced_witness:
  "\<exists>m. build_expert_mapping 4 2 None = Inr m \<and> t_at m [0, 0, 3, 1] = 1 \<and> t_at m [0, 0, 3, 0] = 0"
  using expert_mapping_balanced [of 2 4] by auto

text \<open>With a mesh shape and more experts than devices the computed device is out of range.\<close>

lemma mesh_mapping_out_of_range:
  "case build_expert_mapping 8 4 (Some (2, 2)) of Inl e \<Rightarrow> e = IndexError | Inr _ \<Rightarrow> False"
  by code_simp

end
