(* ===== verification/SparseMlpProps.thy ===== *)
theory SparseMlpProps
  imports SparseMlp MoeOpsProps
begin

text \<open>
  What the mixture-of-experts modules compute. The reference is the mixture: every expert is applied to the
  whole hidden vector of a token, and the outputs of the chosen experts are added with their weights.
\<close>

section \<open>Blocks\<close>

text \<open>The token at a place of a block, and the block and the place of a token.\<close>

definition token_of :: "bool \<Rightarrow> nat \<Rightarrow> nat \<Rightarrow> nat \<Rightarrow> nat \<times> nat" where
  "token_of split_seq a b m = (if split_seq then (a, b * 32 + m) else (a * 32 + m, b))"

definition block_of :: "bool \<Rightarrow> nat \<Rightarrow> nat \<Rightarrow> nat \<Rightarrow> nat \<times> nat" where
  "block_of split_seq db r c =
     (if split_seq then (r * db + c div 32, c mod 32) else (r div 32 * db + c, r mod 32))"

lemma split_planD:
  assumes "split_plan bd s = Inr (split_seq, da, db)"
  shows "if split_seq then da = bd \<and> s = 32 * db \<and> 1 \<le> db else bd = 32 * da \<and> 1 \<le> da \<and> db = s"
  using assms by (auto simp: split_plan_def Let_def res_simps split: if_splits)

lemma split_plan_ex:
  assumes "s mod 32 = 0 \<and> 32 \<le> s \<or> bd mod 32 = 0 \<and> 32 \<le> bd"
  shows "\<exists>split_seq da db. split_plan bd s = Inr (split_seq, da, db)"
  using assms by (cases "s mod 32 = 0 \<and> 32 \<le> s") (auto simp: split_plan_def Let_def)

lemma to_blocks_tens:
  assumes plan: "split_plan bd s = Inr (split_seq, da, db)" and t: "tens t [1, bd, s, h] f"
  shows "\<exists>v. to_blocks (split_seq, da, db) bd s h t = Inr v
    \<and> tens v [da, db, 32, h] (\<lambda>i. case token_of split_seq (i ! 0) (i ! 1) (i ! 2) of (r, c) \<Rightarrow> f [0, r, c, i ! 3])"
proof (cases split_seq)
  case True
  then have p: "da = bd" "s = 32 * db" using split_planD [OF plan] by auto
  have "\<exists>v. view t [bd, db, 32, h] = Inr v \<and> tens v [bd, db, 32, h] (\<lambda>i. f [0, i ! 0, i ! 1 * 32 + i ! 2, i ! 3])"
    by (rule view_tens [OF t, of _ "\<lambda>i. [0, i ! 0, i ! 1 * 32 + i ! 2, i ! 3]"])
      (auto simp: p in_range_Cons algebra_simps)
  then show ?thesis using True p by (simp add: to_blocks_def token_of_def)
next
  case False
  then have p: "bd = 32 * da" "db = s" using split_planD [OF plan] by auto
  show ?thesis
  proof (cases "db = 1")
    case True
    have "\<exists>v. view t [da, 1, 32, h] = Inr v \<and> tens v [da, 1, 32, h] (\<lambda>i. f [0, i ! 0 * 32 + i ! 2, i ! 1, i ! 3])"
      by (rule view_tens [OF t, of _ "\<lambda>i. [0, i ! 0 * 32 + i ! 2, i ! 1, i ! 3]"])
        (use True p in \<open>auto simp: in_range_Cons algebra_simps\<close>)
    then show ?thesis using False True p by (simp add: to_blocks_def token_of_def)
  next
    case neq: False
    have "\<exists>v. view t [da, 32, s, h] = Inr v \<and> tens v [da, 32, s, h] (\<lambda>i. f [0, i ! 0 * 32 + i ! 1, i ! 2, i ! 3])"
      by (rule view_tens [OF t, of _ "\<lambda>i. [0, i ! 0 * 32 + i ! 1, i ! 2, i ! 3]"])
        (auto simp: p in_range_Cons algebra_simps)
    then obtain v where v: "view t [da, 32, s, h] = Inr v" "tens v [da, 32, s, h] (\<lambda>i. f [0, i ! 0 * 32 + i ! 1, i ! 2, i ! 3])"
      by blast
    have "tens (permute v [0, 2, 1, 3]) [da, s, 32, h] (\<lambda>i. f [0, i ! 0 * 32 + i ! 2, i ! 1, i ! 3])"
      using permute_known(1) [OF v(2)] by simp
    then show ?thesis using False neq p v(1) by (simp add: to_blocks_def token_of_def res_simps)
  qed
qed


lemma activate_tens:
  assumes "tens g (sh @ [2 * n]) f"
  shows "\<exists>v. activate sigmoid mlp g = Inr v
    \<and> tens v (sh @ [n]) (\<lambda>i. act_entry sigmoid mlp (f (butlast i @ [2 * last i])) (f (butlast i @ [1 + 2 * last i])))"
proof -
  note e = every_second_tens [OF assms, of 0] every_second_tens [OF assms, of 1]
  show ?thesis
    using tensor_op_tens [of _ "[]" "sh @ [n]", OF _ e(2), of "every_second g 0"] e(1) by (auto simp: activate_def)
qed

lemma activate_blocks_tens:
  assumes g: "tens g [da, db, e, 32, 2 * ni] f" and b: "tens (gate_up_proj_bias (mm_experts mlp)) [e, 2 * ni] b"
    and e: "mm_num_experts mlp = e" "mm_inter mlp = ni" "0 < db"
  shows "\<exists>v. activate_blocks sigmoid mlp (split_seq, da, db) g = Inr v \<and> tens v [da * db, e, 32, ni] (\<lambda>i.
     act_entry sigmoid mlp (f [i ! 0 div db, i ! 0 mod db, i ! 1, i ! 2, 2 * i ! 3] + b [i ! 1, 2 * i ! 3])
       (f [i ! 0 div db, i ! 0 mod db, i ! 1, i ! 2, 1 + 2 * i ! 3] + b [i ! 1, 1 + 2 * i ! 3]))"
proof -
  have p: "tens (permute g [0, 1, 3, 2, 4]) [da, db, 32, e, 2 * ni] (\<lambda>i. f [i ! 0, i ! 1, i ! 3, i ! 2, i ! 4])"
    using permute_known(3) [OF g] by simp
  obtain c where c: "tensor_op (+) (permute g [0, 1, 3, 2, 4]) (gate_up_proj_bias (mm_experts mlp)) = Inr c"
    "tens c [da, db, 32, e, 2 * ni] (\<lambda>i. f [i ! 0, i ! 1, i ! 3, i ! 2, i ! 4] + b [i ! 3, i ! 4])"
    using bias_tens [OF p b] by blast
  then have c': "tens c ([da, db, 32, e] @ [2 * ni]) (\<lambda>i. f [i ! 0, i ! 1, i ! 3, i ! 2, i ! 4] + b [i ! 3, i ! 4])"
    by simp
  obtain v where v: "activate sigmoid mlp c = Inr v" "tens v ([da, db, 32, e] @ [ni]) (\<lambda>i. act_entry sigmoid mlp
     ((\<lambda>i. f [i ! 0, i ! 1, i ! 3, i ! 2, i ! 4] + b [i ! 3, i ! 4]) (butlast i @ [2 * last i]))
     ((\<lambda>i. f [i ! 0, i ! 1, i ! 3, i ! 2, i ! 4] + b [i ! 3, i ! 4]) (butlast i @ [1 + 2 * last i])))"
    using activate_tens [OF c'] by blast
  have "tens v [da, db, 32, e, ni] (\<lambda>i. act_entry sigmoid mlp
     (f [i ! 0, i ! 1, i ! 3, i ! 2, 2 * i ! 4] + b [i ! 3, 2 * i ! 4])
     (f [i ! 0, i ! 1, i ! 3, i ! 2, 1 + 2 * i ! 4] + b [i ! 3, 1 + 2 * i ! 4]))" (is "tens _ _ ?A")
    by (rule tens_cong [OF v(2) [simplified]]) (auto simp: in_range_Cons)
  then have pv: "tens (permute v [0, 1, 3, 2, 4]) [da, db, e, 32, ni] (\<lambda>i. ?A [i ! 0, i ! 1, i ! 3, i ! 2, i ! 4])"
    by (rule permute_known(3))
  have "\<exists>w. view (permute v [0, 1, 3, 2, 4]) [da * db, e, 32, ni] = Inr w \<and> tens w [da * db, e, 32, ni]
      (\<lambda>j. (\<lambda>i. ?A [i ! 0, i ! 1, i ! 3, i ! 2, i ! 4]) [j ! 0 div db, j ! 0 mod db, j ! 1, j ! 2, j ! 3])"
  proof (rule view_tens [OF pv])
    have "e * (ni * (k mod db * 32)) + db * (e * (ni * (k div db * 32))) = k * (e * (ni * 32))" for k
      using mod_div_flat(1) [of "e * (ni * 32)" k db] by (simp add: algebra_simps)
    then show "in_range [j ! 0 div db, j ! 0 mod db, j ! 1, j ! 2, j ! 3] [da, db, e, 32, ni]
        \<and> flat [da, db, e, 32, ni] [j ! 0 div db, j ! 0 mod db, j ! 1, j ! 2, j ! 3] = flat [da * db, e, 32, ni] j"
      if "in_range j [da * db, e, 32, ni]" for j
      using that by (auto simp: in_range_Cons less_mult_imp_div_less e(3) algebra_simps)
  qed simp
  then show ?thesis using c(1) v(1) by (simp add: activate_blocks_def e res_simps)
qed

text \<open>The layout of the outputs: with a single position per row the rows come last.\<close>

definition laid_out ::
  "bool \<Rightarrow> rat tensor \<Rightarrow> nat \<Rightarrow> nat \<Rightarrow> nat \<Rightarrow> nat \<Rightarrow> (nat \<Rightarrow> nat \<Rightarrow> nat \<Rightarrow> nat \<Rightarrow> rat) \<Rightarrow> bool" where
  "laid_out decode v e bd s h f \<longleftrightarrow>
     (if decode then tens v [e, 1, bd, h] (\<lambda>i. f (i ! 0) (i ! 2) 0 (i ! 3))
      else tens v [e, bd, s, h] (\<lambda>i. f (i ! 0) (i ! 1) (i ! 2) (i ! 3)))"

lemma from_blocks_tens:
  assumes plan: "split_plan bd s = Inr (split_seq, da, db)"
    and t: "tens t [da * db, e, 32, h] f" and bias: "tens bias [e, h] b"
  shows "\<exists>v. from_blocks (split_seq, da, db) bd s e h bias t = Inr v
    \<and> laid_out (db = 1 \<and> \<not> split_seq) v e bd s h (\<lambda>g r c j.
         case block_of split_seq db r c of (k, m) \<Rightarrow> f [k, g, m, j] + b [g, j])"
proof -
  have "\<exists>v. view t [da, db, e, 32, h] = Inr v \<and> tens v [da, db, e, 32, h]
      (\<lambda>i. f [i ! 0 * db + i ! 1, i ! 2, i ! 3, i ! 4])"
    by (rule view_tens [OF t, of _ "\<lambda>i. [i ! 0 * db + i ! 1, i ! 2, i ! 3, i ! 4]"])
      (auto simp: in_range_Cons mult_add_less algebra_simps)
  then obtain v where v: "view t [da, db, e, 32, h] = Inr v"
    "tens v [da, db, e, 32, h] (\<lambda>i. f [i ! 0 * db + i ! 1, i ! 2, i ! 3, i ! 4])" by blast
  have p: "tens (permute v [0, 1, 3, 2, 4]) [da, db, 32, e, h] (\<lambda>i. f [i ! 0 * db + i ! 1, i ! 3, i ! 2, i ! 4])"
    using permute_known(3) [OF v(2)] by simp
  obtain c where c: "tensor_op (+) (permute v [0, 1, 3, 2, 4]) bias = Inr c"
    "tens c [da, db, 32, e, h] (\<lambda>i. f [i ! 0 * db + i ! 1, i ! 3, i ! 2, i ! 4] + b [i ! 3, i ! 4])" (is "tens _ _ ?C")
    using bias_tens [OF p bias] by blast
  show ?thesis
  proof (cases split_seq)
    case True
    then have q: "da = bd" "s = 32 * db" "0 < db" using split_planD [OF plan] by auto
    note m = permute_known(4) [OF c(2)]
    have "\<exists>w. view (permute c [3, 0, 1, 2, 4]) [e, bd, s, h] = Inr w \<and> tens w [e, bd, s, h]
        (\<lambda>j. (\<lambda>i. ?C [i ! 1, i ! 2, i ! 3, i ! 0, i ! 4]) [j ! 0, j ! 1, j ! 2 div 32, j ! 2 mod 32, j ! 3])"
      by (rule view_tens [OF m])
        (auto simp: in_range_Cons q less_mult_imp_div_less mod_div_flat algebra_simps)
    then show ?thesis using True v(1) c(1) by (simp add: from_blocks_def block_of_def laid_out_def res_simps)
  next
    case False
    then have q: "bd = 32 * da" "db = s" using split_planD [OF plan] by auto
    show ?thesis
    proof (cases "db = 1")
      case one: True
      have "tens (squeeze c 1) ([da] @ [32, e, h]) (\<lambda>i. ?C (take 1 i @ 0 # drop 1 i))"
        using c(2) one by (intro squeeze_tens) simp_all
      then have "tens (squeeze c 1) ([da] @ [32, e, h]) (\<lambda>i. f [i ! 0, i ! 2, i ! 1, i ! 3] + b [i ! 2, i ! 3])"
        by (rule tens_cong) (auto simp: in_range_Cons one)
      then have "tens (squeeze c 1) [da, 32, e, h] (\<lambda>i. f [i ! 0, i ! 2, i ! 1, i ! 3] + b [i ! 2, i ! 3])" by simp
      from permute_known(2) [OF this]
      have m: "tens (permute (squeeze c 1) [2, 0, 1, 3]) [e, da, 32, h]
        (\<lambda>i. f [i ! 1, i ! 0, i ! 2, i ! 3] + b [i ! 0, i ! 3])" by simp
      have "\<exists>w. view (permute (squeeze c 1) [2, 0, 1, 3]) [e, bd, h] = Inr w \<and> tens w [e, bd, h]
        (\<lambda>j. (\<lambda>i. f [i ! 1, i ! 0, i ! 2, i ! 3] + b [i ! 0, i ! 3]) [j ! 0, j ! 1 div 32, j ! 1 mod 32, j ! 2])"
        by (rule view_tens [OF m]) (auto simp: in_range_Cons q less_mult_imp_div_less mod_div_flat algebra_simps)
      then obtain w where w: "view (permute (squeeze c 1) [2, 0, 1, 3]) [e, bd, h] = Inr w"
        "tens w [e, bd, h] (\<lambda>j. f [j ! 1 div 32, j ! 0, j ! 1 mod 32, j ! 2] + b [j ! 0, j ! 2])" by auto
      have "tens (unsqueeze w 1) (take 1 [e, bd, h] @ 1 # drop 1 [e, bd, h])
          (\<lambda>i. f [i ! 2 div 32, i ! 0, i ! 2 mod 32, i ! 3] + b [i ! 0, i ! 3])"
        by (rule tens_cong [OF unsqueeze_tens [OF w(2)]]) (auto simp: in_range_Cons)
      then show ?thesis using False one v(1) c(1) w(1) by (simp add: from_blocks_def block_of_def laid_out_def res_simps)
    next
      case many: False
      note m = permute_known(5) [OF c(2)]
      have "\<exists>w. view (permute c [3, 0, 2, 1, 4]) [e, bd, s, h] = Inr w \<and> tens w [e, bd, s, h]
          (\<lambda>j. (\<lambda>i. ?C [i ! 1, i ! 3, i ! 2, i ! 0, i ! 4]) [j ! 0, j ! 1 div 32, j ! 1 mod 32, j ! 2, j ! 3])"
      proof (rule view_tens [OF m])
        have "h * (s * (k mod 32)) + h * (s * (32 * (k div 32))) = k * (h * s)" for k
          using mod_div_flat(1) [of "h * s" k 32] by (simp add: algebra_simps)
        then show "in_range [j ! 0, j ! 1 div 32, j ! 1 mod 32, j ! 2, j ! 3] [e, da, 32, db, h]
            \<and> flat [e, da, 32, db, h] [j ! 0, j ! 1 div 32, j ! 1 mod 32, j ! 2, j ! 3] = flat [e, bd, s, h] j"
          if "in_range j [e, bd, s, h]" for j
          using that by (auto simp: in_range_Cons q less_mult_imp_div_less algebra_simps)
      qed (simp add: q)
      then show ?thesis using False many v(1) c(1) by (simp add: from_blocks_def block_of_def laid_out_def res_simps)
    qed
  qed
qed


section \<open>The operators\<close>

lemma gate_matmul_tens:
  assumes "tens a [x, y, m, k] f" "tens b [1, e, k, n] g" "tens sp [x, y, 1, e] w"
  shows "\<exists>out. sparse_matmul xla CPU a b sp nnz False True = Inr out
    \<and> tens out [x, y, 1, e, m, n] (\<lambda>i. dot k (\<lambda>l. f [i ! 0, i ! 1, i ! 4, l]) (\<lambda>l. g [0, i ! 3, l, i ! 5])
         * w [i ! 0, i ! 1, 0, i ! 3])"
proof -
  have sh: "t_shape a = [x, y, m, k]" "t_shape b = [1, e, k, n]" "t_shape sp = [x, y, 1, e]"
    using assms by (simp_all add: tens_def)
  let ?out = "expert_loop e (\<lambda>e. \<exists>u < x. \<exists>v < y. t_at sp [u, v, 0, e] \<noteq> 0) (\<lambda>e i. i ! 2 = 0 \<and> i ! 3 = e)
    (\<lambda>e i. dot k (\<lambda>l. t_at a [i ! 0, i ! 1, i ! 4, l]) (\<lambda>l. t_at b [0, e, l, i ! 5]) * t_at sp [i ! 0, i ! 1, 0, e])
    [x, y, 1, e, m, n]"
  have run: "sparse_matmul xla CPU a b sp nnz False True = Inr ?out"
  proof -
    have "e = 0 \<or> e - Suc 0 < e" by auto
    then show ?thesis by (simp add: sparse_matmul_def sparse_matmul_cpu_def sh Let_def in_range_def)
  qed
  have "t_at ?out [u, v, 0, g', i, j] = dot k (\<lambda>l. t_at a [u, v, i, l]) (\<lambda>l. t_at b [0, g', l, j]) * t_at sp [u, v, 0, g']"
    if "u < x" "v < y" "g' < e" for u v g' i j
    by (subst expert_loop_at [of g']) (use that in \<open>auto simp: numeral_eq_Suc\<close>)
  moreover have "dot k (\<lambda>l. t_at a [u, v, i, l]) (\<lambda>l. t_at b [0, g', l, j]) * t_at sp [u, v, 0, g']
      = dot k (\<lambda>l. f [u, v, i, l]) (\<lambda>l. g [0, g', l, j]) * w [u, v, 0, g']"
    if "u < x" "v < y" "g' < e" "i < m" "j < n" for u v g' i j
    using that assms by (auto simp: dot_def tens_def intro!: arg_cong [where f = sum_list])
  ultimately have "tens ?out [x, y, 1, e, m, n] (\<lambda>i. dot k (\<lambda>l. f [i ! 0, i ! 1, i ! 4, l]) (\<lambda>l. g [0, i ! 3, l, i ! 5])
      * w [i ! 0, i ! 1, 0, i ! 3])"
    by (intro tensI) (auto simp: in_range_Cons)
  with run show ?thesis by blast
qed

lemma down_matmul_tens:
  assumes "tens a [x, e, m, k] f" "tens b [1, e, k, n] g" "tens sp [1, 1, x, e] w"
  shows "\<exists>out. sparse_matmul xla CPU a b sp nnz True False = Inr out
    \<and> tens out [x, e, m, n] (\<lambda>i. dot k (\<lambda>l. f [i ! 0, i ! 1, i ! 2, l]) (\<lambda>l. g [0, i ! 1, l, i ! 3])
         * w [0, 0, i ! 0, i ! 1])"
proof -
  have sh: "t_shape a = [x, e, m, k]" "t_shape b = [1, e, k, n]" "t_shape sp = [1, 1, x, e]"
    using assms by (simp_all add: tens_def)
  let ?out = "expert_loop e (\<lambda>e. \<exists>u < x. t_at sp [0, 0, u, e] \<noteq> 0) (\<lambda>e i. i ! 1 = e)
    (\<lambda>e i. dot k (\<lambda>l. t_at a [i ! 0, e, i ! 2, l]) (\<lambda>l. t_at b [0, e, l, i ! 3]) * t_at sp [0, 0, i ! 0, e])
    [x, e, m, n]"
  have run: "sparse_matmul xla CPU a b sp nnz True False = Inr ?out"
    by (simp add: sparse_matmul_def sparse_matmul_cpu_def sh Let_def)
  have "t_at ?out [u, g', i, j] = dot k (\<lambda>l. t_at a [u, g', i, l]) (\<lambda>l. t_at b [0, g', l, j]) * t_at sp [0, 0, u, g']"
    if "u < x" "g' < e" for u g' i j
    by (subst expert_loop_at [of g']) (use that in \<open>auto simp: numeral_eq_Suc\<close>)
  moreover have "dot k (\<lambda>l. t_at a [u, g', i, l]) (\<lambda>l. t_at b [0, g', l, j]) * t_at sp [0, 0, u, g']
      = dot k (\<lambda>l. f [u, g', i, l]) (\<lambda>l. g [0, g', l, j]) * w [0, 0, u, g']"
    if "u < x" "g' < e" "i < m" "j < n" for u g' i j
    using that assms by (auto simp: dot_def tens_def intro!: arg_cong [where f = sum_list])
  ultimately have "tens ?out [x, e, m, n] (\<lambda>i. dot k (\<lambda>l. f [i ! 0, i ! 1, i ! 2, l]) (\<lambda>l. g [0, i ! 1, l, i ! 3])
      * w [0, 0, i ! 0, i ! 1])"
    by (intro tensI) (auto simp: in_range_Cons)
  with run show ?thesis by blast
qed

lemma dispatch_tens:
  assumes "tens x [b, 1, s, h] f" "tens idx [b, 1, s, nk] g" "0 < nd"
  shows "\<exists>d m. all_to_all_dispatch xla CPU x idx mapping nd axis = Inr (d, m)
    \<and> tens d [1, b * nd, s, h] (\<lambda>i. f [i ! 1 mod b, 0, i ! 2, i ! 3])
    \<and> tens m [1, b * nd, s, nk] (\<lambda>i. g [i ! 1 mod b, 0, i ! 2, i ! 3])"
proof -
  have rep: "tens (repeated nd b t) [1, b * nd, s, n] (\<lambda>i. v [i ! 1 mod b, 0, i ! 2, i ! 3])"
    if t: "tens t [b, 1, s, n] v" for t :: "'c tensor" and n v
  proof (rule tensI)
    show "t_shape (repeated nd b t) = [1, b * nd, s, n]"
      using t assms(3) by (cases "nd = 1") (simp_all add: repeated_def tens_def)
    fix i assume i: "in_range i [1, b * nd, s, n]"
    then have "i ! 1 mod b < b" by (cases "b = 0") (auto simp: in_range_Cons)
    then show "t_at (repeated nd b t) i = v [i ! 1 mod b, 0, i ! 2, i ! 3]"
      using t i assms(3) by (cases "nd = 1") (auto simp: repeated_def tens_def in_range_Cons)
  qed
  show ?thesis using rep [OF assms(1)] rep [OF assms(2)] assms(1,2)
    by (simp add: all_to_all_dispatch_def tens_def)
qed


lemma combine_places:
  assumes y: "t_shape y = [e, p, q, h]" and meta: "tens meta [1, b * nd, s, nk] (\<lambda>i. int (g i))"
    and range: "\<And>i. in_range i [1, b * nd, s, nk] \<Longrightarrow> g i < e" and nd: "0 < nd"
    and shard: "shard = 1 \<and> p = b * nd \<and> q = s \<or> shard = 2 \<and> p = s \<and> q = b * nd"
  shows "\<exists>out. all_to_all_combine xla CPU y meta mapping nd axis nk shard = Inr out
    \<and> t_shape out = (if shard = 1 then [nk, b, s, h] else [nk, s, b, h])
    \<and> (\<forall>k < nk. \<forall>x < b. \<forall>c < s. \<forall>j.
         t_at out (k # (if shard = 1 then [x, c] else [c, x]) @ [j]) =
         t_at y (g [0, x, c, k] # (if shard = 1 then [x, c] else [c, x]) @ [j]))"
proof -
  define pos where "pos x c = (if shard = 1 then [x, c] else [c, x :: nat])" for x c
  define L where "L = [(x, c, k). x \<leftarrow> [0..<b], c \<leftarrow> [0..<s], k \<leftarrow> [0..<nk]]"
  define sh where "sh = (if shard = 1 then [nk, b, s, h] else [nk, s, b, h])"
  define out where "out = fold (combine_step e pos meta y) L (zeros sh)"
  have le: "x < b * nd" if "x < b" for x using that nd by (simp add: less_le_trans)
  have nb: "b * nd div nd = b" using nd by simp
  have "0 < b * s * nk \<longrightarrow> in_range [0, b - 1, s - 1, nk - 1] (t_shape meta)"
    using le tens_shape [OF meta] by simp
  moreover have "all_to_all_combine xla CPU y meta mapping nd axis nk shard =
      (if 0 < b * s * nk \<and> \<not> in_range [0, b - 1, s - 1, nk - 1] (t_shape meta) then Inl IndexError
       else Inr (combine_loop b s nk e (\<lambda>x c. if shard = 1 then [x, c] else [c, x]) meta y (zeros sh)))"
    using shard by (elim disjE conjE) (simp_all add: all_to_all_combine_def y nb nd sh_def Let_def)
  moreover have "combine_loop b s nk e (\<lambda>x c. if shard = 1 then [x, c] else [c, x]) meta y (zeros sh) = out"
    by (simp add: combine_loop_def combine_step_def out_def L_def pos_def [abs_def])
  ultimately have run: "all_to_all_combine xla CPU y meta mapping nd axis nk shard = Inr out" by auto
  have "t_shape out = sh \<and> t_at out (k # pos x c @ [j]) = t_at y (g [0, x, c, k] # pos x c @ [j])"
    if "k < nk" "x < b" "c < s" for k x c j
  proof -
    have "t_at meta [0, x, c, k] = int (g [0, x, c, k])" "g [0, x, c, k] < e"
      using tensD [OF meta, of "[0, x, c, k]"] range [of "[0, x, c, k]"] that le by simp_all
    moreover have "(x, c, k) \<in> set L" using that by (auto simp: L_def image_iff)
    ultimately show ?thesis
      using combine_fold [of pos e meta y L "zeros sh" k x c j] by (auto simp: out_def zeros_sel pos_def)
  qed
  moreover have "t_shape out = sh"
    using combine_fold [of pos e meta y L "zeros sh"] by (auto simp: out_def zeros_sel pos_def)
  ultimately show ?thesis using run by (auto simp: pos_def sh_def)
qed

lemma remap_tens:
  assumes topk: "t_shape topk = [1, bd, s, e]" and meta: "tens meta [1, bd, s, nk] (\<lambda>i. int (g i))"
    and range: "\<And>i. in_range i [1, bd, s, nk] \<Longrightarrow> g i < e"
    and map: "last (t_shape mapping) \<noteq> 0" and red: "0 < red"
  shows "\<exists>mp rd. moe_expert_token_remap xla CPU topk mapping meta red = Inr (mp, rd)
    \<and> tens rd [1, 1, (bd * s + red - 1) div red, e] (\<lambda>i.
         if \<exists>r < bd. \<exists>c < s. \<exists>k < nk. (r * s + c) div red = i ! 2 \<and> g [0, r, c, k] = i ! 3 then 1 else 0)"
proof -
  let ?nc = "(bd * s + red - 1) div red" and ?L = "remap_indices 1 bd s nk"
  have mem: "(0, r, c, k) \<in> set ?L \<longleftrightarrow> r < bd \<and> c < s \<and> k < nk" for r c k
    by (auto simp: remap_indices_def image_iff)
  have m: "t_at meta [0, r, c, k] = int (g [0, r, c, k])" "g [0, r, c, k] < e" if "r < bd" "c < s" "k < nk" for r c k
    using tensD [OF meta, of "[0, r, c, k]"] range [of "[0, r, c, k]"] that by simp_all
  have chunk: "(r * s + c) div red < ?nc" if "r < bd" "c < s" for r c
  proof -
    have "r * s + c + 1 \<le> bd * s" using mult_add_less(1) [OF that] by simp
    then have "(r * s + c + red) div red \<le> ?nc" using red by (intro div_le_mono) simp
    then show ?thesis using red by simp
  qed
  have "\<forall>(d, r, c, k) \<in> set ?L. d = 0 \<and> in_range [0, r, c, k] (t_shape meta)
     \<and> 0 \<le> t_at meta [0, r, c, k] \<and> t_at meta [0, r, c, k] < int e \<and> (r * s + c) div red < ?nc"
    using chunk m tens_shape [OF meta] by (auto simp: remap_indices_def)
  from remap_fold [OF this, of topk "zeros [1, bd, s, e]" "zeros [1, 1, ?nc, e]", unfolded zeros_sel]
  obtain mp rd where f: "rfold (remap_step topk meta e s red ?nc) (zeros [1, bd, s, e], zeros [1, 1, ?nc, e]) ?L = Inr (mp, rd)"
    "t_shape rd = [1, 1, ?nc, e]"
    "\<And>c g'. t_at rd [0, 0, c, g'] =
         (if \<exists>r p k. (0, r, p, k) \<in> set ?L \<and> (r * s + p) div red = c \<and> t_at meta [0, r, p, k] = int g' then 1 else 0)"
    by blast
  have eq: "(\<exists>r p k. (0, r, p, k) \<in> set ?L \<and> (r * s + p) div red = c \<and> t_at meta [0, r, p, k] = int g')
      \<longleftrightarrow> (\<exists>r < bd. \<exists>p < s. \<exists>k < nk. (r * s + p) div red = c \<and> g [0, r, p, k] = g')" for c g'
    unfolding mem using m by fastforce
  have "tens rd [1, 1, ?nc, e] (\<lambda>i.
      if \<exists>r < bd. \<exists>c < s. \<exists>k < nk. (r * s + c) div red = i ! 2 \<and> g [0, r, c, k] = i ! 3 then 1 else 0)"
  proof (rule tensI)
    fix i assume "in_range i [1, 1, ?nc, e]"
    then obtain c g' where i: "i = [0, 0, c, g']" by (auto simp: in_range_Cons)
    show "t_at rd i = (if \<exists>r < bd. \<exists>c < s. \<exists>k < nk. (r * s + c) div red = i ! 2 \<and> g [0, r, c, k] = i ! 3 then 1 else 0)"
      unfolding i f(3) eq by simp
  qed (rule f(2))
  moreover have "moe_expert_token_remap xla CPU topk mapping meta red = Inr (mp, rd)"
    using f(1) topk map red tens_shape [OF meta] by (simp add: moe_expert_token_remap_def Let_def)
  ultimately show ?thesis by blast
qed


section \<open>Masks\<close>

text \<open>The block a token is in, and the masks that let no chosen expert be skipped.\<close>

definition block_at :: "bool \<Rightarrow> nat \<Rightarrow> nat \<Rightarrow> nat \<times> nat" where
  "block_at split_seq r c = (if split_seq then (r, c div 32) else (r div 32, c))"

definition mask_covers :: "bool \<Rightarrow> nat \<Rightarrow> nat \<Rightarrow> nat \<Rightarrow> (nat list \<Rightarrow> nat) \<Rightarrow> (nat list \<Rightarrow> rat) \<Rightarrow> bool" where
  "mask_covers split_seq bd s nk g w \<longleftrightarrow>
     (\<forall>r < bd. \<forall>c < s. \<forall>k < nk. case block_at split_seq r c of (a, b) \<Rightarrow> w [a, b, 0, g [0, r, c, k]] = 1)"

definition custom_calls_ok :: "moe_xla \<Rightarrow> bool" where
  "custom_calls_ok xla \<longleftrightarrow>
     (\<forall>a b sp nnz fa fb out. sparse_matmul (x_matmul xla) CPU a b sp nnz fa fb = Inr out
        \<longrightarrow> sparse_matmul (x_matmul xla) XLA a b sp nnz fa fb = Inr out)
     \<and> (\<forall>x idx mapping nd axis out. all_to_all_dispatch (x_dispatch xla) CPU x idx mapping nd axis = Inr out
        \<longrightarrow> all_to_all_dispatch (x_dispatch xla) XLA x idx mapping nd axis = Inr out)
     \<and> (\<forall>topk mapping meta red out. moe_expert_token_remap (x_remap xla) CPU topk mapping meta red = Inr out
        \<longrightarrow> moe_expert_token_remap (x_remap xla) XLA topk mapping meta red = Inr out)
     \<and> (\<forall>x meta mapping nd axis nk shard out. all_to_all_combine (x_combine xla) CPU x meta mapping nd axis nk shard = Inr out
        \<longrightarrow> all_to_all_combine (x_combine xla) XLA x meta mapping nd axis nk shard = Inr out)"

lemma custom_callsD:
  assumes "custom_calls_ok xla"
  shows "sparse_matmul (x_matmul xla) CPU a b sp nnz fa fb = Inr out
      \<Longrightarrow> sparse_matmul (x_matmul xla) XLA a b sp nnz fa fb = Inr out"
    "all_to_all_dispatch (x_dispatch xla) CPU x idx mapping nd axis = Inr (d, m)
      \<Longrightarrow> all_to_all_dispatch (x_dispatch xla) XLA x idx mapping nd axis = Inr (d, m)"
    "moe_expert_token_remap (x_remap xla) CPU topk mapping meta red = Inr (mp, rd)
      \<Longrightarrow> moe_expert_token_remap (x_remap xla) XLA topk mapping meta red = Inr (mp, rd)"
    "all_to_all_combine (x_combine xla) CPU y meta mapping nd axis nk shard = Inr cout
      \<Longrightarrow> all_to_all_combine (x_combine xla) XLA y meta mapping nd axis nk shard = Inr cout"
  using assms by (simp_all add: custom_calls_ok_def)

lemma fused_sparsity_tens:
  assumes plan: "split_plan bd s = Inr (split_seq, da, db)" and bd: "bd = b * mm_dispatch_devices mlp"
    and logits: "t_shape logits = [b, s, e]" and meta: "tens meta [1, bd, s, nk] (\<lambda>i. int (g i))"
    and range: "\<And>i. in_range i [1, bd, s, nk] \<Longrightarrow> g i < e"
    and map: "last (t_shape (mm_mapping mlp)) \<noteq> 0" and xla: "custom_calls_ok xla" and e: "mm_num_experts mlp = e"
  shows "\<exists>sp. fused_sparsity xla XLA mlp (split_seq, da, db) logits meta = Inr sp
    \<and> tens sp [da, db, 1, e] (\<lambda>i.
         if \<exists>r < bd. \<exists>c < s. \<exists>k < nk. (r * s + c) div 32 = i ! 0 * db + i ! 1 \<and> g [0, r, c, k] = i ! 3 then 1 else 0)"
proof -
  let ?w = "\<lambda>i. if \<exists>r < bd. \<exists>c < s. \<exists>k < nk. (r * s + c) div 32 = i ! 2 \<and> g [0, r, c, k] = i ! 3 then 1 else 0 :: rat"
  have topk: "t_shape (unsqueeze (repeat_first logits (mm_dispatch_devices mlp)) 0) = [1, bd, s, e]"
    by (simp add: unsqueeze_def repeat_first_def logits bd mult.commute)
  have nc: "(bd * s + 32 - 1) div 32 = da * db"
  proof -
    have "bd * s = da * db * 32" using split_planD [OF plan] by (auto split: if_splits)
    then show ?thesis by simp
  qed
  obtain mp rd where r: "moe_expert_token_remap (x_remap xla) CPU
      (unsqueeze (repeat_first logits (mm_dispatch_devices mlp)) 0) (mm_mapping mlp) meta 32 = Inr (mp, rd)"
    "tens rd [1, 1, da * db, e] ?w"
    using remap_tens [OF topk meta range map, of 32 "x_remap xla"] unfolding nc by auto
  have "\<exists>sp. view rd [da, db, 1, e] = Inr sp \<and> tens sp [da, db, 1, e] (\<lambda>i. ?w [0, 0, i ! 0 * db + i ! 1, i ! 3])"
    by (rule view_tens [OF r(2)]) (auto simp: in_range_Cons mult_add_less algebra_simps)
  then show ?thesis using custom_callsD(3) [OF xla r(1)] by (simp add: fused_sparsity_def e res_simps)
qed

lemma fused_mask_covers:
  assumes plan: "split_plan bd s = Inr (split_seq, da, db)" and one: "split_seq \<or> s = 1"
  shows "mask_covers split_seq bd s nk g (\<lambda>i.
     if \<exists>r < bd. \<exists>c < s. \<exists>k < nk. (r * s + c) div 32 = i ! 0 * db + i ! 1 \<and> g [0, r, c, k] = i ! 3 then 1 else 0)"
proof -
  have "(r * s + c) div 32 = a * db + b" if "block_at split_seq r c = (a, b)" "c < s" for r c a b
    using split_planD [OF plan] one that
    by (auto simp: block_at_def algebra_simps split: if_splits)
  note chunk = this
  show ?thesis unfolding mask_covers_def
  proof (intro allI impI)
    fix r c k assume *: "r < bd" "c < s" "k < nk"
    obtain a b where ab: "block_at split_seq r c = (a, b)" by fastforce
    have "\<exists>r' < bd. \<exists>c' < s. \<exists>k' < nk. (r' * s + c') div 32 = a * db + b \<and> g [0, r', c', k'] = g [0, r, c, k]"
      using chunk [OF ab *(2)] * by blast
    then show "case block_at split_seq r c of (a, b) \<Rightarrow> (if \<exists>r' < bd. \<exists>c' < s. \<exists>k' < nk.
        (r' * s + c') div 32 = [a, b, 0, g [0, r, c, k]] ! 0 * db + [a, b, 0, g [0, r, c, k]] ! 1
        \<and> g [0, r', c', k'] = [a, b, 0, g [0, r, c, k]] ! 3 then 1 else 0 :: rat) = 1"
      by (simp add: ab)
  qed
qed


text \<open>The manual mask counts the tokens of the block that chose the expert, and is cut at one.\<close>

lemma manual_sparsity_tens:
  assumes plan: "split_plan bd s = Inr (split_seq, da, db)" and meta: "tens meta [1, bd, s, nk] (\<lambda>i. int (g i))"
    and range: "\<And>i. in_range i [1, bd, s, nk] \<Longrightarrow> g i < e"
    and e: "mm_num_experts mlp = e" "mm_top_k mlp = nk"
  shows "\<exists>sp w. manual_sparsity mlp (split_seq, da, db) bd s meta = Inr sp \<and> tens sp [da, db, 1, e] w
    \<and> mask_covers split_seq bd s nk g w"
proof -
  define rows where "rows = (if split_seq then [bd, s div 32 * 32] else [bd div 32 * 32, s])"
  define four where "four = (if split_seq then [bd, s div 32, 32, nk] else [bd div 32, 32, s, nk])"
  define spread where "spread = (if split_seq then [bd, s div 32, 32, e] else [bd div 32, 32, s, e])"
  note p = split_planD [OF plan]
  have rows: "rows = [bd, s]" using p by (auto simp: rows_def split: if_splits)
  obtain m0 where m0: "first_of meta = Inr m0" "tens m0 [bd, s, nk] (\<lambda>i. int (g (0 # i)))"
    using meta by (auto simp: first_of_def tens_def in_range_Cons)
  have size: "prod_list four = bd * s * nk" "prod_list spread = bd * s * e"
    using p by (auto simp: four_def spread_def split: if_splits)
  obtain m1 m2 where m2: "view m0 four = Inr m1" "view m1 (rows @ [nk]) = Inr m2"
    "tens m2 [bd, s, nk] (\<lambda>i. int (g (0 # i)))"
    using view_view_tens [OF m0(2), of four] size(1) by (auto simp: rows)
  have "tens (unsqueeze m2 2) (take 2 [bd, s, nk] @ 1 # drop 2 [bd, s, nk]) (\<lambda>i. int (g (0 # butlast (butlast i) @ [last i])))"
    by (rule tens_cong [OF unsqueeze_tens [OF m2(3)]]) (auto simp: in_range_Cons)
  then have index: "tens (unsqueeze m2 2) ([bd, s, 1] @ [nk]) (\<lambda>i. int (g (0 # butlast (butlast i) @ [last i])))" by simp
  have src: "tens (full_tensor (t_shape (unsqueeze m2 2)) 1) ([bd, s, 1] @ [nk]) (\<lambda>_. 1 :: rat)"
    using tens_shape [OF index] by (metis full_tensor_tens)
  have inr: "g (0 # butlast (butlast i) @ [last i]) < e" if "in_range i ([bd, s, 1] @ [nk])" for i
    using that range [of "0 # butlast (butlast i) @ [last i]"] by (auto simp: in_range_Cons)
  define chosen where "chosen r c x \<longleftrightarrow> (\<exists>k < nk. g [0, r, c, k] = x)" for r c x
  obtain m3 where m3: "scatter_last (full_tensor ([bd, s, 1] @ [e]) 0) (unsqueeze m2 2)
      (full_tensor (t_shape (unsqueeze m2 2)) (1 :: rat)) = Inr m3"
    "tens m3 ([bd, s, 1] @ [e]) (\<lambda>i. let ks = filter (\<lambda>k. g (0 # butlast (butlast (butlast i @ [k])) @ [last (butlast i @ [k])]) = last i) [0..<nk]
       in if ks \<noteq> [] then 1 else 0)"
    using scatter_last_tens [OF full_tensor_tens [where x = 0] index src inr] by auto
  have "tens m3 ([bd, s, 1] @ [e]) (\<lambda>i. if chosen (i ! 0) (i ! 1) (i ! 3) then 1 else 0 :: rat)"
    by (rule tens_cong [OF m3(2)]) (auto simp: in_range_Cons chosen_def filter_empty_conv)
  then have m3': "tens m3 [bd, s, 1, e] (\<lambda>i. if chosen (i ! 0) (i ! 1) (i ! 3) then 1 else 0 :: rat)" by simp
  define w where "w i = min (sum_list (map (\<lambda>m. case token_of split_seq (i ! 0) (i ! 1) m of (r, c) \<Rightarrow>
      (if chosen r c (i ! 3) then 1 else (0 :: rat))) [0..<32])) 1" for i
  have "\<exists>m4. view m3 spread = Inr m4
      \<and> tens (unsqueeze (tensor_map (\<lambda>x. min x 1) (sum_dim m4 (if split_seq then 2 else 1))) 2) [da, db, 1, e] w"
  proof -
    define d :: nat where "d = (if split_seq then 2 else 1)"
    define lead where "lead = (if split_seq then [da, db] else [da])"
    define rest where "rest = (if split_seq then [e] else [db, e])"
    define f where "f i = (if chosen (i ! 0) (i ! 1) (i ! 3) then 1 else 0 :: rat)" for i
    define src where "src j = (if split_seq then [j ! 0, j ! 1 * 32 + j ! 2, 0, j ! 3]
      else [j ! 0 * 32 + j ! 1, j ! 2, 0, j ! 3])" for j :: "nat list"
    have "\<exists>m4. view m3 (lead @ 32 # rest) = Inr m4 \<and> tens m4 (lead @ 32 # rest) (\<lambda>j. f (src j))"
      by (rule view_tens [OF m3' [folded f_def]])
        (use p in \<open>auto simp: lead_def rest_def src_def in_range_Cons algebra_simps split: if_splits\<close>)
    then obtain m4 where m4: "view m3 (lead @ 32 # rest) = Inr m4" "tens m4 (lead @ 32 # rest) (\<lambda>j. f (src j))" by blast
    have "tens (tensor_map (\<lambda>x. min x 1) (sum_dim m4 d)) (lead @ rest)
        (\<lambda>i. min (sum_list (map (\<lambda>l. f (src (take d i @ l # drop d i))) [0..<32])) 1)"
      by (rule tensor_map_tens [OF sum_dim_tens [OF m4(2)]]) (simp add: d_def lead_def)
    then have "tens (tensor_map (\<lambda>x. min x 1) (sum_dim m4 d)) [da, db, e]
        (\<lambda>i. min (sum_list (map (\<lambda>l. f (src (take d i @ l # drop d i))) [0..<32])) 1)"
      by (simp add: lead_def rest_def split: if_splits)
    from unsqueeze_tens [OF this, of 2]
    have "tens (unsqueeze (tensor_map (\<lambda>x. min x 1) (sum_dim m4 d)) 2) (take 2 [da, db, e] @ 1 # drop 2 [da, db, e]) w"
      by (rule tens_cong) (auto simp: in_range_Cons w_def f_def src_def d_def token_of_def)
    moreover have "spread = lead @ 32 # rest"
      using p by (auto simp: spread_def lead_def rest_def split: if_splits)
    ultimately show ?thesis using m4(1) by (simp add: d_def)
  qed
  moreover have "mask_covers split_seq bd s nk g w"
    unfolding mask_covers_def
  proof (intro allI impI)
    fix r c k assume *: "r < bd" "c < s" "k < nk"
    obtain a b where ab: "block_at split_seq r c = (a, b)" by fastforce
    define h' where "h' m = (case token_of split_seq a b m of (r', c') \<Rightarrow> (if chosen r' c' (g [0, r, c, k]) then 1 else (0 :: rat)))" for m
    let ?m = "if split_seq then c mod 32 else r mod 32"
    have "token_of split_seq a b ?m = (r, c)" using ab by (auto simp: block_at_def token_of_def split: if_splits)
    then have "h' ?m = 1" using *(3) by (auto simp: h'_def chosen_def)
    moreover have "h' ?m \<le> sum_list (map h' [0..<32])"
      by (rule member_le_sum) (auto simp: h'_def split: prod.splits)
    ultimately have "min (sum_list (map h' [0..<32])) 1 = 1" by simp
    then show "case block_at split_seq r c of (a, b) \<Rightarrow> w [a, b, 0, g [0, r, c, k]] = 1"
      by (simp add: ab w_def h'_def [abs_def])
  qed
  ultimately show ?thesis
    using m0(1) m2(1,2) m3(1)
    by (auto simp: manual_sparsity_def e four_def [symmetric] rows_def [symmetric] spread_def [symmetric] rows res_simps Let_def)
qed


section \<open>The experts\<close>

text \<open>What an expert makes of a hidden vector.\<close>

definition expert_out :: "(rat \<Rightarrow> rat) \<Rightarrow> moe_mlp \<Rightarrow> nat \<Rightarrow> nat \<Rightarrow> (nat \<Rightarrow> rat) \<Rightarrow> nat \<Rightarrow> rat" where
  "expert_out sigmoid mlp h e x j =
     (let ex = mm_experts mlp;
          unit = (\<lambda>l. dot h x (\<lambda>r. t_at (gate_up_proj ex) [e, r, l]) + t_at (gate_up_proj_bias ex) [e, l])
      in dot (mm_inter mlp) (\<lambda>l. act_entry sigmoid mlp (unit (2 * l)) (unit (1 + 2 * l)))
           (\<lambda>l. t_at (down_proj ex) [e, l, j]) + t_at (down_proj_bias ex) [e, j])"

definition mlp_sized :: "moe_mlp \<Rightarrow> nat \<Rightarrow> bool" where
  "mlp_sized mlp h \<longleftrightarrow>
     (let ex = mm_experts mlp; e = mm_num_experts mlp; ni = mm_inter mlp
      in 0 < e \<and> 0 < ni \<and> t_shape (gate_up_proj ex) = [e, h, 2 * ni] \<and> t_shape (gate_up_proj_bias ex) = [e, 2 * ni]
         \<and> t_shape (down_proj ex) = [e, ni, h] \<and> t_shape (down_proj_bias ex) = [e, h])"

lemma mlp_sized_tens:
  assumes "mlp_sized mlp h"
  defines "ex \<equiv> mm_experts mlp" and "e \<equiv> mm_num_experts mlp" and "ni \<equiv> mm_inter mlp"
  shows "tens (unsqueeze (gate_up_proj ex) 0) [1, e, h, 2 * ni] (\<lambda>i. t_at (gate_up_proj ex) (tl i))"
    "tens (gate_up_proj_bias ex) [e, 2 * ni] (t_at (gate_up_proj_bias ex))"
    "tens (down_proj_bias ex) [e, h] (t_at (down_proj_bias ex))"
    "\<exists>down. view_rest (down_proj ex) [1, e, ni] = Inr down \<and> tens down [1, e, ni, h] (\<lambda>i. t_at (down_proj ex) (tl i))"
proof -
  have t: "tens t (t_shape t) (t_at t)" for t :: "rat tensor" by (simp add: tens_def)
  have sh: "t_shape (gate_up_proj ex) = [e, h, 2 * ni]" "t_shape (gate_up_proj_bias ex) = [e, 2 * ni]"
    "t_shape (down_proj ex) = [e, ni, h]" "t_shape (down_proj_bias ex) = [e, h]" "0 < e" "0 < ni"
    using assms(1) by (simp_all add: mlp_sized_def ex_def e_def ni_def Let_def)
  show "tens (unsqueeze (gate_up_proj ex) 0) [1, e, h, 2 * ni] (\<lambda>i. t_at (gate_up_proj ex) (tl i))"
    using unsqueeze_tens [OF t [of "gate_up_proj ex"], of 0] by (simp add: sh drop_Suc)
  show "tens (gate_up_proj_bias ex) [e, 2 * ni] (t_at (gate_up_proj_bias ex))"
    "tens (down_proj_bias ex) [e, h] (t_at (down_proj_bias ex))"
    using t [of "gate_up_proj_bias ex"] t [of "down_proj_bias ex"] by (simp_all add: sh)
  have d: "tens (down_proj ex) [e, ni, h] (t_at (down_proj ex))" using t [of "down_proj ex"] by (simp add: sh)
  have "\<exists>down. view (down_proj ex) [1, e, ni, h] = Inr down \<and> tens down [1, e, ni, h] (\<lambda>i. t_at (down_proj ex) (tl i))"
    by (rule view_tens [OF d]) (auto simp: in_range_Cons)
  then show "\<exists>down. view_rest (down_proj ex) [1, e, ni] = Inr down \<and> tens down [1, e, ni, h] (\<lambda>i. t_at (down_proj ex) (tl i))"
    using sh by (simp add: view_rest_def)
qed

text \<open>What the block of a token holds before the outputs are laid out: the expert's output without its
  bias, when the mask \<open>w\<close> marks the expert.\<close>

definition block_entry ::
  "(rat \<Rightarrow> rat) \<Rightarrow> moe_mlp \<Rightarrow> bool \<Rightarrow> nat \<Rightarrow> nat \<Rightarrow> (nat list \<Rightarrow> rat) \<Rightarrow> (nat list \<Rightarrow> rat) \<Rightarrow> nat list \<Rightarrow> rat" where
  "block_entry sigmoid mlp split_seq db h d w i =
     (let ex = mm_experts mlp; a = i ! 0 div db; b = i ! 0 mod db; e = i ! 1; v = w [a, b, 0, e];
          unit = (\<lambda>l. dot h (\<lambda>x. case token_of split_seq a b (i ! 2) of (r, c) \<Rightarrow> d [0, r, c, x])
                         (\<lambda>x. t_at (gate_up_proj ex) [e, x, l]) * v + t_at (gate_up_proj_bias ex) [e, l])
      in dot (mm_inter mlp) (\<lambda>l. act_entry sigmoid mlp (unit (2 * l)) (unit (1 + 2 * l)))
           (\<lambda>l. t_at (down_proj ex) [e, l, i ! 3]) * v)"

lemma block_entry_marked:
  assumes "split_plan bd s = Inr (split_seq, da, db)" "r < bd" "c < s"
    and "block_of split_seq db r c = (k, m)" "block_at split_seq r c = (a, b)"
  shows "w [a, b, 0, e] = 1 \<Longrightarrow> block_entry sigmoid mlp split_seq db h d w [k, e, m, j] + t_at (down_proj_bias (mm_experts mlp)) [e, j]
      = expert_out sigmoid mlp h e (\<lambda>x. d [0, r, c, x]) j"
    "w [a, b, 0, e] = 0 \<Longrightarrow> block_entry sigmoid mlp split_seq db h d w [k, e, m, j] = 0"
proof -
  have k: "k div db = a" "k mod db = b" "token_of split_seq a b m = (r, c)"
    using split_planD [OF assms(1)] assms(2-5)
    by (auto simp: block_of_def block_at_def token_of_def less_mult_imp_div_less split: if_splits)
  show "block_entry sigmoid mlp split_seq db h d w [k, e, m, j] + t_at (down_proj_bias (mm_experts mlp)) [e, j]
      = expert_out sigmoid mlp h e (\<lambda>x. d [0, r, c, x]) j" if "w [a, b, 0, e] = 1"
    using that by (simp add: block_entry_def expert_out_def k Let_def)
  show "block_entry sigmoid mlp split_seq db h d w [k, e, m, j] = 0" if "w [a, b, 0, e] = 0"
    using that by (simp add: block_entry_def k Let_def)
qed

lemma sparse_experts_tens:
  assumes plan: "split_plan bd s = Inr (split_seq, da, db)" and mlp: "mlp_sized mlp h" and xla: "custom_calls_ok xla"
    and d: "tens disp [1, bd, s, h] d" and sp: "tens sp [da, db, 1, mm_num_experts mlp] w" and s: "0 < db"
  shows "\<exists>v. sparse_experts sigmoid xla XLA mlp (split_seq, da, db) bd s h sp disp = Inr v
    \<and> laid_out (db = 1 \<and> \<not> split_seq) v (mm_num_experts mlp) bd s h (\<lambda>e r c j. case block_of split_seq db r c of (k, m) \<Rightarrow>
         block_entry sigmoid mlp split_seq db h d w [k, e, m, j] + t_at (down_proj_bias (mm_experts mlp)) [e, j])"
proof -
  let ?ex = "mm_experts mlp" and ?e = "mm_num_experts mlp" and ?ni = "mm_inter mlp"
  note W = mlp_sized_tens [OF mlp]
  obtain down where down: "view_rest (down_proj ?ex) [1, ?e, ?ni] = Inr down"
    "tens down [1, ?e, ?ni, h] (\<lambda>i. t_at (down_proj ?ex) (tl i))" using W(4) by blast
  obtain hid where hid: "to_blocks (split_seq, da, db) bd s h disp = Inr hid"
    "tens hid [da, db, 32, h] (\<lambda>i. case token_of split_seq (i ! 0) (i ! 1) (i ! 2) of (r, c) \<Rightarrow> d [0, r, c, i ! 3])"
    using to_blocks_tens [OF plan d] by blast
  obtain g where g: "sparse_matmul (x_matmul xla) CPU hid (unsqueeze (gate_up_proj ?ex) 0) sp (Some 0) False True = Inr g"
    "tens g [da, db, 1, ?e, 32, 2 * ?ni] (\<lambda>i. dot h
        (\<lambda>l. (\<lambda>i. case token_of split_seq (i ! 0) (i ! 1) (i ! 2) of (r, c) \<Rightarrow> d [0, r, c, i ! 3]) [i ! 0, i ! 1, i ! 4, l])
        (\<lambda>l. t_at (gate_up_proj ?ex) (tl [0, i ! 3, l, i ! 5])) * w [i ! 0, i ! 1, 0, i ! 3])"
    using gate_matmul_tens [OF hid(2) W(1) sp] by blast
  have "tens (squeeze g 2) ([da, db] @ [?e, 32, 2 * ?ni]) (\<lambda>i. dot h
        (\<lambda>l. case token_of split_seq (i ! 0) (i ! 1) (i ! 3) of (r, c) \<Rightarrow> d [0, r, c, l])
        (\<lambda>l. t_at (gate_up_proj ?ex) [i ! 2, l, i ! 4]) * w [i ! 0, i ! 1, 0, i ! 2])"
    by (rule tens_cong [OF squeeze_tens [of g "[da, db]"]]) (use g(2) in \<open>auto simp: in_range_Cons\<close>)
  then have sq: "tens (squeeze g 2) [da, db, ?e, 32, 2 * ?ni] (\<lambda>i. dot h
        (\<lambda>l. case token_of split_seq (i ! 0) (i ! 1) (i ! 3) of (r, c) \<Rightarrow> d [0, r, c, l])
        (\<lambda>l. t_at (gate_up_proj ?ex) [i ! 2, l, i ! 4]) * w [i ! 0, i ! 1, 0, i ! 2])" by simp
  obtain act where act: "activate_blocks sigmoid mlp (split_seq, da, db) (squeeze g 2) = Inr act"
    "tens act [da * db, ?e, 32, ?ni] (\<lambda>i. act_entry sigmoid mlp
       ((\<lambda>i. dot h (\<lambda>l. case token_of split_seq (i ! 0) (i ! 1) (i ! 3) of (r, c) \<Rightarrow> d [0, r, c, l])
        (\<lambda>l. t_at (gate_up_proj ?ex) [i ! 2, l, i ! 4]) * w [i ! 0, i ! 1, 0, i ! 2])
         [i ! 0 div db, i ! 0 mod db, i ! 1, i ! 2, 2 * i ! 3] + t_at (gate_up_proj_bias ?ex) [i ! 1, 2 * i ! 3])
       ((\<lambda>i. dot h (\<lambda>l. case token_of split_seq (i ! 0) (i ! 1) (i ! 3) of (r, c) \<Rightarrow> d [0, r, c, l])
        (\<lambda>l. t_at (gate_up_proj ?ex) [i ! 2, l, i ! 4]) * w [i ! 0, i ! 1, 0, i ! 2])
         [i ! 0 div db, i ! 0 mod db, i ! 1, i ! 2, 1 + 2 * i ! 3] + t_at (gate_up_proj_bias ?ex) [i ! 1, 1 + 2 * i ! 3]))"
    using activate_blocks_tens [OF sq W(2) refl refl s] by blast
  have "\<exists>spd. view sp [1, 1, da * db, ?e] = Inr spd
      \<and> tens spd [1, 1, da * db, ?e] (\<lambda>i. w [i ! 2 div db, i ! 2 mod db, 0, i ! 3])"
  proof (rule view_tens [OF sp])
    have "?e * (k mod db) + ?e * (db * (k div db)) = k * ?e" for k using mod_div_flat(1) [of ?e k db] by simp
    then show "in_range [j ! 2 div db, j ! 2 mod db, 0, j ! 3] [da, db, 1, ?e]
        \<and> flat [da, db, 1, ?e] [j ! 2 div db, j ! 2 mod db, 0, j ! 3] = flat [1, 1, da * db, ?e] j"
      if "in_range j [1, 1, da * db, ?e]" for j
      using that by (auto simp: in_range_Cons less_mult_imp_div_less s algebra_simps)
  qed simp
  then obtain spd where spd: "view sp [1, 1, da * db, ?e] = Inr spd"
    "tens spd [1, 1, da * db, ?e] (\<lambda>i. w [i ! 2 div db, i ! 2 mod db, 0, i ! 3])" by blast
  obtain o1 where o1: "sparse_matmul (x_matmul xla) CPU act down spd (Some 0) True False = Inr o1"
    "tens o1 [da * db, ?e, 32, h] (block_entry sigmoid mlp split_seq db h d w)"
  proof -
    obtain o1 where o: "sparse_matmul (x_matmul xla) CPU act down spd (Some 0) True False = Inr o1"
      "tens o1 [da * db, ?e, 32, h] (\<lambda>i. dot ?ni (\<lambda>l. (\<lambda>i. act_entry sigmoid mlp
       ((\<lambda>i. dot h (\<lambda>l. case token_of split_seq (i ! 0) (i ! 1) (i ! 3) of (r, c) \<Rightarrow> d [0, r, c, l])
        (\<lambda>l. t_at (gate_up_proj ?ex) [i ! 2, l, i ! 4]) * w [i ! 0, i ! 1, 0, i ! 2])
         [i ! 0 div db, i ! 0 mod db, i ! 1, i ! 2, 2 * i ! 3] + t_at (gate_up_proj_bias ?ex) [i ! 1, 2 * i ! 3])
       ((\<lambda>i. dot h (\<lambda>l. case token_of split_seq (i ! 0) (i ! 1) (i ! 3) of (r, c) \<Rightarrow> d [0, r, c, l])
        (\<lambda>l. t_at (gate_up_proj ?ex) [i ! 2, l, i ! 4]) * w [i ! 0, i ! 1, 0, i ! 2])
         [i ! 0 div db, i ! 0 mod db, i ! 1, i ! 2, 1 + 2 * i ! 3] + t_at (gate_up_proj_bias ?ex) [i ! 1, 1 + 2 * i ! 3]))
         [i ! 0, i ! 1, i ! 2, l]) (\<lambda>l. t_at (down_proj ?ex) (tl [0, i ! 1, l, i ! 3]))
         * (\<lambda>i. w [i ! 2 div db, i ! 2 mod db, 0, i ! 3]) [0, 0, i ! 0, i ! 1])"
      using down_matmul_tens [OF act(2) down(2) spd(2)] by blast
    have "tens o1 [da * db, ?e, 32, h] (block_entry sigmoid mlp split_seq db h d w)"
      by (rule tens_cong [OF o(2)]) (simp add: block_entry_def Let_def)
    then show thesis using that o(1) by blast
  qed
  note run = custom_callsD(1) [OF xla]
  show ?thesis
    using from_blocks_tens [OF plan o1(2) W(3)]
      down(1) hid(1) run [OF g(1)] act(1) spd(1) run [OF o1(1)]
    by (simp add: sparse_experts_def res_simps Let_def)
qed


lemma dense_experts_tens:
  assumes plan: "split_plan bd s = Inr (split_seq, da, db)" and mlp: "mlp_sized mlp h"
    and d: "tens disp [1, bd, s, h] d" and s: "0 < db"
  shows "\<exists>v. dense_experts sigmoid mlp (split_seq, da, db) bd s h disp = Inr v
    \<and> laid_out (db = 1 \<and> \<not> split_seq) v (mm_num_experts mlp) bd s h (\<lambda>e r c j. case block_of split_seq db r c of (k, m) \<Rightarrow>
         block_entry sigmoid mlp split_seq db h d (\<lambda>_. 1) [k, e, m, j] + t_at (down_proj_bias (mm_experts mlp)) [e, j])"
proof -
  let ?ex = "mm_experts mlp" and ?e = "mm_num_experts mlp" and ?ni = "mm_inter mlp"
  note W = mlp_sized_tens [OF mlp]
  obtain down where down: "view_rest (down_proj ?ex) [1, ?e, ?ni] = Inr down"
    "tens down [1, ?e, ?ni, h] (\<lambda>i. t_at (down_proj ?ex) (tl i))" using W(4) by blast
  obtain hid where hid: "to_blocks (split_seq, da, db) bd s h disp = Inr hid"
    "tens hid [da, db, 32, h] (\<lambda>i. case token_of split_seq (i ! 0) (i ! 1) (i ! 2) of (r, c) \<Rightarrow> d [0, r, c, i ! 3])"
    using to_blocks_tens [OF plan d] by blast
  have "tens (unsqueeze hid 2) (take 2 [da, db, 32, h] @ 1 # drop 2 [da, db, 32, h])
      (\<lambda>i. case token_of split_seq (i ! 0) (i ! 1) (i ! 3) of (r, c) \<Rightarrow> d [0, r, c, i ! 4])"
    by (rule tens_cong [OF unsqueeze_tens [OF hid(2)]]) (auto simp: in_range_Cons)
  then have h5: "tens (unsqueeze hid 2) [da, db, 1, 32, h]
      (\<lambda>i. case token_of split_seq (i ! 0) (i ! 1) (i ! 3) of (r, c) \<Rightarrow> d [0, r, c, i ! 4])" by simp
  obtain g where g: "matmul (unsqueeze hid 2) (unsqueeze (gate_up_proj ?ex) 0) = Inr g"
    "tens g [da, db, ?e, 32, 2 * ?ni] (\<lambda>i. dot h
        (\<lambda>l. (\<lambda>i. case token_of split_seq (i ! 0) (i ! 1) (i ! 3) of (r, c) \<Rightarrow> d [0, r, c, i ! 4]) [i ! 0, i ! 1, 0, i ! 3, l])
        (\<lambda>l. t_at (gate_up_proj ?ex) (tl [0, i ! 2, l, i ! 4])))"
    using matmul_shared_tens [OF h5 W(1)] by blast
  have sq: "tens g [da, db, ?e, 32, 2 * ?ni] (\<lambda>i. dot h
        (\<lambda>l. case token_of split_seq (i ! 0) (i ! 1) (i ! 3) of (r, c) \<Rightarrow> d [0, r, c, l])
        (\<lambda>l. t_at (gate_up_proj ?ex) [i ! 2, l, i ! 4]))"
    by (rule tens_cong [OF g(2)]) simp
  obtain act where act: "activate_blocks sigmoid mlp (split_seq, da, db) g = Inr act"
    "tens act [da * db, ?e, 32, ?ni] (\<lambda>i. act_entry sigmoid mlp
       ((\<lambda>i. dot h (\<lambda>l. case token_of split_seq (i ! 0) (i ! 1) (i ! 3) of (r, c) \<Rightarrow> d [0, r, c, l])
        (\<lambda>l. t_at (gate_up_proj ?ex) [i ! 2, l, i ! 4]))
         [i ! 0 div db, i ! 0 mod db, i ! 1, i ! 2, 2 * i ! 3] + t_at (gate_up_proj_bias ?ex) [i ! 1, 2 * i ! 3])
       ((\<lambda>i. dot h (\<lambda>l. case token_of split_seq (i ! 0) (i ! 1) (i ! 3) of (r, c) \<Rightarrow> d [0, r, c, l])
        (\<lambda>l. t_at (gate_up_proj ?ex) [i ! 2, l, i ! 4]))
         [i ! 0 div db, i ! 0 mod db, i ! 1, i ! 2, 1 + 2 * i ! 3] + t_at (gate_up_proj_bias ?ex) [i ! 1, 1 + 2 * i ! 3]))"
    using activate_blocks_tens [OF sq W(2) refl refl s] by blast
  obtain o1 where o1: "matmul act down = Inr o1"
    "tens o1 [da * db, ?e, 32, h] (block_entry sigmoid mlp split_seq db h d (\<lambda>_. 1))"
  proof -
    obtain o1 where o: "matmul act down = Inr o1" "tens o1 [da * db, ?e, 32, h] (\<lambda>i. dot ?ni (\<lambda>l. (\<lambda>i. act_entry sigmoid mlp
       ((\<lambda>i. dot h (\<lambda>l. case token_of split_seq (i ! 0) (i ! 1) (i ! 3) of (r, c) \<Rightarrow> d [0, r, c, l])
        (\<lambda>l. t_at (gate_up_proj ?ex) [i ! 2, l, i ! 4]))
         [i ! 0 div db, i ! 0 mod db, i ! 1, i ! 2, 2 * i ! 3] + t_at (gate_up_proj_bias ?ex) [i ! 1, 2 * i ! 3])
       ((\<lambda>i. dot h (\<lambda>l. case token_of split_seq (i ! 0) (i ! 1) (i ! 3) of (r, c) \<Rightarrow> d [0, r, c, l])
        (\<lambda>l. t_at (gate_up_proj ?ex) [i ! 2, l, i ! 4]))
         [i ! 0 div db, i ! 0 mod db, i ! 1, i ! 2, 1 + 2 * i ! 3] + t_at (gate_up_proj_bias ?ex) [i ! 1, 1 + 2 * i ! 3]))
         [i ! 0, i ! 1, i ! 2, l]) (\<lambda>l. t_at (down_proj ?ex) (tl [0, i ! 1, l, i ! 3])))"
      using matmul_each_tens [OF act(2) down(2)] by blast
    have "tens o1 [da * db, ?e, 32, h] (block_entry sigmoid mlp split_seq db h d (\<lambda>_. 1))"
      by (rule tens_cong [OF o(2)]) (simp add: block_entry_def Let_def)
    then show thesis using that o(1) by blast
  qed
  show ?thesis
    using from_blocks_tens [OF plan o1(2) W(3)] down(1) hid(1) g(1) act(1) o1(1)
    by (simp add: dense_experts_def res_simps Let_def)
qed

text \<open>The fused mask has one entry per 32 tokens that follow each other, position by position and row by
  row. It is right for the blocks when they hold the same tokens; otherwise an expert counts in a block only
  if a token of the chunk with the number of the block chose it.\<close>

definition in_chunk :: "nat \<Rightarrow> nat \<Rightarrow> nat \<Rightarrow> (nat list \<Rightarrow> nat) \<Rightarrow> nat \<Rightarrow> nat \<Rightarrow> nat \<Rightarrow> bool" where
  "in_chunk bd s nk g r c e \<longleftrightarrow>
     (\<exists>r' < bd. \<exists>c' < s. \<exists>k < nk. (r' * s + c') div 32 = r div 32 * s + c \<and> g [0, r', c', k] = e)"

definition kept :: "moe_mlp \<Rightarrow> nat \<Rightarrow> nat \<Rightarrow> (nat list \<Rightarrow> nat) \<Rightarrow> nat \<Rightarrow> nat \<Rightarrow> nat \<Rightarrow> bool" where
  "kept mlp bd s g r c e \<longleftrightarrow>
     mm_dense mlp \<or> \<not> mm_fused mlp \<or> s mod 32 = 0 \<or> s = 1 \<or> in_chunk bd s (mm_top_k mlp) g r c e"

text \<open>An expert that is not kept adds its bias only.\<close>

definition expert_or_bias :: "(rat \<Rightarrow> rat) \<Rightarrow> moe_mlp \<Rightarrow> nat \<Rightarrow> bool \<Rightarrow> nat \<Rightarrow> (nat \<Rightarrow> rat) \<Rightarrow> nat \<Rightarrow> rat" where
  "expert_or_bias sigmoid mlp h keep e x j =
     (if keep then expert_out sigmoid mlp h e x j else t_at (down_proj_bias (mm_experts mlp)) [e, j])"

lemma expert_outputs_tens:
  assumes plan: "split_plan bd s = Inr (split_seq, da, db)" and mlp: "mlp_sized mlp h" and xla: "custom_calls_ok xla"
    and d: "tens disp [1, bd, s, h] d" and s: "0 < db" and bd: "bd = b * mm_dispatch_devices mlp"
    and logits: "t_shape logits = [b, s, mm_num_experts mlp]" and meta: "tens meta [1, bd, s, mm_top_k mlp] (\<lambda>i. int (g i))"
    and range: "\<And>i. in_range i [1, bd, s, mm_top_k mlp] \<Longrightarrow> g i < mm_num_experts mlp"
    and map: "last (t_shape (mm_mapping mlp)) \<noteq> 0"
  shows "\<exists>v f. expert_outputs sigmoid xla XLA mlp (split_seq, da, db) bd s h logits meta disp = Inr v
    \<and> laid_out (db = 1 \<and> \<not> split_seq) v (mm_num_experts mlp) bd s h f
    \<and> (\<forall>r < bd. \<forall>c < s. \<forall>k < mm_top_k mlp. \<forall>j. f (g [0, r, c, k]) r c j =
         expert_or_bias sigmoid mlp h (kept mlp bd s g r c (g [0, r, c, k])) (g [0, r, c, k]) (\<lambda>x. d [0, r, c, x]) j)"
proof -
  let ?nk = "mm_top_k mlp"
  let ?f = "\<lambda>w e r c j. case block_of split_seq db r c of (k, m) \<Rightarrow>
    block_entry sigmoid mlp split_seq db h d w [k, e, m, j] + t_at (down_proj_bias (mm_experts mlp)) [e, j]"
  have entry: "?f w e r c j = expert_or_bias sigmoid mlp h keep e (\<lambda>x. d [0, r, c, x]) j"
    if "r < bd" "c < s" "block_at split_seq r c = (a, b')" "w [a, b', 0, e] = (if keep then 1 else 0)" for w e r c j a b' keep
  proof -
    obtain k m where km: "block_of split_seq db r c = (k, m)" by fastforce
    show ?thesis using block_entry_marked [OF plan that(1,2) km that(3)] that(4) by (simp add: km expert_or_bias_def)
  qed
  have covered: "\<forall>r < bd. \<forall>c < s. \<forall>k < ?nk. \<forall>j. ?f w (g [0, r, c, k]) r c j =
      expert_or_bias sigmoid mlp h True (g [0, r, c, k]) (\<lambda>x. d [0, r, c, x]) j"
    if covers: "mask_covers split_seq bd s ?nk g w" for w
  proof (intro allI impI)
    fix r c k j assume *: "r < bd" "c < s" "k < ?nk"
    obtain a b' where ab: "block_at split_seq r c = (a, b')" by fastforce
    have "w [a, b', 0, g [0, r, c, k]] = 1" using covers * ab by (auto simp: mask_covers_def split: prod.splits)
    then show "?f w (g [0, r, c, k]) r c j = expert_or_bias sigmoid mlp h True (g [0, r, c, k]) (\<lambda>x. d [0, r, c, x]) j"
      by (intro entry [OF *(1,2) ab]) simp
  qed
  have sparse: "\<exists>v. expert_outputs sigmoid xla XLA mlp (split_seq, da, db) bd s h logits meta disp = Inr v
      \<and> laid_out (db = 1 \<and> \<not> split_seq) v (mm_num_experts mlp) bd s h (?f w)"
    if dn: "\<not> mm_dense mlp" "(if mm_fused mlp then fused_sparsity xla XLA mlp (split_seq, da, db) logits meta
        else manual_sparsity mlp (split_seq, da, db) bd s meta) = Inr sp"
      and w: "tens sp [da, db, 1, mm_num_experts mlp] w" for sp w
    using sparse_experts_tens [OF plan mlp xla d w s] dn by (auto simp: expert_outputs_def res_simps)
  show ?thesis
  proof (cases "mm_dense mlp")
    case True
    obtain v where v: "dense_experts sigmoid mlp (split_seq, da, db) bd s h disp = Inr v"
      "laid_out (db = 1 \<and> \<not> split_seq) v (mm_num_experts mlp) bd s h (?f (\<lambda>_. 1))"
      using dense_experts_tens [OF plan mlp d s] by blast
    have "mask_covers split_seq bd s ?nk g (\<lambda>_. 1)" by (simp add: mask_covers_def split: prod.splits)
    from covered [OF this] show ?thesis using True v
      by (intro exI [of _ v] exI [of _ "?f (\<lambda>_. 1)"]) (simp add: expert_outputs_def kept_def)
  next
    case dn: False
    show ?thesis
    proof (cases "mm_fused mlp")
      case manual: False
      obtain sp w where sp: "manual_sparsity mlp (split_seq, da, db) bd s meta = Inr sp"
        "tens sp [da, db, 1, mm_num_experts mlp] w" "mask_covers split_seq bd s ?nk g w"
        using manual_sparsity_tens [OF plan meta range refl refl] by blast
      obtain v where v: "expert_outputs sigmoid xla XLA mlp (split_seq, da, db) bd s h logits meta disp = Inr v"
        "laid_out (db = 1 \<and> \<not> split_seq) v (mm_num_experts mlp) bd s h (?f w)"
        using sparse [OF dn _ sp(2)] sp(1) manual by auto
      from covered [OF sp(3)] show ?thesis using v manual
        by (intro exI [of _ v] exI [of _ "?f w"]) (simp add: kept_def)
    next
      case fused: True
      let ?w = "\<lambda>i. if \<exists>r < bd. \<exists>c < s. \<exists>k < ?nk. (r * s + c) div 32 = i ! 0 * db + i ! 1 \<and> g [0, r, c, k] = i ! 3 then 1 else 0 :: rat"
      obtain sp where sp: "fused_sparsity xla XLA mlp (split_seq, da, db) logits meta = Inr sp"
        "tens sp [da, db, 1, mm_num_experts mlp] ?w"
        using fused_sparsity_tens [OF plan bd logits meta range map xla refl] by blast
      obtain v where v: "expert_outputs sigmoid xla XLA mlp (split_seq, da, db) bd s h logits meta disp = Inr v"
        "laid_out (db = 1 \<and> \<not> split_seq) v (mm_num_experts mlp) bd s h (?f ?w)"
        using sparse [OF dn _ sp(2)] sp(1) fused by auto
      show ?thesis
      proof (cases "split_seq \<or> s = 1")
        case True
        then have "s mod 32 = 0 \<or> s = 1" using split_planD [OF plan] by auto
        moreover note covered [OF fused_mask_covers [OF plan True]]
        ultimately show ?thesis using v
          by (intro exI [of _ v] exI [of _ "?f ?w"]) (auto simp: kept_def)
      next
        case False
        then have ns: "\<not> split_seq" "db = s" "bd = 32 * da" using split_planD [OF plan] by auto
        have nm: "s mod 32 \<noteq> 0" using plan ns s
          by (auto simp: split_plan_def Let_def res_simps split: if_splits dest: dvd_imp_le)
        have "?f ?w e r c j = expert_or_bias sigmoid mlp h (kept mlp bd s g r c e) e (\<lambda>x. d [0, r, c, x]) j"
          if "r < bd" "c < s" for e r c j
        proof (rule entry [OF that])
          show "block_at split_seq r c = (r div 32, c)" using ns by (simp add: block_at_def)
          show "?w [r div 32, c, 0, e] = (if kept mlp bd s g r c e then 1 else 0)"
            using dn fused False nm ns(2) by (simp add: kept_def in_chunk_def)
        qed
        then show ?thesis using v by blast
      qed
    qed
  qed
qed

section \<open>Weights\<close>

definition mixture ::
  "(rat \<Rightarrow> rat) \<Rightarrow> moe_mlp \<Rightarrow> nat \<Rightarrow> (nat \<Rightarrow> nat) \<Rightarrow> (nat \<Rightarrow> rat) \<Rightarrow> (nat \<Rightarrow> rat) \<Rightarrow> nat \<Rightarrow> rat" where
  "mixture sigmoid mlp h pick weight x j =
     sum_list (map (\<lambda>k. weight k * expert_out sigmoid mlp h (pick k) x j) [0..<mm_top_k mlp])"

lemma dot_indicator: "a < n \<Longrightarrow> dot n f (\<lambda>l. if a = l then 1 else 0) = f a"
  by (simp add: dot_def interv_sum_list_conv_sum_set_nat if_distrib cong: if_cong)

lemma gathered_weights_tens:
  assumes "tens scores [t, e] v" "tens ix [t, nk] (\<lambda>i. int (g i))" "\<And>i. in_range i [t, nk] \<Longrightarrow> g i < e"
  shows "\<exists>w. gathered_weights scores ix e = Inr w \<and> tens w [t, nk] (\<lambda>i. v [i ! 0, g i])"
proof -
  obtain hot where hot: "one_hot ix e = Inr hot" "tens hot ([t, nk] @ [e]) (\<lambda>i. if g (butlast i) = last i then 1 else 0)"
    using one_hot_tens [OF assms(2,3)] by blast
  have "dot e (\<lambda>l. t_at scores [x, l]) (\<lambda>l. t_at hot [x, k, l]) = v [x, g [x, k]]" if "x < t" "k < nk" for x k
  proof -
    have "dot e (\<lambda>l. t_at scores [x, l]) (\<lambda>l. t_at hot [x, k, l])
        = dot e (\<lambda>l. v [x, l]) (\<lambda>l. if g [x, k] = l then 1 else 0)"
      using that tensD [OF assms(1)] tensD [OF hot(2)]
      by (auto simp: dot_def intro!: arg_cong [where f = sum_list])
    also have "\<dots> = v [x, g [x, k]]" using assms(3) [of "[x, k]"] that by (intro dot_indicator) simp
    finally show ?thesis .
  qed
  then show ?thesis using hot tens_shape [OF assms(1)]
    by (auto simp: gathered_weights_def tens_def in_range_Cons res_simps)
qed

lemma weighted_sum_tens:
  assumes w: "tens w [b * s, nk] v"
    and c: "tens c (if s = 1 then [nk, 1, b, h] else [nk, b, s, h])
      (\<lambda>i. if s = 1 then f (i ! 0) (i ! 2) 0 (i ! 3) else f (i ! 0) (i ! 1) (i ! 2) (i ! 3))"
  shows "\<exists>out. weighted_sum b s nk w c = Inr out
    \<and> tens out [b, s, h] (\<lambda>i. sum_list (map (\<lambda>k. f k (i ! 0) (i ! 1) (i ! 2) * v [i ! 0 * s + i ! 1, k]) [0..<nk]))"
proof (cases "s = 1")
  case True
  have "\<exists>w1. view w [b, nk] = Inr w1 \<and> tens w1 [b, nk] v"
    using view_tens [OF w, of "[b, nk]" "\<lambda>i. i"] True by simp
  then obtain w1 where w1: "view w [b, nk] = Inr w1" "tens w1 [b, nk] v" by blast
  have "tens (unsqueeze (permute w1 [1, 0]) 2) (take 2 [nk, b] @ 1 # drop 2 [nk, b]) (\<lambda>i. v [i ! 1, i ! 0])"
    by (rule tens_cong [OF unsqueeze_tens [OF permute_known(6) [OF w1(2)]]]) (auto simp: in_range_Cons)
  then have w2: "tens (unsqueeze (permute w1 [1, 0]) 2) ([nk, b] @ [1]) (\<lambda>i. v [i ! 1, i ! 0])" by simp
  have "tens (squeeze c 1) ([nk] @ [b, h]) (\<lambda>i. f (i ! 0) (i ! 1) 0 (i ! 2))"
    by (rule tens_cong [OF squeeze_tens [of c "[nk]"]]) (use c True in \<open>auto simp: in_range_Cons\<close>)
  then have c2: "tens (squeeze c 1) ([nk, b] @ [h]) (\<lambda>i. f (i ! 0) (i ! 1) 0 (i ! 2))" by simp
  obtain p where p: "tensor_op (*) (squeeze c 1) (unsqueeze (permute w1 [1, 0]) 2) = Inr p"
    "tens p ([nk, b] @ [h]) (\<lambda>i. f (i ! 0) (i ! 1) 0 (i ! 2) * v [(butlast i @ [0]) ! 1, (butlast i @ [0]) ! 0])"
    using tensor_op_last_tens [OF c2 w2] by blast
  have "tens (sum_dim p 0) ([] @ [b, h]) (\<lambda>i. sum_list (map (\<lambda>k. f k (i ! 0) 0 (i ! 1) * v [i ! 0, k]) [0..<nk]))"
    by (rule tens_cong [OF sum_dim_tens [of p "[]" nk "[b, h]"]]) (use p(2) in \<open>auto simp: in_range_Cons\<close>)
  then have sd: "tens (sum_dim p 0) [b, h] (\<lambda>i. sum_list (map (\<lambda>k. f k (i ! 0) 0 (i ! 1) * v [i ! 0, k]) [0..<nk]))" by simp
  have "tens (unsqueeze (sum_dim p 0) 1) (take 1 [b, h] @ 1 # drop 1 [b, h])
      (\<lambda>i. sum_list (map (\<lambda>k. f k (i ! 0) (i ! 1) (i ! 2) * v [i ! 0 * s + i ! 1, k]) [0..<nk]))"
    by (rule tens_cong [OF unsqueeze_tens [OF sd]]) (auto simp: in_range_Cons True)
  then show ?thesis using w1(1) p(1) True by (simp add: weighted_sum_def res_simps)
next
  case False
  have "\<exists>w1. view w [b, s, nk] = Inr w1 \<and> tens w1 [b, s, nk] (\<lambda>i. v [i ! 0 * s + i ! 1, i ! 2])"
    by (rule view_tens [OF w]) (auto simp: in_range_Cons mult_add_less algebra_simps)
  then obtain w1 where w1: "view w [b, s, nk] = Inr w1" "tens w1 [b, s, nk] (\<lambda>i. v [i ! 0 * s + i ! 1, i ! 2])" by blast
  have "tens (unsqueeze (permute w1 [2, 0, 1]) 3) (take 3 [nk, b, s] @ 1 # drop 3 [nk, b, s]) (\<lambda>i. v [i ! 1 * s + i ! 2, i ! 0])"
    by (rule tens_cong [OF unsqueeze_tens [OF permute_known(7) [OF w1(2)]]]) (auto simp: in_range_Cons)
  then have w2: "tens (unsqueeze (permute w1 [2, 0, 1]) 3) ([nk, b, s] @ [1]) (\<lambda>i. v [i ! 1 * s + i ! 2, i ! 0])" by simp
  have c2: "tens c ([nk, b, s] @ [h]) (\<lambda>i. f (i ! 0) (i ! 1) (i ! 2) (i ! 3))" using c False by simp
  obtain p where p: "tensor_op (*) c (unsqueeze (permute w1 [2, 0, 1]) 3) = Inr p"
    "tens p ([nk, b, s] @ [h]) (\<lambda>i. f (i ! 0) (i ! 1) (i ! 2) (i ! 3)
       * v [(butlast i @ [0]) ! 1 * s + (butlast i @ [0]) ! 2, (butlast i @ [0]) ! 0])"
    using tensor_op_last_tens [OF c2 w2] by blast
  have "tens (sum_dim p 0) ([] @ [b, s, h])
      (\<lambda>i. sum_list (map (\<lambda>k. f k (i ! 0) (i ! 1) (i ! 2) * v [i ! 0 * s + i ! 1, k]) [0..<nk]))"
    by (rule tens_cong [OF sum_dim_tens [of p "[]" nk "[b, s, h]"]]) (use p(2) in \<open>auto simp: in_range_Cons\<close>)
  then show ?thesis using w1(1) p(1) False by (simp add: weighted_sum_def res_simps)
qed


section \<open>The forward pass of A2aSparseMLP\<close>

lemma view_same:
  assumes "tens t sh f" "prod_list sh' = prod_list sh" "\<And>j. in_range j sh' \<Longrightarrow> in_range (g j) sh \<and> flat sh (g j) = flat sh' j"
  obtains v where "view t sh' = Inr v" "tens v sh' (\<lambda>j. f (g j))"
  using view_tens [OF assms] by blast

text \<open>The entry of the output for a token: the weighted sum of what its experts add.\<close>

definition routed_sum ::
  "(rat \<Rightarrow> rat) \<Rightarrow> moe_mlp \<Rightarrow> nat \<Rightarrow> nat \<Rightarrow> nat \<Rightarrow> rat tensor \<Rightarrow> (nat \<Rightarrow> nat \<Rightarrow> nat) \<Rightarrow> rat tensor
     \<Rightarrow> nat \<Rightarrow> nat \<Rightarrow> nat \<Rightarrow> rat" where
  "routed_sum sigmoid mlp h b s scores pick hidden x y j =
     (let t = x * s + y;
          keep = kept mlp (b * mm_dispatch_devices mlp) s (\<lambda>i. pick (i ! 1 mod b * s + i ! 2) (i ! 3)) x y
      in sum_list (map (\<lambda>k. t_at scores [t, pick t k]
           * expert_or_bias sigmoid mlp h (keep (pick t k)) (pick t k) (\<lambda>r. t_at hidden [x, y, r]) j) [0..<mm_top_k mlp]))"

lemma a2a_forward_value:
  assumes mlp: "mlp_sized mlp h" and xla: "custom_calls_ok xla"
    and nd: "0 < mm_dispatch_devices mlp" and map: "last (t_shape (mm_mapping mlp)) \<noteq> 0"
    and hid: "t_shape hidden = [b, s, h]" "0 < b" "0 < s"
    and blocks: "s mod 32 = 0 \<or> b * mm_dispatch_devices mlp mod 32 = 0"
    and router: "\<forall>t. view hidden [b * s, h] = Inr t \<longrightarrow> router t = Inr (RouterTriple logits scores indices)"
    and shapes: "t_shape logits = [b * s, mm_num_experts mlp]" "t_shape scores = [b * s, mm_num_experts mlp]"
      "tens indices [b * s, mm_top_k mlp] (\<lambda>i. int (pick (i ! 0) (i ! 1)))"
    and range: "\<forall>t < b * s. \<forall>k < mm_top_k mlp. pick t k < mm_num_experts mlp"
  shows "\<exists>out. a2a_forward sigmoid xla XLA golden router mlp hidden = Inr (out, scores)
    \<and> tens out [b, s, h] (\<lambda>i. routed_sum sigmoid mlp h b s scores pick hidden (i ! 0) (i ! 1) (i ! 2))"
proof -
  let ?e = "mm_num_experts mlp" and ?nk = "mm_top_k mlp" and ?nd = "mm_dispatch_devices mlp"
  let ?bd = "b * ?nd"
  have H: "tens hidden [b, s, h] (t_at hidden)" "tens scores [b * s, ?e] (t_at scores)"
    using hid shapes by (simp_all add: tens_def)
  have e: "0 < ?e" using mlp by (simp add: mlp_sized_def Let_def)
  obtain flat_h where fh: "view hidden [b * s, h] = Inr flat_h"
    using hid by (auto simp: view_def res_simps)
  obtain lg where lg: "view_rest logits [b, s] = Inr lg" "t_shape lg = [b, s, ?e]"
    using hid shapes(1) by (auto simp: view_rest_def view_def res_simps)
  obtain ix where ix: "view indices [b, s, ?nk] = Inr ix" "tens ix [b, s, ?nk] (\<lambda>i. int (pick (i ! 0 * s + i ! 1) (i ! 2)))"
    by (rule view_same [OF shapes(3), of "[b, s, ?nk]" "\<lambda>i. [i ! 0 * s + i ! 1, i ! 2]"])
      (auto simp: in_range_Cons mult_add_less algebra_simps)
  obtain x where x: "view hidden [b, 1, s, h] = Inr x" "tens x [b, 1, s, h] (\<lambda>i. t_at hidden [i ! 0, i ! 2, i ! 3])"
    by (rule view_same [OF H(1), of "[b, 1, s, h]" "\<lambda>i. [i ! 0, i ! 2, i ! 3]"]) (auto simp: in_range_Cons)
  obtain ch where ch: "view ix [b, 1, s, ?nk] = Inr ch"
    "tens ch [b, 1, s, ?nk] (\<lambda>i. int (pick (i ! 0 * s + i ! 2) (i ! 3)))"
    by (rule view_same [OF ix(2), of "[b, 1, s, ?nk]" "\<lambda>i. [i ! 0, i ! 2, i ! 3]"]) (auto simp: in_range_Cons)
  obtain ix2 where ix2: "view ix [b * s, ?nk] = Inr ix2" "tens ix2 [b * s, ?nk] (\<lambda>i. int (pick (i ! 0) (i ! 1)))"
  proof (rule view_same [OF ix(2), of "[b * s, ?nk]" "\<lambda>i. [i ! 0 div s, i ! 0 mod s, i ! 1]"])
    have "?nk * (k mod s) + ?nk * (s * (k div s)) = k * ?nk" for k using mod_div_flat(1) [of ?nk k s] by simp
    then show "in_range [i ! 0 div s, i ! 0 mod s, i ! 1] [b, s, ?nk]
        \<and> flat [b, s, ?nk] [i ! 0 div s, i ! 0 mod s, i ! 1] = flat [b * s, ?nk] i" if "in_range i [b * s, ?nk]" for i
      using that hid(3) by (auto simp: in_range_Cons less_mult_imp_div_less algebra_simps)
  qed (use that in simp_all)
  obtain d m where dm: "all_to_all_dispatch (x_dispatch xla) CPU x ch (mm_mapping mlp) ?nd (mm_cluster_axis mlp) = Inr (d, m)"
    "tens d [1, ?bd, s, h] (\<lambda>i. t_at hidden [i ! 1 mod b, i ! 2, i ! 3])"
    "tens m [1, ?bd, s, ?nk] (\<lambda>i. int (pick (i ! 1 mod b * s + i ! 2) (i ! 3)))"
    using dispatch_tens [OF x(2) ch(2) nd, of "x_dispatch xla" "mm_mapping mlp" "mm_cluster_axis mlp"] by auto
  define g where "g i = pick (i ! 1 mod b * s + i ! 2) (i ! 3)" for i
  have m: "tens m [1, ?bd, s, ?nk] (\<lambda>i. int (g i))" using dm(3) by (simp add: g_def)
  have gr: "g i < ?e" if "in_range i [1, ?bd, s, ?nk]" for i
    using that hid(2) range mult_add_less(1) by (auto simp: g_def in_range_Cons)
  have "\<exists>split_seq da db. split_plan ?bd s = Inr (split_seq, da, db)"
  proof (rule split_plan_ex)
    show "s mod 32 = 0 \<and> 32 \<le> s \<or> ?bd mod 32 = 0 \<and> 32 \<le> ?bd"
      using blocks hid(2,3) nd by (auto simp: dvd_eq_mod_eq_0 [symmetric] dest: dvd_imp_le)
  qed
  then obtain split_seq da db where plan: "split_plan ?bd s = Inr (split_seq, da, db)" by blast
  note P = split_planD [OF plan]
  have db: "0 < db" and dec: "db = 1 \<and> \<not> split_seq \<longleftrightarrow> s = 1" using P hid(3) by (auto split: if_splits)
  obtain v f where v: "expert_outputs sigmoid xla XLA mlp (split_seq, da, db) ?bd s h lg m d = Inr v"
    "laid_out (s = 1) v ?e ?bd s h f"
    "\<forall>r < ?bd. \<forall>c < s. \<forall>k < ?nk. \<forall>j. f (g [0, r, c, k]) r c j
       = expert_or_bias sigmoid mlp h (kept mlp ?bd s g r c (g [0, r, c, k])) (g [0, r, c, k])
           (\<lambda>x. (\<lambda>i. t_at hidden [i ! 1 mod b, i ! 2, i ! 3]) [0, r, c, x]) j"
    using expert_outputs_tens [OF plan mlp xla dm(2) db refl lg(2) m gr map, unfolded dec] by blast
  define F where "F k x c j = expert_or_bias sigmoid mlp h (kept mlp ?bd s g x c (pick (x * s + c) k)) (pick (x * s + c) k)
      (\<lambda>r. t_at hidden [x, c, r]) j" for k x c j
  have F: "f (g [0, x, c, k]) x c j = F k x c j" if "x < b" "c < s" "k < ?nk" for x c k j
  proof -
    have "x < ?bd" using that(1) nd by (simp add: less_le_trans)
    from v(3) [rule_format, OF this that(2,3), of j] show ?thesis
      using that(1) by (simp add: F_def g_def [of "[0, x, c, k]"])
  qed
  define shard where "shard = (if s = 1 then 2 else 1 :: int)"
  have vs: "t_shape v = [?e, if s = 1 then s else ?bd, if s = 1 then ?bd else s, h]"
    using v(2) by (auto simp: laid_out_def tens_def)
  obtain comb where comb: "all_to_all_combine (x_combine xla) CPU v m (mm_mapping mlp) ?nd (mm_cluster_axis mlp) ?nk shard = Inr comb"
    "t_shape comb = (if shard = 1 then [?nk, b, s, h] else [?nk, s, b, h])"
    "\<forall>k < ?nk. \<forall>x < b. \<forall>c < s. \<forall>j. t_at comb (k # (if shard = 1 then [x, c] else [c, x]) @ [j]) =
       t_at v (g [0, x, c, k] # (if shard = 1 then [x, c] else [c, x]) @ [j])"
  proof -
    have "shard = 1 \<and> (if s = 1 then s else ?bd) = ?bd \<and> (if s = 1 then ?bd else s) = s
        \<or> shard = 2 \<and> (if s = 1 then s else ?bd) = s \<and> (if s = 1 then ?bd else s) = ?bd"
      by (simp add: shard_def)
    from combine_places [OF vs m gr nd this] that show thesis by blast
  qed
  have C: "tens comb (if s = 1 then [?nk, 1, b, h] else [?nk, b, s, h])
      (\<lambda>i. if s = 1 then F (i ! 0) (i ! 2) 0 (i ! 3) else F (i ! 0) (i ! 1) (i ! 2) (i ! 3))"
  proof (cases "s = 1")
    case True
    have "t_at comb [k, 0, x, j] = F k x 0 j" if a: "k < ?nk" "x < b" "j < h" for k x j
    proof -
      have bd: "x < ?bd" using a(2) nd by (simp add: less_le_trans)
      have "g [0, x, 0, k] < ?e" using gr [of "[0, x, 0, k]"] a bd True by simp
      then have "t_at v [g [0, x, 0, k], 0, x, j] = f (g [0, x, 0, k]) x 0 j"
        using v(2) a bd True by (auto simp: laid_out_def tens_def)
      then show ?thesis using comb(3) F [of x 0 k j] a True by (simp add: shard_def)
    qed
    then show ?thesis using True comb(2) by (auto simp: shard_def tens_def in_range_Cons)
  next
    case False
    have "t_at comb [k, x, c, j] = F k x c j" if a: "k < ?nk" "x < b" "c < s" "j < h" for k x c j
    proof -
      have bd: "x < ?bd" using a(2) nd by (simp add: less_le_trans)
      have "g [0, x, c, k] < ?e" using gr [of "[0, x, c, k]"] a bd by simp
      then have "t_at v [g [0, x, c, k], x, c, j] = f (g [0, x, c, k]) x c j"
        using v(2) a bd False by (auto simp: laid_out_def tens_def)
      then show ?thesis using comb(3) F [of x c k j] a False by (simp add: shard_def)
    qed
    then show ?thesis using False comb(2) by (auto simp: shard_def tens_def in_range_Cons)
  qed
  obtain w where w: "gathered_weights scores ix2 ?e = Inr w"
    "tens w [b * s, ?nk] (\<lambda>i. t_at scores [i ! 0, pick (i ! 0) (i ! 1)])"
  proof -
    have "pick (i ! 0) (i ! 1) < ?e" if "in_range i [b * s, ?nk]" for i
      using that range by (auto simp: in_range_Cons)
    from gathered_weights_tens [OF H(2) ix2(2) this] that show thesis by blast
  qed
  obtain out where out: "weighted_sum b s ?nk w comb = Inr out" "tens out [b, s, h]
      (\<lambda>i. sum_list (map (\<lambda>k. F k (i ! 0) (i ! 1) (i ! 2)
         * t_at scores [[i ! 0 * s + i ! 1, k] ! 0, pick ([i ! 0 * s + i ! 1, k] ! 0) ([i ! 0 * s + i ! 1, k] ! 1)]) [0..<?nk]))"
    using weighted_sum_tens [OF w(2) C] by blast
  have "tens out [b, s, h] (\<lambda>i. routed_sum sigmoid mlp h b s scores pick hidden (i ! 0) (i ! 1) (i ! 2))"
    by (rule tens_cong [OF out(2)]) (simp add: routed_sum_def F_def g_def [abs_def] Let_def mult.commute)
  moreover have "a2a_forward sigmoid xla XLA golden router mlp hidden = Inr (out, scores)"
  proof -
    have bd: "t_shape d ! 1 = ?bd" using tens_shape [OF dm(2)] by simp
    have "db = 1 \<and> \<not> split_seq \<longrightarrow> shard = 2" "\<not> (db = 1 \<and> \<not> split_seq) \<longrightarrow> shard = 1" using dec by (simp_all add: shard_def)
    then show ?thesis using custom_callsD(4) [OF xla comb(1)]
      by (auto simp add: a2a_forward_def Let_def hid(1) fh router [rule_format, OF fh] lg(1) ix(1) x(1) ch(1) custom_callsD(2) [OF xla dm(1)]
          bd plan v(1) ix2(1) w(1) out(1) simp del: One_nat_def)
  qed
  ultimately show ?thesis by blast
qed

text \<open>Custom calls that compute what the CPU fallback computes.\<close>

definition or_zeros :: "'a::zero tensor res \<Rightarrow> 'a tensor" where
  "or_zeros r = (case r of Inr t \<Rightarrow> t | Inl _ \<Rightarrow> zeros [])"

definition or_pair :: "('a::zero tensor \<times> 'b::zero tensor) res \<Rightarrow> 'a tensor \<times> 'b tensor" where
  "or_pair r = (case r of Inr t \<Rightarrow> t | Inl _ \<Rightarrow> (zeros [], zeros []))"

fun attr_int :: "attr \<Rightarrow> int" where
  "attr_int (AInt n) = n"
| "attr_int _ = 0"

fun attr_bool :: "attr \<Rightarrow> bool" where
  "attr_bool (ABool b) = b"
| "attr_bool _ = False"

definition arg :: "moe_call \<Rightarrow> nat \<Rightarrow> attr" where
  "arg c n = snd (mc_attrs c ! n)"

definition ref_xla :: moe_xla where
  "ref_xla =
     \<lparr> x_matmul = (\<lambda>c. or_zeros (sparse_matmul_cpu (mc_floats c ! 0) (mc_floats c ! 1) (mc_floats c ! 2)
                       (attr_bool (arg c 0)) (attr_bool (arg c 1)))),
       x_dispatch = (\<lambda>c. or_pair (all_to_all_dispatch (\<lambda>_. (zeros [], zeros [])) CPU (mc_floats c ! 0) (mc_ints c ! 0)
                       (mc_ints c ! 1) (nat (attr_int (arg c 0))) 0)),
       x_remap = (\<lambda>c. or_pair (moe_expert_token_remap (\<lambda>_. (zeros [], zeros [])) CPU (mc_floats c ! 0) (mc_ints c ! 0)
                       (mc_ints c ! 1) (nat (attr_int (arg c 0))))),
       x_combine = (\<lambda>c. or_zeros (all_to_all_combine (\<lambda>_. zeros []) CPU (mc_floats c ! 0) (mc_ints c ! 0) (mc_ints c ! 1)
                       (nat (attr_int (arg c 0))) 0 (nat (attr_int (arg c 2))) (attr_int (arg c 3)))) \<rparr>"

lemma ref_matmul:
  assumes "sparse_matmul xla CPU a b sp nnz fa fb = Inr out"
  shows "sparse_matmul (x_matmul ref_xla) XLA a b sp nnz fa fb = Inr out"
proof -
  have cpu: "sparse_matmul_cpu a b sp fa fb = Inr out" using assms by (simp add: sparse_matmul_def)
  then have "\<exists>sh. sparse_matmul_shape fa fb (t_shape a) (t_shape b) = Inr sh"
    by (cases fa; cases fb) (auto simp: sparse_matmul_shape_def sparse_matmul_cpu_def split: list.splits)
  then show ?thesis using cpu by (auto simp: sparse_matmul_def ref_xla_def arg_def or_zeros_def)
qed

lemma ref_dispatch:
  assumes "all_to_all_dispatch xla CPU x idx mapping nd axis = Inr out"
  shows "all_to_all_dispatch (x_dispatch ref_xla) XLA x idx mapping nd axis = Inr out"
  using assms by (auto simp: all_to_all_dispatch_def ref_xla_def arg_def or_pair_def split: list.splits)

lemma ref_remap:
  assumes "moe_expert_token_remap xla CPU topk mapping meta red = Inr out"
  shows "moe_expert_token_remap (x_remap ref_xla) XLA topk mapping meta red = Inr out"
  using assms by (auto simp: moe_expert_token_remap_def ref_xla_def arg_def or_pair_def res_simps Let_def split: list.splits)

lemma ref_combine:
  assumes "all_to_all_combine xla CPU x meta mapping nd axis nk shard = Inr out"
  shows "all_to_all_combine (x_combine ref_xla) XLA x meta mapping nd axis nk shard = Inr out"
proof -
  have cpu: "all_to_all_combine (\<lambda>_. zeros []) CPU x meta mapping nd 0 nk shard = Inr out"
    using assms by (simp only: all_to_all_combine_def device.case)
  obtain d where "(case t_shape x of [e, p, q, h] \<Rightarrow>
      if shard = 1 then Inr (e, p, q, h) else if shard = 2 then Inr (e, q, p, h) else Inl ValueError
      | _ \<Rightarrow> Inl ValueError) = Inr d"
    using assms unfolding all_to_all_combine_def rbind_Inr_iff by (elim exE conjE)
  then obtain e p q h where x: "t_shape x = [e, p, q, h]" and s: "shard = 1 \<or> shard = 2"
    by (auto split: list.splits if_splits)
  have nd: "nd \<noteq> 0"
  proof
    assume "nd = 0"
    then show False using assms s x by (elim disjE) (simp_all add: all_to_all_combine_def rguard_def)
  qed
  have "all_to_all_combine (x_combine ref_xla) XLA x meta mapping nd axis nk shard
      = Inr (or_zeros (all_to_all_combine (\<lambda>_. zeros []) CPU x meta mapping nd 0 nk shard))"
    using s x nd by (elim disjE) (simp_all add: all_to_all_combine_def [of _ XLA] ref_xla_def arg_def Let_def)
  then show ?thesis by (simp add: cpu or_zeros_def)
qed

lemma ref_xla_ok: "custom_calls_ok ref_xla"
  unfolding custom_calls_ok_def
  by (intro conjI allI impI) (erule ref_matmul ref_dispatch ref_remap ref_combine)+

text \<open>A module with two experts on vectors of one entry: an expert maps \<open>x\<close> to \<open>x * x + 3\<close>.\<close>

definition small_mlp :: moe_mlp where
  "small_mlp = \<lparr> mm_experts = \<lparr> gate_up_proj = full_tensor [2, 1, 2] 1, gate_up_proj_bias = full_tensor [2, 2] 0,
                    down_proj = full_tensor [2, 1, 1] 2, down_proj_bias = full_tensor [2, 1] 3 \<rparr>,
     mm_num_experts = 2, mm_top_k = 1, mm_inter = 1, mm_alpha = 1, mm_limit = 7, mm_activation = Deepseek,
     mm_dispatch_devices = 1, mm_cluster_axis = 0, mm_mapping = full_tensor [1, 1, 2, 1] 1,
     mm_fused = True, mm_dense = False \<rparr>"

definition small_router :: "nat \<Rightarrow> (nat \<Rightarrow> nat) \<Rightarrow> rat tensor \<Rightarrow> router_out res" where
  "small_router n pick _ = Inr (RouterTriple (full_tensor [n, 2] 0) (full_tensor [n, 2] 1)
     \<lparr> t_shape = [n, 1], t_at = (\<lambda>i. int (pick (i ! 0))) \<rparr>)"

lemma small_sized: "mlp_sized small_mlp 1"
  by (simp add: mlp_sized_def small_mlp_def full_tensor_def)



text \<open>C35. With the fused mask, several positions per row and rows cut into blocks, an expert of a token is
  skipped, and adds only its bias, unless one of the tokens of another group chose it: the 32 tokens that
  follow each other in row-major order at the place where the mask has the entry of the token's block.\<close>

theorem fused_mask_skips_chosen_experts:
  assumes "mlp_sized mlp h" "custom_calls_ok xla" "0 < mm_dispatch_devices mlp" "last (t_shape (mm_mapping mlp)) \<noteq> 0"
    and "t_shape hidden = [b, s, h]" "0 < b" "0 < s"
    and "s mod 32 \<noteq> 0" "1 < s" "b * mm_dispatch_devices mlp mod 32 = 0" "mm_fused mlp" "\<not> mm_dense mlp"
    and "\<forall>t. view hidden [b * s, h] = Inr t \<longrightarrow> router t = Inr (RouterTriple logits scores indices)"
    and "t_shape logits = [b * s, mm_num_experts mlp]" "t_shape scores = [b * s, mm_num_experts mlp]"
    and "tens indices [b * s, mm_top_k mlp] (\<lambda>i. int (pick (i ! 0) (i ! 1)))"
    and "\<forall>t < b * s. \<forall>k < mm_top_k mlp. pick t k < mm_num_experts mlp"
    and "mm_top_k mlp = 1" "x < b" "y < s" "j < h"
    and "\<forall>x' y'. x' < b * mm_dispatch_devices mlp \<longrightarrow> y' < s \<longrightarrow> (x' * s + y') div 32 = x div 32 * s + y
       \<longrightarrow> pick (x' mod b * s + y') 0 \<noteq> pick (x * s + y) 0"
  shows "\<exists>out. a2a_forward sigmoid xla XLA golden router mlp hidden = Inr (out, scores)
    \<and> t_at out [x, y, j] = t_at scores [x * s + y, pick (x * s + y) 0]
        * t_at (down_proj_bias (mm_experts mlp)) [pick (x * s + y) 0, j]"
proof -
  have blk: "s mod 32 = 0 \<or> b * mm_dispatch_devices mlp mod 32 = 0" using assms(10) by simp
  obtain out where out: "a2a_forward sigmoid xla XLA golden router mlp hidden = Inr (out, scores)"
    "tens out [b, s, h] (\<lambda>i. routed_sum sigmoid mlp h b s scores pick hidden (i ! 0) (i ! 1) (i ! 2))"
    using a2a_forward_value [OF assms(1-7) blk assms(13-17)] by blast
  have "\<not> kept mlp (b * mm_dispatch_devices mlp) s (\<lambda>i. pick (i ! 1 mod b * s + i ! 2) (i ! 3)) x y (pick (x * s + y) 0)"
    using assms(8,9,11,12,18,22) by (auto simp: kept_def in_chunk_def)
  then have "routed_sum sigmoid mlp h b s scores pick hidden x y j = t_at scores [x * s + y, pick (x * s + y) 0]
      * t_at (down_proj_bias (mm_experts mlp)) [pick (x * s + y) 0, j]"
    using assms(18) by (simp add: routed_sum_def expert_or_bias_def Let_def)
  then show ?thesis using out assms(19-21) by (auto simp: tens_def)
qed


theorem fused_mask_skips_chosen_experts_witness:
  "\<exists>out. a2a_forward (\<lambda>_. 1 / 2) ref_xla XLA (\<lambda>_ _ _. Inl ValueError) (small_router 64 (\<lambda>t. if t = 40 then 1 else 0))
       small_mlp \<lparr> t_shape = [32, 2, 1], t_at = (\<lambda>i. of_nat (i ! 0)) \<rparr> = Inr (out, full_tensor [64, 2] 1)
     \<and> t_at out [20, 0, 0] = 3"
proof -
  let ?pick = "\<lambda>(t :: nat) (_ :: nat). if t = 40 then 1 else 0 :: nat"
  have other: "\<forall>x' y'. x' < 32 * mm_dispatch_devices small_mlp \<longrightarrow> y' < 2 \<longrightarrow> (x' * 2 + y') div 32 = 20 div 32 * 2 + (0 :: nat)
      \<longrightarrow> ?pick (x' mod 32 * 2 + y') 0 \<noteq> ?pick ((20 :: nat) * 2 + 0) 0"
    by (auto simp: small_mlp_def)
  have "\<exists>out. a2a_forward (\<lambda>_. 1 / 2) ref_xla XLA (\<lambda>_ _ _. Inl ValueError) (small_router 64 (\<lambda>t. if t = 40 then 1 else 0))
       small_mlp \<lparr> t_shape = [32, 2, 1], t_at = (\<lambda>i. of_nat (i ! 0)) \<rparr> = Inr (out, full_tensor [64, 2] 1)
     \<and> t_at out [20, 0, 0] = t_at (full_tensor [64, 2] 1) [20 * 2 + 0, ?pick (20 * 2 + 0) 0]
         * t_at (down_proj_bias (mm_experts small_mlp)) [?pick (20 * 2 + 0) 0, 0]"
    by (rule fused_mask_skips_chosen_experts [where logits = "full_tensor [64, 2] 0" and pick = ?pick and h = 1
        and indices = "\<lparr> t_shape = [64, 1], t_at = (\<lambda>i. int (?pick (i ! 0) 0)) \<rparr>" and b = 32 and s = 2, OF _ _ _ _ _ _ _ _ _ _ _ _ _ _ _ _ _ _ _ _ _ other])
      (simp_all add: small_sized ref_xla_ok small_mlp_def mlp_sized_def full_tensor_def small_router_def tens_def)
  then show ?thesis by (simp add: small_mlp_def full_tensor_def)
qed

end
