(* ===== verification/MoeAdapters.thy ===== *)
theory MoeAdapters
  imports SparseMlp
begin

text \<open>
  The other mixture-of-experts modules of \<open>tt_torch/sparse_mlp.py\<close>: \<open>A2aSparseStackedMlp\<close>, which splits
  the gate and up projections apart when it is built, and the adapters that turn a \<open>DeepseekV3MoE\<close> into an
  \<open>A2aSparseMLP\<close> with shared experts.
\<close>

section \<open>A2aSparseStackedMlp\<close>

definition cat_last :: "'a tensor \<Rightarrow> 'a tensor \<Rightarrow> 'a tensor res" where
  "cat_last a b =
     (let n = last (t_shape a)
      in rbind (rguard (butlast (t_shape a) = butlast (t_shape b)) RuntimeError) (\<lambda>_.
         Inr \<lparr> t_shape = butlast (t_shape a) @ [n + last (t_shape b)],
               t_at = (\<lambda>i. if last i < n then t_at a i else t_at b (butlast i @ [last i - n])) \<rparr>))"

definition deinterleave :: "'a tensor \<Rightarrow> 'a tensor res" where
  "deinterleave t = cat_last (every_second t 0) (every_second t 1)"

record stacked_mlp =
  sk_experts :: moe_experts
  sk_num_experts :: nat
  sk_top_k :: nat
  sk_inter :: nat
  sk_alpha :: rat
  sk_limit :: rat
  sk_num_devices :: nat
  sk_cluster_axis :: int
  sk_mapping :: "int tensor"

text \<open>The hidden size is the one of the configuration, if it has one.\<close>

definition new_stacked_mlp ::
  "moe_experts \<Rightarrow> rat option \<Rightarrow> rat option \<Rightarrow> nat option \<Rightarrow> nat \<Rightarrow> nat \<Rightarrow> nat \<Rightarrow> int \<Rightarrow> stacked_mlp res" where
  "new_stacked_mlp ex alpha limit config_hidden num_experts top_k num_devices axis =
     (let ni = last (t_shape (gate_up_proj ex)) div 2;
          hidden_size = (case config_hidden of Some h \<Rightarrow> h | None \<Rightarrow> last (t_shape (down_proj ex)))
      in rbind (deinterleave (gate_up_proj ex)) (\<lambda>w.
         rbind (deinterleave (gate_up_proj_bias ex)) (\<lambda>b.
         rbind (view (down_proj ex) [1, num_experts, ni, hidden_size]) (\<lambda>down.
         rbind (build_expert_mapping num_experts num_devices None) (\<lambda>mapping.
         Inr \<lparr> sk_experts = \<lparr> gate_up_proj = unsqueeze w 0, gate_up_proj_bias = b,
                              down_proj = down, down_proj_bias = down_proj_bias ex \<rparr>,
               sk_num_experts = num_experts, sk_top_k = top_k, sk_inter = ni,
               sk_alpha = (case alpha of None \<Rightarrow> 1702 / 1000 | Some a \<Rightarrow> a),
               sk_limit = (case limit of None \<Rightarrow> 7 | Some l \<Rightarrow> l),
               sk_num_devices = num_devices, sk_cluster_axis = axis, sk_mapping = mapping \<rparr>)))))"

text \<open>Both halves are clamped from above together, the second then from below.\<close>

definition stacked_activate :: "(rat \<Rightarrow> rat) \<Rightarrow> stacked_mlp \<Rightarrow> rat tensor \<Rightarrow> rat tensor res" where
  "stacked_activate sigmoid mlp gate_up =
     (let clamped = tensor_map (\<lambda>x. min x (sk_limit mlp)) gate_up;
          gate = last_range clamped 0 (sk_inter mlp);
          up = tensor_map (\<lambda>x. max x (- sk_limit mlp)) (last_range clamped (sk_inter mlp) (last (t_shape clamped)))
      in tensor_op (\<lambda>g u. (u + 1) * (g * sigmoid (g * sk_alpha mlp))) gate up)"

definition stacked_forward ::
  "(rat \<Rightarrow> rat) \<Rightarrow> moe_xla \<Rightarrow> device \<Rightarrow> (rat tensor \<Rightarrow> (rat tensor \<times> rat tensor \<times> int tensor) res) \<Rightarrow> stacked_mlp
     \<Rightarrow> rat tensor \<Rightarrow> (rat tensor \<times> rat tensor) res" where
  "stacked_forward sigmoid xla dev router mlp hidden =
     (let ex = sk_experts mlp; e = sk_num_experts mlp; nk = sk_top_k mlp; ni = sk_inter mlp
      in case t_shape hidden of
        [b, s, h] \<Rightarrow>
          rbind (router hidden) (\<lambda>(_, scores, indices).
          rbind (view hidden [b, 1, s, h]) (\<lambda>x.
          rbind (view indices [b, 1, s, nk]) (\<lambda>chosen.
          rbind (all_to_all_dispatch (x_dispatch xla) dev x chosen (sk_mapping mlp) (sk_num_devices mlp) (sk_cluster_axis mlp))
            (\<lambda>(dispatched, meta).
          let bd = t_shape dispatched ! 1
          in rbind (view meta [bd, s, 1, nk]) (\<lambda>meta_indices.
          rbind (scatter_last (full_tensor [bd, s, 1, e] 0) meta_indices (full_tensor (t_shape meta_indices) 1)) (\<lambda>sparsity.
          rbind (view dispatched [bd, s, 1, h]) (\<lambda>hidden_4d.
          rbind (sparse_matmul (x_matmul xla) dev hidden_4d (gate_up_proj ex) sparsity (Some 0) False True) (\<lambda>gate_up.
          rbind (view gate_up [bd, s, e, ni * 2]) (\<lambda>gate_up.
          rbind (tensor_op (+) gate_up (gate_up_proj_bias ex)) (\<lambda>gate_up.
          rbind (stacked_activate sigmoid mlp gate_up) (\<lambda>activated.
          rbind (view activated [bd * s, e, 1, ni]) (\<lambda>activated.
          rbind (view sparsity [1, 1, bd * s, e]) (\<lambda>sparsity_down.
          rbind (sparse_matmul (x_matmul xla) dev activated (down_proj ex) sparsity_down (Some 0) True False) (\<lambda>down_out.
          rbind (tensor_op (+) (squeeze down_out 2) (down_proj_bias ex)) (\<lambda>down_out.
          rbind (view down_out [bd, s, e, h]) (\<lambda>down_out.
          rbind (all_to_all_combine (x_combine xla) dev (permute down_out [2, 0, 1, 3]) meta (sk_mapping mlp)
                   (sk_num_devices mlp) (sk_cluster_axis mlp) nk 1) (\<lambda>combined.
          rbind (view scores [b, s, nk]) (\<lambda>weights.
          rbind (tensor_op (*) combined (unsqueeze (permute weights [2, 0, 1]) 3)) (\<lambda>weighted.
          rbind (view (sum_dim weighted 0) [b, s, h]) (\<lambda>out.
          Inr (out, scores)))))))))))))))))))))
      | _ \<Rightarrow> Inl ValueError)"

section \<open>The adapter of DeepseekV3MoE\<close>

text \<open>A linear layer is its weight, one row per output. An expert that is not on this process is
  \<open>None\<close>.\<close>

record dsv3_expert =
  ds_gate :: "rat tensor"
  ds_up :: "rat tensor"
  ds_down :: "rat tensor"

definition present_experts :: "dsv3_expert option list \<Rightarrow> dsv3_expert option list" where
  "present_experts es = (let ps = filter (\<lambda>e. e \<noteq> None) es in if ps = [] then es else ps)"

text \<open>\<open>RouterAdapter.forward\<close>: two results.\<close>

definition router_adapter ::
  "(rat tensor \<Rightarrow> (int tensor \<times> rat tensor) res) \<Rightarrow> nat \<Rightarrow> rat tensor \<Rightarrow> router_out res" where
  "router_adapter gate n_experts hidden =
     rbind (gate hidden) (\<lambda>(topk_idx, topk_weight).
     rbind (rguard (t_shape topk_idx \<noteq> []) IndexError) (\<lambda>_.
     rbind (scatter_last (full_tensor [hd (t_shape topk_idx), n_experts] 0) topk_idx topk_weight) (\<lambda>scores.
     Inr (RouterPair scores topk_idx))))"

text \<open>The two transposed projections of an expert, interleaved. What is assigned may be broadcast.\<close>

definition fits :: "nat list \<Rightarrow> nat list \<Rightarrow> bool" where
  "fits sh target \<longleftrightarrow> list_all2 (\<lambda>n m. n = m \<or> n = 1) sh target"

definition gate_up_of :: "nat \<Rightarrow> nat \<Rightarrow> dsv3_expert \<Rightarrow> rat tensor res" where
  "gate_up_of h ni e =
     rbind (rguard (fits (t_shape (ds_gate e)) [ni, h] \<and> fits (t_shape (ds_up e)) [ni, h]) RuntimeError) (\<lambda>_.
     Inr \<lparr> t_shape = [h, ni * 2],
           t_at = (\<lambda>i. let w = (if i ! 1 mod 2 = 0 then ds_gate e else ds_up e)
             in t_at w (own_index (t_shape w) [i ! 1 div 2, i ! 0])) \<rparr>)"

definition stack :: "rat tensor list \<Rightarrow> rat tensor res" where
  "stack ts =
     (case ts of
        [] \<Rightarrow> Inl RuntimeError
      | t # _ \<Rightarrow>
          rbind (rguard (list_all (\<lambda>u. t_shape u = t_shape t) ts) RuntimeError) (\<lambda>_.
          Inr \<lparr> t_shape = length ts # t_shape t, t_at = (\<lambda>i. t_at (ts ! hd i) (tl i)) \<rparr>))"

definition stacked_experts :: "dsv3_expert list \<Rightarrow> moe_experts res" where
  "stacked_experts es =
     (case es of
        [] \<Rightarrow> Inl IndexError
      | first # _ \<Rightarrow>
          (case t_shape (ds_gate first) of
             [ni, h] \<Rightarrow>
               rbind (rmap (gate_up_of h ni) es) (\<lambda>gate_up_list.
               rbind (stack gate_up_list) (\<lambda>gate_up.
               rbind (stack (map (\<lambda>e. permute (ds_down e) [1, 0]) es)) (\<lambda>down.
               Inr \<lparr> gate_up_proj = gate_up, gate_up_proj_bias = full_tensor [length es, ni * 2] 0,
                     down_proj = down, down_proj_bias = full_tensor [length es, h] 0 \<rparr>)))
           | _ \<Rightarrow> Inl RuntimeError))"

text \<open>The adapter: every expert must be on this process. The weights of an expert that is \<open>None\<close> cannot be
  read.\<close>

definition deepseek_adapter :: "nat \<Rightarrow> dsv3_expert option list \<Rightarrow> moe_experts res" where
  "deepseek_adapter n_routed experts =
     (let es = present_experts experts
      in rbind (rguard (length es = n_routed) ValueError) (\<lambda>_.
         if None \<in> set es then Inl AttributeError else stacked_experts (map the es)))"

definition create_a2a_from_deepseek_v3_moe ::
  "nat \<Rightarrow> dsv3_expert option list \<Rightarrow> nat \<Rightarrow> nat \<Rightarrow> nat \<Rightarrow> int \<Rightarrow> nat option \<Rightarrow> moe_mlp res" where
  "create_a2a_from_deepseek_v3_moe n_routed experts config_experts config_top_k num_devices axis dispatch_devices =
     rbind (deepseek_adapter n_routed experts) (\<lambda>ex.
     new_a2a_mlp ex None None config_experts config_top_k num_devices axis Deepseek dispatch_devices)"

text \<open>\<open>A2aSparseMLPWithSharedExperts.forward\<close>, for any router.\<close>

definition with_shared ::
  "(rat tensor \<Rightarrow> (rat tensor \<times> rat tensor) res) \<Rightarrow> (rat tensor \<Rightarrow> rat tensor res) option \<Rightarrow> rat tensor \<Rightarrow> rat tensor res" where
  "with_shared mlp shared hidden =
     rbind (mlp hidden) (\<lambda>(out, _).
     case shared of None \<Rightarrow> Inr out | Some f \<Rightarrow> rbind (f hidden) (\<lambda>sh. tensor_op (+) out sh))"

end
