(* ===== verification/MoeAdaptersProps.thy ===== *)
theory MoeAdaptersProps
  imports SparseMlpProps MoeAdapters
begin

text \<open>
  \<open>SparseMLP\<close> and \<open>A2aSparseStackedMlp\<close> compute the mixture of experts of \<open>SparseMlpProps\<close>; the experts the
  Deepseek adapter stacks are the original ones, and the module built from them always raises.
\<close>

section \<open>One token per row\<close>

definition runs_faithfully :: "moe_xla \<Rightarrow> device \<Rightarrow> bool" where
  "runs_faithfully xla dev \<longleftrightarrow> dev = CPU \<or> dev = XLA \<and> custom_calls_ok xla"

lemma runs_faithfullyD:
  assumes "runs_faithfully xla dev"
  shows "sparse_matmul (x_matmul xla) CPU a b sp nnz fa fb = Inr o1 \<Longrightarrow> sparse_matmul (x_matmul xla) dev a b sp nnz fa fb = Inr o1"
    and "all_to_all_dispatch (x_dispatch xla) CPU x idx mapping nd axis = Inr (d, m)
      \<Longrightarrow> all_to_all_dispatch (x_dispatch xla) dev x idx mapping nd axis = Inr (d, m)"
    and "all_to_all_combine (x_combine xla) CPU x meta mapping nd axis nk shard = Inr o3
      \<Longrightarrow> all_to_all_combine (x_combine xla) dev x meta mapping nd axis nk shard = Inr o3"
  using assms by (auto simp: runs_faithfully_def intro: custom_callsD(1) custom_callsD(2) custom_callsD(4))

text \<open>The mask of the experts a token chooses.\<close>

lemma token_mask:
  assumes ix: "tens ix [n, s, 1, nk] (\<lambda>i. int (g i))" and range: "\<And>i. in_range i [n, s, 1, nk] \<Longrightarrow> g i < e"
  shows "\<exists>sp. scatter_last (full_tensor [n, s, 1, e] 0) ix (full_tensor (t_shape ix) (1 :: rat)) = Inr sp
    \<and> tens sp [n, s, 1, e] (\<lambda>i. if \<exists>k < nk. g [i ! 0, i ! 1, 0, k] = i ! 3 then 1 else 0)"
proof -
  have index: "tens ix ([n, s, 1] @ [nk]) (\<lambda>i. int (g i))" using ix by simp
  have src: "tens (full_tensor (t_shape ix) 1) ([n, s, 1] @ [nk]) (\<lambda>_. 1 :: rat)"
    using tens_shape [OF index] by (metis full_tensor_tens)
  have inr: "g i < e" if "in_range i ([n, s, 1] @ [nk])" for i using that range by simp
  obtain sp where sp: "scatter_last (full_tensor ([n, s, 1] @ [e]) 0) ix (full_tensor (t_shape ix) (1 :: rat)) = Inr sp"
    "tens sp ([n, s, 1] @ [e]) (\<lambda>i. let ks = filter (\<lambda>k. g (butlast i @ [k]) = last i) [0..<nk]
       in if ks \<noteq> [] then 1 else 0)"
    using scatter_last_tens [OF full_tensor_tens [where x = 0] index src inr] by blast
  have "tens sp ([n, s, 1] @ [e]) (\<lambda>i. if \<exists>k < nk. g [i ! 0, i ! 1, 0, k] = i ! 3 then 1 else 0)"
    by (rule tens_cong [OF sp(2)]) (auto simp: in_range_Cons filter_empty_conv)
  then show ?thesis using sp(1) by simp
qed

lemma token_gate:
  assumes x: "tens x [n, s, 1, h] d" and g: "tens g [1, e, h, 2 * ni] w" and sp: "tens sp [n, s, 1, e] m"
    and b: "tens b [e, 2 * ni] bb"
  shows "\<exists>out v u. sparse_matmul xla CPU x g sp nnz False True = Inr out \<and> view out [n, s, e, ni * 2] = Inr v
    \<and> tensor_op (+) v b = Inr u
    \<and> tens u [n, s, e, 2 * ni] (\<lambda>i. dot h (\<lambda>r. d [i ! 0, i ! 1, 0, r]) (\<lambda>r. w [0, i ! 2, r, i ! 3])
        * m [i ! 0, i ! 1, 0, i ! 2] + bb [i ! 2, i ! 3])"
proof -
  obtain out where out: "sparse_matmul xla CPU x g sp nnz False True = Inr out"
    "tens out [n, s, 1, e, 1, 2 * ni] (\<lambda>i. dot h (\<lambda>r. d [i ! 0, i ! 1, i ! 4, r]) (\<lambda>r. w [0, i ! 3, r, i ! 5])
       * m [i ! 0, i ! 1, 0, i ! 3])"
    using gate_matmul_tens [OF x g sp] by blast
  obtain v where v: "view out [n, s, e, 2 * ni] = Inr v"
    "tens v [n, s, e, 2 * ni] (\<lambda>i. dot h (\<lambda>r. d [i ! 0, i ! 1, 0, r]) (\<lambda>r. w [0, i ! 2, r, i ! 3]) * m [i ! 0, i ! 1, 0, i ! 2])"
    by (rule view_same [OF out(2), of "[n, s, e, 2 * ni]" "\<lambda>i. [i ! 0, i ! 1, 0, i ! 2, 0, i ! 3]"])
      (auto simp: in_range_Cons algebra_simps)
  have "tens v ([n, s] @ [e, 2 * ni]) (\<lambda>i. dot h (\<lambda>r. d [i ! 0, i ! 1, 0, r]) (\<lambda>r. w [0, i ! 2, r, i ! 3]) * m [i ! 0, i ! 1, 0, i ! 2])"
    using v(2) by simp
  from tensor_op_tens [OF this b, of "(+)"] obtain u where u: "tensor_op (+) v b = Inr u"
    "tens u ([n, s] @ [e, 2 * ni]) (\<lambda>i. dot h (\<lambda>r. d [i ! 0, i ! 1, 0, r]) (\<lambda>r. w [0, i ! 2, r, i ! 3]) * m [i ! 0, i ! 1, 0, i ! 2]
       + bb (drop (length [n, s]) i))" by blast
  have "tens u ([n, s] @ [e, 2 * ni]) (\<lambda>i. dot h (\<lambda>r. d [i ! 0, i ! 1, 0, r]) (\<lambda>r. w [0, i ! 2, r, i ! 3])
        * m [i ! 0, i ! 1, 0, i ! 2] + bb [i ! 2, i ! 3])"
    by (rule tens_cong [OF u(2)]) (auto simp: in_range_Cons)
  then show ?thesis using out(1) v(1) u(1) by (auto simp: mult.commute)
qed

lemma token_down:
  assumes a: "tens a [n, s, e, ni] f" and g: "tens g [1, e, ni, h] w" and sp: "tens sp [n, s, 1, e] m"
    and b: "tens b [e, h] bb" and s: "0 < s"
  shows "\<exists>a' sp' out u. view a [n * s, e, 1, ni] = Inr a' \<and> view sp [1, 1, n * s, e] = Inr sp'
    \<and> sparse_matmul xla CPU a' g sp' nnz True False = Inr out \<and> tensor_op (+) (squeeze out 2) b = Inr u
    \<and> tens u [n * s, e, h] (\<lambda>i. dot ni (\<lambda>l. f [i ! 0 div s, i ! 0 mod s, i ! 1, l]) (\<lambda>l. w [0, i ! 1, l, i ! 2])
        * m [i ! 0 div s, i ! 0 mod s, 0, i ! 1] + bb [i ! 1, i ! 2])"
proof -
  have fl: "e * (k mod s) + e * (s * (k div s)) = k * e" "e * (ni * (k mod s)) + e * (ni * (s * (k div s))) = k * (e * ni)" for k
    using mod_div_flat(1) [of e k s] mod_div_flat(1) [of "e * ni" k s] by (simp_all add: algebra_simps)
  have dm: "k div s < n" "k mod s < s" if "k < n * s" for k
    using that s by (simp_all add: less_mult_imp_div_less)
  obtain a' where a': "view a [n * s, e, 1, ni] = Inr a'"
    "tens a' [n * s, e, 1, ni] (\<lambda>i. f [i ! 0 div s, i ! 0 mod s, i ! 1, i ! 3])"
    by (rule view_same [OF a, of "[n * s, e, 1, ni]" "\<lambda>i. [i ! 0 div s, i ! 0 mod s, i ! 1, i ! 3]"])
      (auto simp: in_range_Cons dm fl algebra_simps)
  obtain sp' where sp': "view sp [1, 1, n * s, e] = Inr sp'"
    "tens sp' [1, 1, n * s, e] (\<lambda>i. m [i ! 2 div s, i ! 2 mod s, 0, i ! 3])"
    by (rule view_same [OF sp, of "[1, 1, n * s, e]" "\<lambda>i. [i ! 2 div s, i ! 2 mod s, 0, i ! 3]"])
      (auto simp: in_range_Cons dm fl algebra_simps)
  obtain out where out: "sparse_matmul xla CPU a' g sp' nnz True False = Inr out"
    "tens out [n * s, e, 1, h] (\<lambda>i. dot ni (\<lambda>l. f [i ! 0 div s, i ! 0 mod s, i ! 1, l]) (\<lambda>l. w [0, i ! 1, l, i ! 3])
       * m [i ! 0 div s, i ! 0 mod s, 0, i ! 1])"
    using down_matmul_tens [OF a'(2) g sp'(2)] by auto
  have "tens (squeeze out 2) ([n * s, e] @ [h]) (\<lambda>i. dot ni (\<lambda>l. f [i ! 0 div s, i ! 0 mod s, i ! 1, l]) (\<lambda>l. w [0, i ! 1, l, i ! 2])
       * m [i ! 0 div s, i ! 0 mod s, 0, i ! 1])"
    by (rule tens_cong [OF squeeze_tens [of out "[n * s, e]" "[h]"]]) (use out(2) in \<open>auto simp: in_range_Cons\<close>)
  then have "tens (squeeze out 2) ([n * s] @ [e, h]) (\<lambda>i. dot ni (\<lambda>l. f [i ! 0 div s, i ! 0 mod s, i ! 1, l]) (\<lambda>l. w [0, i ! 1, l, i ! 2])
       * m [i ! 0 div s, i ! 0 mod s, 0, i ! 1])" by simp
  from tensor_op_tens [OF this b, of "(+)"] obtain u where u: "tensor_op (+) (squeeze out 2) b = Inr u"
    "tens u ([n * s] @ [e, h]) (\<lambda>i. dot ni (\<lambda>l. f [i ! 0 div s, i ! 0 mod s, i ! 1, l]) (\<lambda>l. w [0, i ! 1, l, i ! 2])
       * m [i ! 0 div s, i ! 0 mod s, 0, i ! 1] + bb (drop (length [n * s]) i))" by blast
  have "tens u ([n * s] @ [e, h]) (\<lambda>i. dot ni (\<lambda>l. f [i ! 0 div s, i ! 0 mod s, i ! 1, l]) (\<lambda>l. w [0, i ! 1, l, i ! 2])
        * m [i ! 0 div s, i ! 0 mod s, 0, i ! 1] + bb [i ! 1, i ! 2])"
    by (rule tens_cong [OF u(2)]) (auto simp: in_range_Cons)
  then show ?thesis using a'(1) sp'(1) out(1) u(1) by auto
qed

section \<open>SparseMLP\<close>

text \<open>The scores scattered over the experts add up to the weighted sum, when a token's choices differ.\<close>

lemma scattered_sum:
  assumes "inj_on p {..<nk}" "\<And>k. k < nk \<Longrightarrow> p k < e"
  shows "(\<Sum>g\<leftarrow>[0..<e]. f g * (let ks = filter (\<lambda>k. p k = g) [0..<nk] in if ks \<noteq> [] then v (last ks) else 0))
    = (\<Sum>k\<leftarrow>[0..<nk]. v k * (f (p k) :: rat))"
proof -
  define q where "q g = (let ks = filter (\<lambda>k. p k = g) [0..<nk] in if ks \<noteq> [] then v (last ks) else 0)" for g
  have q: "q (p k) = v k" if "k < nk" for k
  proof -
    have "filter (\<lambda>k'. p k' = p k) [0..<nk] = filter (\<lambda>k'. k' = k) [0..<nk]"
      using assms(1) that by (intro filter_cong) (auto dest: inj_onD)
    moreover have ks: "set (filter (\<lambda>k'. k' = k) [0..<nk]) = {k}" using that by auto
    moreover have "filter (\<lambda>k'. k' = k) [0..<nk] \<noteq> []" using ks by force
    moreover have "last (filter (\<lambda>k'. k' = k) [0..<nk]) = k" using last_in_set [OF calculation(3)] ks by simp
    ultimately show ?thesis by (simp add: q_def)
  qed
  have "q g = 0" if "g \<notin> p ` {..<nk}" for g
    using that by (auto simp: q_def filter_empty_conv)
  then have "(\<Sum>g < e. f g * q g) = (\<Sum>g \<in> p ` {..<nk}. f g * q g)"
    using assms(2) by (intro sum.mono_neutral_right) auto
  also have "\<dots> = (\<Sum>k < nk. v k * f (p k))"
    using assms(1) q by (simp add: sum.reindex mult.commute)
  finally show ?thesis
    by (simp add: q_def [symmetric] interv_sum_list_conv_sum_set_nat atLeast0LessThan)
qed

text \<open>The input of the activation for a token and an expert, masked by \<open>m\<close>.\<close>

definition masked_unit ::
  "moe_mlp \<Rightarrow> nat \<Rightarrow> (nat \<Rightarrow> nat \<Rightarrow> nat \<Rightarrow> rat) \<Rightarrow> (nat list \<Rightarrow> rat) \<Rightarrow> nat \<Rightarrow> nat \<Rightarrow> nat \<Rightarrow> nat \<Rightarrow> rat" where
  "masked_unit mlp h d m x y g l =
     dot h (d x y) (\<lambda>r. t_at (gate_up_proj (mm_experts mlp)) [g, r, l]) * m [x, y, 0, g]
       + t_at (gate_up_proj_bias (mm_experts mlp)) [g, l]"

definition masked_act ::
  "(rat \<Rightarrow> rat) \<Rightarrow> moe_mlp \<Rightarrow> nat \<Rightarrow> (nat \<Rightarrow> nat \<Rightarrow> nat \<Rightarrow> rat) \<Rightarrow> (nat list \<Rightarrow> rat) \<Rightarrow> nat \<Rightarrow> nat \<Rightarrow> nat \<Rightarrow> nat \<Rightarrow> rat" where
  "masked_act sigmoid mlp h d m x y g l =
     gpt_oss sigmoid (mm_alpha mlp) (mm_limit mlp) (masked_unit mlp h d m x y g (2 * l)) (masked_unit mlp h d m x y g (1 + 2 * l))"

lemma token_expert_outputs:
  assumes mlp: "mlp_sized mlp h" "mm_activation mlp = GptOss" and s: "0 < s"
    and av: "tens av [n, s, mm_num_experts mlp, mm_inter mlp] (\<lambda>i. masked_act sigmoid mlp h d m (i ! 0) (i ! 1) (i ! 2) (i ! 3))"
    and down: "tens down [1, mm_num_experts mlp, mm_inter mlp, h] (\<lambda>i. t_at (down_proj (mm_experts mlp)) (tl i))"
    and sp: "tens sp [n, s, 1, mm_num_experts mlp] m"
  shows "\<exists>a' sp' out u. view av [n * s, mm_num_experts mlp, 1, mm_inter mlp] = Inr a'
    \<and> view sp [1, 1, n * s, mm_num_experts mlp] = Inr sp' \<and> sparse_matmul xla CPU a' down sp' nnz True False = Inr out
    \<and> tensor_op (+) (squeeze out 2) (down_proj_bias (mm_experts mlp)) = Inr u \<and> t_shape u = [n * s, mm_num_experts mlp, h]
    \<and> (\<forall>t < n * s. \<forall>g < mm_num_experts mlp. \<forall>j < h. m [t div s, t mod s, 0, g] = 1
        \<longrightarrow> t_at u [t, g, j] = expert_out sigmoid mlp h g (d (t div s) (t mod s)) j)"
proof -
  note M = mlp_sized_tens [OF mlp(1)]
  obtain a' sp' out u where d: "view av [n * s, mm_num_experts mlp, 1, mm_inter mlp] = Inr a'"
    "view sp [1, 1, n * s, mm_num_experts mlp] = Inr sp'" "sparse_matmul xla CPU a' down sp' nnz True False = Inr out"
    "tensor_op (+) (squeeze out 2) (down_proj_bias (mm_experts mlp)) = Inr u"
    "tens u [n * s, mm_num_experts mlp, h] (\<lambda>i. dot (mm_inter mlp) (\<lambda>l. masked_act sigmoid mlp h d m (i ! 0 div s) (i ! 0 mod s) (i ! 1) l)
        (\<lambda>l. t_at (down_proj (mm_experts mlp)) [i ! 1, l, i ! 2])
        * m [i ! 0 div s, i ! 0 mod s, 0, i ! 1] + t_at (down_proj_bias (mm_experts mlp)) [i ! 1, i ! 2])"
    using token_down [OF av down sp M(3) s, of xla nnz] by auto
  have "t_at u [t, g, j] = expert_out sigmoid mlp h g (d (t div s) (t mod s)) j"
    if "t < n * s" "g < mm_num_experts mlp" "j < h" "m [t div s, t mod s, 0, g] = 1" for t g j
    using tensD [OF d(5), of "[t, g, j]"] that mlp(2)
    by (simp add: expert_out_def act_entry_def masked_act_def masked_unit_def Let_def)
  then show ?thesis using d tens_shape [OF d(5)] by blast
qed

text \<open>The interleaved projections.\<close>

lemma interleaved_units:
  assumes mlp: "mlp_sized mlp h" and x: "tens x [n, s, 1, h] (\<lambda>i. d (i ! 0) (i ! 1) (i ! 3))"
    and sp: "tens sp [n, s, 1, mm_num_experts mlp] m"
  shows "\<exists>go gv gu av. sparse_matmul xla CPU x (unsqueeze (gate_up_proj (mm_experts mlp)) 0) sp nnz False True = Inr go
    \<and> view go [n, s, mm_num_experts mlp, mm_inter mlp * 2] = Inr gv \<and> tensor_op (+) gv (gate_up_proj_bias (mm_experts mlp)) = Inr gu
    \<and> activate sigmoid (mlp\<lparr>mm_activation := GptOss\<rparr>) gu = Inr av
    \<and> tens av [n, s, mm_num_experts mlp, mm_inter mlp] (\<lambda>i. masked_act sigmoid mlp h d m (i ! 0) (i ! 1) (i ! 2) (i ! 3))"
proof -
  let ?e = "mm_num_experts mlp" and ?ni = "mm_inter mlp" and ?ex = "mm_experts mlp"
  note M = mlp_sized_tens [OF mlp]
  obtain go gv gu where g: "sparse_matmul xla CPU x (unsqueeze (gate_up_proj ?ex) 0) sp nnz False True = Inr go"
    "view go [n, s, ?e, ?ni * 2] = Inr gv" "tensor_op (+) gv (gate_up_proj_bias ?ex) = Inr gu"
    "tens gu ([n, s, ?e] @ [2 * ?ni]) (\<lambda>i. masked_unit mlp h d m (i ! 0) (i ! 1) (i ! 2) (i ! 3))"
    using token_gate [OF x M(1) sp M(2), of xla nnz] by (auto simp: masked_unit_def [abs_def])
  from activate_tens [OF g(4), of sigmoid "mlp\<lparr>mm_activation := GptOss\<rparr>"] obtain v where
    v: "activate sigmoid (mlp\<lparr>mm_activation := GptOss\<rparr>) gu = Inr v" "tens v ([n, s, ?e] @ [?ni]) (\<lambda>i. act_entry sigmoid
       (mlp\<lparr>mm_activation := GptOss\<rparr>)
       (masked_unit mlp h d m ((butlast i @ [2 * last i]) ! 0) ((butlast i @ [2 * last i]) ! 1) ((butlast i @ [2 * last i]) ! 2) ((butlast i @ [2 * last i]) ! 3))
       (masked_unit mlp h d m ((butlast i @ [1 + 2 * last i]) ! 0) ((butlast i @ [1 + 2 * last i]) ! 1) ((butlast i @ [1 + 2 * last i]) ! 2) ((butlast i @ [1 + 2 * last i]) ! 3)))"
    by blast
  have "tens v ([n, s, ?e] @ [?ni]) (\<lambda>i. masked_act sigmoid mlp h d m (i ! 0) (i ! 1) (i ! 2) (i ! 3))"
    by (rule tens_cong [OF v(2)]) (auto simp: in_range_Cons act_entry_def masked_act_def)
  then show ?thesis using g v(1) by auto
qed

text \<open>The weighted sum of \<open>SparseMLP\<close>.\<close>

lemma scattered_weights:
  assumes u: "t_shape u = [b * s, e, h]" and sc: "t_shape scores = [b, s, nk]"
    and ix: "tens indices [b, s, nk] (\<lambda>i. int (pick (i ! 0) (i ! 1) (i ! 2)))" and s: "0 < s"
    and range: "\<forall>x < b. \<forall>y < s. \<forall>k < nk. pick x y k < e" and dist: "\<forall>x < b. \<forall>y < s. inj_on (pick x y) {..<nk}"
  shows "\<exists>sf xf scat w out. view scores [b * s, nk] = Inr sf \<and> view indices [b * s, nk] = Inr xf
    \<and> scatter_last (full_tensor [b * s, e] 0) xf sf = Inr scat \<and> tensor_op (*) u (unsqueeze scat 2) = Inr w
    \<and> view (sum_dim w 1) [b, s, h] = Inr out
    \<and> tens out [b, s, h] (\<lambda>i. \<Sum>k\<leftarrow>[0..<nk]. t_at scores [i ! 0, i ! 1, k] * t_at u [i ! 0 * s + i ! 1, pick (i ! 0) (i ! 1) k, i ! 2])"
proof -
  have dm: "k div s < b" "k mod s < s" if "k < b * s" for k using that s by (simp_all add: less_mult_imp_div_less)
  have fl: "n * (k mod s) + n * (s * (k div s)) = k * n" for n k by (rule mod_div_flat(1))
  have H: "tens scores [b, s, nk] (t_at scores)" "tens u [b * s, e, h] (t_at u)" using sc u by (simp_all add: tens_def)
  obtain sf where sf: "view scores [b * s, nk] = Inr sf" "tens sf ([b * s] @ [nk]) (\<lambda>i. t_at scores [i ! 0 div s, i ! 0 mod s, i ! 1])"
    by (rule view_same [OF H(1), of "[b * s, nk]" "\<lambda>i. [i ! 0 div s, i ! 0 mod s, i ! 1]"])
      (auto simp: in_range_Cons dm fl algebra_simps)
  obtain xf where xf: "view indices [b * s, nk] = Inr xf"
    "tens xf ([b * s] @ [nk]) (\<lambda>i. int (pick (i ! 0 div s) (i ! 0 mod s) (i ! 1)))"
    by (rule view_same [OF ix, of "[b * s, nk]" "\<lambda>i. [i ! 0 div s, i ! 0 mod s, i ! 1]"])
      (auto simp: in_range_Cons dm fl algebra_simps)
  have r: "pick (i ! 0 div s) (i ! 0 mod s) (i ! 1) < e" if "in_range i ([b * s] @ [nk])" for i
    using that range dm by (auto simp: in_range_Cons)
  define q where "q t g = (let ks = filter (\<lambda>k. pick (t div s) (t mod s) k = g) [0..<nk]
     in if ks \<noteq> [] then t_at scores [t div s, t mod s, last ks] else 0)" for t g
  obtain scat where scat: "scatter_last (full_tensor ([b * s] @ [e]) 0) xf sf = Inr scat" "tens scat [b * s, e] (\<lambda>i. q (i ! 0) (i ! 1))"
  proof -
    from scatter_last_tens [OF full_tensor_tens [where x = 0] xf(2) sf(2) r] obtain t where
      t: "scatter_last (full_tensor ([b * s] @ [e]) 0) xf sf = Inr t" "tens t ([b * s] @ [e]) (\<lambda>i.
        let ks = filter (\<lambda>k. pick ((butlast i @ [k]) ! 0 div s) ((butlast i @ [k]) ! 0 mod s) ((butlast i @ [k]) ! 1) = last i) [0..<nk]
        in if ks \<noteq> [] then t_at scores [(butlast i @ [last ks]) ! 0 div s, (butlast i @ [last ks]) ! 0 mod s, (butlast i @ [last ks]) ! 1] else 0)"
      by blast
    have "tens t ([b * s] @ [e]) (\<lambda>i. q (i ! 0) (i ! 1))"
      by (rule tens_cong [OF t(2)]) (auto simp: in_range_Cons q_def Let_def)
    then show thesis using t(1) that by simp
  qed
  have "tens (unsqueeze scat 2) (take 2 [b * s, e] @ 1 # drop 2 [b * s, e]) (\<lambda>i. q (i ! 0) (i ! 1))"
    by (rule tens_cong [OF unsqueeze_tens [OF scat(2)]]) (auto simp: in_range_Cons)
  then have us: "tens (unsqueeze scat 2) ([b * s, e] @ [1]) (\<lambda>i. q (i ! 0) (i ! 1))" by simp
  have uu: "tens u ([b * s, e] @ [h]) (t_at u)" using H(2) by simp
  obtain w where w: "tensor_op (*) u (unsqueeze scat 2) = Inr w"
    "tens w ([b * s, e] @ [h]) (\<lambda>i. t_at u i * q ((butlast i @ [0]) ! 0) ((butlast i @ [0]) ! 1))"
    using tensor_op_last_tens [OF uu us] by blast
  have sd: "tens (sum_dim w 1) [b * s, h] (\<lambda>i. \<Sum>g\<leftarrow>[0..<e]. t_at u [i ! 0, g, i ! 1] * q (i ! 0) g)"
    by (rule tens_cong [OF sum_dim_tens [of w "[b * s]" e "[h]", simplified]]) (use w(2) in \<open>auto simp: in_range_Cons\<close>)
  obtain out where out: "view (sum_dim w 1) [b, s, h] = Inr out"
    "tens out [b, s, h] (\<lambda>i. \<Sum>g\<leftarrow>[0..<e]. t_at u [i ! 0 * s + i ! 1, g, i ! 2] * q (i ! 0 * s + i ! 1) g)"
    by (rule view_same [OF sd, of "[b, s, h]" "\<lambda>i. [i ! 0 * s + i ! 1, i ! 2]"])
      (auto simp: in_range_Cons mult_add_less algebra_simps)
  have "(\<Sum>g\<leftarrow>[0..<e]. t_at u [x * s + y, g, j] * q (x * s + y) g)
      = (\<Sum>k\<leftarrow>[0..<nk]. t_at scores [x, y, k] * t_at u [x * s + y, pick x y k, j])" if "x < b" "y < s" for x y j
  proof -
    have "(x * s + y) div s = x" "(x * s + y) mod s = y" using that s by simp_all
    then have "q (x * s + y) = (\<lambda>g. let ks = filter (\<lambda>k. pick x y k = g) [0..<nk] in if ks \<noteq> [] then t_at scores [x, y, last ks] else 0)"
      by (simp only: q_def [abs_def])
    then show ?thesis
      using scattered_sum [of "pick x y" nk e "\<lambda>g. t_at u [x * s + y, g, j]" "\<lambda>k. t_at scores [x, y, k]"] range dist that by simp
  qed
  then have "tens out [b, s, h] (\<lambda>i. \<Sum>k\<leftarrow>[0..<nk]. t_at scores [i ! 0, i ! 1, k] * t_at u [i ! 0 * s + i ! 1, pick (i ! 0) (i ! 1) k, i ! 2])"
    by (intro tens_cong [OF out(2)]) (auto simp: in_range_Cons)
  then show ?thesis using sf(1) xf(1) scat(1) w(1) out(1) by auto
qed

text \<open>C34. \<open>SparseMLP.forward\<close> is the mixture.\<close>

theorem sparse_mlp_is_the_mixture:
  assumes mlp: "mlp_sized mlp h" "mm_activation mlp = GptOss" and run: "runs_faithfully xla dev"
    and hid: "t_shape hidden = [b, s, h]" "0 < s"
    and router: "router hidden = Inr (logits, scores, indices)"
    and shapes: "t_shape scores = [b, s, mm_top_k mlp]" "tens indices [b, s, mm_top_k mlp] (\<lambda>i. int (pick (i ! 0) (i ! 1) (i ! 2)))"
    and range: "\<forall>x < b. \<forall>y < s. \<forall>k < mm_top_k mlp. pick x y k < mm_num_experts mlp"
    and dist: "\<forall>x < b. \<forall>y < s. inj_on (pick x y) {..<mm_top_k mlp}"
  shows "\<exists>out. sparse_mlp_forward sigmoid xla dev router mlp hidden = Inr (out, scores) \<and> t_shape out = [b, s, h]
    \<and> (\<forall>x < b. \<forall>y < s. \<forall>j < h. t_at out [x, y, j]
        = mixture sigmoid mlp h (pick x y) (\<lambda>k. t_at scores [x, y, k]) (\<lambda>r. t_at hidden [x, y, r]) j)"
proof -
  let ?e = "mm_num_experts mlp" and ?nk = "mm_top_k mlp" and ?ni = "mm_inter mlp" and ?ex = "mm_experts mlp"
  have H: "tens hidden [b, s, h] (t_at hidden)" using hid by (simp add: tens_def)
  obtain ix where ix: "view indices [b, s, 1, ?nk] = Inr ix" "tens ix [b, s, 1, ?nk] (\<lambda>i. int (pick (i ! 0) (i ! 1) (i ! 3)))"
    by (rule view_same [OF shapes(2), of "[b, s, 1, ?nk]" "\<lambda>i. [i ! 0, i ! 1, i ! 3]"]) (auto simp: in_range_Cons)
  define m where "m i = (if \<exists>k < ?nk. pick (i ! 0) (i ! 1) k = i ! 3 then 1 else 0 :: rat)" for i
  have "pick (i ! 0) (i ! 1) (i ! 3) < ?e" if "in_range i [b, s, 1, ?nk]" for i
    using that range by (auto simp: in_range_Cons)
  from token_mask [OF ix(2) this] obtain sp where
    sp: "scatter_last (full_tensor [b, s, 1, ?e] 0) ix (full_tensor (t_shape ix) (1 :: rat)) = Inr sp" "tens sp [b, s, 1, ?e] m"
    by (auto simp: m_def [abs_def])
  obtain x where x: "view hidden [b, s, 1, h] = Inr x" "tens x [b, s, 1, h] (\<lambda>i. t_at hidden [i ! 0, i ! 1, i ! 3])"
    by (rule view_same [OF H, of "[b, s, 1, h]" "\<lambda>i. [i ! 0, i ! 1, i ! 3]"]) (auto simp: in_range_Cons)
  define d where "d x y = (\<lambda>r. t_at hidden [x, y, r])" for x y
  have "tens x [b, s, 1, h] (\<lambda>i. d (i ! 0) (i ! 1) (i ! 3))" using x(2) by (simp add: d_def)
  from interleaved_units [OF mlp(1) this sp(2)] obtain go gv gu av where
    g: "sparse_matmul (x_matmul xla) CPU x (unsqueeze (gate_up_proj ?ex) 0) sp (Some 0) False True = Inr go"
    "view go [b, s, ?e, ?ni * 2] = Inr gv" "tensor_op (+) gv (gate_up_proj_bias ?ex) = Inr gu"
    "activate sigmoid (mlp\<lparr>mm_activation := GptOss\<rparr>) gu = Inr av"
    "tens av [b, s, ?e, ?ni] (\<lambda>i. masked_act sigmoid mlp h d m (i ! 0) (i ! 1) (i ! 2) (i ! 3))" by blast
  have "tens (down_proj ?ex) [?e, ?ni, h] (t_at (down_proj ?ex))" using mlp(1) by (simp add: mlp_sized_def tens_def Let_def)
  then obtain down where down: "view (down_proj ?ex) [1, ?e, ?ni, h] = Inr down"
    "tens down [1, ?e, ?ni, h] (\<lambda>i. t_at (down_proj ?ex) (tl i))"
    by (rule view_same [of _ _ _ "[1, ?e, ?ni, h]" tl]) (auto simp: in_range_Cons)
  obtain a' sp' out u where u: "view av [b * s, ?e, 1, ?ni] = Inr a'" "view sp [1, 1, b * s, ?e] = Inr sp'"
    "sparse_matmul (x_matmul xla) CPU a' down sp' (Some 0) True False = Inr out"
    "tensor_op (+) (squeeze out 2) (down_proj_bias ?ex) = Inr u" "t_shape u = [b * s, ?e, h]"
    "\<forall>t < b * s. \<forall>g < ?e. \<forall>j < h. m [t div s, t mod s, 0, g] = 1
        \<longrightarrow> t_at u [t, g, j] = expert_out sigmoid mlp h g (d (t div s) (t mod s)) j"
    using token_expert_outputs [OF mlp hid(2) g(5) down(2) sp(2), of "x_matmul xla" "Some 0"] by blast
  obtain sf xf scat w res where r: "view scores [b * s, ?nk] = Inr sf" "view indices [b * s, ?nk] = Inr xf"
    "scatter_last (full_tensor [b * s, ?e] 0) xf sf = Inr scat" "tensor_op (*) u (unsqueeze scat 2) = Inr w"
    "view (sum_dim w 1) [b, s, h] = Inr res"
    "tens res [b, s, h] (\<lambda>i. \<Sum>k\<leftarrow>[0..<?nk]. t_at scores [i ! 0, i ! 1, k] * t_at u [i ! 0 * s + i ! 1, pick (i ! 0) (i ! 1) k, i ! 2])"
    using scattered_weights [OF u(5) shapes hid(2) range dist] by blast
  have "t_at u [x * s + y, pick x y k, j] = expert_out sigmoid mlp h (pick x y k) (d x y) j"
    if "x < b" "y < s" "k < ?nk" "j < h" for x y k j
  proof -
    have "m [x, y, 0, pick x y k] = 1" using that by (auto simp: m_def)
    then show ?thesis
      using u(6) [rule_format, of "x * s + y" "pick x y k" j] that range hid(2) mult_add_less(1) [of x b y s] by simp
  qed
  then have "t_at res [x, y, j] = mixture sigmoid mlp h (pick x y) (\<lambda>k. t_at scores [x, y, k]) (\<lambda>r. t_at hidden [x, y, r]) j"
    if "x < b" "y < s" "j < h" for x y j
    using tensD [OF r(6), of "[x, y, j]"] that by (auto simp: mixture_def d_def intro!: arg_cong [where f = sum_list])
  moreover have "sparse_mlp_forward sigmoid xla dev router mlp hidden = Inr (res, scores)"
    by (simp add: sparse_mlp_forward_def Let_def hid(1) router ix(1) sp(1) x(1) runs_faithfullyD(1) [OF run g(1)] g(2-4) u(1,2) down(1)
        runs_faithfullyD(1) [OF run u(3)] u(4) r(1-5) del: One_nat_def)
  ultimately show ?thesis using tens_shape [OF r(6)] by blast
qed

definition small_gpt :: moe_mlp where
  "small_gpt = small_mlp\<lparr>mm_activation := GptOss\<rparr>"

text \<open>Two positions with the hidden value 1, sent to the two experts with the scores 1 and 2.\<close>

definition small_choice :: "rat tensor \<Rightarrow> (rat tensor \<times> rat tensor \<times> int tensor) res" where
  "small_choice _ = Inr (full_tensor [1, 2, 2] 0, \<lparr> t_shape = [1, 2, 1], t_at = (\<lambda>i. of_nat (i ! 1) + 1) \<rparr>,
     \<lparr> t_shape = [1, 2, 1], t_at = (\<lambda>i. int (i ! 1)) \<rparr>)"

theorem sparse_mlp_is_the_mixture_witness:
  "\<exists>out. sparse_mlp_forward (\<lambda>_. 1 / 2) ref_xla CPU small_choice small_gpt (full_tensor [1, 2, 1] 1)
       = Inr (out, \<lparr> t_shape = [1, 2, 1], t_at = (\<lambda>i. of_nat (i ! 1) + 1) \<rparr>) \<and> t_at out [0, 1, 0] = 10"
proof -
  let ?scores = "\<lparr> t_shape = [1, 2, 1], t_at = (\<lambda>i. of_nat (i ! 1) + 1) \<rparr> :: rat tensor"
  have "\<exists>out. sparse_mlp_forward (\<lambda>_. 1 / 2) ref_xla CPU small_choice small_gpt (full_tensor [1, 2, 1] 1) = Inr (out, ?scores)
     \<and> t_shape out = [1, 2, 1] \<and> (\<forall>x < 1. \<forall>y < 2. \<forall>j < 1. t_at out [x, y, j]
        = mixture (\<lambda>_. 1 / 2) small_gpt 1 (\<lambda>_. y) (\<lambda>k. t_at ?scores [x, y, k]) (\<lambda>r. t_at (full_tensor [1, 2, 1] 1) [x, y, r]) j)"
    by (rule sparse_mlp_is_the_mixture [where pick = "\<lambda>_ y _. y" and logits = "full_tensor [1, 2, 2] 0"
        and indices = "\<lparr> t_shape = [1, 2, 1], t_at = (\<lambda>i. int (i ! 1)) \<rparr>"])
      (auto simp: small_gpt_def small_mlp_def mlp_sized_def full_tensor_def small_choice_def tens_def runs_faithfully_def inj_on_def)
  then obtain out where out: "sparse_mlp_forward (\<lambda>_. 1 / 2) ref_xla CPU small_choice small_gpt (full_tensor [1, 2, 1] 1) = Inr (out, ?scores)"
    "t_at out [0, 1, 0] = mixture (\<lambda>_. 1 / 2) small_gpt 1 (\<lambda>_. 1) (\<lambda>k. t_at ?scores [0, 1, k]) (\<lambda>r. t_at (full_tensor [1, 2, 1] 1) [0, 1, r]) 0"
    by (metis less_one one_less_numeral_iff semiring_norm(76))
  have "mixture (\<lambda>_. 1 / 2) small_gpt 1 (\<lambda>_. 1) (\<lambda>k. t_at ?scores [0, 1, k]) (\<lambda>r. t_at (full_tensor [1, 2, 1] 1) [0, 1, r]) 0 = 10"
    by (simp add: mixture_def expert_out_def small_gpt_def small_mlp_def full_tensor_def dot_def act_entry_def gpt_oss_def
        clamp_to_def Let_def)
  with out show ?thesis by auto
qed

section \<open>A2aSparseStackedMlp\<close>

lemma deinterleave_tens:
  assumes "tens t (sh @ [2 * n]) f"
  shows "\<exists>v. deinterleave t = Inr v \<and> tens v (sh @ [2 * n])
    (\<lambda>i. if last i < n then f (butlast i @ [2 * last i]) else f (butlast i @ [1 + 2 * (last i - n)]))"
proof -
  note e = every_second_tens [OF assms, of 0, simplified] every_second_tens [OF assms, of 1, simplified]
  note sh = tens_shape [OF e(1)] tens_shape [OF e(2)]
  let ?v = "\<lparr> t_shape = sh @ [n + n], t_at = (\<lambda>i. if last i < n then t_at (every_second t 0) i
       else t_at (every_second t (Suc 0)) (butlast i @ [last i - n])) \<rparr>"
  have "deinterleave t = Inr ?v" by (simp add: deinterleave_def cat_last_def sh Let_def)
  moreover have "tens ?v (sh @ [2 * n])
    (\<lambda>i. if last i < n then f (butlast i @ [2 * last i]) else f (butlast i @ [1 + 2 * (last i - n)]))"
  proof (rule tensI)
    fix i assume i: "in_range i (sh @ [2 * n])"
    then have "in_range (butlast i @ [last i - n]) (sh @ [n])" if "\<not> last i < n"
      using that by (auto simp: in_range_snoc)
    moreover have "in_range i (sh @ [n])" if "last i < n" using that i by (auto simp: in_range_snoc)
    ultimately show "t_at ?v i = (if last i < n then f (butlast i @ [2 * last i]) else f (butlast i @ [1 + 2 * (last i - n)]))"
      using tensD [OF e(1)] tensD [OF e(2)] by auto
  qed simp
  ultimately show ?thesis by blast
qed

text \<open>The experts the constructor stores.\<close>

definition split_index :: "nat \<Rightarrow> nat \<Rightarrow> nat" where
  "split_index n l = (if l < n then 2 * l else 1 + 2 * (l - n))"

lemma new_stacked_fields:
  assumes "mlp_sized mlp h" "config_hidden = None \<or> config_hidden = Some h"
    and "new_stacked_mlp (mm_experts mlp) (Some (mm_alpha mlp)) (Some (mm_limit mlp)) config_hidden (mm_num_experts mlp)
      (mm_top_k mlp) nd axis = Inr st"
  shows "0 < nd" "sk_num_experts st = mm_num_experts mlp" "sk_top_k st = mm_top_k mlp" "sk_inter st = mm_inter mlp"
    "sk_alpha st = mm_alpha mlp" "sk_limit st = mm_limit mlp" "sk_num_devices st = nd"
    "tens (gate_up_proj (sk_experts st)) [1, mm_num_experts mlp, h, 2 * mm_inter mlp]
      (\<lambda>i. t_at (gate_up_proj (mm_experts mlp)) [i ! 1, i ! 2, split_index (mm_inter mlp) (i ! 3)])"
    "tens (gate_up_proj_bias (sk_experts st)) [mm_num_experts mlp, 2 * mm_inter mlp]
      (\<lambda>i. t_at (gate_up_proj_bias (mm_experts mlp)) [i ! 0, split_index (mm_inter mlp) (i ! 1)])"
    "tens (down_proj (sk_experts st)) [1, mm_num_experts mlp, mm_inter mlp, h] (\<lambda>i. t_at (down_proj (mm_experts mlp)) (tl i))"
    "down_proj_bias (sk_experts st) = down_proj_bias (mm_experts mlp)"
proof -
  let ?e = "mm_num_experts mlp" and ?ni = "mm_inter mlp" and ?ex = "mm_experts mlp"
  have sh: "t_shape (gate_up_proj ?ex) = [?e, h, 2 * ?ni]" "t_shape (gate_up_proj_bias ?ex) = [?e, 2 * ?ni]"
    "t_shape (down_proj ?ex) = [?e, ?ni, h]"
    using assms(1) by (simp_all add: mlp_sized_def Let_def)
  have T: "tens (gate_up_proj ?ex) ([?e, h] @ [2 * ?ni]) (t_at (gate_up_proj ?ex))"
    "tens (gate_up_proj_bias ?ex) ([?e] @ [2 * ?ni]) (t_at (gate_up_proj_bias ?ex))"
    "tens (down_proj ?ex) [?e, ?ni, h] (t_at (down_proj ?ex))"
    using sh by (simp_all add: tens_def)
  obtain w where w: "deinterleave (gate_up_proj ?ex) = Inr w" "tens w ([?e, h] @ [2 * ?ni])
      (\<lambda>i. if last i < ?ni then t_at (gate_up_proj ?ex) (butlast i @ [2 * last i])
           else t_at (gate_up_proj ?ex) (butlast i @ [1 + 2 * (last i - ?ni)]))"
    using deinterleave_tens [OF T(1)] by blast
  obtain bb where bb: "deinterleave (gate_up_proj_bias ?ex) = Inr bb" "tens bb ([?e] @ [2 * ?ni])
      (\<lambda>i. if last i < ?ni then t_at (gate_up_proj_bias ?ex) (butlast i @ [2 * last i])
           else t_at (gate_up_proj_bias ?ex) (butlast i @ [1 + 2 * (last i - ?ni)]))"
    using deinterleave_tens [OF T(2)] by blast
  obtain down where down: "view (down_proj ?ex) [1, ?e, ?ni, h] = Inr down" "tens down [1, ?e, ?ni, h] (\<lambda>i. t_at (down_proj ?ex) (tl i))"
    by (rule view_same [OF T(3), of "[1, ?e, ?ni, h]" tl]) (auto simp: in_range_Cons)
  obtain mapping where "build_expert_mapping ?e nd None = Inr mapping"
    and st: "st = \<lparr> sk_experts = \<lparr> gate_up_proj = unsqueeze w 0, gate_up_proj_bias = bb, down_proj = down,
                      down_proj_bias = down_proj_bias ?ex \<rparr>,
               sk_num_experts = ?e, sk_top_k = mm_top_k mlp, sk_inter = ?ni, sk_alpha = mm_alpha mlp, sk_limit = mm_limit mlp,
               sk_num_devices = nd, sk_cluster_axis = axis, sk_mapping = mapping \<rparr>"
    using assms(2,3) w(1) bb(1) down(1) by (auto simp: new_stacked_mlp_def Let_def sh res_simps)
  then show "0 < nd" by (auto simp: build_expert_mapping_def res_simps)
  show "sk_num_experts st = ?e" "sk_top_k st = mm_top_k mlp" "sk_inter st = ?ni" "sk_alpha st = mm_alpha mlp"
    "sk_limit st = mm_limit mlp" "sk_num_devices st = nd" "down_proj_bias (sk_experts st) = down_proj_bias ?ex"
    "tens (down_proj (sk_experts st)) [1, ?e, ?ni, h] (\<lambda>i. t_at (down_proj ?ex) (tl i))"
    using down(2) by (simp_all add: st)
  show "tens (gate_up_proj (sk_experts st)) [1, ?e, h, 2 * ?ni] (\<lambda>i. t_at (gate_up_proj ?ex) [i ! 1, i ! 2, split_index ?ni (i ! 3)])"
    by (simp add: st, rule tens_cong [OF unsqueeze_tens [OF w(2), of 0, simplified]]) (auto simp: in_range_Cons split_index_def)
  show "tens (gate_up_proj_bias (sk_experts st)) [?e, 2 * ?ni] (\<lambda>i. t_at (gate_up_proj_bias ?ex) [i ! 0, split_index ?ni (i ! 1)])"
    by (simp add: st, rule tens_cong [OF bb(2), simplified]) (auto simp: in_range_Cons split_index_def)
qed

lemma clamps_agree:
  assumes "0 \<le> limit"
  shows "(max (min u limit) (- limit) + 1) * (min g limit * sigmoid (min g limit * alpha)) = gpt_oss sigmoid alpha limit g u"
proof -
  have "max (min u limit) (- limit) = clamp_to (- limit) limit u" using assms by (auto simp: clamp_to_def min_def max_def)
  then show ?thesis by (simp add: gpt_oss_def Let_def)
qed

lemma stacked_activate_tens:
  assumes "tens t (sh @ [2 * sk_inter st]) f" "0 \<le> sk_limit st"
  shows "\<exists>v. stacked_activate sigmoid st t = Inr v \<and> tens v (sh @ [sk_inter st])
    (\<lambda>i. gpt_oss sigmoid (sk_alpha st) (sk_limit st) (f i) (f (butlast i @ [sk_inter st + last i])))"
proof -
  let ?n = "sk_inter st" and ?c = "tensor_map (\<lambda>x. min x (sk_limit st)) t"
  note c = tensor_map_tens [OF assms(1), of "\<lambda>x. min x (sk_limit st)"]
  have gate: "tens (last_range ?c 0 ?n) (sh @ [?n]) (\<lambda>i. min (f i) (sk_limit st))"
    by (rule tens_cong [OF last_range_tens [OF c, of ?n 0, simplified]]) (auto simp: in_range_snoc)
  have "tens (last_range ?c ?n (2 * ?n)) (sh @ [?n]) (\<lambda>i. min (f (butlast i @ [?n + last i])) (sk_limit st))"
    using last_range_tens [OF c, of "2 * ?n" ?n] by simp
  from tensor_map_tens [OF this, of "\<lambda>x. max x (- sk_limit st)"]
  have up: "tens (tensor_map (\<lambda>x. max x (- sk_limit st)) (last_range ?c ?n (2 * ?n))) ([] @ sh @ [?n])
      (\<lambda>i. max (min (f (butlast i @ [?n + last i])) (sk_limit st)) (- sk_limit st))" by simp
  obtain v where v: "tensor_op (\<lambda>g u. (u + 1) * (g * sigmoid (g * sk_alpha st))) (last_range ?c 0 ?n)
      (tensor_map (\<lambda>x. max x (- sk_limit st)) (last_range ?c ?n (2 * ?n))) = Inr v"
    "tens v (sh @ [?n]) (\<lambda>i. (max (min (f (butlast i @ [?n + last i])) (sk_limit st)) (- sk_limit st) + 1)
       * (min (f i) (sk_limit st) * sigmoid (min (f i) (sk_limit st) * sk_alpha st)))"
    using tensor_op_tens [of _ "[]" "sh @ [?n]", OF _ up [simplified], of "last_range ?c 0 ?n"] gate by fastforce
  then show ?thesis using tens_shape [OF c] clamps_agree [OF assms(2)]
    by (auto simp: stacked_activate_def Let_def)
qed

lemma stacked_units:
  assumes mlp: "mlp_sized mlp h" "0 \<le> mm_limit mlp" and hidden: "config_hidden = None \<or> config_hidden = Some h"
    and st: "new_stacked_mlp (mm_experts mlp) (Some (mm_alpha mlp)) (Some (mm_limit mlp)) config_hidden (mm_num_experts mlp)
      (mm_top_k mlp) nd axis = Inr st"
    and x: "tens x [n, s, 1, h] (\<lambda>i. d (i ! 0) (i ! 1) (i ! 3))" and sp: "tens sp [n, s, 1, mm_num_experts mlp] m"
  shows "\<exists>go gv gu av. sparse_matmul xla CPU x (gate_up_proj (sk_experts st)) sp nnz False True = Inr go
    \<and> view go [n, s, mm_num_experts mlp, mm_inter mlp * 2] = Inr gv \<and> tensor_op (+) gv (gate_up_proj_bias (sk_experts st)) = Inr gu
    \<and> stacked_activate sigmoid st gu = Inr av
    \<and> tens av [n, s, mm_num_experts mlp, mm_inter mlp] (\<lambda>i. masked_act sigmoid mlp h d m (i ! 0) (i ! 1) (i ! 2) (i ! 3))"
proof -
  let ?e = "mm_num_experts mlp" and ?ni = "mm_inter mlp" and ?ex = "sk_experts st"
  note F = new_stacked_fields [OF mlp(1) hidden st]
  obtain go gv gu where g: "sparse_matmul xla CPU x (gate_up_proj ?ex) sp nnz False True = Inr go"
    "view go [n, s, ?e, ?ni * 2] = Inr gv" "tensor_op (+) gv (gate_up_proj_bias ?ex) = Inr gu"
    "tens gu [n, s, ?e, 2 * ?ni] (\<lambda>i. masked_unit mlp h d m (i ! 0) (i ! 1) (i ! 2) (split_index ?ni (i ! 3)))"
    using token_gate [OF x F(8) sp F(9), of xla nnz] by (auto simp: masked_unit_def [abs_def])
  have gu: "tens gu ([n, s, ?e] @ [2 * sk_inter st]) (\<lambda>i. masked_unit mlp h d m (i ! 0) (i ! 1) (i ! 2) (split_index ?ni (i ! 3)))"
    using g(4) by (simp add: F(4))
  have lim: "0 \<le> sk_limit st" using mlp(2) by (simp add: F(6))
  from stacked_activate_tens [OF gu lim, of sigmoid, unfolded F(4-6)] obtain av where
    av: "stacked_activate sigmoid st gu = Inr av" "tens av ([n, s, ?e] @ [?ni]) (\<lambda>i. gpt_oss sigmoid (mm_alpha mlp) (mm_limit mlp)
      (masked_unit mlp h d m (i ! 0) (i ! 1) (i ! 2) (split_index ?ni (i ! 3)))
      (masked_unit mlp h d m ((butlast i @ [?ni + last i]) ! 0) ((butlast i @ [?ni + last i]) ! 1) ((butlast i @ [?ni + last i]) ! 2)
         (split_index ?ni ((butlast i @ [?ni + last i]) ! 3))))" by blast
  have "tens av ([n, s, ?e] @ [?ni]) (\<lambda>i. masked_act sigmoid mlp h d m (i ! 0) (i ! 1) (i ! 2) (i ! 3))"
    by (rule tens_cong [OF av(2)]) (auto simp: in_range_Cons masked_act_def split_index_def)
  then show ?thesis using g av(1) by auto
qed

text \<open>The weighted sum over the choices.\<close>

lemma chosen_weights:
  assumes sc: "t_shape scores = [b, s, nk]" and c: "t_shape c = [nk, b, s, h]"
  shows "\<exists>w p out. view scores [b, s, nk] = Inr w \<and> tensor_op (*) c (unsqueeze (permute w [2, 0, 1]) 3) = Inr p
    \<and> view (sum_dim p 0) [b, s, h] = Inr out
    \<and> tens out [b, s, h] (\<lambda>i. \<Sum>k\<leftarrow>[0..<nk]. t_at scores [i ! 0, i ! 1, k] * t_at c [k, i ! 0, i ! 1, i ! 2])"
proof -
  have H: "tens scores [b, s, nk] (t_at scores)" "tens c ([nk, b, s] @ [h]) (t_at c)" using sc c by (simp_all add: tens_def)
  obtain w where w: "view scores [b, s, nk] = Inr w" "tens w [b, s, nk] (t_at scores)"
    by (rule view_same [OF H(1), of "[b, s, nk]" "\<lambda>i. i"]) auto
  have "tens (unsqueeze (permute w [2, 0, 1]) 3) (take 3 [nk, b, s] @ 1 # drop 3 [nk, b, s]) (\<lambda>i. t_at scores [i ! 1, i ! 2, i ! 0])"
    by (rule tens_cong [OF unsqueeze_tens [OF permute_known(7) [OF w(2)]]]) (auto simp: in_range_Cons)
  then have w2: "tens (unsqueeze (permute w [2, 0, 1]) 3) ([nk, b, s] @ [1]) (\<lambda>i. t_at scores [i ! 1, i ! 2, i ! 0])" by simp
  obtain p where p: "tensor_op (*) c (unsqueeze (permute w [2, 0, 1]) 3) = Inr p"
    "tens p ([nk, b, s] @ [h]) (\<lambda>i. t_at c i * t_at scores [(butlast i @ [0]) ! 1, (butlast i @ [0]) ! 2, (butlast i @ [0]) ! 0])"
    using tensor_op_last_tens [OF H(2) w2] by blast
  have "tens (sum_dim p 0) ([] @ [b, s, h]) (\<lambda>i. \<Sum>k\<leftarrow>[0..<nk]. t_at scores [i ! 0, i ! 1, k] * t_at c [k, i ! 0, i ! 1, i ! 2])"
    by (rule tens_cong [OF sum_dim_tens [of p "[]" nk "[b, s, h]"]])
      (use p(2) in \<open>auto simp: in_range_Cons mult.commute\<close>)
  then have sd: "tens (sum_dim p 0) [b, s, h] (\<lambda>i. \<Sum>k\<leftarrow>[0..<nk]. t_at scores [i ! 0, i ! 1, k] * t_at c [k, i ! 0, i ! 1, i ! 2])" by simp
  obtain out where "view (sum_dim p 0) [b, s, h] = Inr out"
    "tens out [b, s, h] (\<lambda>i. \<Sum>k\<leftarrow>[0..<nk]. t_at scores [i ! 0, i ! 1, k] * t_at c [k, i ! 0, i ! 1, i ! 2])"
    by (rule view_same [OF sd, of "[b, s, h]" "\<lambda>i. i"]) auto
  then show ?thesis using w(1) p(1) by blast
qed

text \<open>C36. \<open>A2aSparseStackedMlp\<close>, built from the experts of a module, computes the same mixture: splitting
  the projections apart and clamping before the split change nothing, as long as the limit is not
  negative.\<close>

theorem stacked_mlp_is_the_mixture:
  assumes mlp: "mlp_sized mlp h" "mm_activation mlp = GptOss" "0 \<le> mm_limit mlp" and run: "runs_faithfully xla dev"
    and st: "new_stacked_mlp (mm_experts mlp) (Some (mm_alpha mlp)) (Some (mm_limit mlp)) config_hidden (mm_num_experts mlp)
      (mm_top_k mlp) nd axis = Inr st" "config_hidden = None \<or> config_hidden = Some h"
    and hid: "t_shape hidden = [b, s, h]" "0 < b" "0 < s"
    and router: "router hidden = Inr (logits, scores, indices)"
    and shapes: "t_shape scores = [b, s, mm_top_k mlp]" "tens indices [b, s, mm_top_k mlp] (\<lambda>i. int (pick (i ! 0) (i ! 1) (i ! 2)))"
    and range: "\<forall>x < b. \<forall>y < s. \<forall>k < mm_top_k mlp. pick x y k < mm_num_experts mlp"
  shows "\<exists>out. stacked_forward sigmoid xla dev router st hidden = Inr (out, scores) \<and> t_shape out = [b, s, h]
    \<and> (\<forall>x < b. \<forall>y < s. \<forall>j < h. t_at out [x, y, j]
        = mixture sigmoid mlp h (pick x y) (\<lambda>k. t_at scores [x, y, k]) (\<lambda>r. t_at hidden [x, y, r]) j)"
proof -
  let ?e = "mm_num_experts mlp" and ?nk = "mm_top_k mlp" and ?ni = "mm_inter mlp" and ?ex = "sk_experts st"
  let ?n = "b * nd"
  note F = new_stacked_fields [OF mlp(1) st(2,1)]
  have H: "tens hidden [b, s, h] (t_at hidden)" using hid by (simp add: tens_def)
  obtain x where x: "view hidden [b, 1, s, h] = Inr x" "tens x [b, 1, s, h] (\<lambda>i. t_at hidden [i ! 0, i ! 2, i ! 3])"
    by (rule view_same [OF H, of "[b, 1, s, h]" "\<lambda>i. [i ! 0, i ! 2, i ! 3]"]) (auto simp: in_range_Cons)
  obtain ch where ch: "view indices [b, 1, s, ?nk] = Inr ch" "tens ch [b, 1, s, ?nk] (\<lambda>i. int (pick (i ! 0) (i ! 2) (i ! 3)))"
    by (rule view_same [OF shapes(2), of "[b, 1, s, ?nk]" "\<lambda>i. [i ! 0, i ! 2, i ! 3]"]) (auto simp: in_range_Cons)
  define d where "d x y = (\<lambda>r. t_at hidden [x mod b, y, r])" for x y
  define g where "g i = pick (i ! 1 mod b) (i ! 2) (i ! 3)" for i
  obtain ds me where dm: "all_to_all_dispatch (x_dispatch xla) CPU x ch (sk_mapping st) nd (sk_cluster_axis st) = Inr (ds, me)"
    "tens ds [1, ?n, s, h] (\<lambda>i. d (i ! 1) (i ! 2) (i ! 3))" "tens me [1, ?n, s, ?nk] (\<lambda>i. int (g i))"
    using dispatch_tens [OF x(2) ch(2) F(1), of "x_dispatch xla" "sk_mapping st" "sk_cluster_axis st"] by (auto simp: d_def g_def)
  have gr: "g i < ?e" if "in_range i [1, ?n, s, ?nk]" for i
    using that range hid(2) by (auto simp: in_range_Cons g_def)
  obtain ix where ix: "view me [?n, s, 1, ?nk] = Inr ix" "tens ix [?n, s, 1, ?nk] (\<lambda>i. int (g [0, i ! 0, i ! 1, i ! 3]))"
    by (rule view_same [OF dm(3), of "[?n, s, 1, ?nk]" "\<lambda>i. [0, i ! 0, i ! 1, i ! 3]"]) (auto simp: in_range_Cons)
  define m where "m i = (if \<exists>k < ?nk. pick (i ! 0 mod b) (i ! 1) k = i ! 3 then 1 else 0 :: rat)" for i
  have "g [0, i ! 0, i ! 1, i ! 3] < ?e" if "in_range i [?n, s, 1, ?nk]" for i
    using that gr by (auto simp: in_range_Cons)
  from token_mask [OF ix(2) this] obtain sp where
    sp: "scatter_last (full_tensor [?n, s, 1, ?e] 0) ix (full_tensor (t_shape ix) (1 :: rat)) = Inr sp" "tens sp [?n, s, 1, ?e] m"
    by (auto simp: m_def [abs_def] g_def)
  obtain h4 where h4: "view ds [?n, s, 1, h] = Inr h4" "tens h4 [?n, s, 1, h] (\<lambda>i. d (i ! 0) (i ! 1) (i ! 3))"
    by (rule view_same [OF dm(2), of "[?n, s, 1, h]" "\<lambda>i. [0, i ! 0, i ! 1, i ! 3]"]) (auto simp: in_range_Cons)
  obtain go gv gu av where gg: "sparse_matmul (x_matmul xla) CPU h4 (gate_up_proj ?ex) sp (Some 0) False True = Inr go"
    "view go [?n, s, ?e, ?ni * 2] = Inr gv" "tensor_op (+) gv (gate_up_proj_bias ?ex) = Inr gu" "stacked_activate sigmoid st gu = Inr av"
    "tens av [?n, s, ?e, ?ni] (\<lambda>i. masked_act sigmoid mlp h d m (i ! 0) (i ! 1) (i ! 2) (i ! 3))"
    using stacked_units [OF mlp(1,3) st(2,1) h4(2) sp(2), of "x_matmul xla" "Some 0" sigmoid] by blast
  obtain a' sp' out u where u: "view av [?n * s, ?e, 1, ?ni] = Inr a'" "view sp [1, 1, ?n * s, ?e] = Inr sp'"
    "sparse_matmul (x_matmul xla) CPU a' (down_proj ?ex) sp' (Some 0) True False = Inr out"
    "tensor_op (+) (squeeze out 2) (down_proj_bias (mm_experts mlp)) = Inr u" "t_shape u = [?n * s, ?e, h]"
    "\<forall>t < ?n * s. \<forall>g < ?e. \<forall>j < h. m [t div s, t mod s, 0, g] = 1
        \<longrightarrow> t_at u [t, g, j] = expert_out sigmoid mlp h g (d (t div s) (t mod s)) j"
    using token_expert_outputs [OF mlp(1,2) hid(3) gg(5) F(10) sp(2), of "x_matmul xla" "Some 0"] by blast
  have U: "tens u [?n * s, ?e, h] (t_at u)" using u(5) by (simp add: tens_def)
  have lt: "c + k * s < b * (nd * s)" if "k < ?n" "c < s" for k c
    using mult_add_less(2) [of k ?n c s] that by (simp add: mult.assoc)
  obtain u4 where u4: "view u [?n, s, ?e, h] = Inr u4" "tens u4 [?n, s, ?e, h] (\<lambda>i. t_at u [i ! 0 * s + i ! 1, i ! 2, i ! 3])"
    by (rule view_same [OF U, of "[?n, s, ?e, h]" "\<lambda>i. [i ! 0 * s + i ! 1, i ! 2, i ! 3]"])
      (auto simp: in_range_Cons lt algebra_simps)
  note pu = permute_known(2) [OF u4(2)]
  obtain comb where comb: "all_to_all_combine (x_combine xla) CPU (permute u4 [2, 0, 1, 3]) me (sk_mapping st) nd (sk_cluster_axis st) ?nk 1 = Inr comb"
    "t_shape comb = [?nk, b, s, h]"
    "\<forall>k < ?nk. \<forall>x < b. \<forall>c < s. \<forall>j. t_at comb [k, x, c, j] = t_at (permute u4 [2, 0, 1, 3]) [g [0, x, c, k], x, c, j]"
    using combine_places [OF tens_shape [OF pu] dm(3) gr F(1), of 1 "x_combine xla" "sk_mapping st" "sk_cluster_axis st"] by auto
  obtain w p res where r: "view scores [b, s, ?nk] = Inr w" "tensor_op (*) comb (unsqueeze (permute w [2, 0, 1]) 3) = Inr p"
    "view (sum_dim p 0) [b, s, h] = Inr res"
    "tens res [b, s, h] (\<lambda>i. \<Sum>k\<leftarrow>[0..<?nk]. t_at scores [i ! 0, i ! 1, k] * t_at comb [k, i ! 0, i ! 1, i ! 2])"
    using chosen_weights [OF shapes(1) comb(2)] by blast
  have "t_at comb [k, x, y, j] = expert_out sigmoid mlp h (pick x y k) (\<lambda>r. t_at hidden [x, y, r]) j"
    if a: "x < b" "y < s" "k < ?nk" "j < h" for x y k j
  proof -
    have xn: "x < ?n" using a(1) F(1) by (simp add: less_le_trans)
    have "t_at comb [k, x, y, j] = t_at u [x * s + y, pick x y k, j]"
      using comb(3) a tensD [OF pu, of "[pick x y k, x, y, j]"] range xn by (simp add: g_def)
    moreover have "m [x, y, 0, pick x y k] = 1" using a by (auto simp: m_def)
    ultimately show ?thesis
      using u(6) [rule_format, of "x * s + y" "pick x y k" j] a range hid(3) xn mult_add_less(1) [of x ?n y s] by (simp add: d_def)
  qed
  then have "t_at res [x, y, j] = mixture sigmoid mlp h (pick x y) (\<lambda>k. t_at scores [x, y, k]) (\<lambda>r. t_at hidden [x, y, r]) j"
    if "x < b" "y < s" "j < h" for x y j
    using tensD [OF r(4), of "[x, y, j]"] that by (auto simp: mixture_def intro!: arg_cong [where f = sum_list])
  moreover have "stacked_forward sigmoid xla dev router st hidden = Inr (res, scores)"
    using tens_shape [OF dm(2)]
    by (simp add: stacked_forward_def Let_def hid(1) router x(1) ch(1) F(2-7,11) runs_faithfullyD(2) [OF run dm(1)] ix(1) sp(1) h4(1)
        runs_faithfullyD(1) [OF run gg(1)] gg(2-4) u(1,2) runs_faithfullyD(1) [OF run u(3)] u(4) u4(1)
        runs_faithfullyD(3) [OF run comb(1)] r(1-3) del: One_nat_def)
  ultimately show ?thesis using tens_shape [OF r(4)] by blast
qed

text \<open>The module built from the experts of \<open>small_gpt\<close>.\<close>

definition small_stacked :: stacked_mlp where
  "small_stacked =
     (case new_stacked_mlp (mm_experts small_gpt) (Some 1) (Some 7) None 2 1 1 0 of Inr st \<Rightarrow> st | Inl _ \<Rightarrow> undefined)"

lemma small_stacked_built: "new_stacked_mlp (mm_experts small_gpt) (Some 1) (Some 7) None 2 1 1 0 = Inr small_stacked"
proof -
  have "\<exists>st. new_stacked_mlp (mm_experts small_gpt) (Some 1) (Some 7) None 2 1 1 0 = Inr st"
    by (simp add: new_stacked_mlp_def small_gpt_def small_mlp_def full_tensor_def deinterleave_def cat_last_def every_second_def
        view_def build_expert_mapping_def expert_device_def rassert_def res_simps Let_def upt_rec)
  then show ?thesis by (auto simp: small_stacked_def)
qed

theorem stacked_mlp_is_the_mixture_witness:
  "\<exists>out. stacked_forward (\<lambda>_. 1 / 2) ref_xla XLA small_choice small_stacked (full_tensor [1, 2, 1] 1)
       = Inr (out, \<lparr> t_shape = [1, 2, 1], t_at = (\<lambda>i. of_nat (i ! 1) + 1) \<rparr>) \<and> t_at out [0, 1, 0] = 10"
proof -
  let ?scores = "\<lparr> t_shape = [1, 2, 1], t_at = (\<lambda>i. of_nat (i ! 1) + 1) \<rparr> :: rat tensor"
  have st: "new_stacked_mlp (mm_experts small_gpt) (Some (mm_alpha small_gpt)) (Some (mm_limit small_gpt)) None
      (mm_num_experts small_gpt) (mm_top_k small_gpt) 1 0 = Inr small_stacked"
    using small_stacked_built by (simp add: small_gpt_def small_mlp_def)
  have "\<exists>out. stacked_forward (\<lambda>_. 1 / 2) ref_xla XLA small_choice small_stacked (full_tensor [1, 2, 1] 1) = Inr (out, ?scores)
     \<and> t_shape out = [1, 2, 1] \<and> (\<forall>x < 1. \<forall>y < 2. \<forall>j < 1. t_at out [x, y, j]
        = mixture (\<lambda>_. 1 / 2) small_gpt 1 (\<lambda>_. y) (\<lambda>k. t_at ?scores [x, y, k]) (\<lambda>r. t_at (full_tensor [1, 2, 1] 1) [x, y, r]) j)"
    by (rule stacked_mlp_is_the_mixture [where pick = "\<lambda>_ y _. y" and logits = "full_tensor [1, 2, 2] 0"
        and indices = "\<lparr> t_shape = [1, 2, 1], t_at = (\<lambda>i. int (i ! 1)) \<rparr>", OF _ _ _ _ st])
      (auto simp: small_gpt_def small_mlp_def mlp_sized_def full_tensor_def small_choice_def tens_def runs_faithfully_def ref_xla_ok)
  then obtain out where out: "stacked_forward (\<lambda>_. 1 / 2) ref_xla XLA small_choice small_stacked (full_tensor [1, 2, 1] 1) = Inr (out, ?scores)"
    "t_at out [0, 1, 0] = mixture (\<lambda>_. 1 / 2) small_gpt 1 (\<lambda>_. 1) (\<lambda>k. t_at ?scores [0, 1, k]) (\<lambda>r. t_at (full_tensor [1, 2, 1] 1) [0, 1, r]) 0"
    by (metis less_one one_less_numeral_iff semiring_norm(76))
  have "mixture (\<lambda>_. 1 / 2) small_gpt 1 (\<lambda>_. 1) (\<lambda>k. t_at ?scores [0, 1, k]) (\<lambda>r. t_at (full_tensor [1, 2, 1] 1) [0, 1, r]) 0 = 10"
    by (simp add: mixture_def expert_out_def small_gpt_def small_mlp_def full_tensor_def dot_def act_entry_def gpt_oss_def
        clamp_to_def Let_def)
  with out show ?thesis by auto
qed

section \<open>Deepseek experts\<close>

lemma stack_tens:
  assumes "ts \<noteq> []" "\<And>i. i < length ts \<Longrightarrow> tens (ts ! i) sh (f i)"
  shows "\<exists>t. stack ts = Inr t \<and> tens t (length ts # sh) (\<lambda>i. f (hd i) (tl i))"
proof -
  have sh: "t_shape t = sh" if "t \<in> set ts" for t using assms(2) that by (auto simp: in_set_conv_nth tens_def)
  then have "list_all (\<lambda>u. t_shape u = sh) ts" by (simp add: list_all_iff)
  moreover obtain t ts' where ts: "ts = t # ts'" using assms(1) by (cases ts) auto
  moreover have "t_shape t = sh" using sh ts by simp
  ultimately have "stack ts = Inr \<lparr> t_shape = length ts # sh, t_at = (\<lambda>i. t_at (ts ! hd i) (tl i)) \<rparr>"
    by (simp add: stack_def)
  then show ?thesis using assms(2) by (auto simp: tens_def in_range_Cons)
qed

definition dsv3_sized :: "nat \<Rightarrow> nat \<Rightarrow> dsv3_expert \<Rightarrow> bool" where
  "dsv3_sized ni h e \<longleftrightarrow> t_shape (ds_gate e) = [ni, h] \<and> t_shape (ds_up e) = [ni, h] \<and> t_shape (ds_down e) = [h, ni]"

lemma gate_up_of_tens:
  assumes "dsv3_sized ni h e"
  shows "\<exists>t. gate_up_of h ni e = Inr t \<and> tens t [h, 2 * ni]
    (\<lambda>i. t_at (if i ! 1 mod 2 = 0 then ds_gate e else ds_up e) [i ! 1 div 2, i ! 0])"
proof -
  have "own_index [ni, h] [c div 2, r] = [c div 2, r]" if "r < h" "c < 2 * ni" for r c
    using that by (intro own_index_same) simp
  then show ?thesis using assms
    by (auto simp: gate_up_of_def dsv3_sized_def fits_def tens_def Let_def in_range_Cons mult.commute res_simps)
qed

lemma stacked_experts_tens:
  assumes "es \<noteq> []" "\<And>e. e \<in> set es \<Longrightarrow> dsv3_sized ni h e"
  shows "\<exists>ex. stacked_experts es = Inr ex
    \<and> tens (gate_up_proj ex) [length es, h, 2 * ni]
        (\<lambda>i. t_at (if i ! 2 mod 2 = 0 then ds_gate (es ! hd i) else ds_up (es ! hd i)) [i ! 2 div 2, i ! 1])
    \<and> tens (down_proj ex) [length es, ni, h] (\<lambda>i. t_at (ds_down (es ! hd i)) [i ! 2, i ! 1])
    \<and> gate_up_proj_bias ex = full_tensor [length es, ni * 2] 0 \<and> down_proj_bias ex = full_tensor [length es, h] 0"
proof -
  have "\<forall>e \<in> set es. \<exists>t. gate_up_of h ni e = Inr t \<and> tens t [h, 2 * ni]
      (\<lambda>i. t_at (if i ! 1 mod 2 = 0 then ds_gate e else ds_up e) [i ! 1 div 2, i ! 0])"
    using gate_up_of_tens assms(2) by blast
  from bchoice [OF this] obtain gu where gu: "\<And>e. e \<in> set es \<Longrightarrow> gate_up_of h ni e = Inr (gu e)"
    "\<And>e. e \<in> set es \<Longrightarrow> tens (gu e) [h, 2 * ni] (\<lambda>i. t_at (if i ! 1 mod 2 = 0 then ds_gate e else ds_up e) [i ! 1 div 2, i ! 0])"
    by blast
  have m: "rmap (gate_up_of h ni) es = Inr (map gu es)" by (rule rmap_all) (use gu(1) in blast)
  obtain g where g: "stack (map gu es) = Inr g" "tens g (length (map gu es) # [h, 2 * ni])
      (\<lambda>i. (\<lambda>n i. t_at (if i ! 1 mod 2 = 0 then ds_gate (es ! n) else ds_up (es ! n)) [i ! 1 div 2, i ! 0]) (hd i) (tl i))"
    using stack_tens [of "map gu es" "[h, 2 * ni]"
        "\<lambda>n i. t_at (if i ! 1 mod 2 = 0 then ds_gate (es ! n) else ds_up (es ! n)) [i ! 1 div 2, i ! 0]"] assms(1) gu(2) by auto
  have "tens (permute (ds_down e) [1, 0]) [ni, h] (\<lambda>i. t_at (ds_down e) [i ! 1, i ! 0])" if "e \<in> set es" for e
    using permute_known(6) [of "ds_down e" h ni "t_at (ds_down e)"] assms(2) [OF that] by (simp add: dsv3_sized_def tens_def)
  then obtain d where d: "stack (map (\<lambda>e. permute (ds_down e) [1, 0]) es) = Inr d"
    "tens d (length (map (\<lambda>e. permute (ds_down e) [1, 0]) es) # [ni, h])
      (\<lambda>i. (\<lambda>n i. t_at (ds_down (es ! n)) [i ! 1, i ! 0]) (hd i) (tl i))"
    using stack_tens [of "map (\<lambda>e. permute (ds_down e) [1, 0]) es" "[ni, h]" "\<lambda>n i. t_at (ds_down (es ! n)) [i ! 1, i ! 0]"] assms(1)
    by auto
  obtain e es' where es: "es = e # es'" using assms(1) by (cases es) auto
  have "t_shape (ds_gate e) = [ni, h]" using assms(2) es by (simp add: dsv3_sized_def)
  then have "stacked_experts es = Inr \<lparr> gate_up_proj = g, gate_up_proj_bias = full_tensor [length es, ni * 2] 0,
      down_proj = d, down_proj_bias = full_tensor [length es, h] 0 \<rparr>"
    using m g(1) d(1) by (simp add: stacked_experts_def es)
  moreover have "tens g [length es, h, 2 * ni]
        (\<lambda>i. t_at (if i ! 2 mod 2 = 0 then ds_gate (es ! hd i) else ds_up (es ! hd i)) [i ! 2 div 2, i ! 1])"
    by (rule tens_cong [OF g(2) [simplified]]) (auto simp: in_range_Cons)
  moreover have "tens d [length es, ni, h] (\<lambda>i. t_at (ds_down (es ! hd i)) [i ! 2, i ! 1])"
    by (rule tens_cong [OF d(2) [simplified]]) (auto simp: in_range_Cons)
  ultimately show ?thesis by simp
qed

text \<open>C39. Building an \<open>A2aSparseMLP\<close> from a \<open>DeepseekV3MoE\<close> whose experts are all on the process keeps the
  experts: with the stacked, interleaved and transposed weights an expert still computes
  \<open>down (silu (gate x) * up x)\<close>.\<close>

theorem deepseek_experts_are_kept:
  assumes "es \<noteq> []" "\<forall>e \<in> set es. dsv3_sized ni h e" "0 < ni"
    and "create_a2a_from_deepseek_v3_moe n_routed (map Some es) (length es) top_k num_devices axis dispatch_devices = Inr mlp"
    and "g < length es" "j < h"
  shows "mlp_sized mlp h \<and> expert_out sigmoid mlp h g x j
    = (\<Sum>l\<leftarrow>[0..<ni]. let gate = dot h x (\<lambda>r. t_at (ds_gate (es ! g)) [l, r]); up = dot h x (\<lambda>r. t_at (ds_up (es ! g)) [l, r])
         in gate * sigmoid gate * up * t_at (ds_down (es ! g)) [j, l])"
proof -
  have sz: "dsv3_sized ni h e" if "e \<in> set es" for e using assms(2) that by blast
  obtain ex where ex: "stacked_experts es = Inr ex"
    "tens (gate_up_proj ex) [length es, h, 2 * ni]
        (\<lambda>i. t_at (if i ! 2 mod 2 = 0 then ds_gate (es ! hd i) else ds_up (es ! hd i)) [i ! 2 div 2, i ! 1])"
    "tens (down_proj ex) [length es, ni, h] (\<lambda>i. t_at (ds_down (es ! hd i)) [i ! 2, i ! 1])"
    "gate_up_proj_bias ex = full_tensor [length es, ni * 2] 0" "down_proj_bias ex = full_tensor [length es, h] 0"
    using stacked_experts_tens [OF assms(1) sz] by auto
  have p: "present_experts (map Some es) = map Some es"
    by (simp add: present_experts_def filter_map comp_def)
  have "deepseek_adapter n_routed (map Some es) = Inr ex \<or> (\<exists>e. deepseek_adapter n_routed (map Some es) = Inl e)"
    by (simp add: deepseek_adapter_def p Let_def rguard_def ex(1) comp_def)
  then obtain mapping where m: "mlp = \<lparr> mm_experts = ex, mm_num_experts = length es, mm_top_k = top_k, mm_inter = ni,
      mm_alpha = 1702 / 1000, mm_limit = 7, mm_activation = Deepseek,
      mm_dispatch_devices = (case dispatch_devices of None \<Rightarrow> num_devices | Some d \<Rightarrow> d),
      mm_cluster_axis = axis, mm_mapping = mapping, mm_fused = True, mm_dense = False \<rparr>"
    using assms(4) tens_shape [OF ex(2)] by (auto simp: create_a2a_from_deepseek_v3_moe_def new_a2a_mlp_def res_simps)
  have sized: "mlp_sized mlp h"
    using assms(1,3) ex(4,5) tens_shape [OF ex(2)] tens_shape [OF ex(3)] by (simp add: mlp_sized_def m full_tensor_def)
  have unit: "dot h x (\<lambda>r. t_at (gate_up_proj ex) [g, r, l]) = dot h x (\<lambda>r. t_at (if even l then ds_gate (es ! g) else ds_up (es ! g)) [l div 2, r])"
    if "l < 2 * ni" for l
    using that assms(5) tensD [OF ex(2)] by (auto simp: dot_def even_iff_mod_2_eq_zero intro!: arg_cong [where f = sum_list])
  have "expert_out sigmoid mlp h g x j = dot ni (\<lambda>l. let gate = dot h x (\<lambda>r. t_at (gate_up_proj ex) [g, r, 2 * l]);
      up = dot h x (\<lambda>r. t_at (gate_up_proj ex) [g, r, 1 + 2 * l]) in gate * sigmoid gate * up) (\<lambda>l. t_at (down_proj ex) [g, l, j])"
    by (simp add: expert_out_def m act_entry_def ex(4,5) full_tensor_def Let_def)
  also have "\<dots> = (\<Sum>l\<leftarrow>[0..<ni]. let gate = dot h x (\<lambda>r. t_at (ds_gate (es ! g)) [l, r]); up = dot h x (\<lambda>r. t_at (ds_up (es ! g)) [l, r])
         in gate * sigmoid gate * up * t_at (ds_down (es ! g)) [j, l])"
    unfolding dot_def [of ni]
    using assms(5,6) by (intro arg_cong [where f = sum_list] map_cong) (auto simp: unit tensD [OF ex(3)] Let_def)
  finally show ?thesis using sized by blast
qed

text \<open>Two equal experts on vectors of one entry.\<close>

definition small_dsv3 :: dsv3_expert where
  "small_dsv3 = \<lparr> ds_gate = full_tensor [1, 1] 2, ds_up = full_tensor [1, 1] 3, ds_down = full_tensor [1, 1] 5 \<rparr>"

definition small_moe :: moe_mlp where
  "small_moe = (case create_a2a_from_deepseek_v3_moe 2 (map Some [small_dsv3, small_dsv3]) (length [small_dsv3, small_dsv3]) 1 2 0 None
     of Inr mlp \<Rightarrow> mlp | Inl _ \<Rightarrow> undefined)"

theorem deepseek_experts_are_kept_witness:
  "mlp_sized small_moe 1 \<and> expert_out (\<lambda>_. 1 / 2) small_moe 1 1 (\<lambda>_. 1) 0 = 15"
proof -
  have "\<exists>mlp. create_a2a_from_deepseek_v3_moe 2 (map Some [small_dsv3, small_dsv3]) (length [small_dsv3, small_dsv3]) 1 2 0 None = Inr mlp"
    by (simp add: create_a2a_from_deepseek_v3_moe_def deepseek_adapter_def present_experts_def stacked_experts_def stack_def
        gate_up_of_def fits_def small_dsv3_def full_tensor_def permute_def new_a2a_mlp_def build_expert_mapping_def
        expert_device_def rassert_def res_simps Let_def upt_rec)
  then have mk: "create_a2a_from_deepseek_v3_moe 2 (map Some [small_dsv3, small_dsv3]) (length [small_dsv3, small_dsv3]) 1 2 0 None = Inr small_moe"
    by (auto simp: small_moe_def)
  have "mlp_sized small_moe 1 \<and> expert_out (\<lambda>_. 1 / 2) small_moe 1 1 (\<lambda>_. 1) 0 = (\<Sum>l\<leftarrow>[0..<1].
      let gate = dot 1 (\<lambda>_. 1) (\<lambda>r. t_at (ds_gate ([small_dsv3, small_dsv3] ! 1)) [l, r]);
          up = dot 1 (\<lambda>_. 1) (\<lambda>r. t_at (ds_up ([small_dsv3, small_dsv3] ! 1)) [l, r])
      in gate * (1 / 2) * up * t_at (ds_down ([small_dsv3, small_dsv3] ! 1)) [0, l])"
    by (rule deepseek_experts_are_kept [OF _ _ _ mk]) (simp_all add: dsv3_sized_def small_dsv3_def full_tensor_def)
  then show ?thesis by (simp add: small_dsv3_def full_tensor_def dot_def)
qed

text \<open>C40. A module built from a \<open>DeepseekV3MoE\<close> never returns on any device: its router gives two results where
  \<open>A2aSparseMLP.forward\<close> takes three, which is a \<open>ValueError\<close> as soon as the router has run.\<close>

theorem deepseek_module_always_raises:
  "(\<exists>e. with_shared (a2a_forward sigmoid xla dev golden (router_adapter gate n) mlp) shared hidden = Inl e)
   \<and> (t_shape hidden = [b, s, h] \<and> (\<forall>flat. t_shape flat = [b * s, h] \<longrightarrow> (\<exists>r. router_adapter gate n flat = Inr r))
        \<longrightarrow> with_shared (a2a_forward sigmoid xla dev golden (router_adapter gate n) mlp) shared hidden = Inl ValueError)"
proof -
  have pair: "\<exists>sc ix. r = RouterPair sc ix" if "router_adapter gate n t = Inr r" for t r
    using that by (auto simp: router_adapter_def res_simps split: prod.splits)
  have raises: "a2a_forward sigmoid xla dev golden (router_adapter gate n) mlp hidden = Inl ValueError"
    if sh: "t_shape hidden = [b, s, h]" and r: "view hidden [b * s, h] = Inr t" "router_adapter gate n t = Inr r" for b s h t r
    using pair [OF r(2)] r by (auto simp: a2a_forward_def sh)
  have "\<exists>e. a2a_forward sigmoid xla dev golden (router_adapter gate n) mlp hidden = Inl e"
  proof (cases "a2a_forward sigmoid xla dev golden (router_adapter gate n) mlp hidden")
    case (Inr out)
    then obtain b s h t r where "t_shape hidden = [b, s, h]" "view hidden [b * s, h] = Inr t" "router_adapter gate n t = Inr r"
      by (auto simp: a2a_forward_def res_simps Let_def split: list.splits)
    from raises [OF this] Inr show ?thesis by simp
  qed simp
  moreover have "with_shared (a2a_forward sigmoid xla dev golden (router_adapter gate n) mlp) shared hidden = Inl ValueError"
    if sh: "t_shape hidden = [b, s, h]" and r: "\<forall>flat. t_shape flat = [b * s, h] \<longrightarrow> (\<exists>r. router_adapter gate n flat = Inr r)"
  proof -
    obtain t where t: "view hidden [b * s, h] = Inr t" "t_shape t = [b * s, h]" by (auto simp: view_def sh res_simps)
    then show ?thesis using raises [OF sh t(1)] r by (auto simp: with_shared_def)
  qed
  ultimately show ?thesis by (auto simp: with_shared_def)
qed

theorem deepseek_module_always_raises_witness:
  "with_shared (a2a_forward (\<lambda>_. 1 / 2) ref_xla XLA (\<lambda>_ _ _. Inl ValueError)
     (router_adapter (\<lambda>_. Inr (full_tensor [32, 1] 0, full_tensor [32, 1] 1)) 2) small_mlp) None (full_tensor [32, 1, 1] 1)
   = Inl ValueError"
proof -
  have "\<exists>r. router_adapter (\<lambda>_. Inr (full_tensor [32, 1] 0, full_tensor [32, 1] 1)) 2 flat = Inr r" for flat
  proof -
    have "list_all (\<lambda>i. 0 \<le> t_at (full_tensor [32, 1] (0 :: int)) i \<and> t_at (full_tensor [32, 1] (0 :: int)) i < int 2) (all_indices [32, 1])"
      by (simp add: list_all_iff full_tensor_def)
    then show ?thesis by (simp add: router_adapter_def scatter_last_def full_tensor_def res_simps Let_def)
  qed
  then show ?thesis
    using deepseek_module_always_raises [of "\<lambda>_. 1 / 2" ref_xla XLA "\<lambda>_ _ _. Inl ValueError"
        "\<lambda>_. Inr (full_tensor [32, 1] 0, full_tensor [32, 1] 1)" 2 small_mlp None "full_tensor [32, 1, 1] 1" 32 1 1]
    by (simp add: full_tensor_def)
qed

end
