(* ===== verification/Decomp.thy ===== *)
theory Decomp
  imports TensorOps
begin

text \<open>
  The decompositions of \<open>tt_torch/backend/decompositions.py\<close> that compute: interpolation by products with
  weight matrices, \<open>masked_scatter\<close>, \<open>split_with_sizes\<close>, \<open>squeeze\<close> and \<open>avg_pool2d\<close>.

  Floating point numbers are exact. What a decomposition leaves to the default implementation
  (\<open>NotImplemented\<close>) is \<open>None\<close>. The output size of an interpolation comes from torch
  (\<open>upsample_compute_output_size\<close>) and is an argument.
\<close>

section \<open>Weights\<close>

text \<open>The position in the input that an output sample reads.\<close>

definition sample_position :: "rat \<Rightarrow> rat \<Rightarrow> nat \<Rightarrow> rat" where
  "sample_position translation inv_scale j =
     (of_nat j + 1 / 2) * inv_scale - translation * inv_scale - 1 / 2"

definition linear_entry :: "nat \<Rightarrow> rat \<Rightarrow> nat \<Rightarrow> rat" where
  "linear_entry input_size x i =
     (let w = (\<lambda>i. max 0 (1 - \<bar>x - of_nat i\<bar>));
          total = sum_list (map w [0..<input_size]);
          total = (if total \<noteq> 0 then total else 1)
      in if - 1 / 2 \<le> x \<and> x \<le> of_nat input_size - 1 / 2 then w i / total else 0)"

definition compute_linear_weight :: "nat \<Rightarrow> nat \<Rightarrow> rat \<Rightarrow> bool \<Rightarrow> rat tensor res" where
  "compute_linear_weight input_size output_size scale align_corners =
     (if input_size = 1 then Inr (full_tensor [1, output_size] 1)
      else
        let scale = (if align_corners then (of_nat output_size - 1) / (of_nat input_size - 1) else scale);
            translation = (if align_corners then 1 / 2 - scale / 2 else 0)
        in rbind (rguard (scale \<noteq> 0) ZeroDivisionError) (\<lambda>_.
           Inr \<lparr> t_shape = [input_size, output_size],
                 t_at = (\<lambda>i. linear_entry input_size (sample_position translation (1 / scale) (i ! 1)) (i ! 0)) \<rparr>))"

definition compute_nearest_weight :: "nat \<Rightarrow> nat \<Rightarrow> rat option \<Rightarrow> rat tensor res" where
  "compute_nearest_weight in_size out_size scale =
     rbind (case scale of
         Some s \<Rightarrow> rbind (rguard (s \<noteq> 0) ZeroDivisionError) (\<lambda>_. Inr (1 / s))
       | None \<Rightarrow> rbind (rguard (out_size \<noteq> 0) ZeroDivisionError) (\<lambda>_. Inr (of_nat in_size / of_nat out_size)))
     (\<lambda>scale.
     let input_indices = \<lparr> t_shape = [out_size], t_at = (\<lambda>i. \<lfloor>of_nat (i ! 0) * scale\<rfloor>) \<rparr>
     in rbind (rguard (0 < in_size) RuntimeError) (\<lambda>_.
        rbind (one_hot input_indices in_size) (\<lambda>hot.
        Inr (permute hot [1, 0]))))"

section \<open>Interpolation\<close>

definition swap_last :: "nat \<Rightarrow> 'a list \<Rightarrow> 'a list" where
  "swap_last d xs = xs[d := last xs, length xs - 1 := xs ! d]"

definition transpose_last :: "'a tensor \<Rightarrow> nat \<Rightarrow> 'a tensor" where
  "transpose_last t d = \<lparr> t_shape = swap_last d (t_shape t), t_at = (\<lambda>i. t_at t (swap_last d i)) \<rparr>"

text \<open>One product per interpolated dimension. Inputs have a batch and a channel dimension, so that the
  product is one of matrices.\<close>

fun upsample_loop ::
  "(nat \<Rightarrow> nat \<Rightarrow> 's \<Rightarrow> rat tensor res) \<Rightarrow> nat \<Rightarrow> nat list \<Rightarrow> nat list \<Rightarrow> 's list \<Rightarrow> rat tensor \<Rightarrow> rat tensor res" where
  "upsample_loop weight d ns ms [] t = Inr t"
| "upsample_loop weight d (n # ns) (m # ms) (s # ss) t =
     rbind (weight n m s) (\<lambda>w.
     rbind (matmul (transpose_last t d) w) (\<lambda>r.
     upsample_loop weight (Suc d) ns ms ss (transpose_last r d)))"
| "upsample_loop weight d _ _ _ t = Inl IndexError"

definition spatial :: "nat \<Rightarrow> nat list \<Rightarrow> nat list" where
  "spatial k sh = drop (length sh - k) sh"

text \<open>The scales that are passed in are replaced by the ratio of the sizes.\<close>

fun size_ratios :: "nat list \<Rightarrow> nat list \<Rightarrow> 's list \<Rightarrow> rat list res" where
  "size_ratios ns ms [] = Inr []"
| "size_ratios (n # ns) (m # ms) (s # ss) =
     rbind (rguard (n \<noteq> 0) ZeroDivisionError) (\<lambda>_.
     rbind (size_ratios ns ms ss) (\<lambda>rs. Inr (of_nat m / of_nat n # rs)))"
| "size_ratios _ _ _ = Inl IndexError"

definition upsample_linear :: "rat tensor \<Rightarrow> nat list \<Rightarrow> bool \<Rightarrow> 's list \<Rightarrow> rat tensor res" where
  "upsample_linear input output_size align_corners scales =
     (let k = length scales; input_size = spatial k (t_shape input)
      in rbind (size_ratios input_size output_size scales) (\<lambda>scales.
         upsample_loop (\<lambda>n m s. compute_linear_weight n m s align_corners) (length (t_shape input) - k)
           input_size output_size scales input))"

definition upsample_nearest :: "rat tensor \<Rightarrow> nat list \<Rightarrow> rat option list \<Rightarrow> rat tensor res" where
  "upsample_nearest input output_size scales =
     (let k = length scales; input_size = spatial k (t_shape input)
      in upsample_loop compute_nearest_weight (length (t_shape input) - k) input_size output_size scales input)"

text \<open>The entry points: with factors, or with an output size.\<close>

type_synonym size_fun = "nat list \<Rightarrow> nat list option \<Rightarrow> rat option list option \<Rightarrow> nat list res"

definition chosen_scales :: "nat list \<Rightarrow> rat option list option \<Rightarrow> rat option list" where
  "chosen_scales osize scale_factors =
     (case scale_factors of Some (s # ss) \<Rightarrow> s # ss | _ \<Rightarrow> replicate (length osize) None)"

definition upsample_linear_vec ::
  "size_fun \<Rightarrow> rat tensor \<Rightarrow> nat list option \<Rightarrow> bool \<Rightarrow> rat option list option \<Rightarrow> rat tensor res" where
  "upsample_linear_vec compute_size input output_size align_corners scale_factors =
     (let scale_factors = (if output_size = None then scale_factors else None)
      in rbind (compute_size (t_shape input) output_size scale_factors) (\<lambda>osize.
         upsample_linear input osize align_corners (chosen_scales osize scale_factors)))"

definition upsample_linear_default ::
  "size_fun \<Rightarrow> rat tensor \<Rightarrow> nat list option \<Rightarrow> bool \<Rightarrow> rat option \<Rightarrow> rat option \<Rightarrow> rat option \<Rightarrow> rat tensor res" where
  "upsample_linear_default compute_size input output_size align_corners sh sw sd =
     (let scale_factors = (if output_size = None then Some [sh, sw, sd] else None)
      in rbind (compute_size (t_shape input) output_size scale_factors) (\<lambda>osize.
         upsample_linear input osize align_corners (chosen_scales osize scale_factors)))"

definition upsample_nearest_vec ::
  "size_fun \<Rightarrow> rat tensor \<Rightarrow> nat list option \<Rightarrow> rat option list option \<Rightarrow> rat tensor res" where
  "upsample_nearest_vec compute_size input output_size scale_factors =
     (let scale_factors = (if output_size = None then scale_factors else None)
      in rbind (compute_size (t_shape input) output_size scale_factors) (\<lambda>osize.
         upsample_nearest input osize (chosen_scales osize scale_factors)))"

definition upsample_nearest_default ::
  "size_fun \<Rightarrow> rat tensor \<Rightarrow> nat list option \<Rightarrow> rat option \<Rightarrow> rat option \<Rightarrow> rat option \<Rightarrow> rat tensor res" where
  "upsample_nearest_default compute_size input output_size sh sw sd =
     (let scale_factors = (if output_size = None then Some [sh, sw, sd] else None)
      in rbind (compute_size (t_shape input) output_size scale_factors) (\<lambda>osize.
         upsample_nearest input osize (chosen_scales osize scale_factors)))"

section \<open>Pooling, splitting, squeezing\<close>

datatype int_arg = OneInt int | IntList "int list"

definition int_list :: "nat \<Rightarrow> int_arg \<Rightarrow> int list" where
  "int_list n a = (case a of OneInt k \<Rightarrow> replicate n k | IntList ks \<Rightarrow> ks)"

text \<open>Only the average over the whole plane is decomposed. The last three arguments are not read.\<close>

definition avg_pool2d ::
  "rat tensor \<Rightarrow> int_arg \<Rightarrow> int_arg option \<Rightarrow> int_arg \<Rightarrow> bool \<Rightarrow> bool \<Rightarrow> int option \<Rightarrow> rat tensor option" where
  "avg_pool2d input kernel_size stride padding ceil_mode count_include_pad divisor_override =
     (let kernel_size = int_list 2 kernel_size;
          stride = (case stride of None \<Rightarrow> kernel_size | Some s \<Rightarrow> int_list 2 s);
          padding = int_list 4 padding; sh = t_shape input;
          input_size = map int (if stride = [] then sh else spatial (length stride) sh)
      in if stride = kernel_size \<and> kernel_size = input_size \<and> padding = [0, 0, 0, 0]
         then Some \<lparr> t_shape = take (length sh - 2) sh @ [1, 1],
                     t_at = (\<lambda>i. let pre = take (length sh - 2) i; h = sh ! (length sh - 2); w = last sh
                       in sum_list (map (\<lambda>y. sum_list (map (\<lambda>x. t_at input (pre @ [y, x])) [0..<w])) [0..<h]) / of_nat (h * w)) \<rparr>
         else None)"

definition narrow :: "'a tensor \<Rightarrow> nat \<Rightarrow> nat \<Rightarrow> nat \<Rightarrow> 'a tensor res" where
  "narrow t d start len =
     rbind (rguard (d < length (t_shape t) \<and> start + len \<le> t_shape t ! d) RuntimeError) (\<lambda>_.
     Inr \<lparr> t_shape = (t_shape t)[d := len], t_at = (\<lambda>i. t_at t (i[d := start + i ! d])) \<rparr>)"

fun split_loop :: "'a tensor \<Rightarrow> nat \<Rightarrow> nat \<Rightarrow> nat list \<Rightarrow> 'a tensor list res" where
  "split_loop t d start [] = Inr []"
| "split_loop t d start (n # ns) =
     rbind (narrow t d start n) (\<lambda>s. rbind (split_loop t d (start + n) ns) (\<lambda>ss. Inr (s # ss)))"

definition split_with_sizes :: "'a tensor \<Rightarrow> int list \<Rightarrow> int \<Rightarrow> 'a tensor list res" where
  "split_with_sizes t split_sizes axis =
     (let n = int (length (t_shape t)); d = nat (if axis < 0 then axis + n else axis)
      in rbind (rguard (\<forall>s \<in> set split_sizes. 0 \<le> s) RuntimeError) (\<lambda>_.
         rbind (rguard (- n \<le> axis \<and> axis < n) IndexError) (\<lambda>_.
         rbind (rguard (sum_list split_sizes = int (t_shape t ! d)) ValueError) (\<lambda>_.
         split_loop t d 0 (map nat split_sizes)))))"

definition squeeze_dims :: "'a tensor \<Rightarrow> int list \<Rightarrow> 'a tensor res" where
  "squeeze_dims t dims = view t (map snd (filter (\<lambda>(i, _). int i \<notin> set dims) (enumerate 0 (t_shape t))))"

section \<open>masked_scatter\<close>

definition flattened :: "'a tensor \<Rightarrow> nat list \<Rightarrow> 'a list" where
  "flattened t sh = map (\<lambda>i. t_at t (own_index (t_shape t) i)) (all_indices sh)"

fun count_from :: "int \<Rightarrow> bool list \<Rightarrow> int list" where
  "count_from c [] = []"
| "count_from c (b # bs) = (let c = (if b then c + 1 else c) in c # count_from c bs)"

definition masked_scatter :: "'a tensor \<Rightarrow> bool tensor \<Rightarrow> 'a tensor \<Rightarrow> 'a tensor res" where
  "masked_scatter data marks source =
     rbind (common_shape (t_shape marks) (t_shape data)) (\<lambda>sh.
     let mask_f = flattened marks sh; data_flat = flattened data sh;
         source_flat = flattened source (t_shape source);
         source_idx = map (\<lambda>c. min (max (c - 1) 0) (int (length source_flat) - 1)) (count_from 0 mask_f)
     in rbind (rmap (\<lambda>k. rbind (tensor_index (length source_flat) k) (\<lambda>k. Inr (source_flat ! k))) source_idx) (\<lambda>gathered.
        let result = map2 (\<lambda>(m, g) d. if m then g else d) (zip mask_f gathered) data_flat
        in Inr \<lparr> t_shape = sh, t_at = (\<lambda>i. result ! flat sh i) \<rparr>))"

end
