(* ===== verification/DecompProps.thy ===== *)
theory DecompProps
  imports Decomp
begin

text \<open>
  The interpolations are linear interpolation between neighbours and the choice of the nearest sample;
  splitting is undone by concatenation; \<open>masked_scatter\<close> fills the marked places in order.
\<close>

section \<open>Linear weights\<close>

text \<open>Linear interpolation at a position that is first moved into the input.\<close>

definition interp :: "nat \<Rightarrow> rat \<Rightarrow> (nat \<Rightarrow> rat) \<Rightarrow> rat" where
  "interp n x f =
     (let y = max 0 (min x (of_nat n - 1)); i = nat \<lfloor>y\<rfloor>; l = y - of_nat i
      in (1 - l) * f i + l * f (min (i + 1) (n - 1)))"

lemma dot_one:
  assumes "i < n" "\<And>k. k < n \<Longrightarrow> k \<noteq> i \<Longrightarrow> w k = 0"
  shows "dot n f w = f i * w i"
proof -
  have "dot n f w = (\<Sum>k \<in> {..<n}. f k * w k)" by (simp add: dot_def interv_sum_list_conv_sum_set_nat atLeast0LessThan)
  also have "\<dots> = (\<Sum>k \<in> {i}. f k * w k)" using assms by (intro sum.mono_neutral_right) auto
  finally show ?thesis by simp
qed

lemma dot_two:
  assumes "i < n" "j < n" "i \<noteq> j" "\<And>k. k < n \<Longrightarrow> k \<noteq> i \<Longrightarrow> k \<noteq> j \<Longrightarrow> w k = 0"
  shows "dot n f w = f i * w i + f j * w j"
proof -
  have "dot n f w = (\<Sum>k \<in> {..<n}. f k * w k)" by (simp add: dot_def interv_sum_list_conv_sum_set_nat atLeast0LessThan)
  also have "\<dots> = (\<Sum>k \<in> {i, j}. f k * w k)" using assms by (intro sum.mono_neutral_right) auto
  finally show ?thesis using assms(3) by simp
qed

lemma sum_as_dot: "sum_list (map w [0..<n]) = dot n (\<lambda>_. 1) w"
  by (simp add: dot_def)

lemma linear_entries:
  assumes n: "0 < n" and x: "- 1 / 2 \<le> x" "x \<le> of_nat n - 1 / 2"
  shows "dot n f (linear_entry n x) = interp n x f"
proof -
  define w where "w i = max 0 (1 - \<bar>x - of_nat i\<bar>)" for i :: nat
  define total where "total = dot n (\<lambda>_. 1) w"
  have entry: "linear_entry n x i = w i / (if total \<noteq> 0 then total else 1)" for i
    unfolding linear_entry_def Let_def total_def sum_as_dot [symmetric] w_def [abs_def] using x by simp
  consider "x < 0" | "of_nat n - 1 < x" | "0 \<le> x" "x \<le> of_nat n - 1" by linarith
  then show ?thesis
  proof cases
    case 1
    have z: "w k = 0" if "k \<noteq> 0" for k
    proof -
      have "(1 :: rat) \<le> of_nat k" using that by (simp add: Suc_leI)
      then show ?thesis using 1 by (simp add: w_def)
    qed
    have w0: "w 0 = 1 + x" "0 < w 0" using 1 x(1) by (simp_all add: w_def)
    have "total = w 0" using dot_one [of 0 n w "\<lambda>_. 1"] z n by (simp add: total_def)
    then have "linear_entry n x 0 = 1" "linear_entry n x k = 0" if "k \<noteq> 0" for k using that w0 z by (simp_all add: entry)
    then have "dot n f (linear_entry n x) = f 0" using dot_one [of 0 n "linear_entry n x" f] n by simp
    moreover have "max 0 (min x (of_nat n - 1)) = 0" using 1 by (simp add: max_def min_def)
    ultimately show ?thesis by (simp add: interp_def)
  next
    case 2
    have z: "w k = 0" if "k < n" "k \<noteq> n - 1" for k
    proof -
      have "k + 2 \<le> n" using that by linarith
      then have "of_nat (k + 2) \<le> (of_nat n :: rat)" by (simp only: of_nat_le_iff)
      then show ?thesis using 2 by (simp add: w_def)
    qed
    have nn: "of_nat (n - 1) = (of_nat n - 1 :: rat)" using n by (simp add: of_nat_diff)
    have w1: "0 < w (n - 1)" using 2 x(2) by (simp add: w_def nn)
    have "total = w (n - 1)" using dot_one [of "n - 1" n w "\<lambda>_. 1"] z n by (simp add: total_def)
    then have "linear_entry n x (n - 1) = 1" "\<And>k. k < n \<Longrightarrow> k \<noteq> n - 1 \<Longrightarrow> linear_entry n x k = 0"
      using w1 z by (simp_all add: entry)
    then have d: "dot n f (linear_entry n x) = f (n - 1)" using dot_one [of "n - 1" n "linear_entry n x" f] n by simp
    have "max 0 (min x (of_nat n - 1)) = of_nat (n - 1)" using 2 by (simp add: nn [symmetric])
    then show ?thesis by (simp add: interp_def d)
  next
    case 3
    define i where "i = nat \<lfloor>x\<rfloor>"
    have i: "of_nat i \<le> x" "x < of_nat i + 1" using 3(1) floor_correct [of x] by (simp_all add: i_def)
    have y: "max 0 (min x (of_nat n - 1)) = x" using 3 by (simp add: max_def min_def)
    have "of_nat i < (of_nat n :: rat)" using i 3(2) by linarith
    then have lt: "i < n" by simp
    have wi: "w i = 1 - (x - of_nat i)" using i by (simp add: w_def)
    have wj: "w (i + 1) = x - of_nat i" using i by (simp add: w_def)
    have z: "w k = 0" if "k \<noteq> i" "k \<noteq> i + 1" for k
    proof -
      have "k + 1 \<le> i \<or> i + 2 \<le> k" using that by linarith
      then have "of_nat (k + 1) \<le> (of_nat i :: rat) \<or> of_nat (i + 2) \<le> (of_nat k :: rat)" by (simp only: of_nat_le_iff)
      then show ?thesis using i by (auto simp: w_def)
    qed
    show ?thesis
    proof (cases "i + 1 < n")
      case True
      have "total = 1" using dot_two [of i n "i + 1" w "\<lambda>_. 1"] z lt True wi wj by (simp add: total_def)
      then have e: "linear_entry n x = w" by (simp add: entry [abs_def])
      have "dot n f (linear_entry n x) = f i * w i + f (i + 1) * w (i + 1)"
        unfolding e by (rule dot_two) (use z lt True in auto)
      moreover have "min (i + 1) (n - 1) = i + 1" using True by simp
      ultimately show ?thesis using wi wj y by (simp add: interp_def Let_def i_def [symmetric] mult.commute)
    next
      case False
      then have ni: "n = i + 1" using lt by simp
      then have xi: "x = of_nat i" using 3(2) i by simp
      have "total = 1" using dot_one [of i n w "\<lambda>_. 1"] z lt ni wi xi by (simp add: total_def)
      then have e: "linear_entry n x = w" by (simp add: entry [abs_def])
      have "dot n f (linear_entry n x) = f i * w i"
        unfolding e by (rule dot_one) (use z lt ni in auto)
      then show ?thesis using wi xi y by (simp add: interp_def Let_def i_def [symmetric])
    qed
  qed
qed

text \<open>The position torch defines: the corners are aligned, or the pixels' areas.\<close>

definition source_position :: "bool \<Rightarrow> nat \<Rightarrow> nat \<Rightarrow> nat \<Rightarrow> rat" where
  "source_position align n m j =
     (if align then of_nat j * (of_nat n - 1) / (of_nat m - 1) else (of_nat j + 1 / 2) * of_nat n / of_nat m - 1 / 2)"

lemma linear_weight_interpolates:
  assumes n: "0 < n" "0 < m" "align \<Longrightarrow> n = 1 \<or> m \<noteq> 1"
  shows "\<exists>w. compute_linear_weight n m (of_nat m / of_nat n) align = Inr w \<and> t_shape w = [n, m]
    \<and> (\<forall>j < m. \<forall>f. dot n f (\<lambda>l. t_at w [l, j]) = interp n (source_position align n m j) f)"
proof (cases "n = 1")
  case True
  have "dot 1 f (\<lambda>l. 1) = interp 1 x f" for f x
    by (simp add: dot_def interp_def Let_def max_def min_def)
  then show ?thesis using True by (simp add: compute_linear_weight_def full_tensor_def)
next
  case False
  have N: "(1 :: rat) \<le> of_nat n - 1"
  proof -
    have "of_nat 2 \<le> (of_nat n :: rat)" using False n(1) by (subst of_nat_le_iff) simp
    then show ?thesis by simp
  qed
  have M: "(1 :: rat) \<le> of_nat m" using n(2) by (simp add: Suc_leI)
  define scale where "scale = (if align then (of_nat m - 1) / (of_nat n - 1) else of_nat m / of_nat n :: rat)"
  define tr where "tr = (if align then 1 / 2 - scale / 2 else 0)"
  have s: "scale \<noteq> 0"
  proof (cases align)
    case True
    have "of_nat m \<noteq> (1 :: rat)" using n(3) True False by simp
    then show ?thesis using True N by (simp add: scale_def)
  next
    case nalign: False
    then show ?thesis using n by (simp add: scale_def)
  qed
  have pos: "sample_position tr (1 / scale) j = source_position align n m j" for j
  proof (cases align)
    case True
    have "sample_position tr (1 / scale) j = of_nat j / scale"
      using s True by (simp add: sample_position_def tr_def field_simps)
    then show ?thesis using True by (simp add: source_position_def scale_def)
  next
    case nalign: False
    then show ?thesis by (simp add: sample_position_def tr_def source_position_def scale_def)
  qed
  have range: "- 1 / 2 \<le> source_position align n m j \<and> source_position align n m j \<le> of_nat n - 1 / 2" if "j < m" for j
  proof -
    have jm: "of_nat j \<le> (of_nat m - 1 :: rat)"
    proof -
      have "of_nat (j + 1) \<le> (of_nat m :: rat)" using that by (subst of_nat_le_iff) simp
      then show ?thesis by simp
    qed
    show ?thesis
    proof (cases align)
      case True
      have "of_nat m - 1 \<noteq> (0 :: rat)" using n(3) True False by simp
      then have m1: "(0 :: rat) < of_nat m - 1" using M by simp
      have "of_nat j * (of_nat n - 1) / (of_nat m - 1) \<le> (of_nat m - 1) * (of_nat n - 1) / (of_nat m - 1 :: rat)"
        using jm N m1 by (intro divide_right_mono mult_right_mono) simp_all
      moreover have "(0 :: rat) \<le> of_nat j * (of_nat n - 1) / (of_nat m - 1)" using N m1 by simp
      ultimately show ?thesis using True m1 by (simp add: source_position_def)
    next
      case nalign: False
      have "(of_nat j + 1 / 2) * of_nat n / of_nat m \<le> of_nat m * of_nat n / (of_nat m :: rat)"
        using jm M by (intro divide_right_mono mult_right_mono) simp_all
      moreover have "(0 :: rat) \<le> (of_nat j + 1 / 2) * of_nat n / of_nat m" by simp
      ultimately show ?thesis using nalign n(2) by (simp add: source_position_def)
    qed
  qed
  have "compute_linear_weight n m (of_nat m / of_nat n) align = Inr \<lparr> t_shape = [n, m],
      t_at = (\<lambda>i. linear_entry n (sample_position tr (1 / scale) (i ! 1)) (i ! 0)) \<rparr>"
    using False s unfolding compute_linear_weight_def scale_def [symmetric] tr_def [symmetric] Let_def by simp
  then show ?thesis using linear_entries [OF n(1)] range by (auto simp: pos)
qed

section \<open>Several dimensions\<close>

lemma length_swap_last [simp]: "length (swap_last d xs) = length xs"
  by (simp add: swap_last_def)

lemma swap_last_nth:
  assumes "d < length xs" "k < length xs"
  shows "swap_last d xs ! k = (if k = length xs - 1 then xs ! d else if k = d then last xs else xs ! k)"
  using assms by (simp add: swap_last_def nth_list_update)

lemma last_swap_last: "d < length xs \<Longrightarrow> last (swap_last d xs) = xs ! d"
  by (cases xs rule: rev_cases) (auto simp: swap_last_def last_list_update nth_append)

lemma swap_last_twice: "d < length xs \<Longrightarrow> swap_last d (swap_last d xs) = xs"
proof -
  assume d: "d < length xs"
  then have ne: "xs \<noteq> []" by auto
  show ?thesis
    by (rule nth_equalityI) (use d ne in \<open>auto simp: swap_last_nth last_swap_last last_conv_nth\<close>)
qed

lemma swap_last_put: "d < length xs \<Longrightarrow> swap_last d (butlast (swap_last d xs) @ [l]) = xs[d := l]"
proof -
  assume d: "d < length xs"
  then have ne: "xs \<noteq> []" by auto
  show ?thesis
    by (rule nth_equalityI)
      (use d ne in \<open>auto simp: swap_last_nth nth_append nth_butlast nth_list_update last_conv_nth\<close>)
qed

lemma in_range_nth: "in_range i sh \<longleftrightarrow> length i = length sh \<and> (\<forall>k < length sh. i ! k < sh ! k)"
  by (auto simp: in_range_def list_all2_conv_all_nth)

lemma in_range_butlast: "in_range i sh \<Longrightarrow> in_range (butlast i) (butlast sh)"
  by (auto simp: in_range_nth nth_butlast)

lemma common_shape_none: "common_shape sh [] = Inr sh"
  using common_shape_suffix [of sh "[]"] by simp

text \<open>One step: a product along a dimension.\<close>

lemma weight_step:
  assumes t: "t_shape t = sh" "d < length sh" "2 \<le> length sh" and w: "t_shape w = [sh ! d, m]"
  shows "\<exists>r. matmul (transpose_last t d) w = Inr r \<and> t_shape (transpose_last r d) = sh[d := m]
    \<and> (\<forall>i. in_range i (sh[d := m]) \<longrightarrow> t_at (transpose_last r d) i = dot (sh ! d) (\<lambda>l. t_at t (i[d := l])) (\<lambda>l. t_at w [l, i ! d]))"
proof -
  let ?sa = "swap_last d sh"
  have ne: "sh \<noteq> []" "?sa \<noteq> []" "butlast ?sa \<noteq> []"
    using t by (auto simp: swap_last_def) (metis One_nat_def length_butlast length_list_update list.size(3) not_numeral_le_zero diff_le_self
        Suc_1 Suc_diff_le diff_Suc_1 diff_is_0_eq not_less_eq_eq order_refl)
  have lastsa: "last ?sa = sh ! d" using t(2) by (rule last_swap_last)
  define r where "r = \<lparr> t_shape = butlast (butlast ?sa) @ [last (butlast ?sa), m],
     t_at = (\<lambda>i. dot (sh ! d) (\<lambda>l. t_at (transpose_last t d) (own_index (butlast (butlast ?sa)) (butlast (butlast i)) @ [last (butlast i), l]))
        (\<lambda>l. t_at w [l, last i])) \<rparr>"
  have run: "matmul (transpose_last t d) w = Inr r"
    using t w lastsa by (simp add: matmul_def Let_def transpose_last_def common_shape_none r_def own_index_def)
  have rsh: "t_shape r = butlast ?sa @ [m]"
    using ne(3) append_butlast_last_id [OF ne(3)] by (simp add: r_def)
  have sh: "t_shape (transpose_last r d) = sh[d := m]"
    using swap_last_put [OF t(2)] by (simp add: transpose_last_def rsh)
  have "t_at (transpose_last r d) i = dot (sh ! d) (\<lambda>l. t_at t (i[d := l])) (\<lambda>l. t_at w [l, i ! d])" if i: "in_range i (sh[d := m])" for i
  proof -
    have len: "length i = length sh" using in_range_length [OF i] by simp
    let ?j = "swap_last d i"
    have "in_range ?j (butlast ?sa @ [m])"
      unfolding in_range_nth
    proof (intro conjI allI impI)
      show "length ?j = length (butlast ?sa @ [m])" using len t by simp
      fix k assume "k < length (butlast ?sa @ [m])"
      then have k: "k < length sh" using t by simp
      have lt: "i ! k < sh[d := m] ! k" if "k < length sh" for k using i that by (simp add: in_range_nth)
      have l: "last i = i ! (length sh - 1)" "last sh = sh ! (length sh - 1)" 
        using len ne(1) last_conv_nth [of i] last_conv_nth [of sh] by (cases "i = []"; simp)+
      show "?j ! k < (butlast ?sa @ [m]) ! k"
        using k t(2) lt [of d] lt [OF k] lt [of "length sh - 1"] len l
        by (auto simp: swap_last_nth nth_append nth_butlast nth_list_update split: if_splits)
    qed
    then have b: "in_range (butlast ?j) (butlast ?sa)" using in_range_butlast by fastforce
    have own: "own_index (butlast (butlast ?sa)) (butlast (butlast ?j)) = butlast (butlast ?j)"
      using in_range_butlast [OF b] by (rule own_index_same)
    have "length (butlast ?j) \<noteq> 0" using len t(3) by simp
    then have bne: "butlast ?j \<noteq> []" by fastforce
    have "butlast (butlast ?j) @ [last (butlast ?j), l] = butlast ?j @ [l]" for l
      using append_butlast_last_id [OF bne] by (metis append_Cons append_Nil append_assoc)
    then have "t_at r ?j = dot (sh ! d) (\<lambda>l. t_at t (swap_last d (butlast ?j @ [l]))) (\<lambda>l. t_at w [l, last ?j])"
      by (simp only: r_def own transpose_last_def tensor.select_convs)
    then show ?thesis using swap_last_put [of d i] last_swap_last [of d i] t(2) len by (simp add: transpose_last_def)
  qed
  then show ?thesis using run sh by blast
qed

fun along :: "nat list \<Rightarrow> (nat \<Rightarrow> nat \<Rightarrow> rat) list \<Rightarrow> nat list \<Rightarrow> (nat list \<Rightarrow> rat) \<Rightarrow> rat" where
  "along (n # ns) (w # ws) (j # js) f = along ns ws js (\<lambda>is. dot n (\<lambda>l. f (l # is)) (\<lambda>l. w l j))"
| "along _ _ _ f = f []"

lemma along_cong:
  assumes "length ws = length ns" "length js = length ns" "\<And>i. in_range i ns \<Longrightarrow> f i = g i"
  shows "along ns ws js f = along ns ws js g"
  using assms
proof (induction ns ws js f arbitrary: g rule: along.induct)
  case (1 n ns w ws j js f)
  have "dot n (\<lambda>l. f (l # is)) (\<lambda>l. w l j) = dot n (\<lambda>l. g (l # is)) (\<lambda>l. w l j)" if "in_range is ns" for "is"
    using 1(4) that by (auto simp: dot_def intro!: arg_cong [where f = sum_list])
  with 1(1) [of "\<lambda>is. dot n (\<lambda>l. g (l # is)) (\<lambda>l. w l j)"] 1(2,3) show ?case by simp
qed auto

lemma upsample_loop_value:
  assumes "t_shape t = pre @ ns" "pre \<noteq> []" "length ns = length ss" "length ms = length ss" "length ws = length ss"
    and "\<And>k. k < length ss \<Longrightarrow> weight (ns ! k) (ms ! k) (ss ! k) = Inr (ws ! k) \<and> t_shape (ws ! k) = [ns ! k, ms ! k]"
    and "2 \<le> length pre + length ns"
  shows "\<exists>r. upsample_loop weight (length pre) ns ms ss t = Inr r \<and> t_shape r = pre @ ms
    \<and> (\<forall>p js. in_range p pre \<longrightarrow> in_range js ms
        \<longrightarrow> t_at r (p @ js) = along ns (map (\<lambda>w l j. t_at w [l, j]) ws) js (\<lambda>is. t_at t (p @ is)))"
  using assms
proof (induction ss arbitrary: pre ns ms ws t)
  case Nil
  then show ?case by simp
next
  case (Cons s ss)
  obtain n ns' m ms' w ws' where l: "ns = n # ns'" "ms = m # ms'" "ws = w # ws'"
    using Cons.prems(3-5) by (metis length_Suc_conv)
  have w: "weight n m s = Inr w" "t_shape w = [n, m]" using Cons.prems(6) [of 0] by (simp_all add: l)
  have "t_shape t = pre @ n # ns'" using Cons.prems(1) l by simp
  then obtain r where r: "matmul (transpose_last t (length pre)) w = Inr r"
    "t_shape (transpose_last r (length pre)) = (pre @ n # ns')[length pre := m]"
    "\<And>i. in_range i ((pre @ n # ns')[length pre := m]) \<Longrightarrow> t_at (transpose_last r (length pre)) i
       = dot n (\<lambda>l. t_at t (i[length pre := l])) (\<lambda>l. t_at w [l, i ! length pre])"
    using weight_step [of t "pre @ n # ns'" "length pre" w m] w(2) Cons.prems(2,7) l by auto
  let ?t = "transpose_last r (length pre)"
  have sh: "t_shape ?t = (pre @ [m]) @ ns'" using r(2) by simp
  have "\<exists>r'. upsample_loop weight (length (pre @ [m])) ns' ms' ss ?t = Inr r' \<and> t_shape r' = (pre @ [m]) @ ms'
    \<and> (\<forall>p js. in_range p (pre @ [m]) \<longrightarrow> in_range js ms'
        \<longrightarrow> t_at r' (p @ js) = along ns' (map (\<lambda>w l j. t_at w [l, j]) ws') js (\<lambda>is. t_at ?t (p @ is)))"
  proof (rule Cons.IH [OF sh])
    show "weight (ns' ! k) (ms' ! k) (ss ! k) = Inr (ws' ! k) \<and> t_shape (ws' ! k) = [ns' ! k, ms' ! k]" if "k < length ss" for k
      using Cons.prems(6) [of "Suc k"] that by (simp add: l)
  qed (use Cons.prems l in auto)
  then obtain r' where r': "upsample_loop weight (Suc (length pre)) ns' ms' ss ?t = Inr r'" "t_shape r' = pre @ ms"
    "\<And>p js. in_range p (pre @ [m]) \<Longrightarrow> in_range js ms'
        \<Longrightarrow> t_at r' (p @ js) = along ns' (map (\<lambda>w l j. t_at w [l, j]) ws') js (\<lambda>is. t_at ?t (p @ is))"
    by (auto simp: l)
  have "t_at r' (p @ js) = along ns (map (\<lambda>w l j. t_at w [l, j]) ws) js (\<lambda>is. t_at t (p @ is))"
    if p: "in_range p pre" and js: "in_range js ms" for p js
  proof -
    obtain j js' where j: "js = j # js'" "j < m" "in_range js' ms'" using js by (auto simp: l in_range_Cons)
    have pl: "length p = length pre" by (rule in_range_length [OF p])
    have "in_range (p @ [j]) (pre @ [m])" using p j(2) in_range_append [OF pl] by simp
    from r'(3) [OF this j(3)] have "t_at r' (p @ js) = along ns' (map (\<lambda>w l j. t_at w [l, j]) ws') js' (\<lambda>is. t_at ?t (p @ j # is))"
      by (simp add: j(1))
    also have "\<dots> = along ns' (map (\<lambda>w l j. t_at w [l, j]) ws') js' (\<lambda>is. dot n (\<lambda>l. t_at t (p @ l # is)) (\<lambda>l. t_at w [l, j]))"
    proof (rule along_cong)
      show "length (map (\<lambda>w l j. t_at w [l, j]) ws') = length ns'" "length js' = length ns'"
        using Cons.prems(3-5) in_range_length [OF j(3)] by (simp_all add: l)
      fix i assume i: "in_range i ns'"
      have "in_range (p @ j # i) (pre @ m # ns')" using p j(2) i in_range_append [OF pl] by simp
      from r(3) [of "p @ j # i"] this show "t_at ?t (p @ j # i) = dot n (\<lambda>l. t_at t (p @ l # i)) (\<lambda>l. t_at w [l, j])"
        by (simp add: pl [symmetric] list_update_append)
    qed
    finally show ?thesis by (simp add: l j(1))
  qed
  then show ?case using r(1) w(1) r'(1,2) by (auto simp: l)
qed

text \<open>Interpolation of one dimension after the other.\<close>

fun interp_all :: "bool \<Rightarrow> nat list \<Rightarrow> nat list \<Rightarrow> nat list \<Rightarrow> (nat list \<Rightarrow> rat) \<Rightarrow> rat" where
  "interp_all align (n # ns) (m # ms) (j # js) f =
     interp_all align ns ms js (\<lambda>is. interp n (source_position align n m j) (\<lambda>l. f (l # is)))"
| "interp_all align _ _ _ f = f []"

lemma along_interp:
  assumes "length ws = length ns" "length ms = length ns" "in_range js ms"
    and "\<And>k j f. k < length ns \<Longrightarrow> j < ms ! k \<Longrightarrow> dot (ns ! k) f (\<lambda>l. (ws ! k) l j) = interp (ns ! k) (source_position align (ns ! k) (ms ! k) j) f"
  shows "along ns ws js f = interp_all align ns ms js f"
  using assms
proof (induction ns arbitrary: ws ms js f)
  case (Cons n ns)
  obtain w ws' m ms' where l: "ws = w # ws'" "ms = m # ms'" using Cons.prems(1,2) by (metis length_Suc_conv)
  obtain j js' where j: "js = j # js'" "j < m" "in_range js' ms'" using Cons.prems(3) by (auto simp: l in_range_Cons)
  have "dot n f (\<lambda>l. w l j) = interp n (source_position align n m j) f" for f
    using Cons.prems(4) [of 0 j f] j(2) by (simp add: l)
  moreover have "along ns ws' js' g = interp_all align ns ms' js' g" for g
  proof (rule Cons.IH)
    show "dot (ns ! k) f (\<lambda>l. (ws' ! k) l j) = interp (ns ! k) (source_position align (ns ! k) (ms' ! k) j) f"
      if "k < length ns" "j < ms' ! k" for k j f
      using Cons.prems(4) [of "Suc k" j f] that by (simp add: l)
  qed (use Cons.prems(1,2) j(3) l in auto)
  ultimately show ?case by (simp add: l j(1))
qed simp

lemma size_ratios_ok:
  assumes "length ns = length ss" "length ms = length ss" "\<forall>n \<in> set ns. n \<noteq> 0"
  shows "size_ratios ns ms ss = Inr (map2 (\<lambda>n m. of_nat m / of_nat n) ns ms)"
  using assms
proof (induction ns ms ss rule: size_ratios.induct)
  case (2 n ns m ms s ss)
  then show ?case by simp
qed auto

text \<open>C21. The linear interpolations compute linear interpolation: every interpolated dimension is read at the
  position torch defines, moved into the input, as the weighted mean of the two neighbours.\<close>

theorem upsample_linear_interpolates:
  assumes sh: "t_shape input = pre @ ns" "pre \<noteq> []" "2 \<le> length pre + length ns"
    and len: "length ns = length scales" "length ms = length scales"
    and pos: "\<forall>n \<in> set ns. 0 < n" "\<forall>m \<in> set ms. 0 < m" "\<forall>k < length ns. align \<longrightarrow> ns ! k = 1 \<or> ms ! k \<noteq> 1"
  shows "\<exists>out. upsample_linear input ms align scales = Inr out \<and> t_shape out = pre @ ms
    \<and> (\<forall>p js. in_range p pre \<longrightarrow> in_range js ms
        \<longrightarrow> t_at out (p @ js) = interp_all align ns ms js (\<lambda>is. t_at input (p @ is)))"
proof -
  let ?rs = "map2 (\<lambda>n m. of_nat m / of_nat n) ns ms :: rat list"
  have "\<forall>k < length ns. \<exists>w. compute_linear_weight (ns ! k) (ms ! k) (?rs ! k) align = Inr w \<and> t_shape w = [ns ! k, ms ! k]
      \<and> (\<forall>j < ms ! k. \<forall>f. dot (ns ! k) f (\<lambda>l. t_at w [l, j]) = interp (ns ! k) (source_position align (ns ! k) (ms ! k) j) f)"
  proof (intro allI impI)
    fix k assume k: "k < length ns"
    then have "0 < ns ! k" "0 < ms ! k" using pos(1,2) len by auto
    moreover have "?rs ! k = of_nat (ms ! k) / of_nat (ns ! k)" using k len by simp
    ultimately show "\<exists>w. compute_linear_weight (ns ! k) (ms ! k) (?rs ! k) align = Inr w \<and> t_shape w = [ns ! k, ms ! k]
      \<and> (\<forall>j < ms ! k. \<forall>f. dot (ns ! k) f (\<lambda>l. t_at w [l, j]) = interp (ns ! k) (source_position align (ns ! k) (ms ! k) j) f)"
      using linear_weight_interpolates [of "ns ! k" "ms ! k" align] pos(3) k by simp
  qed
  then obtain W where W: "\<And>k. k < length ns \<Longrightarrow> compute_linear_weight (ns ! k) (ms ! k) (?rs ! k) align = Inr (W k) \<and> t_shape (W k) = [ns ! k, ms ! k]
      \<and> (\<forall>j < ms ! k. \<forall>f. dot (ns ! k) f (\<lambda>l. t_at (W k) [l, j]) = interp (ns ! k) (source_position align (ns ! k) (ms ! k) j) f)"
    by metis
  define ws where "ws = map W [0..<length ns]"
  have rl: "length ?rs = length ns" using len by simp
  have "\<exists>r. upsample_loop (\<lambda>n m s. compute_linear_weight n m s align) (length pre) ns ms ?rs input = Inr r \<and> t_shape r = pre @ ms
    \<and> (\<forall>p js. in_range p pre \<longrightarrow> in_range js ms
        \<longrightarrow> t_at r (p @ js) = along ns (map (\<lambda>w l j. t_at w [l, j]) ws) js (\<lambda>is. t_at input (p @ is)))"
    by (rule upsample_loop_value [OF sh(1,2) _ _ _ _ sh(3)]) (use W len rl in \<open>auto simp: ws_def\<close>)
  then obtain r where r: "upsample_loop (\<lambda>n m s. compute_linear_weight n m s align) (length pre) ns ms ?rs input = Inr r" "t_shape r = pre @ ms"
    "\<And>p js. in_range p pre \<Longrightarrow> in_range js ms
        \<Longrightarrow> t_at r (p @ js) = along ns (map (\<lambda>w l j. t_at w [l, j]) ws) js (\<lambda>is. t_at input (p @ is))" by blast
  have "along ns (map (\<lambda>w l j. t_at w [l, j]) ws) js f = interp_all align ns ms js f" if "in_range js ms" for js f
    by (rule along_interp) (use that len W in \<open>auto simp: ws_def\<close>)
  moreover have "size_ratios ns ms scales = Inr ?rs" by (rule size_ratios_ok) (use len pos(1) in auto)
  moreover have "spatial (length scales) (t_shape input) = ns" "length (t_shape input) - length scales = length pre"
    using sh(1) len by (simp_all add: spatial_def)
  ultimately show ?thesis using r by (auto simp: upsample_linear_def Let_def)
qed

text \<open>With aligned corners a dimension of more than one sample cannot be interpolated to a single one: the
  scale is 0 and the code divides by it.\<close>

theorem aligned_single_output_raises:
  assumes "n \<noteq> 0" "n \<noteq> 1"
  shows "upsample_linear \<lparr> t_shape = [b, c, n], t_at = f \<rparr> [1] True [s] = Inl ZeroDivisionError"
  using assms by (simp add: upsample_linear_def spatial_def compute_linear_weight_def rguard_def Let_def)

section \<open>Nearest neighbours\<close>

definition nearest_index :: "nat \<Rightarrow> nat \<Rightarrow> rat option \<Rightarrow> nat \<Rightarrow> nat" where
  "nearest_index n m s j = nat \<lfloor>of_nat j * (case s of None \<Rightarrow> of_nat n / of_nat m | Some s \<Rightarrow> 1 / s)\<rfloor>"

definition scale_fits :: "nat \<Rightarrow> nat \<Rightarrow> rat option \<Rightarrow> bool" where
  "scale_fits n m s \<longleftrightarrow> 0 < n \<and> 0 < m \<and> (case s of None \<Rightarrow> True | Some s \<Rightarrow> 0 < s \<and> of_nat m \<le> of_nat n * s)"

lemma nearest_weight_picks:
  assumes fits: "scale_fits n m s"
  shows "\<exists>w. compute_nearest_weight n m s = Inr w \<and> t_shape w = [n, m]
    \<and> (\<forall>j < m. nearest_index n m s j < n \<and> (\<forall>f. dot n f (\<lambda>l. t_at w [l, j]) = f (nearest_index n m s j)))"
proof -
  define q :: rat where "q = (case s of None \<Rightarrow> of_nat n / of_nat m | Some s \<Rightarrow> 1 / s)"
  have q: "0 < q" "of_nat m * q \<le> of_nat n"
    using fits by (auto simp: scale_fits_def q_def divide_le_eq split: option.splits)
  have idx: "0 \<le> \<lfloor>of_nat j * q\<rfloor>" "\<lfloor>of_nat j * q\<rfloor> < int n" if "j < m" for j
  proof -
    have "of_nat j * q < of_nat m * q" using that q(1) by (intro mult_strict_right_mono) simp_all
    then have "of_nat j * q < of_nat n" using q(2) by linarith
    then show "\<lfloor>of_nat j * q\<rfloor> < int n" by (simp add: floor_less_iff)
    show "0 \<le> \<lfloor>of_nat j * q\<rfloor>" using q(1) by simp
  qed
  let ?t = "\<lparr> t_shape = [m], t_at = (\<lambda>i. \<lfloor>of_nat (i ! 0) * q\<rfloor>) \<rparr>"
  have "tens ?t [m] (\<lambda>i. int (nearest_index n m s (i ! 0)))"
    using idx by (auto simp: tens_def in_range_Cons nearest_index_def q_def [symmetric])
  moreover have lt: "nearest_index n m s j < n" if "j < m" for j
    using idx [OF that] by (simp add: nearest_index_def q_def [symmetric] nat_less_iff)
  moreover have "nearest_index n m s (i ! 0) < n" if "in_range i [m]" for i using that lt by (auto simp: in_range_Cons)
  ultimately obtain hot where hot: "one_hot ?t n = Inr hot" "tens hot ([m] @ [n]) (\<lambda>i. if nearest_index n m s (butlast i ! 0) = last i then 1 else 0)"
    using one_hot_tens [of ?t "[m]" "\<lambda>i. nearest_index n m s (i ! 0)" n] by blast
  have w: "tens (permute hot [1, 0]) [n, m] (\<lambda>i. if nearest_index n m s (i ! 1) = i ! 0 then 1 else 0)"
    by (rule tens_cong [OF permute_known(6) [of hot m n]]) (use hot(2) in \<open>auto simp: in_range_Cons\<close>)
  have run: "compute_nearest_weight n m s = Inr (permute hot [1, 0])"
    using fits hot(1) by (auto simp: compute_nearest_weight_def scale_fits_def q_def res_simps split: option.splits)
  have "dot n f (\<lambda>l. t_at (permute hot [1, 0]) [l, j]) = f (nearest_index n m s j)" if "j < m" for f j
  proof -
    have "dot n f (\<lambda>l. t_at (permute hot [1, 0]) [l, j]) = f (nearest_index n m s j) * t_at (permute hot [1, 0]) [nearest_index n m s j, j]"
      by (rule dot_one) (use lt tensD [OF w] that in auto)
    also have "\<dots> = f (nearest_index n m s j)" using tensD [OF w, of "[nearest_index n m s j, j]"] lt that by simp
    finally show ?thesis .
  qed
  then show ?thesis using run tens_shape [OF w] lt by blast
qed

fun pick_all :: "nat list \<Rightarrow> nat list \<Rightarrow> rat option list \<Rightarrow> nat list \<Rightarrow> nat list" where
  "pick_all (n # ns) (m # ms) (s # ss) (j # js) = nearest_index n m s j # pick_all ns ms ss js"
| "pick_all _ _ _ _ = []"

lemma along_picks:
  assumes "length ws = length ns" "length ms = length ns" "length ss = length ns" "in_range js ms"
    and "\<And>k j f. k < length ns \<Longrightarrow> j < ms ! k \<Longrightarrow> dot (ns ! k) f (\<lambda>l. (ws ! k) l j) = f (nearest_index (ns ! k) (ms ! k) (ss ! k) j)"
  shows "along ns ws js f = f (pick_all ns ms ss js)"
  using assms
proof (induction ns arbitrary: ws ms ss js f)
  case (Cons n ns)
  obtain w ws' m ms' s ss' where l: "ws = w # ws'" "ms = m # ms'" "ss = s # ss'" using Cons.prems(1-3) by (metis length_Suc_conv)
  obtain j js' where j: "js = j # js'" "j < m" "in_range js' ms'" using Cons.prems(4) by (auto simp: l in_range_Cons)
  have "dot n f (\<lambda>l. w l j) = f (nearest_index n m s j)" for f
    using Cons.prems(5) [of 0 j f] j(2) by (simp add: l)
  moreover have "along ns ws' js' g = g (pick_all ns ms' ss' js')" for g
  proof (rule Cons.IH)
    show "dot (ns ! k) f (\<lambda>l. (ws' ! k) l j) = f (nearest_index (ns ! k) (ms' ! k) (ss' ! k) j)"
      if "k < length ns" "j < ms' ! k" for k j f
      using Cons.prems(5) [of "Suc k" j f] that by (simp add: l)
  qed (use Cons.prems(1-3) j(3) l in auto)
  ultimately show ?case by (simp add: l j(1))
qed simp

text \<open>The nearest interpolations copy, for every output sample, the input sample below its position, in every
  dimension.\<close>

theorem upsample_nearest_picks:
  assumes sh: "t_shape input = pre @ ns" "pre \<noteq> []" "2 \<le> length pre + length ns"
    and len: "length ns = length scales" "length ms = length scales"
    and fits: "\<forall>k < length ns. scale_fits (ns ! k) (ms ! k) (scales ! k)"
  shows "\<exists>out. upsample_nearest input ms scales = Inr out \<and> t_shape out = pre @ ms
    \<and> (\<forall>p js. in_range p pre \<longrightarrow> in_range js ms \<longrightarrow> t_at out (p @ js) = t_at input (p @ pick_all ns ms scales js))"
proof -
  have "\<forall>k < length ns. \<exists>w. compute_nearest_weight (ns ! k) (ms ! k) (scales ! k) = Inr w \<and> t_shape w = [ns ! k, ms ! k]
      \<and> (\<forall>j < ms ! k. \<forall>f. dot (ns ! k) f (\<lambda>l. t_at w [l, j]) = f (nearest_index (ns ! k) (ms ! k) (scales ! k) j))"
    using nearest_weight_picks fits by metis
  then obtain W where W: "\<And>k. k < length ns \<Longrightarrow> compute_nearest_weight (ns ! k) (ms ! k) (scales ! k) = Inr (W k) \<and> t_shape (W k) = [ns ! k, ms ! k]
      \<and> (\<forall>j < ms ! k. \<forall>f. dot (ns ! k) f (\<lambda>l. t_at (W k) [l, j]) = f (nearest_index (ns ! k) (ms ! k) (scales ! k) j))"
    by metis
  define ws where "ws = map W [0..<length ns]"
  have "\<exists>r. upsample_loop compute_nearest_weight (length pre) ns ms scales input = Inr r \<and> t_shape r = pre @ ms
    \<and> (\<forall>p js. in_range p pre \<longrightarrow> in_range js ms
        \<longrightarrow> t_at r (p @ js) = along ns (map (\<lambda>w l j. t_at w [l, j]) ws) js (\<lambda>is. t_at input (p @ is)))"
    by (rule upsample_loop_value [OF sh(1,2) _ _ _ _ sh(3)]) (use W len in \<open>auto simp: ws_def\<close>)
  moreover have "along ns (map (\<lambda>w l j. t_at w [l, j]) ws) js f = f (pick_all ns ms scales js)" if "in_range js ms" for js f
    by (rule along_picks) (use that len W in \<open>auto simp: ws_def\<close>)
  moreover have "spatial (length scales) (t_shape input) = ns" "length (t_shape input) - length scales = length pre"
    using sh(1) len by (simp_all add: spatial_def)
  ultimately show ?thesis by (auto simp: upsample_nearest_def Let_def)
qed

section \<open>Splitting\<close>

text \<open>Concatenation along a dimension: the entry is taken from the part it falls in.\<close>

fun cat_at :: "nat \<Rightarrow> 'a tensor list \<Rightarrow> nat list \<Rightarrow> 'a option" where
  "cat_at d [] i = None"
| "cat_at d (t # ts) i =
     (if i ! d < t_shape t ! d then Some (t_at t i) else cat_at d ts (i[d := i ! d - t_shape t ! d]))"

lemma split_loop_cat:
  assumes "d < length (t_shape t)" "start + sum_list ns = t_shape t ! d"
  shows "\<exists>ps. split_loop t d start ns = Inr ps \<and> length ps = length ns
    \<and> (\<forall>k < length ns. t_shape (ps ! k) = (t_shape t)[d := ns ! k])
    \<and> (\<forall>i. length i = length (t_shape t) \<longrightarrow> i ! d < sum_list ns \<longrightarrow> cat_at d ps i = Some (t_at t (i[d := start + i ! d])))"
  using assms(2)
proof (induction ns arbitrary: start)
  case (Cons n ns)
  have "start + n + sum_list ns = t_shape t ! d" using Cons.prems by simp
  from Cons.IH [OF this] obtain ps where ps: "split_loop t d (start + n) ns = Inr ps" "length ps = length ns"
    "\<forall>k < length ns. t_shape (ps ! k) = (t_shape t)[d := ns ! k]"
    "\<forall>i. length i = length (t_shape t) \<longrightarrow> i ! d < sum_list ns \<longrightarrow> cat_at d ps i = Some (t_at t (i[d := start + n + i ! d]))" by blast
  let ?p = "\<lparr> t_shape = (t_shape t)[d := n], t_at = (\<lambda>i. t_at t (i[d := start + i ! d])) \<rparr>"
  have nw: "narrow t d start n = Inr ?p" using Cons.prems assms(1) by (simp add: narrow_def)
  have "cat_at d (?p # ps) i = Some (t_at t (i[d := start + i ! d]))"
    if i: "length i = length (t_shape t)" "i ! d < sum_list (n # ns)" for i
  proof (cases "i ! d < n")
    case False
    then have "cat_at d ps (i[d := i ! d - n]) = Some (t_at t ((i[d := i ! d - n])[d := start + n + (i ! d - n)]))"
      using ps(4) [rule_format, of "i[d := i ! d - n]"] i assms(1) by simp
    then show ?thesis using False assms(1) i(1) by simp
  qed (use assms(1) in simp)
  moreover have "t_shape ((?p # ps) ! k) = (t_shape t)[d := (n # ns) ! k]" if "k < length (n # ns)" for k
    using ps(3) that by (cases k) auto
  ultimately show ?case using nw ps(1,2) by (auto intro!: exI [of _ "?p # ps"])
qed simp

text \<open>C0. \<open>split_with_sizes\<close> cuts a tensor into parts of the given sizes, and concatenating them gives the
  tensor back.\<close>

theorem split_then_cat:
  assumes "t_shape t = sh" "- int (length sh) \<le> axis" "axis < int (length sh)"
    and "d = nat (if axis < 0 then axis + int (length sh) else axis)"
    and "\<forall>s \<in> set sizes. 0 \<le> s" "sum_list sizes = int (sh ! d)"
  shows "\<exists>ps. split_with_sizes t sizes axis = Inr ps \<and> length ps = length sizes
    \<and> (\<forall>k < length sizes. t_shape (ps ! k) = sh[d := nat (sizes ! k)])
    \<and> (\<forall>i. in_range i sh \<longrightarrow> cat_at d ps i = Some (t_at t i))"
proof -
  have d: "d < length sh" using assms(2-4) by auto
  have "int (sum_list (map nat sizes)) = sum_list sizes" using assms(5) by (induction sizes) auto
  then have sum: "0 + sum_list (map nat sizes) = t_shape t ! d" using assms(1,6) by simp
  have dt: "d < length (t_shape t)" using d assms(1) by simp
  obtain ps where ps: "split_loop t d 0 (map nat sizes) = Inr ps" "length ps = length sizes"
    "\<forall>k < length sizes. t_shape (ps ! k) = sh[d := nat (sizes ! k)]"
    "\<forall>i. length i = length sh \<longrightarrow> i ! d < sum_list (map nat sizes) \<longrightarrow> cat_at d ps i = Some (t_at t (i[d := 0 + i ! d]))"
    using split_loop_cat [OF dt sum] assms(1) by auto
  have "cat_at d ps i = Some (t_at t i)" if "in_range i sh" for i
    using ps(4) that d sum assms(1) by (auto simp: in_range_nth)
  moreover have "split_with_sizes t sizes axis = Inr ps"
    using assms(1-3,5,6) ps(1) by (simp add: split_with_sizes_def Let_def assms(4) [symmetric])
  ultimately show ?thesis using ps(2,3) by blast
qed

section \<open>masked_scatter\<close>

text \<open>The marked places are filled with the source, in order.\<close>

fun fill_marked :: "bool list \<Rightarrow> 'a list \<Rightarrow> 'a list \<Rightarrow> 'a list" where
  "fill_marked (True # ms) (d # ds) (s # ss) = s # fill_marked ms ds ss"
| "fill_marked (_ # ms) (d # ds) ss = d # fill_marked ms ds ss"
| "fill_marked _ _ _ = []"

lemma length_count_from [simp]: "length (count_from c bs) = length bs"
  by (induction bs arbitrary: c) (auto simp: Let_def)

lemma count_from_nth: "k < length bs \<Longrightarrow> count_from c bs ! k = c + int (length (filter id (take (Suc k) bs)))"
  by (induction bs arbitrary: c k) (auto simp: Let_def nth_Cons split: nat.splits)

lemma fill_marked_nth:
  assumes "length ds = length ms" "length (filter id ms) \<le> length ss" "k < length ms"
  shows "length (fill_marked ms ds ss) = length ms"
    "fill_marked ms ds ss ! k = (if ms ! k then ss ! length (filter id (take k ms)) else ds ! k)"
proof -
  have "length (fill_marked ms ds ss) = length ms
    \<and> (\<forall>k < length ms. fill_marked ms ds ss ! k = (if ms ! k then ss ! length (filter id (take k ms)) else ds ! k))"
    using assms(1,2)
  proof (induction ms ds ss rule: fill_marked.induct)
    case (1 ms d ds s ss)
    then show ?case by (auto simp: nth_Cons split: nat.splits)
  qed (auto simp: nth_Cons split: nat.splits if_splits)
  then show "length (fill_marked ms ds ss) = length ms"
    "fill_marked ms ds ss ! k = (if ms ! k then ss ! length (filter id (take k ms)) else ds ! k)"
    using assms(3) by blast+
qed

lemma length_all_indices: "length (all_indices sh) = prod_list sh"
  by (induction sh) (simp_all add: length_concat comp_def sum_list_triv)

lemma unflat_in_range: "k < prod_list sh \<Longrightarrow> in_range (unflat sh k) sh"
proof (induction sh arbitrary: k)
  case (Cons n sh)
  then have "0 < prod_list sh" by (cases "prod_list sh = 0") auto
  then show ?case using Cons by (simp add: less_mult_imp_div_less)
qed simp

lemma all_indices_flat: "in_range i sh \<Longrightarrow> all_indices sh ! flat sh i = i"
proof (induction sh arbitrary: i)
  case (Cons n sh)
  then obtain k j where i: "i = k # j" "k < n" "in_range j sh" by (auto simp: in_range_Cons)
  have rows: "\<forall>row \<in> set (map (\<lambda>k. map ((#) k) (all_indices sh)) [0..<n]). length row = prod_list sh"
    by (auto simp: length_all_indices)
  have "concat (map (\<lambda>k. map ((#) k) (all_indices sh)) [0..<n]) ! (k * prod_list sh + flat sh j)
      = map (\<lambda>k. map ((#) k) (all_indices sh)) [0..<n] ! k ! flat sh j"
    by (rule concat_cell(2) [OF rows]) (use i flat_less in auto)
  then show ?case using i Cons.IH [OF i(3)] flat_less [OF i(3)] by (simp add: length_all_indices)
qed simp

text \<open>C40. C0. \<open>masked_scatter\<close>, made of a running count, a gather and a selection, fills the marked places of the
  broadcast data with the entries of the source in order, if the source has enough of them.\<close>

theorem masked_scatter_fills_in_order:
  assumes sh: "common_shape (t_shape marks) (t_shape data) = Inr sh"
    and src: "prod_list (t_shape source) \<noteq> 0" "length (filter id (flattened marks sh)) \<le> prod_list (t_shape source)"
  shows "\<exists>out. masked_scatter data marks source = Inr out \<and> t_shape out = sh
    \<and> map (t_at out) (all_indices sh)
        = fill_marked (flattened marks sh) (flattened data sh) (flattened source (t_shape source))"
proof -
  let ?ms = "flattened marks sh" and ?ds = "flattened data sh" and ?ss = "flattened source (t_shape source)"
  have len: "length ?ms = prod_list sh" "length ?ds = prod_list sh" "length ?ss = prod_list (t_shape source)"
    by (simp_all add: flattened_def length_all_indices)
  define idx where "idx = map (\<lambda>c. min (max (c - 1) 0) (int (length ?ss) - 1)) (count_from 0 ?ms)"
  have idx_len: "length idx = prod_list sh" using len by (simp add: idx_def)
  have "\<forall>k \<in> set idx. rbind (tensor_index (length ?ss) k) (\<lambda>k. Inr (?ss ! k)) = Inr (?ss ! nat k)"
  proof
    fix k assume "k \<in> set idx"
    then have "0 \<le> k" "k < int (length ?ss)" using src(1) len(3) by (auto simp: idx_def)
    then show "rbind (tensor_index (length ?ss) k) (\<lambda>k. Inr (?ss ! k)) = Inr (?ss ! nat k)" by simp
  qed
  then have g: "rmap (\<lambda>k. rbind (tensor_index (length ?ss) k) (\<lambda>k. Inr (?ss ! k))) idx = Inr (map (\<lambda>k. ?ss ! nat k) idx)"
    by (rule rmap_all)
  define result where "result = map2 (\<lambda>(m, g) d. if m then g else d) (zip ?ms (map (\<lambda>k. ?ss ! nat k) idx)) ?ds"
  have run: "masked_scatter data marks source = Inr \<lparr> t_shape = sh, t_at = (\<lambda>i. result ! flat sh i) \<rparr>"
    using sh g by (simp add: masked_scatter_def Let_def idx_def result_def)
  have fill: "length (filter id ?ms) \<le> length ?ss" using src(2) len(3) by simp
  have "result ! k = fill_marked ?ms ?ds ?ss ! k" if k: "k < prod_list sh" for k
  proof -
    have at: "result ! k = (if ?ms ! k then ?ss ! nat (idx ! k) else ?ds ! k)"
      using k len idx_len by (simp add: result_def)
    have "nat (idx ! k) = length (filter id (take k ?ms))" if m: "?ms ! k"
    proof -
      have "take (Suc k) ?ms = take k ?ms @ [True]" using k len(1) m by (simp add: take_Suc_conv_app_nth)
      then have "count_from 0 ?ms ! k = int (length (filter id (take k ?ms))) + 1"
        using count_from_nth [of k ?ms 0] k len(1) by simp
      moreover have "length (filter id (take (Suc k) ?ms)) \<le> length (filter id ?ms)"
        by (metis append_take_drop_id filter_append length_append le_add1)
      ultimately show ?thesis using fill k len(1) \<open>take (Suc k) ?ms = _\<close> by (simp add: idx_def)
    qed
    then show ?thesis using at fill_marked_nth(2) [of ?ds ?ms ?ss k] fill k len by simp
  qed
  moreover have "length (fill_marked ?ms ?ds ?ss) = prod_list sh"
  proof (cases "prod_list sh = 0")
    case True
    then show ?thesis using len by simp
  next
    case False
    then show ?thesis using fill_marked_nth(1) [of ?ds ?ms ?ss 0] fill len by simp
  qed
  moreover have "map (\<lambda>i. result ! flat sh i) (all_indices sh) = map ((!) result) [0..<prod_list sh]"
  proof (rule nth_equalityI)
    fix k assume "k < length (map (\<lambda>i. result ! flat sh i) (all_indices sh))"
    then have k: "k < prod_list sh" by (simp add: length_all_indices)
    have "in_range (unflat sh k) sh" by (rule unflat_in_range [OF k])
    then have "all_indices sh ! k = unflat sh k" using all_indices_flat flat_unflat [OF k] by metis
    then show "map (\<lambda>i. result ! flat sh i) (all_indices sh) ! k = map ((!) result) [0..<prod_list sh] ! k"
      using k flat_unflat [OF k] by (simp add: length_all_indices)
  qed (simp add: length_all_indices)
  ultimately have "map (\<lambda>i. result ! flat sh i) (all_indices sh) = fill_marked ?ms ?ds ?ss"
    by (simp add: list_eq_iff_nth_eq)
  then show ?thesis using run by simp
qed

text \<open>With an empty source it raises even if nothing is marked, where torch returns the data.\<close>

lemma masked_scatter_empty_source_raises:
  assumes "common_shape (t_shape marks) (t_shape data) = Inr sh" "prod_list (t_shape source) = 0" "prod_list sh \<noteq> 0"
  shows "masked_scatter data marks source = Inl IndexError"
proof -
  have len: "length (flattened source (t_shape source)) = 0" "length (flattened marks sh) \<noteq> 0"
    using assms(2,3) by (simp_all add: flattened_def length_all_indices)
  then obtain m ms where "flattened marks sh = m # ms" by (cases "flattened marks sh") auto
  then show ?thesis using assms(1) len(1) by (simp add: masked_scatter_def Let_def tensor_index_def)
qed

section \<open>Global pooling\<close>

text \<open>The average over the whole plane, whatever divisor is asked for.\<close>

lemma global_avg_pool_ignores_divisor:
  assumes "t_shape input = [n, c, h, w]" "x < n" "y < c"
  shows "\<exists>out. avg_pool2d input (IntList [int h, int w]) None (OneInt 0) ceil_mode include_pad divisor = Some out
    \<and> t_shape out = [n, c, 1, 1]
    \<and> t_at out [x, y, 0, 0] = (\<Sum>i\<leftarrow>[0..<h]. \<Sum>j\<leftarrow>[0..<w]. t_at input [x, y, i, j]) / of_nat (h * w)"
  using assms by (simp add: avg_pool2d_def int_list_def spatial_def Let_def numeral_eq_Suc)

text \<open>\<open>squeeze\<close> removes the named dimensions of one.\<close>

lemma squeeze_dims_ok:
  assumes "tens t sh f" "prod_list (map snd (filter (\<lambda>(i, _). int i \<notin> set dims) (enumerate 0 sh))) = prod_list sh"
  shows "\<exists>v. squeeze_dims t dims = Inr v \<and> t_shape v = map snd (filter (\<lambda>(i, _). int i \<notin> set dims) (enumerate 0 sh))"
  using assms by (simp add: squeeze_dims_def view_def tens_def res_simps)

section \<open>Examples\<close>

theorem upsample_linear_interpolates_witness:
  "\<exists>out. upsample_linear \<lparr> t_shape = [1, 1, 2], t_at = (\<lambda>i. 4 * of_nat (i ! 2)) \<rparr> [4] False [()] = Inr out
     \<and> t_shape out = [1, 1, 4] \<and> t_at out [0, 0, 0] = 0 \<and> t_at out [0, 0, 1] = 1 \<and> t_at out [0, 0, 3] = 4"
proof -
  let ?in = "\<lparr> t_shape = [1, 1, 2], t_at = (\<lambda>i. 4 * of_nat (i ! 2)) \<rparr> :: rat tensor"
  have "\<exists>out. upsample_linear ?in [4] False [()] = Inr out \<and> t_shape out = [1, 1] @ [4]
    \<and> (\<forall>p js. in_range p [1, 1] \<longrightarrow> in_range js [4] \<longrightarrow> t_at out (p @ js) = interp_all False [2] [4] js (\<lambda>is. t_at ?in (p @ is)))"
    by (rule upsample_linear_interpolates) simp_all
  then obtain out where out: "upsample_linear ?in [4] False [()] = Inr out" "t_shape out = [1, 1, 4]"
    and at: "\<And>p js. in_range p [1, 1] \<Longrightarrow> in_range js [4] \<Longrightarrow> t_at out (p @ js) = interp_all False [2] [4] js (\<lambda>is. t_at ?in (p @ is))"
    by auto
  have v: "t_at out [0, 0, j] = interp 2 (source_position False 2 4 j) (\<lambda>l. 4 * of_nat l)" if "j < 4" for j
    using at [of "[0, 0]" "[j]"] that by simp
  have p: "source_position False 2 4 0 = - 1 / 4" "source_position False 2 4 1 = 1 / 4" "source_position False 2 4 3 = 5 / 4"
    by (simp_all add: source_position_def)
  have i: "interp 2 (- 1 / 4) f = f 0" "interp 2 (5 / 4) f = f 1" for f
    by (simp_all add: interp_def Let_def)
  have j: "interp 2 (1 / 4) f = 3 / 4 * f 0 + 1 / 4 * f 1" for f
  proof -
    have "\<lfloor>1 / 4 :: rat\<rfloor> = 0" by (simp add: floor_eq_iff)
    then show ?thesis by (simp add: interp_def Let_def)
  qed
  have "t_at out [0, 0, 0] = 0" "t_at out [0, 0, 1] = 1" "t_at out [0, 0, 3] = 4"
    by (simp_all only: v p i j)
  then show ?thesis using out by blast
qed

theorem aligned_single_output_raises_witness:
  "upsample_linear \<lparr> t_shape = [1, 1, 4], t_at = (\<lambda>i. of_nat (i ! 2)) \<rparr> [1] True [()] = Inl ZeroDivisionError"
  using aligned_single_output_raises [of 4 1 1 "\<lambda>i. of_nat (i ! 2)" "()"] by simp

theorem upsample_nearest_picks_witness:
  "\<exists>out. upsample_nearest \<lparr> t_shape = [1, 1, 2], t_at = (\<lambda>i. of_nat (i ! 2)) \<rparr> [4] [None] = Inr out
     \<and> t_at out [0, 0, 1] = 0 \<and> t_at out [0, 0, 3] = 1"
proof -
  let ?in = "\<lparr> t_shape = [1, 1, 2], t_at = (\<lambda>i. of_nat (i ! 2)) \<rparr> :: rat tensor"
  have "\<exists>out. upsample_nearest ?in [4] [None] = Inr out \<and> t_shape out = [1, 1] @ [4]
    \<and> (\<forall>p js. in_range p [1, 1] \<longrightarrow> in_range js [4] \<longrightarrow> t_at out (p @ js) = t_at ?in (p @ pick_all [2] [4] [None] js))"
    by (rule upsample_nearest_picks) (simp_all add: scale_fits_def)
  then obtain out where out: "upsample_nearest ?in [4] [None] = Inr out"
    and at: "\<And>p js. in_range p [1, 1] \<Longrightarrow> in_range js [4] \<Longrightarrow> t_at out (p @ js) = t_at ?in (p @ pick_all [2] [4] [None] js)"
    by auto
  have "t_at out [0, 0, j] = of_nat (nearest_index 2 4 None j)" if "j < 4" for j
    using at [of "[0, 0]" "[j]"] that by simp
  moreover have "\<lfloor>1 / 2 :: rat\<rfloor> = 0" "\<lfloor>3 / 2 :: rat\<rfloor> = 1" by (simp_all add: floor_eq_iff)
  ultimately show ?thesis using out by (simp add: nearest_index_def)
qed

theorem split_then_cat_witness:
  "\<exists>ps. split_with_sizes \<lparr> t_shape = [2, 5], t_at = (\<lambda>i. i ! 1) \<rparr> [2, 3] (- 1) = Inr ps \<and> length ps = 2
     \<and> t_shape (ps ! 1) = [2, 3] \<and> cat_at 1 ps [0, 4] = Some 4"
proof -
  let ?t = "\<lparr> t_shape = [2, 5], t_at = (\<lambda>i. i ! 1) \<rparr> :: nat tensor"
  have "\<exists>ps. split_with_sizes ?t [2, 3] (- 1) = Inr ps \<and> length ps = length [2, 3 :: int]
    \<and> (\<forall>k < length [2, 3 :: int]. t_shape (ps ! k) = [2, 5][1 := nat ([2, 3] ! k)])
    \<and> (\<forall>i. in_range i [2, 5] \<longrightarrow> cat_at 1 ps i = Some (t_at ?t i))"
    by (rule split_then_cat) simp_all
  then obtain ps where "split_with_sizes ?t [2, 3] (- 1) = Inr ps" "length ps = 2"
    "\<forall>k < 2. t_shape (ps ! k) = [2, 5][1 := nat ([2, 3] ! k)]" "\<forall>i. in_range i [2, 5] \<longrightarrow> cat_at 1 ps i = Some (t_at ?t i)"
    by (auto simp: numeral_2_eq_2)
  then show ?thesis by (intro exI [of _ ps]) simp
qed

theorem masked_scatter_fills_in_order_witness:
  "\<exists>out. masked_scatter \<lparr> t_shape = [3], t_at = (\<lambda>_. 0 :: nat) \<rparr> \<lparr> t_shape = [3], t_at = (\<lambda>i. i ! 0 \<noteq> 1) \<rparr>
       \<lparr> t_shape = [2], t_at = (\<lambda>i. 7 + i ! 0) \<rparr> = Inr out
     \<and> map (t_at out) (all_indices [3]) = [7, 0, 8]"
proof -
  let ?d = "\<lparr> t_shape = [3], t_at = (\<lambda>_. 0 :: nat) \<rparr>" and ?m = "\<lparr> t_shape = [3], t_at = (\<lambda>i. i ! 0 \<noteq> 1) \<rparr>"
    and ?s = "\<lparr> t_shape = [2], t_at = (\<lambda>i. 7 + i ! 0) \<rparr> :: nat tensor"
  have fl: "flattened ?m [3] = [True, False, True]" "flattened ?d [3] = [0, 0, 0]" "flattened ?s [2] = [7, 8]"
    by (simp_all add: flattened_def own_index_def numeral_eq_Suc)
  have "\<exists>out. masked_scatter ?d ?m ?s = Inr out \<and> t_shape out = [3]
    \<and> map (t_at out) (all_indices [3]) = fill_marked (flattened ?m [3]) (flattened ?d [3]) (flattened ?s (t_shape ?s))"
    by (rule masked_scatter_fills_in_order) (simp_all add: common_shape_def pad_shape_def fl [simplified])
  then show ?thesis by (auto simp: fl [simplified])
qed

end
