(* ===== verification/KVSetup.thy ===== *)
theory KVSetup
  imports Paddings InputBatch MoeOps
begin

text \<open>
  How the runner of \<open>model_runner.py\<close> sets up its KV cache: the specification of every attention layer, the
  allocation of the tensors, the sharing of a cache between layers and the copy of blocks between two sets
  of caches.

  Tensors live in a store, a list indexed by address; layers that share a cache have the same address.
  The page size of a specification is vLLM's and an argument. Binding the caches to the layers and
  registering them for a transfer are calls into vLLM and not part of the model.
\<close>

section \<open>Specifications\<close>

datatype attn_type = DecoderAttn | EncoderAttn | EncoderOnlyAttn | EncoderDecoderAttn | UnknownAttn string

record attention =
  at_sharing :: "string option"
  at_type :: attn_type
  at_window :: "nat option"
  at_heads :: nat
  at_head_size :: nat

datatype attn_layer = AttentionLayer attention | MLALayer nat | OtherLayer

datatype kv_spec =
    FullAttentionSpec nat nat nat string
  | SlidingWindowSpec nat nat nat string nat
  | MLAAttentionSpec nat nat nat string string
  | OtherSpec nat

fun spec_block_size :: "kv_spec \<Rightarrow> nat" where
  "spec_block_size (FullAttentionSpec b _ _ _) = b"
| "spec_block_size (SlidingWindowSpec b _ _ _ _) = b"
| "spec_block_size (MLAAttentionSpec b _ _ _ _) = b"
| "spec_block_size (OtherSpec b) = b"

text \<open>The heads and the head size of an attention specification.\<close>

fun spec_heads :: "kv_spec \<Rightarrow> (nat \<times> nat) option" where
  "spec_heads (FullAttentionSpec _ n h _) = Some (n, h)"
| "spec_heads (SlidingWindowSpec _ n h _ _) = Some (n, h)"
| "spec_heads (MLAAttentionSpec _ n h _ _) = Some (n, h)"
| "spec_heads (OtherSpec _) = None"

text \<open>One layer: the specifications so far and the layers that share a cache.\<close>

definition layer_spec ::
  "nat \<Rightarrow> string \<Rightarrow> string \<Rightarrow> (string, kv_spec) dict \<times> (string, string) dict \<Rightarrow> string \<times> attn_layer
     \<Rightarrow> ((string, kv_spec) dict \<times> (string, string) dict) res" where
  "layer_spec block_size dtype cache_dtype = (\<lambda>(spec, shared) (name, layer).
     (case layer of
        AttentionLayer a \<Rightarrow>
          (case at_sharing a of
             Some target \<Rightarrow> Inr (spec, dset shared name target)
           | None \<Rightarrow>
               (case at_type a of
                  DecoderAttn \<Rightarrow>
                    Inr (dset spec name (case at_window a of
                        Some w \<Rightarrow> SlidingWindowSpec block_size (at_heads a) (at_head_size a) dtype w
                      | None \<Rightarrow> FullAttentionSpec block_size (at_heads a) (at_head_size a) dtype), shared)
                | EncoderAttn \<Rightarrow> Inr (spec, shared)
                | EncoderOnlyAttn \<Rightarrow> Inr (spec, shared)
                | EncoderDecoderAttn \<Rightarrow> Inl NotImplementedError
                | UnknownAttn _ \<Rightarrow> Inl ValueError))
      | MLALayer head_size \<Rightarrow>
          (if dget spec name \<noteq> None then Inr (spec, shared)
           else Inr (dset spec name (MLAAttentionSpec block_size 1 head_size dtype cache_dtype), shared))
      | OtherLayer \<Rightarrow> Inr (spec, shared)))"

definition get_kv_cache_spec ::
  "(string \<times> attn_layer) list \<Rightarrow> nat \<Rightarrow> string \<Rightarrow> string \<Rightarrow> (string, string) dict
     \<Rightarrow> ((string, kv_spec) dict \<times> (string, string) dict) res" where
  "get_kv_cache_spec layers block_size dtype cache_dtype shared =
     rfold (layer_spec block_size dtype cache_dtype) ([], shared) layers"

section \<open>Sharing\<close>

record kv_config =
  kc_groups :: "(kv_spec \<times> string list) list"
  kc_tensors :: "(string list \<times> nat) list"

text \<open>The groups are objects; \<open>layer_to_kv_cache_group\<close> refers to them by their position.\<close>

definition group_of_layers :: "(kv_spec \<times> string list) list \<Rightarrow> (string, nat) dict" where
  "group_of_layers groups =
     fold (\<lambda>(g, (_, names)) d. fold (\<lambda>name d. dset d name g) names d) (enumerate 0 groups) []"

definition add_kv_sharing_layers ::
  "(string, string) dict \<Rightarrow> (kv_spec \<times> string list) list \<Rightarrow> string set option
     \<Rightarrow> ((kv_spec \<times> string list) list \<times> string set option) res" where
  "add_kv_sharing_layers shared groups runner_only =
     (let group_of = group_of_layers groups
      in rfold (\<lambda>(groups, only) (name, target).
           rbind (ditem group_of target) (\<lambda>g.
           Inr (groups[g := (fst (groups ! g), snd (groups ! g) @ [name])],
                case only of None \<Rightarrow> None | Some s \<Rightarrow> Some (insert name s))))
         (groups, runner_only) shared)"

definition setup_kv_sharing ::
  "(string, string) dict \<Rightarrow> (string, nat) dict \<Rightarrow> kv_config \<Rightarrow> ((string, nat) dict \<times> kv_config) res" where
  "setup_kv_sharing shared caches config =
     (if shared = [] then Inr (caches, config)
      else rbind (add_kv_sharing_layers shared (kc_groups config) None) (\<lambda>(groups, _).
           rbind (rfold (\<lambda>caches (name, target). rbind (ditem caches target) (\<lambda>a. Inr (dset caches name a))) caches shared)
             (\<lambda>caches. Inr (caches, config\<lparr>kc_groups := groups\<rparr>))))"

section \<open>Allocation\<close>

type_synonym kv_store = "rat tensor list"

definition cache_sizes :: "kv_config \<Rightarrow> (string, nat) dict res" where
  "cache_sizes config =
     rfold (\<lambda>d (shared_by, size). case shared_by of [name] \<Rightarrow> Inr (dset d name size) | _ \<Rightarrow> Inl AssertionError)
       [] (kc_tensors config)"

text \<open>\<open>tp_size\<close> is the size of the tensor parallel group when it is enabled.\<close>

definition allocate_layer ::
  "(kv_spec \<Rightarrow> nat) \<Rightarrow> nat option \<Rightarrow> (string, nat) dict \<Rightarrow> kv_spec \<Rightarrow> kv_store \<times> (string, nat) dict \<Rightarrow> string
     \<Rightarrow> (kv_store \<times> (string, nat) dict) res" where
  "allocate_layer page_bytes tp_size sizes spec = (\<lambda>(store, caches) name.
     rbind (ditem sizes name) (\<lambda>size.
     rbind (rguard (page_bytes spec \<noteq> 0) ZeroDivisionError) (\<lambda>_.
     rbind (rassert (size mod page_bytes spec = 0)) (\<lambda>_.
     let num_blocks = size div page_bytes spec
     in case spec_heads spec of
          None \<Rightarrow> Inl NotImplementedError
        | Some (num_kv_heads, head_size) \<Rightarrow>
            rbind (case tp_size of
                None \<Rightarrow> Inr ()
              | Some tp \<Rightarrow> rbind (rguard (tp \<noteq> 0) ZeroDivisionError) (\<lambda>_. rassert (num_kv_heads mod tp = 0))) (\<lambda>_.
            let shape = map nat (get_kv_cache_shape (int num_blocks) (int (spec_block_size spec)) (int num_kv_heads) (int head_size))
            in Inr (store @ [zeros shape], dset caches name (length store)))))))"

definition allocate_caches ::
  "(kv_spec \<Rightarrow> nat) \<Rightarrow> nat option \<Rightarrow> (string, nat) dict \<Rightarrow> (kv_spec \<times> string list) list
     \<Rightarrow> (kv_store \<times> (string, nat) dict) res" where
  "allocate_caches page_bytes tp_size sizes groups =
     rfold (\<lambda>st (spec, names). rfold (allocate_layer page_bytes tp_size sizes spec) st names) ([], []) groups"

text \<open>The whole method: the batch of the runner is made anew when the block size changes; \<open>new_batch\<close> is the
  constructor with the limits of the runner.\<close>

definition initialize_kv_cache ::
  "(kv_spec \<Rightarrow> nat) \<Rightarrow> nat option \<Rightarrow> nat \<Rightarrow> (nat \<Rightarrow> 'bt input_batch) \<Rightarrow> (string, string) dict \<Rightarrow> kv_config \<Rightarrow> 'bt input_batch
     \<Rightarrow> ('bt input_batch \<times> kv_store \<times> (string, nat) dict \<times> kv_config) res" where
  "initialize_kv_cache page_bytes tp_size runner_block_size new_batch shared config batch =
     rbind (rguard (length (kc_groups config) \<le> 1) NotImplementedError) (\<lambda>_.
     rbind (lget (kc_groups config) 0) (\<lambda>(spec, _).
     let batch = (if spec_block_size spec \<noteq> runner_block_size then new_batch (spec_block_size spec) else batch)
     in rbind (cache_sizes config) (\<lambda>sizes.
        rbind (allocate_caches page_bytes tp_size sizes (kc_groups config)) (\<lambda>(store, caches).
        rbind (setup_kv_sharing shared caches config) (\<lambda>(caches, config).
        rbind (rassert (tp_size = None \<or> (\<forall>(_, a) \<in> set caches. length (t_shape (store ! a)) = 5))) (\<lambda>_.
        Inr (batch, store, caches, config)))))))"

section \<open>Copying blocks\<close>

text \<open>\<open>dst[dst_indices] = src[src_indices]\<close>: the indices are those of the first dimension.\<close>

definition index_put :: "rat tensor \<Rightarrow> rat tensor \<Rightarrow> int list \<Rightarrow> int list \<Rightarrow> rat tensor res" where
  "index_put src dst src_indices dst_indices =
     (case (t_shape src, t_shape dst) of
        (n # ssh, m # dsh) \<Rightarrow>
          rbind (rmap (tensor_index n) src_indices) (\<lambda>from.
          rbind (rmap (tensor_index m) dst_indices) (\<lambda>to.
          rbind (rguard (ssh = dsh) RuntimeError) (\<lambda>_.
          Inr (fold (\<lambda>(a, b) t. assign t (\<lambda>i. hd i = b) (\<lambda>i. t_at src (a # tl i))) (zip from to) dst))))
      | _ \<Rightarrow> Inl IndexError)"

datatype direction = H2D | D2H

definition insert_blocks_to_tpu :: "rat tensor \<Rightarrow> rat tensor \<Rightarrow> int list \<Rightarrow> int list \<Rightarrow> rat tensor res" where
  "insert_blocks_to_tpu cpu_cache tpu_cache cpu_indices tpu_indices = index_put cpu_cache tpu_cache cpu_indices tpu_indices"

definition swap_out_tpu_blocks :: "rat tensor \<Rightarrow> rat tensor \<Rightarrow> int list \<Rightarrow> int list \<Rightarrow> rat tensor res" where
  "swap_out_tpu_blocks tpu_cache cpu_cache tpu_indices cpu_indices = index_put tpu_cache cpu_cache tpu_indices cpu_indices"

text \<open>The caches of the source and of the destination are on two devices and have a store each.\<close>

definition copy_kv_blocks ::
  "kv_store \<Rightarrow> (string, nat) dict \<Rightarrow> kv_store \<Rightarrow> (string, nat) dict \<Rightarrow> int list \<Rightarrow> int list \<Rightarrow> direction \<Rightarrow> kv_store res" where
  "copy_kv_blocks src_store src_caches dst_store dst_caches src_ids dst_ids dir =
     (if src_caches = [] \<or> dst_caches = [] \<or> src_ids = [] \<or> dst_ids = [] \<or> length src_ids \<noteq> length dst_ids then Inr dst_store
      else let copy_fn = (case dir of H2D \<Rightarrow> insert_blocks_to_tpu | D2H \<Rightarrow> swap_out_tpu_blocks)
           in rfold (\<lambda>store (name, a).
                rbind (ditem dst_caches name) (\<lambda>b.
                rbind (copy_fn (src_store ! a) (store ! b) src_ids dst_ids) (\<lambda>t. Inr (store[b := t])))) dst_store src_caches)"

end
