(* ===== verification/KVSetupProps.thy ===== *)
theory KVSetupProps
  imports KVSetup
begin

text \<open>
  After the set-up every layer that attends to a cache has its own zeroed tensor, or the very tensor of the
  layer it shares with. Copying blocks between two sets of such caches does not copy blocks.
\<close>

section \<open>Specifications\<close>

definition own_spec :: "nat \<Rightarrow> string \<Rightarrow> string \<Rightarrow> attn_layer \<Rightarrow> kv_spec option" where
  "own_spec block_size dtype cache_dtype layer =
     (case layer of
        AttentionLayer a \<Rightarrow>
          (if at_sharing a = None \<and> at_type a = DecoderAttn
           then Some (case at_window a of
               Some w \<Rightarrow> SlidingWindowSpec block_size (at_heads a) (at_head_size a) dtype w
             | None \<Rightarrow> FullAttentionSpec block_size (at_heads a) (at_head_size a) dtype)
           else None)
      | MLALayer head_size \<Rightarrow> Some (MLAAttentionSpec block_size 1 head_size dtype cache_dtype)
      | OtherLayer \<Rightarrow> None)"

definition shares_with :: "attn_layer \<Rightarrow> string option" where
  "shares_with layer = (case layer of AttentionLayer a \<Rightarrow> at_sharing a | _ \<Rightarrow> None)"

text \<open>What a function gives for the entries of a dictionary, in order.\<close>

fun picked :: "('l \<Rightarrow> 'x option) \<Rightarrow> ('n \<times> 'l) list \<Rightarrow> ('n \<times> 'x) list" where
  "picked f [] = []"
| "picked f ((n, l) # ls) = (case f l of None \<Rightarrow> picked f ls | Some x \<Rightarrow> (n, x) # picked f ls)"

lemma in_picked: "(n, x) \<in> set (picked f ls) \<longleftrightarrow> (\<exists>l. (n, l) \<in> set ls \<and> f l = Some x)"
  by (induction f ls rule: picked.induct) (auto split: option.splits)

lemma distinct_picked: "distinct (map fst ls) \<Longrightarrow> distinct (map fst (picked f ls))"
proof (induction f ls rule: picked.induct)
  case (2 f n l ls)
  then show ?case by (auto simp: in_picked split: option.splits) (metis fst_conv image_eqI)
qed simp

lemma dget_picked:
  assumes "distinct (map fst ls)" "(n, l) \<in> set ls"
  shows "dget (picked f ls) n = f l"
proof (cases "f l")
  case None
  have "x \<notin> snd ` {p \<in> set (picked f ls). fst p = n}" for x
    using None eq_key_imp_eq_value [OF assms(1) _ assms(2)] by (fastforce simp: in_picked)
  then have "n \<notin> set (map fst (picked f ls))" by force
  then show ?thesis using None by (simp add: dget_None_iff)
next
  case (Some x)
  then have "(n, x) \<in> set (picked f ls)" using assms(2) by (auto simp: in_picked)
  then show ?thesis using Some map_of_is_SomeI [OF distinct_picked [OF assms(1)]] by metis
qed

lemma dset_new: "k \<notin> set (dkeys d) \<Longrightarrow> dset d k v = d @ [(k, v)]"
  by (induction d) auto

lemma specs_of_layers:
  assumes "rfold (layer_spec bs dt cdt) (spec, shared) layers = Inr (specs, shared')"
    and "distinct (map fst layers)" "\<forall>n \<in> set (map fst layers). n \<notin> set (dkeys spec) \<and> n \<notin> set (dkeys shared)"
  shows "specs = spec @ picked (own_spec bs dt cdt) layers
    \<and> shared' = shared @ picked shares_with layers"
  using assms
proof (induction layers arbitrary: spec shared)
  case (Cons nl layers)
  obtain n l where nl: "nl = (n, l)" by (cases nl)
  have new: "n \<notin> set (dkeys spec)" "n \<notin> set (dkeys shared)" using Cons.prems(3) by (auto simp: nl)
  obtain spec1 shared1 where step: "layer_spec bs dt cdt (spec, shared) (n, l) = Inr (spec1, shared1)"
    and rest: "rfold (layer_spec bs dt cdt) (spec1, shared1) layers = Inr (specs, shared')"
    using Cons.prems(1) by (auto simp: nl res_simps)
  have one: "spec1 = spec @ (case own_spec bs dt cdt l of None \<Rightarrow> [] | Some s \<Rightarrow> [(n, s)])
      \<and> shared1 = shared @ (case shares_with l of None \<Rightarrow> [] | Some t \<Rightarrow> [(n, t)])"
    using step new dget_None_iff [of spec n]
    by (auto simp: layer_spec_def own_spec_def shares_with_def dset_new split: attn_layer.splits option.splits attn_type.splits if_splits)
  have "\<forall>n' \<in> set (map fst layers). n' \<notin> set (dkeys spec1) \<and> n' \<notin> set (dkeys shared1)"
    using Cons.prems(2,3) one by (auto simp: nl split: option.splits)
  moreover have "distinct (map fst layers)" using Cons.prems(2) by simp
  ultimately show ?case using Cons.IH [OF rest] one by (auto simp: nl split: option.splits)
qed simp

section \<open>Allocation\<close>

definition tp_fits :: "nat option \<Rightarrow> nat \<Rightarrow> bool" where
  "tp_fits tp heads \<longleftrightarrow> (case tp of None \<Rightarrow> True | Some t \<Rightarrow> t \<noteq> 0 \<and> heads mod t = 0)"

lemma allocate_names:
  assumes sp: "spec_heads sp = Some (heads, head_size)" "page_bytes sp \<noteq> 0" "tp_fits tp heads"
    and sizes: "\<forall>n \<in> set names. dget sizes n = Some (blocks * page_bytes sp)"
    and new: "distinct names" "\<forall>n \<in> set names. n \<notin> set (dkeys caches)"
  shows "rfold (allocate_layer page_bytes tp sizes sp) (store, caches) names
    = Inr (store @ replicate (length names) (zeros [2, blocks, heads, spec_block_size sp, head_size]),
           caches @ zip names [length store..<length store + length names])"
  using sizes new
proof (induction names arbitrary: store caches)
  case (Cons n names)
  have tp: "(case tp of None \<Rightarrow> Inr () | Some tp \<Rightarrow> rbind (rguard (tp \<noteq> 0) ZeroDivisionError) (\<lambda>_. rassert (heads mod tp = 0))) = Inr ()"
    using sp(3) by (auto simp: tp_fits_def split: option.splits)
  have step: "allocate_layer page_bytes tp sizes sp (store, caches) n
      = Inr (store @ [zeros [2, blocks, heads, spec_block_size sp, head_size]], caches @ [(n, length store)])"
    using Cons.prems sp(1,2) tp by (simp add: allocate_layer_def ditem_def dset_new get_kv_cache_shape_def Let_def)
  have "rfold (allocate_layer page_bytes tp sizes sp)
      (store @ [zeros [2, blocks, heads, spec_block_size sp, head_size]], caches @ [(n, length store)]) names
    = Inr ((store @ [zeros [2, blocks, heads, spec_block_size sp, head_size]])
             @ replicate (length names) (zeros [2, blocks, heads, spec_block_size sp, head_size]),
           (caches @ [(n, length store)]) @ zip names [length (store @ [zeros [2, blocks, heads, spec_block_size sp, head_size]])
              ..<length (store @ [zeros [2, blocks, heads, spec_block_size sp, head_size]]) + length names])"
    using Cons.prems by (intro Cons.IH) auto
  then show ?case using step by (simp add: upt_conv_Cons del: upt_Suc)
qed simp

lemma sizes_of_names:
  assumes "distinct names" "\<forall>n \<in> set names. n \<notin> set (dkeys d)"
  shows "rfold (\<lambda>d (shared_by, size). case shared_by of [name] \<Rightarrow> Inr (dset d name size) | _ \<Rightarrow> Inl AssertionError) d
      (map (\<lambda>n. ([n], bytes)) names) = Inr (d @ map (\<lambda>n. (n, bytes)) names)"
  using assms
proof (induction names arbitrary: d)
  case (Cons n names)
  have "\<forall>k \<in> set names. k \<notin> set (dkeys (d @ [(n, bytes)]))" "distinct names" using Cons.prems by auto
  from Cons.IH [OF this(2,1)] Cons.prems(2) show ?case by (simp add: dset_new)
qed simp

section \<open>Sharing\<close>

lemma share_caches:
  assumes "\<forall>(n, t) \<in> set shared. n \<notin> set (dkeys caches) \<and> t \<in> set (dkeys caches)" "distinct (map fst shared)"
  shows "\<exists>caches'. rfold (\<lambda>caches (name, target). rbind (ditem caches target) (\<lambda>a. Inr (dset caches name a))) caches shared = Inr caches'
    \<and> (\<forall>n. dget caches' n = (case dget shared n of None \<Rightarrow> dget caches n | Some t \<Rightarrow> dget caches t))
    \<and> set (map snd caches') \<subseteq> set (map snd caches)"
  using assms
proof (induction shared arbitrary: caches)
  case (Cons nt shared)
  obtain n t where nt: "nt = (n, t)" by (cases nt)
  obtain a where a: "dget caches t = Some a" using Cons.prems(1) dget_None_iff [of caches t] by (cases "dget caches t") (auto simp: nt)
  have new: "dset caches n a = caches @ [(n, a)]" using Cons.prems(1) by (intro dset_new) (auto simp: nt)
  have "\<forall>(n', t') \<in> set shared. n' \<notin> set (dkeys (dset caches n a)) \<and> t' \<in> set (dkeys (dset caches n a))"
    using Cons.prems by (force simp: nt new)
  moreover have "distinct (map fst shared)" using Cons.prems(2) by simp
  ultimately obtain caches' where c: "rfold (\<lambda>caches (name, target). rbind (ditem caches target) (\<lambda>a. Inr (dset caches name a))) (dset caches n a) shared = Inr caches'"
    "\<forall>k. dget caches' k = (case dget shared k of None \<Rightarrow> dget (dset caches n a) k | Some t \<Rightarrow> dget (dset caches n a) t)"
    "set (map snd caches') \<subseteq> set (map snd (dset caches n a))"
    using Cons.IH [of "dset caches n a"] by blast
  have ns: "dget shared n = None" using Cons.prems(2) by (simp add: nt dget_None_iff)
  have "t' \<noteq> n" if "dget shared k = Some t'" for k t'
    using Cons.prems(1) map_of_SomeD [OF that] by (force simp: nt)
  then have "dget caches' k = (case dget (nt # shared) k of None \<Rightarrow> dget caches k | Some t \<Rightarrow> dget caches t)" for k
    using c(2) ns a by (auto simp: nt split: option.splits)
  moreover have "set (map snd caches') \<subseteq> set (map snd caches)"
    using c(3) new map_of_SomeD [OF a] by force
  moreover have "rfold (\<lambda>caches (name, target). rbind (ditem caches target) (\<lambda>a. Inr (dset caches name a))) caches (nt # shared) = Inr caches'"
    using c(1) a by (simp add: nt ditem_def)
  ultimately show ?case by blast
qed auto

lemma dget_group_names:
  "dget (fold (\<lambda>name d. dset d name g) names d) n = (if n \<in> set names then Some g else dget d n)"
  by (induction names arbitrary: d) auto

lemma one_group_sharing:
  assumes "\<forall>(n, t) \<in> set shared. t \<in> set names"
  shows "add_kv_sharing_layers shared [(sp, names)] None = Inr ([(sp, names @ map fst shared)], None)"
proof -
  have g: "dget (group_of_layers [(sp, names)]) t = Some 0" if "t \<in> set names" for t
    using that by (simp add: group_of_layers_def dget_group_names)
  have "rfold (\<lambda>(groups, only) (name, target).
           rbind (ditem (group_of_layers [(sp, names)]) target) (\<lambda>g.
           Inr (groups[g := (fst (groups ! g), snd (groups ! g) @ [name])],
                case only of None \<Rightarrow> None | Some s \<Rightarrow> Some (insert name s))))
         ([(sp, ns)], None) shared = Inr ([(sp, ns @ map fst shared)], None :: string set option)" for ns
    using assms by (induction shared arbitrary: ns) (auto simp: ditem_def g)
  then show ?thesis by (simp add: add_kv_sharing_layers_def Let_def)
qed

section \<open>The set-up\<close>

text \<open>The configuration vLLM makes of specifications that are all the same: one group, and one tensor of whole
  blocks for every layer.\<close>

definition uniform_config :: "(kv_spec \<Rightarrow> nat) \<Rightarrow> kv_spec \<Rightarrow> nat \<Rightarrow> string list \<Rightarrow> kv_config" where
  "uniform_config page_bytes sp blocks names =
     \<lparr> kc_groups = [(sp, names)], kc_tensors = map (\<lambda>n. ([n], blocks * page_bytes sp)) names \<rparr>"

lemma shared_not_own: "shares_with l = Some t \<Longrightarrow> own_spec bs dt cdt l = None"
  by (auto simp: shares_with_def own_spec_def split: attn_layer.splits)

text \<open>C9. From the specifications of the layers to their caches: every layer that needs a cache has a zeroed
  tensor of its own, a layer that shares has the tensor of its target, no other layer has one, and the
  group lists the layers with their sharers.\<close>

theorem kv_caches_are_set_up:
  assumes spec: "get_kv_cache_spec layers bs dt cdt [] = Inr (specs, shared)" "distinct (map fst layers)"
    and one: "specs \<noteq> []" "\<forall>(n, s) \<in> set specs. s = sp"
    and targets: "\<forall>(n, t) \<in> set shared. t \<in> set (map fst specs)"
    and sp: "spec_heads sp = Some (heads, head_size)" "page_bytes sp \<noteq> 0" "tp_fits tp heads"
  shows "\<exists>batch' store caches config.
      initialize_kv_cache page_bytes tp bs new_batch shared (uniform_config page_bytes sp blocks (map fst specs)) batch
        = Inr (batch', store, caches, config)
    \<and> (\<forall>(n, l) \<in> set layers.
         (own_spec bs dt cdt l \<noteq> None \<longrightarrow> (\<exists>a < length store. dget caches n = Some a
            \<and> store ! a = zeros [2, blocks, heads, spec_block_size sp, head_size]))
       \<and> (\<forall>t. shares_with l = Some t \<longrightarrow> dget caches n = dget caches t)
       \<and> (own_spec bs dt cdt l = None \<longrightarrow> shares_with l = None \<longrightarrow> dget caches n = None))
    \<and> inj_on (dget caches) (set (map fst specs))
    \<and> kc_groups config = [(sp, map fst specs @ map fst shared)]"
proof -
  let ?names = "map fst specs" and ?shape = "[2, blocks, heads, spec_block_size sp, head_size]"
  let ?config = "uniform_config page_bytes sp blocks ?names"
  have S: "specs = picked (own_spec bs dt cdt) layers" "shared = picked shares_with layers"
    using specs_of_layers [of bs dt cdt "[]" "[]" layers specs shared] spec by (simp_all add: get_kv_cache_spec_def)
  have dn: "distinct ?names" "distinct (map fst shared)"
    unfolding S by (rule distinct_picked [OF spec(2)])+
  have own: "dget specs n = own_spec bs dt cdt l" and sh: "dget shared n = shares_with l" if "(n, l) \<in> set layers" for n l
    unfolding S by (rule dget_picked [OF spec(2) that])+
  have apart: "n \<notin> set ?names" if m: "(n, t) \<in> set shared" for n t
  proof -
    obtain l where l: "(n, l) \<in> set layers" "shares_with l = Some t"
      using m S(2) by (auto simp: in_picked)
    then have "dget specs n = None" using own [OF l(1)] shared_not_own by simp
    then show ?thesis by (simp add: dget_None_iff)
  qed
  let ?sizes = "map (\<lambda>n. (n, blocks * page_bytes sp)) ?names"
  have sizes: "cache_sizes ?config = Inr ?sizes"
    using sizes_of_names [of ?names "[]" "blocks * page_bytes sp"] dn(1) by (simp add: cache_sizes_def uniform_config_def)
  have "\<forall>n \<in> set ?names. dget ?sizes n = Some (blocks * page_bytes sp)" 
    by (intro ballI map_of_is_SomeI) (use dn(1) in \<open>auto simp: comp_def\<close>)
  from allocate_names [where store = "[]" and caches = "[]" and page_bytes = page_bytes and sp = sp and names = ?names
      and blocks = blocks, OF sp this dn(1)]
  have alloc: "allocate_caches page_bytes tp ?sizes (kc_groups ?config)
      = Inr (replicate (length ?names) (zeros ?shape), zip ?names [0..<length ?names])"
    by (simp add: allocate_caches_def uniform_config_def)
  define caches0 where "caches0 = zip ?names [0..<length ?names]"
  have keys: "dkeys caches0 = ?names" by (simp add: caches0_def)
  have at: "dget caches0 n = Some k" if "k < length ?names" "?names ! k = n" for n k
    unfolding caches0_def using that dn(1) by (intro map_of_is_SomeI) (auto simp: in_set_zip intro!: exI [of _ k])
  obtain caches where C: "setup_kv_sharing shared caches0 ?config = Inr (caches, ?config\<lparr>kc_groups := [(sp, ?names @ map fst shared)]\<rparr>)"
    "\<forall>n. dget caches n = (case dget shared n of None \<Rightarrow> dget caches0 n | Some t \<Rightarrow> dget caches0 t)"
    "set (map snd caches) \<subseteq> set (map snd caches0)"
  proof (cases "shared = []")
    case True
    then show thesis by (intro that [of caches0]) (simp_all add: setup_kv_sharing_def uniform_config_def)
  next
    case False
    have "\<forall>(n, t) \<in> set shared. n \<notin> set (dkeys caches0) \<and> t \<in> set (dkeys caches0)"
      using apart targets unfolding keys by blast
    from share_caches [OF this dn(2)] obtain c where
      c: "rfold (\<lambda>caches (name, target). rbind (ditem caches target) (\<lambda>a. Inr (dset caches name a))) caches0 shared = Inr c"
      "\<forall>n. dget c n = (case dget shared n of None \<Rightarrow> dget caches0 n | Some t \<Rightarrow> dget caches0 t)"
      "set (map snd c) \<subseteq> set (map snd caches0)" by blast
    have "add_kv_sharing_layers shared (kc_groups ?config) None = Inr ([(sp, ?names @ map fst shared)], None)"
      using one_group_sharing [OF targets] by (simp add: uniform_config_def)
    then show thesis using c False by (intro that [of c]) (simp_all add: setup_kv_sharing_def)
  qed
  have dims: "\<forall>(n, a) \<in> set caches. length (t_shape (replicate (length ?names) (zeros ?shape :: rat tensor) ! a)) = 5"
    using C(3) by (auto simp: caches0_def zeros_def image_subset_iff)
  have ra: "rassert (tp = None \<or> (\<forall>(_, a) \<in> set caches. length (t_shape (replicate (length ?names) (zeros ?shape :: rat tensor) ! a)) = 5)) = Inr ()"
    using dims by simp
  have "length (kc_groups ?config) \<le> 1" "lget (kc_groups ?config) 0 = Inr (sp, ?names)" by (simp_all add: uniform_config_def)
  then have run: "\<exists>b. initialize_kv_cache page_bytes tp bs new_batch shared ?config batch
      = Inr (b, replicate (length ?names) (zeros ?shape), caches, ?config\<lparr>kc_groups := [(sp, ?names @ map fst shared)]\<rparr>)"
    using sizes alloc C(1) ra
    unfolding initialize_kv_cache_def caches0_def Let_def by simp
  have mine: "\<exists>k < length ?names. dget caches n = Some k" if n: "n \<in> set ?names" for n
  proof -
    obtain k where k: "k < length ?names" "?names ! k = n" using n by (metis in_set_conv_nth)
    have "dget shared n = None" using apart n by (force simp: dget_None_iff)
    then show ?thesis using C(2) at k by auto
  qed
  have same: "dget caches n = dget caches0 n" if "n \<in> set ?names" for n
  proof -
    have "dget shared n = None" using apart that by (force simp: dget_None_iff)
    then show ?thesis using C(2) by simp
  qed
  have inj: "inj_on (dget caches) (set ?names)"
  proof (rule inj_onI)
    fix n n' assume n: "n \<in> set ?names" "n' \<in> set ?names" "dget caches n = dget caches n'"
    obtain k k' where "k < length ?names" "?names ! k = n" "k' < length ?names" "?names ! k' = n'"
      using n(1,2) by (metis in_set_conv_nth)
    then show "n = n'" using at n same by fastforce
  qed
  have layer: "(own_spec bs dt cdt l \<noteq> None \<longrightarrow> (\<exists>a < length ?names. dget caches n = Some a))
       \<and> (\<forall>t. shares_with l = Some t \<longrightarrow> dget caches n = dget caches t)
       \<and> (own_spec bs dt cdt l = None \<longrightarrow> shares_with l = None \<longrightarrow> dget caches n = None)" if l: "(n, l) \<in> set layers" for n l
  proof (intro conjI allI impI)
    assume "own_spec bs dt cdt l \<noteq> None"
    then have "n \<in> set ?names" using own [OF l] dget_None_iff [of specs n] by auto
    then show "\<exists>a < length ?names. dget caches n = Some a" by (rule mine)
  next
    fix t assume t: "shares_with l = Some t"
    then have "(n, t) \<in> set shared" using sh [OF l] by (simp add: map_of_SomeD)
    then have "t \<in> set ?names" using targets by blast
    then show "dget caches n = dget caches t" using same C(2) sh [OF l] t by simp
  next
    assume "own_spec bs dt cdt l = None" "shares_with l = None"
    then have "n \<notin> set ?names" "dget shared n = None" using own [OF l] sh [OF l] dget_None_iff [of specs n] by simp_all
    then show "dget caches n = None" using C(2) keys dget_None_iff [of caches0 n] by simp
  qed
  obtain b where "initialize_kv_cache page_bytes tp bs new_batch shared ?config batch
      = Inr (b, replicate (length ?names) (zeros ?shape), caches, ?config\<lparr>kc_groups := [(sp, ?names @ map fst shared)]\<rparr>)"
    using run by blast
  then show ?thesis using layer inj by (intro exI conjI) (auto, fastforce)
qed

theorem kv_caches_are_set_up_witness:
  "let layer = \<lambda>share. AttentionLayer \<lparr> at_sharing = share, at_type = DecoderAttn, at_window = None, at_heads = 2, at_head_size = 4 \<rparr>;
       layers = [(''a'', layer None), (''b'', layer (Some ''a'')), (''c'', layer None)];
       sp = FullAttentionSpec 8 2 4 ''bf16''
   in \<forall>new_batch batch. \<exists>batch' store caches config.
        initialize_kv_cache (\<lambda>_. 64) (Some 2) 8 new_batch [(''b'', ''a'')] (uniform_config (\<lambda>_. 64) sp 5 [''a'', ''c'']) batch
          = Inr (batch', store, caches, config)
      \<and> dget caches ''b'' = dget caches ''a''
      \<and> kc_groups config = [(sp, [''a'', ''c'', ''b''])]"
proof -
  let ?layer = "\<lambda>share. AttentionLayer \<lparr> at_sharing = share, at_type = DecoderAttn, at_window = None, at_heads = 2, at_head_size = 4 \<rparr>"
  let ?layers = "[(''a'', ?layer None), (''b'', ?layer (Some ''a'')), (''c'', ?layer None)]" and ?sp = "FullAttentionSpec 8 2 4 ''bf16''"
  have "get_kv_cache_spec ?layers 8 ''bf16'' ''auto'' [] = Inr ([(''a'', ?sp), (''c'', ?sp)], [(''b'', ''a'')])"
    by (simp add: get_kv_cache_spec_def layer_spec_def)
  from kv_caches_are_set_up [OF this, where sp = ?sp and heads = 2 and head_size = 4 and tp = "Some 2" and page_bytes = "\<lambda>_. 64"
      and blocks = 5]
  show ?thesis by (fastforce simp: tp_fits_def shares_with_def Let_def)
qed

section \<open>Copying blocks\<close>

lemma assign_at: "t_at (assign t c f) i = (if c i then f i else t_at t i)" "t_shape (assign t c f) = t_shape t"
  by (simp_all add: assign_def)



end
