(* ===== verification/PyStrings.thy ===== *)
theory PyStrings
  imports TT_Prelude "HOL-Library.Sublist"
begin

text \<open>
  The operations on Python strings that the names of weights and mesh axes go through: \<open>int\<close>, \<open>split\<close>,
  \<open>rsplit\<close>, \<open>join\<close>, the rendering of integers in decimal, and the glob patterns of \<open>fnmatch\<close>.
\<close>

section \<open>Numbers\<close>


definition is_space :: "char \<Rightarrow> bool" where
  "is_space c \<longleftrightarrow> c \<in> {CHR '' '', CHR 0x09, CHR 0x0A, CHR 0x0B, CHR 0x0C, CHR 0x0D}"

definition is_digit :: "char \<Rightarrow> bool" where
  "is_digit c \<longleftrightarrow> 48 \<le> (of_char c :: nat) \<and> (of_char c :: nat) \<le> 57"

text \<open>\<open>int(s)\<close>: blanks around, a sign, digits with single underscores between them.\<close>

fun read_digits :: "int \<Rightarrow> bool \<Rightarrow> string \<Rightarrow> int option" where
  "read_digits acc after_digit [] = (if after_digit then Some acc else None)"
| "read_digits acc after_digit (c # cs) =
     (if is_digit c then read_digits (acc * 10 + (of_char c - 48)) True cs
      else if c = CHR ''_'' \<and> after_digit then read_digits acc False cs else None)"

definition strip :: "string \<Rightarrow> string" where
  "strip s = rev (dropWhile is_space (rev (dropWhile is_space s)))"

definition py_int :: "string \<Rightarrow> int option" where
  "py_int s =
     (case strip s of
        c # cs \<Rightarrow>
          if c = CHR ''-'' then map_option uminus (read_digits 0 False cs)
          else if c = CHR ''+'' then read_digits 0 False cs else read_digits 0 False (c # cs)
      | [] \<Rightarrow> None)"

fun split_at :: "char \<Rightarrow> string \<Rightarrow> string list" where
  "split_at d [] = [[]]"
| "split_at d (c # cs) =
     (if c = d then [] # split_at d cs
      else case split_at d cs of p # ps \<Rightarrow> (c # p) # ps | [] \<Rightarrow> [[c]])"

text \<open>How an integer is rendered.\<close>

definition digit :: "nat \<Rightarrow> char" where
  "digit n = char_of (48 + n)"

function decimal :: "nat \<Rightarrow> string" where
  "decimal n = (if n < 10 then [digit n] else decimal (n div 10) @ [digit (n mod 10)])"
  by auto

termination by (relation "measure id") auto

declare decimal.simps [simp del]

definition py_str :: "int \<Rightarrow> string" where
  "py_str i = (if i < 0 then ''-'' @ decimal (nat (- i)) else decimal (nat i))"

lemma digit_facts:
  assumes "n < 10"
  shows "is_digit (digit n)" "of_char (digit n) = (of_nat n + 48 :: int)" "\<not> is_space (digit n)" "digit n \<notin> {CHR ''-'', CHR ''+'', CHR ''_'', CHR ''.''}"
proof -
  have n: "n \<in> {0, 1, 2, 3, 4, 5, 6, 7, 8, 9}" using assms by auto
  have v: "of_char (digit n) = n + 48" using n by (auto simp: digit_def)
  then show "is_digit (digit n)" using assms by (simp add: is_digit_def)
  have "of_char (digit n) = int (of_char (digit n))" by (simp only: of_nat_of_char)
  then show "of_char (digit n) = (of_nat n + 48 :: int)" using v by simp
  show "\<not> is_space (digit n)" "digit n \<notin> {CHR ''-'', CHR ''+'', CHR ''_'', CHR ''.''}"
    using v assms by (auto simp: is_space_def)
qed

lemma decimal_digits: "\<forall>c \<in> set (decimal n). \<exists>k < 10. c = digit k"
proof (induction n rule: decimal.induct)
  case (1 n)
  show ?case
  proof (cases "n < 10")
    case True
    then show ?thesis by (subst decimal.simps) auto
  next
    case False
    have "n mod 10 < 10" by simp
    then show ?thesis using False 1 by (subst decimal.simps) (auto intro: exI [of _ "n mod 10"])
  qed
qed

lemma decimal_is_digit: "c \<in> set (decimal n) \<Longrightarrow> is_digit c"
  using decimal_digits [of n] digit_facts(1) by metis

lemma decimal_not_Nil: "decimal n \<noteq> []"
  by (subst decimal.simps) auto

lemma read_digits_fold:
  assumes "\<forall>c \<in> set s. is_digit c" "s \<noteq> [] \<or> b"
  shows "read_digits acc b s = Some (fold (\<lambda>c a. a * 10 + (of_char c - 48)) s acc)"
  using assms by (induction s arbitrary: acc b) auto

lemma decimal_value: "fold (\<lambda>c a. a * 10 + (of_char c - 48)) (decimal n) 0 = (int n)"
proof (induction n rule: decimal.induct)
  case (1 n)
  have m: "n mod 10 < 10" by simp
  show ?case
  proof (cases "n < 10")
    case True
    then show ?thesis using digit_facts(2) [OF True] by (subst decimal.simps) simp
  next
    case False
    have "int (n div 10) * 10 + int (n mod 10) = int n" by (metis mult.commute mult_div_mod_eq of_nat_add of_nat_mult of_nat_numeral)
    then show ?thesis using False 1 digit_facts(2) [OF m] by (subst decimal.simps) simp
  qed
qed

lemma strip_no_space:
  assumes "\<forall>c \<in> set s. \<not> is_space c"
  shows "strip s = s"
proof -
  have "dropWhile is_space t = t" if "\<forall>c \<in> set t. \<not> is_space c" for t using that by (cases t) auto
  from this [of s] this [of "rev s"] show ?thesis using assms by (simp add: strip_def)
qed

lemma py_int_decimal: "py_int (decimal n) = Some (int n)"
proof -
  have c: "is_digit c \<and> \<not> is_space c \<and> c \<noteq> CHR ''-'' \<and> c \<noteq> CHR ''+''" if "c \<in> set (decimal n)" for c
    using that decimal_digits [of n] digit_facts by fastforce
  have s: "strip (decimal n) = decimal n" using c by (intro strip_no_space) blast
  obtain d ds where d: "decimal n = d # ds" using decimal_not_Nil [of n] by (cases "decimal n") auto
  have "read_digits 0 False (decimal n) = Some (int n)"
    using read_digits_fold [of "decimal n" False 0] c decimal_not_Nil [of n] decimal_value [of n] by simp
  then show ?thesis using c [of d] s by (simp add: py_int_def d)
qed

section \<open>Parts\<close>

fun join :: "string \<Rightarrow> string list \<Rightarrow> string" where
  "join sep [] = []"
| "join sep [p] = p"
| "join sep (p # ps) = p @ sep @ join sep ps"

lemma split_at_no_sep: "d \<notin> set p \<Longrightarrow> split_at d p = [p]"
  by (induction p) auto

lemma split_at_part: "d \<notin> set p \<Longrightarrow> split_at d (p @ d # s) = p # split_at d s"
  by (induction p) auto

lemma split_join:
  assumes "ps \<noteq> []" "\<forall>p \<in> set ps. d \<notin> set p"
  shows "split_at d (join [d] ps) = ps"
  using assms by (induction "[d]" ps rule: join.induct) (auto simp: split_at_no_sep split_at_part)

text \<open>\<open>s.rsplit(d, 1)\<close>: the parts before and after the last separator, or the whole string.\<close>

definition rsplit1 :: "char \<Rightarrow> string \<Rightarrow> string list" where
  "rsplit1 d s = (if d \<in> set s then [rev (tl (dropWhile (\<lambda>c. c \<noteq> d) (rev s))), rev (takeWhile (\<lambda>c. c \<noteq> d) (rev s))] else [s])"

lemma rsplit1_last: "d \<notin> set q \<Longrightarrow> rsplit1 d (p @ d # q) = [p, q]"
  by (simp add: rsplit1_def dropWhile_append takeWhile_append)

definition ends_with :: "string \<Rightarrow> string \<Rightarrow> bool" where
  "ends_with s e \<longleftrightarrow> length e \<le> length s \<and> drop (length s - length e) s = e"

section \<open>Glob patterns\<close>

text \<open>\<open>fnmatch.fnmatch\<close> on a file system that keeps case: a star matches any string, a question mark any character,
  a bracket one character of its items, and one that is never closed itself.\<close>

datatype class_item = Single char | Range char char

fun class_items :: "string \<Rightarrow> class_item list" where
  "class_items (c # h # d # cs) =
     (if h = CHR ''-'' then Range c d # class_items cs else Single c # class_items (h # d # cs))"
| "class_items cs = map Single cs"

fun in_item :: "char \<Rightarrow> class_item \<Rightarrow> bool" where
  "in_item c (Single d) \<longleftrightarrow> c = d"
| "in_item c (Range a b) \<longleftrightarrow> (of_char a :: nat) \<le> of_char c \<and> (of_char c :: nat) \<le> of_char b"

text \<open>The pattern after an opening bracket: whether the class is negated, its content, the rest. The first
  character of the content may be a closing bracket.\<close>

definition char_class :: "string \<Rightarrow> (bool \<times> string \<times> string) option" where
  "char_class p =
     (let neg = (p \<noteq> [] \<and> hd p = CHR ''!''); q = (if neg then tl p else p)
      in case q of
           [] \<Rightarrow> None
         | c # cs \<Rightarrow>
             (if CHR '']'' \<in> set cs
              then Some (neg, c # takeWhile (\<lambda>d. d \<noteq> CHR '']'') cs, tl (dropWhile (\<lambda>d. d \<noteq> CHR '']'') cs))
              else None))"

lemma char_class_shorter: "char_class p = Some (neg, content, rest) \<Longrightarrow> length rest < length p"
proof -
  assume a: "char_class p = Some (neg, content, rest)"
  have "length (tl (dropWhile (\<lambda>d. d \<noteq> CHR '']'') cs)) \<le> length cs" for cs :: string
    by (metis length_dropWhile_le length_tl diff_le_self le_trans)
  then show ?thesis using a
    by (cases p) (auto simp: char_class_def Let_def le_imp_less_Suc less_SucI split: if_splits list.splits)
qed

function glob :: "string \<Rightarrow> string \<Rightarrow> bool" where
  "glob [] s \<longleftrightarrow> s = []"
| "glob (c # p) s \<longleftrightarrow>
     (if c = CHR ''*'' then glob p s \<or> (case s of [] \<Rightarrow> False | _ # t \<Rightarrow> glob (c # p) t)
      else case s of
          [] \<Rightarrow> False
        | d # t \<Rightarrow>
            (if c = CHR ''?'' then glob p t
             else if c = CHR ''['' then
               (case char_class p of
                  None \<Rightarrow> d = c \<and> glob p t
                | Some (neg, content, rest) \<Rightarrow> neg \<noteq> list_ex (in_item d) (class_items content) \<and> glob rest t)
             else d = c \<and> glob p t))"
  by pat_completeness auto

termination
  by (relation "measures [\<lambda>(p, s). length p, \<lambda>(p, s). length s]") (auto dest: char_class_shorter)

definition fnmatch :: "string \<Rightarrow> string \<Rightarrow> bool" where
  "fnmatch name pattern = glob pattern name"

definition plain_pattern :: "string \<Rightarrow> bool" where
  "plain_pattern p \<longleftrightarrow> set p \<inter> {CHR ''*'', CHR ''?'', CHR ''[''} = {}"

lemma fnmatch_plain: "plain_pattern p \<Longrightarrow> fnmatch s p \<longleftrightarrow> s = p"
  unfolding fnmatch_def
proof (induction p arbitrary: s)
  case (Cons c p)
  have "c \<noteq> CHR ''*''" "c \<noteq> CHR ''?''" "c \<noteq> CHR ''[''" "plain_pattern p" using Cons.prems by (auto simp: plain_pattern_def)
  then show ?case using Cons.IH by (cases s) auto
qed simp

lemma fnmatch_examples:
  "fnmatch ''model.layers.12.mlp.weight'' ''model.*.mlp.weight''" "\<not> fnmatch ''model.layers.12.attn.weight'' ''model.*.mlp.weight''"
  "fnmatch ''layers.3.weight'' ''layers.[0-4].weight''" "\<not> fnmatch ''layers.7.weight'' ''layers.[0-4].weight''"
  "fnmatch ''layers.7.weight'' ''layers.[!0-4].weight''" "fnmatch ''a[b'' ''?[b''"
  by (simp_all add: fnmatch_def char_class_def)

end
