(* ===== verification/Weights.thy ===== *)
theory Weights
  imports PyStrings
begin

text \<open>
  Decisions that are made by the names of weights: the filter of \<open>model_runner.py\<close> for a model with fewer layers,
  and \<open>weight_dtype.py\<close>, which picks a storage format for every parameter from a configuration of glob
  patterns, registers it, removes it again, and writes a template of the configuration.

  The modules of the model and the parametrizations of torch are arguments; what is relied on is
  \<open>parametrize_ok\<close>. Reading a file is an argument as well.
\<close>

section \<open>Weights of fewer layers\<close>

text \<open>A part that is no number ends the search, and the weight is kept.\<close>

fun skips_layer :: "int \<Rightarrow> string list \<Rightarrow> bool" where
  "skips_layer target (p # q # ps) =
     (if p = ''layers'' then
        (case py_int q of None \<Rightarrow> False | Some n \<Rightarrow> n \<ge> target \<or> skips_layer target (q # ps))
      else skips_layer target (q # ps))"
| "skips_layer target _ = False"

definition should_skip :: "int \<Rightarrow> string \<Rightarrow> bool" where
  "should_skip target name \<longleftrightarrow> sublist ''layers.'' name \<and> skips_layer target (split_at (CHR ''.'') name)"

definition filter_weights :: "int option \<Rightarrow> int option \<Rightarrow> (string \<times> 'w) list \<Rightarrow> (string \<times> 'w) list" where
  "filter_weights original target weights =
     (case (original, target) of
        (Some _, Some t) \<Rightarrow> filter (\<lambda>(name, _). \<not> should_skip t name) weights
      | _ \<Rightarrow> weights)"

section \<open>Configuration\<close>

datatype config = ConfigDict "(string, string) dict" | ConfigText string

definition load_config :: "(string \<Rightarrow> bool) \<Rightarrow> (string \<Rightarrow> (string, string) dict res) \<Rightarrow> config \<Rightarrow> (string, string) dict res" where
  "load_config is_file read_json config =
     (case config of
        ConfigDict d \<Rightarrow> Inr d
      | ConfigText s \<Rightarrow>
          (if s \<in> {''bfp_bf4'', ''bfp_bf8'', ''bf16''} then Inr [(''default'', s)]
           else if ends_with s ''.json'' \<or> is_file s then read_json s
           else Inl ValueError))"

text \<open>The format of every parameter: the default for the weights, then the patterns in their order. The second
  result are the patterns without a match, of which the code warns.\<close>

definition resolve_default :: "string list \<Rightarrow> string option \<Rightarrow> (string, string) dict" where
  "resolve_default param_names fallback =
     (case fallback of
        None \<Rightarrow> []
      | Some dtype \<Rightarrow> fold (\<lambda>name resolved. if ends_with name ''.weight'' then dset resolved name dtype else resolved) param_names [])"

definition apply_pattern :: "string list \<Rightarrow> string \<times> string \<Rightarrow> (string, string) dict \<times> string list \<Rightarrow> (string, string) dict \<times> string list" where
  "apply_pattern param_names = (\<lambda>(pattern, dtype) (resolved, unmatched).
     let (resolved, matched) =
       fold (\<lambda>name (resolved, matched). if fnmatch name pattern then (dset resolved name dtype, True) else (resolved, matched))
         param_names (resolved, False)
     in (resolved, if matched then unmatched else unmatched @ [pattern]))"

definition resolve_overrides :: "string list \<Rightarrow> (string, string) dict \<Rightarrow> (string, string) dict \<times> string list" where
  "resolve_overrides param_names overrides =
     fold (apply_pattern param_names) (dpop overrides ''default'') (resolve_default param_names (dget overrides ''default''), [])"

section \<open>Parametrizations\<close>

text \<open>A parametrization of a parameter: one of this file, or another one.\<close>

datatype 'p parametrization = WeightDtypeParametrization string | OtherParametrization 'p

record ('m, 'p) parametrize_ops =
  is_parameter :: "'m \<Rightarrow> string \<Rightarrow> bool"
  register_parametrization :: "'m \<Rightarrow> string \<Rightarrow> 'p parametrization \<Rightarrow> 'm"
  parametrized_names :: "'m \<Rightarrow> string list"
  param_list :: "'m \<Rightarrow> string \<Rightarrow> 'p parametrization list"
  remove_parametrizations :: "'m \<Rightarrow> string \<Rightarrow> 'm"
  delete_parametrization :: "'m \<Rightarrow> string \<Rightarrow> nat \<Rightarrow> 'm"

text \<open>One entry of the resolved formats; a module is an object, so its new state takes its place.\<close>

definition register_one ::
  "('m, 'p) parametrize_ops \<Rightarrow> (string, 'm) dict \<times> (string \<times> string) list \<Rightarrow> string \<times> string
     \<Rightarrow> ((string, 'm) dict \<times> (string \<times> string) list) res" where
  "register_one po = (\<lambda>(modules, applied) (param_path, dtype).
     (case rsplit1 (CHR ''.'') param_path of
        [module_path, param_name] \<Rightarrow>
          (case dget modules module_path of
             None \<Rightarrow> Inr (modules, applied)
           | Some m \<Rightarrow>
               (if \<not> is_parameter po m param_name then Inr (modules, applied)
                else Inr (dset modules module_path (register_parametrization po m param_name (WeightDtypeParametrization dtype)),
                          applied @ [(param_path, dtype)])))
      | _ \<Rightarrow> Inl ValueError))"

definition apply_weight_dtype_overrides ::
  "('m, 'p) parametrize_ops \<Rightarrow> (string \<Rightarrow> bool) \<Rightarrow> (string \<Rightarrow> (string, string) dict res) \<Rightarrow> string list \<Rightarrow> (string, 'm) dict \<Rightarrow> config
     \<Rightarrow> ((string, 'm) dict \<times> (string \<times> string) list) res" where
  "apply_weight_dtype_overrides po is_file read_json param_names modules config =
     rbind (load_config is_file read_json config) (\<lambda>overrides.
     let (resolved, _) = resolve_overrides param_names overrides
     in rfold (register_one po) (modules, []) resolved)"

definition is_override :: "'p parametrization \<Rightarrow> bool" where
  "is_override p \<longleftrightarrow> (case p of WeightDtypeParametrization _ \<Rightarrow> True | OtherParametrization _ \<Rightarrow> False)"

definition remove_from_param :: "('m, 'p) parametrize_ops \<Rightarrow> string \<Rightarrow> 'm \<times> nat \<Rightarrow> 'm \<times> nat" where
  "remove_from_param po param_name = (\<lambda>(m, count).
     let entries = param_list po m param_name;
         to_remove = map fst (filter (\<lambda>(_, p). is_override p) (enumerate 0 entries))
     in if to_remove = [] then (m, count)
        else if length to_remove = length entries then (remove_parametrizations po m param_name, count + length to_remove)
        else (fold (\<lambda>i m. delete_parametrization po m param_name i) (rev to_remove) m, count + length to_remove))"

definition remove_from_module :: "('m, 'p) parametrize_ops \<Rightarrow> string \<times> 'm \<Rightarrow> (string, 'm) dict \<times> nat \<Rightarrow> (string, 'm) dict \<times> nat" where
  "remove_from_module po = (\<lambda>(name, m) (modules, count).
     let (m, count) = fold (remove_from_param po) (parametrized_names po m) (m, count)
     in (modules @ [(name, m)], count))"

definition remove_weight_dtype_overrides :: "('m, 'p) parametrize_ops \<Rightarrow> (string, 'm) dict \<Rightarrow> (string, 'm) dict \<times> nat" where
  "remove_weight_dtype_overrides po modules = fold (remove_from_module po) modules ([], 0)"

section \<open>Template\<close>

definition dump_weight_names :: "('m, 'p) parametrize_ops \<Rightarrow> (string, 'm) dict \<Rightarrow> string \<Rightarrow> (string, string) dict" where
  "dump_weight_names po modules default_dtype =
     fold (\<lambda>(name, m) result.
         if is_parameter po m ''weight''
         then dset result (if name \<noteq> [] then name @ ''.weight'' else ''weight'') default_dtype
         else result) modules []"

end
