(* ===== verification/WeightsProps.thy ===== *)
theory WeightsProps
  imports Weights
begin

text \<open>
  The weights that a shortened model loads, the storage format every parameter gets, and that removing the
  formats undoes applying them.
\<close>

section \<open>Weights of fewer layers\<close>

text \<open>The name of a weight outside the layers, or of one layer.\<close>

definition weight_name :: "string list \<Rightarrow> nat option \<Rightarrow> string list \<Rightarrow> string" where
  "weight_name pre layer post =
     join ''.'' (case layer of None \<Rightarrow> pre @ post | Some n \<Rightarrow> pre @ [''layers'', decimal n] @ post)"

definition name_parts_ok :: "string list \<Rightarrow> bool" where
  "name_parts_ok ps \<longleftrightarrow> (\<forall>p \<in> set ps. CHR ''.'' \<notin> set p \<and> p \<noteq> ''layers'')"

lemma skips_no_layer: "''layers'' \<notin> set ps \<Longrightarrow> \<not> skips_layer t ps"
  by (induction t ps rule: skips_layer.induct) auto

lemma skips_other: "p \<noteq> ''layers'' \<Longrightarrow> ps \<noteq> [] \<Longrightarrow> skips_layer t (p # ps) \<longleftrightarrow> skips_layer t ps"
  by (cases ps) simp_all

lemma skips_prefix: "''layers'' \<notin> set pre \<Longrightarrow> skips_layer t (pre @ q # ps) \<longleftrightarrow> skips_layer t (q # ps)"
proof (induction pre)
  case (Cons p pre)
  then have "p \<noteq> ''layers''" "''layers'' \<notin> set pre" by auto
  then show ?case using Cons.IH skips_other [of p "pre @ q # ps" t] by simp
qed simp

lemma join_Cons: "ps \<noteq> [] \<Longrightarrow> join sep (p # ps) = p @ sep @ join sep ps"
  by (cases ps) auto

lemma sublist_layers: "sublist ''layers.'' (join ''.'' (pre @ [''layers'', q] @ post))"
proof (induction pre)
  case Nil
  show ?case by (auto simp: join_Cons intro: sublist_append_rightI)
next
  case (Cons p pre)
  then obtain xs ys where "join ''.'' (pre @ [''layers'', q] @ post) = xs @ ''layers.'' @ ys" by (auto simp: sublist_def)
  then have "join ''.'' ((p # pre) @ [''layers'', q] @ post) = (p @ ''.'' @ xs) @ ''layers.'' @ ys" by (simp add: join_Cons)
  then show ?case unfolding sublist_def by blast
qed

lemma dot_not_in_decimal: "CHR ''.'' \<notin> set (decimal n)"
  using decimal_is_digit [of "CHR ''.''" n] by (auto simp: is_digit_def)

lemma decimal_not_layers: "decimal n \<noteq> ''layers''"
  using decimal_is_digit [of "CHR ''l''" n] by (auto simp: is_digit_def)

lemma should_skip_layer:
  assumes "name_parts_ok pre" "name_parts_ok post"
  shows "should_skip t (weight_name pre layer post) \<longleftrightarrow> (case layer of None \<Rightarrow> False | Some n \<Rightarrow> t \<le> int n)"
proof (cases layer)
  case None
  have nl: "''layers'' \<notin> set (pre @ post)" using assms by (auto simp: name_parts_ok_def)
  have "\<not> skips_layer t (split_at (CHR ''.'') (join ''.'' (pre @ post)))"
  proof (cases "pre @ post = []")
    case False
    have "split_at (CHR ''.'') (join ''.'' (pre @ post)) = pre @ post"
      using assms False by (intro split_join) (auto simp: name_parts_ok_def)
    then show ?thesis using nl skips_no_layer by metis
  qed simp
  then show ?thesis using None by (simp add: should_skip_def weight_name_def)
next
  case (Some n)
  let ?parts = "pre @ [''layers'', decimal n] @ post"
  have "split_at (CHR ''.'') (join ''.'' ?parts) = ?parts"
    using assms dot_not_in_decimal by (intro split_join) (auto simp: name_parts_ok_def)
  moreover have "''layers'' \<notin> set pre" "''layers'' \<notin> set (decimal n # post)"
    using assms decimal_not_layers [of n] by (auto simp: name_parts_ok_def)
  ultimately show ?thesis
    using Some skips_no_layer [of "decimal n # post" t] sublist_layers
    by (simp add: should_skip_def weight_name_def skips_prefix py_int_decimal)
qed

text \<open>C37. A model whose number of layers is reduced to \<open>t\<close> loads, in their order, exactly the weights outside the
  layers and those of the layers below \<open>t\<close>.\<close>

theorem shortened_model_loads_its_layers:
  assumes "\<forall>(pre, layer, post, w) \<in> set items. name_parts_ok pre \<and> name_parts_ok post"
  shows "filter_weights (Some n) (Some t) (map (\<lambda>(pre, layer, post, w). (weight_name pre layer post, w)) items)
    = map (\<lambda>(pre, layer, post, w). (weight_name pre layer post, w))
        (filter (\<lambda>(pre, layer, post, w). case layer of None \<Rightarrow> True | Some k \<Rightarrow> int k < t) items)"
  using assms
proof (induction items)
  case (Cons i items)
  obtain pre layer post w where i: "i = (pre, layer, post, w)" by (cases i)
  then show ?case using Cons should_skip_layer [of pre post t layer] by (auto simp: filter_weights_def split: option.splits)
qed (simp add: filter_weights_def)

theorem shortened_model_loads_its_layers_witness:
  "filter_weights (Some 32) (Some 2)
      [(weight_name [''model'', ''embed''] None [''weight''], 0), (weight_name [''model''] (Some 1) [''mlp'', ''weight''], 1),
       (weight_name [''model''] (Some 12) [''mlp'', ''weight''], 2 :: nat)]
    = [(weight_name [''model'', ''embed''] None [''weight''], 0), (weight_name [''model''] (Some 1) [''mlp'', ''weight''], 1)]"
  using shortened_model_loads_its_layers [of "[([''model'', ''embed''], None, [''weight''], 0 :: nat),
      ([''model''], Some 1, [''mlp'', ''weight''], 1), ([''model''], Some 12, [''mlp'', ''weight''], 2)]" 32 2]
  by (simp add: name_parts_ok_def)

section \<open>The format of a parameter\<close>

text \<open>The last pattern that matches; without one, the default for a weight.\<close>

definition format_of :: "(string, string) dict \<Rightarrow> string \<Rightarrow> string option" where
  "format_of overrides name =
     (case filter (\<lambda>(pattern, _). pattern \<noteq> ''default'' \<and> fnmatch name pattern) overrides of
        [] \<Rightarrow> (if ends_with name ''.weight'' then dget overrides ''default'' else None)
      | m # ms \<Rightarrow> Some (snd (last (m # ms))))"

lemma dget_fold_dset_if:
  "dget (fold (\<lambda>name d. if c name then dset d name v else d) names d) n = (if n \<in> set names \<and> c n then Some v else dget d n)"
  by (induction names arbitrary: d) auto

lemma dget_resolve_default:
  "dget (resolve_default names fallback) n = (if n \<in> set names \<and> ends_with n ''.weight'' then fallback else None)"
  by (cases fallback) (simp_all add: resolve_default_def dget_fold_dset_if)

lemma fold_matches:
  "fold (\<lambda>name (d, m). if c name then (dset d name v, True) else (d, m)) names (d, m)
    = (fold (\<lambda>name d. if c name then dset d name v else d) names d, m \<or> (\<exists>n \<in> set names. c n))"
  by (induction names arbitrary: d m) auto

lemma apply_pattern_value:
  "apply_pattern names (pattern, dtype) (d, u) =
    (fold (\<lambda>name d. if fnmatch name pattern then dset d name dtype else d) names d,
     if \<exists>n \<in> set names. fnmatch n pattern then u else u @ [pattern])"
  unfolding apply_pattern_def by (simp add: fold_matches)

lemma fold_patterns:
  "dget (fst (fold (apply_pattern names) ps (d, u))) n =
      (if n \<in> set names then (case filter (\<lambda>(pattern, _). fnmatch n pattern) ps of [] \<Rightarrow> dget d n | m # ms \<Rightarrow> Some (snd (last (m # ms)))) else dget d n)"
  "snd (fold (apply_pattern names) ps (d, u)) = u @ filter (\<lambda>pattern. \<not> (\<exists>n \<in> set names. fnmatch n pattern)) (map fst ps)"
proof (induction ps arbitrary: d u)
  case (Cons pd ps)
  obtain pattern dtype where pd: "pd = (pattern, dtype)" by (cases pd)
  { case 1
    show ?case using Cons.IH(1) by (auto simp: pd apply_pattern_value dget_fold_dset_if split: list.splits) }
  { case 2
    show ?case using Cons.IH(2) by (auto simp: pd apply_pattern_value) }
qed auto

lemma formats_of_names:
  "let (resolved, unmatched) = resolve_overrides names overrides
   in (\<forall>n. dget resolved n = (if n \<in> set names then format_of overrides n else None))
     \<and> unmatched = filter (\<lambda>pattern. pattern \<noteq> ''default'' \<and> \<not> (\<exists>n \<in> set names. fnmatch n pattern)) (map fst overrides)"
proof -
  let ?ps = "dpop overrides ''default''" and ?d = "resolve_default names (dget overrides ''default'')"
  have ps: "filter (\<lambda>(pattern, _). fnmatch n pattern) ?ps = filter (\<lambda>(pattern, _). pattern \<noteq> ''default'' \<and> fnmatch n pattern) overrides" for n
    by (induction overrides) auto
  have "dget (fst (fold (apply_pattern names) ?ps (?d, []))) n = (if n \<in> set names then format_of overrides n else None)" for n
    unfolding fold_patterns(1) ps dget_resolve_default format_of_def by (auto split: list.splits)
  moreover have "filter c (map fst ?ps) = filter (\<lambda>p. p \<noteq> ''default'' \<and> c p) (map fst overrides)" for c
    by (induction overrides) auto
  ultimately show ?thesis by (simp add: resolve_overrides_def fold_patterns(2) split_def)
qed

text \<open>C38. Every parameter gets the format of the last pattern of the configuration that matches its name; a weight that
  no pattern matches gets the default, if there is one. The patterns warned of are those without a match.\<close>

theorem formats_follow_last_match:
  "let (resolved, unmatched) = resolve_overrides names overrides
   in (\<forall>n. dget resolved n = (if n \<in> set names then format_of overrides n else None))
     \<and> unmatched = filter (\<lambda>pattern. pattern \<noteq> ''default'' \<and> \<not> (\<exists>n \<in> set names. fnmatch n pattern)) (map fst overrides)"
  by (rule formats_of_names)

section \<open>Registration\<close>

text \<open>What is relied on of torch: a parametrized tensor is a parameter that is no attribute of its own any more.\<close>

definition parametrize_ok :: "('m, 'p) parametrize_ops \<Rightarrow> bool" where
  "parametrize_ok po \<longleftrightarrow>
     (\<forall>m n. is_parameter po m n \<longrightarrow> param_list po m n = []) \<and>
     (\<forall>m n x n'. is_parameter po m n \<longrightarrow>
        param_list po (register_parametrization po m n x) n' = (if n' = n then [x] else param_list po m n') \<and>
        is_parameter po (register_parametrization po m n x) n' = (n' \<noteq> n \<and> is_parameter po m n')) \<and>
     (\<forall>m. distinct (parametrized_names po m) \<and> (\<forall>n. n \<in> set (parametrized_names po m) \<longleftrightarrow> param_list po m n \<noteq> [])) \<and>
     (\<forall>m n n'. param_list po m n \<noteq> [] \<longrightarrow>
        param_list po (remove_parametrizations po m n) n' = (if n' = n then [] else param_list po m n') \<and>
        is_parameter po (remove_parametrizations po m n) n' = (n' = n \<or> is_parameter po m n')) \<and>
     (\<forall>m n i n'. i < length (param_list po m n) \<and> length (param_list po m n) > 1 \<longrightarrow>
        param_list po (delete_parametrization po m n i) n'
          = (if n' = n then take i (param_list po m n) @ drop (Suc i) (param_list po m n) else param_list po m n') \<and>
        is_parameter po (delete_parametrization po m n i) n' = is_parameter po m n')"

lemma parametrize_okD:
  assumes "parametrize_ok po"
  shows "\<And>m n. is_parameter po m n \<Longrightarrow> param_list po m n = []"
    and "\<And>m n x n'. is_parameter po m n \<Longrightarrow>
      param_list po (register_parametrization po m n x) n' = (if n' = n then [x] else param_list po m n')"
    and "\<And>m n x n'. is_parameter po m n \<Longrightarrow>
      is_parameter po (register_parametrization po m n x) n' \<longleftrightarrow> n' \<noteq> n \<and> is_parameter po m n'"
    and "\<And>m. distinct (parametrized_names po m)"
    and "\<And>m n. n \<in> set (parametrized_names po m) \<longleftrightarrow> param_list po m n \<noteq> []"
    and "\<And>m n n'. param_list po m n \<noteq> [] \<Longrightarrow>
      param_list po (remove_parametrizations po m n) n' = (if n' = n then [] else param_list po m n')"
    and "\<And>m n n'. param_list po m n \<noteq> [] \<Longrightarrow>
      is_parameter po (remove_parametrizations po m n) n' \<longleftrightarrow> n' = n \<or> is_parameter po m n'"
    and "\<And>m n i n'. i < length (param_list po m n) \<Longrightarrow> length (param_list po m n) > 1 \<Longrightarrow>
      param_list po (delete_parametrization po m n i) n'
        = (if n' = n then take i (param_list po m n) @ drop (Suc i) (param_list po m n) else param_list po m n')"
    and "\<And>m n i n'. i < length (param_list po m n) \<Longrightarrow> length (param_list po m n) > 1 \<Longrightarrow>
      is_parameter po (delete_parametrization po m n i) n' \<longleftrightarrow> is_parameter po m n'"
  using assms unfolding parametrize_ok_def by metis+

definition parameter_path :: "string \<Rightarrow> string \<Rightarrow> string" where
  "parameter_path module_path param_name = module_path @ CHR ''.'' # param_name"

text \<open>The entry for a parameter of a module; the names of parameters have no dot.\<close>

definition entry_for :: "(string, string) dict \<Rightarrow> string \<Rightarrow> string \<Rightarrow> string option" where
  "entry_for d module_path param_name =
     (if CHR ''.'' \<in> set param_name then None else dget d (parameter_path module_path param_name))"

lemma dotted_path:
  assumes "CHR ''.'' \<in> set path"
  obtains module_path param_name where "path = parameter_path module_path param_name" "CHR ''.'' \<notin> set param_name"
    "rsplit1 (CHR ''.'') path = [module_path, param_name]"
proof -
  obtain a b where ab: "path = a @ CHR ''.'' # b" "CHR ''.'' \<notin> set b" using split_list_last [OF assms] by blast
  then show thesis using that [of a b] rsplit1_last [of "CHR ''.''" b a] by (simp add: parameter_path_def)
qed

lemma path_eq: "CHR ''.'' \<notin> set p \<Longrightarrow> CHR ''.'' \<notin> set p' \<Longrightarrow> parameter_path m p = parameter_path m' p' \<longleftrightarrow> m = m' \<and> p = p'"
  using rsplit1_last [of "CHR ''.''"] unfolding parameter_path_def by (metis list.inject)

lemma register_root:
  assumes "CHR ''.'' \<notin> set path"
  shows "register_one po st (path, d) = Inl ValueError"
  using assms by (cases st) (simp add: register_one_def rsplit1_def)

lemma register_one_errors: "register_one po st e = Inl err \<Longrightarrow> err = ValueError"
  by (cases st; cases e) (auto simp: register_one_def split: list.splits option.splits if_splits)

lemma root_entry_raises: "(path, d) \<in> set es \<Longrightarrow> CHR ''.'' \<notin> set path \<Longrightarrow> rfold (register_one po) st es = Inl ValueError"
proof (induction es arbitrary: st)
  case (Cons e es)
  show ?case
  proof (cases "register_one po st e")
    case (Inl err)
    then show ?thesis using register_one_errors [OF Inl] by simp
  next
    case (Inr st')
    then have "(path, d) \<in> set es" using Cons.prems(1) register_root [OF Cons.prems(2), of po st d] by (cases "e = (path, d)") auto
    then show ?thesis using Inr Cons.IH Cons.prems(2) by simp
  qed
qed simp

lemma dset_same_keys: "dget d k = Some v \<Longrightarrow> dkeys (dset d k v') = dkeys d"
  by (induction d) auto

text \<open>The modules after registering some entries: every parameter of an entry carries it, all else is as before.\<close>

definition carries :: "('m, 'p) parametrize_ops \<Rightarrow> (string, string) dict \<Rightarrow> string \<Rightarrow> 'm \<Rightarrow> 'm \<Rightarrow> bool" where
  "carries po es module_path m m' \<longleftrightarrow>
     (\<forall>p. (is_parameter po m' p \<longleftrightarrow> is_parameter po m p \<and> entry_for es module_path p = None)
        \<and> param_list po m' p = param_list po m p
            @ (case entry_for es module_path p of Some d \<Rightarrow> if is_parameter po m p then [WeightDtypeParametrization d] else [] | None \<Rightarrow> []))"

definition taken :: "('m, 'p) parametrize_ops \<Rightarrow> (string, 'm) dict \<Rightarrow> string \<Rightarrow> bool" where
  "taken po modules path \<longleftrightarrow>
     (case rsplit1 (CHR ''.'') path of
        [mp, p] \<Rightarrow> (case dget modules mp of Some m \<Rightarrow> is_parameter po m p | None \<Rightarrow> False)
      | _ \<Rightarrow> False)"

lemma entry_for_Cons:
  assumes "path = parameter_path mp p" "CHR ''.'' \<notin> set p"
  shows "entry_for ((path, d) # es) mp' p' = (if mp' = mp \<and> p' = p then Some d else entry_for es mp' p')"
  using path_eq [of p p' mp mp'] assms unfolding entry_for_def by auto

lemma carries_Nil: "carries po [] mp m m"
  by (simp add: carries_def entry_for_def)

lemma carries_more:
  assumes "carries po es mp m1 m2"
    and m1: "\<And>p'. param_list po m1 p' = (if p' = p then [WeightDtypeParametrization d] else param_list po m p')"
      "\<And>p'. is_parameter po m1 p' \<longleftrightarrow> p' \<noteq> p \<and> is_parameter po m p'" "param_list po m p = []"
    and new: "is_parameter po m p" "entry_for es mp p = None" "path = parameter_path mp p" "CHR ''.'' \<notin> set p"
  shows "carries po ((path, d) # es) mp m m2"
  unfolding carries_def entry_for_Cons [OF new(3,4)]
proof (intro allI)
  fix p'
  have "is_parameter po m2 p' \<longleftrightarrow> is_parameter po m1 p' \<and> entry_for es mp p' = None"
    "param_list po m2 p' = param_list po m1 p'
      @ (case entry_for es mp p' of Some d \<Rightarrow> if is_parameter po m1 p' then [WeightDtypeParametrization d] else [] | None \<Rightarrow> [])"
    using assms(1) unfolding carries_def by blast+
  then show "(is_parameter po m2 p' \<longleftrightarrow> is_parameter po m p' \<and> (if mp = mp \<and> p' = p then Some d else entry_for es mp p') = None)
      \<and> param_list po m2 p' = param_list po m p'
          @ (case if mp = mp \<and> p' = p then Some d else entry_for es mp p' of
               Some d \<Rightarrow> if is_parameter po m p' then [WeightDtypeParametrization d] else [] | None \<Rightarrow> [])"
    using m1 new(1,2) by (cases "p' = p") (simp_all split: option.splits)
qed

lemma registered:
  assumes ok: "parametrize_ok po" and es: "distinct (map fst es)" "\<forall>path \<in> set (map fst es). CHR ''.'' \<in> set path"
  shows "\<exists>modules'. rfold (register_one po) (modules, applied) es = Inr (modules', applied @ filter (\<lambda>(path, _). taken po modules path) es)
    \<and> dkeys modules' = dkeys modules
    \<and> (\<forall>mp m. dget modules mp = Some m \<longrightarrow> (\<exists>m'. dget modules' mp = Some m' \<and> carries po es mp m m'))"
  using es
proof (induction es arbitrary: modules applied)
  case Nil
  then show ?case by (auto intro: carries_Nil)
next
  case (Cons e es)
  obtain path d where e: "e = (path, d)" by (cases e)
  have "CHR ''.'' \<in> set path" using Cons.prems(2) by (simp add: e)
  then obtain mp p where path: "path = parameter_path mp p" "CHR ''.'' \<notin> set p" "rsplit1 (CHR ''.'') path = [mp, p]"
    by (rule dotted_path)
  have rest: "distinct (map fst es)" "\<forall>path \<in> set (map fst es). CHR ''.'' \<in> set path" "path \<notin> set (map fst es)"
    using Cons.prems by (auto simp: e)
  have fresh: "entry_for es mp p = None"
    using rest(3) path(1) unfolding entry_for_def dget_None_iff by (auto simp: dget_None_iff)
  show ?case
  proof (cases "taken po modules path")
    case False
    then have step: "register_one po (modules, applied) e = Inr (modules, applied)"
      by (auto simp: register_one_def e path(3) taken_def split: option.splits)
    obtain modules' where m': "rfold (register_one po) (modules, applied) es = Inr (modules', applied @ filter (\<lambda>(path, _). taken po modules path) es)"
      "dkeys modules' = dkeys modules"
      "\<forall>mp m. dget modules mp = Some m \<longrightarrow> (\<exists>m'. dget modules' mp = Some m' \<and> carries po es mp m m')"
      using Cons.IH [OF rest(1,2)] by blast
    have "carries po (e # es) mp' m m'" if c: "carries po es mp' m m'" "dget modules mp' = Some m" for mp' m m'
    proof -
      have "\<not> is_parameter po m p" if "mp' = mp" using False c(2) that by (simp add: taken_def path(3))
      then show ?thesis using c(1) fresh unfolding carries_def e entry_for_Cons [OF path(1,2)] by auto
    qed
    then show ?thesis using m' step False by (intro exI [of _ modules']) (auto simp: e, blast)
  next
    case True
    then obtain m where m: "dget modules mp = Some m" "is_parameter po m p" by (auto simp: taken_def path(3) split: option.splits)
    define m1 where "m1 = register_parametrization po m p (WeightDtypeParametrization d)"
    let ?modules = "dset modules mp m1"
    have step: "register_one po (modules, applied) e = Inr (?modules, applied @ [e])"
      using m by (simp add: register_one_def e path(3) m1_def)
    have m1: "param_list po m1 p' = (if p' = p then [WeightDtypeParametrization d] else param_list po m p')"
      "is_parameter po m1 p' \<longleftrightarrow> p' \<noteq> p \<and> is_parameter po m p'" "param_list po m p = []" for p'
      using parametrize_okD [OF ok] m(2) by (simp_all add: m1_def)
    have same: "taken po ?modules path' = taken po modules path'" if path': "path' \<in> set (map fst es)" for path'
    proof -
      have "CHR ''.'' \<in> set path'" using rest(2) path' by blast
      then obtain mp' p' where "path' = parameter_path mp' p'" "CHR ''.'' \<notin> set p'" "rsplit1 (CHR ''.'') path' = [mp', p']"
        by (rule dotted_path)
      then show ?thesis using rest(3) path' path(1) m m1(2) by (auto simp: taken_def)
    qed
    have kept: "filter (\<lambda>(path, _). taken po ?modules path) es = filter (\<lambda>(path, _). taken po modules path) es"
      by (rule filter_cong [OF refl], unfold split_def, rule same) simp
    obtain modules' where m': "rfold (register_one po) (?modules, applied @ [e]) es
        = Inr (modules', (applied @ [e]) @ filter (\<lambda>(path, _). taken po ?modules path) es)"
      "dkeys modules' = dkeys ?modules"
      "\<forall>mp m. dget ?modules mp = Some m \<longrightarrow> (\<exists>m'. dget modules' mp = Some m' \<and> carries po es mp m m')"
      using Cons.IH [OF rest(1,2)] by blast
    have "dkeys ?modules = dkeys modules" using m(1) by (metis dset_same_keys)
    moreover have "\<exists>m'. dget modules' mp' = Some m' \<and> carries po (e # es) mp' m0 m'" if mp': "dget modules mp' = Some m0" for mp' m0
    proof (cases "mp' = mp")
      case True
      then obtain m2 where m2: "dget modules' mp' = Some m2" "carries po es mp m1 m2" using m'(3) [rule_format, of mp m1] by auto
      have "carries po (e # es) mp m m2" using carries_more [OF m2(2) m1 m(2) fresh path(1,2)] by (simp add: e)
      then show ?thesis using True mp' m(1) m2(1) by auto
    next
      case False
      then obtain m2 where "dget modules' mp' = Some m2" "carries po es mp' m0 m2" using m'(3) [rule_format, of mp' m0] mp' by auto
      then show ?thesis using False unfolding carries_def e entry_for_Cons [OF path(1,2)] by auto
    qed
    ultimately show ?thesis using m'(1,2) step kept True by (intro exI [of _ modules']) (auto simp: e)
  qed
qed

lemma resolved_distinct: "distinct (dkeys (fst (resolve_overrides names overrides)))"
proof -
  have one: "distinct (dkeys d) \<Longrightarrow> distinct (dkeys (fold (\<lambda>name d. if c name then dset d name v else d) ns d))" for c v d and ns :: "string list"
    by (induction ns arbitrary: d) (auto simp: distinct_update)
  have "distinct (dkeys d) \<Longrightarrow> distinct (dkeys (fst (fold (apply_pattern names) ps (d, u))))" for ps d u
  proof (induction ps arbitrary: d u)
    case (Cons p ps)
    obtain a b where p: "p = (a, b)" by (cases p)
    have "distinct (dkeys (fst (fold (apply_pattern names) ps (fold (\<lambda>name d. if fnmatch name a then dset d name b else d) names d, u'))))" for u'
      by (intro Cons.IH one Cons.prems)
    then show ?case by (simp add: p apply_pattern_value)
  qed simp
  moreover have "distinct (dkeys (resolve_default names f))" for f
    using one [of "[]"] by (cases f) (simp_all add: resolve_default_def)
  ultimately show ?thesis by (simp add: resolve_overrides_def)
qed

lemma resolved_format:
  "dget (fst (resolve_overrides names overrides)) n = (if n \<in> set names then format_of overrides n else None)"
proof -
  have "(\<forall>n. dget (fst (resolve_overrides names overrides)) n = (if n \<in> set names then format_of overrides n else None))"
    using formats_of_names [of names overrides] by (simp add: Let_def split_def)
  then show ?thesis by blast
qed

text \<open>The parameters of the modules have the names that torch gives them.\<close>

definition names_ok :: "('m, 'p) parametrize_ops \<Rightarrow> (string, 'm) dict \<Rightarrow> string list \<Rightarrow> bool" where
  "names_ok po modules names \<longleftrightarrow>
     distinct (dkeys modules) \<and>
     (\<forall>n \<in> set names. \<exists>mp p m. n = parameter_path mp p \<and> CHR ''.'' \<notin> set p \<and> dget modules mp = Some m \<and> is_parameter po m p)"

text \<open>C19. Applying a configuration gives every parameter exactly the parametrization of its format and leaves the
  parameters without a format alone; the result lists the parameters with their formats.\<close>

theorem overrides_give_formats:
  assumes ok: "parametrize_ok po" and names: "names_ok po modules names" and "load_config is_file read_json config = Inr overrides"
  shows "\<exists>modules' applied. apply_weight_dtype_overrides po is_file read_json names modules config = Inr (modules', applied)
    \<and> distinct (map fst applied) \<and> (\<forall>n d. (n, d) \<in> set applied \<longleftrightarrow> n \<in> set names \<and> format_of overrides n = Some d)
    \<and> dkeys modules' = dkeys modules
    \<and> (\<forall>mp m p. dget modules mp = Some m \<and> parameter_path mp p \<in> set names \<and> CHR ''.'' \<notin> set p \<longrightarrow>
         (\<exists>m'. dget modules' mp = Some m'
           \<and> param_list po m' p = (case format_of overrides (parameter_path mp p) of Some d \<Rightarrow> [WeightDtypeParametrization d] | None \<Rightarrow> [])
           \<and> (is_parameter po m' p \<longleftrightarrow> format_of overrides (parameter_path mp p) = None)))"
proof -
  define es where "es = fst (resolve_overrides names overrides)"
  have d: "distinct (map fst es)" unfolding es_def by (rule resolved_distinct)
  have get: "dget es n = (if n \<in> set names then format_of overrides n else None)" for n unfolding es_def by (rule resolved_format)
  have member: "(n, f) \<in> set es \<longleftrightarrow> n \<in> set names \<and> format_of overrides n = Some f" for n f
    using map_of_eq_Some_iff [OF d, of n f] get [of n] by (cases "n \<in> set names") auto
  have good: "CHR ''.'' \<in> set n \<and> taken po modules n" if n: "n \<in> set names" for n
  proof -
    obtain mp p m where "n = parameter_path mp p" "CHR ''.'' \<notin> set p" "dget modules mp = Some m" "is_parameter po m p"
      using names n unfolding names_ok_def by blast
    then show ?thesis using rsplit1_last [of "CHR ''.''" p mp] by (simp add: taken_def parameter_path_def)
  qed
  have dots: "\<forall>path \<in> set (map fst es). CHR ''.'' \<in> set path" using member good by fastforce
  have "filter (\<lambda>(path, _). taken po modules path) es = es"
    using member good by (auto simp: filter_id_conv)
  then obtain modules' where R: "rfold (register_one po) (modules, []) es = Inr (modules', es)" "dkeys modules' = dkeys modules"
    "\<forall>mp m. dget modules mp = Some m \<longrightarrow> (\<exists>m'. dget modules' mp = Some m' \<and> carries po es mp m m')"
    using registered [OF ok d dots, of modules "[]"] by auto
  have run: "apply_weight_dtype_overrides po is_file read_json names modules config = Inr (modules', es)"
    using assms(3) R(1) by (simp add: apply_weight_dtype_overrides_def es_def split_def)
  have "\<exists>m'. dget modules' mp = Some m'
           \<and> param_list po m' p = (case format_of overrides (parameter_path mp p) of Some d \<Rightarrow> [WeightDtypeParametrization d] | None \<Rightarrow> [])
           \<and> (is_parameter po m' p \<longleftrightarrow> format_of overrides (parameter_path mp p) = None)"
    if h: "dget modules mp = Some m" "parameter_path mp p \<in> set names" "CHR ''.'' \<notin> set p" for mp m p
  proof -
    have "taken po modules (parameter_path mp p)" using good [OF h(2)] by blast
    then have ip: "is_parameter po m p" using h rsplit1_last [OF h(3), of mp] by (simp add: taken_def parameter_path_def)
    obtain m' where m': "dget modules' mp = Some m'" "carries po es mp m m'" using R(3) h(1) by blast
    have "entry_for es mp p = format_of overrides (parameter_path mp p)" using h by (simp add: entry_for_def get)
    then show ?thesis using m' ip parametrize_okD(1) [OF ok ip] unfolding carries_def by (auto split: option.splits)
  qed
  then show ?thesis using run d member R(2) by (intro exI [of _ modules'] exI [of _ es]) blast
qed

section \<open>Removal\<close>

abbreviation others :: "'p parametrization list \<Rightarrow> 'p parametrization list" where
  "others \<equiv> filter (\<lambda>p. \<not> is_override p)"

lemma delete_overrides:
  assumes ok: "parametrize_ok po"
  shows "param_list po m n = ys @ xs \<Longrightarrow> others (ys @ xs) \<noteq> [] \<Longrightarrow>
     (let m' = fold (\<lambda>i m. delete_parametrization po m n i) (rev (map fst (filter (\<lambda>(_, p). is_override p) (enumerate (length ys) xs)))) m
      in (\<forall>n'. param_list po m' n' = (if n' = n then ys @ others xs else param_list po m n'))
        \<and> (\<forall>n'. is_parameter po m' n' \<longleftrightarrow> is_parameter po m n'))"
proof (induction xs arbitrary: ys)
  case (Cons x xs)
  define m1 where "m1 = fold (\<lambda>i m. delete_parametrization po m n i)
      (rev (map fst (filter (\<lambda>(_, p). is_override p) (enumerate (length (ys @ [x])) xs)))) m"
  have m1: "param_list po m1 n' = (if n' = n then (ys @ [x]) @ others xs else param_list po m n')"
    "is_parameter po m1 n' \<longleftrightarrow> is_parameter po m n'" for n'
    using Cons.IH [of "ys @ [x]"] Cons.prems by (simp_all add: m1_def Let_def)
  show ?case
  proof (cases "is_override x")
    case False
    then show ?thesis using m1 by (simp add: m1_def Let_def)
  next
    case True
    have "length (param_list po m1 n) > 1"
      using m1(1) [of n] Cons.prems(2) True by (cases ys; cases "others xs") auto
    then have "param_list po (delete_parametrization po m1 n (length ys)) n' = (if n' = n then ys @ others xs else param_list po m n')"
      "is_parameter po (delete_parametrization po m1 n (length ys)) n' \<longleftrightarrow> is_parameter po m n'" for n'
      using parametrize_okD(8,9) [OF ok, of "length ys" m1 n n'] m1 by simp_all
    then show ?thesis using True by (simp add: m1_def Let_def)
  qed
qed simp

definition all_overrides :: "'p parametrization list \<Rightarrow> bool" where
  "all_overrides ps \<longleftrightarrow> ps \<noteq> [] \<and> (\<forall>p \<in> set ps. is_override p)"

lemma number_overrides: "length (filter (\<lambda>(_, p). is_override p) (enumerate k ps)) = length (filter is_override ps)"
  by (induction ps arbitrary: k) auto

lemma removed_from_param:
  assumes ok: "parametrize_ok po" and r: "remove_from_param po n (m, c) = (m', c')"
  shows "param_list po m' n' = (if n' = n then others (param_list po m n) else param_list po m n')"
    and "is_parameter po m' n' \<longleftrightarrow> is_parameter po m n' \<or> (n' = n \<and> all_overrides (param_list po m n))"
    and "c' = c + length (filter is_override (param_list po m n))"
proof -
  let ?ps = "param_list po m n" and ?is = "map fst (filter (\<lambda>(_, p). is_override p) (enumerate 0 (param_list po m n)))"
  have len: "length ?is = length (filter is_override ?ps)" by (simp add: number_overrides)
  consider (none) "?is = []" | (all) "?is \<noteq> []" "length ?is = length ?ps" | (some) "?is \<noteq> []" "length ?is \<noteq> length ?ps" by blast
  then have "(\<forall>n'. param_list po m' n' = (if n' = n then others ?ps else param_list po m n'))
      \<and> (\<forall>n'. is_parameter po m' n' \<longleftrightarrow> is_parameter po m n' \<or> (n' = n \<and> all_overrides ?ps))
      \<and> c' = c + length (filter is_override ?ps)"
  proof cases
    case none
    then have e: "filter is_override ?ps = []" using len by simp
    then have "others ?ps = ?ps" "\<not> all_overrides ?ps" by (auto simp: filter_id_conv filter_empty_conv all_overrides_def)
    then show ?thesis using r none e by (simp add: remove_from_param_def Let_def)
  next
    case all
    then have a: "\<forall>p \<in> set ?ps. is_override p" using len by (metis length_filter_less less_irrefl)
    then have o: "others ?ps = []" "all_overrides ?ps" and ne: "?ps \<noteq> []" using all by (auto simp: filter_empty_conv all_overrides_def)
    have "m' = remove_parametrizations po m n" "c' = c + length (filter is_override ?ps)"
      using r all len by (auto simp: remove_from_param_def Let_def)
    then show ?thesis using o parametrize_okD(6,7) [OF ok ne] by auto
  next
    case some
    then have o: "others ?ps \<noteq> []" using len by (metis (mono_tags, lifting) filter_True filter_empty_conv)
    then have "\<not> all_overrides ?ps" by (auto simp: all_overrides_def filter_empty_conv)
    then show ?thesis using r some len o delete_overrides [OF ok, of m n "[]" ?ps] by (auto simp: remove_from_param_def Let_def)
  qed
  then show "param_list po m' n' = (if n' = n then others (param_list po m n) else param_list po m n')"
    "is_parameter po m' n' \<longleftrightarrow> is_parameter po m n' \<or> (n' = n \<and> all_overrides (param_list po m n))"
    "c' = c + length (filter is_override (param_list po m n))" by blast+
qed

lemma removed_from_params:
  assumes ok: "parametrize_ok po"
  shows "distinct ns \<Longrightarrow> fold (remove_from_param po) ns (m, c) = (m', c') \<Longrightarrow>
    (\<forall>n. param_list po m' n = (if n \<in> set ns then others (param_list po m n) else param_list po m n))
    \<and> (\<forall>n. is_parameter po m' n \<longleftrightarrow> is_parameter po m n \<or> (n \<in> set ns \<and> all_overrides (param_list po m n)))
    \<and> c' = c + (\<Sum>n \<leftarrow> ns. length (filter is_override (param_list po m n)))"
proof (induction ns arbitrary: m c)
  case (Cons k ns)
  obtain m1 c1 where k: "remove_from_param po k (m, c) = (m1, c1)" by (cases "remove_from_param po k (m, c)")
  note one = removed_from_param [OF ok k]
  have "(\<Sum>n \<leftarrow> ns. length (filter is_override (param_list po m1 n))) = (\<Sum>n \<leftarrow> ns. length (filter is_override (param_list po m n)))"
    using Cons.prems(1) one(1) by (intro arg_cong [where f = sum_list] map_cong) auto
  moreover have "(\<forall>n. param_list po m' n = (if n \<in> set ns then others (param_list po m1 n) else param_list po m1 n))
    \<and> (\<forall>n. is_parameter po m' n \<longleftrightarrow> is_parameter po m1 n \<or> (n \<in> set ns \<and> all_overrides (param_list po m1 n)))
    \<and> c' = c1 + (\<Sum>n \<leftarrow> ns. length (filter is_override (param_list po m1 n)))"
    using Cons.prems k by (intro Cons.IH) auto
  ultimately show ?case using one Cons.prems(1) by auto
qed simp

text \<open>A module without its overrides.\<close>

definition cleaned :: "('m, 'p) parametrize_ops \<Rightarrow> 'm \<Rightarrow> 'm \<Rightarrow> bool" where
  "cleaned po m m' \<longleftrightarrow>
     (\<forall>n. param_list po m' n = others (param_list po m n)
        \<and> (is_parameter po m' n \<longleftrightarrow> is_parameter po m n \<or> all_overrides (param_list po m n)))"

definition override_count :: "('m, 'p) parametrize_ops \<Rightarrow> 'm \<Rightarrow> nat" where
  "override_count po m = (\<Sum>n \<leftarrow> parametrized_names po m. length (filter is_override (param_list po m n)))"

lemma cleaned_module:
  assumes ok: "parametrize_ok po" and r: "fold (remove_from_param po) (parametrized_names po m) (m, c) = (m', c')"
  shows "cleaned po m m' \<and> c' = c + override_count po m"
  using removed_from_params [OF ok parametrize_okD(4) [OF ok] r] parametrize_okD(5) [OF ok, of _ m]
  by (auto simp: cleaned_def override_count_def all_overrides_def)

lemma cleaned_modules:
  assumes ok: "parametrize_ok po"
  shows "fold (remove_from_module po) modules (acc, c) = (modules', c') \<Longrightarrow>
    (\<exists>ms. modules' = acc @ zip (dkeys modules) ms \<and> list_all2 (\<lambda>(_, m) m'. cleaned po m m') modules ms)
    \<and> c' = c + (\<Sum>(_, m) \<leftarrow> modules. override_count po m)"
proof (induction modules arbitrary: acc c)
  case (Cons km modules)
  obtain k m where km: "km = (k, m)" by (cases km)
  obtain m1 c1 where m1: "fold (remove_from_param po) (parametrized_names po m) (m, c) = (m1, c1)"
    by (cases "fold (remove_from_param po) (parametrized_names po m) (m, c)")
  have "fold (remove_from_module po) modules (acc @ [(k, m1)], c1) = (modules', c')"
    using Cons.prems m1 by (simp add: km remove_from_module_def)
  from Cons.IH [OF this] obtain ms where "modules' = (acc @ [(k, m1)]) @ zip (dkeys modules) ms"
    "list_all2 (\<lambda>(_, m) m'. cleaned po m m') modules ms" "c' = c1 + (\<Sum>(_, m) \<leftarrow> modules. override_count po m)" by blast
  then show ?case using cleaned_module [OF ok m1] by (intro conjI exI [of _ "m1 # ms"]) (auto simp: km)
qed auto

text \<open>Removing the overrides takes exactly the overrides from the list of every parameter, keeps the other parametrizations in
  their order, gives a parameter that had nothing else back as a parameter, and counts what it took.\<close>

theorem removal_takes_exactly_overrides:
  assumes "parametrize_ok po" "remove_weight_dtype_overrides po modules = (modules', count)"
  shows "dkeys modules' = dkeys modules
    \<and> (\<forall>i < length modules. \<forall>n.
         param_list po (snd (modules' ! i)) n = filter (\<lambda>p. \<not> is_override p) (param_list po (snd (modules ! i)) n)
       \<and> (is_parameter po (snd (modules' ! i)) n \<longleftrightarrow>
            is_parameter po (snd (modules ! i)) n \<or> all_overrides (param_list po (snd (modules ! i)) n)))
    \<and> count = (\<Sum>(_, m) \<leftarrow> modules. override_count po m)"
proof -
  obtain ms where ms: "modules' = zip (dkeys modules) ms" "list_all2 (\<lambda>(_, m) m'. cleaned po m m') modules ms"
    "count = (\<Sum>(_, m) \<leftarrow> modules. override_count po m)"
    using cleaned_modules [OF assms(1), of modules "[]" 0 modules' count] assms(2)
    by (auto simp: remove_weight_dtype_overrides_def)
  have len: "length ms = length modules" using ms(2) by (simp add: list_all2_lengthD)
  have "cleaned po (snd (modules ! i)) (snd (modules' ! i))" if "i < length modules" for i
    using list_all2_nthD [OF ms(2) that] that len by (simp add: ms(1) split_def)
  then show ?thesis using ms(1,3) len by (simp add: cleaned_def)
qed

lemma apply_succeeds_dotted:
  assumes "apply_weight_dtype_overrides po is_file read_json names modules config = Inr (modules', applied)"
  obtains overrides where "load_config is_file read_json config = Inr overrides"
    "rfold (register_one po) (modules, []) (fst (resolve_overrides names overrides)) = Inr (modules', applied)"
    "\<forall>path \<in> set (map fst (fst (resolve_overrides names overrides))). CHR ''.'' \<in> set path"
proof -
  obtain overrides where o: "load_config is_file read_json config = Inr overrides"
    "rfold (register_one po) (modules, []) (fst (resolve_overrides names overrides)) = Inr (modules', applied)"
    using assms by (auto simp: apply_weight_dtype_overrides_def split_def res_simps)
  have "CHR ''.'' \<in> set path" if mem: "(path, d) \<in> set (fst (resolve_overrides names overrides))" for path d
    using root_entry_raises [OF mem, of po "(modules, [])"] o(2) by fastforce
  then show thesis using that o by fastforce
qed

text \<open>C20. Applying a configuration and removing the overrides gives every module back as it was: the same parameters,
  the same parametrizations.\<close>

theorem removal_undoes_apply:
  assumes ok: "parametrize_ok po" and d: "distinct (dkeys modules)"
    and none: "\<forall>(k, m) \<in> set modules. \<forall>n. \<forall>p \<in> set (param_list po m n). \<not> is_override p"
    and run: "apply_weight_dtype_overrides po is_file read_json names modules config = Inr (modules', applied)"
    and rem: "remove_weight_dtype_overrides po modules' = (modules'', count)"
    and m: "dget modules mp = Some m"
  shows "\<exists>m''. dget modules'' mp = Some m'' \<and> (\<forall>n. param_list po m'' n = param_list po m n \<and> (is_parameter po m'' n \<longleftrightarrow> is_parameter po m n))"
proof -
  obtain overrides where o: "rfold (register_one po) (modules, []) (fst (resolve_overrides names overrides)) = Inr (modules', applied)"
    "\<forall>path \<in> set (map fst (fst (resolve_overrides names overrides))). CHR ''.'' \<in> set path"
    using apply_succeeds_dotted [OF run] by blast
  let ?es = "fst (resolve_overrides names overrides)"
  have R: "dkeys modules' = dkeys modules"
    "\<forall>mp m. dget modules mp = Some m \<longrightarrow> (\<exists>m'. dget modules' mp = Some m' \<and> carries po ?es mp m m')"
    using registered [OF ok resolved_distinct o(2), of modules "[]"] o(1) by auto
  obtain m' where m': "dget modules' mp = Some m'" "carries po ?es mp m m'" using R(2) m by blast
  obtain ms where ms: "modules'' = zip (dkeys modules') ms" "list_all2 (\<lambda>(_, m) m'. cleaned po m m') modules' ms"
    using cleaned_modules [OF ok, of modules' "[]" 0 modules'' count] rem by (auto simp: remove_weight_dtype_overrides_def)
  have len: "length ms = length modules'" using ms(2) by (simp add: list_all2_lengthD)
  obtain i where i: "i < length modules'" "modules' ! i = (mp, m')" using map_of_SomeD [OF m'(1)] by (auto simp: in_set_conv_nth)
  have "dget modules'' mp = Some (ms ! i)"
    using map_of_zip_nth [of "dkeys modules'" ms i] i len d unfolding ms(1) R(1) [symmetric] by simp
  moreover have "cleaned po m' (ms ! i)" using list_all2_nthD [OF ms(2) i(1)] i(2) by simp
  moreover have "\<forall>n. \<forall>p \<in> set (param_list po m n). \<not> is_override p" using none map_of_SomeD [OF m] by blast
  ultimately show ?thesis using m'(2) parametrize_okD(1) [OF ok] unfolding cleaned_def carries_def
    by (intro exI [of _ "ms ! i"]) (auto simp: filter_id_conv is_override_def all_overrides_def split: option.splits)
qed

section \<open>The template\<close>

lemma in_dump:
  assumes "(name, m) \<in> set modules" "is_parameter po m ''weight''"
  shows "(if name \<noteq> [] then name @ ''.weight'' else ''weight'') \<in> set (dkeys (dump_weight_names po modules d))"
proof -
  have keep: "k \<in> set (dkeys r) \<Longrightarrow> k \<in> set (dkeys (fold (\<lambda>(name, m) result.
         if is_parameter po m ''weight'' then dset result (if name \<noteq> [] then name @ ''.weight'' else ''weight'') d else result) ms r))" for k r ms
    by (induction ms arbitrary: r) (auto simp: dkeys_dset simp del: set_map)
  obtain xs ys where "modules = xs @ (name, m) # ys" using assms(1) by (meson split_list)
  then show ?thesis using assms(2) unfolding dump_weight_names_def by (auto intro!: keep simp: dkeys_dset simp del: set_map)
qed

text \<open>C0. A module that has a weight of its own, such as a single linear layer, is named \<open>weight\<close> in the template and
  among the parameters; the path cannot be split into a module and a parameter, and applying the template raises.\<close>

theorem root_template_raises:
  assumes "dget modules [] = Some m" "is_parameter po m ''weight''" "''weight'' \<in> set names"
  shows "apply_weight_dtype_overrides po is_file read_json names modules (ConfigDict (dump_weight_names po modules d)) = Inl ValueError"
proof -
  let ?over = "dump_weight_names po modules d"
  have "([], m) \<in> set modules" using assms(1) by (rule map_of_SomeD)
  from in_dump [OF this assms(2), of d] have "''weight'' \<in> set (dkeys ?over)" by simp
  then obtain f where f: "(''weight'', f) \<in> set ?over" by auto
  define F where "F = filter (\<lambda>(pattern, _). pattern \<noteq> ''default'' \<and> fnmatch ''weight'' pattern) ?over"
  have "(''weight'', f) \<in> set F" using f by (simp add: F_def fnmatch_plain plain_pattern_def)
  then obtain x xs where "F = x # xs" by (cases F) auto
  then have "\<exists>f. format_of ?over ''weight'' = Some f" unfolding format_of_def F_def by simp
  then obtain f' where "dget (fst (resolve_overrides names ?over)) ''weight'' = Some f'" using resolved_format assms(3) by metis
  from root_entry_raises [OF map_of_SomeD [OF this], of po "(modules, [])"] show ?thesis
    by (simp add: apply_weight_dtype_overrides_def load_config_def split_def)
qed

section \<open>Witnesses\<close>

text \<open>Parametrized modules as torch keeps them: the parameters left, and the list of every parametrized one.\<close>

definition ex_torch :: "(string set \<times> (string, nat parametrization list) dict, nat) parametrize_ops" where
  "ex_torch =
     \<lparr> is_parameter = (\<lambda>(ps, d) n. n \<in> ps \<and> dget d n = None),
       register_parametrization = (\<lambda>(ps, d) n x. (ps, dset d n [x])),
       parametrized_names = (\<lambda>(ps, d). remdups (map fst (filter (\<lambda>(n, _). \<exists>x xs. dget d n = Some (x # xs)) d))),
       param_list = (\<lambda>(ps, d) n. case dget d n of Some xs \<Rightarrow> xs | None \<Rightarrow> []),
       remove_parametrizations = (\<lambda>(ps, d) n. (insert n ps, dpop d n)),
       delete_parametrization = (\<lambda>(ps, d) n i. (ps, dset d n (case dget d n of Some xs \<Rightarrow> take i xs @ drop (Suc i) xs | None \<Rightarrow> []))) \<rparr>"

lemma ex_torch_ok: "parametrize_ok ex_torch"
  unfolding parametrize_ok_def ex_torch_def
  by (intro conjI allI) (auto split: option.splits list.splits simp: neq_Nil_conv image_iff, metis map_of_SomeD)


definition ex_modules :: "(string, string set \<times> (string, nat parametrization list) dict) dict" where
  "ex_modules = [(''mlp'', ({''weight'', ''bias''}, [])), (''norm'', ({''weight''}, [(''scale'', [OtherParametrization 7])]))]"

definition ex_names :: "string list" where
  "ex_names = [''mlp.weight'', ''mlp.bias'', ''norm.weight'']"

definition ex_config :: config where
  "ex_config = ConfigDict [(''default'', ''bfp_bf8''), (''norm.*'', ''bf16'')]"

lemma names_okI:
  assumes "distinct (dkeys modules)" "names = map (\<lambda>(mp, p). parameter_path mp p) pairs"
    and "\<forall>(mp, p) \<in> set pairs. CHR ''.'' \<notin> set p \<and> (case dget modules mp of Some m \<Rightarrow> is_parameter po m p | None \<Rightarrow> False)"
  shows "names_ok po modules names"
  unfolding names_ok_def using assms by (fastforce split: option.splits)

lemma ex_names_ok: "names_ok ex_torch ex_modules ex_names"
  by (rule names_okI [where pairs = "[(''mlp'', ''weight''), (''mlp'', ''bias''), (''norm'', ''weight'')]"])
    (simp_all add: ex_modules_def ex_names_def parameter_path_def ex_torch_def)

lemma ex_apply:
  "apply_weight_dtype_overrides ex_torch (\<lambda>_. False) (\<lambda>_. Inl RuntimeError) ex_names ex_modules ex_config
    = Inr ([(''mlp'', ({''weight'', ''bias''}, [(''weight'', [WeightDtypeParametrization ''bfp_bf8''])])),
            (''norm'', ({''weight''}, [(''scale'', [OtherParametrization 7]), (''weight'', [WeightDtypeParametrization ''bf16''])]))],
           [(''mlp.weight'', ''bfp_bf8''), (''norm.weight'', ''bf16'')])"
  by (simp add: apply_weight_dtype_overrides_def load_config_def ex_config_def resolve_overrides_def resolve_default_def
      apply_pattern_value ex_names_def ends_with_def fnmatch_def register_one_def rsplit1_def ex_modules_def ex_torch_def)

theorem overrides_give_formats_witness:
  "\<exists>modules' applied. apply_weight_dtype_overrides ex_torch (\<lambda>_. False) (\<lambda>_. Inl RuntimeError) ex_names ex_modules ex_config
      = Inr (modules', applied)
    \<and> (''norm.weight'', ''bf16'') \<in> set applied"
proof -
  have l: "load_config (\<lambda>_. False) (\<lambda>_. Inl RuntimeError) ex_config = Inr [(''default'', ''bfp_bf8''), (''norm.*'', ''bf16'')]"
    by (simp add: load_config_def ex_config_def)
  have f: "format_of [(''default'', ''bfp_bf8''), (''norm.*'', ''bf16'')] ''norm.weight'' = Some ''bf16''"
    by (simp add: format_of_def fnmatch_def)
  obtain modules' applied where "apply_weight_dtype_overrides ex_torch (\<lambda>_. False) (\<lambda>_. Inl RuntimeError) ex_names ex_modules ex_config
      = Inr (modules', applied)"
    "\<forall>n d. (n, d) \<in> set applied \<longleftrightarrow> n \<in> set ex_names \<and> format_of [(''default'', ''bfp_bf8''), (''norm.*'', ''bf16'')] n = Some d"
    using overrides_give_formats [OF ex_torch_ok ex_names_ok l] by blast
  then show ?thesis using f by (simp add: ex_names_def)
qed

theorem removal_takes_exactly_overrides_witness:
  "let (modules', count) = remove_weight_dtype_overrides ex_torch
      [(''mlp'', ({''weight''}, [(''weight'', [OtherParametrization 3, WeightDtypeParametrization ''bf16''])]))]
   in count = 1 \<and> param_list ex_torch (snd (modules' ! 0)) ''weight'' = [OtherParametrization 3]"
  using removal_takes_exactly_overrides [OF ex_torch_ok, of "[(''mlp'', ({''weight''}, [(''weight'', [OtherParametrization 3, WeightDtypeParametrization ''bf16''])]))]"]
  by (auto simp: override_count_def ex_torch_def is_override_def split: prod.split)

theorem removal_undoes_apply_witness:
  "\<exists>modules' applied. apply_weight_dtype_overrides ex_torch (\<lambda>_. False) (\<lambda>_. Inl RuntimeError) ex_names ex_modules ex_config
      = Inr (modules', applied)
    \<and> (\<exists>m''. dget (fst (remove_weight_dtype_overrides ex_torch modules')) ''norm'' = Some m''
        \<and> param_list ex_torch m'' ''weight'' = [] \<and> param_list ex_torch m'' ''scale'' = [OtherParametrization 7])"
proof -
  let ?modules' = "[(''mlp'', ({''weight'', ''bias''}, [(''weight'', [WeightDtypeParametrization ''bfp_bf8''])])),
            (''norm'', ({''weight''}, [(''scale'', [OtherParametrization 7]), (''weight'', [WeightDtypeParametrization ''bf16''])]))]"
  have a: "distinct (dkeys ex_modules)" by (simp add: ex_modules_def)
  have b: "\<forall>(k, m) \<in> set ex_modules. \<forall>n. \<forall>p \<in> set (param_list ex_torch m n). \<not> is_override p"
    by (auto simp: ex_modules_def ex_torch_def is_override_def split: if_splits)
  have c: "remove_weight_dtype_overrides ex_torch ?modules'
      = (fst (remove_weight_dtype_overrides ex_torch ?modules'), snd (remove_weight_dtype_overrides ex_torch ?modules'))" by simp
  have d: "dget ex_modules ''norm'' = Some ({''weight''}, [(''scale'', [OtherParametrization 7])])" by (simp add: ex_modules_def)
  obtain m'' where "dget (fst (remove_weight_dtype_overrides ex_torch ?modules')) ''norm'' = Some m''"
    "\<forall>n. param_list ex_torch m'' n = param_list ex_torch ({''weight''}, [(''scale'', [OtherParametrization 7])]) n"
    using removal_undoes_apply [OF ex_torch_ok a b ex_apply c d] by blast
  moreover have "param_list ex_torch ({''weight''}, [(''scale'', [OtherParametrization 7])]) n
      = (if n = ''scale'' then [OtherParametrization 7] else [])" for n by (simp add: ex_torch_def)
  ultimately show ?thesis using ex_apply by (cases m'') simp
qed

theorem root_template_raises_witness:
  "apply_weight_dtype_overrides ex_torch (\<lambda>_. False) (\<lambda>_. Inl RuntimeError) [''weight''] [([], ({''weight''}, []))]
     (ConfigDict (dump_weight_names ex_torch [([], ({''weight''}, []))] ''bfp_bf8'')) = Inl ValueError"
  by (rule root_template_raises [of _ "({''weight''}, [])"]) (simp_all add: ex_torch_def)

end
