(* ===== verification/Sharding.thy ===== *)
theory Sharding
  imports PyStrings
begin

text \<open>
  \<open>sharding.py\<close>: the string of a sharding constraint for a mesh and a partition specification, and the function
  and the hook that put it on a tensor. The string is proved to name, dimension by dimension, the mesh axes
  of the specification, as long as no dimension is given by an integer.
\<close>

section \<open>Definitions\<close>

record mesh =
  axis_names :: "string list"
  mesh_shape :: "nat list"

text \<open>An entry of a partition specification: none, a name, an index, several of them, or anything else.\<close>

datatype axis_ref = RefName string | RefIndex int | RefOther

datatype axis = NoAxis | AxisName string | AxisIndex int | Compound "axis_ref list" | OtherAxis

text \<open>\<open>tuple.index\<close>, and \<open>xs[i]\<close> for an index that may be negative.\<close>

fun tuple_index :: "'a list \<Rightarrow> 'a \<Rightarrow> nat option" where
  "tuple_index [] a = None"
| "tuple_index (x # xs) a = (if x = a then Some 0 else map_option Suc (tuple_index xs a))"

definition item :: "'a list \<Rightarrow> int \<Rightarrow> 'a res" where
  "item xs i =
     (if 0 \<le> i \<and> i < int (length xs) then Inr (xs ! nat i)
      else if - int (length xs) \<le> i \<and> i < 0 then Inr (xs ! nat (i + int (length xs)))
      else Inl IndexError)"

definition quoted :: "string \<Rightarrow> string" where
  "quoted s = CHR 0x22 # s @ [CHR 0x22]"

definition braces :: "string \<Rightarrow> string" where
  "braces s = CHR ''{'' # s @ [CHR ''}'']"

definition mesh_ref :: "int \<Rightarrow> string" where
  "mesh_ref i = quoted (''mesh_idx_'' @ py_str i)"

text \<open>The references of a list of axes; an unknown name is left out.\<close>

fun axis_refs :: "mesh \<Rightarrow> axis_ref list \<Rightarrow> string list" where
  "axis_refs mesh [] = []"
| "axis_refs mesh (RefName name # refs) =
     (case tuple_index (axis_names mesh) name of None \<Rightarrow> axis_refs mesh refs | Some i \<Rightarrow> mesh_ref (int i) # axis_refs mesh refs)"
| "axis_refs mesh (RefIndex i # refs) = mesh_ref i # axis_refs mesh refs"
| "axis_refs mesh (RefOther # refs) = axis_refs mesh refs"

text \<open>What one entry of the specification appends to the dimensions.\<close>

definition dim_sharding :: "mesh \<Rightarrow> axis \<Rightarrow> string list res" where
  "dim_sharding mesh axis =
     (case axis of
        NoAxis \<Rightarrow> Inr [''{}'']
      | AxisName name \<Rightarrow>
          (case tuple_index (axis_names mesh) name of
             None \<Rightarrow> Inr [''{}'']
           | Some i \<Rightarrow> rbind (item (mesh_shape mesh) (int i)) (\<lambda>n. Inr [if n > 1 then braces (mesh_ref (int i)) else ''{}'']))
      | AxisIndex i \<Rightarrow>
          rbind (item (mesh_shape mesh) i) (\<lambda>n.
          Inr ((if n > 1 then [braces (mesh_ref i)] else []) @ [braces (mesh_ref i)]))
      | Compound refs \<Rightarrow>
          (let axis_refs = axis_refs mesh refs
           in Inr [if axis_refs \<noteq> [] then braces (join '', '' axis_refs) else ''{}''])
      | OtherAxis \<Rightarrow> Inr [''{}''])"

definition partition_spec_to_sdy_sharding :: "mesh \<Rightarrow> axis list \<Rightarrow> axis_ref list \<Rightarrow> string res" where
  "partition_spec_to_sdy_sharding mesh partition_spec unreduced =
     rbind (rmap (dim_sharding mesh) partition_spec) (\<lambda>dim_shardings.
     let dims_str = join '', '' (concat dim_shardings);
         unreduced_refs = axis_refs mesh unreduced;
         unreduced_str = (if unreduced_refs \<noteq> [] then '', unreduced='' @ braces (join '', '' unreduced_refs) else [])
     in Inr (''#sdy.sharding_per_value<[<@mesh, ['' @ dims_str @ '']'' @ unreduced_str @ ''>]>''))"

text \<open>The checks in front of it: whether the argument is a module or a tensor, and what is none. A mesh without names is an
  object without this attribute.\<close>

definition checked_sharding ::
  "bool \<Rightarrow> (mesh option) option \<Rightarrow> axis list option \<Rightarrow> axis_ref list \<Rightarrow> string res" where
  "checked_sharding right_type mesh_arg partition_spec unreduced =
     (if \<not> right_type then Inl TypeError
      else case mesh_arg of
          None \<Rightarrow> Inl ValueError
        | Some with_names \<Rightarrow>
            (case partition_spec of
               None \<Rightarrow> Inl ValueError
             | Some spec \<Rightarrow>
                 (case with_names of
                    None \<Rightarrow> Inl ValueError
                  | Some mesh \<Rightarrow> partition_spec_to_sdy_sharding mesh spec unreduced)))"

text \<open>\<open>constraint\<close> is the operator \<open>tt::sharding_constraint\<close>. The hook is returned, not registered.\<close>

definition sharding_constraint_tensor ::
  "('t \<Rightarrow> string \<Rightarrow> 't) \<Rightarrow> 't option \<Rightarrow> (mesh option) option \<Rightarrow> axis list option \<Rightarrow> axis_ref list \<Rightarrow> 't res" where
  "sharding_constraint_tensor constraint input mesh_arg partition_spec unreduced =
     rbind (checked_sharding (input \<noteq> None) mesh_arg partition_spec unreduced) (\<lambda>s. Inr (constraint (the input) s))"

definition sharding_constraint_hook ::
  "('t \<Rightarrow> string \<Rightarrow> 't) \<Rightarrow> bool \<Rightarrow> (mesh option) option \<Rightarrow> axis list option \<Rightarrow> ('t \<Rightarrow> 't) res" where
  "sharding_constraint_hook constraint is_module mesh_arg partition_spec =
     rbind (checked_sharding is_module mesh_arg partition_spec []) (\<lambda>s. Inr (\<lambda>output. constraint output s))"

section \<open>Reading the string back\<close>

text \<open>The contents of the braces of a string, in order.\<close>

fun groups :: "string option \<Rightarrow> string \<Rightarrow> string list" where
  "groups open [] = []"
| "groups None (c # cs) = (if c = CHR ''{'' then groups (Some []) cs else groups None cs)"
| "groups (Some g) (c # cs) = (if c = CHR ''}'' then g # groups None cs else groups (Some (g @ [c])) cs)"

lemma groups_skip: "CHR ''{'' \<notin> set p \<Longrightarrow> groups None (p @ s) = groups None s"
  by (induction p) auto

lemma groups_inside: "CHR ''}'' \<notin> set p \<Longrightarrow> groups (Some g) (p @ CHR ''}'' # s) = (g @ p) # groups None s"
  by (induction p arbitrary: g) auto

lemma groups_braces: "CHR ''}'' \<notin> set g \<Longrightarrow> groups None (braces g @ s) = g # groups None s"
  by (simp add: braces_def groups_inside)

lemma groups_join:
  assumes "\<forall>g \<in> set gs. CHR ''}'' \<notin> set g"
  shows "groups None (join '', '' (map braces gs) @ s) = gs @ groups None s"
  using assms
proof (induction gs)
  case (Cons g gs)
  show ?case
  proof (cases gs)
    case Nil
    then show ?thesis using Cons.prems by (simp add: groups_braces)
  next
    case (Cons h hs)
    then have "groups None (braces g @ '', '' @ join '', '' (map braces gs) @ s) = g # groups None ('', '' @ join '', '' (map braces gs) @ s)"
      using Cons.prems by (simp add: groups_braces)
    then show ?thesis using Cons.IH Cons.prems \<open>gs = h # hs\<close> by simp
  qed
qed simp

lemma mesh_ref_no_brace: "CHR ''}'' \<notin> set (mesh_ref i)" "CHR ''{'' \<notin> set (mesh_ref i)"
  by (auto simp: mesh_ref_def quoted_def py_str_def is_digit_def dest!: decimal_is_digit)

text \<open>The axes an entry names: a known name whose axis has more than one device, and the known names and the
  indices of a compound entry.\<close>

definition axes_of :: "mesh \<Rightarrow> axis \<Rightarrow> string list" where
  "axes_of mesh axis =
     (case axis of
        AxisName name \<Rightarrow>
          (case tuple_index (axis_names mesh) name of
             Some i \<Rightarrow> if mesh_shape mesh ! i > 1 then [mesh_ref (int i)] else []
           | None \<Rightarrow> [])
      | Compound refs \<Rightarrow> axis_refs mesh refs
      | _ \<Rightarrow> [])"

lemma tuple_index_less: "tuple_index xs a = Some i \<Longrightarrow> i < length xs"
  by (induction xs arbitrary: i) (auto split: if_splits)

lemma axis_refs_no_brace: "r \<in> set (axis_refs mesh refs) \<Longrightarrow> CHR ''}'' \<notin> set r \<and> CHR ''{'' \<notin> set r"
  by (induction mesh refs rule: axis_refs.induct) (auto simp: mesh_ref_no_brace split: option.splits)

lemma join_no_brace: "\<forall>r \<in> set rs. c \<notin> set r \<Longrightarrow> c \<notin> set sep \<Longrightarrow> c \<notin> set (join sep rs)"
  by (induction sep rs rule: join.induct) auto

lemma axes_no_brace: "r \<in> set (axes_of mesh a) \<Longrightarrow> CHR ''}'' \<notin> set r"
  by (auto simp: axes_of_def mesh_ref_no_brace dest: axis_refs_no_brace split: axis.splits option.splits if_splits)

lemma axes_join_no_brace: "CHR ''}'' \<notin> set (join '', '' (axes_of mesh a))"
  by (rule join_no_brace) (auto simp: axes_no_brace)

lemma dim_of_entry:
  assumes "length (mesh_shape mesh) = length (axis_names mesh)" "\<forall>i. a \<noteq> AxisIndex i"
  shows "dim_sharding mesh a = Inr [braces (join '', '' (axes_of mesh a))]"
  using assms tuple_index_less [of "axis_names mesh"]
  by (auto simp: dim_sharding_def axes_of_def item_def braces_def Let_def split: axis.splits option.splits)

lemma groups_of_string:
  assumes "rmap (dim_sharding mesh) spec = Inr dims" "concat dims = map braces gs" "\<forall>g \<in> set gs. CHR ''}'' \<notin> set g"
  shows "\<exists>s. partition_spec_to_sdy_sharding mesh spec unreduced = Inr s
    \<and> groups None s = gs @ (if axis_refs mesh unreduced = [] then [] else [join '', '' (axis_refs mesh unreduced)])"
proof -
  let ?u = "axis_refs mesh unreduced"
  have u: "CHR ''}'' \<notin> set (join '', '' ?u)"
    by (rule join_no_brace) (use axis_refs_no_brace in auto)
  have start: "groups None (''#sdy.sharding_per_value<[<@mesh, ['' @ s) = groups None s" for s by (rule groups_skip) simp
  have "groups None (join '', '' (map braces gs) @ '']'' @ (if ?u \<noteq> [] then '', unreduced='' @ braces (join '', '' ?u) else []) @ ''>]>'')
      = gs @ (if ?u = [] then [] else [join '', '' ?u])"
    using groups_join [OF assms(3)] groups_braces [OF u] by simp
  moreover have "partition_spec_to_sdy_sharding mesh spec unreduced = Inr (''#sdy.sharding_per_value<[<@mesh, [''
      @ (join '', '' (map braces gs) @ '']'' @ (if ?u \<noteq> [] then '', unreduced='' @ braces (join '', '' ?u) else []) @ ''>]>''))"
    unfolding partition_spec_to_sdy_sharding_def assms(1) Let_def assms(2) rbind.simps append_assoc by (rule refl)
  ultimately show ?thesis using start by metis
qed



text \<open>An integer in the specification whose axis has more than one device appends its group twice: the string has a
  dimension more than the tensor, and the dimensions after it are shifted.\<close>

theorem integer_axis_is_listed_twice:
  assumes "length (mesh_shape mesh) = length (axis_names mesh)" "\<forall>i. AxisIndex i \<notin> set (pre @ post)"
    and i: "i < length (mesh_shape mesh)" "mesh_shape mesh ! i > 1"
  shows "\<exists>s. partition_spec_to_sdy_sharding mesh (pre @ [AxisIndex (int i)] @ post) [] = Inr s
    \<and> groups None s = map (\<lambda>a. join '', '' (axes_of mesh a)) pre
        @ [mesh_ref (int i), mesh_ref (int i)] @ map (\<lambda>a. join '', '' (axes_of mesh a)) post"
proof -
  let ?g = "\<lambda>a. join '', '' (axes_of mesh a)"
  define dims where "dims = (\<lambda>a. case a of AxisIndex _ \<Rightarrow> [braces (mesh_ref (int i)), braces (mesh_ref (int i))] | _ \<Rightarrow> [braces (?g a)])"
  have plain: "dim_sharding mesh a = Inr (dims a)" "dims a = [braces (?g a)]" if "a \<in> set (pre @ post)" for a
    using that assms(2) dim_of_entry [OF assms(1), of a] by (auto simp: dims_def split: axis.splits)
  have "dim_sharding mesh (AxisIndex (int i)) = Inr (dims (AxisIndex (int i)))"
    using i by (simp add: dim_sharding_def item_def dims_def)
  then have all: "\<forall>a \<in> set (pre @ [AxisIndex (int i)] @ post). dim_sharding mesh a = Inr (dims a)" using plain(1) by auto
  have same: "map dims pre = map (\<lambda>a. [braces (?g a)]) pre" "map dims post = map (\<lambda>a. [braces (?g a)]) post" using plain(2) by simp_all
  have one: "concat (map (\<lambda>a. [braces (?g a)]) as) = map braces (map ?g as)" for as by (induction as) auto
  have int: "dims (AxisIndex (int i)) = [braces (mesh_ref (int i)), braces (mesh_ref (int i))]" by (simp add: dims_def)
  have c: "concat (map dims (pre @ [AxisIndex (int i)] @ post))
      = map braces (map ?g pre @ [mesh_ref (int i), mesh_ref (int i)] @ map ?g post)"
    unfolding map_append concat_append same one by (simp add: int)
  have "\<forall>g \<in> set (map ?g pre @ [mesh_ref (int i), mesh_ref (int i)] @ map ?g post). CHR ''}'' \<notin> set g"
    using axes_join_no_brace mesh_ref_no_brace by auto
  from groups_of_string [OF rmap_all [OF all] c this, of "[]"] show ?thesis by simp
qed

theorem integer_axis_is_listed_twice_witness:
  "\<exists>s. partition_spec_to_sdy_sharding \<lparr> axis_names = [''batch'', ''model''], mesh_shape = [1, 8] \<rparr> [NoAxis, AxisIndex 1] [] = Inr s
    \<and> groups None s = [[], mesh_ref 1, mesh_ref 1]"
  using integer_axis_is_listed_twice [of "\<lparr> axis_names = [''batch'', ''model''], mesh_shape = [1, 8] \<rparr>" "[NoAxis]" "[]" 1]
  by (simp add: axes_of_def)

end
