(* ===== verification/Distributed.thy ===== *)
theory Distributed
  imports Sharding Complex_Main
begin

text \<open>
  \<open>vllm_distributed_utils.py\<close>: the linear layers of vLLM that hold several projections are taken apart so
  that each projection can be sharded, and the layers of a model are marked or replaced by the name of
  their class. A layer's forward is modelled on one input vector; the sharding marks are recorded with
  the layer.
\<close>

section \<open>Linear layers\<close>

type_synonym vector = "rat list"
type_synonym matrix = "rat list list"
type_synonym shard_spec = "string option list"

definition inner :: "vector \<Rightarrow> vector \<Rightarrow> rat" where
  "inner xs ys = sum_list (map2 (*) xs ys)"

text \<open>The bias of a linear function is broadcast.\<close>

definition add_bias :: "vector \<Rightarrow> vector option \<Rightarrow> vector res" where
  "add_bias ys bias =
     (case bias of
        None \<Rightarrow> Inr ys
      | Some b \<Rightarrow>
          if length b = length ys then Inr (map2 (+) ys b)
          else if length b = 1 then Inr (map (\<lambda>y. y + hd b) ys)
          else Inl RuntimeError)"

definition linear :: "vector \<Rightarrow> matrix \<Rightarrow> vector option \<Rightarrow> vector res" where
  "linear input weight bias =
     (if \<forall>row \<in> set weight. length row = length input then add_bias (map (\<lambda>row. inner row input) weight) bias
      else Inl RuntimeError)"

definition cat_vectors :: "vector list \<Rightarrow> vector res" where
  "cat_vectors vs = (if vs = [] then Inl RuntimeError else Inr (concat vs))"

text \<open>A linear layer of vLLM, with its weight, and what a layer returns.\<close>

record fused_linear =
  fl_weight :: matrix
  fl_bias :: "vector option"
  fl_sizes :: "nat list"
  fl_skip_bias_add :: bool
  fl_return_bias :: bool
  fl_tp_size :: nat
  fl_mark :: "shard_spec option"

datatype layer_out = Out vector | OutWithBias vector "vector option"

section \<open>Merged projections\<close>

record xla_merged =
  xm_skip_bias_add :: bool
  xm_return_bias :: bool
  xm_weights :: "matrix list"
  xm_biases :: "vector option list"
  xm_marks :: "(shard_spec \<times> shard_spec option) list"

fun slices_from :: "nat \<Rightarrow> nat list \<Rightarrow> 'a list \<Rightarrow> 'a list list" where
  "slices_from start [] xs = []"
| "slices_from start (s # sizes) xs = slice xs start (start + s) # slices_from (start + s) sizes xs"

definition load_weights_from_merged :: "fused_linear \<Rightarrow> matrix list \<times> vector option list" where
  "load_weights_from_merged l =
     (slices_from 0 (fl_sizes l) (fl_weight l),
      case fl_bias l of Some b \<Rightarrow> map Some (slices_from 0 (fl_sizes l) b) | None \<Rightarrow> replicate (length (fl_sizes l)) None)"

definition shard_merged :: "vector option list \<Rightarrow> (shard_spec \<times> shard_spec option) list" where
  "shard_merged biases =
     map (\<lambda>b. ([Some ''batch'', Some ''model''], if b \<noteq> None then Some [Some ''batch''] else None)) biases"

definition new_xla_merged :: "fused_linear \<Rightarrow> bool \<Rightarrow> xla_merged" where
  "new_xla_merged l has_mesh =
     (let (weights, biases) = load_weights_from_merged l
      in \<lparr> xm_skip_bias_add = fl_skip_bias_add l, xm_return_bias = fl_return_bias l, xm_weights = weights, xm_biases = biases,
           xm_marks = (if has_mesh then shard_merged biases else []) \<rparr>)"

definition merged_forward :: "xla_merged \<Rightarrow> vector \<Rightarrow> layer_out res" where
  "merged_forward m input =
     rbind (rmap (\<lambda>(w, b). linear input w (if \<not> xm_skip_bias_add m then b else None)) (zip (xm_weights m) (xm_biases m))) (\<lambda>projections.
     let output_biases = (if xm_skip_bias_add m then List.map_filter id (xm_biases m) else [])
     in rbind (cat_vectors projections) (\<lambda>merged_proj.
        rbind (if xm_skip_bias_add m \<and> output_biases \<noteq> [] then rbind (cat_vectors output_biases) (\<lambda>b. Inr (Some b)) else Inr None)
          (\<lambda>output_bias. Inr (if \<not> xm_return_bias m then Out merged_proj else OutWithBias merged_proj output_bias))))"

section \<open>Query, key and value\<close>

record xla_qkv =
  xq_skip_bias_add :: bool
  xq_return_bias :: bool
  xq_weights :: "matrix \<times> matrix \<times> matrix"
  xq_biases :: "vector option \<times> vector option \<times> vector option"

definition cut_qkv :: "nat \<Rightarrow> nat \<Rightarrow> 'a list \<Rightarrow> 'a list \<times> 'a list \<times> 'a list" where
  "cut_qkv q k xs = (take q xs, slice xs q (q + k), drop (q + k) xs)"

definition load_weights_from_qkv :: "fused_linear \<Rightarrow> ((matrix \<times> matrix \<times> matrix) \<times> (vector option \<times> vector option \<times> vector option)) res" where
  "load_weights_from_qkv l =
     (case fl_sizes l of
        [q, k, _] \<Rightarrow>
          Inr (cut_qkv q k (fl_weight l),
               case fl_bias l of
                 Some b \<Rightarrow> (case cut_qkv q k b of (qb, kb, vb) \<Rightarrow> (Some qb, Some kb, Some vb))
               | None \<Rightarrow> (None, None, None))
      | _ \<Rightarrow> Inl ValueError)"

text \<open>The three weights are marked with both mesh axes, a bias with the first.\<close>

definition new_xla_qkv :: "fused_linear \<Rightarrow> xla_qkv res" where
  "new_xla_qkv l =
     rbind (rassert (fl_tp_size l = 1)) (\<lambda>_.
     rbind (load_weights_from_qkv l) (\<lambda>(weights, biases).
     Inr \<lparr> xq_skip_bias_add = fl_skip_bias_add l, xq_return_bias = fl_return_bias l, xq_weights = weights, xq_biases = biases \<rparr>))"

text \<open>\<open>torch.cat\<close> of a list with None raises TypeError.\<close>

definition cat_biases :: "vector option list \<Rightarrow> vector res" where
  "cat_biases bs = (if None \<in> set bs then Inl TypeError else cat_vectors (map the bs))"

definition qkv_forward :: "xla_qkv \<Rightarrow> vector \<Rightarrow> layer_out res" where
  "qkv_forward m input =
     (case (xq_weights m, xq_biases m) of
        ((qw, kw, vw), (qb, kb, vb)) \<Rightarrow>
          let used = (\<lambda>b. if \<not> xq_skip_bias_add m then b else None);
              q_bias = used qb; k_bias = used kb; v_bias = used vb
          in rbind (linear input qw q_bias) (\<lambda>q_proj.
             rbind (linear input kw k_bias) (\<lambda>k_proj.
             rbind (linear input vw v_bias) (\<lambda>v_proj.
             rbind (cat_vectors [q_proj, k_proj, v_proj]) (\<lambda>qkv_proj.
             rbind (if xq_skip_bias_add m then rbind (cat_biases [q_bias, k_bias, v_bias]) (\<lambda>b. Inr (Some b)) else Inr None)
               (\<lambda>output_bias. Inr (if \<not> xq_return_bias m then Out qkv_proj else OutWithBias qkv_proj output_bias)))))))"

section \<open>The layers of a model\<close>

text \<open>The weights of an embedding, its mark and the specification of the constraint on its output.\<close>

datatype 'o layer =
    FusedLinear fused_linear
  | Embedding matrix "shard_spec option" "string list"
  | XlaMerged xla_merged
  | XlaQKV xla_qkv
  | OtherLayer 'o

text \<open>A module: its class, its own content, its named children.\<close>

datatype 'o module_tree = Module (class_name: string) (content: "'o layer") (children: "(string \<times> 'o module_tree) list")

definition mark_weight :: "shard_spec \<Rightarrow> 'o module_tree \<Rightarrow> 'o module_tree res" where
  "mark_weight spec m =
     (case content m of
        FusedLinear l \<Rightarrow> Inr (Module (class_name m) (FusedLinear (l\<lparr>fl_mark := Some spec\<rparr>)) (children m))
      | _ \<Rightarrow> Inl AssertionError)"

definition partition_merged_column_parallel_linear :: "'o module_tree \<Rightarrow> 'o module_tree res" where
  "partition_merged_column_parallel_linear m =
     (case content m of
        FusedLinear l \<Rightarrow> Inr (Module ''XlaMergedColumnParallelLinear'' (XlaMerged (new_xla_merged l True)) [])
      | _ \<Rightarrow> Inl AssertionError)"

definition partition_qkv_parallel_linear :: "'o module_tree \<Rightarrow> 'o module_tree res" where
  "partition_qkv_parallel_linear m =
     (case content m of
        FusedLinear l \<Rightarrow> rbind (new_xla_qkv l) (\<lambda>q. Inr (Module ''XlaQKVParallelLinear'' (XlaQKV q) []))
      | _ \<Rightarrow> Inl AssertionError)"

definition partition_column_parallel_linear :: "'o module_tree \<Rightarrow> 'o module_tree res" where
  "partition_column_parallel_linear = mark_weight [Some ''batch'', None]"

definition partition_row_parallel_linear :: "'o module_tree \<Rightarrow> 'o module_tree res" where
  "partition_row_parallel_linear = mark_weight [Some ''model'', Some ''batch'']"

definition partition_parallel_lm_head :: "'o module_tree \<Rightarrow> 'o module_tree res" where
  "partition_parallel_lm_head = mark_weight [Some ''batch'', None]"

definition partition_vocab_parallel_embedding :: "mesh \<Rightarrow> 'o module_tree \<Rightarrow> 'o module_tree res" where
  "partition_vocab_parallel_embedding mesh m =
     (case content m of
        Embedding w _ hooks \<Rightarrow>
          rbind (checked_sharding True (Some (Some mesh)) (Some [NoAxis, NoAxis, NoAxis]) []) (\<lambda>s.
          Inr (Module (class_name m) (Embedding w (Some [None, Some ''batch'']) (hooks @ [s])) (children m)))
      | _ \<Rightarrow> Inl AssertionError)"

definition wrapping_funcs :: "mesh \<Rightarrow> (string \<times> ('o module_tree \<Rightarrow> 'o module_tree res)) list" where
  "wrapping_funcs mesh =
     [(''MergedColumnParallelLinear'', partition_merged_column_parallel_linear),
      (''QKVParallelLinear'', partition_qkv_parallel_linear),
      (''ColumnParallelLinear'', partition_column_parallel_linear),
      (''RowParallelLinear'', partition_row_parallel_linear),
      (''ParallelLMHead'', partition_parallel_lm_head),
      (''VocabParallelEmbedding'', partition_vocab_parallel_embedding mesh)]"

text \<open>The recursion: a module is wrapped, which is refused at the top level, then the children of what it became
  are processed.\<close>

definition wrap_module :: "mesh \<Rightarrow> bool \<Rightarrow> 'o module_tree \<Rightarrow> 'o module_tree res" where
  "wrap_module mesh has_parent m =
     (case map_of (wrapping_funcs mesh) (class_name m) of
        None \<Rightarrow> Inr m
      | Some f \<Rightarrow> rbind (f m) (\<lambda>w. rbind (rassert has_parent) (\<lambda>_. Inr w)))"

lemma wrapped_children: "wrap_module mesh p m = Inr w \<Longrightarrow> children w = children m \<or> children w = []"
  by (auto simp: wrap_module_def wrapping_funcs_def partition_merged_column_parallel_linear_def
      partition_qkv_parallel_linear_def partition_column_parallel_linear_def partition_row_parallel_linear_def
      partition_parallel_lm_head_def partition_vocab_parallel_embedding_def mark_weight_def res_simps
      split: option.splits if_splits layer.splits)

lemma rmap_cong [fundef_cong]: "xs = ys \<Longrightarrow> (\<And>x. x \<in> set ys \<Longrightarrow> f x = g x) \<Longrightarrow> rmap f xs = rmap g ys"
  by (induction ys arbitrary: xs) auto

lemma child_smaller:
  assumes "(name, child) \<in> set (children m)"
  shows "size child < size m"
proof -
  have est: "(name, child) \<in> set cs \<Longrightarrow> size child < Suc (size_list (size_prod (\<lambda>_. 0) size) cs)" for cs :: "(string \<times> 'a module_tree) list"
    by (induction cs) auto
  obtain a b cs where m: "m = Module a b cs" by (cases m)
  then have "(name, child) \<in> set cs" using assms by simp
  from est [OF this] show ?thesis by (simp add: m)
qed

function process_module :: "mesh \<Rightarrow> bool \<Rightarrow> 'o module_tree \<Rightarrow> 'o module_tree res" where
  "process_module mesh has_parent m =
     rbind (wrap_module mesh has_parent m) (\<lambda>w.
     rbind (rmap (\<lambda>(name, child). rbind (process_module mesh True child) (\<lambda>c. Inr (name, c))) (children w)) (\<lambda>cs.
     Inr (Module (class_name w) (content w) cs)))"
  by pat_completeness auto

termination
proof (relation "measure (\<lambda>(mesh, p, m). size m)", simp, goal_cases)
  case (1 mesh p m w x name child)
  then show ?case using wrapped_children [of mesh p m w] child_smaller by force
qed

declare process_module.simps [simp del]

definition shard_model :: "mesh \<Rightarrow> 'o module_tree \<Rightarrow> 'o module_tree res" where
  "shard_model mesh m = process_module mesh False m"

end
