(* ===== verification/DistributedProps.thy ===== *)
theory DistributedProps
  imports Distributed
begin

text \<open>
  Taking the projections of a fused layer apart does not change what it returns, except for a query, key and
  value layer that returns its bias, which raises; and a sharded model computes, layer by layer, what the
  model computes.
\<close>

section \<open>Linear layers\<close>

text \<open>The forward of the linear layers of vLLM, with one device.\<close>

definition fused_forward :: "fused_linear \<Rightarrow> vector \<Rightarrow> layer_out res" where
  "fused_forward l input =
     rbind (linear input (fl_weight l) (if fl_skip_bias_add l then None else fl_bias l)) (\<lambda>y.
     Inr (if fl_return_bias l then OutWithBias y (if fl_skip_bias_add l then fl_bias l else None) else Out y))"

definition fits :: "fused_linear \<Rightarrow> vector \<Rightarrow> bool" where
  "fits l input \<longleftrightarrow>
     fl_sizes l \<noteq> [] \<and> sum_list (fl_sizes l) = length (fl_weight l) \<and> (\<forall>row \<in> set (fl_weight l). length row = length input)
     \<and> (case fl_bias l of None \<Rightarrow> True | Some b \<Rightarrow> length b = length (fl_weight l))"

lemma concat_slices: "concat (slices_from start sizes xs) = slice xs start (start + sum_list sizes)"
proof (induction start sizes xs rule: slices_from.induct)
  case (2 start s sizes xs)
  then show ?case by (simp add: slice_def take_add drop_drop add.commute)
qed (simp add: slice_def)

lemma slice_all: "slice xs 0 (length xs) = xs"
  by (simp add: slice_def)

lemma slices_map: "slices_from start sizes (map f xs) = map (map f) (slices_from start sizes xs)"
  by (induction start sizes xs rule: slices_from.induct) (auto simp: slice_def take_map drop_map)

lemma slice_rows: "\<forall>x \<in> set xs. P x \<Longrightarrow> x \<in> set (slice xs a b) \<Longrightarrow> P x"
  by (auto simp: slice_def dest: in_set_takeD in_set_dropD)

lemma linear_rows:
  "\<forall>row \<in> set w. length row = length x \<Longrightarrow> linear x w b = add_bias (map (\<lambda>row. inner row x) w) b"
  by (simp add: linear_def)

lemma slices_without_bias:
  assumes "\<forall>row \<in> set w. length row = length x"
  shows "rmap (\<lambda>(w, b). linear x w None) (zip (slices_from start sizes w) bs)
    = Inr (take (length bs) (slices_from start sizes (map (\<lambda>row. inner row x) w)))"
  using assms
proof (induction start sizes w arbitrary: bs rule: slices_from.induct)
  case (2 start s sizes w)
  have "\<forall>row \<in> set (slice w start (start + s)). length row = length x" using slice_rows [OF 2(2)] by blast
  then show ?case using 2 by (cases bs) (simp_all add: linear_rows add_bias_def slice_def take_map drop_map)
qed simp

lemma slices_with_bias:
  assumes "\<forall>row \<in> set w. length row = length x" "length b = length w" "start + sum_list sizes \<le> length w"
  shows "rmap (\<lambda>(w, b). linear x w b) (zip (slices_from start sizes w) (map Some (slices_from start sizes b)))
    = Inr (slices_from start sizes (map2 (+) (map (\<lambda>row. inner row x) w) b))"
  using assms
proof (induction start sizes w rule: slices_from.induct)
  case (2 start s sizes w)
  have "\<forall>row \<in> set (slice w start (start + s)). length row = length x" using slice_rows [OF 2(2)] by blast
  then have "linear x (slice w start (start + s)) (Some (slice b start (start + s)))
      = Inr (slice (map2 (+) (map (\<lambda>row. inner row x) w) b) start (start + s))"
    using 2(3,4) by (simp add: linear_rows add_bias_def slice_def take_map drop_map take_zip drop_zip)
  then show ?case using 2 by simp
qed simp

lemma length_slices: "length (slices_from start sizes xs) = length sizes"
  by (induction start sizes xs rule: slices_from.induct) auto

lemma map_filter_Some: "List.map_filter id (map Some xs) = xs" "List.map_filter id (replicate n None) = []"
  by (induction xs) (auto simp: List.map_filter_simps, induction n, auto simp: List.map_filter_simps)

lemma merged_value:
  assumes "fits l x"
  shows "merged_forward (new_xla_merged l has_mesh) x = fused_forward l x"
proof -
  let ?w = "fl_weight l" and ?s = "fl_sizes l"
  have rows: "\<forall>row \<in> set ?w. length row = length x" and s: "?s \<noteq> []" "sum_list ?s = length ?w" using assms by (simp_all add: fits_def)
  have ne: "slices_from 0 ?s xs \<noteq> []" for xs :: vector using length_slices [of 0 ?s xs] s(1) by (metis length_0_conv)
  have whole: "concat (slices_from 0 ?s xs) = xs" if "length xs = length ?w" for xs :: vector
    using that s(2) by (simp add: concat_slices slice_def)
  have plain: "rmap (\<lambda>(w, b). linear x w None) (zip (slices_from 0 ?s ?w) bs) = Inr (slices_from 0 ?s (map (\<lambda>row. inner row x) ?w))"
    if "length bs = length ?s" for bs :: "vector option list"
    using slices_without_bias [OF rows, of 0 ?s bs] that length_slices by (metis take_all_iff order_refl)
  show ?thesis
  proof (cases "fl_bias l")
    case None
    have "rmap (\<lambda>(w, b). linear x w (if \<not> fl_skip_bias_add l then b else None)) (zip (slices_from 0 ?s ?w) (replicate (length ?s) None))
        = rmap (\<lambda>(w, b). linear x w None) (zip (slices_from 0 ?s ?w) (replicate (length ?s) (None :: vector option)))"
      by (rule rmap_cong [OF refl]) (auto dest: set_zip_rightD)
    then show ?thesis using None plain [of "replicate (length ?s) None"] ne whole rows
      by (simp add: merged_forward_def new_xla_merged_def load_weights_from_merged_def fused_forward_def cat_vectors_def
          map_filter_Some linear_rows add_bias_def Let_def if_cancel cong: if_cong)
  next
    case (Some b)
    then have b: "length b = length ?w" using assms by (simp add: fits_def)
    show ?thesis
    proof (cases "fl_skip_bias_add l")
      case True
      then show ?thesis using Some b plain [of "map Some (slices_from 0 ?s b)"] ne whole rows
        by (simp add: merged_forward_def new_xla_merged_def load_weights_from_merged_def fused_forward_def cat_vectors_def
            map_filter_Some linear_rows add_bias_def Let_def length_slices)
    next
      case False
      then show ?thesis using Some b slices_with_bias [OF rows b, of 0 ?s] ne whole rows s(2)
        by (simp add: merged_forward_def new_xla_merged_def load_weights_from_merged_def fused_forward_def cat_vectors_def
            linear_rows add_bias_def Let_def)
    qed
  qed
qed

text \<open>A layer of merged projections, taken apart into one weight per projection, returns on every input what the
  merged layer returns: the concatenated projections, with their biases added or returned.\<close>

theorem merged_layer_unchanged:
  assumes "fits l x"
  shows "merged_forward (new_xla_merged l has_mesh) x = fused_forward l x"
  using assms by (rule merged_value)

theorem merged_layer_unchanged_witness:
  "merged_forward (new_xla_merged \<lparr> fl_weight = [[1, 2], [3, 4], [5, 6]], fl_bias = Some [7, 8, 9], fl_sizes = [2, 1], fl_skip_bias_add = False,
       fl_return_bias = True, fl_tp_size = 1, fl_mark = None \<rparr> True) [1, 10]
    = Inr (OutWithBias [28, 51, 74] None)"
  using merged_layer_unchanged [of "\<lparr> fl_weight = [[1, 2], [3, 4], [5, 6]], fl_bias = Some [7, 8, 9], fl_sizes = [2, 1], fl_skip_bias_add = False,
       fl_return_bias = True, fl_tp_size = 1, fl_mark = None \<rparr>" "[1, 10]" True]
  by (simp add: fits_def fused_forward_def linear_def add_bias_def inner_def)

lemma qkv_as_slices:
  assumes "length xs = q + k + v"
  shows "cut_qkv q k xs = (slice xs 0 q, slice xs q (q + k), slice xs (q + k) (q + k + v))"
  using assms by (simp add: cut_qkv_def slice_def)

lemma qkv_value:
  assumes f: "fits l x" and s: "fl_sizes l = [q, k, v]" and tp: "fl_tp_size l = 1"
  shows "\<exists>m. new_xla_qkv l = Inr m \<and> qkv_forward m x =
    (if fl_skip_bias_add l then Inl TypeError else fused_forward l x)"
proof -
  let ?w = "fl_weight l" and ?ys = "map (\<lambda>row. inner row x) (fl_weight l)"
  have rows: "\<forall>row \<in> set ?w. length row = length x" and len: "length ?w = q + k + v" using f s by (auto simp: fits_def)
  have cut: "cut_qkv q k ?w = (slice ?w 0 q, slice ?w q (q + k), slice ?w (q + k) (q + k + v))" using len by (rule qkv_as_slices)
  have whole: "slice zs 0 q @ slice zs q (q + k) @ slice zs (q + k) (q + k + v) = zs" if "length zs = q + k + v" for zs :: "rat list"
    using that concat_slices [of 0 "[q, k, v]" zs] by (simp add: slice_def)
  have part: "\<forall>row \<in> set (slice ?w a b). length row = length x" for a b using slice_rows [OF rows] by blast
  have plain: "linear x (slice ?w a b) None = Inr (slice ?ys a b)" for a b
    using part by (simp add: linear_rows add_bias_def slice_def take_map drop_map)
  have biased: "linear x (slice ?w a b) (Some (slice bs a b)) = Inr (slice (map2 (+) ?ys bs) a b)"
    if "length bs = length ?w" for bs a b
    using part that by (simp add: linear_rows add_bias_def slice_def take_map drop_map take_zip drop_zip)
  show ?thesis
  proof (cases "fl_bias l")
    case None
    then show ?thesis using tp s cut plain whole [of ?ys] len rows
      by (simp add: new_xla_qkv_def load_weights_from_qkv_def qkv_forward_def fused_forward_def cat_vectors_def cat_biases_def
          linear_rows add_bias_def Let_def)
  next
    case (Some bs)
    then have b: "length bs = length ?w" using f by (simp add: fits_def)
    have "cut_qkv q k bs = (slice bs 0 q, slice bs q (q + k), slice bs (q + k) (q + k + v))" by (rule qkv_as_slices) (simp add: b len)
    then show ?thesis using Some tp s cut plain biased [OF b] whole [of ?ys] whole [of "map2 (+) ?ys bs"] len rows b
      by (simp add: new_xla_qkv_def load_weights_from_qkv_def qkv_forward_def fused_forward_def cat_vectors_def cat_biases_def
          linear_rows add_bias_def Let_def)
  qed
qed

text \<open>A query, key and value layer that adds its bias itself returns, taken apart, on every input what the fused layer
  returns.\<close>

theorem qkv_layer_unchanged:
  assumes "fits l x" "fl_sizes l = [q, k, v]" "fl_tp_size l = 1" "\<not> fl_skip_bias_add l"
  shows "rbind (new_xla_qkv l) (\<lambda>m. qkv_forward m x) = fused_forward l x"
  using qkv_value [OF assms(1-3)] assms(4) by auto

theorem qkv_layer_unchanged_witness:
  "rbind (new_xla_qkv \<lparr> fl_weight = [[1], [2], [3], [4]], fl_bias = Some [5, 6, 7, 8], fl_sizes = [2, 1, 1], fl_skip_bias_add = False,
       fl_return_bias = False, fl_tp_size = 1, fl_mark = None \<rparr>) (\<lambda>m. qkv_forward m [10]) = Inr (Out [15, 26, 37, 48])"
  using qkv_layer_unchanged [of "\<lparr> fl_weight = [[1], [2], [3], [4]], fl_bias = Some [5, 6, 7, 8], fl_sizes = [2, 1, 1], fl_skip_bias_add = False,
       fl_return_bias = False, fl_tp_size = 1, fl_mark = None \<rparr>" "[10]" 2 1 1]
  by (simp add: fits_def fused_forward_def linear_def add_bias_def inner_def)

text \<open>One that returns its bias instead of adding it raises on every input: the biases that are concatenated are the ones
  that were just set to None.\<close>

theorem qkv_layer_raises_when_returning_bias:
  assumes "fits l x" "fl_sizes l = [q, k, v]" "fl_tp_size l = 1" "fl_skip_bias_add l"
  shows "rbind (new_xla_qkv l) (\<lambda>m. qkv_forward m x) = Inl TypeError"
  using qkv_value [OF assms(1-3)] assms(4) by auto

theorem qkv_layer_raises_when_returning_bias_witness:
  "rbind (new_xla_qkv \<lparr> fl_weight = [[1], [2], [3], [4]], fl_bias = Some [5, 6, 7, 8], fl_sizes = [2, 1, 1], fl_skip_bias_add = True,
       fl_return_bias = True, fl_tp_size = 1, fl_mark = None \<rparr>) (\<lambda>m. qkv_forward m [10]) = Inl TypeError"
  by (rule qkv_layer_raises_when_returning_bias [of _ _ 2 1 1]) (simp_all add: fits_def)

section \<open>The sharded model\<close>

text \<open>The input of a layer: a vector, or a token for an embedding.\<close>

datatype layer_input = Vec vector | Token nat

text \<open>What a layer computes; the constraints on the output of an embedding do not change its values.\<close>

fun layer_forward :: "('o \<Rightarrow> layer_input \<Rightarrow> layer_out res) \<Rightarrow> 'o layer \<Rightarrow> layer_input \<Rightarrow> layer_out res" where
  "layer_forward f (FusedLinear l) (Vec x) = fused_forward l x"
| "layer_forward f (XlaMerged m) (Vec x) = merged_forward m x"
| "layer_forward f (XlaQKV m) (Vec x) = qkv_forward m x"
| "layer_forward f (Embedding w _ _) (Token t) = rbind (lget w t) (\<lambda>row. Inr (Out row))"
| "layer_forward f (OtherLayer a) i = f a i"
| "layer_forward f _ _ = Inl TypeError"

fun module_at :: "'o module_tree \<Rightarrow> string list \<Rightarrow> 'o module_tree option" where
  "module_at m [] = Some m"
| "module_at m (n # ns) = (case dget (children m) n of Some c \<Rightarrow> module_at c ns | None \<Rightarrow> None)"

definition wrapped_classes :: "string set" where
  "wrapped_classes = {''MergedColumnParallelLinear'', ''QKVParallelLinear'', ''ColumnParallelLinear'', ''RowParallelLinear'',
     ''ParallelLMHead'', ''VocabParallelEmbedding''}"

text \<open>A module whose class says what it is.\<close>

definition class_ok :: "'o module_tree \<Rightarrow> bool" where
  "class_ok m \<longleftrightarrow>
     (class_name m = ''QKVParallelLinear'' \<longrightarrow>
        (\<exists>l q k v. content m = FusedLinear l \<and> fl_tp_size l = 1 \<and> fl_sizes l = [q, k, v] \<and> \<not> fl_skip_bias_add l)) \<and>
     (class_name m \<in> {''MergedColumnParallelLinear'', ''ColumnParallelLinear'', ''RowParallelLinear'', ''ParallelLMHead''} \<longrightarrow>
        (\<exists>l. content m = FusedLinear l)) \<and>
     (class_name m = ''VocabParallelEmbedding'' \<longrightarrow> (\<exists>w mark hooks. content m = Embedding w mark hooks)) \<and>
     (class_name m \<in> {''MergedColumnParallelLinear'', ''QKVParallelLinear''} \<longrightarrow> children m = []) \<and>
     distinct (map fst (children m))"

definition input_fits :: "'o module_tree \<Rightarrow> layer_input \<Rightarrow> bool" where
  "input_fits m i \<longleftrightarrow>
     (case (content m, i) of
        (FusedLinear l, Vec x) \<Rightarrow> class_name m \<in> {''MergedColumnParallelLinear'', ''QKVParallelLinear''} \<longrightarrow> fits l x
      | _ \<Rightarrow> True)"

definition sharded :: "'o layer \<Rightarrow> bool" where
  "sharded c \<longleftrightarrow>
     (case c of FusedLinear l \<Rightarrow> fl_mark l \<noteq> None | Embedding _ mark _ \<Rightarrow> mark \<noteq> None | XlaMerged _ \<Rightarrow> True | XlaQKV _ \<Rightarrow> True | OtherLayer _ \<Rightarrow> False)"

lemma marked_class:
  assumes "c \<in> {''ColumnParallelLinear'', ''RowParallelLinear'', ''ParallelLMHead''}"
  shows "\<exists>spec. map_of (wrapping_funcs mesh) c = Some (mark_weight spec)"
  using assms unfolding wrapping_funcs_def partition_column_parallel_linear_def partition_row_parallel_linear_def partition_parallel_lm_head_def
  by (elim insertE emptyE) (simp_all, blast+)

lemma wrapped_module:
  fixes m :: "'o module_tree"
  assumes ok: "class_ok m" and parent: "p \<or> class_name m \<notin> wrapped_classes"
  shows "\<exists>w. wrap_module mesh p m = Inr w \<and> children w = children m
    \<and> (class_name m \<in> wrapped_classes \<longrightarrow> sharded (content w))
    \<and> (class_name m \<notin> wrapped_classes \<longrightarrow> content w = content m \<and> class_name w = class_name m)
    \<and> (\<forall>i. input_fits m i \<longrightarrow> layer_forward f (content w) i = layer_forward f (content m) i)"
proof -
  consider (merged) "class_name m = ''MergedColumnParallelLinear''" | (qkv) "class_name m = ''QKVParallelLinear''"
    | (marked) "class_name m \<in> {''ColumnParallelLinear'', ''RowParallelLinear'', ''ParallelLMHead''}"
    | (embedding) "class_name m = ''VocabParallelEmbedding''" | (other) "class_name m \<notin> wrapped_classes"
    unfolding wrapped_classes_def by blast
  then show ?thesis
  proof cases
    case merged
    then obtain l where l: "content m = FusedLinear l" "children m = []" using ok by (auto simp: class_ok_def)
    have p using parent merged by (simp add: wrapped_classes_def)
    then have "wrap_module mesh p m = Inr (Module ''XlaMergedColumnParallelLinear'' (XlaMerged (new_xla_merged l True)) [])"
      using merged l by (simp add: wrap_module_def wrapping_funcs_def partition_merged_column_parallel_linear_def)
    moreover have "layer_forward f (XlaMerged (new_xla_merged l True)) i = layer_forward f (content m) i" if i: "input_fits m i" for i
      using i l merged merged_value [of l _ True] by (cases i) (simp_all add: input_fits_def)
    ultimately show ?thesis using l merged by (auto simp: sharded_def wrapped_classes_def)
  next
    case qkv
    then obtain l q k v where l: "content m = FusedLinear l" "fl_tp_size l = 1" "fl_sizes l = [q, k, v]" "\<not> fl_skip_bias_add l" "children m = []"
      using ok by (auto simp: class_ok_def)
    have p using parent qkv by (simp add: wrapped_classes_def)
    obtain x where x: "new_xla_qkv l = Inr x" using l(2,3) by (auto simp: new_xla_qkv_def load_weights_from_qkv_def)
    have "wrap_module mesh p m = Inr (Module ''XlaQKVParallelLinear'' (XlaQKV x) [])"
      using qkv l x \<open>p\<close> by (simp add: wrap_module_def wrapping_funcs_def partition_qkv_parallel_linear_def)
    moreover have "layer_forward f (XlaQKV x) i = layer_forward f (content m) i" if i: "input_fits m i" for i
    proof (cases i)
      case (Vec y)
      then have "fits l y" using i l(1) qkv by (simp add: input_fits_def)
      then show ?thesis using qkv_value [of l y q k v] l x Vec by auto
    qed (simp add: l)
    ultimately show ?thesis using l qkv by (auto simp: sharded_def wrapped_classes_def)
  next
    case marked
    then obtain l where l: "content m = FusedLinear l" using ok by (auto simp: class_ok_def)
    obtain spec where spec: "map_of (wrapping_funcs mesh) (class_name m) = Some (mark_weight spec :: 'o module_tree \<Rightarrow> _)" using marked_class [OF marked] by blast
    have p using parent marked by (auto simp: wrapped_classes_def)
    then have "wrap_module mesh p m = Inr (Module (class_name m) (FusedLinear (l\<lparr>fl_mark := Some spec\<rparr>)) (children m))"
      using spec l by (simp add: wrap_module_def mark_weight_def)
    moreover have "layer_forward f (FusedLinear (l\<lparr>fl_mark := Some spec\<rparr>)) i = layer_forward f (content m) i" for i
      using l by (cases i) (simp_all add: fused_forward_def cong: if_cong)
    ultimately show ?thesis using marked by (auto simp: sharded_def wrapped_classes_def)
  next
    case embedding
    then obtain w mark hooks where l: "content m = Embedding w mark hooks" using ok by (auto simp: class_ok_def)
    have p using parent embedding by (simp add: wrapped_classes_def)
    then obtain s where "wrap_module mesh p m = Inr (Module (class_name m) (Embedding w (Some [None, Some ''batch'']) (hooks @ [s])) (children m))"
      using embedding l by (auto simp: wrap_module_def wrapping_funcs_def partition_vocab_parallel_embedding_def checked_sharding_def
          partition_spec_to_sdy_sharding_def dim_sharding_def)
    moreover have "layer_forward f (Embedding w (Some [None, Some ''batch'']) (hooks @ [s])) i = layer_forward f (content m) i" for i
      using l by (cases i) simp_all
    ultimately show ?thesis using embedding by (auto simp: sharded_def wrapped_classes_def)
  next
    case other
    then have "map_of (wrapping_funcs mesh :: (string \<times> ('o module_tree \<Rightarrow> _)) list) (class_name m) = None" by (auto simp: wrapping_funcs_def wrapped_classes_def)
    then show ?thesis using other by (auto simp: wrap_module_def)
  qed
qed

definition tree_ok :: "'o module_tree \<Rightarrow> bool" where
  "tree_ok m \<longleftrightarrow> (\<forall>path s. module_at m path = Some s \<longrightarrow> class_ok s)"

lemma tree_ok_child:
  assumes "tree_ok m" "(n, c) \<in> set (children m)"
  shows "tree_ok c" "dget (children m) n = Some c"
proof -
  have "class_ok m" using assms(1) unfolding tree_ok_def by (metis module_at.simps(1))
  then show d: "dget (children m) n = Some c" using assms(2) by (simp add: class_ok_def)
  show "tree_ok c" unfolding tree_ok_def
  proof (intro allI impI)
    fix path s assume "module_at c path = Some s"
    then have "module_at m (n # path) = Some s" using d by simp
    then show "class_ok s" using assms(1) unfolding tree_ok_def by blast
  qed
qed

text \<open>A module of the sharded model against the module at the same place of the model.\<close>

definition same_layer :: "('o \<Rightarrow> layer_input \<Rightarrow> layer_out res) \<Rightarrow> 'o module_tree \<Rightarrow> 'o module_tree \<Rightarrow> bool" where
  "same_layer f s s' \<longleftrightarrow>
     (class_name s \<in> wrapped_classes \<longrightarrow> sharded (content s'))
   \<and> (class_name s \<notin> wrapped_classes \<longrightarrow> content s' = content s)
   \<and> (\<forall>i. input_fits s i \<longrightarrow> layer_forward f (content s') i = layer_forward f (content s) i)"

lemma processed:
  fixes m :: "'o module_tree"
  assumes "tree_ok m" "p \<or> class_name m \<notin> wrapped_classes"
  shows "\<exists>m'. process_module mesh p m = Inr m'
    \<and> (\<forall>path s. module_at m path = Some s \<longrightarrow> (\<exists>s'. module_at m' path = Some s' \<and> same_layer f s s'))"
  using assms
proof (induction mesh p m rule: process_module.induct)
  case (1 mesh p m)
  have "class_ok m" using 1(2) unfolding tree_ok_def by (metis module_at.simps(1))
  then obtain w where w: "wrap_module mesh p m = Inr w" "children w = children m" "same_layer f m w"
    using wrapped_module [of m p mesh f] 1(3) unfolding same_layer_def by blast
  define g :: "string \<times> 'o module_tree \<Rightarrow> string \<times> 'o module_tree" where "g = (\<lambda>nc. (fst nc, projr (process_module mesh True (snd nc))))"
  have child: "process_module mesh True c = Inr (snd (g (n, c)))
      \<and> (\<forall>path s. module_at c path = Some s \<longrightarrow> (\<exists>s'. module_at (snd (g (n, c))) path = Some s' \<and> same_layer f s s'))"
    if c: "(n, c) \<in> set (children m)" for n c
    using 1(1) [OF w(1), of "(n, c)" n c] c w(2) tree_ok_child(1) [OF 1(2) c] by (auto simp: g_def)
  have "\<forall>nc \<in> set (children w). (\<lambda>(name, child). rbind (process_module mesh True child) (\<lambda>c. Inr (name, c))) nc = Inr (g nc)"
  proof
    fix nc assume "nc \<in> set (children w)"
    moreover obtain n c where nc: "nc = (n, c)" by fastforce
    ultimately have "process_module mesh True c = Inr (snd (g (n, c)))" using child [of n c] w(2) by simp
    then show "(\<lambda>(name, child). rbind (process_module mesh True child) (\<lambda>c. Inr (name, c))) nc = Inr (g nc)"
      by (cases "process_module mesh True c") (simp_all add: nc g_def)
  qed
  from rmap_all [OF this] have run: "process_module mesh p m = Inr (Module (class_name w) (content w) (map g (children m)))"
    by (subst process_module.simps) (simp add: w)
  have "\<exists>s'. module_at (Module (class_name w) (content w) (map g (children m))) path = Some s' \<and> same_layer f s s'"
    if s: "module_at m path = Some s" for path s
  proof (cases path)
    case Nil
    then show ?thesis using s w(3) by (simp add: same_layer_def)
  next
    case (Cons n ns)
    then obtain c where c: "dget (children m) n = Some c" "module_at c ns = Some s" using s by (auto split: option.splits)
    have "dget (map g cs) k = map_option (\<lambda>c. snd (g (k, c))) (dget cs k)" for cs k by (induction cs) (auto simp: g_def)
    then show ?thesis using child [OF map_of_SomeD [OF c(1)]] c Cons by simp
  qed
  then show ?case using run by blast
qed

text \<open>C8. Sharding a model whose top module is not itself a sharded layer succeeds, and at every place of the module tree
  the sharded model has a layer that computes what the layer of the model computes; every layer whose class is in the
  table is sharded, every other one is untouched.\<close>

theorem sharded_model_computes_the_same:
  assumes "tree_ok m" "class_name m \<notin> wrapped_classes"
  shows "\<exists>m'. shard_model mesh m = Inr m'
    \<and> (\<forall>path s. module_at m path = Some s \<longrightarrow>
        (\<exists>s'. module_at m' path = Some s'
          \<and> (class_name s \<in> wrapped_classes \<longrightarrow> sharded (content s'))
          \<and> (class_name s \<notin> wrapped_classes \<longrightarrow> content s' = content s)
          \<and> (\<forall>i. input_fits s i \<longrightarrow> layer_forward f (content s') i = layer_forward f (content s) i)))"
  using processed [of m False mesh f] assms unfolding shard_model_def same_layer_def by simp

definition ex_model :: "nat module_tree" where
  "ex_model = Module ''Decoder'' (OtherLayer 0)
     [(''gate_up'', Module ''MergedColumnParallelLinear'' (FusedLinear \<lparr> fl_weight = [[1], [2]], fl_bias = None, fl_sizes = [1, 1],
         fl_skip_bias_add = False, fl_return_bias = False, fl_tp_size = 1, fl_mark = None \<rparr>) []),
      (''act'', Module ''SiluAndMul'' (OtherLayer 1) [])]"

lemma ex_model_ok: "tree_ok ex_model"
  unfolding tree_ok_def
proof (intro allI impI)
  fix path s assume s: "module_at ex_model path = Some s"
  have "s = ex_model \<or> (\<exists>n. (n, s) \<in> set (children ex_model))"
  proof (cases path)
    case (Cons n ns)
    then obtain c where c: "dget (children ex_model) n = Some c" "module_at c ns = Some s" using s by (auto split: option.splits)
    have mem: "(n, c) \<in> set (children ex_model)" by (rule map_of_SomeD [OF c(1)])
    then have "children c = []" by (auto simp: ex_model_def)
    then have "s = c" using c(2) by (cases ns) auto
    then show ?thesis using mem by blast
  qed (use s in simp)
  then show "class_ok s" by (auto simp: ex_model_def class_ok_def)
qed

theorem sharded_model_computes_the_same_witness:
  "\<exists>m' s'. shard_model \<lparr> axis_names = [''batch'', ''model''], mesh_shape = [2, 4] \<rparr> ex_model = Inr m'
    \<and> module_at m' [''gate_up''] = Some s' \<and> sharded (content s')
    \<and> layer_forward (\<lambda>_ _. Inl TypeError) (content s') (Vec [5]) = Inr (Out [5, 10])"
proof -
  let ?mesh = "\<lparr> axis_names = [''batch'', ''model''], mesh_shape = [2, 4] \<rparr>" and ?f = "\<lambda>_ _. Inl TypeError :: layer_out res"
  have "class_name ex_model \<notin> wrapped_classes" by (simp add: ex_model_def wrapped_classes_def)
  from sharded_model_computes_the_same [OF ex_model_ok this, of ?mesh ?f] obtain m' where m': "shard_model ?mesh ex_model = Inr m'"
    "\<forall>path s. module_at ex_model path = Some s \<longrightarrow>
        (\<exists>s'. module_at m' path = Some s'
          \<and> (class_name s \<in> wrapped_classes \<longrightarrow> sharded (content s'))
          \<and> (class_name s \<notin> wrapped_classes \<longrightarrow> content s' = content s)
          \<and> (\<forall>i. input_fits s i \<longrightarrow> layer_forward ?f (content s') i = layer_forward ?f (content s) i))" by blast
  let ?l = "\<lparr> fl_weight = [[1], [2]], fl_bias = None, fl_sizes = [1, 1],
         fl_skip_bias_add = False, fl_return_bias = False, fl_tp_size = 1, fl_mark = None \<rparr>"
  let ?s = "Module ''MergedColumnParallelLinear'' (FusedLinear ?l) [] :: nat module_tree"
  have "module_at ex_model [''gate_up''] = Some ?s" by (simp add: ex_model_def)
  then obtain s' where s': "module_at m' [''gate_up''] = Some s'" "class_name ?s \<in> wrapped_classes \<longrightarrow> sharded (content s')"
    "\<forall>i. input_fits ?s i \<longrightarrow> layer_forward ?f (content s') i = layer_forward ?f (content ?s) i" using m'(2) by blast
  have "input_fits ?s (Vec [5])" by (simp add: input_fits_def fits_def)
  then have "layer_forward ?f (content s') (Vec [5]) = layer_forward ?f (content ?s) (Vec [5])" using s'(3) by blast
  also have "\<dots> = Inr (Out [5, 10])" by (simp add: fused_forward_def linear_def add_bias_def inner_def)
  finally show ?thesis using m'(1) s'(1,2) by (auto simp: wrapped_classes_def)
qed

end
