(* ===== verification/MMInputs.thy ===== *)
theory MMInputs
  imports Paddings
begin

text \<open>
  The multimodal inputs of a step in \<open>model_runner.py\<close>: \<open>_execute_mm_encoder\<close>, which runs the encoder on the
  items that are scheduled and caches what it returns, and \<open>_gather_mm_embeddings\<close>, which collects the cached
  embeddings for the tokens of the step and marks their positions.

  The grouping of the items by modality is vLLM's and the encoder is the model's: both are arguments. An
  encoder returns one embedding per item, or one tensor with all of them.
\<close>

section \<open>Definitions\<close>

record 'd mm_feature =
  mf_identifier :: string
  mf_data :: "'d option"
  mf_offset :: nat
  mf_length :: nat
  mf_contiguous :: bool

text \<open>\<open>is_embed\<close> is None for a contiguous item.\<close>

record 'd mm_request =
  mr_num_computed_tokens :: nat
  mr_features :: "'d mm_feature list"

datatype 'e encoder_out = Batched "'e list" | PerItem "'e list"

text \<open>What the cache holds: the embedding of an item, or a tensor of several.\<close>

datatype 'e cached_embedding = Item 'e | Batch "'e list"

definition scheduled_feature :: "'d mm_request \<Rightarrow> ('d list \<times> (string \<times> 'd mm_feature) list) \<Rightarrow> nat
    \<Rightarrow> ('d list \<times> (string \<times> 'd mm_feature) list) res" where
  "scheduled_feature r = (\<lambda>(mm_kwargs, mm_hashes_pos) mm_input_id.
     rbind (lget (mr_features r) mm_input_id) (\<lambda>f.
     case mf_data f of
       None \<Rightarrow> Inr (mm_kwargs, mm_hashes_pos)
     | Some d \<Rightarrow> Inr (mm_kwargs @ [d], mm_hashes_pos @ [(mf_identifier f, f)])))"

definition scheduled_items ::
  "(string, 'd mm_request) dict \<Rightarrow> (string, nat list) dict \<Rightarrow> ('d list \<times> (string \<times> 'd mm_feature) list) res" where
  "scheduled_items requests scheduled_encoder_inputs =
     rfold (\<lambda>acc (req_id, encoder_input_ids).
         rbind (ditem requests req_id) (\<lambda>r. rfold (scheduled_feature r) acc encoder_input_ids))
       ([], []) scheduled_encoder_inputs"

definition encoder_outputs ::
  "('d list \<Rightarrow> (nat \<times> 'd list) list) \<Rightarrow> ('d list \<Rightarrow> 'e encoder_out) \<Rightarrow> 'd list \<Rightarrow> 'e cached_embedding list res" where
  "encoder_outputs group_by_modality embed_multimodal mm_kwargs =
     rfold (\<lambda>outs (num_items, group).
         case embed_multimodal group of
           Batched es \<Rightarrow> rbind (rassert (length es = num_items)) (\<lambda>_. Inr (outs @ [Batch es]))
         | PerItem es \<Rightarrow> rbind (rassert (length es = num_items)) (\<lambda>_. Inr (outs @ map Item es)))
       [] (group_by_modality mm_kwargs)"

definition cache_output ::
  "(string, 'e cached_embedding) dict \<Rightarrow> (string \<times> 'd mm_feature) \<times> 'e cached_embedding \<Rightarrow> (string, 'e cached_embedding) dict res" where
  "cache_output cache = (\<lambda>((mm_hash, f), e). rbind (rassert (mf_contiguous f)) (\<lambda>_. Inr (dset cache mm_hash e)))"

definition execute_mm_encoder ::
  "('d list \<Rightarrow> (nat \<times> 'd list) list) \<Rightarrow> ('d list \<Rightarrow> 'e encoder_out) \<Rightarrow> (string, 'd mm_request) dict \<Rightarrow> (string, nat list) dict
     \<Rightarrow> (string, 'e cached_embedding) dict \<Rightarrow> (string, 'e cached_embedding) dict res" where
  "execute_mm_encoder group_by_modality embed_multimodal requests scheduled_encoder_inputs encoder_cache =
     (if scheduled_encoder_inputs = [] then Inr encoder_cache
      else rbind (scheduled_items requests scheduled_encoder_inputs) (\<lambda>(mm_kwargs, mm_hashes_pos).
           rbind (encoder_outputs group_by_modality embed_multimodal mm_kwargs) (\<lambda>outs.
           rfold cache_output encoder_cache (zip mm_hashes_pos outs))))"

text \<open>The features of one request: those that end before the step are skipped, the first that starts after it ends
  the loop.\<close>

fun gather_features ::
  "(string, 'e cached_embedding) dict \<Rightarrow> nat \<Rightarrow> nat \<Rightarrow> nat \<Rightarrow> 'd mm_feature list \<Rightarrow> bool list \<times> 'e cached_embedding list
     \<Rightarrow> (bool list \<times> 'e cached_embedding list) res" where
  "gather_features cache req_start computed scheduled [] st = Inr st"
| "gather_features cache req_start computed scheduled (f # fs) st =
     (if mf_offset f \<ge> computed + scheduled then Inr st
      else if mf_offset f + mf_length f \<le> computed then gather_features cache req_start computed scheduled fs st
      else
        let start_idx = max (int computed - int (mf_offset f)) 0;
            end_idx = min (int computed - int (mf_offset f) + int scheduled) (int (mf_length f))
        in rbind (rassert (start_idx < end_idx)) (\<lambda>_.
           case dget cache (mf_identifier f) of
             None \<Rightarrow> Inl AssertionError
           | Some e \<Rightarrow>
               rbind (rassert (mf_contiguous f)) (\<lambda>_.
               let req_start_pos = int req_start + int (mf_offset f) - int computed
               in gather_features cache req_start computed scheduled fs
                    (slice_fill (fst st) (nat (req_start_pos + start_idx)) (nat (req_start_pos + end_idx)) True, snd st @ [e]))))"

definition gather_request ::
  "(string, 'e cached_embedding) dict \<Rightarrow> (string, 'd mm_request) dict \<Rightarrow> (string, nat) dict
     \<Rightarrow> nat \<times> bool list \<times> 'e cached_embedding list \<Rightarrow> string \<Rightarrow> (nat \<times> bool list \<times> 'e cached_embedding list) res" where
  "gather_request cache requests num_scheduled_tokens = (\<lambda>(req_start, st) req_id.
     rbind (ditem num_scheduled_tokens req_id) (\<lambda>n.
     rbind (ditem requests req_id) (\<lambda>r.
     rbind (gather_features cache req_start (mr_num_computed_tokens r) n (mr_features r) st) (\<lambda>st.
     Inr (req_start + n, st)))))"

definition gather_mm_embeddings ::
  "int list \<Rightarrow> (string, 'e cached_embedding) dict \<Rightarrow> (string, 'd mm_request) dict \<Rightarrow> (string, nat) dict \<Rightarrow> nat \<Rightarrow> string list
     \<Rightarrow> bool list \<Rightarrow> ('e cached_embedding list \<times> bool list) res" where
  "gather_mm_embeddings paddings cache requests num_scheduled_tokens total_tokens req_ids is_mm_embed_cpu =
     rbind (get_padded_token_len paddings (int total_tokens)) (\<lambda>padded_len.
     let padded = nat padded_len in
     let flags = slice_fill is_mm_embed_cpu 0 padded False
     in rbind (rfold (gather_request cache requests num_scheduled_tokens) (0, flags, []) req_ids) (\<lambda>(_, flags, mm_embeds).
        Inr (mm_embeds, take padded flags)))"

text \<open>\<open>embed_input_ids\<close> is the model's. Without multimodal inputs the two arguments are None.\<close>

definition get_model_inputs ::
  "bool \<Rightarrow> ('i \<Rightarrow> 'e cached_embedding list option \<Rightarrow> bool list option \<Rightarrow> 'v) \<Rightarrow> 'i \<Rightarrow> ('e cached_embedding list \<times> bool list) option
     \<Rightarrow> 'i option \<times> 'v option" where
  "get_model_inputs supports_mm_inputs embed_input_ids input_ids mm_embed_inputs =
     (if supports_mm_inputs then
        (case mm_embed_inputs of
           Some (mm_embeds, is_mm_embed) \<Rightarrow> (None, Some (embed_input_ids input_ids (Some mm_embeds) (Some is_mm_embed)))
         | None \<Rightarrow> (None, Some (embed_input_ids input_ids None None)))
      else (Some input_ids, None))"

end
