(* ===== verification/MMInputsProps.thy ===== *)
theory MMInputsProps
  imports MMInputs
begin

text \<open>
  The positions that are marked for a step are exactly those of the scheduled tokens inside a multimodal item,
  and the embeddings are those of the items that overlap the step, in order. Items encoded one by one are
  found in the cache; an encoder that returns one tensor for several items loses all but the first.
\<close>

section \<open>Gathering\<close>

definition in_item :: "'d mm_feature \<Rightarrow> nat \<Rightarrow> bool" where
  "in_item f i \<longleftrightarrow> mf_offset f \<le> i \<and> i < mf_offset f + mf_length f"

definition covered :: "'d mm_request \<Rightarrow> nat \<Rightarrow> bool" where
  "covered r i \<longleftrightarrow> (\<exists>f \<in> set (mr_features r). in_item f i)"

definition overlaps :: "nat \<Rightarrow> nat \<Rightarrow> 'd mm_feature \<Rightarrow> bool" where
  "overlaps computed n f \<longleftrightarrow> mf_offset f < computed + n \<and> computed < mf_offset f + mf_length f"

text \<open>The items of a request follow each other, and those that the step needs are in the cache.\<close>

definition features_ok :: "(string, 'e cached_embedding) dict \<Rightarrow> nat \<Rightarrow> nat \<Rightarrow> 'd mm_feature list \<Rightarrow> bool" where
  "features_ok cache computed n fs \<longleftrightarrow>
     sorted_wrt (\<lambda>f g. mf_offset f + mf_length f \<le> mf_offset g) fs \<and> 0 < n \<and>
     (\<forall>f \<in> set fs. 0 < mf_length f \<and> (overlaps computed n f \<longrightarrow> dget cache (mf_identifier f) \<noteq> None \<and> mf_contiguous f))"

lemma gathered_features:
  assumes "features_ok cache computed n fs"
  shows "\<exists>flags'. gather_features cache start computed n fs (flags, embeds)
      = Inr (flags', embeds @ map (\<lambda>f. the (dget cache (mf_identifier f))) (filter (overlaps computed n) fs))
    \<and> length flags' = length flags
    \<and> (\<forall>i < length flags. flags' ! i \<longleftrightarrow>
          flags ! i \<or> (start \<le> i \<and> i < start + n \<and> (\<exists>f \<in> set fs. in_item f (computed + (i - start)))))"
  using assms
proof (induction fs arbitrary: flags embeds)
  case (Cons f fs)
  have ok: "features_ok cache computed n fs" and n: "0 < n" and len: "0 < mf_length f"
    using Cons.prems by (auto simp: features_ok_def)
  have later: "\<forall>g \<in> set fs. mf_offset f + mf_length f \<le> mf_offset g" using Cons.prems by (auto simp: features_ok_def)
  consider (after) "computed + n \<le> mf_offset f" | (before) "mf_offset f < computed + n" "mf_offset f + mf_length f \<le> computed"
    | (meets) "mf_offset f < computed + n" "computed < mf_offset f + mf_length f" by linarith
  then show ?case
  proof cases
    case after
    have none: "\<not> overlaps computed n g" "\<not> in_item g (computed + (i - start))" if "g \<in> set (f # fs)" "start \<le> i" "i < start + n" for g i
      using that later after len by (auto simp: overlaps_def in_item_def)
    have "filter (overlaps computed n) (f # fs) = []" using none [of _ start] n by (auto simp: filter_empty_conv)
    then show ?thesis using after none(2) by (intro exI [of _ flags]) (auto simp del: filter.simps)
  next
    case before
    obtain flags' where f': "gather_features cache start computed n fs (flags, embeds)
        = Inr (flags', embeds @ map (\<lambda>f. the (dget cache (mf_identifier f))) (filter (overlaps computed n) fs))"
      "length flags' = length flags"
      "\<forall>i < length flags. flags' ! i \<longleftrightarrow>
          flags ! i \<or> (start \<le> i \<and> i < start + n \<and> (\<exists>f \<in> set fs. in_item f (computed + (i - start))))"
      using Cons.IH [OF ok] by blast
    have "\<not> overlaps computed n f" "\<not> in_item f (computed + (i - start))" for i using before by (auto simp: overlaps_def in_item_def)
    then show ?thesis using f' before by (intro exI [of _ flags']) auto
  next
    case meets
    have o: "overlaps computed n f" using meets by (simp add: overlaps_def)
    then obtain e where e: "dget cache (mf_identifier f) = Some e" "mf_contiguous f" using Cons.prems by (auto simp: features_ok_def)
    define lo where "lo = start + (mf_offset f - computed)"
    define hi where "hi = start + min n (mf_offset f + mf_length f - computed)"
    let ?s = "max (int computed - int (mf_offset f)) 0"
      and ?e = "min (int computed - int (mf_offset f) + int n) (int (mf_length f))"
      and ?p = "int start + int (mf_offset f) - int computed"
    have se: "?s < ?e" using meets n len by auto
    have "nat (?p + ?s) = lo" "nat (?p + ?e) = hi" using meets by (auto simp: lo_def hi_def)
    then have step: "gather_features cache start computed n (f # fs) (flags, embeds)
        = gather_features cache start computed n fs (slice_fill flags lo hi True, embeds @ [e])"
      using meets se e by (simp add: Let_def)
    obtain flags' where f': "gather_features cache start computed n fs (slice_fill flags lo hi True, embeds @ [e])
        = Inr (flags', (embeds @ [e]) @ map (\<lambda>f. the (dget cache (mf_identifier f))) (filter (overlaps computed n) fs))"
      "length flags' = length flags"
      "\<forall>i < length flags. flags' ! i \<longleftrightarrow>
          slice_fill flags lo hi True ! i \<or> (start \<le> i \<and> i < start + n \<and> (\<exists>f \<in> set fs. in_item f (computed + (i - start))))"
      using Cons.IH [OF ok, of "slice_fill flags lo hi True" "embeds @ [e]"] by auto
    have here: "lo \<le> i \<and> i < hi \<longleftrightarrow> start \<le> i \<and> i < start + n \<and> in_item f (computed + (i - start))" for i
      using meets by (auto simp: lo_def hi_def in_item_def)
    have "flags' ! i \<longleftrightarrow> flags ! i \<or> (start \<le> i \<and> i < start + n \<and> (\<exists>f \<in> set (f # fs). in_item f (computed + (i - start))))"
      if i: "i < length flags" for i
      using f'(3) i here [of i] by (auto simp: nth_slice_fill)
    then show ?thesis using step f'(1,2) o e by (intro exI [of _ flags']) (simp del: gather_features.simps)
  qed
qed (simp add: features_ok_def)

text \<open>The requests of the step with their numbers of scheduled tokens, one after the other from a position on.\<close>

fun marked :: "nat \<Rightarrow> ('d mm_request \<times> nat) list \<Rightarrow> nat \<Rightarrow> bool" where
  "marked start [] i \<longleftrightarrow> False"
| "marked start ((r, n) # rs) i \<longleftrightarrow>
     (start \<le> i \<and> i < start + n \<and> covered r (mr_num_computed_tokens r + (i - start))) \<or> marked (start + n) rs i"

lemma marked_from: "marked start rs i \<Longrightarrow> start \<le> i \<and> i < start + sum_list (map snd rs)"
  by (induction start rs i rule: marked.induct) auto

lemma marked_at:
  assumes "k < length rs" "rs ! k = (r, n)" "j < n"
  shows "marked start rs (start + sum_list (map snd (take k rs)) + j) \<longleftrightarrow> covered r (mr_num_computed_tokens r + j)"
  using assms
proof (induction rs arbitrary: k start)
  case (Cons q rs)
  obtain r0 n0 where q: "q = (r0, n0)" by (cases q)
  show ?case
  proof (cases k)
    case 0
    then show ?thesis using Cons.prems q marked_from [of "start + n" rs "start + j"] by auto
  next
    case (Suc k')
    have "marked (start + n0) rs (start + n0 + sum_list (map snd (take k' rs)) + j) \<longleftrightarrow> covered r (mr_num_computed_tokens r + j)"
      using Cons.prems Suc by (intro Cons.IH) auto
    then show ?thesis by (simp add: q Suc add.assoc)
  qed
qed simp

definition step_embeds :: "(string, 'e cached_embedding) dict \<Rightarrow> ('d mm_request \<times> nat) list \<Rightarrow> 'e cached_embedding list" where
  "step_embeds cache rs =
     concat (map (\<lambda>(r, n). map (\<lambda>f. the (dget cache (mf_identifier f)))
       (filter (overlaps (mr_num_computed_tokens r) n) (mr_features r))) rs)"

definition mm_step_ok ::
  "(string, 'e cached_embedding) dict \<Rightarrow> (string, 'd mm_request) dict \<Rightarrow> (string, nat) dict \<Rightarrow> string list \<Rightarrow> ('d mm_request \<times> nat) list \<Rightarrow> bool" where
  "mm_step_ok cache requests scheduled req_ids rs \<longleftrightarrow>
     list_all2 (\<lambda>id (r, n). dget requests id = Some r \<and> dget scheduled id = Some n
       \<and> features_ok cache (mr_num_computed_tokens r) n (mr_features r)) req_ids rs"

lemma gathered_requests:
  assumes "mm_step_ok cache requests scheduled req_ids rs"
  shows "\<exists>flags'. rfold (gather_request cache requests scheduled) (start, flags, embeds) req_ids
      = Inr (start + sum_list (map snd rs), flags', embeds @ step_embeds cache rs)
    \<and> length flags' = length flags \<and> (\<forall>i < length flags. flags' ! i \<longleftrightarrow> flags ! i \<or> marked start rs i)"
  using assms unfolding mm_step_ok_def
proof (induction req_ids rs arbitrary: start flags embeds rule: list_all2_induct)
  case (Cons id ids q rs)
  obtain r n where q: "q = (r, n)" by (cases q)
  have r: "dget requests id = Some r" "dget scheduled id = Some n" "features_ok cache (mr_num_computed_tokens r) n (mr_features r)"
    using Cons.hyps(1) by (simp_all add: q)
  let ?new = "map (\<lambda>f. the (dget cache (mf_identifier f))) (filter (overlaps (mr_num_computed_tokens r) n) (mr_features r))"
  obtain flags1 where f1: "gather_features cache start (mr_num_computed_tokens r) n (mr_features r) (flags, embeds) = Inr (flags1, embeds @ ?new)"
    "length flags1 = length flags"
    "\<forall>i < length flags. flags1 ! i \<longleftrightarrow> flags ! i \<or> (start \<le> i \<and> i < start + n \<and> covered r (mr_num_computed_tokens r + (i - start)))"
    using gathered_features [OF r(3), of start flags embeds] unfolding covered_def by blast
  obtain flags' where f': "rfold (gather_request cache requests scheduled) (start + n, flags1, embeds @ ?new) ids
      = Inr (start + n + sum_list (map snd rs), flags', (embeds @ ?new) @ step_embeds cache rs)"
    "length flags' = length flags1" "\<forall>i < length flags1. flags' ! i \<longleftrightarrow> flags1 ! i \<or> marked (start + n) rs i"
    using Cons.IH by blast
  have "gather_request cache requests scheduled (start, flags, embeds) id = Inr (start + n, flags1, embeds @ ?new)"
    using r f1(1) by (simp add: gather_request_def ditem_def)
  then show ?case using f' f1(2,3) by (intro exI [of _ flags']) (auto simp: q step_embeds_def)
qed (simp add: step_embeds_def)

lemma gathered_step:
  assumes ok: "mm_step_ok cache requests scheduled req_ids rs"
    and pad: "get_padded_token_len paddings (int total_tokens) = Inr (int padded)" "padded \<le> length buffer"
    and tot: "total_tokens = sum_list (map snd rs)" "total_tokens \<le> padded"
  shows "\<exists>flags. gather_mm_embeddings paddings cache requests scheduled total_tokens req_ids buffer = Inr (step_embeds cache rs, flags)
    \<and> length flags = padded \<and> (\<forall>i < padded. flags ! i \<longleftrightarrow> marked 0 rs i)"
proof -
  obtain flags' where f': "rfold (gather_request cache requests scheduled) (0, slice_fill buffer 0 padded False, []) req_ids
      = Inr (sum_list (map snd rs), flags', step_embeds cache rs)"
    "length flags' = length buffer" "\<forall>i < length buffer. flags' ! i \<longleftrightarrow> slice_fill buffer 0 padded False ! i \<or> marked 0 rs i"
    using gathered_requests [OF ok, of 0 "slice_fill buffer 0 padded False" "[]"] by auto
  have "take padded flags' ! i \<longleftrightarrow> marked 0 rs i" if "i < padded" for i
    using that f'(2,3) pad(2) by (simp add: nth_slice_fill)
  then show ?thesis using f' pad by (intro exI [of _ "take padded flags'"]) (simp add: gather_mm_embeddings_def)
qed

text \<open>C18. In the inputs of a step the positions of exactly those scheduled tokens are marked that lie in a multimodal
  item, whatever the buffer held before, and no position of the padding; the embeddings are those of the items
  that overlap the scheduled tokens, request by request in their order.\<close>

theorem multimodal_positions_exact:
  assumes "mm_step_ok cache requests scheduled req_ids rs"
    and "get_padded_token_len paddings (int total_tokens) = Inr (int padded)" "padded \<le> length buffer"
    and "total_tokens = sum_list (map snd rs)" "total_tokens \<le> padded"
  shows "\<exists>flags. gather_mm_embeddings paddings cache requests scheduled total_tokens req_ids buffer = Inr (step_embeds cache rs, flags)
    \<and> length flags = padded
    \<and> (\<forall>k r n j. k < length rs \<and> rs ! k = (r, n) \<and> j < n \<longrightarrow>
          (flags ! (sum_list (map snd (take k rs)) + j) \<longleftrightarrow> covered r (mr_num_computed_tokens r + j)))
    \<and> (\<forall>i. total_tokens \<le> i \<and> i < padded \<longrightarrow> \<not> flags ! i)"
proof -
  obtain flags where f: "gather_mm_embeddings paddings cache requests scheduled total_tokens req_ids buffer = Inr (step_embeds cache rs, flags)"
    "length flags = padded" "\<forall>i < padded. flags ! i \<longleftrightarrow> marked 0 rs i"
    using gathered_step [OF assms] by blast
  have row: "flags ! (sum_list (map snd (take k rs)) + j) \<longleftrightarrow> covered r (mr_num_computed_tokens r + j)"
    if k: "k < length rs" "rs ! k = (r, n)" "j < n" for k r n j
  proof -
    have "sum_list (map snd rs) = sum_list (map snd (take k rs)) + (n + sum_list (map snd (drop (Suc k) rs)))"
      using arg_cong [OF id_take_nth_drop [OF k(1)], where f = "\<lambda>rs. sum_list (map snd rs)"] k(2) by simp
    then have "sum_list (map snd (take k rs)) + j < padded" using k(3) assms(4,5) by linarith
    then show ?thesis using f(3) marked_at [OF k, of 0] by simp
  qed
  have rest: "\<not> flags ! i" if "total_tokens \<le> i" "i < padded" for i
    using f(3) that marked_from [of 0 rs i] assms(4) by auto
  show ?thesis using f(1,2) row rest by (intro exI [of _ flags]) blast
qed

section \<open>Whole items\<close>

definition whole_items :: "'d mm_request \<times> nat \<Rightarrow> bool" where
  "whole_items = (\<lambda>(r, n). sorted_wrt (\<lambda>f g. mf_offset f + mf_length f \<le> mf_offset g) (mr_features r)
     \<and> (\<forall>f \<in> set (mr_features r). overlaps (mr_num_computed_tokens r) n f \<longrightarrow>
          mr_num_computed_tokens r \<le> mf_offset f \<and> mf_offset f + mf_length f \<le> mr_num_computed_tokens r + n))"

lemma in_window_overlaps: "in_item f i \<Longrightarrow> c \<le> i \<Longrightarrow> i < c + n \<Longrightarrow> overlaps c n f"
  by (auto simp: in_item_def overlaps_def)

lemma count_items:
  assumes "sorted_wrt (\<lambda>f g. mf_offset f + mf_length f \<le> mf_offset g) fs"
    and "\<forall>f \<in> set fs. overlaps c n f \<longrightarrow> c \<le> mf_offset f \<and> mf_offset f + mf_length f \<le> c + n"
  shows "card {i. c \<le> i \<and> i < c + n \<and> (\<exists>f \<in> set fs. in_item f i)} = sum_list (map mf_length (filter (overlaps c n) fs))"
  using assms
proof (induction fs)
  case (Cons f fs)
  let ?A = "{i. c \<le> i \<and> i < c + n \<and> in_item f i}" and ?B = "{i. c \<le> i \<and> i < c + n \<and> (\<exists>f \<in> set fs. in_item f i)}"
  have split: "{i. c \<le> i \<and> i < c + n \<and> (\<exists>g \<in> set (f # fs). in_item g i)} = ?A \<union> ?B" by auto
  have "?A \<inter> ?B = {}" using Cons.prems(1) by (fastforce simp: in_item_def)
  moreover have "finite ?A" "finite ?B" by (rule finite_subset [of _ "{..< c + n}"], auto)+
  ultimately have "card (?A \<union> ?B) = card ?A + card ?B" by (intro card_Un_disjoint)
  moreover have "card ?A = (if overlaps c n f then mf_length f else 0)"
  proof (cases "overlaps c n f")
    case True
    then have "?A = {mf_offset f ..< mf_offset f + mf_length f}" using Cons.prems(2) by (auto simp: in_item_def)
    then show ?thesis using True by simp
  next
    case False
    then have "?A = {}" using in_window_overlaps [of f _ c n] by blast
    then show ?thesis using False by (metis card.empty)
  qed
  moreover have "card ?B = sum_list (map mf_length (filter (overlaps c n) fs))" using Cons by auto
  ultimately show ?case unfolding split by simp
qed simp

lemma count_covered:
  assumes "whole_items (r, n)"
  shows "card {i. start \<le> i \<and> i < start + n \<and> covered r (mr_num_computed_tokens r + (i - start))}
    = sum_list (map mf_length (filter (overlaps (mr_num_computed_tokens r) n) (mr_features r)))"
proof -
  let ?c = "mr_num_computed_tokens r"
  have "card {i. start \<le> i \<and> i < start + n \<and> covered r (?c + (i - start))} = card {i. ?c \<le> i \<and> i < ?c + n \<and> (\<exists>f \<in> set (mr_features r). in_item f i)}"
  proof -
    let ?J = "{j. j < n \<and> covered r (?c + j)}"
    have "{i. start \<le> i \<and> i < start + n \<and> covered r (?c + (i - start))} = (\<lambda>j. start + j) ` ?J"
    proof (intro set_eqI iffI)
      fix i assume "i \<in> {i. start \<le> i \<and> i < start + n \<and> covered r (?c + (i - start))}"
      then show "i \<in> (\<lambda>j. start + j) ` ?J" by (intro image_eqI [of _ _ "i - start"]) auto
    qed auto
    moreover have "{i. ?c \<le> i \<and> i < ?c + n \<and> (\<exists>f \<in> set (mr_features r). in_item f i)} = (\<lambda>j. ?c + j) ` ?J"
    proof (intro set_eqI iffI)
      fix i assume "i \<in> {i. ?c \<le> i \<and> i < ?c + n \<and> (\<exists>f \<in> set (mr_features r). in_item f i)}"
      then show "i \<in> (\<lambda>j. ?c + j) ` ?J" by (intro image_eqI [of _ _ "i - ?c"]) (auto simp: covered_def)
    qed (auto simp: covered_def)
    ultimately show ?thesis by (simp add: card_image)
  qed
  then show ?thesis using count_items [of "mr_features r" ?c n] assms by (simp add: whole_items_def)
qed

lemma count_marked:
  assumes "\<forall>q \<in> set rs. whole_items q"
  shows "card {i. marked start rs i}
    = sum_list (map (\<lambda>(r, n). sum_list (map mf_length (filter (overlaps (mr_num_computed_tokens r) n) (mr_features r)))) rs)"
  using assms
proof (induction rs arbitrary: start)
  case (Cons q rs)
  obtain r n where q: "q = (r, n)" by (cases q)
  let ?A = "{i. start \<le> i \<and> i < start + n \<and> covered r (mr_num_computed_tokens r + (i - start))}" and ?B = "{i. marked (start + n) rs i}"
  have "{i. marked start (q # rs) i} = ?A \<union> ?B" by (auto simp: q)
  moreover have "?A \<inter> ?B = {}" using marked_from [of "start + n" rs] by fastforce
  moreover have "finite ?A" by (rule finite_subset [of _ "{..< start + n}"]) auto
  moreover have "finite ?B"
    by (rule finite_subset [of _ "{..< start + n + sum_list (map snd rs)}"]) (use marked_from [of "start + n" rs] in fastforce, simp)
  ultimately have "card {i. marked start (q # rs) i} = card ?A + card ?B" by (simp add: card_Un_disjoint)
  moreover have "whole_items (r, n)" "\<forall>q \<in> set rs. whole_items q" using Cons.prems by (simp_all add: q)
  ultimately show ?case using count_covered [of r n start] Cons.IH [of "start + n"] by (simp add: q)
next
  case Nil
  have "Collect (marked start []) = {}" by (rule equals0I) simp
  then show ?case by simp
qed

text \<open>When only whole items are scheduled, as many positions are marked as the gathered items have embeddings, so that
  every marked position receives one.\<close>

theorem whole_items_fill_their_positions:
  assumes "mm_step_ok cache requests scheduled req_ids rs" "\<forall>q \<in> set rs. whole_items q"
    and "get_padded_token_len paddings (int total_tokens) = Inr (int padded)" "padded \<le> length buffer"
    and "total_tokens = sum_list (map snd rs)" "total_tokens \<le> padded"
  shows "\<exists>mm_embeds flags. gather_mm_embeddings paddings cache requests scheduled total_tokens req_ids buffer = Inr (mm_embeds, flags)
    \<and> card {i. i < length flags \<and> flags ! i}
      = sum_list (map (\<lambda>(r, n). sum_list (map mf_length (filter (overlaps (mr_num_computed_tokens r) n) (mr_features r)))) rs)
    \<and> length mm_embeds = sum_list (map (\<lambda>(r, n). length (filter (overlaps (mr_num_computed_tokens r) n) (mr_features r))) rs)"
proof -
  obtain flags where f: "gather_mm_embeddings paddings cache requests scheduled total_tokens req_ids buffer = Inr (step_embeds cache rs, flags)"
    "length flags = padded" "\<forall>i < padded. flags ! i \<longleftrightarrow> marked 0 rs i"
    using gathered_step [OF assms(1,3-6)] by blast
  have "{i. i < length flags \<and> flags ! i} = {i. marked 0 rs i}" using f(2,3) marked_from [of 0 rs] assms(5,6) by fastforce
  moreover have "length (step_embeds cache rs) = sum_list (map (\<lambda>(r, n). length (filter (overlaps (mr_num_computed_tokens r) n) (mr_features r))) rs)"
    by (induction rs) (auto simp: step_embeds_def)
  ultimately show ?thesis using f(1) count_marked [OF assms(2), of 0] by auto
qed

section \<open>Encoding\<close>

definition request_items :: "(string, 'd mm_request) dict \<Rightarrow> string \<times> nat list \<Rightarrow> 'd mm_feature list" where
  "request_items requests = (\<lambda>(id, ids). filter (\<lambda>f. mf_data f \<noteq> None) (map (\<lambda>i. mr_features (the (dget requests id)) ! i) ids))"

definition inputs_ok :: "(string, 'd mm_request) dict \<Rightarrow> (string, nat list) dict \<Rightarrow> bool" where
  "inputs_ok requests sched \<longleftrightarrow>
     (\<forall>(id, ids) \<in> set sched. \<exists>r. dget requests id = Some r \<and> (\<forall>i \<in> set ids. i < length (mr_features r)))"

lemma scheduled_feature_items:
  "\<forall>i \<in> set ids. i < length (mr_features r) \<Longrightarrow>
   rfold (scheduled_feature r) (ds, hs) ids
     = Inr (ds @ map (\<lambda>f. the (mf_data f)) (filter (\<lambda>f. mf_data f \<noteq> None) (map (\<lambda>i. mr_features r ! i) ids)),
            hs @ map (\<lambda>f. (mf_identifier f, f)) (filter (\<lambda>f. mf_data f \<noteq> None) (map (\<lambda>i. mr_features r ! i) ids)))"
  by (induction ids arbitrary: ds hs) (auto simp: scheduled_feature_def split: option.splits)

lemma scheduled_items_are:
  assumes "inputs_ok requests sched"
  shows "scheduled_items requests sched
    = Inr (map (\<lambda>f. the (mf_data f)) (concat (map (request_items requests) sched)),
           map (\<lambda>f. (mf_identifier f, f)) (concat (map (request_items requests) sched)))"
proof -
  have "rfold (\<lambda>acc (req_id, encoder_input_ids). rbind (ditem requests req_id) (\<lambda>r. rfold (scheduled_feature r) acc encoder_input_ids)) (ds, hs) sched
    = Inr (ds @ map (\<lambda>f. the (mf_data f)) (concat (map (request_items requests) sched)),
           hs @ map (\<lambda>f. (mf_identifier f, f)) (concat (map (request_items requests) sched)))" for ds hs
    using assms
  proof (induction sched arbitrary: ds hs)
    case (Cons q sched)
    obtain id ids where q: "q = (id, ids)" by (cases q)
    obtain r where r: "dget requests id = Some r" "\<forall>i \<in> set ids. i < length (mr_features r)" using Cons.prems by (auto simp: inputs_ok_def q)
    have "inputs_ok requests sched" using Cons.prems by (simp add: inputs_ok_def)
    then show ?case using Cons.IH r scheduled_feature_items [OF r(2)] by (simp add: q ditem_def request_items_def)
  qed simp
  from this [of "[]" "[]"] show ?thesis by (simp add: scheduled_items_def)
qed

text \<open>The grouping keeps the items in their order.\<close>

definition grouping_ok :: "('d list \<Rightarrow> (nat \<times> 'd list) list) \<Rightarrow> bool" where
  "grouping_ok grp \<longleftrightarrow> (\<forall>xs. concat (map snd (grp xs)) = xs \<and> (\<forall>(n, g) \<in> set (grp xs). n = length g))"

lemma outputs_per_item:
  assumes "grouping_ok grp" "\<forall>ds. emb ds = PerItem (map enc ds)"
  shows "encoder_outputs grp emb xs = Inr (map (\<lambda>d. Item (enc d)) xs)"
proof -
  have "rfold (\<lambda>outs (num_items, group).
         case emb group of
           Batched es \<Rightarrow> rbind (rassert (length es = num_items)) (\<lambda>_. Inr (outs @ [Batch es]))
         | PerItem es \<Rightarrow> rbind (rassert (length es = num_items)) (\<lambda>_. Inr (outs @ map Item es))) outs gs
      = Inr (outs @ map (\<lambda>d. Item (enc d)) (concat (map snd gs)))"
    if "\<forall>(n, g) \<in> set gs. n = length g" for gs outs
    using that by (induction gs arbitrary: outs) (auto simp: assms(2) rassert_def)
  then show ?thesis using assms(1) by (simp add: grouping_ok_def encoder_outputs_def)
qed

lemma cached_outputs:
  assumes "\<forall>f \<in> set fs. mf_contiguous f" "\<forall>f \<in> set fs. \<forall>g \<in> set fs. mf_identifier f = mf_identifier g \<longrightarrow> out f = out g"
  shows "\<exists>cache'. rfold cache_output cache (zip (map (\<lambda>f. (mf_identifier f, f)) fs) (map out fs)) = Inr cache'
    \<and> (\<forall>f \<in> set fs. dget cache' (mf_identifier f) = Some (out f))
    \<and> (\<forall>h. h \<notin> mf_identifier ` set fs \<longrightarrow> dget cache' h = dget cache h)"
  using assms
proof (induction fs rule: rev_induct)
  case (snoc f fs)
  have "\<forall>f \<in> set fs. mf_contiguous f" "\<forall>f \<in> set fs. \<forall>g \<in> set fs. mf_identifier f = mf_identifier g \<longrightarrow> out f = out g"
    using snoc.prems unfolding set_append by blast+
  from snoc.IH [OF this] obtain cache' where c: "rfold cache_output cache (zip (map (\<lambda>f. (mf_identifier f, f)) fs) (map out fs)) = Inr cache'"
    "\<forall>f \<in> set fs. dget cache' (mf_identifier f) = Some (out f)"
    "\<forall>h. h \<notin> mf_identifier ` set fs \<longrightarrow> dget cache' h = dget cache h" by blast
  have "rfold cache_output cache (zip (map (\<lambda>f. (mf_identifier f, f)) (fs @ [f])) (map out (fs @ [f]))) = Inr (dset cache' (mf_identifier f) (out f))"
    using c(1) snoc.prems(1) by (simp add: rfold_append cache_output_def)
  moreover have "\<forall>g \<in> set (fs @ [f]). dget (dset cache' (mf_identifier f) (out f)) (mf_identifier g) = Some (out g)"
  proof
    fix g assume g: "g \<in> set (fs @ [f])"
    show "dget (dset cache' (mf_identifier f) (out f)) (mf_identifier g) = Some (out g)"
    proof (cases "mf_identifier g = mf_identifier f")
      case True
      then have "out g = out f" using snoc.prems(2) [rule_format, OF g, of f] by simp
      then show ?thesis using True by simp
    next
      case False
      then show ?thesis using c(2) g by auto
    qed
  qed
  moreover have "\<forall>h. h \<notin> mf_identifier ` set (fs @ [f]) \<longrightarrow> dget (dset cache' (mf_identifier f) (out f)) h = dget cache h" using c(3) by simp
  ultimately show ?case by blast
qed simp

text \<open>With an encoder that returns one embedding per item, every scheduled item is cached under its identifier as
  what the encoder makes of it, whatever the grouping by modality; the other entries of the cache stay.\<close>

theorem scheduled_items_are_cached:
  assumes "inputs_ok requests sched" "sched \<noteq> []" "grouping_ok grp" "\<forall>ds. emb ds = PerItem (map enc ds)"
    and fs: "fs = concat (map (request_items requests) sched)" "\<forall>f \<in> set fs. mf_contiguous f"
      "\<forall>f \<in> set fs. \<forall>g \<in> set fs. mf_identifier f = mf_identifier g \<longrightarrow> mf_data f = mf_data g"
  shows "\<exists>cache'. execute_mm_encoder grp emb requests sched cache = Inr cache'
    \<and> (\<forall>f \<in> set fs. dget cache' (mf_identifier f) = Some (Item (enc (the (mf_data f)))))
    \<and> (\<forall>h. h \<notin> mf_identifier ` set fs \<longrightarrow> dget cache' h = dget cache h)"
proof -
  let ?out = "\<lambda>f. Item (enc (the (mf_data f)))"
  have "\<forall>f \<in> set fs. \<forall>g \<in> set fs. mf_identifier f = mf_identifier g \<longrightarrow> ?out f = ?out g"
  proof (intro ballI impI)
    fix f g assume m: "f \<in> set fs" "g \<in> set fs" "mf_identifier f = mf_identifier g"
    have "mf_data f = mf_data g" by (rule fs(3) [rule_format, OF m])
    then show "?out f = ?out g" by simp
  qed
  from cached_outputs [OF fs(2) this, of cache] obtain cache' where
    c: "rfold cache_output cache (zip (map (\<lambda>f. (mf_identifier f, f)) fs) (map ?out fs)) = Inr cache'"
    "\<forall>f \<in> set fs. dget cache' (mf_identifier f) = Some (?out f)"
    "\<forall>h. h \<notin> mf_identifier ` set fs \<longrightarrow> dget cache' h = dget cache h" by blast
  have "execute_mm_encoder grp emb requests sched cache = Inr cache'"
    using c(1) assms(2) scheduled_items_are [OF assms(1)] outputs_per_item [OF assms(3,4), of "map (\<lambda>f. the (mf_data f)) fs"]
    by (simp add: execute_mm_encoder_def fs(1) comp_def)
  then show ?thesis using c(2,3) by blast
qed

text \<open>With an encoder that returns one tensor for the items of a group, only the first of two items is cached, as the
  whole tensor, and a step that needs both raises.\<close>

theorem batched_encoder_loses_items:
  assumes items: "mf_data f = Some d" "mf_data g = Some e" "mf_contiguous f" "mf_contiguous g" "mf_identifier f \<noteq> mf_identifier g"
    and cache: "dget cache (mf_identifier g) = None"
    and enc: "grp [d, e] = [(2, [d, e])]" "emb [d, e] = Batched [x, y]"
    and step: "r = \<lparr> mr_num_computed_tokens = 0, mr_features = [f, g] \<rparr>" "0 < mf_length f" "0 < mf_length g"
      "mf_offset f + mf_length f \<le> mf_offset g" "mf_offset g + mf_length g \<le> n"
    and pad: "get_padded_token_len paddings (int n) = Inr padded"
  shows "\<exists>cache'. execute_mm_encoder grp emb [(rid, r)] [(rid, [0, 1])] cache = Inr cache'
    \<and> dget cache' (mf_identifier f) = Some (Batch [x, y]) \<and> dget cache' (mf_identifier g) = None
    \<and> gather_mm_embeddings paddings cache' [(rid, r)] [(rid, n)] n [rid] buffer = Inl AssertionError"
proof -
  let ?cache = "dset cache (mf_identifier f) (Batch [x, y])"
  have "execute_mm_encoder grp emb [(rid, r)] [(rid, [0, 1])] cache = Inr ?cache"
    using items enc by (simp add: execute_mm_encoder_def scheduled_items_def scheduled_feature_def encoder_outputs_def cache_output_def
        ditem_def step(1))
  moreover have "dget ?cache (mf_identifier g) = None" using cache items(5) by simp
  moreover have "gather_features ?cache 0 0 n [f, g] st = Inl AssertionError" for st
    using items(3,5) cache step(2-5) by simp
  then have "gather_mm_embeddings paddings ?cache [(rid, r)] [(rid, n)] n [rid] buffer = Inl AssertionError"
    using pad by (simp add: gather_mm_embeddings_def gather_request_def ditem_def step(1))
  ultimately show ?thesis by (intro exI [of _ ?cache]) simp
qed

section \<open>Witnesses\<close>

definition ex_image :: "nat \<Rightarrow> string \<Rightarrow> nat mm_feature" where
  "ex_image start name = \<lparr> mf_identifier = name, mf_data = Some start, mf_offset = start, mf_length = 3, mf_contiguous = True \<rparr>"

definition ex_mm_request :: "nat mm_request" where
  "ex_mm_request = \<lparr> mr_num_computed_tokens = 4, mr_features = [ex_image 0 ''a'', ex_image 5 ''b'', ex_image 20 ''c''] \<rparr>"

definition ex_mm_requests :: "(string, nat mm_request) dict" where
  "ex_mm_requests = [(''r0'', \<lparr> mr_num_computed_tokens = 0, mr_features = [] \<rparr>), (''r1'', ex_mm_request)]"

lemma ex_mm_step:
  "mm_step_ok [(''b'', Item (7 :: nat))] ex_mm_requests [(''r0'', 2), (''r1'', 6)] [''r0'', ''r1'']
     [(\<lparr> mr_num_computed_tokens = 0, mr_features = [] \<rparr>, 2), (ex_mm_request, 6)]"
  by (simp add: mm_step_ok_def ex_mm_requests_def features_ok_def ex_mm_request_def ex_image_def overlaps_def)

lemma ex_mm_padding: "get_padded_token_len [16, 32] (int 8) = Inr (int 16)"
  by (simp add: get_padded_token_len_def bisect_left_def bisect_left_loop.simps Let_def)

theorem multimodal_positions_exact_witness:
  "\<exists>flags. gather_mm_embeddings [16, 32] [(''b'', Item (7 :: nat))] ex_mm_requests [(''r0'', 2), (''r1'', 6)] 8 [''r0'', ''r1'']
      (replicate 32 True) = Inr ([Item 7], flags) \<and> flags ! 3 \<and> \<not> flags ! 2 \<and> \<not> flags ! 9"
proof -
  let ?r0 = "\<lparr> mr_num_computed_tokens = 0, mr_features = [] \<rparr> :: nat mm_request"
  let ?rs = "[(?r0, 2), (ex_mm_request, 6)]"
  have e: "step_embeds [(''b'', Item (7 :: nat))] ?rs = [Item 7]"
    by (simp add: step_embeds_def ex_mm_request_def ex_image_def overlaps_def)
  obtain flags where f: "gather_mm_embeddings [16, 32] [(''b'', Item (7 :: nat))] ex_mm_requests [(''r0'', 2), (''r1'', 6)] 8 [''r0'', ''r1'']
      (replicate 32 True) = Inr (step_embeds [(''b'', Item 7)] ?rs, flags)"
    "\<forall>k r n j. k < length ?rs \<and> ?rs ! k = (r, n) \<and> j < n \<longrightarrow>
          (flags ! (sum_list (map snd (take k ?rs)) + j) \<longleftrightarrow> covered r (mr_num_computed_tokens r + j))"
    "\<forall>i. 8 \<le> i \<and> i < 16 \<longrightarrow> \<not> flags ! i"
    using multimodal_positions_exact [OF ex_mm_step ex_mm_padding, of "replicate 32 True"] by auto
  have "flags ! 3 \<longleftrightarrow> covered ex_mm_request 5" "flags ! 2 \<longleftrightarrow> covered ex_mm_request 4"
    using f(2) [rule_format, of 1 ex_mm_request 6 1] f(2) [rule_format, of 1 ex_mm_request 6 0] by (simp_all add: ex_mm_request_def)
  then show ?thesis using f(1,3) e by (simp add: covered_def in_item_def ex_mm_request_def ex_image_def)
qed

theorem whole_items_fill_their_positions_witness:
  "\<exists>mm_embeds flags. gather_mm_embeddings [16, 32] [(''b'', Item (7 :: nat))] ex_mm_requests [(''r0'', 2), (''r1'', 6)] 8 [''r0'', ''r1'']
      (replicate 32 True) = Inr (mm_embeds, flags) \<and> card {i. i < length flags \<and> flags ! i} = 3 \<and> length mm_embeds = 1"
proof -
  let ?rs = "[(\<lparr> mr_num_computed_tokens = 0, mr_features = [] \<rparr> :: nat mm_request, 2), (ex_mm_request, 6)]"
  have w: "\<forall>q \<in> set ?rs. whole_items q"
    by (simp add: whole_items_def ex_mm_request_def ex_image_def overlaps_def)
  show ?thesis
    using whole_items_fill_their_positions [OF ex_mm_step w ex_mm_padding, of "replicate 32 True"]
    by (simp add: ex_mm_request_def ex_image_def overlaps_def)
qed

theorem scheduled_items_are_cached_witness:
  "\<exists>cache'. execute_mm_encoder (\<lambda>xs. map (\<lambda>x. (1, [x])) xs) (\<lambda>ds. PerItem (map (\<lambda>d. d + 100) ds)) ex_mm_requests [(''r1'', [1])]
      [] = Inr cache' \<and> dget cache' ''b'' = Some (Item 105)"
proof -
  have g: "grouping_ok (\<lambda>xs. map (\<lambda>x. (1, [x])) xs)" by (auto simp: grouping_ok_def comp_def)
  have i: "inputs_ok ex_mm_requests [(''r1'', [1])]" by (simp add: inputs_ok_def ex_mm_requests_def ex_mm_request_def)
  have fs: "[ex_image 5 ''b''] = concat (map (request_items ex_mm_requests) [(''r1'', [1])])"
    by (simp add: request_items_def ex_mm_requests_def ex_mm_request_def ex_image_def)
  show ?thesis
    using scheduled_items_are_cached [OF i _ g _ fs, of "\<lambda>ds. PerItem (map (\<lambda>d. d + 100) ds)" "\<lambda>d. d + 100" "[]"]
    by (auto simp: ex_image_def)
qed

theorem batched_encoder_loses_items_witness:
  "\<exists>cache'. execute_mm_encoder (\<lambda>xs. [(2, xs)]) (\<lambda>_. Batched [1, 2]) [(''r'', \<lparr> mr_num_computed_tokens = 0,
        mr_features = [ex_image 0 ''a'', ex_image 3 ''b''] \<rparr>)] [(''r'', [0, 1])] [] = Inr cache'
    \<and> gather_mm_embeddings [16, 32] cache' [(''r'', \<lparr> mr_num_computed_tokens = 0,
        mr_features = [ex_image 0 ''a'', ex_image 3 ''b''] \<rparr>)] [(''r'', 8)] 8 [''r''] [] = Inl AssertionError"
  using batched_encoder_loses_items [of "ex_image 0 ''a''" 0 "ex_image 3 ''b''" 3 "[]" "\<lambda>xs. [(2, xs)]" "\<lambda>_. Batched [1, 2]" 1 2 _ 8 "[16, 32]"
      "int 16" "''r''" "[]"] ex_mm_padding
  by (auto simp: ex_image_def)

end
