(* ===== verification/SlotMapping.thy ===== *)
theory SlotMapping
  imports InputBatch Tensors
begin

text \<open>
  The slices of the key-value cache that a step writes: method \<open>_get_slot_mapping_metadata\<close> of
  \<open>vllm_tt/model_runner.py\<close>. The scheduled tokens of a request cover a run of its blocks; the
  method returns one slice per block, computed with numpy arrays over all requests at once.
  The theorem compares the slices with the token by token definition of a slot: expanded, they
  are the slots of the scheduled tokens, request after request, in order.

  The numpy arrays hold mathematical integers here; the 32-bit arrays of the code hold indices
  below the number of slots of the cache.
\<close>

section \<open>Numpy operations\<close>

text \<open>An elementwise operation of two arrays, one of which may have a single element.\<close>

definition np_zip :: "('a \<Rightarrow> 'b \<Rightarrow> 'c) \<Rightarrow> 'a list \<Rightarrow> 'b list \<Rightarrow> 'c list res" where
  "np_zip f xs ys =
     (if length xs = length ys then Inr (map2 f xs ys)
      else if length ys = 1 then Inr (map (\<lambda>x. f x (hd ys)) xs)
      else if length xs = 1 then Inr (map (f (hd xs)) ys)
      else Inl ValueError)"

definition prefix_sums :: "int list \<Rightarrow> int list" where
  "prefix_sums xs = map (\<lambda>i. sum_list (take i xs)) [0..<length xs + 1]"

section \<open>The slices\<close>

text \<open>A row of \<open>slot_mapping_slices\<close>: where the slice starts and ends in its block. The first
  block of a request is written from its first new token, the last one up to its last.\<close>

definition trim_slices ::
  "int \<Rightarrow> int list \<Rightarrow> nat list \<Rightarrow> nat list \<Rightarrow> (int \<times> int) list \<Rightarrow> nat \<Rightarrow> (int \<times> int) list res" where
  "trim_slices bs cu_block_lens slices_start slices_end rows req_idx =
     rbind (lget cu_block_lens req_idx) (\<lambda>a.
     rbind (lget slices_start req_idx) (\<lambda>s.
     rbind (tensor_put rows a (\<lambda>(_, y). (int s mod bs, y))) (\<lambda>rows.
     rbind (lget cu_block_lens (req_idx + 1)) (\<lambda>b.
     rbind (lget slices_end req_idx) (\<lambda>e.
     tensor_put rows (b - 1) (\<lambda>(x, _). (x, (int e - 1) mod bs + 1)))))))"

definition slice_metadata :: "int \<Rightarrow> int list \<Rightarrow> (int \<times> int) list \<Rightarrow> (int \<times> int \<times> int) list res" where
  "slice_metadata bs block_numbers rows =
     (let slice_lens = map (\<lambda>(a, b). b - a) rows
      in rbind (np_zip (\<lambda>a n. a + n * bs) (map fst rows) block_numbers) (\<lambda>kv_starts.
         Inr (zip kv_starts (zip (butlast (prefix_sums slice_lens)) slice_lens))))"

definition get_slot_mapping_metadata ::
  "nat \<Rightarrow> nat \<Rightarrow> nat \<Rightarrow> nat list \<Rightarrow> int list list \<Rightarrow> nat \<Rightarrow> nat list \<Rightarrow> (int \<times> int \<times> int) list res" where
  "get_slot_mapping_metadata block_size max_blocks max_num_tokens num_computed table nreqs scheduled =
     (let bs = int block_size; arange = map int [0..<max_num_tokens];
          slices_start = take nreqs num_computed
      in rbind (np_zip (+) slices_start scheduled) (\<lambda>slices_end.
         let local_start = map (\<lambda>s. int s div bs) slices_start;
             local_end = map (\<lambda>e. (int e - 1) div bs) slices_end
         in rbind (np_zip (\<lambda>r b. r * int max_blocks + b) (take nreqs arange) local_start) (\<lambda>global_start.
            rbind (np_zip (\<lambda>e s. e - s + 1) local_end local_start) (\<lambda>block_lens.
            rbind (rguard (\<forall>n \<in> set block_lens. 0 \<le> n) ValueError) (\<lambda>_.
            rbind (np_repeat global_start (map nat block_lens)) (\<lambda>global_start.
            rbind (rguard (block_lens \<noteq> []) ValueError) (\<lambda>_.
            rbind (np_zip (+) global_start (concat (map (\<lambda>n. take (nat n) arange) block_lens)))
              (\<lambda>global_indices.
            rbind (rmap (\<lambda>i. rbind (tensor_index (length (concat table)) i)
                     (\<lambda>j. Inr (concat table ! j))) global_indices) (\<lambda>block_numbers.
            rbind (rfold (trim_slices bs (prefix_sums block_lens) slices_start slices_end)
                     (replicate (nat (sum_list block_lens)) (0, bs)) [0..<nreqs]) (\<lambda>rows.
            slice_metadata bs block_numbers rows))))))))))"

section \<open>The slots of the tokens\<close>

text \<open>Position \<open>p\<close> of request \<open>r\<close> lives in the block that the table gives for \<open>p div block_size\<close>,
  at offset \<open>p mod block_size\<close>.\<close>

definition token_slot :: "nat \<Rightarrow> int list list \<Rightarrow> nat \<Rightarrow> nat \<Rightarrow> int" where
  "token_slot block_size table r p = table ! r ! (p div block_size) * int block_size + int (p mod block_size)"

definition scheduled_slots ::
  "nat \<Rightarrow> int list list \<Rightarrow> nat list \<Rightarrow> nat list \<Rightarrow> nat \<Rightarrow> int list" where
  "scheduled_slots block_size table num_computed scheduled r =
     map (token_slot block_size table r) [num_computed ! r ..< num_computed ! r + scheduled ! r]"

text \<open>What the slices say: the slot in the cache and the index among the new keys, cell by cell.\<close>

definition expand_slices :: "(int \<times> int \<times> int) list \<Rightarrow> (int \<times> int) list" where
  "expand_slices md = concat (map (\<lambda>(kv, new, len). map (\<lambda>j. (kv + int j, new + int j)) [0..<nat len]) md)"

section \<open>Prefix sums and expansion\<close>

lemma np_zip_same [simp]: "length xs = length ys \<Longrightarrow> np_zip f xs ys = Inr (map2 f xs ys)"
  by (simp add: np_zip_def)

lemma prefix_sums_nth: "i \<le> length xs \<Longrightarrow> prefix_sums xs ! i = sum_list (take i xs)"
  by (simp add: prefix_sums_def del: upt_Suc)

lemma length_prefix_sums [simp]: "length (prefix_sums xs) = length xs + 1"
  by (simp add: prefix_sums_def)

lemma butlast_prefix_sums: "butlast (prefix_sums xs) = map (\<lambda>i. sum_list (take i xs)) [0..<length xs]"
  by (simp add: prefix_sums_def)

lemma expand_zip:
  assumes "length kvs = length lens" "\<forall>l \<in> set lens. 0 \<le> l"
  shows "concat (map (\<lambda>(kv, new, len). map (\<lambda>j. (kv + int j, new + int j)) [0..<nat len])
           (zip kvs (zip (map (\<lambda>i. off + sum_list (take i lens)) [0..<length lens]) lens)))
     = zip (concat (map2 (\<lambda>kv len. map (\<lambda>j. kv + int j) [0..<nat len]) kvs lens))
           (map (\<lambda>i. off + int i) [0..<nat (sum_list lens)])"
  using assms
proof (induction kvs lens arbitrary: off rule: list_induct2)
  case Nil
  then show ?case by simp
next
  case (Cons kv kvs len lens)
  have nn: "0 \<le> len" "\<forall>l \<in> set lens. 0 \<le> l" using Cons.prems by auto
  have s: "0 \<le> sum_list lens" using nn(2) by (intro sum_list_nonneg) auto
  have offs: "map (\<lambda>i. off + sum_list (take i (len # lens))) [0..<length (len # lens)]
      = off # map (\<lambda>i. (off + len) + sum_list (take i lens)) [0..<length lens]"
    by (simp add: upt_conv_Cons map_Suc_upt [symmetric] add.assoc del: upt_Suc)
  have split: "map (\<lambda>i. off + int i) [0..<nat (sum_list (len # lens))]
      = map (\<lambda>i. off + int i) [0..<nat len] @ map (\<lambda>i. (off + len) + int i) [0..<nat (sum_list lens)]"
    using nn(1) s by (intro nth_equalityI) (auto simp: nth_append nat_add_distrib)
  have head: "map (\<lambda>j. (kv + int j, off + int j)) [0..<nat len]
      = zip (map (\<lambda>j. kv + int j) [0..<nat len]) (map (\<lambda>i. off + int i) [0..<nat len])"
    by (intro nth_equalityI) auto
  show ?case unfolding offs split using Cons.IH [OF nn(2), of "off + len"]
    by (simp add: head zip_append)
qed

text \<open>A range of positions is the concatenation of its parts in the blocks it crosses.\<close>

lemma range_by_blocks:
  fixes s e bs f l :: nat
  assumes "0 < bs" "s div bs = f" "f \<le> l" "l * bs < e"
  shows "concat (map (\<lambda>i. [max s (i * bs) ..< min e ((i + 1) * bs)]) [f..<l + 1]) = [s..<min e ((l + 1) * bs)]"
  using assms(3,4)
proof (induction l rule: dec_induct)
  case base
  have "f * bs \<le> s" using assms(2) by auto
  then show ?case by (simp add: max_def)
next
  case (step l)
  have fs: "s < (f + 1) * bs" using dividend_less_div_times [OF assms(1), of s] assms(2) by simp
  also have "\<dots> \<le> (l + 1) * bs" using step.hyps by (intro mult_le_mono1) simp
  finally have s: "s < Suc l * bs" by simp
  have "l * bs \<le> Suc l * bs" by simp
  then have "l * bs < e" "Suc l * bs < e" using step.prems by linarith+
  then have "concat (map (\<lambda>i. [max s (i * bs) ..< min e ((i + 1) * bs)]) [f..<Suc l]) = [s..<Suc l * bs]"
    using step.IH by (simp add: min_def)
  moreover have "[max s (Suc l * bs)..<min e ((Suc l + 1) * bs)] = [Suc l * bs..<min e ((Suc l + 1) * bs)]"
    using s by (simp add: max_def)
  moreover have "[s..<Suc l * bs] @ [Suc l * bs..<min e ((Suc l + 1) * bs)] = [s..<min e ((Suc l + 1) * bs)]"
    using s \<open>Suc l * bs < e\<close> by (intro upt_split) auto
  moreover have "[f..<Suc l + 1] = [f..<Suc l] @ [Suc l]" using step.hyps by simp
  ultimately show ?case by (simp only: map_append concat_append list.map concat.simps append_Nil2)
qed

section \<open>The slices of one request\<close>

text \<open>Positions \<open>s\<close> to \<open>e\<close> cross the blocks \<open>s div bs\<close> to \<open>(e - 1) div bs\<close>.\<close>

definition crossed :: "nat \<Rightarrow> nat \<Rightarrow> nat \<Rightarrow> nat list" where
  "crossed bs s e = [s div bs..<(e - 1) div bs + 1]"

definition block_slice :: "nat \<Rightarrow> nat \<Rightarrow> nat \<Rightarrow> nat \<Rightarrow> int \<times> int" where
  "block_slice bs s e i =
     (if i = s div bs then int (s mod bs) else 0,
      if i = (e - 1) div bs then int ((e - 1) mod bs + 1) else int bs)"

lemma crossed_length:
  assumes "s < e"
  shows "int (length (crossed bs s e)) = (int e - 1) div int bs - int s div int bs + 1"
    and "0 < length (crossed bs s e)"
proof -
  have "s div bs \<le> (e - 1) div bs" using assms by (intro div_le_mono) simp
  moreover have "(int e - 1) div int bs = int ((e - 1) div bs)"
    using assms by (simp add: zdiv_int of_nat_diff)
  moreover have "int s div int bs = int (s div bs)" by (simp add: zdiv_int)
  ultimately show "int (length (crossed bs s e)) = (int e - 1) div int bs - int s div int bs + 1"
    and "0 < length (crossed bs s e)"
    by (simp_all add: crossed_def of_nat_diff)
qed

lemma crossed_bounds:
  assumes "0 < bs" "s < e" "i \<in> set (crossed bs s e)"
  shows "i * bs < e" "s < (i + 1) * bs"
proof -
  have i: "s div bs \<le> i" "i \<le> (e - 1) div bs" using assms(3) by (auto simp: crossed_def)
  have "i * bs \<le> (e - 1) div bs * bs" using i(2) by (intro mult_le_mono1)
  also have "\<dots> \<le> e - 1" by simp
  finally show "i * bs < e" using assms(2) by simp
  have "s < (s div bs + 1) * bs" using dividend_less_div_times [OF assms(1), of s] by simp
  also have "\<dots> \<le> (i + 1) * bs" using i(1) by (intro mult_le_mono1) simp
  finally show "s < (i + 1) * bs" .
qed

lemma block_slice_range:
  assumes "0 < bs" "s < e" "i \<in> set (crossed bs s e)"
  shows "int (max s (i * bs)) = int (i * bs) + fst (block_slice bs s e i)"
    and "int (min e ((i + 1) * bs)) = int (i * bs) + snd (block_slice bs s e i)"
proof -
  have i: "s div bs \<le> i" "i \<le> (e - 1) div bs" using assms(3) by (auto simp: crossed_def)
  show "int (max s (i * bs)) = int (i * bs) + fst (block_slice bs s e i)"
  proof (cases "i = s div bs")
    case True
    then have s: "s = i * bs + s mod bs" by simp
    then have "i * bs \<le> s" by linarith
    then have "max s (i * bs) = s" by (rule max_absorb1)
    moreover have "int s = int (i * bs) + int (s mod bs)" using s by linarith
    ultimately show ?thesis using True by (simp add: block_slice_def)
  next
    case False
    then have "s div bs + 1 \<le> i" using i(1) by simp
    then have "(s div bs + 1) * bs \<le> i * bs" by (rule mult_le_mono1)
    moreover have "s < (s div bs + 1) * bs" using dividend_less_div_times [OF assms(1), of s] by simp
    ultimately have "s \<le> i * bs" by simp
    then show ?thesis using False by (simp add: block_slice_def)
  qed
  show "int (min e ((i + 1) * bs)) = int (i * bs) + snd (block_slice bs s e i)"
  proof (cases "i = (e - 1) div bs")
    case True
    have "e - 1 = i * bs + (e - 1) mod bs" using True by simp
    moreover have "(e - 1) mod bs < bs" using assms(1) by simp
    ultimately have e: "e = i * bs + ((e - 1) mod bs + 1)" "e \<le> (i + 1) * bs"
      using assms(2) by (linarith, simp)
    then have "int e = int (i * bs) + int ((e - 1) mod bs + 1)" by linarith
    moreover have "min e ((i + 1) * bs) = e" using e(2) by (rule min_absorb1)
    ultimately show ?thesis using True by (simp add: block_slice_def)
  next
    case False
    then have "i + 1 \<le> (e - 1) div bs" using i(2) by simp
    then have "(i + 1) * bs \<le> (e - 1) div bs * bs" by (rule mult_le_mono1)
    also have "\<dots> \<le> e" by (meson diff_le_self div_times_less_eq_dividend le_trans)
    finally show ?thesis using False by (simp add: block_slice_def min_absorb2)
  qed
qed

lemma block_slice_length:
  assumes "0 < bs" "s < e" "i \<in> set (crossed bs s e)"
  shows "0 < snd (block_slice bs s e i) - fst (block_slice bs s e i)"
    and "snd (block_slice bs s e i) \<le> int bs" "0 \<le> fst (block_slice bs s e i)"
proof -
  have "max s (i * bs) < min e ((i + 1) * bs)" using crossed_bounds [OF assms] assms(1,2) by simp
  then show "0 < snd (block_slice bs s e i) - fst (block_slice bs s e i)"
    using block_slice_range [OF assms] by linarith
  have "(e - 1) mod bs < bs" using assms(1) by simp
  then show "snd (block_slice bs s e i) \<le> int bs" "0 \<le> fst (block_slice bs s e i)"
    by (auto simp: block_slice_def)
qed

lemma crossed_slots:
  assumes "0 < bs" "s < e"
  shows "concat (map (\<lambda>i. map (\<lambda>j. fst (block_slice bs s e i) + table ! r ! i * int bs + int j)
             [0..<nat (snd (block_slice bs s e i) - fst (block_slice bs s e i))]) (crossed bs s e))
     = map (token_slot bs table r) [s..<e]"
proof -
  have piece: "map (\<lambda>j. fst (block_slice bs s e i) + table ! r ! i * int bs + int j)
      [0..<nat (snd (block_slice bs s e i) - fst (block_slice bs s e i))]
    = map (token_slot bs table r) [max s (i * bs)..<min e ((i + 1) * bs)]"
    if i: "i \<in> set (crossed bs s e)" for i
  proof -
    note rg = block_slice_range [OF assms i]
    have len: "nat (snd (block_slice bs s e i) - fst (block_slice bs s e i))
        = min e ((i + 1) * bs) - max s (i * bs)" using rg by linarith
    have "token_slot bs table r (max s (i * bs) + j)
        = fst (block_slice bs s e i) + table ! r ! i * int bs + int j"
      if j: "j < min e ((i + 1) * bs) - max s (i * bs)" for j
    proof -
      let ?p = "max s (i * bs) + j"
      have "i * bs \<le> ?p" "?p < (i + 1) * bs" using j by linarith+
      then have "?p div bs = i" by (intro div_nat_eqI) (simp_all add: mult.commute)
      moreover from this have "int (?p mod bs) = int ?p - int (i * bs)"
        by (metis add_diff_cancel_left' div_mult_mod_eq of_nat_add)
      ultimately show ?thesis using rg(1) by (simp add: token_slot_def)
    qed
    moreover have "[max s (i * bs)..<min e ((i + 1) * bs)] ! j = max s (i * bs) + j"
      if "j < min e ((i + 1) * bs) - max s (i * bs)" for j
      using that by (intro nth_upt) linarith
    ultimately show ?thesis unfolding len by (intro nth_equalityI) (simp_all del: mult_Suc)
  qed
  have "(e - 1) div bs * bs \<le> e - 1" by simp
  moreover have "e - 1 < ((e - 1) div bs + 1) * bs"
    using dividend_less_div_times [OF assms(1), of "e - 1"] by simp
  ultimately have last: "(e - 1) div bs * bs < e" "e \<le> ((e - 1) div bs + 1) * bs"
    using assms(2) by linarith+
  have E: "concat (map (\<lambda>i. [max s (i * bs) ..< min e ((i + 1) * bs)]) (crossed bs s e)) = [s..<e]"
    using range_by_blocks [where bs = bs and s = s and l = "(e - 1) div bs" and e = e, OF assms(1) refl] last assms
    by (simp add: crossed_def div_le_mono min_absorb1 del: upt_Suc)
  have "map (token_slot bs table r) [s..<e] = concat (map (\<lambda>i. map (token_slot bs table r)
      [max s (i * bs) ..< min e ((i + 1) * bs)]) (crossed bs s e))"
    using arg_cong [OF E, of "map (token_slot bs table r)"] by (simp only: map_concat map_map comp_def)
  then show ?thesis using piece by (simp cong: map_cong)
qed

section \<open>All requests\<close>

lemma sum_list_int: "sum_list (map int xs) = int (sum_list xs)"
  by (induction xs) auto

lemma tensor_put_at: "i < length row \<Longrightarrow> tensor_put row (int i) f = Inr (row[i := f (row ! i)])"
  by simp

text \<open>Trimming writes the first and the last slice of a request, which leaves the slices of its
  crossed blocks.\<close>

lemma trim_block:
  fixes bs s e :: nat
  assumes "s < e"
  defines "n \<equiv> length (crossed bs s e)"
  defines "row \<equiv> (replicate n (0, int bs))[0 := (int s mod int bs, int bs)]"
  shows "row[n - 1 := (fst (row ! (n - 1)), (int e - 1) mod int bs + 1)]
    = map (block_slice bs s e) (crossed bs s e)"
proof (rule nth_equalityI)
  have n: "0 < n" using crossed_length(2) [OF assms(1)] by (simp add: n_def)
  show "length (row[n - 1 := (fst (row ! (n - 1)), (int e - 1) mod int bs + 1)])
      = length (map (block_slice bs s e) (crossed bs s e))" by (simp add: row_def n_def)
  fix i assume "i < length (row[n - 1 := (fst (row ! (n - 1)), (int e - 1) mod int bs + 1)])"
  then have i: "i < n" by (simp add: row_def)
  have len: "n = (e - 1) div bs + 1 - s div bs" by (simp add: n_def crossed_def del: upt_Suc)
  have c: "crossed bs s e ! i = s div bs + i" using i len by (simp add: crossed_def del: upt_Suc)
  have "(int e - 1) mod int bs = int ((e - 1) mod bs)" using assms(1) by (simp add: zmod_int of_nat_diff)
  moreover have "i = n - 1 \<longleftrightarrow> s div bs + i = (e - 1) div bs" using i len by linarith
  ultimately show "row[n - 1 := (fst (row ! (n - 1)), (int e - 1) mod int bs + 1)] ! i
      = map (block_slice bs s e) (crossed bs s e) ! i"
    using i n by (auto simp: row_def block_slice_def c n_def [symmetric] nth_list_update zmod_int)
qed

lemma trim_fold:
  fixes S E :: "nat list" and bs :: nat
  defines "lens \<equiv> map2 (\<lambda>s e. int (length (crossed bs s e))) S E"
  assumes "length S = length E" "\<forall>r < length S. S ! r < E ! r" "k \<le> length S"
  shows "rfold (trim_slices (int bs) (prefix_sums lens) S E) (replicate (nat (sum_list lens)) (0, int bs)) [0..<k]
    = Inr (concat (map (\<lambda>r. map (block_slice bs (S ! r) (E ! r)) (crossed bs (S ! r) (E ! r))) [0..<k])
        @ replicate (nat (sum_list (drop k lens))) (0, int bs))"
  using assms(4)
proof (induction k)
  case 0
  then show ?case by simp
next
  case (Suc k)
  let ?s = "S ! k" and ?e = "E ! k"
  define n where "n = length (crossed bs ?s ?e)"
  define P where "P = concat (map (\<lambda>r. map (block_slice bs (S ! r) (E ! r)) (crossed bs (S ! r) (E ! r))) [0..<k])"
  define Q where "Q = replicate (nat (sum_list (drop (Suc k) lens))) (0 :: int, int bs)"
  have k: "k < length S" "k < length E" "k < length lens" using Suc.prems assms(2) by (simp_all add: lens_def)
  have se: "?s < ?e" using assms(3) k by simp
  have lk: "lens ! k = int n" using k assms(2) by (simp add: lens_def n_def)
  have n: "0 < n" using crossed_length(2) [OF se] by (simp add: n_def)
  have nn: "0 \<le> sum_list (drop (Suc k) lens)"
    by (intro sum_list_nonneg) (auto simp: lens_def dest!: in_set_dropD)
  have split: "replicate (nat (sum_list (drop k lens))) (0, int bs) = replicate n (0, int bs) @ Q"
    using nn k(3) lk by (simp add: Q_def Cons_nth_drop_Suc [symmetric] nat_add_distrib replicate_add)
  have "length P = sum_list (map (\<lambda>r. length (crossed bs (S ! r) (E ! r))) [0..<k])"
    by (simp add: P_def length_concat comp_def)
  also have "map (\<lambda>r. length (crossed bs (S ! r) (E ! r))) [0..<k]
      = map (\<lambda>(s, e). length (crossed bs s e)) (take k (zip S E))"
    using k assms(2) by (intro nth_equalityI) simp_all
  finally have "int (length P) = sum_list (take k lens)"
    by (simp add: lens_def take_map [symmetric] sum_list_int [symmetric] comp_def split_def)
  then have cu: "prefix_sums lens ! k = int (length P)"
      "prefix_sums lens ! Suc k = int (length P + n)"
    using k(3) lk by (simp_all add: prefix_sums_nth take_Suc_conv_app_nth)
  define row where "row = (replicate n (0, int bs))[0 := (int ?s mod int bs, int bs)]"
  have put1: "tensor_put (P @ replicate n (0, int bs) @ Q) (int (length P)) (\<lambda>(_, y). (int ?s mod int bs, y))
      = Inr (P @ row @ Q)"
    using n by (simp add: row_def list_update_append nth_append)
  have lr: "length row = n" by (simp add: row_def)
  have put2: "tensor_put (P @ row @ Q) (int (length P + n) - 1) (\<lambda>(x, _). (x, (int ?e - 1) mod int bs + 1))
      = Inr (P @ row[n - 1 := (fst (row ! (n - 1)), (int ?e - 1) mod int bs + 1)] @ Q)"
  proof -
    have i: "int (length P + n) - 1 = int (length P + (n - 1))" using n by simp
    have l: "length P + (n - 1) < length (P @ row @ Q)" "n - 1 < length row" using n lr by simp_all
    show ?thesis unfolding i tensor_put_at [OF l(1)]
      using l(2) by (simp add: list_update_append nth_append case_prod_beta)
  qed
  have "trim_slices (int bs) (prefix_sums lens) S E (P @ replicate n (0, int bs) @ Q) k
      = Inr (P @ map (block_slice bs ?s ?e) (crossed bs ?s ?e) @ Q)"
    using k put1 put2 trim_block [OF se, of bs] by (simp add: trim_slices_def cu n_def [symmetric] row_def [symmetric])
  then show ?case
    using Suc.IH Suc.prems by (simp add: rfold_append split P_def [symmetric] Q_def [symmetric])
qed

lemma length_expanded:
  "length kvs = length lens \<Longrightarrow> \<forall>l \<in> set lens. 0 \<le> l \<Longrightarrow>
   length (concat (map2 (\<lambda>kv len. map (\<lambda>j. kv + int j) [0..<nat len]) kvs lens)) = nat (sum_list lens)"
  by (induction kvs lens rule: list_induct2) (auto simp: nat_add_distrib sum_list_nonneg)

text \<open>What the whole computation returns: the slices of the crossed blocks, request by request.\<close>

lemma slot_mapping_slices:
  fixes bs mb mx N :: nat and C n :: "nat list" and T :: "int list list"
  defines "S \<equiv> take N C" and "E \<equiv> map2 (+) (take N C) n"
  defines "cr \<equiv> (\<lambda>r. crossed bs (S ! r) (E ! r))" and "sl \<equiv> (\<lambda>r. block_slice bs (S ! r) (E ! r))"
  assumes "0 < bs" "0 < N" "length n = N" "N \<le> length C" "N \<le> mx" "N \<le> length T"
    "\<forall>row \<in> set T. length row = mb" "\<forall>r < N. 0 < n ! r \<and> n ! r \<le> mx \<and> C ! r + n ! r \<le> mb * bs"
  shows "get_slot_mapping_metadata bs mb mx C T N n = slice_metadata (int bs)
    (concat (map (\<lambda>r. map (\<lambda>i. T ! r ! i) (cr r)) [0..<N])) (concat (map (\<lambda>r. map (sl r) (cr r)) [0..<N]))"
proof -
  have lSE: "length S = N" "length E = N" using assms(7,8) by (simp_all add: S_def E_def)
  have nthS: "S ! r = C ! r" "E ! r = C ! r + n ! r" if "r < N" for r
    using that assms(7,8) by (simp_all add: S_def E_def)
  have SE: "S ! r < E ! r" "E ! r \<le> mb * bs" if "r < N" for r using that nthS assms(12) by simp_all
  define lens where "lens = map (\<lambda>r. int (length (cr r))) [0..<N]"
  have lens2: "map2 (\<lambda>s e. int (length (crossed bs s e))) S E = lens"
    by (intro nth_equalityI) (simp_all add: lens_def cr_def lSE)
  have ends: "np_zip (+) S n = Inr E" using lSE assms(7) by (simp add: E_def S_def)
  have blens: "np_zip (\<lambda>e s. e - s + 1) (map (\<lambda>e. (int e - 1) div int bs) E) (map (\<lambda>s. int s div int bs) S) = Inr lens"
    using SE crossed_length(1) by (auto intro!: nth_equalityI simp: lens_def cr_def lSE)
  have gstart: "np_zip (\<lambda>r b. r * int mb + b) (take N (map int [0..<mx])) (map (\<lambda>s. int s div int bs) S)
      = Inr (map (\<lambda>r. int (r * mb + S ! r div bs)) [0..<N])"
    using assms(9) by (auto intro!: nth_equalityI simp: lSE zdiv_int)
  have rep: "np_repeat (map (\<lambda>r. int (r * mb + S ! r div bs)) [0..<N]) (map nat lens)
      = Inr (concat (map (\<lambda>r. replicate (length (cr r)) (int (r * mb + S ! r div bs))) [0..<N]))"
    by (simp add: np_repeat_def lens_def zip_map_map comp_def zip_same_conv_map)
  have crl: "length (cr r) \<le> mx" if "r < N" for r
  proof -
    have "(E ! r - 1) div bs \<le> (S ! r + (n ! r - 1) * bs) div bs"
    proof (rule div_le_mono)
      have "(n ! r - 1) * 1 \<le> (n ! r - 1) * bs" using assms(5) by (intro mult_le_mono2) simp
      then show "E ! r - 1 \<le> S ! r + (n ! r - 1) * bs"
        unfolding nthS [OF that] mult_1_right by linarith
    qed
    also have "\<dots> = S ! r div bs + (n ! r - 1)" using assms(5) by simp
    finally have "length (cr r) \<le> n ! r"
      using assms(12) that by (auto simp: cr_def crossed_def simp del: upt_Suc)
    then show ?thesis using assms(12) that le_trans by blast
  qed
  have offs: "concat (map (\<lambda>l. take (nat l) (map int [0..<mx])) lens)
      = concat (map (\<lambda>r. map int [0..<length (cr r)]) [0..<N])"
    using crl by (auto simp: lens_def comp_def take_map intro!: arg_cong [of _ _ concat] map_cong)
  have idx: "np_zip (+) (concat (map (\<lambda>r. replicate (length (cr r)) (int (r * mb + S ! r div bs))) [0..<N]))
        (concat (map (\<lambda>r. map int [0..<length (cr r)]) [0..<N]))
      = Inr (concat (map (\<lambda>r. map (\<lambda>i. int (r * mb + i)) (cr r)) [0..<N]))"
  proof -
    have "map2 (+) (replicate (length (cr r)) (int (r * mb + S ! r div bs))) (map int [0..<length (cr r)])
        = map (\<lambda>i. int (r * mb + i)) (cr r)" for r
      by (intro nth_equalityI) (simp_all add: cr_def crossed_def del: upt_Suc)
    then show ?thesis by (subst np_zip_same) (simp_all add: length_concat comp_def map2_concat)
  qed
  have cell: "r * mb + i < length (concat T) \<and> concat T ! (r * mb + i) = T ! r ! i"
    if "r < N" "i \<in> set (cr r)" for r i
  proof -
    have "i * bs < E ! r"
      using crossed_bounds(1) [OF assms(5) SE(1) [OF that(1)]] that(2) by (simp add: cr_def)
    then have "i * bs < mb * bs" using SE(2) [OF that(1)] by linarith
    then have "i < mb" by (rule mult_less_cancel2 [THEN iffD1, THEN conjunct2])
    then show ?thesis using concat_cell [of T mb r i] assms(10,11) that(1) by auto
  qed
  have bn: "rmap (\<lambda>i. rbind (tensor_index (length (concat T)) i) (\<lambda>j. Inr (concat T ! j)))
        (concat (map (\<lambda>r. map (\<lambda>i. int (r * mb + i)) (cr r)) [0..<N]))
      = Inr (concat (map (\<lambda>r. map (\<lambda>i. T ! r ! i) (cr r)) [0..<N]))"
  proof (subst rmap_all [where g = "\<lambda>i. concat T ! nat i"])
    show "\<forall>x \<in> set (concat (map (\<lambda>r. map (\<lambda>i. int (r * mb + i)) (cr r)) [0..<N])).
        rbind (tensor_index (length (concat T)) x) (\<lambda>j. Inr (concat T ! j)) = Inr (concat T ! nat x)"
      using cell by (auto simp: tensor_index_def simp del: of_nat_add of_nat_mult)
    have "map (\<lambda>i. concat T ! (r * mb + i)) (cr r) = map (\<lambda>i. T ! r ! i) (cr r)" if "r < N" for r
      using cell that by simp
    then show "Inr (map (\<lambda>i. concat T ! nat i) (concat (map (\<lambda>r. map (\<lambda>i. int (r * mb + i)) (cr r)) [0..<N])))
        = (Inr (concat (map (\<lambda>r. map (\<lambda>i. T ! r ! i) (cr r)) [0..<N])) :: int list res)"
      by (auto simp: map_concat comp_def simp del: of_nat_add of_nat_mult intro!: arg_cong [of _ _ concat])
  qed
  have rows: "rfold (trim_slices (int bs) (prefix_sums lens) S E) (replicate (nat (sum_list lens)) (0, int bs)) [0..<N]
      = Inr (concat (map (\<lambda>r. map (sl r) (cr r)) [0..<N]))"
    using trim_fold [of S E N bs] SE(1) by (simp add: lens2 lSE) (simp add: lens_def sl_def cr_def)
  have nn: "\<forall>l \<in> set lens. 0 \<le> l" "lens \<noteq> []" using assms(6) by (auto simp: lens_def)
  show ?thesis
    using ends blens gstart rep offs idx bn rows nn
    by (simp add: get_slot_mapping_metadata_def Let_def S_def [symmetric] rguard_def del: np_zip_same)
qed

text \<open>C32. The slices are the slots: expanded cell by cell they are the slots of the scheduled tokens,
  request after request in the order of the positions, paired with the consecutive rows of the new
  keys; and every slice is non-empty and inside one block.\<close>

theorem slot_mapping_is_token_slots:
  assumes "0 < bs" and "0 < nreqs" and "length scheduled = nreqs" and "nreqs \<le> length num_computed"
    and "nreqs \<le> max_tokens" and "nreqs \<le> length table" and "\<forall>row \<in> set table. length row = max_blocks"
    and "\<forall>r < nreqs. 0 < scheduled ! r \<and> scheduled ! r \<le> max_tokens
           \<and> num_computed ! r + scheduled ! r \<le> max_blocks * bs"
  shows "\<exists>md. get_slot_mapping_metadata bs max_blocks max_tokens num_computed table nreqs scheduled = Inr md
    \<and> (let slots = concat (map (scheduled_slots bs table num_computed scheduled) [0..<nreqs])
       in expand_slices md = zip slots (map int [0..<length slots]))
    \<and> (\<forall>(kv, new, len) \<in> set md. 0 < len \<and> kv mod int bs + len \<le> int bs)"
proof -
  define S where "S = take nreqs num_computed"
  define E where "E = map2 (+) (take nreqs num_computed) scheduled"
  define cr where "cr = (\<lambda>r. crossed bs (S ! r) (E ! r))"
  define sl where "sl = (\<lambda>r. block_slice bs (S ! r) (E ! r))"
  define rows where "rows = concat (map (\<lambda>r. map (sl r) (cr r)) [0..<nreqs])"
  define bn where "bn = concat (map (\<lambda>r. map (\<lambda>i. table ! r ! i) (cr r)) [0..<nreqs])"
  define kvs where "kvs = concat (map (\<lambda>r. map (\<lambda>i. fst (sl r i) + table ! r ! i * int bs) (cr r)) [0..<nreqs])"
  define lens where "lens = concat (map (\<lambda>r. map (\<lambda>i. snd (sl r i) - fst (sl r i)) (cr r)) [0..<nreqs])"
  define slots where "slots = concat (map (scheduled_slots bs table num_computed scheduled) [0..<nreqs])"
  have nthS: "S ! r = num_computed ! r" "E ! r = num_computed ! r + scheduled ! r" if "r < nreqs" for r
    using that assms(3,4) by (simp_all add: S_def E_def)
  have SE: "S ! r < E ! r" if "r < nreqs" for r using that nthS assms(8) by simp
  have "map fst rows = concat (map (\<lambda>r. map (\<lambda>i. fst (sl r i)) (cr r)) [0..<nreqs])"
    by (simp add: rows_def map_concat comp_def)
  then have k: "np_zip (\<lambda>a n. a + n * int bs) (map fst rows) bn = Inr kvs"
    by (simp add: bn_def kvs_def length_concat comp_def map2_concat zip_map_map zip_same_conv_map)
  have l: "map (\<lambda>(a, b). b - a) rows = lens"
    by (simp add: rows_def lens_def map_concat comp_def split_def)
  have len: "length kvs = length lens" by (simp add: kvs_def lens_def length_concat comp_def)
  have lens0: "\<forall>x \<in> set lens. 0 \<le> x"
    using block_slice_length(1) [OF assms(1) SE] by (auto simp: lens_def sl_def cr_def intro!: less_imp_le)
  define md where "md = zip kvs (zip (butlast (prefix_sums lens)) lens)"
  have run: "get_slot_mapping_metadata bs max_blocks max_tokens num_computed table nreqs scheduled = Inr md"
    using slot_mapping_slices [OF assms(1-3,4,5,6,7,8)] k l
    by (simp add: slice_metadata_def md_def rows_def bn_def sl_def cr_def S_def E_def)
  have "concat (map2 (\<lambda>kv len. map (\<lambda>j. kv + int j) [0..<nat len]) kvs lens)
      = concat (concat (map (\<lambda>r. map (\<lambda>i. map (\<lambda>j. fst (sl r i) + table ! r ! i * int bs + int j)
          [0..<nat (snd (sl r i) - fst (sl r i))]) (cr r)) [0..<nreqs]))"
    by (simp add: kvs_def lens_def map2_concat zip_map_map zip_same_conv_map comp_def)
  also have "\<dots> = concat (map (\<lambda>r. concat (map (\<lambda>i. map (\<lambda>j. fst (sl r i) + table ! r ! i * int bs + int j)
          [0..<nat (snd (sl r i) - fst (sl r i))]) (cr r))) [0..<nreqs])"
    by (simp add: concat_twice comp_def)
  also have "\<dots> = slots" unfolding slots_def
  proof (rule arg_cong [of _ _ concat], rule map_cong [OF refl])
    fix r assume "r \<in> set [0..<nreqs]"
    then have r: "r < nreqs" by simp
    show "concat (map (\<lambda>i. map (\<lambda>j. fst (sl r i) + table ! r ! i * int bs + int j)
          [0..<nat (snd (sl r i) - fst (sl r i))]) (cr r)) = scheduled_slots bs table num_computed scheduled r"
      using crossed_slots [OF assms(1) SE [OF r], of table r] nthS [OF r]
      by (simp add: sl_def cr_def scheduled_slots_def)
  qed
  finally have slots: "concat (map2 (\<lambda>kv len. map (\<lambda>j. kv + int j) [0..<nat len]) kvs lens) = slots" .
  have total: "nat (sum_list lens) = length slots" using length_expanded [OF len lens0] slots by simp
  have "expand_slices md = zip slots (map int [0..<length slots])"
    using expand_zip [OF len lens0, of 0] slots total by (simp add: expand_slices_def md_def butlast_prefix_sums)
  moreover have "\<forall>(kv, new, len) \<in> set md. 0 < len \<and> kv mod int bs + len \<le> int bs"
  proof (clarify)
    fix kv new len assume "(kv, new, len) \<in> set md"
    then have "(kv, len) \<in> set (zip kvs lens)" by (auto simp: md_def in_set_zip)
    moreover have "zip kvs lens = concat (map (\<lambda>r. map (\<lambda>i. (fst (sl r i) + table ! r ! i * int bs,
        snd (sl r i) - fst (sl r i))) (cr r)) [0..<nreqs])"
      by (simp add: zip_concat kvs_def lens_def zip_map_map zip_same_conv_map comp_def)
    ultimately obtain r i where ri: "r < nreqs" "i \<in> set (cr r)"
      "kv = fst (sl r i) + table ! r ! i * int bs" "len = snd (sl r i) - fst (sl r i)" by auto
    note b = block_slice_length [OF assms(1) SE [OF ri(1)], of i, folded sl_def]
    have b: "0 < snd (sl r i) - fst (sl r i)" "snd (sl r i) \<le> int bs" "0 \<le> fst (sl r i)"
      using block_slice_length [OF assms(1) SE [OF ri(1)]] ri(2) by (simp_all add: sl_def cr_def)
    then have "kv mod int bs = fst (sl r i)" using ri(3) by simp
    then show "0 < len \<and> kv mod int bs + len \<le> int bs" using b ri(4) by simp
  qed
  ultimately show ?thesis using run by (auto simp: slots_def Let_def)
qed

theorem slot_mapping_is_token_slots_witness:
  "\<exists>md. get_slot_mapping_metadata 4 3 16 [3, 0] [[7, 2, 5], [1, 6, 0]] 2 [6, 1] = Inr md
    \<and> expand_slices md = zip [31, 8, 9, 10, 11, 20, 4] [0, 1, 2, 3, 4, 5, 6]"
proof -
  have "[0..<Suc (Suc 0)] = [0, 1]" "[3..<9] = [3, 4, 5, 6, 7, 8]" "map int [0..<7] = [0, 1, 2, 3, 4, 5, 6]"
    by (simp_all add: upt_rec)
  then show ?thesis
    using slot_mapping_is_token_slots [of 4 2 "[6, 1]" "[3, 0]" 16 "[[7, 2, 5], [1, 6, 0]]" 3]
    by (fastforce simp: scheduled_slots_def token_slot_def Let_def numeral_2_eq_2 less_Suc_eq)
qed

end
