(* ===== verification/StepInputs.thy ===== *)
theory StepInputs
  imports SlotMapping PagedCache Paddings InputBatchInv
begin

text \<open>
  The inputs of one execution of the model: method \<open>_prepare_inputs\<close> of
  \<open>vllm_tt/model_runner.py\<close>, which turns the persistent batch and the scheduled token counts into
  padded tensors, one row per request, and the loop of \<open>sample_tokens\<close> that may split the batch
  into several executions.

  The buffers \<open>query_start_loc\<close>, \<open>seq_lens\<close> and \<open>block_table_cpu\<close> live across steps, and the page
  table is a view of the last one, so they are a state that the method updates. \<open>cpu_table\<close> stands
  for vLLM's \<open>block_table[0].get_cpu_tensor()\<close>. Token ids and positions are below the model's
  length, so the 32-bit tensors of the code hold them exactly.
\<close>

section \<open>Configuration and state\<close>

record step_config =
  most_model_len :: "nat option"
  num_reqs_most_model_len :: "nat option"
  num_reqs_max_model_len :: nat
  sc_max_num_reqs :: nat
  num_tokens_paddings :: "int list"
  max_num_blocks_per_req :: nat
  num_blocks_per_most_len_req :: "nat option"
  has_lora :: bool

record step_buffers =
  query_start_loc :: "int list"
  seq_lens :: "int list"
  block_table_cpu :: "int list list"

record step_inputs =
  si_input_ids :: "int list list"
  si_position_ids :: "int list list"
  si_page_table :: "int list list"
  si_cache_position :: "int list"
  si_logits_indices :: "int list"
  si_lora_tokens :: "int list option"
  si_num_reqs :: nat
  si_end_index :: nat

section \<open>Choosing the requests of an execution\<close>

definition collect_step ::
  "step_config \<Rightarrow> (req_id, nat) dict \<Rightarrow> 'bt input_batch \<Rightarrow> bool \<times> nat list \<Rightarrow> nat \<Rightarrow> (bool \<times> nat list) res" where
  "collect_step cfg scheduled b acc i =
     (let (use_max, ns) = acc
      in rbind (lget (req_ids b) i) (\<lambda>entry.
         rbind (case entry of None \<Rightarrow> Inl AssertionError | Some rid \<Rightarrow> ditem scheduled rid) (\<lambda>n.
         Inr (use_max \<or> (case most_model_len cfg of None \<Rightarrow> False | Some m \<Rightarrow> m < n), ns @ [n]))))"

definition collect_tokens ::
  "step_config \<Rightarrow> (req_id, nat) dict \<Rightarrow> 'bt input_batch \<Rightarrow> nat \<Rightarrow> (bool \<times> nat list) res" where
  "collect_tokens cfg scheduled b start =
     rfold (collect_step cfg scheduled b) (most_model_len cfg = None, []) [start..<num_reqs b]"

text \<open>At most \<open>limit\<close> requests run together; the end of the execution is the first one left out.\<close>

definition cut_chunk :: "nat \<Rightarrow> nat list \<Rightarrow> nat \<Rightarrow> nat \<Rightarrow> nat list \<times> nat" where
  "cut_chunk limit ns start total_reqs =
     (if limit < length ns then (take limit ns, start + limit) else (ns, total_reqs))"

definition choose_limit :: "step_config \<Rightarrow> bool \<Rightarrow> nat res" where
  "choose_limit cfg use_max =
     (if use_max then Inr (num_reqs_max_model_len cfg)
      else case num_reqs_most_model_len cfg of None \<Rightarrow> Inl AssertionError | Some l \<Rightarrow> Inr l)"

section \<open>The padded rows\<close>

definition fill_rows ::
  "(nat \<Rightarrow> nat \<Rightarrow> int list res) \<Rightarrow> nat \<Rightarrow> nat \<Rightarrow> nat list \<Rightarrow> int list list res" where
  "fill_rows values rows padded ns =
     rfold (\<lambda>m (i, n). rbind (lget m i) (\<lambda>row. rbind (values i n) (\<lambda>vs.
              rbind (slice_assign row 0 n vs) (\<lambda>row. Inr (m[i := row])))))
       (replicate rows (replicate padded 0)) (enumerate 0 ns)"

definition position_values :: "'bt input_batch \<Rightarrow> nat \<Rightarrow> nat \<Rightarrow> int list res" where
  "position_values b i n =
     rbind (lget (num_computed_tokens b) i) (\<lambda>c. Inr (map (\<lambda>j. int (j + c)) [0..<n]))"

definition token_values :: "'bt input_batch \<Rightarrow> nat \<Rightarrow> nat \<Rightarrow> int list res" where
  "token_values b i n =
     rbind (lget (num_computed_tokens b) i) (\<lambda>c.
     rbind (lget (token_ids_cpu b) i) (\<lambda>row. Inr (slice row c (n + c))))"

section \<open>The attention metadata\<close>

definition fill_query_start :: "nat list \<Rightarrow> int list \<Rightarrow> int list res" where
  "fill_query_start ns buf =
     (if length ns < length buf
      then Inr (prefix_sums (map int ns) @ replicate (length buf - (length ns + 1)) 1)
      else Inl ValueError)"

definition fill_seq_lens :: "nat list \<Rightarrow> nat list \<Rightarrow> int list \<Rightarrow> int list res" where
  "fill_seq_lens computed ns buf =
     rbind (np_zip (\<lambda>c n. int (c + n)) (take (length ns) computed) ns) (\<lambda>vs.
     slice_assign buf 0 (length ns) vs)"

text \<open>The first \<open>n\<close> rows of the view of \<open>limit\<close> rows and \<open>w\<close> columns take over the rows \<open>src\<close>.\<close>

definition write_pages ::
  "nat \<Rightarrow> nat \<Rightarrow> nat \<Rightarrow> int list list \<Rightarrow> int list list \<Rightarrow> int list list res" where
  "write_pages limit w n src buf =
     (let m = min n (min limit (length buf))
      in rbind (broadcast m src) (\<lambda>rows.
         rbind (rmap (\<lambda>(old, new). let v = min w (length old)
                   in rbind (broadcast v new) (\<lambda>new. Inr (new @ drop v old))) (zip buf rows)) (\<lambda>rows.
         Inr (rows @ drop m buf))))"

definition page_view :: "nat \<Rightarrow> nat \<Rightarrow> int list list \<Rightarrow> int list list" where
  "page_view limit w buf = map (take w) (take limit buf)"

text \<open>With a single request the other rows of the view are cleared.\<close>

definition clear_pages :: "nat \<Rightarrow> nat \<Rightarrow> int list list \<Rightarrow> int list list" where
  "clear_pages limit w buf =
     map (\<lambda>(i, row). if 1 \<le> i \<and> i < limit then slice_fill row 0 w 0 else row) (enumerate 0 buf)"

definition page_part ::
  "step_config \<Rightarrow> bool \<Rightarrow> nat \<Rightarrow> nat \<Rightarrow> int list list \<Rightarrow> int list list \<Rightarrow> (nat \<times> int list list) res" where
  "page_part cfg use_max limit n table buf =
     (if use_max then
        rbind (write_pages limit (max_num_blocks_per_req cfg) n (take n table) buf) (\<lambda>buf.
        Inr (max_num_blocks_per_req cfg, buf))
      else case num_blocks_per_most_len_req cfg of None \<Rightarrow> Inl TypeError | Some w \<Rightarrow>
        rbind (write_pages limit w n (map (take w) (take n table)) buf) (\<lambda>buf. Inr (w, buf)))"

definition prepare_inputs ::
  "step_config \<Rightarrow> ('bt \<Rightarrow> int list list) \<Rightarrow> 'bt input_batch \<Rightarrow> nat \<Rightarrow> (req_id, nat) dict \<Rightarrow> nat
     \<Rightarrow> step_buffers \<Rightarrow> (step_inputs \<times> step_buffers) res" where
  "prepare_inputs cfg cpu_table b total_tokens scheduled start buf =
     rbind (rassert (0 < total_tokens)) (\<lambda>_.
     rbind (rassert (0 < num_reqs b)) (\<lambda>_.
     rbind (rassert (start < num_reqs b)) (\<lambda>_.
     rbind (collect_tokens cfg scheduled b start) (\<lambda>(use_max, all_ns).
     rbind (choose_limit cfg use_max) (\<lambda>limit.
     let (ns, end_index) = cut_chunk limit all_ns start (num_reqs b); n = length ns
     in rbind (rguard (ns \<noteq> []) ValueError) (\<lambda>_.
     rbind (rassert (0 < Max (set ns))) (\<lambda>_.
     rbind (get_padded_token_len (num_tokens_paddings cfg) (int (Max (set ns)))) (\<lambda>padded.
     rbind (fill_rows (position_values b) (sc_max_num_reqs cfg) (nat padded) ns) (\<lambda>positions.
     rbind (fill_rows (token_values b) (sc_max_num_reqs cfg) (nat padded) ns) (\<lambda>ids.
     rbind (fill_query_start ns (query_start_loc buf)) (\<lambda>qsl.
     rbind (fill_seq_lens (num_computed_tokens b) ns (seq_lens buf)) (\<lambda>sls.
     rbind (page_part cfg use_max limit n (cpu_table (block_table b)) (block_table_cpu buf)) (\<lambda>(w, pages).
     let pages = (if n = 1 then clear_pages limit w pages else pages);
         cache_position = map (\<lambda>x. x - 1) (take limit sls);
         cache_position = (if n = 1 then slice_fill cache_position 1 (length cache_position) (-1)
                           else cache_position)
     in Inr (\<lparr> si_input_ids = ids, si_position_ids = positions,
               si_page_table = page_view limit w pages, si_cache_position = cache_position,
               si_logits_indices = map (\<lambda>x. x - 1) (slice qsl 1 (sc_max_num_reqs cfg + 1)),
               si_lora_tokens = (if has_lora cfg
                  then Some ((map int ns)[n - 1 := int (ns ! (n - 1)) + (padded - int (sum_list ns))])
                  else None),
               si_num_reqs = n, si_end_index = end_index \<rparr>,
             \<lparr> query_start_loc = qsl, seq_lens = sls, block_table_cpu = pages \<rparr>))))))))))))))"

section \<open>The executions of a step\<close>

text \<open>The hidden states that are sampled: row \<open>i\<close> of the batch at the position \<open>logits_indices[i]\<close>.\<close>

definition select_hidden_states :: "'h list list \<Rightarrow> int list \<Rightarrow> 'h list res" where
  "select_hidden_states hidden indices =
     rmap (\<lambda>(i, p). rbind (lget hidden i) (\<lambda>row.
            rbind (tensor_index (length row) p) (\<lambda>j. Inr (row ! j)))) (enumerate 0 indices)"

text \<open>\<open>run\<close> is one execution: the model on the prepared inputs, the selection of the hidden states,
  the logits and the sampling, giving the hidden states and one row of token ids per row of the batch.
  The hidden states of the requests in \<open>wanted\<close> are kept for the log-probabilities of their prompts,
  by the index of the request in the batch.\<close>

definition keep_hidden ::
  "req_id set \<Rightarrow> 'bt input_batch \<Rightarrow> nat \<Rightarrow> nat \<Rightarrow> 'h list list \<Rightarrow> (nat, 'h list) dict \<Rightarrow> (nat, 'h list) dict res" where
  "keep_hidden wanted b start end_index hidden kept =
     (if wanted = {} then Inr kept
      else rfold (\<lambda>kept i. rbind (lget (req_ids b) i) (\<lambda>entry.
             case entry of
               None \<Rightarrow> Inr kept
             | Some rid \<Rightarrow> if rid \<in> wanted
                  then rbind (lget hidden (i - start)) (\<lambda>h. Inr (dset kept i h)) else Inr kept))
           kept [start..<end_index])"

text \<open>\<open>sample_loop\<close> is the loop of \<open>sample_tokens\<close> over the executions.\<close>

fun sample_loop ::
  "nat \<Rightarrow> step_config \<Rightarrow> ('bt \<Rightarrow> int list list) \<Rightarrow> 'bt input_batch \<Rightarrow> nat \<Rightarrow> (req_id, nat) dict \<Rightarrow> req_id set
     \<Rightarrow> (step_inputs \<Rightarrow> ('h list list \<times> int list list) res) \<Rightarrow> nat \<Rightarrow> step_buffers \<Rightarrow> int list list \<Rightarrow> (nat, 'h list) dict
     \<Rightarrow> (int list list \<times> (nat, 'h list) dict \<times> step_buffers) res option" where
  "sample_loop 0 cfg cpu_table b total_tokens scheduled wanted run start buf acc kept = None"
| "sample_loop (Suc fuel) cfg cpu_table b total_tokens scheduled wanted run start buf acc kept =
     (if \<not> start < num_reqs b then Some (Inr (acc, kept, buf))
      else case prepare_inputs cfg cpu_table b total_tokens scheduled start buf of
             Inl e \<Rightarrow> Some (Inl e)
           | Inr (inp, buf') \<Rightarrow>
               (case rbind (run inp) (\<lambda>(hidden, sampled).
                       rbind (keep_hidden wanted b start (si_end_index inp) hidden kept) (\<lambda>kept.
                       Inr (sampled, kept))) of
                  Inl e \<Rightarrow> Some (Inl e)
                | Inr (sampled, kept) \<Rightarrow>
                    sample_loop fuel cfg cpu_table b total_tokens scheduled wanted run (si_end_index inp) buf'
                      (acc @ take (si_num_reqs inp) sampled) kept))"

end
