(* ===== verification/StepInputsProps.thy ===== *)
theory StepInputsProps
  imports StepInputs
begin

text \<open>
  What \<open>_prepare_inputs\<close> gives the model: on a packed batch the rows of the padded tensors are the
  scheduled tokens of the requests, at their positions, with their own pages; and the executions of
  a step cover the batch. The rows of an execution that does not start at the first request are
  read from the wrong requests, and the sampled positions are right for the first row only.
\<close>

section \<open>The stages\<close>

definition count_of :: "(req_id, nat) dict \<Rightarrow> 'bt input_batch \<Rightarrow> nat \<Rightarrow> nat" where
  "count_of scheduled b i = the (dget scheduled (the (req_ids b ! i)))"

lemma packed_row:
  assumes "packed b" "i < num_reqs b"
  obtains rid where "i < length (req_ids b)" "req_ids b ! i = Some rid"
  using assms by (auto simp: packed_def live_def)

lemma collect_tokens_ok:
  assumes "packed b" "\<forall>i < num_reqs b. dget scheduled (the (req_ids b ! i)) \<noteq> None" "start \<le> k" "k \<le> num_reqs b"
  shows "\<exists>u. rfold (collect_step cfg scheduled b)
       (most_model_len cfg = None, []) [start..<k] = Inr (u, map (count_of scheduled b) [start..<k])
     \<and> (most_model_len cfg = None \<longrightarrow> u)"
  using assms(3,4)
proof (induction k rule: dec_induct)
  case base
  then show ?case by simp
next
  case (step k)
  then obtain u where u: "rfold (collect_step cfg scheduled b)
       (most_model_len cfg = None, []) [start..<k] = Inr (u, map (count_of scheduled b) [start..<k])"
    "most_model_len cfg = None \<longrightarrow> u" by auto
  have k: "k < num_reqs b" using step.prems by simp
  obtain rid where rid: "k < length (req_ids b)" "req_ids b ! k = Some rid"
    using packed_row [OF assms(1) k] .
  obtain n where n: "dget scheduled rid = Some n" using assms(2) k rid by auto
  have "collect_step cfg scheduled b (u, xs) k
      = Inr (u \<or> (case most_model_len cfg of None \<Rightarrow> False | Some m \<Rightarrow> m < n), xs @ [n])" for xs
    using rid n by (simp add: collect_step_def ditem_def)
  moreover have "count_of scheduled b k = n" using rid n by (simp add: count_of_def)
  ultimately show ?case using u step.hyps by (simp add: rfold_append)
qed

lemma fill_rows_ok:
  assumes "length ns \<le> rows"
    and "\<forall>i < length ns. values i (ns ! i) = Inr (V i) \<and> length (V i) = ns ! i \<and> ns ! i \<le> padded"
  shows "fill_rows values rows padded ns = Inr (map (\<lambda>i. if i < length ns
      then V i @ replicate (padded - ns ! i) 0 else replicate padded 0) [0..<rows])"
proof -
  define F where "F = (\<lambda>m (i, n). rbind (lget m i) (\<lambda>row. rbind (values i n) (\<lambda>vs.
      rbind (slice_assign row 0 n vs) (\<lambda>row. Inr (m[i := row])))))"
  define R where "R = (\<lambda>k. map (\<lambda>i. if i < k then V i @ replicate (padded - ns ! i) 0
      else replicate padded (0 :: int)) [0..<rows])"
  have "rfold F (replicate rows (replicate padded 0)) (take k (enumerate 0 ns)) = Inr (R k)" if "k \<le> length ns" for k
    using that
  proof (induction k)
    case 0
    show ?case by (auto simp: R_def intro: nth_equalityI)
  next
    case (Suc k)
    have v: "values k (ns ! k) = Inr (V k)" "length (V k) = ns ! k" "ns ! k \<le> padded" "k < rows"
      using Suc.prems assms by auto
    have "slice_assign (R k ! k) 0 (ns ! k) (V k) = Inr (V k @ replicate (padded - ns ! k) 0)"
      using v by (subst slice_assign_fits) (simp_all add: R_def)
    moreover have "(R k)[k := V k @ replicate (padded - ns ! k) 0] = R (Suc k)"
      using v(4) by (auto simp: R_def nth_list_update intro: nth_equalityI)
    moreover have "take (Suc k) (enumerate 0 ns) = take k (enumerate 0 ns) @ [(k, ns ! k)]"
      using Suc.prems by (simp add: take_Suc_conv_app_nth nth_enumerate_eq)
    moreover have "k < length (R k)" using v(4) by (simp add: R_def)
    ultimately show ?case using Suc.IH Suc.prems v by (simp add: rfold_append F_def)
  qed
  from this [of "length ns"] show ?thesis by (simp add: fill_rows_def F_def R_def)
qed

lemma write_pages_ok:
  assumes "n \<le> limit" "limit \<le> length buf" "length src = n"
    and "\<forall>row \<in> set buf. w \<le> length row" "\<forall>row \<in> set src. length row = w"
  shows "write_pages limit w n src buf = Inr (map2 (\<lambda>new old. new @ drop w old) src (take n buf) @ drop n buf)"
proof -
  have m: "min n (min limit (length buf)) = n" using assms(1,2) by simp
  have "\<forall>p \<in> set (zip buf src). (\<lambda>(old, new). let v = min w (length old)
        in rbind (broadcast v new) (\<lambda>new. Inr (new @ drop v old))) p = Inr ((\<lambda>(old, new). new @ drop w old) p)"
    using assms(4,5) by (auto simp: in_set_zip broadcast_def Let_def min_absorb1)
  then have "rmap (\<lambda>(old, new). let v = min w (length old)
        in rbind (broadcast v new) (\<lambda>new. Inr (new @ drop v old))) (zip buf src)
      = Inr (map (\<lambda>(old, new). new @ drop w old) (zip buf src))" by (rule rmap_all)
  moreover have "map (\<lambda>(old, new). new @ drop w old) (zip buf src)
      = map2 (\<lambda>new old. new @ drop w old) src (take n buf)"
    using assms(1-3) by (intro nth_equalityI) auto
  ultimately show ?thesis using assms(3) by (simp add: write_pages_def m broadcast_def)
qed

text \<open>An execution takes at least one request and ends inside the batch.\<close>

lemma collect_tokens_length:
  assumes "collect_tokens cfg scheduled b start = Inr (u, ns)"
  shows "length ns = num_reqs b - start"
proof -
  have "length (snd s') = length (snd s) + length xs" if "rfold (collect_step cfg scheduled b) s xs = Inr s'"
    for s s' xs
    using that
  proof (induction xs arbitrary: s)
    case (Cons x xs)
    then obtain t where t: "collect_step cfg scheduled b s x = Inr t" "rfold (collect_step cfg scheduled b) t xs = Inr s'"
      by (auto simp: res_simps)
    have "length (snd t) = Suc (length (snd s))"
      using t(1) by (auto simp: collect_step_def res_simps split: prod.splits)
    then show ?case using Cons.IH [OF t(2)] by simp
  qed simp
  from this [OF assms [unfolded collect_tokens_def]] show ?thesis by simp
qed

lemma prepare_inputs_advances:
  assumes "prepare_inputs cfg cpu_table b total_tokens scheduled start buf = Inr (inp, buf')"
  shows "start < num_reqs b" "0 < si_num_reqs inp" "si_end_index inp = start + si_num_reqs inp"
    "si_end_index inp \<le> num_reqs b"
proof -
  obtain u all_ns where c: "start < num_reqs b" "collect_tokens cfg scheduled b start = Inr (u, all_ns)"
    using assms by (auto simp: prepare_inputs_def res_simps)
  then obtain limit where limit: "choose_limit cfg u = Inr limit"
    using assms by (auto simp: prepare_inputs_def res_simps)
  obtain ns e where cut: "cut_chunk limit all_ns start (num_reqs b) = (ns, e)" by fastforce
  have h: "start < num_reqs b" "collect_tokens cfg scheduled b start = Inr (u, all_ns)"
    "cut_chunk limit all_ns start (num_reqs b) = (ns, si_end_index inp)" "ns \<noteq> []" "si_num_reqs inp = length ns"
    using assms c limit cut by (auto simp: prepare_inputs_def res_simps Let_def)
  note len = collect_tokens_length [OF h(2)]
  show "start < num_reqs b" by (rule h(1))
  show "0 < si_num_reqs inp" using h(4,5) by simp
  show "si_end_index inp = start + si_num_reqs inp" "si_end_index inp \<le> num_reqs b"
    using h(1,3,5) len by (auto simp: cut_chunk_def split: if_splits)
qed

section \<open>The prepared inputs\<close>

text \<open>What \<open>__init__\<close> and the scheduler establish: buffers and tables of the sizes the runner allocates, a
  padded length for every count up to the model's length, and a packed batch each of whose requests
  is scheduled at least one token and stays within the model's length.\<close>

definition buffers_sized :: "step_config \<Rightarrow> nat \<Rightarrow> step_buffers \<Rightarrow> bool" where
  "buffers_sized cfg nreqs buf \<longleftrightarrow>
     nreqs < length (query_start_loc buf) \<and> nreqs \<le> length (seq_lens buf)
     \<and> length (block_table_cpu buf) = nreqs
     \<and> (\<forall>row \<in> set (block_table_cpu buf). length row = max_num_blocks_per_req cfg)"

definition config_ok :: "step_config \<Rightarrow> 'bt input_batch \<Rightarrow> bool" where
  "config_ok cfg b \<longleftrightarrow>
     sc_max_num_reqs cfg = max_num_reqs b
     \<and> sorted (num_tokens_paddings cfg) \<and> num_tokens_paddings cfg \<noteq> []
     \<and> int (max_model_len b) \<le> last (num_tokens_paddings cfg)
     \<and> 0 < num_reqs_max_model_len cfg \<and> num_reqs_max_model_len cfg \<le> max_num_reqs b
     \<and> (case most_model_len cfg of None \<Rightarrow> True | Some _ \<Rightarrow>
          (\<exists>l w. num_reqs_most_model_len cfg = Some l \<and> 0 < l \<and> l \<le> max_num_reqs b
             \<and> num_blocks_per_most_len_req cfg = Some w \<and> w \<le> max_num_blocks_per_req cfg))"

definition step_ready ::
  "step_config \<Rightarrow> ('bt \<Rightarrow> int list list) \<Rightarrow> 'bt input_batch \<Rightarrow> (req_id, nat) dict \<Rightarrow> step_buffers \<Rightarrow> bool" where
  "step_ready cfg cpu_table b scheduled buf \<longleftrightarrow>
     batch_inv b \<and> packed b \<and> config_ok cfg b \<and> buffers_sized cfg (max_num_reqs b) buf
     \<and> length (cpu_table (block_table b)) = max_num_reqs b
     \<and> (\<forall>row \<in> set (cpu_table (block_table b)). length row = max_num_blocks_per_req cfg)
     \<and> (\<forall>i < num_reqs b. dget scheduled (the (req_ids b ! i)) \<noteq> None
          \<and> 0 < count_of scheduled b i
          \<and> num_computed_tokens b ! i + count_of scheduled b i \<le> max_model_len b)"

lemma num_reqs_bound:
  assumes "batch_inv b" "packed b"
  shows "num_reqs b \<le> max_num_reqs b"
proof (rule ccontr)
  assume "\<not> ?thesis"
  then have "live b (max_num_reqs b)" using assms(2) by (simp add: packed_def)
  then show False using assms(1) by (auto simp: live_def batch_inv_def)
qed

lemma page_part_ok:
  fixes table :: "int list list"
  assumes "config_ok cfg b" "buffers_sized cfg (max_num_reqs b) buf" "length table = max_num_reqs b"
    "\<forall>row \<in> set table. length row = max_num_blocks_per_req cfg"
    "choose_limit cfg u = Inr limit" "most_model_len cfg = None \<longrightarrow> u" "n \<le> limit"
  obtains w pages where "page_part cfg u limit n table (block_table_cpu buf) = Inr (w, pages)"
    "length pages = max_num_reqs b" "\<forall>row \<in> set pages. length row = max_num_blocks_per_req cfg"
    "\<forall>i < n. take w (pages ! i) = take w (table ! i)" "0 < limit" "limit \<le> max_num_reqs b"
proof -
  have lim: "0 < limit \<and> limit \<le> max_num_reqs b
      \<and> (\<not> u \<longrightarrow> (\<exists>w. num_blocks_per_most_len_req cfg = Some w \<and> w \<le> max_num_blocks_per_req cfg))"
    using assms(1,5,6) by (auto simp: config_ok_def choose_limit_def split: option.splits if_splits)
  define w where "w = (if u then max_num_blocks_per_req cfg else the (num_blocks_per_most_len_req cfg))"
  have w: "w \<le> max_num_blocks_per_req cfg" using lim by (auto simp: w_def)
  define src where "src = map (take w) (take n table)"
  have src: "u \<Longrightarrow> src = take n table" "length src = n" "\<forall>row \<in> set src. length row = w"
    using assms(3,4,7) lim w by (auto simp: src_def w_def intro!: map_idI dest: in_set_takeD)
  note buf = assms(2) [unfolded buffers_sized_def]
  define pages where "pages = map2 (\<lambda>new old. new @ drop w old) src (take n (block_table_cpu buf)) @ drop n (block_table_cpu buf)"
  have "write_pages limit w n src (block_table_cpu buf) = Inr pages"
    unfolding pages_def using assms(7) lim buf src w by (intro write_pages_ok) auto
  then have 1: "page_part cfg u limit n table (block_table_cpu buf) = Inr (w, pages)"
    using lim src(1) by (auto simp: page_part_def src_def w_def)
  have n: "n \<le> max_num_reqs b" using assms(7) lim by simp
  have 2: "length pages = max_num_reqs b" using n buf src(2) by (simp add: pages_def)
  have 3: "\<forall>row \<in> set pages. length row = max_num_blocks_per_req cfg"
  proof -
    have "\<forall>row \<in> set (map2 (\<lambda>new old. new @ drop w old) src (take n (block_table_cpu buf))).
        length row = max_num_blocks_per_req cfg"
      using buf src(3) w n by (auto simp: set_zip)
    moreover have "\<forall>row \<in> set (drop n (block_table_cpu buf)). length row = max_num_blocks_per_req cfg"
      using buf by (auto dest: in_set_dropD)
    ultimately show ?thesis by (auto simp: pages_def)
  qed
  have 4: "\<forall>i < n. take w (pages ! i) = take w (table ! i)"
  proof (intro allI impI)
    fix i assume i: "i < n"
    have "pages ! i = src ! i @ drop w (block_table_cpu buf ! i)" "src ! i = take w (table ! i)"
      using i n buf src(2) assms(3) by (simp_all add: pages_def nth_append src_def)
    moreover have "length (src ! i) = w" using src(2,3) i by (metis nth_mem)
    ultimately show "take w (pages ! i) = take w (table ! i)" by simp
  qed
  show ?thesis using that [OF 1 2 3 4] lim by blast
qed

lemma clear_pages_first:
  assumes "0 < length pages"
  shows "clear_pages limit w pages ! 0 = pages ! 0" "length (clear_pages limit w pages) = length pages"
    "\<forall>row \<in> set pages. length row = m \<Longrightarrow> \<forall>row \<in> set (clear_pages limit w pages). length row = m"
  using assms by (auto simp: clear_pages_def nth_enumerate_eq in_set_enumerate_eq)

lemma sum_take_upto:
  "i < length ns \<Longrightarrow> sum_list (take (Suc i) (map int ns)) = int (\<Sum>j \<le> i. ns ! j)"
proof (induction i)
  case 0
  then show ?case by (cases ns) auto
next
  case (Suc i)
  then show ?case using take_Suc_conv_app_nth [of "Suc i" "map int ns"] by simp
qed

text \<open>The general form: the execution that starts at \<open>start\<close> puts the request at \<open>start + i\<close> into row
  \<open>i\<close> with its own count, but reads its position and its tokens from row \<open>i\<close> of the batch.\<close>

lemma prepare_inputs_rows:
  assumes ready: "step_ready cfg cpu_table b scheduled buf" and start: "start < num_reqs b" and tot: "0 < total_tokens"
    and fits: "\<forall>i. start + i < num_reqs b \<longrightarrow>
      num_computed_tokens b ! i + count_of scheduled b (start + i) \<le> max_model_len b"
  shows "\<exists>inp buf' padded w. prepare_inputs cfg cpu_table b total_tokens scheduled start buf = Inr (inp, buf')
    \<and> int padded \<in> set (num_tokens_paddings cfg) \<and> buffers_sized cfg (max_num_reqs b) buf'
    \<and> 0 < si_num_reqs inp \<and> start + si_num_reqs inp \<le> num_reqs b \<and> si_end_index inp = start + si_num_reqs inp
    \<and> (\<forall>i < si_num_reqs inp. let c = num_computed_tokens b ! i; n = count_of scheduled b (start + i)
        in n \<le> padded
         \<and> si_input_ids inp ! i = slice (token_ids_cpu b ! i) c (n + c) @ replicate (padded - n) 0
         \<and> si_position_ids inp ! i = map int [c..<n + c] @ replicate (padded - n) 0
         \<and> si_cache_position inp ! i = int (c + n) - 1
         \<and> si_page_table inp ! i = take w (cpu_table (block_table b) ! i)
         \<and> si_logits_indices inp ! i = int (\<Sum>j \<le> i. count_of scheduled b (start + j)) - 1)
    \<and> (\<forall>i. si_num_reqs inp \<le> i \<longrightarrow> i < max_num_reqs b \<longrightarrow>
         si_input_ids inp ! i = replicate padded 0 \<and> si_position_ids inp ! i = replicate padded 0)"
proof -
  let ?N = "num_reqs b" and ?M = "max_num_reqs b" and ?table = "cpu_table (block_table b)"
  note r = ready [unfolded step_ready_def]
  have inv: "batch_inv b" "packed b" and cfg: "config_ok cfg b" and bufs: "buffers_sized cfg ?M buf" using r by auto
  have tab: "length ?table = ?M" "\<forall>row \<in> set ?table. length row = max_num_blocks_per_req cfg" using r by auto
  have arr: "arrays_sized b" using inv(1) by (simp add: batch_inv_def)
  have N: "?N \<le> ?M" using num_reqs_bound [OF inv] .
  obtain u where "rfold (collect_step cfg scheduled b) (most_model_len cfg = None, []) [start..<?N]
      = Inr (u, map (count_of scheduled b) [start..<?N])" and um: "most_model_len cfg = None \<longrightarrow> u"
    using collect_tokens_ok [OF inv(2), of scheduled start ?N cfg] r start by auto
  then have coll: "collect_tokens cfg scheduled b start = Inr (u, map (count_of scheduled b) [start..<?N])"
    by (simp add: collect_tokens_def)
  obtain limit where limit: "choose_limit cfg u = Inr limit"
    using cfg um by (cases u) (auto simp: choose_limit_def config_ok_def split: option.splits)
  have lp: "0 < limit" "limit \<le> ?M"
    using cfg um limit by (auto simp: choose_limit_def config_ok_def split: option.splits if_splits)
  define ns where "ns = take limit (map (count_of scheduled b) [start..<?N])"
  define k where "k = length ns"
  have k: "k = min limit (?N - start)" by (simp add: k_def ns_def min.commute)
  have kp: "0 < k" "k \<le> limit" "start + k \<le> ?N" "k \<le> ?M" using k lp start N by auto
  have nth: "ns ! i = count_of scheduled b (start + i)" if "i < k" for i
    using that k by (simp add: ns_def less_diff_conv add.commute)
  have cut: "cut_chunk limit (map (count_of scheduled b) [start..<?N]) start ?N = (ns, start + k)"
    using k start by (auto simp: cut_chunk_def ns_def)
  have pos: "0 < ns ! i" "num_computed_tokens b ! i + ns ! i \<le> max_model_len b" if "i < k" for i
    using that nth kp(3) r fits by simp_all
  have ne: "ns \<noteq> []" using kp(1) by (auto simp: k_def)
  have mx: "ns ! i \<le> Max (set ns)" if "i < k" for i using that by (simp add: k_def)
  have "Max (set ns) \<in> set ns" using ne by simp
  then obtain i0 where "i0 < k" "Max (set ns) = ns ! i0" by (metis in_set_conv_nth k_def)
  then have mx1: "0 < Max (set ns)" "Max (set ns) \<le> max_model_len b" using pos [of i0] by simp_all
  obtain p where p: "get_padded_token_len (num_tokens_paddings cfg) (int (Max (set ns))) = Inr p"
    using padded_token_len_exists [of "num_tokens_paddings cfg" "int (Max (set ns))"] cfg mx1(2)
    by (auto simp: config_ok_def)
  have pp: "p \<in> set (num_tokens_paddings cfg)" "int (Max (set ns)) \<le> p"
    using padded_token_len_least [OF _ p] cfg by (auto simp: config_ok_def)
  have np: "ns ! i \<le> nat p" if "i < k" for i using mx [OF that] pp(2) by linarith
  have cl: "length (num_computed_tokens b) = ?M" "length (token_ids_cpu b) = ?M"
    "\<forall>row \<in> set (token_ids_cpu b). length row = max_model_len b"
    using arr by (simp_all add: arrays_sized_def Let_def)
  have posv: "position_values b i (ns ! i) = Inr (map int [num_computed_tokens b ! i..<ns ! i + num_computed_tokens b ! i])"
    if "i < k" for i
    using that kp(4) cl(1) by (auto simp: position_values_def intro: nth_equalityI)
  have tokv: "token_values b i (ns ! i) = Inr (slice (token_ids_cpu b ! i) (num_computed_tokens b ! i)
      (ns ! i + num_computed_tokens b ! i))" if "i < k" for i
    using that kp(4) cl by (simp add: token_values_def)
  have tokl: "length (slice (token_ids_cpu b ! i) (num_computed_tokens b ! i) (ns ! i + num_computed_tokens b ! i)) = ns ! i"
    if i: "i < k" for i
  proof -
    have "length (token_ids_cpu b ! i) = max_model_len b" using i cl(2,3) kp(4) by simp
    then show ?thesis using pos(2) [OF i] by simp
  qed
  have positions: "fill_rows (position_values b) (sc_max_num_reqs cfg) (nat p) ns
      = Inr (map (\<lambda>i. if i < k then map int [num_computed_tokens b ! i..<ns ! i + num_computed_tokens b ! i]
          @ replicate (nat p - ns ! i) 0 else replicate (nat p) 0) [0..<?M])"
    using fill_rows_ok [of ns ?M "position_values b" _ "nat p", folded k_def, OF kp(4)] posv np cfg
    by (simp add: config_ok_def)
  have ids: "fill_rows (token_values b) (sc_max_num_reqs cfg) (nat p) ns
      = Inr (map (\<lambda>i. if i < k then slice (token_ids_cpu b ! i) (num_computed_tokens b ! i)
          (ns ! i + num_computed_tokens b ! i) @ replicate (nat p - ns ! i) 0 else replicate (nat p) 0) [0..<?M])"
    using fill_rows_ok [of ns ?M "token_values b" "\<lambda>i. slice (token_ids_cpu b ! i) (num_computed_tokens b ! i)
          (ns ! i + num_computed_tokens b ! i)" "nat p", folded k_def, OF kp(4)] tokv np cfg tokl
    by (simp add: config_ok_def del: length_slice)
  define qsl where "qsl = prefix_sums (map int ns) @ replicate (length (query_start_loc buf) - (k + 1)) 1"
  have q: "fill_query_start ns (query_start_loc buf) = Inr qsl"
    using bufs kp(4) by (simp add: fill_query_start_def buffers_sized_def qsl_def k_def)
  define sls where "sls = map2 (\<lambda>c n. int (c + n)) (take k (num_computed_tokens b)) ns @ drop k (seq_lens buf)"
  have sl: "fill_seq_lens (num_computed_tokens b) ns (seq_lens buf) = Inr sls"
    using bufs kp(4) cl(1)
    by (simp add: fill_seq_lens_def buffers_sized_def sls_def k_def [symmetric] slice_assign_fits)
  obtain w pages where pg: "page_part cfg u limit k ?table (block_table_cpu buf) = Inr (w, pages)"
    "length pages = ?M" "\<forall>row \<in> set pages. length row = max_num_blocks_per_req cfg"
    "\<forall>i < k. take w (pages ! i) = take w (?table ! i)"
    by (rule page_part_ok [OF cfg bufs tab limit um kp(2)])
  define pages' where "pages' = (if k = 1 then clear_pages limit w pages else pages)"
  define cp where "cp = map (\<lambda>x. x - 1) (take limit sls)"
  define cp' where "cp' = (if k = 1 then slice_fill cp 1 (length cp) (-1) else cp)"
  define inp where "inp = \<lparr> si_input_ids = map (\<lambda>i. if i < k then slice (token_ids_cpu b ! i) (num_computed_tokens b ! i)
          (ns ! i + num_computed_tokens b ! i) @ replicate (nat p - ns ! i) 0 else replicate (nat p) 0) [0..<?M],
      si_position_ids = map (\<lambda>i. if i < k then map int [num_computed_tokens b ! i..<ns ! i + num_computed_tokens b ! i]
          @ replicate (nat p - ns ! i) 0 else replicate (nat p) 0) [0..<?M],
      si_page_table = page_view limit w pages', si_cache_position = cp',
      si_logits_indices = map (\<lambda>x. x - 1) (slice qsl 1 (sc_max_num_reqs cfg + 1)),
      si_lora_tokens = (if has_lora cfg then Some ((map int ns)[k - 1 := int (ns ! (k - 1)) + (p - int (sum_list ns))])
                        else None),
      si_num_reqs = k, si_end_index = start + k \<rparr>"
  have run: "prepare_inputs cfg cpu_table b total_tokens scheduled start buf
      = Inr (inp, \<lparr> query_start_loc = qsl, seq_lens = sls, block_table_cpu = pages' \<rparr>)"
    using tot start mx1(1) coll limit cut ne p positions ids q sl pg(1) kp(1)
    by (simp add: prepare_inputs_def Let_def k_def [symmetric] inp_def pages'_def cp_def cp'_def)
  have len: "length qsl = length (query_start_loc buf)" "length sls = length (seq_lens buf)"
    using bufs kp(4) cl(1) by (auto simp: qsl_def sls_def k_def [symmetric] buffers_sized_def)
  have bufs': "buffers_sized cfg ?M \<lparr> query_start_loc = qsl, seq_lens = sls, block_table_cpu = pages' \<rparr>"
  proof -
    have "0 < length pages" using pg(2) kp(1,4) by simp
    note c = clear_pages_first(2,3) [OF this, where limit = limit and w = w]
    have "length pages' = ?M" "\<forall>row \<in> set pages'. length row = max_num_blocks_per_req cfg"
      using pg(2) c(1) c(2) [OF pg(3)] pg(3) unfolding pages'_def by presburger+
    then show ?thesis using bufs by (simp add: buffers_sized_def len)
  qed
  have cp: "cp' ! i = int (num_computed_tokens b ! i + ns ! i) - 1" if i: "i < k" for i
  proof -
    have "sls ! i = int (num_computed_tokens b ! i + ns ! i)"
      using i kp(4) cl(1) by (simp add: sls_def nth_append k_def [symmetric])
    then have "cp ! i = int (num_computed_tokens b ! i + ns ! i) - 1" "i < length cp"
      using i kp(2,4) bufs by (simp_all add: cp_def len buffers_sized_def)
    then show ?thesis using i by (auto simp: cp'_def nth_slice_fill)
  qed
  have pv: "page_view limit w pages' ! i = take w (?table ! i)" if i: "i < k" for i
    using i kp(1,2,4) pg(2,4) clear_pages_first(1) [of pages] by (auto simp: page_view_def pages'_def clear_pages_def)
  have lg: "map (\<lambda>x. x - 1) (slice qsl 1 (?M + 1)) ! i = int (\<Sum>j \<le> i. ns ! j) - 1" if i: "i < k" for i
  proof -
    have "qsl ! (i + 1) = sum_list (take (i + 1) (map int ns))"
      using i by (simp add: qsl_def nth_append k_def [symmetric] prefix_sums_nth)
    also have "\<dots> = int (\<Sum>j \<le> i. ns ! j)"
      using sum_take_upto [of i ns] i by (simp add: k_def)
    finally have v: "qsl ! (1 + i) = int (\<Sum>j \<le> i. ns ! j)" by simp
    have "i < ?M" "?M < length qsl" using i kp(4) bufs by (simp_all add: len buffers_sized_def)
    then have "slice qsl 1 (?M + 1) ! i = qsl ! (1 + i)" "i < length (slice qsl 1 (?M + 1))"
      by (simp_all add: nth_slice min_def)
    then show ?thesis using v by simp
  qed
  have sums: "(\<Sum>j \<le> i. ns ! j) = (\<Sum>j \<le> i. count_of scheduled b (start + j))" if "i < k" for i
    using that nth by (intro sum.cong) auto
  have rows: "\<forall>i < si_num_reqs inp. let c = num_computed_tokens b ! i; n = count_of scheduled b (start + i)
        in n \<le> nat p
         \<and> si_input_ids inp ! i = slice (token_ids_cpu b ! i) c (n + c) @ replicate (nat p - n) 0
         \<and> si_position_ids inp ! i = map int [c..<n + c] @ replicate (nat p - n) 0
         \<and> si_cache_position inp ! i = int (c + n) - 1
         \<and> si_page_table inp ! i = take w (cpu_table (block_table b) ! i)
         \<and> si_logits_indices inp ! i = int (\<Sum>j \<le> i. count_of scheduled b (start + j)) - 1"
    using cp pv lg sums np nth kp(4) cfg by (simp add: inp_def Let_def config_ok_def)
  show ?thesis
    using run rows bufs' kp(1,3) pp by (intro exI conjI) (auto simp: inp_def)
qed


text \<open>C33. Every row but the first is sampled at a wrong position: the index is the running total of the
  scheduled tokens, not the last token of the row, so the hidden state that is selected belongs to the
  padding or lies outside the row.\<close>

theorem later_rows_sample_padding:
  assumes "step_ready cfg cpu_table b scheduled buf"
    and "prepare_inputs cfg cpu_table b total_tokens scheduled 0 buf = Inr (inp, buf')"
    and "0 < i" and "i < si_num_reqs inp"
  shows "int (count_of scheduled b i) \<le> si_logits_indices inp ! i"
proof -
  have "0 < num_reqs b" "0 < total_tokens"
    using assms(2) by (auto simp: prepare_inputs_def res_simps)
  moreover have "\<forall>i. 0 + i < num_reqs b \<longrightarrow> num_computed_tokens b ! i + count_of scheduled b (0 + i) \<le> max_model_len b"
    using assms(1) by (simp add: step_ready_def)
  ultimately have ix: "si_logits_indices inp ! i = int (\<Sum>j \<le> i. count_of scheduled b j) - 1" "0 < num_reqs b"
    using prepare_inputs_rows [OF assms(1), of 0 total_tokens] assms(2,4) by (auto simp: Let_def)
  have "count_of scheduled b 0 + count_of scheduled b i \<le> (\<Sum>j \<le> i. count_of scheduled b j)"
  proof -
    have "(\<Sum>j \<in> {0, i}. count_of scheduled b j) \<le> (\<Sum>j \<le> i. count_of scheduled b j)"
      by (rule sum_mono2) auto
    then show ?thesis using assms(3) by simp
  qed
  moreover have "0 < count_of scheduled b 0" using assms(1) ix(2) by (simp add: step_ready_def)
  ultimately show ?thesis using ix(1) by linarith
qed

text \<open>The executions of a step cover the batch: the loop ends, and when it succeeds it has one sampled
  row for every request.\<close>

lemma sample_loop_returns:
  assumes "\<And>inp hidden rows. run inp = Inr (hidden, rows) \<Longrightarrow> si_num_reqs inp \<le> length rows"
    and "num_reqs b < fuel + start" and "start \<le> num_reqs b"
  shows "\<exists>r. sample_loop fuel cfg cpu_table b total_tokens scheduled wanted run start buf acc kept = Some r
    \<and> (\<forall>toks kept' buf'. r = Inr (toks, kept', buf') \<longrightarrow> length toks = length acc + (num_reqs b - start))"
  using assms(2,3)
proof (induction fuel arbitrary: start buf acc kept)
  case 0
  then show ?case by simp
next
  case (Suc fuel)
  show ?case
  proof (cases "start < num_reqs b")
    case True
    show ?thesis
    proof (cases "prepare_inputs cfg cpu_table b total_tokens scheduled start buf")
      case prep: (Inr p)
      obtain inp buf' where p: "p = (inp, buf')" by (cases p)
      note adv = prepare_inputs_advances [OF prep [unfolded p]]
      define R where "R = rbind (run inp) (\<lambda>(hidden, sampled).
          rbind (keep_hidden wanted b start (si_end_index inp) hidden kept) (\<lambda>kept. Inr (sampled, kept)))"
      show ?thesis
      proof (cases R)
        case (Inr q)
        obtain rows kept' where q: "q = (rows, kept')" by (cases q)
        obtain hidden where "run inp = Inr (hidden, rows)"
          using Inr q by (auto simp: R_def res_simps)
        then have "si_num_reqs inp \<le> length rows" by (rule assms(1))
        moreover have "num_reqs b < fuel + si_end_index inp" using Suc.prems(1) adv(2,3) by linarith
        moreover have "sample_loop (Suc fuel) cfg cpu_table b total_tokens scheduled wanted run start buf acc kept
            = sample_loop fuel cfg cpu_table b total_tokens scheduled wanted run (si_end_index inp) buf'
                (acc @ take (si_num_reqs inp) rows) kept'"
          using True prep p q Inr by (simp add: R_def [symmetric])
        ultimately show ?thesis
          using Suc.IH [of "si_end_index inp" buf' "acc @ take (si_num_reqs inp) rows" kept'] adv
          by (simp add: min_absorb2 del: sample_loop.simps)
      qed (use True prep p in \<open>simp add: R_def [symmetric]\<close>)
    qed (use True in simp)
  qed (use Suc.prems in simp)
qed

section \<open>A concrete step\<close>

definition ex_step_batch :: "int list list input_batch" where
  "ex_step_batch = (new_input_batch False 3 4 8 [[5, 1], [6, 7], [0, 0]] (\<lambda>_. 0) (\<lambda>_. 0))
     \<lparr>req_ids := [Some ''a'', Some ''b''], req_id_to_index := [(''a'', 0), (''b'', 1)],
      req_output_token_ids := [Some 0, Some 1], token_ids_cpu := [[1, 2, 0, 0], [3, 4, 5, 0], [0, 0, 0, 0]],
      num_tokens := [2, 3, 0], num_computed_tokens := [0, 1, 0]\<rparr>"

definition ex_step_config :: step_config where
  "ex_step_config = \<lparr> most_model_len = None, num_reqs_most_model_len = None, num_reqs_max_model_len = 3,
     sc_max_num_reqs = 3, num_tokens_paddings = [1, 4], max_num_blocks_per_req = 2,
     num_blocks_per_most_len_req = None, has_lora = False \<rparr>"

definition ex_buffers :: step_buffers where
  "ex_buffers = \<lparr> query_start_loc = [0, 0, 0, 0, 0], seq_lens = [0, 0, 0, 0],
     block_table_cpu = [[0, 0], [0, 0], [0, 0]] \<rparr>"

definition ex_scheduled :: "(req_id, nat) dict" where
  "ex_scheduled = [(''a'', 2), (''b'', 2)]"

lemma ex_step_ready: "step_ready ex_step_config id ex_step_batch ex_scheduled ex_buffers"
proof -
  have n: "num_reqs ex_step_batch = 2" "max_num_reqs ex_step_batch = 3"
    "req_ids ex_step_batch = [Some ''a'', Some ''b'']" "max_model_len ex_step_batch = 4"
    "block_table ex_step_batch = [[5, 1], [6, 7], [0, 0]]" "num_computed_tokens ex_step_batch = [0, 1, 0]"
    "req_id_to_index ex_step_batch = [(''a'', 0), (''b'', 1)]" "\<not> is_pooling_model ex_step_batch"
    "generators ex_step_batch = []" "min_tokens ex_step_batch = []" "bad_words_token_ids ex_step_batch = []"
    "length (req_output_token_ids ex_step_batch) = 2"
    by (simp_all add: num_reqs_def ex_step_batch_def new_input_batch_def Let_def)
  have arrays: "arrays_sized ex_step_batch"
    by (simp add: arrays_sized_def ex_step_batch_def new_input_batch_def Let_def)
  have two: "i < 2 \<longleftrightarrow> i = 0 \<or> i = 1" for i :: nat by auto
  have live: "live ex_step_batch i \<longleftrightarrow> i < 2" for i
    by (auto simp: live_def n less_Suc_eq numeral_2_eq_2)
  have index: "dget (req_id_to_index ex_step_batch) r = Some i
      \<longleftrightarrow> i < length (req_ids ex_step_batch) \<and> req_ids ex_step_batch ! i = Some r" for r i
  proof (cases "i = 0 \<or> i = 1")
    case True
    then show ?thesis by (auto simp: n)
  next
    case False
    then have "\<not> i < 2" by auto
    then show ?thesis using False by (auto simp: n)
  qed
  have inv: "batch_inv ex_step_batch" unfolding batch_inv_def
    using arrays index by (simp add: n(2,3,8-12)) (simp add: n(7))
  have packed: "packed ex_step_batch" by (simp add: packed_def live n)
  show ?thesis
    using inv packed
    by (auto simp: step_ready_def config_ok_def buffers_sized_def n two count_of_def ex_step_config_def ex_buffers_def
        ex_scheduled_def)
qed


theorem later_rows_sample_padding_witness:
  "\<exists>inp buf'. prepare_inputs ex_step_config id ex_step_batch 4 ex_scheduled 0 ex_buffers = Inr (inp, buf')
    \<and> 2 \<le> si_logits_indices inp ! 1"
proof -
  have "case prepare_inputs ex_step_config id ex_step_batch 4 ex_scheduled 0 ex_buffers of
      Inl _ \<Rightarrow> False | Inr (inp, _) \<Rightarrow> si_num_reqs inp = 2"
    by code_simp
  then obtain inp buf' where r: "prepare_inputs ex_step_config id ex_step_batch 4 ex_scheduled 0 ex_buffers = Inr (inp, buf')"
    "si_num_reqs inp = 2" by (auto split: sum.splits)
  have "count_of ex_scheduled ex_step_batch 1 = 2"
    by (simp add: ex_step_batch_def count_of_def ex_scheduled_def)
  then show ?thesis using later_rows_sample_padding [OF ex_step_ready r(1), of 1] r by auto
qed

end
