(* ===== verification/Precompile.thy ===== *)
theory Precompile
  imports StepInputsProps
begin

text \<open>
  The shapes the runner compiles before it serves: the limits its constructor derives from the configuration, the
  graphs of \<open>_precompile_backbone\<close> and \<open>_precompile_select_hidden_states\<close>, and the proof that the inputs of
  every step have one of these shapes, so that no step compiles a graph of its own.
\<close>

section \<open>Definitions\<close>

record runner_limits =
  rl_max_model_len :: nat
  rl_block_size :: nat
  rl_max_num_seqs :: nat
  rl_max_num_batched_tokens :: nat
  rl_min_context_len :: nat
  rl_most_model_len :: "nat option"
  rl_lora :: bool

text \<open>The constructor: None would be the loop of the paddings not ending. \<open>MIN_NUM_SEQS\<close> is 1.\<close>

definition new_runner ::
  "(int \<Rightarrow> int \<Rightarrow> int) \<Rightarrow> runner_limits \<Rightarrow> (step_config \<times> step_buffers) res option" where
  "new_runner cdiv l =
     (if \<not> rl_max_model_len l * rl_max_num_seqs l \<le> rl_max_num_batched_tokens l then Some (Inl AssertionError)
      else if rl_block_size l = 0 then Some (Inl ZeroDivisionError)
      else
        let max_num_blocks = nat (cdiv (int (rl_max_model_len l)) (int (rl_block_size l)));
            num_blocks_most = map_option (\<lambda>m. nat (cdiv (int m) (int (rl_block_size l)))) (rl_most_model_len l);
            max_num_reqs = max (rl_max_num_seqs l) 1;
            min_context_len = min (rl_min_context_len l) (rl_max_num_batched_tokens l)
        in case get_token_paddings (int min_context_len) (int (rl_max_model_len l)) of
             None \<Rightarrow> None
           | Some paddings \<Rightarrow>
               Some (rbind (case rl_most_model_len l of
                    None \<Rightarrow> Inr None
                  | Some m \<Rightarrow> rbind (get_max_num_seqs cdiv (int m) (int (rl_block_size l))) (\<lambda>n. Inr (Some (min (nat n) max_num_reqs))))
                 (\<lambda>num_reqs_most.
               rbind (get_max_num_seqs cdiv (int (rl_max_model_len l)) (int (rl_block_size l))) (\<lambda>n.
               let max_num_tokens = nat (last paddings)
               in Inr (\<lparr> most_model_len = rl_most_model_len l, num_reqs_most_model_len = num_reqs_most,
                         num_reqs_max_model_len = min (nat n) max_num_reqs, sc_max_num_reqs = max_num_reqs,
                         num_tokens_paddings = paddings, max_num_blocks_per_req = max_num_blocks,
                         num_blocks_per_most_len_req = num_blocks_most, has_lora = rl_lora l \<rparr>,
                       \<lparr> query_start_loc = replicate (max_num_tokens + 1) 0, seq_lens = replicate max_num_tokens 0,
                         block_table_cpu = replicate max_num_reqs (replicate max_num_blocks 0) \<rparr>)))))"

text \<open>The shapes of the inputs of a graph: token ids and positions, page table, cache positions.\<close>

record graph_shape =
  gs_tokens :: "nat \<times> nat"
  gs_page_table :: "nat \<times> nat"
  gs_cache_position :: nat

definition dummy_run :: "step_config \<Rightarrow> int \<Rightarrow> nat \<Rightarrow> nat \<Rightarrow> graph_shape" where
  "dummy_run cfg num_toks reqs blocks =
     \<lparr> gs_tokens = (sc_max_num_reqs cfg, nat num_toks), gs_page_table = (reqs, blocks), gs_cache_position = reqs \<rparr>"

definition precompile_backbone :: "step_config \<Rightarrow> graph_shape list" where
  "precompile_backbone cfg =
     concat (map (\<lambda>num_toks.
       dummy_run cfg num_toks (num_reqs_max_model_len cfg) (max_num_blocks_per_req cfg)
       # (case (most_model_len cfg, num_reqs_most_model_len cfg, num_blocks_per_most_len_req cfg) of
            (Some _, Some reqs, Some blocks) \<Rightarrow> [dummy_run cfg num_toks reqs blocks]
          | _ \<Rightarrow> [])) (num_tokens_paddings cfg))"

text \<open>The hidden states and the indices of \<open>select_hidden_states\<close>.\<close>

definition precompile_select_hidden_states :: "step_config \<Rightarrow> ((nat \<times> nat) \<times> nat) list" where
  "precompile_select_hidden_states cfg =
     map (\<lambda>num_toks. ((sc_max_num_reqs cfg, nat num_toks), sc_max_num_reqs cfg)) (num_tokens_paddings cfg)"

section \<open>The shapes of a step\<close>

definition has_shape :: "'a list list \<Rightarrow> nat \<times> nat \<Rightarrow> bool" where
  "has_shape m s \<longleftrightarrow> length m = fst s \<and> (\<forall>row \<in> set m. length row = snd s)"

definition runs_graph :: "step_inputs \<Rightarrow> graph_shape \<Rightarrow> bool" where
  "runs_graph inp g \<longleftrightarrow>
     has_shape (si_input_ids inp) (gs_tokens g) \<and> has_shape (si_position_ids inp) (gs_tokens g)
     \<and> has_shape (si_page_table inp) (gs_page_table g) \<and> length (si_cache_position inp) = gs_cache_position g"

text \<open>Buffers of the same sizes; the steps keep them.\<close>

definition same_sizes :: "step_buffers \<Rightarrow> step_buffers \<Rightarrow> bool" where
  "same_sizes buf buf' \<longleftrightarrow>
     length (query_start_loc buf') = length (query_start_loc buf) \<and> length (seq_lens buf') = length (seq_lens buf)
     \<and> map length (block_table_cpu buf') = map length (block_table_cpu buf)"

lemma fill_rows_shape:
  assumes "fill_rows values rows padded ns = Inr m"
  shows "has_shape m (rows, padded)"
proof -
  have "has_shape m' (rows, padded)"
    if "rfold (\<lambda>m (i, n). rbind (lget m i) (\<lambda>row. rbind (values i n) (\<lambda>vs.
              rbind (slice_assign row 0 n vs) (\<lambda>row. Inr (m[i := row]))))) m0 xs = Inr m'" "has_shape m0 (rows, padded)" for m0 m' xs
    using that
  proof (induction xs arbitrary: m0)
    case (Cons x xs)
    obtain i n where x: "x = (i, n)" by (cases x)
    obtain m1 where m1: "rbind (lget m0 i) (\<lambda>row. rbind (values i n) (\<lambda>vs.
              rbind (slice_assign row 0 n vs) (\<lambda>row. Inr (m0[i := row])))) = Inr m1"
      "rfold (\<lambda>m (i, n). rbind (lget m i) (\<lambda>row. rbind (values i n) (\<lambda>vs.
              rbind (slice_assign row 0 n vs) (\<lambda>row. Inr (m[i := row]))))) m1 xs = Inr m'"
      using Cons.prems(1) by (auto simp: x res_simps)
    obtain vs row where r: "i < length m0" "slice_assign (m0 ! i) 0 n vs = Inr row" "m1 = m0[i := row]"
      using m1(1) by (auto simp: res_simps)
    have "length row = padded" using slice_assign_length [OF r(2)] Cons.prems(2) r(1) by (simp add: has_shape_def)
    then have "has_shape m1 (rows, padded)" using Cons.prems(2) r(3) by (auto simp: has_shape_def dest!: set_update_subset_insert [THEN subsetD])
    then show ?case using Cons.IH m1(2) by blast
  qed simp
  from this [OF assms [unfolded fill_rows_def]] show ?thesis by (simp add: has_shape_def)
qed

lemma write_pages_sizes:
  assumes "write_pages limit w n src buf = Inr buf'"
  shows "map length buf' = map length buf"
proof -
  obtain rows new where r: "broadcast (min n (min limit (length buf))) src = Inr rows"
    "rmap (\<lambda>(old, new). let v = min w (length old)
                   in rbind (broadcast v new) (\<lambda>new. Inr (new @ drop v old))) (zip buf rows) = Inr new"
    "buf' = new @ drop (min n (min limit (length buf))) buf"
    using assms by (auto simp: write_pages_def Let_def res_simps)
  have len: "length rows = min n (min limit (length buf))" using r(1) by (auto simp: broadcast_def split: if_splits)
  have one: "length z = length old" if "(let v = min w (length old) in rbind (broadcast v new) (\<lambda>new. Inr (new @ drop v old))) = Inr z" for old new z
    using that by (auto simp: Let_def broadcast_def split: if_splits)
  have "map length new = map length (map fst (zip buf rows))"
    using r(2)
  proof (induction "zip buf rows" arbitrary: buf rows new)
    case (Cons p ps)
    then obtain b bs c cs where "buf = b # bs" "rows = c # cs" "p = (b, c)" "ps = zip bs cs" by (cases buf; cases rows) auto
    then show ?case using Cons one by (auto simp: res_simps)
  qed auto
  then have "map length new = take (min n (min limit (length buf))) (map length buf)"
    using len by (simp add: map_fst_zip_take take_map)
  then show ?thesis using r(3) by (simp add: drop_map [symmetric])
qed

lemma clear_pages_sizes: "map length (clear_pages limit w buf) = map length buf"
  by (rule nth_equalityI) (auto simp: clear_pages_def nth_enumerate_eq)

lemma page_part_sizes:
  assumes "page_part cfg use_max limit n table buf = Inr (w, pages)"
  shows "map length pages = map length buf"
    "if use_max then w = max_num_blocks_per_req cfg else num_blocks_per_most_len_req cfg = Some w"
  using assms by (auto simp: page_part_def res_simps split: if_splits option.splits dest: write_pages_sizes)

lemma page_view_shape:
  assumes "limit \<le> length buf" "\<forall>row \<in> set buf. w \<le> length row"
  shows "has_shape (page_view limit w buf) (limit, w)"
  using assms by (auto simp: has_shape_def page_view_def dest: in_set_takeD)

lemma most_len_kept:
  assumes "collect_tokens cfg scheduled b start = Inr (use_max, ns)" "\<not> use_max"
  shows "most_model_len cfg \<noteq> None"
proof -
  have "fst s' \<or> \<not> fst s" if "rfold (collect_step cfg scheduled b) s xs = Inr s'" for s s' xs
    using that
  proof (induction xs arbitrary: s)
    case (Cons x xs)
    then obtain t where t: "collect_step cfg scheduled b s x = Inr t" "rfold (collect_step cfg scheduled b) t xs = Inr s'"
      by (auto simp: res_simps)
    have "fst t \<or> \<not> fst s" using t(1) by (auto simp: collect_step_def res_simps split: prod.splits)
    then show ?case using Cons.IH [OF t(2)] by blast
  qed simp
  from this [OF assms(1) [unfolded collect_tokens_def]] show ?thesis using assms(2) by simp
qed

text \<open>What a successful preparation goes through.\<close>

lemma prepare_inputs_parts:
  assumes "prepare_inputs cfg cpu_table b total_tokens scheduled start buf = Inr (inp, buf')"
  obtains use_max all_ns limit ns padded qsl sls w pages where
    "collect_tokens cfg scheduled b start = Inr (use_max, all_ns)" "choose_limit cfg use_max = Inr limit"
    "ns = fst (cut_chunk limit all_ns start (num_reqs b))" "si_num_reqs inp = length ns"
    "get_padded_token_len (num_tokens_paddings cfg) (int (Max (set ns))) = Inr padded"
    "fill_rows (position_values b) (sc_max_num_reqs cfg) (nat padded) ns = Inr (si_position_ids inp)"
    "fill_rows (token_values b) (sc_max_num_reqs cfg) (nat padded) ns = Inr (si_input_ids inp)"
    "fill_query_start ns (query_start_loc buf) = Inr qsl"
    "fill_seq_lens (num_computed_tokens b) ns (seq_lens buf) = Inr sls"
    "page_part cfg use_max limit (length ns) (cpu_table (block_table b)) (block_table_cpu buf) = Inr (w, pages)"
    "buf' = \<lparr> query_start_loc = qsl, seq_lens = sls, block_table_cpu = (if length ns = 1 then clear_pages limit w pages else pages) \<rparr>"
    "si_page_table inp = page_view limit w (block_table_cpu buf')"
    "length (si_cache_position inp) = min limit (length sls)"
    "si_logits_indices inp = map (\<lambda>x. x - 1) (slice qsl 1 (sc_max_num_reqs cfg + 1))"
proof -
  obtain use_max all_ns where c: "collect_tokens cfg scheduled b start = Inr (use_max, all_ns)"
    using assms by (auto simp: prepare_inputs_def res_simps)
  then obtain limit where limit: "choose_limit cfg use_max = Inr limit"
    using assms by (auto simp: prepare_inputs_def res_simps)
  obtain ns e where cut: "cut_chunk limit all_ns start (num_reqs b) = (ns, e)" by fastforce
  show thesis
    using assms c limit cut
    apply (simp add: prepare_inputs_def res_simps Let_def)
    apply (elim conjE exE)
    apply hypsubst
    apply (rule that [of use_max all_ns limit ns])
                 apply (assumption | simp; fail)+
    done
qed

section \<open>Every step has a compiled shape\<close>

lemma new_runner_values:
  assumes "new_runner cdiv l = Some (Inr (cfg, buf))"
  shows "sc_max_num_reqs cfg = max (rl_max_num_seqs l) 1"
    and "\<exists>mn. get_token_paddings mn (int (rl_max_model_len l)) = Some (num_tokens_paddings cfg)"
    and "most_model_len cfg = rl_most_model_len l"
    and "max_num_blocks_per_req cfg = nat (cdiv (int (rl_max_model_len l)) (int (rl_block_size l)))"
    and "num_blocks_per_most_len_req cfg = map_option (\<lambda>m. nat (cdiv (int m) (int (rl_block_size l)))) (rl_most_model_len l)"
    and "num_reqs_max_model_len cfg \<le> sc_max_num_reqs cfg"
    and "case num_reqs_most_model_len cfg of None \<Rightarrow> True | Some n \<Rightarrow> n \<le> sc_max_num_reqs cfg"
    and "buf = \<lparr> query_start_loc = replicate (nat (last (num_tokens_paddings cfg)) + 1) 0,
                 seq_lens = replicate (nat (last (num_tokens_paddings cfg))) 0,
                 block_table_cpu = replicate (sc_max_num_reqs cfg) (replicate (max_num_blocks_per_req cfg) 0) \<rparr>"
    and "0 < rl_block_size l"
  using assms by (auto simp: new_runner_def Let_def res_simps split: if_splits option.splits)

lemma fill_query_start_length:
  assumes "fill_query_start ns q = Inr q'"
  shows "length q' = length q" "length ns < length q"
  using assms by (auto simp: fill_query_start_def length_prefix_sums split: if_splits)

lemma fill_seq_lens_length: "fill_seq_lens computed ns s = Inr s' \<Longrightarrow> length s' = length s"
  by (auto simp: fill_seq_lens_def res_simps dest: slice_assign_length)

lemma ceil_div_mono:
  assumes "ceil_div_spec cdiv" "0 < b" "a \<le> a'"
  shows "cdiv a b \<le> cdiv a' b"
proof -
  have "(cdiv a b - 1) * b < a" "a' \<le> cdiv a' b * b" using assms(1,2) by (auto simp: ceil_div_spec_def)
  then have "(cdiv a b - 1) * b < cdiv a' b * b" using assms(3) by linarith
  then have "cdiv a b - 1 < cdiv a' b" using assms(2) by (simp add: mult_less_cancel_right)
  then show ?thesis by simp
qed

lemma in_precompile:
  assumes "p \<in> set (num_tokens_paddings cfg)"
    and "limit = num_reqs_max_model_len cfg \<and> w = max_num_blocks_per_req cfg
      \<or> most_model_len cfg \<noteq> None \<and> num_reqs_most_model_len cfg = Some limit \<and> num_blocks_per_most_len_req cfg = Some w"
  shows "dummy_run cfg p limit w \<in> set (precompile_backbone cfg)"
  using assms unfolding precompile_backbone_def by (fastforce split: option.splits)

text \<open>C7. The inputs of every execution of every step have the shapes of a graph that was compiled before serving, in the
  backbone and in the selection of the hidden states, and the buffers keep their sizes, provided there are no
  more requests than the longest padding has tokens.\<close>

theorem step_shapes_are_precompiled:
  assumes cdiv: "ceil_div_spec cdiv" and new: "new_runner cdiv l = Some (Inr (cfg, buf0))"
    and limits: "int (sc_max_num_reqs cfg) \<le> last (num_tokens_paddings cfg)"
      "\<forall>m. rl_most_model_len l = Some m \<longrightarrow> m \<le> rl_max_model_len l"
    and sizes: "same_sizes buf0 buf"
    and run: "prepare_inputs cfg cpu_table b total_tokens scheduled start buf = Inr (inp, buf')"
  shows "same_sizes buf0 buf'
    \<and> (\<exists>g \<in> set (precompile_backbone cfg). runs_graph inp g
        \<and> (gs_tokens g, length (si_logits_indices inp)) \<in> set (precompile_select_hidden_states cfg))"
proof -
  note nr = new_runner_values [OF new]
  from run obtain use_max all_ns limit ns padded qsl sls w pages where
    p: "collect_tokens cfg scheduled b start = Inr (use_max, all_ns)" "choose_limit cfg use_max = Inr limit"
    "ns = fst (cut_chunk limit all_ns start (num_reqs b))" "si_num_reqs inp = length ns"
    "get_padded_token_len (num_tokens_paddings cfg) (int (Max (set ns))) = Inr padded"
    "fill_rows (position_values b) (sc_max_num_reqs cfg) (nat padded) ns = Inr (si_position_ids inp)"
    "fill_rows (token_values b) (sc_max_num_reqs cfg) (nat padded) ns = Inr (si_input_ids inp)"
    "fill_query_start ns (query_start_loc buf) = Inr qsl"
    "fill_seq_lens (num_computed_tokens b) ns (seq_lens buf) = Inr sls"
    "page_part cfg use_max limit (length ns) (cpu_table (block_table b)) (block_table_cpu buf) = Inr (w, pages)"
    "buf' = \<lparr> query_start_loc = qsl, seq_lens = sls, block_table_cpu = (if length ns = 1 then clear_pages limit w pages else pages) \<rparr>"
    "si_page_table inp = page_view limit w (block_table_cpu buf')"
    "length (si_cache_position inp) = min limit (length sls)"
    "si_logits_indices inp = map (\<lambda>x. x - 1) (slice qsl 1 (sc_max_num_reqs cfg + 1))"
    by (rule prepare_inputs_parts)
  obtain mn where pads: "get_token_paddings mn (int (rl_max_model_len l)) = Some (num_tokens_paddings cfg)" using nr(2) by blast
  have padded: "padded \<in> set (num_tokens_paddings cfg)" using padded_token_len_least(1) [OF token_paddings_sorted [OF pads] p(5)] .
  have lens: "map length (block_table_cpu buf') = map length (block_table_cpu buf)"
    using page_part_sizes(1) [OF p(10)] clear_pages_sizes by (simp add: p(11))
  then have same: "same_sizes buf0 buf'"
    using sizes fill_query_start_length(1) [OF p(8)] fill_seq_lens_length [OF p(9)] by (simp add: same_sizes_def p(11))
  have rows: "length (block_table_cpu buf') = sc_max_num_reqs cfg" "\<forall>row \<in> set (block_table_cpu buf'). length row = max_num_blocks_per_req cfg"
  proof -
    have "map length (block_table_cpu buf') = replicate (sc_max_num_reqs cfg) (max_num_blocks_per_req cfg)"
      using lens sizes by (simp add: same_sizes_def nr(8))
    then show "length (block_table_cpu buf') = sc_max_num_reqs cfg" "\<forall>row \<in> set (block_table_cpu buf'). length row = max_num_blocks_per_req cfg"
      by (metis length_map length_replicate, metis image_eqI in_set_replicate list.set_map)
  qed
  have chosen: "limit = num_reqs_max_model_len cfg \<and> w = max_num_blocks_per_req cfg
      \<or> most_model_len cfg \<noteq> None \<and> num_reqs_most_model_len cfg = Some limit \<and> num_blocks_per_most_len_req cfg = Some w"
    using p(2) page_part_sizes(2) [OF p(10)] most_len_kept [OF p(1)] by (auto simp: choose_limit_def split: if_splits option.splits)
  have "limit \<le> sc_max_num_reqs cfg" using chosen nr(6,7) by auto
  moreover have "w \<le> max_num_blocks_per_req cfg"
  proof (cases "w = max_num_blocks_per_req cfg")
    case False
    then obtain m where m: "rl_most_model_len l = Some m" "w = nat (cdiv (int m) (int (rl_block_size l)))" using chosen nr(5) by auto
    have "cdiv (int m) (int (rl_block_size l)) \<le> cdiv (int (rl_max_model_len l)) (int (rl_block_size l))"
      by (rule ceil_div_mono [OF cdiv]) (use limits(2) m(1) nr(9) in auto)
    then show ?thesis using m(2) nr(4) by simp
  qed simp
  ultimately have table: "has_shape (si_page_table inp) (limit, w)"
    using rows by (auto simp: p(12) intro!: page_view_shape)
  let ?g = "dummy_run cfg padded limit w"
  have maxtok: "sc_max_num_reqs cfg \<le> nat (last (num_tokens_paddings cfg))" using limits(1) by simp
  have "length sls = nat (last (num_tokens_paddings cfg))"
    using fill_seq_lens_length [OF p(9)] sizes by (simp add: same_sizes_def nr(8))
  then have "length (si_cache_position inp) = limit" using p(13) \<open>limit \<le> sc_max_num_reqs cfg\<close> maxtok by simp
  then have "runs_graph inp ?g"
    using fill_rows_shape [OF p(6)] fill_rows_shape [OF p(7)] table by (simp add: runs_graph_def dummy_run_def)
  moreover have "length qsl = nat (last (num_tokens_paddings cfg)) + 1"
    using fill_query_start_length(1) [OF p(8)] sizes by (simp add: same_sizes_def nr(8))
  then have "length (si_logits_indices inp) = sc_max_num_reqs cfg" using maxtok by (simp add: p(14))
  then have "(gs_tokens ?g, length (si_logits_indices inp)) \<in> set (precompile_select_hidden_states cfg)"
    using padded by (auto simp: dummy_run_def precompile_select_hidden_states_def)
  ultimately show ?thesis using same in_precompile [OF padded chosen] by blast
qed

text \<open>The buffers that hold one entry per request are as long as the longest padding of one request: a step with more
  requests than this never succeeds.\<close>

theorem requests_bounded_by_longest_padding:
  assumes "new_runner cdiv l = Some (Inr (cfg, buf0))" "same_sizes buf0 buf"
    and "prepare_inputs cfg cpu_table b total_tokens scheduled start buf = Inr (inp, buf')"
  shows "si_num_reqs inp \<le> nat (last (num_tokens_paddings cfg))"
proof -
  from assms(3) obtain ns qsl where n: "si_num_reqs inp = length ns" "fill_query_start ns (query_start_loc buf) = Inr qsl"
    by (rule prepare_inputs_parts) blast
  have "length (query_start_loc buf) = nat (last (num_tokens_paddings cfg)) + 1"
    using assms(2) by (simp add: same_sizes_def new_runner_values(8) [OF assms(1)])
  then show ?thesis using fill_query_start_length(2) [OF n(2)] n(1) by simp
qed

section \<open>Witnesses\<close>

definition ex_limits :: runner_limits where
  "ex_limits = \<lparr> rl_max_model_len = 32, rl_block_size = 16, rl_max_num_seqs = 3, rl_max_num_batched_tokens = 96,
     rl_min_context_len = 32, rl_most_model_len = None, rl_lora = False \<rparr>"

definition ex_runner :: "step_config \<times> step_buffers" where
  "ex_runner =
     (\<lparr> most_model_len = None, num_reqs_most_model_len = None, num_reqs_max_model_len = 3, sc_max_num_reqs = 3,
        num_tokens_paddings = [1, 32], max_num_blocks_per_req = 2, num_blocks_per_most_len_req = None, has_lora = False \<rparr>,
      \<lparr> query_start_loc = replicate 33 0, seq_lens = replicate 32 0, block_table_cpu = replicate 3 [0, 0] \<rparr>)"

lemma ex_new_runner: "new_runner (\<lambda>a b. - ((- a) div b)) ex_limits = Some (Inr ex_runner)"
proof -
  have "get_token_paddings 32 32 = Some [1, 32]"
    by (simp add: get_token_paddings_def adjust_min_token_def padding_loop.simps)
  then show ?thesis
    by (simp add: new_runner_def ex_limits_def ex_runner_def get_max_num_seqs_def Let_def) (simp add: eval_nat_numeral)
qed

lemma ex_runner_step:
  "\<exists>inp buf'. prepare_inputs (fst ex_runner) id ex_step_batch 4 ex_scheduled 0 (snd ex_runner) = Inr (inp, buf')"
proof -
  have n: "num_reqs ex_step_batch = 2" "max_num_reqs ex_step_batch = 3" "max_model_len ex_step_batch = 4"
    "block_table ex_step_batch = [[5, 1], [6, 7], [0, 0]]" "num_computed_tokens ex_step_batch = [0, 1, 0]"
    "req_ids ex_step_batch = [Some ''a'', Some ''b'']"
    by (simp_all add: num_reqs_def ex_step_batch_def new_input_batch_def Let_def)
  have two: "i < 2 \<longleftrightarrow> i = 0 \<or> i = 1" for i :: nat by auto
  have inv: "batch_inv ex_step_batch" "packed ex_step_batch" using ex_step_ready by (simp_all add: step_ready_def)
  have ready: "step_ready (fst ex_runner) id ex_step_batch ex_scheduled (snd ex_runner)"
    using inv by (auto simp: step_ready_def config_ok_def buffers_sized_def n two count_of_def ex_runner_def ex_scheduled_def)
  then show ?thesis
    using prepare_inputs_rows [OF ready, of 0 4] by (auto simp: n step_ready_def)
qed

theorem step_shapes_are_precompiled_witness:
  "\<exists>inp buf' g. prepare_inputs (fst ex_runner) id ex_step_batch 4 ex_scheduled 0 (snd ex_runner) = Inr (inp, buf')
    \<and> g \<in> set (precompile_backbone (fst ex_runner)) \<and> runs_graph inp g"
proof -
  obtain inp buf' where run: "prepare_inputs (fst ex_runner) id ex_step_batch 4 ex_scheduled 0 (snd ex_runner) = Inr (inp, buf')"
    using ex_runner_step by blast
  have "new_runner (\<lambda>a b. - ((- a) div b)) ex_limits = Some (Inr (fst ex_runner, snd ex_runner))" using ex_new_runner by simp
  then show ?thesis
    using step_shapes_are_precompiled [OF ceil_div_spec_instance _ _ _ _ run, of ex_limits "snd ex_runner"] run
    by (auto simp: same_sizes_def ex_runner_def ex_limits_def)
qed

theorem requests_bounded_by_longest_padding_witness:
  "\<exists>inp buf'. prepare_inputs (fst ex_runner) id ex_step_batch 4 ex_scheduled 0 (snd ex_runner) = Inr (inp, buf')
    \<and> si_num_reqs inp \<le> 32"
proof -
  obtain inp buf' where run: "prepare_inputs (fst ex_runner) id ex_step_batch 4 ex_scheduled 0 (snd ex_runner) = Inr (inp, buf')"
    using ex_runner_step by blast
  have "new_runner (\<lambda>a b. - ((- a) div b)) ex_limits = Some (Inr (fst ex_runner, snd ex_runner))" using ex_new_runner by simp
  from requests_bounded_by_longest_padding [OF this _ run] run show ?thesis by (auto simp: same_sizes_def ex_runner_def)
qed

end
