(* ===== verification/Attention.thy ===== *)
theory Attention
  imports PagedCache KVSetup
begin

text \<open>
  The attention operators of \<open>tt_torch/custom_ops.py\<close> and the layer of \<open>vllm_tt/attention.py\<close> that uses them.

  As in \<open>PagedCache\<close> a tensor of four dimensions keeps its last rows as entries, here the vectors of one
  head. The numbers of queries, keys and values are finite; scores, weights and results are floating point
  values, because masked scores are \<open>-inf\<close>. Softmax and the default scale, one over the root of the head
  size, are parameters. On an XLA device an operator becomes a custom call, the argument \<open>xla\<close>. All tensors
  of a call are on one device, so that the assertions that compare devices hold.
\<close>

section \<open>Attention of one query\<close>

type_synonym head_vector = "rat list"

definition score :: "head_vector \<Rightarrow> head_vector \<Rightarrow> rat" where
  "score q k = sum_list (map2 (*) q k)"

text \<open>The scores with their bias, the weights, and the weighted sum of the values.\<close>

definition attend ::
  "(fl list \<Rightarrow> fl list) \<Rightarrow> rat \<Rightarrow> head_vector \<Rightarrow> head_vector list \<Rightarrow> head_vector list \<Rightarrow> fl list \<Rightarrow> fl list" where
  "attend softmax scale q ks vs bias =
     (let weights = softmax (map2 (\<lambda>k b. fl_add (Fin (score q k * scale)) b) ks bias)
      in map (\<lambda>d. fl_sum (map2 (\<lambda>w v. fl_mul w (Fin (v ! d))) weights vs)) [0..<length q])"

text \<open>A mask of four dimensions, broadcast to the scores.\<close>

definition mask_row :: "nat \<Rightarrow> fl list tensor4 \<Rightarrow> nat \<Rightarrow> nat \<Rightarrow> nat \<Rightarrow> fl list" where
  "mask_row n m b h i =
     (let row = cells m ! (if d0 m = 1 then 0 else b) ! (if d1 m = 1 then 0 else h) ! (if d2 m = 1 then 0 else i)
      in if length row = 1 then replicate n (hd row) else row)"

definition mask_fits :: "nat \<times> nat \<times> nat \<Rightarrow> nat \<Rightarrow> fl list tensor4 \<Rightarrow> bool" where
  "mask_fits shape n m \<longleftrightarrow>
     (case shape of (b, h, i) \<Rightarrow> (d0 m = 1 \<or> d0 m = b) \<and> (d1 m = 1 \<or> d1 m = h) \<and> (d2 m = 1 \<or> d2 m = i))
     \<and> (\<forall>x \<in> set (cells m). \<forall>y \<in> set x. \<forall>row \<in> set y. length row = n \<or> length row = 1)"

text \<open>\<open>torch.nn.functional.scaled_dot_product_attention\<close> with \<open>enable_gqa\<close>: heads of the query share the heads of
  the key in equal groups.\<close>

definition torch_sdpa ::
  "(fl list \<Rightarrow> fl list) \<Rightarrow> rat \<Rightarrow> rat list tensor4 \<Rightarrow> rat list tensor4 \<Rightarrow> rat list tensor4 \<Rightarrow> fl list tensor4 option \<Rightarrow> bool
     \<Rightarrow> fl list tensor4 res" where
  "torch_sdpa softmax scale query key value attn_mask is_causal =
     (let n = d2 key; group = d1 query div d1 key
      in rbind (rguard (case attn_mask of None \<Rightarrow> True | Some m \<Rightarrow> \<not> is_causal \<and> mask_fits (shape4 query) n m) RuntimeError) (\<lambda>_.
         Inr \<lparr> d0 = d0 query, d1 = d1 query, d2 = d2 query,
           cells = map (\<lambda>b. map (\<lambda>h. map (\<lambda>i.
             attend softmax scale (cells query ! b ! h ! i) (cells key ! b ! (h div group)) (cells value ! b ! (h div group))
               (case attn_mask of
                  Some m \<Rightarrow> mask_row n m b h i
                | None \<Rightarrow> if is_causal then replicate (min n (i + 1)) (Fin 0) @ replicate (n - (i + 1)) NegInf else replicate n (Fin 0)))
             [0..<d2 query]) [0..<d1 query]) [0..<d0 query] \<rparr>))"

section \<open>The operators\<close>

text \<open>A custom call; \<open>ScaleText s\<close> is \<open>str(s)\<close>.\<close>

datatype attr_text = BoolText bool | ScaleText rat

record sdpa_call =
  sc_name :: string
  sc_tensors :: "rat list tensor4 list"
  sc_indices :: "int list list list"
  sc_mask :: "fl list tensor4 option"
  sc_sink :: "rat list option"
  sc_shape :: "nat \<times> nat \<times> nat"
  sc_attrs :: "(string \<times> attr_text) list"

definition scale_attr :: "rat option \<Rightarrow> (string \<times> attr_text) list" where
  "scale_attr scale = (case scale of None \<Rightarrow> [] | Some s \<Rightarrow> [(''scale'', ScaleText s)])"

text \<open>Full attention. \<open>default_scale\<close> is the scale of \<open>scale=None\<close>.\<close>

definition scaled_dot_product_attention ::
  "(fl list \<Rightarrow> fl list) \<Rightarrow> rat \<Rightarrow> (sdpa_call \<Rightarrow> fl list tensor4) \<Rightarrow> device \<Rightarrow> rat list tensor4 \<Rightarrow> rat list tensor4 \<Rightarrow> rat list tensor4
     \<Rightarrow> fl list tensor4 option \<Rightarrow> bool \<Rightarrow> rat option \<Rightarrow> fl list tensor4 res" where
  "scaled_dot_product_attention softmax default_scale xla dev query key value attn_mask is_causal scale =
     rbind (rassert (shape4 key = shape4 value)) (\<lambda>_.
     rbind (rguard (d1 key \<noteq> 0) ZeroDivisionError) (\<lambda>_.
     rbind (rassert (d1 query mod d1 key = 0)) (\<lambda>_.
     rbind (rassert (d2 query mod 32 = 0)) (\<lambda>_.
     rbind (rassert (d0 query = d0 key)) (\<lambda>_.
     rbind (case attn_mask of
         None \<Rightarrow> Inr ()
       | Some m \<Rightarrow> rbind (rassert (\<not> is_causal)) (\<lambda>_. rassert (d0 query = d0 m))) (\<lambda>_.
     case dev of
       XLA \<Rightarrow> Inr (xla \<lparr> sc_name = ''tt.scaled_dot_product_attention'', sc_tensors = [query, key, value], sc_indices = [],
                         sc_mask = attn_mask, sc_sink = None, sc_shape = shape4 query,
                         sc_attrs = (''is_causal'', BoolText is_causal) # scale_attr scale \<rparr>)
     | CPU \<Rightarrow> torch_sdpa softmax (case scale of None \<Rightarrow> default_scale | Some s \<Rightarrow> s) query key value attn_mask is_causal
     | OtherDevice \<Rightarrow> Inl ValueError))))))"

text \<open>\<open>reshape\<close> of the leading dimensions: the same vectors in row-major order.\<close>

definition vectors :: "'v tensor4 \<Rightarrow> 'v list" where
  "vectors t = concat (concat (cells t))"

definition reshape4 :: "'v tensor4 \<Rightarrow> nat \<Rightarrow> nat \<Rightarrow> nat \<Rightarrow> 'v tensor4 res" where
  "reshape4 t a b c =
     rbind (rguard (length (vectors t) = a * b * c) RuntimeError) (\<lambda>_.
     Inr \<lparr> d0 = a, d1 = b, d2 = c,
       cells = map (\<lambda>i. map (\<lambda>j. slice (vectors t) ((i * b + j) * c) ((i * b + j + 1) * c)) [0..<b]) [0..<a] \<rparr>)"

text \<open>Attention of the current position over a contiguous cache.\<close>

definition scaled_dot_product_attention_decode ::
  "(fl list \<Rightarrow> fl list) \<Rightarrow> rat \<Rightarrow> (sdpa_call \<Rightarrow> fl list tensor4) \<Rightarrow> device \<Rightarrow> rat list tensor4 \<Rightarrow> rat list tensor4 \<Rightarrow> rat list tensor4
     \<Rightarrow> int list \<Rightarrow> fl list tensor4 option \<Rightarrow> rat list option \<Rightarrow> bool \<Rightarrow> rat option \<Rightarrow> fl list tensor4 res" where
  "scaled_dot_product_attention_decode softmax default_scale xla dev query key value cur_pos attn_mask attention_sink is_causal scale =
     rbind (rassert (shape4 key = shape4 value)) (\<lambda>_.
     rbind (rguard (d1 key \<noteq> 0) ZeroDivisionError) (\<lambda>_.
     rbind (rassert (d2 query mod d1 key = 0)) (\<lambda>_.
     rbind (rassert (d0 query = 1)) (\<lambda>_.
     rbind (rassert (d1 query = d0 key)) (\<lambda>_.
     rbind (rassert (is_causal \<longrightarrow> attn_mask = None)) (\<lambda>_.
     case dev of
       XLA \<Rightarrow> Inr (xla \<lparr> sc_name = ''tt.scaled_dot_product_attention_decode'', sc_tensors = [query, key, value], sc_indices = [[cur_pos]],
                         sc_mask = attn_mask, sc_sink = attention_sink, sc_shape = shape4 query,
                         sc_attrs = [(''is_causal'', BoolText is_causal), (''has_attention_mask'', BoolText (attn_mask \<noteq> None)),
                                     (''has_attention_sink'', BoolText (attention_sink \<noteq> None))] @ scale_attr scale \<rparr>)
     | CPU \<Rightarrow>
         (let batch_size = d1 query; num_heads = d2 query; max_seq_len = d2 key
          in rbind (reshape4 query batch_size num_heads 1) (\<lambda>query.
             rbind (case attn_mask of
                 Some m \<Rightarrow>
                   rbind (rguard (length (concat (vectors m)) = batch_size * num_heads * max_seq_len) RuntimeError) (\<lambda>_.
                   Inr \<lparr> d0 = batch_size, d1 = num_heads, d2 = 1,
                     cells = map (\<lambda>b. map (\<lambda>h. [slice (concat (vectors m)) ((b * num_heads + h) * max_seq_len)
                                                  ((b * num_heads + h + 1) * max_seq_len)]) [0..<num_heads]) [0..<batch_size] \<rparr>)
               | None \<Rightarrow>
                   rbind (rmap (\<lambda>b. rbind (lget cur_pos b) (\<lambda>pos. Inr (replicate num_heads [causal_row max_seq_len pos]))) [0..<batch_size])
                     (\<lambda>rows. Inr \<lparr> d0 = batch_size, d1 = num_heads, d2 = 1, cells = rows \<rparr>)) (\<lambda>mask.
             rbind (torch_sdpa softmax (case scale of None \<Rightarrow> default_scale | Some s \<Rightarrow> s) query key value (Some mask) False) (\<lambda>out.
             reshape4 out 1 batch_size num_heads)))
         )
     | OtherDevice \<Rightarrow> Inl ValueError))))))"

text \<open>Attention over a paged cache. The heads are those of the cache: the query is reshaped to them, and the repeated
  keys and values of the code are not used. The loop gathers keys and values of every user.\<close>

definition gather_caches ::
  "rat list tensor4 \<Rightarrow> rat list tensor4 \<Rightarrow> int list list \<Rightarrow> int list
     \<Rightarrow> (rat list list list \<times> rat list list list \<times> fl list) list res" where
  "gather_caches key value page_table cur_pos =
     rmap (\<lambda>(u, pos).
       rbind (lget page_table u) (\<lambda>block_indices.
       rbind (user_sequence key block_indices) (\<lambda>user_key.
       rbind (user_sequence value block_indices) (\<lambda>user_value.
       Inr (user_key, user_value, causal_row (length block_indices * d2 key) pos)))))
       (List.enumerate 0 cur_pos)"

definition paged_sdpa_cpu ::
  "(fl list \<Rightarrow> fl list) \<Rightarrow> rat \<Rightarrow> rat list tensor4 \<Rightarrow> rat list tensor4 \<Rightarrow> rat list tensor4 \<Rightarrow> int list list \<Rightarrow> bool
     \<Rightarrow> fl list tensor4 option \<Rightarrow> int list \<Rightarrow> fl list tensor4 res" where
  "paged_sdpa_cpu softmax scale query key value page_table is_causal attn_mask cur_pos =
     (let num_heads = d1 key; num_users = length cur_pos
      in rbind (gather_caches key value page_table cur_pos) (\<lambda>users.
         rbind (reshape4 query num_users num_heads 1) (\<lambda>query.
         rbind (rguard (num_heads \<noteq> 0) ZeroDivisionError) (\<lambda>_.
         let mask = (if is_causal then Some \<lparr> d0 = num_users, d1 = 1, d2 = 1, cells = map (\<lambda>(_, _, row). [[row]]) users \<rparr> else attn_mask)
         in case mask of
              None \<Rightarrow> Inl TypeError
            | Some m \<Rightarrow>
                rbind (rguard (\<forall>u \<in> set users. mask_fits (num_users, num_heads, 1) (length (snd (snd u))) m) RuntimeError) (\<lambda>_.
                reshape4 \<lparr> d0 = num_users, d1 = num_heads, d2 = 1,
                    cells = map (\<lambda>(u, ks, vs, row). map (\<lambda>h.
                        [attend softmax scale (cells query ! u ! h ! 0) (ks ! h) (vs ! h) (mask_row (length row) m u h 0)])
                      [0..<num_heads]) (List.enumerate 0 users) \<rparr> 1 num_users num_heads)))))"

definition paged_scaled_dot_product_attention_decode ::
  "(fl list \<Rightarrow> fl list) \<Rightarrow> rat \<Rightarrow> (sdpa_call \<Rightarrow> fl list tensor4) \<Rightarrow> device \<Rightarrow> rat list tensor4 \<Rightarrow> rat list tensor4 \<Rightarrow> rat list tensor4
     \<Rightarrow> int list list \<Rightarrow> bool \<Rightarrow> fl list tensor4 option \<Rightarrow> int list option \<Rightarrow> rat list option \<Rightarrow> rat option \<Rightarrow> fl list tensor4 res" where
  "paged_scaled_dot_product_attention_decode softmax default_scale xla dev query key value page_table is_causal attn_mask cur_pos attention_sink scale =
     rbind (rassert (is_causal \<longrightarrow> attn_mask = None \<and> cur_pos \<noteq> None)) (\<lambda>_.
     case dev of
       XLA \<Rightarrow> Inr (xla \<lparr> sc_name = ''tt.paged_scaled_dot_product_attention_decode'', sc_tensors = [query, key, value],
                         sc_indices = [page_table] @ (case cur_pos of None \<Rightarrow> [] | Some p \<Rightarrow> [[p]]),
                         sc_mask = attn_mask, sc_sink = attention_sink, sc_shape = shape4 query,
                         sc_attrs = [(''has_attention_mask'', BoolText (attn_mask \<noteq> None)), (''has_cur_pos_tensor'', BoolText (cur_pos \<noteq> None)),
                                     (''has_attention_sink'', BoolText (attention_sink \<noteq> None)), (''is_causal'', BoolText is_causal)]
                                    @ scale_attr scale \<rparr>)
     | CPU \<Rightarrow>
         (case cur_pos of
            None \<Rightarrow> Inl AttributeError
          | Some pos \<Rightarrow> paged_sdpa_cpu softmax (case scale of None \<Rightarrow> default_scale | Some s \<Rightarrow> s) query key value page_table is_causal attn_mask pos)
     | OtherDevice \<Rightarrow> Inl ValueError)"

section \<open>Shapes for tracing\<close>

text \<open>The fake kernels, which the tracer runs instead of the operators: zeros of the shape of an argument. Only the shape
  is kept.\<close>

definition update_cache_fake :: "'v tensor4 \<Rightarrow> 'v tensor4 \<Rightarrow> int list \<Rightarrow> int option \<Rightarrow> nat \<times> nat \<times> nat" where
  "update_cache_fake cache fill_value cache_position batch_offset = shape4 cache"

definition fill_cache_fake :: "'v tensor4 \<Rightarrow> 'v tensor4 \<Rightarrow> int option \<Rightarrow> nat \<times> nat \<times> nat" where
  "fill_cache_fake cache fill_value batch_offset = shape4 cache"

definition paged_update_cache_fake :: "'v tensor4 \<Rightarrow> 'v tensor4 \<Rightarrow> int list \<Rightarrow> int list list \<Rightarrow> bool \<Rightarrow> nat \<times> nat \<times> nat" where
  "paged_update_cache_fake cache fill_value update_indices page_table share_cache = shape4 cache"

definition paged_fill_cache_fake :: "'v tensor4 \<Rightarrow> 'v tensor4 \<Rightarrow> int list list \<Rightarrow> int list option \<Rightarrow> nat \<times> nat \<times> nat" where
  "paged_fill_cache_fake cache fill_value page_table batch_idx = shape4 cache"

definition scaled_dot_product_attention_fake :: "rat list tensor4 \<Rightarrow> nat \<times> nat \<times> nat" where
  "scaled_dot_product_attention_fake query = shape4 query"

definition scaled_dot_product_attention_decode_fake :: "rat list tensor4 \<Rightarrow> nat \<times> nat \<times> nat" where
  "scaled_dot_product_attention_decode_fake query = shape4 query"

definition paged_scaled_dot_product_attention_decode_fake :: "rat list tensor4 \<Rightarrow> nat \<times> nat \<times> nat" where
  "paged_scaled_dot_product_attention_decode_fake query = shape4 query"

end
