(* ===== verification/AttnLayer.thy ===== *)
theory AttnLayer
  imports Attention
begin

text \<open>
  The attention layer, \<open>TTAttentionBackendImpl\<close> of \<open>vllm_tt/attention.py\<close>: it cuts queries, keys and values into
  heads, writes keys and values into the paged cache, and attends to the prompt (prefill) or to the cache (decode).

  The two halves of the cache tensor are a pair of tensors; \<open>None\<close> is the empty tensor the layer has before
  the caches are allocated. The environment holds what is not the layer's: softmax, the default scale of a head size,
  the custom calls and the device.
\<close>

section \<open>Inputs\<close>

record attn_env =
  ae_softmax :: "fl list \<Rightarrow> fl list"
  ae_scale :: "nat \<Rightarrow> rat"
  ae_sdpa :: "sdpa_call \<Rightarrow> fl list tensor4"
  ae_cache :: "rat list custom_call \<Rightarrow> rat list tensor4"
  ae_device :: device

record tt_metadata =
  tm_cache_position :: "int list option"
  tm_attn_mask :: "fl list tensor4 option"
  tm_page_table :: "int list list option"
  tm_is_causal :: bool

record attn_impl =
  im_num_heads :: nat
  im_head_size :: nat
  im_scale :: rat
  im_num_kv_heads :: nat
  im_sliding_window :: "nat option"
  im_logits_soft_cap :: "rat option"
  im_queries_per_kv :: nat
  im_sinks :: "rat list option"

definition new_attn_impl ::
  "nat \<Rightarrow> nat \<Rightarrow> rat \<Rightarrow> nat \<Rightarrow> rat list option \<Rightarrow> nat option \<Rightarrow> rat option \<Rightarrow> attn_type \<Rightarrow> rat list option \<Rightarrow> attn_impl res" where
  "new_attn_impl num_heads head_size scale num_kv_heads alibi_slopes sliding_window logits_soft_cap attn_type sinks =
     rbind (rguard (num_kv_heads \<noteq> 0) ZeroDivisionError) (\<lambda>_.
     rbind (rguard (alibi_slopes = None) NotImplementedError) (\<lambda>_.
     rbind (rguard (attn_type \<in> {DecoderAttn, EncoderAttn, EncoderOnlyAttn}) NotImplementedError) (\<lambda>_.
     rbind (rassert (case sinks of None \<Rightarrow> True | Some s \<Rightarrow> length s = num_heads)) (\<lambda>_.
     Inr \<lparr> im_num_heads = num_heads, im_head_size = head_size, im_scale = scale, im_num_kv_heads = num_kv_heads,
           im_sliding_window = sliding_window, im_logits_soft_cap = logits_soft_cap,
           im_queries_per_kv = num_heads div num_kv_heads, im_sinks = sinks \<rparr>))))"

text \<open>A tensor of users, tokens and hidden values, and the two forms of the inputs: rows of all tokens with their
  width, or rows per user.\<close>

record rows3 =
  r0 :: nat
  r1 :: nat
  r2 :: nat
  rows :: "rat list list list"

datatype layer_inputs =
    TwoD "nat \<times> rat list list" "nat \<times> rat list list" "nat \<times> rat list list"
  | ThreeD rows3 rows3 rows3
  | OtherD

record attention_inputs =
  in_query :: "rat list tensor4"
  in_key :: "rat list tensor4"
  in_value :: "rat list tensor4"
  in_batched :: bool
  in_hidden :: nat
  in_users :: nat
  in_query_num_tokens :: nat
  in_is_prefill :: bool

definition logical_batch :: "layer_inputs \<Rightarrow> tt_metadata option \<Rightarrow> nat" where
  "logical_batch inputs meta =
     (case Option.bind meta tm_cache_position of
        Some positions \<Rightarrow> length positions
      | None \<Rightarrow> (case inputs of ThreeD q _ _ \<Rightarrow> r0 q | _ \<Rightarrow> 1))"

definition rows_per_user :: "nat \<Rightarrow> nat \<times> rat list list \<Rightarrow> rows3 res" where
  "rows_per_user users = (\<lambda>(hidden, xs).
     rbind (rguard (users \<noteq> 0) ZeroDivisionError) (\<lambda>_.
     rbind (rassert (length xs mod users = 0)) (\<lambda>_.
     let n = length xs div users
     in Inr \<lparr> r0 = users, r1 = n, r2 = hidden, rows = map (\<lambda>u. slice xs (u * n) ((u + 1) * n)) [0..<users] \<rparr>)))"

definition reshape_key_value :: "nat \<times> rat list list \<Rightarrow> nat \<times> rat list list \<Rightarrow> nat \<Rightarrow> (rows3 \<times> rows3) res" where
  "reshape_key_value key value users =
     rbind (rows_per_user users key) (\<lambda>key.
     rbind (rows_per_user users value) (\<lambda>value.
     rbind (rassert (r1 value = r1 key)) (\<lambda>_.
     Inr (key, value))))"

text \<open>\<open>reshape\<close> of the last dimension to heads.\<close>

definition chunks :: "nat \<Rightarrow> 'a list \<Rightarrow> 'a list list" where
  "chunks n xs = map (\<lambda>i. slice xs (i * n) ((i + 1) * n)) [0..<length xs div n]"

definition to_heads :: "nat \<Rightarrow> rows3 \<Rightarrow> rat list tensor4 res" where
  "to_heads head_size t =
     rbind (rguard (r2 t mod head_size = 0 \<or> r0 t * r1 t = 0) RuntimeError) (\<lambda>_.
     Inr \<lparr> d0 = r0 t, d1 = r1 t, d2 = r2 t div head_size, cells = map (map (chunks head_size)) (rows t) \<rparr>)"

definition reshape_to_attention_format ::
  "nat \<Rightarrow> rows3 \<Rightarrow> rows3 \<Rightarrow> rows3 \<Rightarrow> (rat list tensor4 \<times> rat list tensor4 \<times> rat list tensor4) res" where
  "reshape_to_attention_format head_size query key value =
     rbind (rguard (head_size \<noteq> 0) ZeroDivisionError) (\<lambda>_.
     rbind (rassert (r2 query mod head_size = 0)) (\<lambda>_.
     rbind (to_heads head_size query) (\<lambda>query.
     rbind (to_heads head_size key) (\<lambda>key.
     rbind (to_heads head_size value) (\<lambda>value.
     Inr (query, key, value))))))"

definition same_dims :: "rows3 \<Rightarrow> rows3 \<Rightarrow> bool" where
  "same_dims a b \<longleftrightarrow> r0 a = r0 b \<and> r1 a = r1 b \<and> r2 a = r2 b"

definition prepare_attention_inputs ::
  "attn_impl \<Rightarrow> layer_inputs \<Rightarrow> tt_metadata option \<Rightarrow> attention_inputs res" where
  "prepare_attention_inputs impl inputs meta =
     (let users = logical_batch inputs meta
      in rbind (case inputs of
            ThreeD q k v \<Rightarrow>
              rbind (rassert (r0 q = users)) (\<lambda>_.
              rbind (rassert (same_dims k v)) (\<lambda>_.
              Inr (True, q, k, v)))
          | TwoD q k v \<Rightarrow>
              rbind (rows_per_user users q) (\<lambda>q.
              rbind (reshape_key_value k v users) (\<lambda>(k, v).
              Inr (False, q, k, v)))
          | OtherD \<Rightarrow> Inl ValueError) (\<lambda>(batched, q, k, v).
         rbind (reshape_to_attention_format (im_head_size impl) q k v) (\<lambda>(query, key, value).
         Inr \<lparr> in_query = query, in_key = key, in_value = value, in_batched = batched, in_hidden = r2 q,
               in_users = users, in_query_num_tokens = r1 q, in_is_prefill = (r1 q > 1) \<rparr>)))"

section \<open>The layer\<close>

type_synonym kv_halves = "rat list tensor4 \<times> rat list tensor4"

definition required :: "'a option \<Rightarrow> 'a res" where
  "required x = (case x of None \<Rightarrow> Inl RuntimeError | Some y \<Rightarrow> Inr y)"

definition update_caches :: "attn_env \<Rightarrow> attention_inputs \<Rightarrow> tt_metadata \<Rightarrow> kv_halves \<Rightarrow> kv_halves res" where
  "update_caches env inputs meta = (\<lambda>(k_cache, v_cache).
     rbind (if in_is_prefill inputs then Inr [] else required (tm_cache_position meta)) (\<lambda>positions.
     rbind (required (tm_page_table meta)) (\<lambda>page_table.
     let write = handle_paged_attention (ae_cache env) (ae_device env) (in_is_prefill inputs) (in_users inputs)
     in rbind (write (in_key inputs) positions page_table k_cache) (\<lambda>k_cache.
        rbind (write (in_value inputs) positions page_table v_cache) (\<lambda>v_cache.
        Inr (k_cache, v_cache))))))"

definition compute_full_attention :: "attn_env \<Rightarrow> attn_impl \<Rightarrow> attention_inputs \<Rightarrow> tt_metadata \<Rightarrow> fl list tensor4 res" where
  "compute_full_attention env impl inputs meta =
     rbind (scaled_dot_product_attention (ae_softmax env) (ae_scale env (im_head_size impl)) (ae_sdpa env) (ae_device env)
              (swap12 (in_query inputs)) (swap12 (in_key inputs)) (swap12 (in_value inputs)) (tm_attn_mask meta) (tm_is_causal meta) None)
       (\<lambda>output. Inr (swap12 output))"

definition compute_decode_attention ::
  "attn_env \<Rightarrow> attn_impl \<Rightarrow> attention_inputs \<Rightarrow> kv_halves \<Rightarrow> tt_metadata \<Rightarrow> fl list tensor4 res" where
  "compute_decode_attention env impl inputs kv_cache meta =
     rbind (required (tm_page_table meta)) (\<lambda>page_table.
     rbind (paged_scaled_dot_product_attention_decode (ae_softmax env) (ae_scale env (im_head_size impl)) (ae_sdpa env) (ae_device env)
              (swap01 (in_query inputs)) (fst kv_cache) (snd kv_cache) page_table (tm_is_causal meta) (tm_attn_mask meta)
              (tm_cache_position meta) (im_sinks impl) None)
       (\<lambda>out. Inr (swap01 out)))"

datatype layer_output = Out2 "fl list list" | Out3 "fl list list list"

definition finalize_output :: "fl list tensor4 \<Rightarrow> attention_inputs \<Rightarrow> layer_output res" where
  "finalize_output output inputs =
     (let xs = concat (vectors output); n = in_query_num_tokens inputs; hidden = in_hidden inputs
      in rbind (rguard (length xs = in_users inputs * n * hidden) RuntimeError) (\<lambda>_.
         let row = (\<lambda>i. slice xs (i * hidden) ((i + 1) * hidden))
         in Inr (if in_batched inputs
                 then Out3 (map (\<lambda>u. map (\<lambda>t. row (u * n + t)) [0..<n]) [0..<in_users inputs])
                 else Out2 (map row [0..<in_users inputs * n]))))"

definition forward ::
  "attn_env \<Rightarrow> attn_impl \<Rightarrow> layer_inputs \<Rightarrow> kv_halves option \<Rightarrow> tt_metadata option \<Rightarrow> (layer_output \<times> kv_halves option) res" where
  "forward env impl inputs kv_cache attn_metadata =
     rbind (prepare_attention_inputs impl inputs attn_metadata) (\<lambda>inputs.
     rbind (case kv_cache of
         None \<Rightarrow> Inr None
       | Some halves \<Rightarrow>
           (case attn_metadata of
              None \<Rightarrow> Inl AttributeError
            | Some meta \<Rightarrow> rbind (update_caches env inputs meta halves) (\<lambda>halves. Inr (Some halves)))) (\<lambda>kv_cache.
     rbind (if in_is_prefill inputs
            then rbind (rassert (im_sinks impl = None)) (\<lambda>_.
                 case attn_metadata of None \<Rightarrow> Inl AttributeError | Some meta \<Rightarrow> compute_full_attention env impl inputs meta)
            else case kv_cache of
                None \<Rightarrow> Inl IndexError
              | Some halves \<Rightarrow>
                  (case attn_metadata of
                     None \<Rightarrow> Inl AttributeError
                   | Some meta \<Rightarrow> compute_decode_attention env impl inputs halves meta)) (\<lambda>output.
     rbind (finalize_output output inputs) (\<lambda>output.
     Inr (output, kv_cache)))))"

end
