(* ===== verification/AttentionProps.thy ===== *)
theory AttentionProps
  imports Attention PagedCacheProps
begin

text \<open>
  The attention operators on the CPU: masking is the same as leaving tokens out, and attention over a paged cache
  is attention over each user's own tokens up to its position.
\<close>

section \<open>Masked attention\<close>

text \<open>The specification: attention of a query to all the keys it is given.\<close>

definition attention ::
  "(fl list \<Rightarrow> fl list) \<Rightarrow> rat \<Rightarrow> head_vector \<Rightarrow> head_vector list \<Rightarrow> head_vector list \<Rightarrow> fl list" where
  "attention softmax scale q ks vs = attend softmax scale q ks vs (replicate (length ks) (Fin 0))"

text \<open>What the code relies on: softmax gives a weight per score, and scores of \<open>-inf\<close> after the others get none.\<close>

definition masking_laws :: "(fl list \<Rightarrow> fl list) \<Rightarrow> bool" where
  "masking_laws softmax \<longleftrightarrow>
     (\<forall>xs. length (softmax xs) = length xs)
     \<and> (\<forall>xs n. xs \<noteq> [] \<longrightarrow> softmax (map Fin xs @ replicate n NegInf) = softmax (map Fin xs) @ replicate n (Fin 0))"

lemma fl_sum_zeros: "fl_sum (xs @ replicate n (Fin 0)) = fl_sum xs"
proof -
  have "fl_add (Fin 0) c = c" for c by (cases c) auto
  then have "fold fl_add (replicate n (Fin 0)) c = c" for c by (induction n arbitrary: c) auto
  then show ?thesis by (simp add: fl_sum_def)
qed

lemma length_attend [simp]: "length (attend softmax scale q ks vs bias) = length q"
  by (simp add: attend_def Let_def)

lemma attend_masked:
  assumes laws: "masking_laws softmax" and ks: "ks \<noteq> []" "length vs = length ks" "length vs' = n" "length ks' = n"
  shows "attend softmax scale q (ks @ ks') (vs @ vs') (replicate (length ks) (Fin 0) @ replicate n NegInf)
       = attention softmax scale q ks vs"
proof -
  let ?f = "\<lambda>k b. fl_add (Fin (score q k * scale)) b" and ?xs = "map (\<lambda>k. score q k * scale) ks"
  have zero: "map2 ?f ks (replicate (length ks) (Fin 0)) = map Fin ?xs"
    by (simp add: zip_replicate2)
  have none: "map2 ?f ks' (replicate n NegInf) = replicate n NegInf"
    using ks(4) by (intro nth_equalityI) auto
  have sm: "softmax (map Fin ?xs @ replicate n NegInf) = softmax (map Fin ?xs) @ replicate n (Fin 0)"
    "length (softmax (map Fin ?xs)) = length ks"
    using laws ks(1) unfolding masking_laws_def by (metis map_is_Nil_conv, metis length_map)
  have out: "map2 (\<lambda>w v. fl_mul w (Fin (v ! d))) (replicate n (Fin 0)) vs' = replicate n (Fin 0)" for d
    using ks(3) by (intro nth_equalityI) auto
  have scores: "map2 ?f (ks @ ks') (replicate (length ks) (Fin 0) @ replicate n NegInf) = map Fin ?xs @ replicate n NegInf"
    using zero none by simp
  have part: "fl_sum (map2 (\<lambda>w v. fl_mul w (Fin (v ! d))) (softmax (map Fin ?xs) @ replicate n (Fin 0)) (vs @ vs'))
      = fl_sum (map2 (\<lambda>w v. fl_mul w (Fin (v ! d))) (softmax (map Fin ?xs)) vs)" for d
    using sm(2) ks(2) out [of d] by (simp add: fl_sum_zeros)
  show ?thesis
    unfolding attention_def attend_def Let_def scores sm(1) zero part ..
qed

text \<open>The mask of the tokens after a position.\<close>

lemma causal_row_split:
  assumes "0 \<le> pos" "pos < int n"
  shows "causal_row n pos = replicate (nat pos + 1) (Fin 0) @ replicate (n - (nat pos + 1)) NegInf"
proof -
  obtain p where "pos = int p" using assms(1) by (metis nonneg_int_cases)
  then show ?thesis
    using assms(2) by (intro nth_equalityI)
      (auto simp: causal_row_def Let_def nth_slice_fill nth_append nat_add_distrib simp del: replicate_Suc)
qed

lemma length_causal_row [simp]: "length (causal_row n pos) = n"
  by (simp add: causal_row_def Let_def)

lemma attend_prefix:
  assumes "masking_laws softmax" "length ks = n" "length vs = n" "p < n"
  shows "attend softmax scale q ks vs (replicate (p + 1) (Fin 0) @ replicate (n - (p + 1)) NegInf)
       = attention softmax scale q (take (p + 1) ks) (take (p + 1) vs)"
proof -
  have "ks \<noteq> []" using assms(2,4) by auto
  then show ?thesis
    using attend_masked [OF assms(1), of "take (p + 1) ks" "take (p + 1) vs" "drop (p + 1) vs" "n - (p + 1)" "drop (p + 1) ks"]
      assms(2-4) by simp
qed

section \<open>Reshapes of one leading dimension\<close>

lemma length_concat_same: "\<forall>x \<in> set xs. length x = n \<Longrightarrow> length (concat xs) = length xs * n"
  by (induction xs) auto

lemma vectors_nth:
  assumes "wf4 t" "a < d0 t" "b < d1 t" "c < d2 t"
  shows "(a * d1 t + b) * d2 t + c < length (vectors t)" "vectors t ! ((a * d1 t + b) * d2 t + c) = cells t ! a ! b ! c"
proof -
  note L = wf4D [OF assms(1)]
  have 1: "\<forall>x \<in> set (cells t). length x = d1 t" and 2: "\<forall>y \<in> set (concat (cells t)). length y = d2 t"
    using assms(1) by (auto simp: wf4_def)
  have i: "a * d1 t + b < length (concat (cells t))" "concat (cells t) ! (a * d1 t + b) = cells t ! a ! b"
    using concat_cell [OF 1] assms(2,3) L(1) by auto
  show "(a * d1 t + b) * d2 t + c < length (vectors t)" "vectors t ! ((a * d1 t + b) * d2 t + c) = cells t ! a ! b ! c"
    using concat_cell [OF 2 i(1) assms(4)] i(2) by (simp_all add: vectors_def)
qed

lemma length_vectors:
  assumes "wf4 t"
  shows "length (vectors t) = d0 t * d1 t * d2 t"
proof -
  note C = length_concat_same
  have 2: "\<forall>y \<in> set (concat (cells t)). length y = d2 t" and "\<forall>x \<in> set (cells t). length x = d1 t"
    using assms by (auto simp: wf4_def)
  then have "length (concat (cells t)) = d0 t * d1 t" using C [of "cells t" "d1 t"] assms by (simp add: wf4_def)
  then show ?thesis using C [OF 2] by (simp add: vectors_def)
qed

lemma reshape4_ok:
  assumes wf: "wf4 t" and n: "d0 t * d1 t * d2 t = a * b * c"
  obtains t' where "reshape4 t a b c = Inr t'" "wf4 t'" "shape4 t' = (a, b, c)"
    "\<And>i j k. i < a \<Longrightarrow> j < b \<Longrightarrow> k < c \<Longrightarrow> cells t' ! i ! j ! k = vectors t ! ((i * b + j) * c + k)"
proof
  let ?c = "map (\<lambda>i. map (\<lambda>j. slice (vectors t) ((i * b + j) * c) ((i * b + j + 1) * c)) [0..<b]) [0..<a]"
  let ?t = "\<lparr> d0 = a, d1 = b, d2 = c, cells = ?c \<rparr>"
  have fits: "(i * b + j + 1) * c \<le> length (vectors t)" if "i < a" "j < b" for i j
  proof -
    have "i * b + j + 1 \<le> (i + 1) * b" using that(2) by simp
    also have "\<dots> \<le> a * b" using that(1) by (intro mult_le_mono1) simp
    finally have "(i * b + j + 1) * c \<le> a * b * c" by (rule mult_le_mono1)
    then show ?thesis using length_vectors [OF wf] n by simp
  qed
  show "reshape4 t a b c = Inr ?t" using length_vectors [OF wf] n by (simp add: reshape4_def)
  have len: "length (slice (vectors t) ((i * b + j) * c) ((i * b + j + 1) * c)) = c" if "i < a" "j < b" for i j
    using fits [OF that] by (simp add: algebra_simps)
  then show "wf4 ?t" by (auto simp: wf4_def)
  show "shape4 ?t = (a, b, c)" by (simp add: shape4_def)
  fix i j k assume "i < a" "j < b" "k < c"
  then show "cells ?t ! i ! j ! k = vectors t ! ((i * b + j) * c + k)"
    using fits [of i j] by (simp add: algebra_simps)
qed

section \<open>The tokens of a user\<close>

lemma user_sequence_ok:
  assumes wf: "wf4 cache" and u: "u < length pt" and ok: "\<forall>i \<in> set (pt ! u). 0 \<le> i \<and> i < int (d0 cache)"
  obtains seq where "user_sequence cache (pt ! u) = Inr seq" "length seq = d1 cache"
    "\<And>h. h < d1 cache \<Longrightarrow> seq ! h = map (read_cache cache pt u h) [0..<length (pt ! u) * d2 cache]"
proof
  note L = wf4D [OF wf]
  let ?blocks = "map (\<lambda>i. cells cache ! nat i) (pt ! u)"
  let ?seq = "map (\<lambda>h. concat (map (\<lambda>b. b ! h) ?blocks)) [0..<d1 cache]"
  have "rmap (\<lambda>i. rbind (tensor_index (d0 cache) i) (\<lambda>b. Inr (cells cache ! b))) (pt ! u) = Inr ?blocks"
    by (rule rmap_all) (use ok in auto)
  then show "user_sequence cache (pt ! u) = Inr ?seq" by (simp add: user_sequence_def)
  show "length ?seq = d1 cache" by simp
  fix h assume h: "h < d1 cache"
  let ?rows = "map (\<lambda>b. b ! h) ?blocks"
  have rows: "\<forall>row \<in> set ?rows. length row = d2 cache"
    using ok L(3) h by (auto simp: nat_less_iff)
  have len: "length (concat ?rows) = length (pt ! u) * d2 cache"
    using rows by (induction "pt ! u") (auto simp: length_concat sum_list_triv cong: map_cong)
  have "concat ?rows ! p = read_cache cache pt u h p" if p: "p < length (pt ! u) * d2 cache" for p
  proof -
    have bs: "0 < d2 cache" using p by (cases "d2 cache") auto
    have j: "p div d2 cache < length ?rows" using p by (simp add: less_mult_imp_div_less)
    show ?thesis
      using concat_cell(2) [OF rows j, of "p mod d2 cache"] bs j by (simp add: read_cache_def user_block_def)
  qed
  then show "?seq ! h = map (read_cache cache pt u h) [0..<length (pt ! u) * d2 cache]"
    using h len by (intro nth_equalityI) auto
qed

section \<open>Attention over a paged cache\<close>

text \<open>The sequence a user's pages hold for a head.\<close>

definition user_tokens :: "'v tensor4 \<Rightarrow> int list list \<Rightarrow> nat \<Rightarrow> nat \<Rightarrow> nat \<Rightarrow> 'v list" where
  "user_tokens cache pt u h n = map (read_cache cache pt u h) [0..<n]"

definition page_table_ok :: "int list list \<Rightarrow> nat \<Rightarrow> nat \<Rightarrow> bool" where
  "page_table_ok pt width blocks \<longleftrightarrow>
     (\<forall>row \<in> set pt. length row = width \<and> (\<forall>i \<in> set row. 0 \<le> i \<and> i < int blocks))"

lemma gather_caches_ok:
  assumes wf: "wf4 key" "wf4 value" "shape4 value = shape4 key" and pt: "page_table_ok pt w (d0 key)" "length pos \<le> length pt"
  obtains users where "gather_caches key value pt pos = Inr users" "length users = length pos"
    "\<And>u. u < length pos \<Longrightarrow> \<exists>ks vs. users ! u = (ks, vs, causal_row (w * d2 key) (pos ! u))
      \<and> (\<forall>h < d1 key. ks ! h = user_tokens key pt u h (w * d2 key) \<and> vs ! h = user_tokens value pt u h (w * d2 key))"
proof -
  have dims: "d0 value = d0 key" "d1 value = d1 key" "d2 value = d2 key" using wf(3) by (simp_all add: shape4_def)
  have row: "pt ! u \<in> set pt" if "u < length pos" for u using that pt(2) by simp
  define f where "f = (\<lambda>(u, p). rbind (lget pt u) (\<lambda>block_indices.
       rbind (user_sequence key block_indices) (\<lambda>user_key.
       rbind (user_sequence value block_indices) (\<lambda>user_value.
       Inr (user_key, user_value, causal_row (length block_indices * d2 key) p)))))"
  define good where "good u x \<longleftrightarrow> (\<exists>ks vs. x = (ks, vs, causal_row (w * d2 key) (pos ! u))
      \<and> (\<forall>h < d1 key. ks ! h = user_tokens key pt u h (w * d2 key) \<and> vs ! h = user_tokens value pt u h (w * d2 key)))" for u x
  have "\<exists>x. f (u, pos ! u) = Inr x \<and> good u x" if u: "u < length pos" for u
  proof -
    have l: "length (pt ! u) = w" "\<forall>i \<in> set (pt ! u). 0 \<le> i \<and> i < int (d0 key)" "u < length pt"
      using row [OF u] pt u by (auto simp: page_table_ok_def)
    obtain ks where ks: "user_sequence key (pt ! u) = Inr ks" "length ks = d1 key"
      "\<And>h. h < d1 key \<Longrightarrow> ks ! h = map (read_cache key pt u h) [0..<length (pt ! u) * d2 key]"
      by (rule user_sequence_ok [OF wf(1) l(3,2)]) blast
    obtain vs where vs: "user_sequence value (pt ! u) = Inr vs" "length vs = d1 value"
      "\<And>h. h < d1 value \<Longrightarrow> vs ! h = map (read_cache value pt u h) [0..<length (pt ! u) * d2 value]"
      by (rule user_sequence_ok [OF wf(2) l(3) l(2) [folded dims(1)]]) blast
    show ?thesis using ks vs l dims by (simp add: user_tokens_def f_def good_def)
  qed
  then obtain g where g: "\<And>u. u < length pos \<Longrightarrow> f (u, pos ! u) = Inr (g u) \<and> good u (g u)"
    by metis
  let ?users = "map g [0..<length pos]"
  have "gather_caches key value pt pos = Inr ?users"
    unfolding gather_caches_def f_def [symmetric] rmap_Inr_conv using g by (simp add: nth_enumerate_eq)
  then show thesis using that [of ?users] g by (simp add: good_def)
qed

text \<open>Both decode operators reshape the query, attend user by user and head by head, and reshape the result.\<close>

definition decode_form ::
  "(fl list \<Rightarrow> fl list) \<Rightarrow> rat \<Rightarrow> rat list tensor4 \<Rightarrow> rat list tensor4 \<Rightarrow> rat list tensor4 \<Rightarrow> int list list \<Rightarrow> nat \<Rightarrow> int list \<Rightarrow> fl list tensor4 res" where
  "decode_form softmax scale query key value pt n pos =
     rbind (reshape4 query (length pos) (d1 key) 1) (\<lambda>q.
     reshape4 \<lparr> d0 = length pos, d1 = d1 key, d2 = 1, cells = map (\<lambda>u. map (\<lambda>h.
         [attend softmax scale (cells q ! u ! h ! 0) (user_tokens key pt u h n) (user_tokens value pt u h n) (causal_row n (pos ! u))])
       [0..<d1 key]) [0..<length pos] \<rparr> 1 (length pos) (d1 key))"

lemma mask_row_one: "length row = n \<Longrightarrow> (if length row = 1 then replicate n (hd row) else row) = row"
  by (cases row) (auto simp: length_Suc_conv)

lemma paged_sdpa_cpu_form:
  assumes wf: "wf4 key" "wf4 value" "shape4 value = shape4 key"
    and pt: "page_table_ok pt w (d0 key)" "length pos \<le> length pt" and heads: "d1 key \<noteq> 0"
  shows "paged_sdpa_cpu softmax scale query key value pt True None pos = decode_form softmax scale query key value pt (w * d2 key) pos"
proof -
  let ?U = "length pos" and ?H = "d1 key" and ?n = "w * d2 key"
  obtain users where users: "gather_caches key value pt pos = Inr users" "length users = ?U"
    "\<And>u. u < ?U \<Longrightarrow> \<exists>ks vs. users ! u = (ks, vs, causal_row ?n (pos ! u))
      \<and> (\<forall>h < ?H. ks ! h = user_tokens key pt u h ?n \<and> vs ! h = user_tokens value pt u h ?n)"
    by (rule gather_caches_ok [OF wf pt]) blast
  define m where "m = \<lparr> d0 = ?U, d1 = 1, d2 = 1, cells = map (\<lambda>(_, _, row). [[row]]) users \<rparr>"
  define one :: "rat list tensor4 \<Rightarrow> nat \<times> rat list list list \<times> rat list list list \<times> fl list \<Rightarrow> fl list list list"
    where "one q' = (\<lambda>(u, ks, vs, row). map (\<lambda>h. [attend softmax scale (cells q' ! u ! h ! 0) (ks ! h) (vs ! h)
        (mask_row (length row) m u h 0)]) [0..<?H])" for q'
  have un: "\<forall>x \<in> set users. length (snd (snd x)) = ?n"
    using users(2,3) by (fastforce simp: in_set_conv_nth)
  then have fits: "\<forall>x \<in> set users. mask_fits (?U, ?H, 1) (length (snd (snd x))) m"
    by (auto simp: mask_fits_def m_def)
  have row: "mask_row ?n m u h 0 = causal_row ?n (pos ! u)" if u: "u < ?U" for u h
  proof -
    have "cells m ! (if d0 m = 1 then 0 else u) = [[causal_row ?n (pos ! u)]]"
      using users(2) users(3) [OF u] u by (cases "users ! u") (auto simp: m_def)
    then show ?thesis using mask_row_one [of "causal_row ?n (pos ! u)" ?n] by (simp add: mask_row_def m_def)
  qed
  have "map (one q') (List.enumerate 0 users) = map (\<lambda>u. map (\<lambda>h.
         [attend softmax scale (cells q' ! u ! h ! 0) (user_tokens key pt u h ?n) (user_tokens value pt u h ?n) (causal_row ?n (pos ! u))])
       [0..<?H]) [0..<?U]" for q'
  proof (rule nth_equalityI)
    fix u assume "u < length (map (one q') (List.enumerate 0 users))"
    then have u: "u < ?U" using users(2) by simp
    obtain ks vs where x: "users ! u = (ks, vs, causal_row ?n (pos ! u))"
      "\<forall>h < ?H. ks ! h = user_tokens key pt u h ?n \<and> vs ! h = user_tokens value pt u h ?n"
      using users(3) [OF u] by blast
    show "map (one q') (List.enumerate 0 users) ! u = map (\<lambda>u. map (\<lambda>h.
         [attend softmax scale (cells q' ! u ! h ! 0) (user_tokens key pt u h ?n) (user_tokens value pt u h ?n) (causal_row ?n (pos ! u))])
       [0..<?H]) [0..<?U] ! u"
      using u users(2) x row [OF u] by (simp add: nth_enumerate_eq one_def)
  qed (simp add: users(2))
  then show ?thesis
    using heads fits
    by (simp only: paged_sdpa_cpu_def Let_def users(1) rbind.simps if_True option.case m_def [symmetric])
      (simp add: decode_form_def one_def)
qed

text \<open>What the operators compute, user by user and head by head: attention over the tokens up to the position.\<close>

definition decode_result ::
  "(fl list \<Rightarrow> fl list) \<Rightarrow> rat \<Rightarrow> rat list tensor4 \<Rightarrow> rat list tensor4 \<Rightarrow> rat list tensor4 \<Rightarrow> int list list \<Rightarrow> nat \<Rightarrow> int list \<Rightarrow> fl list tensor4 \<Rightarrow> bool" where
  "decode_result softmax scale query key value pt n pos out \<longleftrightarrow>
     wf4 out \<and> shape4 out = (1, length pos, d1 key)
     \<and> (\<forall>u < length pos. \<forall>h < d1 key. length (cells out ! 0 ! u ! h) = length (cells query ! 0 ! u ! h)
         \<and> (0 \<le> pos ! u \<and> pos ! u < int n \<longrightarrow>
             cells out ! 0 ! u ! h = attention softmax scale (cells query ! 0 ! u ! h)
               (user_tokens key pt u h (nat (pos ! u) + 1)) (user_tokens value pt u h (nat (pos ! u) + 1))))"

lemma decode_form_ok:
  assumes laws: "masking_laws softmax" and q: "wf4 query" "shape4 query = (1, length pos, d1 key)"
  obtains out where "decode_form softmax scale query key value pt n pos = Inr out"
    "decode_result softmax scale query key value pt n pos out"
proof -
  let ?U = "length pos" and ?H = "d1 key"
  have qd: "d0 query = 1" "d1 query = ?U" "d2 query = ?H" using q(2) by (simp_all add: shape4_def)
  obtain q' where q': "reshape4 query ?U ?H 1 = Inr q'" "wf4 q'" "shape4 q' = (?U, ?H, 1)"
    "\<And>i j k. i < ?U \<Longrightarrow> j < ?H \<Longrightarrow> k < 1 \<Longrightarrow> cells q' ! i ! j ! k = vectors query ! ((i * ?H + j) * 1 + k)"
    by (rule reshape4_ok [OF q(1), of ?U ?H 1]) (simp_all add: qd)
  have qv: "cells q' ! u ! h ! 0 = cells query ! 0 ! u ! h" if "u < ?U" "h < ?H" for u h
    using q'(4) [OF that, of 0] vectors_nth(2) [OF q(1), of 0 u h] that qd by simp
  define t where "t = \<lparr> d0 = ?U, d1 = ?H, d2 = 1, cells = map (\<lambda>u. map (\<lambda>h.
         [attend softmax scale (cells q' ! u ! h ! 0) (user_tokens key pt u h n) (user_tokens value pt u h n) (causal_row n (pos ! u))])
       [0..<?H]) [0..<?U] \<rparr>"
  have wt: "wf4 t" by (auto simp: wf4_def t_def)
  obtain out where out: "reshape4 t 1 ?U ?H = Inr out" "wf4 out" "shape4 out = (1, ?U, ?H)"
    "\<And>i j k. i < 1 \<Longrightarrow> j < ?U \<Longrightarrow> k < ?H \<Longrightarrow> cells out ! i ! j ! k = vectors t ! ((i * ?U + j) * ?H + k)"
    by (rule reshape4_ok [OF wt, of 1 ?U ?H]) (simp_all add: t_def)
  have oc: "cells out ! 0 ! u ! h = attend softmax scale (cells query ! 0 ! u ! h) (user_tokens key pt u h n) (user_tokens value pt u h n)
      (causal_row n (pos ! u))" if "u < ?U" "h < ?H" for u h
    using out(4) [of 0 u h] vectors_nth(2) [OF wt, of u h 0] qv [OF that] that by (simp add: t_def)
  have "cells out ! 0 ! u ! h = attention softmax scale (cells query ! 0 ! u ! h)
        (user_tokens key pt u h (nat (pos ! u) + 1)) (user_tokens value pt u h (nat (pos ! u) + 1))"
    if "u < ?U" "h < ?H" "0 \<le> pos ! u" "pos ! u < int n" for u h
  proof -
    have p: "nat (pos ! u) < n" using that(3,4) by auto
    have tk: "take (nat (pos ! u) + 1) (user_tokens c pt u h n) = user_tokens c pt u h (nat (pos ! u) + 1)" for c :: "rat list tensor4"
      using p by (simp add: user_tokens_def take_map)
    show ?thesis
      using oc [OF that(1,2)] attend_prefix [OF laws, of "user_tokens key pt u h n" n "user_tokens value pt u h n" "nat (pos ! u)"] p
        causal_row_split [OF that(3,4)] tk by (simp add: user_tokens_def)
  qed
  then show thesis
    using that [of out] out(1,2,3) oc q'(1) by (simp add: decode_result_def decode_form_def t_def)
qed

text \<open>Attention over a paged cache gives every user, in every head, the attention of its query to its own tokens up to
  its position, whatever the rest of the blocks and the other users' blocks hold.\<close>

lemma paged_attention_sees_tokens:
  assumes "masking_laws softmax" "wf4 key" "wf4 value" "shape4 value = shape4 key"
    and "page_table_ok pt w (d0 key)" "length pos \<le> length pt" "d1 key \<noteq> 0"
    and "wf4 query" "shape4 query = (1, length pos, d1 key)"
  shows "\<exists>out. paged_scaled_dot_product_attention_decode softmax default_scale xla CPU query key value pt True None (Some pos) sink scale = Inr out
    \<and> decode_result softmax (case scale of None \<Rightarrow> default_scale | Some s \<Rightarrow> s) query key value pt (w * d2 key) pos out"
proof -
  let ?s = "case scale of None \<Rightarrow> default_scale | Some s \<Rightarrow> s"
  obtain out where "decode_form softmax ?s query key value pt (w * d2 key) pos = Inr out"
    "decode_result softmax ?s query key value pt (w * d2 key) pos out"
    by (rule decode_form_ok [OF assms(1,8,9)])
  then show ?thesis
    using paged_sdpa_cpu_form [OF assms(2-7)] by (simp add: paged_scaled_dot_product_attention_decode_def)
qed

text \<open>Full, causal attention: every token attends to the tokens up to itself, in the head its group shares.\<close>

lemma sdpa_causal_ok:
  assumes laws: "masking_laws softmax" and wf: "wf4 query" "wf4 key" "wf4 value"
    and sh: "shape4 query = (b0, heads, n)" "shape4 key = (b0, kv_heads, n)" "shape4 value = (b0, kv_heads, n)"
    and n: "kv_heads \<noteq> 0" "heads mod kv_heads = 0" "n mod 32 = 0"
  obtains out where "scaled_dot_product_attention softmax default_scale xla CPU query key value None True scale = Inr out"
    "wf4 out" "shape4 out = (b0, heads, n)"
    "\<And>b h i. b < b0 \<Longrightarrow> h < heads \<Longrightarrow> i < n \<Longrightarrow> cells out ! b ! h ! i
       = attention softmax (case scale of None \<Rightarrow> default_scale | Some s \<Rightarrow> s) (cells query ! b ! h ! i)
         (take (i + 1) (cells key ! b ! (h div (heads div kv_heads)))) (take (i + 1) (cells value ! b ! (h div (heads div kv_heads))))"
proof -
  let ?s = "case scale of None \<Rightarrow> default_scale | Some s \<Rightarrow> s" and ?g = "heads div kv_heads"
  have d: "d0 query = b0" "d1 query = heads" "d2 query = n" "d0 key = b0" "d1 key = kv_heads" "d2 key = n"
    "d0 value = b0" "d1 value = kv_heads" "d2 value = n" using sh by (simp_all add: shape4_def)
  have sub: "h div ?g < kv_heads" if "h < heads" for h
    using that n(2) by (metis div_mult_mod_eq add.right_neutral less_mult_imp_div_less mult.commute)
  let ?out = "\<lparr> d0 = b0, d1 = heads, d2 = n, cells = map (\<lambda>b. map (\<lambda>h. map (\<lambda>i.
             attend softmax ?s (cells query ! b ! h ! i) (cells key ! b ! (h div ?g)) (cells value ! b ! (h div ?g))
               (replicate (min n (i + 1)) (Fin 0) @ replicate (n - (i + 1)) NegInf))
             [0..<n]) [0..<heads]) [0..<b0] \<rparr>"
  have run: "scaled_dot_product_attention softmax default_scale xla CPU query key value None True scale = Inr ?out"
    using n sh by (simp add: scaled_dot_product_attention_def torch_sdpa_def Let_def d)
  show thesis
  proof (rule that [OF run])
    fix b h i assume i: "b < b0" "h < heads" "i < n"
    have l: "length (cells key ! b ! (h div ?g)) = n" "length (cells value ! b ! (h div ?g)) = n"
      using wf4D(3) [OF wf(2)] wf4D(3) [OF wf(3)] i(1) sub [OF i(2)] d by auto
    have "min n (i + 1) = i + 1" using i(3) by simp
    then show "cells ?out ! b ! h ! i = attention softmax ?s (cells query ! b ! h ! i)
         (take (i + 1) (cells key ! b ! (h div ?g))) (take (i + 1) (cells value ! b ! (h div ?g)))"
      using attend_prefix [OF laws l i(3)] i by simp
  qed (auto simp: wf4_def shape4_def)
qed

section \<open>Properties of the operators\<close>

text \<open>The contiguous cache with the users' sequences.\<close>

definition contiguous :: "'v tensor4 \<Rightarrow> int list list \<Rightarrow> nat \<Rightarrow> nat \<Rightarrow> 'v tensor4" where
  "contiguous cache pt users n = \<lparr> d0 = users, d1 = d1 cache, d2 = n,
     cells = map (\<lambda>u. map (\<lambda>h. user_tokens cache pt u h n) [0..<d1 cache]) [0..<users] \<rparr>"

text \<open>C22. The paged operator agrees with the operator on a contiguous cache that holds the users' sequences.\<close>

theorem paged_attention_is_contiguous_attention:
  assumes "wf4 key" "wf4 value" "shape4 value = shape4 key"
    and "page_table_ok pt w (d0 key)" "length pos \<le> length pt" "d1 key \<noteq> 0"
    and "wf4 query" "shape4 query = (1, length pos, d1 key)" "n = w * d2 key"
  shows "paged_scaled_dot_product_attention_decode softmax default_scale xla CPU query key value pt True None (Some pos) sink scale
    = scaled_dot_product_attention_decode softmax default_scale xla' CPU query (contiguous key pt (length pos) n)
        (contiguous value pt (length pos) n) pos None sink' True scale"
proof -
  let ?s = "case scale of None \<Rightarrow> default_scale | Some s \<Rightarrow> s" and ?U = "length pos" and ?H = "d1 key"
  have qd: "d0 query = 1" "d1 query = ?U" "d2 query = ?H" and vd: "d1 value = ?H"
    using assms(3,8) by (simp_all add: shape4_def)
  obtain q' where q': "reshape4 query ?U ?H 1 = Inr q'" "shape4 q' = (?U, ?H, 1)"
    by (rule reshape4_ok [OF assms(7), of ?U ?H 1]) (simp_all add: qd)
  have q'd: "d0 q' = ?U" "d1 q' = ?H" "d2 q' = 1" using q'(2) by (simp_all add: shape4_def)
  define m where "m = \<lparr> d0 = ?U, d1 = ?H, d2 = 1, cells = map (\<lambda>b. replicate ?H [causal_row n (pos ! b)]) [0..<?U] \<rparr>"
  have rows: "rmap (\<lambda>b. rbind (lget pos b) (\<lambda>p. Inr (replicate ?H [causal_row n p]))) [0..<?U]
      = Inr (map (\<lambda>b. replicate ?H [causal_row n (pos ! b)]) [0..<?U])"
    by (rule rmap_all) simp
  have fits: "mask_fits (?U, ?H, 1) n m" by (auto simp: mask_fits_def m_def)
  have row: "mask_row n m u h 0 = causal_row n (pos ! u)" if "u < ?U" "h < ?H" for u h
    using that mask_row_one [of "causal_row n (pos ! u)" n] by (cases "?U = 1") (auto simp: mask_row_def m_def Let_def)
  have sd: "torch_sdpa softmax ?s q' (contiguous key pt ?U n) (contiguous value pt ?U n) (Some m) False
     = Inr \<lparr> d0 = ?U, d1 = ?H, d2 = 1, cells = map (\<lambda>u. map (\<lambda>h.
         [attend softmax ?s (cells q' ! u ! h ! 0) (user_tokens key pt u h n) (user_tokens value pt u h n) (causal_row n (pos ! u))])
       [0..<?H]) [0..<?U] \<rparr>"
    using fits row assms(6) vd q'd by (simp add: torch_sdpa_def contiguous_def shape4_def Let_def cong: map_cong)
  have "scaled_dot_product_attention_decode softmax default_scale xla' CPU query (contiguous key pt ?U n)
        (contiguous value pt ?U n) pos None sink' True scale = decode_form softmax ?s query key value pt n pos"
    using assms(6) vd qd q'(1) rows sd
    by (simp add: scaled_dot_product_attention_decode_def decode_form_def contiguous_def shape4_def Let_def m_def)
  then show ?thesis
    using paged_sdpa_cpu_form [OF assms(1-6)] assms(9) by (simp add: paged_scaled_dot_product_attention_decode_def)
qed

text \<open>The CPU operator takes the number of heads from the cache: grouped query heads, which the operator on the device and
  the prefill accept, raise.\<close>

theorem grouped_heads_raise_when_decoding:
  assumes "wf4 key" "wf4 value" "shape4 value = shape4 key"
    and "page_table_ok pt w (d0 key)" "length pos \<le> length pt" "pos \<noteq> []"
    and "wf4 query" "shape4 query = (1, length pos, n * d1 key)" "n > 1" "d1 key \<noteq> 0"
  shows "paged_scaled_dot_product_attention_decode softmax default_scale xla CPU query key value pt True None (Some pos) sink scale
    = Inl RuntimeError"
proof -
  have "length (vectors query) = length pos * (n * d1 key)"
    using length_vectors [OF assms(7)] assms(8) by (simp add: shape4_def)
  moreover have "length pos * (n * d1 key) \<noteq> length pos * d1 key" using assms(6,9,10) by simp
  ultimately have "reshape4 query (length pos) (d1 key) 1 = Inl RuntimeError"
    by (simp add: reshape4_def rguard_def)
  then show ?thesis
    using paged_sdpa_cpu_form [OF assms(1-5,10)]
    by (simp add: paged_scaled_dot_product_attention_decode_def decode_form_def)
qed

definition announces :: "'v tensor4 res \<Rightarrow> nat \<times> nat \<times> nat \<Rightarrow> bool" where
  "announces r sh \<longleftrightarrow> (\<forall>t. r = Inr t \<longrightarrow> shape4 t = sh)"

lemma announces_rfold:
  assumes "\<And>c x c'. f c x = Inr c' \<Longrightarrow> shape4 c' = shape4 c" "rfold f c xs = Inr c'"
  shows "shape4 c' = shape4 c"
  using assms(2)
proof (induction xs arbitrary: c)
  case (Cons x xs)
  then obtain d where "f c x = Inr d" "rfold f d xs = Inr c'" by (auto simp: res_simps)
  then show ?case using Cons.IH assms(1) by metis
qed simp

lemma put_block_shape [simp]: "shape4 (put_block c b f) = shape4 c"
  by (simp add: put_block_def shape4_def)

lemma paged_writes_keep_shape:
  "paged_update_user pt c x = Inr c' \<Longrightarrow> shape4 c' = shape4 c"
  "fill_full_blocks heads n bs c = Inr c' \<Longrightarrow> shape4 c' = shape4 c"
  "fill_partial_block heads n p bs c = Inr c' \<Longrightarrow> shape4 c' = shape4 c"
proof -
  show "paged_update_user pt c x = Inr c' \<Longrightarrow> shape4 c' = shape4 c"
    by (cases x) (auto simp: paged_update_user_def Let_def res_simps)
  assume "fill_full_blocks heads n bs c = Inr c'"
  then show "shape4 c' = shape4 c"
    by (auto simp: fill_full_blocks_def res_simps elim!: announces_rfold [rotated])
next
  assume "fill_partial_block heads n p bs c = Inr c'"
  then show "shape4 c' = shape4 c"
    by (auto simp: fill_partial_block_def res_simps elim!: announces_rfold [rotated])
qed


section \<open>Witnesses\<close>

text \<open>A softmax with rational weights that grow with the score.\<close>

fun ramp :: "fl \<Rightarrow> rat" where
  "ramp (Fin x) = (if 0 \<le> x then 1 + x else 1 / (1 - x))"
| "ramp _ = 0"

definition ramp_softmax :: "fl list \<Rightarrow> fl list" where
  "ramp_softmax xs = map (\<lambda>x. Fin (ramp x / sum_list (map ramp xs))) xs"

lemma ramp_softmax_laws: "masking_laws ramp_softmax"
proof -
  have "map ramp (replicate n NegInf) = replicate n 0" for n by simp
  then show ?thesis by (simp add: masking_laws_def ramp_softmax_def sum_list_replicate)
qed

text \<open>Two blocks of two tokens, of one user, who reads them in reverse; its third token is the current one.\<close>

definition ex_blocks :: "rat list tensor4" where
  "ex_blocks = \<lparr> d0 = 2, d1 = 1, d2 = 2, cells = [[[[1], [2]]], [[[3], [4]]]] \<rparr>"

definition ex_query :: "rat list tensor4" where
  "ex_query = \<lparr> d0 = 1, d1 = 1, d2 = 1, cells = [[[[1]]]] \<rparr>"

definition ex_grouped :: "rat list tensor4" where
  "ex_grouped = \<lparr> d0 = 1, d1 = 1, d2 = 2, cells = [[[[1], [2]]]] \<rparr>"

lemmas ex_attention_defs = ex_blocks_def ex_query_def ex_grouped_def wf4_def shape4_def page_table_ok_def

theorem paged_attention_is_contiguous_attention_witness:
  "paged_scaled_dot_product_attention_decode ramp_softmax 1 (\<lambda>_. undefined) CPU ex_query ex_blocks ex_blocks [[1, 0]] True None (Some [2]) None None
    = scaled_dot_product_attention_decode ramp_softmax 1 (\<lambda>_. undefined) CPU ex_query (contiguous ex_blocks [[1, 0]] 1 4)
        (contiguous ex_blocks [[1, 0]] 1 4) [2] None None True None
   \<and> contiguous ex_blocks [[1, 0]] 1 4 = \<lparr> d0 = 1, d1 = 1, d2 = 4, cells = [[[[3], [4], [1], [2]]]] \<rparr>"
proof
  show "paged_scaled_dot_product_attention_decode ramp_softmax 1 (\<lambda>_. undefined) CPU ex_query ex_blocks ex_blocks [[1, 0]] True None (Some [2]) None None
    = scaled_dot_product_attention_decode ramp_softmax 1 (\<lambda>_. undefined) CPU ex_query (contiguous ex_blocks [[1, 0]] 1 4)
        (contiguous ex_blocks [[1, 0]] 1 4) [2] None None True None"
    using paged_attention_is_contiguous_attention [of ex_blocks ex_blocks "[[1, 0]]" 2 "[2]" ex_query 4] by (simp add: ex_attention_defs)
  show "contiguous ex_blocks [[1, 0]] 1 4 = \<lparr> d0 = 1, d1 = 1, d2 = 4, cells = [[[[3], [4], [1], [2]]]] \<rparr>"
    by (simp add: contiguous_def user_tokens_def read_cache_def user_block_def ex_blocks_def upt_rec)
qed

theorem grouped_heads_raise_when_decoding_witness:
  "paged_scaled_dot_product_attention_decode ramp_softmax 1 (\<lambda>_. undefined) CPU ex_grouped ex_blocks ex_blocks [[1, 0]] True None (Some [2]) None None
    = Inl RuntimeError"
  by (rule grouped_heads_raise_when_decoding [where w = 2 and n = 2]) (simp_all add: ex_attention_defs)


end
