(* ===== verification/AttnLayerProps.thy ===== *)
theory AttnLayerProps
  imports AttnLayer AttentionProps
begin

text \<open>
  The attention layer with its cache: a prefill stores the prompts and attends causally, a decode step stores one
  token per user and attends to everything the user's cache holds, so that generating token by token gives what
  attention over the whole sequence gives.
\<close>

section \<open>Heads\<close>

definition rows3_ok :: "rows3 \<Rightarrow> bool" where
  "rows3_ok t \<longleftrightarrow> length (rows t) = r0 t \<and> (\<forall>x \<in> set (rows t). length x = r1 t \<and> (\<forall>y \<in> set x. length y = r2 t))"

lemma chunks_ok:
  assumes "length xs = n * k" "k \<noteq> 0"
  shows "length (chunks k xs) = n" "\<forall>c \<in> set (chunks k xs). length c = k" "concat (chunks k xs) = xs"
proof -
  have d: "length xs div k = n" using assms by simp
  then show "length (chunks k xs) = n" by (simp add: chunks_def)
  have fits: "(i + 1) * k \<le> n * k" if "i < n" for i using that by (intro mult_le_mono1) simp
  then have fits': "k \<le> n * k - i * k" if "i < n" for i using that by (simp add: le_diff_conv2)
  show l: "\<forall>c \<in> set (chunks k xs). length c = k" using assms d fits' by (auto simp: chunks_def min_def)
  have "concat (map (\<lambda>i. slice xs (i * k) ((i + 1) * k)) [0..<m]) = take (m * k) xs" if "m \<le> n" for m
    using that
  proof (induction m)
    case (Suc m)
    then have "(m + 1) * k \<le> length xs" using fits [of m] assms(1) by simp
    then show ?case using Suc take_add [of "m * k" k xs] by (simp add: slice_def add.commute)
  qed simp
  then show "concat (chunks k xs) = xs" using assms(1) d by (simp add: chunks_def)
qed

lemma rows3_nth:
  assumes "rows3_ok t" "u < r0 t"
  shows "length (rows t ! u) = r1 t" "i < r1 t \<Longrightarrow> length (rows t ! u ! i) = r2 t"
  using assms unfolding rows3_ok_def by (metis nth_mem)+

lemma to_heads_ok:
  assumes t: "rows3_ok t" "r2 t = heads * k" "k \<noteq> 0"
  obtains x where "to_heads k t = Inr x" "wf4 x" "shape4 x = (r0 t, r1 t, heads)"
    "\<And>u i. u < r0 t \<Longrightarrow> i < r1 t \<Longrightarrow> cells x ! u ! i = chunks k (rows t ! u ! i)"
    "\<And>u i c. u < r0 t \<Longrightarrow> i < r1 t \<Longrightarrow> c \<in> set (cells x ! u ! i) \<Longrightarrow> length c = k"
proof
  let ?x = "\<lparr> d0 = r0 t, d1 = r1 t, d2 = r2 t div k, cells = map (map (chunks k)) (rows t) \<rparr>"
  show "to_heads k t = Inr ?x" using t by (simp add: to_heads_def)
  show "wf4 ?x" using t chunks_ok(1) [of _ heads k] by (auto simp: wf4_def rows3_ok_def)
  show "shape4 ?x = (r0 t, r1 t, heads)" using t by (simp add: shape4_def)
  show c: "cells ?x ! u ! i = chunks k (rows t ! u ! i)" if "u < r0 t" "i < r1 t" for u i
    using that t(1) rows3_nth(1) [OF t(1) that(1)] by (simp add: rows3_ok_def)
  show "length c = k" if "u < r0 t" "i < r1 t" "c \<in> set (cells ?x ! u ! i)" for u i c
    using that chunks_ok(2) [of "rows t ! u ! i" heads k] rows3_nth(2) [OF t(1) that(1,2)] t c [OF that(1,2)] by auto
qed

text \<open>The result of a token: the heads one after the other; \<open>share\<close> heads of the query share a head of the keys.\<close>

definition attend_heads ::
  "(fl list \<Rightarrow> fl list) \<Rightarrow> rat \<Rightarrow> nat \<Rightarrow> head_vector list \<Rightarrow> head_vector list list \<Rightarrow> head_vector list list \<Rightarrow> fl list" where
  "attend_heads softmax scale share q ks vs =
     concat (map (\<lambda>h. attention softmax scale (q ! h) (map (\<lambda>t. t ! (h div share)) ks) (map (\<lambda>t. t ! (h div share)) vs)) [0..<length q])"

lemma slice_concat:
  assumes "\<forall>b \<in> set bs. length b = n" "i < length bs"
  shows "slice (concat bs) (i * n) ((i + 1) * n) = bs ! i"
proof (rule nth_equalityI)
  have len: "length (bs ! i) = n" using assms by simp
  note all = length_concat_same
  have le: "(i + 1) * n \<le> length bs * n" using assms(2) by (intro mult_le_mono1) simp
  show "length (slice (concat bs) (i * n) ((i + 1) * n)) = length (bs ! i)"
    using all [OF assms(1)] le len by (simp add: algebra_simps)
  fix j assume "j < length (slice (concat bs) (i * n) ((i + 1) * n))"
  then have j: "j < n" using all [OF assms(1)] le by (simp add: algebra_simps)
  then show "slice (concat bs) (i * n) ((i + 1) * n) ! j = bs ! i ! j"
    using concat_cell [OF assms(1,2) j] by (simp add: algebra_simps)
qed

text \<open>Rows of heads become rows of hidden values.\<close>

lemma finalize_ok:
  assumes wf: "wf4 out" "shape4 out = (in_users inputs, in_query_num_tokens inputs, heads)"
    and k: "\<And>u i c. u < d0 out \<Longrightarrow> i < d1 out \<Longrightarrow> c \<in> set (cells out ! u ! i) \<Longrightarrow> length c = k"
    and b: "in_batched inputs" "in_hidden inputs = heads * k"
  shows "finalize_output out inputs = Inr (Out3 (map (\<lambda>u. map (\<lambda>i. concat (cells out ! u ! i)) [0..<d1 out]) [0..<d0 out]))"
proof -
  let ?bs = "map concat (concat (cells out))"
  have d: "d0 out = in_users inputs" "d1 out = in_query_num_tokens inputs" "d2 out = heads"
    using wf(2) by (simp_all add: shape4_def)
  note L = wf4D [OF wf(1)]
  have idx: "u * d1 out + i < length (concat (cells out))" "concat (cells out) ! (u * d1 out + i) = cells out ! u ! i"
    if "u < d0 out" "i < d1 out" for u i
  proof -
    have 1: "\<forall>x \<in> set (cells out). length x = d1 out" using wf(1) by (auto simp: wf4_def)
    show "u * d1 out + i < length (concat (cells out))" "concat (cells out) ! (u * d1 out + i) = cells out ! u ! i"
      using concat_cell [OF 1] that L(1) by auto
  qed
  have hk: "length (concat y) = heads * k" if "y \<in> set (concat (cells out))" for y
  proof -
    have "\<exists>x \<in> set (cells out). y \<in> set x" using that by auto
    then obtain x where x: "x \<in> set (cells out)" "y \<in> set x" by blast
    obtain u where u: "u < d0 out" "cells out ! u = x" using x(1) L(1) by (metis in_set_conv_nth)
    obtain i where i: "i < d1 out" "x ! i = y" using x(2) L(2) [OF u(1)] u(2) by (metis in_set_conv_nth)
    have "\<forall>c \<in> set y. length c = k" using k [OF u(1) i(1)] u(2) i(2) by simp
    moreover have "length y = heads" using L(3) [OF u(1) i(1)] u(2) i(2) d by simp
    ultimately show ?thesis using length_concat_same by blast
  qed
  then have bs: "\<forall>b \<in> set ?bs. length b = in_hidden inputs" using b(2) by auto
  have xs: "concat (vectors out) = concat ?bs" unfolding vectors_def by (rule concat_twice)
  have "length (concat (cells out)) = d0 out * d1 out"
    using L(1) wf(1) by (simp add: length_concat wf4_def sum_list_triv cong: map_cong)
  then have len: "length (concat (vectors out)) = in_users inputs * in_query_num_tokens inputs * in_hidden inputs"
    using length_concat_same [OF bs] d unfolding xs by simp
  have "slice (concat (vectors out)) ((u * d1 out + i) * in_hidden inputs) ((u * d1 out + i + 1) * in_hidden inputs) = concat (cells out ! u ! i)"
    if "u < d0 out" "i < d1 out" for u i
    using slice_concat [OF bs, of "u * d1 out + i"] idx [OF that] by (simp add: xs)
  then show ?thesis using len b(1) d by (simp add: finalize_output_def Let_def cong: map_cong)
qed

section \<open>What the caches hold\<close>

text \<open>The cache of a layer holds, for every user of the page table, the heads of its tokens in order.\<close>

definition holds :: "'v tensor4 \<Rightarrow> int list list \<Rightarrow> (nat \<Rightarrow> nat) \<Rightarrow> (nat \<Rightarrow> 'v list list) \<Rightarrow> bool" where
  "holds cache pt used toks \<longleftrightarrow>
     (\<forall>u < length pt. length (toks u) \<le> used u * d2 cache
        \<and> (\<forall>p < length (toks u). \<forall>h < d1 cache. read_cache cache pt u h p = toks u ! p ! h))"

definition cache_ok :: "'v tensor4 \<Rightarrow> int list list \<Rightarrow> (nat \<Rightarrow> nat) \<Rightarrow> nat \<Rightarrow> bool" where
  "cache_ok cache pt used w \<longleftrightarrow>
     wf4 cache \<and> page_layout pt used (d0 cache) \<and> 0 < d2 cache \<and> (\<forall>row \<in> set pt. length row = w)"

text \<open>A decoding user is at the position after its last token; an idle one is at \<open>-1\<close>.\<close>

definition positions_ok :: "int list list \<Rightarrow> (nat \<Rightarrow> nat) \<Rightarrow> nat \<Rightarrow> (nat \<Rightarrow> nat) \<Rightarrow> int list \<Rightarrow> bool" where
  "positions_ok pt used block_size len pos \<longleftrightarrow>
     length pos \<le> length pt
     \<and> (\<forall>u < length pos. pos ! u = int (len u) \<and> len u < used u * block_size \<or> idle pt used pos u)"

definition grow :: "int list \<Rightarrow> (nat \<Rightarrow> 'a list) \<Rightarrow> (nat \<Rightarrow> 'a) \<Rightarrow> nat \<Rightarrow> 'a list" where
  "grow pos toks new u = (if u < length pos \<and> 0 \<le> pos ! u then toks u @ [new u] else toks u)"

lemma cache_okD:
  assumes "cache_ok cache pt used w"
  shows "wf4 cache" "page_layout pt used (d0 cache)" "0 < d2 cache" "page_table_ok pt w (d0 cache)"
  using assms by (auto simp: cache_ok_def page_table_ok_def page_layout_def)

lemma cache_ok_shape: "cache_ok c pt used w \<Longrightarrow> wf4 c' \<Longrightarrow> shape4 c' = shape4 c \<Longrightarrow> cache_ok c' pt used w"
  by (simp add: cache_ok_def shape4_def)

lemma holds_user_tokens:
  assumes "holds cache pt used toks" "u < length pt" "h < d1 cache"
  shows "user_tokens cache pt u h (length (toks u)) = map (\<lambda>t. t ! h) (toks u)"
  using assms by (intro nth_equalityI) (auto simp: user_tokens_def holds_def)

lemma holds_decode:
  assumes ok: "cache_ok cache pt used w" and holds: "holds cache pt used toks"
    and pos: "positions_ok pt used (d2 cache) (\<lambda>u. length (toks u)) pos"
    and kv: "wf4 kv" "shape4 kv = (length pos, 1, d1 cache)"
  obtains c' where "handle_paged_attention xla CPU False users kv pos pt cache = Inr c'"
    "cache_ok c' pt used w" "shape4 c' = shape4 cache" "holds c' pt used (grow pos toks (\<lambda>u. cells kv ! u ! 0))"
proof -
  have kd: "d0 kv = length pos" "d1 kv = 1" "d2 kv = d1 cache" using kv(2) by (simp_all add: shape4_def)
  have act: "active (d2 cache) used pos u \<or> idle pt used pos u"
    "active (d2 cache) used pos u \<longleftrightarrow> 0 \<le> pos ! u" "active (d2 cache) used pos u \<Longrightarrow> pos ! u = int (length (toks u))"
    if "u < length pos" for u
    using pos that by (fastforce simp: positions_ok_def active_def idle_def simp flip: of_nat_mult)+
  have plen: "length pos \<le> length pt" using pos by (simp add: positions_ok_def)
  have acts: "\<forall>u < length pos. active (d2 cache) used pos u \<or> idle pt used pos u" using act(1) by blast
  obtain c' where c': "handle_paged_attention xla CPU False users kv pos pt cache = Inr c'" "wf4 c'" "shape4 c' = shape4 cache"
    "\<forall>w < length pt. \<forall>h < d1 cache. \<forall>p < used w * d2 cache. read_cache c' pt w h p =
         (if w < length pos \<and> active (d2 cache) used pos w \<and> int p = pos ! w
          then cells kv ! w ! 0 ! h else read_cache cache pt w h p)"
    using handle_decode [OF cache_okD(1-3) [OF ok] kv(1) kd plen acts] by blast
  have dims: "d1 c' = d1 cache" "d2 c' = d2 cache" using c'(3) by (simp_all add: shape4_def)
  have "holds c' pt used (grow pos toks (\<lambda>u. cells kv ! u ! 0))"
    unfolding holds_def dims
  proof (intro allI impI conjI)
    fix u assume u: "u < length pt"
    let ?new = "grow pos toks (\<lambda>u. cells kv ! u ! 0) u"
    have old: "length (toks u) \<le> used u * d2 cache"
      "\<And>p h. p < length (toks u) \<Longrightarrow> h < d1 cache \<Longrightarrow> read_cache cache pt u h p = toks u ! p ! h"
      using holds u by (auto simp: holds_def)
    have run: "length (toks u) < used u * d2 cache \<and> pos ! u = int (length (toks u))" if "u < length pos" "0 \<le> pos ! u"
      using pos that by (auto simp: positions_ok_def idle_def)
    show "length ?new \<le> used u * d2 cache" using old(1) run by (auto simp: grow_def)
    fix p h assume p: "p < length ?new" and h: "h < d1 cache"
    have "p < used u * d2 cache" using p old(1) run by (auto simp: grow_def split: if_splits)
    then have rd: "read_cache c' pt u h p = (if u < length pos \<and> active (d2 cache) used pos u \<and> int p = pos ! u
          then cells kv ! u ! 0 ! h else read_cache cache pt u h p)"
      using c'(4) u h by blast
    show "read_cache c' pt u h p = ?new ! p ! h"
    proof (cases "u < length pos \<and> 0 \<le> pos ! u")
      case True
      then show ?thesis using rd run act(2) [of u] p old(2) h by (auto simp: grow_def nth_append)
    next
      case False
      then show ?thesis using rd act(2) [of u] p old(2) h by (auto simp: grow_def)
    qed
  qed
  then show thesis using that c' cache_ok_shape [OF ok] by blast
qed

lemma holds_prefill:
  assumes ok: "cache_ok cache pt used w"
    and kv: "wf4 kv" "shape4 kv = (users, n, d1 cache)" "users \<le> length pt" "n div d2 cache \<le> w"
    and len: "\<forall>u < users. len u \<le> n \<and> len u \<le> used u * d2 cache"
  obtains c' where "handle_paged_attention xla CPU True users kv pos pt cache = Inr c'"
    "cache_ok c' pt used w" "shape4 c' = shape4 cache"
    "holds c' pt used (\<lambda>u. if u < users then map (\<lambda>i. cells kv ! u ! i) [0..<len u] else [])"
proof -
  have kd: "d0 kv = users" "d1 kv = n" "d2 kv = d1 cache" using kv(2) by (simp_all add: shape4_def)
  have fits: "\<forall>u < users. d1 kv div d2 cache \<le> length (pt ! u)"
    using ok kv(3,4) kd by (auto simp: cache_ok_def)
  obtain c' where c': "handle_paged_attention xla CPU True users kv pos pt cache = Inr c'" "wf4 c'" "shape4 c' = shape4 cache"
    "\<forall>w < length pt. \<forall>h < d1 cache. \<forall>p < used w * d2 cache. read_cache c' pt w h p =
         (if w < users \<and> p < d1 kv then cells kv ! w ! p ! h else read_cache cache pt w h p)"
    using handle_prefill [OF cache_okD(1-3) [OF ok] kv(1) kd(1,3) kv(3) fits] by blast
  have dims: "d1 c' = d1 cache" "d2 c' = d2 cache" using c'(3) by (simp_all add: shape4_def)
  have "holds c' pt used (\<lambda>u. if u < users then map (\<lambda>i. cells kv ! u ! i) [0..<len u] else [])"
    using c'(4) len kd by (auto simp: holds_def dims)
  then show thesis using that c' cache_ok_shape [OF ok] by blast
qed

section \<open>Steps of the layer\<close>

definition sized :: "attn_impl \<Rightarrow> nat \<Rightarrow> nat \<Rightarrow> nat \<Rightarrow> nat \<Rightarrow> rows3 \<Rightarrow> rows3 \<Rightarrow> rows3 \<Rightarrow> bool" where
  "sized impl heads kv_heads users n q k v \<longleftrightarrow>
     (\<forall>t \<in> {q, k, v}. rows3_ok t \<and> r0 t = users \<and> r1 t = n)
     \<and> r2 q = heads * im_head_size impl \<and> r2 k = kv_heads * im_head_size impl \<and> r2 v = kv_heads * im_head_size impl
     \<and> im_head_size impl \<noteq> 0 \<and> kv_heads \<noteq> 0"

definition token_heads :: "attn_impl \<Rightarrow> rows3 \<Rightarrow> nat \<Rightarrow> nat \<Rightarrow> head_vector list" where
  "token_heads impl t u i = chunks (im_head_size impl) (rows t ! u ! i)"

text \<open>What the inputs of the layer are after they are cut into heads.\<close>

definition prepared ::
  "attn_impl \<Rightarrow> nat \<Rightarrow> nat \<Rightarrow> nat \<Rightarrow> nat \<Rightarrow> rows3 \<Rightarrow> rows3 \<Rightarrow> rows3 \<Rightarrow> attention_inputs \<Rightarrow> bool" where
  "prepared impl heads kv_heads users n q k v x \<longleftrightarrow>
     (\<forall>(t, f, h) \<in> {(in_query x, q, heads), (in_key x, k, kv_heads), (in_value x, v, kv_heads)}.
        wf4 t \<and> shape4 t = (users, n, h) \<and> (\<forall>u < users. \<forall>i < n. cells t ! u ! i = token_heads impl f u i))
     \<and> (\<forall>u < users. \<forall>i < n. \<forall>c \<in> set (token_heads impl q u i). length c = im_head_size impl)
     \<and> in_batched x \<and> in_hidden x = heads * im_head_size impl \<and> in_users x = users
     \<and> in_query_num_tokens x = n \<and> (in_is_prefill x \<longleftrightarrow> n > 1)"

lemma preparedD:
  assumes "prepared impl heads kv_heads users n q k v x"
  shows "wf4 (in_query x)" "shape4 (in_query x) = (users, n, heads)"
    "\<And>u i. u < users \<Longrightarrow> i < n \<Longrightarrow> cells (in_query x) ! u ! i = token_heads impl q u i"
    "\<And>u i c. u < users \<Longrightarrow> i < n \<Longrightarrow> c \<in> set (token_heads impl q u i) \<Longrightarrow> length c = im_head_size impl"
    "wf4 (in_key x)" "shape4 (in_key x) = (users, n, kv_heads)"
    "\<And>u i. u < users \<Longrightarrow> i < n \<Longrightarrow> cells (in_key x) ! u ! i = token_heads impl k u i"
    "wf4 (in_value x)" "shape4 (in_value x) = (users, n, kv_heads)"
    "\<And>u i. u < users \<Longrightarrow> i < n \<Longrightarrow> cells (in_value x) ! u ! i = token_heads impl v u i"
    "in_batched x" "in_hidden x = heads * im_head_size impl" "in_users x = users"
    "in_query_num_tokens x = n" "in_is_prefill x \<longleftrightarrow> n > 1"
    "\<And>u i. u < users \<Longrightarrow> i < n \<Longrightarrow> length (token_heads impl q u i) = heads"
proof -
  note p = assms [unfolded prepared_def]
  show w: "wf4 (in_query x)" and sh: "shape4 (in_query x) = (users, n, heads)"
    and c: "\<And>u i. u < users \<Longrightarrow> i < n \<Longrightarrow> cells (in_query x) ! u ! i = token_heads impl q u i"
    using p by auto
  show "length (token_heads impl q u i) = heads" if "u < users" "i < n" for u i
    using wf4D(3) [OF w, of u i] c [OF that] that sh by (simp add: shape4_def)
qed (use assms [unfolded prepared_def] in auto)

lemma prepare_ok:
  assumes s: "sized impl heads kv_heads users n q k v" and u: "logical_batch (ThreeD q k v) meta = users"
  obtains x where "prepare_attention_inputs impl (ThreeD q k v) meta = Inr x" "prepared impl heads kv_heads users n q k v x"
proof -
  let ?k = "im_head_size impl"
  have o: "rows3_ok q" "rows3_ok k" "rows3_ok v" "r2 q = heads * ?k" "r2 k = kv_heads * ?k" "r2 v = kv_heads * ?k" "?k \<noteq> 0"
    "r0 q = users" "r0 k = users" "r0 v = users" "r1 q = n" "r1 k = n" "r1 v = n"
    using s by (auto simp: sized_def)
  obtain q' where q': "to_heads ?k q = Inr q'" "wf4 q'" "shape4 q' = (r0 q, r1 q, heads)"
    "\<And>u i. u < r0 q \<Longrightarrow> i < r1 q \<Longrightarrow> cells q' ! u ! i = chunks ?k (rows q ! u ! i)"
    "\<And>u i c. u < r0 q \<Longrightarrow> i < r1 q \<Longrightarrow> c \<in> set (cells q' ! u ! i) \<Longrightarrow> length c = ?k"
    by (rule to_heads_ok [OF o(1,4,7)]) blast
  obtain k' where k': "to_heads ?k k = Inr k'" "wf4 k'" "shape4 k' = (r0 k, r1 k, kv_heads)"
    "\<And>u i. u < r0 k \<Longrightarrow> i < r1 k \<Longrightarrow> cells k' ! u ! i = chunks ?k (rows k ! u ! i)"
    by (rule to_heads_ok [OF o(2,5,7)]) blast
  obtain v' where v': "to_heads ?k v = Inr v'" "wf4 v'" "shape4 v' = (r0 v, r1 v, kv_heads)"
    "\<And>u i. u < r0 v \<Longrightarrow> i < r1 v \<Longrightarrow> cells v' ! u ! i = chunks ?k (rows v ! u ! i)"
    by (rule to_heads_ok [OF o(3,6,7)]) blast
  have f: "reshape_to_attention_format ?k q k v = Inr (q', k', v')"
    using q'(1) k'(1) v'(1) o by (simp add: reshape_to_attention_format_def)
  have run: "prepare_attention_inputs impl (ThreeD q k v) meta = Inr \<lparr> in_query = q', in_key = k', in_value = v', in_batched = True,
      in_hidden = r2 q, in_users = users, in_query_num_tokens = r1 q, in_is_prefill = (r1 q > 1) \<rparr>"
    using f u o by (simp add: prepare_attention_inputs_def Let_def same_dims_def)
  show thesis
    by (rule that [OF run]) (use q' k' v' o in \<open>auto simp: prepared_def token_heads_def\<close>)
qed

lemma swap01_cells: "i < d0 t \<Longrightarrow> j < d1 t \<Longrightarrow> cells (swap01 t) ! j ! i = cells t ! i ! j"
  by (simp add: swap01_def)

lemma swap01_shape [simp]: "shape4 (swap01 t) = (d1 t, d0 t, d2 t)" "d0 (swap01 t) = d1 t" "d1 (swap01 t) = d0 t" "d2 (swap01 t) = d2 t"
  by (simp_all add: swap01_def shape4_def)

lemma wf4_swap01: "wf4 t \<Longrightarrow> wf4 (swap01 t)"
  using wf4D(3) [of t] unfolding wf4_def [of "swap01 t"] by (auto simp: swap01_def)

lemma swap12_cells: "wf4 t \<Longrightarrow> b < d0 t \<Longrightarrow> j < d1 t \<Longrightarrow> k < d2 t \<Longrightarrow> cells (swap12 t) ! b ! k ! j = cells t ! b ! j ! k"
  using wf4D(1) [of t] by (simp add: swap12_def)

lemma swap12_shape [simp]: "shape4 (swap12 t) = (d0 t, d2 t, d1 t)" "d0 (swap12 t) = d0 t" "d1 (swap12 t) = d2 t" "d2 (swap12 t) = d1 t"
  by (simp_all add: swap12_def shape4_def)

lemma wf4_swap12: "wf4 t \<Longrightarrow> wf4 (swap12 t)"
  by (auto simp: wf4_def swap12_def)

text \<open>The caches of keys and values of a layer, and the tokens they hold.\<close>

definition caches_hold ::
  "kv_halves \<Rightarrow> int list list \<Rightarrow> (nat \<Rightarrow> nat) \<Rightarrow> nat \<Rightarrow> nat \<Rightarrow> nat \<Rightarrow> (nat \<Rightarrow> head_vector list list) \<Rightarrow> (nat \<Rightarrow> head_vector list list) \<Rightarrow> bool" where
  "caches_hold caches pt used w block_size heads ks vs \<longleftrightarrow>
     (\<forall>(c, toks) \<in> {(fst caches, ks), (snd caches, vs)}.
        cache_ok c pt used w \<and> d1 c = heads \<and> d2 c = block_size \<and> holds c pt used toks)
     \<and> d0 (fst caches) = d0 (snd caches) \<and> (\<forall>u < length pt. length (ks u) = length (vs u))"

definition decode_metadata :: "int list \<Rightarrow> int list list \<Rightarrow> tt_metadata option" where
  "decode_metadata pos pt = Some \<lparr> tm_cache_position = Some pos, tm_attn_mask = None, tm_page_table = Some pt, tm_is_causal = True \<rparr>"

lemma logical_batch_positions [simp]: "logical_batch inputs (decode_metadata pos pt) = length pos"
  by (simp add: logical_batch_def decode_metadata_def)

lemma caches_holdD:
  assumes "caches_hold caches pt used w bs heads ks vs"
  shows "cache_ok (fst caches) pt used w" "d1 (fst caches) = heads" "d2 (fst caches) = bs" "holds (fst caches) pt used ks"
    "cache_ok (snd caches) pt used w" "d1 (snd caches) = heads" "d2 (snd caches) = bs" "holds (snd caches) pt used vs"
    "d0 (fst caches) = d0 (snd caches)" "\<And>u. u < length pt \<Longrightarrow> length (ks u) = length (vs u)"
  using assms by (auto simp: caches_hold_def)

text \<open>A decode step writes the new tokens of keys and values.\<close>

lemma decode_caches_ok:
  assumes env: "ae_device env = CPU" and x: "prepared impl heads heads (length pos) 1 q k v x"
    and hold: "caches_hold caches pt used w bs heads ks vs"
    and pos: "positions_ok pt used bs (\<lambda>u. length (ks u)) pos"
  obtains caches' where "update_caches env x (the (decode_metadata pos pt)) caches = Inr caches'"
    "caches_hold caches' pt used w bs heads (grow pos ks (\<lambda>u. token_heads impl k u 0)) (grow pos vs (\<lambda>u. token_heads impl v u 0))"
proof -
  let ?U = "length pos"
  obtain kc vc where caches: "caches = (kc, vc)" by (cases caches)
  note H = caches_holdD [OF hold, unfolded caches fst_conv snd_conv] and X = preparedD [OF x]
  have posv: "positions_ok pt used (d2 vc) (\<lambda>u. length (vs u)) pos"
    using pos H(7,10) by (auto simp: positions_ok_def)
  obtain kc' where kc': "handle_paged_attention (ae_cache env) CPU False ?U (in_key x) pos pt kc = Inr kc'"
    "cache_ok kc' pt used w" "shape4 kc' = shape4 kc" "holds kc' pt used (grow pos ks (\<lambda>u. cells (in_key x) ! u ! 0))"
    by (rule holds_decode [OF H(1,4) pos [folded H(3)] X(5) X(6) [folded H(2)]]) blast
  obtain vc' where vc': "handle_paged_attention (ae_cache env) CPU False ?U (in_value x) pos pt vc = Inr vc'"
    "cache_ok vc' pt used w" "shape4 vc' = shape4 vc" "holds vc' pt used (grow pos vs (\<lambda>u. cells (in_value x) ! u ! 0))"
    by (rule holds_decode [OF H(5,8) posv X(8) X(9) [folded H(6)]]) blast
  have "grow pos ks (\<lambda>u. cells (in_key x) ! u ! 0) = grow pos ks (\<lambda>u. token_heads impl k u 0)"
    "grow pos vs (\<lambda>u. cells (in_value x) ! u ! 0) = grow pos vs (\<lambda>u. token_heads impl v u 0)"
    using X(7,10) by (auto simp: grow_def fun_eq_iff)
  then have "caches_hold (kc', vc') pt used w bs heads (grow pos ks (\<lambda>u. token_heads impl k u 0)) (grow pos vs (\<lambda>u. token_heads impl v u 0))"
    using kc'(2,3,4) vc'(2,3,4) H by (auto simp: caches_hold_def grow_def shape4_def)
  moreover have "update_caches env x (the (decode_metadata pos pt)) caches = Inr (kc', vc')"
    using kc'(1) vc'(1) env X(13,15) by (simp add: update_caches_def decode_metadata_def required_def caches Let_def)
  ultimately show thesis using that by blast
qed

text \<open>Then it attends to what the caches hold of every decoding user.\<close>

lemma decode_attention_ok:
  assumes env: "ae_device env = CPU" "masking_laws (ae_softmax env)"
    and x: "prepared impl heads heads (length pos) 1 q k v x" "heads \<noteq> 0"
    and hold: "caches_hold caches pt used w bs heads ks vs" and plen: "length pos \<le> length pt"
  obtains out where "compute_decode_attention env impl x caches (the (decode_metadata pos pt)) = Inr out"
    "wf4 out" "shape4 out = (length pos, 1, heads)"
    "\<And>u c. u < length pos \<Longrightarrow> c \<in> set (cells out ! u ! 0) \<Longrightarrow> length c = im_head_size impl"
    "\<And>u. u < length pos \<Longrightarrow> pos ! u = int (length (ks u)) - 1 \<Longrightarrow> ks u \<noteq> [] \<Longrightarrow>
       concat (cells out ! u ! 0) = attend_heads (ae_softmax env) (ae_scale env (im_head_size impl)) 1 (token_heads impl q u 0) (ks u) (vs u)"
proof -
  let ?U = "length pos" and ?s = "ae_scale env (im_head_size impl)" and ?sm = "ae_softmax env"
  obtain kc vc where caches: "caches = (kc, vc)" by (cases caches)
  note H = caches_holdD [OF hold, unfolded caches fst_conv snd_conv] and X = preparedD [OF x(1)]
  note K = cache_okD [OF H(1)] and V = cache_okD [OF H(5)]
  have qd: "d0 (in_query x) = ?U" "d1 (in_query x) = 1" "d2 (in_query x) = heads" using X(2) by (simp_all add: shape4_def)
  have sh: "shape4 vc = shape4 kc" "d1 kc \<noteq> 0" "shape4 (swap01 (in_query x)) = (1, ?U, d1 kc)"
    using x(2) H qd by (simp_all add: shape4_def)
  obtain out where out: "paged_scaled_dot_product_attention_decode ?sm ?s (ae_sdpa env) CPU (swap01 (in_query x)) kc vc pt True None
      (Some pos) (im_sinks impl) None = Inr out" "decode_result ?sm ?s (swap01 (in_query x)) kc vc pt (w * d2 kc) pos out"
    using paged_attention_sees_tokens [OF env(2) K(1) V(1) sh(1) K(4) plen sh(2) wf4_swap01 [OF X(1)] sh(3),
        where scale = None and default_scale = ?s and xla = "ae_sdpa env" and sink = "im_sinks impl"] by auto
  have O: "wf4 out" "shape4 out = (1, ?U, heads)"
    "\<And>u h. u < ?U \<Longrightarrow> h < heads \<Longrightarrow> length (cells out ! 0 ! u ! h) = length (token_heads impl q u 0 ! h)"
    "\<And>u h. u < ?U \<Longrightarrow> h < heads \<Longrightarrow> 0 \<le> pos ! u \<Longrightarrow> pos ! u < int (w * bs) \<Longrightarrow> cells out ! 0 ! u ! h
        = attention ?sm ?s (token_heads impl q u 0 ! h) (user_tokens kc pt u h (nat (pos ! u) + 1)) (user_tokens vc pt u h (nat (pos ! u) + 1))"
    using out(2) H X(3) swap01_cells [of _ "in_query x" 0] qd by (auto simp: decode_result_def)
  have od: "d0 out = 1" "d1 out = ?U" "d2 out = heads" using O(2) by (simp_all add: shape4_def)
  have sw: "cells (swap01 out) ! u ! 0 = cells out ! 0 ! u" "length (cells out ! 0 ! u) = heads" if "u < ?U" for u
    using that od wf4D(3) [OF O(1), of 0 u] by (simp_all add: swap01_cells)
  have vec: "length c = im_head_size impl" if u: "u < ?U" and c: "c \<in> set (cells (swap01 out) ! u ! 0)" for u c
  proof -
    obtain h where h: "h < heads" "c = cells out ! 0 ! u ! h" using c sw [OF u] by (metis in_set_conv_nth)
    then show ?thesis using O(3) [OF u h(1)] X(4) [OF u, of 0] X(16) [OF u, of 0] by simp
  qed
  have res: "concat (cells (swap01 out) ! u ! 0) = attend_heads ?sm ?s 1 (token_heads impl q u 0) (ks u) (vs u)"
    if u: "u < ?U" "pos ! u = int (length (ks u)) - 1" "ks u \<noteq> []" for u
  proof -
    obtain l where l: "length (ks u) = Suc l" using u(3) by (cases "ks u") auto
    then have p: "0 \<le> pos ! u" "nat (pos ! u) + 1 = length (ks u)" "length (vs u) = length (ks u)"
      using u H(10) [of u] plen by auto
    have "length (ks u) \<le> used u * bs" "used u \<le> w"
      using H(3,4) page_layoutD(2) [OF K(2), of u] u plen H(1) by (auto simp: holds_def cache_ok_def)
    then have "length (ks u) \<le> w * bs" by (meson le_trans mult_le_mono1)
    then have "pos ! u < int (w * bs)" using u(2) by linarith
    then have "cells out ! 0 ! u ! h = attention ?sm ?s (token_heads impl q u 0 ! h) (map (\<lambda>t. t ! h) (ks u)) (map (\<lambda>t. t ! h) (vs u))"
      if "h < heads" for h
    proof -
      have ul: "u < length pt" "h < d1 kc" "h < d1 vc" using u(1) plen that H(2,6) by simp_all
      show ?thesis
        using O(4) [OF u(1) that p(1)] \<open>pos ! u < int (w * bs)\<close> holds_user_tokens [OF H(4) ul(1,2)] holds_user_tokens [OF H(8) ul(1,3)]
        unfolding p(2,3) by simp
    qed
    then have "cells (swap01 out) ! u ! 0 = map (\<lambda>h. attention ?sm ?s (token_heads impl q u 0 ! h) (map (\<lambda>t. t ! h) (ks u)) (map (\<lambda>t. t ! h) (vs u))) [0..<heads]"
      using sw [OF u(1)] by (intro nth_equalityI) simp_all
    then show ?thesis using X(16) [OF u(1), of 0] by (simp add: attend_heads_def)
  qed
  have "compute_decode_attention env impl x caches (the (decode_metadata pos pt)) = Inr (swap01 out)"
    using out(1) env(1) by (simp add: compute_decode_attention_def decode_metadata_def required_def caches)
  then show thesis by (rule that [OF _ wf4_swap01 [OF O(1)] _ vec res]) (simp_all add: od)
qed

lemma layer_decode_ok:
  assumes env: "ae_device env = CPU" "masking_laws (ae_softmax env)"
    and s: "sized impl heads heads (length pos) 1 q k v"
    and hold: "caches_hold caches pt used w bs heads ks vs"
    and pos: "positions_ok pt used bs (\<lambda>u. length (ks u)) pos"
  obtains out caches' where "forward env impl (ThreeD q k v) (Some caches) (decode_metadata pos pt) = Inr (Out3 out, Some caches')"
    "caches_hold caches' pt used w bs heads (grow pos ks (\<lambda>u. token_heads impl k u 0)) (grow pos vs (\<lambda>u. token_heads impl v u 0))"
    "length out = length pos"
    "\<And>u. u < length pos \<Longrightarrow> 0 \<le> pos ! u \<Longrightarrow> out ! u = [attend_heads (ae_softmax env) (ae_scale env (im_head_size impl)) 1
        (token_heads impl q u 0) (ks u @ [token_heads impl k u 0]) (vs u @ [token_heads impl v u 0])]"
proof -
  let ?ks = "grow pos ks (\<lambda>u. token_heads impl k u 0)" and ?vs = "grow pos vs (\<lambda>u. token_heads impl v u 0)"
  have heads: "heads \<noteq> 0" and plen: "length pos \<le> length pt" using s pos by (simp_all add: sized_def positions_ok_def)
  obtain x where x: "prepare_attention_inputs impl (ThreeD q k v) (decode_metadata pos pt) = Inr x"
    "prepared impl heads heads (length pos) 1 q k v x"
    by (rule prepare_ok [OF s logical_batch_positions])
  obtain caches' where c: "update_caches env x (the (decode_metadata pos pt)) caches = Inr caches'" "caches_hold caches' pt used w bs heads ?ks ?vs"
    by (rule decode_caches_ok [OF env(1) x(2) hold pos])
  obtain t where t: "compute_decode_attention env impl x caches' (the (decode_metadata pos pt)) = Inr t"
    "wf4 t" "shape4 t = (length pos, 1, heads)"
    "\<And>u c. u < length pos \<Longrightarrow> c \<in> set (cells t ! u ! 0) \<Longrightarrow> length c = im_head_size impl"
    "\<And>u. u < length pos \<Longrightarrow> pos ! u = int (length (?ks u)) - 1 \<Longrightarrow> ?ks u \<noteq> [] \<Longrightarrow>
       concat (cells t ! u ! 0) = attend_heads (ae_softmax env) (ae_scale env (im_head_size impl)) 1 (token_heads impl q u 0) (?ks u) (?vs u)"
    by (rule decode_attention_ok [OF env x(2) heads c(2) plen]) blast
  note X = preparedD [OF x(2)]
  have td: "d0 t = length pos" "d1 t = 1" "d2 t = heads" using t(3) by (simp_all add: shape4_def)
  let ?out = "map (\<lambda>u. [concat (cells t ! u ! 0)]) [0..<length pos]"
  have fin: "finalize_output t x = Inr (Out3 ?out)"
    using finalize_ok [OF t(2), of x heads "im_head_size impl"] t(3,4) td X(11-14) by simp
  have run: "forward env impl (ThreeD q k v) (Some caches) (decode_metadata pos pt) = Inr (Out3 ?out, Some caches')"
    using x(1) c(1) t(1) fin X(15) by (simp add: forward_def decode_metadata_def)
  have "?out ! u = [attend_heads (ae_softmax env) (ae_scale env (im_head_size impl)) 1
        (token_heads impl q u 0) (ks u @ [token_heads impl k u 0]) (vs u @ [token_heads impl v u 0])]"
    if u: "u < length pos" "0 \<le> pos ! u" for u
    using t(5) [OF u(1)] u pos by (auto simp: grow_def positions_ok_def idle_def)
  then show thesis by (intro that [OF run c(2)]) simp_all
qed

definition empty_or_stale :: "kv_halves \<Rightarrow> int list list \<Rightarrow> (nat \<Rightarrow> nat) \<Rightarrow> nat \<Rightarrow> nat \<Rightarrow> nat \<Rightarrow> bool" where
  "empty_or_stale caches pt used w block_size heads \<longleftrightarrow> caches_hold caches pt used w block_size heads (\<lambda>_. []) (\<lambda>_. [])"

text \<open>The tokens of a prompt that is padded to the length of the step.\<close>

definition prompt_tokens :: "attn_impl \<Rightarrow> nat \<Rightarrow> (nat \<Rightarrow> nat) \<Rightarrow> rows3 \<Rightarrow> nat \<Rightarrow> head_vector list list" where
  "prompt_tokens impl users len t u = (if u < users then map (token_heads impl t u) [0..<len u] else [])"

lemma prefill_caches_ok:
  assumes env: "ae_device env = CPU" and x: "prepared impl heads kv_heads (length pos) n q k v x"
    and n: "n > 1" "n div bs \<le> w" "length pos \<le> length pt"
    and hold: "empty_or_stale caches pt used w bs kv_heads"
    and len: "\<forall>u < length pos. len u \<le> n \<and> len u \<le> used u * bs"
  obtains caches' where "update_caches env x (the (decode_metadata pos pt)) caches = Inr caches'"
    "caches_hold caches' pt used w bs kv_heads (prompt_tokens impl (length pos) len k) (prompt_tokens impl (length pos) len v)"
proof -
  let ?U = "length pos"
  obtain kc vc where caches: "caches = (kc, vc)" by (cases caches)
  note H = caches_holdD [OF hold [unfolded empty_or_stale_def], unfolded caches fst_conv snd_conv] and X = preparedD [OF x]
  obtain kc' where kc': "handle_paged_attention (ae_cache env) CPU True ?U (in_key x) [] pt kc = Inr kc'"
    "cache_ok kc' pt used w" "shape4 kc' = shape4 kc" "holds kc' pt used (\<lambda>u. if u < ?U then map (\<lambda>i. cells (in_key x) ! u ! i) [0..<len u] else [])"
    by (rule holds_prefill [OF H(1) X(5) X(6) [folded H(2)] n(3) n(2) [folded H(3)] len [folded H(3)]]) blast
  obtain vc' where vc': "handle_paged_attention (ae_cache env) CPU True ?U (in_value x) [] pt vc = Inr vc'"
    "cache_ok vc' pt used w" "shape4 vc' = shape4 vc" "holds vc' pt used (\<lambda>u. if u < ?U then map (\<lambda>i. cells (in_value x) ! u ! i) [0..<len u] else [])"
    by (rule holds_prefill [OF H(5) X(8) X(9) [folded H(6)] n(3) n(2) [folded H(7)] len [folded H(7)]]) blast
  have "(\<lambda>u. if u < ?U then map (\<lambda>i. cells (in_key x) ! u ! i) [0..<len u] else []) = prompt_tokens impl ?U len k"
    "(\<lambda>u. if u < ?U then map (\<lambda>i. cells (in_value x) ! u ! i) [0..<len u] else []) = prompt_tokens impl ?U len v"
    using X(7,10) len by (auto simp: prompt_tokens_def fun_eq_iff)
  then have "caches_hold (kc', vc') pt used w bs kv_heads (prompt_tokens impl ?U len k) (prompt_tokens impl ?U len v)"
    using kc'(2,3,4) vc'(2,3,4) H by (auto simp: caches_hold_def prompt_tokens_def shape4_def)
  moreover have "update_caches env x (the (decode_metadata pos pt)) caches = Inr (kc', vc')"
    using kc'(1) vc'(1) env X(13,15) n(1) by (simp add: update_caches_def decode_metadata_def required_def caches Let_def)
  ultimately show thesis using that by blast
qed

lemma swap12_column:
  assumes "wf4 t" "u < d0 t" "i < d1 t" "c < d2 t" "\<And>j. j < d1 t \<Longrightarrow> cells t ! u ! j = f j"
  shows "take (i + 1) (cells (swap12 t) ! u ! c) = map (\<lambda>t. t ! c) (map f [0..<i + 1])"
  using assms wf4D(3) [OF wf4_swap12 [OF assms(1)], of u c] by (intro nth_equalityI) (simp_all add: swap12_cells del: upt_Suc)

lemma full_attention_ok:
  assumes env: "ae_device env = CPU" "masking_laws (ae_softmax env)"
    and x: "prepared impl heads kv_heads users n q k v x" "kv_heads \<noteq> 0" "heads mod kv_heads = 0" "n mod 32 = 0"
  obtains out where "compute_full_attention env impl x (the (decode_metadata pos pt)) = Inr out"
    "wf4 out" "shape4 out = (users, n, heads)"
    "\<And>u i. u < users \<Longrightarrow> i < n \<Longrightarrow> cells out ! u ! i = map (\<lambda>h. attention (ae_softmax env) (ae_scale env (im_head_size impl)) (token_heads impl q u i ! h)
       (map (\<lambda>t. t ! (h div (heads div kv_heads))) (map (token_heads impl k u) [0..<i + 1]))
       (map (\<lambda>t. t ! (h div (heads div kv_heads))) (map (token_heads impl v u) [0..<i + 1]))) [0..<heads]"
proof -
  let ?s = "ae_scale env (im_head_size impl)" and ?g = "heads div kv_heads" and ?sm = "ae_softmax env"
  note X = preparedD [OF x(1)]
  have qd: "d0 (in_query x) = users" "d1 (in_query x) = n" "d2 (in_query x) = heads"
    and kd: "d0 (in_key x) = users" "d1 (in_key x) = n" "d2 (in_key x) = kv_heads"
    and vd: "d0 (in_value x) = users" "d1 (in_value x) = n" "d2 (in_value x) = kv_heads"
    using X(2,6,9) by (simp_all add: shape4_def)
  have sh: "shape4 (swap12 (in_query x)) = (users, heads, n)" "shape4 (swap12 (in_key x)) = (users, kv_heads, n)"
    "shape4 (swap12 (in_value x)) = (users, kv_heads, n)"
    using qd kd vd by simp_all
  obtain out where out: "scaled_dot_product_attention ?sm ?s (ae_sdpa env) CPU (swap12 (in_query x)) (swap12 (in_key x)) (swap12 (in_value x))
      None True None = Inr out" "wf4 out" "shape4 out = (users, heads, n)"
    "\<And>b h i. b < users \<Longrightarrow> h < heads \<Longrightarrow> i < n \<Longrightarrow> cells out ! b ! h ! i = attention ?sm ?s (cells (swap12 (in_query x)) ! b ! h ! i)
       (take (i + 1) (cells (swap12 (in_key x)) ! b ! (h div ?g))) (take (i + 1) (cells (swap12 (in_value x)) ! b ! (h div ?g)))"
    using sdpa_causal_ok [OF env(2) wf4_swap12 [OF X(1)] wf4_swap12 [OF X(5)] wf4_swap12 [OF X(8)] sh x(2-4),
      where xla = "ae_sdpa env" and default_scale = ?s and scale = None] by auto
  have od: "d0 out = users" "d1 out = heads" "d2 out = n" using out(3) by (simp_all add: shape4_def)
  have sub: "h div ?g < kv_heads" if "h < heads" for h
    using that x(3) by (metis div_mult_mod_eq add.right_neutral less_mult_imp_div_less mult.commute)
  have row: "cells (swap12 out) ! u ! i ! h = attention ?sm ?s (token_heads impl q u i ! h)
       (map (\<lambda>t. t ! (h div ?g)) (map (token_heads impl k u) [0..<i + 1])) (map (\<lambda>t. t ! (h div ?g)) (map (token_heads impl v u) [0..<i + 1]))"
    if "u < users" "i < n" "h < heads" for u i h
  proof -
    have "cells (swap12 (in_query x)) ! u ! h ! i = token_heads impl q u i ! h"
      using that qd X(1,3) by (simp add: swap12_cells)
    moreover have "take (i + 1) (cells (swap12 (in_key x)) ! u ! (h div ?g)) = map (\<lambda>t. t ! (h div ?g)) (map (token_heads impl k u) [0..<i + 1])"
      by (rule swap12_column [OF X(5)]) (use that sub kd X(7) in auto)
    moreover have "take (i + 1) (cells (swap12 (in_value x)) ! u ! (h div ?g)) = map (\<lambda>t. t ! (h div ?g)) (map (token_heads impl v u) [0..<i + 1])"
      by (rule swap12_column [OF X(8)]) (use that sub vd X(10) in auto)
    ultimately show ?thesis using out(4) [OF that(1,3,2)] that od out(2) by (simp add: swap12_cells)
  qed
  have len: "length (cells (swap12 out) ! u ! i) = heads" if "u < users" "i < n" for u i
    using wf4D(3) [OF wf4_swap12 [OF out(2)], of u i] od that by simp
  have run: "compute_full_attention env impl x (the (decode_metadata pos pt)) = Inr (swap12 out)"
    using out(1) env(1) by (simp add: compute_full_attention_def decode_metadata_def)
  show thesis
  proof (rule that [OF run wf4_swap12 [OF out(2)]])
    fix u i assume "u < users" "i < n"
    then show "cells (swap12 out) ! u ! i = map (\<lambda>h. attention ?sm ?s (token_heads impl q u i ! h)
       (map (\<lambda>t. t ! (h div ?g)) (map (token_heads impl k u) [0..<i + 1])) (map (\<lambda>t. t ! (h div ?g)) (map (token_heads impl v u) [0..<i + 1]))) [0..<heads]"
      using row len by (intro nth_equalityI) simp_all
  qed (use od in simp)
qed

lemma layer_prefill_ok:
  assumes env: "ae_device env = CPU" "masking_laws (ae_softmax env)"
    and s: "sized impl heads kv_heads (length pos) n q k v" "heads mod kv_heads = 0" "im_sinks impl = None"
    and n: "n > 1" "n mod 32 = 0" "n div bs \<le> w" "length pos \<le> length pt"
    and hold: "empty_or_stale caches pt used w bs kv_heads"
    and len: "\<forall>u < length pos. len u \<le> n \<and> len u \<le> used u * bs"
  obtains out caches' where "forward env impl (ThreeD q k v) (Some caches) (decode_metadata pos pt) = Inr (Out3 out, Some caches')"
    "caches_hold caches' pt used w bs kv_heads (prompt_tokens impl (length pos) len k) (prompt_tokens impl (length pos) len v)"
    "\<And>u i. u < length pos \<Longrightarrow> i < n \<Longrightarrow> out ! u ! i = attend_heads (ae_softmax env) (ae_scale env (im_head_size impl)) (heads div kv_heads)
        (token_heads impl q u i) (map (token_heads impl k u) [0..<i + 1]) (map (token_heads impl v u) [0..<i + 1])"
proof -
  have kvh: "kv_heads \<noteq> 0" using s by (simp add: sized_def)
  obtain x where x: "prepare_attention_inputs impl (ThreeD q k v) (decode_metadata pos pt) = Inr x"
    "prepared impl heads kv_heads (length pos) n q k v x"
    by (rule prepare_ok [OF s(1) logical_batch_positions])
  obtain caches' where c: "update_caches env x (the (decode_metadata pos pt)) caches = Inr caches'"
    "caches_hold caches' pt used w bs kv_heads (prompt_tokens impl (length pos) len k) (prompt_tokens impl (length pos) len v)"
    by (rule prefill_caches_ok [OF env(1) x(2) n(1,3,4) hold len])
  obtain t where t: "compute_full_attention env impl x (the (decode_metadata pos pt)) = Inr t" "wf4 t" "shape4 t = (length pos, n, heads)"
    "\<And>u i. u < length pos \<Longrightarrow> i < n \<Longrightarrow> cells t ! u ! i = map (\<lambda>h. attention (ae_softmax env) (ae_scale env (im_head_size impl)) (token_heads impl q u i ! h)
       (map (\<lambda>t. t ! (h div (heads div kv_heads))) (map (token_heads impl k u) [0..<i + 1]))
       (map (\<lambda>t. t ! (h div (heads div kv_heads))) (map (token_heads impl v u) [0..<i + 1]))) [0..<heads]"
    by (rule full_attention_ok [OF env x(2) kvh s(2) n(2)]) blast
  note X = preparedD [OF x(2)]
  have td: "d0 t = length pos" "d1 t = n" "d2 t = heads" using t(3) by (simp_all add: shape4_def)
  have vec: "length c = im_head_size impl" if "u < length pos" "i < n" "c \<in> set (cells t ! u ! i)" for u i c
    using that(3) X(4) [OF that(1,2)] X(16) [OF that(1,2)] unfolding t(4) [OF that(1,2)] by (auto simp: attention_def)
  let ?out = "map (\<lambda>u. map (\<lambda>i. concat (cells t ! u ! i)) [0..<n]) [0..<length pos]"
  have fin: "finalize_output t x = Inr (Out3 ?out)"
    using finalize_ok [OF t(2), of x heads "im_head_size impl"] t(3) td vec X(11-14) by simp
  have run: "forward env impl (ThreeD q k v) (Some caches) (decode_metadata pos pt) = Inr (Out3 ?out, Some caches')"
    using x(1) c(1) t(1) fin X(15) n(1) s(3) by (simp add: forward_def decode_metadata_def)
  show thesis by (rule that [OF run c(2)]) (use t(4) X(16) in \<open>simp add: attend_heads_def\<close>)
qed

section \<open>Generation\<close>

text \<open>Decode steps one after the other; the caches of a step are those the step before left.\<close>

type_synonym decode_input = "int list \<times> rows3 \<times> rows3 \<times> rows3"

fun decode_steps ::
  "attn_env \<Rightarrow> attn_impl \<Rightarrow> int list list \<Rightarrow> kv_halves \<Rightarrow> decode_input list \<Rightarrow> (fl list list list list \<times> kv_halves) res" where
  "decode_steps env impl pt caches [] = Inr ([], caches)"
| "decode_steps env impl pt caches ((pos, q, k, v) # steps) =
     rbind (forward env impl (ThreeD q k v) (Some caches) (decode_metadata pos pt)) (\<lambda>res.
       case res of
         (Out3 out, Some caches) \<Rightarrow> rbind (decode_steps env impl pt caches steps) (\<lambda>(outs, caches). Inr (out # outs, caches))
       | _ \<Rightarrow> Inl RuntimeError)"

text \<open>The tokens the steps add to those that are there, by keys or by values.\<close>

fun tokens_after ::
  "attn_impl \<Rightarrow> (decode_input \<Rightarrow> rows3) \<Rightarrow> (nat \<Rightarrow> head_vector list list) \<Rightarrow> decode_input list \<Rightarrow> nat \<Rightarrow> head_vector list list" where
  "tokens_after impl part toks [] = toks"
| "tokens_after impl part toks (s # steps) = tokens_after impl part (grow (fst s) toks (\<lambda>u. token_heads impl (part s) u 0)) steps"

fun steps_ok ::
  "attn_impl \<Rightarrow> nat \<Rightarrow> int list list \<Rightarrow> (nat \<Rightarrow> nat) \<Rightarrow> nat \<Rightarrow> (nat \<Rightarrow> head_vector list list) \<Rightarrow> decode_input list \<Rightarrow> bool" where
  "steps_ok impl heads pt used bs ks [] \<longleftrightarrow> True"
| "steps_ok impl heads pt used bs ks ((pos, q, k, v) # steps) \<longleftrightarrow>
     sized impl heads heads (length pos) 1 q k v \<and> positions_ok pt used bs (\<lambda>u. length (ks u)) pos
     \<and> steps_ok impl heads pt used bs (grow pos ks (\<lambda>u. token_heads impl k u 0)) steps"

definition step_keys :: "decode_input \<Rightarrow> rows3" where "step_keys s = fst (snd (snd s))"
definition step_values :: "decode_input \<Rightarrow> rows3" where "step_values s = snd (snd (snd s))"

lemma tokens_after_prefix: "\<exists>ts. tokens_after impl part toks steps u = toks u @ ts"
proof (induction steps arbitrary: toks)
  case (Cons s steps)
  obtain ts where "tokens_after impl part toks (s # steps) u = grow (fst s) toks (\<lambda>u. token_heads impl (part s) u 0) u @ ts"
    using Cons by auto
  then show ?case by (auto simp: grow_def)
qed simp

lemma take_tokens_after: "n \<le> length (toks u) \<Longrightarrow> take n (tokens_after impl part toks steps u) = take n (toks u)"
  using tokens_after_prefix [of impl part toks steps u] by auto

lemma decode_steps_ok:
  assumes env: "ae_device env = CPU" "masking_laws (ae_softmax env)"
    and hold: "caches_hold caches pt used w bs heads ks vs" and ok: "steps_ok impl heads pt used bs ks steps"
  shows "\<exists>outs caches'. decode_steps env impl pt caches steps = Inr (outs, caches')
    \<and> caches_hold caches' pt used w bs heads (tokens_after impl step_keys ks steps) (tokens_after impl step_values vs steps)
    \<and> length outs = length steps
    \<and> (\<forall>t < length steps. \<forall>pos q k v u. steps ! t = (pos, q, k, v) \<longrightarrow> u < length pos \<longrightarrow> 0 \<le> pos ! u \<longrightarrow>
        outs ! t ! u = [attend_heads (ae_softmax env) (ae_scale env (im_head_size impl)) 1 (token_heads impl q u 0)
          (take (nat (pos ! u) + 1) (tokens_after impl step_keys ks steps u)) (take (nat (pos ! u) + 1) (tokens_after impl step_values vs steps u))])"
  using hold ok
proof (induction steps arbitrary: caches ks vs)
  case (Cons s steps)
  obtain pos q k v where s: "s = (pos, q, k, v)" by (cases s)
  let ?ks = "grow pos ks (\<lambda>u. token_heads impl k u 0)" and ?vs = "grow pos vs (\<lambda>u. token_heads impl v u 0)"
  have S: "sized impl heads heads (length pos) 1 q k v" "positions_ok pt used bs (\<lambda>u. length (ks u)) pos" "steps_ok impl heads pt used bs ?ks steps"
    using Cons.prems(2) by (simp_all add: s)
  obtain out c where c: "forward env impl (ThreeD q k v) (Some caches) (decode_metadata pos pt) = Inr (Out3 out, Some c)"
    "caches_hold c pt used w bs heads ?ks ?vs" "length out = length pos"
    "\<And>u. u < length pos \<Longrightarrow> 0 \<le> pos ! u \<Longrightarrow> out ! u = [attend_heads (ae_softmax env) (ae_scale env (im_head_size impl)) 1
        (token_heads impl q u 0) (ks u @ [token_heads impl k u 0]) (vs u @ [token_heads impl v u 0])]"
    by (rule layer_decode_ok [OF env S(1) Cons.prems(1) S(2)]) blast
  obtain outs c' where r: "decode_steps env impl pt c steps = Inr (outs, c')"
    "caches_hold c' pt used w bs heads (tokens_after impl step_keys ?ks steps) (tokens_after impl step_values ?vs steps)"
    "length outs = length steps"
    "\<forall>t < length steps. \<forall>pos q k v u. steps ! t = (pos, q, k, v) \<longrightarrow> u < length pos \<longrightarrow> 0 \<le> pos ! u \<longrightarrow>
        outs ! t ! u = [attend_heads (ae_softmax env) (ae_scale env (im_head_size impl)) 1 (token_heads impl q u 0)
          (take (nat (pos ! u) + 1) (tokens_after impl step_keys ?ks steps u)) (take (nat (pos ! u) + 1) (tokens_after impl step_values ?vs steps u))]"
    using Cons.IH [OF c(2) S(3)] by blast
  have after: "tokens_after impl step_keys ks (s # steps) = tokens_after impl step_keys ?ks steps"
    "tokens_after impl step_values vs (s # steps) = tokens_after impl step_values ?vs steps"
    by (simp_all add: s step_keys_def step_values_def)
  have first: "out ! u = [attend_heads (ae_softmax env) (ae_scale env (im_head_size impl)) 1 (token_heads impl q u 0)
          (take (nat (pos ! u) + 1) (tokens_after impl step_keys ?ks steps u)) (take (nat (pos ! u) + 1) (tokens_after impl step_values ?vs steps u))]"
    if u: "u < length pos" "0 \<le> pos ! u" for u
  proof -
    have p: "nat (pos ! u) = length (ks u)" "length (vs u) = length (ks u)"
      using S(2) u Cons.prems(1) by (auto simp: positions_ok_def idle_def caches_hold_def)
    have "take (nat (pos ! u) + 1) (tokens_after impl step_keys ?ks steps u) = ks u @ [token_heads impl k u 0]"
      "take (nat (pos ! u) + 1) (tokens_after impl step_values ?vs steps u) = vs u @ [token_heads impl v u 0]"
      using u p by (simp_all add: take_tokens_after grow_def)
    then show ?thesis using c(4) [OF u] by simp
  qed
  show ?case unfolding after
    using c(1) r first by (intro exI [of _ "out # outs"] exI [of _ c']) (auto simp: s nth_Cons split: nat.splits)
qed simp

section \<open>Properties of the layer\<close>

text \<open>C6. Generating token by token computes attention over the whole sequence: after a prefill with padded prompts and any
  number of decode steps, in which users may be idle, the output of every token is the attention of its query to
  the keys and values of all tokens of its user up to itself, wherever the pages of the user lie and whatever
  else they held.\<close>

theorem generation_attends_to_whole_sequence:
  assumes "ae_device env = CPU" "masking_laws (ae_softmax env)"
    and "sized impl heads heads (length pos) n q k v" "im_sinks impl = None"
    and "n > 1" "n mod 32 = 0" "n div bs \<le> w" "length pos \<le> length pt"
    and "empty_or_stale caches pt used w bs heads" "\<forall>u < length pos. len u \<le> n \<and> len u \<le> used u * bs"
    and "steps_ok impl heads pt used bs (prompt_tokens impl (length pos) len k) steps"
  shows "\<exists>out caches' outs caches''.
      forward env impl (ThreeD q k v) (Some caches) (decode_metadata pos pt) = Inr (Out3 out, Some caches')
    \<and> decode_steps env impl pt caches' steps = Inr (outs, caches'')
    \<and> (let ks = tokens_after impl step_keys (prompt_tokens impl (length pos) len k) steps;
           vs = tokens_after impl step_values (prompt_tokens impl (length pos) len v) steps;
           attend_to = (\<lambda>u query p. attend_heads (ae_softmax env) (ae_scale env (im_head_size impl)) 1 query (take (p + 1) (ks u)) (take (p + 1) (vs u)))
       in (\<forall>u < length pos. \<forall>i < len u. out ! u ! i = attend_to u (token_heads impl q u i) i)
        \<and> (\<forall>t < length steps. \<forall>pos' q' k' v' u. steps ! t = (pos', q', k', v') \<longrightarrow> u < length pos' \<longrightarrow> 0 \<le> pos' ! u \<longrightarrow>
             outs ! t ! u = [attend_to u (token_heads impl q' u 0) (nat (pos' ! u))]))"
proof -
  have h: "heads mod heads = 0" "heads div heads = 1" using assms(3) by (auto simp: sized_def)
  let ?ks = "prompt_tokens impl (length pos) len k" and ?vs = "prompt_tokens impl (length pos) len v"
  obtain out c where p: "forward env impl (ThreeD q k v) (Some caches) (decode_metadata pos pt) = Inr (Out3 out, Some c)"
    "caches_hold c pt used w bs heads ?ks ?vs"
    "\<And>u i. u < length pos \<Longrightarrow> i < n \<Longrightarrow> out ! u ! i = attend_heads (ae_softmax env) (ae_scale env (im_head_size impl)) (heads div heads)
        (token_heads impl q u i) (map (token_heads impl k u) [0..<i + 1]) (map (token_heads impl v u) [0..<i + 1])"
    by (rule layer_prefill_ok [OF assms(1-3) h(1) assms(4-10)]) blast
  obtain outs c' where d: "decode_steps env impl pt c steps = Inr (outs, c')"
    "\<forall>t < length steps. \<forall>pos q k v u. steps ! t = (pos, q, k, v) \<longrightarrow> u < length pos \<longrightarrow> 0 \<le> pos ! u \<longrightarrow>
        outs ! t ! u = [attend_heads (ae_softmax env) (ae_scale env (im_head_size impl)) 1 (token_heads impl q u 0)
          (take (nat (pos ! u) + 1) (tokens_after impl step_keys ?ks steps u)) (take (nat (pos ! u) + 1) (tokens_after impl step_values ?vs steps u))]"
    using decode_steps_ok [OF assms(1,2) p(2) assms(11)] by blast
  have pre: "take (i + 1) (tokens_after impl part (prompt_tokens impl (length pos) len t) steps u) = map (token_heads impl t u) [0..<i + 1]"
    if "u < length pos" "i < len u" for u i part t
    using that by (simp add: take_tokens_after prompt_tokens_def take_map del: upt_Suc)
  have "out ! u ! i = attend_heads (ae_softmax env) (ae_scale env (im_head_size impl)) 1 (token_heads impl q u i)
      (take (i + 1) (tokens_after impl step_keys ?ks steps u)) (take (i + 1) (tokens_after impl step_values ?vs steps u))"
    if "u < length pos" "i < len u" for u i
    using p(3) [of u i] pre [OF that] that assms(10) h(2) by fastforce
  then show ?thesis using p(1) d by (intro exI) (auto simp: Let_def)
qed

text \<open>One user with one head of one number, a prompt of two tokens padded to 32, two blocks of 32 tokens in reverse order, and
  two decode steps.\<close>

definition ex_env :: attn_env where
  "ex_env = \<lparr> ae_softmax = ramp_softmax, ae_scale = (\<lambda>_. 1), ae_sdpa = (\<lambda>_. undefined), ae_cache = (\<lambda>_. undefined), ae_device = CPU \<rparr>"

definition ex_impl :: attn_impl where
  "ex_impl = \<lparr> im_num_heads = 1, im_head_size = 1, im_scale = 1, im_num_kv_heads = 1, im_sliding_window = None,
     im_logits_soft_cap = None, im_queries_per_kv = 1, im_sinks = None \<rparr>"

definition ex_prompt :: rows3 where
  "ex_prompt = \<lparr> r0 = 1, r1 = 32, r2 = 1, rows = [[[1], [2]] @ replicate 30 [0]] \<rparr>"

definition ex_token :: "rat \<Rightarrow> rows3" where
  "ex_token x = \<lparr> r0 = 1, r1 = 1, r2 = 1, rows = [[[x]]] \<rparr>"

definition ex_zero_cache :: "rat list tensor4" where
  "ex_zero_cache = \<lparr> d0 = 2, d1 = 1, d2 = 32, cells = replicate 2 [replicate 32 [0]] \<rparr>"

definition ex_steps :: "decode_input list" where
  "ex_steps = [([2], ex_token 3, ex_token 4, ex_token 5), ([3], ex_token 6, ex_token 7, ex_token 8)]"

lemma ex_layer_sized:
  "sized ex_impl 1 1 1 32 ex_prompt ex_prompt ex_prompt" "sized ex_impl 1 1 1 1 (ex_token x) (ex_token y) (ex_token z)"
  by (simp_all add: sized_def ex_impl_def ex_prompt_def ex_token_def rows3_ok_def)

lemma ex_caches: "empty_or_stale (ex_zero_cache, ex_zero_cache) [[1, 0]] (\<lambda>_. 2) 2 32 1"
proof -
  have "page_layout [[1, 0]] (\<lambda>_. 2) 2"
    by (auto simp: page_layout_def less_Suc_eq numeral_2_eq_2)
  then show ?thesis
    by (simp add: empty_or_stale_def caches_hold_def cache_ok_def holds_def wf4_def ex_zero_cache_def)
qed

lemma ex_steps_ok: "steps_ok ex_impl 1 [[1, 0]] (\<lambda>_. 2) 32 (prompt_tokens ex_impl 1 (\<lambda>_. 2) ex_prompt) ex_steps"
  using ex_layer_sized(2)
  by (simp add: ex_steps_def positions_ok_def prompt_tokens_def grow_def)

theorem generation_attends_to_whole_sequence_witness:
  "\<exists>out caches' outs caches''.
      forward ex_env ex_impl (ThreeD ex_prompt ex_prompt ex_prompt) (Some (ex_zero_cache, ex_zero_cache)) (decode_metadata [0] [[1, 0]])
        = Inr (Out3 out, Some caches')
    \<and> decode_steps ex_env ex_impl [[1, 0]] caches' ex_steps = Inr (outs, caches'')
    \<and> outs ! 1 ! 0 = [attend_heads ramp_softmax 1 1 [[6]] [[[1]], [[2]], [[4]], [[7]]] [[[1]], [[2]], [[5]], [[8]]]]"
proof -
  have tk: "tokens_after ex_impl step_keys (prompt_tokens ex_impl 1 (\<lambda>_. 2) ex_prompt) ex_steps 0 = [[[1]], [[2]], [[4]], [[7]]]"
    "tokens_after ex_impl step_values (prompt_tokens ex_impl 1 (\<lambda>_. 2) ex_prompt) ex_steps 0 = [[[1]], [[2]], [[5]], [[8]]]"
    "token_heads ex_impl (ex_token 6) 0 0 = [[6]]"
    by (simp_all add: ex_steps_def step_keys_def step_values_def grow_def prompt_tokens_def token_heads_def chunks_def slice_def ex_impl_def
        ex_prompt_def ex_token_def upt_rec)
  have s: "ex_steps ! 1 = ([3], ex_token 6, ex_token 7, ex_token 8)" "length ex_steps = 2" by (simp_all add: ex_steps_def)
  show ?thesis
    using generation_attends_to_whole_sequence [of ex_env ex_impl 1 "[0]" 32 ex_prompt ex_prompt ex_prompt 32 2 "[[1, 0]]"
        "(ex_zero_cache, ex_zero_cache)" "\<lambda>_. 2" "\<lambda>_. 2" ex_steps] ex_layer_sized(1) ex_caches ex_steps_ok ramp_softmax_laws tk s
    by (auto simp: ex_env_def ex_impl_def Let_def)
qed

text \<open>The lengths to which the runner pads a step suit the layer: a step is a decode step of one token per user, or a prefill
  whose length the operator accepts.\<close>

theorem padded_lengths_suit_the_layer:
  assumes "get_token_paddings min_len max_len = Some paddings" "get_padded_token_len paddings x = Inr n"
  shows "n = 1 \<or> n > 1 \<and> n mod 32 = 0"
proof -
  have "n \<in> set paddings" using assms(2) by (auto simp: get_padded_token_len_def Let_def split: if_splits)
  moreover obtain m where "paddings = 1 # map (\<lambda>i. adjust_min_token min_len * 2 ^ i) [0..<Suc m]"
    using token_paddings_shape [of min_len max_len] assms(1) by auto
  moreover obtain k where "k \<ge> 5" "adjust_min_token min_len = 2 ^ k" using adjust_min_token_pow2 by blast
  then obtain j where "adjust_min_token min_len = 32 * 2 ^ j" by (auto simp: le_iff_add power_add)
  then have "adjust_min_token min_len * 2 ^ i > 1 \<and> adjust_min_token min_len * 2 ^ i mod 32 = 0" for i
  proof -
    define y :: int where "y = 2 ^ j * 2 ^ i"
    have "0 < y" by (simp add: y_def)
    then show ?thesis unfolding \<open>adjust_min_token min_len = 32 * 2 ^ j\<close> mult.assoc y_def [symmetric] by simp
  qed
  ultimately show ?thesis by auto
qed

theorem padded_lengths_suit_the_layer_witness:
  "\<exists>paddings. get_token_paddings 100 1000 = Some paddings \<and> get_padded_token_len paddings 129 = Inr 256
     \<and> (256 = (1 :: int) \<or> 256 > (1 :: int) \<and> 256 mod 32 = (0 :: int))"
proof -
  obtain paddings where p: "get_token_paddings 100 1000 = Some paddings"
    using token_paddings_shape [of 100 1000] by metis
  have q: "get_padded_token_len paddings 129 = Inr 256" using runner_pad_example unfolding runner_pad_def p by simp
  show ?thesis by (intro exI [of _ paddings] conjI p q padded_lengths_suit_the_layer [OF p q])
qed

end
