(* ===== verification/PageBytes.thy ===== *)
theory PageBytes
  imports Paddings PyStrings
begin

text \<open>
  The size of a page of the cache, \<open>get_page_size_bytes\<close> of \<open>vllm_tt/attention.py\<close>: heads are padded to the
  alignment of the device, keys and values are packed into words of 32 bits.
\<close>

section \<open>Definitions\<close>

text \<open>A dtype as the code sees it: its class, the bits \<open>finfo\<close> or \<open>iinfo\<close> give (None is their TypeError), its name.\<close>

datatype dtype_class = Floating | Complex | Integral

record dtype =
  dt_class :: dtype_class
  dt_info :: "nat option"
  dt_name :: string

definition starts_with :: "string \<Rightarrow> string \<Rightarrow> bool" where
  "starts_with p s \<longleftrightarrow> take (length p) s = p"

definition name_bits :: "dtype \<Rightarrow> nat res" where
  "name_bits d =
     (if starts_with ''torch.int'' (dt_name d) \<or> starts_with ''torch.uint'' (dt_name d)
      then case py_int [last (dt_name d)] of None \<Rightarrow> Inl ValueError | Some n \<Rightarrow> Inr (nat n)
      else Inl TypeError)"

definition dtype_bits :: "dtype \<Rightarrow> nat res" where
  "dtype_bits d =
     (case dt_class d of
        Complex \<Rightarrow>
          (if dt_name d = ''torch.complex32'' then Inr 32
           else if dt_name d = ''torch.complex64'' then Inr 64
           else if dt_name d = ''torch.complex128'' then Inr 128 else name_bits d)
      | _ \<Rightarrow> (case dt_info d of Some n \<Rightarrow> Inr n | None \<Rightarrow> name_bits d))"

definition get_dtype_packing :: "dtype \<Rightarrow> nat res" where
  "get_dtype_packing d =
     rbind (dtype_bits d) (\<lambda>bits.
     rbind (rguard (bits \<noteq> 0) ZeroDivisionError) (\<lambda>_.
     rbind (rguard (32 mod bits = 0) ValueError) (\<lambda>_.
     Inr (32 div bits))))"

definition head_size_alignment :: nat where
  "head_size_alignment = 32"

definition get_page_size_bytes :: "(int \<Rightarrow> int \<Rightarrow> int) \<Rightarrow> nat \<Rightarrow> nat \<Rightarrow> nat \<Rightarrow> dtype \<Rightarrow> nat res" where
  "get_page_size_bytes cdiv block_size num_kv_heads head_size d =
     (let padded_head_size = nat (cdiv (int head_size) (int head_size_alignment)) * head_size_alignment;
          combined = num_kv_heads * 2
      in rbind (get_dtype_packing d) (\<lambda>packing.
         let combined = nat (cdiv (int combined) (int packing)) * packing
         in rbind (dtype_bits d) (\<lambda>bits.
            Inr (block_size * combined * padded_head_size * bits div 8))))"

section \<open>Properties\<close>

text \<open>Rounding up.\<close>

lemma round_up:
  assumes "ceil_div_spec cdiv" "0 < b"
  shows "a \<le> nat (cdiv (int a) (int b)) * b" "b dvd a \<Longrightarrow> nat (cdiv (int a) (int b)) * b = a"
proof -
  have c: "int a \<le> cdiv (int a) (int b) * int b" "(cdiv (int a) (int b) - 1) * int b < int a"
    using assms by (auto simp: ceil_div_spec_def)
  have "0 \<le> cdiv (int a) (int b)"
  proof (rule ccontr)
    assume "\<not> ?thesis"
    then have "cdiv (int a) (int b) * int b < 0" using assms(2) by (simp add: mult_neg_pos)
    then show False using c(1) by simp
  qed
  then obtain n where n: "cdiv (int a) (int b) = int n" by (metis nonneg_int_cases)
  then show le: "a \<le> nat (cdiv (int a) (int b)) * b" using c(1) by (simp flip: of_nat_mult)
  assume "b dvd a"
  then obtain m where m: "a = b * m" by blast
  have "(int n - 1) * int b < int m * int b" using c(2) n m by (simp add: mult.commute)
  then have "n \<le> m" using assms(2) by simp
  then show "nat (cdiv (int a) (int b)) * b = a" using le n m assms(2) by simp
qed

text \<open>A page has room for the keys and values of its tokens in all heads; when the head size is aligned and the heads
  fill whole words it has no room to spare, and its size is a number of words.\<close>

theorem pages_hold_keys_and_values:
  assumes "ceil_div_spec cdiv" "dtype_bits d = Inr bits" "0 < bits" "32 mod bits = 0"
  shows "\<exists>bytes. get_page_size_bytes cdiv block_size heads head_size d = Inr bytes
    \<and> 4 dvd bytes \<and> block_size * (2 * heads) * head_size * bits \<le> 8 * bytes
    \<and> (32 dvd head_size \<longrightarrow> 32 div bits dvd 2 * heads \<longrightarrow> 8 * bytes = block_size * (2 * heads) * head_size * bits)"
proof -
  define packing where "packing = 32 div bits"
  have b32: "bits * packing = 32" using assms(3,4) by (auto simp: packing_def mod_eq_0_iff_dvd)
  then have "0 < packing" by (cases packing) auto
  note bits = b32 this
  define padded where "padded = nat (cdiv (int head_size) 32) * 32"
  define combined where "combined = nat (cdiv (int (heads * 2)) (int packing)) * packing"
  have p: "head_size \<le> padded" "32 dvd head_size \<Longrightarrow> padded = head_size"
    using round_up [OF assms(1), of 32 head_size] by (simp_all add: padded_def)
  have c: "2 * heads \<le> combined" "packing dvd 2 * heads \<Longrightarrow> combined = 2 * heads"
    using round_up [OF assms(1) bits(2), of "heads * 2"] by (simp_all add: combined_def mult.commute)
  obtain x y where x: "padded = 32 * x" and y: "combined = packing * y" by (simp add: padded_def combined_def) (metis mult.commute)
  have "block_size * combined * padded * bits = block_size * y * x * 32 * (bits * packing)" by (simp add: x y)
  then have prod: "block_size * combined * padded * bits = 8 * (4 * (block_size * y * x * 32))" unfolding bits(1) by simp
  have "get_page_size_bytes cdiv block_size heads head_size d = Inr (block_size * combined * padded * bits div 8)"
    using assms(2-4)
    by (simp add: get_page_size_bytes_def get_dtype_packing_def head_size_alignment_def Let_def packing_def padded_def combined_def)
  then have "get_page_size_bytes cdiv block_size heads head_size d = Inr (4 * (block_size * y * x * 32))"
    unfolding prod by simp
  moreover have "block_size * (2 * heads) * head_size * bits \<le> block_size * combined * padded * bits"
    using p(1) c(1) by (intro mult_le_mono) auto
  moreover have "block_size * combined * padded * bits = block_size * (2 * heads) * head_size * bits"
    if "32 dvd head_size" "32 div bits dvd 2 * heads"
    using that p(2) c(2) by (simp add: packing_def)
  ultimately show ?thesis unfolding prod by (intro exI [of _ "4 * (block_size * y * x * 32)"]) auto
qed

text \<open>Pages of 32 tokens with 3 heads of 40 numbers of 16 bits.\<close>

theorem pages_hold_keys_and_values_witness:
  "\<exists>bytes. get_page_size_bytes (\<lambda>a b. - ((- a) div b)) 32 3 40 \<lparr> dt_class = Floating, dt_info = Some 16, dt_name = ''torch.bfloat16'' \<rparr> = Inr bytes
     \<and> 4 dvd bytes \<and> 122880 \<le> 8 * bytes"
  using pages_hold_keys_and_values [OF ceil_div_spec_instance,
      of "\<lparr> dt_class = Floating, dt_info = Some 16, dt_name = ''torch.bfloat16'' \<rparr>" 16 32 3 40]
  by (auto simp: dtype_bits_def)

end
