(* ===== verification/GrammarMask.thy ===== *)
theory GrammarMask
  imports StepInputsProps "HOL-Library.Word"
begin

text \<open>
  Structured decoding: methods \<open>prepare_structured_decoding_input\<close>, \<open>structured_decode\<close> and
  \<open>apply_grammar_bitmask\<close> of \<open>vllm_tt/model_runner.py\<close>. The grammar of a request allows a set of
  tokens, packed into 32-bit words; the runner spreads the words of the structured requests over
  the rows of the batch and sets the logits of the other tokens to minus infinity.

  The words are \<open>32 word\<close>, as in the code, where the mask of bit 31 is a negative \<open>int32\<close>; the
  theorem says which bit of which word decides about a token.
\<close>

section \<open>The masks\<close>

text \<open>\<open>structured_decode_bitmasks\<close>, built as \<open>uint32\<close> and read as \<open>int32\<close>.\<close>

definition structured_decode_bitmasks :: "32 word list" where
  "structured_decode_bitmasks = map (\<lambda>i. push_bit i 1) [0..<32]"

text \<open>One row of \<open>apply_grammar_bitmask\<close>: every word is unpacked against the 32 masks, the bits are
  laid out one word after the other and cut at the vocabulary. \<open>torch.where\<close> needs as many bits as
  logits.\<close>

definition unpack_row :: "32 word list \<Rightarrow> 32 word list \<Rightarrow> bool list" where
  "unpack_row bitmasks ws = concat (map (\<lambda>w. map (\<lambda>m. and w m \<noteq> 0) bitmasks) ws)"

definition apply_grammar_bitmask ::
  "nat \<Rightarrow> fl list list \<Rightarrow> 32 word list list \<Rightarrow> 32 word list \<Rightarrow> fl list list res" where
  "apply_grammar_bitmask vocab logits grammar_bitmask bitmasks =
     rbind (rguard (length grammar_bitmask = length logits) RuntimeError) (\<lambda>_.
     rmap (\<lambda>(row, ws). let allowed = take vocab (unpack_row bitmasks ws)
        in rbind (rguard (length allowed = length row) RuntimeError) (\<lambda>_.
           Inr (map2 (\<lambda>a x. if a then x else NegInf) allowed row)))
       (zip logits grammar_bitmask))"

definition structured_decode ::
  "nat \<Rightarrow> bool list list \<Rightarrow> 32 word list list \<Rightarrow> fl list list \<Rightarrow> 32 word list \<Rightarrow> fl list list res" where
  "structured_decode vocab require grammar_bitmask logits bitmasks =
     rbind (apply_grammar_bitmask vocab logits grammar_bitmask bitmasks) (\<lambda>masked.
     rbind (rguard (length require = length logits) RuntimeError) (\<lambda>_.
     Inr (map (\<lambda>(r, m, l). if hd r then m else l) (zip require (zip masked logits)))))"

section \<open>Spreading the words over the rows\<close>

text \<open>The state of the loop: the words of the rows, the rows that need them and \<open>cumulative_mask_idx\<close>.
  A request that is not in the batch is skipped with \<open>continue\<close>.\<close>

type_synonym spread = "32 word list list \<times> bool list list \<times> nat"

definition spread_step ::
  "(req_id, nat) dict \<Rightarrow> 32 word list list \<Rightarrow> spread \<Rightarrow> req_id \<Rightarrow> spread res" where
  "spread_step index grammar_bitmask st rid =
     (let (words, require, k) = st
      in case dget index rid of
           None \<Rightarrow> Inr st
         | Some i \<Rightarrow>
             rbind (lget grammar_bitmask k) (\<lambda>ws.
             rbind (lget words i) (\<lambda>row.
             rbind (slice_assign row 0 (length row) ws) (\<lambda>row.
             rbind (lset require i [True]) (\<lambda>require.
             Inr (words[i := row], require, k + 1))))))"

definition prepare_structured_decoding_input ::
  "nat \<Rightarrow> nat \<Rightarrow> 'bt input_batch \<Rightarrow> nat \<Rightarrow> req_id list \<Rightarrow> 32 word list list
     \<Rightarrow> (bool list list \<times> 32 word list list \<times> 32 word list) res" where
  "prepare_structured_decoding_input max_reqs width b rows ids grammar_bitmask =
     rbind (rfold (spread_step (req_id_to_index b) grammar_bitmask)
       (replicate max_reqs (replicate width 0), replicate max_reqs [False], 0) ids) (\<lambda>(words, require, _).
     Inr (take rows require, take rows words, structured_decode_bitmasks))"

text \<open>The two calls of \<open>sample_tokens\<close>; the buffers are \<open>max_num_reqs\<close> rows of \<open>cdiv(vocab, 32)\<close> words.\<close>

definition grammar_logits ::
  "nat \<Rightarrow> nat \<Rightarrow> nat \<Rightarrow> 'bt input_batch \<Rightarrow> req_id list \<Rightarrow> 32 word list list \<Rightarrow> fl list list \<Rightarrow> fl list list res" where
  "grammar_logits max_reqs width vocab b ids grammar_bitmask logits =
     rbind (prepare_structured_decoding_input max_reqs width b (length logits) ids grammar_bitmask)
       (\<lambda>(require, words, bitmasks). structured_decode vocab require words logits bitmasks)"

section \<open>The bits of a row\<close>

lemma and_push_bit_1: "and w (push_bit i 1) \<noteq> (0 :: 32 word) \<longleftrightarrow> bit w i"
proof
  assume "and w (push_bit i 1) \<noteq> 0"
  then obtain j where "bit (and w (push_bit i (1 :: 32 word))) j" by (auto simp: bit_eq_iff)
  then show "bit w i" by (auto simp: bit_simps)
next
  assume b: "bit w i"
  then have "i < 32" by (simp add: bit_word.rep_eq split: if_splits)
  then show "and w (push_bit i 1) \<noteq> 0" using b by (auto simp: bit_eq_iff bit_simps)
qed

lemma unpack_row_bit:
  assumes "t < 32 * length ws"
  shows "t < length (unpack_row structured_decode_bitmasks ws)"
    "unpack_row structured_decode_bitmasks ws ! t \<longleftrightarrow> bit (ws ! (t div 32)) (t mod 32)"
proof -
  let ?rows = "map (\<lambda>w. map (\<lambda>m. and w m \<noteq> 0) structured_decode_bitmasks) ws"
  have t: "t div 32 * 32 + t mod 32 = t" "t div 32 < length ws" using assms by simp_all
  then have "t < length (concat ?rows)" "concat ?rows ! t = ?rows ! (t div 32) ! (t mod 32)"
    using concat_cell [of ?rows 32 "t div 32" "t mod 32"] by (simp_all add: structured_decode_bitmasks_def)
  then show "t < length (unpack_row structured_decode_bitmasks ws)"
    "unpack_row structured_decode_bitmasks ws ! t \<longleftrightarrow> bit (ws ! (t div 32)) (t mod 32)"
    using t(2) by (simp_all add: unpack_row_def structured_decode_bitmasks_def and_push_bit_1 [simplified])
qed

lemma apply_grammar_bitmask_ok:
  assumes "length gb = length logits" "\<forall>row \<in> set logits. length row = vocab"
    "\<forall>ws \<in> set gb. vocab \<le> 32 * length ws"
  shows "\<exists>out. apply_grammar_bitmask vocab logits gb structured_decode_bitmasks = Inr out \<and> length out = length logits
    \<and> (\<forall>i < length logits. length (out ! i) = vocab \<and> (\<forall>t < vocab.
         out ! i ! t = (if bit (gb ! i ! (t div 32)) (t mod 32) then logits ! i ! t else NegInf)))"
proof -
  define G where "G = (\<lambda>(row, ws). map2 (\<lambda>a x. if a then x else NegInf)
      (take vocab (unpack_row structured_decode_bitmasks ws)) row)"
  have len: "length (unpack_row structured_decode_bitmasks ws) = 32 * length ws" for ws
    by (simp add: unpack_row_def structured_decode_bitmasks_def length_concat comp_def sum_list_triv)
  have "rmap (\<lambda>(row, ws). let allowed = take vocab (unpack_row structured_decode_bitmasks ws)
        in rbind (rguard (length allowed = length row) RuntimeError) (\<lambda>_.
           Inr (map2 (\<lambda>a x. if a then x else NegInf) allowed row))) (zip logits gb) = Inr (map G (zip logits gb))"
    using assms by (intro rmap_all) (auto simp: G_def len Let_def in_set_zip)
  then have run: "apply_grammar_bitmask vocab logits gb structured_decode_bitmasks = Inr (map G (zip logits gb))"
    using assms(1) by (simp add: apply_grammar_bitmask_def)
  have "length (G (logits ! i, gb ! i)) = vocab \<and> (\<forall>t < vocab.
      G (logits ! i, gb ! i) ! t = (if bit (gb ! i ! (t div 32)) (t mod 32) then logits ! i ! t else NegInf))"
    if i: "i < length logits" for i
  proof -
    have l: "length (logits ! i) = vocab" "vocab \<le> 32 * length (gb ! i)" using i assms by simp_all
    then show ?thesis using unpack_row_bit [of _ "gb ! i"] by (simp add: G_def len)
  qed
  then show ?thesis using run assms(1) by simp
qed

section \<open>The rows of the structured requests\<close>

text \<open>The requests of the batch take the rows of the bitmask in turn; a request that is not in the
  batch takes none.\<close>

lemma spread_present:
  fixes index :: "(req_id, nat) dict"
  defines "here \<equiv> filter (\<lambda>r. dget index r \<noteq> None)"
  assumes inj: "\<And>r r' i. dget index r = Some i \<Longrightarrow> dget index r' = Some i \<Longrightarrow> r = r'"
    and rng: "\<And>r i. dget index r = Some i \<Longrightarrow> i < n" and gb: "\<forall>ws \<in> set gb. length ws = width"
    and "length (here ids) \<le> length gb" "distinct ids"
  shows "\<exists>words req. rfold (spread_step index gb) (replicate n (replicate width 0), replicate n [False], 0) ids
      = Inr (words, req, length (here ids))
    \<and> length words = n \<and> length req = n \<and> (\<forall>row \<in> set words. length row = width)
    \<and> (\<forall>k < length (here ids). \<forall>i. dget index (here ids ! k) = Some i \<longrightarrow> words ! i = gb ! k \<and> req ! i = [True])
    \<and> (\<forall>i < n. (\<forall>r \<in> set ids. dget index r \<noteq> Some i) \<longrightarrow> req ! i = [False])"
  using assms(5,6)
proof (induction ids rule: rev_induct)
  case Nil
  then show ?case by (auto simp: here_def)
next
  case (snoc r ids)
  have pre: "length (here ids) \<le> length gb" "distinct ids" using snoc.prems by (auto simp: here_def)
  obtain words req where IH: "rfold (spread_step index gb) (replicate n (replicate width 0), replicate n [False], 0) ids
      = Inr (words, req, length (here ids))" "length words = n" "length req = n" "\<forall>row \<in> set words. length row = width"
    "\<forall>k < length (here ids). \<forall>i. dget index (here ids ! k) = Some i \<longrightarrow> words ! i = gb ! k \<and> req ! i = [True]"
    "\<forall>i < n. (\<forall>r \<in> set ids. dget index r \<noteq> Some i) \<longrightarrow> req ! i = [False]"
    using snoc.IH [OF pre] by blast
  show ?case
  proof (cases "dget index r")
    case None
    then have "here (ids @ [r]) = here ids" by (simp add: here_def)
    moreover have "spread_step index gb (words, req, length (here ids)) r = Inr (words, req, length (here ids))"
      using None by (simp add: spread_step_def)
    ultimately show ?thesis using IH None by (simp add: rfold_append)
  next
    case (Some i)
    then have h: "here (ids @ [r]) = here ids @ [r]" by (simp add: here_def)
    have i: "i < n" using rng [OF Some] .
    have k: "length (here ids) < length gb" using snoc.prems(1) h by simp
    have gk: "length (gb ! length (here ids)) = width" "length (words ! i) = width"
      using gb k IH(2,4) i by simp_all
    have step: "spread_step index gb (words, req, length (here ids)) r
        = Inr (words[i := gb ! length (here ids)], req[i := [True]], length (here ids) + 1)"
      using Some k i gk IH(2,3) by (simp add: spread_step_def slice_assign_def)
    have other: "dget index r' \<noteq> Some i" if "r' \<in> set ids" for r'
      using inj [OF Some] that snoc.prems(2) by fastforce
    have "\<forall>row \<in> set (words[i := gb ! length (here ids)]). length row = width"
      using IH(4) gk(1) by (metis insert_iff set_update_subset_insert subset_iff)
    moreover have "\<forall>k < length (here (ids @ [r])). \<forall>j. dget index (here (ids @ [r]) ! k) = Some j
        \<longrightarrow> words[i := gb ! length (here ids)] ! j = gb ! k \<and> req[i := [True]] ! j = [True]"
    proof (intro allI impI)
      fix k j assume k: "k < length (here (ids @ [r]))" and j: "dget index (here (ids @ [r]) ! k) = Some j"
      show "words[i := gb ! length (here ids)] ! j = gb ! k \<and> req[i := [True]] ! j = [True]"
      proof (cases "k < length (here ids)")
        case True
        then have m: "here ids ! k \<in> set ids" using nth_mem [of k "here ids"] by (auto simp: here_def)
        have j': "dget index (here ids ! k) = Some j" using j True by (simp add: h nth_append)
        have "j \<noteq> i" using other [OF m] j' by auto
        then show ?thesis using IH(5) True j' by simp
      next
        case False
        then have "k = length (here ids)" "j = i" using k j Some by (simp_all add: h nth_append)
        then show ?thesis using i IH(2,3) by simp
      qed
    qed
    moreover have "\<forall>j < n. (\<forall>r' \<in> set (ids @ [r]). dget index r' \<noteq> Some j) \<longrightarrow> req[i := [True]] ! j = [False]"
      using IH(6) Some by (auto simp: nth_list_update)
    ultimately show ?thesis using IH(1-3) step h by (simp add: rfold_append)
  qed
qed

text \<open>Which words decide about a row, in general: those of the position of the request among the
  structured requests of the batch.\<close>

lemma grammar_logits_present:
  defines "here \<equiv> (\<lambda>b. filter (\<lambda>r. dget (req_id_to_index b) r \<noteq> None))"
  assumes inv: "batch_inv b" and "distinct ids" "length (here b ids) \<le> length gb" "\<forall>ws \<in> set gb. length ws = width"
    and "vocab \<le> 32 * width" "length logits = max_num_reqs b" "\<forall>row \<in> set logits. length row = vocab"
  shows "\<exists>out. grammar_logits (max_num_reqs b) width vocab b ids gb logits = Inr out \<and> length out = length logits
    \<and> (\<forall>k < length (here b ids). \<forall>i t. dget (req_id_to_index b) (here b ids ! k) = Some i \<longrightarrow> t < vocab \<longrightarrow>
         out ! i ! t = (if bit (gb ! k ! (t div 32)) (t mod 32) then logits ! i ! t else NegInf))
    \<and> (\<forall>i < length logits. (\<forall>r \<in> set ids. dget (req_id_to_index b) r \<noteq> Some i) \<longrightarrow> out ! i = logits ! i)"
proof -
  have ix: "dget (req_id_to_index b) r = Some i \<longleftrightarrow> i < length (req_ids b) \<and> req_ids b ! i = Some r" for r i
    using inv by (simp add: batch_inv_def)
  have rng: "i < max_num_reqs b" if "dget (req_id_to_index b) r = Some i" for r i
    using that inv unfolding ix by (simp add: batch_inv_def)
  obtain words req where sp: "rfold (spread_step (req_id_to_index b) gb)
      (replicate (max_num_reqs b) (replicate width 0), replicate (max_num_reqs b) [False], 0) ids
      = Inr (words, req, length (here b ids))" "length words = max_num_reqs b" "length req = max_num_reqs b"
    "\<forall>row \<in> set words. length row = width"
    "\<forall>k < length (here b ids). \<forall>i. dget (req_id_to_index b) (here b ids ! k) = Some i \<longrightarrow> words ! i = gb ! k \<and> req ! i = [True]"
    "\<forall>i < max_num_reqs b. (\<forall>r \<in> set ids. dget (req_id_to_index b) r \<noteq> Some i) \<longrightarrow> req ! i = [False]"
    using spread_present [of "req_id_to_index b" "max_num_reqs b" gb width ids] ix rng assms(3-5)
    unfolding here_def by fastforce
  obtain masked where mk: "apply_grammar_bitmask vocab logits words structured_decode_bitmasks = Inr masked"
    "length masked = length logits"
    "\<And>i. i < length logits \<Longrightarrow> length (masked ! i) = vocab \<and> (\<forall>t < vocab.
       masked ! i ! t = (if bit (words ! i ! (t div 32)) (t mod 32) then logits ! i ! t else NegInf))"
    using apply_grammar_bitmask_ok [of words logits vocab] sp(2,4) assms(6-8) by auto
  define out where "out = map (\<lambda>(r, m, l). if hd r then m else l) (zip req (zip masked logits))"
  have run: "grammar_logits (max_num_reqs b) width vocab b ids gb logits = Inr out"
    using sp(1-3) mk(1) assms(7)
    by (simp add: grammar_logits_def prepare_structured_decoding_input_def structured_decode_def out_def)
  have nth: "out ! i = (if hd (req ! i) then masked ! i else logits ! i)" if "i < length logits" for i
    using that sp(3) mk(2) assms(7) by (simp add: out_def)
  have "length out = length logits" using sp(3) mk(2) assms(7) by (simp add: out_def)
  moreover have "out ! i ! t = (if bit (gb ! k ! (t div 32)) (t mod 32) then logits ! i ! t else NegInf)"
    if "k < length (here b ids)" "dget (req_id_to_index b) (here b ids ! k) = Some i" "t < vocab" for k i t
  proof -
    have "i < length logits" using rng [OF that(2)] assms(7) by simp
    then show ?thesis using nth mk(3) sp(5) that by simp
  qed
  moreover have "out ! i = logits ! i" if "i < length logits" "\<forall>r \<in> set ids. dget (req_id_to_index b) r \<noteq> Some i" for i
    using nth [OF that(1)] sp(6) that assms(7) by simp
  ultimately show ?thesis using run by blast
qed

text \<open>C26. Structured decoding allows exactly the tokens of the grammar: when every structured request is
  in the batch, token \<open>t\<close> of request \<open>k\<close> keeps its logit if bit \<open>t mod 32\<close> of word \<open>t div 32\<close> of row \<open>k\<close>
  of the bitmask is set and gets minus infinity otherwise; the other rows keep all logits.\<close>

theorem grammar_masks_exactly:
  assumes "batch_inv b" and "distinct ids" and "\<forall>r \<in> set ids. dget (req_id_to_index b) r \<noteq> None"
    and "length ids \<le> length gb" and "\<forall>ws \<in> set gb. length ws = width" and "vocab \<le> 32 * width"
    and "length logits = max_num_reqs b" and "\<forall>row \<in> set logits. length row = vocab"
  shows "\<exists>out. grammar_logits (max_num_reqs b) width vocab b ids gb logits = Inr out \<and> length out = length logits
    \<and> (\<forall>k < length ids. \<forall>i t. dget (req_id_to_index b) (ids ! k) = Some i \<longrightarrow> t < vocab \<longrightarrow>
         out ! i ! t = (if bit (gb ! k ! (t div 32)) (t mod 32) then logits ! i ! t else NegInf))
    \<and> (\<forall>i < length logits. (\<forall>r \<in> set ids. dget (req_id_to_index b) r \<noteq> Some i) \<longrightarrow> out ! i = logits ! i)"
proof -
  have "filter (\<lambda>r. dget (req_id_to_index b) r \<noteq> None) ids = ids" using assms(3) by (simp add: filter_id_conv)
  then show ?thesis using grammar_logits_present [OF assms(1,2), of gb width vocab logits] assms(4-8) by simp
qed

theorem grammar_masks_exactly_witness:
  "\<exists>out. grammar_logits 3 1 8 ex_step_batch [''b''] [[5]] (replicate 3 (replicate 8 (Fin 1))) = Inr out
    \<and> out ! 1 ! 2 = Fin 1 \<and> out ! 1 ! 1 = NegInf \<and> out ! 0 = replicate 8 (Fin 1)"
proof -
  have inv: "batch_inv ex_step_batch" using ex_step_ready by (simp add: step_ready_def)
  have n: "max_num_reqs ex_step_batch = 3" "req_id_to_index ex_step_batch = [(''a'', 0), (''b'', 1)]"
    by (simp_all add: ex_step_batch_def new_input_batch_def Let_def)
  have bits: "bit (5 :: 32 word) 2" "\<not> bit (5 :: 32 word) 1" by simp_all
  obtain out where out: "grammar_logits 3 1 8 ex_step_batch [''b''] [[5]] (replicate 3 (replicate 8 (Fin 1))) = Inr out"
    "\<forall>k < length [''b'']. \<forall>i t. dget (req_id_to_index ex_step_batch) ([''b''] ! k) = Some i \<longrightarrow> t < 8 \<longrightarrow>
       out ! i ! t = (if bit ([[5 :: 32 word]] ! k ! (t div 32)) (t mod 32)
          then replicate 3 (replicate 8 (Fin 1)) ! i ! t else NegInf)"
    "\<forall>i < 3. (\<forall>r \<in> set [''b'']. dget (req_id_to_index ex_step_batch) r \<noteq> Some i)
       \<longrightarrow> out ! i = replicate 3 (replicate 8 (Fin 1)) ! i"
    using grammar_masks_exactly [OF inv, of "[''b'']" "[[5]]" 1 8 "replicate 3 (replicate 8 (Fin 1))"] n by auto
  have "out ! 1 ! t = (if bit (5 :: 32 word) t then Fin 1 else NegInf)" if "t < 8" for t
    using out(2) [rule_format, of 0 1 t] that n(2) by simp
  then have "out ! 1 ! 2 = Fin 1" "out ! 1 ! 1 = NegInf" using bits by simp_all
  moreover have "out ! 0 = replicate 8 (Fin 1)" using out(3) [rule_format, of 0] n(2) by simp
  ultimately show ?thesis using out(1) by blast
qed

text \<open>A structured request that is not in the batch shifts the words of the requests after it: here the
  second request is masked with the words of the first one, which was skipped.\<close>

lemma absent_request_shifts_masks:
  assumes "batch_inv b" "x \<noteq> r" "dget (req_id_to_index b) x = None" "dget (req_id_to_index b) r = Some i"
    and "\<forall>ws \<in> set [gx, gr]. length ws = width" "vocab \<le> 32 * width"
    and "length logits = max_num_reqs b" "\<forall>row \<in> set logits. length row = vocab" "t < vocab"
  shows "\<exists>out. grammar_logits (max_num_reqs b) width vocab b [x, r] [gx, gr] logits = Inr out
    \<and> out ! i ! t = (if bit (gx ! (t div 32)) (t mod 32) then logits ! i ! t else NegInf)"
  using grammar_logits_present [OF assms(1), of "[x, r]" "[gx, gr]" width vocab logits] assms(2-9) by auto

end
