(* ===== verification/PromptLogprobs.thy ===== *)
theory PromptLogprobs
  imports RunnerState SlotMapping
begin

text \<open>
  Log-probabilities of the prompt: method \<open>_get_prompt_logprobs_dict\<close> of
  \<open>vllm_tt/model_runner.py\<close>. A prompt may be computed over several steps, and the positions of one
  step are sent through the compiled graphs in batches of \<open>max_num_reqs\<close> rows, through zeroed buffers.
  The tensors of a request are kept in \<open>in_progress_prompt_logprobs_cpu\<close> until the prompt is done.

  \<open>gather\<close> stands for the compiled \<open>compute_logits\<close> and \<open>gather_logprobs\<close> applied to the two buffers:
  per row the token ids, the log-probabilities and the rank. \<open>blank\<close> is vLLM's
  \<open>LogprobsTensors.empty_cpu\<close>. The dictionary of results and \<open>in_progress\<close> hold the same tensor
  object in the code, which is filled in place; here the filled value is stored in both.
\<close>

section \<open>The batches of one request\<close>

type_synonym 'h gather = "'h list \<Rightarrow> int list \<Rightarrow> (int list \<times> rat list \<times> int) list"

text \<open>\<open>range(0, n, step)\<close>.\<close>

definition py_range :: "nat \<Rightarrow> nat \<Rightarrow> nat list res" where
  "py_range n step =
     (if step = 0 then Inl ValueError else Inr (map (\<lambda>k. k * step) [0..<(n + step - 1) div step]))"

definition fill_batch ::
  "'h gather \<Rightarrow> 'h \<Rightarrow> nat \<Rightarrow> nat \<Rightarrow> nat \<Rightarrow> nat \<Rightarrow> 'h list \<Rightarrow> int list
     \<Rightarrow> logprobs_tensors \<Rightarrow> nat \<Rightarrow> logprobs_tensors res" where
  "fill_batch gather zero max_reqs num_plp start_idx num_logits hs targets lt batch_start =
     (let batch_end = min (batch_start + max_reqs) num_logits; batch_size = batch_end - batch_start
      in rbind (slice_assign (replicate max_reqs zero) 0 batch_size (slice hs batch_start batch_end)) (\<lambda>hs_buf.
         rbind (slice_assign (replicate max_reqs 0) 0 batch_size (slice targets batch_start batch_end)) (\<lambda>tgt_buf.
         let rows = take batch_size (gather hs_buf tgt_buf);
             a = start_idx + batch_start; z = start_idx + batch_end
         in rbind (slice_assign (lt_token_ids lt) a z (map (\<lambda>(ids, _, _). take (num_plp + 1) ids) rows)) (\<lambda>ids.
            rbind (slice_assign (lt_logprobs lt) a z (map (\<lambda>(_, lps, _). take (num_plp + 1) lps) rows)) (\<lambda>lps.
            rbind (slice_assign (lt_ranks lt) a z (map (\<lambda>(_, _, r). r) rows)) (\<lambda>ranks.
            Inr \<lparr> lt_token_ids = ids, lt_logprobs = lps, lt_ranks = ranks \<rparr>))))))"

definition fill_request ::
  "'h gather \<Rightarrow> 'h \<Rightarrow> nat \<Rightarrow> nat \<Rightarrow> nat \<Rightarrow> nat \<Rightarrow> 'h list \<Rightarrow> int list
     \<Rightarrow> logprobs_tensors \<Rightarrow> logprobs_tensors res" where
  "fill_request gather zero max_reqs num_plp start_idx num_logits hs prompt lt =
     (let targets = slice prompt (start_idx + 1) (start_idx + 1 + num_logits)
      in rbind (py_range num_logits max_reqs) (\<lambda>starts.
         rfold (fill_batch gather zero max_reqs num_plp start_idx num_logits (take num_logits hs) targets) lt starts))"

section \<open>The requests\<close>

text \<open>The tensors in progress, the results and the finished requests.\<close>

type_synonym plp_state =
  "(req_id, logprobs_tensors) dict \<times> (req_id, logprobs_tensors) dict \<times> req_id list"

definition plp_request ::
  "'h gather \<Rightarrow> 'h \<Rightarrow> (nat \<Rightarrow> nat \<Rightarrow> logprobs_tensors) \<Rightarrow> nat \<Rightarrow> int \<Rightarrow> (req_id, cached_request) dict
     \<Rightarrow> (req_id, nat) dict \<Rightarrow> (req_id, nat) dict \<Rightarrow> (nat, 'h list) dict
     \<Rightarrow> plp_state \<Rightarrow> req_id \<times> int \<Rightarrow> plp_state res" where
  "plp_request gather zero blank max_reqs max_logprobs requests index scheduled prompt_lp_hs st item =
     (let (in_progress, result, completed) = st; (rid, plp) = item; num_plp = nat (min plp max_logprobs)
      in rbind (ditem requests rid) (\<lambda>request.
         case (dget scheduled rid, cr_prompt_token_ids request) of
           (Some ntok, Some prompt) \<Rightarrow>
             (let lt = (case dget in_progress rid of
                          Some lt \<Rightarrow> lt | None \<Rightarrow> blank (length prompt - 1) (num_plp + 1));
                  start_idx = cr_num_computed_tokens request;
                  num_remaining = int (length prompt) - int (start_idx + 1);
                  finished = \<not> int ntok \<le> num_remaining;
                  num_logits = (if finished then num_remaining else int ntok);
                  done = (\<lambda>lt. (dset in_progress rid lt,
                               if finished then dset result rid lt else result,
                               if finished then completed @ [rid] else completed))
              in if num_logits \<le> 0 then Inr (done lt)
                 else rbind (ditem index rid) (\<lambda>i.
                   case dget prompt_lp_hs i of
                     None \<Rightarrow> Inl AssertionError
                   | Some hs \<Rightarrow>
                       rbind (fill_request gather zero max_reqs num_plp start_idx (nat num_logits) hs prompt lt)
                         (\<lambda>lt. Inr (done lt))))
         | _ \<Rightarrow> Inr st))"

text \<open>The finished requests leave both dictionaries.\<close>

definition get_prompt_logprobs_dict ::
  "'h gather \<Rightarrow> 'h \<Rightarrow> (nat \<Rightarrow> nat \<Rightarrow> logprobs_tensors) \<Rightarrow> int \<Rightarrow> (req_id, nat) dict \<Rightarrow> (nat, 'h list) dict
     \<Rightarrow> 'bt runner_state \<Rightarrow> ((req_id, logprobs_tensors) dict \<times> 'bt runner_state) res" where
  "get_prompt_logprobs_dict gather zero blank max_logprobs scheduled prompt_lp_hs s =
     (if rs_num_prompt_logprobs s = [] then Inr ([], s)
      else rbind (rfold (plp_request gather zero blank (max_num_reqs (rs_batch s)) max_logprobs (rs_requests s)
                   (req_id_to_index (rs_batch s)) scheduled prompt_lp_hs)
                 (in_progress_prompt_logprobs (rs_batch s), [], []) (rs_num_prompt_logprobs s))
       (\<lambda>(in_progress, result, completed).
         Inr (result, s\<lparr>rs_num_prompt_logprobs := fold (\<lambda>r d. dpop d r) completed (rs_num_prompt_logprobs s),
                        rs_batch := (rs_batch s)\<lparr>in_progress_prompt_logprobs :=
                          fold (\<lambda>r d. dpop d r) completed in_progress\<rparr>\<rparr>)))"

section \<open>Batches and rows\<close>

definition lt_sized :: "nat \<Rightarrow> logprobs_tensors \<Rightarrow> bool" where
  "lt_sized n lt \<longleftrightarrow> length (lt_token_ids lt) = n \<and> length (lt_logprobs lt) = n \<and> length (lt_ranks lt) = n"

definition lt_row :: "logprobs_tensors \<Rightarrow> nat \<Rightarrow> int list \<times> rat list \<times> int" where
  "lt_row lt j = (lt_token_ids lt ! j, lt_logprobs lt ! j, lt_ranks lt ! j)"

definition trimmed :: "nat \<Rightarrow> int list \<times> rat list \<times> int \<Rightarrow> int list \<times> rat list \<times> int" where
  "trimmed num_plp r = (case r of (ids, lps, rank) \<Rightarrow> (take (num_plp + 1) ids, take (num_plp + 1) lps, rank))"

text \<open>The graphs work row by row.\<close>

definition rowwise :: "'h gather \<Rightarrow> ('h \<Rightarrow> int \<Rightarrow> int list \<times> rat list \<times> int) \<Rightarrow> bool" where
  "rowwise gather g \<longleftrightarrow> (\<forall>hs ts. length hs = length ts \<longrightarrow> gather hs ts = map2 g hs ts)"

lemma slice_assign_nth:
  assumes "a \<le> z" "z \<le> n" "length row = n" "length vs = z - a"
  shows "\<exists>row'. slice_assign row a z vs = Inr row' \<and> length row' = n
    \<and> (\<forall>j < n. row' ! j = (if a \<le> j \<and> j < z then vs ! (j - a) else row ! j))"
  using slice_assign_fits [of a z row vs] nth_take_mid_drop [of a z row vs] assms by auto

lemma fill_batch_rows:
  assumes g: "rowwise gather g" and "batch_start < num_logits" "0 < max_reqs"
    and sz: "lt_sized n lt" "start_idx + num_logits \<le> n" "length hs = num_logits" "length targets = num_logits"
  defines "batch_end \<equiv> min (batch_start + max_reqs) num_logits"
  shows "\<exists>lt'. fill_batch gather zero max_reqs num_plp start_idx num_logits hs targets lt batch_start = Inr lt'
    \<and> lt_sized n lt'
    \<and> (\<forall>j < n. lt_row lt' j = (if start_idx + batch_start \<le> j \<and> j < start_idx + batch_end
         then trimmed num_plp (g (hs ! (j - start_idx)) (targets ! (j - start_idx))) else lt_row lt j))"
proof -
  define size where "size = batch_end - batch_start"
  have be: "batch_start < batch_end" "batch_end \<le> num_logits" "size \<le> max_reqs" "batch_start + size = batch_end"
    using assms(2,3) by (auto simp: batch_end_def size_def)
  define hb where "hb = slice hs batch_start batch_end @ replicate (max_reqs - size) zero"
  define tb where "tb = slice targets batch_start batch_end @ replicate (max_reqs - size) 0"
  have len: "length (slice hs batch_start batch_end) = size" "length (slice targets batch_start batch_end) = size"
    using be sz by (simp_all add: size_def)
  have buf: "slice_assign (replicate max_reqs zero) 0 size (slice hs batch_start batch_end) = Inr hb"
    "slice_assign (replicate max_reqs 0) 0 size (slice targets batch_start batch_end) = Inr tb"
    using be(3) len by (simp_all add: slice_assign_fits hb_def tb_def)
  have lb: "length hb = max_reqs" "length tb = max_reqs" using len be(3) by (simp_all add: hb_def tb_def)
  define rows where "rows = take size (gather hb tb)"
  have rl: "length rows = size" using g lb be(3) by (simp add: rows_def rowwise_def)
  have rn: "rows ! i = g (hs ! (batch_start + i)) (targets ! (batch_start + i))" if i: "i < size" for i
  proof -
    have "hb ! i = hs ! (batch_start + i)" "tb ! i = targets ! (batch_start + i)"
      using i len be sz by (simp_all add: hb_def tb_def nth_append)
    then show ?thesis using g lb i be(3) by (simp add: rows_def rowwise_def)
  qed
  let ?a = "start_idx + batch_start" and ?z = "start_idx + batch_end"
  have az: "?a \<le> ?z" "?z \<le> n" "?z - ?a = size" using be sz(2) by (auto simp: size_def)
  obtain ids where ids: "slice_assign (lt_token_ids lt) ?a ?z (map (\<lambda>(ids, _, _). take (num_plp + 1) ids) rows) = Inr ids"
    "length ids = n" "\<forall>j < n. ids ! j = (if ?a \<le> j \<and> j < ?z
        then map (\<lambda>(ids, _, _). take (num_plp + 1) ids) rows ! (j - ?a) else lt_token_ids lt ! j)"
    using slice_assign_nth [OF az(1,2), of "lt_token_ids lt" "map (\<lambda>(ids, _, _). take (num_plp + 1) ids) rows"] az(3) rl sz(1) unfolding lt_sized_def length_map by blast
  obtain lps where lps: "slice_assign (lt_logprobs lt) ?a ?z (map (\<lambda>(_, lps, _). take (num_plp + 1) lps) rows) = Inr lps"
    "length lps = n" "\<forall>j < n. lps ! j = (if ?a \<le> j \<and> j < ?z
        then map (\<lambda>(_, lps, _). take (num_plp + 1) lps) rows ! (j - ?a) else lt_logprobs lt ! j)"
    using slice_assign_nth [OF az(1,2), of "lt_logprobs lt" "map (\<lambda>(_, lps, _). take (num_plp + 1) lps) rows"] az(3) rl sz(1) unfolding lt_sized_def length_map by blast
  obtain ranks where ranks: "slice_assign (lt_ranks lt) ?a ?z (map (\<lambda>(_, _, r). r) rows) = Inr ranks"
    "length ranks = n" "\<forall>j < n. ranks ! j = (if ?a \<le> j \<and> j < ?z
        then map (\<lambda>(_, _, r). r) rows ! (j - ?a) else lt_ranks lt ! j)"
    using slice_assign_nth [OF az(1,2), of "lt_ranks lt" "map (\<lambda>(_, _, r). r) rows"] az(3) rl sz(1) unfolding lt_sized_def length_map by blast
  define lt' where "lt' = \<lparr> lt_token_ids = ids, lt_logprobs = lps, lt_ranks = ranks \<rparr>"
  have run: "fill_batch gather zero max_reqs num_plp start_idx num_logits hs targets lt batch_start = Inr lt'"
    using buf ids(1) lps(1) ranks(1)
    by (simp add: fill_batch_def Let_def batch_end_def [symmetric] size_def [symmetric] rows_def [symmetric] lt'_def)
  have "lt_row lt' j = (if ?a \<le> j \<and> j < ?z
      then trimmed num_plp (g (hs ! (j - start_idx)) (targets ! (j - start_idx))) else lt_row lt j)" if j: "j < n" for j
  proof (cases "?a \<le> j \<and> j < ?z")
    case True
    then have i: "j - ?a < size" "batch_start + (j - ?a) = j - start_idx" "j - ?a < length rows"
      using az rl by auto
    then show ?thesis using True ids(3) lps(3) ranks(3) j rn [OF i(1)]
      by (simp add: lt'_def lt_row_def trimmed_def split: prod.splits)
  next
    case False
    then show ?thesis using ids(3) lps(3) ranks(3) j by (auto simp: lt'_def lt_row_def)
  qed
  then show ?thesis using run ids(2) lps(2) ranks(2) by (simp add: lt_sized_def lt'_def)
qed

lemma fill_request_rows:
  assumes "rowwise gather g" "0 < max_reqs" "lt_sized n lt" "start_idx + num_logits \<le> n"
    "num_logits \<le> length hs" "start_idx + num_logits < length prompt"
  shows "\<exists>lt'. fill_request gather zero max_reqs num_plp start_idx num_logits hs prompt lt = Inr lt' \<and> lt_sized n lt'
    \<and> (\<forall>j < n. lt_row lt' j = (if start_idx \<le> j \<and> j < start_idx + num_logits
         then trimmed num_plp (g (hs ! (j - start_idx)) (prompt ! (j + 1))) else lt_row lt j))"
proof -
  define targets where "targets = slice prompt (start_idx + 1) (start_idx + 1 + num_logits)"
  define F where "F = fill_batch gather zero max_reqs num_plp start_idx num_logits (take num_logits hs) targets"
  have len: "length (take num_logits hs) = num_logits" "length targets = num_logits"
    using assms(5,6) by (simp_all add: targets_def)
  have tgt: "targets ! (j - start_idx) = prompt ! (j + 1)" if "start_idx \<le> j" "j < start_idx + num_logits" for j
  proof -
    have "j - start_idx < num_logits" "start_idx + 1 + (j - start_idx) = j + 1" using that by auto
    then show ?thesis using assms(6) by (simp add: targets_def)
  qed
  have "\<exists>lt'. rfold F lt (map (\<lambda>k. k * max_reqs) [0..<c]) = Inr lt' \<and> lt_sized n lt'
      \<and> (\<forall>j < n. lt_row lt' j = (if start_idx \<le> j \<and> j < start_idx + min (c * max_reqs) num_logits
         then trimmed num_plp (g (hs ! (j - start_idx)) (prompt ! (j + 1))) else lt_row lt j))"
    if "c \<le> (num_logits + max_reqs - 1) div max_reqs" for c
    using that
  proof (induction c)
    case 0
    have "\<not> (start_idx \<le> j \<and> j < start_idx + min (0 * max_reqs) num_logits)" for j by simp
    then show ?case using assms(3) by (simp only: if_False) simp
  next
    case (Suc c)
    then obtain lt1 where IH: "rfold F lt (map (\<lambda>k. k * max_reqs) [0..<c]) = Inr lt1" "lt_sized n lt1"
      "\<forall>j < n. lt_row lt1 j = (if start_idx \<le> j \<and> j < start_idx + min (c * max_reqs) num_logits
         then trimmed num_plp (g (hs ! (j - start_idx)) (prompt ! (j + 1))) else lt_row lt j)" by auto
    have "Suc c * max_reqs \<le> (num_logits + max_reqs - 1) div max_reqs * max_reqs"
      using Suc.prems by (rule mult_le_mono1)
    also have "\<dots> \<le> num_logits + max_reqs - 1" by simp
    finally have lt: "c * max_reqs < num_logits" using assms(2) by simp
    obtain lt2 where B: "F lt1 (c * max_reqs) = Inr lt2" "lt_sized n lt2"
      "\<forall>j < n. lt_row lt2 j = (if start_idx + c * max_reqs \<le> j \<and> j < start_idx + min (c * max_reqs + max_reqs) num_logits
         then trimmed num_plp (g (take num_logits hs ! (j - start_idx)) (targets ! (j - start_idx))) else lt_row lt1 j)"
      using fill_batch_rows [OF assms(1) lt assms(2) IH(2) assms(4) len, of zero num_plp] by (auto simp: F_def)
    have "lt_row lt2 j = (if start_idx \<le> j \<and> j < start_idx + min (Suc c * max_reqs) num_logits
         then trimmed num_plp (g (hs ! (j - start_idx)) (prompt ! (j + 1))) else lt_row lt j)" if j: "j < n" for j
    proof (cases "start_idx + c * max_reqs \<le> j \<and> j < start_idx + min (c * max_reqs + max_reqs) num_logits")
      case True
      then have "start_idx \<le> j" "j < start_idx + num_logits" "j - start_idx < num_logits" by auto
      then show ?thesis using True B(3) j tgt by (simp add: add.commute)
    next
      case False
      then have E: "(start_idx \<le> j \<and> j < start_idx + min (Suc c * max_reqs) num_logits)
          \<longleftrightarrow> (start_idx \<le> j \<and> j < start_idx + min (c * max_reqs) num_logits)"
        using lt by auto
      have "lt_row lt2 j = lt_row lt1 j" using B(3) [rule_format, OF j] unfolding if_not_P [OF False] .
      then show ?thesis unfolding E using IH(3) [rule_format, OF j] by (simp only:)
    qed
    then show ?case using IH(1) B(1,2) by (simp add: rfold_append)
  qed
  from this [OF order_refl] obtain lt' where r: "rfold F lt (map (\<lambda>k. k * max_reqs) [0..<(num_logits + max_reqs - 1) div max_reqs]) = Inr lt'"
    "lt_sized n lt'" "\<forall>j < n. lt_row lt' j = (if start_idx \<le> j
        \<and> j < start_idx + min ((num_logits + max_reqs - 1) div max_reqs * max_reqs) num_logits
         then trimmed num_plp (g (hs ! (j - start_idx)) (prompt ! (j + 1))) else lt_row lt j)" by blast
  have "num_logits + max_reqs - 1 < ((num_logits + max_reqs - 1) div max_reqs + 1) * max_reqs"
    using dividend_less_div_times [OF assms(2), of "num_logits + max_reqs - 1"] by simp
  then have "num_logits \<le> (num_logits + max_reqs - 1) div max_reqs * max_reqs" using assms(2) by simp
  then have full: "min ((num_logits + max_reqs - 1) div max_reqs * max_reqs) num_logits = num_logits" by simp
  have run: "fill_request gather zero max_reqs num_plp start_idx num_logits hs prompt lt = Inr lt'"
    using r(1) assms(2)
    by (simp only: fill_request_def py_range_def Let_def F_def targets_def less_imp_neq [THEN not_sym] if_False rbind.simps)
  show ?thesis using run r(2) r(3) [unfolded full] by (intro exI [of _ lt'] conjI)
qed

section \<open>The requests of a step\<close>

text \<open>The reference: row \<open>j\<close> says what the model's state at position \<open>j\<close> gives for the next token.\<close>

definition plp_row ::
  "('h \<Rightarrow> int \<Rightarrow> int list \<times> rat list \<times> int) \<Rightarrow> int \<Rightarrow> (nat \<Rightarrow> 'h) \<Rightarrow> int list \<Rightarrow> nat \<Rightarrow> int list \<times> rat list \<times> int" where
  "plp_row g plp H prompt j = trimmed (nat plp) (g (H j) (prompt ! (j + 1)))"

text \<open>A request whose tensors are right up to its position and whose hidden states of this step are
  those of its scheduled positions.\<close>

definition plp_ready ::
  "('h \<Rightarrow> int \<Rightarrow> int list \<times> rat list \<times> int) \<Rightarrow> (nat \<Rightarrow> nat \<Rightarrow> logprobs_tensors) \<Rightarrow> int \<Rightarrow> (nat \<Rightarrow> 'h) \<Rightarrow> (nat, 'h list) dict
     \<Rightarrow> (req_id, nat) dict \<Rightarrow> (req_id, logprobs_tensors) dict \<Rightarrow> cached_request \<Rightarrow> req_id \<Rightarrow> int \<Rightarrow> nat \<Rightarrow> int list \<Rightarrow> bool" where
  "plp_ready g blank max_logprobs H prompt_lp_hs index in_progress request rid plp n prompt \<longleftrightarrow>
     (let c = cr_num_computed_tokens request;
          lt = (case dget in_progress rid of Some lt \<Rightarrow> lt
                | None \<Rightarrow> blank (length prompt - 1) (nat (min plp max_logprobs) + 1))
      in cr_prompt_token_ids request = Some prompt \<and> lt_sized (length prompt - 1) lt
       \<and> (\<forall>j < length prompt - 1. j < c \<longrightarrow> lt_row lt j = plp_row g (min plp max_logprobs) H prompt j)
       \<and> (\<exists>i hs. dget index rid = Some i \<and> dget prompt_lp_hs i = Some hs \<and> n \<le> length hs
            \<and> (\<forall>k < n. hs ! k = H (c + k))))"

lemma plp_request_rows:
  assumes "rowwise gather g" "0 < max_reqs" "dget requests rid = Some request" "dget scheduled rid = Some n"
    and ready: "plp_ready g blank max_logprobs H prompt_lp_hs index ip request rid plp n prompt"
  defines "c \<equiv> cr_num_computed_tokens request" and "fin \<equiv> length prompt \<le> cr_num_computed_tokens request + n"
  shows "\<exists>lt. plp_request gather zero blank max_reqs max_logprobs requests index scheduled prompt_lp_hs (ip, result, completed) (rid, plp)
      = Inr (dset ip rid lt, if fin then dset result rid lt else result, if fin then completed @ [rid] else completed)
    \<and> (\<forall>j < length prompt - 1. j < c + n \<longrightarrow> lt_row lt j = plp_row g (min plp max_logprobs) H prompt j)"
proof -
  define lt0 where "lt0 = (case dget ip rid of Some lt \<Rightarrow> lt
      | None \<Rightarrow> blank (length prompt - 1) (nat (min plp max_logprobs) + 1))"
  obtain i hs where r: "cr_prompt_token_ids request = Some prompt" "lt_sized (length prompt - 1) lt0"
    "\<forall>j < length prompt - 1. j < c \<longrightarrow> lt_row lt0 j = plp_row g (min plp max_logprobs) H prompt j"
    "dget index rid = Some i" "dget prompt_lp_hs i = Some hs" "n \<le> length hs" "\<forall>k < n. hs ! k = H (c + k)"
    using ready by (auto simp: plp_ready_def lt0_def c_def Let_def)
  have fin: "(\<not> int n \<le> int (length prompt) - int (c + 1)) = fin" by (auto simp: fin_def c_def)
  define m where "m = (if fin then int (length prompt) - int (c + 1) else int n)"
  define D where "D = (\<lambda>lt. (dset ip rid lt, if fin then dset result rid lt else result,
      if fin then completed @ [rid] else completed))"
  have run: "plp_request gather zero blank max_reqs max_logprobs requests index scheduled prompt_lp_hs (ip, result, completed) (rid, plp)
      = (if m \<le> 0 then Inr (D lt0) else rbind (ditem index rid) (\<lambda>i. case dget prompt_lp_hs i of
           None \<Rightarrow> Inl AssertionError
         | Some hs \<Rightarrow> rbind (fill_request gather zero max_reqs (nat (min plp max_logprobs)) c (nat m) hs prompt lt0)
             (\<lambda>lt. Inr (D lt))))"
    by (simp only: plp_request_def Let_def prod.case ditem_def assms(3,4) r(1) option.case rbind.simps
        lt0_def [symmetric] c_def [symmetric] fin m_def [symmetric] D_def)
  show ?thesis
  proof (cases "m \<le> 0")
    case True
    have "\<forall>j < length prompt - 1. j < c + n \<longrightarrow> j < c"
      using True by (auto simp: m_def fin_def c_def split: if_splits)
    then show ?thesis using True r(3) unfolding run D_def by auto
  next
    case False
    have mm: "c + nat m \<le> length prompt - 1" "nat m \<le> n" "c + nat m < length prompt" "nat m \<le> length hs"
      using False r(6) by (auto simp: m_def fin_def c_def split: if_splits)
    have upto: "j < c + n \<longleftrightarrow> j < c + nat m" if "j < length prompt - 1" for j
      using that False by (auto simp: m_def fin_def c_def split: if_splits)
    obtain lt where lt: "fill_request gather zero max_reqs (nat (min plp max_logprobs)) c (nat m) hs prompt lt0 = Inr lt"
      "\<forall>j < length prompt - 1. lt_row lt j = (if c \<le> j \<and> j < c + nat m
         then trimmed (nat (min plp max_logprobs)) (g (hs ! (j - c)) (prompt ! (j + 1))) else lt_row lt0 j)"
      using fill_request_rows [OF assms(1,2) r(2) mm(1,4,3), of zero "nat (min plp max_logprobs)"] by blast
    have "lt_row lt j = plp_row g (min plp max_logprobs) H prompt j" if j: "j < length prompt - 1" "j < c + n" for j
    proof (cases "c \<le> j")
      case True
      then have "j - c < n" "c + (j - c) = j" using j(2) by auto
      then have "hs ! (j - c) = H j" using r(7) by metis
      then show ?thesis using lt(2) True j upto by (simp add: plp_row_def)
    qed (use lt(2) r(3) j in simp)
    then show ?thesis using False r(4,5) lt(1) unfolding run D_def by (intro exI [of _ lt]) (simp add: ditem_def)
  qed
qed

text \<open>What a step leaves of a request: tensors that are right up to the new position, handed out
  exactly when the prompt is done.\<close>

definition plp_outcome ::
  "('h \<Rightarrow> int \<Rightarrow> int list \<times> rat list \<times> int) \<Rightarrow> int \<Rightarrow> (nat \<Rightarrow> 'h) \<Rightarrow> (req_id, cached_request) dict \<Rightarrow> (req_id, nat) dict
     \<Rightarrow> (req_id, logprobs_tensors) dict \<Rightarrow> (req_id, logprobs_tensors) dict \<Rightarrow> req_id list \<Rightarrow> req_id \<Rightarrow> int \<Rightarrow> bool" where
  "plp_outcome g max_logprobs H requests scheduled ip result completed rid plp \<longleftrightarrow>
     (\<forall>request n prompt. dget requests rid = Some request \<longrightarrow> dget scheduled rid = Some n
        \<longrightarrow> cr_prompt_token_ids request = Some prompt \<longrightarrow>
        (\<exists>lt. dget ip rid = Some lt
          \<and> (\<forall>j < length prompt - 1. j < cr_num_computed_tokens request + n
               \<longrightarrow> lt_row lt j = plp_row g (min plp max_logprobs) H prompt j)
          \<and> (if length prompt \<le> cr_num_computed_tokens request + n
             then dget result rid = Some lt \<and> rid \<in> set completed
             else dget result rid = None \<and> rid \<notin> set completed)))"

text \<open>The loop over the requests: each one fills its own tensors.\<close>

lemma plp_fold:
  fixes requests :: "(req_id, cached_request) dict" and H :: "req_id \<Rightarrow> nat \<Rightarrow> 'h"
  assumes "rowwise gather g" "0 < max_reqs" "distinct (map fst items)"
    and "\<forall>(rid, plp) \<in> set items. \<exists>request n prompt. dget requests rid = Some request \<and> dget scheduled rid = Some n
       \<and> plp_ready g blank max_logprobs (H rid) prompt_lp_hs index ip request rid plp n prompt"
    and "\<forall>rid \<in> set (map fst items). dget result rid = None" "set completed \<inter> set (map fst items) = {}"
  shows "\<exists>ip' result' completed'.
      rfold (plp_request gather zero blank max_reqs max_logprobs requests index scheduled prompt_lp_hs) (ip, result, completed) items
        = Inr (ip', result', completed')
    \<and> (\<forall>r. r \<notin> set (map fst items) \<longrightarrow> dget ip' r = dget ip r \<and> dget result' r = dget result r
          \<and> (r \<in> set completed' \<longleftrightarrow> r \<in> set completed))
    \<and> (\<forall>(rid, plp) \<in> set items. plp_outcome g max_logprobs (H rid) requests scheduled ip' result' completed' rid plp)"
  using assms(3-6)
proof (induction items arbitrary: ip result completed)
  case Nil
  then show ?case by simp
next
  case (Cons item items)
  obtain rid plp where item: "item = (rid, plp)" by (cases item)
  obtain request n prompt where r: "dget requests rid = Some request" "dget scheduled rid = Some n"
    "plp_ready g blank max_logprobs (H rid) prompt_lp_hs index ip request rid plp n prompt"
    using Cons.prems(2) item by auto
  have pr: "cr_prompt_token_ids request = Some prompt" using r(3) by (simp add: plp_ready_def Let_def)
  define fin where "fin \<longleftrightarrow> length prompt \<le> cr_num_computed_tokens request + n"
  obtain lt where lt: "plp_request gather zero blank max_reqs max_logprobs requests index scheduled prompt_lp_hs (ip, result, completed) item
      = Inr (dset ip rid lt, if fin then dset result rid lt else result, if fin then completed @ [rid] else completed)"
    "\<forall>j < length prompt - 1. j < cr_num_computed_tokens request + n
        \<longrightarrow> lt_row lt j = plp_row g (min plp max_logprobs) (H rid) prompt j"
    using plp_request_rows [OF assms(1,2) r, of zero result completed] unfolding item fin_def by blast
  define ip1 where "ip1 = dset ip rid lt"
  define res1 where "res1 = (if fin then dset result rid lt else result)"
  define com1 where "com1 = (if fin then completed @ [rid] else completed)"
  have new: "rid \<notin> set (map fst items)" using Cons.prems(1) item by auto
  have ready: "plp_ready g blank max_logprobs (H r') prompt_lp_hs index ip1 request' r' p' n' prompt'
      \<longleftrightarrow> plp_ready g blank max_logprobs (H r') prompt_lp_hs index ip request' r' p' n' prompt'"
    if "r' \<noteq> rid" for r' request' p' n' prompt'
    using that by (simp add: plp_ready_def ip1_def)
  have p1: "\<forall>(rid, plp) \<in> set items. \<exists>request n prompt. dget requests rid = Some request \<and> dget scheduled rid = Some n
       \<and> plp_ready g blank max_logprobs (H rid) prompt_lp_hs index ip1 request rid plp n prompt"
  proof (clarify)
    fix r' p' assume i: "(r', p') \<in> set items"
    then have "r' \<noteq> rid" using new by force
    then show "\<exists>request n prompt. dget requests r' = Some request \<and> dget scheduled r' = Some n
       \<and> plp_ready g blank max_logprobs (H r') prompt_lp_hs index ip1 request r' p' n prompt"
      using Cons.prems(2) i ready by fastforce
  qed
  have p2: "\<forall>r \<in> set (map fst items). dget res1 r = None" "set com1 \<inter> set (map fst items) = {}"
    using Cons.prems(3,4) new item by (auto simp: res1_def com1_def)
  obtain ip' result' completed' where IH:
    "rfold (plp_request gather zero blank max_reqs max_logprobs requests index scheduled prompt_lp_hs) (ip1, res1, com1) items
        = Inr (ip', result', completed')"
    "\<forall>r. r \<notin> set (map fst items) \<longrightarrow> dget ip' r = dget ip1 r \<and> dget result' r = dget res1 r
          \<and> (r \<in> set completed' \<longleftrightarrow> r \<in> set com1)"
    "\<forall>(rid, plp) \<in> set items. plp_outcome g max_logprobs (H rid) requests scheduled ip' result' completed' rid plp"
    using Cons.IH [OF _ p1 p2] Cons.prems(1) by fastforce
  have run: "rfold (plp_request gather zero blank max_reqs max_logprobs requests index scheduled prompt_lp_hs)
      (ip, result, completed) (item # items) = Inr (ip', result', completed')"
    using lt(1) IH(1) by (simp add: ip1_def res1_def com1_def)
  have own: "dget ip' rid = Some lt" "dget result' rid = (if fin then Some lt else None)"
    "rid \<in> set completed' \<longleftrightarrow> fin"
    using IH(2) new Cons.prems(3,4) item by (auto simp: ip1_def res1_def com1_def)
  have rest: "\<forall>r. r \<notin> set (map fst (item # items)) \<longrightarrow> dget ip' r = dget ip r \<and> dget result' r = dget result r
          \<and> (r \<in> set completed' \<longleftrightarrow> r \<in> set completed)"
    using IH(2) item by (auto simp: ip1_def res1_def com1_def)
  have mine: "plp_outcome g max_logprobs (H rid) requests scheduled ip' result' completed' rid plp"
    using r(1,2) pr lt(2) own by (auto simp: fin_def plp_outcome_def)
  have all: "\<forall>(rid, plp) \<in> set (item # items).
      plp_outcome g max_logprobs (H rid) requests scheduled ip' result' completed' rid plp"
    using mine IH(3) item by auto
  show ?case using run rest all by blast
qed

text \<open>C27. The log-probabilities of a prompt are complete however the prompt is split over steps and batches:
  when the tensors of every request are right up to its position, a step extends them to the new position;
  a prompt that is done is handed out with every row right and forgotten, and the others stay in
  progress.\<close>

theorem prompt_logprobs_complete:
  assumes "rowwise gather g" and "0 < max_num_reqs (rs_batch s)" and "distinct (dkeys (rs_num_prompt_logprobs s))"
    and "\<forall>(rid, plp) \<in> set (rs_num_prompt_logprobs s). \<exists>request n prompt.
       dget (rs_requests s) rid = Some request \<and> dget scheduled rid = Some n
       \<and> plp_ready g blank max_logprobs (H rid) prompt_lp_hs (req_id_to_index (rs_batch s))
           (in_progress_prompt_logprobs (rs_batch s)) request rid plp n prompt"
  shows "\<exists>result s'. get_prompt_logprobs_dict gather zero blank max_logprobs scheduled prompt_lp_hs s = Inr (result, s')
    \<and> (\<forall>(rid, plp) \<in> set (rs_num_prompt_logprobs s). \<forall>request n prompt.
        dget (rs_requests s) rid = Some request \<longrightarrow> dget scheduled rid = Some n
        \<longrightarrow> cr_prompt_token_ids request = Some prompt \<longrightarrow>
        (if length prompt \<le> cr_num_computed_tokens request + n
         then (\<exists>lt. dget result rid = Some lt
                 \<and> (\<forall>j < length prompt - 1. lt_row lt j = plp_row g (min plp max_logprobs) (H rid) prompt j))
           \<and> dget (rs_num_prompt_logprobs s') rid = None
           \<and> dget (in_progress_prompt_logprobs (rs_batch s')) rid = None
         else dget result rid = None \<and> dget (rs_num_prompt_logprobs s') rid = Some plp
           \<and> (\<exists>lt. dget (in_progress_prompt_logprobs (rs_batch s')) rid = Some lt
                \<and> (\<forall>j < length prompt - 1. j < cr_num_computed_tokens request + n
                     \<longrightarrow> lt_row lt j = plp_row g (min plp max_logprobs) (H rid) prompt j))))"
proof (cases "rs_num_prompt_logprobs s = []")
  case True
  then show ?thesis by (simp add: get_prompt_logprobs_dict_def)
next
  case False
  let ?items = "rs_num_prompt_logprobs s"
  obtain ip' result' completed' where f:
    "rfold (plp_request gather zero blank (max_num_reqs (rs_batch s)) max_logprobs (rs_requests s)
        (req_id_to_index (rs_batch s)) scheduled prompt_lp_hs) (in_progress_prompt_logprobs (rs_batch s), [], []) ?items
      = Inr (ip', result', completed')"
    "\<forall>(rid, plp) \<in> set ?items. plp_outcome g max_logprobs (H rid) (rs_requests s) scheduled ip' result' completed' rid plp"
    using plp_fold [OF assms(1,2,3,4), where result = "[]" and completed = "[]" and zero = zero] by auto
  define s' where "s' = s\<lparr>rs_num_prompt_logprobs := fold (\<lambda>r d. dpop d r) completed' ?items,
      rs_batch := (rs_batch s)\<lparr>in_progress_prompt_logprobs := fold (\<lambda>r d. dpop d r) completed' ip'\<rparr>\<rparr>"
  have run: "get_prompt_logprobs_dict gather zero blank max_logprobs scheduled prompt_lp_hs s = Inr (result', s')"
    using False f(1) by (simp add: get_prompt_logprobs_dict_def s'_def)
  have num: "dget (rs_num_prompt_logprobs s') r = (if r \<in> set completed' then None else dget ?items r)"
    "dget (in_progress_prompt_logprobs (rs_batch s')) r = (if r \<in> set completed' then None else dget ip' r)" for r
    by (simp_all add: s'_def dget_forget)
  have own: "dget ?items rid = Some plp" if "(rid, plp) \<in> set ?items" for rid plp
    using that assms(3) by (simp add: map_of_eq_Some_iff)
  show ?thesis
  proof (intro exI [of _ result'] exI [of _ s'] conjI run, clarify)
    fix rid plp request n prompt
    assume i: "(rid, plp) \<in> set ?items" and r: "dget (rs_requests s) rid = Some request" "dget scheduled rid = Some n"
      "cr_prompt_token_ids request = Some prompt"
    have o: "plp_outcome g max_logprobs (H rid) (rs_requests s) scheduled ip' result' completed' rid plp"
      using f(2) i by auto
    show "if length prompt \<le> cr_num_computed_tokens request + n
         then (\<exists>lt. dget result' rid = Some lt
                 \<and> (\<forall>j < length prompt - 1. lt_row lt j = plp_row g (min plp max_logprobs) (H rid) prompt j))
           \<and> dget (rs_num_prompt_logprobs s') rid = None
           \<and> dget (in_progress_prompt_logprobs (rs_batch s')) rid = None
         else dget result' rid = None \<and> dget (rs_num_prompt_logprobs s') rid = Some plp
           \<and> (\<exists>lt. dget (in_progress_prompt_logprobs (rs_batch s')) rid = Some lt
                \<and> (\<forall>j < length prompt - 1. j < cr_num_computed_tokens request + n
                     \<longrightarrow> lt_row lt j = plp_row g (min plp max_logprobs) (H rid) prompt j))"
      using o [unfolded plp_outcome_def, rule_format, OF r] own [OF i] by (auto simp: num split: if_splits)
  qed
qed

definition ex_plp_gather :: "int \<Rightarrow> int \<Rightarrow> int list \<times> rat list \<times> int" where
  "ex_plp_gather h t = ([t, 0, 1], [of_int h, 0, 0], 1)"

definition ex_plp_state :: "unit runner_state" where
  "ex_plp_state = \<lparr> rs_requests = [(''a'', \<lparr> cr_req_id = ''a'', cr_prompt_token_ids = Some [4, 5, 6],
       cr_sampling_params = None, cr_pooling_params = None, cr_pooling_states = None, cr_generator = None,
       cr_block_ids = [], cr_num_computed_tokens = 0, cr_output_token_ids = 0, cr_lora_request = None \<rparr>)],
     rs_num_prompt_logprobs = [(''a'', 1)], rs_encoder_cache = [],
     rs_batch = (new_input_batch False 1 4 8 () (\<lambda>_. 0) (\<lambda>_. 0))
       \<lparr>req_ids := [Some ''a''], req_id_to_index := [(''a'', 0)]\<rparr>,
     rs_store = (\<lambda>_. []), rs_next = 1 \<rparr>"

definition ex_plp_blank :: "nat \<Rightarrow> nat \<Rightarrow> logprobs_tensors" where
  "ex_plp_blank n w = \<lparr> lt_token_ids = replicate n (replicate w 0), lt_logprobs = replicate n (replicate w 0),
     lt_ranks = replicate n 0 \<rparr>"

theorem prompt_logprobs_complete_witness:
  "\<exists>result s' lt. get_prompt_logprobs_dict (map2 ex_plp_gather) 0 ex_plp_blank 5 [(''a'', 3)] [(0, [10, 20, 30])] ex_plp_state
      = Inr (result, s') \<and> dget result ''a'' = Some lt \<and> lt_row lt 1 = ([6, 0], [20, 0], 1)
      \<and> dget (rs_num_prompt_logprobs s') ''a'' = None"
proof -
  have row: "rowwise (map2 ex_plp_gather) ex_plp_gather" by (simp add: rowwise_def)
  define H where "H = (\<lambda>(_ :: req_id) j. [10, 20, 30 :: int] ! j)"
  have n: "rs_num_prompt_logprobs ex_plp_state = [(''a'', 1)]" "0 < max_num_reqs (rs_batch ex_plp_state)"
    by (simp_all add: ex_plp_state_def new_input_batch_def Let_def)
  obtain request where r: "dget (rs_requests ex_plp_state) ''a'' = Some request"
    "cr_prompt_token_ids request = Some [4, 5, 6]" "cr_num_computed_tokens request = 0"
    by (simp add: ex_plp_state_def)
  have "plp_ready ex_plp_gather ex_plp_blank 5 (H ''a'') [(0, [10, 20, 30])] (req_id_to_index (rs_batch ex_plp_state))
      (in_progress_prompt_logprobs (rs_batch ex_plp_state)) request ''a'' 1 3 [4, 5, 6]"
    using r by (simp add: plp_ready_def lt_sized_def ex_plp_blank_def ex_plp_state_def new_input_batch_def Let_def H_def)
  then obtain result s' lt where o:
    "get_prompt_logprobs_dict (map2 ex_plp_gather) 0 ex_plp_blank 5 [(''a'', 3)] [(0, [10, 20, 30])] ex_plp_state = Inr (result, s')"
    "dget result ''a'' = Some lt" "dget (rs_num_prompt_logprobs s') ''a'' = None"
    "\<forall>j < length [4, 5, 6 :: int] - 1. lt_row lt j = plp_row ex_plp_gather (min 1 5) (H ''a'') [4, 5, 6] j"
    using prompt_logprobs_complete [OF row n(2), where scheduled = "[(''a'', 3)]" and max_logprobs = 5 and H = H
      and prompt_lp_hs = "[(0, [10, 20, 30])]" and blank = ex_plp_blank and zero = 0] n(1) r
    by (auto split: if_splits)
  have "lt_row lt 1 = ([6, 0], [20, 0], 1)"
    using o(4) [rule_format, of 1] by (simp add: plp_row_def trimmed_def ex_plp_gather_def H_def numeral_2_eq_2)
  then show ?thesis using o(1-3) by blast
qed

end
