(* ===== verification/SampleTokens.thy ===== *)
theory SampleTokens
  imports StepInputsProps PromptLogprobs
begin

text \<open>
  The two calls of a step, \<open>execute_model\<close> and \<open>sample_tokens\<close> of \<open>vllm_tt/model_runner.py\<close>. The first
  one updates the batch and keeps the scheduler's output; the second one runs the executions of the
  step, appends the sampled tokens to the requests and returns them. The pair is a protocol: a second
  \<open>execute_model\<close> before \<open>sample_tokens\<close> is an error.

  The runner has no multimodal inputs (\<open>supports_mm_inputs\<close> is set to \<open>False\<close>), so \<open>mm_embed_inputs\<close>
  is always \<open>None\<close> and is left out. The log-probabilities of the sampled tokens are returned, not kept,
  and are left out too.
\<close>

section \<open>Committing the sampled tokens\<close>

text \<open>\<open>num_tokens\<close> of a cached request; a request without prompt tokens never enters the batch.\<close>

definition request_tokens :: "'bt vllm_ops \<Rightarrow> store \<Rightarrow> cached_request \<Rightarrow> nat res" where
  "request_tokens ops st req =
     (case cr_prompt_token_ids req of
        None \<Rightarrow> Inl TypeError
      | Some prompt \<Rightarrow> Inr (vo_num_tokens ops (length prompt) (length (st (cr_output_token_ids req)))))"

text \<open>The requests whose tokens are all computed, with the index of the new token, and the indices of
  those whose prompt is only partly computed: their sampled token is discarded.\<close>

definition classify_step ::
  "'bt vllm_ops \<Rightarrow> store \<Rightarrow> (req_id, cached_request) dict \<Rightarrow> (req_id, nat) dict
     \<Rightarrow> (nat \<times> cached_request \<times> nat) list \<times> nat list \<Rightarrow> nat \<times> req_id option
     \<Rightarrow> ((nat \<times> cached_request \<times> nat) list \<times> nat list) res" where
  "classify_step ops st requests scheduled acc entry =
     (let (whole, partial) = acc; (i, rid) = entry
      in case rid of
           None \<Rightarrow> Inl AssertionError
         | Some rid \<Rightarrow>
             rbind (ditem requests rid) (\<lambda>req.
             rbind (ditem scheduled rid) (\<lambda>n.
             rbind (request_tokens ops st req) (\<lambda>tokens.
             let seq_len = cr_num_computed_tokens req + n
             in Inr (if tokens \<le> seq_len then (whole @ [(i, req, seq_len)], partial)
                     else (whole, partial @ [i]))))))"

definition classify ::
  "'bt vllm_ops \<Rightarrow> store \<Rightarrow> (req_id, cached_request) dict \<Rightarrow> (req_id, nat) dict \<Rightarrow> 'bt input_batch
     \<Rightarrow> ((nat \<times> cached_request \<times> nat) list \<times> nat list) res" where
  "classify ops st requests scheduled b =
     rfold (classify_step ops st requests scheduled) ([], []) (zip [0..<num_reqs b] (req_ids b))"

text \<open>One new token per request: it is written behind the tokens of the row and appended to the output
  list, which the batch and the cached request share.\<close>

definition append_one ::
  "int list list \<Rightarrow> 'bt input_batch \<times> store \<Rightarrow> nat \<times> cached_request \<times> nat \<Rightarrow> ('bt input_batch \<times> store) res" where
  "append_one valid acc entry =
     (let (b, st) = acc; (i, req, seq_len) = entry; a = cr_output_token_ids req
      in rbind (lget valid i) (\<lambda>toks.
         rbind (lget toks 0) (\<lambda>tok.
         rbind (lget (token_ids_cpu b) i) (\<lambda>row.
         rbind (lset row seq_len tok) (\<lambda>row.
         rbind (lget (num_tokens b) i) (\<lambda>n.
         Inr (b\<lparr>token_ids_cpu := (token_ids_cpu b)[i := row], num_tokens := (num_tokens b)[i := n + 1]\<rparr>,
              st(a := st a @ [tok]))))))))"

text \<open>Several tokens per request: the valid ones are written in front of \<open>seq_len + 1\<close>.\<close>

definition append_many ::
  "int list list \<Rightarrow> 'bt input_batch \<times> store \<Rightarrow> nat \<times> cached_request \<times> nat \<Rightarrow> ('bt input_batch \<times> store) res" where
  "append_many valid acc entry =
     (let (b, st) = acc; (i, req, seq_len) = entry; a = cr_output_token_ids req
      in rbind (lget valid i) (\<lambda>toks.
         rbind (lget (token_ids_cpu b) i) (\<lambda>row.
         rbind (if seq_len + 1 < length toks then Inl ValueError
                else slice_assign row (seq_len + 1 - length toks) (seq_len + 1) toks) (\<lambda>row.
         Inr (b\<lparr>token_ids_cpu := (token_ids_cpu b)[i := row]\<rparr>, st(a := st a @ toks))))))"

definition invalid_token_id :: int where
  "invalid_token_id = -1"

definition commit_tokens ::
  "(nat \<times> cached_request \<times> nat) list \<Rightarrow> nat list \<Rightarrow> int list list \<Rightarrow> 'bt input_batch \<Rightarrow> store
     \<Rightarrow> (int list list \<times> 'bt input_batch \<times> store) res" where
  "commit_tokens whole partial rows b st =
     (if rows \<noteq> [] \<and> length (hd rows) = 1 then
        rbind (rfold (\<lambda>valid i. lset valid i []) rows partial) (\<lambda>valid.
        rbind (rfold (append_one valid) (b, st) whole) (\<lambda>(b, st). Inr (valid, b, st)))
      else
        let valid = map (filter (\<lambda>t. t \<noteq> invalid_token_id)) rows; n = num_reqs b
        in rbind (np_zip (+) (take n (num_tokens b)) (map length valid)) (\<lambda>counts.
           let b = b\<lparr>num_tokens := counts @ drop n (num_tokens b)\<rparr>
           in rbind (rfold (append_many valid) (b, st) whole) (\<lambda>(b, st). Inr (valid, b, st))))"

section \<open>The protocol of a step\<close>

record 'bt engine_state =
  es_runner :: "'bt runner_state"
  es_pending :: "(scheduler_output \<times> nat) option"
  es_buffers :: step_buffers

datatype exec_result = Empty_Output | Connector_Output | No_Output

definition execute_model ::
  "'bt vllm_ops \<Rightarrow> bool \<Rightarrow> scheduler_output \<Rightarrow> nat \<Rightarrow> 'bt engine_state \<Rightarrow> (exec_result \<times> 'bt engine_state) res" where
  "execute_model ops has_kv_transfer so total_tokens e =
     (if es_pending e \<noteq> None then Inl RuntimeError
      else rbind (update_states ops so (es_runner e)) (\<lambda>(_, s).
        let e = e\<lparr>es_runner := s\<rparr>
        in if total_tokens = 0 then Inr (if has_kv_transfer then Connector_Output else Empty_Output, e)
           else Inr (No_Output, e\<lparr>es_pending := Some (so, total_tokens)\<rparr>)))"

record runner_output =
  ro_req_ids :: "req_id option list"
  ro_req_id_to_index :: "(req_id, nat) dict"
  ro_sampled :: "int list list"
  ro_prompt_logprobs :: "(req_id, logprobs_tensors) dict"

text \<open>\<open>plp\<close> is \<open>_get_prompt_logprobs_dict\<close> with its compiled graphs. The fuel of the loop is one more
  than the number of requests, which is enough because every execution takes at least one.\<close>

definition finish_sampling ::
  "'bt vllm_ops \<Rightarrow> ((nat, 'h list) dict \<Rightarrow> 'bt runner_state \<Rightarrow> ((req_id, logprobs_tensors) dict \<times> 'bt runner_state) res)
     \<Rightarrow> scheduler_output \<Rightarrow> 'bt engine_state \<Rightarrow> int list list \<Rightarrow> (nat, 'h list) dict \<Rightarrow> step_buffers
     \<Rightarrow> (runner_output option \<times> 'bt engine_state) res" where
  "finish_sampling ops plp so e rows kept buf =
     (let s = es_runner e; b = rs_batch s; n = num_reqs b
      in rbind (rguard (0 < n) RuntimeError) (\<lambda>_.
         rbind (classify ops (rs_store s) (rs_requests s) (so_num_scheduled_tokens so) b) (\<lambda>(whole, partial).
         rbind (rassert (\<forall>r \<in> set (take n (req_ids b)). r \<noteq> None)) (\<lambda>_.
         rbind (plp kept s) (\<lambda>(logprobs, s).
         rbind (commit_tokens whole partial rows (rs_batch s) (rs_store s)) (\<lambda>(valid, b', st).
         Inr (Some \<lparr> ro_req_ids = take n (req_ids b), ro_req_id_to_index = req_id_to_index b',
                     ro_sampled = valid, ro_prompt_logprobs = logprobs \<rparr>,
              e\<lparr>es_runner := s\<lparr>rs_batch := b', rs_store := st\<rparr>, es_buffers := buf\<rparr>)))))))"

definition sample_tokens ::
  "'bt vllm_ops \<Rightarrow> step_config \<Rightarrow> ('bt \<Rightarrow> int list list)
     \<Rightarrow> ((nat, 'h list) dict \<Rightarrow> 'bt runner_state \<Rightarrow> ((req_id, logprobs_tensors) dict \<times> 'bt runner_state) res)
     \<Rightarrow> (step_inputs \<Rightarrow> ('h list list \<times> int list list) res) \<Rightarrow> 'bt engine_state
     \<Rightarrow> (runner_output option \<times> 'bt engine_state) res option" where
  "sample_tokens ops cfg cpu_table plp run e =
     (case es_pending e of
        None \<Rightarrow> Some (Inr (None, e))
      | Some (so, total_tokens) \<Rightarrow>
          (let e = e\<lparr>es_pending := None\<rparr>; s = es_runner e; b = rs_batch s
           in map_option (\<lambda>r. rbind r (\<lambda>(rows, kept, buf). finish_sampling ops plp so e rows kept buf))
                (sample_loop (num_reqs b + 1) cfg cpu_table b total_tokens (so_num_scheduled_tokens so)
                   (set (dkeys (rs_num_prompt_logprobs s))) run 0 (es_buffers e) [] [])))"

end
