(* ===== verification/SampleTokensProps.thy ===== *)
theory SampleTokensProps
  imports SampleTokens
begin

text \<open>
  What a step leaves behind: a request whose tokens were all computed has its sampled token at the end
  of its row and of its output list, one whose prompt was only partly computed is unchanged and reports
  no token; and the two calls of a step alternate.
\<close>

section \<open>Committing one token per request\<close>

definition req_at :: "'bt runner_state \<Rightarrow> nat \<Rightarrow> cached_request" where
  "req_at s i = the (dget (rs_requests s) (the (req_ids (rs_batch s) ! i)))"

text \<open>All tokens of the request in row \<open>i\<close> are computed after the step.\<close>

definition caught_up :: "'bt runner_state \<Rightarrow> (req_id, nat) dict \<Rightarrow> nat \<Rightarrow> bool" where
  "caught_up s scheduled i \<longleftrightarrow>
     num_tokens (rs_batch s) ! i \<le> cr_num_computed_tokens (req_at s i) + count_of scheduled (rs_batch s) i"

text \<open>A packed batch whose rows agree with the cached requests, which have output lists of their own and
  room for a token, and whose requests are not scheduled beyond their tokens.\<close>

definition commit_ready :: "'bt vllm_ops \<Rightarrow> (req_id, nat) dict \<Rightarrow> 'bt runner_state \<Rightarrow> bool" where
  "commit_ready ops scheduled s \<longleftrightarrow>
     (let b = rs_batch s
      in batch_inv b \<and> packed b \<and> (\<forall>m n. vo_num_tokens ops m n = m + n)
       \<and> (\<forall>i < num_reqs b. dget (rs_requests s) (the (req_ids b ! i)) \<noteq> None
            \<and> dget scheduled (the (req_ids b ! i)) \<noteq> None
            \<and> (\<exists>prompt. cr_prompt_token_ids (req_at s i) = Some prompt
                 \<and> num_tokens b ! i = length prompt + length (rs_store s (cr_output_token_ids (req_at s i))))
            \<and> cr_num_computed_tokens (req_at s i) + count_of scheduled b i \<le> num_tokens b ! i
            \<and> num_tokens b ! i < max_model_len b)
       \<and> (\<forall>i < num_reqs b. \<forall>j < num_reqs b.
            cr_output_token_ids (req_at s i) = cr_output_token_ids (req_at s j) \<longrightarrow> i = j))"

lemma commit_readyD:
  assumes "commit_ready ops scheduled s" "i < num_reqs (rs_batch s)"
  shows "dget (rs_requests s) (the (req_ids (rs_batch s) ! i)) \<noteq> None" "dget scheduled (the (req_ids (rs_batch s) ! i)) \<noteq> None"
    "\<exists>prompt. cr_prompt_token_ids (req_at s i) = Some prompt
       \<and> num_tokens (rs_batch s) ! i = length prompt + length (rs_store s (cr_output_token_ids (req_at s i)))"
    "cr_num_computed_tokens (req_at s i) + count_of scheduled (rs_batch s) i \<le> num_tokens (rs_batch s) ! i"
    "num_tokens (rs_batch s) ! i < max_model_len (rs_batch s)"
  using assms by (simp_all add: commit_ready_def Let_def)

lemma classify_ok:
  assumes "commit_ready ops scheduled s"
  shows "classify ops (rs_store s) (rs_requests s) scheduled (rs_batch s)
    = Inr (map (\<lambda>i. (i, req_at s i, num_tokens (rs_batch s) ! i)) (filter (caught_up s scheduled) [0..<num_reqs (rs_batch s)]),
           filter (\<lambda>i. \<not> caught_up s scheduled i) [0..<num_reqs (rs_batch s)])"
proof -
  let ?b = "rs_batch s" and ?N = "num_reqs (rs_batch s)"
  note r = assms [unfolded commit_ready_def Let_def]
  have len: "?N \<le> length (req_ids ?b)"
  proof (rule ccontr)
    assume "\<not> ?thesis"
    then have "length (req_ids ?b) < ?N" by simp
    then have "live ?b (length (req_ids ?b))" using r by (simp add: packed_def)
    then show False by (simp add: live_def)
  qed
  have "rfold (classify_step ops (rs_store s) (rs_requests s) scheduled) ([], []) (take k (zip [0..<?N] (req_ids ?b)))
      = Inr (map (\<lambda>i. (i, req_at s i, num_tokens ?b ! i)) (filter (caught_up s scheduled) [0..<k]),
             filter (\<lambda>i. \<not> caught_up s scheduled i) [0..<k])" if "k \<le> ?N" for k
    using that
  proof (induction k)
    case 0
    then show ?case by simp
  next
    case (Suc k)
    then have k: "k < ?N" by simp
    have "packed ?b" using assms by (simp add: commit_ready_def Let_def)
    then obtain rid where rid: "req_ids ?b ! k = Some rid" using k by (rule packed_row)
    note h = commit_readyD [OF assms k, unfolded rid option.sel]
    obtain req n where rn: "dget (rs_requests s) rid = Some req" "dget scheduled rid = Some n" using h(1,2) by blast
    have at: "req_at s k = req" "count_of scheduled ?b k = n" using rn rid by (simp_all add: req_at_def count_of_def)
    obtain prompt where q: "cr_prompt_token_ids req = Some prompt"
      "num_tokens ?b ! k = length prompt + length (rs_store s (cr_output_token_ids req))" using h(3) at(1) by blast
    have "request_tokens ops (rs_store s) req = Inr (num_tokens ?b ! k)"
      using q r unfolding request_tokens_def by (simp only: option.case)
    then have "classify_step ops (rs_store s) (rs_requests s) scheduled (w, p) (k, req_ids ?b ! k)
        = Inr (if caught_up s scheduled k then (w @ [(k, req_at s k, num_tokens ?b ! k)], p) else (w, p @ [k]))" for w p
      using rn at h(4) by (simp add: classify_step_def rid ditem_def caught_up_def Let_def)
    moreover have "take (Suc k) (zip [0..<?N] (req_ids ?b)) = take k (zip [0..<?N] (req_ids ?b)) @ [(k, req_ids ?b ! k)]"
      using k len by (simp add: take_Suc_conv_app_nth)
    ultimately show ?case using Suc.IH k by (simp add: rfold_append)
  qed
  from this [OF order_refl] show ?thesis using len by (simp add: classify_def)
qed

lemma clear_partial:
  "length rows = n \<Longrightarrow> rfold (\<lambda>valid i. lset valid i []) rows (filter (\<lambda>i. \<not> P i) [0..<k])
     = Inr (map (\<lambda>i. if i < k \<and> \<not> P i then [] else rows ! i) [0..<n])" if "k \<le> n"
  using that
proof (induction k)
  case 0
  then show ?case using map_nth [of rows] by simp
next
  case (Suc k)
  then show ?case by (auto simp: rfold_append nth_list_update less_Suc_eq intro!: nth_equalityI)
qed

lemma append_all:
  assumes ready: "commit_ready ops scheduled s" and rows: "length rows = num_reqs (rs_batch s)" "\<forall>row \<in> set rows. length row = 1"
    and valid: "length valid = num_reqs (rs_batch s)" "\<forall>i < num_reqs (rs_batch s). caught_up s scheduled i \<longrightarrow> valid ! i = rows ! i"
  shows "k \<le> num_reqs (rs_batch s) \<Longrightarrow> \<exists>b' st'.
      rfold (append_one valid) (rs_batch s, rs_store s)
        (map (\<lambda>i. (i, req_at s i, num_tokens (rs_batch s) ! i)) (filter (caught_up s scheduled) [0..<k])) = Inr (b', st')
    \<and> (\<exists>ts ns. b' = (rs_batch s)\<lparr>token_ids_cpu := ts, num_tokens := ns\<rparr>
        \<and> length ts = length (token_ids_cpu (rs_batch s)) \<and> length ns = length (num_tokens (rs_batch s)))
    \<and> (\<forall>i < num_reqs (rs_batch s). let n = num_tokens (rs_batch s) ! i; row = token_ids_cpu (rs_batch s) ! i;
          a = cr_output_token_ids (req_at s i)
        in if i < k \<and> caught_up s scheduled i
           then num_tokens b' ! i = n + 1 \<and> token_ids_cpu b' ! i = row[n := hd (rows ! i)] \<and> st' a = rs_store s a @ rows ! i
           else num_tokens b' ! i = n \<and> token_ids_cpu b' ! i = row \<and> st' a = rs_store s a)"
proof (induction k)
  case 0
  have "\<exists>ts ns. rs_batch s = (rs_batch s)\<lparr>token_ids_cpu := ts, num_tokens := ns\<rparr>
        \<and> length ts = length (token_ids_cpu (rs_batch s)) \<and> length ns = length (num_tokens (rs_batch s))"
    by (intro exI [of _ "token_ids_cpu (rs_batch s)"] exI [of _ "num_tokens (rs_batch s)"]) simp
  then show ?case by (simp add: Let_def)
next
  case (Suc k)
  let ?b = "rs_batch s" and ?N = "num_reqs (rs_batch s)"
  note r = ready [unfolded commit_ready_def Let_def]
  have k: "k < ?N" using Suc.prems by simp
  obtain b1 st1 ts ns where IH: "rfold (append_one valid) (?b, rs_store s)
        (map (\<lambda>i. (i, req_at s i, num_tokens ?b ! i)) (filter (caught_up s scheduled) [0..<k])) = Inr (b1, st1)"
    "b1 = ?b\<lparr>token_ids_cpu := ts, num_tokens := ns\<rparr>" "length ts = length (token_ids_cpu ?b)" "length ns = length (num_tokens ?b)"
    and at: "\<And>i. i < ?N \<Longrightarrow> let n = num_tokens ?b ! i; row = token_ids_cpu ?b ! i; a = cr_output_token_ids (req_at s i)
        in if i < k \<and> caught_up s scheduled i
           then num_tokens b1 ! i = n + 1 \<and> token_ids_cpu b1 ! i = row[n := hd (rows ! i)] \<and> st1 a = rs_store s a @ rows ! i
           else num_tokens b1 ! i = n \<and> token_ids_cpu b1 ! i = row \<and> st1 a = rs_store s a"
    using Suc.IH k by (metis (no_types, lifting) less_or_eq_imp_le)
  show ?case
  proof (cases "caught_up s scheduled k")
    case False
    then have E1: "filter (caught_up s scheduled) [0..<Suc k] = filter (caught_up s scheduled) [0..<k]" by simp
    have E2: "i < Suc k \<and> caught_up s scheduled i \<longleftrightarrow> i < k \<and> caught_up s scheduled i" for i
      using False by (auto simp: less_Suc_eq)
    show ?thesis unfolding E1 E2 using IH at by blast
  next
    case True
    define n where "n = num_tokens ?b ! k"
    define tok where "tok = hd (rows ! k)"
    have arr: "length (token_ids_cpu ?b) = max_num_reqs ?b" "length (num_tokens ?b) = max_num_reqs ?b"
      "\<forall>row \<in> set (token_ids_cpu ?b). length row = max_model_len ?b"
      using r by (simp_all add: batch_inv_def arrays_sized_def Let_def)
    have kM: "k < max_num_reqs ?b" using k num_reqs_bound [of ?b] r by linarith
    have nl: "n < length (token_ids_cpu ?b ! k)" using r k arr kM by (simp add: n_def)
    have "length (rows ! k) = 1" using rows k by simp
    then have rk: "rows ! k = [tok]" by (cases "rows ! k") (auto simp: tok_def)
    have old: "num_tokens b1 ! k = n" "token_ids_cpu b1 ! k = token_ids_cpu ?b ! k" using at [OF k] by (simp_all add: n_def Let_def)
    define b' where "b' = b1\<lparr>token_ids_cpu := (token_ids_cpu b1)[k := (token_ids_cpu ?b ! k)[n := tok]],
        num_tokens := (num_tokens b1)[k := n + 1]\<rparr>"
    define st' where "st' = st1(cr_output_token_ids (req_at s k) := st1 (cr_output_token_ids (req_at s k)) @ [tok])"
    have step: "append_one valid (b1, st1) (k, req_at s k, n) = Inr (b', st')"
      using k kM valid True rk nl old arr IH(2-4) by (simp add: append_one_def b'_def st'_def Let_def)
    have run: "rfold (append_one valid) (?b, rs_store s)
        (map (\<lambda>i. (i, req_at s i, num_tokens ?b ! i)) (filter (caught_up s scheduled) [0..<Suc k])) = Inr (b', st')"
      using IH(1) step True by (simp add: rfold_append n_def)
    have shape: "\<exists>ts ns. b' = ?b\<lparr>token_ids_cpu := ts, num_tokens := ns\<rparr>
        \<and> length ts = length (token_ids_cpu ?b) \<and> length ns = length (num_tokens ?b)"
      using IH(2-4) by (intro exI [of _ "token_ids_cpu b'"] exI [of _ "num_tokens b'"]) (simp add: b'_def)
    have "let n = num_tokens ?b ! i; row = token_ids_cpu ?b ! i; a = cr_output_token_ids (req_at s i)
        in if i < Suc k \<and> caught_up s scheduled i
           then num_tokens b' ! i = n + 1 \<and> token_ids_cpu b' ! i = row[n := hd (rows ! i)] \<and> st' a = rs_store s a @ rows ! i
           else num_tokens b' ! i = n \<and> token_ids_cpu b' ! i = row \<and> st' a = rs_store s a" if i: "i < ?N" for i
    proof (cases "i = k")
      case True
      then show ?thesis using \<open>caught_up s scheduled k\<close> at [OF k] rk kM arr IH(2-4)
        by (simp add: b'_def st'_def n_def tok_def [symmetric] Let_def)
    next
      case False
      then have "cr_output_token_ids (req_at s i) \<noteq> cr_output_token_ids (req_at s k)" using r i k by blast
      then show ?thesis using at [OF i] False by (simp add: b'_def st'_def Let_def less_Suc_eq)
    qed
    then show ?thesis using run shape by blast
  qed
qed

text \<open>C12. The sampled tokens reach the requests: a request whose tokens are all computed returns its sampled
  token, which is now the last token of its row and of its output list; a request whose prompt is only
  partly computed returns nothing and keeps its row and its output.\<close>

theorem sampled_tokens_committed:
  assumes "commit_ready ops scheduled s" and "length rows = num_reqs (rs_batch s)" and "0 < num_reqs (rs_batch s)"
    and "\<forall>row \<in> set rows. length row = 1"
  shows "\<exists>whole partial valid b' st'.
      classify ops (rs_store s) (rs_requests s) scheduled (rs_batch s) = Inr (whole, partial)
    \<and> commit_tokens whole partial rows (rs_batch s) (rs_store s) = Inr (valid, b', st')
    \<and> length valid = num_reqs (rs_batch s)
    \<and> (\<forall>i < num_reqs (rs_batch s). let n = num_tokens (rs_batch s) ! i; row = token_ids_cpu (rs_batch s) ! i;
          a = cr_output_token_ids (req_at s i)
        in if caught_up s scheduled i
           then valid ! i = rows ! i \<and> st' a = rs_store s a @ rows ! i \<and> num_tokens b' ! i = n + 1
              \<and> take (n + 1) (token_ids_cpu b' ! i) = take n row @ rows ! i
           else valid ! i = [] \<and> st' a = rs_store s a \<and> num_tokens b' ! i = n \<and> token_ids_cpu b' ! i = row)"
proof -
  let ?b = "rs_batch s" and ?N = "num_reqs (rs_batch s)"
  define valid where "valid = map (\<lambda>i. if i < ?N \<and> \<not> caught_up s scheduled i then [] else rows ! i) [0..<?N]"
  have val: "rfold (\<lambda>valid i. lset valid i []) rows (filter (\<lambda>i. \<not> caught_up s scheduled i) [0..<?N]) = Inr valid"
    unfolding valid_def by (rule clear_partial [OF order_refl assms(2)])
  have vl: "length valid = ?N" "\<forall>i < ?N. caught_up s scheduled i \<longrightarrow> valid ! i = rows ! i" by (simp_all add: valid_def)
  obtain b' st' where ap: "rfold (append_one valid) (?b, rs_store s)
        (map (\<lambda>i. (i, req_at s i, num_tokens ?b ! i)) (filter (caught_up s scheduled) [0..<?N])) = Inr (b', st')"
    and at: "\<And>i. i < ?N \<Longrightarrow> let n = num_tokens ?b ! i; row = token_ids_cpu ?b ! i; a = cr_output_token_ids (req_at s i)
        in if i < ?N \<and> caught_up s scheduled i
           then num_tokens b' ! i = n + 1 \<and> token_ids_cpu b' ! i = row[n := hd (rows ! i)] \<and> st' a = rs_store s a @ rows ! i
           else num_tokens b' ! i = n \<and> token_ids_cpu b' ! i = row \<and> st' a = rs_store s a"
    using append_all [OF assms(1,2,4) vl order_refl] by blast
  have "rows \<noteq> []" "length (hd rows) = 1" using assms(2-4) by (cases rows; auto)+
  then have run: "commit_tokens (map (\<lambda>i. (i, req_at s i, num_tokens ?b ! i)) (filter (caught_up s scheduled) [0..<?N]))
      (filter (\<lambda>i. \<not> caught_up s scheduled i) [0..<?N]) rows ?b (rs_store s) = Inr (valid, b', st')"
    using val ap by (simp add: commit_tokens_def)
  have inv: "batch_inv ?b" "packed ?b" using assms(1) by (simp_all add: commit_ready_def Let_def)
  have "let n = num_tokens ?b ! i; row = token_ids_cpu ?b ! i; a = cr_output_token_ids (req_at s i)
        in if caught_up s scheduled i
           then valid ! i = rows ! i \<and> st' a = rs_store s a @ rows ! i \<and> num_tokens b' ! i = n + 1
              \<and> take (n + 1) (token_ids_cpu b' ! i) = take n row @ rows ! i
           else valid ! i = [] \<and> st' a = rs_store s a \<and> num_tokens b' ! i = n \<and> token_ids_cpu b' ! i = row"
    if i: "i < ?N" for i
  proof (cases "caught_up s scheduled i")
    case True
    have "length (token_ids_cpu ?b ! i) = max_model_len ?b"
      using inv num_reqs_bound [OF inv] i by (auto simp: batch_inv_def arrays_sized_def Let_def)
    then have n: "num_tokens ?b ! i < length (token_ids_cpu ?b ! i)" using commit_readyD(5) [OF assms(1) i] by simp
    have "length (rows ! i) = 1" using assms(2,4) i by simp
    then have "rows ! i = [hd (rows ! i)]" by (cases "rows ! i") auto
    then have "take (num_tokens ?b ! i + 1) ((token_ids_cpu ?b ! i)[num_tokens ?b ! i := hd (rows ! i)])
        = take (num_tokens ?b ! i) (token_ids_cpu ?b ! i) @ rows ! i"
      using n by (simp add: take_Suc_conv_app_nth)
    then show ?thesis using at [OF i] True i vl(2) by (simp add: Let_def)
  next
    case False
    then show ?thesis using at [OF i] i by (simp add: Let_def valid_def)
  qed
  then show ?thesis using classify_ok [OF assms(1)] run vl(1) by blast
qed

section \<open>The protocol\<close>

lemma execute_twice_refused:
  assumes "execute_model ops kv so n e = Inr (No_Output, e')"
  shows "execute_model ops kv' so' n' e' = Inl RuntimeError"
  using assms by (auto simp: execute_model_def res_simps Let_def split: if_splits)

lemma commit_length:
  assumes "commit_tokens whole partial rows b st = Inr (valid, b', st')"
  shows "length valid = length rows"
proof -
  have "length v' = length v" if "rfold (\<lambda>valid i. lset valid i []) v xs = Inr v'" for v v' :: "int list list" and xs
    using that by (induction xs arbitrary: v) (auto simp: res_simps)
  then show ?thesis using assms by (auto simp: commit_tokens_def res_simps Let_def split: if_splits)
qed


section \<open>A concrete step\<close>

definition ex_commit_request :: "req_id \<Rightarrow> nat \<Rightarrow> int list \<Rightarrow> addr \<Rightarrow> cached_request" where
  "ex_commit_request rid c prompt a = \<lparr> cr_req_id = rid, cr_prompt_token_ids = Some prompt,
     cr_sampling_params = None, cr_pooling_params = None, cr_pooling_states = None, cr_generator = None,
     cr_block_ids = [], cr_num_computed_tokens = c, cr_output_token_ids = a, cr_lora_request = None \<rparr>"

definition ex_commit_state :: "int list list runner_state" where
  "ex_commit_state = \<lparr> rs_requests = [(''a'', ex_commit_request ''a'' 0 [1, 2] 0), (''b'', ex_commit_request ''b'' 1 [3, 4, 5] 1)],
     rs_num_prompt_logprobs = [], rs_encoder_cache = [], rs_batch = ex_step_batch, rs_store = (\<lambda>_. []), rs_next = 2 \<rparr>"

definition ex_commit_ops :: "int list list vllm_ops" where
  "ex_commit_ops = \<lparr> vo_num_tokens = (+), vo_has_tables = (\<lambda>_. True), vo_add_row = (\<lambda>_ _ t. t),
     vo_append_row = (\<lambda>_ _ t. t), vo_move_row = (\<lambda>_ _ t. t), vo_swap_row = (\<lambda>_ _ t. t) \<rparr>"

theorem sampled_tokens_committed_witness:
  "\<exists>whole partial valid b' st'.
      classify ex_commit_ops (rs_store ex_commit_state) (rs_requests ex_commit_state) [(''a'', 2), (''b'', 1)] ex_step_batch
        = Inr (whole, partial)
    \<and> commit_tokens whole partial [[7], [8]] ex_step_batch (rs_store ex_commit_state) = Inr (valid, b', st')
    \<and> valid ! 0 = [7] \<and> valid ! 1 = [] \<and> st' 0 = [7] \<and> st' 1 = [] \<and> take 3 (token_ids_cpu b' ! 0) = [1, 2, 7]"
proof -
  have b: "rs_batch ex_commit_state = ex_step_batch" by (simp add: ex_commit_state_def)
  have n: "num_reqs ex_step_batch = 2" "req_ids ex_step_batch = [Some ''a'', Some ''b'']"
    "num_tokens ex_step_batch = [2, 3, 0]" "max_model_len ex_step_batch = 4"
    "token_ids_cpu ex_step_batch = [[1, 2, 0, 0], [3, 4, 5, 0], [0, 0, 0, 0]]"
    by (simp_all add: num_reqs_def ex_step_batch_def new_input_batch_def Let_def)
  have two: "i < 2 \<longleftrightarrow> i = 0 \<or> i = 1" for i :: nat by auto
  have at: "req_at ex_commit_state 0 = ex_commit_request ''a'' 0 [1, 2] 0"
    "req_at ex_commit_state 1 = ex_commit_request ''b'' 1 [3, 4, 5] 1"
    by (simp_all add: req_at_def b n) (simp_all add: ex_commit_state_def)
  have inv: "batch_inv ex_step_batch" "packed ex_step_batch" using ex_step_ready by (simp_all add: step_ready_def)
  have ready: "commit_ready ex_commit_ops [(''a'', 2), (''b'', 1)] ex_commit_state"
  proof -
    have rq: "dget (rs_requests ex_commit_state) ''a'' = Some (ex_commit_request ''a'' 0 [1, 2] 0)"
      "dget (rs_requests ex_commit_state) ''b'' = Some (ex_commit_request ''b'' 1 [3, 4, 5] 1)"
      "rs_store ex_commit_state = (\<lambda>_. [])" "vo_num_tokens ex_commit_ops = (+)"
      by (simp_all add: ex_commit_state_def ex_commit_ops_def)
    show ?thesis
      unfolding commit_ready_def Let_def b using inv
      by (auto simp: n two at at [unfolded One_nat_def] rq count_of_def ex_commit_request_def)
  qed
  have up: "caught_up ex_commit_state [(''a'', 2), (''b'', 1)] 0" "\<not> caught_up ex_commit_state [(''a'', 2), (''b'', 1)] 1"
    by (simp_all add: caught_up_def b n at at [unfolded One_nat_def] count_of_def ex_commit_request_def)
  obtain whole partial valid b' st' where r:
    "classify ex_commit_ops (rs_store ex_commit_state) (rs_requests ex_commit_state) [(''a'', 2), (''b'', 1)] ex_step_batch
        = Inr (whole, partial)"
    "commit_tokens whole partial [[7], [8]] ex_step_batch (rs_store ex_commit_state) = Inr (valid, b', st')"
    and at': "\<And>i. i < 2 \<Longrightarrow> let n = num_tokens ex_step_batch ! i; row = token_ids_cpu ex_step_batch ! i;
          a = cr_output_token_ids (req_at ex_commit_state i)
        in if caught_up ex_commit_state [(''a'', 2), (''b'', 1)] i
           then valid ! i = [[7], [8]] ! i \<and> st' a = rs_store ex_commit_state a @ [[7], [8]] ! i \<and> num_tokens b' ! i = n + 1
              \<and> take (n + 1) (token_ids_cpu b' ! i) = take n row @ [[7], [8]] ! i
           else valid ! i = [] \<and> st' a = rs_store ex_commit_state a \<and> num_tokens b' ! i = n \<and> token_ids_cpu b' ! i = row"
    using sampled_tokens_committed [OF ready, of "[[7], [8]]"] n(1) unfolding b by auto
  have "rs_store ex_commit_state a = []" for a by (simp add: ex_commit_state_def)
  then show ?thesis using r at' [of 0] at' [of 1] up at n
    by (intro exI [of _ whole] exI [of _ partial] exI [of _ valid] exI [of _ b'] exI [of _ st'])
      (simp add: Let_def ex_commit_request_def)
qed

definition ex_step_output :: scheduler_output where
  "ex_step_output = \<lparr> so_new_reqs = [],
     so_cached_reqs = \<lparr> cd_req_ids = [''a'', ''b''], cd_resumed_req_ids = {}, cd_new_block_ids = [None, None],
       cd_num_computed_tokens = [0, 1] \<rparr>,
     so_num_scheduled_tokens = [(''a'', 2), (''b'', 1)], so_finished_req_ids = [], so_free_encoder_mm_hashes = [] \<rparr>"

definition ex_engine :: "int list list engine_state" where
  "ex_engine = \<lparr> es_runner = ex_commit_state, es_pending = None, es_buffers = ex_buffers \<rparr>"


end
