(* ===== verification/AttnMask.thy ===== *)
theory AttnMask
  imports PagedCache
begin

text \<open>
  The attention masks of the pooling runner: \<open>generate_attn_mask\<close> of \<open>vllm_tt/pooling_runner.py\<close>.
  A mask has one square matrix per row of the batch (the dimension of size one that the code keeps
  between them is dropped); an entry is zero where a token may attend and \<open>-inf\<close> elsewhere.

  With one row, the sequences of all requests follow one another in it, and the mask separates
  them. With more rows, every sequence has a row of its own.
\<close>

section \<open>The code\<close>

definition segment_mask :: "bool \<Rightarrow> nat \<Rightarrow> fl list list" where
  "segment_mask decoder_only n =
     map (\<lambda>i. map (\<lambda>j. if \<not> decoder_only \<or> j \<le> i then Fin 0 else NegInf) [0..<n]) [0..<n]"

text \<open>The assignment to \<open>m[start:end, start:end]\<close>: both slices are clamped to the matrix, and the
  shapes must agree up to broadcasting.\<close>

definition put_segment :: "nat \<Rightarrow> nat \<Rightarrow> fl list list \<Rightarrow> fl list list \<Rightarrow> fl list list res" where
  "put_segment start stop seg m =
     (let hi = min stop (length m); lo = min start hi
      in rbind (broadcast (hi - lo) seg) (\<lambda>rows.
         rbind (rmap (\<lambda>(old, new).
             let h = min stop (length old); l = min start h
             in rbind (broadcast (h - l) new) (\<lambda>new. Inr (take l old @ new @ drop h old)))
           (zip (slice m lo hi) rows)) (\<lambda>rows.
         Inr (take lo m @ rows @ drop hi m))))"

definition mask_step ::
  "bool \<Rightarrow> nat \<Rightarrow> fl list list list \<times> nat \<times> nat \<Rightarrow> int \<Rightarrow> (fl list list list \<times> nat \<times> nat) res" where
  "mask_step decoder_only batch_size st seg_len =
     (let (attn_mask, valid_pos, batch_idx) = st
      in if seg_len \<le> 0 then Inr st
         else let n = nat seg_len; stop = valid_pos + n
              in rbind (lget attn_mask batch_idx) (\<lambda>m.
                 rbind (put_segment valid_pos stop (segment_mask decoder_only n) m) (\<lambda>m.
                 Inr (if batch_size > 1 then (attn_mask[batch_idx := m], 0, batch_idx + 1)
                      else (attn_mask[batch_idx := m], stop, batch_idx)))))"

definition generate_attn_mask :: "int list \<Rightarrow> nat \<Rightarrow> nat \<Rightarrow> bool \<Rightarrow> fl list list list res" where
  "generate_attn_mask context_lens num_query_tokens batch_size decoder_only =
     rbind (rfold (mask_step decoder_only batch_size)
              (replicate batch_size (full num_query_tokens num_query_tokens NegInf), 0, 0) context_lens)
       (\<lambda>(attn_mask, _, _). Inr attn_mask)"

section \<open>Which tokens see each other\<close>

text \<open>The owner of every token of a fused row, and who may attend to whom.\<close>

definition owners :: "nat list \<Rightarrow> nat list" where
  "owners ns = concat (map (\<lambda>k. replicate (ns ! k) k) [0..<length ns])"

definition same_request :: "bool \<Rightarrow> nat list \<Rightarrow> nat \<Rightarrow> nat \<Rightarrow> bool" where
  "same_request decoder_only ns i j \<longleftrightarrow>
     i < sum_list ns \<and> j < sum_list ns \<and> owners ns ! i = owners ns ! j
     \<and> (decoder_only \<longrightarrow> j \<le> i)"

definition square_mask :: "nat \<Rightarrow> (nat \<Rightarrow> nat \<Rightarrow> bool) \<Rightarrow> fl list list" where
  "square_mask q sees = map (\<lambda>i. map (\<lambda>j. if sees i j then Fin 0 else NegInf) [0..<q]) [0..<q]"

lemma length_square_mask [simp]: "length (square_mask q sees) = q"
  by (simp add: square_mask_def)

lemma square_mask_cell [simp]:
  "i < q \<Longrightarrow> j < q \<Longrightarrow> square_mask q sees ! i ! j = (if sees i j then Fin 0 else NegInf)"
  by (simp add: square_mask_def)

lemma square_mask_row [simp]: "i < q \<Longrightarrow> length (square_mask q sees ! i) = q"
  by (simp add: square_mask_def)

lemma square_mask_shaped [simp]: "shaped q q (square_mask q sees)"
  by (auto simp: shaped_def square_mask_def)

lemma square_mask_eqI:
  assumes "shaped q q m" "\<And>i j. i < q \<Longrightarrow> j < q \<Longrightarrow> m ! i ! j = (if sees i j then Fin 0 else NegInf)"
  shows "m = square_mask q sees"
  by (intro nth_equalityI) (use assms in auto)

lemma full_is_square_mask: "full q q NegInf = square_mask q (\<lambda>_ _. False)"
  by (rule square_mask_eqI) auto

lemma owners_snoc: "owners (ns @ [n]) = owners ns @ replicate n (length ns)"
proof -
  have "map (\<lambda>k. replicate ((ns @ [n]) ! k) k) [0..<length ns] = map (\<lambda>k. replicate (ns ! k) k) [0..<length ns]"
    by (rule map_cong) (auto simp: nth_append)
  then show ?thesis by (simp only: owners_def length_append length_Cons list.size add_0_right
      add_Suc_right upt_Suc_append le0 map_append concat_append nth_append_length list.map concat.simps append_Nil2)
qed

lemma length_owners [simp]: "length (owners ns) = sum_list ns"
  by (induction ns rule: rev_induct) (simp_all add: owners_snoc, simp add: owners_def)

lemma owners_bound: "i < sum_list ns \<Longrightarrow> owners ns ! i < length ns"
proof -
  assume "i < sum_list ns"
  then have "owners ns ! i \<in> set (owners ns)" by simp
  then show ?thesis by (auto simp: owners_def)
qed

text \<open>Writing a segment makes its own tokens see each other.\<close>

lemma put_segment_square:
  assumes "start + n \<le> q"
    and "\<And>i j. i < start + n \<and> start \<le> i \<or> j < start + n \<and> start \<le> j \<Longrightarrow> \<not> sees i j"
  shows "put_segment start (start + n) (segment_mask decoder_only n) (square_mask q sees) =
    Inr (square_mask q (\<lambda>i j. sees i j \<or> start \<le> i \<and> i < start + n \<and> start \<le> j \<and> j < start + n
                          \<and> (decoder_only \<longrightarrow> j \<le> i)))"
proof -
  let ?seg = "segment_mask decoder_only n" and ?m = "square_mask q sees"
  let ?put = "\<lambda>(old, new). take start old @ new @ drop (start + n) (old :: fl list)"
  have len: "length ?seg = n" "\<And>r. r \<in> set ?seg \<Longrightarrow> length r = n" by (auto simp: segment_mask_def)
  have "(\<lambda>(old, new). let h = min (start + n) (length old); l = min start h
      in rbind (broadcast (h - l) new) (\<lambda>new. Inr (take l old @ new @ drop h old))) x = Inr (?put x)"
    if mem: "x \<in> set (zip (slice ?m start (start + n)) ?seg)" for x
  proof -
    obtain k where k: "k < n" "x = (?m ! (start + k), ?seg ! k)"
      using mem assms(1) len(1) by (auto simp: in_set_zip)
    then have "length (?m ! (start + k)) = q" "length (?seg ! k) = n" using assms(1) len by auto
    then show ?thesis using k(2) assms(1) by (simp add: Let_def broadcast_def)
  qed
  then have rmapped: "rmap (\<lambda>(old, new). let h = min (start + n) (length old); l = min start h
      in rbind (broadcast (h - l) new) (\<lambda>new. Inr (take l old @ new @ drop h old)))
      (zip (slice ?m start (start + n)) ?seg) = Inr (map ?put (zip (slice ?m start (start + n)) ?seg))"
    (is "rmap ?f ?z = Inr ?rows") using rmap_all [of ?z ?f ?put] by blast
  define rs where "rs = ?rows"
  have put: "put_segment start (start + n) ?seg ?m = Inr (take start ?m @ rs @ drop (start + n) ?m)"
    using rmapped assms(1) len(1) by (simp add: put_segment_def broadcast_def Let_def rs_def)
  have rows: "rs ! k = take start (?m ! (start + k)) @ ?seg ! k @ drop (start + n) (?m ! (start + k))"
    if "k < n" for k using that assms(1) len(1) by (simp add: rs_def)
  have rlen: "length rs = n" using assms(1) len(1) by (simp add: rs_def)
  have rowlen: "length (?m ! i) = q" "length (?seg ! k) = n" if "i < q" "k < n" for i k
    using that len by simp_all
  have "length r = q" if mem: "r \<in> set rs" for r
  proof -
    obtain k where k: "k < n" "r = rs ! k" using mem rlen by (auto simp: in_set_conv_nth)
    have "start + k < q" using k(1) assms(1) by simp
    note rl = rowlen [OF this k(1)]
    show ?thesis unfolding k(2) rows [OF k(1)] using rl assms(1) by simp
  qed
  then have "\<forall>r \<in> set rs. length r = q" by blast
  moreover have all: "\<forall>r \<in> set ?m. length r = q" by (auto simp: square_mask_def)
  have "\<forall>r \<in> set (take start ?m). length r = q" "\<forall>r \<in> set (drop (start + n) ?m). length r = q"
    using all by (meson in_set_takeD in_set_dropD)+
  ultimately have "\<forall>r \<in> set (take start ?m @ rs @ drop (start + n) ?m). length r = q"
    unfolding set_append by blast
  moreover have "length (take start ?m @ rs @ drop (start + n) ?m) = q" using assms(1) rlen by simp
  ultimately have shape: "shaped q q (take start ?m @ rs @ drop (start + n) ?m)"
    unfolding shaped_def by blast
  have "take start ?m @ rs @ drop (start + n) ?m = square_mask q (\<lambda>i j. sees i j
      \<or> start \<le> i \<and> i < start + n \<and> start \<le> j \<and> j < start + n \<and> (decoder_only \<longrightarrow> j \<le> i))"
  proof (rule square_mask_eqI [OF shape])
    fix i j assume ij: "i < q" "j < q"
    have outer: "(take start ?m @ rs @ drop (start + n) ?m) ! i =
        (if start \<le> i \<and> i < start + n then rs ! (i - start) else ?m ! i)"
      using nth_take_mid_drop [of start "start + n" ?m rs i] assms(1) rlen ij(1) by simp
    show "(take start ?m @ rs @ drop (start + n) ?m) ! i ! j = (if sees i j
      \<or> start \<le> i \<and> i < start + n \<and> start \<le> j \<and> j < start + n \<and> (decoder_only \<longrightarrow> j \<le> i)
      then Fin 0 else NegInf)"
    proof (cases "start \<le> i \<and> i < start + n")
      case True
      then have k: "i - start < n" "start + (i - start) = i" by auto
      have "rs ! (i - start) ! j =
          (if start \<le> j \<and> j < start + n then ?seg ! (i - start) ! (j - start) else ?m ! i ! j)"
        unfolding rows [OF k(1)] k(2)
        using nth_take_mid_drop [of start "start + n" "?m ! i" "?seg ! (i - start)" j] assms(1) ij
          rowlen [OF ij(1) k(1)] by simp
      then show ?thesis using True ij assms(2) [of i j] unfolding outer by (auto simp: segment_mask_def)
    next
      case False
      then show ?thesis unfolding outer using ij by auto
    qed
  qed
  then show ?thesis using put by simp
qed

section \<open>The mask of a fused row\<close>

lemma same_request_snoc:
  "same_request decoder_only (ns @ [n]) i j \<longleftrightarrow> same_request decoder_only ns i j
     \<or> sum_list ns \<le> i \<and> i < sum_list ns + n \<and> sum_list ns \<le> j \<and> j < sum_list ns + n
       \<and> (decoder_only \<longrightarrow> j \<le> i)"
  using owners_bound [of i ns] owners_bound [of j ns]
  by (auto simp: same_request_def owners_snoc nth_append)

lemma fused_mask_loop:
  assumes "sum_list ns \<le> q"
  shows "rfold (mask_step decoder_only 1) ([full q q NegInf], 0, 0) (map int ns) =
    Inr ([square_mask q (same_request decoder_only ns)], sum_list ns, 0)"
  using assms
proof (induction ns rule: rev_induct)
  case Nil
  then show ?case by (simp add: full_is_square_mask same_request_def)
next
  case (snoc n ns)
  show ?case
  proof (cases "n = 0")
    case True
    then have "same_request decoder_only (ns @ [n]) = same_request decoder_only ns"
      by (auto simp: same_request_snoc fun_eq_iff)
    then show ?thesis using snoc True by (simp add: rfold_append mask_step_def)
  next
    case False
    have "put_segment (sum_list ns) (sum_list ns + n) (segment_mask decoder_only n)
        (square_mask q (same_request decoder_only ns))
      = Inr (square_mask q (same_request decoder_only (ns @ [n])))"
      unfolding same_request_snoc using snoc.prems
      by (intro put_segment_square) (auto simp: same_request_def)
    then show ?thesis using snoc False by (simp add: rfold_append mask_step_def Let_def)
  qed
qed

text \<open>C32. In a fused row a token attends exactly to the tokens of its own request (in a decoder, to the
  earlier ones and itself): for sequences that fit into the row the mask is built without an error,
  and its entry is zero for those pairs and \<open>-inf\<close> for all others, padding included.\<close>

theorem mask_separates_requests:
  assumes "sum_list ns \<le> q"
  shows "\<exists>m. generate_attn_mask (map int ns) q 1 decoder_only = Inr [m] \<and> shaped q q m
    \<and> (\<forall>i < q. \<forall>j < q. m ! i ! j = (if same_request decoder_only ns i j then Fin 0 else NegInf))"
  using fused_mask_loop [OF assms, of decoder_only] by (simp add: generate_attn_mask_def)

theorem mask_separates_requests_witness:
  "\<exists>m. generate_attn_mask [2, 0, 1] 4 1 True = Inr [m] \<and> shaped 4 4 m
    \<and> (\<forall>i < 4. \<forall>j < 4. m ! i ! j = (if same_request True [2, 0, 1] i j then Fin 0 else NegInf))"
  using mask_separates_requests [of "[2, 0, 1]" 4 True] by simp

section \<open>The masks of separate rows\<close>

definition own_row :: "bool \<Rightarrow> nat \<Rightarrow> nat \<Rightarrow> nat \<Rightarrow> bool" where
  "own_row decoder_only n i j \<longleftrightarrow> i < n \<and> j < n \<and> (decoder_only \<longrightarrow> j \<le> i)"

lemma row_masks_loop:
  assumes "1 < b" "length ns \<le> b" "\<forall>n \<in> set ns. 0 < n \<and> n \<le> q"
  shows "rfold (mask_step decoder_only b) (replicate b (full q q NegInf), 0, 0) (map int ns) =
    Inr (map (\<lambda>k. square_mask q (\<lambda>i j. k < length ns \<and> own_row decoder_only (ns ! k) i j)) [0..<b],
         0, length ns)"
  using assms(2,3)
proof (induction ns rule: rev_induct)
  case Nil
  show ?case by (simp add: full_is_square_mask map_replicate_trivial)
next
  case (snoc n ns)
  let ?M = "\<lambda>ns. map (\<lambda>k. square_mask q (\<lambda>i j. k < length ns \<and> own_row decoder_only (ns ! k) i j)) [0..<b]"
  have put: "put_segment 0 n (segment_mask decoder_only n) (square_mask q (\<lambda>_ _. False))
      = Inr (square_mask q (own_row decoder_only n))"
    using put_segment_square [of 0 n q "\<lambda>_ _. False" decoder_only] snoc.prems
    by (simp add: own_row_def [abs_def])
  have "(?M ns)[length ns := square_mask q (own_row decoder_only n)] = ?M (ns @ [n])"
    using snoc.prems by (intro nth_equalityI) (auto simp: nth_list_update nth_append less_Suc_eq)
  then show ?case using snoc put assms(1) by (simp add: rfold_append mask_step_def Let_def)
qed

lemma row_masks:
  assumes "length ns \<le> b" "\<forall>n \<in> set ns. 0 < n \<and> n \<le> q" "ns \<noteq> []"
  shows "generate_attn_mask (map int ns) q b decoder_only =
    Inr (map (\<lambda>k. square_mask q (\<lambda>i j. k < length ns \<and> own_row decoder_only (ns ! k) i j)) [0..<b])"
proof (cases "b = 1")
  case True
  then obtain n where "ns = [n]" "n \<le> q" using assms by (cases ns) auto
  moreover have "same_request decoder_only [n] = own_row decoder_only n"
    by (auto simp: same_request_def own_row_def owners_def fun_eq_iff)
  ultimately show ?thesis using fused_mask_loop [of ns q decoder_only] True
    by (simp add: generate_attn_mask_def)
next
  case False
  then have "1 < b" using assms(1,3) by (cases ns) auto
  then show ?thesis using row_masks_loop [of b ns q decoder_only] assms(1,2)
    by (simp add: generate_attn_mask_def)
qed

end
