(* ===== verification/PoolingBatch.thy ===== *)
theory PoolingBatch
  imports BatchLaws
begin

text \<open>
  The persistent batch of the pooling runner. Its requests carry pooling parameters instead of
  sampling parameters, so the row of a request says less: its tokens, its counters, its adapter and,
  keyed by the request, its pooling parameters and states. The batch keeps the same contract, with
  this content.
\<close>

section \<open>What the batch says about a pooling request\<close>

record pool_view =
  pv_tokens :: "int list"
  pv_num_tokens :: nat
  pv_num_prompt_tokens :: nat
  pv_num_computed_tokens :: nat
  pv_lora :: int
  pv_params :: "pooling_params option"
  pv_states :: "nat option"

definition pool_view_of ::
  "pooling_params option \<Rightarrow> nat option \<Rightarrow> 'r row_view \<Rightarrow> pool_view" where
  "pool_view_of params states v =
     \<lparr> pv_tokens = rv_tokens v, pv_num_tokens = rv_num_tokens v,
       pv_num_prompt_tokens = rv_num_prompt_tokens v,
       pv_num_computed_tokens = rv_num_computed_tokens v, pv_lora = rv_lora v,
       pv_params = params, pv_states = states \<rparr>"

definition pooling_view ::
  "(nat \<Rightarrow> 'bt \<Rightarrow> 'r) \<Rightarrow> 'bt input_batch \<Rightarrow> req_id \<Rightarrow> pool_view option" where
  "pooling_view row b rid =
     map_option (pool_view_of (dget (pooling_params b) rid) (dget (pooling_states b) rid))
       (batch_view row b rid)"

definition keyed_by_requests :: "'bt input_batch \<Rightarrow> (req_id, 'v) dict \<Rightarrow> bool" where
  "keyed_by_requests b d \<longleftrightarrow> distinct (dkeys d) \<and> set (dkeys d) = ids_of (req_ids b)"

definition pool_ok ::
  "'bt vllm_ops \<Rightarrow> (nat \<Rightarrow> 'bt \<Rightarrow> int list list) \<Rightarrow> 'bt input_batch \<Rightarrow> bool" where
  "pool_ok ops row b \<longleftrightarrow>
     batch_inv b \<and> lora_inv b \<and> vllm_laws ops row \<and> is_pooling_model b
     \<and> keyed_by_requests b (pooling_params b) \<and> keyed_by_requests b (pooling_states b)"

definition pool_fits :: "store \<Rightarrow> cached_request \<Rightarrow> nat \<times> nat \<times> nat \<times> bool \<times> bool \<Rightarrow> bool" where
  "pool_fits st request c =
     (case c of (_, max_len, _) \<Rightarrow>
       cr_sampling_params request = None \<and> cr_pooling_params request \<noteq> None
       \<and> cr_pooling_states request \<noteq> None
       \<and> (case cr_prompt_token_ids request of None \<Rightarrow> False
          | Some prompt \<Rightarrow> length prompt + length (st (cr_output_token_ids request)) \<le> max_len)
       \<and> (\<forall>l. cr_lora_request request = Some l \<longrightarrow> lora_int_id l \<noteq> 0))"

definition pool_wanted :: "store \<Rightarrow> cached_request \<Rightarrow> pool_view" where
  "pool_wanted st request =
     (let prompt = the (cr_prompt_token_ids request); out = st (cr_output_token_ids request)
      in \<lparr> pv_tokens = prompt @ out, pv_num_tokens = length prompt + length out,
           pv_num_prompt_tokens = length prompt,
           pv_num_computed_tokens = cr_num_computed_tokens request,
           pv_lora = (case cr_lora_request request of None \<Rightarrow> 0 | Some l \<Rightarrow> lora_int_id l),
           pv_params = cr_pooling_params request, pv_states = cr_pooling_states request \<rparr>)"

section \<open>Removing and condensing\<close>

lemma drop_lora_pooling:
  assumes "drop_lora rid i b = Inr b'"
  shows "pooling_params b' = pooling_params b" "pooling_states b' = pooling_states b"
    "is_pooling_model b' = is_pooling_model b"
proof -
  have "pooling_params b' = pooling_params b \<and> pooling_states b' = pooling_states b
      \<and> is_pooling_model b' = is_pooling_model b"
  proof (cases "request_lora_mapping b ! i = 0")
    case True
    then show ?thesis using assms by (simp add: drop_lora_def)
  next
    case False
    obtain users where users: "ditem (lora_id_to_request_ids b) (request_lora_mapping b ! i) = Inr users"
      using assms False by (auto simp: drop_lora_def Let_def rbind_Inr_iff)
    then show ?thesis
      using assms False unfolding drop_lora_def Let_def
      by (cases "users - {rid} = {}") (auto simp: rbind_Inr_iff)
  qed
  then show "pooling_params b' = pooling_params b" "pooling_states b' = pooling_states b"
    "is_pooling_model b' = is_pooling_model b" by simp_all
qed

lemma remove_pooling:
  assumes "remove_request rid b = Inr (Some i, b')" "is_pooling_model b"
  shows "pooling_params b' = dpop (pooling_params b) rid"
    "pooling_states b' = dpop (pooling_states b) rid"
proof -
  obtain ids outs c where c: "drop_lora rid i (b\<lparr>req_id_to_index := dpop (req_id_to_index b) rid,
      req_ids := ids, req_output_token_ids := outs\<rparr>) = Inr c"
    "b' = (if is_pooling_model c then drop_pooling rid c else drop_sampling rid i c)"
    using assms(1) by (auto simp: remove_request_def Let_def res_simps split: option.splits)
  note drop_lora_pooling [OF c(1)]
  then show "pooling_params b' = dpop (pooling_params b) rid"
    "pooling_states b' = dpop (pooling_states b) rid"
    using c(2) assms(2) by (simp_all add: drop_pooling_def)
qed

lemma condense_loop_pooling:
  "condense_loop ops es l b = Inr b'
    \<Longrightarrow> pooling_params b' = pooling_params b \<and> pooling_states b' = pooling_states b"
proof (induction ops es l b rule: condense_loop.induct)
  case (1 ops es l b)
  let ?src = "skip_empty es l" and ?dst = "last es"
  show ?case
  proof (cases "es = [] \<or> ?src \<le> int ?dst")
    case True
    then have "b' = b"
      using "1.prems" by (cases "es = []") (simp_all add: condense_loop.simps [of ops _ l b] Let_def)
    then show ?thesis by simp
  next
    case False
    then obtain c where c: "move_row ops (nat ?src) ?dst b = Inr c"
      "condense_loop ops (butlast es) (?src - 1) c = Inr b'"
      using "1.prems" by (auto simp: condense_loop.simps [of ops es l b] Let_def res_simps)
    have "pooling_params c = pooling_params b \<and> pooling_states c = pooling_states b"
      using c(1) by (auto simp: move_row_def moved_row_def res_simps split: option.splits)
    then show ?thesis using "1.IH" [OF _ refl refl _ c] False by auto
  qed
qed

lemma condense_pooling:
  assumes "condense ops es b = Inr b'"
  shows "pooling_params b' = pooling_params b" "pooling_states b' = pooling_states b"
  using assms condense_loop_pooling
  by (fastforce simp: condense_def Let_def res_simps split: if_splits)+

section \<open>Adding a pooling request\<close>

lemma add_pooling_ok:
  assumes inv: "batch_inv b" and linv: "lora_inv b" and laws: "vllm_laws ops row"
    and pool: "is_pooling_model b"
    and fits: "pool_fits st request (batch_static ops b)"
    and new: "dget (req_id_to_index b) (cr_req_id request) = None"
    and slot: "i \<in> holes b \<or> i = length (req_ids b)" and room: "i < max_num_reqs b"
    and ix: "ix = Some i \<or> ix = None \<and> i = num_reqs b"
  obtains b' pp ps where "add_request ops st request ix b = Inr b'" "batch_inv b'" "lora_inv b'"
    "req_ids b' = placed_at (req_ids b) i (cr_req_id request)"
    "batch_static ops b' = batch_static ops b"
    "pooling_params b' = dset (pooling_params b) (cr_req_id request) pp"
    "pooling_states b' = dset (pooling_states b) (cr_req_id request) ps"
    "pooling_view row b' = (pooling_view row b)(cr_req_id request \<mapsto> pool_wanted st request)"
proof -
  note D = batch_invD [OF inv]
  note L = arrays_sizedD [OF D(1)]
  define rid where "rid = cr_req_id request"
  define out where "out = st (cr_output_token_ids request)"
  obtain prompt pp ps where q: "cr_prompt_token_ids request = Some prompt"
    "cr_sampling_params request = None" "cr_pooling_params request = Some pp"
    "cr_pooling_states request = Some ps" "length prompt + length out \<le> max_model_len b"
    "\<And>l. cr_lora_request request = Some l \<Longrightarrow> lora_int_id l \<noteq> 0"
    using fits by (auto simp: pool_fits_def batch_static_def out_def split: option.splits)
  have ile: "i \<le> length (req_ids b)" using slot by (auto simp: holes_def)
  have nlive: "\<not> live b i" using slot by (auto simp: holes_def live_def)
  have row_len: "length (token_ids_cpu b ! i) = max_model_len b" using L(1,2) room by simp
  have P: "place_request request i b = Inr (placed request i b)" using ile D(2) by (rule place_request_ok)
  have Pf: "token_ids_cpu (placed request i b) = token_ids_cpu b" by (simp add: placed_def)
  obtain toks where W: "write_tokens ops st request i (placed request i b) =
       Inr ((placed request i b)\<lparr>num_prompt_tokens := (num_prompt_tokens (placed request i b))[i := length prompt],
              token_ids_cpu := (token_ids_cpu (placed request i b))[i := toks],
              num_tokens := (num_tokens (placed request i b))[i := length prompt + length out],
              num_tokens_no_spec := (num_tokens_no_spec (placed request i b))[i := length prompt + length out],
              num_computed_tokens := (num_computed_tokens (placed request i b))[i := cr_num_computed_tokens request],
              block_table := (if vo_has_tables ops (block_table (placed request i b))
                              then vo_add_row ops (cr_block_ids request) i (block_table (placed request i b))
                              else block_table (placed request i b))\<rparr>)" (is "_ = Inr ?w")
      and tl: "length toks = max_model_len b"
      and tt: "take (length prompt + length out) toks = prompt @ out"
    using write_tokens_ok [where st = st and request = request and prompt = prompt and out = out
        and c = "placed request i b" and i = i and ops = ops and row = row]
      q(1,5) row_len room L(1) laws out_def unfolding Pf by auto
  define d where "d = ?w\<lparr>pooling_params := dset (pooling_params ?w) rid pp,
      pooling_states := dset (pooling_states ?w) rid ps,
      needs_token_ids := (needs_token_ids ?w)[i := pp_requires_token_ids pp]\<rparr>"
  have T: "write_params request i ?w = Inr d"
    by (simp add: write_params_def write_pooling_def q d_def rid_def Let_def)
  define b' where "b' = write_lora request i d"
  have ok: "add_request ops st request ix b = Inr b'"
    using ix room P W T by (auto simp: add_request_def b'_def)
  define lid where "lid = (case cr_lora_request request of None \<Rightarrow> 0 | Some l \<Rightarrow> lora_int_id l)"
  note B = write_lora_fields [of request i d, folded b'_def lid_def]
  note S = d_def placed_def
  have pl: "pooling_params (write_lora request i d) = pooling_params d"
    "pooling_states (write_lora request i d) = pooling_states d"
    by (simp_all add: write_lora_def Let_def split: option.splits)
  have F1: "req_ids d = placed_at (req_ids b) i rid"
    "req_output_token_ids d = (if i = length (req_ids b)
          then req_output_token_ids b @ [Some (cr_output_token_ids request)]
          else (req_output_token_ids b)[i := Some (cr_output_token_ids request)])"
    "req_id_to_index d = dset (req_id_to_index b) rid i"
    "max_num_reqs d = max_num_reqs b" "max_model_len d = max_model_len b"
    "vocab_size d = vocab_size b" "is_pooling_model d = is_pooling_model b"
    "token_ids_cpu d = (token_ids_cpu b)[i := toks]"
    "request_lora_mapping d = request_lora_mapping b"
    "num_tokens d = (num_tokens b)[i := length prompt + length out]"
    "num_tokens_no_spec d = (num_tokens_no_spec b)[i := length prompt + length out]"
    "num_prompt_tokens d = (num_prompt_tokens b)[i := length prompt]"
    "num_computed_tokens d = (num_computed_tokens b)[i := cr_num_computed_tokens request]"
    "block_table d = (if vo_has_tables ops (block_table b)
        then vo_add_row ops (cr_block_ids request) i (block_table b) else block_table b)"
    "pooling_params d = dset (pooling_params b) rid pp"
    "pooling_states d = dset (pooling_states b) rid ps"
    by (simp_all add: S rid_def placed_at_def)
  have F2: "temperature d = temperature b" "top_p d = top_p b" "top_k d = top_k b" "min_p d = min_p b"
    "frequency_penalties d = frequency_penalties b" "presence_penalties d = presence_penalties b"
    "repetition_penalties d = repetition_penalties b" "logit_bias d = logit_bias b"
    "allowed_token_ids_mask d = allowed_token_ids_mask b" "generators d = generators b"
    "min_tokens d = min_tokens b" "bad_words_token_ids d = bad_words_token_ids b"
    by (simp_all add: S)
  note F = B [unfolded F1 F2] pl [folded b'_def, unfolded F1 F2]
  have none: "generators b = []" "min_tokens b = []" "bad_words_token_ids b = []"
    using D(9) pool by auto
  have idx: "j \<noteq> i" if "dget (req_id_to_index b) r = Some j" for r j
    using that D(5) nlive by (auto simp: live_def)
  have toks_ok: "\<forall>r \<in> set (token_ids_cpu b'). length r = max_model_len b"
    using L(2) tl by (auto simp: F dest!: set_update_subset_insert [THEN subsetD])
  have inv': "batch_inv b'"
    unfolding batch_inv_def
  proof (intro conjI allI impI)
    show "arrays_sized b'"
      using L toks_ok by (simp add: arrays_sized_def Let_def F split: option.splits)
    show "length (req_output_token_ids b') = length (req_ids b')" using D(2) by (simp add: F placed_at_def)
    show "length (req_ids b') \<le> max_num_reqs b'" using D(3) room by (simp add: F placed_at_def)
    show "distinct (dkeys (req_id_to_index b'))" using D(4) by (simp add: F distinct_update)
    show "dget (req_id_to_index b') r = Some j \<longleftrightarrow> j < length (req_ids b') \<and> req_ids b' ! j = Some r"
      for r j
      using D(5) [of r j] D(5) [of rid j] idx [of r] new ile nlive
      by (cases "i = length (req_ids b)")
        (auto simp: F placed_at_def rid_def nth_append nth_list_update live_def less_Suc_eq)
  qed (simp_all add: F none)
  have new_row: "pool_view_of (Some pp) (Some ps) (row_at row b' i) = pool_wanted st request"
    using room by (simp add: pool_view_of_def row_at_def pool_wanted_def F tt L q lid_def
        Let_def out_def [symmetric])
  have old_row: "pool_view_of x y (row_at row b' j) = pool_view_of x y (row_at row b j)" if "j \<noteq> i" for x y j
    using that by (simp add: pool_view_of_def row_at_def F)
  show ?thesis
  proof (rule that [OF ok inv'])
    show "lora_inv b'"
      unfolding b'_def
      by (rule write_lora_ok [OF linv inv new nlive room q(6)]) (simp_all add: F1 rid_def S)
    show "batch_static ops b' = batch_static ops b"
      using laws by (simp add: batch_static_def F vllm_laws_def)
    show "pooling_view row b' = (pooling_view row b)(cr_req_id request \<mapsto> pool_wanted st request)"
    proof
      fix r
      show "pooling_view row b' r = ((pooling_view row b)(cr_req_id request \<mapsto> pool_wanted st request)) r"
        using new_row old_row idx [of r] new
        by (cases "dget (req_id_to_index b) r") (auto simp: pooling_view_def batch_view_def F rid_def)
    qed
  qed (simp_all add: F rid_def)
qed

section \<open>The contract\<close>

lemma keyed_update:
  assumes "keyed_by_requests b d" "req_ids b' = placed_at (req_ids b) i r"
    and "i \<in> none_at (req_ids b) \<or> i = length (req_ids b)"
  shows "keyed_by_requests b' (dset d r v)"
  using assms(1) ids_of_placed [OF assms(3), of r] distinct_update [of d r v]
  unfolding keyed_by_requests_def dkeys_dset assms(2) by simp

lemma keyed_delete:
  assumes "keyed_by_requests b d" "req_ids b' = (req_ids b)[i := None]" "batch_inv b"
    and "i < length (req_ids b)" "req_ids b ! i = Some r"
  shows "keyed_by_requests b' (dpop d r)"
proof -
  have "ids_of (req_ids b') = ids_of (req_ids b) - {r}"
    using ids_of_cleared [OF assms(4,5)] live_index_unique [OF assms(3)] assms(2,4,5) by metis
  then show ?thesis using assms(1) distinct_dpop [of d r] unfolding keyed_by_requests_def dkeys_dpop by simp
qed

interpretation pb: request_batch req_ids "pool_ok ops row" "pooling_view row" "batch_static ops"
  fst "pool_fits st" cr_req_id "\<lambda>q _. pool_wanted st q" "add_request ops st" remove_request
  "condense ops"
  for ops :: "'bt vllm_ops" and row :: "nat \<Rightarrow> 'bt \<Rightarrow> int list list" and st :: store
proof unfold_locales
  fix s :: "'bt input_batch" and i j r
  assume "pool_ok ops row s" "i < length (req_ids s)" "j < length (req_ids s)"
    "req_ids s ! i = Some r" "req_ids s ! j = Some r"
  then show "i = j" using live_index_unique by (auto simp: pool_ok_def)
next
  fix s :: "'bt input_batch" and r
  assume "pool_ok ops row s" "r \<notin> ids_of (req_ids s)"
  then have none: "dget (req_id_to_index s) r = None"
    using keys_are_ids [of s r] dget_None_iff [of "req_id_to_index s" r]
    by (auto simp: pool_ok_def ids_of_def)
  then show "remove_request r s = Inr (None, s)" by (rule remove_absent)
  show "pooling_view row s r = None" using none by (simp add: pooling_view_def batch_view_def)
next
  fix s :: "'bt input_batch" and i r
  assume ok: "pool_ok ops row s" and i: "i < length (req_ids s)" "req_ids s ! i = Some r"
  have p: "is_pooling_model s" "batch_inv s" "keyed_by_requests s (pooling_params s)"
    "keyed_by_requests s (pooling_states s)" using ok by (simp_all add: pool_ok_def)
  have "dget (req_id_to_index s) r = Some i" using i batch_invD(5) [OF p(2)] by auto
  then obtain s' where s': "remove_request r s = Inr (Some i, s')" "batch_inv s'" "lora_inv s'"
    "req_ids s' = (req_ids s)[i := None]" "batch_view row s' = (batch_view row s)(r := None)"
    "batch_static ops s' = batch_static ops s"
    using ok remove_request_ok [of s r i] unfolding pool_ok_def by metis
  note R = remove_pooling [OF s'(1) p(1)]
  have "pooling_view row s' = (pooling_view row s)(r := None)"
    by (auto simp: pooling_view_def s'(5) R fun_eq_iff)
  moreover have "pool_ok ops row s'"
    using ok s'(2,3,6) keyed_delete [OF p(3) s'(4) p(2) i] keyed_delete [OF p(4) s'(4) p(2) i]
    by (simp add: pool_ok_def batch_static_def R)
  ultimately show "\<exists>s'. remove_request r s = Inr (Some i, s') \<and> pool_ok ops row s'
      \<and> req_ids s' = (req_ids s)[i := None] \<and> pooling_view row s' = (pooling_view row s)(r := None)
      \<and> batch_static ops s' = batch_static ops s"
    using s' by blast
next
  fix s :: "'bt input_batch" and q i ix
  assume ok: "pool_ok ops row s" and fits: "pool_fits st q (batch_static ops s)"
    and new: "cr_req_id q \<notin> ids_of (req_ids s)" and room: "i < fst (batch_static ops s)"
    and i: "i \<in> none_at (req_ids s) \<or> i = length (req_ids s)"
    and ix: "ix = Some i \<or> ix = None \<and> none_at (req_ids s) = {} \<and> i = length (req_ids s)"
  have p: "batch_inv s" "lora_inv s" "vllm_laws ops row" "is_pooling_model s"
    "keyed_by_requests s (pooling_params s)" "keyed_by_requests s (pooling_states s)"
    using ok by (simp_all add: pool_ok_def)
  have absent: "dget (req_id_to_index s) (cr_req_id q) = None"
    using keys_are_ids [OF p(1), of "cr_req_id q"] dget_None_iff [of "req_id_to_index s"] new
    by (auto simp: ids_of_def)
  have slot: "i \<in> holes s \<or> i = length (req_ids s)" using i by (simp add: none_at_def holes_def)
  have room': "i < max_num_reqs s" using room by (simp add: batch_static_def)
  have ix': "ix = Some i \<or> ix = None \<and> i = num_reqs s"
    using ix no_holes_num_reqs [OF p(1)] by auto
  obtain s' pp ps where s': "add_request ops st q ix s = Inr s'" "batch_inv s'" "lora_inv s'"
    "req_ids s' = placed_at (req_ids s) i (cr_req_id q)" "batch_static ops s' = batch_static ops s"
    "pooling_params s' = dset (pooling_params s) (cr_req_id q) pp"
    "pooling_states s' = dset (pooling_states s) (cr_req_id q) ps"
    "pooling_view row s' = (pooling_view row s)(cr_req_id q \<mapsto> pool_wanted st q)"
    by (rule add_pooling_ok [OF p(1-4) fits absent slot room' ix'])
  have "pool_ok ops row s'"
    using p s'(2,3,5) keyed_update [OF p(5) s'(4) i] keyed_update [OF p(6) s'(4) i]
    by (simp add: pool_ok_def batch_static_def s'(6,7))
  then show "\<exists>s'. add_request ops st q ix s = Inr s' \<and> pool_ok ops row s'
      \<and> req_ids s' = placed_at (req_ids s) i (cr_req_id q)
      \<and> pooling_view row s' = (pooling_view row s)(cr_req_id q \<mapsto> pool_wanted st q)
      \<and> batch_static ops s' = batch_static ops s"
    using s' by blast
next
  fix s :: "'bt input_batch" and es :: "nat list"
  assume ok: "pool_ok ops row s" and es: "sorted_wrt (>) es" "set es = none_at (req_ids s)"
  have inv: "batch_inv s" and laws: "vllm_laws ops row" using ok by (simp_all add: pool_ok_def)
  have es': "set es = holes s" using es(2) by (simp add: none_at_def holes_def)
  obtain s' where s': "condense ops es s = Inr s'" "batch_inv s'" "holes s' = {}"
    "batch_view row s' = batch_view row s" "batch_static ops s' = batch_static ops s"
    "lora_inv s' = lora_inv s"
    using condense_ok [OF inv laws es(1) es'] by metis
  note C = condense_pooling [OF s'(1)]
  have "ids_of (req_ids t) = {r. batch_view row t r \<noteq> None}" if "batch_inv t" for t :: "'bt input_batch"
    using keys_are_ids [OF that] dget_None_iff [of "req_id_to_index t"]
    by (auto simp: ids_of_def batch_view_def)
  then have ids: "ids_of (req_ids s') = ids_of (req_ids s)" using s' inv by simp
  then have "pool_ok ops row s'"
    using ok s' by (simp add: pool_ok_def keyed_by_requests_def C batch_static_def)
  moreover have "pooling_view row s' = pooling_view row s"
    by (simp add: pooling_view_def fun_eq_iff s'(4) C)
  ultimately show "\<exists>s'. condense ops es s = Inr s' \<and> pool_ok ops row s' \<and> none_at (req_ids s') = {}
      \<and> ids_of (req_ids s') = ids_of (req_ids s) \<and> pooling_view row s' = pooling_view row s
      \<and> batch_static ops s' = batch_static ops s"
    using s' ids by (auto simp: none_at_def holes_def)
next
  fix s :: "'bt input_batch"
  assume "pool_ok ops row s"
  then show "length (req_ids s) \<le> fst (batch_static ops s)"
    using batch_invD(3) [of s] by (simp add: pool_ok_def batch_static_def)
qed

end
