(* ===== verification/PoolingState.thy ===== *)
theory PoolingState
  imports PoolingBatch RunnerState
begin

text \<open>
  The update of the pooling runner at the start of a step: method \<open>_update_states\<close> of
  \<open>vllm_tt/pooling_runner.py\<close>. It repeats the method of the generation runner, without block
  tables: it never binds \<open>new_block_ids\<close>, which it reads when a cached request is still in the
  batch.

  \<open>pool_states\<close> stands for what vLLM's \<open>CachedRequestState\<close> makes of the pooling parameters when a
  request is created.
\<close>

section \<open>The scheduler's output\<close>

record pool_request_data = new_request_data +
  nr_pooling_params :: "pooling_params option"

record pool_output =
  po_new_reqs :: "pool_request_data list"
  po_cached_reqs :: cached_request_data
  po_num_scheduled_tokens :: "(req_id, nat) dict"
  po_total_num_scheduled_tokens :: nat
  po_finished_req_ids :: "req_id list"
  po_free_encoder_mm_hashes :: "string list option"

section \<open>The method\<close>

definition pool_forget :: "pool_output \<Rightarrow> 'bt runner_state \<Rightarrow> 'bt runner_state" where
  "pool_forget po s =
     s\<lparr>rs_requests := fold (\<lambda>r d. dpop d r) (po_finished_req_ids po) (rs_requests s),
       rs_encoder_cache := (case po_free_encoder_mm_hashes po of
          None \<Rightarrow> rs_encoder_cache s
        | Some hs \<Rightarrow> fold (\<lambda>h d. dpop d h) hs (rs_encoder_cache s))\<rparr>"

definition pool_unscheduled :: "pool_output \<Rightarrow> 'bt input_batch \<Rightarrow> req_id list" where
  "pool_unscheduled po b =
     filter (\<lambda>r. r \<notin> set (dkeys (po_num_scheduled_tokens po))) (dkeys (req_id_to_index b))"

definition pool_cached ::
  "(pooling_params option \<Rightarrow> nat option) \<Rightarrow> addr \<Rightarrow> pool_request_data \<Rightarrow> cached_request" where
  "pool_cached pool_states a nr =
     \<lparr> cr_req_id = nr_req_id nr, cr_prompt_token_ids = nr_prompt_token_ids nr,
       cr_sampling_params = nr_sampling_params nr, cr_pooling_params = nr_pooling_params nr,
       cr_pooling_states = pool_states (nr_pooling_params nr), cr_generator = None,
       cr_block_ids = nr_block_ids nr, cr_num_computed_tokens = nr_num_computed_tokens nr,
       cr_output_token_ids = a, cr_lora_request = nr_lora_request nr \<rparr>"

definition pool_cache_new ::
  "(pooling_params option \<Rightarrow> nat option) \<Rightarrow> pool_request_data \<Rightarrow> 'bt runner_state \<Rightarrow> 'bt runner_state" where
  "pool_cache_new pool_states nr s =
     s\<lparr>rs_requests := dset (rs_requests s) (nr_req_id nr) (pool_cached pool_states (rs_next s) nr),
       rs_store := (rs_store s)(rs_next s := []), rs_next := Suc (rs_next s)\<rparr>"

text \<open>A request that is in the batch gets as far as the unbound name.\<close>

definition pool_update_cached ::
  "cached_request_data \<Rightarrow> 'bt runner_state \<times> req_id list \<Rightarrow> nat
     \<Rightarrow> ('bt runner_state \<times> req_id list) res" where
  "pool_update_cached cd acc i =
     (let (s, to_add) = acc
      in rbind (lget (cd_req_ids cd) i) (\<lambda>rid.
         rbind (ditem (rs_requests s) rid) (\<lambda>req.
         rbind (lget (cd_num_computed_tokens cd) i) (\<lambda>computed.
         let s = s\<lparr>rs_requests := dset (rs_requests s) rid (req\<lparr>cr_num_computed_tokens := computed\<rparr>)\<rparr>
         in case dget (req_id_to_index (rs_batch s)) rid of
              None \<Rightarrow> Inr (s, to_add @ [rid])
            | Some k \<Rightarrow> rbind (lset (num_computed_tokens (rs_batch s)) k computed) (\<lambda>_. Inl NameError)))))"

definition pool_update_states ::
  "'bt vllm_ops \<Rightarrow> (pooling_params option \<Rightarrow> nat option) \<Rightarrow> pool_output \<Rightarrow> 'bt runner_state
     \<Rightarrow> (bool \<times> 'bt runner_state) res" where
  "pool_update_states ops pool_states po s =
     rbind (remove_each remove_request False (po_finished_req_ids po) [] (rs_batch s))
       (\<lambda>(removed1, b1).
     let s1 = (pool_forget po s)\<lparr>rs_batch := b1\<rparr>; gone = pool_unscheduled po b1
     in rbind (remove_each remove_request True gone removed1 b1) (\<lambda>(removed2, b2).
     let s3 = fold (pool_cache_new pool_states) (po_new_reqs po) (s1\<lparr>rs_batch := b2\<rparr>);
         cd = po_cached_reqs po
     in rbind (rfold (pool_update_cached cd) (s3, map nr_req_id (po_new_reqs po))
                 [0..<length (cd_req_ids cd)]) (\<lambda>(s4, to_add).
     rbind (refill (add_cached ops s4) (condense ops) to_add removed2 (rs_batch s4)) (\<lambda>b5.
     Inr (gone \<noteq> [] \<or> to_add \<noteq> [], s4\<lparr>rs_batch := b5\<rparr>)))))"

section \<open>The stages\<close>

lemma pool_cache_all:
  "rs_batch (fold (pool_cache_new ps) nrs s) = rs_batch s
   \<and> rs_next (fold (pool_cache_new ps) nrs s) = rs_next s + length nrs
   \<and> (\<forall>a < rs_next s. rs_store (fold (pool_cache_new ps) nrs s) a = rs_store s a)
   \<and> (\<forall>r. r \<notin> nr_req_id ` set nrs \<longrightarrow>
        dget (rs_requests (fold (pool_cache_new ps) nrs s)) r = dget (rs_requests s) r)"
proof (induction nrs arbitrary: s)
  case (Cons nr nrs)
  show ?case using Cons.IH [of "pool_cache_new ps nr s"] by (auto simp: pool_cache_new_def)
qed simp

lemma pool_cache_new_ones:
  assumes "distinct (map nr_req_id nrs)" "nr \<in> set nrs"
  shows "\<exists>a. rs_next s \<le> a \<and> a < rs_next s + length nrs
     \<and> rs_store (fold (pool_cache_new ps) nrs s) a = []
     \<and> dget (rs_requests (fold (pool_cache_new ps) nrs s)) (nr_req_id nr) = Some (pool_cached ps a nr)"
  using assms
proof (induction nrs arbitrary: s)
  case (Cons x nrs)
  let ?t = "pool_cache_new ps x s"
  have t: "rs_next ?t = Suc (rs_next s)" "rs_store ?t (rs_next s) = []"
    "dget (rs_requests ?t) (nr_req_id x) = Some (pool_cached ps (rs_next s) x)"
    by (simp_all add: pool_cache_new_def)
  show ?case
  proof (cases "nr = x")
    case True
    then have "nr_req_id nr \<notin> nr_req_id ` set nrs" using Cons.prems(1) by simp
    then show ?thesis
      using pool_cache_all [of ps nrs ?t] t True by (intro exI [of _ "rs_next s"]) auto
  next
    case False
    then obtain a where "rs_next ?t \<le> a" "a < rs_next ?t + length nrs"
      "rs_store (fold (pool_cache_new ps) nrs ?t) a = []"
      "dget (rs_requests (fold (pool_cache_new ps) nrs ?t)) (nr_req_id nr) = Some (pool_cached ps a nr)"
      using Cons.IH [of ?t] Cons.prems by auto
    then show ?thesis using t(1) by (intro exI [of _ a]) auto
  qed
qed simp

definition counted :: "nat \<Rightarrow> cached_request \<Rightarrow> cached_request" where
  "counted computed req = req\<lparr>cr_num_computed_tokens := computed\<rparr>"

lemma pool_update_absent:
  assumes "length (cd_num_computed_tokens cd) = length (cd_req_ids cd)" "distinct (cd_req_ids cd)"
    and "\<forall>i < k. dget (rs_requests s) (cd_req_ids cd ! i) \<noteq> None
           \<and> dget (req_id_to_index (rs_batch s)) (cd_req_ids cd ! i) = None"
    and "k \<le> length (cd_req_ids cd)"
  shows "\<exists>s'. rfold (pool_update_cached cd) (s, acc) [0..<k] = Inr (s', acc @ take k (cd_req_ids cd))
     \<and> rs_batch s' = rs_batch s \<and> rs_store s' = rs_store s \<and> rs_next s' = rs_next s
     \<and> dget (rs_requests s') = (\<lambda>r. case map_of (take k (zip (cd_req_ids cd) (cd_num_computed_tokens cd))) r of
          None \<Rightarrow> dget (rs_requests s) r | Some c \<Rightarrow> map_option (counted c) (dget (rs_requests s) r))"
  using assms(3,4)
proof (induction k)
  case 0
  then show ?case by simp
next
  case (Suc k)
  let ?r = "cd_req_ids cd ! k" and ?c = "cd_num_computed_tokens cd ! k"
  let ?zip = "\<lambda>k. take k (zip (cd_req_ids cd) (cd_num_computed_tokens cd))"
  obtain s' where s': "rfold (pool_update_cached cd) (s, acc) [0..<k] = Inr (s', acc @ take k (cd_req_ids cd))"
    "rs_batch s' = rs_batch s" "rs_store s' = rs_store s" "rs_next s' = rs_next s"
    "dget (rs_requests s') = (\<lambda>r. case map_of (?zip k) r of
          None \<Rightarrow> dget (rs_requests s) r | Some c \<Rightarrow> map_option (counted c) (dget (rs_requests s) r))"
    using Suc by auto
  have k: "k < length (cd_req_ids cd)" "k < length (cd_num_computed_tokens cd)" using Suc.prems assms(1) by auto
  obtain req where req: "dget (rs_requests s) ?r = Some req" using Suc.prems(1) by blast
  have "?r \<notin> set (take k (cd_req_ids cd))"
    using assms(2) k(1) by (auto simp: in_set_conv_nth nth_eq_iff_index_eq)
  then have fresh: "map_of (?zip k) ?r = None" by (auto simp: map_of_eq_None_iff take_zip dest: set_zip_leftD)
  have zip: "?zip (Suc k) = ?zip k @ [(?r, ?c)]"
    using k by (simp add: take_Suc_conv_app_nth)
  have "dget (req_id_to_index (rs_batch s)) ?r = None" using Suc.prems(1) by simp
  then have "pool_update_cached cd (s', acc @ take k (cd_req_ids cd)) k =
      Inr (s'\<lparr>rs_requests := dset (rs_requests s') ?r (counted ?c req)\<rparr>, acc @ take (Suc k) (cd_req_ids cd))"
    using k req fresh
    by (simp add: pool_update_cached_def ditem_def s'(2,5) counted_def take_Suc_conv_app_nth)
  moreover have "(\<lambda>r. case map_of (?zip (Suc k)) r of None \<Rightarrow> dget (rs_requests s) r
       | Some c \<Rightarrow> map_option (counted c) (dget (rs_requests s) r))
     = (dget (rs_requests s'))(?r \<mapsto> counted ?c req)"
    using req fresh by (auto simp: zip s'(5) fun_eq_iff map_add_def split: option.split)
  ultimately show ?case using s' by (simp add: rfold_append)
qed

section \<open>The contract of the step\<close>

definition pool_inv ::
  "'bt vllm_ops \<Rightarrow> (nat \<Rightarrow> 'bt \<Rightarrow> int list list) \<Rightarrow> 'bt runner_state \<Rightarrow> bool" where
  "pool_inv ops row s \<longleftrightarrow>
     pool_ok ops row (rs_batch s) \<and> none_at (req_ids (rs_batch s)) = {}
     \<and> ids_of (req_ids (rs_batch s)) \<subseteq> dom (dget (rs_requests s))
     \<and> (\<forall>r req. dget (rs_requests s) r = Some req
          \<longrightarrow> cr_req_id req = r \<and> cr_output_token_ids req < rs_next s)"

text \<open>The scheduler sends exactly the requests it schedules, once each and no more than the batch
  has rows; cached requests are known and not finished; what must be added is a pooling request that
  fits a row.\<close>

definition pool_kept :: "pool_output \<Rightarrow> 'bt runner_state \<Rightarrow> req_id set" where
  "pool_kept po s = ids_of (req_ids (rs_batch s)) - set (po_finished_req_ids po)"

definition pool_consistent ::
  "'bt vllm_ops \<Rightarrow> (pooling_params option \<Rightarrow> nat option) \<Rightarrow> pool_output \<Rightarrow> 'bt runner_state \<Rightarrow> bool" where
  "pool_consistent ops pool_states po s \<longleftrightarrow>
     (let new = map nr_req_id (po_new_reqs po); cd = po_cached_reqs po; old = cd_req_ids cd;
          static = batch_static ops (rs_batch s)
      in distinct (new @ old) \<and> set (new @ old) = set (dkeys (po_num_scheduled_tokens po))
       \<and> length (new @ old) \<le> max_num_reqs (rs_batch s)
       \<and> length (cd_num_computed_tokens cd) = length old
       \<and> set new \<inter> pool_kept po s = {} \<and> set old \<inter> set (po_finished_req_ids po) = {}
       \<and> set old \<subseteq> dom (dget (rs_requests s))
       \<and> (\<forall>nr \<in> set (po_new_reqs po). pool_fits (\<lambda>_. []) (pool_cached pool_states 0 nr) static)
       \<and> (\<forall>r \<in> set old. \<forall>req. dget (rs_requests s) r = Some req
            \<longrightarrow> pool_fits (rs_store s) req static))"

lemma pool_fits_cong:
  assumes "st (cr_output_token_ids q) = st' (cr_output_token_ids q')"
    "cr_prompt_token_ids q = cr_prompt_token_ids q'" "cr_sampling_params q = cr_sampling_params q'"
    "cr_pooling_params q = cr_pooling_params q'" "cr_pooling_states q = cr_pooling_states q'"
    "cr_lora_request q = cr_lora_request q'"
  shows "pool_fits st q = pool_fits st' q'"
  using assms by (auto simp: pool_fits_def fun_eq_iff split: option.split)

text \<open>The removals, which both outcomes share.\<close>

lemma pool_removals:
  assumes inv: "pool_inv ops row s"
  obtains removed1 b1 removed2 b2 where
    "remove_each remove_request False (po_finished_req_ids po) [] (rs_batch s) = Inr (removed1, b1)"
    "remove_each remove_request True (pool_unscheduled po b1) removed1 b1 = Inr (removed2, b2)"
    "pool_ok ops row b2" "set removed2 = none_at (req_ids b2)" "distinct removed2"
    "ids_of (req_ids b2) = pool_kept po s \<inter> set (dkeys (po_num_scheduled_tokens po))"
    "batch_static ops b2 = batch_static ops (rs_batch s)"
proof -
  let ?b = "rs_batch s" and ?fin = "po_finished_req_ids po"
  have ok: "pool_ok ops row ?b" and full: "none_at (req_ids ?b) = {}"
    using inv by (auto simp: pool_inv_def)
  obtain rem1 b1 where r1: "remove_each remove_request False ?fin [] ?b = Inr (rem1, b1)"
    "pool_ok ops row b1" "set rem1 = none_at (req_ids b1)" "distinct rem1"
    "ids_of (req_ids b1) = ids_of (req_ids ?b) - set ?fin" "batch_static ops b1 = batch_static ops ?b"
    using pb.remove_each_ok [of ops row ?b "[]" False ?fin] ok full by auto
  have inv1: "batch_inv b1" using r1(2) by (simp add: pool_ok_def)
  have gone: "set (pool_unscheduled po b1) = pool_kept po s - set (dkeys (po_num_scheduled_tokens po))"
    "distinct (pool_unscheduled po b1)"
    using ids_of_keys [OF inv1] batch_invD(4) [OF inv1] r1(5)
    by (auto simp: pool_unscheduled_def pool_kept_def)
  obtain rem2 b2 where r2: "remove_each remove_request True (pool_unscheduled po b1) rem1 b1 = Inr (rem2, b2)"
    "pool_ok ops row b2" "set rem2 = none_at (req_ids b2)" "distinct rem2"
    "ids_of (req_ids b2) = ids_of (req_ids b1) - set (pool_unscheduled po b1)"
    "batch_static ops b2 = batch_static ops b1"
    using pb.remove_each_ok [OF r1(2-4), of True "pool_unscheduled po b1"] gone r1(5)
    by (auto simp: pool_kept_def)
  have "ids_of (req_ids b2) = pool_kept po s \<inter> set (dkeys (po_num_scheduled_tokens po))"
    using r2(5) r1(5) gone(1) by (auto simp: pool_kept_def)
  then show ?thesis using that r1 r2 by simp
qed

lemma pool_consistentD:
  assumes "pool_consistent ops pool_states po s"
  shows "distinct (map nr_req_id (po_new_reqs po))" "distinct (cd_req_ids (po_cached_reqs po))"
    "nr_req_id ` set (po_new_reqs po) \<inter> set (cd_req_ids (po_cached_reqs po)) = {}"
    "nr_req_id ` set (po_new_reqs po) \<union> set (cd_req_ids (po_cached_reqs po)) = set (dkeys (po_num_scheduled_tokens po))"
    "length (po_new_reqs po) + length (cd_req_ids (po_cached_reqs po)) \<le> max_num_reqs (rs_batch s)"
    "length (cd_num_computed_tokens (po_cached_reqs po)) = length (cd_req_ids (po_cached_reqs po))"
    "nr_req_id ` set (po_new_reqs po) \<inter> pool_kept po s = {}"
    "set (cd_req_ids (po_cached_reqs po)) \<inter> set (po_finished_req_ids po) = {}"
    "set (cd_req_ids (po_cached_reqs po)) \<subseteq> dom (dget (rs_requests s))"
    "\<forall>nr \<in> set (po_new_reqs po). pool_fits (\<lambda>_. []) (pool_cached pool_states 0 nr) (batch_static ops (rs_batch s))"
    "\<forall>r \<in> set (cd_req_ids (po_cached_reqs po)). \<forall>req. dget (rs_requests s) r = Some req
        \<longrightarrow> pool_fits (rs_store s) req (batch_static ops (rs_batch s))"
  using assms unfolding pool_consistent_def Let_def set_append set_map distinct_append length_append length_map
  by blast+

text \<open>The state before the loop over the cached requests.\<close>

definition pool_started ::
  "(pooling_params option \<Rightarrow> nat option) \<Rightarrow> pool_output \<Rightarrow> 'bt input_batch \<Rightarrow> 'bt runner_state \<Rightarrow> 'bt runner_state" where
  "pool_started pool_states po b2 s =
     fold (pool_cache_new pool_states) (po_new_reqs po) ((pool_forget po s)\<lparr>rs_batch := b2\<rparr>)"

lemma pool_started_facts:
  fixes b2 :: "'bt input_batch"
  assumes "pool_consistent ops pool_states po s"
  defines "s3 \<equiv> pool_started pool_states po b2 s"
  shows "rs_batch s3 = b2" "rs_next s \<le> rs_next s3" "\<forall>a < rs_next s. rs_store s3 a = rs_store s a"
    "\<forall>r. r \<notin> nr_req_id ` set (po_new_reqs po) \<longrightarrow> dget (rs_requests s3) r =
       (if r \<in> set (po_finished_req_ids po) then None else dget (rs_requests s) r)"
    "\<forall>nr \<in> set (po_new_reqs po). \<exists>a < rs_next s3. rs_store s3 a = []
       \<and> dget (rs_requests s3) (nr_req_id nr) = Some (pool_cached pool_states a nr)"
proof -
  let ?s2 = "(pool_forget po s)\<lparr>rs_batch := b2\<rparr>"
  have s2: "rs_batch ?s2 = b2" "rs_store ?s2 = rs_store s" "rs_next ?s2 = rs_next s"
    "dget (rs_requests ?s2) r = (if r \<in> set (po_finished_req_ids po) then None else dget (rs_requests s) r)" for r
    by (simp_all add: pool_forget_def dget_forget)
  note all = pool_cache_all [of pool_states "po_new_reqs po" ?s2, folded pool_started_def s3_def, unfolded s2]
  then show "rs_batch s3 = b2" "rs_next s \<le> rs_next s3" "\<forall>a < rs_next s. rs_store s3 a = rs_store s a"
    "\<forall>r. r \<notin> nr_req_id ` set (po_new_reqs po) \<longrightarrow> dget (rs_requests s3) r =
       (if r \<in> set (po_finished_req_ids po) then None else dget (rs_requests s) r)" by simp_all
  show "\<forall>nr \<in> set (po_new_reqs po). \<exists>a < rs_next s3. rs_store s3 a = []
       \<and> dget (rs_requests s3) (nr_req_id nr) = Some (pool_cached pool_states a nr)"
    using pool_cache_new_ones [OF pool_consistentD(1) [OF assms(1)], of _ ?s2 pool_states,
        folded pool_started_def s3_def, unfolded s2] all by metis
qed

lemma pool_known:
  assumes "pool_consistent ops pool_states po s" "r \<in> set (cd_req_ids (po_cached_reqs po))"
  shows "\<exists>req. dget (rs_requests s) r = Some req
    \<and> dget (rs_requests (pool_started pool_states po b2 s)) r = Some req"
proof -
  note C = pool_consistentD [OF assms(1)]
  have "r \<notin> nr_req_id ` set (po_new_reqs po)" "r \<notin> set (po_finished_req_ids po)"
    using C(3,8) assms(2) by auto
  moreover obtain req where "dget (rs_requests s) r = Some req" using C(9) assms(2) by auto
  ultimately show ?thesis using pool_started_facts(4) [OF assms(1), of b2] by simp
qed

lemma index_None_iff:
  assumes "pool_ok ops row b"
  shows "dget (req_id_to_index b) r = None \<longleftrightarrow> r \<notin> ids_of (req_ids b)"
  using ids_of_keys [of b] assms dget_None_iff [of "req_id_to_index b" r] by (simp add: pool_ok_def)

section \<open>Continued requests\<close>

text \<open>A step that schedules a cached request which is still in the batch fails: the name the method
  reads next is never bound. The generation runner appends the request's new blocks there.\<close>

theorem continued_pooling_request_raises:
  assumes "pool_inv ops row s" "pool_consistent ops pool_states po s"
    and "r \<in> set (cd_req_ids (po_cached_reqs po))" "r \<in> pool_kept po s"
  shows "pool_update_states ops pool_states po s = Inl NameError"
proof -
  let ?cd = "po_cached_reqs po" and ?acc = "map nr_req_id (po_new_reqs po)"
  note C = pool_consistentD [OF assms(2)]
  obtain rem1 b1 rem2 b2 where R: "remove_each remove_request False (po_finished_req_ids po) [] (rs_batch s) = Inr (rem1, b1)"
    "remove_each remove_request True (pool_unscheduled po b1) rem1 b1 = Inr (rem2, b2)"
    "pool_ok ops row b2" "ids_of (req_ids b2) = pool_kept po s \<inter> set (dkeys (po_num_scheduled_tokens po))"
    using pool_removals [OF assms(1)] by metis
  define s3 where "s3 = pool_started pool_states po b2 s"
  note S = pool_started_facts [OF assms(2), of b2, folded s3_def]
  let ?in = "\<lambda>i. i < length (cd_req_ids ?cd) \<and> cd_req_ids ?cd ! i \<in> ids_of (req_ids b2)"
  have "r \<in> ids_of (req_ids b2)" using assms(3,4) C(4) R(4) by auto
  then obtain i where "?in i" using assms(3) by (auto simp: in_set_conv_nth)
  define k where "k = (LEAST i. ?in i)"
  have k: "?in k" "\<And>i. i < k \<Longrightarrow> \<not> ?in i"
    unfolding k_def using LeastI [of ?in i] \<open>?in i\<close> not_less_Least by blast+
  let ?rid = "cd_req_ids ?cd ! k" and ?c = "cd_num_computed_tokens ?cd ! k"
  have "\<forall>i < k. dget (rs_requests s3) (cd_req_ids ?cd ! i) \<noteq> None
      \<and> dget (req_id_to_index (rs_batch s3)) (cd_req_ids ?cd ! i) = None"
  proof (intro allI impI)
    fix i assume i: "i < k"
    then have mem: "cd_req_ids ?cd ! i \<in> set (cd_req_ids ?cd)" "cd_req_ids ?cd ! i \<notin> ids_of (req_ids b2)"
      using k(1) k(2) [OF i] by auto
    show "dget (rs_requests s3) (cd_req_ids ?cd ! i) \<noteq> None
      \<and> dget (req_id_to_index (rs_batch s3)) (cd_req_ids ?cd ! i) = None"
      using pool_known [OF assms(2) mem(1), of b2] index_None_iff [OF R(3)] mem(2) S(1)
      unfolding s3_def [symmetric] by auto
  qed
  then obtain s4 where s4: "rfold (pool_update_cached ?cd) (s3, ?acc) [0..<k] = Inr (s4, ?acc @ take k (cd_req_ids ?cd))"
    "rs_batch s4 = b2"
    "dget (rs_requests s4) = (\<lambda>r. case map_of (take k (zip (cd_req_ids ?cd) (cd_num_computed_tokens ?cd))) r of
          None \<Rightarrow> dget (rs_requests s3) r | Some c \<Rightarrow> map_option (counted c) (dget (rs_requests s3) r))"
    using pool_update_absent [OF C(6,2), of k s3 ?acc] k(1) S(1) by auto
  have "dget (rs_requests s3) ?rid \<noteq> None"
    using pool_known [OF assms(2), of ?rid b2] k(1) unfolding s3_def by auto
  then obtain req where req: "dget (rs_requests s4) ?rid = Some req"
    by (cases "dget (rs_requests s4) ?rid") (auto simp: s4(3) split: option.splits)
  obtain j where j: "dget (req_id_to_index b2) ?rid = Some j"
    using index_None_iff [OF R(3), of ?rid] k(1) by auto
  have "batch_inv b2" using R(3) by (simp add: pool_ok_def)
  then have "j < length (num_computed_tokens b2)"
    using batch_invD(1,3) [of b2] batch_invD(5) [of b2 ?rid j] j arrays_sizedD(6) [of b2] by fastforce
  then have "pool_update_cached ?cd (s4, ?acc @ take k (cd_req_ids ?cd)) k = Inl NameError"
    using k(1) C(6) req j s4(2) by (simp add: pool_update_cached_def ditem_def)
  moreover have "[0..<length (cd_req_ids ?cd)] = [0..<k] @ k # [Suc k..<length (cd_req_ids ?cd)]"
    using k(1) upt_split [of 0 k "length (cd_req_ids ?cd)"] by (simp add: upt_conv_Cons)
  ultimately have "rfold (pool_update_cached ?cd) (s3, ?acc) [0..<length (cd_req_ids ?cd)] = Inl NameError"
    using s4(1) by (simp add: rfold_append)
  then show ?thesis
    using R(1,2) by (simp add: pool_update_states_def Let_def s3_def pool_started_def)
qed

section \<open>Steps without continued requests\<close>

lemma pool_update_states_ok:
  assumes inv: "pool_inv ops row s" and po: "pool_consistent ops pool_states po s"
    and gone: "set (cd_req_ids (po_cached_reqs po)) \<inter> pool_kept po s = {}"
  shows "\<exists>changed s'. pool_update_states ops pool_states po s = Inr (changed, s') \<and> pool_inv ops row s'
      \<and> ids_of (req_ids (rs_batch s')) = set (dkeys (po_num_scheduled_tokens po))
      \<and> batch_static ops (rs_batch s') = batch_static ops (rs_batch s)
      \<and> (\<forall>r \<in> set (dkeys (po_num_scheduled_tokens po)).
           pooling_view row (rs_batch s') r = Some (pool_wanted (rs_store s') (the (dget (rs_requests s') r))))
      \<and> (\<forall>nr \<in> set (po_new_reqs po). \<exists>a. rs_store s' a = []
           \<and> dget (rs_requests s') (nr_req_id nr) = Some (pool_cached pool_states a nr))"
proof -
  define cd where "cd = po_cached_reqs po"
  define new where "new = map nr_req_id (po_new_reqs po)"
  define S where "S = set (dkeys (po_num_scheduled_tokens po))"
  define to_add where "to_add = new @ cd_req_ids cd"
  note C = pool_consistentD [OF po, folded cd_def S_def]
  obtain rem1 b1 rem2 b2 where R: "remove_each remove_request False (po_finished_req_ids po) [] (rs_batch s) = Inr (rem1, b1)"
    "remove_each remove_request True (pool_unscheduled po b1) rem1 b1 = Inr (rem2, b2)"
    "pool_ok ops row b2" "set rem2 = none_at (req_ids b2)" "distinct rem2"
    "ids_of (req_ids b2) = pool_kept po s \<inter> S" "batch_static ops b2 = batch_static ops (rs_batch s)"
    using pool_removals [OF inv] unfolding S_def by metis
  have b2: "ids_of (req_ids b2) = {}" using R(6) C(4,7) gone unfolding cd_def [symmetric] by blast
  define s3 where "s3 = pool_started pool_states po b2 s"
  note S3 = pool_started_facts [OF po, of b2, folded s3_def]
  have known: "\<exists>req. dget (rs_requests s) r = Some req \<and> dget (rs_requests s3) r = Some req"
    if "r \<in> set (cd_req_ids cd)" for r
    using pool_known [OF po] that unfolding cd_def s3_def by blast
  let ?learn = "map_of (zip (cd_req_ids cd) (cd_num_computed_tokens cd))"
  have "\<forall>i < length (cd_req_ids cd). dget (rs_requests s3) (cd_req_ids cd ! i) \<noteq> None
      \<and> dget (req_id_to_index (rs_batch s3)) (cd_req_ids cd ! i) = None"
    using known index_None_iff [OF R(3)] b2 S3(1) nth_mem by fastforce
  then obtain s4 where s4: "rfold (pool_update_cached cd) (s3, new) [0..<length (cd_req_ids cd)] = Inr (s4, to_add)"
    "rs_batch s4 = b2" "rs_store s4 = rs_store s3" "rs_next s4 = rs_next s3"
    "dget (rs_requests s4) = (\<lambda>r. case ?learn r of
          None \<Rightarrow> dget (rs_requests s3) r | Some c \<Rightarrow> map_option (counted c) (dget (rs_requests s3) r))"
    using pool_update_absent [OF C(6,2), of "length (cd_req_ids cd)" s3 new] S3(1)
    by (auto simp: to_add_def)
  define f where "f r = the (dget (rs_requests s4) r)" for r
  have learn: "?learn r = None \<longleftrightarrow> r \<notin> set (cd_req_ids cd)" for r
    using C(6) by (simp add: map_of_zip_is_None)
  have fnew: "\<exists>a < rs_next s4. rs_store s4 a = [] \<and> dget (rs_requests s4) (nr_req_id nr) = Some (pool_cached pool_states a nr)"
    if nr: "nr \<in> set (po_new_reqs po)" for nr
  proof -
    have "nr_req_id nr \<notin> set (cd_req_ids cd)" using C(3) nr by auto
    then have "?learn (nr_req_id nr) = None" using learn by blast
    then show ?thesis using S3(5) nr by (auto simp: s4(3,4,5))
  qed
  have fold: "\<exists>req c. dget (rs_requests s) r = Some req \<and> dget (rs_requests s4) r = Some (counted c req)"
    if ro: "r \<in> set (cd_req_ids cd)" for r
  proof -
    obtain req where "dget (rs_requests s) r = Some req" "dget (rs_requests s3) r = Some req" using known [OF ro] by blast
    moreover obtain c where "?learn r = Some c" using learn [of r] ro by fastforce
    ultimately show ?thesis by (auto simp: s4(5))
  qed
  have keys: "cr_req_id req = r \<and> cr_output_token_ids req < rs_next s"
    if "dget (rs_requests s) r = Some req" for r req using inv that by (simp add: pool_inv_def)
  have keys4: "cr_req_id req = r \<and> cr_output_token_ids req < rs_next s4"
    if rq: "dget (rs_requests s4) r = Some req" for r req
  proof -
    consider nr where "nr \<in> set (po_new_reqs po)" "r = nr_req_id nr" | "r \<in> set (cd_req_ids cd)"
      | "r \<notin> nr_req_id ` set (po_new_reqs po)" "r \<notin> set (cd_req_ids cd)" by auto
    then show ?thesis
    proof cases
      case 1
      then show ?thesis using fnew [OF 1(1)] rq by (auto simp: pool_cached_def)
    next
      case 2
      then obtain q c where "dget (rs_requests s) r = Some q" "req = counted c q" using fold [OF 2] rq by auto
      then show ?thesis using keys [of r q] S3(2) s4(4) by (simp add: counted_def)
    next
      case 3
      then have "dget (rs_requests s3) r = Some req" using rq learn [of r] by (simp add: s4(5))
      then have "dget (rs_requests s) r = Some req" using S3(4) 3(1) by (simp split: if_splits)
      then show ?thesis using keys [of r req] S3(2) s4(4) by simp
    qed
  qed
  have have4: "dget (rs_requests s4) r = Some (f r)" if "r \<in> set to_add" for r
    using that fnew fold by (auto simp: to_add_def new_def f_def) (metis option.sel)+
  have fits: "pool_fits (rs_store s4) (f r) (batch_static ops (rs_batch s))" if ra: "r \<in> set to_add" for r
  proof -
    consider nr where "nr \<in> set (po_new_reqs po)" "r = nr_req_id nr" | "r \<in> set (cd_req_ids cd)"
      using ra by (auto simp: to_add_def new_def)
    then show ?thesis
    proof cases
      case 1
      then obtain a where a: "rs_store s4 a = []" "f r = pool_cached pool_states a nr"
        using fnew [OF 1(1)] by (auto simp: f_def)
      then have "pool_fits (rs_store s4) (f r) = pool_fits (\<lambda>_. []) (pool_cached pool_states 0 nr)"
        by (intro pool_fits_cong) (simp_all add: pool_cached_def)
      then show ?thesis using C(10) 1(1) by simp
    next
      case 2
      then obtain req c where req: "dget (rs_requests s) r = Some req" "f r = counted c req"
        using fold [OF 2] by (auto simp: f_def)
      have "rs_store s4 (cr_output_token_ids req) = rs_store s (cr_output_token_ids req)"
        using S3(3) s4(3) keys [OF req(1)] by simp
      then have "pool_fits (rs_store s4) (f r) = pool_fits (rs_store s) req"
        unfolding req(2) by (intro pool_fits_cong) (simp_all add: counted_def)
      then show ?thesis using C(11) 2 req(1) by simp
    qed
  qed
  have crid: "cr_req_id (f r) = r" if "r \<in> set to_add" for r using keys4 have4 that by blast
  then have mapf: "map cr_req_id (map f to_add) = to_add" by (simp add: map_idI)
  have dist: "distinct to_add" "set to_add = S" "length to_add \<le> max_num_reqs (rs_batch s)"
    using C(1-5) by (auto simp: to_add_def new_def)
  obtain b5 where r5: "refill (add_request ops (rs_store s4)) (condense ops) (map f to_add) rem2 b2 = Inr b5"
    "pool_ok ops row b5" "none_at (req_ids b5) = {}"
    "ids_of (req_ids b5) = ids_of (req_ids b2) \<union> set to_add" "batch_static ops b5 = batch_static ops b2"
    "pooling_view row b5 = (\<lambda>r. case find (\<lambda>q. cr_req_id q = r) (map f to_add) of
        Some q \<Rightarrow> Some (pool_wanted (rs_store s4) q) | None \<Rightarrow> pooling_view row b2 r)"
    using pb.refill_ok [of ops row b2 rem2 "map f to_add" "rs_store s4"] R(3-5) dist b2 fits
    unfolding mapf R(7) by (auto simp: batch_static_def [of ops "rs_batch s"])
  define s' where "s' = s4\<lparr>rs_batch := b5\<rparr>"
  have "refill (add_cached ops s4) (condense ops) to_add rem2 b2 = Inr b5"
    using refill_add_cached [of to_add s4 f] have4 r5(1) by auto
  then have run: "pool_update_states ops pool_states po s = Inr (pool_unscheduled po b1 \<noteq> [] \<or> to_add \<noteq> [], s')"
    using R(1,2) s4(1,2)
    by (simp add: pool_update_states_def Let_def s3_def pool_started_def cd_def new_def s'_def)
  have ids5: "ids_of (req_ids b5) = S" using r5(4) b2 dist(2) by simp
  have "pool_inv ops row s'"
    unfolding pool_inv_def using r5(2,3) ids5 dist(2) have4 keys4 by (auto simp: s'_def)
  moreover have "pooling_view row b5 r = Some (pool_wanted (rs_store s4) (f r))" if "r \<in> S" for r
    using r5(6) find_key [of to_add f r] crid that dist(2) by auto
  ultimately show ?thesis
    using run ids5 r5(5) R(7) fnew unfolding S_def [symmetric]
    by (intro exI [of _ "pool_unscheduled po b1 \<noteq> [] \<or> to_add \<noteq> []"] exI [of _ s'])
      (auto simp: s'_def f_def)
qed

text \<open>A pooling step whose cached requests all left the batch succeeds: afterwards the batch is packed,
  holds exactly the scheduled requests, and each row says what the request's cached state says.\<close>

theorem pooling_batch_is_what_was_scheduled:
  assumes "pool_inv ops row s" "pool_consistent ops pool_states po s"
    and "set (cd_req_ids (po_cached_reqs po)) \<inter> pool_kept po s = {}"
  shows "\<exists>changed s'. pool_update_states ops pool_states po s = Inr (changed, s') \<and> pool_inv ops row s'
      \<and> ids_of (req_ids (rs_batch s')) = set (dkeys (po_num_scheduled_tokens po))
      \<and> (\<forall>r \<in> set (dkeys (po_num_scheduled_tokens po)).
           pooling_view row (rs_batch s') r = Some (pool_wanted (rs_store s') (the (dget (rs_requests s') r))))"
  using pool_update_states_ok [OF assms] by blast

text \<open>An empty pooling batch of two rows that receives a request, and then the same request again.\<close>

definition ex_pool_state :: "(nat \<Rightarrow> int list list) runner_state" where
  "ex_pool_state = \<lparr> rs_requests = [], rs_num_prompt_logprobs = [], rs_encoder_cache = [],
     rs_batch = new_input_batch True 2 4 8 (\<lambda>_. []) (\<lambda>_. 0) (\<lambda>_. 0), rs_store = (\<lambda>_. []), rs_next = 0 \<rparr>"

definition ex_pool_request :: pool_request_data where
  "ex_pool_request = \<lparr> nr_req_id = ''a'', nr_prompt_token_ids = Some [1, 2, 3],
     nr_sampling_params = None, nr_block_ids = [[7]], nr_num_computed_tokens = 0,
     nr_lora_request = None, nr_pooling_params = Some \<lparr> pp_requires_token_ids = False, pp_task = ''embed'' \<rparr> \<rparr>"

definition ex_pool_output :: pool_output where
  "ex_pool_output = \<lparr> po_new_reqs = [ex_pool_request],
     po_cached_reqs = \<lparr> cd_req_ids = [], cd_resumed_req_ids = {}, cd_new_block_ids = [], cd_num_computed_tokens = [] \<rparr>,
     po_num_scheduled_tokens = [(''a'', 3)], po_total_num_scheduled_tokens = 3, po_finished_req_ids = [],
     po_free_encoder_mm_hashes = None \<rparr>"

definition ex_pool_again :: pool_output where
  "ex_pool_again = ex_pool_output\<lparr>po_new_reqs := [],
     po_cached_reqs := \<lparr> cd_req_ids = [''a''], cd_resumed_req_ids = {}, cd_new_block_ids = [None],
                         cd_num_computed_tokens = [3] \<rparr>\<rparr>"

definition ex_pool_states :: "pooling_params option \<Rightarrow> nat option" where
  "ex_pool_states p = map_option (\<lambda>_. 0) p"

lemma ex_pool_inv: "pool_inv ex_ops ex_row ex_pool_state"
proof -
  have "lora_inv (rs_batch ex_pool_state)"
    by (simp add: ex_pool_state_def lora_inv_def lora_users_def new_input_batch_def Let_def)
  moreover have "batch_inv (rs_batch ex_pool_state)" by (simp add: ex_pool_state_def batch_inv_new)
  ultimately show ?thesis using ex_laws
    by (simp add: pool_inv_def pool_ok_def ex_pool_state_def none_at_def ids_of_def
        keyed_by_requests_def new_input_batch_def Let_def)
qed

lemma ex_pool_consistent: "pool_consistent ex_ops ex_pool_states ex_pool_output ex_pool_state"
  by (simp add: pool_consistent_def ex_pool_output_def ex_pool_state_def ex_pool_request_def ids_of_def
      pool_kept_def pool_fits_def pool_cached_def ex_pool_states_def batch_static_def new_input_batch_def Let_def)

theorem pooling_batch_is_what_was_scheduled_witness:
  "\<exists>changed s'. pool_update_states ex_ops ex_pool_states ex_pool_output ex_pool_state = Inr (changed, s')
      \<and> ids_of (req_ids (rs_batch s')) = {''a''}"
  using pooling_batch_is_what_was_scheduled [OF ex_pool_inv ex_pool_consistent]
  by (auto simp: ex_pool_output_def)

theorem continued_pooling_request_raises_witness:
  "\<exists>s'. pool_inv ex_ops ex_row s' \<and> pool_update_states ex_ops ex_pool_states ex_pool_again s' = Inl NameError"
proof -
  obtain changed s' where s': "pool_inv ex_ops ex_row s'" "ids_of (req_ids (rs_batch s')) = {''a''}"
    "batch_static ex_ops (rs_batch s') = batch_static ex_ops (rs_batch ex_pool_state)"
    and a: "\<exists>a. rs_store s' a = [] \<and> dget (rs_requests s') ''a'' = Some (pool_cached ex_pool_states a ex_pool_request)"
    using pool_update_states_ok [OF ex_pool_inv ex_pool_consistent]
    by (auto simp: ex_pool_output_def ex_pool_request_def)
  have static: "batch_static ex_ops (rs_batch s') = (2, 4, 8, True, True)" "max_num_reqs (rs_batch s') = 2"
    using s'(3) by (auto simp: batch_static_def ex_pool_state_def new_input_batch_def ex_ops_def Let_def)
  have "pool_consistent ex_ops ex_pool_states ex_pool_again s'"
    using a by (auto simp: pool_consistent_def ex_pool_again_def ex_pool_output_def static s'(2) pool_kept_def
        pool_fits_def pool_cached_def ex_pool_request_def ex_pool_states_def)
  moreover have "''a'' \<in> set (cd_req_ids (po_cached_reqs ex_pool_again))" "''a'' \<in> pool_kept ex_pool_again s'"
    by (simp_all add: ex_pool_again_def ex_pool_output_def pool_kept_def s'(2))
  ultimately have "pool_update_states ex_ops ex_pool_states ex_pool_again s' = Inl NameError"
    using continued_pooling_request_raises [OF s'(1)] by blast
  with s'(1) show ?thesis by blast
qed

end
