(* ===== verification/PoolingInputs.thy ===== *)
theory PoolingInputs
  imports AttnMask StepInputs
begin

text \<open>
  The inputs of one execution of a pooling model: method \<open>_prepare_inputs\<close> of
  \<open>vllm_tt/pooling_runner.py\<close>. With batch size one the scheduled tokens of all requests are fused into
  a single row; otherwise every request has a row of its own, padded to the longest one, and rows of
  zeros make the number of rows a multiple of the number of devices.

  The choice of the requests and the buffers \<open>query_start_loc\<close> and \<open>seq_lens\<close> are those of the
  generation runner, and so are their definitions.
\<close>

section \<open>Configuration and state\<close>

record pool_config =
  pc_step :: step_config
  pc_batch_size :: nat
  pc_data_parallel :: bool
  pc_num_devices :: nat
  pc_decoder_only :: bool

record pool_buffers =
  pu_input_ids :: "int list list"
  pu_positions :: "int list list"
  pu_query_start_loc :: "int list"
  pu_seq_lens :: "int list"

record pool_inputs =
  pi_input_ids :: "int list list"
  pi_position_ids :: "int list list"
  pi_attn_mask :: "fl list list list option"
  pi_logits_indices :: "int list"
  pi_lora_tokens :: "int list option"
  pi_counts :: "nat list"
  pi_additional :: nat
  pi_end_index :: nat

section \<open>One fused row\<close>

text \<open>Positions and flat token indices of all scheduled tokens, gathered into the buffers; what is left
  of the padded length is cleared.\<close>

definition fused_inputs ::
  "'bt input_batch \<Rightarrow> nat list \<Rightarrow> nat \<Rightarrow> pool_buffers \<Rightarrow> (int list list \<times> int list list) res" where
  "fused_inputs b ns padded buf =
     rbind (np_repeat [0..<length ns] ns) (\<lambda>req_indices.
     let total_tokens = sum_list ns; arange = concat (map (\<lambda>n. [0..<n]) ns)
     in rbind (lget (pu_positions buf) 0) (\<lambda>pos_row.
        rbind (rguard (total_tokens \<le> length pos_row) ValueError) (\<lambda>_.
        rbind (rmap (\<lambda>(r, a). rbind (lget (num_computed_tokens b) r) (\<lambda>c. Inr (c + a)))
                 (zip req_indices arange)) (\<lambda>positions.
        rbind (rmap (\<lambda>(q, r). lget (concat (token_ids_cpu b)) (q + r * max_model_len b))
                 (zip positions req_indices)) (\<lambda>tokens.
        rbind (lget (pu_input_ids buf) 0) (\<lambda>id_row.
        rbind (rguard (total_tokens \<le> length id_row) RuntimeError) (\<lambda>_.
        let ids = (pu_input_ids buf)[0 := tokens @ drop total_tokens id_row];
            ps = (pu_positions buf)[0 := map int positions @ drop total_tokens pos_row]
        in Inr (map (\<lambda>row. slice_fill row total_tokens padded 0) ids,
                map (\<lambda>row. slice_fill row total_tokens padded 0) ps))))))))"

section \<open>One row per request\<close>

text \<open>Positions count from zero; the rows of the token table are cut at the longest request.\<close>

definition own_rows ::
  "nat \<Rightarrow> 'bt input_batch \<Rightarrow> nat list \<Rightarrow> nat \<Rightarrow> (int list list \<times> int list list) res" where
  "own_rows batch_size b ns padded =
     (let n = length ns; longest = Max (set ns);
          arange = map (\<lambda>k. map int [0..<k] @ replicate (longest - k) 0) ns;
          ids = map (take longest) (token_ids_cpu b);
          ids = (if n < batch_size then take n ids else ids)
      in if 0 < padded then
           rbind (rguard (longest \<le> padded) RuntimeError) (\<lambda>_.
           rbind (rguard (length arange = length ids) RuntimeError) (\<lambda>_.
           Inr (map (\<lambda>row. row @ replicate (padded - longest) 0) ids,
                map (\<lambda>row. row @ replicate (padded - longest) 0) arange)))
         else Inr (ids, arange))"

definition row_width :: "'a list list \<Rightarrow> nat" where
  "row_width rows = (case rows of [] \<Rightarrow> 0 | row # _ \<Rightarrow> length row)"

definition device_rows ::
  "bool \<Rightarrow> nat \<Rightarrow> int list list \<times> int list list \<Rightarrow> (int list list \<times> int list list \<times> nat) res" where
  "device_rows data_parallel num_devices rows =
     (let (ids, arange) = rows
      in if \<not> data_parallel then Inr (ids, arange, 0)
         else rbind (rguard (num_devices \<noteq> 0) ZeroDivisionError) (\<lambda>_.
           let remainder = length ids mod num_devices
           in if remainder = 0 then Inr (ids, arange, 0)
              else let extra = num_devices - remainder;
                       zero_rows = replicate extra (replicate (row_width ids) 0)
                   in rbind (rguard (row_width arange = row_width ids) RuntimeError) (\<lambda>_.
                      Inr (ids @ zero_rows, arange @ zero_rows, extra))))"

section \<open>The method\<close>

text \<open>\<open>pool_rows\<close> gives the padded tensors, the buffers after it, the number of rows the mask is made
  for and the number of rows that were added.\<close>

definition pool_rows ::
  "pool_config \<Rightarrow> 'bt input_batch \<Rightarrow> nat list \<Rightarrow> nat \<Rightarrow> pool_buffers
     \<Rightarrow> (int list list \<times> int list list \<times> pool_buffers \<times> nat \<times> nat) res" where
  "pool_rows cfg b ns padded buf =
     (if pc_batch_size cfg = 1 then
        rbind (fused_inputs b ns padded buf) (\<lambda>(ids, ps).
        Inr (map (take padded) ids, map (take padded) ps,
             buf\<lparr>pu_input_ids := ids, pu_positions := ps\<rparr>, 1, 0))
      else
        rbind (own_rows (pc_batch_size cfg) b ns padded) (\<lambda>rows.
        rbind (device_rows (pc_data_parallel cfg) (pc_num_devices cfg) rows) (\<lambda>(ids, ps, extra).
        Inr (ids, ps, buf\<lparr>pu_input_ids := ids\<rparr>, length ns + extra, extra))))"

definition pool_mask ::
  "pool_config \<Rightarrow> int list \<Rightarrow> nat \<Rightarrow> nat \<Rightarrow> fl list list list option res" where
  "pool_mask cfg lens width mask_rows =
     (if pc_batch_size cfg = 1 \<and> 1 < sc_max_num_reqs (pc_step cfg) \<or> \<not> pc_decoder_only cfg
      then rbind (generate_attn_mask lens width mask_rows (pc_decoder_only cfg)) (\<lambda>m. Inr (Some m))
      else Inr None)"

definition pool_prepare_inputs ::
  "pool_config \<Rightarrow> 'bt input_batch \<Rightarrow> nat \<Rightarrow> (req_id, nat) dict \<Rightarrow> nat \<Rightarrow> pool_buffers
     \<Rightarrow> (pool_inputs \<times> pool_buffers) res" where
  "pool_prepare_inputs cfg b total_tokens scheduled start buf =
     rbind (rassert (0 < total_tokens)) (\<lambda>_.
     rbind (rassert (0 < num_reqs b)) (\<lambda>_.
     rbind (rassert (start < num_reqs b)) (\<lambda>_.
     rbind (collect_tokens (pc_step cfg) scheduled b start) (\<lambda>(use_max, all_ns).
     rbind (choose_limit (pc_step cfg) use_max) (\<lambda>limit.
     let (ns, end_index) = cut_chunk limit all_ns start (num_reqs b); n = length ns
     in rbind (rguard (ns \<noteq> []) ValueError) (\<lambda>_.
     rbind (rassert (0 < Max (set ns))) (\<lambda>_.
     rbind (get_padded_token_len (num_tokens_paddings (pc_step cfg))
              (int (if 1 < pc_batch_size cfg then Max (set ns) else sum_list ns))) (\<lambda>padded.
     rbind (pool_rows cfg b ns (nat padded) buf) (\<lambda>(ids, ps, buf, mask_rows, extra).
     rbind (fill_query_start ns (pu_query_start_loc buf)) (\<lambda>qsl.
     rbind (fill_seq_lens (num_computed_tokens b) ns (replicate (length (pu_seq_lens buf)) 0)) (\<lambda>sls.
     rbind (pool_mask cfg (if use_max then take n sls else take limit sls) (row_width ids) mask_rows) (\<lambda>msk.
     let padded_reqs = padded_num_reqs_with_upper_limit (int n) (int (sc_max_num_reqs (pc_step cfg)))
     in Inr (\<lparr> pi_input_ids = ids, pi_position_ids = ps, pi_attn_mask = msk,
               pi_logits_indices = map (\<lambda>x. x - 1) (slice qsl 1 (nat padded_reqs + 1)),
               pi_lora_tokens = (if has_lora (pc_step cfg)
                  then Some ((map int ns)[n - 1 := int (ns ! (n - 1)) + (padded - int (sum_list ns))])
                  else None),
               pi_counts = ns, pi_additional = extra, pi_end_index = end_index \<rparr>,
             buf\<lparr>pu_query_start_loc := qsl, pu_seq_lens := sls\<rparr>)))))))))))))"

end
