(* ===== verification/PoolingRunner.thy ===== *)
theory PoolingRunner
  imports PoolingState PoolingInputs
begin

text \<open>
  A step of the pooling runner: method \<open>execute_model\<close> of \<open>vllm_tt/pooling_runner.py\<close>. It updates the
  batch, runs the model on one group of requests after another, and hands the hidden states of every
  group to the pooler.

  The model and the pooler are arguments. Of vLLM's \<open>PoolingMetadata\<close> the slice over the requests of a
  group (\<open>pl_slice\<close>) and \<open>build_pooling_cursor\<close> (\<open>pl_cursor\<close>) are arguments too. A model without a pooler
  is the absence of \<open>pooler\<close>.
\<close>

section \<open>The metadata of the batch\<close>

record pooling_meta =
  pm_prompt_lens :: "nat list"
  pm_prompt_token_ids :: "int list list option"
  pm_params :: "pooling_params list"
  pm_states :: "nat list"

text \<open>The token ids are those of \<open>sampling_metadata\<close>, which the constructor of the batch makes, when the
  batch is empty and needs none, and which nothing refreshes.\<close>

definition pooling_metadata :: "'bt input_batch \<Rightarrow> pooling_meta res" where
  "pooling_metadata b =
     rbind (get_pooling_params b) (\<lambda>params.
     rbind (get_pooling_states b) (\<lambda>states.
     Inr \<lparr> pm_prompt_lens = take (num_reqs b) (num_prompt_tokens b), pm_prompt_token_ids = None,
           pm_params = params, pm_states = states \<rparr>))"

record ('h, 'c, 'out) pooler_ops =
  pl_slice :: "pooling_meta \<Rightarrow> nat \<Rightarrow> nat \<Rightarrow> pooling_meta"
  pl_cursor :: "pooling_meta \<Rightarrow> nat list \<Rightarrow> int list \<Rightarrow> 'c res"
  pl_pool :: "'h list \<Rightarrow> 'c \<Rightarrow> 'out option list res"

section \<open>The hidden states of a group\<close>

text \<open>The list of hidden states the method builds first and does not use; it may raise.\<close>

definition truncated_states ::
  "pool_config \<Rightarrow> nat list \<Rightarrow> nat \<Rightarrow> 'h list list \<Rightarrow> unit res" where
  "truncated_states cfg counts additional hidden =
     (let states = (if pc_data_parallel cfg \<and> 0 < additional
                    then take (length hidden - additional) hidden else hidden)
      in if 1 < pc_batch_size cfg
         then rbind (rmap (\<lambda>i. rbind (lget counts i) (\<lambda>n. Inr (take n (states ! i)))) [0..<length states]) (\<lambda>_. Inr ())
         else rbind (lget states 0) (\<lambda>_. Inr ()))"

text \<open>The pooler takes the hidden states of the group as one list.\<close>

definition states_for_pooler :: "pool_config \<Rightarrow> nat list \<Rightarrow> 'h list list \<Rightarrow> 'h list res" where
  "states_for_pooler cfg counts hidden =
     (if 1 < pc_batch_size cfg
      then rbind (rmap (\<lambda>i. rbind (lget hidden i) (\<lambda>row. Inr (take (counts ! i) row))) [0..<length counts])
             (\<lambda>pieces. Inr (concat pieces))
      else rbind (lget hidden 0) (\<lambda>row. Inr (take (sum_list counts) row)))"

text \<open>An output counts only when the request's prompt is complete. Without a pooler the fallback leaves
  \<open>seq_lens_cpu\<close> unbound, which the loop over the outputs reads.\<close>

definition pool_group ::
  "pool_config \<Rightarrow> ('h, 'c, 'out) pooler_ops option \<Rightarrow> 'bt input_batch \<Rightarrow> nat \<Rightarrow> pool_inputs \<Rightarrow> int list
     \<Rightarrow> 'h list list \<Rightarrow> 'out option list res" where
  "pool_group cfg pooler b start inp lens hidden =
     (case pooler of
        None \<Rightarrow> Inl NameError
      | Some ops \<Rightarrow>
          rbind (pooling_metadata b) (\<lambda>meta.
          let meta = pl_slice ops meta start (pi_end_index inp);
              seq_lens_cpu = slice lens start (pi_end_index inp)
          in rbind (pl_cursor ops meta (pi_counts inp) seq_lens_cpu) (\<lambda>cursor.
             rbind (states_for_pooler cfg (pi_counts inp) hidden) (\<lambda>states.
             rbind (pl_pool ops states cursor) (\<lambda>outputs.
             Inr (map (\<lambda>(raw, seq_len, prompt_len). if seq_len = int prompt_len then raw else None)
                    (zip outputs (zip seq_lens_cpu (pm_prompt_lens meta)))))))))"

section \<open>The loop and the step\<close>

text \<open>\<open>pooler_output\<close> is bound by every group anew; \<open>None\<close> stands for an unbound variable, and the outer
  \<open>None\<close> for a loop that did not end within the fuel.\<close>

fun pool_loop ::
  "nat \<Rightarrow> pool_config \<Rightarrow> ('h, 'c, 'out) pooler_ops option \<Rightarrow> (pool_inputs \<Rightarrow> 'h list list res) \<Rightarrow> 'bt input_batch
     \<Rightarrow> nat \<Rightarrow> (req_id, nat) dict \<Rightarrow> nat \<Rightarrow> pool_buffers \<Rightarrow> 'out option list option
     \<Rightarrow> ('out option list option \<times> pool_buffers) res option" where
  "pool_loop 0 cfg pooler model b total_tokens scheduled start buf outputs = None"
| "pool_loop (Suc fuel) cfg pooler model b total_tokens scheduled start buf outputs =
     (if \<not> start < num_reqs b then Some (Inr (outputs, buf))
      else case rbind (pool_prepare_inputs cfg b total_tokens scheduled start buf) (\<lambda>(inp, buf).
                rbind (model inp) (\<lambda>hidden.
                rbind (truncated_states cfg (pi_counts inp) (pi_additional inp) hidden) (\<lambda>_.
                rbind (pool_group cfg pooler b start inp (pu_seq_lens buf) hidden) (\<lambda>outputs.
                Inr (inp, buf, outputs))))) of
             Inl e \<Rightarrow> Some (Inl e)
           | Inr (inp, buf, outputs) \<Rightarrow>
               pool_loop fuel cfg pooler model b total_tokens scheduled (pi_end_index inp) buf (Some outputs))"

record 'out pool_result =
  pr_req_ids :: "req_id option list"
  pr_req_id_to_index :: "(req_id, nat) dict"
  pr_pooler_output :: "'out option list"

text \<open>A step without scheduled tokens has no result of its own (\<open>EMPTY_MODEL_RUNNER_OUTPUT\<close>). Every group
  takes a request, so one unit of fuel more than the batch has requests is enough.\<close>

definition pool_execute_model ::
  "'bt vllm_ops \<Rightarrow> (pooling_params option \<Rightarrow> nat option) \<Rightarrow> pool_config \<Rightarrow> ('h, 'c, 'out) pooler_ops option
     \<Rightarrow> (pool_inputs \<Rightarrow> 'h list list res) \<Rightarrow> pool_output \<Rightarrow> 'bt runner_state \<times> pool_buffers
     \<Rightarrow> ('out pool_result option \<times> 'bt runner_state \<times> pool_buffers) res option" where
  "pool_execute_model vops pool_states cfg pooler model po st =
     (let (s, buf) = st
      in case pool_update_states vops pool_states po s of
           Inl e \<Rightarrow> Some (Inl e)
         | Inr (_, s) \<Rightarrow>
             if po_total_num_scheduled_tokens po = 0 then Some (Inr (None, s, buf))
             else let b = rs_batch s
               in case pool_loop (Suc (num_reqs b)) cfg pooler model b (po_total_num_scheduled_tokens po)
                         (po_num_scheduled_tokens po) 0 buf None of
                    None \<Rightarrow> None
                  | Some (Inl e) \<Rightarrow> Some (Inl e)
                  | Some (Inr (None, buf)) \<Rightarrow> Some (Inl NameError)
                  | Some (Inr (Some outputs, buf)) \<Rightarrow>
                      Some (Inr (Some \<lparr> pr_req_ids = take (num_reqs b) (req_ids b),
                        pr_req_id_to_index = req_id_to_index b, pr_pooler_output = outputs \<rparr>, s, buf)))"

end
