(* ===== verification/PoolingInputsProps.thy ===== *)
theory PoolingInputsProps
  imports PoolingInputs StepInputsProps
begin

text \<open>
  What \<open>_prepare_inputs\<close> gives a pooling model: in the fused row and in the separate rows alike, a
  token of a request is given its own position and may attend to the tokens of its own request only.
  So the hidden states of a request are those it would have alone.
\<close>

section \<open>Offsets of the requests in a fused row\<close>

definition offset :: "nat list \<Rightarrow> nat \<Rightarrow> nat" where
  "offset ns k = sum_list (take k ns)"

lemma offset_Suc: "k < length ns \<Longrightarrow> offset ns (Suc k) = offset ns k + ns ! k"
  by (simp add: offset_def take_Suc_conv_app_nth)

lemma offset_all: "offset ns (length ns) = sum_list ns"
  by (simp add: offset_def)

lemma offset_mono: "k \<le> l \<Longrightarrow> offset ns k \<le> offset ns l"
  unfolding offset_def by (metis le_Suc_ex le_add1 sum_list_append take_add)

lemma offset_within: "k < length ns \<Longrightarrow> offset ns k + ns ! k \<le> sum_list ns"
  using offset_Suc [of k ns] offset_mono [of "Suc k" "length ns" ns] by (simp add: offset_all)

lemma owners_iff:
  assumes "k < length ns" "x < sum_list ns"
  shows "owners ns ! x = k \<longleftrightarrow> offset ns k \<le> x \<and> x < offset ns k + ns ! k"
  using assms
proof (induction ns rule: rev_induct)
  case (snoc n ns)
  show ?case
  proof (cases "k < length ns")
    case True
    then have "offset (ns @ [n]) k = offset ns k" "(ns @ [n]) ! k = ns ! k"
      by (simp_all add: offset_def nth_append)
    then show ?thesis
      using snoc True offset_within [OF True] by (auto simp: owners_snoc nth_append)
  next
    case False
    then have "k = length ns" using snoc.prems(1) by simp
    then show ?thesis
      using snoc.prems(2) owners_bound [of x ns] by (auto simp: owners_snoc nth_append offset_def)
  qed
qed simp

text \<open>In a fused row a token sees the tokens of its own request, in order.\<close>

lemma fused_seen:
  assumes k: "k < length ns" and i: "i < ns ! k" and q: "sum_list ns \<le> q"
  shows "filter (same_request dec ns (offset ns k + i)) [0..<q] =
    map ((+) (offset ns k)) (filter (\<lambda>j. dec \<longrightarrow> j \<le> i) [0..<ns ! k])"
proof -
  let ?o = "offset ns k" and ?n = "ns ! k"
  note w = offset_within [OF k]
  have own: "same_request dec ns (?o + i) x \<longleftrightarrow>
      ?o \<le> x \<and> x < ?o + ?n \<and> (dec \<longrightarrow> x \<le> ?o + i)" for x
  proof (cases "x < sum_list ns")
    case True
    have "?o + i < sum_list ns" using i w by simp
    moreover from this have "owners ns ! (?o + i) = k" using owners_iff [OF k] i by simp
    ultimately show ?thesis using True owners_iff [OF k True] by (auto simp: same_request_def)
  next
    case False
    then show ?thesis using w by (auto simp: same_request_def)
  qed
  have "[0..<q] = [0..<?o] @ [?o..<?o + ?n] @ [?o + ?n..<q]"
    using upt_split [of 0 ?o "?o + ?n"] upt_split [of 0 "?o + ?n" q] w q by (metis append_assoc le0 le_add1 le_trans)
  moreover have "filter (same_request dec ns (?o + i)) [0..<?o] = []"
    "filter (same_request dec ns (?o + i)) [?o + ?n..<q] = []" by (auto simp: own filter_empty_conv)
  moreover have "[?o..<?o + ?n] = map ((+) ?o) [0..<?n]" by (intro nth_equalityI) simp_all
  ultimately show ?thesis by (auto simp: filter_map own o_def intro!: filter_cong)
qed

section \<open>The mask of the method\<close>

lemma mask_ignores_empty:
  "generate_attn_mask (lens @ replicate z 0) q rows dec = generate_attn_mask lens q rows dec"
proof -
  have "rfold (mask_step dec rows) st (replicate z 0) = Inr st" for st
    by (induction z) (auto simp: mask_step_def split: prod.split)
  then show ?thesis
    by (cases "rfold (mask_step dec rows) (replicate rows (full q q NegInf), 0, 0) lens")
      (simp_all add: generate_attn_mask_def rfold_append)
qed

section \<open>The rows of the method\<close>

definition request_tokens :: "'bt input_batch \<Rightarrow> nat list \<Rightarrow> nat \<Rightarrow> int list" where
  "request_tokens b ns k = take (ns ! k) (token_ids_cpu b ! k)"

text \<open>What the batch has to be: rows for all requests, each with its tokens, none of them computed.\<close>

definition fresh_rows :: "'bt input_batch \<Rightarrow> nat list \<Rightarrow> bool" where
  "fresh_rows b ns \<longleftrightarrow>
     length ns \<le> length (token_ids_cpu b) \<and> length ns \<le> length (num_computed_tokens b)
     \<and> (\<forall>row \<in> set (token_ids_cpu b). length row = max_model_len b)
     \<and> (\<forall>k < length ns. num_computed_tokens b ! k = 0 \<and> 0 < ns ! k \<and> ns ! k \<le> max_model_len b)"

lemma length_request_tokens:
  "fresh_rows b ns \<Longrightarrow> k < length ns \<Longrightarrow> length (request_tokens b ns k) = ns ! k"
  by (simp add: fresh_rows_def request_tokens_def)

lemma np_repeat_owners: "np_repeat [0..<length ns] ns = Inr (owners ns)"
proof -
  have "map2 (\<lambda>x n. replicate n x) [0..<length ns] ns = map (\<lambda>k. replicate (ns ! k) k) [0..<length ns]"
    by (intro nth_equalityI) simp_all
  then show ?thesis by (simp add: np_repeat_def owners_def)
qed

definition fused_row :: "nat list \<Rightarrow> (nat \<Rightarrow> int list) \<Rightarrow> nat \<Rightarrow> int list" where
  "fused_row ns V padded = concat (map V [0..<length ns]) @ replicate (padded - sum_list ns) 0"

lemma fused_row_cell:
  assumes "\<And>k. k < length ns \<Longrightarrow> length (V k) = ns ! k" "k < length ns" "i < ns ! k"
  shows "fused_row ns V padded ! (offset ns k + i) = V k ! i"
proof -
  have split: "[0..<length ns] = [0..<k] @ k # [Suc k..<length ns]"
    using upt_split [of 0 k "length ns"] assms(2) by (simp add: upt_conv_Cons)
  have "length (concat (map V [0..<k])) = offset ns k" if "k \<le> length ns" for k
    using that assms(1) by (induction k) (simp_all add: offset_Suc, simp add: offset_def)
  then show ?thesis using assms(1) [OF assms(2)] assms(2,3)
    by (simp add: fused_row_def split nth_append)
qed

lemma length_fused_row:
  assumes "\<And>k. k < length ns \<Longrightarrow> length (V k) = ns ! k" "sum_list ns \<le> padded"
  shows "length (fused_row ns V padded) = padded"
proof -
  have "map (length \<circ> V) [0..<length ns] = ns" using assms(1) by (intro nth_equalityI) simp_all
  then show ?thesis using assms(2) by (simp add: fused_row_def length_concat)
qed

lemma fused_inputs_ok:
  assumes fresh: "fresh_rows b ns"
    and buf: "pu_input_ids buf = [id_row]" "pu_positions buf = [pos_row]"
      "length id_row = length pos_row" "padded \<le> length pos_row" "sum_list ns \<le> padded"
  obtains ids ps where "fused_inputs b ns padded buf = Inr ([ids], [ps])"
    "take padded ids = fused_row ns (request_tokens b ns) padded"
    "take padded ps = fused_row ns (\<lambda>k. map int [0..<ns ! k]) padded"
    "length ids = length pos_row" "length ps = length pos_row"
proof -
  let ?n = "length ns" and ?T = "sum_list ns"
  let ?A = "\<lambda>k. replicate (ns ! k) k" and ?B = "\<lambda>k. [0..<ns ! k]"
  have ar: "concat (map (\<lambda>n. [0..<n]) ns) = concat (map ?B [0..<?n])"
    by (rule arg_cong [where f = concat], rule nth_equalityI) simp_all
  have z: "zip (owners ns) (concat (map ?B [0..<?n])) = concat (map (\<lambda>k. zip (?A k) (?B k)) [0..<?n])"
    "zip (concat (map ?B [0..<?n])) (owners ns) = concat (map (\<lambda>k. zip (?B k) (?A k)) [0..<?n])"
    unfolding owners_def by (rule zip_concat, simp)+
  have lens: "length (owners ns) = length (concat (map ?B [0..<?n]))"
    unfolding owners_def by (simp add: length_concat comp_def)
  have "rmap (\<lambda>(r, a). rbind (lget (num_computed_tokens b) r) (\<lambda>c. Inr (c + a)))
      (zip (owners ns) (concat (map ?B [0..<?n]))) = Inr (map snd (zip (owners ns) (concat (map ?B [0..<?n]))))"
    using fresh unfolding z(1) by (intro rmap_all) (auto simp: fresh_rows_def set_zip)
  then have ps: "rmap (\<lambda>(r, a). rbind (lget (num_computed_tokens b) r) (\<lambda>c. Inr (c + a)))
      (zip (owners ns) (concat (map ?B [0..<?n]))) = Inr (concat (map ?B [0..<?n]))"
    using lens by simp
  have tok: "rmap (\<lambda>(q, r). lget (concat (token_ids_cpu b)) (q + r * max_model_len b))
      (zip (concat (map ?B [0..<?n])) (owners ns))
     = Inr (map (\<lambda>(q, r). token_ids_cpu b ! r ! q) (zip (concat (map ?B [0..<?n])) (owners ns)))"
    unfolding z(2)
  proof (intro rmap_all ballI, clarify)
    fix q r assume "(q, r) \<in> set (concat (map (\<lambda>k. zip (?B k) (?A k)) [0..<?n]))"
    then have "r < ?n" "q < ns ! r" by (auto simp: set_zip)
    then have "r < length (token_ids_cpu b)" "q < max_model_len b"
      using fresh by (auto simp: fresh_rows_def intro: less_le_trans)
    then show "lget (concat (token_ids_cpu b)) (q + r * max_model_len b) = Inr (token_ids_cpu b ! r ! q)"
      using concat_cell [of "token_ids_cpu b" "max_model_len b" r q] fresh
      by (simp add: fresh_rows_def add.commute)
  qed
  have vals: "map (\<lambda>(q, r). token_ids_cpu b ! r ! q) (zip (concat (map ?B [0..<?n])) (owners ns))
      = concat (map (request_tokens b ns) [0..<?n])"
  proof -
    have "map (\<lambda>(q, r). token_ids_cpu b ! r ! q) (zip (?B k) (?A k)) = request_tokens b ns k" if "k < ?n" for k
      using that length_request_tokens [OF fresh that]
      by (intro nth_equalityI) (simp_all add: request_tokens_def)
    then show ?thesis unfolding z(2) map_concat by (auto intro!: arg_cong [where f = concat])
  qed
  have len: "length (concat (map ?B [0..<?n])) = ?T" by (rule lens [unfolded length_owners, symmetric])
  have tlen: "length (concat (map (request_tokens b ns) [0..<?n])) = ?T"
    unfolding vals [symmetric] length_map length_zip
    using lens [unfolded length_owners] by (simp only: length_owners min.idem)
  define ids where "ids = slice_fill (concat (map (request_tokens b ns) [0..<?n]) @ drop ?T id_row) ?T padded 0"
  define qs where "qs = slice_fill (map int (concat (map ?B [0..<?n])) @ drop ?T pos_row) ?T padded 0"
  have run: "fused_inputs b ns padded buf = Inr ([ids], [qs])"
    using buf ps tok len tlen
    by (simp add: fused_inputs_def np_repeat_owners ar vals ids_def qs_def Let_def)
  have "take padded (slice_fill (xs @ drop ?T row) ?T padded 0) = xs @ replicate (padded - ?T) 0"
    if "length xs = ?T" "padded \<le> length row" for xs row :: "int list"
    using that buf(5) by (simp add: slice_fill_def Let_def min_absorb1)
  then have "take padded ids = fused_row ns (request_tokens b ns) padded"
    "take padded qs = fused_row ns (\<lambda>k. map int [0..<ns ! k]) padded"
    using len tlen buf(3,4) by (simp_all add: ids_def qs_def fused_row_def)
      (simp add: map_concat comp_def)
  then show ?thesis using that run len tlen buf(3-5) by (simp add: ids_def qs_def)
qed

lemma own_rows_ok:
  assumes fresh: "fresh_rows b ns" and ne: "ns \<noteq> []" and padded: "Max (set ns) \<le> padded"
    and size: "length ns \<le> batch_size" "length (token_ids_cpu b) = batch_size"
  shows "own_rows batch_size b ns padded =
    Inr (map (\<lambda>k. take (Max (set ns)) (token_ids_cpu b ! k) @ replicate (padded - Max (set ns)) 0) [0..<length ns],
         map (\<lambda>k. map int [0..<ns ! k] @ replicate (padded - ns ! k) 0) [0..<length ns])"
proof -
  let ?L = "Max (set ns)"
  obtain n where "n \<in> set ns" using ne by (cases ns) auto
  moreover from this have "0 < n" using fresh by (auto simp: fresh_rows_def in_set_conv_nth)
  ultimately have pos: "0 < padded" using padded by (metis List.finite_set Max_ge less_le_trans)
  have le: "k \<le> ?L" if "k \<in> set ns" for k using that by simp
  have ids: "(if length ns < batch_size then take (length ns) (map (take ?L) (token_ids_cpu b))
      else map (take ?L) (token_ids_cpu b)) = map (\<lambda>k. take ?L (token_ids_cpu b ! k)) [0..<length ns]"
    using size by (auto intro: nth_equalityI)
  have "map (\<lambda>row. row @ replicate (padded - ?L) 0) (map (\<lambda>k. map int [0..<k] @ replicate (?L - k) 0) ns)
      = map (\<lambda>k. map int [0..<ns ! k] @ replicate (padded - ns ! k) 0) [0..<length ns]"
    using le padded by (intro nth_equalityI) (simp_all flip: replicate_add)
  then show ?thesis using pos padded unfolding own_rows_def Let_def ids by (simp add: comp_def)
qed

section \<open>What a token sees\<close>

text \<open>Without a mask attention is causal. A model attends if the hidden state at a position is a function
  of the token there and of the tokens it may see, in order.\<close>

definition sees :: "pool_inputs \<Rightarrow> nat \<Rightarrow> nat \<Rightarrow> nat \<Rightarrow> bool" where
  "sees inp r i j = (case pi_attn_mask inp of None \<Rightarrow> j \<le> i | Some m \<Rightarrow> m ! r ! i ! j = Fin 0)"

definition token_at :: "pool_inputs \<Rightarrow> nat \<Rightarrow> nat \<Rightarrow> int \<times> int" where
  "token_at inp r i = (pi_input_ids inp ! r ! i, pi_position_ids inp ! r ! i)"

definition visible :: "pool_inputs \<Rightarrow> nat \<Rightarrow> nat \<Rightarrow> (int \<times> int) list" where
  "visible inp r i = map (token_at inp r) (filter (sees inp r i) [0..<length (pi_input_ids inp ! r)])"

definition attends ::
  "(int \<times> int \<Rightarrow> (int \<times> int) list \<Rightarrow> 'h) \<Rightarrow> (pool_inputs \<Rightarrow> 'h list list) \<Rightarrow> bool" where
  "attends F model \<longleftrightarrow>
     (\<forall>inp. model inp = map (\<lambda>r. map (\<lambda>i. F (token_at inp r i) (visible inp r i))
                               [0..<length (pi_input_ids inp ! r)]) [0..<length (pi_input_ids inp)])"

text \<open>The hidden states of a request that is alone.\<close>

definition alone ::
  "(int \<times> int \<Rightarrow> (int \<times> int) list \<Rightarrow> 'h) \<Rightarrow> bool \<Rightarrow> int list \<Rightarrow> 'h list" where
  "alone F dec toks =
     (let t = (\<lambda>i. (toks ! i, int i))
      in map (\<lambda>i. F (t i) (map t (filter (\<lambda>j. dec \<longrightarrow> j \<le> i) [0..<length toks]))) [0..<length toks])"

text \<open>Where the tokens of a request are, and that they see what they would see alone.\<close>

definition place :: "bool \<Rightarrow> nat list \<Rightarrow> nat \<Rightarrow> nat \<Rightarrow> nat \<times> nat" where
  "place fused ns k i = (if fused then (0, offset ns k + i) else (k, i))"

definition isolated :: "bool \<Rightarrow> bool \<Rightarrow> 'bt input_batch \<Rightarrow> nat list \<Rightarrow> pool_inputs \<Rightarrow> bool" where
  "isolated fused dec b ns inp \<longleftrightarrow>
     (\<forall>k < length ns. \<forall>i < ns ! k. case place fused ns k i of (r, c) \<Rightarrow>
        r < length (pi_input_ids inp) \<and> c < length (pi_input_ids inp ! r)
        \<and> token_at inp r c = (request_tokens b ns k ! i, int i)
        \<and> visible inp r c = map (\<lambda>j. (request_tokens b ns k ! j, int j))
                              (filter (\<lambda>j. dec \<longrightarrow> j \<le> i) [0..<ns ! k]))"

lemma filter_prefix:
  assumes "n \<le> q" "\<And>j. j < q \<Longrightarrow> P j \<longleftrightarrow> j < n \<and> Q j"
  shows "filter P [0..<q] = filter Q [0..<n]"
proof -
  have "filter P [0..<n] = filter Q [0..<n]" using assms by (intro filter_cong) auto
  moreover have "filter P [n..<q] = []" using assms by (auto simp: filter_empty_conv)
  ultimately show ?thesis using upt_split [of 0 n q] assms(1) by (metis append_Nil2 filter_append le0)
qed

lemma fused_isolated:
  assumes fresh: "fresh_rows b ns" and le: "sum_list ns \<le> padded"
    and ids: "pi_input_ids inp = [fused_row ns (request_tokens b ns) padded]"
    and ps: "pi_position_ids inp = [fused_row ns (\<lambda>k. map int [0..<ns ! k]) padded]"
    and msk: "pi_attn_mask inp = Some [square_mask padded (same_request dec ns)]
       \<or> pi_attn_mask inp = None \<and> dec \<and> length ns = 1"
  shows "isolated True dec b ns inp"
  unfolding isolated_def place_def
proof (intro allI impI, simp only: if_True split_conv, intro conjI)
  fix k i assume k: "k < length ns" and i: "i < ns ! k"
  let ?c = "offset ns k + i"
  have c: "?c < padded" using offset_within [OF k] i le by simp
  have lt: "\<And>k. k < length ns \<Longrightarrow> length (request_tokens b ns k) = ns ! k"
    by (rule length_request_tokens [OF fresh])
  have len: "length (pi_input_ids inp ! 0) = padded"
    using length_fused_row [of ns "request_tokens b ns"] lt le ids by simp
  show "0 < length (pi_input_ids inp)" "?c < length (pi_input_ids inp ! 0)" using ids len c by simp_all
  have tok: "token_at inp 0 (offset ns k + j) = (request_tokens b ns k ! j, int j)" if "j < ns ! k" for j
    using fused_row_cell [of ns "request_tokens b ns" k j padded] lt k that
      fused_row_cell [of ns "\<lambda>k. map int [0..<ns ! k]" k j padded]
    by (simp add: token_at_def ids ps)
  then show "token_at inp 0 ?c = (request_tokens b ns k ! i, int i)" using i by simp
  have "filter (sees inp 0 ?c) [0..<padded] = map ((+) (offset ns k)) (filter (\<lambda>j. dec \<longrightarrow> j \<le> i) [0..<ns ! k])"
  proof (cases "pi_attn_mask inp")
    case None
    then have one: "dec" "length ns = 1" using msk by auto
    then have "k = 0" using k by simp
    then have "filter (sees inp 0 ?c) [0..<padded] = filter (\<lambda>j. dec \<longrightarrow> j \<le> i) [0..<ns ! k]"
      using None one i c offset_within [OF k] le by (intro filter_prefix) (auto simp: sees_def offset_def)
    then show ?thesis using \<open>k = 0\<close> by (simp add: offset_def map_idI)
  next
    case (Some m)
    then have "filter (sees inp 0 ?c) [0..<padded] = filter (same_request dec ns ?c) [0..<padded]"
      using msk c by (intro filter_cong) (auto simp: sees_def)
    then show ?thesis using fused_seen [OF k i le] by simp
  qed
  then show "visible inp 0 ?c = map (\<lambda>j. (request_tokens b ns k ! j, int j))
       (filter (\<lambda>j. dec \<longrightarrow> j \<le> i) [0..<ns ! k])"
    using tok by (simp add: visible_def len comp_def)
qed

lemma rows_isolated:
  assumes fresh: "fresh_rows b ns" and le: "Max (set ns) \<le> padded"
    and ids: "pi_input_ids inp = map (\<lambda>k. take (Max (set ns)) (token_ids_cpu b ! k)
        @ replicate (padded - Max (set ns)) 0) [0..<length ns] @ zero_rows"
    and ps: "pi_position_ids inp = map (\<lambda>k. map int [0..<ns ! k] @ replicate (padded - ns ! k) 0) [0..<length ns] @ zero_rows"
    and wide: "Max (set ns) \<le> max_model_len b"
    and msk: "pi_attn_mask inp = Some (map (\<lambda>k. square_mask padded
          (\<lambda>i j. k < length ns \<and> own_row dec (ns ! k) i j)) [0..<length ns + extra])
       \<or> pi_attn_mask inp = None \<and> dec"
  shows "isolated False dec b ns inp"
  unfolding isolated_def place_def
proof (intro allI impI, simp only: if_False split_conv, intro conjI)
  fix k i assume k: "k < length ns" and i: "i < ns ! k"
  let ?row = "take (Max (set ns)) (token_ids_cpu b ! k) @ replicate (padded - Max (set ns)) 0"
  have nk: "ns ! k \<le> Max (set ns)" using k by simp
  have row: "pi_input_ids inp ! k = ?row" using ids k by (simp add: nth_append)
  have "length (token_ids_cpu b ! k) = max_model_len b" using fresh k by (simp add: fresh_rows_def)
  then have len: "length (pi_input_ids inp ! k) = padded" using row le wide by simp
  show "k < length (pi_input_ids inp)" "i < length (pi_input_ids inp ! k)"
    using ids k less_le_trans [OF i nk] le unfolding len by simp_all
  have tok: "token_at inp k j = (request_tokens b ns k ! j, int j)" if "j < ns ! k" for j
    using that less_le_trans [OF that nk] k ps \<open>length (token_ids_cpu b ! k) = max_model_len b\<close> wide
    by (simp add: token_at_def row request_tokens_def nth_append)
  then show "token_at inp k i = (request_tokens b ns k ! i, int i)" using i by simp
  have "filter (sees inp k i) [0..<padded] = filter (\<lambda>j. dec \<longrightarrow> j \<le> i) [0..<ns ! k]"
  proof (rule filter_prefix)
    show npad: "ns ! k \<le> padded" using le_trans [OF nk le] .
    have "i < padded" using less_le_trans [OF i npad] .
    then show "sees inp k i j \<longleftrightarrow> j < ns ! k \<and> (dec \<longrightarrow> j \<le> i)" if "j < padded" for j
      using msk k i that by (auto simp: sees_def own_row_def split: if_splits)
  qed
  then show "visible inp k i = map (\<lambda>j. (request_tokens b ns k ! j, int j))
       (filter (\<lambda>j. dec \<longrightarrow> j \<le> i) [0..<ns ! k])"
    using tok by (simp add: visible_def len)
qed

lemma isolated_hidden:
  assumes "attends F model" "isolated fused dec b ns inp" "fresh_rows b ns" "k < length ns" "i < ns ! k"
  shows "(case place fused ns k i of (r, c) \<Rightarrow> r < length (model inp) \<and> c < length (model inp ! r)
     \<and> model inp ! r ! c = alone F dec (request_tokens b ns k) ! i)"
proof -
  obtain r c where rc: "place fused ns k i = (r, c)" by fastforce
  have "r < length (pi_input_ids inp)" "c < length (pi_input_ids inp ! r)"
    "token_at inp r c = (request_tokens b ns k ! i, int i)"
    "visible inp r c = map (\<lambda>j. (request_tokens b ns k ! j, int j)) (filter (\<lambda>j. dec \<longrightarrow> j \<le> i) [0..<ns ! k])"
    using assms(2) [unfolded isolated_def, rule_format, OF assms(4,5)] by (simp_all add: rc)
  then show ?thesis
    using assms(1) assms(5) length_request_tokens [OF assms(3,4)]
    by (simp add: rc attends_def alone_def Let_def)
qed

section \<open>The prepared inputs\<close>

text \<open>What \<open>__init__\<close> and the scheduler establish for a step in which all requests run together: buffers as
  wide as the largest padding, a packed batch whose requests are scheduled whole and have nothing
  computed yet, and limits that admit all of them. With more than one row the batch size is the number
  of rows of the token table.\<close>

definition pool_sized :: "pool_config \<Rightarrow> nat \<Rightarrow> pool_buffers \<Rightarrow> bool" where
  "pool_sized cfg nreqs buf \<longleftrightarrow>
     nreqs < length (pu_query_start_loc buf) \<and> nreqs \<le> length (pu_seq_lens buf)
     \<and> (pc_batch_size cfg = 1 \<longrightarrow>
          map length (pu_input_ids buf) = [nat (last (num_tokens_paddings (pc_step cfg)))]
          \<and> map length (pu_positions buf) = [nat (last (num_tokens_paddings (pc_step cfg)))])"

definition pool_config_ok :: "pool_config \<Rightarrow> nat \<Rightarrow> nat \<Rightarrow> nat \<Rightarrow> bool" where
  "pool_config_ok cfg max_reqs max_len nreqs \<longleftrightarrow>
     sc_max_num_reqs (pc_step cfg) = max_reqs
     \<and> sorted (num_tokens_paddings (pc_step cfg)) \<and> num_tokens_paddings (pc_step cfg) \<noteq> []
     \<and> nreqs \<le> num_reqs_max_model_len (pc_step cfg)
     \<and> (case most_model_len (pc_step cfg) of None \<Rightarrow> True | Some _ \<Rightarrow>
          (\<exists>l. num_reqs_most_model_len (pc_step cfg) = Some l \<and> nreqs \<le> l))
     \<and> (pc_batch_size cfg = 1 \<or> 1 < pc_batch_size cfg \<and> pc_batch_size cfg = max_reqs
          \<and> int (max_len) \<le> last (num_tokens_paddings (pc_step cfg)))
     \<and> (pc_data_parallel cfg \<longrightarrow> 0 < pc_num_devices cfg)"

definition pool_counts :: "(req_id, nat) dict \<Rightarrow> 'bt input_batch \<Rightarrow> nat list" where
  "pool_counts scheduled b = map (count_of scheduled b) [0..<num_reqs b]"

definition pool_ready ::
  "pool_config \<Rightarrow> 'bt input_batch \<Rightarrow> (req_id, nat) dict \<Rightarrow> pool_buffers \<Rightarrow> bool" where
  "pool_ready cfg b scheduled buf \<longleftrightarrow>
     batch_inv b \<and> packed b \<and> 0 < num_reqs b \<and> pool_config_ok cfg (max_num_reqs b) (max_model_len b) (num_reqs b) \<and> pool_sized cfg (max_num_reqs b) buf
     \<and> (\<forall>i < num_reqs b. dget scheduled (the (req_ids b ! i)) \<noteq> None \<and> num_computed_tokens b ! i = 0
          \<and> 0 < count_of scheduled b i \<and> count_of scheduled b i \<le> max_model_len b)
     \<and> (pc_batch_size cfg = 1 \<longrightarrow>
          int (sum_list (pool_counts scheduled b)) \<le> last (num_tokens_paddings (pc_step cfg)))"

lemma pool_ready_fresh:
  assumes "pool_ready cfg b scheduled buf"
  shows "fresh_rows b (pool_counts scheduled b)"
proof -
  have "arrays_sized b" "num_reqs b \<le> max_num_reqs b"
    using assms num_reqs_bound [of b] by (auto simp: pool_ready_def batch_inv_def)
  then show ?thesis
    using assms by (auto simp: fresh_rows_def pool_ready_def pool_counts_def arrays_sized_def Let_def)
qed

lemma device_rows_ok:
  assumes "dp \<longrightarrow> 0 < nd" "row_width ids = row_width ps"
  shows "\<exists>z extra. device_rows dp nd (ids, ps) = Inr (ids @ z, ps @ z, extra) \<and> length z = extra
    \<and> (\<not> dp \<longrightarrow> extra = 0)"
proof (cases "dp \<and> length ids mod nd \<noteq> 0")
  case True
  then show ?thesis using assms by (auto simp: device_rows_def Let_def)
next
  case False
  then have "device_rows dp nd (ids, ps) = Inr (ids, ps, 0)" using assms by (auto simp: device_rows_def Let_def)
  then show ?thesis by (intro exI [of _ "[]"] exI [of _ 0]) simp
qed

text \<open>The rows, in either layout, with the number of rows of the mask.\<close>

lemma pool_rows_fused:
  assumes ready: "pool_ready cfg b scheduled buf" and one: "pc_batch_size cfg = 1"
    and padded: "sum_list (pool_counts scheduled b) \<le> padded"
      "padded \<le> nat (last (num_tokens_paddings (pc_step cfg)))"
  obtains buf' where "pool_rows cfg b (pool_counts scheduled b) padded buf =
      Inr ([fused_row (pool_counts scheduled b) (request_tokens b (pool_counts scheduled b)) padded],
           [fused_row (pool_counts scheduled b) (\<lambda>k. map int [0..<pool_counts scheduled b ! k]) padded], buf', 1, 0)"
    "pool_sized cfg (max_num_reqs b) buf'" "pu_query_start_loc buf' = pu_query_start_loc buf"
    "pu_seq_lens buf' = pu_seq_lens buf"
proof -
  let ?ns = "pool_counts scheduled b" and ?W = "nat (last (num_tokens_paddings (pc_step cfg)))"
  have sized: "pool_sized cfg (max_num_reqs b) buf" using ready by (simp add: pool_ready_def)
  then obtain id_row pos_row where rows: "pu_input_ids buf = [id_row]" "pu_positions buf = [pos_row]"
    "length id_row = ?W" "length pos_row = ?W"
    using one by (auto simp: pool_sized_def)
  obtain ids ps where f: "fused_inputs b ?ns padded buf = Inr ([ids], [ps])"
    "take padded ids = fused_row ?ns (request_tokens b ?ns) padded"
    "take padded ps = fused_row ?ns (\<lambda>k. map int [0..<?ns ! k]) padded" "length ids = ?W" "length ps = ?W"
    using fused_inputs_ok [OF pool_ready_fresh [OF ready] rows(1,2), of padded] rows(3,4) padded by metis
  show ?thesis
  proof (rule that)
    show "pool_rows cfg b ?ns padded buf = Inr ([fused_row ?ns (request_tokens b ?ns) padded],
        [fused_row ?ns (\<lambda>k. map int [0..<?ns ! k]) padded],
        buf\<lparr>pu_input_ids := [ids], pu_positions := [ps]\<rparr>, 1, 0)"
      using one f by (simp add: pool_rows_def)
  qed (use sized f(4,5) in \<open>simp_all add: pool_sized_def\<close>)
qed

lemma pool_rows_own:
  assumes ready: "pool_ready cfg b scheduled buf" and more: "pc_batch_size cfg \<noteq> 1"
    and padded: "Max (set (pool_counts scheduled b)) \<le> padded"
  defines "ns \<equiv> pool_counts scheduled b"
  obtains z extra buf' where "pool_rows cfg b ns padded buf =
      Inr (map (\<lambda>k. take (Max (set ns)) (token_ids_cpu b ! k) @ replicate (padded - Max (set ns)) 0) [0..<length ns] @ z,
           map (\<lambda>k. map int [0..<ns ! k] @ replicate (padded - ns ! k) 0) [0..<length ns] @ z,
           buf', length ns + extra, extra)" "length z = extra" "\<not> pc_data_parallel cfg \<longrightarrow> extra = 0"
    "pool_sized cfg (max_num_reqs b) buf'" "pu_query_start_loc buf' = pu_query_start_loc buf"
    "pu_seq_lens buf' = pu_seq_lens buf"
proof -
  note fresh = pool_ready_fresh [OF ready, folded ns_def]
  note r = ready [unfolded pool_ready_def pool_config_ok_def]
  have cfg: "pc_batch_size cfg = max_num_reqs b" "pc_data_parallel cfg \<longrightarrow> 0 < pc_num_devices cfg"
    using r more by auto
  have ne: "ns \<noteq> []" "length ns = num_reqs b" using r by (auto simp: ns_def pool_counts_def)
  have size: "length (token_ids_cpu b) = max_num_reqs b" "num_reqs b \<le> max_num_reqs b"
    using r num_reqs_bound [of b] by (auto simp: batch_inv_def arrays_sized_def Let_def)
  let ?ids = "map (\<lambda>k. take (Max (set ns)) (token_ids_cpu b ! k) @ replicate (padded - Max (set ns)) 0) [0..<length ns]"
  let ?ps = "map (\<lambda>k. map int [0..<ns ! k] @ replicate (padded - ns ! k) 0) [0..<length ns]"
  have own: "own_rows (pc_batch_size cfg) b ns padded = Inr (?ids, ?ps)"
    using own_rows_ok [OF fresh ne(1)] padded cfg(1) size ne(2) by (simp add: ns_def)
  have first: "0 < length ns" "length (token_ids_cpu b ! 0) = max_model_len b"
  proof -
    show "0 < length ns" using ne(1) by simp
    then have "0 < length (token_ids_cpu b)" using fresh unfolding fresh_rows_def by linarith
    then show "length (token_ids_cpu b ! 0) = max_model_len b" using fresh by (simp add: fresh_rows_def)
  qed
  have "Max (set ns) \<in> set ns" using ne(1) by simp
  then have mx: "Max (set ns) \<le> max_model_len b" using fresh by (auto simp: fresh_rows_def in_set_conv_nth)
  have "[0..<length ns] = 0 # [1..<length ns]" using first(1) by (simp add: upt_conv_Cons)
  moreover have "ns ! 0 \<le> Max (set ns)" using first(1) by simp
  ultimately have "row_width ?ids = row_width ?ps"
    using first mx padded by (simp add: row_width_def ns_def)
  then obtain z extra where z: "device_rows (pc_data_parallel cfg) (pc_num_devices cfg) (?ids, ?ps)
      = Inr (?ids @ z, ?ps @ z, extra)" "length z = extra" "\<not> pc_data_parallel cfg \<longrightarrow> extra = 0"
    using device_rows_ok [OF cfg(2)] by blast
  show ?thesis
  proof (rule that)
    show "pool_rows cfg b ns padded buf = Inr (?ids @ z, ?ps @ z, buf\<lparr>pu_input_ids := ?ids @ z\<rparr>, length ns + extra, extra)"
      using more own z(1) by (simp add: pool_rows_def)
  qed (use z(2,3) r more in \<open>simp_all add: pool_sized_def\<close>)
qed

lemma pool_chunk:
  assumes ready: "pool_ready cfg b scheduled buf"
  obtains u limit where "collect_tokens (pc_step cfg) scheduled b 0 = Inr (u, pool_counts scheduled b)"
    "choose_limit (pc_step cfg) u = Inr limit" "num_reqs b \<le> limit"
    "cut_chunk limit (pool_counts scheduled b) 0 (num_reqs b) = (pool_counts scheduled b, num_reqs b)"
proof -
  note r = ready [unfolded pool_ready_def pool_config_ok_def]
  obtain u where u: "collect_tokens (pc_step cfg) scheduled b 0 = Inr (u, pool_counts scheduled b)"
    "most_model_len (pc_step cfg) = None \<longrightarrow> u"
    using collect_tokens_ok [of b scheduled 0 "num_reqs b" "pc_step cfg"] r
    by (auto simp: collect_tokens_def pool_counts_def)
  obtain limit where limit: "choose_limit (pc_step cfg) u = Inr limit" "num_reqs b \<le> limit"
    using u(2) r by (cases u) (auto simp: choose_limit_def split: option.splits)
  then have "cut_chunk limit (pool_counts scheduled b) 0 (num_reqs b) = (pool_counts scheduled b, num_reqs b)"
    by (simp add: cut_chunk_def pool_counts_def)
  with u limit show ?thesis using that by blast
qed

lemma pool_seq_lens:
  assumes ready: "pool_ready cfg b scheduled buf"
  shows "fill_seq_lens (num_computed_tokens b) (pool_counts scheduled b) (replicate (length (pu_seq_lens buf)) 0)
    = Inr (map int (pool_counts scheduled b)
        @ replicate (length (pu_seq_lens buf) - num_reqs b) 0)"
proof -
  let ?ns = "pool_counts scheduled b"
  note fresh = pool_ready_fresh [OF ready]
  have n: "length ?ns = num_reqs b" by (simp add: pool_counts_def)
  have "num_reqs b \<le> length (pu_seq_lens buf)"
    using ready num_reqs_bound [of b] by (auto simp: pool_ready_def pool_sized_def)
  moreover have "map2 (\<lambda>c n. int (c + n)) (take (length ?ns) (num_computed_tokens b)) ?ns = map int ?ns"
    using fresh by (intro nth_equalityI) (auto simp: fresh_rows_def)
  moreover have "length (take (length ?ns) (num_computed_tokens b)) = length ?ns"
    using fresh by (simp add: fresh_rows_def)
  ultimately show ?thesis
    by (simp add: fill_seq_lens_def np_zip_same n slice_assign_fits)
qed

lemma pool_mask_fused:
  assumes "pool_ready cfg b scheduled buf" "pc_batch_size cfg = 1"
    and "sum_list (pool_counts scheduled b) \<le> q"
  obtains m where "pool_mask cfg (map int (pool_counts scheduled b) @ replicate z 0) q 1 = Inr m"
    "m = Some [square_mask q (same_request (pc_decoder_only cfg) (pool_counts scheduled b))]
      \<or> m = None \<and> pc_decoder_only cfg \<and> length (pool_counts scheduled b) = 1"
proof (cases "1 < sc_max_num_reqs (pc_step cfg) \<or> \<not> pc_decoder_only cfg")
  case True
  have "generate_attn_mask (map int (pool_counts scheduled b)) q 1 (pc_decoder_only cfg)
      = Inr [square_mask q (same_request (pc_decoder_only cfg) (pool_counts scheduled b))]"
    using fused_mask_loop [OF assms(3), of "pc_decoder_only cfg"] by (simp add: generate_attn_mask_def)
  then have "pool_mask cfg (map int (pool_counts scheduled b) @ replicate z 0) q 1
      = Inr (Some [square_mask q (same_request (pc_decoder_only cfg) (pool_counts scheduled b))])"
    using True assms(2) unfolding pool_mask_def mask_ignores_empty by auto
  then show ?thesis using that by blast
next
  case False
  have "num_reqs b \<le> sc_max_num_reqs (pc_step cfg)" "0 < num_reqs b"
    using assms(1) num_reqs_bound [of b] by (auto simp: pool_ready_def pool_config_ok_def)
  then have "num_reqs b = 1" using False by simp
  then show ?thesis using that [of None] False by (simp add: pool_mask_def pool_counts_def)
qed

lemma pool_mask_own:
  assumes "pool_ready cfg b scheduled buf" "pc_batch_size cfg \<noteq> 1"
    and "Max (set (pool_counts scheduled b)) \<le> q"
  defines "ns \<equiv> pool_counts scheduled b"
  obtains m where "pool_mask cfg (map int ns @ replicate z 0) q (length ns + extra) = Inr m"
    "m = Some (map (\<lambda>k. square_mask q (\<lambda>i j. k < length ns \<and> own_row (pc_decoder_only cfg) (ns ! k) i j))
           [0..<length ns + extra])
      \<or> m = None \<and> pc_decoder_only cfg"
proof (cases "pc_decoder_only cfg")
  case True
  then show ?thesis using that [of None] assms(2) by (simp add: pool_mask_def)
next
  case False
  note fresh = pool_ready_fresh [OF assms(1), folded ns_def]
  have "ns \<noteq> []" using assms(1) by (auto simp: ns_def pool_ready_def pool_counts_def)
  moreover have "\<forall>n \<in> set ns. 0 < n \<and> n \<le> q"
    using fresh assms(3) by (auto simp: fresh_rows_def in_set_conv_nth ns_def [symmetric]
        intro: le_trans [OF Max_ge])
  ultimately show ?thesis
    using that row_masks [of ns "length ns + extra" q "pc_decoder_only cfg"] False
    by (auto simp: pool_mask_def mask_ignores_empty)
qed

text \<open>Both layouts isolate the requests.\<close>

lemma pool_prepare_ok:
  assumes ready: "pool_ready cfg b scheduled buf" and tot: "0 < total_tokens"
  defines "ns \<equiv> pool_counts scheduled b"
  shows "\<exists>inp buf'. pool_prepare_inputs cfg b total_tokens scheduled 0 buf = Inr (inp, buf')
    \<and> pi_counts inp = ns \<and> pi_end_index inp = num_reqs b
    \<and> isolated (pc_batch_size cfg = 1) (pc_decoder_only cfg) b ns inp
    \<and> length (pi_input_ids inp) = (if pc_batch_size cfg = 1 then 1 else length ns + pi_additional inp)
    \<and> (pc_data_parallel cfg \<and> pc_batch_size cfg \<noteq> 1 \<or> pi_additional inp = 0)
    \<and> take (num_reqs b) (pu_seq_lens buf') = map int ns \<and> pool_sized cfg (max_num_reqs b) buf'"
proof -
  let ?M = "Max (set ns)"
  note fresh = pool_ready_fresh [OF ready, folded ns_def]
  note r = ready [unfolded pool_ready_def pool_config_ok_def]
  have n: "length ns = num_reqs b" "ns \<noteq> []" using r by (auto simp: ns_def pool_counts_def)
  obtain u limit where chunk: "collect_tokens (pc_step cfg) scheduled b 0 = Inr (u, ns)"
    "choose_limit (pc_step cfg) u = Inr limit" "num_reqs b \<le> limit" "cut_chunk limit ns 0 (num_reqs b) = (ns, num_reqs b)"
    using pool_chunk [OF ready] unfolding ns_def by metis
  have "?M \<in> set ns" using n(2) by simp
  then have M: "0 < ?M" "?M \<le> max_model_len b" "?M \<le> sum_list ns"
    using fresh member_le_sum_list [of ?M ns] by (auto simp: fresh_rows_def in_set_conv_nth)
  define want where "want = (if 1 < pc_batch_size cfg then ?M else sum_list ns)"
  have bs: "pc_batch_size cfg = 1 \<or> 1 < pc_batch_size cfg" using r by auto
  have "int want \<le> last (num_tokens_paddings (pc_step cfg))"
    using r M(2) by (auto simp: want_def ns_def)
  then obtain p where p: "get_padded_token_len (num_tokens_paddings (pc_step cfg)) (int want) = Inr p"
    using padded_token_len_exists [of "num_tokens_paddings (pc_step cfg)" "int want"] r by auto
  have pp: "p \<in> set (num_tokens_paddings (pc_step cfg))" "int want \<le> p"
    using padded_token_len_least [OF _ p] r by auto
  then have pl: "p \<le> last (num_tokens_paddings (pc_step cfg))"
    using r by (auto simp: in_set_conv_nth last_conv_nth intro!: sorted_nth_mono)
  have want: "want \<le> nat p" "nat p \<le> nat (last (num_tokens_paddings (pc_step cfg)))" using pp(2) pl by linarith+
  define z where "z = length (pu_seq_lens buf) - num_reqs b"
  define sls where "sls = map int ns @ replicate z 0"
  have sl: "fill_seq_lens (num_computed_tokens b) ns (replicate (length (pu_seq_lens buf)) 0) = Inr sls"
    using pool_seq_lens [OF ready] by (simp add: ns_def sls_def z_def)
  obtain y where y: "(if u then take (length ns) sls else take limit sls) = map int ns @ replicate y 0"
    using chunk(3) n(1) by (cases u) (auto simp: sls_def intro: that [of 0])
  have qs: "length ns < length (pu_query_start_loc buf)"
    using r num_reqs_bound [of b] n(1) by (auto simp: pool_sized_def)
  obtain qsl where qsl: "fill_query_start ns (pu_query_start_loc buf) = Inr qsl" "length qsl = length (pu_query_start_loc buf)"
    using qs by (auto simp: fill_query_start_def)
  have finish: ?thesis
    if rows: "pool_rows cfg b ns (nat p) buf = Inr (ids, ps, buf', mask_rows, extra)"
      "pu_query_start_loc buf' = pu_query_start_loc buf" "pu_seq_lens buf' = pu_seq_lens buf"
      "pool_sized cfg (max_num_reqs b) buf'"
      and width: "row_width ids = nat p"
      and msk: "pool_mask cfg (map int ns @ replicate y 0) (nat p) mask_rows = Inr m"
      and iso: "\<And>inp. pi_input_ids inp = ids \<Longrightarrow> pi_position_ids inp = ps \<Longrightarrow> pi_attn_mask inp = m
         \<Longrightarrow> isolated (pc_batch_size cfg = 1) (pc_decoder_only cfg) b ns inp"
      and len: "length ids = (if pc_batch_size cfg = 1 then 1 else length ns + extra)"
      and ex: "pc_data_parallel cfg \<and> pc_batch_size cfg \<noteq> 1 \<or> extra = 0"
    for ids ps buf' mask_rows extra m
  proof -
    have "pool_prepare_inputs cfg b total_tokens scheduled 0 buf = Inr (\<lparr> pi_input_ids = ids,
        pi_position_ids = ps, pi_attn_mask = m,
        pi_logits_indices = map (\<lambda>x. x - 1) (slice qsl 1 (nat (padded_num_reqs_with_upper_limit
            (int (length ns)) (int (sc_max_num_reqs (pc_step cfg)))) + 1)),
        pi_lora_tokens = (if has_lora (pc_step cfg)
          then Some ((map int ns)[length ns - 1 := int (ns ! (length ns - 1)) + (p - int (sum_list ns))]) else None),
        pi_counts = ns, pi_additional = extra, pi_end_index = num_reqs b \<rparr>,
      buf'\<lparr>pu_query_start_loc := qsl, pu_seq_lens := sls\<rparr>)"
      using tot r n(2) M(1) chunk p [unfolded want_def] rows(1-3) qsl(1) sl msk [folded y] width
      by (simp add: pool_prepare_inputs_def Let_def)
    moreover have "take (num_reqs b) sls = map int ns" by (simp add: sls_def n(1))
    moreover have "pool_sized cfg (max_num_reqs b) (buf'\<lparr>pu_query_start_loc := qsl, pu_seq_lens := sls\<rparr>)"
      using rows(2-4) qsl(2) r num_reqs_bound [of b] by (auto simp: pool_sized_def sls_def z_def n(1))
    ultimately show ?thesis using iso len ex by auto
  qed
  show ?thesis
  proof (cases "pc_batch_size cfg = 1")
    case True
    then have w: "sum_list ns \<le> nat p" using want(1) by (simp add: want_def)
    obtain buf' where "pool_rows cfg b ns (nat p) buf = Inr ([fused_row ns (request_tokens b ns) (nat p)],
           [fused_row ns (\<lambda>k. map int [0..<ns ! k]) (nat p)], buf', 1, 0)"
      "pool_sized cfg (max_num_reqs b) buf'" "pu_query_start_loc buf' = pu_query_start_loc buf"
      "pu_seq_lens buf' = pu_seq_lens buf"
      using pool_rows_fused [OF ready True] w want(2) unfolding ns_def by metis
    moreover obtain m where "pool_mask cfg (map int ns @ replicate y 0) (nat p) 1 = Inr m"
      "m = Some [square_mask (nat p) (same_request (pc_decoder_only cfg) ns)]
        \<or> m = None \<and> pc_decoder_only cfg \<and> length ns = 1"
      using pool_mask_fused [OF ready True] w unfolding ns_def by metis
    moreover have "row_width [fused_row ns (request_tokens b ns) (nat p)] = nat p"
      using length_fused_row [OF length_request_tokens [OF fresh] w] by (simp add: row_width_def)
    ultimately show ?thesis
      using True fused_isolated [OF fresh w] by (intro finish) auto
  next
    case False
    then have w: "?M \<le> nat p" using want(1) bs by (simp add: want_def)
    obtain zr extra buf' where rows: "pool_rows cfg b ns (nat p) buf =
      Inr (map (\<lambda>k. take ?M (token_ids_cpu b ! k) @ replicate (nat p - ?M) 0) [0..<length ns] @ zr,
           map (\<lambda>k. map int [0..<ns ! k] @ replicate (nat p - ns ! k) 0) [0..<length ns] @ zr,
           buf', length ns + extra, extra)" "length zr = extra" "\<not> pc_data_parallel cfg \<longrightarrow> extra = 0"
      "pool_sized cfg (max_num_reqs b) buf'" "pu_query_start_loc buf' = pu_query_start_loc buf"
      "pu_seq_lens buf' = pu_seq_lens buf"
      by (rule pool_rows_own [OF ready False w [unfolded ns_def], folded ns_def])
    moreover obtain m where "pool_mask cfg (map int ns @ replicate y 0) (nat p) (length ns + extra) = Inr m"
      "m = Some (map (\<lambda>k. square_mask (nat p) (\<lambda>i j. k < length ns \<and> own_row (pc_decoder_only cfg) (ns ! k) i j))
           [0..<length ns + extra]) \<or> m = None \<and> pc_decoder_only cfg"
      by (rule pool_mask_own [OF ready False w [unfolded ns_def], folded ns_def])
    moreover have "row_width (map (\<lambda>k. take ?M (token_ids_cpu b ! k) @ replicate (nat p - ?M) 0) [0..<length ns] @ zr) = nat p"
    proof -
      have "0 < length ns" "0 < length (token_ids_cpu b)" using fresh n(2) by (auto simp: fresh_rows_def)
      then have "length (token_ids_cpu b ! 0) = max_model_len b" "[0..<length ns] = 0 # [1..<length ns]"
        using fresh by (auto simp: fresh_rows_def upt_conv_Cons)
      then show ?thesis using M(2) w by (simp add: row_width_def)
    qed
    ultimately show ?thesis
      using False rows_isolated [OF fresh w _ _ M(2)] by (intro finish) auto
  qed
qed

end
