(* ===== verification/PoolingRunnerProps.thy ===== *)
theory PoolingRunnerProps
  imports PoolingRunner PoolingInputsProps
begin

text \<open>
  What a pooling step answers. When all requests run together, each request gets what the pooler makes
  of the hidden states it would have alone; when they run in several groups, the outputs of all groups
  but the last are lost.
\<close>

section \<open>The metadata\<close>

lemma dict_in_order:
  assumes "pool_ok ops row b" "none_at (req_ids b) = {}" "keyed_by_requests b d"
  shows "length (req_ids b) = length d"
    "rmap (\<lambda>r. case r of None \<Rightarrow> Inl KeyError | Some rid \<Rightarrow> ditem d rid) (req_ids b)
      = Inr (map (\<lambda>r. the (dget d (the r))) (req_ids b))"
proof -
  have inv: "batch_inv b" using assms(1) by (simp add: pool_ok_def)
  have some: "\<exists>rid. r = Some rid \<and> rid \<in> ids_of (req_ids b)" if mem: "r \<in> set (req_ids b)" for r
  proof -
    obtain i where "i < length (req_ids b)" "req_ids b ! i = r" using mem by (auto simp: in_set_conv_nth)
    then have "r \<noteq> None" using assms(2) by (auto simp: none_at_def)
    then show ?thesis using mem by (auto simp: ids_of_def)
  qed
  have "card (ids_of (req_ids b)) = length (req_ids b)" using pb.card_ids [OF assms(1)] assms(2) by simp
  then show "length (req_ids b) = length d"
    using assms(3) distinct_card [of "dkeys d"] by (simp add: keyed_by_requests_def)
  show "rmap (\<lambda>r. case r of None \<Rightarrow> Inl KeyError | Some rid \<Rightarrow> ditem d rid) (req_ids b)
      = Inr (map (\<lambda>r. the (dget d (the r))) (req_ids b))"
  proof (intro rmap_all ballI)
    fix r assume "r \<in> set (req_ids b)"
    then obtain rid where rid: "r = Some rid" "rid \<in> ids_of (req_ids b)" using some by blast
    then have "rid \<in> set (dkeys d)" using assms(3) by (simp add: keyed_by_requests_def)
    then have "dget d rid \<noteq> None" using dget_None_iff [of d rid] by simp
    then show "(case r of None \<Rightarrow> Inl KeyError | Some rid \<Rightarrow> ditem d rid) = Inr (the (dget d (the r)))"
      using rid(1) by (auto simp: ditem_def)
  qed
qed

lemma pooling_metadata_ok:
  assumes "pool_ok ops row b" "none_at (req_ids b) = {}"
  shows "\<exists>states. pooling_metadata b = Inr \<lparr> pm_prompt_lens = take (num_reqs b) (num_prompt_tokens b),
     pm_prompt_token_ids = None, pm_params = map (\<lambda>r. the (dget (pooling_params b) (the r))) (req_ids b),
     pm_states = states \<rparr>"
proof -
  have k: "keyed_by_requests b (pooling_params b)" "keyed_by_requests b (pooling_states b)"
    using assms(1) by (simp_all add: pool_ok_def)
  have "get_pooling_params b = Inr (map (\<lambda>r. the (dget (pooling_params b) (the r))) (req_ids b))"
    using dict_in_order [OF assms k(1)] by (simp add: get_pooling_params_def)
  moreover have "get_pooling_states b = Inr (map (\<lambda>r. the (dget (pooling_states b) (the r))) (req_ids b))"
    using dict_in_order [OF assms k(2)] by (simp add: get_pooling_states_def)
  ultimately show ?thesis by (simp add: pooling_metadata_def)
qed

section \<open>One group with all requests\<close>

text \<open>What is relied on of vLLM: slicing the metadata slices its columns, and the pooler pools every
  sequence by itself, in the order of the counts the cursor was made with.\<close>

definition pooler_laws :: "('h, 'c, 'out) pooler_ops \<Rightarrow> ('h list \<Rightarrow> pooling_params \<Rightarrow> 'out option) \<Rightarrow> bool" where
  "pooler_laws ops pool \<longleftrightarrow>
     (\<forall>m a c. pm_prompt_lens (pl_slice ops m a c) = slice (pm_prompt_lens m) a c
        \<and> pm_params (pl_slice ops m a c) = slice (pm_params m) a c)
     \<and> (\<forall>m lens hss. length (pm_params m) = length hss \<longrightarrow>
          (\<exists>cursor. pl_cursor ops m (map length hss) lens = Inr cursor
             \<and> pl_pool ops (concat hss) cursor = Inr (map2 pool hss (pm_params m))))"

lemma length_alone [simp]: "length (alone F dec toks) = length toks"
  by (simp add: alone_def Let_def)

lemma alone_rows:
  assumes "fresh_rows b ns"
  shows "map length (map (\<lambda>k. alone F dec (request_tokens b ns k)) [0..<length ns]) = ns"
  using length_request_tokens [OF assms] by (intro nth_equalityI) simp_all

lemma concat_take_offsets:
  assumes "\<And>k. k < length ns \<Longrightarrow> length (V k) = ns ! k"
    and "\<And>k i. k < length ns \<Longrightarrow> i < ns ! k \<Longrightarrow> xs ! (offset ns k + i) = V k ! i"
    and "sum_list ns \<le> length xs" and "k \<le> length ns"
  shows "take (offset ns k) xs = concat (map V [0..<k])"
  using assms(4)
proof (induction k)
  case (Suc k)
  then have k: "k < length ns" by simp
  have "take (ns ! k) (drop (offset ns k) xs) = V k"
  proof (rule nth_equalityI)
    show "length (take (ns ! k) (drop (offset ns k) xs)) = length (V k)"
      using offset_within [OF k] assms(1) [OF k] assms(3) by simp
    show "take (ns ! k) (drop (offset ns k) xs) ! i = V k ! i"
      if "i < length (take (ns ! k) (drop (offset ns k) xs))" for i
      using that assms(2) [OF k] assms(3) offset_within [OF k] by simp
  qed
  moreover have "take (offset ns (Suc k)) xs = take (offset ns k) xs @ take (ns ! k) (drop (offset ns k) xs)"
    by (simp add: offset_Suc [OF k] take_add)
  ultimately show ?case using Suc by simp
qed (simp add: offset_def)

lemma states_alone:
  assumes att: "attends F model" and iso: "isolated (pc_batch_size cfg = 1) dec b ns inp"
    and fresh: "fresh_rows b ns" and bs: "0 < pc_batch_size cfg" and ne: "ns \<noteq> []"
    and rows: "length (pi_input_ids inp) = (if pc_batch_size cfg = 1 then 1 else length ns + extra)"
  shows "states_for_pooler cfg ns (model inp) =
    Inr (concat (map (\<lambda>k. alone F dec (request_tokens b ns k)) [0..<length ns]))"
proof -
  let ?V = "\<lambda>k. alone F dec (request_tokens b ns k)"
  have V: "length (?V k) = ns ! k" if "k < length ns" for k
    using length_request_tokens [OF fresh that] by simp
  have cell: "\<And>k i. k < length ns \<Longrightarrow> i < ns ! k \<Longrightarrow> (case place (pc_batch_size cfg = 1) ns k i of (r, c) \<Rightarrow>
      r < length (model inp) \<and> c < length (model inp ! r) \<and> model inp ! r ! c = ?V k ! i)"
    by (rule isolated_hidden [OF att iso fresh])
  have len: "length (model inp) = length (pi_input_ids inp)" using att by (simp add: attends_def)
  show ?thesis
  proof (cases "pc_batch_size cfg = 1")
    case True
    let ?row = "model inp ! 0"
    have cells: "offset ns k + i < length ?row \<and> ?row ! (offset ns k + i) = ?V k ! i"
      if "k < length ns" "i < ns ! k" for k i
      using cell [OF that] True by (simp add: place_def)
    have last: "length ns - 1 < length ns" using ne by simp
    have "0 < ns ! (length ns - 1)" using fresh last by (simp add: fresh_rows_def)
    then have "ns ! (length ns - 1) - 1 < ns ! (length ns - 1)" by simp
    then have "offset ns (length ns - 1) + (ns ! (length ns - 1) - 1) < length ?row" using cells [OF last] by blast
    moreover have "offset ns (length ns - 1) + ns ! (length ns - 1) = sum_list ns"
      using offset_Suc [OF last] ne by (simp add: offset_all)
    ultimately have "sum_list ns \<le> length ?row" using \<open>0 < ns ! (length ns - 1)\<close> by linarith
    then have "take (sum_list ns) ?row = concat (map ?V [0..<length ns])"
      using concat_take_offsets [of ns ?V ?row "length ns"] V cells by (simp add: offset_all)
    then show ?thesis using True len rows by (simp add: states_for_pooler_def)
  next
    case False
    have piece: "rbind (lget (model inp) k) (\<lambda>row. Inr (take (ns ! k) row)) = Inr (?V k)" if k: "k < length ns" for k
    proof -
      have cells: "i < length (model inp ! k) \<and> model inp ! k ! i = ?V k ! i" if "i < ns ! k" for i
        using cell [OF k that] False by (simp add: place_def)
      have "ns ! k \<le> length (model inp ! k)"
        using cells [of "ns ! k - 1"] fresh k by (cases "ns ! k") (auto simp: fresh_rows_def)
      then have "take (ns ! k) (model inp ! k) = ?V k"
        using cells V [OF k] by (intro nth_equalityI) simp_all
      then show ?thesis using k len rows False by simp
    qed
    then have "rmap (\<lambda>i. rbind (lget (model inp) i) (\<lambda>row. Inr (take (ns ! i) row))) [0..<length ns]
        = Inr (map ?V [0..<length ns])" by (intro rmap_all) simp
    then show ?thesis using False bs by (simp add: states_for_pooler_def)
  qed
qed

lemma truncated_ok:
  assumes "length hidden = (if pc_batch_size cfg = 1 then 1 else length ns + extra)" "0 < pc_batch_size cfg"
    and "pc_data_parallel cfg \<and> pc_batch_size cfg \<noteq> 1 \<or> extra = 0"
  shows "truncated_states cfg ns extra hidden = Inr ()"
proof (cases "pc_batch_size cfg = 1")
  case True
  then show ?thesis using assms by (simp add: truncated_states_def Let_def)
next
  case False
  define st where "st = (if pc_data_parallel cfg \<and> 0 < extra then take (length hidden - extra) hidden else hidden)"
  have "length st = length ns" using assms False by (auto simp: st_def)
  then have "rmap (\<lambda>i. rbind (lget ns i) (\<lambda>n. Inr (take n (st ! i)))) [0..<length st]
      = Inr (map (\<lambda>i. take (ns ! i) (st ! i)) [0..<length st])" by (intro rmap_all) simp
  then show ?thesis using False assms(2) unfolding truncated_states_def st_def [symmetric] Let_def by simp
qed

definition pool_answers ::
  "(int \<times> int \<Rightarrow> (int \<times> int) list \<Rightarrow> 'h) \<Rightarrow> bool \<Rightarrow> ('h list \<Rightarrow> pooling_params \<Rightarrow> 'out option)
     \<Rightarrow> 'bt input_batch \<Rightarrow> nat list \<Rightarrow> 'out option list" where
  "pool_answers F dec pool b ns =
     map (\<lambda>k. if ns ! k = num_prompt_tokens b ! k
              then pool (alone F dec (request_tokens b ns k)) (the (dget (pooling_params b) (the (req_ids b ! k))))
              else None) [0..<length ns]"

lemma pool_group_ok:
  assumes ok: "pool_ok vops row b" "none_at (req_ids b) = {}"
    and laws: "pooler_laws ops pool" and fresh: "fresh_rows b ns" and n: "length ns = num_reqs b"
    and inp: "pi_counts inp = ns" "pi_end_index inp = num_reqs b"
    and lens: "take (num_reqs b) lens = map int ns"
    and states: "states_for_pooler cfg ns hidden =
      Inr (concat (map (\<lambda>k. alone F dec (request_tokens b ns k)) [0..<length ns]))"
  shows "pool_group cfg (Some ops) b 0 inp lens hidden = Inr (pool_answers F dec pool b ns)"
proof -
  have inv: "batch_inv b" using ok(1) by (simp add: pool_ok_def)
  have nr: "num_reqs b = length (req_ids b)"
    by (rule no_holes_num_reqs [OF inv ok(2)])
  obtain m where m: "pooling_metadata b = Inr m" "pm_prompt_lens m = take (num_reqs b) (num_prompt_tokens b)"
    "pm_params m = map (\<lambda>r. the (dget (pooling_params b) (the r))) (req_ids b)"
    using pooling_metadata_ok [OF ok] by auto
  define m' where "m' = pl_slice ops m 0 (num_reqs b)"
  have m': "pm_prompt_lens m' = take (num_reqs b) (num_prompt_tokens b)" "pm_params m' = pm_params m"
    using laws m(2,3) nr by (simp_all add: pooler_laws_def m'_def slice_def)
  let ?hss = "map (\<lambda>k. alone F dec (request_tokens b ns k)) [0..<length ns]"
  have "length (pm_params m') = length ?hss" using m' m(3) nr n by simp
  then obtain cursor where c: "pl_cursor ops m' ns (map int ns) = Inr cursor"
    "pl_pool ops (concat ?hss) cursor = Inr (map2 pool ?hss (pm_params m'))"
    using laws alone_rows [OF fresh, of F dec] unfolding pooler_laws_def by metis
  have plen: "length (num_prompt_tokens b) = max_num_reqs b" "num_reqs b \<le> max_num_reqs b"
    using arrays_sizedD(5) batch_invD(1,3) [OF inv] nr by simp_all
  have "map (\<lambda>(raw, seq_len, prompt_len). if seq_len = int prompt_len then raw else None)
      (zip (map2 pool ?hss (pm_params m')) (zip (map int ns) (pm_prompt_lens m'))) = pool_answers F dec pool b ns"
    using plen n nr by (intro nth_equalityI) (simp_all add: m' m(3) pool_answers_def)
  then show ?thesis
    using m(1) c states lens inp by (simp add: pool_group_def slice_def m'_def [symmetric] Let_def)
qed

text \<open>The whole loop, when one group takes all requests.\<close>

lemma pool_loop_ok:
  assumes ok: "pool_ok vops row b" "none_at (req_ids b) = {}"
    and ready: "pool_ready cfg b scheduled buf" and tot: "0 < total_tokens"
    and att: "attends F model" and laws: "pooler_laws ops pool"
  shows "\<exists>buf'. pool_loop (Suc (num_reqs b)) cfg (Some ops) (\<lambda>inp. Inr (model inp)) b total_tokens scheduled 0 buf None
      = Some (Inr (Some (pool_answers F (pc_decoder_only cfg) pool b (pool_counts scheduled b)), buf'))
    \<and> pool_sized cfg (max_num_reqs b) buf'"
proof -
  let ?ns = "pool_counts scheduled b"
  obtain inp buf' where p: "pool_prepare_inputs cfg b total_tokens scheduled 0 buf = Inr (inp, buf')"
    "pi_counts inp = ?ns" "pi_end_index inp = num_reqs b"
    "isolated (pc_batch_size cfg = 1) (pc_decoder_only cfg) b ?ns inp"
    "length (pi_input_ids inp) = (if pc_batch_size cfg = 1 then 1 else length ?ns + pi_additional inp)"
    "pc_data_parallel cfg \<and> pc_batch_size cfg \<noteq> 1 \<or> pi_additional inp = 0"
    "take (num_reqs b) (pu_seq_lens buf') = map int ?ns" "pool_sized cfg (max_num_reqs b) buf'"
    using pool_prepare_ok [OF ready tot] by blast
  note r = ready [unfolded pool_ready_def pool_config_ok_def]
  have n: "length ?ns = num_reqs b" "?ns \<noteq> []" "0 < num_reqs b" "0 < pc_batch_size cfg"
    using r by (auto simp: pool_counts_def)
  note fresh = pool_ready_fresh [OF ready]
  have st: "states_for_pooler cfg ?ns (model inp) =
      Inr (concat (map (\<lambda>k. alone F (pc_decoder_only cfg) (request_tokens b ?ns k)) [0..<length ?ns]))"
    by (rule states_alone [OF att p(4) fresh n(4,2) p(5)])
  have tr: "truncated_states cfg ?ns (pi_additional inp) (model inp) = Inr ()"
    using truncated_ok [of "model inp" cfg ?ns] p(5,6) n(4) att by (simp add: attends_def)
  have "pool_group cfg (Some ops) b 0 inp (pu_seq_lens buf') (model inp)
      = Inr (pool_answers F (pc_decoder_only cfg) pool b ?ns)"
    by (rule pool_group_ok [OF ok laws fresh n(1) p(2,3,7) st])
  then show ?thesis
    using p tr n(3) by (cases "num_reqs b") auto
qed

section \<open>The step\<close>

text \<open>A step of an embedding server: new requests only, each scheduled with its whole prompt.\<close>

definition pool_whole :: "pool_output \<Rightarrow> bool" where
  "pool_whole po \<longleftrightarrow>
     cd_req_ids (po_cached_reqs po) = [] \<and> po_new_reqs po \<noteq> []
     \<and> distinct (dkeys (po_num_scheduled_tokens po))
     \<and> po_total_num_scheduled_tokens po = sum_list (map snd (po_num_scheduled_tokens po))
     \<and> (\<forall>nr \<in> set (po_new_reqs po). nr_num_computed_tokens nr = 0
          \<and> (case nr_prompt_token_ids nr of None \<Rightarrow> False
             | Some prompt \<Rightarrow> prompt \<noteq> [] \<and> dget (po_num_scheduled_tokens po) (nr_req_id nr) = Some (length prompt)))"

definition pool_setting ::
  "'bt vllm_ops \<Rightarrow> (nat \<Rightarrow> 'bt \<Rightarrow> int list list) \<Rightarrow> (pooling_params option \<Rightarrow> nat option) \<Rightarrow> pool_config
     \<Rightarrow> pool_output \<Rightarrow> 'bt runner_state \<Rightarrow> pool_buffers \<Rightarrow> bool" where
  "pool_setting vops row pool_states cfg po s buf \<longleftrightarrow>
     pool_inv vops row s \<and> pool_consistent vops pool_states po s \<and> pool_whole po
     \<and> pool_config_ok cfg (max_num_reqs (rs_batch s)) (max_model_len (rs_batch s)) (length (po_num_scheduled_tokens po))
     \<and> pool_sized cfg (max_num_reqs (rs_batch s)) buf
     \<and> (pc_batch_size cfg = 1 \<longrightarrow>
          int (po_total_num_scheduled_tokens po) \<le> last (num_tokens_paddings (pc_step cfg)))"

lemma ids_in_order:
  assumes "pool_ok vops row b" "none_at (req_ids b) = {}"
  shows "distinct (map the (req_ids b))" "set (map the (req_ids b)) = ids_of (req_ids b)"
    "num_reqs b = length (req_ids b)" "packed b"
proof -
  have inv: "batch_inv b" using assms(1) by (simp add: pool_ok_def)
  have some: "\<exists>r. req_ids b ! i = Some r" if "i < length (req_ids b)" for i
    using that assms(2) by (auto simp: none_at_def)
  show set: "set (map the (req_ids b)) = ids_of (req_ids b)"
  proof (intro set_eqI iffI)
    fix x assume "x \<in> set (map the (req_ids b))"
    then obtain i where "i < length (req_ids b)" "x = the (req_ids b ! i)" by (auto simp: in_set_conv_nth)
    then show "x \<in> ids_of (req_ids b)" using some [of i] by (auto simp: ids_of_def in_set_conv_nth)
  qed (force simp: ids_of_def)
  have "card (ids_of (req_ids b)) = length (req_ids b)" using pb.card_ids [OF assms(1)] assms(2) by simp
  then show "distinct (map the (req_ids b))" using set by (intro card_distinct) simp
  show nr: "num_reqs b = length (req_ids b)"
    by (rule no_holes_num_reqs [OF inv assms(2)])
  show "packed b" using some by (auto simp: packed_def live_def nr)
qed

lemma sum_scheduled:
  assumes "pool_ok vops row b" "none_at (req_ids b) = {}"
    and "ids_of (req_ids b) = set (dkeys scheduled)" "distinct (dkeys scheduled)"
  shows "sum_list (pool_counts scheduled b) = sum_list (map snd scheduled)" "num_reqs b = length scheduled"
proof -
  note I = ids_in_order [OF assms(1,2)]
  let ?g = "\<lambda>r. the (dget scheduled r)"
  have "pool_counts scheduled b = map ?g (map the (req_ids b))"
    unfolding pool_counts_def I(3) by (intro nth_equalityI) (simp_all add: count_of_def)
  then have "sum_list (pool_counts scheduled b) = sum ?g (set (dkeys scheduled))"
    using sum_list_distinct_conv_sum_set [OF I(1), of ?g] I(2) assms(3) by simp
  also have "\<dots> = sum_list (map ?g (dkeys scheduled))"
    using sum_list_distinct_conv_sum_set [OF assms(4), of ?g] by simp
  also have "map ?g (dkeys scheduled) = map snd scheduled"
    using assms(4) by (auto simp: map_of_eq_Some_iff intro!: nth_equalityI) 
  finally show "sum_list (pool_counts scheduled b) = sum_list (map snd scheduled)" .
  have "card (ids_of (req_ids b)) = length (req_ids b)" using pb.card_ids [OF assms(1)] assms(2) by simp
  then show "num_reqs b = length scheduled"
    using I(3) assms(3) distinct_card [OF assms(4)] by simp
qed

lemma request_row:
  assumes ok: "pool_ok vops row b" and k: "k < length (req_ids b)" "req_ids b ! k = Some r"
    and v: "pooling_view row b r = Some (pool_wanted st q)"
    and q: "cr_prompt_token_ids q = Some prompt" "st (cr_output_token_ids q) = []"
  shows "take (length prompt) (token_ids_cpu b ! k) = prompt" "num_prompt_tokens b ! k = length prompt"
    "num_computed_tokens b ! k = cr_num_computed_tokens q" "dget (pooling_params b) r = cr_pooling_params q"
proof -
  have "batch_inv b" using ok by (simp add: pool_ok_def)
  then have "dget (req_id_to_index b) r = Some k" using batch_invD(5) k by blast
  then have "pool_view_of (dget (pooling_params b) r) (dget (pooling_states b) r) (row_at row b k) = pool_wanted st q"
    using v by (simp add: pooling_view_def batch_view_def)
  then show "take (length prompt) (token_ids_cpu b ! k) = prompt" "num_prompt_tokens b ! k = length prompt"
    "num_computed_tokens b ! k = cr_num_computed_tokens q" "dget (pooling_params b) r = cr_pooling_params q"
    using q by (auto simp: pool_view_of_def pool_wanted_def row_at_def Let_def)
qed

lemma pool_setting_state:
  assumes set: "pool_setting vops row pool_states cfg po s buf"
  obtains changed s' where "pool_update_states vops pool_states po s = Inr (changed, s')" "pool_inv vops row s'"
    "ids_of (req_ids (rs_batch s')) = nr_req_id ` set (po_new_reqs po)"
    "pool_ready cfg (rs_batch s') (po_num_scheduled_tokens po) buf"
    "\<forall>nr \<in> set (po_new_reqs po). \<exists>k prompt. k < num_reqs (rs_batch s')
       \<and> req_ids (rs_batch s') ! k = Some (nr_req_id nr) \<and> nr_prompt_token_ids nr = Some prompt
       \<and> pool_counts (po_num_scheduled_tokens po) (rs_batch s') ! k = length prompt
       \<and> num_prompt_tokens (rs_batch s') ! k = length prompt
       \<and> request_tokens (rs_batch s') (pool_counts (po_num_scheduled_tokens po) (rs_batch s')) k = prompt
       \<and> dget (pooling_params (rs_batch s')) (nr_req_id nr) = nr_pooling_params nr"
proof -
  let ?sch = "po_num_scheduled_tokens po"
  have S: "pool_inv vops row s" "pool_consistent vops pool_states po s" "pool_whole po"
    "pool_config_ok cfg (max_num_reqs (rs_batch s)) (max_model_len (rs_batch s)) (length ?sch)"
    "pool_sized cfg (max_num_reqs (rs_batch s)) buf"
    "pc_batch_size cfg = 1 \<longrightarrow> int (po_total_num_scheduled_tokens po) \<le> last (num_tokens_paddings (pc_step cfg))"
    using set by (simp_all add: pool_setting_def)
  have W: "cd_req_ids (po_cached_reqs po) = []" "distinct (dkeys ?sch)"
    "po_total_num_scheduled_tokens po = sum_list (map snd ?sch)" "po_new_reqs po \<noteq> []"
    using S(3) by (auto simp: pool_whole_def)
  have whole: "\<exists>prompt. nr_prompt_token_ids nr = Some prompt \<and> prompt \<noteq> [] \<and> dget ?sch (nr_req_id nr) = Some (length prompt)
      \<and> nr_num_computed_tokens nr = 0" if "nr \<in> set (po_new_reqs po)" for nr
    using S(3) that by (fastforce simp: pool_whole_def split: option.splits)
  note C = pool_consistentD [OF S(2)]
  have keys: "set (dkeys ?sch) = nr_req_id ` set (po_new_reqs po)" using C(4) W(1) by simp
  obtain changed s' where s': "pool_update_states vops pool_states po s = Inr (changed, s')" "pool_inv vops row s'"
    "ids_of (req_ids (rs_batch s')) = set (dkeys ?sch)" "batch_static vops (rs_batch s') = batch_static vops (rs_batch s)"
    "\<forall>r \<in> set (dkeys ?sch). pooling_view row (rs_batch s') r = Some (pool_wanted (rs_store s') (the (dget (rs_requests s') r)))"
    "\<forall>nr \<in> set (po_new_reqs po). \<exists>a. rs_store s' a = [] \<and> dget (rs_requests s') (nr_req_id nr) = Some (pool_cached pool_states a nr)"
    using pool_update_states_ok [OF S(1,2)] W(1) by auto
  define b where "b = rs_batch s'"
  have ok: "pool_ok vops row b" "none_at (req_ids b) = {}" using s'(2) by (simp_all add: pool_inv_def b_def)
  note I = ids_in_order [OF ok]
  have ids: "ids_of (req_ids b) = set (dkeys ?sch)" using s'(3) by (simp add: b_def)
  note sums = sum_scheduled [OF ok ids W(2)]
  have static: "max_num_reqs b = max_num_reqs (rs_batch s)" "max_model_len b = max_model_len (rs_batch s)"
    using s'(4) by (auto simp: batch_static_def b_def)
  have at: "take (length prompt) (token_ids_cpu b ! k) = prompt \<and> num_prompt_tokens b ! k = length prompt
      \<and> num_computed_tokens b ! k = 0 \<and> dget (pooling_params b) (nr_req_id nr) = nr_pooling_params nr
      \<and> count_of ?sch b k = length prompt \<and> length prompt \<le> max_model_len b \<and> 0 < length prompt"
    if nr: "nr \<in> set (po_new_reqs po)" "nr_prompt_token_ids nr = Some prompt"
      and k: "k < length (req_ids b)" "req_ids b ! k = Some (nr_req_id nr)" for nr prompt k
  proof -
    obtain a where a: "rs_store s' a = []" "dget (rs_requests s') (nr_req_id nr) = Some (pool_cached pool_states a nr)"
      using s'(6) nr(1) by blast
    have "pooling_view row b (nr_req_id nr) = Some (pool_wanted (rs_store s') (pool_cached pool_states a nr))"
    proof -
      have "nr_req_id nr \<in> set (dkeys ?sch)" unfolding keys using nr(1) by (rule imageI)
      from bspec [OF s'(5) this] show ?thesis by (simp add: b_def a(2))
    qed
    note R = request_row [OF ok(1) k this, of prompt]
    have "length prompt \<le> max_model_len (rs_batch s)"
      using C(10) nr by (auto simp: pool_fits_def pool_cached_def batch_static_def)
    then show ?thesis
      using R a(1) nr whole [OF nr(1)] k(2) static by (auto simp: pool_cached_def count_of_def)
  qed
  have each: "\<exists>nr \<in> set (po_new_reqs po). req_ids b ! k = Some (nr_req_id nr)" if kl: "k < length (req_ids b)" for k
  proof -
    obtain r where r: "req_ids b ! k = Some r" using kl ok(2) by (auto simp: none_at_def)
    then have "r \<in> ids_of (req_ids b)" using nth_mem [OF kl] by (simp add: ids_of_def)
    then show ?thesis using r ids keys by auto
  qed
  have ready: "pool_ready cfg b ?sch buf"
    unfolding pool_ready_def
  proof (intro conjI allI impI)
    show "batch_inv b" using ok(1) by (simp add: pool_ok_def)
    show "packed b" by (rule I(4))
    show "0 < num_reqs b" using sums(2) W(4) keys by (cases ?sch) auto
    show "pool_config_ok cfg (max_num_reqs b) (max_model_len b) (num_reqs b)" using S(4) static sums(2) by simp
    show "pool_sized cfg (max_num_reqs b) buf" using S(5) static by simp
    show "int (sum_list (pool_counts ?sch b)) \<le> last (num_tokens_paddings (pc_step cfg))" if "pc_batch_size cfg = 1"
      using S(6) that sums(1) W(3) by simp
    fix i assume i: "i < num_reqs b"
    then obtain nr where nr: "nr \<in> set (po_new_reqs po)" "req_ids b ! i = Some (nr_req_id nr)"
      using each I(3) by auto
    obtain prompt where pr: "nr_prompt_token_ids nr = Some prompt" "dget ?sch (nr_req_id nr) = Some (length prompt)"
      using whole [OF nr(1)] by blast
    note a = at [OF nr(1) pr(1) _ nr(2)]
    show "dget ?sch (the (req_ids b ! i)) \<noteq> None" using nr(2) pr(2) by simp
    show "num_computed_tokens b ! i = 0" "0 < count_of ?sch b i" "count_of ?sch b i \<le> max_model_len b"
      using a i I(3) by simp_all
  qed
  have one: "\<exists>k prompt. k < num_reqs b \<and> req_ids b ! k = Some (nr_req_id nr) \<and> nr_prompt_token_ids nr = Some prompt
       \<and> pool_counts ?sch b ! k = length prompt \<and> num_prompt_tokens b ! k = length prompt
       \<and> request_tokens b (pool_counts ?sch b) k = prompt \<and> dget (pooling_params b) (nr_req_id nr) = nr_pooling_params nr"
    if nr: "nr \<in> set (po_new_reqs po)" for nr
  proof -
    have "nr_req_id nr \<in> ids_of (req_ids b)" using nr ids keys by auto
    then obtain k where k: "k < length (req_ids b)" "req_ids b ! k = Some (nr_req_id nr)"
      by (auto simp: ids_of_def in_set_conv_nth)
    obtain prompt where pr: "nr_prompt_token_ids nr = Some prompt" using whole [OF nr] by blast
    show ?thesis using at [OF nr pr k] k pr I(3)
      by (intro exI [of _ k] exI [of _ prompt]) (simp add: pool_counts_def request_tokens_def)
  qed
  show ?thesis
    by (rule that [OF s'(1,2)]) (use ids keys ready one in \<open>simp_all add: b_def\<close>)
qed


section \<open>Several groups\<close>

lemma pool_prepare_advances:
  assumes "pool_prepare_inputs cfg b total_tokens scheduled start buf = Inr (inp, buf')"
    and "most_model_len (pc_step cfg) = None"
  defines "limit \<equiv> num_reqs_max_model_len (pc_step cfg)"
  shows "start < num_reqs b" "0 < length (pi_counts inp)" "length (pi_counts inp) \<le> limit"
    "pi_end_index inp = (if limit < num_reqs b - start then start + limit else num_reqs b)"
    "\<exists>m. fill_seq_lens (num_computed_tokens b) (pi_counts inp) (replicate m 0) = Inr (pu_seq_lens buf')"
proof -
  obtain u all_ns where c: "start < num_reqs b" "collect_tokens (pc_step cfg) scheduled b start = Inr (u, all_ns)"
    using assms(1) by (auto simp: pool_prepare_inputs_def res_simps)
  have u: "u"
  proof -
    have step: "fst s'" if "fst s" "collect_step (pc_step cfg) scheduled b s x = Inr s'" for s s' x
      using that by (auto simp: collect_step_def res_simps split: prod.splits)
    have "fst (u, all_ns)"
      by (rule rfold_invariant [where I = fst, OF c(2) [unfolded collect_tokens_def]]) (auto simp: assms(2) intro: step)
    then show ?thesis by simp
  qed
  then have limit: "choose_limit (pc_step cfg) u = Inr limit" by (simp add: choose_limit_def limit_def)
  obtain ns e where cut: "cut_chunk limit all_ns start (num_reqs b) = (ns, e)" by fastforce
  have h: "ns \<noteq> []" "pi_counts inp = ns" "pi_end_index inp = e"
    "\<exists>m. fill_seq_lens (num_computed_tokens b) ns (replicate m 0) = Inr (pu_seq_lens buf')"
    using assms(1) c limit cut by (auto simp: pool_prepare_inputs_def res_simps Let_def split: prod.splits)
  note len = collect_tokens_length [OF c(2)]
  have "length ns \<le> limit" using cut by (auto simp: cut_chunk_def split: if_splits)
  then show "length (pi_counts inp) \<le> limit" by (simp add: h(2))
  show "start < num_reqs b" by (rule c(1))
  show "0 < length (pi_counts inp)"
    "pi_end_index inp = (if limit < num_reqs b - start then start + limit else num_reqs b)"
    using h(1-3) cut len by (auto simp: cut_chunk_def split: if_splits)
  show "\<exists>m. fill_seq_lens (num_computed_tokens b) (pi_counts inp) (replicate m 0) = Inr (pu_seq_lens buf')"
    using h(2,4) by simp
qed

lemma set_replicate_subset_one: "set (replicate n x) \<subseteq> {x}"
  by (cases n) auto

lemma fill_seq_lens_rest:
  assumes "fill_seq_lens computed ns (replicate m 0) = Inr sls" "length ns \<le> start"
  shows "set (slice sls start e) \<subseteq> {0}"
proof -
  obtain vs where vs: "slice_assign (replicate m 0) 0 (length ns) vs = Inr sls"
    using assms(1) by (auto simp: fill_seq_lens_def res_simps)
  have "drop (min (length ns) m) sls = replicate (m - min (length ns) m) 0"
    using vs by (auto simp: slice_assign_def Let_def split: if_splits)
  then have "set (drop (min (length ns) m) sls) \<subseteq> {0}" by (metis set_replicate_subset_one)
  moreover have "set (slice sls start e) \<subseteq> set (drop (min (length ns) m) sls)"
    unfolding slice_def
    by (rule order_trans [OF set_take_subset set_drop_subset_set_drop]) (simp add: assms(2) min.coboundedI1)
  ultimately show ?thesis by blast
qed

lemma pool_group_late:
  assumes g: "pool_group cfg (Some ops) b start inp sls hidden = Inr outs" and laws: "pooler_laws ops pool"
    and zero: "set (slice sls start (pi_end_index inp)) \<subseteq> {0}" and pos: "\<forall>n \<in> set (num_prompt_tokens b). 0 < n"
  shows "set outs \<subseteq> {None}"
proof -
  obtain m raws where m: "pooling_metadata b = Inr m" "outs = map (\<lambda>(raw, seq_len, prompt_len).
      if seq_len = int prompt_len then raw else None) (zip raws (zip (slice sls start (pi_end_index inp))
        (pm_prompt_lens (pl_slice ops m start (pi_end_index inp)))))"
    using g by (auto simp: pool_group_def Let_def res_simps)
  have "pm_prompt_lens m = take (num_reqs b) (num_prompt_tokens b)"
    using m(1) by (auto simp: pooling_metadata_def res_simps)
  then have pl: "set (pm_prompt_lens (pl_slice ops m start (pi_end_index inp))) \<subseteq> set (num_prompt_tokens b)"
    using laws by (auto simp: pooler_laws_def slice_def dest!: in_set_takeD in_set_dropD)
  show ?thesis
  proof
    fix x assume "x \<in> set outs"
    then obtain raw l n where x: "x = (if l = int n then raw else None)"
      "(raw, l, n) \<in> set (zip raws (zip (slice sls start (pi_end_index inp))
        (pm_prompt_lens (pl_slice ops m start (pi_end_index inp)))))"
      unfolding m(2) by auto
    have "l = 0" "0 < n"
      using x(2) zero pl pos by (auto dest!: set_zip_rightD [of raw "(l, n)"] dest: set_zip_leftD set_zip_rightD)
    then show "x \<in> {None}" using x(1) by simp
  qed
qed

lemma pool_group_length:
  assumes "pool_group cfg pooler b start inp sls hidden = Inr outs"
  shows "length outs \<le> pi_end_index inp - start"
  using assms by (auto simp: pool_group_def Let_def res_simps split: option.splits)

text \<open>C34. When the requests of a step do not fit one group, the step answers none of them: it returns fewer
  outputs than it names requests, because the outputs of every group replace those of the groups before,
  and all of them are empty, because a later group looks for its lengths behind those just written.\<close>

theorem later_pooling_groups_lose_all_outputs:
  assumes "most_model_len (pc_step cfg) = None" "num_reqs_max_model_len (pc_step cfg) < num_reqs b"
    and "\<forall>n \<in> set (num_prompt_tokens b). 0 < n" "pooler_laws ops pool"
    and "pool_loop fuel cfg (Some ops) model b total_tokens scheduled 0 buf None = Some (Inr (Some outs, buf'))"
  shows "length outs < num_reqs b \<and> set outs \<subseteq> {None}"
proof -
  let ?L = "num_reqs_max_model_len (pc_step cfg)"
  have later: "length outs \<le> num_reqs b - ?L \<and> set outs \<subseteq> {None}"
    if "pool_loop fuel cfg (Some ops) model b total_tokens scheduled start buf outputs = Some (Inr (Some outs, buf'))"
      "0 < ?L" "?L \<le> start" "start < num_reqs b \<or> outputs = Some outs \<and> length outs \<le> num_reqs b - ?L \<and> set outs \<subseteq> {None}"
    for fuel start buf outputs
    using that
  proof (induction fuel arbitrary: start buf outputs)
    case (Suc fuel)
    show ?case
    proof (cases "start < num_reqs b")
      case False
      then show ?thesis using Suc.prems by simp
    next
      case True
      obtain inp buf1 hidden o1 where one: "pool_prepare_inputs cfg b total_tokens scheduled start buf = Inr (inp, buf1)"
        "pool_group cfg (Some ops) b start inp (pu_seq_lens buf1) hidden = Inr o1"
        "pool_loop fuel cfg (Some ops) model b total_tokens scheduled (pi_end_index inp) buf1 (Some o1) = Some (Inr (Some outs, buf'))"
        using Suc.prems(1) True by (auto simp: res_simps split: sum.splits)
      note adv = pool_prepare_advances [OF one(1) assms(1)]
      obtain m where "fill_seq_lens (num_computed_tokens b) (pi_counts inp) (replicate m 0) = Inr (pu_seq_lens buf1)"
        using adv(5) by blast
      then have "set (slice (pu_seq_lens buf1) start (pi_end_index inp)) \<subseteq> {0}"
        using fill_seq_lens_rest adv(3) Suc.prems(3) by (meson le_trans)
      then have "set o1 \<subseteq> {None}" using pool_group_late [OF one(2) assms(4)] assms(3) by blast
      moreover have "length o1 \<le> num_reqs b - ?L"
        using pool_group_length [OF one(2)] adv(4) Suc.prems(3) by (auto split: if_splits)
      moreover have "o1 = outs" if "\<not> pi_end_index inp < num_reqs b"
        using one(3) that by (cases fuel) auto
      ultimately show ?thesis
        using Suc.IH [OF one(3) Suc.prems(2)] adv(4) Suc.prems(3) True by (auto split: if_splits)
    qed
  qed simp
  obtain f where f: "fuel = Suc f" using assms(5) by (cases fuel) auto
  have pos: "0 < num_reqs b" using assms(2) by simp
  obtain inp buf1 o1 where one: "pool_prepare_inputs cfg b total_tokens scheduled 0 buf = Inr (inp, buf1)"
    "pool_loop f cfg (Some ops) model b total_tokens scheduled (pi_end_index inp) buf1 (Some o1) = Some (Inr (Some outs, buf'))"
    using assms(5) pos by (auto simp: f res_simps split: sum.splits)
  note adv = pool_prepare_advances [OF one(1) assms(1)]
  have L: "0 < ?L" "pi_end_index inp = ?L"
    using less_le_trans [OF adv(2,3)] adv(4) assms(2) by simp_all
  show ?thesis using later [OF one(2) L(1)] L assms(2) by auto
qed

section \<open>Concrete steps\<close>

text \<open>A pooler that hands out the hidden state of the last token: it cuts the list at the lengths of the
  requests, which are what the cursor holds.\<close>

fun ex_cut :: "nat list \<Rightarrow> 'h list \<Rightarrow> 'h list list" where
  "ex_cut [] hs = []"
| "ex_cut (n # ns) hs = take n hs # ex_cut ns (drop n hs)"

lemma ex_cut_concat: "ex_cut (map length hss) (concat hss) = hss"
  by (induction hss) simp_all

definition ex_last :: "int list \<Rightarrow> pooling_params \<Rightarrow> int option" where
  "ex_last hs params = (if hs = [] then None else Some (last hs))"

definition ex_pooler :: "(int, nat list \<times> pooling_params list, int) pooler_ops" where
  "ex_pooler = \<lparr> pl_slice = (\<lambda>m a c. m\<lparr>pm_prompt_lens := slice (pm_prompt_lens m) a c, pm_params := slice (pm_params m) a c\<rparr>),
     pl_cursor = (\<lambda>m counts lens. Inr (counts, pm_params m)),
     pl_pool = (\<lambda>hs (counts, params). Inr (map2 ex_last (ex_cut counts hs) params)) \<rparr>"

lemma ex_pooler_laws: "pooler_laws ex_pooler ex_last"
  by (simp add: pooler_laws_def ex_pooler_def ex_cut_concat)

text \<open>A model whose hidden state is the sum of the tokens it sees, and two prompts in one fused row.\<close>

definition ex_sum :: "int \<times> int \<Rightarrow> (int \<times> int) list \<Rightarrow> int" where
  "ex_sum t vis = sum_list (map fst vis)"

definition ex_sum_model :: "pool_inputs \<Rightarrow> int list list" where
  "ex_sum_model inp = map (\<lambda>r. map (\<lambda>i. ex_sum (token_at inp r i) (visible inp r i))
     [0..<length (pi_input_ids inp ! r)]) [0..<length (pi_input_ids inp)]"

definition ex_pool_request2 :: pool_request_data where
  "ex_pool_request2 = ex_pool_request\<lparr>nr_req_id := ''b'', nr_prompt_token_ids := Some [4, 5], nr_block_ids := [[6]]\<rparr>"

definition ex_pool_two :: pool_output where
  "ex_pool_two = ex_pool_output\<lparr>po_new_reqs := [ex_pool_request, ex_pool_request2],
     po_num_scheduled_tokens := [(''a'', 3), (''b'', 2)], po_total_num_scheduled_tokens := 5\<rparr>"

definition ex_pool_config :: "nat \<Rightarrow> pool_config" where
  "ex_pool_config limit = \<lparr> pc_step = \<lparr> most_model_len = None, num_reqs_most_model_len = None,
       num_reqs_max_model_len = limit, sc_max_num_reqs = 2, num_tokens_paddings = [4, 8],
       max_num_blocks_per_req = 1, num_blocks_per_most_len_req = None, has_lora = False \<rparr>,
     pc_batch_size = 1, pc_data_parallel = False, pc_num_devices = 1, pc_decoder_only = True \<rparr>"

definition ex_pool_buffers :: pool_buffers where
  "ex_pool_buffers = \<lparr> pu_input_ids = [replicate 8 0], pu_positions = [replicate 8 0],
     pu_query_start_loc = replicate 3 0, pu_seq_lens = replicate 2 0 \<rparr>"

lemma ex_pool_two_consistent: "pool_consistent ex_ops ex_pool_states ex_pool_two ex_pool_state"
  by (simp add: pool_consistent_def ex_pool_two_def ex_pool_request2_def ex_pool_output_def ex_pool_state_def
      ex_pool_request_def ids_of_def pool_kept_def pool_fits_def pool_cached_def ex_pool_states_def batch_static_def
      new_input_batch_def Let_def)

lemma ex_pool_setting: "pool_setting ex_ops ex_row ex_pool_states (ex_pool_config 2) ex_pool_two ex_pool_state ex_pool_buffers"
proof -
  have "pool_whole ex_pool_two"
    by (simp add: pool_whole_def ex_pool_two_def ex_pool_request2_def ex_pool_output_def ex_pool_request_def)
  moreover have "pool_config_ok (ex_pool_config 2) 2 4 2"
    by (simp add: pool_config_ok_def ex_pool_config_def)
  moreover have "pool_sized (ex_pool_config 2) 2 ex_pool_buffers"
    by (simp add: pool_sized_def ex_pool_config_def ex_pool_buffers_def)
  moreover have "max_num_reqs (rs_batch ex_pool_state) = 2" "max_model_len (rs_batch ex_pool_state) = 4"
    by (simp_all add: ex_pool_state_def new_input_batch_def Let_def)
  moreover have "length (po_num_scheduled_tokens ex_pool_two) = 2"
    "int (po_total_num_scheduled_tokens ex_pool_two) \<le> last (num_tokens_paddings (pc_step (ex_pool_config 2)))"
    by (simp_all add: ex_pool_two_def ex_pool_config_def)
  ultimately show ?thesis using ex_pool_inv ex_pool_two_consistent by (simp add: pool_setting_def)
qed


text \<open>The same two requests when a group takes one.\<close>

definition ex_pool_batch :: "nat input_batch" where
  "ex_pool_batch = (new_input_batch True 2 4 8 0 (\<lambda>_. 0) (\<lambda>_. 0))\<lparr>req_ids := [Some ''a'', Some ''b''],
     req_id_to_index := [(''a'', 0), (''b'', 1)], token_ids_cpu := [[1, 2, 3, 0], [4, 5, 0, 0]],
     num_tokens := [3, 2], num_prompt_tokens := [3, 2],
     pooling_params := map (\<lambda>r. (r, \<lparr> pp_requires_token_ids = False, pp_task = ''embed'' \<rparr>)) [''a'', ''b''],
     pooling_states := [(''a'', 0), (''b'', 0)]\<rparr>"

theorem later_pooling_groups_lose_all_outputs_witness:
  "\<exists>outs buf'. pool_loop 3 (ex_pool_config 1) (Some ex_pooler) (\<lambda>inp. Inr (ex_sum_model inp)) ex_pool_batch 5
      [(''a'', 3), (''b'', 2)] 0 ex_pool_buffers None = Some (Inr (Some outs, buf'))
    \<and> num_reqs ex_pool_batch = 2 \<and> length outs < 2 \<and> set outs \<subseteq> {None}"
proof -
  have "case pool_loop 3 (ex_pool_config 1) (Some ex_pooler) (\<lambda>inp. Inr (ex_sum_model inp)) ex_pool_batch 5
      [(''a'', 3), (''b'', 2)] 0 ex_pool_buffers None of Some (Inr (Some _, _)) \<Rightarrow> True | _ \<Rightarrow> False"
    by code_simp
  then obtain outs buf' where r: "pool_loop 3 (ex_pool_config 1) (Some ex_pooler) (\<lambda>inp. Inr (ex_sum_model inp)) ex_pool_batch 5
      [(''a'', 3), (''b'', 2)] 0 ex_pool_buffers None = Some (Inr (Some outs, buf'))"
    by (auto split: option.splits sum.splits)
  have "most_model_len (pc_step (ex_pool_config 1)) = None" "num_reqs_max_model_len (pc_step (ex_pool_config 1)) = 1"
    "num_reqs ex_pool_batch = 2" "num_prompt_tokens ex_pool_batch = [3, 2]"
    by (simp_all add: ex_pool_config_def ex_pool_batch_def num_reqs_def)
  then show ?thesis using later_pooling_groups_lose_all_outputs [OF _ _ _ ex_pooler_laws r] r by auto
qed

end
